(* ===== verification/Prelude.thy ===== *)
theory Prelude
  imports Complex_Main "HOL-Library.AList" "HOL-Library.List_Lexorder" "HOL-Library.Char_ord"
    "HOL-Library.Product_Lexorder"
begin

text \<open>
  What the component theories share.

  \<^item> \<open>py_error\<close>: the exceptions the modelled code raises, as values.  A Python method that may
    raise after it has already written to the store is a function
    \<open>'s \<Rightarrow> (py_error + 'a) \<times> 's\<close>: the second component is the store the caller of the failed
    call is left with.
  \<^item> \<open>('k, 'v) dict\<close>: a Python dict, as an association list in insertion order.  Assigning to a
    key that is present keeps its position, a new key goes to the end; this is what
    \<open>AList.update\<close> does, and \<open>map_of\<close> is the lookup.  Strings and tuples are ordered
    lexicographically, and \<open>sort_key\<close> is Python's stable \<open>sorted(_, key=_)\<close>.
  \<^item> \<open>instant\<close>: a UTC instant in microseconds since the Unix epoch.  The text timestamps of
    \<open>iso_now\<close> carry whole seconds and are represented by the instant they denote.
  \<^item> the locales of the interfaces that several components implement: \<open>invariant_run\<close> and
    \<open>conserving_run\<close> (an operation set that keeps an invariant, or a total),
    \<open>insert_once\<close> (a table whose entries no operation rewrites).
\<close>

section \<open>Errors and results\<close>

datatype py_error =
    ValueError string
  | KeyError string
  | ZeroDivisionError
  | RuntimeError string
  | StoreConflict string
  | BillingPausedError
  | DeferredSettlementCapReached
  | CreditTransferConflict
  | TransferIdReused
  | DestinationMismatch
  | CreditTransferUnavailable
  | WorkspaceOwnerLimitExceeded
  | OwnerTrustMutationBudgetExceeded
  | AmbiguousGatewayRequestId
  | PermissionError string
  | StopIteration
  | CreditRowsIncomplete "int option"
  | CreditRowsChanged
  | EscrowPlanError
  | RebalanceInvariantError
  | AssertionError
  | IndexError
  | SettleError
  | AlreadyExists
  | FailedPrecondition

type_synonym 'a result = "py_error + 'a"

type_synonym ('s, 'a) exec = "'s \<Rightarrow> 'a result \<times> 's"

definition is_ok :: "'e + 'a \<Rightarrow> bool" where
  "is_ok r \<longleftrightarrow> (case r of Inl _ \<Rightarrow> False | Inr _ \<Rightarrow> True)"

lemma is_ok_simps [simp]: "is_ok (Inr x)" "\<not> is_ok (Inl e)"
  by (simp_all add: is_ok_def)

lemma is_ok_pairE:
  assumes "is_ok (fst p)"
  obtains r s where "p = (Inr r, s)"
  using assms by (cases p) (auto simp: is_ok_def split: sum.splits)

type_synonym microdollars = int

text \<open>\<open>int(x or 0)\<close> for an optional integer.\<close>

definition oint :: "int option \<Rightarrow> int" where
  "oint x = (case x of None \<Rightarrow> 0 | Some i \<Rightarrow> i)"

lemma oint_simps [simp]: "oint None = 0" "oint (Some i) = i"
  by (simp_all add: oint_def)

text \<open>\<open>x or \"\"\<close> and \<open>x or d\<close> for optional text: the empty string is falsy.\<close>

definition ostr :: "string option \<Rightarrow> string" where
  "ostr x = (case x of None \<Rightarrow> [] | Some v \<Rightarrow> v)"

definition str_or :: "string option \<Rightarrow> string option \<Rightarrow> string option" where
  "str_or x d = (case x of None \<Rightarrow> d | Some v \<Rightarrow> if v = [] then d else Some v)"

lemma ostr_simps [simp]: "ostr None = []" "ostr (Some v) = v"
  by (simp_all add: ostr_def)

type_synonym instant = int

section \<open>Dictionaries\<close>

type_synonym ('k, 'v) dict = "('k \<times> 'v) list"

abbreviation dget :: "('k, 'v) dict \<Rightarrow> 'k \<Rightarrow> 'v option" where
  "dget \<equiv> map_of"

abbreviation dset :: "'k \<Rightarrow> 'v \<Rightarrow> ('k, 'v) dict \<Rightarrow> ('k, 'v) dict" where
  "dset \<equiv> AList.update"

abbreviation dpop :: "'k \<Rightarrow> ('k, 'v) dict \<Rightarrow> ('k, 'v) dict" where
  "dpop \<equiv> AList.delete"

abbreviation dvals :: "('k, 'v) dict \<Rightarrow> 'v list" where
  "dvals d \<equiv> map snd d"

definition dget_or :: "'v \<Rightarrow> ('k, 'v) dict \<Rightarrow> 'k \<Rightarrow> 'v" where
  "dget_or v d k = (case dget d k of None \<Rightarrow> v | Some w \<Rightarrow> w)"

named_theorems dict_simps \<open>lookups after a write to a dict\<close>

lemma dget_dset [simp, dict_simps]:
  "dget (dset k v d) k' = (if k' = k then Some v else dget d k')"
  by (simp add: update_conv')

lemma dget_dpop [simp, dict_simps]:
  "dget (dpop k d) k' = (if k' = k then None else dget d k')"
  by (simp add: delete_conv')

lemma dget_or_dset [simp, dict_simps]:
  "dget_or x (dset k v d) k' = (if k' = k then v else dget_or x d k')"
  by (simp add: dget_or_def)

lemma dget_or_Nil [simp]: "dget_or x [] k = x"
  by (simp add: dget_or_def)

lemma dget_SomeD: "dget d k = Some v \<Longrightarrow> (k, v) \<in> set d"
  by (rule map_of_SomeD)

lemma set_dset: "set (dset k v d) \<subseteq> insert (k, v) (set d)"
  by (induction d) auto

lemma dvals_dset: "set (dvals (dset k v d)) \<subseteq> insert v (set (dvals d))"
  using set_dset [of k v d] by force

subsection \<open>Sums over the values of a dict\<close>

definition dsum :: "('v \<Rightarrow> int) \<Rightarrow> ('k, 'v) dict \<Rightarrow> int" where
  "dsum f d = sum_list (map f (dvals d))"

lemma dsum_Nil [simp]: "dsum f [] = 0"
  by (simp add: dsum_def)

lemma dsum_Cons [simp]: "dsum f ((k, v) # d) = f v + dsum f d"
  by (simp add: dsum_def)

definition dcell :: "('v \<Rightarrow> int) \<Rightarrow> 'v option \<Rightarrow> int" where
  "dcell f x = (case x of None \<Rightarrow> 0 | Some v \<Rightarrow> f v)"

lemma dcell_simps [simp]: "dcell f None = 0" "dcell f (Some v) = f v"
  by (simp_all add: dcell_def)

lemma dsum_dset: "dsum f (dset k v d) = dsum f d - dcell f (dget d k) + f v"
  by (induction d) auto

lemma dsum_dset_new [simp]: "dget d k = None \<Longrightarrow> dsum f (dset k v d) = dsum f d + f v"
  by (simp add: dsum_dset)

lemma dsum_dset_old [simp]: "dget d k = Some w \<Longrightarrow> dsum f (dset k v d) = dsum f d - f w + f v"
  by (simp add: dsum_dset)

lemma dsum_dset_same: "dget d k = Some w \<Longrightarrow> f v = f w \<Longrightarrow> dsum f (dset k v d) = dsum f d"
  by simp

lemma dsum_nonneg: "(\<And>v. v \<in> set (dvals d) \<Longrightarrow> 0 \<le> f v) \<Longrightarrow> 0 \<le> dsum f d"
  by (induction d) auto

lemma dsum_ge_cell:
  assumes "dget d k = Some v" and "\<And>w. w \<in> set (dvals d) \<Longrightarrow> 0 \<le> f w"
  shows "f v \<le> dsum f d"
  using assms
proof (induction d)
  case (Cons p d)
  then show ?case
    using dsum_nonneg [of d f] by (cases p) (fastforce split: if_splits)
qed simp

lemma dsum_dpop: "distinct (map fst d) \<Longrightarrow> dsum f (dpop k d) = dsum f d - dcell f (dget d k)"
proof (induction d)
  case (Cons kv d)
  then have "fst kv = k \<Longrightarrow> dpop k d = d" by (auto simp: delete_id)
  then show ?case using Cons by (cases kv) auto
qed simp

text \<open>Over distinct keys a sum of the values is a sum over the domain of the map.\<close>

lemma dsum_dom: "distinct (map fst d) \<Longrightarrow> dsum f d = (\<Sum>k \<in> dom (dget d). f (the (dget d k)))"
proof (induction d)
  case (Cons kv d)
  obtain k v where kv: "kv = (k, v)" by (cases kv)
  have k: "k \<notin> dom (dget d)" using Cons.prems kv by (simp add: dom_map_of_conv_image_fst)
  have "(\<Sum>x \<in> dom (dget d). f (the (dget (kv # d) x))) = (\<Sum>x \<in> dom (dget d). f (the (dget d x)))"
    using k kv by (intro sum.cong) auto
  then have "(\<Sum>x \<in> insert k (dom (dget d)). f (the (dget (kv # d) x))) = f v + dsum f d"
    using Cons k kv by (subst sum.insert) (simp_all add: finite_dom_map_of)
  moreover have "dom (dget (kv # d)) = insert k (dom (dget d))" using kv by auto
  ultimately show ?case using kv by (simp only: dsum_Cons)
qed simp

lemma dsum_cong: "(\<And>v. v \<in> set (dvals d) \<Longrightarrow> f v = g v) \<Longrightarrow> dsum f d = dsum g d"
  by (induction d) auto

text \<open>The sum over the items, for a summand that looks at the key too.\<close>

definition esum :: "('k \<Rightarrow> 'v \<Rightarrow> int) \<Rightarrow> ('k, 'v) dict \<Rightarrow> int" where
  "esum f d = sum_list (map (\<lambda>kv. f (fst kv) (snd kv)) d)"

definition ecell :: "('k \<Rightarrow> 'v \<Rightarrow> int) \<Rightarrow> 'k \<Rightarrow> 'v option \<Rightarrow> int" where
  "ecell f k x = (case x of None \<Rightarrow> 0 | Some v \<Rightarrow> f k v)"

lemma esum_simps [simp]: "esum f [] = 0" "esum f (kv # d) = f (fst kv) (snd kv) + esum f d"
  by (simp_all add: esum_def)

lemma ecell_simps [simp]: "ecell f k None = 0" "ecell f k (Some v) = f k v"
  by (simp_all add: ecell_def)

lemma esum_dset: "esum f (dset k v d) = esum f d - ecell f k (dget d k) + f k v"
  by (induction d) auto

lemma esum_cong: "(\<And>k v. (k, v) \<in> set d \<Longrightarrow> f k v = g k v) \<Longrightarrow> esum f d = esum g d"
  by (induction d) auto

text \<open>Changing the summand at one key.\<close>

lemma esum_summand_at:
  assumes "distinct (map fst d)" and "\<And>k' v. k' \<noteq> k \<Longrightarrow> g k' v = f k' v"
  shows "esum g d = esum f d - ecell f k (dget d k) + ecell g k (dget d k)"
  using assms(1)
proof (induction d)
  case (Cons kv d)
  show ?case
  proof (cases "fst kv = k")
    case True
    then have "dget d k = None" using Cons.prems by (simp add: map_of_eq_None_iff)
    then show ?thesis using Cons True by simp
  next
    case False
    then show ?thesis using Cons assms(2) [OF False] by auto
  qed
qed simp

lemma length_dset: "length (dset k v d) = (if k \<in> fst ` set d then length d else Suc (length d))"
  by (induction d) auto

lemma length_dpop: "length (dpop k d) \<le> length d"
  by (induction d) auto

subsection \<open>The first match of a list\<close>

lemma find_SomeD: "List.find P xs = Some x \<Longrightarrow> x \<in> set xs \<and> P x"
  by (auto simp: find_Some_iff)

lemma find_NoneD: "List.find P xs = None \<Longrightarrow> x \<in> set xs \<Longrightarrow> \<not> P x"
  by (auto simp: find_None_iff)

text \<open>\<open>xs[:n]\<close>: a negative bound counts from the end.\<close>

definition slice_to :: "int \<Rightarrow> 'a list \<Rightarrow> 'a list" where
  "slice_to n xs = (if 0 \<le> n then take (nat n) xs else take (length xs - nat (- n)) xs)"

section \<open>Text\<close>

text \<open>
  Python strings are lists of characters read as Latin-1 code points.  \<open>py_strip\<close> and \<open>py_lower\<close>
  are \<open>str.strip()\<close> and \<open>str.lower()\<close> on them; \<open>py_str_int\<close> is \<open>str(n)\<close>, and \<open>zpad\<close> the zero
  padding of a format specification such as \<open>:06d\<close>.
\<close>

definition py_space :: "char \<Rightarrow> bool" where
  "py_space c \<longleftrightarrow> of_char c \<in> ({9, 10, 11, 12, 13, 28, 29, 30, 31, 32, 133, 160} :: nat set)"

definition py_strip :: "string \<Rightarrow> string" where
  "py_strip s = rev (dropWhile py_space (rev (dropWhile py_space s)))"

lemma dropWhile_hd: "dropWhile P xs = [] \<or> \<not> P (hd (dropWhile P xs))"
  using hd_dropWhile by blast

lemma dropWhile_id: "xs = [] \<or> \<not> P (hd xs) \<Longrightarrow> dropWhile P xs = xs"
  by (cases xs) auto

lemma rev_dropWhile_hd: "rev (dropWhile P (rev xs)) = [] \<or> hd (rev (dropWhile P (rev xs))) = hd xs"
proof (cases "rev (dropWhile P (rev xs)) = []")
  case False
  have "xs = rev (dropWhile P (rev xs)) @ rev (takeWhile P (rev xs))"
    by (metis rev_append rev_rev_ident takeWhile_dropWhile_id)
  then show ?thesis using False by (metis hd_append)
qed simp

lemma py_strip_strip [simp]: "py_strip (py_strip s) = py_strip s"
proof -
  let ?y = "dropWhile py_space s" and ?z = "rev (dropWhile py_space (rev (dropWhile py_space s)))"
  have "?z = [] \<or> \<not> py_space (hd ?z)"
    using rev_dropWhile_hd [of py_space ?y] dropWhile_hd [of py_space s] by fastforce
  then have "dropWhile py_space ?z = ?z" by (rule dropWhile_id)
  then show ?thesis
    unfolding py_strip_def by (simp add: dropWhile_idem)
qed

definition py_lower_char :: "char \<Rightarrow> char" where
  "py_lower_char c =
     (let n = (of_char c :: nat)
      in if 65 \<le> n \<and> n \<le> 90 \<or> 192 \<le> n \<and> n \<le> 222 \<and> n \<noteq> 215 then char_of (n + 32) else c)"

lemma of_char_lower:
  "of_char (py_lower_char c) =
     (let n = (of_char c :: nat) in if 65 \<le> n \<and> n \<le> 90 \<or> 192 \<le> n \<and> n \<le> 222 \<and> n \<noteq> 215 then n + 32 else n)"
  by (simp add: py_lower_char_def Let_def of_char_of)

lemma py_lower_char_space: "py_space (py_lower_char c) = py_space c"
  by (simp add: py_space_def of_char_lower Let_def)

lemma py_lower_char_idem: "py_lower_char (py_lower_char c) = py_lower_char c"
  unfolding py_lower_char_def [of "py_lower_char c"] Let_def of_char_lower by auto

definition py_lower :: "string \<Rightarrow> string" where
  "py_lower s = map py_lower_char s"

lemma py_strip_lower: "py_strip (py_lower s) = py_lower (py_strip s)"
  by (simp add: py_strip_def py_lower_def dropWhile_map rev_map comp_def py_lower_char_space)

lemma py_lower_lower [simp]: "py_lower (py_lower s) = py_lower s"
  by (simp add: py_lower_def py_lower_char_idem)

text \<open>\<open>str.upper()\<close>; the two lower-case letters whose capitals are outside Latin-1 (the micro
  sign and y with diaeresis) are left as they are.\<close>

definition py_upper_char :: "char \<Rightarrow> string" where
  "py_upper_char c =
     (let n = (of_char c :: nat)
      in if n = 223 then ''SS''
         else if 97 \<le> n \<and> n \<le> 122 \<or> 224 \<le> n \<and> n \<le> 254 \<and> n \<noteq> 247 then [char_of (n - 32)]
         else [c])"

definition py_upper :: "string \<Rightarrow> string" where
  "py_upper s = concat (map py_upper_char s)"

definition startswith :: "string \<Rightarrow> string \<Rightarrow> bool" where
  "startswith p s \<longleftrightarrow> take (length p) s = p"

definition digit_char :: "nat \<Rightarrow> char" where
  "digit_char d = char_of (48 + d)"

fun nat_str :: "nat \<Rightarrow> string" where
  "nat_str n = (if n < 10 then [digit_char n] else nat_str (n div 10) @ [digit_char (n mod 10)])"

declare nat_str.simps [simp del]

definition py_str_int :: "int \<Rightarrow> string" where
  "py_str_int i = (if i < 0 then CHR ''-'' # nat_str (nat (- i)) else nat_str (nat i))"

definition zpad :: "nat \<Rightarrow> string \<Rightarrow> string" where
  "zpad w s = replicate (w - length s) (CHR ''0'') @ s"

text \<open>The number a text of digits denotes.\<close>

lemma digit_char_code: "d < 10 \<Longrightarrow> of_char (digit_char d) = 48 + d"
  by (simp add: digit_char_def)

definition digits_value :: "string \<Rightarrow> int" where
  "digits_value ds = foldl (\<lambda>n c. n * 10 + int (of_char c - 48)) 0 ds"

lemma digits_value_nat_str: "digits_value (nat_str n) = int n"
proof (induction n rule: nat_str.induct)
  case (1 n)
  then show ?case
    by (cases "n < 10") (simp_all add: nat_str.simps [of n] digits_value_def digit_char_code zmod_int zdiv_int)
qed

lemma nat_str_digits: "c \<in> set (nat_str n) \<Longrightarrow> 48 \<le> (of_char c :: nat) \<and> (of_char c :: nat) < 58"
proof (induction n rule: nat_str.induct)
  case (1 n)
  have d: "of_char (digit_char k) = 48 + k" if "k < 10" for k using digit_char_code [OF that] .
  from 1 show ?case
    by (cases "n < 10") (auto simp: nat_str.simps [of n] d)
qed

lemma nat_str_inj: "nat_str m = nat_str n \<longleftrightarrow> m = n"
  using digits_value_nat_str by (metis of_nat_eq_iff)

lemma nat_str_no_colon: "CHR '':'' \<notin> set (nat_str n)" and nat_str_no_minus: "CHR ''-'' \<notin> set (nat_str n)"
  using nat_str_digits [of "CHR '':''" n] nat_str_digits [of "CHR ''-''" n] by auto

section \<open>Runs that keep an invariant\<close>

text \<open>
  A component offers a set of operations; \<open>step e s\<close> is the store after the operation \<open>e\<close>.
  A run is a list of operations, whatever the callers and however their calls interleave.
\<close>

primrec legal_run :: "('e \<Rightarrow> 's \<Rightarrow> 's) \<Rightarrow> ('e \<Rightarrow> 's \<Rightarrow> bool) \<Rightarrow> 'e list \<Rightarrow> 's \<Rightarrow> bool" where
  "legal_run step legal [] s = True"
| "legal_run step legal (e # es) s = (legal e s \<and> legal_run step legal es (step e s))"

text \<open>\<open>legal\<close> is what the environment guarantees of a call, such as that a random identifier is
  fresh.\<close>

lemma legal_run_append:
  "legal_run step legal (es @ fs) s \<longleftrightarrow> legal_run step legal es s \<and> legal_run step legal fs (fold step es s)"
  by (induction es arbitrary: s) simp_all

lemma legal_run_True [simp]: "legal_run step (\<lambda>_ _. True) es s"
  by (induction es arbitrary: s) simp_all

locale invariant_run =
  fixes step :: "'e \<Rightarrow> 's \<Rightarrow> 's"
    and legal :: "'e \<Rightarrow> 's \<Rightarrow> bool"
    and inv :: "'s \<Rightarrow> bool"
  assumes step_inv: "inv s \<Longrightarrow> legal e s \<Longrightarrow> inv (step e s)"
begin

lemma run_inv: "inv s \<Longrightarrow> legal_run step legal es s \<Longrightarrow> inv (fold step es s)"
  by (induction es arbitrary: s) (simp_all add: step_inv)

end

locale conserving_run = invariant_run +
  fixes total :: "'s \<Rightarrow> int"
  assumes step_total: "inv s \<Longrightarrow> legal e s \<Longrightarrow> total (step e s) = total s"
begin

lemma run_total: "inv s \<Longrightarrow> legal_run step legal es s \<Longrightarrow> total (fold step es s) = total s"
  by (induction es arbitrary: s) (simp_all add: step_inv step_total)

end

text \<open>A run refines a specification when every legal operation acts on the abstraction of the state
  as the specification says.\<close>

locale refining_run = invariant_run +
  fixes abs :: "'s \<Rightarrow> 'a" and spec :: "'e \<Rightarrow> 'a \<Rightarrow> 'a"
  assumes step_abs: "inv s \<Longrightarrow> legal e s \<Longrightarrow> abs (step e s) = spec e (abs s)"
begin

lemma run_abs: "inv s \<Longrightarrow> legal_run step legal es s \<Longrightarrow> abs (fold step es s) = fold spec es (abs s)"
  by (induction es arbitrary: s) (simp_all add: step_inv step_abs)

end

section \<open>Insert-once tables\<close>

text \<open>
  An idempotency table, a claim table, a set of processed event ids: once an entry is written no
  operation changes or removes it, so every later caller learns the first writer's verdict.
\<close>

locale insert_once =
  fixes step :: "'e \<Rightarrow> 's \<Rightarrow> 's"
    and entry :: "'s \<Rightarrow> 'k \<Rightarrow> 'v option"
  assumes entry_kept: "entry s k = Some v \<Longrightarrow> entry (step e s) k = Some v"
begin

lemma run_entry_kept: "entry s k = Some v \<Longrightarrow> entry (fold step es s) k = Some v"
  by (induction es arbitrary: s) (simp_all add: entry_kept)

lemma run_entry_unique:
  assumes "entry s k = Some v" and "entry (fold step es s) k = Some w"
  shows "w = v"
  using run_entry_kept [OF assms(1), of es] assms(2) by simp

end

text \<open>The same contract where it takes an invariant of the state to see it.\<close>

locale invariant_once = invariant_run +
  fixes entry :: "'s \<Rightarrow> 'k \<Rightarrow> 'v option"
  assumes step_entry: "inv s \<Longrightarrow> legal e s \<Longrightarrow> entry s k = Some v \<Longrightarrow> entry (step e s) k = Some v"
begin

lemma run_entry: "inv s \<Longrightarrow> legal_run step legal es s \<Longrightarrow> entry s k = Some v \<Longrightarrow> entry (fold step es s) k = Some v"
  by (induction es arbitrary: s) (simp_all add: step_inv step_entry)

end

sublocale insert_once \<subseteq> unconditional: invariant_once step "\<lambda>_ _. True" "\<lambda>_. True" entry
  by unfold_locales (simp_all add: entry_kept)

end
