(* ===== verification/Models.thy ===== *)
theory Models
  imports Prelude
begin

text \<open>
  The data of \<open>src/src/trusted_router/storage_models.py\<close> and \<open>types.py\<close>: one record per
  dataclass, with the dataclass's fields in its order (the prefix of a field name tells the
  record).  Text timestamps are \<open>instant\<close>s; a Python float is a \<open>rat\<close>; JSON values that no
  modelled operation looks into (JWKs, tool calls) are strings.
\<close>

section \<open>Usage types\<close>

datatype usage_type = CREDITS | BYOK

text \<open>\<open>UsageType.coerce\<close>; a member of the enumeration is the string of its value.\<close>

definition usage_str :: "usage_type \<Rightarrow> string" where
  "usage_str u = (case u of CREDITS \<Rightarrow> ''Credits'' | BYOK \<Rightarrow> ''BYOK'')"

definition coerce_usage :: "string \<Rightarrow> usage_type" where
  "coerce_usage v = (if py_lower (py_strip v) = ''byok'' then BYOK else CREDITS)"

definition is_byok :: "string \<Rightarrow> bool" where
  "is_byok u \<longleftrightarrow> coerce_usage u = BYOK"

lemma coerce_usage_values: "coerce_usage ''Credits'' = CREDITS" "coerce_usage ''BYOK'' = BYOK"
  by code_simp+

lemma coerce_usage_str [simp]: "coerce_usage (usage_str u) = u"
  by (cases u) (simp_all add: usage_str_def coerce_usage_values)

lemma is_byok_usage_str [simp]: "is_byok (usage_str u) \<longleftrightarrow> u = BYOK"
  by (simp add: is_byok_def)

section \<open>API keys\<close>

record api_key =
  ak_hash :: string
  ak_salt :: string
  ak_secret_hash :: string
  ak_lookup_hash :: string
  ak_name :: string
  ak_label :: string
  ak_workspace_id :: string
  ak_creator_user_id :: "string option"
  ak_scopes :: "string list"
  ak_app_id :: string
  ak_federated_app_suspended :: bool
  ak_federated_app_markup_basis_points :: int
  ak_federated_app_owner_user_id :: string
  ak_disabled :: bool
  ak_management :: bool
  ak_limit :: "microdollars option"
  ak_limit_reset :: "string option"
  ak_limit_daily :: "microdollars option"
  ak_limit_weekly :: "microdollars option"
  ak_limit_monthly :: "microdollars option"
  ak_budget_alert_only :: bool
  ak_budget_strict :: bool
  ak_budget_alerted :: "(string, string) dict"
  ak_include_byok_in_limit :: bool
  ak_usage :: microdollars
  ak_byok_usage :: microdollars
  ak_expires_at :: "instant option"
  ak_created_at :: instant
  ak_updated_at :: "instant option"
  ak_reserved :: microdollars
  ak_usage_shard_count :: int
  ak_tags :: "(string, string) dict"
  ak_federated_home :: string

section \<open>Credit\<close>

record credit_account =
  ca_workspace_id :: string
  ca_shard_count :: nat
  ca_auto_refill_enabled :: bool
  ca_auto_refill_threshold :: microdollars
  ca_auto_refill_amount :: microdollars
  ca_stripe_customer_id :: "string option"
  ca_stripe_payment_method_id :: "string option"
  ca_last_auto_refill_at :: "instant option"
  ca_last_auto_refill_status :: "string option"

definition new_credit_account :: "string \<Rightarrow> credit_account" where
  "new_credit_account w = \<lparr>ca_workspace_id = w, ca_shard_count = 1, ca_auto_refill_enabled = False,
     ca_auto_refill_threshold = 0, ca_auto_refill_amount = 0, ca_stripe_customer_id = None,
     ca_stripe_payment_method_id = None, ca_last_auto_refill_at = None,
     ca_last_auto_refill_status = None\<rparr>"

record credit_money =
  cm_credits :: microdollars
  cm_usage :: microdollars
  cm_reserved :: microdollars

definition new_credit_money :: "microdollars \<Rightarrow> credit_money" where
  "new_credit_money c = \<lparr>cm_credits = c, cm_usage = 0, cm_reserved = 0\<rparr>"

text \<open>\<open>total_credits - total_usage - reserved\<close>, the expression every guard of the ledger uses.\<close>

definition available :: "credit_money \<Rightarrow> microdollars" where
  "available m = cm_credits m - cm_usage m - cm_reserved m"

record credit_movement =
  mv_account_id :: string
  mv_movement_id :: string
  mv_kind :: string
  mv_amount :: microdollars
  mv_counterparty :: "string option"
  mv_custom_model_id :: "string option"
  mv_authorization_id :: "string option"
  mv_created_at :: instant

record credit_provenance =
  cp_source :: string
  cp_provider :: string
  cp_external_ref :: "string option"
  cp_occurred_at :: instant

section \<open>Trust events\<close>

record trust_event =
  te_workspace_id :: string
  te_event_id :: string
  te_kind :: string
  te_provider :: string
  te_amount :: "microdollars option"
  te_original_payment_ref :: "string option"
  te_adverse_ref :: "string option"
  te_occurred_at :: instant
  te_recorded_at :: instant
  te_payment_amount :: "microdollars option"
  te_currency :: "string option"
  te_credited :: "microdollars option"
  te_recovered :: "microdollars option"
  te_provider_subtype :: "string option"
  te_lifecycle_status :: "string option"
  te_cumulative_refunded :: "microdollars option"
  te_recovery_target :: "microdollars option"
  te_debit_status :: "string option"
  te_unrecovered :: "microdollars option"
  te_watermark :: "string option"

record adverse_trust_event =
  av_event_id :: string
  av_provider :: string
  av_kind :: string
  av_adverse_ref :: string
  av_original_payment_ref :: string
  av_amount :: microdollars
  av_provider_subtype :: string
  av_lifecycle_status :: string
  av_occurred_at :: instant
  av_watermark :: string
  av_payload :: string

record adverse_trust_result =
  ar_outcome :: string
  ar_workspace_id :: "string option"
  ar_recovery_target :: microdollars
  ar_recovered :: microdollars
  ar_unrecovered :: microdollars
  ar_provider :: "string option"

section \<open>Reservations and authorizations\<close>

record reservation =
  rv_id :: string
  rv_workspace_id :: string
  rv_key_hash :: string
  rv_amount :: microdollars
  rv_settled :: bool
  rv_created_at :: instant
  rv_idempotency_key :: "string option"

text \<open>
  A gateway authorization in three groups of fields: the terms that \<open>create_gateway_authorization\<close>
  freezes from its arguments, the Stage D and fast-path fields it leaves at their defaults, and
  what \<open>record_finalization\<close> writes.
\<close>

record auth_terms =
  tm_model_id :: string
  tm_provider :: string
  tm_usage_type :: usage_type
  tm_estimated :: microdollars
  tm_credit_reservation_id :: "string option"
  tm_key_reserved :: "microdollars option"
  tm_requested_model_id :: "string option"
  tm_candidate_model_ids :: "string list"
  tm_region :: "string option"
  tm_endpoint_id :: "string option"
  tm_candidate_endpoint_ids :: "string list"
  tm_idempotency_key :: "string option"
  tm_tags :: "(string, string) dict"
  tm_idempotency_fingerprint :: "string option"
  tm_app_id :: string
  tm_app_markup_basis_points :: int
  tm_app_owner_user_id :: string
  tm_receipt_fee_basis_points :: int
  tm_custom_model_id :: "string option"
  tm_custom_model_revision :: "int option"
  tm_custom_model_markup_basis_points :: int
  tm_custom_model_owner_user_id :: string
  tm_user_provided_model_id :: "string option"
  tm_user_provided_model_revision :: "int option"
  tm_user_model_prompt_price :: "microdollars option"
  tm_user_model_completion_price :: "microdollars option"
  tm_user_model_owner_user_id :: "string option"
  tm_additional_cost_reservation :: microdollars
  tm_native_batch_eligible :: bool
  tm_video_pricing_snapshot :: "string option"
  tm_settlement :: string
  tm_expires_at :: "instant option"
  tm_pricing_snapshot :: "string option"
  tm_invocation_nonce :: "string option"
  tm_stage_d_reason :: "string option"

record auth_progress =
  pg_started_at :: "instant option"
  pg_heartbeat_seq :: "int option"
  pg_heartbeat_at :: "instant option"
  pg_heartbeat_hash :: "string option"
  pg_selected_endpoint_id :: "string option"
  pg_delivered_usage :: "string option"
  pg_stage_d_boot_kid :: "string option"
  pg_stage_d_prompt_tokens :: "int option"
  pg_stage_d_max_output_tokens :: "int option"
  pg_fastpath_envelope :: "string option"
  pg_fastpath_end_of_life :: "instant option"

record auth_final =
  fn_finalization_outcome :: "string option"
  fn_finalized_cost :: "microdollars option"
  fn_finalized_usage_type :: "string option"
  fn_finalized_generation_id :: "string option"
  fn_finalized_model_id :: "string option"
  fn_finalized_provider :: "string option"
  fn_finalized_region :: "string option"
  fn_finalized_input_tokens :: "int option"
  fn_finalized_output_tokens :: "int option"
  fn_finalized_reasoning_tokens :: "int option"
  fn_finalized_cached_input_tokens :: "int option"
  fn_gateway_request_id :: "string option"

record gateway_authorization =
  ga_id :: string
  ga_workspace_id :: string
  ga_key_hash :: string
  ga_settled :: bool
  ga_created_at :: instant
  ga_terms :: auth_terms
  ga_progress :: auth_progress
  ga_final :: auth_final

definition no_progress :: auth_progress where
  "no_progress = \<lparr>pg_started_at = None, pg_heartbeat_seq = None, pg_heartbeat_at = None, pg_heartbeat_hash = None, pg_selected_endpoint_id = None, pg_delivered_usage = None, pg_stage_d_boot_kid = None, pg_stage_d_prompt_tokens = None, pg_stage_d_max_output_tokens = None, pg_fastpath_envelope = None, pg_fastpath_end_of_life = None\<rparr>"

definition no_final :: auth_final where
  "no_final = \<lparr>fn_finalization_outcome = None, fn_finalized_cost = None, fn_finalized_usage_type = None, fn_finalized_generation_id = None, fn_finalized_model_id = None, fn_finalized_provider = None, fn_finalized_region = None, fn_finalized_input_tokens = None, fn_finalized_output_tokens = None, fn_finalized_reasoning_tokens = None, fn_finalized_cached_input_tokens = None, fn_gateway_request_id = None\<rparr>"

section \<open>Generations\<close>

record generation =
  gn_id :: string
  gn_request_id :: string
  gn_workspace_id :: string
  gn_key_hash :: string
  gn_model :: string
  gn_provider_name :: string
  gn_app :: string
  gn_tokens_prompt :: int
  gn_tokens_completion :: int
  gn_total_cost :: microdollars
  gn_usage_type :: usage_type
  gn_speed :: rat
  gn_finish_reason :: string
  gn_status :: string
  gn_streamed :: bool
  gn_app_id :: string
  gn_app_markup :: microdollars
  gn_custom_model_markup :: microdollars
  gn_usage_estimated :: bool
  gn_settled_from :: "string option"
  gn_cached_input_tokens :: int
  gn_reasoning_tokens :: int
  gn_tool_calls :: "string list option"
  gn_created_at :: instant
  gn_provider :: "string option"
  gn_elapsed_milliseconds :: "int option"
  gn_first_token_milliseconds :: "int option"
  gn_ttfb_milliseconds :: "int option"
  gn_region :: "string option"
  gn_user :: "string option"
  gn_session_id :: "string option"
  gn_http_referer :: "string option"
  gn_app_categories :: "string list"
  gn_tags :: "(string, string) dict"
  gn_gateway_request_id :: "string option"
  gn_synthetic :: bool
  gn_client_source :: "string option"
  gn_client_sdk :: "string option"
  gn_client_sdk_version :: "string option"
  gn_client_lang :: "string option"
  gn_client_runtime :: "string option"
  gn_client_os :: "string option"
  gn_client_arch :: "string option"
  gn_client_timeout_ms :: "int option"
  gn_client_attempt :: "int option"
  gn_client_prev_outcome :: "string option"
  gn_client_prev_error_class :: "string option"
  gn_client_prev_host :: "string option"
  gn_client_prev_elapsed_ms :: "int option"
  gn_client_since_first_ms :: "int option"
  gn_client_stream :: "bool option"
  gn_client_failover_used :: "bool option"
  gn_operator_cost :: "microdollars option"
  gn_custom_model_id :: "string option"
  gn_route_type :: "string option"
  gn_video_input_mode :: "string option"
  gn_video_duration_seconds :: "int option"
  gn_video_resolution :: "string option"
  gn_video_aspect_ratio :: "string option"
  gn_video_generate_audio :: "bool option"
  gn_requested_model :: string

record benchmark_sample =
  bs_id :: string
  bs_model :: string
  bs_provider :: string
  bs_provider_name :: string
  bs_status :: string
  bs_usage_type :: usage_type
  bs_streamed :: bool
  bs_workspace_id :: string
  bs_input_tokens :: int
  bs_output_tokens :: int
  bs_total_cost :: microdollars
  bs_speed :: "rat option"
  bs_elapsed_milliseconds :: "int option"
  bs_first_token_milliseconds :: "int option"
  bs_ttfb_milliseconds :: "int option"
  bs_finish_reason :: "string option"
  bs_error_type :: "string option"
  bs_error_status :: "int option"
  bs_error_message :: "string option"
  bs_region :: "string option"
  bs_source :: string
  bs_app :: string
  bs_route_type :: "string option"
  bs_video_input_mode :: "string option"
  bs_video_duration_seconds :: "int option"
  bs_video_resolution :: "string option"
  bs_video_aspect_ratio :: "string option"
  bs_video_generate_audio :: "bool option"
  bs_created_at :: instant

definition provider_from_model_id :: "string \<Rightarrow> string" where
  "provider_from_model_id m = takeWhile (\<lambda>c. c \<noteq> CHR ''/'') m"

text \<open>\<open>ProviderBenchmarkSample.from_generation\<close>; \<open>uuid5_hex\<close> is \<open>uuid.uuid5(NAMESPACE_URL, _).hex\<close>.\<close>

definition from_generation :: "(string \<Rightarrow> string) \<Rightarrow> generation \<Rightarrow> benchmark_sample" where
  "from_generation uuid5_hex g =
     \<lparr>bs_id = ''bench-'' @ uuid5_hex (gn_id g), bs_model = gn_model g,
      bs_provider = (case gn_provider g of
          None \<Rightarrow> provider_from_model_id (gn_model g)
        | Some p \<Rightarrow> if p = [] then provider_from_model_id (gn_model g) else p),
      bs_provider_name = gn_provider_name g, bs_status = gn_status g,
      bs_usage_type = gn_usage_type g, bs_streamed = gn_streamed g,
      bs_workspace_id = gn_workspace_id g, bs_input_tokens = gn_tokens_prompt g,
      bs_output_tokens = gn_tokens_completion g, bs_total_cost = gn_total_cost g,
      bs_speed = Some (gn_speed g), bs_elapsed_milliseconds = gn_elapsed_milliseconds g,
      bs_first_token_milliseconds = gn_first_token_milliseconds g,
      bs_ttfb_milliseconds = gn_ttfb_milliseconds g, bs_finish_reason = Some (gn_finish_reason g),
      bs_error_type = None, bs_error_status = None, bs_error_message = None,
      bs_region = gn_region g, bs_source = ''organic'', bs_app = gn_app g,
      bs_route_type = gn_route_type g, bs_video_input_mode = gn_video_input_mode g,
      bs_video_duration_seconds = gn_video_duration_seconds g,
      bs_video_resolution = gn_video_resolution g, bs_video_aspect_ratio = gn_video_aspect_ratio g,
      bs_video_generate_audio = gn_video_generate_audio g, bs_created_at = gn_created_at g\<rparr>"

subsection \<open>Operations of an authorization\<close>

definition frozen_key_hold :: "gateway_authorization \<Rightarrow> microdollars" where
  "frozen_key_hold a = (case tm_key_reserved (ga_terms a) of None \<Rightarrow> 0 | Some k \<Rightarrow> max 0 k)"

definition gen_field :: "(generation \<Rightarrow> int) \<Rightarrow> generation option \<Rightarrow> int option" where
  "gen_field f g = Some (case g of None \<Rightarrow> 0 | Some x \<Rightarrow> max 0 (f x))"

definition record_finalization ::
  "bool \<Rightarrow> microdollars \<Rightarrow> usage_type \<Rightarrow> generation option \<Rightarrow> string option \<Rightarrow> gateway_authorization \<Rightarrow> gateway_authorization" where
  "record_finalization success actual usage g outcome a = a\<lparr>
     ga_settled := True,
     ga_final := \<lparr>
       fn_finalization_outcome = Some (case outcome of
           None \<Rightarrow> (if success then ''settled'' else ''refunded'')
         | Some x \<Rightarrow> if x = [] then (if success then ''settled'' else ''refunded'') else x),
       fn_finalized_cost = Some (if success then max 0 actual else 0),
       fn_finalized_usage_type = Some (usage_str usage),
       fn_finalized_generation_id = map_option gn_id g,
       fn_finalized_model_id = Some (case g of None \<Rightarrow> tm_model_id (ga_terms a) | Some x \<Rightarrow> gn_model x),
       fn_finalized_provider = (case g of
           None \<Rightarrow> Some (tm_provider (ga_terms a))
         | Some x \<Rightarrow> (case gn_provider x of
              None \<Rightarrow> Some (tm_provider (ga_terms a))
            | Some p \<Rightarrow> if p = [] then Some (tm_provider (ga_terms a)) else Some p)),
       fn_finalized_region = (case g of None \<Rightarrow> tm_region (ga_terms a) | Some x \<Rightarrow> gn_region x),
       fn_finalized_input_tokens = gen_field gn_tokens_prompt g,
       fn_finalized_output_tokens = gen_field gn_tokens_completion g,
       fn_finalized_reasoning_tokens = gen_field gn_reasoning_tokens g,
       fn_finalized_cached_input_tokens = gen_field gn_cached_input_tokens g,
       fn_gateway_request_id = Option.bind g gn_gateway_request_id\<rparr>\<rparr>"

lemma frozen_key_hold_nonneg [simp]: "0 \<le> frozen_key_hold a"
  by (simp add: frozen_key_hold_def split: option.split)

lemma record_finalization_simps [simp]:
  "ga_settled (record_finalization sc ac u g o' a)"
  "ga_id (record_finalization sc ac u g o' a) = ga_id a"
  "ga_workspace_id (record_finalization sc ac u g o' a) = ga_workspace_id a"
  "ga_key_hash (record_finalization sc ac u g o' a) = ga_key_hash a"
  "ga_terms (record_finalization sc ac u g o' a) = ga_terms a"
  by (simp_all add: record_finalization_def)

section \<open>Cross-plane transfers\<close>

record credit_transfer =
  ct_id :: string
  ct_workspace_id :: string
  ct_amount :: microdollars
  ct_destination :: string
  ct_state :: string
  ct_created_at :: instant
  ct_resolved_at :: "instant option"

end
