(* ===== verification/Spend_Windows.thy ===== *)
theory Spend_Windows
  imports Prelude
begin

text \<open>
  The fixed UTC spend windows of \<open>src/src/trusted_router/spend_windows.py\<close>: the start of the
  current day, ISO week and month, when each window resets, and which configured window governs
  a request.

  Dates follow the proleptic Gregorian calendar of Python's \<open>datetime\<close>: a day is its ordinal
  (1 January of year 1 is day 1), \<open>ymd2ord\<close> and \<open>ord2ymd\<close> convert.  The calendar lemmas show
  that \<open>ord2ymd\<close> inverts \<open>ymd2ord\<close>; the window lemmas that every instant lies in the window
  that starts at its floor and ends at its reset.
\<close>

section \<open>Calendar\<close>

definition is_leap :: "int \<Rightarrow> bool" where
  "is_leap y \<longleftrightarrow> y mod 4 = 0 \<and> (y mod 100 \<noteq> 0 \<or> y mod 400 = 0)"

definition days_in_month :: "int \<Rightarrow> nat \<Rightarrow> int" where
  "days_in_month y m =
     (if m = 2 then (if is_leap y then 29 else 28)
      else if m \<in> {4, 6, 9, 11} then 30 else 31)"

definition days_before_year :: "int \<Rightarrow> int" where
  "days_before_year y = (y - 1) * 365 + (y - 1) div 4 - (y - 1) div 100 + (y - 1) div 400"

fun days_before_month :: "int \<Rightarrow> nat \<Rightarrow> int" where
  "days_before_month y 0 = 0"
| "days_before_month y (Suc 0) = 0"
| "days_before_month y (Suc (Suc m)) = days_before_month y (Suc m) + days_in_month y (Suc m)"

definition ymd2ord :: "int \<Rightarrow> nat \<Rightarrow> int \<Rightarrow> int" where
  "ymd2ord y m d = days_before_year y + days_before_month y m + d"

definition year_of_ord :: "int \<Rightarrow> int" where
  "year_of_ord n =
     (let y = (n - 1) * 400 div 146097 + 1
      in if days_before_year (y + 1) < n then y + 1
         else if n \<le> days_before_year y then y - 1 else y)"

function month_of_day :: "int \<Rightarrow> nat \<Rightarrow> int \<Rightarrow> nat \<times> int" where
  "month_of_day y m d =
     (if 12 \<le> m \<or> d \<le> days_in_month y m then (m, d)
      else month_of_day y (Suc m) (d - days_in_month y m))"
  by pat_completeness auto
termination
  by (relation "measure (\<lambda>(y, m, d). 12 - m)") auto

declare month_of_day.simps [simp del]

definition ord2ymd :: "int \<Rightarrow> int \<times> nat \<times> int" where
  "ord2ymd n =
     (let y = year_of_ord n; (m, d) = month_of_day y 1 (n - days_before_year y) in (y, m, d))"

section \<open>Windows\<close>

datatype window = Daily | Weekly | Monthly

definition WINDOWS :: "window list" where
  "WINDOWS = [Daily, Weekly, Monthly]"

definition SUGGESTED_MONTHLY_MICRODOLLARS :: int where
  "SUGGESTED_MONTHLY_MICRODOLLARS = 200000000"

definition suggested_window_limits :: "(window, int) dict" where
  "suggested_window_limits =
     (let monthly = SUGGESTED_MONTHLY_MICRODOLLARS;
          weekly = monthly div 2;
          daily = weekly div 5
      in [(Daily, daily), (Weekly, weekly), (Monthly, monthly)])"

definition day_us :: int where
  "day_us = 86400000000"

text \<open>Ordinal of the day of an instant; 1970-01-01 is day 719163.\<close>

definition ord_of_instant :: "instant \<Rightarrow> int" where
  "ord_of_instant t = t div day_us + 719163"

definition instant_of_ord :: "int \<Rightarrow> instant" where
  "instant_of_ord n = (n - 719163) * day_us"

text \<open>\<open>datetime.weekday()\<close>: Monday is 0; day 1 of the calendar is a Monday.\<close>

definition weekday :: "int \<Rightarrow> int" where
  "weekday n = (n + 6) mod 7"

text \<open>\<open>replace(day=1)\<close> of a midnight.\<close>

definition first_of_month :: "int \<Rightarrow> int" where
  "first_of_month n = (case ord2ymd n of (y, m, d) \<Rightarrow> ymd2ord y m 1)"

definition window_floors :: "instant \<Rightarrow> window \<Rightarrow> instant" where
  "window_floors now w =
     (let day = ord_of_instant now
      in case w of
           Daily \<Rightarrow> instant_of_ord day
         | Weekly \<Rightarrow> instant_of_ord (day - weekday day)
         | Monthly \<Rightarrow> instant_of_ord (first_of_month day))"

definition window_resets_at :: "window \<Rightarrow> instant \<Rightarrow> instant" where
  "window_resets_at w now =
     (case w of
        Daily \<Rightarrow> window_floors now Daily + day_us
      | Weekly \<Rightarrow> window_floors now Weekly + 7 * day_us
      | Monthly \<Rightarrow>
          instant_of_ord (first_of_month (ord_of_instant (window_floors now Monthly + 32 * day_us))))"

record key_window_limit_decision =
  kd_window :: window
  kd_limit :: int
  kd_remaining :: int
  kd_resets_at :: instant
  kd_reset_seconds :: int
  kd_allowed :: bool

text \<open>\<open>math.ceil\<close> of a difference in microseconds read as seconds.\<close>

definition ceil_seconds :: "int \<Rightarrow> int" where
  "ceil_seconds us = - ((- us) div 1000000)"

definition window_decision :: "window \<Rightarrow> int \<Rightarrow> int \<Rightarrow> int \<Rightarrow> instant \<Rightarrow> key_window_limit_decision" where
  "window_decision w limit used amount now =
     (let remaining = max 0 (limit - used);
          resets_at = window_resets_at w now
      in \<lparr>kd_window = w, kd_limit = limit, kd_remaining = remaining, kd_resets_at = resets_at,
          kd_reset_seconds = max 0 (ceil_seconds (resets_at - now)),
          kd_allowed = (amount \<le> remaining)\<rparr>)"

fun min_remaining :: "key_window_limit_decision \<Rightarrow> key_window_limit_decision list \<Rightarrow> key_window_limit_decision" where
  "min_remaining b [] = b"
| "min_remaining b (x # xs) = min_remaining (if kd_remaining x < kd_remaining b then x else b) xs"

definition window_decisions ::
  "(window, int) dict \<Rightarrow> (window, int) dict \<Rightarrow> int \<Rightarrow> instant \<Rightarrow> key_window_limit_decision list" where
  "window_decisions limits used amount now =
     concat (map (\<lambda>w. case dget limits w of
                        None \<Rightarrow> []
                      | Some limit \<Rightarrow> [window_decision w limit (dget_or 0 used w) amount now]) WINDOWS)"

definition decide_key_window_limits ::
  "(window, int) dict \<Rightarrow> (window, int) dict \<Rightarrow> int \<Rightarrow> instant \<Rightarrow> key_window_limit_decision option" where
  "decide_key_window_limits limits used amount now =
     (case window_decisions limits used amount now of
        [] \<Rightarrow> None
      | d # ds \<Rightarrow>
          (case List.find (\<lambda>x. \<not> kd_allowed x) (d # ds) of
             Some rejected \<Rightarrow> Some rejected
           | None \<Rightarrow> Some (min_remaining d ds)))"

definition spend_window_headers :: "key_window_limit_decision \<Rightarrow> bool \<Rightarrow> (string, string) dict" where
  "spend_window_headers d retry_after =
     (let headers = [(''RateLimit-Limit'', py_str_int (kd_limit d)),
                     (''RateLimit-Remaining'', py_str_int (kd_remaining d)),
                     (''RateLimit-Reset'', py_str_int (kd_reset_seconds d))]
      in if retry_after
         then dset ''Retry-After'' (py_str_int (max 1 (kd_reset_seconds d))) headers
         else headers)"

section \<open>Calendar lemmas\<close>

lemma days_in_month_bounds: "28 \<le> days_in_month y m" "days_in_month y m \<le> 31"
  by (auto simp: days_in_month_def)

lemma div_pred:
  fixes y k :: int
  assumes "0 < k"
  shows "y div k = (y - 1) div k + (if y mod k = 0 then 1 else 0)"
proof (cases "y mod k = 0")
  case True
  have "y - 1 = k * (y div k - 1) + (k - 1)"
    using True mult_div_mod_eq [of k y] by (simp add: right_diff_distrib)
  then have "(y - 1) div k = y div k - 1"
    using assms by (intro int_div_pos_eq [where r = "k - 1"]) auto
  with True show ?thesis by simp
next
  case False
  have "y - 1 = k * (y div k) + (y mod k - 1)" by simp
  moreover have "0 < y mod k" "y mod k < k"
    using False assms pos_mod_sign [of k y] pos_mod_bound [of k y] by linarith+
  ultimately have "(y - 1) div k = y div k"
    by (intro int_div_pos_eq [where r = "y mod k - 1"]) auto
  with False show ?thesis by simp
qed

lemma days_before_year_Suc:
  "days_before_year (y + 1) = days_before_year y + (if is_leap y then 366 else 365)"
proof -
  have d: "days_before_year (y + 1) = y * 365 + y div 4 - y div 100 + y div 400"
    by (simp only: days_before_year_def add_diff_cancel_right')
  have l: "is_leap y \<longleftrightarrow> 4 dvd y \<and> (\<not> 100 dvd y \<or> 400 dvd y)"
    by (simp only: is_leap_def mod_eq_0_iff_dvd)
  have dv: "400 dvd y \<Longrightarrow> 100 dvd y" "100 dvd y \<Longrightarrow> 4 dvd y"
    by (erule dvd_trans [rotated], simp)+
  have gen: "y * 365 + (a + (if p then 1 else 0)) - (b + (if q then 1 else 0)) + (c + (if r then 1 else 0))
      = (y - 1) * 365 + a - b + c + (if p \<and> (\<not> q \<or> r) then 366 else 365)"
    if "r \<Longrightarrow> q" "q \<Longrightarrow> p" for a b c and p q r :: bool
    using that by (cases p; cases q; cases r) simp_all
  have div: "y div k = (y - 1) div k + (if k dvd y then 1 else 0)" if "0 < k" for k
    using div_pred [OF that, of y] by (simp only: mod_eq_0_iff_dvd)
  show ?thesis
    unfolding d l div [OF zero_less_numeral]
    unfolding days_before_year_def by (rule gen [OF dv])
qed

lemma days_before_month_13: "days_before_month y 13 = (if is_leap y then 366 else 365)"
  by (simp add: days_in_month_def numeral_eq_Suc)

lemma days_before_month_Suc: "1 \<le> m \<Longrightarrow> days_before_month y (Suc m) = days_before_month y m + days_in_month y m"
  by (cases m) auto

lemma days_before_month_mono:
  assumes "1 \<le> m" and "m \<le> m'"
  shows "days_before_month y m \<le> days_before_month y m'"
  using assms(2)
proof (induction m' rule: dec_induct)
  case (step n)
  then show ?case
    using assms(1) days_before_month_Suc [of n y] days_in_month_bounds(1) [of y n] by linarith
qed simp

lemma days_before_year_mono: "y \<le> y' \<Longrightarrow> days_before_year y \<le> days_before_year y'"
proof (induction y' rule: int_ge_induct)
  case (step i)
  then show ?case by (simp add: days_before_year_Suc)
qed simp

lemma days_before_year_estimate:
  "400 * days_before_year y \<le> 146097 * (y - 1) + 396"
  "146097 * (y - 1) - 699 \<le> 400 * days_before_year y"
proof -
  have e: "(y - 1) mod 4 = (y - 1) - 4 * ((y - 1) div 4)"
    "(y - 1) mod 100 = (y - 1) - 100 * ((y - 1) div 100)"
    "(y - 1) mod 400 = (y - 1) - 400 * ((y - 1) div 400)"
    by (simp_all only: minus_mult_div_eq_mod)
  have b: "0 \<le> (y - 1) mod 4" "(y - 1) mod 4 < 4" "0 \<le> (y - 1) mod 100" "(y - 1) mod 100 < 100"
    "0 \<le> (y - 1) mod 400" "(y - 1) mod 400 < 400"
    by simp_all
  have up: "400 * (k * 365 + a - b + c) \<le> 146097 * k + 396"
    if "0 \<le> k - 4 * a" "k - 100 * b < 100" "0 \<le> k - 400 * c" for a b c k :: int
    using that by (simp add: algebra_simps)
  have lo: "146097 * k - 699 \<le> 400 * (k * 365 + a - b + c)"
    if "k - 4 * a < 4" "0 \<le> k - 100 * b" "k - 400 * c < 400" for a b c k :: int
    using that by (simp add: algebra_simps)
  show "400 * days_before_year y \<le> 146097 * (y - 1) + 396"
    unfolding days_before_year_def by (rule up [OF b(1,4,5) [unfolded e]])
  show "146097 * (y - 1) - 699 \<le> 400 * days_before_year y"
    unfolding days_before_year_def by (rule lo [OF b(2,3,6) [unfolded e]])
qed

lemma year_of_ord_bounds:
  "days_before_year (year_of_ord n) < n" "n \<le> days_before_year (year_of_ord n + 1)"
proof -
  define z where "z = (n - 1) * 400 div 146097"
  have z: "146097 * z \<le> 400 * (n - 1)" "400 * (n - 1) < 146097 * (z + 1)"
  proof -
    define r where "r = (n - 1) * 400 mod 146097"
    have "0 \<le> r" "r < 146097"
      by (simp_all add: r_def)
    moreover have "146097 * z + r = (n - 1) * 400"
      unfolding z_def r_def by (rule mult_div_mod_eq)
    ultimately show "146097 * z \<le> 400 * (n - 1)" "400 * (n - 1) < 146097 * (z + 1)"
      by (simp_all add: algebra_simps)
  qed
  have hi: "n \<le> days_before_year (z + 3)" using days_before_year_estimate(2) [of "z + 3"] z by (simp add: algebra_simps)
  have lo: "days_before_year z < n" using days_before_year_estimate(1) [of z] z by (simp add: algebra_simps)
  have y: "year_of_ord n = (if days_before_year (z + 1 + 1) < n then z + 1 + 1
      else if n \<le> days_before_year (z + 1) then z + 1 - 1 else z + 1)"
    by (simp only: year_of_ord_def Let_def z_def)
  show "days_before_year (year_of_ord n) < n" "n \<le> days_before_year (year_of_ord n + 1)"
    using hi lo by (auto simp: y add.commute)
qed

lemma year_of_ord_unique:
  assumes "days_before_year y < n" and "n \<le> days_before_year (y + 1)"
  shows "year_of_ord n = y"
proof (rule ccontr)
  assume "year_of_ord n \<noteq> y"
  then consider "year_of_ord n + 1 \<le> y" | "y + 1 \<le> year_of_ord n" by linarith
  then show False
  proof cases
    case 1
    from days_before_year_mono [OF this] assms(1) year_of_ord_bounds(2) [of n] show False by simp
  next
    case 2
    from days_before_year_mono [OF this] assms(2) year_of_ord_bounds(1) [of n] show False by simp
  qed
qed

lemma month_of_day_correct:
  assumes "1 \<le> m" "m \<le> 12" "1 \<le> d" "d \<le> days_before_month y 13 - days_before_month y m"
    and "month_of_day y m d = (m', d')"
  shows "m \<le> m' \<and> m' \<le> 12 \<and> 1 \<le> d' \<and> d' \<le> days_in_month y m' \<and>
    days_before_month y m' + d' = days_before_month y m + d"
  using assms
proof (induction y m d rule: month_of_day.induct)
  case (1 y m d)
  show ?case
  proof (cases "12 \<le> m \<or> d \<le> days_in_month y m")
    case True
    then have "m' = m" "d' = d"
      using "1.prems"(5) by (simp_all add: month_of_day.simps [of y m d])
    moreover have "d \<le> days_in_month y m"
    proof (cases "d \<le> days_in_month y m")
      case False
      with True "1.prems"(2) have "m = 12" by simp
      with "1.prems"(4) show ?thesis using days_before_month_Suc [of 12 y] by simp
    qed
    ultimately show ?thesis using "1.prems" by simp
  next
    case False
    then have "month_of_day y (Suc m) (d - days_in_month y m) = (m', d')"
      using "1.prems"(5) by (simp add: month_of_day.simps [of y m d])
    with "1.IH" False "1.prems" show ?thesis
      using days_before_month_Suc [of m y] by auto
  qed
qed

lemma ord2ymd_correct:
  assumes "ord2ymd n = (y, m, d)"
  shows "1 \<le> m" "m \<le> 12" "1 \<le> d" "d \<le> days_in_month y m" "ymd2ord y m d = n"
proof -
  have y: "y = year_of_ord n" and md: "month_of_day y 1 (n - days_before_year y) = (m, d)"
    using assms by (auto simp: ord2ymd_def Let_def split: prod.splits)
  have "1 \<le> n - days_before_year y" "n - days_before_year y \<le> days_before_month y 13"
    using year_of_ord_bounds [of n] by (simp_all add: y days_before_year_Suc days_before_month_13)
  with month_of_day_correct [OF _ _ _ _ md] show
    "1 \<le> m" "m \<le> 12" "1 \<le> d" "d \<le> days_in_month y m" "ymd2ord y m d = n"
    by (auto simp: ymd2ord_def)
qed

definition valid_ymd :: "int \<Rightarrow> nat \<Rightarrow> int \<Rightarrow> bool" where
  "valid_ymd y m d \<longleftrightarrow> 1 \<le> m \<and> m \<le> 12 \<and> 1 \<le> d \<and> d \<le> days_in_month y m"

lemma days_before_month_less:
  assumes "1 \<le> m" "m < m'" "d \<le> days_in_month y m" "1 \<le> d'"
  shows "days_before_month y m + d < days_before_month y m' + d'"
  using days_before_month_mono [of "Suc m" m' y] days_before_month_Suc [of m y] assms by linarith

lemma ord2ymd_ymd2ord:
  assumes "valid_ymd y m d"
  shows "ord2ymd (ymd2ord y m d) = (y, m, d)"
proof -
  obtain y' m' d' where o: "ord2ymd (ymd2ord y m d) = (y', m', d')"
    by (cases "ord2ymd (ymd2ord y m d)")
  note c = ord2ymd_correct [OF o]
  have "days_before_month y 1 \<le> days_before_month y m" and "days_before_month y m + d \<le> days_before_month y 13"
    using assms days_before_month_mono [of 1 m y] days_before_month_mono [of "Suc m" 13 y]
      days_before_month_Suc [of m y] by (auto simp: valid_ymd_def)
  then have "year_of_ord (ymd2ord y m d) = y"
    using assms by (intro year_of_ord_unique)
      (auto simp: ymd2ord_def valid_ymd_def days_before_year_Suc days_before_month_13)
  then have y: "y' = y"
    using o by (auto simp: ord2ymd_def Let_def split: prod.splits)
  then have e: "days_before_month y m' + d' = days_before_month y m + d"
    using c(5) by (simp add: ymd2ord_def)
  have "\<not> m < m'" "\<not> m' < m"
    using days_before_month_less [of m m' d y d'] days_before_month_less [of m' m d' y d] assms c e y
    by (auto simp: valid_ymd_def)
  with e y o show ?thesis by simp
qed

lemma first_of_month_le: "first_of_month n \<le> n"
  using ord2ymd_correct [of n]
  by (cases "ord2ymd n") (auto simp: first_of_month_def ymd2ord_def)

lemma first_of_month_ymd: "valid_ymd y m d \<Longrightarrow> first_of_month (ymd2ord y m d) = ymd2ord y m 1"
  by (simp add: first_of_month_def ord2ymd_ymd2ord)

definition next_month :: "int \<Rightarrow> nat \<Rightarrow> int \<times> nat" where
  "next_month y m = (if m = 12 then (y + 1, 1) else (y, Suc m))"

lemma ymd2ord_next_month:
  assumes "valid_ymd y m d" and "next_month y m = (y', m')"
  shows "ymd2ord y' m' 1 = ymd2ord y m 1 + days_in_month y m" "1 \<le> m'" "m' \<le> 12"
  using assms days_before_month_Suc [of m y] days_before_month_13 [of y]
  by (auto simp: ymd2ord_def next_month_def valid_ymd_def days_before_year_Suc split: if_splits)

lemma first_of_next_month:
  assumes "ord2ymd n = (y, m, d)"
  shows "first_of_month (first_of_month n + 32) = first_of_month n + days_in_month y m"
proof -
  have v: "valid_ymd y m d" and n: "ymd2ord y m d = n"
    using ord2ymd_correct [OF assms] by (auto simp: valid_ymd_def)
  obtain y' m' where nm: "next_month y m = (y', m')" by (cases "next_month y m")
  note x = ymd2ord_next_month [OF v nm]
  have f: "first_of_month n = ymd2ord y m 1" by (simp add: first_of_month_def assms)
  have "first_of_month n + 32 = ymd2ord y' m' (33 - days_in_month y m)"
    using x(1) by (simp add: f ymd2ord_def)
  moreover have "valid_ymd y' m' (33 - days_in_month y m)"
    using x days_in_month_bounds [of y m] days_in_month_bounds(1) [of y' m'] by (auto simp: valid_ymd_def)
  ultimately show ?thesis using first_of_month_ymd x(1) f by simp
qed

lemma first_of_month_between:
  assumes "ord2ymd n = (y, m, d)" and "first_of_month n \<le> k" and "k < first_of_month n + days_in_month y m"
  shows "first_of_month k = first_of_month n"
proof -
  have f: "first_of_month n = ymd2ord y m 1" by (simp add: first_of_month_def assms)
  have k: "k = ymd2ord y m (k - first_of_month n + 1)" by (simp add: f ymd2ord_def)
  have "valid_ymd y m (k - first_of_month n + 1)"
    using ord2ymd_correct [OF assms(1)] assms(2,3) by (auto simp: valid_ymd_def)
  then have "first_of_month k = ymd2ord y m 1" by (subst k) (rule first_of_month_ymd)
  with f show ?thesis by simp
qed

lemma first_of_month_next_gt: "n < first_of_month (first_of_month n + 32)"
proof (cases "ord2ymd n")
  case (fields y m d)
  show ?thesis
    using first_of_next_month [OF fields] ord2ymd_correct [OF fields]
    by (simp add: first_of_month_def fields ymd2ord_def)
qed

section \<open>Window lemmas\<close>

lemma instant_of_ord_le: "instant_of_ord n \<le> t \<longleftrightarrow> n \<le> ord_of_instant t"
proof -
  define q r where "q = t div day_us" and "r = t mod day_us"
  have "day_us * q + r = t" "0 \<le> r" "r < day_us"
    unfolding q_def r_def by (simp_all add: day_us_def)
  moreover have "ord_of_instant t = q + 719163" by (simp add: ord_of_instant_def q_def)
  ultimately show ?thesis
    by (auto simp: instant_of_ord_def day_us_def)
qed

lemma less_instant_of_ord: "t < instant_of_ord n \<longleftrightarrow> ord_of_instant t < n"
  using instant_of_ord_le [of n t] by linarith

lemma ord_of_instant_of_ord [simp]: "ord_of_instant (instant_of_ord n) = n"
  by (simp add: ord_of_instant_def instant_of_ord_def day_us_def)

lemma instant_of_ord_plus: "instant_of_ord n + k * day_us = instant_of_ord (n + k)"
  by (simp add: instant_of_ord_def algebra_simps)

lemma window_resets_at_ord:
  "window_resets_at w now = instant_of_ord
     (case w of
        Daily \<Rightarrow> ord_of_instant now + 1
      | Weekly \<Rightarrow> ord_of_instant now - weekday (ord_of_instant now) + 7
      | Monthly \<Rightarrow> first_of_month (first_of_month (ord_of_instant now) + 32))"
  using instant_of_ord_plus [of _ 1]
  by (cases w) (simp_all add: window_resets_at_def window_floors_def Let_def instant_of_ord_plus)

lemmas window_ord_simps = window_floors_def window_resets_at_ord Let_def
  instant_of_ord_le less_instant_of_ord

lemma weekday_bounds: "0 \<le> weekday n" "weekday n < 7"
  by (simp_all add: weekday_def)

lemma week_floor: "n - weekday n = 7 * ((n + 6) div 7) - 6"
  unfolding weekday_def using mult_div_mod_eq [of 7 "n + 6"] by linarith

lemma week_floor_between:
  assumes "n - weekday n \<le> k" "k < n - weekday n + 7"
  shows "k - weekday k = n - weekday n"
proof -
  define a where "a = (n + 6) div 7"
  have "0 \<le> k + 6 - 7 * a" "k + 6 - 7 * a < 7"
    using assms unfolding week_floor by (simp_all add: a_def)
  then have "(k + 6) div 7 = a"
    by (intro int_div_pos_eq [where r = "k + 6 - 7 * a"]) auto
  then show ?thesis unfolding week_floor by (simp add: a_def)
qed

lemma window_floors_le: "window_floors now w \<le> now"
  using weekday_bounds(1) [of "ord_of_instant now"]
  by (cases w) (auto simp: window_ord_simps first_of_month_le)

lemma window_resets_at_gt: "now < window_resets_at w now"
  using weekday_bounds(2) [of "ord_of_instant now"]
  by (cases w) (auto simp: window_ord_simps first_of_month_next_gt)

lemma window_floors_between:
  assumes "window_floors now w \<le> t" and "t < window_resets_at w now"
  shows "window_floors t w = window_floors now w"
proof (cases w)
  case Monthly
  obtain y m d where o: "ord2ymd (ord_of_instant now) = (y, m, d)"
    by (cases "ord2ymd (ord_of_instant now)")
  have "first_of_month (ord_of_instant t) = first_of_month (ord_of_instant now)"
    using assms Monthly first_of_next_month [OF o]
    by (intro first_of_month_between [OF o]) (auto simp: window_ord_simps)
  with Monthly show ?thesis by (simp add: window_floors_def Let_def)
next
  case Weekly
  with assms week_floor_between [of "ord_of_instant now" "ord_of_instant t"] show ?thesis
    by (simp add: window_ord_simps)
qed (use assms in \<open>auto simp: window_ord_simps\<close>)

section \<open>Decision lemmas\<close>

lemma min_remaining_in: "min_remaining b xs \<in> insert b (set xs)"
  by (induction xs arbitrary: b) auto

lemma min_remaining_le_base: "kd_remaining (min_remaining b xs) \<le> kd_remaining b"
proof (induction xs arbitrary: b)
  case (Cons y ys)
  show ?case using Cons.IH [of "if kd_remaining y < kd_remaining b then y else b"]
    by (auto split: if_splits)
qed simp

lemma min_remaining_le: "x \<in> insert b (set xs) \<Longrightarrow> kd_remaining (min_remaining b xs) \<le> kd_remaining x"
proof (induction xs arbitrary: b)
  case (Cons y ys)
  then show ?case
    using min_remaining_le_base [of "if kd_remaining y < kd_remaining b then y else b" ys]
    by (auto split: if_splits)
qed simp

lemma window_in_WINDOWS [simp]: "w \<in> set WINDOWS"
  by (cases w) (simp_all add: WINDOWS_def)

lemma window_decisions_mem:
  "d \<in> set (window_decisions limits used amount now) \<longleftrightarrow>
   (\<exists>w l. dget limits w = Some l \<and> d = window_decision w l (dget_or 0 used w) amount now)"
proof -
  have c: "d \<in> set (case x of None \<Rightarrow> [] | Some l \<Rightarrow> [f l]) \<longleftrightarrow> (\<exists>l. x = Some l \<and> d = f l)"
    for x :: "int option" and f
    by (cases x) auto
  show ?thesis unfolding window_decisions_def set_concat set_map UN_iff bex_simps c by auto
qed

lemma window_decision_fields [simp]:
  "kd_window (window_decision w l u a now) = w"
  "kd_limit (window_decision w l u a now) = l"
  "kd_remaining (window_decision w l u a now) = max 0 (l - u)"
  "kd_resets_at (window_decision w l u a now) = window_resets_at w now"
  "kd_allowed (window_decision w l u a now) \<longleftrightarrow> a \<le> max 0 (l - u)"
  by (simp_all add: window_decision_def Let_def)

lemma decide_none:
  "decide_key_window_limits limits used amount now = None \<longleftrightarrow> (\<forall>w. dget limits w = None)"
proof -
  have "decide_key_window_limits limits used amount now = None \<longleftrightarrow>
      window_decisions limits used amount now = []"
    by (auto simp: decide_key_window_limits_def split: list.splits option.splits)
  also have "\<dots> \<longleftrightarrow> (\<forall>d. d \<notin> set (window_decisions limits used amount now))"
    by (metis list.set_intros(1) list.set_cases empty_iff empty_set neq_Nil_conv)
  also have "\<dots> \<longleftrightarrow> (\<forall>w. dget limits w = None)"
    by (simp add: window_decisions_mem) (metis option.exhaust option.distinct(1))
  finally show ?thesis .
qed

lemma decide_some_cases:
  assumes "decide_key_window_limits limits used amount now = Some d"
  obtains (rejected) "List.find (\<lambda>x. \<not> kd_allowed x) (window_decisions limits used amount now) = Some d"
  | (least) e es where "window_decisions limits used amount now = e # es" "d = min_remaining e es"
      "List.find (\<lambda>x. \<not> kd_allowed x) (window_decisions limits used amount now) = None"
proof (cases "window_decisions limits used amount now")
  case Nil
  with assms show ?thesis by (simp add: decide_key_window_limits_def)
next
  case (Cons e es)
  show ?thesis
  proof (cases "List.find (\<lambda>x. \<not> kd_allowed x) (window_decisions limits used amount now)")
    case None
    with Cons assms least show ?thesis
      by (simp add: decide_key_window_limits_def del: find.simps)
  next
    case (Some r)
    with Cons assms rejected show ?thesis
      by (simp add: decide_key_window_limits_def del: find.simps)
  qed
qed

lemma decide_some_mem:
  assumes "decide_key_window_limits limits used amount now = Some d"
  shows "d \<in> set (window_decisions limits used amount now)"
  using assms
proof (cases rule: decide_some_cases)
  case rejected
  then show ?thesis by (auto dest: find_SomeD)
next
  case (least e es)
  then show ?thesis using min_remaining_in [of e es] by simp
qed

lemma decide_allowed_all:
  assumes "decide_key_window_limits limits used amount now = Some d" and "kd_allowed d"
    and "x \<in> set (window_decisions limits used amount now)"
  shows "kd_allowed x \<and> kd_remaining d \<le> kd_remaining x"
  using assms(1)
proof (cases rule: decide_some_cases)
  case rejected
  then show ?thesis using assms(2) by (auto dest: find_SomeD)
next
  case (least e es)
  with assms(3) show ?thesis
    using min_remaining_le [of x e es] find_NoneD [OF least(3) assms(3)] by simp
qed

lemma decide_allowed_iff:
  assumes "decide_key_window_limits limits used amount now = Some d"
  shows "kd_allowed d \<longleftrightarrow> (\<forall>w l. dget limits w = Some l \<longrightarrow> amount \<le> max 0 (l - dget_or 0 used w))"
proof
  assume "kd_allowed d"
  then show "\<forall>w l. dget limits w = Some l \<longrightarrow> amount \<le> max 0 (l - dget_or 0 used w)"
    using decide_allowed_all [OF assms] window_decisions_mem window_decision_fields(5) by metis
next
  assume "\<forall>w l. dget limits w = Some l \<longrightarrow> amount \<le> max 0 (l - dget_or 0 used w)"
  with decide_some_mem [OF assms] show "kd_allowed d" by (auto simp: window_decisions_mem)
qed

section \<open>Properties\<close>

text \<open>For every window and every instant, the current window starts at or before the instant
  and resets strictly after it, and every instant of that half-open interval has the same window
  start: the daily, weekly and monthly windows each partition the time line.\<close>

theorem windows_partition_time:
  "window_floors now w \<le> now \<and> now < window_resets_at w now \<and>
   (window_floors now w \<le> t \<and> t < window_resets_at w now \<longrightarrow> window_floors t w = window_floors now w)"
  using window_floors_le window_resets_at_gt window_floors_between by blast

theorem windows_partition_time_witness:
  "window_floors 1706659200000000 Monthly = 1704067200000000 \<and>
   window_resets_at Monthly 1706659200000000 = 1706745600000000 \<and>
   window_floors 1704067200000000 Monthly = window_floors 1706659200000000 Monthly"
proof -
  have f: "window_floors 1706659200000000 Monthly = 1704067200000000"
    by code_simp
  have r: "window_resets_at Monthly 1706659200000000 = 1706745600000000"
    by code_simp
  show ?thesis
    using windows_partition_time [of 1706659200000000 Monthly 1704067200000000] f r by simp
qed

text \<open>The decision on a request's spend windows is complete and picks the governing window: no
  decision exactly when no window is configured; otherwise the reported window is a configured
  one with its own limit and headroom, the request is allowed exactly when every configured
  window has the headroom for it, and then no configured window has less headroom than the
  reported one.\<close>

theorem decide_key_window_limits_spec:
  "case decide_key_window_limits limits used amount now of
     None \<Rightarrow> \<forall>w. dget limits w = None
   | Some d \<Rightarrow>
       dget limits (kd_window d) = Some (kd_limit d) \<and>
       kd_remaining d = max 0 (kd_limit d - dget_or 0 used (kd_window d)) \<and>
       (kd_allowed d \<longleftrightarrow> (\<forall>w l. dget limits w = Some l \<longrightarrow> amount \<le> max 0 (l - dget_or 0 used w))) \<and>
       (kd_allowed d \<longrightarrow> (\<forall>w l. dget limits w = Some l \<longrightarrow> kd_remaining d \<le> max 0 (l - dget_or 0 used w)))"
proof (cases "decide_key_window_limits limits used amount now")
  case None
  with decide_none [THEN iffD1, OF None] show ?thesis by simp
next
  case (Some d)
  have "kd_remaining d \<le> max 0 (l - dget_or 0 used w)" if "kd_allowed d" "dget limits w = Some l" for w l
    using decide_allowed_all [OF Some that(1), of "window_decision w l (dget_or 0 used w) amount now"]
      that(2) by (auto simp: window_decisions_mem)
  with Some decide_some_mem [OF Some] decide_allowed_iff [OF Some] show ?thesis
    by (auto simp: window_decisions_mem)
qed

theorem decide_key_window_limits_spec_witness:
  "(case decide_key_window_limits [(Daily, 10), (Monthly, 20)] [(Daily, 3), (Monthly, 15)] 5 0 of
      None \<Rightarrow> False
    | Some d \<Rightarrow> kd_window d = Monthly \<and> kd_allowed d \<and> kd_remaining d \<le> 7)"
proof -
  have d: "map_option (\<lambda>d. (kd_window d, kd_allowed d))
      (decide_key_window_limits [(Daily, 10), (Monthly, 20)] [(Daily, 3), (Monthly, 15)] 5 0)
      = Some (Monthly, True)"
    by code_simp
  then show ?thesis
    using decide_key_window_limits_spec [of "[(Daily, 10), (Monthly, 20)]" "[(Daily, 3), (Monthly, 15)]" 5 0]
    by (auto simp: dget_or_def split: option.splits)
qed

end
