(* ===== verification/Api_Keys.thy ===== *)
theory Api_Keys
  imports Models Spend_Windows
begin

text \<open>
  The spend-control half of the in-memory store,
  \<open>src/src/trusted_router/storage_keys.py\<close> (class \<open>InMemoryApiKeys\<close>), with the scope check
  of \<open>scopes.py\<close>, the key label of \<open>security.py\<close> and the window limits of
  \<open>spend_windows.py\<close>: API keys and their lifetime and window caps, credit reservations, gateway
  authorizations.

  \<open>keys_state\<close> holds the dicts of the class and the credit book it shares by reference with the
  parent store; the parent store is a record that extends it, so every operation here runs on the
  parent store too.  Random values (a key, an id, a salt, a UUID) and clock readings are
  arguments; \<open>hash_api_key\<close> and \<open>lookup_hash_api_key\<close> (SHA-256 of the standard library) are
  parameters.

  The lemmas show what each operation changes; the invariant \<open>reserved_exact\<close> says that a
  workspace's \<open>reserved\<close> counter is the sum of its open reservations.
\<close>

record keys_state =
  credit_money :: "(string, credit_money) dict"
  keys :: "(string, api_key) dict"
  key_ids_by_lookup_hash :: "(string, string) dict"
  reservations :: "(string, reservation) dict"
  reservation_id_by_idempotency_key :: "(string \<times> string \<times> string, string) dict"
  gateway_authorizations :: "(string, gateway_authorization) dict"
  gateway_authorization_id_by_idempotency_key :: "(string, string) dict"
  deferred_outstanding :: "(string, microdollars) dict"
  window_usage :: "(string, (window, instant \<times> microdollars) dict) dict"

section \<open>Keys\<close>

definition KNOWN_SCOPES :: "string list" where
  "KNOWN_SCOPES = [''inference'', ''profile'', ''balance:read'', ''activity:read'']"

definition validate_api_key_scopes :: "string list option \<Rightarrow> bool \<Rightarrow> (string list) result" where
  "validate_api_key_scopes scopes management =
     (let normalized = (case scopes of None \<Rightarrow> [] | Some xs \<Rightarrow> xs)
      in if \<not> list_all (\<lambda>x. x \<in> set KNOWN_SCOPES) normalized then Inl (ValueError ''Unknown API key scopes'')
         else if management \<and> normalized \<noteq> [] then Inl (ValueError ''Management API keys cannot have scopes'')
         else Inr normalized)"

definition key_label :: "string \<Rightarrow> string" where
  "key_label k = (if length k \<le> 12 then k else take 10 k @ ''...'' @ drop (length k - 4) k)"

text \<open>The keyword arguments of \<open>create\<close>.\<close>

record key_spec =
  ks_workspace_id :: string
  ks_name :: string
  ks_creator_user_id :: "string option"
  ks_management :: bool
  ks_raw_key :: "string option"
  ks_limit :: "microdollars option"
  ks_limit_reset :: "string option"
  ks_include_byok_in_limit :: bool
  ks_expires_at :: "instant option"
  ks_limit_daily :: "microdollars option"
  ks_limit_weekly :: "microdollars option"
  ks_limit_monthly :: "microdollars option"
  ks_budget_alert_only :: bool
  ks_budget_strict :: bool
  ks_tags :: "(string, string) dict option"
  ks_scopes :: "string list option"
  ks_app_id :: string

definition keys_create ::
  "(string \<Rightarrow> string \<Rightarrow> string) \<Rightarrow> (string \<Rightarrow> string) \<Rightarrow> string \<Rightarrow> string \<Rightarrow> string \<Rightarrow> instant \<Rightarrow> key_spec \<Rightarrow>
   ('a keys_state_scheme, string \<times> api_key) exec" where
  "keys_create hash_api_key lookup_hash_api_key new_api_key new_key_id new_salt now spec s =
     (case validate_api_key_scopes (ks_scopes spec) (ks_management spec) of
        Inl e \<Rightarrow> (Inl e, s)
      | Inr scopes \<Rightarrow>
          (let key = (case ks_raw_key spec of None \<Rightarrow> new_api_key | Some r \<Rightarrow> if r = [] then new_api_key else r);
               lookup_hash = lookup_hash_api_key key;
               api_key = \<lparr>ak_hash = new_key_id, ak_salt = new_salt,
                 ak_secret_hash = hash_api_key key new_salt, ak_lookup_hash = lookup_hash,
                 ak_name = ks_name spec, ak_label = key_label key,
                 ak_workspace_id = ks_workspace_id spec, ak_creator_user_id = ks_creator_user_id spec,
                 ak_scopes = scopes, ak_app_id = ks_app_id spec, ak_federated_app_suspended = False,
                 ak_federated_app_markup_basis_points = 0, ak_federated_app_owner_user_id = [],
                 ak_disabled = False, ak_management = ks_management spec, ak_limit = ks_limit spec,
                 ak_limit_reset = ks_limit_reset spec, ak_limit_daily = ks_limit_daily spec,
                 ak_limit_weekly = ks_limit_weekly spec, ak_limit_monthly = ks_limit_monthly spec,
                 ak_budget_alert_only = ks_budget_alert_only spec,
                 ak_budget_strict = ks_budget_strict spec, ak_budget_alerted = [],
                 ak_include_byok_in_limit = ks_include_byok_in_limit spec, ak_usage = 0,
                 ak_byok_usage = 0, ak_expires_at = ks_expires_at spec, ak_created_at = now,
                 ak_updated_at = None, ak_reserved = 0, ak_usage_shard_count = 1,
                 ak_tags = (case ks_tags spec of None \<Rightarrow> [] | Some t \<Rightarrow> t), ak_federated_home = []\<rparr>
           in (Inr (key, api_key),
               s\<lparr>keys := dset new_key_id api_key (keys s),
                 key_ids_by_lookup_hash := dset lookup_hash new_key_id (key_ids_by_lookup_hash s)\<rparr>)))"

definition get_by_hash :: "string \<Rightarrow> 'a keys_state_scheme \<Rightarrow> api_key option" where
  "get_by_hash key_hash s = dget (keys s) key_hash"

definition get_by_lookup_hash :: "string \<Rightarrow> 'a keys_state_scheme \<Rightarrow> api_key option" where
  "get_by_lookup_hash lookup_hash s =
     (case dget (key_ids_by_lookup_hash s) lookup_hash of None \<Rightarrow> None | Some key_id \<Rightarrow> dget (keys s) key_id)"

definition verify_api_key :: "(string \<Rightarrow> string \<Rightarrow> string) \<Rightarrow> string \<Rightarrow> api_key \<Rightarrow> bool" where
  "verify_api_key hash_api_key raw k \<longleftrightarrow> hash_api_key raw (ak_salt k) = ak_secret_hash k"

definition get_by_raw ::
  "(string \<Rightarrow> string \<Rightarrow> string) \<Rightarrow> (string \<Rightarrow> string) \<Rightarrow> string \<Rightarrow> 'a keys_state_scheme \<Rightarrow>
   api_key option \<times> 'a keys_state_scheme" where
  "get_by_raw hash_api_key lookup_hash_api_key raw s =
     (let lookup_hash = lookup_hash_api_key raw in
      case get_by_lookup_hash lookup_hash s of
        Some key \<Rightarrow>
          (if verify_api_key hash_api_key raw key then (Some key, s)
           else (case List.find (verify_api_key hash_api_key raw) (dvals (keys s)) of
                   None \<Rightarrow> (None, s)
                 | Some k \<Rightarrow> (Some k, s\<lparr>key_ids_by_lookup_hash :=
                     dset lookup_hash (ak_hash k) (key_ids_by_lookup_hash s)\<rparr>)))
      | None \<Rightarrow>
          (case List.find (verify_api_key hash_api_key raw) (dvals (keys s)) of
             None \<Rightarrow> (None, s)
           | Some k \<Rightarrow> (Some k, s\<lparr>key_ids_by_lookup_hash :=
               dset lookup_hash (ak_hash k) (key_ids_by_lookup_hash s)\<rparr>)))"

definition list_for_workspace :: "string \<Rightarrow> 'a keys_state_scheme \<Rightarrow> api_key list" where
  "list_for_workspace w s = filter (\<lambda>k. ak_workspace_id k = w) (dvals (keys s))"

definition keys_delete :: "string \<Rightarrow> 'a keys_state_scheme \<Rightarrow> bool \<times> 'a keys_state_scheme" where
  "keys_delete key_hash s =
     (case dget (keys s) key_hash of
        None \<Rightarrow> (False, s)
      | Some key \<Rightarrow> (True, s\<lparr>keys := dpop key_hash (keys s),
           key_ids_by_lookup_hash := dpop (ak_lookup_hash key) (key_ids_by_lookup_hash s)\<rparr>))"

text \<open>\<open>delete_many\<close> visits the distinct hashes in order, a hundred per lock; the lock scopes do
  not change what one caller's call does.\<close>

fun delete_each :: "string \<Rightarrow> string list \<Rightarrow> (string, bool) dict \<Rightarrow> 'a keys_state_scheme \<Rightarrow>
    (string, bool) dict \<times> 'a keys_state_scheme" where
  "delete_each w [] results s = (results, s)"
| "delete_each w (h # hs) results s =
     (case dget (keys s) h of
        None \<Rightarrow> delete_each w hs (dset h False results) s
      | Some key \<Rightarrow>
          (if ak_workspace_id key = w
           then (case keys_delete h s of (b, s') \<Rightarrow> delete_each w hs (dset h b results) s')
           else delete_each w hs (dset h False results) s))"

definition delete_many :: "string \<Rightarrow> string list \<Rightarrow> 'a keys_state_scheme \<Rightarrow>
    (string, bool) dict \<times> 'a keys_state_scheme" where
  "delete_many w hashes s = delete_each w (rev (remdups (rev hashes))) [] s"

section \<open>Per-key spend caps\<close>

definition key_window_limits :: "api_key \<Rightarrow> (window, int) dict" where
  "key_window_limits k =
     (case ak_limit_daily k of None \<Rightarrow> [] | Some l \<Rightarrow> [(Daily, l)]) @
     (case ak_limit_weekly k of None \<Rightarrow> [] | Some l \<Rightarrow> [(Weekly, l)]) @
     (case ak_limit_monthly k of None \<Rightarrow> [] | Some l \<Rightarrow> [(Monthly, l)])"

definition enforced_window_limits :: "api_key \<Rightarrow> (window, int) dict" where
  "enforced_window_limits k = (if ak_budget_alert_only k then [] else key_window_limits k)"

definition window_usage_snapshot :: "string \<Rightarrow> instant \<Rightarrow> 'a keys_state_scheme \<Rightarrow> (window, microdollars) dict" where
  "window_usage_snapshot key_hash now s =
     (let state = dget_or [] (window_usage s) key_hash
      in map (\<lambda>w. (w, case dget state w of
                        None \<Rightarrow> 0
                      | Some (start, used) \<Rightarrow> if start < window_floors now w then 0 else used)) WINDOWS)"

datatype key_limit_error =
    NoSuchKey
  | KeyWindowLimitExceeded key_window_limit_decision
  | KeyLimitExceeded "key_window_limit_decision option"

record key_limit_reserve_result =
  kr_window_decision :: "key_window_limit_decision option"
  kr_reserved :: microdollars

definition reserve_limit :: "string \<Rightarrow> microdollars \<Rightarrow> string \<Rightarrow> instant \<Rightarrow> 'a keys_state_scheme \<Rightarrow>
    (key_limit_error + key_limit_reserve_result) \<times> 'a keys_state_scheme" where
  "reserve_limit key_hash amount usage_type now s =
     (case dget (keys s) key_hash of
        None \<Rightarrow> (Inl NoSuchKey, s)
      | Some key \<Rightarrow>
          (if is_byok usage_type \<and> \<not> ak_include_byok_in_limit key
           then (Inr \<lparr>kr_window_decision = None, kr_reserved = 0\<rparr>, s)
           else
             (let window_limits = enforced_window_limits key;
                  decision =
                    (if window_limits = [] then None
                     else decide_key_window_limits window_limits
                       (map (\<lambda>(w, used). (w, used + (if ak_budget_strict key then ak_reserved key else 0)))
                         (window_usage_snapshot key_hash now s))
                       amount now);
                  used = ak_usage key + (if ak_include_byok_in_limit key then ak_byok_usage key else 0)
              in case decision of
                   Some d \<Rightarrow>
                     (if \<not> kd_allowed d then (Inl (KeyWindowLimitExceeded d), s)
                      else if ak_limit key = None \<and> \<not> ak_budget_strict key
                      then (Inr \<lparr>kr_window_decision = decision, kr_reserved = 0\<rparr>, s)
                      else if (case ak_limit key of None \<Rightarrow> False | Some l \<Rightarrow> l - used - ak_reserved key < amount)
                      then (Inl (KeyLimitExceeded decision), s)
                      else (Inr \<lparr>kr_window_decision = decision, kr_reserved = amount\<rparr>,
                            s\<lparr>keys := dset key_hash (key\<lparr>ak_reserved := ak_reserved key + amount\<rparr>) (keys s)\<rparr>))
                 | None \<Rightarrow>
                     (if ak_limit key = None \<and> \<not> ak_budget_strict key
                      then (Inr \<lparr>kr_window_decision = None, kr_reserved = 0\<rparr>, s)
                      else if (case ak_limit key of None \<Rightarrow> False | Some l \<Rightarrow> l - used - ak_reserved key < amount)
                      then (Inl (KeyLimitExceeded None), s)
                      else (Inr \<lparr>kr_window_decision = None, kr_reserved = amount\<rparr>,
                            s\<lparr>keys := dset key_hash (key\<lparr>ak_reserved := ak_reserved key + amount\<rparr>) (keys s)\<rparr>)))))"

text \<open>\<open>settle_limit\<close> and \<open>refund_limit\<close> release the recorded hold; the actual cost and the usage
  type are ignored by the code.\<close>

definition refund_limit :: "string \<Rightarrow> microdollars \<Rightarrow> 'a keys_state_scheme \<Rightarrow> 'a keys_state_scheme" where
  "refund_limit key_hash held s =
     (case dget (keys s) key_hash of
        None \<Rightarrow> s
      | Some key \<Rightarrow> s\<lparr>keys := dset key_hash (key\<lparr>ak_reserved := max 0 (ak_reserved key - held)\<rparr>) (keys s)\<rparr>)"

definition settle_limit :: "string \<Rightarrow> microdollars \<Rightarrow> microdollars \<Rightarrow> 'a keys_state_scheme \<Rightarrow> 'a keys_state_scheme" where
  "settle_limit key_hash held actual s =
     (case dget (keys s) key_hash of
        None \<Rightarrow> s
      | Some key \<Rightarrow> s\<lparr>keys := dset key_hash (key\<lparr>ak_reserved := max 0 (ak_reserved key - held)\<rparr>) (keys s)\<rparr>)"

definition bump_window :: "instant \<Rightarrow> microdollars \<Rightarrow> window \<Rightarrow> (window, instant \<times> microdollars) dict \<Rightarrow>
    (window, instant \<times> microdollars) dict" where
  "bump_window now cost w state =
     (case dget state w of
        None \<Rightarrow> dset w (window_floors now w, cost) state
      | Some (start, used) \<Rightarrow>
          (if start < window_floors now w then dset w (window_floors now w, cost) state
           else dset w (start, used + cost) state))"

definition add_usage :: "string \<Rightarrow> microdollars \<Rightarrow> bool \<Rightarrow> instant \<Rightarrow> 'a keys_state_scheme \<Rightarrow> 'a keys_state_scheme" where
  "add_usage key_hash cost byok now s =
     (case dget (keys s) key_hash of
        None \<Rightarrow> s
      | Some key \<Rightarrow>
          (let key' = (if byok then key\<lparr>ak_byok_usage := ak_byok_usage key + cost\<rparr>
                       else key\<lparr>ak_usage := ak_usage key + cost\<rparr>);
               s' = s\<lparr>keys := dset key_hash key' (keys s)\<rparr>
           in if byok \<and> \<not> ak_include_byok_in_limit key then s'
              else s'\<lparr>window_usage := dset key_hash
                     (fold (bump_window now cost) WINDOWS (dget_or [] (window_usage s) key_hash))
                     (window_usage s)\<rparr>))"

section \<open>Credit reservations\<close>

definition find_reservation :: "string \<Rightarrow> string \<Rightarrow> string \<Rightarrow> 'a keys_state_scheme \<Rightarrow> reservation option" where
  "find_reservation w k ik s =
     (case dget (reservation_id_by_idempotency_key s) (w, k, ik) of
        None \<Rightarrow> None
      | Some rid \<Rightarrow>
          (case dget (reservations s) rid of
             None \<Rightarrow> None
           | Some r \<Rightarrow> if rv_workspace_id r = w \<and> rv_key_hash r = k then Some r else None))"

definition keys_reserve :: "string \<Rightarrow> string \<Rightarrow> microdollars \<Rightarrow> string option \<Rightarrow> string \<Rightarrow> instant \<Rightarrow>
    ('a keys_state_scheme, reservation) exec" where
  "keys_reserve w key_hash amount idempotency_key fresh now s =
     (case Option.bind idempotency_key (\<lambda>ik. find_reservation w key_hash ik s) of
        Some existing \<Rightarrow> (Inr existing, s)
      | None \<Rightarrow>
          (case dget (credit_money s) w of
             None \<Rightarrow> (Inl (KeyError w), s)
           | Some m \<Rightarrow>
               (if available m < amount then (Inl (ValueError ''insufficient credits''), s)
                else
                  (let r = \<lparr>rv_id = fresh, rv_workspace_id = w, rv_key_hash = key_hash,
                            rv_amount = amount, rv_settled = False, rv_created_at = now,
                            rv_idempotency_key = idempotency_key\<rparr>;
                       s' = s\<lparr>credit_money := dset w (m\<lparr>cm_reserved := cm_reserved m + amount\<rparr>) (credit_money s),
                              reservations := dset fresh r (reservations s)\<rparr>
                   in (Inr r,
                       case idempotency_key of
                         None \<Rightarrow> s'
                       | Some ik \<Rightarrow> s'\<lparr>reservation_id_by_idempotency_key :=
                           dset (w, key_hash, ik) fresh (reservation_id_by_idempotency_key s)\<rparr>)))))"

definition keys_settle :: "string \<Rightarrow> microdollars \<Rightarrow> ('a keys_state_scheme, unit) exec" where
  "keys_settle rid actual s =
     (case dget (reservations s) rid of
        None \<Rightarrow> (Inl (KeyError rid), s)
      | Some r \<Rightarrow>
          (if rv_settled r then (Inr (), s)
           else (case dget (credit_money s) (rv_workspace_id r) of
                   None \<Rightarrow> (Inl (KeyError (rv_workspace_id r)), s)
                 | Some m \<Rightarrow>
                     (Inr (), s\<lparr>credit_money := dset (rv_workspace_id r)
                          (m\<lparr>cm_reserved := cm_reserved m - rv_amount r, cm_usage := cm_usage m + actual\<rparr>)
                          (credit_money s),
                        reservations := dset rid (r\<lparr>rv_settled := True\<rparr>) (reservations s)\<rparr>))))"

definition keys_refund :: "string \<Rightarrow> ('a keys_state_scheme, unit) exec" where
  "keys_refund rid s =
     (case dget (reservations s) rid of
        None \<Rightarrow> (Inl (KeyError rid), s)
      | Some r \<Rightarrow>
          (if rv_settled r then (Inr (), s)
           else (case dget (credit_money s) (rv_workspace_id r) of
                   None \<Rightarrow> (Inl (KeyError (rv_workspace_id r)), s)
                 | Some m \<Rightarrow>
                     (Inr (), s\<lparr>credit_money := dset (rv_workspace_id r)
                          (m\<lparr>cm_reserved := cm_reserved m - rv_amount r\<rparr>) (credit_money s),
                        reservations := dset rid (r\<lparr>rv_settled := True\<rparr>) (reservations s)\<rparr>))))"

section \<open>Gateway authorizations\<close>

definition auth_index_key :: "string \<Rightarrow> string \<Rightarrow> string \<Rightarrow> string" where
  "auth_index_key w k ik = w @ [CHR 0x00] @ k @ [CHR 0x00] @ ik"

definition foreign_reservation :: "string \<Rightarrow> string \<Rightarrow> string option \<Rightarrow> 'a keys_state_scheme \<Rightarrow> bool" where
  "foreign_reservation w key_hash rid s \<longleftrightarrow>
     (case Option.bind rid (dget (reservations s)) of
        None \<Rightarrow> False
      | Some r \<Rightarrow> rv_workspace_id r \<noteq> w \<or> rv_key_hash r \<noteq> key_hash)"

definition keys_get_authorization_by_idempotency_key ::
  "string \<Rightarrow> string \<Rightarrow> string \<Rightarrow> 'a keys_state_scheme \<Rightarrow> gateway_authorization option" where
  "keys_get_authorization_by_idempotency_key w key_hash ik s =
     Option.bind (dget (gateway_authorization_id_by_idempotency_key s) (auth_index_key w key_hash ik))
       (dget (gateway_authorizations s))"

definition keys_create_gateway_authorization ::
  "string \<Rightarrow> string \<Rightarrow> auth_terms \<Rightarrow> string option \<Rightarrow> microdollars option \<Rightarrow> instant option \<Rightarrow> string \<Rightarrow> instant \<Rightarrow>
   ('a keys_state_scheme, gateway_authorization) exec" where
  "keys_create_gateway_authorization w key_hash terms authorization_id deferred_cap created_at fresh now s =
     (let index = map_option (auth_index_key w key_hash) (tm_idempotency_key terms);
          held = dget_or 0 (deferred_outstanding s) w;
          auth_id = (case authorization_id of None \<Rightarrow> ''gwa-'' @ fresh
                     | Some x \<Rightarrow> if x = [] then ''gwa-'' @ fresh else x);
          a = \<lparr>ga_id = auth_id, ga_workspace_id = w, ga_key_hash = key_hash, ga_settled = False,
               ga_created_at = (case created_at of None \<Rightarrow> now | Some t \<Rightarrow> t),
               ga_terms = terms, ga_progress = no_progress, ga_final = no_final\<rparr>
      in case Option.bind index (dget (gateway_authorization_id_by_idempotency_key s)) of
           Some existing_id \<Rightarrow>
             (case dget (gateway_authorizations s) existing_id of
                None \<Rightarrow> (Inl (KeyError existing_id), s)
              | Some existing \<Rightarrow> (Inr existing, s))
         | None \<Rightarrow>
             (if foreign_reservation w key_hash (tm_credit_reservation_id terms) s
              then (Inl (ValueError ''credit reservation belongs to another caller''), s)
              else if (case deferred_cap of None \<Rightarrow> False | Some cap \<Rightarrow> cap < held + tm_estimated terms)
              then (Inl DeferredSettlementCapReached, s)
              else (Inr a,
                    s\<lparr>deferred_outstanding :=
                        (case deferred_cap of None \<Rightarrow> deferred_outstanding s
                         | Some cap \<Rightarrow> dset w (held + tm_estimated terms) (deferred_outstanding s)),
                      gateway_authorizations := dset auth_id a (gateway_authorizations s),
                      gateway_authorization_id_by_idempotency_key :=
                        (case index of None \<Rightarrow> gateway_authorization_id_by_idempotency_key s
                         | Some i \<Rightarrow> dset i auth_id (gateway_authorization_id_by_idempotency_key s))\<rparr>)))"

definition mark_gateway_authorization_settled :: "string \<Rightarrow> ('a keys_state_scheme, unit) exec" where
  "mark_gateway_authorization_settled auth_id s =
     (case dget (gateway_authorizations s) auth_id of
        None \<Rightarrow> (Inl (KeyError auth_id), s)
      | Some a \<Rightarrow> (Inr (), s\<lparr>gateway_authorizations :=
           dset auth_id (a\<lparr>ga_settled := True\<rparr>) (gateway_authorizations s)\<rparr>))"

definition keys_reset :: "'a keys_state_scheme \<Rightarrow> 'a keys_state_scheme" where
  "keys_reset s = s\<lparr>keys := [], key_ids_by_lookup_hash := [], reservations := [],
     reservation_id_by_idempotency_key := [], gateway_authorizations := [],
     gateway_authorization_id_by_idempotency_key := [], window_usage := []\<rparr>"

section \<open>Lemmas\<close>

subsection \<open>Reservations and the credit book\<close>

text \<open>The open holds of a workspace, and the invariant that its counter is exactly their sum.\<close>

definition open_hold :: "string \<Rightarrow> reservation \<Rightarrow> int" where
  "open_hold w r = (if rv_workspace_id r = w \<and> \<not> rv_settled r then rv_amount r else 0)"

definition open_holds :: "string \<Rightarrow> 'a keys_state_scheme \<Rightarrow> int" where
  "open_holds w s = dsum (open_hold w) (reservations s)"

definition reserved_exact :: "'a keys_state_scheme \<Rightarrow> bool" where
  "reserved_exact s \<longleftrightarrow> (\<forall>w m. dget (credit_money s) w = Some m \<longrightarrow> cm_reserved m = open_holds w s)"

text \<open>Every reservation belongs to a workspace that has a credit book.\<close>

definition reservations_booked :: "'a keys_state_scheme \<Rightarrow> bool" where
  "reservations_booked s \<longleftrightarrow>
     (\<forall>r \<in> set (dvals (reservations s)). \<exists>m. dget (credit_money s) (rv_workspace_id r) = Some m)"

lemma open_hold_simps [simp]:
  "rv_settled r \<Longrightarrow> open_hold w r = 0"
  "rv_workspace_id r \<noteq> w \<Longrightarrow> open_hold w r = 0"
  by (simp_all add: open_hold_def)

lemma find_reservation_mem: "find_reservation w k ik s = Some r \<Longrightarrow> r \<in> set (dvals (reservations s))"
  by (force simp: find_reservation_def split: option.splits if_splits dest: map_of_SomeD)

lemma reserved_exactD: "reserved_exact s \<Longrightarrow> dget (credit_money s) w = Some m \<Longrightarrow> cm_reserved m = open_holds w s"
  by (simp add: reserved_exact_def)

lemma keys_reserve_exact:
  assumes "reserved_exact s" and "dget (reservations s) fresh = None"
  shows "reserved_exact (snd (keys_reserve w k amount ik fresh now s))"
  using assms
  by (auto simp: keys_reserve_def reserved_exact_def open_holds_def open_hold_def Let_def
      split: option.splits)

lemma keys_settle_exact:
  assumes "reserved_exact s"
  shows "reserved_exact (snd (keys_settle rid actual s))"
  using assms
  by (auto simp: keys_settle_def reserved_exact_def open_holds_def open_hold_def split: option.splits)

lemma keys_refund_exact:
  assumes "reserved_exact s"
  shows "reserved_exact (snd (keys_refund rid s))"
  using assms
  by (auto simp: keys_refund_def reserved_exact_def open_holds_def open_hold_def split: option.splits)

lemma keys_reserve_new:
  assumes "keys_reserve w k amount ik fresh now s = (Inr r, s')"
    and "Option.bind ik (\<lambda>x. find_reservation w k x s) = None"
  obtains m where "dget (credit_money s) w = Some m" "amount \<le> available m"
    "dget (credit_money s') w = Some (m\<lparr>cm_reserved := cm_reserved m + amount\<rparr>)"
    "dget (reservations s') (rv_id r) = Some r" "rv_id r = fresh" "rv_amount r = amount"
    "rv_workspace_id r = w" "rv_key_hash r = k" "\<not> rv_settled r"
    "ik \<noteq> None \<longrightarrow> dget (reservation_id_by_idempotency_key s') (w, k, the ik) = Some fresh"
  using assms by (auto simp: keys_reserve_def Let_def split: option.splits if_splits)

lemma keys_reserve_found:
  assumes "keys_reserve w k amount (Some ik) fresh now s = (Inr r, s')"
  shows "find_reservation w k ik s' = Some r"
proof (cases "find_reservation w k ik s")
  case None
  then have "Option.bind (Some ik) (\<lambda>x. find_reservation w k x s) = None" by simp
  then show ?thesis
    by (rule keys_reserve_new [OF assms]) (simp add: find_reservation_def)
next
  case (Some x)
  with assms show ?thesis by (simp add: keys_reserve_def)
qed

lemma keys_settle_settled:
  assumes "keys_settle rid a s = (Inr u, s')"
  shows "\<exists>r. dget (reservations s') rid = Some r \<and> rv_settled r"
  using assms by (auto simp: keys_settle_def split: option.splits if_splits)

lemma keys_refund_settled:
  assumes "keys_refund rid s = (Inr u, s')"
  shows "\<exists>r. dget (reservations s') rid = Some r \<and> rv_settled r"
  using assms by (auto simp: keys_refund_def split: option.splits if_splits)

lemma settled_noop:
  assumes "dget (reservations s) rid = Some r" "rv_settled r"
  shows "keys_settle rid a s = (Inr (), s)" "keys_refund rid s = (Inr (), s)"
  using assms by (simp_all add: keys_settle_def keys_refund_def)

text \<open>The book of a workspace in which nothing was ever reserved matches.\<close>

datatype reservation_op =
    Reserve string string microdollars "string option" string instant
  | Settle string microdollars
  | Refund string

fun reservation_step :: "reservation_op \<Rightarrow> 'a keys_state_scheme \<Rightarrow> 'a keys_state_scheme" where
  "reservation_step (Reserve w k amount ik fresh now) s = snd (keys_reserve w k amount ik fresh now s)"
| "reservation_step (Settle rid actual) s = snd (keys_settle rid actual s)"
| "reservation_step (Refund rid) s = snd (keys_refund rid s)"

fun reservation_legal :: "reservation_op \<Rightarrow> 'a keys_state_scheme \<Rightarrow> bool" where
  "reservation_legal (Reserve w k amount ik fresh now) s \<longleftrightarrow> dget (reservations s) fresh = None"
| "reservation_legal _ s \<longleftrightarrow> True"

interpretation reservation_run: invariant_run reservation_step reservation_legal reserved_exact
proof
  fix s :: "'a keys_state_scheme" and e
  assume "reserved_exact s" "reservation_legal e s"
  then show "reserved_exact (reservation_step e s)"
    by (cases e) (auto intro: keys_reserve_exact keys_settle_exact keys_refund_exact)
qed

subsection \<open>Caps\<close>

definition cap_used :: "api_key \<Rightarrow> microdollars" where
  "cap_used k = ak_usage k + (if ak_include_byok_in_limit k then ak_byok_usage k else 0)"

lemma reserve_limit_cases:
  assumes "dget (keys s) h = Some k" "reserve_limit h amount u now s = (Inr res, s')"
  obtains (no_hold) "kr_reserved res = 0" "s' = s"
      "is_byok u \<and> \<not> ak_include_byok_in_limit k \<or> ak_limit k = None \<and> \<not> ak_budget_strict k"
  | (hold) "kr_reserved res = amount"
      "s' = s\<lparr>keys := dset h (k\<lparr>ak_reserved := ak_reserved k + amount\<rparr>) (keys s)\<rparr>"
      "\<And>l. ak_limit k = Some l \<Longrightarrow> cap_used k + ak_reserved k + amount \<le> l"
  using assms
  by (auto simp: reserve_limit_def Let_def cap_used_def split: if_splits option.splits)

lemma reserve_limit_rejected_frame:
  "reserve_limit h amount u now s = (Inl e, s') \<Longrightarrow> s' = s"
  by (auto simp: reserve_limit_def Let_def split: if_splits option.splits)

subsection \<open>Window counters\<close>

definition live_usage :: "instant \<Rightarrow> window \<Rightarrow> (window, instant \<times> microdollars) dict \<Rightarrow> microdollars" where
  "live_usage now w state =
     (case dget state w of None \<Rightarrow> 0
      | Some (start, used) \<Rightarrow> if start < window_floors now w then 0 else used)"

lemma live_usage_bump:
  "live_usage now w (bump_window now cost w' state) =
     live_usage now w state + (if w' = w then cost else 0)"
  by (auto simp: live_usage_def bump_window_def split: option.splits prod.splits if_splits)

lemma live_usage_bump_all:
  "live_usage now w (fold (bump_window now cost) WINDOWS state) = live_usage now w state + cost"
  by (cases w) (simp_all add: WINDOWS_def live_usage_bump)

lemma window_usage_snapshot_get:
  "dget (window_usage_snapshot h now s) w = Some (live_usage now w (dget_or [] (window_usage s) h))"
  by (cases w) (simp_all add: window_usage_snapshot_def live_usage_def WINDOWS_def Let_def)

lemma add_usage_live:
  assumes "dget (keys s) h = Some k"
  shows "live_usage now w (dget_or [] (window_usage (add_usage h cost byok now s)) h') =
     live_usage now w (dget_or [] (window_usage s) h') +
       (if h' = h \<and> \<not> (byok \<and> \<not> ak_include_byok_in_limit k) then cost else 0)"
  using assms by (auto simp: add_usage_def Let_def live_usage_bump_all)

subsection \<open>Key lookup\<close>

lemma keys_create_lookup:
  assumes "keys_create hs lh fk fi salt now spec s = (Inr (raw, key), s')"
  shows "get_by_lookup_hash (lh raw) s' = Some key" "verify_api_key hs raw key"
  using assms
  by (auto simp: keys_create_def Let_def get_by_lookup_hash_def verify_api_key_def split: sum.splits)

lemma get_by_raw_lookup:
  "get_by_lookup_hash (lh raw) s = Some key \<Longrightarrow> verify_api_key hs raw key \<Longrightarrow>
   get_by_raw hs lh raw s = (Some key, s)"
  by (simp add: get_by_raw_def Let_def)

lemma get_by_raw_verifies:
  "get_by_raw hs lh raw s = (Some key, s') \<Longrightarrow> verify_api_key hs raw key"
  by (auto simp: get_by_raw_def Let_def split: option.splits if_splits dest: find_SomeD)

section \<open>Properties\<close>

text \<open>C17. Over any sequence of reserve, settle and refund calls, in whatever order and for whatever
  callers, a workspace's reserved counter stays equal to the sum of its unsettled reservations,
  provided the random reservation ids are fresh.\<close>

theorem reserved_counter_exact:
  assumes "reserved_exact s" and "legal_run reservation_step reservation_legal ops s"
    and "dget (credit_money (fold reservation_step ops s)) w = Some m"
  shows "cm_reserved m = open_holds w (fold reservation_step ops s)"
  using reservation_run.run_inv [OF assms(1,2)] assms(3) by (rule reserved_exactD)

definition demo_keys_state :: keys_state where
  "demo_keys_state = \<lparr>credit_money = [(''w'', new_credit_money 100)], keys = [],
     key_ids_by_lookup_hash = [], reservations = [], reservation_id_by_idempotency_key = [],
     gateway_authorizations = [], gateway_authorization_id_by_idempotency_key = [],
     deferred_outstanding = [], window_usage = []\<rparr>"

definition demo_ops :: "reservation_op list" where
  "demo_ops = [Reserve ''w'' ''k'' 30 None ''r1'' 0, Reserve ''w'' ''k'' 20 (Some ''i'') ''r2'' 0,
     Settle ''r1'' 25]"

theorem reserved_counter_exact_witness:
  "reserved_exact demo_keys_state \<and> legal_run reservation_step reservation_legal demo_ops demo_keys_state \<and>
   cm_reserved \<lparr>cm_credits = 100, cm_usage = 25, cm_reserved = 20\<rparr> =
     open_holds ''w'' (fold reservation_step demo_ops demo_keys_state)"
proof -
  have e: "reserved_exact demo_keys_state"
    by (simp add: reserved_exact_def demo_keys_state_def open_holds_def new_credit_money_def)
  have l: "legal_run reservation_step reservation_legal demo_ops demo_keys_state" by code_simp
  have m: "dget (credit_money (fold reservation_step demo_ops demo_keys_state)) ''w'' =
      Some \<lparr>cm_credits = 100, cm_usage = 25, cm_reserved = 20\<rparr>" by code_simp
  show ?thesis using reserved_counter_exact [OF e l m] e l by blast
qed

text \<open>A keyed reserve is idempotent: once a call with an idempotency key has returned a
  reservation, every later call of the same caller with that key, whatever amount, fresh id and
  clock it carries, returns that reservation and changes nothing.\<close>

theorem reserve_replay_idempotent:
  assumes "keys_reserve w k amount (Some ik) fresh now s = (Inr r, s')"
  shows "keys_reserve w k amount' (Some ik) fresh' now' s' = (Inr r, s')"
  using keys_reserve_found [OF assms] by (simp add: keys_reserve_def)

theorem reserve_replay_idempotent_witness:
  "\<exists>r s'. keys_reserve ''w'' ''k'' 30 (Some ''i'') ''r1'' 0 demo_keys_state = (Inr r, s') \<and>
     keys_reserve ''w'' ''k'' 99 (Some ''i'') ''r9'' 5 s' = (Inr r, s')"
proof -
  have "is_ok (fst (keys_reserve ''w'' ''k'' 30 (Some ''i'') ''r1'' 0 demo_keys_state))" by code_simp
  then obtain r s' where c: "keys_reserve ''w'' ''k'' 30 (Some ''i'') ''r1'' 0 demo_keys_state = (Inr r, s')"
    by (rule is_ok_pairE)
  show ?thesis using c reserve_replay_idempotent [OF c] by blast
qed

text \<open>A reservation never takes more than is available: when reserve makes a new reservation,
  the workspace had at least the amount available, its available balance afterwards is exactly the
  difference and not negative, and the total credits and usage are untouched.\<close>

theorem reserve_never_overdraws:
  assumes "keys_reserve w k amount ik fresh now s = (Inr r, s')"
    and "Option.bind ik (\<lambda>x. find_reservation w k x s) = None"
  shows "\<exists>m m'. dget (credit_money s) w = Some m \<and> dget (credit_money s') w = Some m' \<and>
     available m' = available m - amount \<and> 0 \<le> available m' \<and>
     cm_credits m' = cm_credits m \<and> cm_usage m' = cm_usage m"
  by (rule keys_reserve_new [OF assms]) (auto simp: available_def)

theorem reserve_never_overdraws_witness:
  "\<exists>m m'. dget (credit_money demo_keys_state) ''w'' = Some m \<and>
     dget (credit_money (snd (keys_reserve ''w'' ''k'' 30 None ''r1'' 0 demo_keys_state))) ''w'' = Some m' \<and>
     available m' = available m - 30 \<and> 0 \<le> available m' \<and> cm_credits m' = cm_credits m \<and> cm_usage m' = cm_usage m"
proof -
  have "is_ok (fst (keys_reserve ''w'' ''k'' 30 None ''r1'' 0 demo_keys_state))" by code_simp
  then obtain r s' where c: "keys_reserve ''w'' ''k'' 30 None ''r1'' 0 demo_keys_state = (Inr r, s')"
    by (rule is_ok_pairE)
  show ?thesis using reserve_never_overdraws [OF c] c by simp
qed

text \<open>A key's lifetime cap holds: when reserve_limit admits a request on a key with a cap and
  takes a hold, the cap-relevant usage plus every outstanding hold plus the new one is within the
  cap; when it takes no hold nothing changes; and a refusal never changes the store.\<close>

theorem reserve_limit_within_cap:
  assumes "dget (keys s) h = Some k" and "ak_limit k = Some l"
  shows "case reserve_limit h amount u now s of
      (Inl e, s') \<Rightarrow> s' = s
    | (Inr res, s') \<Rightarrow>
        (kr_reserved res = 0 \<and> s' = s) \<or>
        (\<exists>k'. dget (keys s') h = Some k' \<and> kr_reserved res = amount \<and>
           ak_reserved k' = ak_reserved k + amount \<and> cap_used k' + ak_reserved k' \<le> l)"
proof (cases "reserve_limit h amount u now s")
  case (Pair r s')
  show ?thesis
  proof (cases r)
    case (Inl e)
    with Pair show ?thesis by (auto dest: reserve_limit_rejected_frame)
  next
    case (Inr res)
    with Pair have "reserve_limit h amount u now s = (Inr res, s')" by simp
    with assms(1) show ?thesis
      by (rule reserve_limit_cases) (use Pair Inr assms(2) in \<open>auto simp: cap_used_def\<close>)
  qed
qed

definition demo_spec :: key_spec where
  "demo_spec = \<lparr>ks_workspace_id = ''w'', ks_name = ''demo'', ks_creator_user_id = None,
     ks_management = False, ks_raw_key = Some ''raw'', ks_limit = Some 50, ks_limit_reset = None,
     ks_include_byok_in_limit = True, ks_expires_at = None, ks_limit_daily = Some 40,
     ks_limit_weekly = None, ks_limit_monthly = None, ks_budget_alert_only = False,
     ks_budget_strict = False, ks_tags = None, ks_scopes = None, ks_app_id = []\<rparr>"

definition demo_key_state :: keys_state where
  "demo_key_state = snd (keys_create (\<lambda>k salt. salt @ k) (\<lambda>k. k) ''gen'' ''h'' ''salt'' 0 demo_spec demo_keys_state)"

theorem reserve_limit_within_cap_witness:
  "case reserve_limit ''h'' 30 ''Credits'' 0 demo_key_state of
      (Inl e, s') \<Rightarrow> False
    | (Inr res, s') \<Rightarrow> (\<exists>k'. dget (keys s') ''h'' = Some k' \<and> cap_used k' + ak_reserved k' \<le> 50)"
proof -
  have l: "map_option ak_limit (dget (keys demo_key_state) ''h'') = Some (Some 50)" by code_simp
  then obtain k where k: "dget (keys demo_key_state) ''h'' = Some k" "ak_limit k = Some 50" by auto
  have "is_ok (fst (reserve_limit ''h'' 30 ''Credits'' 0 demo_key_state))" by code_simp
  then obtain res s' where c: "reserve_limit ''h'' 30 ''Credits'' 0 demo_key_state = (Inr res, s')"
    by (rule is_ok_pairE)
  have "(case reserve_limit ''h'' 30 ''Credits'' 0 demo_key_state of (Inr res, _) \<Rightarrow> kr_reserved res | _ \<Rightarrow> 0) = 30"
    by code_simp
  then show ?thesis using reserve_limit_within_cap [OF k, of 30 "''Credits''" 0] c by auto
qed

text \<open>Settled usage enters a key's window counters exactly once and only where it counts:
  after add_usage, the current usage of every window of the key is its previous current usage plus
  the cost (nothing is added for BYOK traffic that the key excludes from its caps), a stale window
  restarting from zero, and other keys' windows are unchanged.\<close>

theorem add_usage_window_snapshot:
  assumes "dget (keys s) h = Some k"
  shows "dget (window_usage_snapshot h' now (add_usage h cost byok now s)) w =
    Some (dget_or 0 (window_usage_snapshot h' now s) w +
      (if h' = h \<and> \<not> (byok \<and> \<not> ak_include_byok_in_limit k) then cost else 0))"
  using add_usage_live [OF assms] by (simp add: window_usage_snapshot_get dget_or_def)

theorem add_usage_window_snapshot_witness:
  "dget (window_usage_snapshot ''h'' 0 (add_usage ''h'' 7 False 0 demo_key_state)) Daily = Some 7"
proof -
  have "map_option ak_hash (dget (keys demo_key_state) ''h'') = Some ''h''" by code_simp
  then obtain k where k: "dget (keys demo_key_state) ''h'' = Some k" by auto
  have "dget_or 0 (window_usage_snapshot ''h'' 0 demo_key_state) Daily = 0" by code_simp
  then show ?thesis using add_usage_window_snapshot [OF k, of "''h''" 0 7 False Daily] by simp
qed

text \<open>A created key authenticates: the raw key that create returns resolves, through the lookup
  index and the salted hash, to the created record, without changing the store; and whatever key
  get_by_raw returns, the presented raw key matches that key's salted hash.\<close>

theorem created_key_authenticates:
  assumes "keys_create hash lookup_hash new_key new_id salt now spec s = (Inr (raw, key), s')"
  shows "get_by_raw hash lookup_hash raw s' = (Some key, s') \<and>
    (\<forall>raw' t key' t'. get_by_raw hash lookup_hash raw' t = (Some key', t') \<longrightarrow>
       hash raw' (ak_salt key') = ak_secret_hash key')"
  using get_by_raw_lookup [where lh = lookup_hash and raw = raw, OF keys_create_lookup [OF assms]] get_by_raw_verifies
  by (auto simp: verify_api_key_def)

theorem created_key_authenticates_witness:
  "\<exists>key. get_by_raw (\<lambda>k salt. salt @ k) (\<lambda>k. k) ''raw'' demo_key_state = (Some key, demo_key_state)"
proof -
  have "is_ok (fst (keys_create (\<lambda>k salt. salt @ k) (\<lambda>k. k) ''gen'' ''h'' ''salt'' 0 demo_spec demo_keys_state))"
    by code_simp
  then obtain p s' where c: "keys_create (\<lambda>k salt. salt @ k) (\<lambda>k. k) ''gen'' ''h'' ''salt'' 0 demo_spec demo_keys_state = (Inr p, s')"
    by (rule is_ok_pairE)
  obtain raw key where p: "p = (raw, key)" by (cases p)
  have "(case fst (keys_create (\<lambda>k salt. salt @ k) (\<lambda>k. k) ''gen'' ''h'' ''salt'' 0 demo_spec demo_keys_state) of
      Inr (r, _) \<Rightarrow> r | _ \<Rightarrow> []) = ''raw''" by code_simp
  then have "raw = ''raw''" using c p by simp
  moreover have "demo_key_state = s'" using c by (simp add: demo_key_state_def)
  ultimately show ?thesis using created_key_authenticates [OF c [unfolded p]] by blast
qed

end
