(* ===== verification/Trust_Tiers.thy ===== *)
theory Trust_Tiers
  imports Models
begin

text \<open>
  \<open>src/src/trusted_router/trust_tiers.py\<close> and the pure policy of \<open>trust_reconciliation.py\<close>:
  validation of adverse events and credit provenance, the lifecycle graphs of refunds and disputes,
  the recovery target of a payment, the trust tier, and the canonical reconciliation of two sources
  of facts.

  An \<open>instant\<close> is always timezone-aware, so the checks for a missing offset have no counterpart.
  The canonical JSON text of an adverse event (\<open>adverse_event_payload\<close>) is represented by the
  event it serialises; reading it back validates it again.
\<close>

section \<open>Constants\<close>

definition TRUST_EVENT_PROVIDERS :: "string list" where
  "TRUST_EVENT_PROVIDERS =
     [''stripe'', ''paypal'', ''adyen'', ''x402'', ''lightning'', ''operator'', ''system'']"

definition TRUST_EVENT_LIFECYCLE_STATUSES :: "string list" where
  "TRUST_EVENT_LIFECYCLE_STATUSES =
     [''pending'', ''succeeded'', ''failed'', ''reversed'', ''won'', ''lost'', ''closed'',
      ''terminal_by_horizon'']"

definition PAYMENT_SOURCES :: "(string, string list) dict" where
  "PAYMENT_SOURCES =
     [(''stripe'', [''checkout'', ''auto_refill'']), (''paypal'', [''capture'']),
      (''adyen'', [''authorisation'']), (''x402'', [''x402'']), (''lightning'', [''invoice''])]"

text \<open>The module body first builds the two transition graphs and, at its end, adds the horizon
  terminal to three of their entries.\<close>

type_synonym transition_graph = "(string option, string list) dict"

definition add_horizon :: "string \<Rightarrow> transition_graph \<Rightarrow> transition_graph" where
  "add_horizon st g = dset (Some st) (dget_or [] g (Some st) @ [''terminal_by_horizon'']) g"

definition REFUND_TRANSITIONS :: transition_graph where
  "REFUND_TRANSITIONS = add_horizon ''pending''
     [(None, [''pending'', ''succeeded'', ''failed'', ''reversed'']),
      (Some ''pending'', [''pending'', ''succeeded'', ''failed'', ''reversed'']),
      (Some ''succeeded'', [''succeeded'', ''reversed'']),
      (Some ''failed'', [''failed'']),
      (Some ''reversed'', [''reversed'']),
      (Some ''terminal_by_horizon'', [''terminal_by_horizon''])]"

definition DISPUTE_TRANSITIONS :: transition_graph where
  "DISPUTE_TRANSITIONS = add_horizon ''succeeded'' (add_horizon ''pending''
     [(None, [''pending'', ''succeeded'', ''won'', ''lost'', ''closed'']),
      (Some ''pending'', [''pending'', ''succeeded'', ''won'', ''lost'', ''closed'']),
      (Some ''succeeded'', [''succeeded'', ''won'', ''lost'', ''closed'']),
      (Some ''won'', [''won'']),
      (Some ''lost'', [''lost'', ''closed'']),
      (Some ''closed'', [''closed'']),
      (Some ''terminal_by_horizon'', [''terminal_by_horizon''])])"

section \<open>Validation\<close>

definition validate_adverse_event :: "adverse_trust_event \<Rightarrow> unit result" where
  "validate_adverse_event e =
     (if av_provider e \<notin> set [''stripe'', ''x402'', ''paypal'', ''adyen'']
      then Inl (ValueError ''unsupported adverse payment provider'')
      else if av_kind e \<notin> set [''refund'', ''dispute'']
      then Inl (ValueError ''adverse trust event must be a refund or dispute'')
      else if av_adverse_ref e = [] \<or> av_original_payment_ref e = []
      then Inl (ValueError ''adverse and original payment references are required'')
      else if av_provider e \<in> set [''stripe'', ''x402''] \<and>
        \<not> startswith ''pi_'' (av_original_payment_ref e)
      then Inl (ValueError ''Stripe/x402 adverse event requires a PaymentIntent id'')
      else if av_amount e < 0
      then Inl (ValueError ''adverse amount must not be negative'')
      else if av_lifecycle_status e \<notin> set TRUST_EVENT_LIFECYCLE_STATUSES
      then Inl (ValueError ''unsupported adverse lifecycle status'')
      else if av_watermark e = []
      then Inl (ValueError ''provider ordering watermark is required'')
      else Inr ())"

text \<open>\<open>adverse_event_from_payload\<close>, on the event that the payload text serialises.\<close>

definition adverse_event_from_payload :: "adverse_trust_event \<Rightarrow> adverse_trust_event result" where
  "adverse_event_from_payload e =
     (case validate_adverse_event e of Inl x \<Rightarrow> Inl x | Inr _ \<Rightarrow> Inr e)"

section \<open>Lifecycle of an adverse fact\<close>

definition adverse_transition_outcome ::
    "string \<Rightarrow> string option \<Rightarrow> string option \<Rightarrow> string \<Rightarrow> string \<Rightarrow> string" where
  "adverse_transition_outcome kind old_status old_watermark new_status new_watermark =
     (if old_status = Some new_status then ''replay''
      else if (case old_watermark of None \<Rightarrow> False | Some w \<Rightarrow> new_watermark \<le> w) then ''stale''
      else let graph = (if kind = ''refund'' then REFUND_TRANSITIONS else DISPUTE_TRANSITIONS)
           in if new_status \<notin> set (dget_or [] graph old_status) then ''illegal'' else ''applied'')"

definition adverse_restamp_wins :: "string option \<Rightarrow> adverse_trust_event \<Rightarrow> bool" where
  "adverse_restamp_wins old_watermark e =
     (case old_watermark of None \<Rightarrow> True | Some w \<Rightarrow> w < av_watermark e)"

section \<open>Recovery target of a payment\<close>

definition status_in :: "trust_event \<Rightarrow> string list \<Rightarrow> bool" where
  "status_in row sts \<longleftrightarrow> (case te_lifecycle_status row of None \<Rightarrow> False | Some s \<Rightarrow> s \<in> set sts)"

definition payment_recovery_target_without_horizon ::
    "trust_event \<Rightarrow> trust_event list \<Rightarrow> (int \<times> int) result" where
  "payment_recovery_target_without_horizon payment rows =
     (let credited = oint (te_credited payment);
          payment_amount = oint (te_payment_amount payment)
      in if payment_amount \<le> 0
         then Inl (ValueError ''payment fact has no positive payment amount'')
         else
           let net_refunded = min payment_amount
                 (sum_list (map (\<lambda>row. oint (te_amount row))
                    (filter (\<lambda>row. te_kind row = ''refund'' \<and>
                       te_lifecycle_status row = Some ''succeeded'') rows)));
               refund_target = credited * net_refunded div payment_amount;
               dispute_claims_all = list_ex (\<lambda>row. te_kind row = ''dispute'' \<and>
                 status_in row [''succeeded'', ''lost'', ''closed'']) rows
           in Inr (if dispute_claims_all then credited else refund_target, net_refunded))"

definition payment_recovery_target ::
    "trust_event \<Rightarrow> trust_event list \<Rightarrow> (int \<times> int) result" where
  "payment_recovery_target payment rows =
     (case payment_recovery_target_without_horizon payment rows of Inl e \<Rightarrow> Inl e
      | Inr (target, net_refunded) \<Rightarrow>
          let credited = oint (te_credited payment)
          in if list_ex (\<lambda>row. te_kind row = ''dispute'' \<and>
                  te_lifecycle_status row = Some ''terminal_by_horizon'' \<and>
                  oint (te_recovery_target row) \<ge> credited) rows
             then Inr (credited, net_refunded)
             else Inr (target, net_refunded))"

section \<open>Provenance of a credit\<close>

definition validate_credit_provenance :: "credit_provenance \<Rightarrow> unit result" where
  "validate_credit_provenance p =
     (let source = cp_source p; provider = cp_provider p; external_ref = cp_external_ref p;
          ref_text = (case external_ref of None \<Rightarrow> ''None'' | Some r \<Rightarrow> r);
          sources = dget PAYMENT_SOURCES provider
      in if provider \<notin> set TRUST_EVENT_PROVIDERS
         then Inl (ValueError ''unsupported trust-event provider'')
         else if py_strip source = []
         then Inl (ValueError ''credit provenance source is required'')
         else if sources \<noteq> None \<and> ostr external_ref = []
         then Inl (ValueError ''payment credit provenance requires a provider object reference'')
         else if (case sources of None \<Rightarrow> False | Some xs \<Rightarrow> source \<notin> set xs)
         then Inl (ValueError ''payment credit provenance source does not match its provider'')
         else if provider \<in> set [''stripe'', ''x402''] \<and> \<not> startswith ''pi_'' ref_text
         then Inl (ValueError ''Stripe/x402 credit provenance requires a PaymentIntent id'')
         else if provider = ''paypal'' \<and> startswith ''WH-'' ref_text
         then Inl (ValueError ''PayPal credit provenance requires a capture id, not a webhook id'')
         else if provider \<in> set [''operator'', ''system''] \<and> source \<notin> set [''grant'', ''provisioning'']
         then Inl (ValueError ''operator/system credit source must be grant or provisioning'')
         else if provider \<in> set [''operator'', ''system''] \<and> external_ref \<noteq> None
         then Inl (ValueError ''operator/system credit must not carry an external reference'')
         else Inr ())"

definition is_payment_provider :: "string \<Rightarrow> bool" where
  "is_payment_provider p \<longleftrightarrow> dget PAYMENT_SOURCES p \<noteq> None"

definition payment_or_grant_event ::
    "string \<Rightarrow> string \<Rightarrow> int \<Rightarrow> credit_provenance \<Rightarrow> instant \<Rightarrow> int option \<Rightarrow> string option \<Rightarrow>
     trust_event result" where
  "payment_or_grant_event workspace_id event_id amount p recorded_at payment_amount_arg currency =
     (case validate_credit_provenance p of Inl e \<Rightarrow> Inl e
      | Inr _ \<Rightarrow>
          let is_payment = is_payment_provider (cp_provider p);
              credited = amount;
              payment_amount = (case payment_amount_arg of None \<Rightarrow> credited | Some x \<Rightarrow> x);
              normalized_currency = (if ostr currency = [] then None else map_option py_upper currency)
          in if is_payment \<and> payment_amount \<le> 0
             then Inl (ValueError ''payment amount must be positive'')
             else if is_payment \<and> (payment_amount_arg = None \<or> normalized_currency = None)
             then Inl (ValueError ''payment amount and currency are required for payment facts'')
             else Inr \<lparr>te_workspace_id = workspace_id, te_event_id = event_id,
               te_kind = (if is_payment then ''payment'' else ''grant''),
               te_provider = cp_provider p,
               te_amount = Some (if is_payment then payment_amount else credited),
               te_original_payment_ref = cp_external_ref p, te_adverse_ref = None,
               te_occurred_at = cp_occurred_at p, te_recorded_at = recorded_at,
               te_payment_amount = (if is_payment then Some payment_amount else None),
               te_currency = (if is_payment then normalized_currency else None),
               te_credited = Some credited,
               te_recovered = (if is_payment then Some 0 else None),
               te_provider_subtype = Some (cp_source p),
               te_lifecycle_status = Some ''succeeded'',
               te_cumulative_refunded = (if is_payment then Some 0 else None),
               te_recovery_target = (if is_payment then Some 0 else None),
               te_debit_status = None,
               te_unrecovered = (if is_payment then Some 0 else None),
               te_watermark = None\<rparr>)"

section \<open>Trust tiers\<close>

record trust_tier_decision =
  td_computed_tier :: int
  td_effective_tier :: int

definition effective_trust_tier :: "int \<Rightarrow> int option \<Rightarrow> int \<Rightarrow> instant option \<Rightarrow> int" where
  "effective_trust_tier computed override identity_ceiling latched =
     (if latched \<noteq> None then 0
      else max 0 (min 3 (min identity_ceiling (max computed (oint override)))))"

text \<open>The settings of a store that \<open>compute_trust_tier\<close> reads.\<close>

record tier_policy =
  tp_qualifying_providers :: "string list"
  tp_tier3_min_days :: int
  tp_tier3_min_paid :: microdollars

definition qualifying_payments :: "tier_policy \<Rightarrow> trust_event list \<Rightarrow> trust_event list" where
  "qualifying_payments pol events = filter (\<lambda>e. te_kind e = ''payment'' \<and>
     te_provider e \<in> set (tp_qualifying_providers pol) \<and>
     te_lifecycle_status e = Some ''succeeded'') events"

definition US_PER_DAY :: int where
  "US_PER_DAY = 86400000000"

definition compute_trust_tier ::
    "tier_policy \<Rightarrow> trust_event list \<Rightarrow> string \<Rightarrow> instant option \<Rightarrow> int option \<Rightarrow> instant \<Rightarrow> bool \<Rightarrow>
     trust_tier_decision" where
  "compute_trust_tier pol events owner_identity_status latched override now identity_bypass =
     (let qualifying = qualifying_payments pol events;
          approved = (owner_identity_status = ''approved'');
          computed =
            (if qualifying = [] then 0
             else
               let first_payment_at = fold min (map te_occurred_at qualifying) (te_occurred_at (hd qualifying));
                   total_paid = sum_list (map (\<lambda>e. oint (te_payment_amount e)) qualifying);
                   has_adverse_history = list_ex (\<lambda>e. te_kind e \<in> set [''refund'', ''dispute'']) events
               in if approved \<and> first_payment_at \<le> now - tp_tier3_min_days pol * US_PER_DAY \<and>
                     total_paid \<ge> tp_tier3_min_paid pol \<and> \<not> has_adverse_history
                  then 3
                  else if approved then 2 else 1)
      in \<lparr>td_computed_tier = computed,
          td_effective_tier = effective_trust_tier computed override
            (if approved \<or> identity_bypass then 3 else 1) latched\<rparr>)"

section \<open>Reconciliation\<close>

record backfill_marker =
  bm_provider :: string
  bm_account_id :: string
  bm_environment :: string
  bm_source :: string
  bm_source_version :: string
  bm_history_start :: instant
  bm_closed_through :: instant
  bm_consistency_delay_seconds :: int
  bm_unmatched_count :: int
  bm_semantic_mismatch_count :: int
  bm_completed_at :: "instant option"

definition marker_is_complete :: "backfill_marker \<Rightarrow> bool" where
  "marker_is_complete m \<longleftrightarrow> bm_unmatched_count m = 0 \<and> bm_semantic_mismatch_count m = 0"

definition check_backfill_marker :: "backfill_marker \<Rightarrow> backfill_marker result" where
  "check_backfill_marker m =
     (if bm_consistency_delay_seconds m < 0
      then Inl (ValueError ''consistency delay must not be negative'')
      else if bm_unmatched_count m < 0 \<or> bm_semantic_mismatch_count m < 0
      then Inl (ValueError ''reconciliation counts must not be negative'')
      else if bm_completed_at m \<noteq> None \<and> \<not> marker_is_complete m
      then Inl (ValueError ''completed_at requires zero unmatched and semantic mismatch counts'')
      else Inr m)"

record marker_requirement =
  mr_provider :: string
  mr_account_id :: string
  mr_environment :: string
  mr_source :: string
  mr_source_version :: string

definition completed_marker_satisfies :: "backfill_marker option \<Rightarrow> marker_requirement \<Rightarrow> bool" where
  "completed_marker_satisfies marker req =
     (case marker of None \<Rightarrow> False
      | Some m \<Rightarrow> bm_completed_at m \<noteq> None \<and> marker_is_complete m \<and>
          bm_provider m = mr_provider req \<and> bm_account_id m = mr_account_id req \<and>
          bm_environment m = mr_environment req \<and> bm_source m = mr_source req \<and>
          bm_source_version m = mr_source_version req)"

type_synonym canonical_key = "string \<times> string \<times> string"

record canonical_trust_record =
  cr_provider :: string
  cr_kind :: string
  cr_provider_subtype :: "string option"
  cr_adverse_ref :: "string option"
  cr_original_payment_ref :: string
  cr_lifecycle_status :: "string option"
  cr_payment_amount :: int
  cr_currency :: string
  cr_credited :: int
  cr_recovery_target :: int
  cr_workspace_id :: string
  cr_occurred_at :: instant
  cr_watermark :: "string option"

definition canonical_key_of :: "canonical_trust_record \<Rightarrow> canonical_key result" where
  "canonical_key_of r =
     (let canonical_id = (if cr_kind r = ''payment'' then cr_original_payment_ref r
                          else ostr (cr_adverse_ref r))
      in if canonical_id = [] then Inl (ValueError ''canonical trust record has no provider id'')
         else Inr (cr_provider r, cr_kind r, canonical_id))"

text \<open>\<open>canonical_mapping\<close>; \<open>digest\<close> is the SHA-256 of the canonical JSON of a record.\<close>

fun canonical_mapping_go ::
    "(canonical_trust_record \<Rightarrow> 'd) \<Rightarrow> (canonical_key, 'd) dict \<Rightarrow> canonical_trust_record list \<Rightarrow>
     (canonical_key, 'd) dict result" where
  "canonical_mapping_go digest acc [] = Inr acc"
| "canonical_mapping_go digest acc (r # rs) =
     (case canonical_key_of r of Inl e \<Rightarrow> Inl e
      | Inr k \<Rightarrow>
          if dget acc k \<noteq> None then Inl (ValueError ''duplicate canonical trust key'')
          else canonical_mapping_go digest (dset k (digest r) acc) rs)"

definition canonical_mapping ::
    "(canonical_trust_record \<Rightarrow> 'd) \<Rightarrow> canonical_trust_record list \<Rightarrow> (canonical_key, 'd) dict result" where
  "canonical_mapping digest rs = canonical_mapping_go digest [] rs"

record reconciliation_diff =
  rd_source_only :: "canonical_key list"
  rd_local_only :: "canonical_key list"
  rd_semantic_mismatches :: "canonical_key list"

definition unmatched_count :: "reconciliation_diff \<Rightarrow> nat" where
  "unmatched_count d = length (rd_source_only d) + length (rd_local_only d)"

definition semantic_mismatch_count :: "reconciliation_diff \<Rightarrow> nat" where
  "semantic_mismatch_count d = length (rd_semantic_mismatches d)"

definition diff_clean :: "reconciliation_diff \<Rightarrow> bool" where
  "diff_clean d \<longleftrightarrow> unmatched_count d = 0 \<and> semantic_mismatch_count d = 0"

definition reconcile_canonical_mappings ::
    "(canonical_key, 'd) dict \<Rightarrow> (canonical_key, 'd) dict \<Rightarrow> reconciliation_diff" where
  "reconcile_canonical_mappings source loc =
     (let source_keys = remdups (map fst source); local_keys = remdups (map fst loc)
      in \<lparr>rd_source_only = sort (filter (\<lambda>k. k \<notin> set local_keys) source_keys),
          rd_local_only = sort (filter (\<lambda>k. k \<notin> set source_keys) local_keys),
          rd_semantic_mismatches =
            sort (filter (\<lambda>k. k \<in> set local_keys \<and> dget source k \<noteq> dget loc k) source_keys)\<rparr>)"

text \<open>\<open>_derived_targets\<close>: the reconciler derives every payment's target on its own.\<close>

definition payment_key :: "trust_event \<Rightarrow> string \<times> string" where
  "payment_key row = (te_provider row, ostr (te_original_payment_ref row))"

definition payments_by_key :: "trust_event list \<Rightarrow> (string \<times> string, trust_event) dict" where
  "payments_by_key events = fold (\<lambda>row d. dset (payment_key row) row d)
     (filter (\<lambda>row. te_kind row = ''payment'' \<and> ostr (te_original_payment_ref row) \<noteq> []) events) []"

definition adverse_for_key :: "trust_event list \<Rightarrow> string \<times> string \<Rightarrow> trust_event list" where
  "adverse_for_key events k = filter (\<lambda>row. te_kind row \<noteq> ''payment'' \<and>
     ostr (te_original_payment_ref row) \<noteq> [] \<and> payment_key row = k) events"

definition derived_target :: "trust_event \<Rightarrow> trust_event list \<Rightarrow> int result" where
  "derived_target payment rows =
     (let payment_amount = oint (te_payment_amount payment); credited = oint (te_credited payment)
      in if payment_amount \<le> 0
         then Inl (ValueError ''payment has no positive payment amount'')
         else
           let net_refunded = min payment_amount
                 (sum_list (map (\<lambda>row. oint (te_amount row))
                    (filter (\<lambda>row. te_kind row = ''refund'' \<and>
                       te_lifecycle_status row = Some ''succeeded'') rows)));
               refund_target = credited * net_refunded div payment_amount;
               claims_all = list_ex (\<lambda>row. te_kind row = ''dispute'' \<and>
                 (status_in row [''succeeded'', ''lost'', ''closed''] \<or>
                  te_lifecycle_status row = Some ''terminal_by_horizon'' \<and>
                  oint (te_recovery_target row) \<ge> credited)) rows
           in Inr (if claims_all then credited else refund_target))"

fun derived_targets_go ::
    "trust_event list \<Rightarrow> (string \<times> string, trust_event) dict \<Rightarrow> (string \<times> string, int) dict \<Rightarrow>
     (string \<times> string, int) dict result" where
  "derived_targets_go events [] acc = Inr acc"
| "derived_targets_go events ((k, payment) # ps) acc =
     (case derived_target payment (adverse_for_key events k) of Inl e \<Rightarrow> Inl e
      | Inr t \<Rightarrow> derived_targets_go events ps (dset k t acc))"

definition derived_targets :: "trust_event list \<Rightarrow> (string \<times> string, int) dict result" where
  "derived_targets events = derived_targets_go events (payments_by_key events) []"

fun canonical_records_go ::
    "(string \<times> string, int) dict \<Rightarrow> trust_event list \<Rightarrow> canonical_trust_record list result" where
  "canonical_records_go targets [] = Inr []"
| "canonical_records_go targets (row # rows) =
     (if te_kind row \<notin> set [''payment'', ''refund'', ''dispute'']
      then canonical_records_go targets rows
      else case dget targets (payment_key row) of
          None \<Rightarrow> Inl (ValueError ''adverse fact has no canonical payment'')
        | Some t \<Rightarrow>
            (case canonical_records_go targets rows of Inl e \<Rightarrow> Inl e
             | Inr rs \<Rightarrow> Inr (\<lparr>cr_provider = te_provider row, cr_kind = te_kind row,
                 cr_provider_subtype = te_provider_subtype row, cr_adverse_ref = te_adverse_ref row,
                 cr_original_payment_ref = ostr (te_original_payment_ref row),
                 cr_lifecycle_status = te_lifecycle_status row,
                 cr_payment_amount = oint (te_payment_amount row),
                 cr_currency = py_upper (ostr (te_currency row)),
                 cr_credited = oint (te_credited row), cr_recovery_target = t,
                 cr_workspace_id = te_workspace_id row, cr_occurred_at = te_occurred_at row,
                 cr_watermark = te_watermark row\<rparr> # rs)))"

definition canonical_records_from_events :: "trust_event list \<Rightarrow> canonical_trust_record list result" where
  "canonical_records_from_events events =
     (case derived_targets events of Inl e \<Rightarrow> Inl e
      | Inr targets \<Rightarrow> canonical_records_go targets events)"

record outstanding_adverse =
  oa_provider :: string
  oa_kind :: string
  oa_adverse_ref :: string
  oa_original_payment_ref :: string
  oa_lifecycle_status :: string
  oa_occurred_at :: instant
  oa_evidence_deadline :: "instant option"

definition horizon_at :: "outstanding_adverse \<Rightarrow> instant result" where
  "horizon_at row =
     (if oa_kind row = ''refund'' then Inr (oa_occurred_at row + 30 * US_PER_DAY)
      else case oa_evidence_deadline row of
          None \<Rightarrow> Inl (ValueError ''a dispute horizon requires its last evidence deadline'')
        | Some d \<Rightarrow> Inr (d + 90 * US_PER_DAY))"

definition adverse_is_terminal :: "string \<Rightarrow> string \<Rightarrow> bool" where
  "adverse_is_terminal kind status \<longleftrightarrow>
     status \<in> set (if kind = ''refund''
       then [''succeeded'', ''failed'', ''reversed'', ''terminal_by_horizon'']
       else [''won'', ''lost'', ''closed'', ''terminal_by_horizon''])"

definition outstanding_is_beyond_horizon :: "outstanding_adverse \<Rightarrow> instant \<Rightarrow> bool result" where
  "outstanding_is_beyond_horizon row now =
     (if adverse_is_terminal (oa_kind row) (oa_lifecycle_status row) then Inr False
      else case horizon_at row of Inl e \<Rightarrow> Inl e | Inr h \<Rightarrow> Inr (h \<le> now))"

definition reconciliation_tail_start :: "instant \<Rightarrow> int \<Rightarrow> int \<Rightarrow> instant result" where
  "reconciliation_tail_start closed_through delay cadence =
     (if cadence \<le> 0 \<or> delay < 0 then Inl (ValueError ''invalid reconciliation timing'')
      else Inr (closed_through - (delay + 2 * cadence) * 1000000))"

definition reconciliation_is_fresh :: "instant option \<Rightarrow> instant \<Rightarrow> int \<Rightarrow> bool" where
  "reconciliation_is_fresh reconciled_through now max_age_seconds =
     (case reconciled_through of None \<Rightarrow> False
      | Some t \<Rightarrow> \<not> max_age_seconds < 0 \<and> 0 \<le> now - t \<and> now - t \<le> max_age_seconds * 1000000)"

section \<open>The lifecycle as a state machine\<close>

text \<open>
  The stamps of one stored adverse fact: its status and the watermark of the observation that wrote
  them, \<open>None\<close> before the first.  \<open>observe\<close> is what one delivered observation does to them: an
  applied transition writes both, a replay with a greater watermark moves the watermark only, and
  everything else changes nothing.
\<close>

type_synonym stamps = "string option \<times> string option"

definition observe :: "string \<Rightarrow> adverse_trust_event \<Rightarrow> stamps \<Rightarrow> stamps" where
  "observe kind e s =
     (let outcome = adverse_transition_outcome kind (fst s) (snd s) (av_lifecycle_status e) (av_watermark e)
      in if outcome = ''applied'' then (Some (av_lifecycle_status e), Some (av_watermark e))
         else if outcome = ''replay'' \<and> adverse_restamp_wins (snd s) e
         then (fst s, Some (av_watermark e))
         else s)"

inductive lifecycle_step :: "string \<Rightarrow> stamps \<Rightarrow> stamps \<Rightarrow> bool"
  for kind :: string
where
  applied: "adverse_transition_outcome kind st wm (av_lifecycle_status (e :: adverse_trust_event)) (av_watermark e) = ''applied'' \<Longrightarrow>
    lifecycle_step kind (st, wm) (Some (av_lifecycle_status e), Some (av_watermark e))"
| restamped: "adverse_restamp_wins wm (e :: adverse_trust_event) \<Longrightarrow>
    lifecycle_step kind (Some (av_lifecycle_status e), wm) (Some (av_lifecycle_status e), Some (av_watermark e))"

inductive_cases lifecycle_stepE: "lifecycle_step kind s s'"

definition final_status :: "string \<Rightarrow> string \<Rightarrow> bool" where
  "final_status kind st \<longleftrightarrow> st \<in> set (if kind = ''refund''
     then [''failed'', ''reversed'', ''terminal_by_horizon'']
     else [''won'', ''closed'', ''terminal_by_horizon''])"

lemma transition_outcome_cases:
  "adverse_transition_outcome k st wm new_st new_wm \<in> {''replay'', ''stale'', ''illegal'', ''applied''}"
  by (simp add: adverse_transition_outcome_def Let_def)

lemma transition_replay_iff:
  "adverse_transition_outcome k st wm new_st new_wm = ''replay'' \<longleftrightarrow> st = Some new_st"
  by (simp add: adverse_transition_outcome_def Let_def)

lemma transition_applied_iff:
  "adverse_transition_outcome k st wm new_st new_wm = ''applied'' \<longleftrightarrow>
     st \<noteq> Some new_st \<and> (case wm of None \<Rightarrow> True | Some w \<Rightarrow> w < new_wm) \<and>
     new_st \<in> set (dget_or [] (if k = ''refund'' then REFUND_TRANSITIONS else DISPUTE_TRANSITIONS) st)"
  by (auto simp: adverse_transition_outcome_def Let_def split: option.splits)

lemma final_status_successors:
  assumes "final_status k st"
    and "new_st \<in> set (dget_or [] (if k = ''refund'' then REFUND_TRANSITIONS else DISPUTE_TRANSITIONS) (Some st))"
  shows "new_st = st"
  using assms
  by (auto simp: final_status_def REFUND_TRANSITIONS_def DISPUTE_TRANSITIONS_def add_horizon_def
      dget_or_def split: if_splits)

lemma observe_step: "observe k e s = s \<or> lifecycle_step k s (observe k e s)"
proof (cases s)
  case (Pair st wm)
  show ?thesis
    by (auto simp: Pair observe_def Let_def transition_replay_iff intro: lifecycle_step.intros)
qed

lemma step_watermark:
  assumes "lifecycle_step k (st, wm) (st', wm')"
  shows "\<exists>w. wm' = Some w \<and> (\<forall>v. wm = Some v \<longrightarrow> v < w)"
  using assms
  by (cases rule: lifecycle_stepE) (auto simp: transition_applied_iff adverse_restamp_wins_def split: option.splits)

lemma step_final:
  assumes "lifecycle_step k (Some st, wm) s'" and "final_status k st"
  shows "fst s' = Some st"
  using assms(1)
proof cases
  case (applied e)
  then show ?thesis using final_status_successors [OF assms(2)] by (auto simp: transition_applied_iff)
next
  case (restamped e)
  then show ?thesis by simp
qed

lemma steps_final:
  assumes "(lifecycle_step k)\<^sup>*\<^sup>* s s'" and "fst s = Some st" and "final_status k st"
  shows "fst s' = Some st"
  using assms
proof (induction rule: rtranclp_induct)
  case (step y z)
  then show ?case using step_final [of k st "snd y" z] by (cases y) simp
qed simp

lemma observe_steps: "(lifecycle_step k)\<^sup>*\<^sup>* s (fold (observe k) es s)"
proof (induction es arbitrary: s)
  case (Cons e es)
  have "(lifecycle_step k)\<^sup>*\<^sup>* s (observe k e s)"
    using observe_step [of k e s] by (metis r_into_rtranclp rtranclp.rtrancl_refl)
  also have "(lifecycle_step k)\<^sup>*\<^sup>* (observe k e s) (fold (observe k) es (observe k e s))" by (rule Cons.IH)
  finally show ?case by simp
qed simp

lemma observe_same_status:
  assumes "av_lifecycle_status e = st"
  shows "observe k e (Some st, Some w) = (Some st, Some (max w (av_watermark e)))"
  using assms
  by (auto simp: observe_def Let_def transition_replay_iff transition_applied_iff adverse_restamp_wins_def max_def)

lemma observe_all_same_status:
  assumes "\<forall>e \<in> set es. av_lifecycle_status e = st"
  shows "fold (observe k) es (Some st, Some w) = (Some st, Some (fold max (map av_watermark es) w))"
  using assms by (induction es arbitrary: w) (simp_all add: observe_same_status max.commute)

section \<open>Lemmas on targets and tiers\<close>

lemma refunds_nonneg:
  assumes "\<forall>row \<in> set rows. te_kind row = ''refund'' \<longrightarrow> 0 \<le> oint (te_amount row)"
  shows "0 \<le> sum_list (map (\<lambda>row. oint (te_amount row))
    (filter (\<lambda>row. te_kind row = ''refund'' \<and> te_lifecycle_status row = Some ''succeeded'') rows))"
  using assms by (induction rows) auto

lemma share_bounds:
  fixes credited net total :: int
  assumes "0 \<le> credited" "0 \<le> net" "net \<le> total" "0 < total"
  shows "0 \<le> credited * net div total" "credited * net div total \<le> credited"
proof -
  show "0 \<le> credited * net div total" using assms by (simp add: pos_imp_zdiv_nonneg_iff)
  have "credited * net \<le> credited * total" using assms by (simp add: mult_left_mono)
  then have "credited * net div total \<le> credited * total div total" using assms(4) by (rule zdiv_mono1)
  then show "credited * net div total \<le> credited" using assms(4) by simp
qed

text \<open>What the two derivations of a target have in common.\<close>

definition net_refunded :: "trust_event \<Rightarrow> trust_event list \<Rightarrow> int" where
  "net_refunded payment rows = min (oint (te_payment_amount payment))
     (sum_list (map (\<lambda>row. oint (te_amount row))
        (filter (\<lambda>row. te_kind row = ''refund'' \<and> te_lifecycle_status row = Some ''succeeded'') rows)))"

definition claims_all :: "trust_event \<Rightarrow> trust_event list \<Rightarrow> bool" where
  "claims_all payment rows \<longleftrightarrow> (\<exists>row \<in> set rows. te_kind row = ''dispute'' \<and>
     (status_in row [''succeeded'', ''lost'', ''closed''] \<or>
      te_lifecycle_status row = Some ''terminal_by_horizon'' \<and>
      oint (te_recovery_target row) \<ge> oint (te_credited payment)))"

definition target_spec :: "trust_event \<Rightarrow> trust_event list \<Rightarrow> int" where
  "target_spec payment rows = (if claims_all payment rows then oint (te_credited payment)
     else oint (te_credited payment) * net_refunded payment rows div oint (te_payment_amount payment))"

lemma payment_recovery_target_eq:
  assumes "0 < oint (te_payment_amount payment)"
  shows "payment_recovery_target payment rows = Inr (target_spec payment rows, net_refunded payment rows)"
  using assms
  by (auto simp: payment_recovery_target_def payment_recovery_target_without_horizon_def Let_def
      target_spec_def net_refunded_def claims_all_def list_ex_iff)

lemma payment_recovery_target_ok_iff:
  "payment_recovery_target payment rows = Inr (t, n) \<longleftrightarrow>
     0 < oint (te_payment_amount payment) \<and> t = target_spec payment rows \<and> n = net_refunded payment rows"
proof (cases "0 < oint (te_payment_amount payment)")
  case True
  then show ?thesis by (auto simp: payment_recovery_target_eq)
next
  case False
  then show ?thesis
    by (simp add: payment_recovery_target_def payment_recovery_target_without_horizon_def Let_def)
qed

lemma derived_target_eq:
  assumes "0 < oint (te_payment_amount payment)"
  shows "derived_target payment rows = Inr (target_spec payment rows)"
  using assms
  by (auto simp: derived_target_def Let_def target_spec_def net_refunded_def claims_all_def list_ex_iff)

lemma derived_target_ok:
  "derived_target payment rows = Inr t \<Longrightarrow> 0 < oint (te_payment_amount payment)"
  by (auto simp: derived_target_def Let_def split: if_splits)

lemma net_refunded_bounds:
  assumes "\<forall>row \<in> set rows. te_kind row = ''refund'' \<longrightarrow> 0 \<le> oint (te_amount row)" "0 < oint (te_payment_amount payment)"
  shows "0 \<le> net_refunded payment rows" "net_refunded payment rows \<le> oint (te_payment_amount payment)"
  using refunds_nonneg [OF assms(1)] assms(2) by (simp_all add: net_refunded_def)

lemma target_spec_bounds:
  assumes "\<forall>row \<in> set rows. te_kind row = ''refund'' \<longrightarrow> 0 \<le> oint (te_amount row)" "0 < oint (te_payment_amount payment)"
    and "0 \<le> oint (te_credited payment)"
  shows "0 \<le> target_spec payment rows" "target_spec payment rows \<le> oint (te_credited payment)"
  using share_bounds [OF assms(3) net_refunded_bounds [OF assms(1,2)] assms(2)] assms(3)
  by (simp_all add: target_spec_def)

lemma derived_targets_go_get:
  assumes "derived_targets_go events ps acc = Inr targets" and "distinct (map fst ps)"
    and "dget ps k = Some payment"
  shows "\<exists>t. derived_target payment (adverse_for_key events k) = Inr t \<and> dget targets k = Some t"
  using assms
proof (induction ps arbitrary: acc)
  case (Cons p ps)
  obtain k' p' where p: "p = (k', p')" by (cases p)
  from Cons.prems(1) p obtain t where
    t: "derived_target p' (adverse_for_key events k') = Inr t"
    and rest: "derived_targets_go events ps (dset k' t acc) = Inr targets"
    by (auto split: sum.splits)
  show ?case
  proof (cases "k = k'")
    case True
    have "dget targets k' = Some t" if "k' \<notin> fst ` set ps" "derived_targets_go events ps d = Inr targets"
      "dget d k' = Some t" for d
      using that by (induction ps arbitrary: d) (auto split: sum.splits)
    from this [OF _ rest] show ?thesis using Cons.prems p t True by simp
  next
    case False
    then show ?thesis using Cons.IH [OF rest] Cons.prems p by auto
  qed
qed simp

lemma payments_by_key_distinct: "distinct (map fst (payments_by_key events))"
proof -
  have "distinct (map fst d) \<Longrightarrow> distinct (map fst (fold (\<lambda>row d. dset (payment_key row) row d) rows d))" for rows d
    by (induction rows arbitrary: d) (simp_all add: distinct_update)
  from this [of "[]"] show ?thesis by (simp add: payments_by_key_def)
qed

lemma effective_trust_tier_bounds:
  "0 \<le> effective_trust_tier c ov ceil l" "effective_trust_tier c ov ceil l \<le> 3"
  "0 \<le> ceil \<Longrightarrow> effective_trust_tier c ov ceil l \<le> ceil"
  "l \<noteq> None \<Longrightarrow> effective_trust_tier c ov ceil l = 0"
  by (auto simp: effective_trust_tier_def)

lemma qualifying_payments_Nil_iff:
  "qualifying_payments pol events = [] \<longleftrightarrow>
     (\<forall>e \<in> set events. \<not> (te_kind e = ''payment'' \<and> te_provider e \<in> set (tp_qualifying_providers pol) \<and>
       te_lifecycle_status e = Some ''succeeded''))"
  by (auto simp: qualifying_payments_def filter_empty_conv)

lemma sort_empty_iff: "sort xs = [] \<longleftrightarrow> xs = []"
  by (metis length_0_conv length_sort)

lemma diff_clean_iff:
  "diff_clean (reconcile_canonical_mappings a b) \<longleftrightarrow>
     fst ` set a = fst ` set b \<and> (\<forall>k \<in> fst ` set a. dget a k = dget b k)"
proof -
  have "diff_clean (reconcile_canonical_mappings a b) \<longleftrightarrow>
      (\<forall>k \<in> fst ` set a. k \<in> fst ` set b) \<and> (\<forall>k \<in> fst ` set b. k \<in> fst ` set a) \<and>
      (\<forall>k \<in> fst ` set a. k \<in> fst ` set b \<longrightarrow> dget a k = dget b k)"
    by (simp only: diff_clean_def unmatched_count_def semantic_mismatch_count_def add_is_0
        length_0_conv sort_empty_iff reconcile_canonical_mappings_def Let_def reconciliation_diff.select_convs
        filter_empty_conv set_remdups set_map not_not de_Morgan_conj conj_assoc imp_conv_disj)
  moreover have "(\<forall>k \<in> A. k \<in> B) \<and> (\<forall>k \<in> B. k \<in> A) \<and> (\<forall>k \<in> A. k \<in> B \<longrightarrow> P k) \<longleftrightarrow>
      A = B \<and> (\<forall>k \<in> A. P k)" for A B and P :: "canonical_key \<Rightarrow> bool"
    by blast
  ultimately show ?thesis by (simp only:)
qed

lemma dget_ext_iff:
  "dget a = dget b \<longleftrightarrow> fst ` set a = fst ` set b \<and> (\<forall>k \<in> fst ` set a. dget a k = dget b k)"
proof
  assume e: "dget a = dget b"
  then have "fst ` set a = fst ` set b" by (metis dom_map_of_conv_image_fst)
  then show "fst ` set a = fst ` set b \<and> (\<forall>k \<in> fst ` set a. dget a k = dget b k)"
    using e by simp
next
  assume r: "fst ` set a = fst ` set b \<and> (\<forall>k \<in> fst ` set a. dget a k = dget b k)"
  show "dget a = dget b"
  proof
    fix k
    show "dget a k = dget b k"
      using r map_of_eq_None_iff [of a k] map_of_eq_None_iff [of b k] by (metis (no_types))
  qed
qed

lemma fold_max_watermarks_perm:
  fixes w :: "'a :: linorder"
  assumes "set xs = set ys"
  shows "fold max xs w = fold max ys w"
proof -
  have "fold max zs w = Max (insert w (set zs))" for zs
    by (simp add: Max.set_eq_fold [symmetric])
  then show ?thesis using assms by simp
qed

section \<open>Properties\<close>

text \<open>The recovery target stays within the payment: whatever refunds and disputes are on record,
  the amount to take back is between zero and what was credited, the net refunded amount is between
  zero and what was paid, a full refund takes back everything credited, and so does a single
  dispute that is open with funds withdrawn, lost or closed.\<close>

theorem recovery_target_bounds:
  assumes "payment_recovery_target payment rows = Inr (target, refunded)"
    and "\<forall>row \<in> set rows. te_kind row = ''refund'' \<longrightarrow> 0 \<le> oint (te_amount row)" and "0 \<le> oint (te_credited payment)"
  shows "0 \<le> target \<and> target \<le> oint (te_credited payment) \<and>
    0 \<le> refunded \<and> refunded \<le> oint (te_payment_amount payment) \<and>
    (refunded = oint (te_payment_amount payment) \<longrightarrow> target = oint (te_credited payment)) \<and>
    (\<forall>row \<in> set rows. te_kind row = ''dispute'' \<and> status_in row [''succeeded'', ''lost'', ''closed''] \<longrightarrow>
       target = oint (te_credited payment))"
proof -
  from assms(1) have p: "0 < oint (te_payment_amount payment)" and t: "target = target_spec payment rows"
    and r: "refunded = net_refunded payment rows"
    by (simp_all add: payment_recovery_target_ok_iff)
  note b = target_spec_bounds [OF assms(2) p assms(3)] net_refunded_bounds [OF assms(2) p]
  have "target = oint (te_credited payment)" if "refunded = oint (te_payment_amount payment)"
    using that p t r by (simp add: target_spec_def)
  then show ?thesis using b t r by (auto simp: target_spec_def claims_all_def)
qed

definition demo_payment :: trust_event where
  "demo_payment = \<lparr>te_workspace_id = ''w'', te_event_id = ''evt_1'', te_kind = ''payment'',
     te_provider = ''stripe'', te_amount = Some 1000, te_original_payment_ref = Some ''pi_1'',
     te_adverse_ref = None, te_occurred_at = 0, te_recorded_at = 0, te_payment_amount = Some 1000,
     te_currency = Some ''USD'', te_credited = Some 900, te_recovered = Some 0,
     te_provider_subtype = Some ''checkout'', te_lifecycle_status = Some ''succeeded'',
     te_cumulative_refunded = Some 0, te_recovery_target = Some 0, te_debit_status = None,
     te_unrecovered = Some 0, te_watermark = None\<rparr>"

definition demo_refund :: "int \<Rightarrow> trust_event" where
  "demo_refund amount = demo_payment\<lparr>te_event_id := ''evt_2'', te_kind := ''refund'',
     te_amount := Some amount, te_adverse_ref := Some ''re_1''\<rparr>"

theorem recovery_target_bounds_witness:
  "payment_recovery_target demo_payment [demo_refund 1000] = Inr (900, 1000) \<and> (0::int) \<le> 900 \<and>
   (900::int) \<le> oint (te_credited demo_payment)"
proof -
  have c: "payment_recovery_target demo_payment [demo_refund 1000] = Inr (900, 1000)" by code_simp
  have n: "\<forall>row \<in> set [demo_refund 1000]. te_kind row = ''refund'' \<longrightarrow> 0 \<le> oint (te_amount row)" "0 \<le> oint (te_credited demo_payment)"
    by code_simp+
  show ?thesis using recovery_target_bounds [OF c n] c by blast
qed

text \<open>C24. The reconciler's own derivation agrees with the ledger's: for every payment the
  reconciler canonicalises, the target it derives is the one \<open>payment_recovery_target\<close> computes from
  that payment and the adverse facts that name it.\<close>

theorem reconciler_derives_ledger_target:
  assumes "derived_targets events = Inr targets" and "dget (payments_by_key events) k = Some payment"
  shows "\<exists>target refunded. payment_recovery_target payment (adverse_for_key events k) = Inr (target, refunded) \<and>
    dget targets k = Some target"
proof -
  from derived_targets_go_get [OF assms(1) [unfolded derived_targets_def] payments_by_key_distinct assms(2)]
  obtain t where t: "derived_target payment (adverse_for_key events k) = Inr t" "dget targets k = Some t" by blast
  from derived_target_ok [OF t(1)] t show ?thesis
    by (auto simp: derived_target_eq payment_recovery_target_eq)
qed

theorem reconciler_derives_ledger_target_witness:
  "\<exists>target refunded. payment_recovery_target demo_payment
      (adverse_for_key [demo_payment, demo_refund 500] (''stripe'', ''pi_1'')) = Inr (target, refunded) \<and>
    dget [((''stripe'', ''pi_1''), 450)] (''stripe'', ''pi_1'') = Some target"
proof -
  have "derived_targets [demo_payment, demo_refund 500] = Inr [((''stripe'', ''pi_1''), 450)]"
    and "dget (payments_by_key [demo_payment, demo_refund 500]) (''stripe'', ''pi_1'') = Some demo_payment"
    by code_simp+
  then show ?thesis by (rule reconciler_derives_ledger_target)
qed

text \<open>A clean reconciliation means equality: the diff of two canonical mappings reports no
  unmatched key and no semantic mismatch exactly when the two mappings agree at every key.\<close>

theorem clean_diff_iff_equal:
  "diff_clean (reconcile_canonical_mappings source loc) \<longleftrightarrow> (\<forall>k. dget source k = dget loc k)"
  using diff_clean_iff [of source loc] dget_ext_iff [of source loc] by (simp add: fun_eq_iff)

text \<open>C23. The lifecycle of a refund or dispute only moves forward: over any sequence of delivered
  observations a final status (failed, reversed, won, closed, terminal by horizon) is never left,
  and every observation that changes the stored stamps strictly raises the stored watermark.\<close>

theorem adverse_lifecycle_monotone:
  "(\<forall>st wm. final_status kind st \<longrightarrow> fst (fold (observe kind) events (Some st, wm)) = Some st) \<and>
   (\<forall>st wm v. observe kind event (st, Some wm) = v \<and> v \<noteq> (st, Some wm) \<longrightarrow>
      (\<exists>w. snd v = Some w \<and> wm < w))"
proof (intro conjI allI impI)
  fix st wm
  assume "final_status kind st"
  then show "fst (fold (observe kind) events (Some st, wm)) = Some st"
    using steps_final [OF observe_steps] by simp
next
  fix st wm v
  assume a: "observe kind event (st, Some wm) = v \<and> v \<noteq> (st, Some wm)"
  then have "lifecycle_step kind (st, Some wm) (fst v, snd v)"
    using observe_step [of kind event "(st, Some wm)"] by auto
  then show "\<exists>w. snd v = Some w \<and> wm < w" using step_watermark by blast
qed

definition demo_adverse :: "string \<Rightarrow> string \<Rightarrow> adverse_trust_event" where
  "demo_adverse status watermark = \<lparr>av_event_id = ''evt_2'', av_provider = ''stripe'', av_kind = ''refund'',
     av_adverse_ref = ''re_1'', av_original_payment_ref = ''pi_1'', av_amount = 1000,
     av_provider_subtype = ''refund'', av_lifecycle_status = status, av_occurred_at = 5,
     av_watermark = watermark, av_payload = []\<rparr>"

theorem adverse_lifecycle_monotone_witness:
  "fst (fold (observe ''refund'') [demo_adverse ''succeeded'' ''9''] (Some ''failed'', Some ''1'')) = Some ''failed'' \<and>
   (\<exists>w. snd (observe ''refund'' (demo_adverse ''succeeded'' ''9'') (Some ''pending'', Some ''1'')) = Some w \<and> ''1'' < w)"
proof -
  have f: "final_status ''refund'' ''failed''" by code_simp
  have o: "observe ''refund'' (demo_adverse ''succeeded'' ''9'') (Some ''pending'', Some ''1'') \<noteq> (Some ''pending'', Some ''1'')"
    by code_simp
  show ?thesis
    using adverse_lifecycle_monotone [of "''refund''" "[demo_adverse ''succeeded'' ''9'']" "demo_adverse ''succeeded'' ''9''"] f o
    by blast
qed

text \<open>Delivery order does not matter for repeated observations of one status: two deliveries of
  the same observations in any order and with any repetition leave the same stamps, with the
  greatest of the watermarks.\<close>

theorem restamp_order_independent:
  assumes "\<forall>e \<in> set es \<union> set es'. av_lifecycle_status e = st" and "set es = set es'"
  shows "fold (observe kind) es (Some st, Some w) = fold (observe kind) es' (Some st, Some w) \<and>
    fst (fold (observe kind) es (Some st, Some w)) = Some st \<and>
    (\<forall>e \<in> set es. \<exists>v. snd (fold (observe kind) es (Some st, Some w)) = Some v \<and> av_watermark e \<le> v)"
proof -
  have s: "set (map av_watermark es) = set (map av_watermark es')" using assms(2) by simp
  have "fold max zs w = Max (insert w (set zs))" for zs :: "string list"
    by (simp add: Max.set_eq_fold [symmetric])
  then show ?thesis
    using assms fold_max_watermarks_perm [OF s, of w] by (auto simp: observe_all_same_status)
qed

theorem restamp_order_independent_witness:
  "fold (observe ''refund'') [demo_adverse ''pending'' ''2'', demo_adverse ''pending'' ''3''] (Some ''pending'', Some ''1'') =
   fold (observe ''refund'') [demo_adverse ''pending'' ''3'', demo_adverse ''pending'' ''2''] (Some ''pending'', Some ''1'')"
  using restamp_order_independent [of "[demo_adverse ''pending'' ''2'', demo_adverse ''pending'' ''3'']"
      "[demo_adverse ''pending'' ''3'', demo_adverse ''pending'' ''2'']" "''pending''" "''refund''" "''1''"]
  by (auto simp: demo_adverse_def)

text \<open>A trust tier is always between 0 and 3; a latch forces it to 0; an owner whose identity is
  not approved, without an operator bypass, never gets beyond tier 1, whatever the override; with no
  qualifying payment and no override the tier is 0; and a computed tier 3 requires an approved owner,
  the minimum total paid and no refund or dispute on record.\<close>

theorem trust_tier_policy:
  fixes pol events status latched override now bypass
  defines "d \<equiv> compute_trust_tier pol events status latched override now bypass"
  shows "0 \<le> td_effective_tier d \<and> td_effective_tier d \<le> 3 \<and>
    (latched \<noteq> None \<longrightarrow> td_effective_tier d = 0) \<and>
    (status \<noteq> ''approved'' \<and> \<not> bypass \<longrightarrow> td_effective_tier d \<le> 1) \<and>
    (qualifying_payments pol events = [] \<and> oint override \<le> 0 \<longrightarrow> td_effective_tier d = 0) \<and>
    (td_computed_tier d = 3 \<longrightarrow> status = ''approved'' \<and>
       tp_tier3_min_paid pol \<le> sum_list (map (\<lambda>e. oint (te_payment_amount e)) (qualifying_payments pol events)) \<and>
       (\<forall>e \<in> set events. te_kind e \<noteq> ''refund'' \<and> te_kind e \<noteq> ''dispute''))"
  unfolding d_def compute_trust_tier_def Let_def
  by (auto simp: effective_trust_tier_bounds list_ex_iff)
    (auto simp: effective_trust_tier_def split: if_splits)

definition demo_policy :: tier_policy where
  "demo_policy = \<lparr>tp_qualifying_providers = [''stripe'', ''x402''], tp_tier3_min_days = 30,
     tp_tier3_min_paid = 50000000\<rparr>"

theorem trust_tier_policy_witness:
  "td_effective_tier (compute_trust_tier demo_policy [demo_payment] ''none'' None (Some 3) 0 False) \<le> 1 \<and>
   td_effective_tier (compute_trust_tier demo_policy [demo_payment] ''approved'' (Some 0) (Some 3) 0 False) = 0 \<and>
   td_computed_tier (compute_trust_tier demo_policy [demo_payment] ''approved'' None None 0 False) = 2"
  using trust_tier_policy [of demo_policy "[demo_payment]" "''none''" None "Some 3" 0 False]
    trust_tier_policy [of demo_policy "[demo_payment]" "''approved''" "Some 0" "Some 3" 0 False]
  by (simp, code_simp)

end
