(* ===== verification/Store.thy ===== *)
theory Store
  imports Api_Keys Trust_Tiers
begin

text \<open>
  The state of \<open>InMemoryStore\<close> (\<open>src/src/trusted_router/storage.py\<close>): the identity, workspace,
  credit, trust, earnings and transfer tables, added to the tables of the composed key store
  (\<open>keys_state\<close>), and the dataclasses only those tables hold.  One lock guards the whole store, so
  an operation is one function on it.

  A Python \<open>set\<close> that is only tested for membership is a set; one that is iterated is a list
  without repetition (\<open>owner_workspaces\<close>, \<open>trust_demotion_remainders\<close>).  Text timestamps carry whole seconds: \<open>iso_now\<close>.
\<close>

section \<open>Helpers\<close>

definition iso_now :: "instant \<Rightarrow> instant" where
  "iso_now now = now - now mod 1000000"

text \<open>\<open>sorted(set(xs))\<close>.\<close>

definition sorted_set :: "string list \<Rightarrow> string list" where
  "sorted_set xs = sort (remdups xs)"

lemma set_sorted_set [simp]: "set (sorted_set xs) = set xs"
  by (simp add: sorted_set_def)

lemma sorted_set_Nil_iff [simp]: "sorted_set xs = [] \<longleftrightarrow> xs = []"
  by (metis set_empty set_sorted_set)

lemma sorted_set_canonical: "set xs = set ys \<Longrightarrow> sorted_set xs = sorted_set ys"
  unfolding sorted_set_def
  by (rule sorted_distinct_set_unique) simp_all

definition set_add :: "'a \<Rightarrow> 'a list \<Rightarrow> 'a list" where
  "set_add x xs = (if x \<in> set xs then xs else xs @ [x])"

lemma set_set_add [simp]: "set (set_add x xs) = insert x (set xs)"
  by (auto simp: set_add_def)

lemma distinct_set_add [simp]: "distinct (set_add x xs) \<longleftrightarrow> distinct xs"
  by (auto simp: set_add_def)

section \<open>Users and workspaces\<close>

record social_reward_enrollment =
  se_user_id :: string
  se_workspace_id :: string
  se_issuer :: string
  se_dismissed :: bool
  se_first_call_complete :: bool

record user =
  us_id :: string
  us_email :: "string option"
  us_username :: "string option"
  us_created_at :: instant
  us_email_verified :: bool
  us_wallet_address :: "string option"
  us_phone :: "string option"
  us_phone_verified :: bool
  us_phone_verified_at :: "instant option"
  us_pending_phone :: "string option"
  us_phone_last_refused :: "string option"
  us_phone_code_hash :: "string option"
  us_phone_code_salt :: "string option"
  us_phone_code_expires_at :: "instant option"
  us_phone_code_attempts :: int
  us_phone_code_sent_at :: "instant option"
  us_phone_code_channel :: "string option"
  us_identity_status :: string
  us_github_login :: "string option"
  us_github_account_created_at :: "string option"
  us_identity_verified_at :: "instant option"
  us_identity_verified_name :: "string option"
  us_veriff_session_id :: "string option"
  us_veriff_session_url :: "string option"
  us_veriff_session_created_at :: "instant option"
  us_veriff_decision_code :: "int option"
  us_veriff_decision_reason :: "string option"
  us_veriff_decision_reason_code :: "int option"
  us_veriff_attempt_count :: int
  us_owner_workspace_count :: int
  us_suspended :: bool
  us_disabled :: bool
  us_account_closed_at :: "instant option"

definition new_user :: "string \<Rightarrow> string option \<Rightarrow> bool \<Rightarrow> string option \<Rightarrow> instant \<Rightarrow> user" where
  "new_user uid email verified wallet now = \<lparr>us_id = uid, us_email = email, us_username = None,
     us_created_at = now, us_email_verified = verified, us_wallet_address = wallet, us_phone = None,
     us_phone_verified = False, us_phone_verified_at = None, us_pending_phone = None,
     us_phone_last_refused = None, us_phone_code_hash = None, us_phone_code_salt = None,
     us_phone_code_expires_at = None, us_phone_code_attempts = 0, us_phone_code_sent_at = None,
     us_phone_code_channel = None, us_identity_status = ''none'', us_github_login = None,
     us_github_account_created_at = None, us_identity_verified_at = None,
     us_identity_verified_name = None, us_veriff_session_id = None, us_veriff_session_url = None,
     us_veriff_session_created_at = None, us_veriff_decision_code = None,
     us_veriff_decision_reason = None, us_veriff_decision_reason_code = None,
     us_veriff_attempt_count = 0, us_owner_workspace_count = 0, us_suspended = False,
     us_disabled = False, us_account_closed_at = None\<rparr>"

definition identity_verified :: "user \<Rightarrow> bool" where
  "identity_verified u \<longleftrightarrow> us_identity_status u = ''approved''"

record provider_access_grant =
  pa_user_id :: string
  pa_provider :: string
  pa_role :: string
  pa_created_at :: instant

record workspace =
  ws_id :: string
  ws_name :: string
  ws_owner_user_id :: string
  ws_created_at :: instant
  ws_deleted :: bool
  ws_content_storage_enabled :: bool
  ws_billing_paused :: bool
  ws_billing_pause_reason :: string
  ws_billing_pause_causes :: "string list"
  ws_federated_home :: string

text \<open>\<open>Workspace.__post_init__\<close>, which every construction of a workspace runs.\<close>

definition workspace_post_init :: "workspace \<Rightarrow> workspace" where
  "workspace_post_init w =
     (let causes = sorted_set (if ws_billing_paused w \<and> ws_billing_pause_causes w = []
                               then [''migration''] else ws_billing_pause_causes w)
      in w\<lparr>ws_billing_pause_causes := causes, ws_billing_paused := causes \<noteq> []\<rparr>)"

definition new_workspace :: "string \<Rightarrow> string \<Rightarrow> string \<Rightarrow> instant \<Rightarrow> workspace" where
  "new_workspace wid name owner now = workspace_post_init
     \<lparr>ws_id = wid, ws_name = name, ws_owner_user_id = owner, ws_created_at = now, ws_deleted = False,
      ws_content_storage_enabled = False, ws_billing_paused = False, ws_billing_pause_reason = [],
      ws_billing_pause_causes = [], ws_federated_home = []\<rparr>"

text \<open>The pause flag is the compatibility scalar of the cause set.\<close>

definition pause_coherent :: "workspace \<Rightarrow> bool" where
  "pause_coherent w \<longleftrightarrow> (ws_billing_paused w \<longleftrightarrow> ws_billing_pause_causes w \<noteq> [])"

definition set_pause_causes :: "string list \<Rightarrow> workspace \<Rightarrow> workspace" where
  "set_pause_causes causes w =
     w\<lparr>ws_billing_pause_causes := sorted_set causes, ws_billing_paused := (causes \<noteq> [])\<rparr>"

lemma pause_coherent_simps [simp]:
  "pause_coherent (workspace_post_init w)" "pause_coherent (set_pause_causes causes w)"
  by (simp_all add: pause_coherent_def workspace_post_init_def set_pause_causes_def Let_def)

definition workspace_billing_paused :: "workspace option \<Rightarrow> bool" where
  "workspace_billing_paused w = (case w of None \<Rightarrow> False | Some x \<Rightarrow> ws_billing_pause_causes x \<noteq> [])"

definition DOCUMENT_ONLY_PAUSE_CAUSES :: "string list" where
  "DOCUMENT_ONLY_PAUSE_CAUSES = [''migration'', ''federation'']"

definition FEDERATED_IMPORTED_PAUSE_CAUSES :: "string list" where
  "FEDERATED_IMPORTED_PAUSE_CAUSES = [''federation'', ''abuse'']"

definition FEDERATED_WORKSPACE_PAUSE_REASON :: string where
  "FEDERATED_WORKSPACE_PAUSE_REASON = ''billing is paused on the home plane''"

definition shard_pause_causes :: "string list \<Rightarrow> string list" where
  "shard_pause_causes causes = sorted_set (filter (\<lambda>c. c \<notin> set DOCUMENT_ONLY_PAUSE_CAUSES) causes)"

definition document_pause_causes :: "string list \<Rightarrow> string list \<Rightarrow> string list" where
  "document_pause_causes shard_causes document_causes =
     sorted_set (shard_pause_causes shard_causes @
       filter (\<lambda>c. c \<in> set DOCUMENT_ONLY_PAUSE_CAUSES) document_causes)"

definition refreshed_shadow :: "workspace \<Rightarrow> workspace \<Rightarrow> workspace" where
  "refreshed_shadow existing imported =
     (let held = ws_billing_pause_causes existing;
          local0 = filter (\<lambda>c. c \<notin> set FEDERATED_IMPORTED_PAUSE_CAUSES) held;
          loc = (if (\<forall>c \<in> set held. c \<notin> set FEDERATED_IMPORTED_PAUSE_CAUSES) \<and>
                   ws_billing_pause_reason existing = FEDERATED_WORKSPACE_PAUSE_REASON
                 then filter (\<lambda>c. c \<noteq> ''migration'') local0 else local0);
          causes = sorted_set (loc @ ws_billing_pause_causes imported);
          reason = (if ws_billing_pause_reason imported \<noteq> [] then ws_billing_pause_reason imported
                    else if ws_billing_pause_reason existing = FEDERATED_WORKSPACE_PAUSE_REASON then []
                    else ws_billing_pause_reason existing)
      in workspace_post_init (imported\<lparr>ws_billing_pause_causes := causes,
           ws_billing_paused := causes \<noteq> [],
           ws_billing_pause_reason := (if causes \<noteq> [] then reason else [])\<rparr>))"

record member =
  mb_workspace_id :: string
  mb_user_id :: string
  mb_role :: string
  mb_created_at :: instant

section \<open>Trust tables\<close>

record trust_override =
  to_workspace_id :: string
  to_tier :: int
  to_identity_bypass :: bool
  to_operator_identity :: string
  to_reason :: string
  to_set_at :: instant

record trust_inbox_row =
  ti_provider :: string
  ti_adverse_ref :: string
  ti_payload :: adverse_trust_event
  ti_received_at :: instant

text \<open>One replicated row of \<open>credit_trust_shards\<close>.\<close>

record trust_shard =
  sh_trust_tier :: int
  sh_trust_computed_at :: "instant option"
  sh_trust_latched_at :: "instant option"
  sh_trust_override_tier :: "int option"
  sh_billing_pause_causes :: "string list"
  sh_pause_epoch :: int
  sh_trust_reconciled_through :: "instant option"

definition new_trust_shard :: trust_shard where
  "new_trust_shard = \<lparr>sh_trust_tier = 0, sh_trust_computed_at = None, sh_trust_latched_at = None,
     sh_trust_override_tier = None, sh_billing_pause_causes = [], sh_pause_epoch = 0,
     sh_trust_reconciled_through = None\<rparr>"

record abuse_audit =
  aa_workspace_id :: string
  aa_abuse_ref :: string
  aa_operator_identity :: string
  aa_reason :: string
  aa_recorded_at :: instant

section \<open>Earnings and payouts\<close>

record payout_profile =
  pf_user_id :: string
  pf_company_id :: string
  pf_company_status :: string
  pf_recipient_type :: string
  pf_country_code :: string
  pf_payment_method_id :: "string option"
  pf_payment_method_type :: "string option"
  pf_created_at :: instant
  pf_updated_at :: instant

record earnings_cashout =
  ec_id :: string
  ec_user_id :: string
  ec_amount :: microdollars
  ec_state :: string
  ec_balance_status :: string
  ec_idempotency_fingerprint :: string
  ec_routable_idempotency_key :: string
  ec_external_id :: string
  ec_routable_company_id :: string
  ec_payment_method_id :: string
  ec_currency :: string
  ec_routable_payable_id :: "string option"
  ec_routable_status :: "string option"
  ec_error_code :: "string option"
  ec_attempts :: int
  ec_balance_revision :: int
  ec_created_at :: instant
  ec_updated_at :: instant

section \<open>Claims of other planes\<close>

text \<open>A row of \<open>federated_settlement_claims\<close> and one of \<open>credit_transfer_claims\<close>.\<close>

record settlement_claim =
  sc_workspace_id :: string
  sc_cost :: microdollars

record transfer_claim =
  cl_outcome :: string
  cl_workspace_id :: string
  cl_amount :: microdollars
  cl_source :: string
  cl_created_at :: instant

section \<open>The store\<close>

record store = keys_state +
  trust_armed :: bool
  max_workspaces_per_owner :: nat
  trust_policy :: tier_policy
  social_reward_enrollments :: "(string, social_reward_enrollment) dict"
  users :: "(string, user) dict"
  user_ids_by_email :: "(string, string) dict"
  user_ids_by_wallet :: "(string, string) dict"
  user_ids_by_username :: "(string, string) dict"
  provider_access_grants :: "(string \<times> string, provider_access_grant) dict"
  workspaces :: "(string, workspace) dict"
  members :: "(string \<times> string, member) dict"
  credits :: "(string, credit_account) dict"
  stripe_events :: "string set"
  trust_events :: "(string \<times> string, trust_event) dict"
  trust_inbox :: "(string \<times> string, trust_inbox_row) dict"
  trust_inbox_resolutions :: "(string, string) dict"
  owner_workspaces :: "(string \<times> string) list"
  trust_overrides :: "(string, trust_override) dict"
  trust_abuse_audits :: "(string \<times> string, abuse_audit) dict"
  trust_demotion_remainders :: "(string \<times> string) list"
  trust_backfills :: "(string \<times> string \<times> string \<times> string \<times> string, backfill_marker) dict"
  credit_trust_shards :: "(string \<times> nat, trust_shard) dict"
  reservation_pause_epochs :: "(string, int) dict"
  paused_authorizations :: "(string \<times> string \<times> string) set"
  abuse_pause_clears :: "(string \<times> string) set"
  webhook_events :: "(string \<times> string) set"
  earnings_money :: "(string, int \<times> int) dict"
  user_transfer_daily :: "(string \<times> int, int) dict"
  credit_movements :: "(string \<times> string, credit_movement) dict"
  routable_payout_profiles :: "(string, payout_profile) dict"
  routable_payout_profile_users_by_company :: "(string, string) dict"
  earnings_cashouts :: "(string \<times> string, earnings_cashout) dict"
  earnings_cashout_idempotency :: "(string, string \<times> string \<times> string) dict"
  earnings_cashouts_by_routable_payable :: "(string, string \<times> string) dict"
  earnings_cashouts_by_external_id :: "(string, string \<times> string) dict"
  lifetime_topups :: "(string, int) dict"
  credit_transfers :: "(string, credit_transfer) dict"
  credit_transfer_claims :: "(string, transfer_claim) dict"
  federated_settlement_claims :: "(string \<times> string, settlement_claim) dict"
  federated_settlement_windows :: "(string \<times> string \<times> int, int) dict"
  generations :: "(string, generation) dict"
  provider_benchmarks :: "benchmark_sample list"

type_synonym 'a store_op = "store \<Rightarrow> 'a result \<times> store"

text \<open>\<open>InMemoryStore.__init__\<close> with its default settings.\<close>

definition init_store :: "bool \<Rightarrow> store" where
  "init_store armed =
     \<lparr>credit_money = [], keys = [], key_ids_by_lookup_hash = [], reservations = [],
      reservation_id_by_idempotency_key = [], gateway_authorizations = [],
      gateway_authorization_id_by_idempotency_key = [], deferred_outstanding = [], window_usage = [],
      trust_armed = armed, max_workspaces_per_owner = 25,
      trust_policy = \<lparr>tp_qualifying_providers = [''stripe'', ''x402''], tp_tier3_min_days = 30,
        tp_tier3_min_paid = 50000000\<rparr>,
      social_reward_enrollments = [], users = [], user_ids_by_email = [], user_ids_by_wallet = [],
      user_ids_by_username = [], provider_access_grants = [], workspaces = [], members = [],
      credits = [], stripe_events = {}, trust_events = [], trust_inbox = [],
      trust_inbox_resolutions = [], owner_workspaces = [], trust_overrides = [],
      trust_abuse_audits = [], trust_demotion_remainders = [], trust_backfills = [],
      credit_trust_shards = [], reservation_pause_epochs = [], paused_authorizations = {},
      abuse_pause_clears = {}, webhook_events = {}, earnings_money = [], user_transfer_daily = [],
      credit_movements = [], routable_payout_profiles = [],
      routable_payout_profile_users_by_company = [], earnings_cashouts = [],
      earnings_cashout_idempotency = [], earnings_cashouts_by_routable_payable = [],
      earnings_cashouts_by_external_id = [], lifetime_topups = [], credit_transfers = [],
      credit_transfer_claims = [], federated_settlement_claims = [],
      federated_settlement_windows = [], generations = [], provider_benchmarks = []\<rparr>"

text \<open>\<open>reset\<close> clears the tables it names: the federated settlement claims and windows, the inbox
  resolutions and, in the key store, the deferred counter keep their contents.\<close>

definition store_reset :: "store \<Rightarrow> store" where
  "store_reset s =
     (keys_reset s)\<lparr>social_reward_enrollments := [], users := [], user_ids_by_email := [],
       user_ids_by_wallet := [], user_ids_by_username := [], provider_access_grants := [],
       workspaces := [], members := [], credits := [], credit_money := [], stripe_events := {},
       trust_events := [], trust_inbox := [], owner_workspaces := [], trust_overrides := [],
       trust_abuse_audits := [], trust_demotion_remainders := [], trust_backfills := [],
       credit_trust_shards := [], reservation_pause_epochs := [], paused_authorizations := {},
       abuse_pause_clears := {}, webhook_events := {}, earnings_money := [], credit_movements := [],
       user_transfer_daily := [], routable_payout_profiles := [],
       routable_payout_profile_users_by_company := [], earnings_cashouts := [],
       earnings_cashout_idempotency := [], earnings_cashouts_by_routable_payable := [],
       earnings_cashouts_by_external_id := [], lifetime_topups := [], credit_transfers := [],
       credit_transfer_claims := [], generations := [], provider_benchmarks := []\<rparr>"

end
