(* ===== verification/Credit_Ledger.thy ===== *)
theory Credit_Ledger
  imports Store
begin

text \<open>
  The credit ledger of \<open>InMemoryStore\<close> (\<open>storage.py\<close>, lines 2071 to 2488, 2582 to 2654 and 3057 to
  3125): payments and grants that enter a workspace's book exactly once, adverse payment events and
  the recovery of what they claim back, guarded debits, transfers between two workspaces, usage
  booked for another plane, and reservations under the billing pause.

  The clock is the argument \<open>now\<close>; \<open>identity_digest\<close> is the SHA-256 of \<open>provider_inbox_key\<close>.  The alert
  that \<open>record_adverse_trust_event\<close> sends for unrecovered principal is a log line and has no
  counterpart.
\<close>

section \<open>Usage booked for another plane\<close>

definition utc_day :: "instant \<Rightarrow> int" where
  "utc_day now = now div US_PER_DAY"

definition apply_federated_usage ::
    "string \<Rightarrow> string \<Rightarrow> string \<Rightarrow> microdollars \<Rightarrow> microdollars \<Rightarrow> instant \<Rightarrow> string store_op" where
  "apply_federated_usage source_plane authorization_id w cost daily_cap now s =
     (let claim_key = (source_plane, authorization_id);
          window_key = (source_plane, w, utc_day now);
          applied_today = dget_or 0 (federated_settlement_windows s) window_key;
          money = dget_or (new_credit_money 0) (credit_money s) w
      in if cost \<le> 0 then (Inl (ValueError ''cost_microdollars must be positive''), s)
         else case dget (federated_settlement_claims s) claim_key of
             Some existing \<Rightarrow>
               (if sc_workspace_id existing = w \<and> sc_cost existing = cost then (Inr ''already'', s)
                else (Inr ''conflict'', s))
           | None \<Rightarrow>
               (if dget (workspaces s) w = None then (Inr ''workspace_unknown'', s)
                else if applied_today + cost > daily_cap then (Inr ''clamped'', s)
                else (Inr ''applied'',
                  s\<lparr>federated_settlement_claims :=
                      dset claim_key \<lparr>sc_workspace_id = w, sc_cost = cost\<rparr> (federated_settlement_claims s),
                    federated_settlement_windows :=
                      dset window_key (applied_today + cost) (federated_settlement_windows s),
                    credit_money := dset w (money\<lparr>cm_usage := cm_usage money + cost\<rparr>) (credit_money s)\<rparr>)))"

section \<open>Principal recovery\<close>

definition owes :: "string \<Rightarrow> trust_event \<Rightarrow> bool" where
  "owes w row \<longleftrightarrow> te_workspace_id row = w \<and> te_kind row = ''payment'' \<and> 0 < oint (te_unrecovered row)"

definition sync_principal_recovery_pause :: "string \<Rightarrow> store \<Rightarrow> store" where
  "sync_principal_recovery_pause w s =
     (case dget (workspaces s) w of None \<Rightarrow> s
      | Some ws \<Rightarrow>
          let debt = list_ex (owes w) (dvals (trust_events s));
              held = ws_billing_pause_causes ws;
              causes = (if debt then held @ [''principal_recovery'']
                        else filter (\<lambda>c. c \<noteq> ''principal_recovery'') held);
              ws1 = set_pause_causes causes ws;
              ws2 = (if debt then ws1\<lparr>ws_billing_pause_reason := ''principal_recovery''\<rparr>
                     else if causes = [] \<and> ws_billing_pause_reason ws1 = ''principal_recovery''
                     then ws1\<lparr>ws_billing_pause_reason := []\<rparr> else ws1)
          in s\<lparr>workspaces := dset w ws2 (workspaces s)\<rparr>)"

text \<open>The rows that still owe principal, oldest first: \<open>sorted(..., key=(occurred_at, event_id))\<close>.\<close>

definition owing_rows :: "string \<Rightarrow> store \<Rightarrow> ((string \<times> string) \<times> trust_event) list" where
  "owing_rows w s = sort_key (\<lambda>kr. (te_occurred_at (snd kr), te_event_id (snd kr)))
     (filter (\<lambda>kr. owes w (snd kr)) (trust_events s))"

definition take_recovery :: "int \<Rightarrow> trust_event \<Rightarrow> trust_event" where
  "take_recovery taken p =
     (let unrecovered = oint (te_unrecovered p) - taken
      in p\<lparr>te_recovered := Some (oint (te_recovered p) + taken), te_unrecovered := Some unrecovered,
           te_debit_status := Some (if unrecovered = 0 then ''debited'' else ''partial'')\<rparr>)"

text \<open>The loop of a new credit stops at the first row it can take nothing for; it returns what is
  left of the credit and the rewritten rows.\<close>

fun repay_claims :: "((string \<times> string) \<times> trust_event) list \<Rightarrow> int \<Rightarrow>
    (string \<times> string, trust_event) dict \<Rightarrow> int \<times> (string \<times> string, trust_event) dict" where
  "repay_claims [] left evs = (left, evs)"
| "repay_claims ((k, p) # ps) left evs =
     (let taken = min left (oint (te_unrecovered p))
      in if taken = 0 then (left, evs)
         else repay_claims ps (left - taken) (dset k (take_recovery taken p) evs))"

text \<open>The loop of a release visits every row, also once nothing is left.\<close>

fun recover_claims :: "((string \<times> string) \<times> trust_event) list \<Rightarrow> int \<Rightarrow>
    (string \<times> string, trust_event) dict \<Rightarrow> int \<times> (string \<times> string, trust_event) dict" where
  "recover_claims [] left evs = (left, evs)"
| "recover_claims ((k, p) # ps) left evs =
     (let taken = min left (oint (te_unrecovered p))
      in recover_claims ps (left - taken) (dset k (take_recovery taken p) evs))"

definition recover_released_credit :: "string \<Rightarrow> unit store_op" where
  "recover_released_credit w s =
     (case dget (credit_money s) w of None \<Rightarrow> (Inl (KeyError w), s)
      | Some m \<Rightarrow>
          let free = max 0 (available m);
              (left, evs) = recover_claims (owing_rows w s) free (trust_events s)
          in (Inr (), sync_principal_recovery_pause w
                (s\<lparr>trust_events := evs,
                   credit_money := dset w (m\<lparr>cm_credits := cm_credits m - (free - left)\<rparr>) (credit_money s)\<rparr>)))"

section \<open>Adverse payment events\<close>

definition find_event :: "(trust_event \<Rightarrow> bool) \<Rightarrow> store \<Rightarrow> ((string \<times> string) \<times> trust_event) option" where
  "find_event P s = List.find (\<lambda>kr. P (snd kr)) (trust_events s)"

definition is_payment_of :: "adverse_trust_event \<Rightarrow> trust_event \<Rightarrow> bool" where
  "is_payment_of e row \<longleftrightarrow> te_kind row = ''payment'' \<and> te_provider row = av_provider e \<and>
     te_original_payment_ref row = Some (av_original_payment_ref e)"

definition is_fact_of :: "adverse_trust_event \<Rightarrow> trust_event \<Rightarrow> bool" where
  "is_fact_of e row \<longleftrightarrow> te_provider row = av_provider e \<and> te_adverse_ref row = Some (av_adverse_ref e)"

definition adverse_rows :: "trust_event \<Rightarrow> store \<Rightarrow> trust_event list" where
  "adverse_rows payment s = filter (\<lambda>row. te_workspace_id row = te_workspace_id payment \<and>
     te_provider row = te_provider payment \<and>
     te_original_payment_ref row = te_original_payment_ref payment \<and> te_kind row \<noteq> ''payment'')
     (dvals (trust_events s))"

text \<open>Moving the target by \<open>delta\<close>: the new book and the new recovered and unrecovered amounts.\<close>

definition move_recovery :: "int \<Rightarrow> credit_money \<Rightarrow> int \<Rightarrow> int \<Rightarrow> credit_money \<times> int \<times> int" where
  "move_recovery delta m recovered unrecovered =
     (if delta > 0 then
        let debit = min delta (max 0 (available m))
        in (m\<lparr>cm_credits := cm_credits m - debit\<rparr>, recovered + debit, unrecovered + (delta - debit))
      else if delta < 0 then
        let decrease = - delta;
            canceled = min decrease unrecovered;
            restore = min (decrease - canceled) recovered
        in (m\<lparr>cm_credits := cm_credits m + restore\<rparr>, recovered - restore, unrecovered - canceled)
      else (m, recovered, unrecovered))"

definition new_adverse_fact :: "adverse_trust_event \<Rightarrow> trust_event \<Rightarrow> instant \<Rightarrow> trust_event" where
  "new_adverse_fact e payment now =
     \<lparr>te_workspace_id = te_workspace_id payment, te_event_id = av_event_id e, te_kind = av_kind e,
      te_provider = av_provider e, te_amount = Some (av_amount e),
      te_original_payment_ref = Some (av_original_payment_ref e),
      te_adverse_ref = Some (av_adverse_ref e), te_occurred_at = av_occurred_at e,
      te_recorded_at = now, te_payment_amount = te_payment_amount payment,
      te_currency = te_currency payment, te_credited = te_credited payment, te_recovered = None,
      te_provider_subtype = Some (av_provider_subtype e),
      te_lifecycle_status = Some (av_lifecycle_status e), te_cumulative_refunded = None,
      te_recovery_target = None, te_debit_status = None, te_unrecovered = None,
      te_watermark = Some (av_watermark e)\<rparr>"

definition restamp_fact :: "adverse_trust_event \<Rightarrow> trust_event \<Rightarrow> trust_event" where
  "restamp_fact e row = row\<lparr>te_occurred_at := av_occurred_at e,
     te_provider_subtype := Some (av_provider_subtype e), te_watermark := Some (av_watermark e)\<rparr>"

definition advance_fact :: "adverse_trust_event \<Rightarrow> instant \<Rightarrow> trust_event \<Rightarrow> trust_event" where
  "advance_fact e now row = row\<lparr>te_amount := Some (av_amount e), te_occurred_at := av_occurred_at e,
     te_recorded_at := now, te_provider_subtype := Some (av_provider_subtype e),
     te_lifecycle_status := Some (av_lifecycle_status e), te_watermark := Some (av_watermark e)\<rparr>"

text \<open>The two rows an applied transition rewrites.\<close>

definition recovery_status :: "int \<Rightarrow> int \<Rightarrow> string" where
  "recovery_status recovered unrecovered =
     (if unrecovered = 0 then ''debited'' else if recovered = 0 then ''unrecovered'' else ''partial'')"

definition recovered_payment :: "int \<Rightarrow> int \<Rightarrow> int \<Rightarrow> int \<Rightarrow> trust_event \<Rightarrow> trust_event" where
  "recovered_payment target recovered unrecovered refunded payment =
     payment\<lparr>te_recovery_target := Some target, te_recovered := Some recovered,
       te_unrecovered := Some unrecovered, te_cumulative_refunded := Some refunded,
       te_debit_status := Some (recovery_status recovered unrecovered)\<rparr>"

definition recovered_fact :: "int \<Rightarrow> int \<Rightarrow> int \<Rightarrow> int \<Rightarrow> trust_event \<Rightarrow> trust_event" where
  "recovered_fact target recovered unrecovered refunded arow =
     arow\<lparr>te_recovery_target := Some target, te_cumulative_refunded := Some refunded,
       te_unrecovered := Some unrecovered,
       te_debit_status := Some (recovery_status recovered unrecovered)\<rparr>"

text \<open>The money half of an applied transition: the payment row \<open>pk, payment\<close>, the adverse row
  \<open>fk, arow\<close>, and the store \<open>s\<close> in which that row is already written.\<close>

definition apply_recovery ::
    "adverse_trust_event \<Rightarrow> string \<times> string \<Rightarrow> trust_event \<Rightarrow> string \<times> string \<Rightarrow> trust_event \<Rightarrow>
     adverse_trust_result option store_op" where
  "apply_recovery e pk payment fk arow s =
     (case payment_recovery_target payment (adverse_rows payment s) of Inl err \<Rightarrow> (Inl err, s)
      | Inr (target, refunded) \<Rightarrow>
          (let recovered = oint (te_recovered payment); unrecovered = oint (te_unrecovered payment);
               old_target = oint (te_recovery_target payment); w = te_workspace_id payment
           in if old_target \<noteq> recovered + unrecovered
              then (Inl (RuntimeError ''payment recovery invariant violated''), s)
              else case dget (credit_money s) w of None \<Rightarrow> (Inl (KeyError w), s)
                | Some m \<Rightarrow>
                    (let (m', rec', unrec') = move_recovery (target - old_target) m recovered unrecovered;
                         payment' = recovered_payment target rec' unrec' refunded payment;
                         arow' = recovered_fact target rec' unrec' refunded arow;
                         s' = s\<lparr>credit_money := dset w m' (credit_money s),
                                trust_events := dset fk arow' (dset pk payment' (trust_events s))\<rparr>
                     in (Inr (Some \<lparr>ar_outcome = ''applied'', ar_workspace_id = Some w,
                           ar_recovery_target = target, ar_recovered = rec', ar_unrecovered = unrec',
                           ar_provider = Some (av_provider e)\<rparr>),
                         sync_principal_recovery_pause w s'))))"

definition adverse_result :: "string \<Rightarrow> adverse_trust_event \<Rightarrow> trust_event \<Rightarrow> adverse_trust_result" where
  "adverse_result outcome e payment =
     \<lparr>ar_outcome = outcome, ar_workspace_id = Some (te_workspace_id payment),
      ar_recovery_target = oint (te_recovery_target payment), ar_recovered = oint (te_recovered payment),
      ar_unrecovered = oint (te_unrecovered payment), ar_provider = Some (av_provider e)\<rparr>"

definition apply_adverse_trust_event ::
    "adverse_trust_event \<Rightarrow> instant \<Rightarrow> adverse_trust_result option store_op" where
  "apply_adverse_trust_event e now s =
     (case find_event (is_payment_of e) s of None \<Rightarrow> (Inr None, s)
      | Some (pk, payment) \<Rightarrow>
          (case find_event (is_fact_of e) s of
             None \<Rightarrow>
               (let outcome = adverse_transition_outcome (av_kind e) None None
                      (av_lifecycle_status e) (av_watermark e);
                    arow = new_adverse_fact e payment now;
                    fk = (te_workspace_id payment, av_event_id e)
                in if outcome \<noteq> ''applied'' then (Inr (Some (adverse_result outcome e payment)), s)
                   else apply_recovery e pk payment fk arow
                     (s\<lparr>trust_events := dset fk arow (trust_events s)\<rparr>))
           | Some (fk, existing) \<Rightarrow>
               (if te_kind existing \<noteq> av_kind e
                then (Inr (Some \<lparr>ar_outcome = ''illegal'', ar_workspace_id = Some (te_workspace_id payment),
                  ar_recovery_target = 0, ar_recovered = 0, ar_unrecovered = 0,
                  ar_provider = Some (av_provider e)\<rparr>), s)
                else
                  let outcome = adverse_transition_outcome (av_kind e) (te_lifecycle_status existing)
                        (te_watermark existing) (av_lifecycle_status e) (av_watermark e);
                      arow = advance_fact e now existing
                  in if outcome = ''replay'' \<and> adverse_restamp_wins (te_watermark existing) e
                     then (Inr (Some (adverse_result outcome e payment)),
                       s\<lparr>trust_events := dset fk (restamp_fact e existing) (trust_events s)\<rparr>)
                     else if outcome \<noteq> ''applied''
                     then (Inr (Some (adverse_result outcome e payment)), s)
                     else apply_recovery e pk payment fk arow
                       (s\<lparr>trust_events := dset fk arow (trust_events s)\<rparr>))))"

text \<open>\<open>provider_inbox_key\<close> (\<open>services/provider_trust.py\<close>): \<open>identity_digest\<close> is the hexadecimal
  SHA-256 of the \<open>repr\<close> of the tuple.\<close>

definition provider_inbox_key ::
    "(string \<times> string \<times> string \<times> string \<times> string \<times> int \<Rightarrow> string) \<Rightarrow> adverse_trust_event \<Rightarrow> string" where
  "provider_inbox_key identity_digest e =
     (if av_provider e \<notin> set [''paypal'', ''adyen''] then av_adverse_ref e
      else ''observation:'' @ identity_digest (av_kind e, av_adverse_ref e, av_watermark e,
        av_lifecycle_status e, av_original_payment_ref e, av_amount e))"

definition dsetdefault :: "'k \<Rightarrow> 'v \<Rightarrow> ('k, 'v) dict \<Rightarrow> ('k, 'v) dict" where
  "dsetdefault k v d = (case dget d k of None \<Rightarrow> dset k v d | Some _ \<Rightarrow> d)"

definition record_adverse_trust_event ::
    "(string \<times> string \<times> string \<times> string \<times> string \<times> int \<Rightarrow> string) \<Rightarrow> adverse_trust_event \<Rightarrow> instant \<Rightarrow>
     adverse_trust_result store_op" where
  "record_adverse_trust_event identity_digest e now s =
     (let park = (\<lambda>s'. let key = provider_inbox_key identity_digest e
            in (Inr \<lparr>ar_outcome = ''inbox'', ar_workspace_id = None, ar_recovery_target = 0,
                  ar_recovered = 0, ar_unrecovered = 0, ar_provider = Some (av_provider e)\<rparr>,
                s'\<lparr>trust_inbox := dsetdefault (av_provider e, key)
                  \<lparr>ti_provider = av_provider e, ti_adverse_ref = key, ti_payload = e,
                   ti_received_at = now\<rparr> (trust_inbox s')\<rparr>))
      in case validate_adverse_event e of Inl err \<Rightarrow> (Inl err, s)
       | Inr _ \<Rightarrow>
          (case apply_adverse_trust_event e now s of
             (Inl err, s1) \<Rightarrow> (Inl err, s1)
           | (Inr (Some r), s1) \<Rightarrow> (Inr r, s1)
           | (Inr None, s1) \<Rightarrow>
               (if av_provider e = ''stripe''
                then (case apply_adverse_trust_event (e\<lparr>av_provider := ''x402''\<rparr>) now s1 of
                        (Inl err, s2) \<Rightarrow> (Inl err, s2)
                      | (Inr (Some r), s2) \<Rightarrow> (Inr r, s2)
                      | (Inr None, s2) \<Rightarrow> park s2)
                else park s1)))"

definition list_stale_trust_inbox :: "instant \<Rightarrow> store \<Rightarrow> trust_inbox_row list" where
  "list_stale_trust_inbox older_than s =
     sort_key (\<lambda>row. (ti_received_at row, ti_provider row, ti_adverse_ref row))
       (filter (\<lambda>row. ti_received_at row < older_than \<and>
          dget (trust_inbox_resolutions s) (ti_provider row @ '':'' @ ti_adverse_ref row) = None)
        (dvals (trust_inbox s)))"

section \<open>Credits\<close>

record credit_request =
  cq_workspace_id :: string
  cq_amount :: microdollars
  cq_event_id :: string
  cq_provenance :: credit_provenance
  cq_payment_amount :: "microdollars option"
  cq_currency :: "string option"
  cq_lifetime_topup_user_id :: "string option"
  cq_required_owner_user_id :: "string option"

text \<open>The inbox drain of a credit: every parked event that names the credited provider object.\<close>

fun drain_inbox :: "credit_provenance \<Rightarrow> instant \<Rightarrow> ((string \<times> string) \<times> trust_inbox_row) list \<Rightarrow> unit store_op" where
  "drain_inbox p now [] s = (Inr (), s)"
| "drain_inbox p now ((k, row) # rows) s =
     (case adverse_event_from_payload (ti_payload row) of Inl err \<Rightarrow> (Inl err, s)
      | Inr pending \<Rightarrow>
          (if av_provider pending = cp_provider p \<and> Some (av_original_payment_ref pending) = cp_external_ref p
           then (case apply_adverse_trust_event pending now s of
                   (Inl err, s1) \<Rightarrow> (Inl err, s1)
                 | (Inr _, s1) \<Rightarrow> drain_inbox p now rows (s1\<lparr>trust_inbox := dpop k (trust_inbox s1)\<rparr>))
           else drain_inbox p now rows s))"

definition inbox_order :: "store \<Rightarrow> ((string \<times> string) \<times> trust_inbox_row) list" where
  "inbox_order s = sort_key (\<lambda>kr. (ti_received_at (snd kr), ti_adverse_ref (snd kr))) (trust_inbox s)"

definition owner_mismatch :: "string \<Rightarrow> string option \<Rightarrow> store \<Rightarrow> bool" where
  "owner_mismatch w required s =
     (case required of None \<Rightarrow> False
      | Some owner \<Rightarrow> (case dget (workspaces s) w of None \<Rightarrow> True
          | Some ws \<Rightarrow> ws_deleted ws \<or> ws_owner_user_id ws \<noteq> owner))"

definition same_payment :: "trust_event \<Rightarrow> trust_event \<Rightarrow> bool" where
  "same_payment t row \<longleftrightarrow> te_kind row = ''payment'' \<and> te_provider row = te_provider t \<and>
     te_original_payment_ref row = te_original_payment_ref t"

text \<open>Booking an amount: it repays a negative balance first, then unrecovered claims, and what is
  left becomes spendable.\<close>

definition book_credit :: "string \<Rightarrow> int \<Rightarrow> credit_money \<Rightarrow> store \<Rightarrow> store" where
  "book_credit w amount m s =
     (let repaid = min (max amount 0) (max (- available m) 0);
          (left, evs) = repay_claims (owing_rows w s) (amount - repaid) (trust_events s)
      in s\<lparr>trust_events := evs,
           credit_money := dset w (m\<lparr>cm_credits := cm_credits m + repaid + left\<rparr>) (credit_money s)\<rparr>)"

definition add_topup :: "string option \<Rightarrow> int \<Rightarrow> store \<Rightarrow> store" where
  "add_topup user amount s =
     (case user of None \<Rightarrow> s
      | Some u \<Rightarrow> s\<lparr>lifetime_topups := dset u (dget_or 0 (lifetime_topups s) u + amount) (lifetime_topups s)\<rparr>)"

text \<open>A new fact \<open>t\<close>: it is recorded, its amount is booked, and the inbox is drained.\<close>

definition accept_credit :: "credit_request \<Rightarrow> instant \<Rightarrow> credit_money \<Rightarrow> trust_event \<Rightarrow> bool store_op" where
  "accept_credit q now m t s =
     (let w = cq_workspace_id q; event_id = cq_event_id q;
          s1 = s\<lparr>stripe_events := insert event_id (stripe_events s),
                 trust_events := dset (w, event_id) t (trust_events s)\<rparr>;
          s2 = sync_principal_recovery_pause w (book_credit w (cq_amount q) m s1)
      in case drain_inbox (cq_provenance q) now (inbox_order s2) s2 of
           (Inl err, s3) \<Rightarrow> (Inl err, s3)
         | (Inr _, s3) \<Rightarrow> (Inr True, add_topup (cq_lifetime_topup_user_id q) (cq_amount q) s3))"

definition credit_workspace_typed_direct :: "credit_request \<Rightarrow> instant \<Rightarrow> bool store_op" where
  "credit_workspace_typed_direct q now s =
     (let w = cq_workspace_id q; event_id = cq_event_id q
      in if owner_mismatch w (cq_required_owner_user_id q) s
         then (Inl (ValueError ''credit_workspace_owner_mismatch''), s)
         else if event_id \<in> stripe_events s then (Inr False, s)
         else case dget (credit_money s) w of None \<Rightarrow> (Inl (ValueError ''credit_account_not_found''), s)
         | Some m \<Rightarrow>
           (case payment_or_grant_event w event_id (cq_amount q) (cq_provenance q) now
                   (cq_payment_amount q) (cq_currency q) of
              Inl err \<Rightarrow> (Inl err, s)
            | Inr t \<Rightarrow>
                (if te_kind t = ''payment'' \<and> list_ex (same_payment t) (dvals (trust_events s))
                 then (Inr False, s\<lparr>stripe_events := insert event_id (stripe_events s)\<rparr>)
                 else accept_credit q now m t s)))"

definition system_grant :: "instant \<Rightarrow> credit_provenance" where
  "system_grant now = \<lparr>cp_source = ''grant'', cp_provider = ''system'', cp_external_ref = None,
     cp_occurred_at = now\<rparr>"

definition credit_workspace_once ::
    "string \<Rightarrow> microdollars \<Rightarrow> string \<Rightarrow> string option \<Rightarrow> instant \<Rightarrow> bool store_op" where
  "credit_workspace_once w amount event_id required_owner now =
     credit_workspace_typed_direct
       \<lparr>cq_workspace_id = w, cq_amount = amount, cq_event_id = event_id,
        cq_provenance = system_grant now, cq_payment_amount = None, cq_currency = None,
        cq_lifetime_topup_user_id = None, cq_required_owner_user_id = required_owner\<rparr> now"

section \<open>Debits and transfers\<close>

definition positive_money_amount :: "int \<Rightarrow> int result" where
  "positive_money_amount amount =
     (if amount \<le> 0 then Inl (ValueError ''amount_must_be_positive'') else Inr amount)"

definition movement ::
    "string \<Rightarrow> string \<Rightarrow> string \<Rightarrow> microdollars \<Rightarrow> string option \<Rightarrow> instant \<Rightarrow> credit_movement" where
  "movement account_id movement_id kind amount counterparty created_at =
     \<lparr>mv_account_id = account_id, mv_movement_id = movement_id, mv_kind = kind, mv_amount = amount,
      mv_counterparty = counterparty, mv_custom_model_id = None, mv_authorization_id = None,
      mv_created_at = created_at\<rparr>"

definition debit_workspace_guarded ::
    "string \<Rightarrow> microdollars \<Rightarrow> string \<Rightarrow> string \<Rightarrow> string option \<Rightarrow> string option \<Rightarrow> instant \<Rightarrow> string store_op" where
  "debit_workspace_guarded w amount event_id kind custom_model_id authorization_id now s =
     (if amount \<le> 0 then (Inl (ValueError ''amount_must_be_positive''), s)
      else if event_id \<in> stripe_events s then (Inr ''duplicate'', s)
      else case dget (credit_money s) w of None \<Rightarrow> (Inr ''insufficient'', s)
        | Some m \<Rightarrow>
            (if available m < amount then (Inr ''insufficient'', s)
             else (Inr ''accepted'',
               s\<lparr>credit_money := dset w (m\<lparr>cm_credits := cm_credits m - amount\<rparr>) (credit_money s),
                 stripe_events := insert event_id (stripe_events s),
                 credit_movements := dset (w, event_id)
                   ((movement w event_id kind (- amount) None (iso_now now))
                      \<lparr>mv_custom_model_id := custom_model_id, mv_authorization_id := authorization_id\<rparr>)
                   (credit_movements s)\<rparr>)))"

definition accept_transfer ::
    "string \<Rightarrow> string \<Rightarrow> microdollars \<Rightarrow> string \<Rightarrow> string \<times> int \<Rightarrow> instant \<Rightarrow> credit_money \<Rightarrow>
     (string \<times> credit_movement option) store_op" where
  "accept_transfer sender recipient amount transfer_id counter_id now sm s =
     (let outgoing = movement sender transfer_id ''user_transfer_out'' (- amount) (Some recipient) (iso_now now);
          incoming = movement recipient transfer_id ''user_transfer_in'' amount (Some sender) (iso_now now);
          money1 = dset sender (sm\<lparr>cm_credits := cm_credits sm - amount\<rparr>) (credit_money s);
          rm = the (dget money1 recipient);
          money2 = dset recipient (rm\<lparr>cm_credits := cm_credits rm + amount\<rparr>) money1
      in (Inr (''accepted'', Some outgoing),
          s\<lparr>credit_money := money2,
            credit_movements := dset (recipient, transfer_id) incoming
              (dset (sender, transfer_id) outgoing (credit_movements s)),
            user_transfer_daily := dset counter_id
              (dget_or 0 (user_transfer_daily s) counter_id + amount) (user_transfer_daily s)\<rparr>))"

text \<open>The rollback of the \<open>except\<close> clause is not reachable: nothing between the two balance writes
  and the end of the block can raise.\<close>

definition transfer_workspace_credits ::
    "string \<Rightarrow> string \<Rightarrow> microdollars \<Rightarrow> string \<Rightarrow> microdollars \<Rightarrow> instant \<Rightarrow>
     (string \<times> credit_movement option) store_op" where
  "transfer_workspace_credits sender recipient amount transfer_id cap now s =
     (if amount \<le> 0 \<or> cap \<le> 0 then (Inl (ValueError ''amount_must_be_positive''), s)
      else case dget (workspaces s) sender of None \<Rightarrow> (Inl (KeyError sender), s)
      | Some sw \<Rightarrow>
        (if ws_billing_pause_causes sw \<noteq> [] then (Inr (''paused'', None), s)
         else case dget (workspaces s) recipient of None \<Rightarrow> (Inl (KeyError recipient), s)
         | Some rw \<Rightarrow>
           (if ws_billing_pause_causes rw \<noteq> [] then (Inr (''paused'', None), s)
            else case dget (credit_movements s) (sender, transfer_id) of
              Some existing \<Rightarrow>
                (if mv_kind existing \<noteq> ''user_transfer_out''
                 then (Inl (RuntimeError ''credit transfer id collides with another movement''), s)
                 else (Inr (''duplicate'', Some existing), s))
            | None \<Rightarrow>
                (let counter_id = (ws_owner_user_id sw, utc_day now);
                     sent_today = dget_or 0 (user_transfer_daily s) counter_id
                 in if sent_today + amount > cap then (Inr (''daily_limit'', None), s)
                    else case dget (credit_money s) recipient of
                        None \<Rightarrow> (Inl (ValueError ''credit_account_not_found''), s)
                      | Some _ \<Rightarrow>
                          (case dget (credit_money s) sender of None \<Rightarrow> (Inr (''insufficient'', None), s)
                           | Some sm \<Rightarrow>
                               (if available sm < amount then (Inr (''insufficient'', None), s)
                                else accept_transfer sender recipient amount transfer_id counter_id now sm s))))))"

section \<open>Reservations under the billing pause\<close>

definition legacy_pause_epoch :: "string \<Rightarrow> store \<Rightarrow> int" where
  "legacy_pause_epoch w s =
     (case [sh_pause_epoch row. (k, row) \<leftarrow> credit_trust_shards s, fst k = w] of
        [] \<Rightarrow> 0 | e # es \<Rightarrow> fold max es e)"

definition legacy_paused :: "string \<Rightarrow> store \<Rightarrow> bool" where
  "legacy_paused w s \<longleftrightarrow>
     list_ex (\<lambda>(k, row). fst k = w \<and> sh_billing_pause_causes row \<noteq> []) (credit_trust_shards s) \<or>
     (case dget (workspaces s) w of None \<Rightarrow> False
      | Some ws \<Rightarrow> ws_billing_paused ws \<or> ws_billing_pause_causes ws \<noteq> [])"

definition store_settle :: "string \<Rightarrow> microdollars \<Rightarrow> unit store_op" where
  "store_settle rid actual s = keys_settle rid actual s"

definition store_refund :: "string \<Rightarrow> unit store_op" where
  "store_refund rid s =
     (case keys_refund rid s of (Inl err, s1) \<Rightarrow> (Inl err, s1)
      | (Inr _, s1) \<Rightarrow>
          (if trust_armed s1
           then (case dget (reservations s1) rid of None \<Rightarrow> (Inl (KeyError rid), s1)
                 | Some r \<Rightarrow> recover_released_credit (rv_workspace_id r) s1)
           else (Inr (), s1)))"

text \<open>The exception of a failed inner refund leaves the store as that refund left it.\<close>

definition reject_paused ::
    "string \<Rightarrow> string \<Rightarrow> string option \<Rightarrow> int \<Rightarrow> reservation store_op" where
  "reject_paused w key_hash idempotency_key key_hold s =
     (let refunded = (case idempotency_key of None \<Rightarrow> (Inr (), s)
            | Some ik \<Rightarrow> (case find_reservation w key_hash ik s of
                None \<Rightarrow> (Inr (), s) | Some existing \<Rightarrow> store_refund (rv_id existing) s))
      in case refunded of (Inl err, s1) \<Rightarrow> (Inl err, s1)
       | (Inr _, s1) \<Rightarrow>
          (let s2 = (case idempotency_key of None \<Rightarrow> s1
                 | Some ik \<Rightarrow> s1\<lparr>paused_authorizations := insert (w, key_hash, ik) (paused_authorizations s1)\<rparr>)
           in (Inl BillingPausedError, refund_limit key_hash key_hold s2)))"

definition store_reserve ::
    "string \<Rightarrow> string \<Rightarrow> microdollars \<Rightarrow> string option \<Rightarrow> int option \<Rightarrow> string \<Rightarrow> instant \<Rightarrow> reservation store_op" where
  "store_reserve w key_hash amount idempotency_key key_reserved fresh now s =
     (let key_hold = (case key_reserved of None \<Rightarrow> amount | Some k \<Rightarrow> max 0 k);
          terminal = (case idempotency_key of None \<Rightarrow> False
            | Some ik \<Rightarrow> (w, key_hash, ik) \<in> paused_authorizations s);
          paused = (trust_armed s \<and> legacy_paused w s)
      in if paused \<or> terminal then reject_paused w key_hash idempotency_key key_hold s
         else case keys_reserve w key_hash amount idempotency_key fresh now s of
             (Inl err, s1) \<Rightarrow> (Inl err, s1)
           | (Inr r, s1) \<Rightarrow>
               (Inr r,
                if trust_armed s1
                then s1\<lparr>reservation_pause_epochs := dsetdefault (rv_id r) (legacy_pause_epoch w s1)
                       (reservation_pause_epochs s1)\<rparr>
                else s1))"

section \<open>The recovery books\<close>

text \<open>
  What a payment row records is coherent: the recovered and unrecovered amounts are not negative,
  add up to the target, and the target is within what was credited.  \<open>adverse_id\<close> separates the
  identifiers of adverse events from those of credits: the callers build them in disjoint
  namespaces, and a collision would overwrite a payment row.
\<close>

definition row_ok :: "trust_event \<Rightarrow> bool" where
  "row_ok row \<longleftrightarrow>
     (te_kind row = ''payment'' \<longrightarrow> 0 \<le> oint (te_recovered row) \<and> 0 \<le> oint (te_unrecovered row) \<and>
        oint (te_recovery_target row) = oint (te_recovered row) + oint (te_unrecovered row) \<and>
        oint (te_recovery_target row) \<le> oint (te_credited row) \<and> 0 < oint (te_payment_amount row)) \<and>
     (te_kind row = ''refund'' \<longrightarrow> 0 \<le> oint (te_amount row))"

definition entry_ok :: "(string \<Rightarrow> bool) \<Rightarrow> (string \<times> string) \<times> trust_event \<Rightarrow> bool" where
  "entry_ok adverse_id kr \<longleftrightarrow> row_ok (snd kr) \<and>
     (te_kind (snd kr) = ''payment'' \<longrightarrow> fst (fst kr) = te_workspace_id (snd kr) \<and> \<not> adverse_id (snd (fst kr)))"

definition events_ok :: "(string \<Rightarrow> bool) \<Rightarrow> (string \<times> string, trust_event) dict \<Rightarrow> bool" where
  "events_ok adverse_id evs \<longleftrightarrow> distinct (map fst evs) \<and> (\<forall>kr \<in> set evs. entry_ok adverse_id kr)"

definition inbox_ok :: "(string \<Rightarrow> bool) \<Rightarrow> trust_inbox_row \<Rightarrow> bool" where
  "inbox_ok adverse_id row \<longleftrightarrow> adverse_id (av_event_id (ti_payload row)) \<and> is_ok (validate_adverse_event (ti_payload row))"

text \<open>Every payment row belongs to an open account and to a processed event.\<close>

definition payment_entry :: "string \<times> string \<Rightarrow> string \<Rightarrow> (string \<times> string, trust_event) dict \<Rightarrow> bool" where
  "payment_entry k w evs \<longleftrightarrow> (\<exists>row. (k, row) \<in> set evs \<and> te_kind row = ''payment'' \<and> te_workspace_id row = w)"

definition payments_known :: "store \<Rightarrow> bool" where
  "payments_known s \<longleftrightarrow> (\<forall>k w. payment_entry k w (trust_events s) \<longrightarrow>
     dget (credit_money s) w \<noteq> None \<and> snd k \<in> stripe_events s)"

definition ledger_ok :: "(string \<Rightarrow> bool) \<Rightarrow> store \<Rightarrow> bool" where
  "ledger_ok adverse_id s \<longleftrightarrow> events_ok adverse_id (trust_events s) \<and>
     (\<forall>row \<in> set (dvals (trust_inbox s)). inbox_ok adverse_id row) \<and> payments_known s"

text \<open>The principal of a workspace: its credits and what its payments already gave back.\<close>

definition recovered_in :: "string \<Rightarrow> trust_event \<Rightarrow> int" where
  "recovered_in w row = (if te_kind row = ''payment'' \<and> te_workspace_id row = w then oint (te_recovered row) else 0)"

definition principal :: "string \<Rightarrow> store \<Rightarrow> int" where
  "principal w s = dcell cm_credits (dget (credit_money s) w) + dsum (recovered_in w) (trust_events s)"

subsection \<open>Rows\<close>

lemma events_ok_dset:
  assumes "events_ok a evs" "entry_ok a (k, v)"
  shows "events_ok a (dset k v evs)"
  using assms set_dset [of k v evs] by (auto simp: events_ok_def distinct_update)

lemma events_ok_dget:
  assumes "events_ok a evs" "(k, row) \<in> set evs"
  shows "dget evs k = Some row"
  using assms by (simp add: events_ok_def)

lemma events_ok_row: "events_ok a evs \<Longrightarrow> dget evs k = Some row \<Longrightarrow> row_ok row"
  by (force simp: events_ok_def entry_ok_def dest: map_of_SomeD)

lemma row_ok_non_payment:
  "te_kind row \<noteq> ''payment'' \<Longrightarrow> (te_kind row = ''refund'' \<Longrightarrow> 0 \<le> oint (te_amount row)) \<Longrightarrow> entry_ok a (k, row)"
  by (simp add: entry_ok_def row_ok_def)

lemma take_recovery_simps [simp]:
  "te_kind (take_recovery t p) = te_kind p" "te_workspace_id (take_recovery t p) = te_workspace_id p"
  "oint (te_recovered (take_recovery t p)) = oint (te_recovered p) + t"
  "oint (te_unrecovered (take_recovery t p)) = oint (te_unrecovered p) - t"
  "te_recovery_target (take_recovery t p) = te_recovery_target p" "te_amount (take_recovery t p) = te_amount p"
  "te_credited (take_recovery t p) = te_credited p" "te_payment_amount (take_recovery t p) = te_payment_amount p"
  "te_event_id (take_recovery t p) = te_event_id p"
  by (simp_all add: take_recovery_def Let_def)

lemma entry_ok_take:
  assumes "entry_ok a (k, p)" "0 \<le> t" "t \<le> oint (te_unrecovered p)"
  shows "entry_ok a (k, take_recovery t p)"
  using assms by (auto simp: entry_ok_def row_ok_def)

lemma owing_rows_set: "set (owing_rows w s) = {kr \<in> set (trust_events s). owes w (snd kr)}"
  by (auto simp: owing_rows_def)

lemma owing_rows_distinct: "distinct (map fst (trust_events s)) \<Longrightarrow> distinct (map fst (owing_rows w s))"
  by (auto simp: owing_rows_def distinct_map inj_on_def)

subsection \<open>The two recovery loops\<close>

text \<open>No payment row appears.\<close>

definition payments_from :: "(string \<times> string, trust_event) dict \<Rightarrow> (string \<times> string, trust_event) dict \<Rightarrow> bool" where
  "payments_from evs evs' \<longleftrightarrow> (\<forall>k w. payment_entry k w evs' \<longrightarrow> payment_entry k w evs)"

lemma payments_from_refl [simp]: "payments_from evs evs"
  by (simp add: payments_from_def)

lemma payments_from_trans: "payments_from a b \<Longrightarrow> payments_from b c \<Longrightarrow> payments_from a c"
  by (simp add: payments_from_def)

lemma payment_entry_dset:
  "payment_entry k' w (dset k v evs) \<Longrightarrow>
     payment_entry k' w evs \<or> k' = k \<and> te_kind v = ''payment'' \<and> te_workspace_id v = w"
  using set_dset [of k v evs] by (fastforce simp: payment_entry_def)

lemma payment_entry_dget: "dget evs k = Some p \<Longrightarrow> te_kind p = ''payment'' \<Longrightarrow> payment_entry k (te_workspace_id p) evs"
  by (auto simp: payment_entry_def dest: map_of_SomeD)

lemma payments_from_dset:
  assumes "te_kind v \<noteq> ''payment'' \<or>
    dget evs k = Some p \<and> te_kind p = ''payment'' \<and> te_workspace_id p = te_workspace_id v"
  shows "payments_from evs (dset k v evs)"
  unfolding payments_from_def
proof (intro allI impI)
  fix k' w
  assume "payment_entry k' w (dset k v evs)"
  from payment_entry_dset [OF this] show "payment_entry k' w evs"
    using assms payment_entry_dget [of evs k p] by auto
qed

text \<open>What a loop needs of the rows it visits, and what it guarantees.\<close>

definition claims_ok :: "(string \<Rightarrow> bool) \<Rightarrow> string \<Rightarrow> ((string \<times> string) \<times> trust_event) list \<Rightarrow>
    (string \<times> string, trust_event) dict \<Rightarrow> bool" where
  "claims_ok a w ps evs \<longleftrightarrow> events_ok a evs \<and> distinct (map fst ps) \<and>
     (\<forall>kr \<in> set ps. dget evs (fst kr) = Some (snd kr) \<and> owes w (snd kr))"

definition claims_post :: "(string \<Rightarrow> bool) \<Rightarrow> string \<Rightarrow> int \<Rightarrow> (string \<times> string, trust_event) dict \<Rightarrow>
    int \<times> (string \<times> string, trust_event) dict \<Rightarrow> bool" where
  "claims_post a w left evs res \<longleftrightarrow> events_ok a (snd res) \<and> 0 \<le> fst res \<and> fst res \<le> left \<and>
     (\<forall>w'. dsum (recovered_in w') (snd res) = dsum (recovered_in w') evs + (if w' = w then left - fst res else 0)) \<and>
     payments_from evs (snd res)"

lemma claims_step:
  assumes "claims_ok a w ((k, p) # ps) evs" "0 \<le> t" "t \<le> oint (te_unrecovered p)"
  defines "evs' \<equiv> dset k (take_recovery t p) evs"
  shows "claims_ok a w ps evs'"
    and "dsum (recovered_in w') evs' = dsum (recovered_in w') evs + (if w' = w then t else 0)"
    and "payments_from evs evs'"
proof -
  from assms(1) have g: "dget evs k = Some p" "owes w p" and ok: "events_ok a evs"
    by (auto simp: claims_ok_def)
  have e: "entry_ok a (k, p)" using ok g(1) by (auto simp: events_ok_def dest: map_of_SomeD)
  have "events_ok a evs'" unfolding evs'_def by (rule events_ok_dset [OF ok entry_ok_take [OF e assms(2,3)]])
  then show "claims_ok a w ps evs'" using assms(1) by (force simp: claims_ok_def evs'_def)
  show "dsum (recovered_in w') evs' = dsum (recovered_in w') evs + (if w' = w then t else 0)"
    using g by (auto simp: evs'_def recovered_in_def owes_def)
  show "payments_from evs evs'"
    unfolding evs'_def using g by (intro payments_from_dset [where p = p]) (auto simp: owes_def)
qed

lemma claims_post_step:
  assumes "claims_ok a w ((k, p) # ps) evs" "0 \<le> t" "t \<le> oint (te_unrecovered p)" "t \<le> left"
    and "claims_post a w (left - t) (dset k (take_recovery t p) evs) res"
  shows "claims_post a w left evs res"
  using assms(5) claims_step(2,3) [OF assms(1-3)] assms(2) payments_from_trans
  unfolding claims_post_def by (fastforce split: if_splits)

lemma claims_post_refl: "claims_ok a w ps evs \<Longrightarrow> 0 \<le> left \<Longrightarrow> claims_post a w left evs (left, evs)"
  by (auto simp: claims_post_def claims_ok_def)

lemma claims_taken_bounds:
  assumes "claims_ok a w ((k, p) # ps) evs" "0 \<le> left"
  shows "0 \<le> min left (oint (te_unrecovered p))"
  using assms by (auto simp: claims_ok_def owes_def)

lemma repay_claims_post:
  "claims_ok a w ps evs \<Longrightarrow> 0 \<le> left \<Longrightarrow> claims_post a w left evs (repay_claims ps left evs)"
proof (induction ps left evs rule: repay_claims.induct)
  case (2 k p ps left evs)
  let ?t = "min left (oint (te_unrecovered p))"
  note b = claims_taken_bounds [OF 2(2,3)]
  show ?case
  proof (cases "?t = 0")
    case True
    then show ?thesis using claims_post_refl [OF 2(2,3)] by (simp add: Let_def)
  next
    case False
    have "claims_post a w (left - ?t) (dset k (take_recovery ?t p) evs)
        (repay_claims ps (left - ?t) (dset k (take_recovery ?t p) evs))"
      using 2(1) [OF refl False claims_step(1) [OF 2(2) b]] by simp
    from claims_post_step [OF 2(2) b _ _ this] show ?thesis using False by (simp add: Let_def)
  qed
qed (simp add: claims_post_refl)

lemma recover_claims_post:
  "claims_ok a w ps evs \<Longrightarrow> 0 \<le> left \<Longrightarrow> claims_post a w left evs (recover_claims ps left evs)"
proof (induction ps left evs rule: recover_claims.induct)
  case (2 k p ps left evs)
  let ?t = "min left (oint (te_unrecovered p))"
  note b = claims_taken_bounds [OF 2(2,3)]
  have "claims_post a w (left - ?t) (dset k (take_recovery ?t p) evs)
      (recover_claims ps (left - ?t) (dset k (take_recovery ?t p) evs))"
    using 2(1) [OF refl claims_step(1) [OF 2(2) b]] by simp
  from claims_post_step [OF 2(2) b _ _ this] show ?case by (simp add: Let_def)
qed (simp add: claims_post_refl)

lemma owing_claims_ok:
  assumes "events_ok a (trust_events s)"
  shows "claims_ok a w (owing_rows w s) (trust_events s)"
  using assms owing_rows_distinct [of s w]
  by (auto simp: claims_ok_def owing_rows_set events_ok_def)

subsection \<open>Frames\<close>

lemma sync_pause_frame [simp]:
  "trust_events (sync_principal_recovery_pause w s) = trust_events s"
  "credit_money (sync_principal_recovery_pause w s) = credit_money s"
  "trust_inbox (sync_principal_recovery_pause w s) = trust_inbox s"
  "stripe_events (sync_principal_recovery_pause w s) = stripe_events s"
  "reservations (sync_principal_recovery_pause w s) = reservations s"
  "trust_armed (sync_principal_recovery_pause w s) = trust_armed s"
  "paused_authorizations (sync_principal_recovery_pause w s) = paused_authorizations s"
  by (simp_all add: sync_principal_recovery_pause_def Let_def split: option.splits)

lemma sync_pause_ledger [simp]:
  "ledger_ok a (sync_principal_recovery_pause w s) \<longleftrightarrow> ledger_ok a s"
  "principal w' (sync_principal_recovery_pause w s) = principal w' s"
  by (simp_all add: ledger_ok_def payments_known_def principal_def)

lemma payments_knownD:
  "payments_known s \<Longrightarrow> payment_entry k w (trust_events s) \<Longrightarrow> dget (credit_money s) w \<noteq> None \<and> snd k \<in> stripe_events s"
  unfolding payments_known_def by blast

lemma payments_known_step:
  assumes "payments_known s" "payments_from (trust_events s) (trust_events s')"
    and "\<And>w. dget (credit_money s) w \<noteq> None \<Longrightarrow> dget (credit_money s') w \<noteq> None"
    and "stripe_events s \<subseteq> stripe_events s'"
  shows "payments_known s'"
  using assms unfolding payments_known_def payments_from_def by blast

lemma ledger_ok_step:
  assumes "ledger_ok a s" "events_ok a (trust_events s')" "set (trust_inbox s') \<subseteq> set (trust_inbox s)"
    and "payments_from (trust_events s) (trust_events s')"
    and "\<And>w. dget (credit_money s) w \<noteq> None \<Longrightarrow> dget (credit_money s') w \<noteq> None"
    and "stripe_events s \<subseteq> stripe_events s'"
  shows "ledger_ok a s'"
  using assms payments_known_step [OF _ assms(4-6)] by (auto simp: ledger_ok_def)

subsection \<open>Moving a target\<close>

lemma move_recovery_spec:
  assumes "move_recovery delta m rec unrec = (m', rec', unrec')"
    and "0 \<le> rec" "0 \<le> unrec" "0 \<le> rec + unrec + delta"
  shows "rec' + unrec' = rec + unrec + delta" "0 \<le> rec'" "0 \<le> unrec'"
    "cm_credits m' + rec' = cm_credits m + rec" "cm_usage m' = cm_usage m" "cm_reserved m' = cm_reserved m"
    "available m' \<ge> min 0 (available m)"
  using assms by (auto simp: move_recovery_def Let_def available_def min_def max_def split: if_splits)

lemma move_recovery_total: "\<exists>m' rec' unrec'. move_recovery delta m rec unrec = (m', rec', unrec')"
  by (metis prod.exhaust)

subsection \<open>The money half of an applied transition\<close>

lemma recovered_rows_simps [simp]:
  "te_kind (recovered_payment t r u n p) = te_kind p" "te_workspace_id (recovered_payment t r u n p) = te_workspace_id p"
  "te_recovered (recovered_payment t r u n p) = Some r" "te_unrecovered (recovered_payment t r u n p) = Some u"
  "te_recovery_target (recovered_payment t r u n p) = Some t" "te_credited (recovered_payment t r u n p) = te_credited p"
  "te_payment_amount (recovered_payment t r u n p) = te_payment_amount p" "te_amount (recovered_payment t r u n p) = te_amount p"
  "te_kind (recovered_fact t r u n f) = te_kind f" "te_amount (recovered_fact t r u n f) = te_amount f"
  by (simp_all add: recovered_payment_def recovered_fact_def)

text \<open>Everything a transition needs of the two rows it rewrites.\<close>

definition recovery_site :: "(string \<Rightarrow> bool) \<Rightarrow> string \<times> string \<Rightarrow> trust_event \<Rightarrow> string \<times> string \<Rightarrow> trust_event \<Rightarrow>
    credit_money \<Rightarrow> store \<Rightarrow> bool" where
  "recovery_site a pk payment fk arow m s \<longleftrightarrow> events_ok a (trust_events s) \<and>
     dget (trust_events s) pk = Some payment \<and> te_kind payment = ''payment'' \<and> pk \<noteq> fk \<and>
     dget (trust_events s) fk = Some arow \<and> te_kind arow \<noteq> ''payment'' \<and>
     dget (credit_money s) (te_workspace_id payment) = Some m"

lemma recovery_site_target:
  assumes "recovery_site a pk payment fk arow m s"
  defines "target \<equiv> target_spec payment (adverse_rows payment s)"
  shows "0 \<le> target" "target \<le> oint (te_credited payment)" "0 < oint (te_payment_amount payment)"
    "oint (te_recovery_target payment) = oint (te_recovered payment) + oint (te_unrecovered payment)"
    "0 \<le> oint (te_recovered payment)" "0 \<le> oint (te_unrecovered payment)"
proof -
  have ok: "events_ok a (trust_events s)" and rp: "row_ok payment" and kind: "te_kind payment = ''payment''"
    using assms(1) events_ok_row unfolding recovery_site_def by blast+
  have rows: "\<forall>row \<in> set (adverse_rows payment s). te_kind row = ''refund'' \<longrightarrow> 0 \<le> oint (te_amount row)"
    using ok by (auto simp: adverse_rows_def events_ok_def entry_ok_def row_ok_def)
  show "0 \<le> target" "target \<le> oint (te_credited payment)"
    using target_spec_bounds [OF rows, of payment] rp kind unfolding target_def by (auto simp: row_ok_def)
  show "0 < oint (te_payment_amount payment)"
    "oint (te_recovery_target payment) = oint (te_recovered payment) + oint (te_unrecovered payment)"
    "0 \<le> oint (te_recovered payment)" "0 \<le> oint (te_unrecovered payment)"
    using rp kind by (simp_all add: row_ok_def)
qed

lemma apply_recovery_runs:
  assumes "recovery_site a pk payment fk arow m s"
  obtains r m' target rec' unrec' n where
    "apply_recovery e pk payment fk arow s =
       (Inr (Some r), sync_principal_recovery_pause (te_workspace_id payment)
          (s\<lparr>credit_money := dset (te_workspace_id payment) m' (credit_money s),
             trust_events := dset fk (recovered_fact target rec' unrec' n arow)
               (dset pk (recovered_payment target rec' unrec' n payment) (trust_events s))\<rparr>))"
    "rec' + unrec' = target" "0 \<le> rec'" "0 \<le> unrec'" "target \<le> oint (te_credited payment)"
    "cm_credits m' + rec' = cm_credits m + oint (te_recovered payment)" "available m' \<ge> min 0 (available m)"
proof -
  let ?target = "target_spec payment (adverse_rows payment s)"
  let ?rec = "oint (te_recovered payment)" and ?unrec = "oint (te_unrecovered payment)"
  note t = recovery_site_target [OF assms]
  obtain m' rec' unrec' where mv: "move_recovery (?target - (?rec + ?unrec)) m ?rec ?unrec = (m', rec', unrec')"
    using move_recovery_total by blast
  note ms = move_recovery_spec [OF mv t(5,6)]
  show ?thesis
    by (rule that [where m' = m' and target = ?target and rec' = rec' and unrec' = unrec' and
          n = "net_refunded payment (adverse_rows payment s)"])
      (use ms t mv assms in \<open>auto simp: apply_recovery_def payment_recovery_target_eq Let_def recovery_site_def\<close>)
qed

lemma recovered_rows_dsum:
  assumes "recovery_site a pk payment fk arow m s"
  shows "dsum (recovered_in w) (dset fk (recovered_fact t r u n arow) (dset pk (recovered_payment t r u n payment) (trust_events s))) =
    dsum (recovered_in w) (trust_events s) + (if w = te_workspace_id payment then r - oint (te_recovered payment) else 0)"
proof -
  have "dget (dset pk (recovered_payment t r u n payment) (trust_events s)) fk = Some arow"
    and "dget (trust_events s) pk = Some payment" and "te_kind payment = ''payment''" and "te_kind arow \<noteq> ''payment''"
    using assms by (auto simp: recovery_site_def)
  then show ?thesis by (simp add: recovered_in_def)
qed

lemma apply_recovery_ok:
  assumes "recovery_site a pk payment fk arow m s" "ledger_ok a s"
  shows "\<exists>r s'. apply_recovery e pk payment fk arow s = (Inr (Some r), s') \<and> ledger_ok a s' \<and>
    trust_inbox s' = trust_inbox s \<and> stripe_events s' = stripe_events s \<and> (\<forall>w. principal w s' = principal w s)"
proof -
  from assms(1) have ok: "events_ok a (trust_events s)" and pk: "dget (trust_events s) pk = Some payment"
    and kind: "te_kind payment = ''payment''" and fk: "dget (trust_events s) fk = Some arow"
    and akind: "te_kind arow \<noteq> ''payment''" and money: "dget (credit_money s) (te_workspace_id payment) = Some m"
    by (auto simp: recovery_site_def)
  obtain r m' target rec' unrec' n where
    run: "apply_recovery e pk payment fk arow s =
       (Inr (Some r), sync_principal_recovery_pause (te_workspace_id payment)
          (s\<lparr>credit_money := dset (te_workspace_id payment) m' (credit_money s),
             trust_events := dset fk (recovered_fact target rec' unrec' n arow)
               (dset pk (recovered_payment target rec' unrec' n payment) (trust_events s))\<rparr>))"
    and v: "rec' + unrec' = target" "0 \<le> rec'" "0 \<le> unrec'" "target \<le> oint (te_credited payment)"
    and c: "cm_credits m' + rec' = cm_credits m + oint (te_recovered payment)"
    by (rule apply_recovery_runs [OF assms(1)]) blast
  have pe: "entry_ok a (pk, payment)" "row_ok arow" using ok pk fk events_ok_row
    by (auto simp: events_ok_def dest: map_of_SomeD)
  let ?evs = "dset fk (recovered_fact target rec' unrec' n arow) (dset pk (recovered_payment target rec' unrec' n payment) (trust_events s))"
  have ev: "events_ok a ?evs"
    using pe v kind akind ok by (intro events_ok_dset) (auto simp: entry_ok_def row_ok_def)
  have pf: "payments_from (trust_events s) ?evs"
    using pk kind akind
    by (intro payments_from_trans [OF payments_from_dset [where p = payment] payments_from_dset]) auto
  have l: "ledger_ok a (s\<lparr>credit_money := dset (te_workspace_id payment) m' (credit_money s), trust_events := ?evs\<rparr>)"
    using ev pf by (intro ledger_ok_step [OF assms(2)]) simp_all
  have "principal w (s\<lparr>credit_money := dset (te_workspace_id payment) m' (credit_money s), trust_events := ?evs\<rparr>) = principal w s" for w
    using recovered_rows_dsum [OF assms(1)] money c by (simp add: principal_def)
  then show ?thesis using run l by simp
qed

subsection \<open>One adverse event\<close>

definition adverse_ok :: "(string \<Rightarrow> bool) \<Rightarrow> adverse_trust_event \<Rightarrow> bool" where
  "adverse_ok a e \<longleftrightarrow> a (av_event_id e) \<and> av_kind e \<in> {''refund'', ''dispute''} \<and> 0 \<le> av_amount e"

text \<open>What an operation on the recovery books keeps: the books, the processed events, and every
  workspace's principal.\<close>

definition books_kept :: "(string \<Rightarrow> bool) \<Rightarrow> store \<Rightarrow> store \<Rightarrow> bool" where
  "books_kept a s s' \<longleftrightarrow> ledger_ok a s' \<and> stripe_events s' = stripe_events s \<and>
     (\<forall>w. principal w s' = principal w s)"

lemma validate_adverse_ok: "is_ok (validate_adverse_event e) \<Longrightarrow> a (av_event_id e) \<Longrightarrow> adverse_ok a e"
  by (auto simp: adverse_ok_def validate_adverse_event_def split: if_splits)

lemma validate_x402:
  "is_ok (validate_adverse_event e) \<Longrightarrow> av_provider e = ''stripe'' \<Longrightarrow> is_ok (validate_adverse_event (e\<lparr>av_provider := ''x402''\<rparr>))"
  by (auto simp: validate_adverse_event_def split: if_splits)

lemma find_event_SomeD: "find_event P s = Some (k, row) \<Longrightarrow> (k, row) \<in> set (trust_events s) \<and> P row"
  by (auto simp: find_event_def dest: find_SomeD)

lemma find_event_entry:
  assumes "ledger_ok a s" "find_event P s = Some (k, row)"
  shows "dget (trust_events s) k = Some row" "P row" "entry_ok a (k, row)"
  using assms find_event_SomeD [OF assms(2)] events_ok_dget by (auto simp: ledger_ok_def events_ok_def)

lemma write_fact_books:
  assumes "ledger_ok a s" "te_kind f \<noteq> ''payment''" "te_kind f = ''refund'' \<Longrightarrow> 0 \<le> oint (te_amount f)"
    and "\<And>old. dget (trust_events s) k = Some old \<Longrightarrow> te_kind old \<noteq> ''payment''"
  shows "books_kept a s (s\<lparr>trust_events := dset k f (trust_events s)\<rparr>)"
proof -
  have "events_ok a (dset k f (trust_events s))"
    using assms(1-3) by (auto simp: ledger_ok_def intro!: events_ok_dset row_ok_non_payment)
  then have "ledger_ok a (s\<lparr>trust_events := dset k f (trust_events s)\<rparr>)"
    using assms(2) by (intro ledger_ok_step [OF assms(1)] payments_from_dset) (simp_all add: payments_from_dset)
  moreover have "dsum (recovered_in w) (dset k f (trust_events s)) = dsum (recovered_in w) (trust_events s)" for w
    using assms(2,4) by (cases "dget (trust_events s) k") (simp_all add: dsum_dset recovered_in_def)
  ultimately show ?thesis by (simp add: books_kept_def principal_def)
qed

lemma apply_recovery_books:
  assumes "ledger_ok a s" and "find_event (is_payment_of e) s = Some (pk, payment)"
    and "te_kind f \<noteq> ''payment''" "te_kind f = ''refund'' \<Longrightarrow> 0 \<le> oint (te_amount f)"
    and "\<And>old. dget (trust_events s) fk = Some old \<Longrightarrow> te_kind old \<noteq> ''payment''" and "pk \<noteq> fk"
  shows "\<exists>r s'. apply_recovery e pk payment fk f (s\<lparr>trust_events := dset fk f (trust_events s)\<rparr>) = (Inr (Some r), s') \<and>
    books_kept a s s' \<and> trust_inbox s' = trust_inbox s"
proof -
  let ?s = "s\<lparr>trust_events := dset fk f (trust_events s)\<rparr>"
  from write_fact_books [OF assms(1) assms(3-5)] have b: "books_kept a s ?s" .
  note p = find_event_entry [OF assms(1,2)]
  have "dget (credit_money s) (te_workspace_id payment) \<noteq> None"
    using assms(1) p(2) payment_entry_dget [OF p(1)] unfolding ledger_ok_def payments_known_def is_payment_of_def by blast
  then obtain m where m: "dget (credit_money s) (te_workspace_id payment) = Some m" by blast
  have site: "recovery_site a pk payment fk f m ?s"
    using b p m assms(3,6) by (simp add: recovery_site_def books_kept_def ledger_ok_def is_payment_of_def)
  have l: "ledger_ok a ?s" using b by (simp add: books_kept_def)
  from apply_recovery_ok [OF site l, of e] b show ?thesis by (auto simp: books_kept_def)
qed

lemma apply_adverse_books:
  assumes "ledger_ok a s" "adverse_ok a e"
  shows "\<exists>r s'. apply_adverse_trust_event e now s = (Inr r, s') \<and> books_kept a s s' \<and> trust_inbox s' = trust_inbox s"
proof (cases "find_event (is_payment_of e) s")
  case None
  then show ?thesis using assms(1) by (simp add: apply_adverse_trust_event_def books_kept_def)
next
  case (Some pp)
  obtain pk payment where p: "find_event (is_payment_of e) s = Some (pk, payment)" using Some by (cases pp) auto
  note pe = find_event_entry [OF assms(1) p]
  have kind: "te_kind payment = ''payment''" and ek: "av_kind e \<noteq> ''payment''"
    using pe(2) assms(2) by (auto simp: is_payment_of_def adverse_ok_def)
  have refl: "books_kept a s s" using assms(1) by (simp add: books_kept_def)
  show ?thesis
  proof (cases "find_event (is_fact_of e) s")
    case None
    let ?fk = "(te_workspace_id payment, av_event_id e)"
    have old: "te_kind old \<noteq> ''payment''" if "dget (trust_events s) ?fk = Some old" for old
      using that assms map_of_SomeD [OF that] by (auto simp: ledger_ok_def events_ok_def entry_ok_def adverse_ok_def)
    have ne: "pk \<noteq> ?fk" using pe(3) kind assms(2) by (auto simp: entry_ok_def adverse_ok_def)
    from apply_recovery_books [OF assms(1) p _ _ old ne, of "new_adverse_fact e payment now"] show ?thesis
      using p None refl ek assms(2)
      by (auto simp: apply_adverse_trust_event_def Let_def new_adverse_fact_def adverse_ok_def)
  next
    case (Some ff)
    obtain fk ex where f: "find_event (is_fact_of e) s = Some (fk, ex)" using Some by (cases ff) auto
    note fe = find_event_entry [OF assms(1) f]
    show ?thesis
    proof (cases "te_kind ex = av_kind e")
      case False
      then show ?thesis using p f refl by (simp add: apply_adverse_trust_event_def)
    next
      case True
      have old: "te_kind old \<noteq> ''payment''" if "dget (trust_events s) fk = Some old" for old
        using that fe(1) True ek by simp
      have ne: "pk \<noteq> fk" using pe(1) fe(1) kind True ek by auto
      have adv: "te_kind (advance_fact e now ex) = av_kind e" "te_amount (advance_fact e now ex) = Some (av_amount e)"
        using True by (simp_all add: advance_fact_def)
      have rst: "books_kept a s (s\<lparr>trust_events := dset fk (restamp_fact e ex) (trust_events s)\<rparr>)"
        using fe(3) True ek by (intro write_fact_books [OF assms(1) _ _ old]) (auto simp: restamp_fact_def entry_ok_def row_ok_def)
      from apply_recovery_books [OF assms(1) p _ _ old ne, of "advance_fact e now ex"] adv show ?thesis
        using p f refl rst ek assms(2) True
        by (auto simp: apply_adverse_trust_event_def Let_def adverse_ok_def)
    qed
  qed
qed

lemma books_kept_trans: "books_kept a s s1 \<Longrightarrow> books_kept a s1 s2 \<Longrightarrow> books_kept a s s2"
  by (simp add: books_kept_def)

lemma books_kept_ledger: "books_kept a s s' \<Longrightarrow> ledger_ok a s'"
  by (simp add: books_kept_def)

lemma books_kept_inbox:
  assumes "ledger_ok a s" "\<forall>row \<in> set (dvals inbox). inbox_ok a row"
  shows "books_kept a s (s\<lparr>trust_inbox := inbox\<rparr>)"
  using assms by (simp add: books_kept_def ledger_ok_def payments_known_def principal_def)

lemma inbox_dsetdefault:
  assumes "\<forall>row \<in> set (dvals d). P row" "P v"
  shows "\<forall>row \<in> set (dvals (dsetdefault k v d)). P row"
proof
  fix row
  assume "row \<in> set (dvals (dsetdefault k v d))"
  then have "row \<in> insert v (set (dvals d))"
    using dvals_dset [of k v d] by (cases "dget d k") (auto simp only: dsetdefault_def option.case)
  then show "P row" using assms by blast
qed

lemma record_adverse_books:
  assumes "ledger_ok a s" "is_ok (validate_adverse_event e)" "a (av_event_id e)"
  shows "\<exists>r s'. record_adverse_trust_event dg e now s = (Inr r, s') \<and> books_kept a s s'"
proof -
  note ok = validate_adverse_ok [where a = a, OF assms(2,3)]
  have park: "books_kept a s (t\<lparr>trust_inbox := dsetdefault k
        \<lparr>ti_provider = p, ti_adverse_ref = c, ti_payload = e, ti_received_at = now\<rparr> (trust_inbox t)\<rparr>)"
    if "books_kept a s t" for t k p c
  proof -
    have "\<forall>row \<in> set (dvals (trust_inbox t)). inbox_ok a row" using that by (simp add: books_kept_def ledger_ok_def)
    from inbox_dsetdefault [OF this, of "\<lparr>ti_provider = p, ti_adverse_ref = c, ti_payload = e, ti_received_at = now\<rparr>" k]
    show ?thesis
      using books_kept_trans [OF that books_kept_inbox [OF books_kept_ledger [OF that]]] assms(2,3)
      by (simp add: inbox_ok_def)
  qed
  obtain r s1 where r: "apply_adverse_trust_event e now s = (Inr r, s1)" and b: "books_kept a s s1"
    using apply_adverse_books [OF assms(1) ok] by blast
  have x: "av_provider e = ''stripe'' \<Longrightarrow> adverse_ok a (e\<lparr>av_provider := ''x402''\<rparr>)"
    using validate_adverse_ok [where a = a, OF validate_x402 [OF assms(2)]] assms(3) by simp
  obtain r2 s2 where r2: "av_provider e = ''stripe'' \<Longrightarrow>
      apply_adverse_trust_event (e\<lparr>av_provider := ''x402''\<rparr>) now s1 = (Inr r2, s2) \<and> books_kept a s1 s2"
    using apply_adverse_books [OF books_kept_ledger [OF b] x, of now] by blast
  have v: "validate_adverse_event e = Inr ()"
    using assms(2) by (cases "validate_adverse_event e") simp_all
  show ?thesis
    using b r r2 v park [OF b] park [of s2] books_kept_trans [OF b, of s2]
    by (cases r; cases r2) (auto simp: record_adverse_trust_event_def Let_def)
qed

lemma drain_inbox_books:
  assumes "ledger_ok a s" "\<forall>kr \<in> set rows. inbox_ok a (snd kr)"
  shows "\<exists>s'. drain_inbox p now rows s = (Inr (), s') \<and> books_kept a s s'"
  using assms
proof (induction rows arbitrary: s)
  case Nil
  then show ?case by (simp add: books_kept_def)
next
  case (Cons kr rows)
  obtain k row where kr: "kr = (k, row)" by (cases kr)
  let ?e = "ti_payload row"
  have e: "is_ok (validate_adverse_event ?e)" "a (av_event_id ?e)" using Cons.prems(2) kr by (simp_all add: inbox_ok_def)
  then have v: "adverse_event_from_payload ?e = Inr ?e"
    by (cases "validate_adverse_event ?e") (simp_all add: adverse_event_from_payload_def)
  obtain r s1 where r: "apply_adverse_trust_event ?e now s = (Inr r, s1)" and b: "books_kept a s s1"
    and i: "trust_inbox s1 = trust_inbox s"
    using apply_adverse_books [OF Cons.prems(1) validate_adverse_ok [where a = a, OF e]] by blast
  have "set (dpop k (trust_inbox s)) \<subseteq> set (trust_inbox s)" by (auto simp: AList.delete_eq)
  then have b2: "books_kept a s1 (s1\<lparr>trust_inbox := dpop k (trust_inbox s1)\<rparr>)"
    using books_kept_ledger [OF b] i by (intro books_kept_inbox) (auto simp: ledger_ok_def)
  show ?case
    using Cons.IH [OF Cons.prems(1)] Cons.IH [OF books_kept_ledger [OF b2]] Cons.prems(2) kr v r
      books_kept_trans [OF books_kept_trans [OF b b2]]
    by auto
qed

subsection \<open>Credits\<close>

lemma book_credit_books:
  assumes "ledger_ok a s" "dget (credit_money s) w = Some m" "0 \<le> amount"
  shows "ledger_ok a (book_credit w amount m s)" "stripe_events (book_credit w amount m s) = stripe_events s"
    "trust_inbox (book_credit w amount m s) = trust_inbox s"
    "principal w' (book_credit w amount m s) = principal w' s + (if w' = w then amount else 0)"
proof -
  define repaid where "repaid = min (max amount 0) (max (- available m) 0)"
  obtain left evs where r: "repay_claims (owing_rows w s) (amount - repaid) (trust_events s) = (left, evs)"
    by (cases "repay_claims (owing_rows w s) (amount - repaid) (trust_events s)")
  have "0 \<le> amount - repaid" using assms(3) by (simp add: repaid_def)
  with repay_claims_post [OF owing_claims_ok, of a s "amount - repaid" w] assms(1) r
  have post: "claims_post a w (amount - repaid) (trust_events s) (left, evs)" by (simp add: ledger_ok_def)
  have b: "book_credit w amount m s = s\<lparr>trust_events := evs,
      credit_money := dset w (m\<lparr>cm_credits := cm_credits m + repaid + left\<rparr>) (credit_money s)\<rparr>"
    using r by (simp add: book_credit_def Let_def repaid_def)
  show "ledger_ok a (book_credit w amount m s)"
    using post unfolding b claims_post_def by (intro ledger_ok_step [OF assms(1)]) simp_all
  show "stripe_events (book_credit w amount m s) = stripe_events s"
    "trust_inbox (book_credit w amount m s) = trust_inbox s" by (simp_all add: b)
  show "principal w' (book_credit w amount m s) = principal w' s + (if w' = w then amount else 0)"
    using post assms(2) by (simp add: b principal_def claims_post_def)
qed

lemma payment_or_grant_event_row:
  assumes "payment_or_grant_event w i amount p now pa cur = Inr t" "0 \<le> amount"
  shows "te_workspace_id t = w" "row_ok t" "te_kind t = ''payment'' \<or> te_kind t = ''grant''"
    "oint (te_recovered t) = 0" "te_kind t = ''payment'' \<longleftrightarrow> is_payment_provider (cp_provider p)"
  using assms
  by (auto simp: payment_or_grant_event_def Let_def row_ok_def split: sum.splits if_splits)

lemma system_grant_event:
  "\<exists>t. payment_or_grant_event w i n (system_grant now) now None None = Inr t \<and> te_kind t = ''grant''"
proof -
  have v: "validate_credit_provenance (system_grant now) = Inr ()" "\<not> is_payment_provider ''system''"
    by (simp_all add: validate_credit_provenance_def system_grant_def PAYMENT_SOURCES_def TRUST_EVENT_PROVIDERS_def
        is_payment_provider_def py_strip_def py_space_def Let_def)
  show ?thesis using v by (simp add: payment_or_grant_event_def system_grant_def Let_def)
qed

lemma recover_released_books:
  assumes "ledger_ok a s" "dget (credit_money s) w = Some m"
  shows "\<exists>s'. recover_released_credit w s = (Inr (), s') \<and> books_kept a s s' \<and>
    reservations s' = reservations s \<and> (\<exists>m'. dget (credit_money s') w = Some m' \<and>
      cm_reserved m' = cm_reserved m \<and> cm_usage m' = cm_usage m \<and> min 0 (available m) \<le> available m')"
proof -
  define free where "free = max 0 (available m)"
  obtain left evs where r: "recover_claims (owing_rows w s) free (trust_events s) = (left, evs)"
    by (cases "recover_claims (owing_rows w s) free (trust_events s)")
  with recover_claims_post [OF owing_claims_ok, of a s free w] assms(1)
  have post: "claims_post a w free (trust_events s) (left, evs)" by (simp add: ledger_ok_def free_def)
  let ?s = "s\<lparr>trust_events := evs, credit_money := dset w (m\<lparr>cm_credits := cm_credits m - (free - left)\<rparr>) (credit_money s)\<rparr>"
  have run: "recover_released_credit w s = (Inr (), sync_principal_recovery_pause w ?s)"
    using assms(2) r by (simp add: recover_released_credit_def free_def)
  have l: "ledger_ok a ?s"
    using post unfolding claims_post_def by (intro ledger_ok_step [OF assms(1)]) simp_all
  have "principal w' ?s = principal w' s" for w'
    using post assms(2) by (simp add: principal_def claims_post_def)
  then have "books_kept a s (sync_principal_recovery_pause w ?s)" using l by (simp add: books_kept_def)
  then show ?thesis using run post by (auto simp: claims_post_def available_def free_def)
qed

lemma write_payment_books:
  assumes "ledger_ok a s" "row_ok t" "te_workspace_id t = w" "\<not> a i" "dget (credit_money s) w \<noteq> None"
    "oint (te_recovered t) = 0" "i \<notin> stripe_events s"
  defines "s' \<equiv> s\<lparr>stripe_events := insert i (stripe_events s), trust_events := dset (w, i) t (trust_events s)\<rparr>"
  shows "ledger_ok a s'" "principal w' s' = principal w' s"
proof -
  have "events_ok a (dset (w, i) t (trust_events s))"
    using assms(1-4) by (intro events_ok_dset) (simp_all add: ledger_ok_def entry_ok_def)
  moreover have "payments_known s'"
    unfolding payments_known_def
  proof (intro allI impI)
    fix k w'
    assume "payment_entry k w' (trust_events s')"
    then have "payment_entry k w' (trust_events s) \<or> k = (w, i) \<and> w' = w"
      using payment_entry_dset [of k w' "(w, i)" t "trust_events s"] assms(3) by (auto simp: s'_def)
    then show "dget (credit_money s') w' \<noteq> None \<and> snd k \<in> stripe_events s'"
      using assms(1,5) payments_knownD [of s k w'] by (auto simp: s'_def ledger_ok_def)
  qed
  ultimately show "ledger_ok a s'" using assms(1) by (simp add: s'_def ledger_ok_def)
  have "te_kind old \<noteq> ''payment''" if "dget (trust_events s) (w, i) = Some old" for old
    using assms(1,7) payments_knownD [OF _ payment_entry_dget [OF that]] by (auto simp: ledger_ok_def)
  then show "principal w' s' = principal w' s"
    using assms(6) unfolding s'_def
    by (cases "dget (trust_events s) (w, i)") (simp_all add: principal_def dsum_dset recovered_in_def)
qed

lemma credit_cases:
  assumes "credit_workspace_typed_direct q now s = (res, s')"
  obtains (same) "s' = s" "res \<noteq> Inr True"
  | (dup) "res = Inr False" "s' = s\<lparr>stripe_events := insert (cq_event_id q) (stripe_events s)\<rparr>"
  | (new) m t where "cq_event_id q \<notin> stripe_events s" "dget (credit_money s) (cq_workspace_id q) = Some m"
      "payment_or_grant_event (cq_workspace_id q) (cq_event_id q) (cq_amount q) (cq_provenance q) now
         (cq_payment_amount q) (cq_currency q) = Inr t"
      "accept_credit q now m t s = (res, s')"
proof (cases "owner_mismatch (cq_workspace_id q) (cq_required_owner_user_id q) s \<or> cq_event_id q \<in> stripe_events s \<or>
    dget (credit_money s) (cq_workspace_id q) = None")
  case True
  then have "credit_workspace_typed_direct q now s \<in>
      {(Inl (ValueError ''credit_workspace_owner_mismatch''), s), (Inr False, s), (Inl (ValueError ''credit_account_not_found''), s)}"
    by (elim disjE) (simp_all add: credit_workspace_typed_direct_def Let_def)
  then show thesis using assms same by auto
next
  case False
  then obtain m where m: "dget (credit_money s) (cq_workspace_id q) = Some m" by auto
  let ?t = "payment_or_grant_event (cq_workspace_id q) (cq_event_id q) (cq_amount q) (cq_provenance q) now
    (cq_payment_amount q) (cq_currency q)"
  have run: "credit_workspace_typed_direct q now s = (case ?t of Inl err \<Rightarrow> (Inl err, s)
      | Inr t \<Rightarrow> if te_kind t = ''payment'' \<and> list_ex (same_payment t) (dvals (trust_events s))
          then (Inr False, s\<lparr>stripe_events := insert (cq_event_id q) (stripe_events s)\<rparr>)
          else accept_credit q now m t s)"
    using False m by (simp add: credit_workspace_typed_direct_def Let_def)
  show thesis
  proof (cases ?t)
    case (Inl err)
    then show thesis using run assms same by simp
  next
    case (Inr t)
    then show thesis using run assms dup new [OF _ m Inr] False by (simp split: if_splits)
  qed
qed

lemma accept_credit_books:
  assumes "ledger_ok a s" "\<not> a (cq_event_id q)" "0 \<le> cq_amount q" "cq_event_id q \<notin> stripe_events s"
    and "dget (credit_money s) (cq_workspace_id q) = Some m"
    and "payment_or_grant_event (cq_workspace_id q) (cq_event_id q) (cq_amount q) (cq_provenance q) now pa cur = Inr t"
  shows "\<exists>s'. accept_credit q now m t s = (Inr True, s') \<and> ledger_ok a s' \<and>
    stripe_events s' = insert (cq_event_id q) (stripe_events s) \<and>
    (\<forall>w. principal w s' = principal w s + (if w = cq_workspace_id q then cq_amount q else 0))"
proof -
  let ?w = "cq_workspace_id q" and ?i = "cq_event_id q"
  define s1 where "s1 = s\<lparr>stripe_events := insert ?i (stripe_events s), trust_events := dset (?w, ?i) t (trust_events s)\<rparr>"
  define s2 where "s2 = sync_principal_recovery_pause ?w (book_credit ?w (cq_amount q) m s1)"
  note t = payment_or_grant_event_row [OF assms(6,3)]
  have b1: "ledger_ok a s1" "\<And>w. principal w s1 = principal w s"
    using write_payment_books [OF assms(1) t(2,1) assms(2) _ t(4) assms(4)] assms(5) by (simp_all add: s1_def)
  have "dget (credit_money s1) ?w = Some m" using assms(5) by (simp add: s1_def)
  note b2 = book_credit_books [OF b1(1) this assms(3)]
  have l2: "ledger_ok a s2" "stripe_events s2 = insert ?i (stripe_events s)"
    "\<And>w. principal w s2 = principal w s + (if w = ?w then cq_amount q else 0)"
    using b1(2) b2 by (simp_all add: s2_def s1_def)
  have "\<forall>kr \<in> set (inbox_order s2). inbox_ok a (snd kr)"
    using l2(1) by (auto simp: ledger_ok_def inbox_order_def)
  from drain_inbox_books [OF l2(1) this, of "cq_provenance q" now] obtain s3
    where d: "drain_inbox (cq_provenance q) now (inbox_order s2) s2 = (Inr (), s3)" and k: "books_kept a s2 s3" by blast
  have "accept_credit q now m t s = (Inr True, add_topup (cq_lifetime_topup_user_id q) (cq_amount q) s3)"
    using d by (simp add: accept_credit_def Let_def s1_def s2_def)
  moreover have "ledger_ok a (add_topup u x s3) = ledger_ok a s3" "stripe_events (add_topup u x s3) = stripe_events s3"
    "principal w (add_topup u x s3) = principal w s3" for u x w
    by (simp_all add: add_topup_def ledger_ok_def payments_known_def principal_def split: option.split)
  ultimately show ?thesis using k l2 by (simp add: books_kept_def)
qed

lemma credit_books:
  assumes "ledger_ok a s" "\<not> a (cq_event_id q)" "0 \<le> cq_amount q"
    and "credit_workspace_typed_direct q now s = (res, s')"
  shows "ledger_ok a s'"
    "res = Inr True \<Longrightarrow> cq_event_id q \<notin> stripe_events s \<and> stripe_events s' = insert (cq_event_id q) (stripe_events s) \<and>
       (\<forall>w. principal w s' = principal w s + (if w = cq_workspace_id q then cq_amount q else 0))"
    "res \<noteq> Inr True \<Longrightarrow> principal w s' = principal w s"
  using assms(4)
  by (cases rule: credit_cases;
      use assms(1) accept_credit_books [OF assms(1-3)] in \<open>fastforce simp: ledger_ok_def payments_known_def principal_def\<close>)+

lemma credit_replay:
  assumes "cq_event_id q \<in> stripe_events s"
  shows "snd (credit_workspace_typed_direct q now s) = s" "fst (credit_workspace_typed_direct q now s) \<noteq> Inr True"
  using assms by (simp_all add: credit_workspace_typed_direct_def Let_def)

subsection \<open>Debits, transfers and federated usage\<close>

lemma debit_cases:
  assumes "debit_workspace_guarded w amount i kind cm au now s = (res, s')"
  obtains (same) "s' = s" "res \<noteq> Inr ''accepted''"
  | (accepted) m where "res = Inr ''accepted''" "0 < amount" "i \<notin> stripe_events s" "dget (credit_money s) w = Some m"
      "amount \<le> available m" "credit_money s' = dset w (m\<lparr>cm_credits := cm_credits m - amount\<rparr>) (credit_money s)"
      "stripe_events s' = insert i (stripe_events s)" "trust_events s' = trust_events s"
      "trust_inbox s' = trust_inbox s" "reservations s' = reservations s"
      "\<exists>mv. dget (credit_movements s') (w, i) = Some mv \<and> mv_amount mv = - amount"
  using assms
  by (auto simp: debit_workspace_guarded_def movement_def split: if_splits option.splits)

lemma transfer_cases:
  assumes "transfer_workspace_credits x y amount i cap now s = (res, s')"
  obtains (same) "s' = s" "\<And>mv. res \<noteq> Inr (''accepted'', mv)"
  | (accepted) sm sw where "0 < amount" "dget (credit_money s) x = Some sm" "amount \<le> available sm"
      "dget (credit_money s) y \<noteq> None" "dget (workspaces s) x = Some sw" "ws_billing_pause_causes sw = []"
      "dget_or 0 (user_transfer_daily s) (ws_owner_user_id sw, utc_day now) + amount \<le> cap"
      "accept_transfer x y amount i (ws_owner_user_id sw, utc_day now) now sm s = (res, s')"
  using assms unfolding transfer_workspace_credits_def Let_def
  by (auto split: if_splits option.splits)

lemma accept_transfer_frame:
  assumes "accept_transfer x y amount i c now sm s = (res, s')"
  shows "trust_events s' = trust_events s" "stripe_events s' = stripe_events s" "trust_inbox s' = trust_inbox s"
    "workspaces s' = workspaces s" "reservations s' = reservations s"
    "\<exists>out. res = Inr (''accepted'', Some out) \<and> mv_kind out = ''user_transfer_out'' \<and> mv_amount out = - amount"
    "user_transfer_daily s' = dset c (dget_or 0 (user_transfer_daily s) c + amount) (user_transfer_daily s)"
  using assms by (auto simp: accept_transfer_def Let_def movement_def)

lemma accept_transfer_money:
  assumes "accept_transfer x y amount i c now sm s = (res, s')"
    and "dget (credit_money s) x = Some sm" "dget (credit_money s) y \<noteq> None"
  shows "dsum cm_credits (credit_money s') = dsum cm_credits (credit_money s)"
    "x \<noteq> y \<Longrightarrow> dget (credit_money s') x = Some (sm\<lparr>cm_credits := cm_credits sm - amount\<rparr>)"
    "x = y \<Longrightarrow> dget (credit_money s') x = Some sm"
    "w \<notin> {x, y} \<Longrightarrow> dget (credit_money s') w = dget (credit_money s) w"
  using assms by (auto simp: accept_transfer_def Let_def dsum_dset)

lemma federated_cases:
  assumes "apply_federated_usage p i w cost cap now s = (res, s')"
  obtains (same) "s' = s" "res \<noteq> Inr ''applied''"
  | (applied) "res = Inr ''applied''" "0 < cost" "dget (federated_settlement_claims s) (p, i) = None"
      "dget (federated_settlement_claims s') (p, i) = Some \<lparr>sc_workspace_id = w, sc_cost = cost\<rparr>"
      "federated_settlement_claims s' = dset (p, i) \<lparr>sc_workspace_id = w, sc_cost = cost\<rparr> (federated_settlement_claims s)"
      "dget (federated_settlement_windows s') (p, w, utc_day now) =
         Some (dget_or 0 (federated_settlement_windows s) (p, w, utc_day now) + cost)"
      "dget_or 0 (federated_settlement_windows s) (p, w, utc_day now) + cost \<le> cap"
      "credit_money s' = dset w (let m = dget_or (new_credit_money 0) (credit_money s) w in m\<lparr>cm_usage := cm_usage m + cost\<rparr>) (credit_money s)"
      "trust_events s' = trust_events s" "stripe_events s' = stripe_events s" "trust_inbox s' = trust_inbox s"
  using assms
  by (auto simp: apply_federated_usage_def Let_def split: if_splits option.splits)

subsection \<open>Pauses\<close>

lemma sync_pause_exact:
  assumes "dget (workspaces (sync_principal_recovery_pause w s)) w = Some ws"
  shows "''principal_recovery'' \<in> set (ws_billing_pause_causes ws) \<longleftrightarrow> (\<exists>row \<in> set (dvals (trust_events s)). owes w row)"
    and "pause_coherent ws"
  using assms
  by (auto simp: sync_principal_recovery_pause_def Let_def set_pause_causes_def pause_coherent_def list_ex_iff
      split: option.splits if_splits)

subsection \<open>Operations that leave the credits alone\<close>

lemma books_kept_money:
  assumes "ledger_ok a s" "trust_events s' = trust_events s" "trust_inbox s' = trust_inbox s"
    and "stripe_events s' = stripe_events s"
    and "\<And>w. map_option cm_credits (dget (credit_money s') w) = map_option cm_credits (dget (credit_money s) w)"
  shows "books_kept a s s'"
proof -
  have d: "dget (credit_money s') w = None \<longleftrightarrow> dget (credit_money s) w = None" for w
    using assms(5) [of w] by (metis option.map_disc_iff)
  have c: "dcell cm_credits (dget (credit_money s') w) = dcell cm_credits (dget (credit_money s) w)" for w
    using assms(5) [of w] by (auto simp: dcell_def split: option.splits)
  have "ledger_ok a s'" using assms d by (intro ledger_ok_step [OF assms(1)]) (simp_all add: ledger_ok_def)
  then show ?thesis using assms c by (simp add: books_kept_def principal_def)
qed

lemma keys_ops_books:
  assumes "ledger_ok a s"
  shows "books_kept a s (snd (keys_refund rid s))" "books_kept a s (snd (keys_settle rid n s))"
    "books_kept a s (snd (keys_reserve w k n ik fresh now s))"
  by (rule books_kept_money [OF assms];
      simp add: keys_refund_def keys_settle_def keys_reserve_def Let_def split: option.split)+

lemma recover_released_frame [simp]:
  "reservations (snd (recover_released_credit w s)) = reservations s"
  "paused_authorizations (snd (recover_released_credit w s)) = paused_authorizations s"
  "trust_armed (snd (recover_released_credit w s)) = trust_armed s"
  by (simp_all add: recover_released_credit_def Let_def split: option.split prod.split)

lemma refund_limit_frame [simp]:
  "reservations (refund_limit h n s) = reservations s" "credit_money (refund_limit h n s) = credit_money s"
  by (simp_all add: refund_limit_def split: option.split)

definition open_from :: "store \<Rightarrow> store \<Rightarrow> bool" where
  "open_from s s' \<longleftrightarrow> (\<forall>rid r. dget (reservations s') rid = Some r \<and> \<not> rv_settled r \<longrightarrow> dget (reservations s) rid = Some r)"

lemma open_from_refl [simp]: "open_from s s"
  by (simp add: open_from_def)

lemma store_refund_open: "open_from s (snd (store_refund rid s))"
proof -
  obtain r1 s1 where k: "keys_refund rid s = (r1, s1)" by (cases "keys_refund rid s")
  have "open_from s s1" using k by (auto simp: open_from_def keys_refund_def split: option.splits if_splits)
  moreover have "reservations (snd (store_refund rid s)) = reservations s1"
    unfolding store_refund_def k by (cases r1; cases "dget (reservations s1) rid") simp_all
  ultimately show ?thesis by (simp add: open_from_def)
qed

lemma reject_paused_refuses:
  "is_ok (fst (reject_paused w k ik hold s)) = False" "open_from s (snd (reject_paused w k ik hold s))"
proof -
  define refunded where "refunded = (case ik of None \<Rightarrow> (Inr (), s)
    | Some i \<Rightarrow> (case find_reservation w k i s of None \<Rightarrow> (Inr (), s) | Some existing \<Rightarrow> store_refund (rv_id existing) s))"
  have o: "open_from s (snd refunded)"
    unfolding refunded_def using store_refund_open [of s] open_from_refl [of s]
    by (cases ik) (simp_all split: option.split)
  obtain rr s1 where r: "refunded = (rr, s1)" by (cases refunded)
  have run: "reject_paused w k ik hold s = (case rr of Inl err \<Rightarrow> (Inl err, s1)
    | Inr _ \<Rightarrow> (Inl BillingPausedError, refund_limit k hold (case ik of None \<Rightarrow> s1
        | Some i \<Rightarrow> s1\<lparr>paused_authorizations := insert (w, k, i) (paused_authorizations s1)\<rparr>)))"
    unfolding reject_paused_def Let_def refunded_def [symmetric] r by (cases rr) simp_all
  show "is_ok (fst (reject_paused w k ik hold s)) = False"
    unfolding run by (cases rr) simp_all
  show "open_from s (snd (reject_paused w k ik hold s))"
    using o unfolding run r by (cases rr; cases ik) (simp_all add: open_from_def)
qed

section \<open>Properties\<close>

definition demo_store :: "bool \<Rightarrow> store" where
  "demo_store armed = (init_store armed)
     \<lparr>credit_money := [(''w'', new_credit_money 100), (''v'', new_credit_money 5)],
      workspaces := [(''w'', new_workspace ''w'' ''W'' ''u'' 0), (''v'', new_workspace ''v'' ''V'' ''u2'' 0)]\<rparr>"

definition demo_adverse_id :: "string \<Rightarrow> bool" where
  "demo_adverse_id i \<longleftrightarrow> startswith ''trust:'' i"

definition demo_credit :: credit_request where
  "demo_credit = \<lparr>cq_workspace_id = ''w'', cq_amount = 900, cq_event_id = ''evt_1'',
     cq_provenance = \<lparr>cp_source = ''checkout'', cp_provider = ''stripe'', cp_external_ref = Some ''pi_1'', cp_occurred_at = 0\<rparr>,
     cq_payment_amount = Some 1000, cq_currency = Some ''usd'', cq_lifetime_topup_user_id = Some ''u'',
     cq_required_owner_user_id = None\<rparr>"

definition demo_paid :: store where
  "demo_paid = snd (credit_workspace_typed_direct demo_credit 0 (demo_store True))"

definition demo_refund_event :: adverse_trust_event where
  "demo_refund_event = (demo_adverse ''succeeded'' ''9'')\<lparr>av_event_id := ''trust:stripe:re_1''\<rparr>"

lemma demo_ledger_ok: "ledger_ok demo_adverse_id (demo_store armed)"
  by (simp add: ledger_ok_def events_ok_def payments_known_def payment_entry_def demo_store_def init_store_def)

text \<open>C14. A credit is booked exactly once.  When a credit is accepted its event id was new, the
  principal of its workspace (spendable credits plus what its payments already gave back) grows by
  exactly the amount, no other workspace's principal changes, and the recovery books stay coherent;
  every later credit with that event id, whatever else it carries, changes nothing and is not
  accepted.\<close>

theorem credit_exactly_once:
  assumes "ledger_ok adverse_id s" "\<not> adverse_id (cq_event_id q)" "0 \<le> cq_amount q"
    and "credit_workspace_typed_direct q now s = (Inr True, s')"
  shows "cq_event_id q \<notin> stripe_events s \<and> ledger_ok adverse_id s' \<and>
    (\<forall>w. principal w s' = principal w s + (if w = cq_workspace_id q then cq_amount q else 0)) \<and>
    (\<forall>q' now'. cq_event_id q' = cq_event_id q \<longrightarrow>
       snd (credit_workspace_typed_direct q' now' s') = s' \<and> fst (credit_workspace_typed_direct q' now' s') \<noteq> Inr True)"
  using credit_books [OF assms] credit_replay by simp

theorem credit_exactly_once_witness:
  "credit_workspace_typed_direct demo_credit 0 (demo_store True) = (Inr True, demo_paid) \<and>
   principal ''w'' demo_paid = 1000 \<and>
   snd (credit_workspace_typed_direct demo_credit 5 demo_paid) = demo_paid"
proof -
  have "fst (credit_workspace_typed_direct demo_credit 0 (demo_store True)) = Inr True" by code_simp
  then have c: "credit_workspace_typed_direct demo_credit 0 (demo_store True) = (Inr True, demo_paid)"
    by (simp add: demo_paid_def prod_eq_iff)
  have n: "\<not> demo_adverse_id (cq_event_id demo_credit)" "0 \<le> cq_amount demo_credit" by code_simp+
  have "principal ''w'' (demo_store True) = 100" by code_simp
  then show ?thesis using credit_exactly_once [OF demo_ledger_ok n c] c by (simp add: demo_credit_def)
qed

text \<open>C15. Recording a refund or dispute never fails and never creates or destroys money: on a
  coherent ledger every valid adverse event is recorded without an exception (the runtime invariant
  check of the recovery code never fires), the books stay coherent, and the principal of every
  workspace is unchanged, since what is taken from the spendable credits is booked as recovered and
  what is given back is taken from it.\<close>

theorem adverse_event_conserves_principal:
  assumes "ledger_ok adverse_id s" "is_ok (validate_adverse_event e)" "adverse_id (av_event_id e)"
  shows "is_ok (fst (record_adverse_trust_event digest e now s)) \<and>
    ledger_ok adverse_id (snd (record_adverse_trust_event digest e now s)) \<and>
    (\<forall>w. principal w (snd (record_adverse_trust_event digest e now s)) = principal w s)"
  using record_adverse_books [where a = adverse_id and dg = digest and now = now, OF assms]
  by (auto simp: books_kept_def)

theorem adverse_event_conserves_principal_witness:
  "is_ok (fst (record_adverse_trust_event (\<lambda>_. ''d'') demo_refund_event 7 (demo_store True))) \<and>
   principal ''w'' (snd (record_adverse_trust_event (\<lambda>_. ''d'') demo_refund_event 7 (demo_store True))) = 100"
proof -
  have v: "is_ok (validate_adverse_event demo_refund_event)" "demo_adverse_id (av_event_id demo_refund_event)" by code_simp+
  have "principal ''w'' (demo_store True) = 100" by code_simp
  then show ?thesis using adverse_event_conserves_principal [OF demo_ledger_ok v] by simp
qed

text \<open>A guarded debit never overdraws and never applies twice: an accepted debit needed the
  whole amount available, leaves exactly the difference available (not negative) and writes the
  movement; with the same event id it is then a duplicate; and whatever is not accepted leaves the
  store unchanged.\<close>

theorem guarded_debit_sound:
  assumes "debit_workspace_guarded w amount event_id kind model auth now s = (res, s')"
  shows "if res = Inr ''accepted''
    then (\<exists>m m' mv. dget (credit_money s) w = Some m \<and> dget (credit_money s') w = Some m' \<and>
        available m' = available m - amount \<and> 0 \<le> available m' \<and> 0 < amount \<and>
        dget (credit_movements s') (w, event_id) = Some mv \<and> mv_amount mv = - amount) \<and>
      (\<forall>w' amount' kind' model' auth' now'. 0 < amount' \<longrightarrow>
        debit_workspace_guarded w' amount' event_id kind' model' auth' now' s' = (Inr ''duplicate'', s'))
    else s' = s"
  using assms
  by (cases rule: debit_cases) (auto simp: available_def debit_workspace_guarded_def)

theorem guarded_debit_sound_witness:
  "(\<exists>m'. dget (credit_money (snd (debit_workspace_guarded ''w'' 60 ''d1'' ''purchase'' None None 0 (demo_store True)))) ''w'' = Some m' \<and>
     0 \<le> available m')"
proof -
  obtain res s' where c: "debit_workspace_guarded ''w'' 60 ''d1'' ''purchase'' None None 0 (demo_store True) = (res, s')"
    by (cases "debit_workspace_guarded ''w'' 60 ''d1'' ''purchase'' None None 0 (demo_store True)")
  have "fst (debit_workspace_guarded ''w'' 60 ''d1'' ''purchase'' None None 0 (demo_store True)) = Inr ''accepted''" by code_simp
  then have "res = Inr ''accepted''" using c by simp
  then show ?thesis using guarded_debit_sound [OF c] c by auto
qed

text \<open>A transfer between two workspaces conserves credit: the sum of all workspaces' credits is
  unchanged whatever the outcome; an accepted transfer needed the amount available at the sender and
  kept the owner's daily total within the cap; and every other outcome leaves the store unchanged.\<close>

theorem transfer_conserves_credit:
  assumes "transfer_workspace_credits sender recipient amount transfer_id cap now s = (res, s')"
  shows "dsum cm_credits (credit_money s') = dsum cm_credits (credit_money s) \<and>
    (s' = s \<or> (\<exists>m ws. dget (credit_money s) sender = Some m \<and> 0 < amount \<and> amount \<le> available m \<and>
       dget (workspaces s) sender = Some ws \<and> ws_billing_pause_causes ws = [] \<and>
       (\<exists>total. dget (user_transfer_daily s') (ws_owner_user_id ws, utc_day now) = Some total \<and> total \<le> cap)))"
  using assms
proof (cases rule: transfer_cases)
  case (accepted sm sw)
  then show ?thesis using accept_transfer_frame [OF accepted(8)] accept_transfer_money [OF accepted(8) accepted(2,4)]
    by auto
qed simp

theorem transfer_conserves_credit_witness:
  "dsum cm_credits (credit_money (snd (transfer_workspace_credits ''w'' ''v'' 40 ''t1'' 1000 0 (demo_store True)))) = 105 \<and>
   fst (snd (the (case fst (transfer_workspace_credits ''w'' ''v'' 40 ''t1'' 1000 0 (demo_store True)) of Inr x \<Rightarrow> Some (0::nat, x) | _ \<Rightarrow> None))) = ''accepted''"
proof -
  obtain res s' where c: "transfer_workspace_credits ''w'' ''v'' 40 ''t1'' 1000 0 (demo_store True) = (res, s')"
    by (cases "transfer_workspace_credits ''w'' ''v'' 40 ''t1'' 1000 0 (demo_store True)")
  have "fst (snd (the (case fst (transfer_workspace_credits ''w'' ''v'' 40 ''t1'' 1000 0 (demo_store True)) of Inr x \<Rightarrow> Some (0::nat, x) | _ \<Rightarrow> None))) = ''accepted''"
    by code_simp
  moreover have "dsum cm_credits (credit_money (demo_store True)) = 105" by code_simp
  ultimately show ?thesis using transfer_conserves_credit [OF c] c by simp
qed

text \<open>Usage that another plane reports is booked at most once and within the daily cap: an applied
  report had no earlier claim, only raises the workspace's usage, and keeps that plane's daily total
  for the workspace within the cap; afterwards the same report is recognised and any other terms
  under its id conflict, both without any change.\<close>

theorem federated_usage_once:
  assumes "apply_federated_usage plane auth w cost cap now s = (Inr ''applied'', s')"
  shows "dget (federated_settlement_claims s) (plane, auth) = None \<and> 0 < cost \<and>
    dcell cm_usage (dget (credit_money s') w) = dcell cm_usage (dget (credit_money s) w) + cost \<and>
    dcell cm_credits (dget (credit_money s') w) = dcell cm_credits (dget (credit_money s) w) \<and>
    (\<exists>total. dget (federated_settlement_windows s') (plane, w, utc_day now) = Some total \<and> total \<le> cap) \<and>
    (\<forall>w' cost' cap' now'. 0 < cost' \<longrightarrow>
       apply_federated_usage plane auth w' cost' cap' now' s' =
         (Inr (if w' = w \<and> cost' = cost then ''already'' else ''conflict''), s'))"
  using assms
proof (cases rule: federated_cases)
  case applied
  then show ?thesis
    by (cases "dget (credit_money s) w") (auto simp: dget_or_def new_credit_money_def Let_def apply_federated_usage_def)
qed simp

theorem federated_usage_once_witness:
  "\<exists>s'. apply_federated_usage ''eu'' ''a1'' ''w'' 30 100 0 (demo_store True) = (Inr ''applied'', s') \<and>
     apply_federated_usage ''eu'' ''a1'' ''w'' 30 100 9 s' = (Inr ''already'', s')"
proof -
  have "fst (apply_federated_usage ''eu'' ''a1'' ''w'' 30 100 0 (demo_store True)) = Inr ''applied''" by code_simp
  then obtain s' where c: "apply_federated_usage ''eu'' ''a1'' ''w'' 30 100 0 (demo_store True) = (Inr ''applied'', s')"
    by (cases "apply_federated_usage ''eu'' ''a1'' ''w'' 30 100 0 (demo_store True)") simp
  show ?thesis using federated_usage_once [OF c] c by simp
qed

text \<open>A paused workspace gets no new hold: while the trust programme is armed and the workspace is
  paused, reserve raises, and every reservation that is still open afterwards was already in the
  store.\<close>

theorem paused_reserve_refused:
  assumes "trust_armed s" "legacy_paused w s"
  shows "\<not> is_ok (fst (store_reserve w key_hash amount ik key_reserved fresh now s)) \<and>
    (\<forall>rid r. dget (reservations (snd (store_reserve w key_hash amount ik key_reserved fresh now s))) rid = Some r \<and>
       \<not> rv_settled r \<longrightarrow> dget (reservations s) rid = Some r)"
  using assms reject_paused_refuses [where w = w and k = key_hash and ik = ik and s = s]
  unfolding open_from_def by (simp add: store_reserve_def Let_def)

definition demo_paused :: store where
  "demo_paused = (demo_store True)\<lparr>workspaces :=
     [(''w'', set_pause_causes [''abuse''] (new_workspace ''w'' ''W'' ''u'' 0))]\<rparr>"

theorem paused_reserve_refused_witness:
  "\<not> is_ok (fst (store_reserve ''w'' ''k'' 10 (Some ''i'') None ''r1'' 0 demo_paused)) \<and>
   trust_armed demo_paused \<and> legacy_paused ''w'' demo_paused"
proof -
  have c: "trust_armed demo_paused" "legacy_paused ''w'' demo_paused" by code_simp+
  show ?thesis using paused_reserve_refused [OF c, of "''k''" 10 "Some ''i''" None "''r1''" 0] c by simp
qed

end
