(* ===== verification/Credit_Transfer.thy ===== *)
theory Credit_Transfer
  imports Credit_Ledger
begin

text \<open>
  Cross-plane credit transfer: \<open>src/src/trusted_router/credit_transfer.py\<close> (states, validation, the
  matching of reused ids), the transfer operations of the store (\<open>storage.py\<close>, lines 3127 to
  3292), the client and the push, cancel and recover drivers of \<open>services/credit_transfer.py\<close>, and
  the destination's route (\<open>routes/internal/federation.py\<close>).

  The network is an argument: \<open>net\<close> says for one delivery whether the request or the reply is lost.
  The world of two planes, in which requests and replies may also be delayed, duplicated and
  reordered, is the last part.
\<close>

section \<open>States, outcomes and validation\<close>

definition ESCROWED :: string where "ESCROWED = ''escrowed''"
definition DELIVERED :: string where "DELIVERED = ''delivered''"
definition RETURNED :: string where "RETURNED = ''returned''"
definition ACCEPTED :: string where "ACCEPTED = ''accepted''"
definition REJECTED :: string where "REJECTED = ''rejected''"

lemma transfer_states_distinct [simp]:
  "ESCROWED \<noteq> DELIVERED" "ESCROWED \<noteq> RETURNED" "DELIVERED \<noteq> RETURNED" "DELIVERED \<noteq> ESCROWED"
  "RETURNED \<noteq> ESCROWED" "RETURNED \<noteq> DELIVERED" "ACCEPTED \<noteq> REJECTED" "REJECTED \<noteq> ACCEPTED"
  by (simp_all add: ESCROWED_def DELIVERED_def RETURNED_def ACCEPTED_def REJECTED_def)

definition STATE_FOR_OUTCOME :: "(string, string) dict" where
  "STATE_FOR_OUTCOME = [(ACCEPTED, DELIVERED), (REJECTED, RETURNED)]"

definition validate_transfer_id :: "string \<Rightarrow> string result" where
  "validate_transfer_id i =
     (let cleaned = py_strip i
      in if cleaned = [] then Inl (ValueError ''transfer_id is required'')
         else if length cleaned > 128 then Inl (ValueError ''transfer_id must be at most 128 characters'')
         else Inr cleaned)"

definition validate_amount :: "int \<Rightarrow> int result" where
  "validate_amount n = (if n \<le> 0 then Inl (ValueError ''amount_microdollars must be positive'') else Inr n)"

definition validate_outcome :: "string \<Rightarrow> string result" where
  "validate_outcome x = (if x \<notin> {ACCEPTED, REJECTED} then Inl (ValueError ''unknown claim outcome'') else Inr x)"

definition require_matching_destination :: "string \<Rightarrow> string \<Rightarrow> unit result" where
  "require_matching_destination held asked =
     (if held \<noteq> [] \<and> asked \<noteq> [] \<and> held \<noteq> asked then Inl DestinationMismatch else Inr ())"

text \<open>\<open>require_matching_transfer\<close>; the counterparty check is the one of the caller's side.\<close>

definition require_matching_terms :: "string \<Rightarrow> string \<Rightarrow> int \<Rightarrow> int \<Rightarrow> unit result" where
  "require_matching_terms held_workspace asked_workspace held_amount asked_amount =
     (if held_workspace \<noteq> asked_workspace \<or> held_amount \<noteq> asked_amount then Inl TransferIdReused else Inr ())"

definition require_matching_open :: "credit_transfer \<Rightarrow> string \<Rightarrow> int \<Rightarrow> string \<Rightarrow> unit result" where
  "require_matching_open existing w amount destination =
     (case require_matching_destination (ct_destination existing) destination of Inl e \<Rightarrow> Inl e
      | Inr _ \<Rightarrow> require_matching_terms (ct_workspace_id existing) w (ct_amount existing) amount)"

definition require_matching_claim :: "transfer_claim \<Rightarrow> string \<Rightarrow> int \<Rightarrow> string \<Rightarrow> unit result" where
  "require_matching_claim recorded w amount source =
     (if cl_source recorded \<noteq> [] \<and> source \<noteq> [] \<and> cl_source recorded \<noteq> source then Inl TransferIdReused
      else require_matching_terms (cl_workspace_id recorded) w (cl_amount recorded) amount)"

section \<open>Operations of the store\<close>

definition open_credit_transfer ::
    "string \<Rightarrow> string \<Rightarrow> int \<Rightarrow> string \<Rightarrow> instant \<Rightarrow> credit_transfer store_op" where
  "open_credit_transfer transfer_id w amount_arg destination now s =
     (case validate_transfer_id transfer_id of Inl e \<Rightarrow> (Inl e, s)
      | Inr i \<Rightarrow>
        (case validate_amount amount_arg of Inl e \<Rightarrow> (Inl e, s)
         | Inr amount \<Rightarrow>
           (case dget (credit_transfers s) i of
              Some existing \<Rightarrow>
                (case require_matching_open existing w amount destination of Inl e \<Rightarrow> (Inl e, s)
                 | Inr _ \<Rightarrow> (Inr existing, s))
            | None \<Rightarrow>
                (case dget (credit_money s) w of None \<Rightarrow> (Inl (ValueError ''insufficient credits''), s)
                 | Some m \<Rightarrow>
                     (if amount > available m then (Inl (ValueError ''insufficient credits''), s)
                      else
                        let t = \<lparr>ct_id = i, ct_workspace_id = w, ct_amount = amount,
                              ct_destination = destination, ct_state = ESCROWED,
                              ct_created_at = iso_now now, ct_resolved_at = None\<rparr>
                        in (Inr t, s\<lparr>credit_money := dset w (m\<lparr>cm_credits := cm_credits m - amount\<rparr>) (credit_money s),
                              credit_transfers := dset i t (credit_transfers s)\<rparr>))))))"

definition get_credit_transfer :: "string \<Rightarrow> store \<Rightarrow> credit_transfer option" where
  "get_credit_transfer i s = dget (credit_transfers s) i"

definition list_open_credit_transfers :: "int \<Rightarrow> string \<Rightarrow> store \<Rightarrow> credit_transfer list" where
  "list_open_credit_transfers limit after_id s =
     take (nat (max 1 (min limit 500)))
       (filter (\<lambda>t. ct_state t = ESCROWED \<and> after_id < ct_id t) (sort_key ct_id (dvals (credit_transfers s))))"

definition resolve_credit_transfer :: "string \<Rightarrow> string \<Rightarrow> instant \<Rightarrow> credit_transfer store_op" where
  "resolve_credit_transfer transfer_id outcome_arg now s =
     (case validate_transfer_id transfer_id of Inl e \<Rightarrow> (Inl e, s)
      | Inr i \<Rightarrow>
        (case validate_outcome outcome_arg of Inl e \<Rightarrow> (Inl e, s)
         | Inr outcome \<Rightarrow>
           (let target_state = the (dget STATE_FOR_OUTCOME outcome)
            in case dget (credit_transfers s) i of None \<Rightarrow> (Inl (KeyError i), s)
             | Some existing \<Rightarrow>
                (if ct_state existing \<noteq> ESCROWED
                 then (if ct_state existing \<noteq> target_state then (Inl CreditTransferConflict, s)
                       else (Inr existing, s))
                 else
                   let resolved = existing\<lparr>ct_state := target_state, ct_resolved_at := Some (iso_now now)\<rparr>;
                       s1 = s\<lparr>credit_transfers := dset i resolved (credit_transfers s)\<rparr>
                   in if outcome = REJECTED
                      then (case dget (credit_money s) (ct_workspace_id existing) of
                              None \<Rightarrow> (Inl (RuntimeError ''missing credit money''), s)
                            | Some m \<Rightarrow> (Inr resolved, s1\<lparr>credit_money :=
                                dset (ct_workspace_id existing)
                                  (m\<lparr>cm_credits := cm_credits m + ct_amount existing\<rparr>) (credit_money s)\<rparr>))
                      else (Inr resolved, s1)))))"

definition claim_credit_transfer ::
    "string \<Rightarrow> string \<Rightarrow> int \<Rightarrow> string \<Rightarrow> bool \<Rightarrow> instant \<Rightarrow> string store_op" where
  "claim_credit_transfer transfer_id w amount_arg source accept now s =
     (case validate_transfer_id transfer_id of Inl e \<Rightarrow> (Inl e, s)
      | Inr i \<Rightarrow>
        (case validate_amount amount_arg of Inl e \<Rightarrow> (Inl e, s)
         | Inr amount \<Rightarrow>
           (let requested = (if accept then ACCEPTED else REJECTED);
                claim = \<lparr>cl_outcome = requested, cl_workspace_id = w, cl_amount = amount,
                         cl_source = source, cl_created_at = iso_now now\<rparr>
            in case dget (credit_transfer_claims s) i of
                 Some recorded \<Rightarrow>
                   (case require_matching_claim recorded w amount source of Inl e \<Rightarrow> (Inl e, s)
                    | Inr _ \<Rightarrow> (Inr (cl_outcome recorded), s))
               | None \<Rightarrow>
                   (if accept
                    then (case dget (credit_money s) w of
                            None \<Rightarrow> (Inl (ValueError ''no credit balance for workspace on this plane''), s)
                          | Some m \<Rightarrow>
                              let s1 = s\<lparr>credit_money := dset w (m\<lparr>cm_credits := cm_credits m + amount\<rparr>) (credit_money s)\<rparr>
                              in case payment_or_grant_event w i amount (system_grant now) now None None of
                                   Inl e \<Rightarrow> (Inl e, s1)
                                 | Inr t \<Rightarrow> (Inr requested,
                                     s1\<lparr>trust_events := dset (w, i) t (trust_events s),
                                       credit_transfer_claims := dset i claim (credit_transfer_claims s)\<rparr>))
                    else (Inr requested,
                      s\<lparr>credit_transfer_claims := dset i claim (credit_transfer_claims s)\<rparr>)))))"

section \<open>The destination's route\<close>

text \<open>A reply is its status code and, for a usable JSON body, the text of its outcome field.\<close>

record claim_request =
  rq_transfer_id :: string
  rq_workspace_id :: string
  rq_amount :: int
  rq_action :: string
  rq_source_plane :: string

datatype http_reply = Http int "string option"

definition status_of_error :: "py_error \<Rightarrow> int" where
  "status_of_error e = (case e of
      CreditTransferConflict \<Rightarrow> 409 | TransferIdReused \<Rightarrow> 409 | DestinationMismatch \<Rightarrow> 409
    | ValueError _ \<Rightarrow> 409 | _ \<Rightarrow> 500)"

definition federation_credit_transfer :: "bool \<Rightarrow> claim_request \<Rightarrow> instant \<Rightarrow> store \<Rightarrow> http_reply \<times> store" where
  "federation_credit_transfer token_ok q now s =
     (if \<not> token_ok then (Http 401 None, s)
      else case validate_transfer_id (rq_transfer_id q) of Inl _ \<Rightarrow> (Http 400 None, s)
      | Inr i \<Rightarrow>
        (case validate_amount (rq_amount q) of Inl _ \<Rightarrow> (Http 400 None, s)
         | Inr amount \<Rightarrow>
           (let action = (if rq_action q = [] then ''accepted'' else rq_action q)
            in if rq_workspace_id q = [] then (Http 400 None, s)
               else if action \<notin> {''accepted'', ''rejected''} then (Http 400 None, s)
               else case claim_credit_transfer i (rq_workspace_id q) amount (rq_source_plane q)
                           (action = ''accepted'') now s of
                   (Inl e, s1) \<Rightarrow> (Http (status_of_error e) None, s1)
                 | (Inr outcome, s1) \<Rightarrow> (Http 200 (Some outcome), s1))))"

section \<open>The client and the drivers\<close>

record transfer_client =
  tc_destination :: string
  tc_source_plane :: string
  tc_token_ok :: bool

datatype net = Arrives | Request_lost | Reply_lost

definition claim_request_of :: "transfer_client \<Rightarrow> credit_transfer \<Rightarrow> bool \<Rightarrow> claim_request" where
  "claim_request_of c t accept = \<lparr>rq_transfer_id = ct_id t, rq_workspace_id = ct_workspace_id t,
     rq_amount = ct_amount t, rq_action = (if accept then ACCEPTED else REJECTED),
     rq_source_plane = tc_source_plane c\<rparr>"

text \<open>How \<open>CreditTransferClient.deliver\<close> reads a reply: anything but a 200 with a known outcome is
  not a verdict.\<close>

definition read_reply :: "http_reply \<Rightarrow> string result" where
  "read_reply r = (case r of Http status outcome \<Rightarrow>
     (if status \<noteq> 200 then Inl CreditTransferUnavailable
      else case outcome of None \<Rightarrow> Inl CreditTransferUnavailable
        | Some x \<Rightarrow> if x \<notin> {ACCEPTED, REJECTED} then Inl CreditTransferUnavailable else Inr x))"

definition deliver :: "transfer_client \<Rightarrow> net \<Rightarrow> credit_transfer \<Rightarrow> bool \<Rightarrow> instant \<Rightarrow> store \<Rightarrow> string result \<times> store" where
  "deliver c n t accept now dst =
     (case n of
        Request_lost \<Rightarrow> (Inl CreditTransferUnavailable, dst)
      | Arrives \<Rightarrow> (case federation_credit_transfer (tc_token_ok c) (claim_request_of c t accept) now dst of
          (r, dst') \<Rightarrow> (read_reply r, dst'))
      | Reply_lost \<Rightarrow> (case federation_credit_transfer (tc_token_ok c) (claim_request_of c t accept) now dst of
          (_, dst') \<Rightarrow> (Inl CreditTransferUnavailable, dst')))"

text \<open>The drivers act on the two stores: this plane's (the source) and the destination's.\<close>

type_synonym planes = "store \<times> store"

definition deliver_and_record ::
    "transfer_client \<Rightarrow> net \<Rightarrow> credit_transfer \<Rightarrow> bool \<Rightarrow> instant \<Rightarrow> planes \<Rightarrow> credit_transfer result \<times> planes" where
  "deliver_and_record c n t accept now p =
     (case deliver c n t accept now (snd p) of
        (Inl e, dst') \<Rightarrow> (Inl e, (fst p, dst'))
      | (Inr outcome, dst') \<Rightarrow>
          (case resolve_credit_transfer (ct_id t) outcome now (fst p) of (r, src') \<Rightarrow> (r, (src', dst'))))"

definition push_credit_transfer ::
    "transfer_client \<Rightarrow> net \<Rightarrow> string \<Rightarrow> string \<Rightarrow> int \<Rightarrow> instant \<Rightarrow> planes \<Rightarrow> credit_transfer result \<times> planes" where
  "push_credit_transfer c n transfer_id w amount now p =
     (case open_credit_transfer transfer_id w amount (tc_destination c) now (fst p) of
        (Inl e, src') \<Rightarrow> (Inl e, (src', snd p))
      | (Inr t, src') \<Rightarrow>
          (if ct_state t \<noteq> ESCROWED then (Inr t, (src', snd p))
           else deliver_and_record c n t True now (src', snd p)))"

definition cancel_credit_transfer ::
    "transfer_client \<Rightarrow> net \<Rightarrow> string \<Rightarrow> instant \<Rightarrow> planes \<Rightarrow> credit_transfer result \<times> planes" where
  "cancel_credit_transfer c n transfer_id now p =
     (case validate_transfer_id transfer_id of Inl e \<Rightarrow> (Inl e, p)
      | Inr i \<Rightarrow>
        (case get_credit_transfer i (fst p) of None \<Rightarrow> (Inl (KeyError i), p)
         | Some t \<Rightarrow>
           (case require_matching_destination (ct_destination t) (tc_destination c) of Inl e \<Rightarrow> (Inl e, p)
            | Inr _ \<Rightarrow>
                (if ct_state t \<noteq> ESCROWED then (Inr t, p)
                 else deliver_and_record c n t False now p))))"

record recovery_counts =
  rc_delivered :: nat
  rc_returned :: nat
  rc_unresolved :: nat
  rc_skipped :: nat
  rc_failed :: nat
  rc_scanned :: nat

fun recover_page :: "transfer_client \<Rightarrow> (string \<Rightarrow> net) \<Rightarrow> instant \<Rightarrow> credit_transfer list \<Rightarrow> recovery_counts \<Rightarrow> planes \<Rightarrow>
    recovery_counts \<times> planes" where
  "recover_page c ns now [] k p = (k, p)"
| "recover_page c ns now (t # ts) k p =
     (if ct_destination t \<noteq> [] \<and> ct_destination t \<noteq> tc_destination c
      then recover_page c ns now ts (k\<lparr>rc_skipped := rc_skipped k + 1\<rparr>) p
      else case deliver_and_record c (ns (ct_id t)) t True now p of
          (Inl CreditTransferUnavailable, p') \<Rightarrow>
            recover_page c ns now ts (k\<lparr>rc_unresolved := rc_unresolved k + 1\<rparr>) p'
        | (Inl _, p') \<Rightarrow> recover_page c ns now ts (k\<lparr>rc_failed := rc_failed k + 1\<rparr>) p'
        | (Inr t', p') \<Rightarrow>
            (if ct_state t' = DELIVERED
             then recover_page c ns now ts (k\<lparr>rc_delivered := rc_delivered k + 1\<rparr>) p'
             else recover_page c ns now ts (k\<lparr>rc_returned := rc_returned k + 1\<rparr>) p'))"

lemma recover_page_scanned [simp]: "rc_scanned (fst (recover_page c ns now ts k p)) = rc_scanned k"
  by (induction c ns now ts k p rule: recover_page.induct) (auto split: prod.split sum.split py_error.split)

text \<open>Every page that is not empty adds to the count of scanned rows, so the walk ends.\<close>

function recover_walk :: "transfer_client \<Rightarrow> (string \<Rightarrow> net) \<Rightarrow> instant \<Rightarrow> int \<Rightarrow> nat \<Rightarrow> string \<Rightarrow> recovery_counts \<Rightarrow> planes \<Rightarrow>
    recovery_counts \<times> planes" where
  "recover_walk c ns now limit budget cursor k p =
     (if \<not> rc_scanned k < budget then (k, p)
      else
        let page = list_open_credit_transfers limit cursor (fst p)
        in if page = [] then (k, p)
           else
             let (k', p') = recover_page c ns now page (k\<lparr>rc_scanned := rc_scanned k + length page\<rparr>) p
             in recover_walk c ns now limit budget (ct_id (last page)) k' p')"
  by pat_completeness auto
termination
proof (relation "measure (\<lambda>(c, ns, now, limit, budget, cursor, k, p). budget - rc_scanned k)", goal_cases)
  case (2 c ns now limit budget cursor k p page kp k' p')
  have "k' = fst (recover_page c ns now page (k\<lparr>rc_scanned := rc_scanned k + length page\<rparr>) p)"
    using 2(4,5) by (metis fst_conv)
  then have "rc_scanned k' = rc_scanned k + length page" by simp
  then show ?case using 2(1,3) by (cases page) simp_all
qed simp

declare recover_walk.simps [simp del]

definition recover_credit_transfers ::
    "transfer_client \<Rightarrow> (string \<Rightarrow> net) \<Rightarrow> int \<Rightarrow> instant \<Rightarrow> planes \<Rightarrow> recovery_counts \<times> planes" where
  "recover_credit_transfers c ns limit now p =
     recover_walk c ns now limit (nat (max 1 (min limit 500)) * 20) []
       \<lparr>rc_delivered = 0, rc_returned = 0, rc_unresolved = 0, rc_skipped = 0, rc_failed = 0, rc_scanned = 0\<rparr> p"

section \<open>Where the value is\<close>

definition claim_outcome :: "store \<Rightarrow> string \<Rightarrow> string option" where
  "claim_outcome dst i = map_option cl_outcome (dget (credit_transfer_claims dst) i)"

text \<open>The amount of a transfer that is held in escrow: debited from the source, and not accepted by
  the destination.  A transfer whose tombstone the source has not heard of yet is still held.\<close>

definition held_amount :: "string \<Rightarrow> store \<Rightarrow> string \<Rightarrow> credit_transfer \<Rightarrow> int" where
  "held_amount w dst i t = (if ct_workspace_id t = w \<and> ct_state t = ESCROWED \<and> claim_outcome dst i \<noteq> Some ACCEPTED
     then ct_amount t else 0)"

text \<open>The bucket as the module documentation words it: escrowed, and the destination has not written
  its claim row.\<close>

definition undecided_amount :: "string \<Rightarrow> store \<Rightarrow> string \<Rightarrow> credit_transfer \<Rightarrow> int" where
  "undecided_amount w dst i t = (if ct_workspace_id t = w \<and> ct_state t = ESCROWED \<and> claim_outcome dst i = None
     then ct_amount t else 0)"

definition spendable :: "string \<Rightarrow> store \<Rightarrow> int" where
  "spendable w s = dcell cm_credits (dget (credit_money s) w)"

definition planes_total :: "string \<Rightarrow> planes \<Rightarrow> int" where
  "planes_total w p = spendable w (fst p) + esum (held_amount w (snd p)) (credit_transfers (fst p)) + spendable w (snd p)"

definition documented_total :: "string \<Rightarrow> planes \<Rightarrow> int" where
  "documented_total w p = spendable w (fst p) + esum (undecided_amount w (snd p)) (credit_transfers (fst p)) + spendable w (snd p)"

text \<open>A source record agrees with the destination's claim row.\<close>

definition transfer_ok :: "store \<Rightarrow> store \<Rightarrow> string \<Rightarrow> credit_transfer \<Rightarrow> bool" where
  "transfer_ok src dst i t \<longleftrightarrow> ct_id t = i \<and> validate_transfer_id i = Inr i \<and> 0 < ct_amount t \<and>
     dget (credit_money src) (ct_workspace_id t) \<noteq> None \<and>
     (ct_state t = ESCROWED \<or> ct_state t = DELIVERED \<and> claim_outcome dst i = Some ACCEPTED \<or>
      ct_state t = RETURNED \<and> claim_outcome dst i = Some REJECTED)"

definition claim_ok :: "store \<Rightarrow> string \<Rightarrow> transfer_claim \<Rightarrow> bool" where
  "claim_ok src i cl \<longleftrightarrow> cl_outcome cl \<in> {ACCEPTED, REJECTED} \<and>
     (\<exists>t. dget (credit_transfers src) i = Some t \<and> ct_workspace_id t = cl_workspace_id cl \<and> ct_amount t = cl_amount cl)"

definition planes_ok :: "planes \<Rightarrow> bool" where
  "planes_ok p \<longleftrightarrow> distinct (map fst (credit_transfers (fst p))) \<and>
     (\<forall>i t. dget (credit_transfers (fst p)) i = Some t \<longrightarrow> transfer_ok (fst p) (snd p) i t) \<and>
     (\<forall>i cl. dget (credit_transfer_claims (snd p)) i = Some cl \<longrightarrow> claim_ok (fst p) i cl)"

lemma planes_okD:
  assumes "planes_ok (src, dst)"
  shows "distinct (map fst (credit_transfers src))"
    "dget (credit_transfers src) i = Some t \<Longrightarrow> transfer_ok src dst i t"
    "dget (credit_transfer_claims dst) i = Some cl \<Longrightarrow> claim_ok src i cl"
  using assms by (simp_all add: planes_ok_def)

lemma validated_id: "validate_transfer_id x = Inr i \<Longrightarrow> validate_transfer_id i = Inr i"
  by (auto simp: validate_transfer_id_def Let_def split: if_splits)

subsection \<open>Opening an escrow\<close>

lemma open_cases:
  assumes "open_credit_transfer x w n d now s = (res, s')"
  obtains (same) "s' = s" "\<And>t. res = Inr t \<Longrightarrow> \<exists>i. dget (credit_transfers s) i = Some t"
  | (opened) i m t where "validate_transfer_id x = Inr i" "0 < n" "dget (credit_transfers s) i = None"
      "dget (credit_money s) w = Some m" "n \<le> available m"
      "t = \<lparr>ct_id = i, ct_workspace_id = w, ct_amount = n, ct_destination = d, ct_state = ESCROWED,
         ct_created_at = iso_now now, ct_resolved_at = None\<rparr>" "res = Inr t"
      "s' = s\<lparr>credit_money := dset w (m\<lparr>cm_credits := cm_credits m - n\<rparr>) (credit_money s),
         credit_transfers := dset i t (credit_transfers s)\<rparr>"
proof (cases "validate_transfer_id x")
  case (Inl e)
  then show thesis using assms same by (auto simp: open_credit_transfer_def)
next
  case v: (Inr i)
  show thesis
  proof (cases "0 < n")
    case False
    then show thesis using assms same v by (auto simp: open_credit_transfer_def validate_amount_def)
  next
    case n: True
    show thesis
    proof (cases "dget (credit_transfers s) i")
      case (Some existing)
      then show thesis using assms same v n
        by (cases "require_matching_open existing w n d") (auto simp: open_credit_transfer_def validate_amount_def)
    next
      case None
      show thesis
      proof (cases "\<exists>m. dget (credit_money s) w = Some m \<and> n \<le> available m")
        case True
        then obtain m where m: "dget (credit_money s) w = Some m" "n \<le> available m" by blast
        show thesis
          by (rule opened [OF v n None m refl]) (use assms v n None m in \<open>simp_all add: open_credit_transfer_def validate_amount_def Let_def\<close>)
      next
        case False
        then have "open_credit_transfer x w n d now s = (Inl (ValueError ''insufficient credits''), s)"
          using v n None by (cases "dget (credit_money s) w") (simp_all add: open_credit_transfer_def validate_amount_def)
        then show thesis using assms same by auto
      qed
    qed
  qed
qed

lemma open_planes:
  assumes "planes_ok (src, dst)" "open_credit_transfer x w n d now src = (res, src')"
  shows "planes_ok (src', dst) \<and> planes_total w' (src', dst) = planes_total w' (src, dst)"
  using assms(2)
proof (cases rule: open_cases)
  case same
  then show ?thesis using assms(1) by simp
next
  case (opened i m t)
  have claim: "claim_outcome dst i = None"
  proof (cases "dget (credit_transfer_claims dst) i")
    case (Some cl)
    then show ?thesis using planes_okD(3) [OF assms(1) Some] opened(3) by (simp add: claim_ok_def)
  qed (simp add: claim_outcome_def)
  have tr: "transfer_ok src' dst j t'" if "dget (credit_transfers src') j = Some t'" for j t'
    using that planes_okD(2) [OF assms(1), of j t'] opened validated_id [OF opened(1)]
    by (auto simp: transfer_ok_def split: if_splits)
  have cl: "claim_ok src' j c" if "dget (credit_transfer_claims dst) j = Some c" for j c
    using planes_okD(3) [OF assms(1) that] opened(3,8) by (auto simp: claim_ok_def)
  have "planes_ok (src', dst)"
    using planes_okD(1) [OF assms(1)] tr cl opened(8) by (simp add: planes_ok_def distinct_update)
  moreover have "planes_total w' (src', dst) = planes_total w' (src, dst)"
    using opened claim by (cases "w = w'") (auto simp: planes_total_def spendable_def esum_dset held_amount_def)
  ultimately show ?thesis by simp
qed

subsection \<open>The destination's verdict\<close>

lemma claim_cases:
  assumes "claim_credit_transfer i w n source accept now s = (res, s')" "validate_transfer_id i = Inr i"
  obtains (recorded) cl where "s' = s" "dget (credit_transfer_claims s) i = Some cl" "\<And>x. res = Inr x \<Longrightarrow> x = cl_outcome cl"
  | (refused) e where "s' = s" "dget (credit_transfer_claims s) i = None" "res = Inl e"
  | (accepted) cl m ev where "accept" "0 < n" "dget (credit_transfer_claims s) i = None" "dget (credit_money s) w = Some m"
      "cl_outcome cl = ACCEPTED" "cl_workspace_id cl = w" "cl_amount cl = n" "res = Inr ACCEPTED"
      "s' = s\<lparr>credit_money := dset w (m\<lparr>cm_credits := cm_credits m + n\<rparr>) (credit_money s),
         trust_events := dset (w, i) ev (trust_events s), credit_transfer_claims := dset i cl (credit_transfer_claims s)\<rparr>"
  | (rejected) cl where "\<not> accept" "0 < n" "dget (credit_transfer_claims s) i = None"
      "cl_outcome cl = REJECTED" "cl_workspace_id cl = w" "cl_amount cl = n" "res = Inr REJECTED"
      "s' = s\<lparr>credit_transfer_claims := dset i cl (credit_transfer_claims s)\<rparr>"
proof (cases "0 < n")
  case False
  then have "res = Inl (ValueError ''amount_microdollars must be positive'') \<and> s' = s"
    using assms by (auto simp: claim_credit_transfer_def validate_amount_def)
  then show thesis using recorded refused by (cases "dget (credit_transfer_claims s) i") auto
next
  case True
  obtain ev where ev: "payment_or_grant_event w i n (system_grant now) now None None = Inr ev"
    using system_grant_event by blast
  show thesis
  proof (cases "dget (credit_transfer_claims s) i")
    case (Some cl)
    then show thesis using assms True recorded
      by (auto simp: claim_credit_transfer_def validate_amount_def Let_def split: sum.splits)
  next
    case None
    show thesis
    proof (cases accept)
      case acc: True
      show thesis
      proof (cases "dget (credit_money s) w")
        case no_money: None
        then have "claim_credit_transfer i w n source accept now s =
            (Inl (ValueError ''no credit balance for workspace on this plane''), s)"
          using assms(2) acc True None by (simp add: claim_credit_transfer_def validate_amount_def)
        then show thesis using assms(1) None refused by simp
      next
        case (Some m)
        show thesis
          by (rule accepted [OF acc True None Some, of "\<lparr>cl_outcome = ACCEPTED, cl_workspace_id = w, cl_amount = n,
                cl_source = source, cl_created_at = iso_now now\<rparr>" ev])
            (use assms acc True None ev Some in \<open>simp_all add: claim_credit_transfer_def validate_amount_def Let_def\<close>)
      qed
    next
      case False
      show thesis
        by (rule rejected [OF False True None, of "\<lparr>cl_outcome = REJECTED, cl_workspace_id = w, cl_amount = n,
              cl_source = source, cl_created_at = iso_now now\<rparr>"])
          (use assms False True None in \<open>simp_all add: claim_credit_transfer_def validate_amount_def Let_def\<close>)
    qed
  qed
qed

lemma held_after_claim:
  assumes "planes_ok (src, dst)" "dget (credit_transfers src) i = Some t" "dget (credit_transfer_claims dst) i = None"
    and "\<And>j. j \<noteq> i \<Longrightarrow> claim_outcome dst' j = claim_outcome dst j"
  shows "esum (held_amount w dst') (credit_transfers src) = esum (held_amount w dst) (credit_transfers src) -
    (if claim_outcome dst' i = Some ACCEPTED \<and> ct_workspace_id t = w then ct_amount t else 0)"
proof -
  have "ct_state t = ESCROWED"
    using planes_okD(2) [OF assms(1,2)] assms(3) by (auto simp: transfer_ok_def claim_outcome_def)
  moreover have "esum (held_amount w dst') (credit_transfers src) = esum (held_amount w dst) (credit_transfers src) -
      ecell (held_amount w dst) i (Some t) + ecell (held_amount w dst') i (Some t)"
    unfolding assms(2) [symmetric] using assms(4)
    by (intro esum_summand_at [OF planes_okD(1) [OF assms(1)]]) (simp add: held_amount_def)
  moreover have "claim_outcome dst i = None" using assms(3) by (simp add: claim_outcome_def)
  ultimately show ?thesis by (simp add: held_amount_def)
qed

lemma planes_ok_claim:
  assumes "planes_ok (src, dst)" "dget (credit_transfers src) i = Some t" "dget (credit_transfer_claims dst) i = None"
    and "credit_transfer_claims dst' = dset i cl (credit_transfer_claims dst)"
    and "cl_outcome cl \<in> {ACCEPTED, REJECTED}" "cl_workspace_id cl = ct_workspace_id t" "cl_amount cl = ct_amount t"
  shows "planes_ok (src, dst')"
proof -
  have "transfer_ok src dst' j t'" if "dget (credit_transfers src) j = Some t'" for j t'
    using planes_okD(2) [OF assms(1) that] assms(3,4) by (auto simp: transfer_ok_def claim_outcome_def)
  moreover have "claim_ok src j c" if "dget (credit_transfer_claims dst') j = Some c" for j c
    using that planes_okD(3) [OF assms(1), of j c] assms by (auto simp: claim_ok_def split: if_splits)
  ultimately show ?thesis using planes_okD(1) [OF assms(1)] by (simp add: planes_ok_def)
qed

lemma claim_planes:
  assumes ok: "planes_ok (src, dst)" and t: "dget (credit_transfers src) i = Some t"
    and run: "claim_credit_transfer i (ct_workspace_id t) (ct_amount t) source accept now dst = (res, dst')"
  shows "planes_ok (src, dst')" "planes_total w (src, dst') = planes_total w (src, dst)"
    "res = Inr x \<Longrightarrow> claim_outcome dst' i = Some x"
proof -
  have v: "validate_transfer_id i = Inr i" using planes_okD(2) [OF ok t] by (simp add: transfer_ok_def)
  have "planes_ok (src, dst') \<and> planes_total w (src, dst') = planes_total w (src, dst) \<and>
      (res = Inr x \<longrightarrow> claim_outcome dst' i = Some x)"
    using run v
  proof (cases rule: claim_cases)
    case (recorded cl)
    then show ?thesis using ok by (auto simp: claim_outcome_def)
  next
    case (refused e)
    then show ?thesis using ok by simp
  next
    case (accepted cl m ev)
    have o: "claim_outcome dst' j = (if j = i then Some ACCEPTED else claim_outcome dst j)" for j
      using accepted by (simp add: claim_outcome_def)
    have h: "esum (held_amount w dst') (credit_transfers src) = esum (held_amount w dst) (credit_transfers src) -
        (if ct_workspace_id t = w then ct_amount t else 0)"
      using held_after_claim [OF ok t accepted(3), of dst' w] o by simp
    have "planes_ok (src, dst')"
      using accepted by (intro planes_ok_claim [OF ok t accepted(3), of dst' cl]) simp_all
    then show ?thesis using h accepted o
      by (cases "ct_workspace_id t = w") (auto simp: planes_total_def spendable_def)
  next
    case (rejected cl)
    have o: "claim_outcome dst' j = (if j = i then Some REJECTED else claim_outcome dst j)" for j
      using rejected by (simp add: claim_outcome_def)
    have h: "esum (held_amount w dst') (credit_transfers src) = esum (held_amount w dst) (credit_transfers src)"
      using held_after_claim [OF ok t rejected(3), of dst' w] o by simp
    have "planes_ok (src, dst')"
      using rejected by (intro planes_ok_claim [OF ok t rejected(3), of dst' cl]) simp_all
    then show ?thesis using h rejected o by (auto simp: planes_total_def spendable_def)
  qed
  then show "planes_ok (src, dst')" "planes_total w (src, dst') = planes_total w (src, dst)"
    "res = Inr x \<Longrightarrow> claim_outcome dst' i = Some x" by blast+
qed

subsection \<open>Recording the verdict\<close>

lemma resolve_cases:
  assumes "resolve_credit_transfer i x now s = (res, s')" "validate_transfer_id i = Inr i" "x \<in> {ACCEPTED, REJECTED}"
  obtains (missing) "s' = s" "dget (credit_transfers s) i = None"
  | (conflict) t where "s' = s" "dget (credit_transfers s) i = Some t" "ct_state t \<notin> {ESCROWED, the (dget STATE_FOR_OUTCOME x)}"
  | (replay) t where "s' = s" "dget (credit_transfers s) i = Some t" "ct_state t = the (dget STATE_FOR_OUTCOME x)" "res = Inr t"
  | (unfunded) t where "s' = s" "dget (credit_transfers s) i = Some t" "dget (credit_money s) (ct_workspace_id t) = None"
  | (delivered) t where "x = ACCEPTED" "dget (credit_transfers s) i = Some t" "ct_state t = ESCROWED"
      "s' = s\<lparr>credit_transfers := dset i (t\<lparr>ct_state := DELIVERED, ct_resolved_at := Some (iso_now now)\<rparr>) (credit_transfers s)\<rparr>"
      "res = Inr (t\<lparr>ct_state := DELIVERED, ct_resolved_at := Some (iso_now now)\<rparr>)"
  | (returned) t m where "x = REJECTED" "dget (credit_transfers s) i = Some t" "ct_state t = ESCROWED"
      "dget (credit_money s) (ct_workspace_id t) = Some m"
      "s' = s\<lparr>credit_transfers := dset i (t\<lparr>ct_state := RETURNED, ct_resolved_at := Some (iso_now now)\<rparr>) (credit_transfers s),
         credit_money := dset (ct_workspace_id t) (m\<lparr>cm_credits := cm_credits m + ct_amount t\<rparr>) (credit_money s)\<rparr>"
      "res = Inr (t\<lparr>ct_state := RETURNED, ct_resolved_at := Some (iso_now now)\<rparr>)"
proof -
  have vo: "validate_outcome x = Inr x" using assms(3) by (simp add: validate_outcome_def)
  have st: "dget STATE_FOR_OUTCOME ACCEPTED = Some DELIVERED" "dget STATE_FOR_OUTCOME REJECTED = Some RETURNED"
    by (simp_all add: STATE_FOR_OUTCOME_def)
  note unf = resolve_credit_transfer_def Let_def
  show thesis
  proof (cases "dget (credit_transfers s) i")
    case None
    then show thesis using assms(1,2) vo by (intro missing) (simp_all add: unf)
  next
    case t: (Some t)
    show thesis
    proof (cases "ct_state t = ESCROWED")
      case False
      then show thesis using assms(1,2) vo t conflict [OF _ t] replay [OF _ t] by (simp add: unf split: if_splits)
    next
      case esc: True
      consider "x = ACCEPTED" | "x = REJECTED" "dget (credit_money s) (ct_workspace_id t) = None"
        | m where "x = REJECTED" "dget (credit_money s) (ct_workspace_id t) = Some m" using assms(3) by blast
      then show thesis
      proof cases
        case 1
        then show thesis by (rule delivered [OF _ t esc]) (use assms(1,2) vo t esc 1 st in \<open>simp_all add: unf\<close>)
      next
        case 2
        then show thesis using assms(1,2) vo t esc by (intro unfunded [OF _ t]) (simp_all add: unf)
      next
        case (3 m)
        then show thesis by (rule returned [OF _ t esc]) (use assms(1,2) vo t esc 3 st in \<open>simp_all add: unf\<close>)
      qed
    qed
  qed
qed

lemma planes_ok_resolve:
  assumes "planes_ok (src, dst)" "dget (credit_transfers src) i = Some t"
    and "credit_transfers src' = dset i (t\<lparr>ct_state := st, ct_resolved_at := r\<rparr>) (credit_transfers src)"
    and "st = DELIVERED \<and> claim_outcome dst i = Some ACCEPTED \<or> st = RETURNED \<and> claim_outcome dst i = Some REJECTED"
    and "\<And>w. dget (credit_money src) w \<noteq> None \<Longrightarrow> dget (credit_money src') w \<noteq> None"
  shows "planes_ok (src', dst)"
proof -
  have "transfer_ok src' dst j t'" if j: "dget (credit_transfers src') j = Some t'" for j t'
  proof (cases "j = i")
    case True
    then have "t' = t\<lparr>ct_state := st, ct_resolved_at := r\<rparr>" using j assms(3) by simp
    then show ?thesis using planes_okD(2) [OF assms(1,2)] assms(4) assms(5) [of "ct_workspace_id t"] True
      by (simp add: transfer_ok_def)
  next
    case False
    then have "transfer_ok src dst j t'" using j assms(3) planes_okD(2) [OF assms(1), of j] by simp
    then show ?thesis using assms(5) [of "ct_workspace_id t'"] by (simp add: transfer_ok_def)
  qed
  moreover have "claim_ok src' j c" if "dget (credit_transfer_claims dst) j = Some c" for j c
    using planes_okD(3) [OF assms(1) that] assms(2,3) by (auto simp: claim_ok_def)
  ultimately show ?thesis using planes_okD(1) [OF assms(1)] assms(3) by (simp add: planes_ok_def distinct_update)
qed

lemma resolve_planes:
  assumes ok: "planes_ok (src, dst)" and cl: "claim_outcome dst i = Some x"
    and run: "resolve_credit_transfer i x now src = (res, src')"
  shows "planes_ok (src', dst)" "planes_total w (src', dst) = planes_total w (src, dst)"
    "\<exists>t. res = Inr t \<and> dget (credit_transfers src') i = Some t \<and> ct_state t = the (dget STATE_FOR_OUTCOME x)"
proof -
  from cl obtain c where c: "dget (credit_transfer_claims dst) i = Some c" "cl_outcome c = x"
    by (auto simp: claim_outcome_def)
  from planes_okD(3) [OF ok c(1)] c(2) obtain t where t: "dget (credit_transfers src) i = Some t"
    and x: "x \<in> {ACCEPTED, REJECTED}" by (auto simp: claim_ok_def)
  note tok = planes_okD(2) [OF ok t]
  have v: "validate_transfer_id i = Inr i" using tok by (simp add: transfer_ok_def)
  have st: "dget STATE_FOR_OUTCOME ACCEPTED = Some DELIVERED" "dget STATE_FOR_OUTCOME REJECTED = Some RETURNED"
    by (simp_all add: STATE_FOR_OUTCOME_def)
  show "planes_ok (src', dst)"
    using run v x
  proof (cases rule: resolve_cases)
    case (delivered t')
    then show ?thesis using cl by (intro planes_ok_resolve [OF ok delivered(2)]) auto
  next
    case (returned t' m)
    then show ?thesis using cl by (intro planes_ok_resolve [OF ok returned(2)]) auto
  qed (use ok in simp_all)
  show "planes_total w (src', dst) = planes_total w (src, dst)"
    using run v x
  proof (cases rule: resolve_cases)
    case (delivered t')
    then show ?thesis using cl by (simp add: planes_total_def spendable_def esum_dset held_amount_def)
  next
    case (returned t' m)
    then show ?thesis using cl
      by (cases "ct_workspace_id t' = w") (auto simp: planes_total_def spendable_def esum_dset held_amount_def)
  qed simp_all
  show "\<exists>t. res = Inr t \<and> dget (credit_transfers src') i = Some t \<and> ct_state t = the (dget STATE_FOR_OUTCOME x)"
    using run v x
  proof (cases rule: resolve_cases)
    case (conflict t')
    then show ?thesis using t tok cl st by (auto simp: transfer_ok_def)
  qed (use t tok st in \<open>auto simp: transfer_ok_def\<close>)
qed

subsection \<open>The route and the drivers\<close>

lemma route_planes:
  assumes "planes_ok (src, dst)" "dget (credit_transfers src) i = Some t" "rq_transfer_id q = i"
    and "rq_workspace_id q = ct_workspace_id t" "rq_amount q = ct_amount t"
    and "federation_credit_transfer ok q now dst = (r, dst')"
  shows "planes_ok (src, dst') \<and> planes_total w (src, dst') = planes_total w (src, dst) \<and>
    (read_reply r = Inr x \<longrightarrow> claim_outcome dst' i = Some x)"
proof -
  let ?act = "if rq_action q = [] then ''accepted'' else rq_action q"
  have tok: "validate_transfer_id i = Inr i" "0 < ct_amount t"
    using planes_okD(2) [OF assms(1,2)] by (simp_all add: transfer_ok_def)
  obtain res dst1 where c: "claim_credit_transfer i (ct_workspace_id t) (ct_amount t) (rq_source_plane q) (?act = ''accepted'') now dst = (res, dst1)"
    by (cases "claim_credit_transfer i (ct_workspace_id t) (ct_amount t) (rq_source_plane q) (?act = ''accepted'') now dst")
  note cp = claim_planes [OF assms(1,2) c]
  have "(r, dst') \<in> {(Http 401 None, dst), (Http 400 None, dst)} \<or>
      (r, dst') = (case res of Inl e \<Rightarrow> (Http (status_of_error e) None, dst1) | Inr y \<Rightarrow> (Http 200 (Some y), dst1))"
    using assms(3-6) tok c
    by (simp add: federation_credit_transfer_def validate_amount_def Let_def split: if_splits sum.splits)
  then show ?thesis
  proof
    assume "(r, dst') \<in> {(Http 401 None, dst), (Http 400 None, dst)}"
    then show ?thesis using assms(1) by (auto simp: read_reply_def)
  next
    assume "(r, dst') = (case res of Inl e \<Rightarrow> (Http (status_of_error e) None, dst1) | Inr y \<Rightarrow> (Http 200 (Some y), dst1))"
    then show ?thesis using cp by (cases res) (auto simp: read_reply_def split: if_splits)
  qed
qed

text \<open>What never goes away: the terms of a source record, and a claim row.\<close>

definition transfer_terms :: "store \<Rightarrow> string \<Rightarrow> (string \<times> int) option" where
  "transfer_terms src i = map_option (\<lambda>t. (ct_workspace_id t, ct_amount t)) (dget (credit_transfers src) i)"

lemma open_terms:
  assumes "open_credit_transfer x w n d now s = (res, s')" "transfer_terms s i = Some z"
  shows "transfer_terms s' i = Some z"
  using assms(1)
proof (cases rule: open_cases)
  case same
  then show ?thesis using assms(2) by simp
next
  case (opened j m t)
  then show ?thesis using assms(2) by (auto simp: transfer_terms_def)
qed

lemma resolve_terms:
  assumes "planes_ok (src, dst)" "claim_outcome dst i = Some v" "resolve_credit_transfer i v now src = (res, src')"
    and "transfer_terms src j = Some z"
  shows "transfer_terms src' j = Some z"
proof -
  from assms(2) obtain c where c: "dget (credit_transfer_claims dst) i = Some c" "cl_outcome c = v"
    by (auto simp: claim_outcome_def)
  from planes_okD(3) [OF assms(1) c(1)] c(2) obtain t where t: "dget (credit_transfers src) i = Some t"
    and x: "v \<in> {ACCEPTED, REJECTED}" by (auto simp: claim_ok_def)
  have v: "validate_transfer_id i = Inr i" using planes_okD(2) [OF assms(1) t] by (simp add: transfer_ok_def)
  from assms(3) v x show ?thesis by (cases rule: resolve_cases) (use assms(4) in \<open>auto simp: transfer_terms_def\<close>)
qed

lemma deliver_and_record_planes:
  assumes "planes_ok p" "transfer_terms (fst p) (ct_id t) = Some (ct_workspace_id t, ct_amount t)"
  shows "planes_ok (snd (deliver_and_record c n t accept now p))"
    "planes_total w (snd (deliver_and_record c n t accept now p)) = planes_total w p"
    "transfer_terms (fst p) j = Some z \<Longrightarrow> transfer_terms (fst (snd (deliver_and_record c n t accept now p))) j = Some z"
proof -
  obtain src dst where p: "p = (src, dst)" by (cases p)
  obtain t0 where t0: "dget (credit_transfers src) (ct_id t) = Some t0" "ct_workspace_id t = ct_workspace_id t0"
    "ct_amount t = ct_amount t0" using assms(2) p by (auto simp: transfer_terms_def)
  obtain r dst' where f: "federation_credit_transfer (tc_token_ok c) (claim_request_of c t accept) now dst = (r, dst')"
    by (cases "federation_credit_transfer (tc_token_ok c) (claim_request_of c t accept) now dst")
  have rp: "planes_ok (src, dst') \<and> planes_total w (src, dst') = planes_total w (src, dst) \<and>
      (read_reply r = Inr x \<longrightarrow> claim_outcome dst' (ct_id t) = Some x)" for x w
    using route_planes [OF _ t0(1) _ _ _ f] assms(1) p t0(2,3) by (simp add: claim_request_of_def)
  have "planes_ok (snd (deliver_and_record c n t accept now p)) \<and>
      planes_total w (snd (deliver_and_record c n t accept now p)) = planes_total w p \<and>
      (transfer_terms (fst p) j = Some z \<longrightarrow> transfer_terms (fst (snd (deliver_and_record c n t accept now p))) j = Some z)"
  proof (cases n)
    case Arrives
    show ?thesis
    proof (cases "read_reply r")
      case (Inl e)
      then show ?thesis using rp Arrives f p by (simp add: deliver_and_record_def deliver_def)
    next
      case (Inr x)
      obtain rr src' where v: "resolve_credit_transfer (ct_id t) x now src = (rr, src')"
        by (cases "resolve_credit_transfer (ct_id t) x now src")
      have cl: "planes_ok (src, dst')" "claim_outcome dst' (ct_id t) = Some x" using rp Inr by blast+
      note rs = resolve_planes [OF cl v]
      show ?thesis using rs(1) rs(2) [of w] resolve_terms [OF cl v] rp Inr Arrives f v p
        by (simp add: deliver_and_record_def deliver_def)
    qed
  qed (use rp f p assms in \<open>simp_all add: deliver_and_record_def deliver_def\<close>)
  then show "planes_ok (snd (deliver_and_record c n t accept now p))"
    "planes_total w (snd (deliver_and_record c n t accept now p)) = planes_total w p"
    "transfer_terms (fst p) j = Some z \<Longrightarrow> transfer_terms (fst (snd (deliver_and_record c n t accept now p))) j = Some z"
    by blast+
qed

text \<open>What the three drivers keep.\<close>

definition planes_kept :: "planes \<Rightarrow> planes \<Rightarrow> bool" where
  "planes_kept p p' \<longleftrightarrow> planes_ok p' \<and> (\<forall>w. planes_total w p' = planes_total w p) \<and>
     (\<forall>i z. transfer_terms (fst p) i = Some z \<longrightarrow> transfer_terms (fst p') i = Some z)"

lemma planes_kept_refl: "planes_ok p \<Longrightarrow> planes_kept p p"
  by (simp add: planes_kept_def)

lemma planes_kept_trans: "planes_kept p q \<Longrightarrow> planes_kept q r \<Longrightarrow> planes_kept p r"
  by (simp add: planes_kept_def)

lemma planes_kept_ok: "planes_kept p q \<Longrightarrow> planes_ok q"
  by (simp add: planes_kept_def)

lemma deliver_and_record_kept:
  assumes "planes_ok p" "transfer_terms (fst p) (ct_id t) = Some (ct_workspace_id t, ct_amount t)"
  shows "planes_kept p (snd (deliver_and_record c n t accept now p))"
  using deliver_and_record_planes [OF assms] by (simp add: planes_kept_def)

lemma planes_ok_terms:
  "planes_ok p \<Longrightarrow> dget (credit_transfers (fst p)) i = Some t \<Longrightarrow>
     ct_id t = i \<and> transfer_terms (fst p) (ct_id t) = Some (ct_workspace_id t, ct_amount t)"
  by (cases p) (auto simp: transfer_terms_def dest: planes_okD(2) simp: transfer_ok_def)

lemma push_kept:
  assumes "planes_ok p"
  shows "planes_kept p (snd (push_credit_transfer c n i w amount now p))"
proof -
  obtain src dst where p: "p = (src, dst)" by (cases p)
  obtain res src' where o: "open_credit_transfer i w amount (tc_destination c) now src = (res, src')"
    by (cases "open_credit_transfer i w amount (tc_destination c) now src")
  have k: "planes_kept p (src', dst)"
    using open_planes [OF assms [unfolded p] o] open_terms [OF o] p by (simp add: planes_kept_def)
  show ?thesis
  proof (cases res)
    case (Inr t)
    have "\<exists>j. dget (credit_transfers src') j = Some t" using o
    proof (cases rule: open_cases)
      case (opened j m u)
      then show ?thesis using Inr by auto
    qed (use Inr in auto)
    then have "transfer_terms (fst (src', dst)) (ct_id t) = Some (ct_workspace_id t, ct_amount t)"
      using planes_ok_terms [OF planes_kept_ok [OF k]] by auto
    from deliver_and_record_kept [OF planes_kept_ok [OF k] this] show ?thesis
      using k o p Inr planes_kept_trans [OF k] by (simp add: push_credit_transfer_def)
  qed (use k o p in \<open>simp add: push_credit_transfer_def\<close>)
qed

lemma cancel_kept:
  assumes "planes_ok p"
  shows "planes_kept p (snd (cancel_credit_transfer c n i now p))"
proof -
  have "planes_kept p (snd (deliver_and_record c n t False now p))" if "dget (credit_transfers (fst p)) j = Some t" for j t
    using deliver_and_record_kept [OF assms] planes_ok_terms [OF assms that] by blast
  then show ?thesis using planes_kept_refl [OF assms]
    by (auto simp: cancel_credit_transfer_def get_credit_transfer_def split: sum.split option.split)
qed

lemma recover_page_kept:
  assumes "planes_ok p" "\<forall>t \<in> set ts. transfer_terms (fst p) (ct_id t) = Some (ct_workspace_id t, ct_amount t)"
  shows "planes_kept p (snd (recover_page c ns now ts k p))"
  using assms
proof (induction ts arbitrary: k p)
  case Nil
  then show ?case by (simp add: planes_kept_refl)
next
  case (Cons t ts)
  obtain r p1 where d: "deliver_and_record c (ns (ct_id t)) t True now p = (r, p1)"
    by (cases "deliver_and_record c (ns (ct_id t)) t True now p")
  have k1: "planes_kept p p1" using deliver_and_record_kept [OF Cons.prems(1), of t c "ns (ct_id t)" True now] Cons.prems(2) d by simp
  have "planes_kept p (snd (recover_page c ns now ts k' p1))" for k'
    using planes_kept_trans [OF k1 Cons.IH] k1 Cons.prems(2) by (simp add: planes_kept_def)
  moreover have "planes_kept p (snd (recover_page c ns now ts k' p))" for k'
    using Cons.IH [OF Cons.prems(1)] Cons.prems(2) by simp
  ultimately show ?case using d by (auto split: sum.split py_error.split)
qed

lemma list_open_terms:
  assumes "planes_ok p" "t \<in> set (list_open_credit_transfers limit cursor (fst p))"
  shows "transfer_terms (fst p) (ct_id t) = Some (ct_workspace_id t, ct_amount t)"
proof -
  from assms(2) have "t \<in> set (dvals (credit_transfers (fst p)))"
    unfolding list_open_credit_transfers_def by (auto dest!: in_set_takeD)
  then obtain i where "(i, t) \<in> set (credit_transfers (fst p))" by auto
  then have "dget (credit_transfers (fst p)) i = Some t" using assms(1) by (simp add: planes_ok_def)
  then show ?thesis using planes_ok_terms [OF assms(1)] by blast
qed

lemma recover_walk_kept:
  "planes_ok p \<Longrightarrow> planes_kept p (snd (recover_walk c ns now limit budget cursor k p))"
proof (induction c ns now limit budget cursor k p rule: recover_walk.induct)
  case (1 c ns now limit budget cursor k p)
  define page where "page = list_open_credit_transfers limit cursor (fst p)"
  obtain k' p' where r: "recover_page c ns now page (k\<lparr>rc_scanned := rc_scanned k + length page\<rparr>) p = (k', p')"
    by (cases "recover_page c ns now page (k\<lparr>rc_scanned := rc_scanned k + length page\<rparr>) p")
  have kp: "planes_kept p p'"
    using recover_page_kept [OF 1(2), of page c ns now "k\<lparr>rc_scanned := rc_scanned k + length page\<rparr>"]
      list_open_terms [OF 1(2)] r by (simp add: page_def)
  have "planes_kept p (snd (recover_walk c ns now limit budget (ct_id (last page)) k' p'))"
    if "rc_scanned k < budget" "page \<noteq> []"
    using planes_kept_trans [OF kp] 1(1) [OF _ page_def that(2) r [symmetric] refl planes_kept_ok [OF kp]] that(1) by simp
  then show ?case
    using planes_kept_refl [OF 1(2)] r
    by (subst recover_walk.simps) (simp add: Let_def page_def [symmetric])
qed

lemma recover_kept: "planes_ok p \<Longrightarrow> planes_kept p (snd (recover_credit_transfers c ns limit now p))"
  unfolding recover_credit_transfers_def by (rule recover_walk_kept)

section \<open>Two planes and a network\<close>

text \<open>
  Requests and replies that were sent stay in the network: each may be received never, once or many
  times, in any order, however late.  A crash is a step that does not happen.
\<close>

record world =
  wo_planes :: planes
  wo_requests :: "claim_request set"
  wo_replies :: "(string \<times> string) set"

datatype plane_event =
    Open string string int string instant
  | Send string bool string
  | Handle claim_request bool instant
  | Hear string string instant

fun plane_step :: "plane_event \<Rightarrow> world \<Rightarrow> world" where
  "plane_step (Open i w n d now) x =
     x\<lparr>wo_planes := (snd (open_credit_transfer i w n d now (fst (wo_planes x))), snd (wo_planes x))\<rparr>"
| "plane_step (Send i accept label) x =
     (case get_credit_transfer i (fst (wo_planes x)) of None \<Rightarrow> x
      | Some t \<Rightarrow> x\<lparr>wo_requests := insert
          (claim_request_of \<lparr>tc_destination = ct_destination t, tc_source_plane = label, tc_token_ok = True\<rparr> t accept)
          (wo_requests x)\<rparr>)"
| "plane_step (Handle q ok now) x =
     (if q \<notin> wo_requests x then x
      else case federation_credit_transfer ok q now (snd (wo_planes x)) of (r, dst') \<Rightarrow>
        x\<lparr>wo_planes := (fst (wo_planes x), dst'),
          wo_replies := (case read_reply r of Inl _ \<Rightarrow> wo_replies x
            | Inr v \<Rightarrow> insert (rq_transfer_id q, v) (wo_replies x))\<rparr>)"
| "plane_step (Hear i v now) x =
     (if (i, v) \<notin> wo_replies x then x
      else x\<lparr>wo_planes := (snd (resolve_credit_transfer i v now (fst (wo_planes x))), snd (wo_planes x))\<rparr>)"

text \<open>A request in the network carries the terms of a source record; a reply carries the verdict.\<close>

definition request_ok :: "store \<Rightarrow> claim_request \<Rightarrow> bool" where
  "request_ok src q \<longleftrightarrow> (\<exists>t. dget (credit_transfers src) (rq_transfer_id q) = Some t \<and>
     rq_workspace_id q = ct_workspace_id t \<and> rq_amount q = ct_amount t)"

definition world_ok :: "world \<Rightarrow> bool" where
  "world_ok x \<longleftrightarrow> planes_ok (wo_planes x) \<and> (\<forall>q \<in> wo_requests x. request_ok (fst (wo_planes x)) q) \<and>
     (\<forall>(i, v) \<in> wo_replies x. claim_outcome (snd (wo_planes x)) i = Some v)"

lemma request_ok_terms: "request_ok src q \<longleftrightarrow> transfer_terms src (rq_transfer_id q) = Some (rq_workspace_id q, rq_amount q)"
  by (auto simp: request_ok_def transfer_terms_def)

lemma claim_kept_raw:
  assumes "claim_credit_transfer i w n source accept now s = (res, s')" "validate_transfer_id i = Inr i"
    and "dget (credit_transfer_claims s) j = Some cl"
  shows "dget (credit_transfer_claims s') j = Some cl"
  using assms(1,2) by (cases rule: claim_cases) (use assms(3) in auto)

lemma route_claim_kept:
  assumes "dget (credit_transfer_claims s) j = Some cl"
  shows "dget (credit_transfer_claims (snd (federation_credit_transfer ok q now s))) j = Some cl"
proof (cases "validate_transfer_id (rq_transfer_id q)")
  case (Inl e)
  then show ?thesis using assms by (simp add: federation_credit_transfer_def)
next
  case (Inr i)
  let ?c = "claim_credit_transfer i (rq_workspace_id q) (rq_amount q) (rq_source_plane q)
    ((if rq_action q = [] then ''accepted'' else rq_action q) = ''accepted'') now s"
  have "snd (federation_credit_transfer ok q now s) \<in> {s, snd ?c}"
    using Inr by (cases ?c; cases "fst ?c") (simp_all add: federation_credit_transfer_def validate_amount_def Let_def)
  then show ?thesis using claim_kept_raw [OF prod.collapse [symmetric] validated_id [OF Inr] assms] assms by auto
qed

lemma plane_step_ok:
  assumes "world_ok x"
  shows "world_ok (plane_step e x) \<and> planes_total w (wo_planes (plane_step e x)) = planes_total w (wo_planes x)"
proof -
  obtain src dst where p: "wo_planes x = (src, dst)" by (cases "wo_planes x")
  have ok: "planes_ok (src, dst)" using assms p by (simp add: world_ok_def)
  show ?thesis
  proof (cases e)
    case (Open i w' n d now)
    obtain res src' where o: "open_credit_transfer i w' n d now src = (res, src')"
      by (cases "open_credit_transfer i w' n d now src")
    have "request_ok src' q" if "request_ok src q" for q
      using open_terms [OF o] that by (simp add: request_ok_terms)
    then show ?thesis using open_planes [OF ok o] assms p Open o by (simp add: world_ok_def)
  next
    case (Send i accept label)
    have "ct_id t = i" if "dget (credit_transfers src) i = Some t" for t
      using planes_okD(2) [OF ok that] by (simp add: transfer_ok_def)
    then show ?thesis using assms p Send
      by (cases "dget (credit_transfers src) i")
        (auto simp: world_ok_def get_credit_transfer_def request_ok_def claim_request_of_def)
  next
    case (Handle q tok now)
    show ?thesis
    proof (cases "q \<in> wo_requests x")
      case True
      obtain r dst' where f: "federation_credit_transfer tok q now dst = (r, dst')"
        by (cases "federation_credit_transfer tok q now dst")
      have "request_ok src q" using assms p True by (auto simp: world_ok_def)
      then obtain t where t: "dget (credit_transfers src) (rq_transfer_id q) = Some t"
        "rq_workspace_id q = ct_workspace_id t" "rq_amount q = ct_amount t" by (auto simp: request_ok_def)
      note rp = route_planes [OF ok t(1) refl t(2,3) f]
      have kept: "claim_outcome dst' j = Some v" if "claim_outcome dst j = Some v" for j v
        using that route_claim_kept [of dst j _ tok q now] f by (auto simp: claim_outcome_def)
      show ?thesis using rp assms p Handle True f kept
        by (cases "read_reply r") (auto simp: world_ok_def)
    qed (use assms Handle in simp)
  next
    case (Hear i v now)
    show ?thesis
    proof (cases "(i, v) \<in> wo_replies x")
      case True
      have cl: "claim_outcome dst i = Some v" using assms p True by (auto simp: world_ok_def)
      obtain res src' where r: "resolve_credit_transfer i v now src = (res, src')"
        by (cases "resolve_credit_transfer i v now src")
      have "request_ok src' q" if "request_ok src q" for q
        using that resolve_terms [OF ok cl r] by (simp add: request_ok_terms)
      then show ?thesis
        using resolve_planes(1) [OF ok cl r] resolve_planes(2) [OF ok cl r, of w] assms p Hear True r
        by (simp add: world_ok_def)
    qed (use assms Hear in simp)
  qed
qed

interpretation plane_run: conserving_run plane_step "\<lambda>e x. True" world_ok "\<lambda>x. planes_total w (wo_planes x)"
  by unfold_locales (use plane_step_ok in blast)+

interpretation claim_table: insert_once plane_step "\<lambda>x i. dget (credit_transfer_claims (snd (wo_planes x))) i"
proof
  fix x :: world and i cl and e :: plane_event
  assume a: "dget (credit_transfer_claims (snd (wo_planes x))) i = Some cl"
  have "dget (credit_transfer_claims dst') i = Some cl"
    if "federation_credit_transfer ok q now (snd (wo_planes x)) = (r, dst')" for ok q now r dst'
    using route_claim_kept [OF a, of ok q now] that by simp
  then show "dget (credit_transfer_claims (snd (wo_planes (plane_step e x)))) i = Some cl"
    using a by (cases e) (auto simp: get_credit_transfer_def split: option.split prod.split)
qed

lemma claim_answers:
  assumes "planes_ok (src, dst)" "dget (credit_transfers src) i = Some t"
    and "claim_credit_transfer i (ct_workspace_id t) (ct_amount t) label accept now dst = (res, dst')"
    and "case dget (credit_transfer_claims dst) i of
        None \<Rightarrow> accept \<longrightarrow> dget (credit_money dst) (ct_workspace_id t) \<noteq> None
      | Some claim \<Rightarrow> cl_source claim = [] \<or> label = [] \<or> cl_source claim = label"
  shows "\<exists>v. res = Inr v"
proof -
  have tok: "validate_transfer_id i = Inr i" "0 < ct_amount t"
    using planes_okD(2) [OF assms(1,2)] by (simp_all add: transfer_ok_def)
  obtain ev where ev: "payment_or_grant_event (ct_workspace_id t) i (ct_amount t) (system_grant now) now None None = Inr ev"
    using system_grant_event by blast
  show ?thesis
  proof (cases "dget (credit_transfer_claims dst) i")
    case None
    then show ?thesis using assms(3,4) tok ev
      by (auto simp: claim_credit_transfer_def validate_amount_def Let_def split: if_splits)
  next
    case (Some cl)
    then have "require_matching_claim cl (ct_workspace_id t) (ct_amount t) label = Inr ()"
      using planes_okD(3) [OF assms(1) Some] assms(2,4) by (auto simp: claim_ok_def require_matching_claim_def require_matching_terms_def)
    then show ?thesis using assms(3) tok Some by (auto simp: claim_credit_transfer_def validate_amount_def Let_def)
  qed
qed

section \<open>Properties\<close>

definition fresh_world :: "store \<Rightarrow> store \<Rightarrow> world" where
  "fresh_world src dst = \<lparr>wo_planes = (src, dst), wo_requests = {}, wo_replies = {}\<rparr>"

lemma fresh_world_ok:
  "credit_transfers src = [] \<Longrightarrow> credit_transfer_claims dst = [] \<Longrightarrow> world_ok (fresh_world src dst)"
  by (simp add: world_ok_def fresh_world_def planes_ok_def)

lemma run_world_ok: "world_ok x \<Longrightarrow> world_ok (fold plane_step es x)"
  using plane_run.run_inv [of x es] by simp

text \<open>C1. Value is conserved across planes: from planes without transfers, after any sequence of opened
  escrows, sent requests, handled requests and heard replies, however often each message is
  delivered, lost or reordered, the spendable credit of a workspace at the source, the value held in
  escrow and its spendable credit at the destination add up to what they were.\<close>

theorem transfers_conserve_value:
  assumes "credit_transfers src = []" "credit_transfer_claims dst = []"
  shows "planes_total w (wo_planes (fold plane_step events (fresh_world src dst))) = spendable w src + spendable w dst"
  using plane_run.run_total [OF fresh_world_ok [OF assms], of events w] assms(1)
  by (simp add: fresh_world_def planes_total_def)

definition demo_transfer_events :: "plane_event list" where
  "demo_transfer_events =
     [Open ''t1'' ''w'' 40 ''eu'' 0, Send ''t1'' True ''us'', Send ''t1'' False ''us'',
      Handle \<lparr>rq_transfer_id = ''t1'', rq_workspace_id = ''w'', rq_amount = 40, rq_action = ''accepted'', rq_source_plane = ''us''\<rparr> True 1,
      Handle \<lparr>rq_transfer_id = ''t1'', rq_workspace_id = ''w'', rq_amount = 40, rq_action = ''rejected'', rq_source_plane = ''us''\<rparr> True 2,
      Hear ''t1'' ''accepted'' 3, Hear ''t1'' ''accepted'' 4]"

theorem transfers_conserve_value_witness:
  "planes_total ''w'' (wo_planes (fold plane_step demo_transfer_events (fresh_world (demo_store False) (demo_store False)))) = 200 \<and>
   spendable ''w'' (snd (wo_planes (fold plane_step demo_transfer_events (fresh_world (demo_store False) (demo_store False))))) = 140"
proof -
  have c: "credit_transfers (demo_store False) = []" "credit_transfer_claims (demo_store False) = []" by code_simp+
  have "spendable ''w'' (demo_store False) = 100" by code_simp
  moreover have "spendable ''w'' (snd (wo_planes (fold plane_step demo_transfer_events (fresh_world (demo_store False) (demo_store False))))) = 140"
    by code_simp
  ultimately show ?thesis using transfers_conserve_value [OF c] by simp
qed



text \<open>C19. Pushing, cancelling and recovering transfers, whatever the network loses, keep the planes
  consistent and conserve the value of every workspace; the recovery walk always ends.\<close>

theorem transfer_drivers_conserve_value:
  assumes "planes_ok p"
  shows "planes_ok (snd (push_credit_transfer c n i w amount now p)) \<and>
    planes_total v (snd (push_credit_transfer c n i w amount now p)) = planes_total v p \<and>
    planes_ok (snd (cancel_credit_transfer c n i now p)) \<and>
    planes_total v (snd (cancel_credit_transfer c n i now p)) = planes_total v p \<and>
    planes_ok (snd (recover_credit_transfers c ns limit now p)) \<and>
    planes_total v (snd (recover_credit_transfers c ns limit now p)) = planes_total v p"
  using push_kept [OF assms, of c n i w amount now] cancel_kept [OF assms, of c n i now]
    recover_kept [OF assms, of c ns limit now]
  by (simp add: planes_kept_def)

definition demo_client :: transfer_client where
  "demo_client = \<lparr>tc_destination = ''eu'', tc_source_plane = ''us'', tc_token_ok = True\<rparr>"

theorem transfer_drivers_conserve_value_witness:
  "planes_total ''w'' (snd (push_credit_transfer demo_client Reply_lost ''t1'' ''w'' 40 0 (demo_store False, demo_store False))) = 200 \<and>
   spendable ''w'' (snd (snd (push_credit_transfer demo_client Reply_lost ''t1'' ''w'' 40 0 (demo_store False, demo_store False)))) = 140"
proof -
  have ok: "planes_ok (demo_store False, demo_store False)"
    using fresh_world_ok [of "demo_store False" "demo_store False"]
    by (simp add: world_ok_def fresh_world_def demo_store_def init_store_def)
  have "planes_total ''w'' (demo_store False, demo_store False) = 200" by code_simp
  moreover have "spendable ''w'' (snd (snd (push_credit_transfer demo_client Reply_lost ''t1'' ''w'' 40 0 (demo_store False, demo_store False)))) = 140"
    by code_simp
  ultimately show ?thesis using transfer_drivers_conserve_value [OF ok, of demo_client Reply_lost "''t1''" "''w''" 40 0 "''w''"] by simp
qed



text \<open>
  The three buckets of the module documentation, which count an escrow as undecided only until the
  destination has written its claim row, do not add up between a rejection and the moment the source
  hears of it: the tombstone exists, nothing was credited at the destination, and the source has not
  returned the escrow yet.
\<close>

theorem documented_buckets_miss_rejected_escrow:
  "\<exists>events. documented_total ''w'' (wo_planes (fold plane_step events (fresh_world (demo_store False) (demo_store False)))) \<noteq>
     documented_total ''w'' (wo_planes (fresh_world (demo_store False) (demo_store False)))"
proof
  let ?es = "[Open ''t1'' ''w'' 40 ''eu'' 0, Send ''t1'' False ''us'',
    Handle \<lparr>rq_transfer_id = ''t1'', rq_workspace_id = ''w'', rq_amount = 40, rq_action = ''rejected'', rq_source_plane = ''us''\<rparr> True 1]"
  have "documented_total ''w'' (wo_planes (fold plane_step ?es (fresh_world (demo_store False) (demo_store False)))) = 160"
    and "documented_total ''w'' (wo_planes (fresh_world (demo_store False) (demo_store False))) = 200" by code_simp+
  then show "documented_total ''w'' (wo_planes (fold plane_step ?es (fresh_world (demo_store False) (demo_store False)))) \<noteq>
     documented_total ''w'' (wo_planes (fresh_world (demo_store False) (demo_store False)))" by simp
qed

end
