(* ===== verification/Settlement.thy ===== *)
theory Settlement
  imports Credit_Ledger "HOL-Library.Sublist"
begin

text \<open>
  Gateway authorizations and their settlement: the authorization operations of \<open>InMemoryStore\<close>
  (\<open>storage.py\<close>, lines 3294 to 3494), the key hold of \<open>storage_legacy_trust.py\<close>, and the
  generation log and benchmark samples of \<open>storage_generations.py\<close>.

  The lemmas show that an authorization is finalized once, that finalizing releases exactly the
  hold it froze, and that a caller whose workspace was paused between its reservation and its
  authorization gets neither.
\<close>

section \<open>Generations and benchmark samples\<close>

definition generation_add :: "(string \<Rightarrow> string) \<Rightarrow> generation \<Rightarrow> instant \<Rightarrow> store \<Rightarrow> store" where
  "generation_add uuid5_hex g now s =
     add_usage (gn_key_hash g) (gn_total_cost g) (is_byok (usage_str (gn_usage_type g))) now
       (s\<lparr>generations := dset (gn_id g) g (generations s),
          provider_benchmarks :=
            (if gn_app g \<noteq> ''TrustedRouter Synthetic''
             then provider_benchmarks s @ [from_generation uuid5_hex g] else provider_benchmarks s)\<rparr>)"

definition record_benchmark :: "benchmark_sample \<Rightarrow> store \<Rightarrow> store" where
  "record_benchmark sample s = s\<lparr>provider_benchmarks :=
     filter (\<lambda>x. bs_id x \<noteq> bs_id sample) (provider_benchmarks s) @ [sample]\<rparr>"

text \<open>The selection loop of \<open>route_benchmark_samples\<close>: \<open>counts\<close> is \<open>route_counts\<close>, \<open>n\<close> the number
  of samples selected so far.\<close>

fun select_routes :: "int \<Rightarrow> int \<Rightarrow> (string \<times> string, int) dict \<Rightarrow> int \<Rightarrow> benchmark_sample list \<Rightarrow> benchmark_sample list" where
  "select_routes per_route limit counts n [] = []"
| "select_routes per_route limit counts n (x # xs) =
     (let route = (bs_provider x, bs_model x);
          c = dget_or 0 counts route
      in if c \<ge> max 1 per_route then select_routes per_route limit counts n xs
         else if n + 1 \<ge> max 1 limit then [x]
         else x # select_routes per_route limit (dset route (c + 1) counts) (n + 1) xs)"

definition newest_first :: "benchmark_sample list \<Rightarrow> benchmark_sample list" where
  "newest_first xs = rev (sort_key (\<lambda>x. (bs_created_at x, bs_id x)) (rev xs))"

definition route_benchmark_samples :: "instant \<Rightarrow> int \<Rightarrow> int \<Rightarrow> store \<Rightarrow> benchmark_sample list" where
  "route_benchmark_samples cutoff per_route limit s =
     select_routes per_route limit [] 0 (newest_first
       (filter (\<lambda>x. bs_source x = ''synthetic'' \<and> cutoff \<le> bs_created_at x) (provider_benchmarks s)))"

section \<open>Creating an authorization\<close>

definition legacy_key_hold :: "api_key option \<Rightarrow> int \<Rightarrow> string \<Rightarrow> int" where
  "legacy_key_hold key estimate usage_type =
     (case key of None \<Rightarrow> 0
      | Some k \<Rightarrow> (case ak_limit k of None \<Rightarrow> 0
          | Some _ \<Rightarrow> if py_lower usage_type = ''byok'' \<and> \<not> ak_include_byok_in_limit k then 0 else max 0 estimate))"

text \<open>The arguments of \<open>create_gateway_authorization\<close> beside the frozen terms.  The usage type is the
  text the caller passed, which the key store coerces.\<close>

record authorization_request =
  aq_workspace_id :: string
  aq_key_hash :: string
  aq_usage_type :: string
  aq_terms :: auth_terms
  aq_authorization_id :: "string option"
  aq_deferred_cap :: "microdollars option"
  aq_expected_pause_epoch :: "int option"
  aq_created_at :: "instant option"

definition frozen_terms :: "authorization_request \<Rightarrow> auth_terms" where
  "frozen_terms q = (aq_terms q)\<lparr>tm_usage_type := coerce_usage (aq_usage_type q)\<rparr>"

definition aq_reservation :: "authorization_request \<Rightarrow> string option" where
  "aq_reservation q = tm_credit_reservation_id (aq_terms q)"

definition terminal_key :: "authorization_request \<Rightarrow> string \<times> string \<times> string" where
  "terminal_key q = (aq_workspace_id q, aq_key_hash q, ostr (tm_idempotency_key (aq_terms q)))"

definition stale_epoch :: "authorization_request \<Rightarrow> store \<Rightarrow> bool" where
  "stale_epoch q s \<longleftrightarrow>
     (case aq_expected_pause_epoch q of None \<Rightarrow> False | Some e \<Rightarrow> e \<noteq> legacy_pause_epoch (aq_workspace_id q) s) \<or>
     (case aq_reservation q of None \<Rightarrow> False
      | Some rid \<Rightarrow> dget_or 0 (reservation_pause_epochs s) rid \<noteq> legacy_pause_epoch (aq_workspace_id q) s)"

text \<open>The rejection of an authorization of a paused workspace: the first time, the credit reservation
  and the key hold are released; with an idempotency key the rejection is recorded, and repeats
  release nothing.\<close>

definition release_rejected :: "authorization_request \<Rightarrow> unit store_op" where
  "release_rejected q s =
     (let hold = (case tm_key_reserved (aq_terms q) of
             None \<Rightarrow> legacy_key_hold (get_by_hash (aq_key_hash q) s) (tm_estimated (aq_terms q)) (aq_usage_type q)
           | Some k \<Rightarrow> max 0 k)
      in case (case aq_reservation q of None \<Rightarrow> (Inr (), s) | Some rid \<Rightarrow> store_refund rid s) of
           (Inl err, s1) \<Rightarrow> (Inl err, s1)
         | (Inr _, s1) \<Rightarrow>
             (let s2 = refund_limit (aq_key_hash q) hold s1
              in (Inr (), if tm_idempotency_key (aq_terms q) = None then s2
                          else s2\<lparr>paused_authorizations := insert (terminal_key q) (paused_authorizations s2)\<rparr>)))"

definition reject_paused_authorization :: "authorization_request \<Rightarrow> gateway_authorization store_op" where
  "reject_paused_authorization q s =
     (if terminal_key q \<notin> paused_authorizations s \<or> tm_idempotency_key (aq_terms q) = None
      then case release_rejected q s of (Inl err, s1) \<Rightarrow> (Inl err, s1) | (Inr _, s1) \<Rightarrow> (Inl BillingPausedError, s1)
      else (Inl BillingPausedError, s))"

definition insert_authorization :: "authorization_request \<Rightarrow> string \<Rightarrow> instant \<Rightarrow> gateway_authorization store_op" where
  "insert_authorization q fresh now s =
     keys_create_gateway_authorization (aq_workspace_id q) (aq_key_hash q) (frozen_terms q)
       (aq_authorization_id q) (aq_deferred_cap q) (aq_created_at q) fresh now s"

definition create_gateway_authorization :: "authorization_request \<Rightarrow> string \<Rightarrow> instant \<Rightarrow> gateway_authorization store_op" where
  "create_gateway_authorization q fresh now s =
     (if trust_armed s
      then case Option.bind (tm_idempotency_key (aq_terms q))
                  (\<lambda>ik. keys_get_authorization_by_idempotency_key (aq_workspace_id q) (aq_key_hash q) ik s) of
             Some existing \<Rightarrow> (Inr existing, s)
           | None \<Rightarrow>
               (if foreign_reservation (aq_workspace_id q) (aq_key_hash q) (aq_reservation q) s
                then (Inl (ValueError ''credit reservation belongs to another caller''), s)
                else if legacy_paused (aq_workspace_id q) s \<or> stale_epoch q s \<or> terminal_key q \<in> paused_authorizations s
                then reject_paused_authorization q s
                else insert_authorization q fresh now s)
      else insert_authorization q fresh now s)"

section \<open>Looking an authorization up\<close>

definition get_gateway_authorization :: "string \<Rightarrow> store \<Rightarrow> gateway_authorization option" where
  "get_gateway_authorization auth_id s = dget (gateway_authorizations s) auth_id"

definition get_gateway_authorization_by_gateway_request_id :: "string \<Rightarrow> store \<Rightarrow> gateway_authorization option result" where
  "get_gateway_authorization_by_gateway_request_id req s =
     (case filter (\<lambda>a. fn_gateway_request_id (ga_final a) = Some req) (dvals (gateway_authorizations s)) of
        [] \<Rightarrow> Inr None
      | [a] \<Rightarrow> Inr (Some a)
      | _ \<Rightarrow> Inl AmbiguousGatewayRequestId)"

definition get_gateway_authorization_by_idempotency_key ::
    "string \<Rightarrow> string \<Rightarrow> string \<Rightarrow> store \<Rightarrow> gateway_authorization option result" where
  "get_gateway_authorization_by_idempotency_key w key_hash ik s =
     (if trust_armed s \<and> (w, key_hash, ik) \<in> paused_authorizations s then Inl BillingPausedError
      else Inr (keys_get_authorization_by_idempotency_key w key_hash ik s))"

section \<open>Finalizing an authorization\<close>

text \<open>Settle or refund the credit reservation of the authorization.\<close>

definition finalize_reservation :: "gateway_authorization \<Rightarrow> bool \<Rightarrow> microdollars \<Rightarrow> usage_type \<Rightarrow> unit store_op" where
  "finalize_reservation a success actual usage s =
     (case tm_credit_reservation_id (ga_terms a) of None \<Rightarrow> (Inr (), s)
      | Some rid \<Rightarrow> if success \<and> usage = CREDITS then keys_settle rid actual s else keys_refund rid s)"

definition finalize_hold :: "(string \<Rightarrow> string) \<Rightarrow> gateway_authorization \<Rightarrow> bool \<Rightarrow> microdollars \<Rightarrow> generation option \<Rightarrow> instant \<Rightarrow> store \<Rightarrow> store" where
  "finalize_hold uuid5_hex a success actual gen now s =
     (if success
      then (let s1 = settle_limit (ga_key_hash a) (frozen_key_hold a) actual s
            in case gen of None \<Rightarrow> s1 | Some g \<Rightarrow> generation_add uuid5_hex g now s1)
      else refund_limit (ga_key_hash a) (frozen_key_hold a) s)"

definition finalize_gateway_authorization ::
    "(string \<Rightarrow> string) \<Rightarrow> string \<Rightarrow> bool \<Rightarrow> microdollars \<Rightarrow> string \<Rightarrow> generation option \<Rightarrow> instant \<Rightarrow> bool store_op" where
  "finalize_gateway_authorization uuid5_hex auth_id success actual usage_type gen now s =
     (let usage = coerce_usage usage_type
      in case dget (gateway_authorizations s) auth_id of None \<Rightarrow> (Inr False, s)
       | Some a \<Rightarrow>
           (if ga_settled a then (Inr False, s)
            else case finalize_reservation a success actual usage s of
                (Inl err, s1) \<Rightarrow> (Inl err, s1)
              | (Inr _, s1) \<Rightarrow>
                  (let s2 = finalize_hold uuid5_hex a success actual gen now s1
                   in (Inr True, s2\<lparr>gateway_authorizations :=
                        dset auth_id (record_finalization success actual usage gen None a) (gateway_authorizations s2)\<rparr>))))"


section \<open>Lemmas\<close>

subsection \<open>What finalizing touches\<close>

lemma limit_ops_frame [simp]:
  "credit_money (settle_limit h n m s) = credit_money s" "reservations (settle_limit h n m s) = reservations s"
  "gateway_authorizations (settle_limit h n m s) = gateway_authorizations s"
  "gateway_authorizations (refund_limit h n s) = gateway_authorizations s"
  "credit_money (add_usage h c b now s) = credit_money s" "reservations (add_usage h c b now s) = reservations s"
  "gateway_authorizations (add_usage h c b now s) = gateway_authorizations s"
  by (simp_all add: settle_limit_def refund_limit_def add_usage_def Let_def split: option.split)

lemma limit_ops_store_frame [simp]:
  fixes s :: store
  shows "gateway_authorization_id_by_idempotency_key (refund_limit h n s) = gateway_authorization_id_by_idempotency_key s"
    "trust_events (settle_limit h n m s) = trust_events s" "trust_inbox (settle_limit h n m s) = trust_inbox s"
    "stripe_events (settle_limit h n m s) = stripe_events s"
    "trust_events (refund_limit h n s) = trust_events s" "trust_inbox (refund_limit h n s) = trust_inbox s"
    "stripe_events (refund_limit h n s) = stripe_events s" "trust_armed (refund_limit h n s) = trust_armed s"
    "paused_authorizations (refund_limit h n s) = paused_authorizations s"
    "trust_events (add_usage h c b now s) = trust_events s" "trust_inbox (add_usage h c b now s) = trust_inbox s"
    "stripe_events (add_usage h c b now s) = stripe_events s"
  by (simp_all add: settle_limit_def refund_limit_def add_usage_def Let_def split: option.split)

lemma finalize_hold_frame [simp]:
  "credit_money (finalize_hold u a sc n g now s) = credit_money s" "reservations (finalize_hold u a sc n g now s) = reservations s"
  "gateway_authorizations (finalize_hold u a sc n g now s) = gateway_authorizations s"
  "trust_events (finalize_hold u a sc n g now s) = trust_events s" "trust_inbox (finalize_hold u a sc n g now s) = trust_inbox s"
  "stripe_events (finalize_hold u a sc n g now s) = stripe_events s"
  by (simp_all add: finalize_hold_def generation_add_def Let_def split: option.split)

lemma keys_release_frame [simp]:
  "gateway_authorizations (snd (keys_settle rid n s)) = gateway_authorizations s"
  "gateway_authorizations (snd (keys_refund rid s)) = gateway_authorizations s"
  by (simp_all add: keys_settle_def keys_refund_def split: option.split)

lemma finalize_reservation_frame [simp]:
  "gateway_authorizations (snd (finalize_reservation a sc n u s)) = gateway_authorizations s"
  by (simp add: finalize_reservation_def split: option.split)

lemma finalize_cases:
  assumes "finalize_gateway_authorization u i sc n ut g now s = (res, s')"
  obtains (none) "s' = s" "res = Inr False"
  | (failed) a err where "dget (gateway_authorizations s) i = Some a" "\<not> ga_settled a"
      "finalize_reservation a sc n (coerce_usage ut) s = (Inl err, s')" "res = Inl err"
  | (finalized) a s1 where "dget (gateway_authorizations s) i = Some a" "\<not> ga_settled a"
      "finalize_reservation a sc n (coerce_usage ut) s = (Inr (), s1)" "res = Inr True"
      "s' = (finalize_hold u a sc n g now s1)\<lparr>gateway_authorizations :=
         dset i (record_finalization sc n (coerce_usage ut) g None a) (gateway_authorizations s)\<rparr>"
proof (cases "dget (gateway_authorizations s) i")
  case None
  then show thesis using assms none by (simp add: finalize_gateway_authorization_def Let_def)
next
  case (Some a)
  show thesis
  proof (cases "ga_settled a")
    case True
    then show thesis using assms none Some by (simp add: finalize_gateway_authorization_def Let_def)
  next
    case False
    obtain r s1 where f: "finalize_reservation a sc n (coerce_usage ut) s = (r, s1)"
      by (cases "finalize_reservation a sc n (coerce_usage ut) s")
    have g: "gateway_authorizations s1 = gateway_authorizations s" using finalize_reservation_frame [of a sc n "coerce_usage ut" s] f by simp
    show thesis
    proof (cases r)
      case (Inl err)
      then show thesis using assms failed [OF Some False] f Some False by (simp add: finalize_gateway_authorization_def Let_def)
    next
      case (Inr x)
      then show thesis using assms finalized [OF Some False] f Some False g by (simp add: finalize_gateway_authorization_def Let_def)
    qed
  qed
qed

lemma finalize_settled_noop:
  assumes "dget (gateway_authorizations s) i = Some a" "ga_settled a"
  shows "finalize_gateway_authorization u i sc n ut g now s = (Inr False, s)"
  using assms by (simp add: finalize_gateway_authorization_def Let_def)

lemma finalize_reservation_failed: "finalize_reservation a sc n u s = (Inl err, s') \<Longrightarrow> s' = s"
  by (auto simp: finalize_reservation_def keys_settle_def keys_refund_def split: option.splits if_splits)

subsection \<open>A run of settlement calls\<close>

text \<open>The settle workers, retries and reapers of several processes, in whatever order their calls
  take the lock.\<close>

datatype settle_op =
    Finalize "string \<Rightarrow> string" string bool microdollars string "generation option" instant
  | Mark_settled string
  | Settle_credit string microdollars
  | Refund_credit string

fun settle_step :: "settle_op \<Rightarrow> store \<Rightarrow> store" where
  "settle_step (Finalize u i sc n ut g now) s = snd (finalize_gateway_authorization u i sc n ut g now s)"
| "settle_step (Mark_settled i) s = snd (mark_gateway_authorization_settled i s)"
| "settle_step (Settle_credit rid n) s = snd (store_settle rid n s)"
| "settle_step (Refund_credit rid) s = snd (store_refund rid s)"

definition settled_authorization :: "store \<Rightarrow> string \<Rightarrow> gateway_authorization option" where
  "settled_authorization s i = (case dget (gateway_authorizations s) i of None \<Rightarrow> None
     | Some a \<Rightarrow> if ga_settled a then Some a else None)"

lemma settled_authorization_iff:
  "settled_authorization s i = Some a \<longleftrightarrow> dget (gateway_authorizations s) i = Some a \<and> ga_settled a"
  by (auto simp: settled_authorization_def split: option.splits if_splits)

lemma recover_released_authorizations [simp]:
  "gateway_authorizations (snd (recover_released_credit w s)) = gateway_authorizations s"
  by (simp add: recover_released_credit_def sync_principal_recovery_pause_def Let_def split: option.split prod.split)

lemma store_release_authorizations [simp]:
  "gateway_authorizations (snd (store_settle rid n s)) = gateway_authorizations s"
  "gateway_authorizations (snd (store_refund rid s)) = gateway_authorizations s"
proof -
  show "gateway_authorizations (snd (store_settle rid n s)) = gateway_authorizations s" by (simp add: store_settle_def)
  obtain r s1 where k: "keys_refund rid s = (r, s1)" by (cases "keys_refund rid s")
  then have "gateway_authorizations s1 = gateway_authorizations s" using keys_release_frame(2) [of rid s] by simp
  then show "gateway_authorizations (snd (store_refund rid s)) = gateway_authorizations s"
    unfolding store_refund_def k by (cases r; cases "dget (reservations s1) rid") simp_all
qed

lemma recover_released_index [simp]:
  "gateway_authorization_id_by_idempotency_key (snd (recover_released_credit w s)) = gateway_authorization_id_by_idempotency_key s"
  by (simp add: recover_released_credit_def sync_principal_recovery_pause_def Let_def split: option.split prod.split)

lemma store_refund_frame:
  "trust_armed (snd (store_refund rid s)) = trust_armed s"
  "gateway_authorization_id_by_idempotency_key (snd (store_refund rid s)) = gateway_authorization_id_by_idempotency_key s"
proof -
  obtain r s1 where k: "keys_refund rid s = (r, s1)" by (cases "keys_refund rid s")
  have f: "trust_armed s1 = trust_armed s"
    "gateway_authorization_id_by_idempotency_key s1 = gateway_authorization_id_by_idempotency_key s"
    using k by (auto simp: keys_refund_def split: option.splits if_splits)
  show "trust_armed (snd (store_refund rid s)) = trust_armed s"
    "gateway_authorization_id_by_idempotency_key (snd (store_refund rid s)) = gateway_authorization_id_by_idempotency_key s"
    unfolding store_refund_def k using f by (cases r; cases "dget (reservations s1) rid"; simp)+
qed

lemma finalize_keeps_settled:
  assumes "dget (gateway_authorizations s) i = Some a" "ga_settled a"
  shows "dget (gateway_authorizations (snd (finalize_gateway_authorization u j sc n ut g now s))) i = Some a"
proof -
  obtain res s' where r: "finalize_gateway_authorization u j sc n ut g now s = (res, s')"
    by (cases "finalize_gateway_authorization u j sc n ut g now s")
  from r show ?thesis using assms r
    by (cases rule: finalize_cases) (auto dest: finalize_reservation_failed)
qed

interpretation settlement_table: insert_once settle_step settled_authorization
proof
  fix s i a e
  assume "settled_authorization s i = Some a"
  then have a: "dget (gateway_authorizations s) i = Some a" "ga_settled a" by (simp_all add: settled_authorization_iff)
  have m: "a\<lparr>ga_settled := True\<rparr> = a" using a(2) by simp
  show "settled_authorization (settle_step e s) i = Some a"
    unfolding settled_authorization_iff using a finalize_keeps_settled [OF a] m
    by (cases e) (auto simp: mark_gateway_authorization_settled_def split: option.split)
qed


subsection \<open>The books across a finalization\<close>

lemma finalize_reservation_ok:
  assumes "finalize_reservation a sc n u s = (r, s')"
  shows "ledger_ok b s \<Longrightarrow> books_kept b s s'" "reserved_exact s \<Longrightarrow> reserved_exact s'"
proof -
  show "books_kept b s s'" if "ledger_ok b s"
    using assms keys_ops_books [OF that] books_kept_money [OF that, of s]
    by (auto simp: finalize_reservation_def split: option.splits if_splits) (metis snd_conv)+
  show "reserved_exact s'" if "reserved_exact s"
    using assms keys_settle_exact [OF that] keys_refund_exact [OF that] that
    by (auto simp: finalize_reservation_def split: option.splits if_splits) (metis snd_conv)+
qed

lemma reserved_exact_frame:
  assumes "reserved_exact s" "credit_money s' = credit_money s" "reservations s' = reservations s"
  shows "reserved_exact s'"
  using assms by (simp add: reserved_exact_def open_holds_def)

lemma finalize_books:
  assumes "finalize_gateway_authorization u i sc n ut g now s = (res, s')"
  shows "ledger_ok b s \<Longrightarrow> books_kept b s s'" "reserved_exact s \<Longrightarrow> reserved_exact s'"
proof -
  show "books_kept b s s'" if "ledger_ok b s"
    using assms
  proof (cases rule: finalize_cases)
    case none
    then show ?thesis using that by (simp add: books_kept_def)
  next
    case (failed a err)
    then show ?thesis using finalize_reservation_ok(1) that by blast
  next
    case (finalized a s1)
    have b1: "books_kept b s s1" using finalize_reservation_ok(1) [OF finalized(3) that] .
    have "books_kept b s1 s'"
      by (rule books_kept_money [OF books_kept_ledger [OF b1]]) (simp_all add: finalized(5))
    then show ?thesis using b1 books_kept_trans by blast
  qed
  show "reserved_exact s'" if "reserved_exact s"
    using assms
  proof (cases rule: finalize_cases)
    case none
    then show ?thesis using that by simp
  next
    case (failed a err)
    then show ?thesis using finalize_reservation_ok(2) that by blast
  next
    case (finalized a s1)
    then show ?thesis
      by (intro reserved_exact_frame [OF finalize_reservation_ok(2) [OF finalized(3) that]]) simp_all
  qed
qed

text \<open>What the finalization of an authorization with an open credit reservation does to the book of
  its workspace.\<close>

lemma finalize_reservation_money:
  assumes "finalize_reservation a sc n u s = (Inr x, s')" "tm_credit_reservation_id (ga_terms a) = Some rid"
    and "dget (reservations s) rid = Some r" "\<not> rv_settled r"
    and "dget (credit_money s) (rv_workspace_id r) = Some m"
  shows "dget (credit_money s') (rv_workspace_id r) =
      Some (m\<lparr>cm_reserved := cm_reserved m - rv_amount r,
        cm_usage := cm_usage m + (if sc \<and> u = CREDITS then n else 0)\<rparr>)"
    "dget (reservations s') rid = Some (r\<lparr>rv_settled := True\<rparr>)"
  using assms by (auto simp: finalize_reservation_def keys_settle_def keys_refund_def split: if_splits)

lemma finalize_hold_key:
  assumes "dget (keys s) (ga_key_hash a) = Some k"
  shows "\<exists>k'. dget (keys (finalize_hold u a sc n g now s)) (ga_key_hash a) = Some k' \<and>
    ak_reserved k' = max 0 (ak_reserved k - frozen_key_hold a)"
  using assms
  by (auto simp: finalize_hold_def settle_limit_def refund_limit_def generation_add_def add_usage_def Let_def
      split: option.split)

subsection \<open>Rejected authorizations\<close>

lemma store_refund_runs:
  assumes "dget (reservations s) rid = Some r" "dget (credit_money s) (rv_workspace_id r) = Some m"
  obtains s' where "store_refund rid s = (Inr (), s')" "dget (reservations s') rid = Some (r\<lparr>rv_settled := True\<rparr>)"
proof -
  obtain s1 m' where k: "keys_refund rid s = (Inr (), s1)" "dget (reservations s1) rid = Some (r\<lparr>rv_settled := True\<rparr>)"
    "dget (credit_money s1) (rv_workspace_id r) = Some m'"
    using assms by (cases "rv_settled r") (simp_all add: keys_refund_def)
  show thesis
  proof (cases "trust_armed s1")
    case True
    obtain s2 where s2: "recover_released_credit (rv_workspace_id r) s1 = (Inr (), s2)"
      using k(3) by (cases "recover_claims (owing_rows (rv_workspace_id r) s1) (max 0 (available m')) (trust_events s1)")
        (simp add: recover_released_credit_def Let_def)
    then have "reservations s2 = reservations s1" using recover_released_frame(1) [of "rv_workspace_id r" s1] by simp
    then show thesis using that [of s2] k True s2 by (simp add: store_refund_def)
  next
    case False
    then show thesis using that [of s1] k by (simp add: store_refund_def)
  qed
qed

lemma release_rejected_frame:
  assumes "release_rejected q s = (r, s')"
  shows "gateway_authorizations s' = gateway_authorizations s" "open_from s s'"
proof -
  let ?x = "case aq_reservation q of None \<Rightarrow> (Inr (), s) | Some rid \<Rightarrow> store_refund rid s"
  obtain rr s1 where x: "?x = (rr, s1)" by (cases ?x)
  have x': "gateway_authorizations s1 = gateway_authorizations s" "open_from s s1"
    using x store_release_authorizations(2) [of "the (aq_reservation q)" s] store_refund_open [of s "the (aq_reservation q)"]
    by (auto simp del: store_release_authorizations split: option.splits)
  show "gateway_authorizations s' = gateway_authorizations s" "open_from s s'"
    using assms x' unfolding release_rejected_def x Let_def
    by (cases rr; cases "tm_idempotency_key (aq_terms q)"; force simp: open_from_def)+
qed

lemma reject_paused_authorization_frame:
  assumes "reject_paused_authorization q s = (r, s')"
  shows "\<not> is_ok r" "gateway_authorizations s' = gateway_authorizations s" "open_from s s'"
  using assms release_rejected_frame [of q s] unfolding reject_paused_authorization_def
  by (auto split: if_splits prod.splits sum.splits)

lemma release_rejected_runs:
  assumes "aq_reservation q = Some rid" "dget (reservations s) rid = Some r"
    and "dget (credit_money s) (rv_workspace_id r) = Some m"
  obtains s' where "release_rejected q s = (Inr (), s')" "dget (reservations s') rid = Some (r\<lparr>rv_settled := True\<rparr>)"
    "tm_idempotency_key (aq_terms q) \<noteq> None \<Longrightarrow> terminal_key q \<in> paused_authorizations s'"
    "trust_armed s' = trust_armed s"
    "gateway_authorization_id_by_idempotency_key s' = gateway_authorization_id_by_idempotency_key s"
proof -
  obtain s1 where s1: "store_refund rid s = (Inr (), s1)" "dget (reservations s1) rid = Some (r\<lparr>rv_settled := True\<rparr>)"
    using store_refund_runs [OF assms(2,3)] by blast
  have "trust_armed s1 = trust_armed s"
    "gateway_authorization_id_by_idempotency_key s1 = gateway_authorization_id_by_idempotency_key s"
    using store_refund_frame [of rid s] s1(1) by simp_all
  then show thesis
    using that assms(1) s1
    by (cases "tm_idempotency_key (aq_terms q)") (simp_all add: release_rejected_def Let_def)
qed

subsection \<open>Both books across reserve, refund, authorization and settlement\<close>

text \<open>The recovery books, the counter of open holds, and the principal of every workspace.\<close>

definition account_kept :: "(string \<Rightarrow> bool) \<Rightarrow> store \<Rightarrow> store \<Rightarrow> bool" where
  "account_kept b s s' \<longleftrightarrow> books_kept b s s' \<and> reserved_exact s'"

lemma account_kept_refl: "ledger_ok b s \<Longrightarrow> reserved_exact s \<Longrightarrow> account_kept b s s"
  by (simp add: account_kept_def books_kept_def)

lemma account_keptD: "account_kept b s s' \<Longrightarrow> ledger_ok b s'" "account_kept b s s' \<Longrightarrow> reserved_exact s'"
  by (simp_all add: account_kept_def books_kept_def)

lemma account_kept_trans: "account_kept b s s1 \<Longrightarrow> account_kept b s1 s2 \<Longrightarrow> account_kept b s s2"
  using books_kept_trans unfolding account_kept_def by blast

lemma account_kept_frame:
  assumes "account_kept b s s1" "trust_events s2 = trust_events s1" "trust_inbox s2 = trust_inbox s1"
    and "stripe_events s2 = stripe_events s1" "credit_money s2 = credit_money s1" "reservations s2 = reservations s1"
  shows "account_kept b s s2"
proof (rule account_kept_trans [OF assms(1)])
  note ok = account_keptD [OF assms(1)]
  show "account_kept b s1 s2"
    using books_kept_money [OF ok(1) assms(2-4)] reserved_exact_frame [OF ok(2)] assms(5,6)
    by (simp add: account_kept_def)
qed

lemma recover_released_exact:
  "reserved_exact s \<Longrightarrow> reserved_exact (snd (recover_released_credit w s))"
  by (auto simp: recover_released_credit_def reserved_exact_def open_holds_def Let_def split: option.split prod.split)

lemma store_refund_kept:
  assumes "ledger_ok b s" "reserved_exact s"
  shows "account_kept b s (snd (store_refund rid s))"
proof -
  obtain r1 s1 where k: "keys_refund rid s = (r1, s1)" by (cases "keys_refund rid s")
  have a1: "account_kept b s s1"
    using keys_ops_books(1) [OF assms(1), of rid] keys_refund_exact [OF assms(2), of rid] k
    by (simp add: account_kept_def)
  have rec: "account_kept b s (snd (recover_released_credit w s1))" for w
  proof (cases "dget (credit_money s1) w")
    case None
    then show ?thesis using a1 by (simp add: recover_released_credit_def)
  next
    case (Some m)
    have "account_kept b s1 (snd (recover_released_credit w s1))"
      using recover_released_books [OF account_keptD(1) [OF a1] Some] recover_released_exact [OF account_keptD(2) [OF a1], of w]
      by (auto simp: account_kept_def)
    then show ?thesis using a1 account_kept_trans by blast
  qed
  show ?thesis
    unfolding store_refund_def k using a1 rec by (cases r1; cases "dget (reservations s1) rid") simp_all
qed

lemma reject_paused_kept:
  assumes "ledger_ok b s" "reserved_exact s"
  shows "account_kept b s (snd (reject_paused w k ik hold s))"
proof -
  define refunded where "refunded = (case ik of None \<Rightarrow> (Inr (), s)
    | Some i \<Rightarrow> (case find_reservation w k i s of None \<Rightarrow> (Inr (), s) | Some existing \<Rightarrow> store_refund (rv_id existing) s))"
  have o: "account_kept b s (snd refunded)"
    unfolding refunded_def using store_refund_kept [OF assms] account_kept_refl [OF assms]
    by (cases ik) (simp_all split: option.split)
  obtain rr s1 where r: "refunded = (rr, s1)" by (cases refunded)
  then have a1: "account_kept b s s1" using o by simp
  have "account_kept b s (refund_limit k hold (case ik of None \<Rightarrow> s1
        | Some i \<Rightarrow> s1\<lparr>paused_authorizations := insert (w, k, i) (paused_authorizations s1)\<rparr>))"
    by (rule account_kept_frame [OF a1]) (simp_all split: option.split)
  then show ?thesis
    unfolding reject_paused_def Let_def refunded_def [symmetric] r using o r by (cases rr) simp_all
qed

lemma store_reserve_kept:
  assumes "ledger_ok b s" "reserved_exact s" "dget (reservations s) fresh = None"
  shows "account_kept b s (snd (store_reserve w k n ik kr fresh now s))"
proof -
  obtain r1 s1 where k: "keys_reserve w k n ik fresh now s = (r1, s1)" by (cases "keys_reserve w k n ik fresh now s")
  have a1: "account_kept b s s1"
    using keys_ops_books(3) [OF assms(1), of w k n ik fresh now] keys_reserve_exact [OF assms(2,3), of w k n ik now] k
    by (simp add: account_kept_def)
  have "account_kept b s (s1\<lparr>reservation_pause_epochs := x\<rparr>)" for x
    by (rule account_kept_frame [OF a1]) simp_all
  then show ?thesis
    unfolding store_reserve_def Let_def k using reject_paused_kept [OF assms(1,2)] a1 by (cases r1) auto
qed

lemma release_rejected_kept:
  assumes "ledger_ok b s" "reserved_exact s"
  shows "account_kept b s (snd (release_rejected q s))"
proof -
  let ?x = "case aq_reservation q of None \<Rightarrow> (Inr (), s) | Some rid \<Rightarrow> store_refund rid s"
  obtain rr s1 where x: "?x = (rr, s1)" by (cases ?x)
  have a1: "account_kept b s s1"
    using x store_refund_kept [OF assms, of "the (aq_reservation q)"] account_kept_refl [OF assms]
    by (auto split: option.splits)
  have "account_kept b s (refund_limit h n s1)" "account_kept b s ((refund_limit h n s1)\<lparr>paused_authorizations := p\<rparr>)" for h n p
    by (rule account_kept_frame [OF a1]; simp)+
  then show ?thesis using a1 unfolding release_rejected_def x Let_def by (cases rr) simp_all
qed

lemma create_authorization_kept:
  assumes "ledger_ok b s" "reserved_exact s"
  shows "account_kept b s (snd (create_gateway_authorization q fresh now s))"
proof -
  note same = account_kept_refl [OF assms]
  have ins: "account_kept b s (snd (insert_authorization q fresh now s))"
    by (rule account_kept_frame [OF same])
      (simp_all add: insert_authorization_def keys_create_gateway_authorization_def Let_def split: option.split)
  have rej: "account_kept b s (snd (reject_paused_authorization q s))"
    using same release_rejected_kept [OF assms, of q]
    by (auto simp: reject_paused_authorization_def split: prod.split sum.split)
  show ?thesis using same ins rej by (simp add: create_gateway_authorization_def split: option.split)
qed

lemma finalize_kept:
  assumes "ledger_ok b s" "reserved_exact s"
  shows "account_kept b s (snd (finalize_gateway_authorization u i sc n ut g now s))"
  using finalize_books [of u i sc n ut g now s] assms unfolding account_kept_def by (metis prod.collapse)

subsection \<open>Selected samples\<close>

lemma sorted_wrt_subseq: "subseq xs ys \<Longrightarrow> sorted_wrt R ys \<Longrightarrow> sorted_wrt R xs"
  by (induction rule: list_emb.induct) (auto dest: list_emb_set)

definition on_route :: "string \<times> string \<Rightarrow> benchmark_sample \<Rightarrow> bool" where
  "on_route route x \<longleftrightarrow> (bs_provider x, bs_model x) = route"

definition route_count :: "string \<times> string \<Rightarrow> benchmark_sample list \<Rightarrow> int" where
  "route_count route xs = int (length (filter (on_route route) xs))"

lemma route_count_simps [simp]:
  "route_count route [] = 0" "route_count route (x # xs) = (if on_route route x then 1 else 0) + route_count route xs"
  by (simp_all add: route_count_def)

lemma select_routes_step:
  assumes "max 1 per = (p :: int)" "max 1 limit = (l :: int)"
  shows "select_routes per limit c n (x # xs) =
    (if p \<le> dget_or 0 c (bs_provider x, bs_model x) then select_routes per limit c n xs
     else if l \<le> n + 1 then [x]
     else x # select_routes per limit
       (dset (bs_provider x, bs_model x) (dget_or 0 c (bs_provider x, bs_model x) + 1) c) (n + 1) xs)"
  unfolding assms [symmetric] by (simp add: Let_def del: max.bounded_iff)

declare select_routes.simps(2) [simp del]

lemma select_routes_length:
  assumes "max 1 per = p" "max 1 limit = l"
  shows "n < l \<Longrightarrow> n + int (length (select_routes per limit c n xs)) \<le> l"
proof (induction xs arbitrary: c n)
  case (Cons x xs)
  then show ?case using Cons.IH [of "n + 1"] Cons.IH [of n c] by (auto simp: select_routes_step [OF assms] algebra_simps)
qed simp

lemma select_routes_route:
  assumes "max 1 per = p" "max 1 limit = l"
  shows "dget_or 0 c route \<le> p \<Longrightarrow> dget_or 0 c route + route_count route (select_routes per limit c n xs) \<le> p"
proof (induction xs arbitrary: c n)
  case (Cons x xs)
  let ?r = "(bs_provider x, bs_model x)"
  show ?case
    using Cons.prems Cons.IH [of c n] Cons.IH [of "dset ?r (dget_or 0 c ?r + 1) c" "n + 1"]
    by (cases "?r = route"; cases "p \<le> dget_or 0 c ?r") (auto simp: select_routes_step [OF assms] on_route_def)
qed simp

lemma select_routes_subseq:
  assumes "max 1 per = p" "max 1 limit = l"
  shows "subseq (select_routes per limit c n xs) xs"
  by (induction xs arbitrary: c n) (auto simp: select_routes_step [OF assms])

lemma select_routes_complete:
  assumes "max 1 per = p" "max 1 limit = l"
    and "x \<in> set xs" "n < l" "x \<notin> set (select_routes per limit c n xs)"
    and "n + int (length (select_routes per limit c n xs)) < l"
  shows "p \<le> dget_or 0 c (bs_provider x, bs_model x) + route_count (bs_provider x, bs_model x) (select_routes per limit c n xs)"
  using assms(3-)
proof (induction xs arbitrary: c n)
  case (Cons y ys)
  let ?r = "(bs_provider y, bs_model y)" and ?q = "(bs_provider x, bs_model x)"
  consider "p \<le> dget_or 0 c ?r" | "\<not> p \<le> dget_or 0 c ?r" "n + 1 < l"
    using Cons.prems(4) by (fastforce simp: select_routes_step [OF assms(1,2)] split: if_splits)
  then show ?case
  proof cases
    case 1
    then have e: "select_routes per limit c n (y # ys) = select_routes per limit c n ys"
      by (simp add: select_routes_step [OF assms(1,2)])
    have "0 \<le> route_count ?q (select_routes per limit c n ys)" by (simp add: route_count_def)
    then show ?thesis using 1 Cons.prems Cons.IH [of n c] unfolding e by auto
  next
    case 2
    then have e: "select_routes per limit c n (y # ys) = y # select_routes per limit (dset ?r (dget_or 0 c ?r + 1) c) (n + 1) ys"
      by (simp add: select_routes_step [OF assms(1,2)])
    then show ?thesis using 2 Cons.prems Cons.IH [of "n + 1" "dset ?r (dget_or 0 c ?r + 1) c"]
      unfolding e by (cases "?q = ?r") (auto simp: on_route_def)
  qed
qed simp

section \<open>Properties\<close>

definition demo_terms :: auth_terms where
  "demo_terms = \<lparr>tm_model_id = ''m'', tm_provider = ''p'', tm_usage_type = CREDITS, tm_estimated = 30,
     tm_credit_reservation_id = Some ''r1'', tm_key_reserved = Some 30, tm_requested_model_id = None,
     tm_candidate_model_ids = [], tm_region = None, tm_endpoint_id = None, tm_candidate_endpoint_ids = [],
     tm_idempotency_key = Some ''ik'', tm_tags = [], tm_idempotency_fingerprint = None, tm_app_id = [],
     tm_app_markup_basis_points = 0, tm_app_owner_user_id = [], tm_receipt_fee_basis_points = 0,
     tm_custom_model_id = None, tm_custom_model_revision = None, tm_custom_model_markup_basis_points = 0,
     tm_custom_model_owner_user_id = [], tm_user_provided_model_id = None,
     tm_user_provided_model_revision = None, tm_user_model_prompt_price = None,
     tm_user_model_completion_price = None, tm_user_model_owner_user_id = None,
     tm_additional_cost_reservation = 0, tm_native_batch_eligible = False, tm_video_pricing_snapshot = None,
     tm_settlement = ''local'', tm_expires_at = None, tm_pricing_snapshot = None, tm_invocation_nonce = None,
     tm_stage_d_reason = None\<rparr>"

definition demo_request :: authorization_request where
  "demo_request = \<lparr>aq_workspace_id = ''w'', aq_key_hash = ''k'', aq_usage_type = ''Credits'', aq_terms = demo_terms,
     aq_authorization_id = Some ''gwa-1'', aq_deferred_cap = None, aq_expected_pause_epoch = Some 0,
     aq_created_at = None\<rparr>"

definition demo_reserved :: store where
  "demo_reserved = snd (store_reserve ''w'' ''k'' 30 (Some ''ik'') (Some 30) ''r1'' 0 (demo_store True))"

definition demo_authorized :: store where
  "demo_authorized = snd (create_gateway_authorization demo_request ''x'' 0 demo_reserved)"

lemma demo_authorized_ok:
  "ledger_ok demo_adverse_id demo_authorized" "reserved_exact demo_authorized"
proof -
  have e: "reserved_exact (demo_store True)"
    by (simp add: reserved_exact_def open_holds_def demo_store_def init_store_def new_credit_money_def)
  have "account_kept demo_adverse_id (demo_store True) demo_reserved"
    unfolding demo_reserved_def by (rule store_reserve_kept [OF demo_ledger_ok e]) code_simp
  then have "account_kept demo_adverse_id demo_reserved demo_authorized"
    unfolding demo_authorized_def by (intro create_authorization_kept account_keptD)
  then show "ledger_ok demo_adverse_id demo_authorized" "reserved_exact demo_authorized" by (rule account_keptD)+
qed

text \<open>C16. An authorization is finalized exactly once.  When finalizing returns True, the
  authorization was open; its credit reservation, if still open, is settled, releasing exactly the
  reserved amount and booking the actual cost only for a successful credit request; the books stay
  exact; and whatever settlement calls follow, its recorded outcome never changes and every further
  finalization returns False and changes nothing.\<close>

theorem finalize_exactly_once:
  assumes "finalize_gateway_authorization u i success actual ut g now s = (Inr True, s')"
    and "ledger_ok b s" "reserved_exact s"
  shows "\<exists>a a'. dget (gateway_authorizations s) i = Some a \<and> \<not> ga_settled a \<and>
      a' = record_finalization success actual (coerce_usage ut) g None a \<and>
      (\<forall>rid r m. tm_credit_reservation_id (ga_terms a) = Some rid \<and> dget (reservations s) rid = Some r \<and>
        \<not> rv_settled r \<and> dget (credit_money s) (rv_workspace_id r) = Some m \<longrightarrow>
        dget (reservations s') rid = Some (r\<lparr>rv_settled := True\<rparr>) \<and>
        dget (credit_money s') (rv_workspace_id r) = Some (m\<lparr>cm_reserved := cm_reserved m - rv_amount r,
          cm_usage := cm_usage m + (if success \<and> coerce_usage ut = CREDITS then actual else 0)\<rparr>)) \<and>
      ledger_ok b s' \<and> reserved_exact s' \<and>
      (\<forall>ops. dget (gateway_authorizations (fold settle_step ops s')) i = Some a' \<and>
        finalize_gateway_authorization u2 i success2 actual2 ut2 g2 now2 (fold settle_step ops s') =
          (Inr False, fold settle_step ops s'))"
  using assms(1)
proof (cases rule: finalize_cases)
  case (finalized a s1)
  let ?a = "record_finalization success actual (coerce_usage ut) g None a"
  have "settled_authorization s' i = Some ?a" by (simp add: settled_authorization_iff finalized(5))
  then have kept: "settled_authorization (fold settle_step ops s') i = Some ?a" for ops
    by (rule settlement_table.run_entry_kept)
  then have later: "finalize_gateway_authorization u2 i success2 actual2 ut2 g2 now2 (fold settle_step ops s') =
      (Inr False, fold settle_step ops s')" for ops
    using finalize_settled_noop settled_authorization_iff by blast
  have f: "credit_money s' = credit_money s1" "reservations s' = reservations s1" by (simp_all add: finalized(5))
  have books: "ledger_ok b s'" "reserved_exact s'"
    using finalize_books [OF assms(1)] assms(2,3) books_kept_ledger by blast+
  have kept': "dget (gateway_authorizations (fold settle_step ops s')) i = Some ?a" for ops
    using kept settled_authorization_iff by blast
  have res: "\<forall>rid r m. tm_credit_reservation_id (ga_terms a) = Some rid \<and> dget (reservations s) rid = Some r \<and>
        \<not> rv_settled r \<and> dget (credit_money s) (rv_workspace_id r) = Some m \<longrightarrow>
        dget (reservations s') rid = Some (r\<lparr>rv_settled := True\<rparr>) \<and>
        dget (credit_money s') (rv_workspace_id r) = Some (m\<lparr>cm_reserved := cm_reserved m - rv_amount r,
          cm_usage := cm_usage m + (if success \<and> coerce_usage ut = CREDITS then actual else 0)\<rparr>)"
    unfolding f using finalize_reservation_money [OF finalized(3)] by blast
  show ?thesis
    by (rule exI [of _ a], rule exI [of _ ?a]) (intro conjI finalized(1,2) refl res books allI kept' later)
qed simp_all

definition demo_finalized :: store where
  "demo_finalized = snd (finalize_gateway_authorization (\<lambda>x. x) ''gwa-1'' True 20 ''Credits'' None 5 demo_authorized)"

theorem finalize_exactly_once_witness:
  "finalize_gateway_authorization (\<lambda>x. x) ''gwa-1'' True 20 ''Credits'' None 5 demo_authorized = (Inr True, demo_finalized) \<and>
   map (\<lambda>(w, m). (w, cm_reserved m, cm_usage m)) (credit_money demo_authorized) = [(''w'', 30, 0), (''v'', 0, 0)] \<and>
   map (\<lambda>(w, m). (w, cm_reserved m, cm_usage m)) (credit_money demo_finalized) = [(''w'', 0, 20), (''v'', 0, 0)] \<and>
   finalize_gateway_authorization (\<lambda>x. x) ''gwa-1'' False 0 ''Credits'' None 6 demo_finalized = (Inr False, demo_finalized)"
proof -
  have "fst (finalize_gateway_authorization (\<lambda>x. x) ''gwa-1'' True 20 ''Credits'' None 5 demo_authorized) = Inr True"
    by code_simp
  then have f: "finalize_gateway_authorization (\<lambda>x. x) ''gwa-1'' True 20 ''Credits'' None 5 demo_authorized = (Inr True, demo_finalized)"
    by (simp add: demo_finalized_def prod_eq_iff)
  have m: "map (\<lambda>(w, m). (w, cm_reserved m, cm_usage m)) (credit_money demo_authorized) = [(''w'', 30, 0), (''v'', 0, 0)]"
    "map (\<lambda>(w, m). (w, cm_reserved m, cm_usage m)) (credit_money demo_finalized) = [(''w'', 0, 20), (''v'', 0, 0)]"
    by code_simp+
  obtain a a' where "\<forall>ops. dget (gateway_authorizations (fold settle_step ops demo_finalized)) ''gwa-1'' = Some a' \<and>
      finalize_gateway_authorization (\<lambda>x. x) ''gwa-1'' False 0 ''Credits'' None 6 (fold settle_step ops demo_finalized) =
        (Inr False, fold settle_step ops demo_finalized)"
    using finalize_exactly_once [OF f demo_authorized_ok, of "\<lambda>x. x" False 0 "''Credits''" None 6] by blast
  from this [rule_format, of "[]"] show ?thesis using f m by simp
qed

text \<open>A workspace that is paused, or was paused since the caller's reservation, gets no authorization.
  With the trust programme armed and no earlier authorization under the idempotency key, creation
  raises the pause error, writes no authorization, opens no reservation, and closes the caller's
  reservation; with an idempotency key the same request is refused from then on, also after the
  pause, and releases nothing again.\<close>

theorem paused_authorization_refused:
  assumes "trust_armed s"
    and "Option.bind (tm_idempotency_key (aq_terms q))
      (\<lambda>ik. keys_get_authorization_by_idempotency_key (aq_workspace_id q) (aq_key_hash q) ik s) = None"
    and "\<not> foreign_reservation (aq_workspace_id q) (aq_key_hash q) (aq_reservation q) s"
    and "legacy_paused (aq_workspace_id q) s \<or> stale_epoch q s"
    and "aq_reservation q = Some rid" "dget (reservations s) rid = Some r"
    and "dget (credit_money s) (rv_workspace_id r) = Some m"
    and "terminal_key q \<notin> paused_authorizations s"
  shows "\<exists>s'. create_gateway_authorization q fresh now s = (Inl BillingPausedError, s') \<and>
      gateway_authorizations s' = gateway_authorizations s \<and> open_from s s' \<and>
      dget (reservations s') rid = Some (r\<lparr>rv_settled := True\<rparr>) \<and>
      (tm_idempotency_key (aq_terms q) \<noteq> None \<longrightarrow>
        (\<forall>ws shards. create_gateway_authorization q fresh2 now2 (s'\<lparr>workspaces := ws, credit_trust_shards := shards\<rparr>) =
           (Inl BillingPausedError, s'\<lparr>workspaces := ws, credit_trust_shards := shards\<rparr>)))"
proof -
  obtain s' where rel: "release_rejected q s = (Inr (), s')" "dget (reservations s') rid = Some (r\<lparr>rv_settled := True\<rparr>)"
    "tm_idempotency_key (aq_terms q) \<noteq> None \<Longrightarrow> terminal_key q \<in> paused_authorizations s'"
    "trust_armed s' = trust_armed s"
    "gateway_authorization_id_by_idempotency_key s' = gateway_authorization_id_by_idempotency_key s"
    using release_rejected_runs [OF assms(5,6,7)] by blast
  have rej: "reject_paused_authorization q s = (Inl BillingPausedError, s')"
    using rel(1) assms(8) by (simp add: reject_paused_authorization_def)
  then have cr: "create_gateway_authorization q fresh now s = (Inl BillingPausedError, s')"
    using assms(1-4) by (auto simp: create_gateway_authorization_def)
  note fr = reject_paused_authorization_frame(2,3) [OF rej]
  have again: "create_gateway_authorization q fresh2 now2 (s'\<lparr>workspaces := ws, credit_trust_shards := shards\<rparr>) =
      (Inl BillingPausedError, s'\<lparr>workspaces := ws, credit_trust_shards := shards\<rparr>)"
    if ik: "tm_idempotency_key (aq_terms q) = Some ik" for ik ws shards
  proof -
    let ?t = "s'\<lparr>workspaces := ws, credit_trust_shards := shards\<rparr>"
    have "keys_get_authorization_by_idempotency_key (aq_workspace_id q) (aq_key_hash q) ik ?t = None"
      using assms(2) ik rel(5) fr by (simp add: keys_get_authorization_by_idempotency_key_def)
    moreover have "\<not> foreign_reservation (aq_workspace_id q) (aq_key_hash q) (aq_reservation q) ?t"
      using rel(2) assms(3,5,6) by (simp add: foreign_reservation_def)
    ultimately show ?thesis using ik rel(3,4) assms(1)
      by (simp add: create_gateway_authorization_def reject_paused_authorization_def)
  qed
  show ?thesis
    by (rule exI [of _ s']) (use cr fr rel(2) again in blast)
qed


definition demo_pausing :: store where
  "demo_pausing = demo_reserved\<lparr>workspaces :=
     [(''w'', set_pause_causes [''abuse''] (new_workspace ''w'' ''W'' ''u'' 0))]\<rparr>"

theorem paused_authorization_refused_witness:
  "fst (create_gateway_authorization demo_request ''x'' 0 demo_pausing) = Inl BillingPausedError \<and>
   fst (create_gateway_authorization demo_request ''x'' 0 demo_reserved) \<noteq> Inl BillingPausedError"
proof -
  have c: "trust_armed demo_pausing"
    "Option.bind (tm_idempotency_key (aq_terms demo_request))
      (\<lambda>ik. keys_get_authorization_by_idempotency_key (aq_workspace_id demo_request) (aq_key_hash demo_request) ik demo_pausing) = None"
    "\<not> foreign_reservation (aq_workspace_id demo_request) (aq_key_hash demo_request) (aq_reservation demo_request) demo_pausing"
    "legacy_paused (aq_workspace_id demo_request) demo_pausing \<or> stale_epoch demo_request demo_pausing"
    "aq_reservation demo_request = Some ''r1''"
    "dget (reservations demo_pausing) ''r1'' = Some \<lparr>rv_id = ''r1'', rv_workspace_id = ''w'', rv_key_hash = ''k'',
       rv_amount = 30, rv_settled = False, rv_created_at = 0, rv_idempotency_key = Some ''ik''\<rparr>"
    "terminal_key demo_request \<notin> paused_authorizations demo_pausing"
    by code_simp+
  have m: "dget (credit_money demo_pausing) ''w'' = Some \<lparr>cm_credits = 100, cm_usage = 0, cm_reserved = 30\<rparr>" by code_simp
  have "is_ok (fst (create_gateway_authorization demo_request ''x'' 0 demo_reserved))" by code_simp
  then show ?thesis
    using paused_authorization_refused [OF c(1-6) _ c(7), of "\<lparr>cm_credits = 100, cm_usage = 0, cm_reserved = 30\<rparr>" "''x''" 0 "''y''" 9] m by auto
qed

text \<open>The benchmark sample of routes: the selection holds at most the limit, at most the
  per-route limit of each provider and model, only synthetic samples since the cutoff, newest first,
  and it leaves out a sample only when the selection is full or the sample's route is.\<close>

theorem route_benchmark_samples_spec:
  "let out = route_benchmark_samples cutoff per_route limit s in
    int (length out) \<le> max 1 limit \<and>
    route_count route out \<le> max 1 per_route \<and>
    set out \<subseteq> {x \<in> set (provider_benchmarks s). bs_source x = ''synthetic'' \<and> cutoff \<le> bs_created_at x} \<and>
    sorted_wrt (\<lambda>x y. (bs_created_at y, bs_id y) \<le> (bs_created_at x, bs_id x)) out \<and>
    (int (length out) = max 1 limit \<or>
     {x \<in> set (provider_benchmarks s). bs_source x = ''synthetic'' \<and> cutoff \<le> bs_created_at x \<and>
        route_count (bs_provider x, bs_model x) out < max 1 per_route} \<subseteq> set out)"
proof -
  let ?rows = "filter (\<lambda>x. bs_source x = ''synthetic'' \<and> cutoff \<le> bs_created_at x) (provider_benchmarks s)"
  let ?xs = "newest_first ?rows"
  define out where "out = route_benchmark_samples cutoff per_route limit s"
  have out: "out = select_routes per_route limit [] 0 ?xs" by (simp add: out_def route_benchmark_samples_def)
  have pos: "0 < max 1 limit" by simp
  have len: "int (length out) \<le> max 1 limit"
    using select_routes_length [OF refl refl pos, where per = per_route and c = "[]" and xs = ?xs] out by simp
  have cnt: "route_count r out \<le> max 1 per_route" for r
    using select_routes_route [OF refl refl, of "[]" r per_route limit 0 ?xs] out by simp
  have sub: "subseq out ?xs" unfolding out by (rule select_routes_subseq [OF refl refl])
  have mem: "set ?xs = set ?rows" by (simp add: newest_first_def)
  have "sorted_wrt (\<lambda>x y. (bs_created_at y, bs_id y) \<le> (bs_created_at x, bs_id x)) ?xs"
    using sorted_sort_key [of "\<lambda>x. (bs_created_at x, bs_id x)" "rev ?rows"]
    unfolding newest_first_def sorted_wrt_rev by (simp add: sorted_map)
  then have srt: "sorted_wrt (\<lambda>x y. (bs_created_at y, bs_id y) \<le> (bs_created_at x, bs_id x)) out"
    using sub sorted_wrt_subseq by blast
  have "int (length out) = max 1 limit \<or> route_count (bs_provider x, bs_model x) out = max 1 per_route"
    if "x \<in> set ?rows" "x \<notin> set out" for x
    using select_routes_complete [OF refl refl, of x ?xs 0 limit per_route "[]"] that mem len cnt [of "(bs_provider x, bs_model x)"]
    by (fastforce simp: out [symmetric])
  then have "int (length out) = max 1 limit \<or>
      {x \<in> set ?rows. route_count (bs_provider x, bs_model x) out < max 1 per_route} \<subseteq> set out" by force
  moreover have "set out \<subseteq> set ?rows" using sub mem by (auto dest: list_emb_set)
  ultimately show ?thesis using len cnt srt unfolding out_def [symmetric] Let_def by simp
qed

end
