(* ===== verification/Earnings.thy ===== *)
theory Earnings
  imports Credit_Ledger
begin

text \<open>
  The earnings ledger of \<open>InMemoryStore\<close> (\<open>storage.py\<close>, lines 2490 to 3055): earnings credits and
  their transfer to a workspace, the payout profiles and cash-outs of \<open>routable_payouts.py\<close>, the
  movement listing, lifetime top-ups and the auto-refill settings.

  The main invariant is double entry: what a user has earned minus what left the account is the sum
  of the movement rows of the account \<open>user:<id>\<close>, and the amounts held by cash-outs that were not
  released are part of what left.
\<close>

section \<open>Earning and transferring\<close>

definition user_account :: "string \<Rightarrow> string" where
  "user_account u = ''user:'' @ u"

definition str_or_none :: "string \<Rightarrow> string option" where
  "str_or_none v = (if v = [] then None else Some v)"

definition user_model_payout_event_id :: "string \<Rightarrow> string" where
  "user_model_payout_event_id a = ''custom_model_payout:'' @ a"

definition user_model_authorization_id_from_payout_event_id :: "string \<Rightarrow> string option" where
  "user_model_authorization_id_from_payout_event_id e =
     (if startswith ''custom_model_payout:'' e then str_or_none (drop (length ''custom_model_payout:'') e) else None)"

definition custom_model_markup_payout_event_id :: "string \<Rightarrow> string" where
  "custom_model_markup_payout_event_id a = ''custom_model_markup_payout:'' @ a"

definition custom_model_markup_authorization_id_from_payout_event_id :: "string \<Rightarrow> string option" where
  "custom_model_markup_authorization_id_from_payout_event_id e =
     (if startswith ''custom_model_markup_payout:'' e then str_or_none (drop (length ''custom_model_markup_payout:'') e) else None)"

definition payout_kind :: "string \<Rightarrow> string" where
  "payout_kind e =
     (if startswith ''app_markup_payout:'' e then ''app_markup_payout''
      else if startswith ''custom_model_markup_payout:'' e then ''custom_model_markup_payout''
      else ''custom_model_payout'')"

definition payout_authorization :: "string \<Rightarrow> string option" where
  "payout_authorization e =
     (if startswith ''app_markup_payout:'' e then Some (drop (length ''app_markup_payout:'') e)
      else if startswith ''custom_model_markup_payout:'' e then custom_model_markup_authorization_id_from_payout_event_id e
      else user_model_authorization_id_from_payout_event_id e)"

definition credit_user_earnings ::
    "string \<Rightarrow> microdollars \<Rightarrow> string \<Rightarrow> string option \<Rightarrow> string option \<Rightarrow> instant \<Rightarrow> bool store_op" where
  "credit_user_earnings u amount event_id custom_model_id payer now s =
     (case positive_money_amount amount of Inl err \<Rightarrow> (Inl err, s)
      | Inr amount \<Rightarrow>
          (if event_id \<in> stripe_events s then (Inr False, s)
           else let (earned, transferred) = dget_or (0, 0) (earnings_money s) u
                in (Inr True,
                    s\<lparr>earnings_money := dset u (earned + amount, transferred) (earnings_money s),
                      stripe_events := insert event_id (stripe_events s),
                      credit_movements := dset (user_account u, event_id)
                        ((movement (user_account u) event_id (payout_kind event_id) amount payer (iso_now now))
                           \<lparr>mv_custom_model_id := custom_model_id, mv_authorization_id := payout_authorization event_id\<rparr>)
                        (credit_movements s)\<rparr>)))"

definition transfer_earnings_to_workspace ::
    "string \<Rightarrow> string \<Rightarrow> microdollars \<Rightarrow> string \<Rightarrow> instant \<Rightarrow> string store_op" where
  "transfer_earnings_to_workspace u w amount event_id now s =
     (case positive_money_amount amount of Inl err \<Rightarrow> (Inl err, s)
      | Inr amount \<Rightarrow>
          (if event_id \<in> stripe_events s then (Inr ''duplicate'', s)
           else let (earned, transferred) = dget_or (0, 0) (earnings_money s) u
                in if earned - transferred < amount then (Inr ''insufficient'', s)
                   else case dget (credit_money s) w of
                       None \<Rightarrow> (Inl (ValueError ''credit_account_not_found''), s)
                     | Some m \<Rightarrow>
                         (let s1 = s\<lparr>earnings_money := dset u (earned, transferred + amount) (earnings_money s),
                                     credit_money := dset w (m\<lparr>cm_credits := cm_credits m + amount\<rparr>) (credit_money s),
                                     stripe_events := insert event_id (stripe_events s)\<rparr>
                          in case payment_or_grant_event w event_id amount (system_grant now) now None None of
                               Inl err \<Rightarrow> (Inl err, s1)
                             | Inr ev \<Rightarrow>
                                 (Inr ''accepted'',
                                  s1\<lparr>trust_events := dset (w, event_id) ev (trust_events s1),
                                     credit_movements :=
                                       dset (w, event_id)
                                         (movement w event_id ''earnings_transfer_in'' amount (Some (user_account u)) (iso_now now))
                                         (dset (user_account u, event_id)
                                           (movement (user_account u) event_id ''earnings_transfer_out'' (- amount) (Some w) (iso_now now))
                                           (credit_movements s1))\<rparr>))))"

definition ensure_earnings_account :: "string \<Rightarrow> store \<Rightarrow> store" where
  "ensure_earnings_account u s = s\<lparr>earnings_money := dsetdefault u (0, 0) (earnings_money s)\<rparr>"

text \<open>\<open>total_earned\<close>, \<open>total_transferred\<close> and \<open>available\<close> of the summary.\<close>

definition earnings_summary :: "string \<Rightarrow> store \<Rightarrow> int \<times> int \<times> int" where
  "earnings_summary u s =
     (let (earned, transferred) = dget_or (0, 0) (earnings_money s) u in (earned, transferred, earned - transferred))"

section \<open>Payout profiles\<close>

definition get_routable_payout_profile :: "string \<Rightarrow> store \<Rightarrow> payout_profile option" where
  "get_routable_payout_profile u s = dget (routable_payout_profiles s) u"

definition get_routable_payout_profile_by_company :: "string \<Rightarrow> store \<Rightarrow> payout_profile option" where
  "get_routable_payout_profile_by_company c s =
     Option.bind (dget (routable_payout_profile_users_by_company s) c) (dget (routable_payout_profiles s))"

definition upsert_routable_payout_profile :: "payout_profile \<Rightarrow> payout_profile store_op" where
  "upsert_routable_payout_profile p s =
     (let u = pf_user_id p; c = pf_company_id p
      in if (case dget (routable_payout_profile_users_by_company s) c of None \<Rightarrow> False | Some u' \<Rightarrow> u' \<noteq> u)
         then (Inl (StoreConflict ''Routable company is already linked to another user''), s)
         else let by_company = (case dget (routable_payout_profiles s) u of
                    None \<Rightarrow> routable_payout_profile_users_by_company s
                  | Some previous \<Rightarrow>
                      if pf_company_id previous \<noteq> c
                      then dpop (pf_company_id previous) (routable_payout_profile_users_by_company s)
                      else routable_payout_profile_users_by_company s)
              in (Inr p, s\<lparr>routable_payout_profiles := dset u p (routable_payout_profiles s),
                           routable_payout_profile_users_by_company := dset c u by_company\<rparr>))"

section \<open>Cash-outs\<close>

definition ROUTABLE_RELEASE_STATUSES :: "string list" where
  "ROUTABLE_RELEASE_STATUSES = [''canceled'']"

definition ROUTABLE_PAID_STATUSES :: "string list" where
  "ROUTABLE_PAID_STATUSES = [''completed'', ''externally_paid'']"

definition ROUTABLE_PENDING_STATUSES :: "string list" where
  "ROUTABLE_PENDING_STATUSES = [''compliance_hold'', ''created'', ''initiated'', ''needs_approval'', ''pending'',
     ''po_discrepancy_hold'', ''processing'', ''ready_to_send'', ''scheduled'']"

definition status_one_of :: "string option \<Rightarrow> string list \<Rightarrow> bool" where
  "status_one_of x xs \<longleftrightarrow> (case x of None \<Rightarrow> False | Some v \<Rightarrow> v \<in> set xs)"

definition validate_routable_release_status :: "string option \<Rightarrow> unit result" where
  "validate_routable_release_status status =
     (case status of None \<Rightarrow> Inr ()
      | Some v \<Rightarrow> if v \<notin> set ROUTABLE_RELEASE_STATUSES
          then Inl (ValueError ''Routable cash-out balance can be released only when canceled'') else Inr ())"

definition cashout_movement :: "string \<Rightarrow> string \<Rightarrow> string \<Rightarrow> microdollars \<Rightarrow> instant \<Rightarrow> store \<Rightarrow> store" where
  "cashout_movement u movement_id kind amount created_at s =
     s\<lparr>credit_movements := dset (user_account u, movement_id)
         (movement (user_account u) movement_id kind amount (Some ''routable'') created_at) (credit_movements s)\<rparr>"

definition reserved_id :: "string \<Rightarrow> string" where
  "reserved_id payout_id = ''earnings_cashout:'' @ payout_id"

definition reinstated_id :: "string \<Rightarrow> int \<Rightarrow> string" where
  "reinstated_id payout_id revision = ''earnings_cashout_reinstated:'' @ payout_id @ '':'' @ py_str_int revision"

definition reversal_id :: "string \<Rightarrow> int \<Rightarrow> string" where
  "reversal_id payout_id revision = ''earnings_cashout_reversal:'' @ payout_id @ '':'' @ py_str_int revision"

definition reserve_earnings_cashout :: "earnings_cashout \<Rightarrow> string \<Rightarrow> (string \<times> earnings_cashout option) store_op" where
  "reserve_earnings_cashout c idempotency_entity_id s =
     (case positive_money_amount (ec_amount c) of Inl err \<Rightarrow> (Inl err, s)
      | Inr amount \<Rightarrow>
        (let u = ec_user_id c; key = (u, ec_id c)
         in case dget (earnings_cashout_idempotency s) idempotency_entity_id of
              Some (fingerprint, user_id, payout_id) \<Rightarrow>
                (if fingerprint \<noteq> ec_idempotency_fingerprint c then (Inr (''conflict'', None), s)
                 else case dget (earnings_cashouts s) (user_id, payout_id) of
                     None \<Rightarrow> (Inl (StoreConflict ''cash-out idempotency record lost its payout''), s)
                   | Some existing \<Rightarrow> (Inr (''duplicate'', Some existing), s))
            | None \<Rightarrow>
                (if dget (earnings_cashouts s) key \<noteq> None then (Inr (''conflict'', None), s)
                 else if (case dget (earnings_cashouts_by_external_id s) (ec_external_id c) of
                            None \<Rightarrow> False | Some owner \<Rightarrow> owner \<noteq> key)
                 then (Inr (''conflict'', None), s)
                 else let (earned, transferred) = dget_or (0, 0) (earnings_money s) u
                      in if earned - transferred < amount then (Inr (''insufficient'', None), s)
                         else (Inr (''accepted'', Some c),
                               cashout_movement u (reserved_id (ec_id c)) ''earnings_cashout_reserved'' (- amount) (ec_created_at c)
                                 (s\<lparr>earnings_money := dset u (earned, transferred + amount) (earnings_money s),
                                    earnings_cashouts := dset key c (earnings_cashouts s),
                                    earnings_cashouts_by_external_id := dset (ec_external_id c) key (earnings_cashouts_by_external_id s),
                                    earnings_cashout_idempotency := dset idempotency_entity_id
                                      (ec_idempotency_fingerprint c, u, ec_id c) (earnings_cashout_idempotency s)\<rparr>)))))"

definition get_earnings_cashout :: "string \<Rightarrow> string \<Rightarrow> store \<Rightarrow> earnings_cashout option" where
  "get_earnings_cashout u payout_id s = dget (earnings_cashouts s) (u, payout_id)"

definition get_earnings_cashout_by_routable_payable :: "string \<Rightarrow> store \<Rightarrow> earnings_cashout option" where
  "get_earnings_cashout_by_routable_payable payable s =
     Option.bind (dget (earnings_cashouts_by_routable_payable s) payable) (dget (earnings_cashouts s))"

definition get_earnings_cashout_by_external_id :: "string \<Rightarrow> store \<Rightarrow> earnings_cashout option" where
  "get_earnings_cashout_by_external_id x s =
     Option.bind (dget (earnings_cashouts_by_external_id s) x) (dget (earnings_cashouts s))"

text \<open>\<open>sort(key=key, reverse=True)\<close>, which keeps the order of equal keys.\<close>

definition sort_desc :: "('a \<Rightarrow> 'k :: linorder) \<Rightarrow> 'a list \<Rightarrow> 'a list" where
  "sort_desc key xs = rev (sort_key key (rev xs))"

definition list_earnings_cashouts :: "string \<Rightarrow> int \<Rightarrow> store \<Rightarrow> earnings_cashout list" where
  "list_earnings_cashouts u limit s =
     take (nat (max 0 (min limit 100)))
       (sort_desc (\<lambda>r. (ec_created_at r, ec_id r))
         (map snd (filter (\<lambda>(key, _). fst key = u) (earnings_cashouts s))))"

record cashout_mark =
  mk_state :: string
  mk_payable_id :: "string option"
  mk_status :: "string option"
  mk_error_code :: "string option"
  mk_increment_attempts :: bool

text \<open>Reinstating a released balance because the provider reports the payout as live or paid.\<close>

definition reinstate_cashout :: "string \<Rightarrow> string \<Rightarrow> earnings_cashout \<Rightarrow> instant \<Rightarrow> store \<Rightarrow> store" where
  "reinstate_cashout u payout_id existing now s =
     (let (earned, transferred) = dget_or (0, 0) (earnings_money s) u
      in cashout_movement u (reinstated_id payout_id (ec_balance_revision existing + 1)) ''earnings_cashout_reinstated''
           (- ec_amount existing) (iso_now now)
           (s\<lparr>earnings_money := dset u (earned, transferred + ec_amount existing) (earnings_money s)\<rparr>))"

definition reinstates :: "earnings_cashout \<Rightarrow> string option \<Rightarrow> bool" where
  "reinstates existing status \<longleftrightarrow> ec_balance_status existing = ''released'' \<and>
     status_one_of status (ROUTABLE_PENDING_STATUSES @ ROUTABLE_PAID_STATUSES)"

definition marked_cashout :: "cashout_mark \<Rightarrow> string option \<Rightarrow> instant \<Rightarrow> earnings_cashout \<Rightarrow> earnings_cashout" where
  "marked_cashout mk payable_id now c = c\<lparr>
     ec_state := mk_state mk,
     ec_balance_status := (if status_one_of (mk_status mk) ROUTABLE_PAID_STATUSES then ''paid''
        else if reinstates c (mk_status mk) then ''reserved'' else ec_balance_status c),
     ec_routable_payable_id := payable_id,
     ec_routable_status := str_or (mk_status mk) (ec_routable_status c),
     ec_error_code := mk_error_code mk,
     ec_attempts := ec_attempts c + (if mk_increment_attempts mk then 1 else 0),
     ec_balance_revision := ec_balance_revision c + (if reinstates c (mk_status mk) then 1 else 0),
     ec_updated_at := iso_now now\<rparr>"

definition mark_earnings_cashout :: "string \<Rightarrow> string \<Rightarrow> cashout_mark \<Rightarrow> instant \<Rightarrow> earnings_cashout option store_op" where
  "mark_earnings_cashout u payout_id mk now s =
     (let key = (u, payout_id)
      in case dget (earnings_cashouts s) key of None \<Rightarrow> (Inr None, s)
       | Some existing \<Rightarrow>
           (let payable_id = str_or (mk_payable_id mk) (ec_routable_payable_id existing);
                linked = ostr payable_id
            in if linked \<noteq> [] \<and> (case dget (earnings_cashouts_by_routable_payable s) linked of
                                    None \<Rightarrow> False | Some owner \<Rightarrow> owner \<noteq> key)
               then (Inl (StoreConflict ''Routable payable is already linked''), s)
               else let s1 = (if reinstates existing (mk_status mk) then reinstate_cashout u payout_id existing now s else s);
                        updated = marked_cashout mk payable_id now existing
                    in (Inr (Some updated),
                        s1\<lparr>earnings_cashouts := dset key updated (earnings_cashouts s1),
                           earnings_cashouts_by_routable_payable :=
                             (if linked \<noteq> [] then dset linked key (earnings_cashouts_by_routable_payable s1)
                              else earnings_cashouts_by_routable_payable s1)\<rparr>)))"

definition release_earnings_cashout ::
    "string \<Rightarrow> string \<Rightarrow> string \<Rightarrow> string option \<Rightarrow> string option \<Rightarrow> instant \<Rightarrow> (string \<times> earnings_cashout option) store_op" where
  "release_earnings_cashout u payout_id state routable_status error_code now s =
     (case validate_routable_release_status routable_status of Inl err \<Rightarrow> (Inl err, s)
      | Inr _ \<Rightarrow>
        (let key = (u, payout_id)
         in case dget (earnings_cashouts s) key of None \<Rightarrow> (Inr (''not_found'', None), s)
          | Some existing \<Rightarrow>
              (if ec_balance_status existing = ''released'' then (Inr (''duplicate'', Some existing), s)
               else let (earned, transferred) = dget_or (0, 0) (earnings_money s) u
                    in if transferred < ec_amount existing
                       then (Inl (StoreConflict ''cash-out reservation exceeds transferred earnings''), s)
                       else let revision = ec_balance_revision existing + 1;
                                updated = existing\<lparr>ec_state := state, ec_balance_status := ''released'',
                                  ec_routable_status := str_or routable_status (ec_routable_status existing),
                                  ec_error_code := error_code, ec_balance_revision := revision,
                                  ec_updated_at := iso_now now\<rparr>
                            in (Inr (''released'', Some updated),
                                cashout_movement u (reversal_id payout_id revision) ''earnings_cashout_reversed''
                                  (ec_amount existing) (iso_now now)
                                  (s\<lparr>earnings_money := dset u (earned, transferred - ec_amount existing) (earnings_money s),
                                     earnings_cashouts := dset key updated (earnings_cashouts s)\<rparr>)))))"

section \<open>Listings and top-ups\<close>

definition list_credit_movements :: "string \<Rightarrow> string list option \<Rightarrow> int \<Rightarrow> instant option \<Rightarrow> store \<Rightarrow> credit_movement list" where
  "list_credit_movements account_id kinds limit before s =
     take (nat (max 0 limit))
       (sort_desc (\<lambda>m. (mv_created_at m, mv_movement_id m))
         (map snd (filter (\<lambda>(key, m). fst key = account_id \<and>
             (case kinds of None \<Rightarrow> True | Some ks \<Rightarrow> mv_kind m \<in> set ks) \<and>
             (case before of None \<Rightarrow> True | Some t \<Rightarrow> mv_created_at m < t)) (credit_movements s))))"

fun earnings_by_model :: "string \<Rightarrow> instant \<Rightarrow> credit_movement list \<Rightarrow> (string, int) dict \<Rightarrow> (string, int) dict" where
  "earnings_by_model u since [] totals = totals"
| "earnings_by_model u since (m # ms) totals =
     (case mv_custom_model_id m of None \<Rightarrow> earnings_by_model u since ms totals
      | Some model \<Rightarrow>
          (if mv_account_id m = user_account u \<and> mv_kind m = ''custom_model_payout'' \<and> since \<le> mv_created_at m
           then earnings_by_model u since ms (dset model (dget_or 0 totals model + mv_amount m) totals)
           else earnings_by_model u since ms totals))"

definition custom_model_earnings_by_model :: "string \<Rightarrow> instant \<Rightarrow> store \<Rightarrow> (string, int) dict" where
  "custom_model_earnings_by_model u since s = earnings_by_model u since (dvals (credit_movements s)) []"

definition get_lifetime_topup_microdollars :: "string \<Rightarrow> store \<Rightarrow> int" where
  "get_lifetime_topup_microdollars u s = dget_or 0 (lifetime_topups s) u"

definition add_lifetime_topup :: "string \<Rightarrow> microdollars \<Rightarrow> string \<Rightarrow> bool store_op" where
  "add_lifetime_topup u amount event_id s =
     (case positive_money_amount amount of Inl err \<Rightarrow> (Inl err, s)
      | Inr amount \<Rightarrow>
          (if event_id \<in> stripe_events s then (Inr False, s)
           else (Inr True, s\<lparr>stripe_events := insert event_id (stripe_events s),
                   lifetime_topups := dset u (dget_or 0 (lifetime_topups s) u + amount) (lifetime_topups s)\<rparr>)))"

section \<open>Auto-refill settings\<close>

definition on_account :: "string \<Rightarrow> (credit_account \<Rightarrow> credit_account) \<Rightarrow> store \<Rightarrow> credit_account option \<times> store" where
  "on_account w f s =
     (case dget (credits s) w of None \<Rightarrow> (None, s)
      | Some account \<Rightarrow> (Some (f account), s\<lparr>credits := dset w (f account) (credits s)\<rparr>))"

definition update_auto_refill_settings :: "string \<Rightarrow> bool \<Rightarrow> int \<Rightarrow> int \<Rightarrow> store \<Rightarrow> credit_account option \<times> store" where
  "update_auto_refill_settings w enabled threshold amount =
     on_account w (\<lambda>a. a\<lparr>ca_auto_refill_enabled := enabled, ca_auto_refill_threshold := max 0 threshold,
       ca_auto_refill_amount := max 0 amount\<rparr>)"

definition set_stripe_customer :: "string \<Rightarrow> string \<Rightarrow> string option \<Rightarrow> store \<Rightarrow> credit_account option \<times> store" where
  "set_stripe_customer w customer payment_method =
     on_account w (\<lambda>a. let a1 = a\<lparr>ca_stripe_customer_id := Some customer\<rparr>
       in case payment_method of None \<Rightarrow> a1 | Some p \<Rightarrow> a1\<lparr>ca_stripe_payment_method_id := Some p\<rparr>)"

definition clear_stripe_payment_method :: "string \<Rightarrow> instant \<Rightarrow> store \<Rightarrow> credit_account option \<times> store" where
  "clear_stripe_payment_method w now =
     on_account w (\<lambda>a. a\<lparr>ca_stripe_payment_method_id := None, ca_auto_refill_enabled := False,
       ca_last_auto_refill_at := Some (iso_now now),
       ca_last_auto_refill_status := Some ''disabled:payment_method_removed''\<rparr>)"

definition record_auto_refill_outcome :: "string \<Rightarrow> string \<Rightarrow> instant \<Rightarrow> store \<Rightarrow> credit_account option \<times> store" where
  "record_auto_refill_outcome w status now =
     on_account w (\<lambda>a. a\<lparr>ca_last_auto_refill_at := Some (iso_now now), ca_last_auto_refill_status := Some status\<rparr>)"

section \<open>Identifiers\<close>

lemma py_str_int_no_colon: "CHR '':'' \<notin> set (py_str_int i)"
  by (simp add: py_str_int_def nat_str_no_colon)

lemma py_str_int_inj: "py_str_int i = py_str_int j \<longleftrightarrow> i = j"
proof
  have m: "nat_str n \<noteq> CHR ''-'' # xs" for n xs using nat_str_no_minus [of n] by auto
  assume "py_str_int i = py_str_int j"
  then show "i = j"
    using m m [symmetric] by (auto simp: py_str_int_def nat_str_inj split: if_splits)
qed simp

lemma last_field_inj:
  assumes "p @ CHR '':'' # x = q @ CHR '':'' # y" "CHR '':'' \<notin> set x" "CHR '':'' \<notin> set y"
  shows "p = q \<and> x = y"
proof -
  have t: "takeWhile (\<lambda>c. c \<noteq> CHR '':'') (rev (r @ CHR '':'' # z)) = rev z" if "CHR '':'' \<notin> set z" for r z
    using that takeWhile_append2 [of "rev z" "\<lambda>c. c \<noteq> CHR '':''" "CHR '':'' # rev r"] by auto
  have "x = y" using t [OF assms(2), of p] t [OF assms(3), of q] assms(1) by simp
  then show ?thesis using assms(1) by simp
qed

lemma cashout_ids [simp]:
  "reserved_id p = reserved_id q \<longleftrightarrow> p = q"
  "reinstated_id p m = reinstated_id q n \<longleftrightarrow> p = q \<and> m = n"
  "reversal_id p m = reversal_id q n \<longleftrightarrow> p = q \<and> m = n"
  "reserved_id p \<noteq> reinstated_id q n" "reserved_id p \<noteq> reversal_id q n" "reinstated_id p m \<noteq> reversal_id q n"
  "reinstated_id q n \<noteq> reserved_id p" "reversal_id q n \<noteq> reserved_id p" "reversal_id q n \<noteq> reinstated_id p m"
  using last_field_inj [OF _ py_str_int_no_colon py_str_int_no_colon, of p m q n]
  by (auto simp: reserved_id_def reinstated_id_def reversal_id_def py_str_int_inj)

lemma user_account_inj [simp]: "user_account u = user_account v \<longleftrightarrow> u = v"
  by (simp add: user_account_def)

text \<open>The movement ids of cash-outs; the event ids of earnings credits and transfers are built in
  other namespaces.\<close>

definition cashout_id :: "string \<Rightarrow> bool" where
  "cashout_id i \<longleftrightarrow> startswith ''earnings_cashout'' i"

lemma cashout_id_simps [simp]:
  "cashout_id (reserved_id p)" "cashout_id (reinstated_id p n)" "cashout_id (reversal_id p n)"
  by (simp_all add: cashout_id_def startswith_def reserved_id_def reinstated_id_def reversal_id_def)

lemma payout_event_roundtrip:
  "a \<noteq> [] \<Longrightarrow> user_model_authorization_id_from_payout_event_id (user_model_payout_event_id a) = Some a"
  "a \<noteq> [] \<Longrightarrow> custom_model_markup_authorization_id_from_payout_event_id (custom_model_markup_payout_event_id a) = Some a"
  by (simp_all add: user_model_authorization_id_from_payout_event_id_def user_model_payout_event_id_def
      custom_model_markup_authorization_id_from_payout_event_id_def custom_model_markup_payout_event_id_def
      startswith_def str_or_none_def)

section \<open>Double entry\<close>

definition earned :: "string \<Rightarrow> store \<Rightarrow> int" where
  "earned u s = fst (dget_or (0, 0) (earnings_money s) u)"

definition transferred :: "string \<Rightarrow> store \<Rightarrow> int" where
  "transferred u s = snd (dget_or (0, 0) (earnings_money s) u)"

definition entry_of :: "string \<Rightarrow> string \<times> string \<Rightarrow> credit_movement \<Rightarrow> int" where
  "entry_of u key m = (if fst key = user_account u then mv_amount m else 0)"

definition account_sum :: "string \<Rightarrow> store \<Rightarrow> int" where
  "account_sum u s = esum (entry_of u) (credit_movements s)"

definition cashout_hold :: "string \<Rightarrow> earnings_cashout \<Rightarrow> int" where
  "cashout_hold u c = (if ec_user_id c = u \<and> ec_balance_status c \<noteq> ''released'' then ec_amount c else 0)"

definition cashout_holds :: "string \<Rightarrow> store \<Rightarrow> int" where
  "cashout_holds u s = dsum (cashout_hold u) (earnings_cashouts s)"

definition movement_known :: "string \<Rightarrow> string \<Rightarrow> store \<Rightarrow> bool" where
  "movement_known u i s \<longleftrightarrow>
     (if cashout_id i
      then \<exists>p c. dget (earnings_cashouts s) (u, p) = Some c \<and>
        (i = reserved_id p \<or> (\<exists>r \<le> ec_balance_revision c. i = reinstated_id p r \<or> i = reversal_id p r))
      else i \<in> stripe_events s)"

definition cashouts_ok :: "store \<Rightarrow> bool" where
  "cashouts_ok s \<longleftrightarrow> distinct (map fst (earnings_cashouts s)) \<and>
     (\<forall>u p c. dget (earnings_cashouts s) (u, p) = Some c \<longrightarrow> ec_user_id c = u \<and> ec_id c = p \<and> 0 < ec_amount c)"

definition movements_ok :: "store \<Rightarrow> bool" where
  "movements_ok s \<longleftrightarrow> (\<forall>u i. dget (credit_movements s) (user_account u, i) \<noteq> None \<longrightarrow> movement_known u i s)"

definition earnings_ok :: "store \<Rightarrow> bool" where
  "earnings_ok s \<longleftrightarrow> (\<forall>u. earned u s - transferred u s = account_sum u s) \<and>
     (\<forall>u. cashout_holds u s \<le> transferred u s) \<and> cashouts_ok s \<and> movements_ok s"

lemma earnings_okI:
  assumes "\<And>u. earned u s - transferred u s = account_sum u s" "\<And>u. cashout_holds u s \<le> transferred u s"
    "cashouts_ok s" "movements_ok s"
  shows "earnings_ok s"
  using assms by (simp add: earnings_ok_def)

lemma earnings_okD:
  assumes "earnings_ok s"
  shows "earned u s - transferred u s = account_sum u s" "cashout_holds u s \<le> transferred u s"
    "cashouts_ok s" "movements_ok s"
  using assms by (simp_all add: earnings_ok_def)

lemma cashouts_okD:
  "cashouts_ok s \<Longrightarrow> dget (earnings_cashouts s) (u, p) = Some c \<Longrightarrow> ec_user_id c = u \<and> ec_id c = p \<and> 0 < ec_amount c"
  by (simp add: cashouts_ok_def)

lemma movements_okD: "movements_ok s \<Longrightarrow> \<not> movement_known u i s \<Longrightarrow> dget (credit_movements s) (user_account u, i) = None"
  unfolding movements_ok_def by blast

lemma earnings_money_set [simp]:
  "earned u (s\<lparr>earnings_money := dset v (e, t) d\<rparr>) = (if u = v then e else fst (dget_or (0, 0) d u))"
  "transferred u (s\<lparr>earnings_money := dset v (e, t) d\<rparr>) = (if u = v then t else snd (dget_or (0, 0) d u))"
  by (simp_all add: earned_def transferred_def)

lemma entry_of_simps [simp]:
  "entry_of u (user_account v, i) m = (if v = u then mv_amount m else 0)"
  "\<not> startswith ''user:'' w \<Longrightarrow> entry_of u (w, i) m = 0"
  by (auto simp: entry_of_def user_account_def startswith_def)

text \<open>Writing a movement row of the account of a user, under a key that is not in use.\<close>

lemma account_sum_new:
  assumes "dget (credit_movements s) (user_account v, i) = None"
    and "credit_movements s' = dset (user_account v, i) m (credit_movements s)"
  shows "account_sum u s' = account_sum u s + (if v = u then mv_amount m else 0)"
  using assms by (simp add: account_sum_def esum_dset)

lemma account_sum_foreign:
  assumes "\<not> startswith ''user:'' w" "credit_movements s' = dset (w, i) m (credit_movements s)"
  shows "account_sum u s' = account_sum u s"
proof -
  have "ecell (entry_of u) (w, i) x = 0" for x using assms(1) by (cases x) simp_all
  then show ?thesis using assms by (simp add: account_sum_def esum_dset)
qed

lemma movement_fixed_simps [simp]:
  "mv_amount (movement a i k n c t) = n" "mv_account_id (movement a i k n c t) = a"
  by (simp_all add: movement_def)

text \<open>What an earnings operation may do: move the balance of one user together with one new row.\<close>

lemma earnings_post:
  assumes ok: "earnings_ok s"
    and money: "earnings_money s' = dset v (e, t) (earnings_money s)"
    and fresh: "dget (credit_movements s) (user_account v, i) = None"
    and mv: "credit_movements s' = dset (user_account v, i) m (credit_movements s)"
    and delta: "mv_amount m = (e - t) - (earned v s - transferred v s)"
    and hold: "\<And>u. cashout_holds u s' = cashout_holds u s + (if u = v then h else 0)" "h \<le> t - transferred v s"
    and co: "cashouts_ok s'"
    and known: "movement_known v i s'" "\<And>u j. movement_known u j s \<Longrightarrow> movement_known u j s'"
  shows "earnings_ok s'"
proof (rule earnings_okI)
  have et: "earned u s' = (if u = v then e else earned u s)" "transferred u s' = (if u = v then t else transferred u s)" for u
    by (simp_all add: earned_def transferred_def money)
  show "earned u s' - transferred u s' = account_sum u s'" for u
    using earnings_okD(1) [OF ok, of u] account_sum_new [OF fresh mv, of u] delta by (auto simp: et)
  show "cashout_holds u s' \<le> transferred u s'" for u
    using earnings_okD(2) [OF ok, of u] hold(1) [of u] hold(2) by (auto simp: et)
  show "movements_ok s'"
    using earnings_okD(4) [OF ok] known unfolding movements_ok_def by (auto simp: mv)
qed (rule co)

lemma movement_known_mono:
  assumes "movement_known u i s" "stripe_events s \<subseteq> stripe_events s'" "earnings_cashouts s' = earnings_cashouts s"
  shows "movement_known u i s'"
  using assms by (auto simp: movement_known_def split: if_splits)

lemma movement_known_cashouts:
  assumes "movement_known u i s" "stripe_events s' = stripe_events s"
    and "\<And>v p c. dget (earnings_cashouts s) (v, p) = Some c \<Longrightarrow>
      \<exists>c'. dget (earnings_cashouts s') (v, p) = Some c' \<and> ec_balance_revision c \<le> ec_balance_revision c'"
  shows "movement_known u i s'"
  using assms unfolding movement_known_def by (smt (verit) order_trans)

lemma earnings_ok_foreign:
  assumes "earnings_ok s" "\<not> startswith ''user:'' w" "earnings_money s' = earnings_money s"
    and "earnings_cashouts s' = earnings_cashouts s" "stripe_events s \<subseteq> stripe_events s'"
    and "credit_movements s' = dset (w, i) m (credit_movements s)"
  shows "earnings_ok s'"
proof (rule earnings_okI)
  show "earned u s' - transferred u s' = account_sum u s'" for u
    using earnings_okD(1) [OF assms(1), of u] account_sum_foreign [OF assms(2,6), of u] assms(3)
    by (simp add: earned_def transferred_def)
  show "cashout_holds u s' \<le> transferred u s'" for u
    using earnings_okD(2) [OF assms(1), of u] assms(3,4) by (simp add: transferred_def cashout_holds_def)
  show "cashouts_ok s'" using earnings_okD(3) [OF assms(1)] assms(4) by (simp add: cashouts_ok_def)
  have "user_account u \<noteq> w" for u using assms(2) by (auto simp: user_account_def startswith_def)
  then show "movements_ok s'"
    using earnings_okD(4) [OF assms(1)] movement_known_mono [OF _ assms(5,4)] assms(6)
    unfolding movements_ok_def by auto
qed

lemma earnings_ok_frame:
  assumes "earnings_ok s" "earnings_money s' = earnings_money s"
    and "earnings_cashouts s' = earnings_cashouts s" "stripe_events s \<subseteq> stripe_events s'"
    and "credit_movements s' = credit_movements s"
  shows "earnings_ok s'"
  using assms movement_known_mono [OF _ assms(4,3)]
  by (auto simp: earnings_ok_def earned_def transferred_def account_sum_def cashout_holds_def cashouts_ok_def movements_ok_def)

subsection \<open>Each operation\<close>

lemma credit_earnings_cases:
  assumes "credit_user_earnings u n e cm payer now s = (res, s')"
  obtains (same) "s' = s" "res \<noteq> Inr True"
  | (credited) "0 < n" "e \<notin> stripe_events s" "res = Inr True"
      "s' = s\<lparr>earnings_money := dset u (earned u s + n, transferred u s) (earnings_money s),
         stripe_events := insert e (stripe_events s),
         credit_movements := dset (user_account u, e)
           ((movement (user_account u) e (payout_kind e) n payer (iso_now now))
              \<lparr>mv_custom_model_id := cm, mv_authorization_id := payout_authorization e\<rparr>) (credit_movements s)\<rparr>"
proof -
  obtain a t where at: "dget_or (0, 0) (earnings_money s) u = (a, t)" by (cases "dget_or (0, 0) (earnings_money s) u")
  then have eq: "earned u s = a" "transferred u s = t" by (simp_all add: earned_def transferred_def)
  show thesis
  proof (cases "0 < n \<and> e \<notin> stripe_events s")
    case True
    show thesis
      by (rule credited) (use True at eq assms in \<open>auto simp: credit_user_earnings_def positive_money_amount_def\<close>)
  next
    case False
    then show thesis
      using assms by (intro same) (auto simp: credit_user_earnings_def positive_money_amount_def split: if_splits)
  qed
qed

lemma credit_earnings_ok:
  assumes "earnings_ok s" "\<not> cashout_id e" "credit_user_earnings u n e cm payer now s = (res, s')"
  shows "earnings_ok s'"
  using assms(3)
proof (cases rule: credit_earnings_cases)
  case same
  then show ?thesis using assms(1) by simp
next
  case credited
  have fresh: "dget (credit_movements s) (user_account u, e) = None"
    using movements_okD [OF earnings_okD(4) [OF assms(1)]] assms(2) credited(2) by (simp add: movement_known_def)
  have mv: "credit_movements s' = dset (user_account u, e)
    ((movement (user_account u) e (payout_kind e) n payer (iso_now now))
       \<lparr>mv_custom_model_id := cm, mv_authorization_id := payout_authorization e\<rparr>) (credit_movements s)"
    by (simp add: credited(4))
  show ?thesis
  proof (rule earnings_post [OF assms(1) _ fresh mv, where h = 0 and e = "earned u s + n" and t = "transferred u s"])
    show "cashouts_ok s'" using earnings_okD(3) [OF assms(1)] by (simp add: credited(4) cashouts_ok_def)
    show "movement_known v j s \<Longrightarrow> movement_known v j s'" for v j
      by (erule movement_known_mono) (auto simp: credited(4))
    show "movement_known u e s'" using assms(2) by (simp add: movement_known_def credited(4))
  qed (simp_all add: credited(4) cashout_holds_def)
qed

lemma transfer_earnings_cases:
  assumes "transfer_earnings_to_workspace u w n e now s = (res, s')"
  obtains (same) "s' = s" "res \<noteq> Inr ''accepted''"
  | (moved) m ev where "0 < n" "e \<notin> stripe_events s" "n \<le> earned u s - transferred u s"
      "dget (credit_money s) w = Some m" "res = Inr ''accepted''"
      "payment_or_grant_event w e n (system_grant now) now None None = Inr ev" "te_kind ev = ''grant''"
      "s' = s\<lparr>earnings_money := dset u (earned u s, transferred u s + n) (earnings_money s),
         credit_money := dset w (m\<lparr>cm_credits := cm_credits m + n\<rparr>) (credit_money s),
         stripe_events := insert e (stripe_events s),
         trust_events := dset (w, e) ev (trust_events s),
         credit_movements := dset (w, e)
           (movement w e ''earnings_transfer_in'' n (Some (user_account u)) (iso_now now))
           (dset (user_account u, e)
             (movement (user_account u) e ''earnings_transfer_out'' (- n) (Some w) (iso_now now))
             (credit_movements s))\<rparr>"
proof -
  obtain ev where ev: "payment_or_grant_event w e n (system_grant now) now None None = Inr ev" "te_kind ev = ''grant''"
    using system_grant_event by blast
  obtain a t where at: "dget_or (0, 0) (earnings_money s) u = (a, t)" by (cases "dget_or (0, 0) (earnings_money s) u")
  then have eq: "earned u s = a" "transferred u s = t" by (simp_all add: earned_def transferred_def)
  show thesis
  proof (cases "0 < n \<and> e \<notin> stripe_events s \<and> n \<le> a - t \<and> dget (credit_money s) w \<noteq> None")
    case True
    then obtain m where m: "dget (credit_money s) w = Some m" by blast
    show thesis
      by (rule moved [OF _ _ _ m _ ev])
        (use True m at ev eq assms in \<open>auto simp: transfer_earnings_to_workspace_def positive_money_amount_def\<close>)
  next
    case False
    then show thesis
      using assms at by (intro same) (auto simp: transfer_earnings_to_workspace_def positive_money_amount_def split: if_splits option.splits)
  qed
qed

lemma transfer_earnings_ok:
  assumes "earnings_ok s" "\<not> cashout_id e" "\<not> startswith ''user:'' w"
    and "transfer_earnings_to_workspace u w n e now s = (res, s')"
  shows "earnings_ok s'"
  using assms(4)
proof (cases rule: transfer_earnings_cases)
  case same
  then show ?thesis using assms(1) by simp
next
  case (moved m ev)
  have fresh: "dget (credit_movements s) (user_account u, e) = None"
    using movements_okD [OF earnings_okD(4) [OF assms(1)]] assms(2) moved(2) by (simp add: movement_known_def)
  define s1 where "s1 = s'\<lparr>credit_movements := dset (user_account u, e)
    (movement (user_account u) e ''earnings_transfer_out'' (- n) (Some w) (iso_now now)) (credit_movements s)\<rparr>"
  have mv: "credit_movements s1 = dset (user_account u, e)
    (movement (user_account u) e ''earnings_transfer_out'' (- n) (Some w) (iso_now now)) (credit_movements s)"
    by (simp add: s1_def)
  have "earnings_ok s1"
  proof (rule earnings_post [OF assms(1) _ fresh mv, where h = 0 and e = "earned u s" and t = "transferred u s + n"])
    show "cashouts_ok s1" using earnings_okD(3) [OF assms(1)] by (simp add: s1_def moved(8) cashouts_ok_def)
    show "movement_known v j s \<Longrightarrow> movement_known v j s1" for v j
      by (erule movement_known_mono) (auto simp: s1_def moved(8))
    show "movement_known u e s1" using assms(2) by (simp add: movement_known_def s1_def moved(8))
  qed (use moved(1) in \<open>simp_all add: s1_def moved(8) cashout_holds_def\<close>)
  then show ?thesis
    by (rule earnings_ok_foreign [OF _ assms(3)]) (simp_all add: s1_def moved(8))
qed

lemma reserve_cashout_cases:
  assumes "reserve_earnings_cashout c idem s = (res, s')"
  obtains (same) "s' = s" "\<And>x. res \<noteq> Inr (''accepted'', x)"
  | (reserved) "0 < ec_amount c" "dget (earnings_cashout_idempotency s) idem = None"
      "dget (earnings_cashouts s) (ec_user_id c, ec_id c) = None"
      "ec_amount c \<le> earned (ec_user_id c) s - transferred (ec_user_id c) s" "res = Inr (''accepted'', Some c)"
      "s' = cashout_movement (ec_user_id c) (reserved_id (ec_id c)) ''earnings_cashout_reserved'' (- ec_amount c) (ec_created_at c)
        (s\<lparr>earnings_money := dset (ec_user_id c)
             (earned (ec_user_id c) s, transferred (ec_user_id c) s + ec_amount c) (earnings_money s),
           earnings_cashouts := dset (ec_user_id c, ec_id c) c (earnings_cashouts s),
           earnings_cashouts_by_external_id := dset (ec_external_id c) (ec_user_id c, ec_id c) (earnings_cashouts_by_external_id s),
           earnings_cashout_idempotency := dset idem
             (ec_idempotency_fingerprint c, ec_user_id c, ec_id c) (earnings_cashout_idempotency s)\<rparr>)"
proof -
  let ?u = "ec_user_id c"
  obtain a t where at: "dget_or (0, 0) (earnings_money s) ?u = (a, t)" by (cases "dget_or (0, 0) (earnings_money s) ?u")
  then have eq: "earned ?u s = a" "transferred ?u s = t" by (simp_all add: earned_def transferred_def)
  show thesis
  proof (cases "0 < ec_amount c \<and> dget (earnings_cashout_idempotency s) idem = None \<and>
      dget (earnings_cashouts s) (?u, ec_id c) = None \<and>
      \<not> (case dget (earnings_cashouts_by_external_id s) (ec_external_id c) of None \<Rightarrow> False | Some owner \<Rightarrow> owner \<noteq> (?u, ec_id c)) \<and>
      ec_amount c \<le> a - t")
    case True
    then show thesis
      using assms at eq by (intro reserved) (simp_all add: reserve_earnings_cashout_def positive_money_amount_def Let_def)
  next
    case False
    then show thesis
      using assms at by (intro same)
        (auto simp: reserve_earnings_cashout_def positive_money_amount_def Let_def split: if_splits option.splits)
  qed
qed

lemma cashout_movement_simps [simp]:
  "earnings_money (cashout_movement u i k n t s) = earnings_money s"
  "earnings_cashouts (cashout_movement u i k n t s) = earnings_cashouts s"
  "stripe_events (cashout_movement u i k n t s) = stripe_events s"
  "earnings_cashout_idempotency (cashout_movement u i k n t s) = earnings_cashout_idempotency s"
  "credit_movements (cashout_movement u i k n t s) =
     dset (user_account u, i) (movement (user_account u) i k n (Some ''routable'') t) (credit_movements s)"
  by (simp_all add: cashout_movement_def)

lemma reserve_cashout_ok:
  assumes "earnings_ok s" "ec_balance_status c \<noteq> ''released''" "reserve_earnings_cashout c idem s = (res, s')"
  shows "earnings_ok s'"
  using assms(3)
proof (cases rule: reserve_cashout_cases)
  case same
  then show ?thesis using assms(1) by simp
next
  case reserved
  have fresh: "dget (credit_movements s) (user_account (ec_user_id c), reserved_id (ec_id c)) = None"
    using movements_okD [OF earnings_okD(4) [OF assms(1)]] reserved(3) by (simp add: movement_known_def)
  have mv: "credit_movements s' = dset (user_account (ec_user_id c), reserved_id (ec_id c))
    (movement (user_account (ec_user_id c)) (reserved_id (ec_id c)) ''earnings_cashout_reserved'' (- ec_amount c)
       (Some ''routable'') (ec_created_at c)) (credit_movements s)"
    by (simp add: reserved(6))
  show ?thesis
  proof (rule earnings_post [OF assms(1) _ fresh mv, where h = "ec_amount c" and e = "earned (ec_user_id c) s"
        and t = "transferred (ec_user_id c) s + ec_amount c"])
    show "cashouts_ok s'" using earnings_okD(3) [OF assms(1)] reserved(1) by (auto simp: reserved(6) cashouts_ok_def distinct_update)
    show "cashout_holds u s' = cashout_holds u s + (if u = ec_user_id c then ec_amount c else 0)" for u
      using reserved(3) assms(2) by (auto simp: reserved(6) cashout_holds_def cashout_hold_def)
    show "movement_known v j s \<Longrightarrow> movement_known v j s'" for v j
      by (erule movement_known_cashouts) (use reserved(3) in \<open>auto simp: reserved(6)\<close>)
    show "movement_known (ec_user_id c) (reserved_id (ec_id c)) s'"
      by (auto simp: movement_known_def reserved(6))
  qed (simp_all add: reserved(6))
qed

text \<open>A balance movement of an existing cash-out: the row is replaced by one with the next revision,
  and a movement row with that revision is written.\<close>

lemma cashout_revision_ok:
  assumes ok: "earnings_ok s" and c: "dget (earnings_cashouts s) (u, p) = Some c"
    and row: "ec_user_id c' = u" "ec_id c' = p" "ec_amount c' = ec_amount c"
      "ec_balance_revision c' = ec_balance_revision c + 1"
    and mid: "mid = reinstated_id p (ec_balance_revision c + 1) \<or> mid = reversal_id p (ec_balance_revision c + 1)"
    and money: "earnings_money s' = dset u (earned u s, t) (earnings_money s)"
    and cos: "earnings_cashouts s' = dset (u, p) c' (earnings_cashouts s)"
    and mv: "credit_movements s' = dset (user_account u, mid) m (credit_movements s)"
    and amount: "mv_amount m = transferred u s - t"
    and hold: "cashout_hold u c' - cashout_hold u c = t - transferred u s"
    and stripe: "stripe_events s' = stripe_events s"
  shows "earnings_ok s'"
proof -
  have cu: "ec_user_id c = u" "0 < ec_amount c" using cashouts_okD [OF earnings_okD(3) [OF ok] c] by simp_all
  have "\<not> movement_known u mid s" using mid c by (auto simp: movement_known_def)
  then have fresh: "dget (credit_movements s) (user_account u, mid) = None"
    using movements_okD [OF earnings_okD(4) [OF ok]] by blast
  have other: "v \<noteq> u \<Longrightarrow> cashout_hold v c' = 0 \<and> cashout_hold v c = 0" for v
    using row(1) cu(1) by (auto simp: cashout_hold_def)
  show ?thesis
  proof (rule earnings_post [OF ok money fresh mv, where h = "t - transferred u s"])
    show "cashout_holds v s' = cashout_holds v s + (if v = u then t - transferred u s else 0)" for v
      using c hold other [of v] by (auto simp: cashout_holds_def cos)
    show "cashouts_ok s'" using earnings_okD(3) [OF ok] row cu by (auto simp: cashouts_ok_def cos distinct_update)
    show "movement_known v j s \<Longrightarrow> movement_known v j s'" for v j
      by (erule movement_known_cashouts) (use c row(4) stripe in \<open>auto simp: cos\<close>)
    show "movement_known u mid s'" using mid row(4) by (auto simp: movement_known_def cos)
  qed (use amount in simp_all)
qed

lemma release_cashout_cases:
  assumes "release_earnings_cashout u p st rs err now s = (res, s')"
  obtains (same) "s' = s" "\<And>x. res \<noteq> Inr (''released'', x)"
      "\<And>c x. dget (earnings_cashouts s) (u, p) = Some c \<Longrightarrow>
         ec_balance_status c = ''released'' \<or> ec_amount c \<le> transferred u s \<Longrightarrow> res \<noteq> Inl (StoreConflict x)"
  | (released) c c' where "dget (earnings_cashouts s) (u, p) = Some c" "ec_balance_status c \<noteq> ''released''"
      "ec_amount c \<le> transferred u s" "res = Inr (''released'', Some c')"
      "c' = c\<lparr>ec_state := st, ec_balance_status := ''released'',
         ec_routable_status := str_or rs (ec_routable_status c), ec_error_code := err,
         ec_balance_revision := ec_balance_revision c + 1, ec_updated_at := iso_now now\<rparr>"
      "s' = cashout_movement u (reversal_id p (ec_balance_revision c + 1)) ''earnings_cashout_reversed'' (ec_amount c) (iso_now now)
        (s\<lparr>earnings_money := dset u (earned u s, transferred u s - ec_amount c) (earnings_money s),
           earnings_cashouts := dset (u, p) c' (earnings_cashouts s)\<rparr>)"
proof -
  obtain a t where at: "dget_or (0, 0) (earnings_money s) u = (a, t)" by (cases "dget_or (0, 0) (earnings_money s) u")
  then have eq: "earned u s = a" "transferred u s = t" by (simp_all add: earned_def transferred_def)
  show thesis
  proof (cases "validate_routable_release_status rs")
    case (Inl e)
    then show thesis using assms
      by (intro same) (auto simp: release_earnings_cashout_def validate_routable_release_status_def split: option.splits if_splits)
  next
    case v: (Inr x)
    show thesis
    proof (cases "dget (earnings_cashouts s) (u, p)")
      case None
      then show thesis using assms v by (intro same) (auto simp: release_earnings_cashout_def)
    next
      case c: (Some c0)
      show thesis
      proof (cases "ec_balance_status c0 \<noteq> ''released'' \<and> ec_amount c0 \<le> t")
        case True
        then show thesis
          using assms v c at eq by (intro released [OF c]) (auto simp: release_earnings_cashout_def Let_def)
      next
        case False
        then show thesis
          using assms v c at eq by (intro same) (auto simp: release_earnings_cashout_def Let_def split: if_splits)
      qed
    qed
  qed
qed

lemma release_cashout_ok:
  assumes "earnings_ok s" "release_earnings_cashout u p st rs err now s = (res, s')"
  shows "earnings_ok s'"
  using assms(2)
proof (cases rule: release_cashout_cases)
  case same
  then show ?thesis using assms(1) by simp
next
  case (released c c')
  have cu: "ec_user_id c = u" "ec_id c = p" using cashouts_okD [OF earnings_okD(3) [OF assms(1)] released(1)] by simp_all
  show ?thesis
    by (rule cashout_revision_ok [OF assms(1) released(1), where c' = c' and t = "transferred u s - ec_amount c"
          and mid = "reversal_id p (ec_balance_revision c + 1)"
          and m = "movement (user_account u) (reversal_id p (ec_balance_revision c + 1)) ''earnings_cashout_reversed''
            (ec_amount c) (Some ''routable'') (iso_now now)"])
      (use cu released(2) in \<open>simp_all add: released(5,6) cashout_hold_def\<close>)
qed

lemma mark_cashout_cases:
  assumes "mark_earnings_cashout u p mk now s = (res, s')"
  obtains (same) "s' = s"
  | (marked) c payable s1 x where "dget (earnings_cashouts s) (u, p) = Some c"
      "s1 = (if reinstates c (mk_status mk) then reinstate_cashout u p c now s else s)"
      "s' = s1\<lparr>earnings_cashouts := dset (u, p) (marked_cashout mk payable now c) (earnings_cashouts s1),
         earnings_cashouts_by_routable_payable := x\<rparr>"
      "res = Inr (Some (marked_cashout mk payable now c))"
proof (cases "dget (earnings_cashouts s) (u, p)")
  case None
  then show thesis using assms same by (simp add: mark_earnings_cashout_def)
next
  case (Some c)
  show thesis
  proof (cases "ostr (str_or (mk_payable_id mk) (ec_routable_payable_id c)) \<noteq> [] \<and>
      (case dget (earnings_cashouts_by_routable_payable s) (ostr (str_or (mk_payable_id mk) (ec_routable_payable_id c))) of
         None \<Rightarrow> False | Some owner \<Rightarrow> owner \<noteq> (u, p))")
    case True
    then have "s' = s" using assms Some by (simp add: mark_earnings_cashout_def Let_def)
    then show thesis by (rule same)
  next
    case False
    have m: "res = fst (mark_earnings_cashout u p mk now s)" "s' = snd (mark_earnings_cashout u p mk now s)"
      using assms by simp_all
    show thesis
      by (rule marked [OF Some refl]; unfold m mark_earnings_cashout_def Let_def Some option.case if_not_P [OF False] fst_conv snd_conv;
          rule refl)
  qed
qed

lemma marked_cashout_simps [simp]:
  "ec_user_id (marked_cashout mk x now c) = ec_user_id c" "ec_id (marked_cashout mk x now c) = ec_id c"
  "ec_amount (marked_cashout mk x now c) = ec_amount c"
  "ec_balance_revision (marked_cashout mk x now c) = ec_balance_revision c + (if reinstates c (mk_status mk) then 1 else 0)"
  by (simp_all add: marked_cashout_def)

lemma marked_cashout_hold:
  "cashout_hold u (marked_cashout mk x now c) =
     cashout_hold u c + (if reinstates c (mk_status mk) \<and> ec_user_id c = u then ec_amount c else 0)"
  by (auto simp: cashout_hold_def marked_cashout_def reinstates_def status_one_of_def split: option.splits)

lemma mark_cashout_ok:
  assumes "earnings_ok s" "mark_earnings_cashout u p mk now s = (res, s')"
  shows "earnings_ok s'"
  using assms(2)
proof (cases rule: mark_cashout_cases)
  case same
  then show ?thesis using assms(1) by simp
next
  case (marked c payable s1 x)
  have cu: "ec_user_id c = u" "ec_id c = p" using cashouts_okD [OF earnings_okD(3) [OF assms(1)] marked(1)] by simp_all
  let ?c = "marked_cashout mk payable now c"
  show ?thesis
  proof (cases "reinstates c (mk_status mk)")
    case True
    have s1: "s1 = cashout_movement u (reinstated_id p (ec_balance_revision c + 1)) ''earnings_cashout_reinstated''
        (- ec_amount c) (iso_now now) (s\<lparr>earnings_money := dset u (earned u s, transferred u s + ec_amount c) (earnings_money s)\<rparr>)"
      using marked(2) True by (simp add: reinstate_cashout_def earned_def transferred_def case_prod_unfold Let_def)
    show ?thesis
      by (rule cashout_revision_ok [OF assms(1) marked(1), where c' = ?c and t = "transferred u s + ec_amount c"
            and mid = "reinstated_id p (ec_balance_revision c + 1)"
            and m = "movement (user_account u) (reinstated_id p (ec_balance_revision c + 1)) ''earnings_cashout_reinstated''
              (- ec_amount c) (Some ''routable'') (iso_now now)"])
        (use cu True in \<open>simp_all add: marked(3) s1 marked_cashout_hold\<close>)
  next
    case False
    then have s': "s' = s\<lparr>earnings_cashouts := dset (u, p) ?c (earnings_cashouts s), earnings_cashouts_by_routable_payable := x\<rparr>"
      using marked(2,3) by simp
    show ?thesis
    proof (rule earnings_okI)
      show "earned v s' - transferred v s' = account_sum v s'" for v
        using earnings_okD(1) [OF assms(1), of v] by (simp add: s' earned_def transferred_def account_sum_def)
      show "cashout_holds v s' \<le> transferred v s'" for v
        using earnings_okD(2) [OF assms(1), of v] marked(1) False
        by (simp add: s' cashout_holds_def transferred_def marked_cashout_hold)
      show "cashouts_ok s'"
        using earnings_okD(3) [OF assms(1)] cu cashouts_okD [OF earnings_okD(3) [OF assms(1)] marked(1)]
        by (auto simp: s' cashouts_ok_def distinct_update)
      have "movement_known v j s \<Longrightarrow> movement_known v j s'" for v j
        by (erule movement_known_cashouts) (use marked(1) False in \<open>auto simp: s'\<close>)
      then show "movements_ok s'" using earnings_okD(4) [OF assms(1)] by (simp add: movements_ok_def s')
    qed
  qed
qed

subsection \<open>Runs\<close>

datatype earnings_op =
    Earn string microdollars string "string option" "string option" instant
  | Transfer_earnings string string microdollars string instant
  | Reserve_cashout earnings_cashout string
  | Mark_cashout string string cashout_mark instant
  | Release_cashout string string string "string option" "string option" instant
  | Ensure_account string
  | Topup string microdollars string
  | Debit string microdollars string string "string option" "string option" instant

fun earnings_step :: "earnings_op \<Rightarrow> store \<Rightarrow> store" where
  "earnings_step (Earn u n e cm payer now) s = snd (credit_user_earnings u n e cm payer now s)"
| "earnings_step (Transfer_earnings u w n e now) s = snd (transfer_earnings_to_workspace u w n e now s)"
| "earnings_step (Reserve_cashout c idem) s = snd (reserve_earnings_cashout c idem s)"
| "earnings_step (Mark_cashout u p mk now) s = snd (mark_earnings_cashout u p mk now s)"
| "earnings_step (Release_cashout u p st rs err now) s = snd (release_earnings_cashout u p st rs err now s)"
| "earnings_step (Ensure_account u) s = ensure_earnings_account u s"
| "earnings_step (Topup u n e) s = snd (add_lifetime_topup u n e s)"
| "earnings_step (Debit w n e kind cm au now) s = snd (debit_workspace_guarded w n e kind cm au now s)"

text \<open>The callers build event ids and workspace ids outside the namespaces of cash-out movements and
  user accounts, and reserve a cash-out whose balance is held.\<close>

fun earnings_legal :: "earnings_op \<Rightarrow> store \<Rightarrow> bool" where
  "earnings_legal (Earn u n e cm payer now) s \<longleftrightarrow> \<not> cashout_id e"
| "earnings_legal (Transfer_earnings u w n e now) s \<longleftrightarrow> \<not> cashout_id e \<and> \<not> startswith ''user:'' w"
| "earnings_legal (Reserve_cashout c idem) s \<longleftrightarrow> ec_balance_status c \<noteq> ''released''"
| "earnings_legal (Debit w n e kind cm au now) s \<longleftrightarrow> \<not> startswith ''user:'' w"
| "earnings_legal _ s \<longleftrightarrow> True"

lemma dget_or_dsetdefault: "dget_or x (dsetdefault k x d) k' = dget_or x d k'"
  by (auto simp: dsetdefault_def dget_or_def split: option.splits)

lemma ensure_account_ok:
  assumes "earnings_ok s"
  shows "earnings_ok (ensure_earnings_account u s)"
proof (rule earnings_okI)
  let ?s = "ensure_earnings_account u s"
  have same: "earned v ?s = earned v s" "transferred v ?s = transferred v s" "account_sum v ?s = account_sum v s"
    "cashout_holds v ?s = cashout_holds v s" "movement_known v i ?s = movement_known v i s" for v i
    by (simp_all add: ensure_earnings_account_def earned_def transferred_def dget_or_dsetdefault account_sum_def
        cashout_holds_def movement_known_def)
  show "earned v ?s - transferred v ?s = account_sum v ?s" "cashout_holds v ?s \<le> transferred v ?s" for v
    using earnings_okD(1,2) [OF assms, of v] by (simp_all only: same)
  show "cashouts_ok ?s" "movements_ok ?s"
    using earnings_okD(3,4) [OF assms] unfolding movements_ok_def same
    by (simp_all add: ensure_earnings_account_def cashouts_ok_def)
qed

lemma topup_ok: "earnings_ok s \<Longrightarrow> earnings_ok (snd (add_lifetime_topup u n e s))"
  by (erule earnings_ok_frame) (auto simp: add_lifetime_topup_def positive_money_amount_def)

lemma debit_ok:
  assumes "earnings_ok s" "\<not> startswith ''user:'' w"
  shows "earnings_ok (snd (debit_workspace_guarded w n e kind cm au now s))"
proof (cases "0 < n \<and> e \<notin> stripe_events s \<and> (\<exists>m. dget (credit_money s) w = Some m \<and> n \<le> available m)")
  case True
  then show ?thesis
    by (intro earnings_ok_foreign [OF assms, where i = e and
          m = "(movement w e kind (- n) None (iso_now now))\<lparr>mv_custom_model_id := cm, mv_authorization_id := au\<rparr>"])
      (auto simp: debit_workspace_guarded_def)
next
  case False
  then have "snd (debit_workspace_guarded w n e kind cm au now s) = s"
    by (auto simp: debit_workspace_guarded_def split: option.split)
  then show ?thesis using assms(1) by simp
qed

lemmas earnings_ops_ok =
  credit_earnings_ok [OF _ _ prod.collapse [symmetric]] transfer_earnings_ok [OF _ _ _ prod.collapse [symmetric]]
  reserve_cashout_ok [OF _ _ prod.collapse [symmetric]] mark_cashout_ok [OF _ prod.collapse [symmetric]]
  release_cashout_ok [OF _ prod.collapse [symmetric]]

interpretation earnings_run: invariant_run earnings_step earnings_legal earnings_ok
proof
  fix s e
  assume "earnings_ok s" "earnings_legal e s"
  then show "earnings_ok (earnings_step e s)"
    by (cases e) (simp_all add: earnings_ops_ok ensure_account_ok topup_ok debit_ok)
qed

lemma cashout_hold_le:
  assumes "earnings_ok s" "dget (earnings_cashouts s) (u, p) = Some c" "ec_balance_status c \<noteq> ''released''"
  shows "ec_amount c \<le> transferred u s"
proof -
  note ok = earnings_okD(3) [OF assms(1)]
  have "0 \<le> cashout_hold u x" if x: "x \<in> set (dvals (earnings_cashouts s))" for x
  proof -
    obtain v q where "dget (earnings_cashouts s) (v, q) = Some x"
      using x ok by (auto simp: cashouts_ok_def)
    then show ?thesis using cashouts_okD [OF ok] by (force simp: cashout_hold_def)
  qed
  then have "cashout_hold u c \<le> cashout_holds u s"
    unfolding cashout_holds_def by (rule dsum_ge_cell [OF assms(2)])
  then show ?thesis
    using assms(3) cashouts_okD [OF ok assms(2)] earnings_okD(2) [OF assms(1), of u] by (simp add: cashout_hold_def)
qed

lemma release_no_conflict:
  assumes "earnings_ok s"
  shows "fst (release_earnings_cashout u p st rs err now s) \<noteq> Inl (StoreConflict x)"
proof -
  obtain res s' where r: "release_earnings_cashout u p st rs err now s = (res, s')"
    by (cases "release_earnings_cashout u p st rs err now s")
  have "res \<noteq> Inl (StoreConflict x)"
    using r
  proof (cases rule: release_cashout_cases)
    case same
    show ?thesis
    proof (cases "dget (earnings_cashouts s) (u, p)")
      case None
      then show ?thesis using r
        by (auto simp: release_earnings_cashout_def validate_routable_release_status_def split: option.splits if_splits)
    next
      case (Some c)
      then show ?thesis using same(3) [OF Some] cashout_hold_le [OF assms Some] by blast
    qed
  qed simp
  then show ?thesis using r by simp
qed

subsection \<open>The index of payout profiles\<close>

text \<open>The company index is the inverse of the profile table.\<close>

definition profiles_ok :: "store \<Rightarrow> bool" where
  "profiles_ok s \<longleftrightarrow>
     (\<forall>u p. dget (routable_payout_profiles s) u = Some p \<longrightarrow>
        pf_user_id p = u \<and> dget (routable_payout_profile_users_by_company s) (pf_company_id p) = Some u) \<and>
     (\<forall>c u. dget (routable_payout_profile_users_by_company s) c = Some u \<longrightarrow>
        (\<exists>p. dget (routable_payout_profiles s) u = Some p \<and> pf_company_id p = c))"

lemma upsert_cases:
  assumes "upsert_routable_payout_profile p s = (res, s')"
  obtains (linked) u where "s' = s" "res \<noteq> Inr p" "u \<noteq> pf_user_id p"
      "dget (routable_payout_profile_users_by_company s) (pf_company_id p) = Some u"
  | (stored) by_company where "res = Inr p"
      "\<And>u. dget (routable_payout_profile_users_by_company s) (pf_company_id p) = Some u \<Longrightarrow> u = pf_user_id p"
      "by_company = (case dget (routable_payout_profiles s) (pf_user_id p) of
           None \<Rightarrow> routable_payout_profile_users_by_company s
         | Some previous \<Rightarrow> if pf_company_id previous \<noteq> pf_company_id p
             then dpop (pf_company_id previous) (routable_payout_profile_users_by_company s)
             else routable_payout_profile_users_by_company s)"
      "s' = s\<lparr>routable_payout_profiles := dset (pf_user_id p) p (routable_payout_profiles s),
         routable_payout_profile_users_by_company := dset (pf_company_id p) (pf_user_id p) by_company\<rparr>"
proof (cases "\<exists>u. dget (routable_payout_profile_users_by_company s) (pf_company_id p) = Some u \<and> u \<noteq> pf_user_id p")
  case True
  then show thesis using assms linked by (auto simp: upsert_routable_payout_profile_def Let_def)
next
  case False
  then have "\<not> (case dget (routable_payout_profile_users_by_company s) (pf_company_id p) of None \<Rightarrow> False | Some u \<Rightarrow> u \<noteq> pf_user_id p)"
    by (auto split: option.split)
  then show thesis using assms False by (intro stored [OF _ _ refl]) (auto simp: upsert_routable_payout_profile_def Let_def)
qed

lemma upsert_profiles_ok:
  assumes "profiles_ok s" "upsert_routable_payout_profile p s = (res, s')"
  shows "profiles_ok s'"
  using assms(2)
proof (cases rule: upsert_cases)
  case (linked u)
  then show ?thesis using assms(1) by simp
next
  case (stored by_company)
  have b: "dget by_company c = (case dget (routable_payout_profiles s) (pf_user_id p) of
      None \<Rightarrow> dget (routable_payout_profile_users_by_company s) c
    | Some q \<Rightarrow> if pf_company_id q \<noteq> pf_company_id p \<and> c = pf_company_id q then None
        else dget (routable_payout_profile_users_by_company s) c)" for c
    by (simp add: stored(3) split: option.split)
  show ?thesis
    unfolding profiles_ok_def
  proof (intro conjI allI impI)
    fix u q assume q: "dget (routable_payout_profiles s') u = Some q"
    show "pf_user_id q = u"
      using q assms(1) by (auto simp: stored(4) profiles_ok_def split: if_splits)
    show "dget (routable_payout_profile_users_by_company s') (pf_company_id q) = Some u"
    proof (cases "u = pf_user_id p")
      case False
      then have "dget (routable_payout_profile_users_by_company s) (pf_company_id q) = Some u"
        using q assms(1) by (simp add: stored(4) profiles_ok_def)
      moreover from this have "pf_company_id q \<noteq> pf_company_id p" using stored(2) False by auto
      moreover have "pf_company_id q \<noteq> pf_company_id x" if "dget (routable_payout_profiles s) (pf_user_id p) = Some x" for x
        using that calculation(1) False assms(1) unfolding profiles_ok_def by fastforce
      ultimately show ?thesis by (auto simp: stored(4) b split: option.split)
    qed (use q in \<open>simp add: stored(4)\<close>)
  next
    fix c u assume u: "dget (routable_payout_profile_users_by_company s') c = Some u"
    show "\<exists>q. dget (routable_payout_profiles s') u = Some q \<and> pf_company_id q = c"
    proof (cases "c = pf_company_id p")
      case False
      then have b': "dget by_company c = Some u" using u by (simp add: stored(4))
      then have "dget (routable_payout_profile_users_by_company s) c = Some u"
        by (auto simp: b split: option.splits if_splits)
      then obtain q where q: "dget (routable_payout_profiles s) u = Some q" "pf_company_id q = c"
        using assms(1) unfolding profiles_ok_def by blast
      then have "u \<noteq> pf_user_id p" using b' False by (auto simp: b)
      then show ?thesis using q by (simp add: stored(4))
    qed (use u in \<open>simp add: stored(4)\<close>)
  qed
qed

section \<open>Properties\<close>

definition demo_cashout :: earnings_cashout where
  "demo_cashout = \<lparr>ec_id = ''po_1'', ec_user_id = ''u'', ec_amount = 500, ec_state = ''submitting'', ec_balance_status = ''reserved'',
     ec_idempotency_fingerprint = ''f'', ec_routable_idempotency_key = ''k'', ec_external_id = ''x'',
     ec_routable_company_id = ''c'', ec_payment_method_id = ''pm'', ec_currency = ''USD'', ec_routable_payable_id = None,
     ec_routable_status = None, ec_error_code = None, ec_attempts = 0, ec_balance_revision = 0, ec_created_at = 0,
     ec_updated_at = 0\<rparr>"

definition demo_mark :: "string \<Rightarrow> cashout_mark" where
  "demo_mark status = \<lparr>mk_state = ''submitted'', mk_payable_id = Some ''pay'', mk_status = Some status,
     mk_error_code = None, mk_increment_attempts = True\<rparr>"

definition demo_earnings :: "earnings_op list" where
  "demo_earnings = [Earn ''u'' 1000 ''custom_model_payout:a1'' (Some ''m'') (Some ''v'') 0,
     Transfer_earnings ''u'' ''w'' 300 ''t1'' 1, Reserve_cashout demo_cashout ''i'',
     Release_cashout ''u'' ''po_1'' ''canceled'' (Some ''canceled'') None 2,
     Mark_cashout ''u'' ''po_1'' (demo_mark ''processing'') 3]"

lemma demo_earnings_ok: "earnings_ok (demo_store armed)"
  by (simp add: earnings_ok_def demo_store_def init_store_def earned_def transferred_def account_sum_def cashout_holds_def
      cashouts_ok_def movements_ok_def)

text \<open>C21. The earnings ledger is double entry.  After any sequence of earnings credits, transfers to
  workspaces, cash-out reservations, marks, releases, top-ups and debits, the available earnings of
  every user are the sum of the movement rows of the account; the cash-outs that are not released
  are covered by what left the account; and releasing a cash-out never fails the runtime check that
  it exceeds the transferred earnings.\<close>

theorem earnings_double_entry:
  assumes "earnings_ok s" "legal_run earnings_step earnings_legal ops s"
  shows "snd (snd (earnings_summary u (fold earnings_step ops s))) = account_sum u (fold earnings_step ops s) \<and>
    cashout_holds u (fold earnings_step ops s) \<le> transferred u (fold earnings_step ops s) \<and>
    fst (release_earnings_cashout u p st rs err now (fold earnings_step ops s)) \<noteq> Inl (StoreConflict x)"
proof -
  have ok: "earnings_ok (fold earnings_step ops s)" by (rule earnings_run.run_inv [OF assms])
  have "snd (snd (earnings_summary u (fold earnings_step ops s))) =
      earned u (fold earnings_step ops s) - transferred u (fold earnings_step ops s)"
    by (simp add: earnings_summary_def earned_def transferred_def case_prod_unfold Let_def)
  then show ?thesis using earnings_okD(1,2) [OF ok] release_no_conflict [OF ok] by simp
qed

theorem earnings_double_entry_witness:
  "legal_run earnings_step earnings_legal demo_earnings (demo_store False) \<and>
   account_sum ''u'' (fold earnings_step demo_earnings (demo_store False)) = 200 \<and>
   earnings_summary ''u'' (fold earnings_step demo_earnings (demo_store False)) = (1000, 800, 200)"
proof -
  have l: "legal_run earnings_step earnings_legal demo_earnings (demo_store False)" by code_simp
  have "earnings_summary ''u'' (fold earnings_step demo_earnings (demo_store False)) = (1000, 800, 200)" by code_simp
  then show ?thesis using earnings_double_entry [OF demo_earnings_ok l, of "''u''"] l by simp
qed

text \<open>Transferring earnings to a workspace moves the amount exactly once: an accepted transfer has
  a new event id and the amount available, lowers the available earnings and raises the principal of
  the workspace by exactly the amount, keeps the recovery books coherent, and every replay of the
  event id is a duplicate that changes nothing.\<close>

theorem earnings_transfer_once:
  assumes "ledger_ok b s" "\<not> b e" "transfer_earnings_to_workspace u w n e now s = (Inr ''accepted'', s')"
  shows "0 < n \<and> n \<le> earned u s - transferred u s \<and> e \<notin> stripe_events s \<and>
    earned u s' - transferred u s' = earned u s - transferred u s - n \<and>
    (\<forall>v. principal v s' = principal v s + (if v = w then n else 0)) \<and> ledger_ok b s' \<and>
    transfer_earnings_to_workspace u2 w2 (1 + int k) e now2 s' = (Inr ''duplicate'', s')"
  using assms(3)
proof (cases rule: transfer_earnings_cases)
  case (moved m ev)
  have k: "dget (trust_events s) (w, e) = Some p \<Longrightarrow> te_kind p \<noteq> ''payment''" for p
    using assms(1) moved(2) payment_entry_dget [of "trust_events s" "(w, e)" p] events_ok_dget [of b "trust_events s"]
      payments_knownD [of s "(w, e)"]
    by (auto simp: ledger_ok_def)
  have r: "row_ok ev" using moved(7) by (simp add: row_ok_def)
  have p: "principal v s' = principal v s + (if v = w then n else 0)" for v
    using moved(4) k
    by (cases "dget (trust_events s) (w, e)") (auto simp: moved(8) principal_def recovered_in_def dsum_dset moved(7))
  have "events_ok b (dset (w, e) ev (trust_events s))"
    using assms(1) r moved(7) by (intro events_ok_dset) (auto simp: ledger_ok_def entry_ok_def)
  moreover have "payments_from (trust_events s) (dset (w, e) ev (trust_events s))"
    using moved(7) by (intro payments_from_dset) auto
  ultimately have "ledger_ok b s'"
    by (intro ledger_ok_step [OF assms(1)]) (auto simp: moved(8))
  moreover have "earned u s' = earned u s" "transferred u s' = transferred u s + n"
    by (simp_all add: moved(8) earned_def transferred_def)
  moreover have "transfer_earnings_to_workspace u2 w2 (1 + int k) e now2 s' = (Inr ''duplicate'', s')"
    by (simp add: moved(8) transfer_earnings_to_workspace_def positive_money_amount_def)
  ultimately show ?thesis using moved(1-3) p by simp
qed simp

theorem earnings_transfer_once_witness:
  "fst (transfer_earnings_to_workspace ''u'' ''w'' 300 ''t1'' 1 (earnings_step (hd demo_earnings) (demo_store False))) = Inr ''accepted'' \<and>
   principal ''w'' (snd (transfer_earnings_to_workspace ''u'' ''w'' 300 ''t1'' 1 (earnings_step (hd demo_earnings) (demo_store False)))) = 400"
proof -
  let ?s = "earnings_step (hd demo_earnings) (demo_store False)"
  have ok: "ledger_ok demo_adverse_id ?s"
    by (rule ledger_ok_step [OF demo_ledger_ok [of False]])
      (auto simp: events_ok_def demo_earnings_def credit_user_earnings_def positive_money_amount_def demo_store_def init_store_def)
  have a: "fst (transfer_earnings_to_workspace ''u'' ''w'' 300 ''t1'' 1 ?s) = Inr ''accepted''" by code_simp
  then have t: "transfer_earnings_to_workspace ''u'' ''w'' 300 ''t1'' 1 ?s =
      (Inr ''accepted'', snd (transfer_earnings_to_workspace ''u'' ''w'' 300 ''t1'' 1 ?s))" by (metis prod.collapse)
  have n: "\<not> demo_adverse_id ''t1''" by code_simp
  have "principal ''w'' ?s = 100" by code_simp
  then show ?thesis using earnings_transfer_once [OF ok n t] a by simp
qed

text \<open>A cash-out holds its amount once and gives it back once.  An accepted reservation needs the
  amount available and lowers the available earnings by exactly it; the same idempotency key answers
  duplicate with the stored cash-out, or conflict for another fingerprint, and changes nothing;
  releasing it restores exactly the amount, and releasing it again changes nothing.\<close>

theorem cashout_reserve_release:
  assumes "reserve_earnings_cashout c idem s = (Inr (''accepted'', Some c), s1)" "ec_balance_status c \<noteq> ''released''"
    and "release_earnings_cashout (ec_user_id c) (ec_id c) st rs err now s1 = (Inr (''released'', Some c'), s2)"
  shows "ec_amount c \<le> earned (ec_user_id c) s - transferred (ec_user_id c) s \<and>
    earned (ec_user_id c) s1 - transferred (ec_user_id c) s1 = earned (ec_user_id c) s - transferred (ec_user_id c) s - ec_amount c \<and>
    reserve_earnings_cashout c idem s1 = (Inr (''duplicate'', Some c), s1) \<and>
    (\<forall>d. 0 < ec_amount d \<and> ec_idempotency_fingerprint d \<noteq> ec_idempotency_fingerprint c \<longrightarrow>
       reserve_earnings_cashout d idem s1 = (Inr (''conflict'', None), s1)) \<and>
    earned (ec_user_id c) s2 - transferred (ec_user_id c) s2 = earned (ec_user_id c) s - transferred (ec_user_id c) s \<and>
    release_earnings_cashout (ec_user_id c) (ec_id c) st2 (Some ''canceled'') err2 now2 s2 = (Inr (''duplicate'', Some c'), s2)"
  using assms(1)
proof (cases rule: reserve_cashout_cases)
  case reserved
  let ?u = "ec_user_id c"
  have m1: "earned ?u s1 = earned ?u s" "transferred ?u s1 = transferred ?u s + ec_amount c"
    "dget (earnings_cashouts s1) (?u, ec_id c) = Some c"
    "dget (earnings_cashout_idempotency s1) idem = Some (ec_idempotency_fingerprint c, ?u, ec_id c)"
    by (simp_all add: reserved(6) earned_def transferred_def)
  from assms(3) show ?thesis
  proof (cases rule: release_cashout_cases)
    case (released c0 c1)
    have c0: "c0 = c" "c1 = c'" using released(1,4) m1(3) by simp_all
    have "earned ?u s2 = earned ?u s" "transferred ?u s2 = transferred ?u s"
      "dget (earnings_cashouts s2) (?u, ec_id c) = Some c'" "ec_balance_status c' = ''released''"
      using released(5) m1 c0 by (simp_all add: released(6) earned_def transferred_def)
    then show ?thesis
      using reserved(1,4) m1
      by (simp add: reserve_earnings_cashout_def positive_money_amount_def release_earnings_cashout_def
          validate_routable_release_status_def ROUTABLE_RELEASE_STATUSES_def)
  qed blast
qed blast

theorem cashout_reserve_release_witness:
  "\<exists>s1 s2 c'. reserve_earnings_cashout demo_cashout ''i'' (earnings_step (hd demo_earnings) (demo_store False)) = (Inr (''accepted'', Some demo_cashout), s1) \<and>
     release_earnings_cashout ''u'' ''po_1'' ''canceled'' (Some ''canceled'') None 2 s1 = (Inr (''released'', Some c'), s2) \<and>
     earned ''u'' s2 - transferred ''u'' s2 = 1000"
proof -
  let ?s = "earnings_step (hd demo_earnings) (demo_store False)"
  let ?s1 = "snd (reserve_earnings_cashout demo_cashout ''i'' ?s)"
  let ?r = "release_earnings_cashout (ec_user_id demo_cashout) (ec_id demo_cashout) ''canceled'' (Some ''canceled'') None 2 ?s1"
  have i: "ec_user_id demo_cashout = ''u''" "ec_id demo_cashout = ''po_1''" by (simp_all add: demo_cashout_def)
  have "fst (reserve_earnings_cashout demo_cashout ''i'' ?s) = Inr (''accepted'', Some demo_cashout)" by code_simp
  then have r1: "reserve_earnings_cashout demo_cashout ''i'' ?s = (Inr (''accepted'', Some demo_cashout), ?s1)" by (metis prod.collapse)
  have n: "ec_balance_status demo_cashout \<noteq> ''released''" by code_simp
  have "(case fst ?r of Inr (x, Some c) \<Rightarrow> x = ''released'' | _ \<Rightarrow> False)" by code_simp
  then obtain c' where "fst ?r = Inr (''released'', Some c')" by (auto split: sum.splits option.splits)
  then have r2: "?r = (Inr (''released'', Some c'), snd ?r)" by (metis prod.collapse)
  have "earned ''u'' ?s - transferred ''u'' ?s = 1000" by code_simp
  then have "earned ''u'' (snd ?r) - transferred ''u'' (snd ?r) = 1000"
    using cashout_reserve_release [OF r1 n r2] unfolding i by simp
  then show ?thesis
    using r1 r2 unfolding i by (intro exI [of _ ?s1] exI [of _ "snd ?r"] exI [of _ c'] conjI) (simp_all only: i)
qed



end
