(* ===== verification/Group_Buy.thy ===== *)
theory Group_Buy
  imports Store
begin

text \<open>
  The Bedrock group buy (\<open>storage_group_buy.py\<close>): one private pledge per user, aggregate counters in
  32 shards so that no global row is hot, and an identity-free projection of the comments users
  publish.

  Abstractly the component keeps, per user, the figures of the active pledge; the published totals
  are their sums.  The lemmas show that the sharded counters refine that specification and that the
  guard against negative aggregates never fires.

  \<open>digest4\<close> is the value of the first four bytes of the SHA-256 digest of a text.
\<close>

section \<open>Records\<close>

record pledge =
  pl_user_id :: string
  pl_workspace_id :: string
  pl_full_name :: string
  pl_title :: string
  pl_company_name :: string
  pl_company_url :: string
  pl_monthly_minimum :: microdollars
  pl_expected_bedrock :: microdollars
  pl_expected_all_llm :: microdollars
  pl_aggregate_shard :: int
  pl_last_month_llm_spend :: microdollars
  pl_last_month_spend_sources :: "string list"
  pl_public_message :: string
  pl_publish_message :: bool
  pl_public_message_id :: string
  pl_public_message_index_id :: string
  pl_created_at :: instant
  pl_updated_at :: instant
  pl_accepted_at :: instant

record aggregate_shard =
  as_shard_id :: int
  as_active_pledge_count :: int
  as_monthly_minimum :: microdollars
  as_expected_bedrock :: microdollars
  as_expected_all_llm :: microdollars
  as_updated_at :: instant

record aggregate =
  ag_active_pledge_count :: int
  ag_monthly_minimum :: microdollars
  ag_expected_bedrock :: microdollars
  ag_expected_all_llm :: microdollars

record public_comment =
  pm_id :: string
  pm_message :: string
  pm_created_at :: instant
  pm_updated_at :: instant

record group_buy =
  pledges :: "(string, pledge) dict"
  shards :: "(int, aggregate_shard) dict"
  public_messages :: "(string, public_comment) dict"

definition empty_group_buy :: group_buy where
  "empty_group_buy = \<lparr>pledges = [], shards = [], public_messages = []\<rparr>"

section \<open>Operations\<close>

definition BEDROCK_GROUP_BUY_SHARD_COUNT :: int where
  "BEDROCK_GROUP_BUY_SHARD_COUNT = 32"

definition bedrock_group_buy_shard :: "(string \<Rightarrow> int) \<Rightarrow> string \<Rightarrow> int" where
  "bedrock_group_buy_shard digest4 u = digest4 (''bedrock-group-buy:'' @ u) mod BEDROCK_GROUP_BUY_SHARD_COUNT"

definition public_message_index_id :: "instant \<Rightarrow> string \<Rightarrow> string" where
  "public_message_index_id updated_at message_id =
     (let reverse = 9999999999999999 - updated_at
      in (if reverse < 0 then CHR ''-'' # zpad 15 (nat_str (nat (- reverse))) else zpad 16 (nat_str (nat reverse)))
         @ ''#'' @ message_id)"

definition empty_aggregate_shard :: "int \<Rightarrow> instant \<Rightarrow> aggregate_shard" where
  "empty_aggregate_shard i now = \<lparr>as_shard_id = i, as_active_pledge_count = 0, as_monthly_minimum = 0,
     as_expected_bedrock = 0, as_expected_all_llm = 0, as_updated_at = now\<rparr>"

definition subtract_pledge :: "pledge \<Rightarrow> aggregate_shard \<Rightarrow> aggregate_shard" where
  "subtract_pledge p sh = sh\<lparr>as_active_pledge_count := as_active_pledge_count sh - 1,
     as_monthly_minimum := as_monthly_minimum sh - pl_monthly_minimum p,
     as_expected_bedrock := as_expected_bedrock sh - pl_expected_bedrock p,
     as_expected_all_llm := as_expected_all_llm sh - pl_expected_all_llm p\<rparr>"

definition add_pledge :: "pledge \<Rightarrow> aggregate_shard \<Rightarrow> aggregate_shard" where
  "add_pledge p sh = sh\<lparr>as_active_pledge_count := as_active_pledge_count sh + 1,
     as_monthly_minimum := as_monthly_minimum sh + pl_monthly_minimum p,
     as_expected_bedrock := as_expected_bedrock sh + pl_expected_bedrock p,
     as_expected_all_llm := as_expected_all_llm sh + pl_expected_all_llm p\<rparr>"

definition apply_pledge_delta :: "aggregate_shard \<Rightarrow> pledge option \<Rightarrow> pledge option \<Rightarrow> instant \<Rightarrow> aggregate_shard result" where
  "apply_pledge_delta sh old new now =
     (let s1 = (case old of None \<Rightarrow> sh | Some p \<Rightarrow> subtract_pledge p sh);
          s2 = (case new of None \<Rightarrow> s1 | Some p \<Rightarrow> add_pledge p s1)
      in if min (min (as_active_pledge_count s2) (as_monthly_minimum s2))
             (min (as_expected_bedrock s2) (as_expected_all_llm s2)) < 0
         then Inl (RuntimeError ''Bedrock group-buy aggregate would become negative'')
         else Inr (s2\<lparr>as_updated_at := now\<rparr>))"

record pledge_mutation =
  pt_pledge :: pledge
  pt_public_message :: "public_comment option"
  pt_old_public_message_id :: string
  pt_old_public_message_index_id :: string

definition prepare_pledge_mutation ::
    "(string \<Rightarrow> int) \<Rightarrow> pledge \<Rightarrow> pledge option \<Rightarrow> string \<Rightarrow> instant \<Rightarrow> pledge_mutation result" where
  "prepare_pledge_mutation digest4 incoming existing candidate now =
     (if pl_monthly_minimum incoming \<le> 0 then Inl (ValueError ''monthly minimum must be positive'')
      else if pl_aggregate_shard incoming \<noteq> bedrock_group_buy_shard digest4 (pl_user_id incoming)
      then Inl (ValueError ''invalid aggregate shard'')
      else if (case existing of None \<Rightarrow> False | Some e \<Rightarrow> pl_aggregate_shard e \<noteq> pl_aggregate_shard incoming)
      then Inl (RuntimeError ''Bedrock group-buy pledge changed aggregate shard'')
      else
        (let published = (pl_publish_message incoming \<and> pl_public_message incoming \<noteq> []);
             kept = (case existing of None \<Rightarrow> None
                     | Some e \<Rightarrow> if pl_public_message_id e = [] then None else Some e);
             public_id = (if published then (case kept of None \<Rightarrow> candidate | Some e \<Rightarrow> pl_public_message_id e) else []);
             index_id = (if published then public_message_index_id now public_id else []);
             projection = (if published
               then Some \<lparr>pm_id = public_id, pm_message = pl_public_message incoming,
                 pm_created_at = (case kept of None \<Rightarrow> now | Some e \<Rightarrow> pl_created_at e), pm_updated_at = now\<rparr>
               else None)
         in Inr \<lparr>pt_pledge = incoming\<lparr>pl_public_message_id := public_id, pl_public_message_index_id := index_id,
                   pl_created_at := (case existing of None \<Rightarrow> now | Some e \<Rightarrow> pl_created_at e),
                   pl_accepted_at := (case existing of None \<Rightarrow> pl_accepted_at incoming | Some e \<Rightarrow> pl_accepted_at e),
                   pl_updated_at := now\<rparr>,
                 pt_public_message = projection,
                 pt_old_public_message_id = (case existing of None \<Rightarrow> [] | Some e \<Rightarrow> pl_public_message_id e),
                 pt_old_public_message_index_id = (case existing of None \<Rightarrow> [] | Some e \<Rightarrow> pl_public_message_index_id e)\<rparr>))"

definition shard_row :: "int \<Rightarrow> instant \<Rightarrow> group_buy \<Rightarrow> aggregate_shard" where
  "shard_row i now s = dget_or (empty_aggregate_shard i now) (shards s) i"

definition upsert :: "(string \<Rightarrow> int) \<Rightarrow> pledge \<Rightarrow> string \<Rightarrow> instant \<Rightarrow> group_buy \<Rightarrow> pledge result \<times> group_buy" where
  "upsert digest4 incoming candidate now s =
     (let existing = dget (pledges s) (pl_user_id incoming); i = pl_aggregate_shard incoming
      in case prepare_pledge_mutation digest4 incoming existing candidate now of Inl err \<Rightarrow> (Inl err, s)
       | Inr mutation \<Rightarrow>
           (case apply_pledge_delta (shard_row i now s) existing (Some (pt_pledge mutation)) now of
              Inl err \<Rightarrow> (Inl err, s)
            | Inr sh \<Rightarrow>
                (let messages1 = (if pt_old_public_message_id mutation \<noteq> []
                       then dpop (pt_old_public_message_id mutation) (public_messages s) else public_messages s);
                     messages2 = (case pt_public_message mutation of None \<Rightarrow> messages1
                       | Some m \<Rightarrow> dset (pm_id m) m messages1)
                 in (Inr (pt_pledge mutation),
                     s\<lparr>pledges := dset (pl_user_id incoming) (pt_pledge mutation) (pledges s),
                       shards := dset i sh (shards s), public_messages := messages2\<rparr>))))"

definition get_pledge :: "string \<Rightarrow> group_buy \<Rightarrow> pledge option" where
  "get_pledge u s = dget (pledges s) u"

text \<open>The pledge leaves the table before the counter is written: an exception would leave it removed.\<close>

definition withdraw :: "string \<Rightarrow> instant \<Rightarrow> group_buy \<Rightarrow> bool result \<times> group_buy" where
  "withdraw u now s =
     (case dget (pledges s) u of None \<Rightarrow> (Inr False, s)
      | Some existing \<Rightarrow>
          (let s1 = s\<lparr>pledges := dpop u (pledges s)\<rparr>; i = pl_aggregate_shard existing
           in case apply_pledge_delta (shard_row i now s1) (Some existing) None now of
                Inl err \<Rightarrow> (Inl err, s1)
              | Inr sh \<Rightarrow>
                  (Inr True, s1\<lparr>shards := dset i sh (shards s1),
                     public_messages := (if pl_public_message_id existing \<noteq> []
                       then dpop (pl_public_message_id existing) (public_messages s1) else public_messages s1)\<rparr>)))"

definition sum_aggregate_shards :: "aggregate_shard list \<Rightarrow> aggregate" where
  "sum_aggregate_shards xs = \<lparr>ag_active_pledge_count = sum_list (map as_active_pledge_count xs),
     ag_monthly_minimum = sum_list (map as_monthly_minimum xs),
     ag_expected_bedrock = sum_list (map as_expected_bedrock xs),
     ag_expected_all_llm = sum_list (map as_expected_all_llm xs)\<rparr>"

definition group_aggregate :: "group_buy \<Rightarrow> aggregate" where
  "group_aggregate s = sum_aggregate_shards (dvals (shards s))"

definition list_public_messages :: "int \<Rightarrow> group_buy \<Rightarrow> public_comment list" where
  "list_public_messages limit s =
     slice_to limit (rev (sort_key (\<lambda>m. (pm_updated_at m, pm_id m)) (rev (dvals (public_messages s)))))"

definition list_private_pledges :: "int \<Rightarrow> group_buy \<Rightarrow> pledge list" where
  "list_private_pledges limit s =
     slice_to limit (rev (sort_key (\<lambda>p. (pl_updated_at p, pl_user_id p)) (rev (dvals (pledges s)))))"

section \<open>The specification\<close>

datatype figure = Active_count | Monthly_minimum | Expected_bedrock | Expected_all_llm

fun pledge_figure :: "figure \<Rightarrow> pledge \<Rightarrow> int" where
  "pledge_figure Active_count p = 1"
| "pledge_figure Monthly_minimum p = pl_monthly_minimum p"
| "pledge_figure Expected_bedrock p = pl_expected_bedrock p"
| "pledge_figure Expected_all_llm p = pl_expected_all_llm p"

fun shard_figure :: "figure \<Rightarrow> aggregate_shard \<Rightarrow> int" where
  "shard_figure Active_count sh = as_active_pledge_count sh"
| "shard_figure Monthly_minimum sh = as_monthly_minimum sh"
| "shard_figure Expected_bedrock sh = as_expected_bedrock sh"
| "shard_figure Expected_all_llm sh = as_expected_all_llm sh"

fun aggregate_figure :: "figure \<Rightarrow> aggregate \<Rightarrow> int" where
  "aggregate_figure Active_count a = ag_active_pledge_count a"
| "aggregate_figure Monthly_minimum a = ag_monthly_minimum a"
| "aggregate_figure Expected_bedrock a = ag_expected_bedrock a"
| "aggregate_figure Expected_all_llm a = ag_expected_all_llm a"

text \<open>The abstract state: the figures of the active pledge of each user.\<close>

type_synonym book = "string \<rightharpoonup> (figure \<Rightarrow> int)"

definition book_of :: "group_buy \<Rightarrow> book" where
  "book_of s u = map_option (\<lambda>p g. pledge_figure g p) (dget (pledges s) u)"

definition book_total :: "book \<Rightarrow> figure \<Rightarrow> int" where
  "book_total m g = (\<Sum>u \<in> dom m. the (m u) g)"

datatype pledge_op =
    Upsert pledge string instant
  | Withdraw string instant

fun pledge_step :: "(string \<Rightarrow> int) \<Rightarrow> pledge_op \<Rightarrow> group_buy \<Rightarrow> group_buy" where
  "pledge_step digest4 (Upsert p candidate now) s = snd (upsert digest4 p candidate now s)"
| "pledge_step digest4 (Withdraw u now) s = snd (withdraw u now s)"

text \<open>A pledge is accepted when its minimum is positive and it names the shard of its user.\<close>

definition acceptable :: "(string \<Rightarrow> int) \<Rightarrow> pledge \<Rightarrow> bool" where
  "acceptable digest4 p \<longleftrightarrow> 0 < pl_monthly_minimum p \<and>
     pl_aggregate_shard p = bedrock_group_buy_shard digest4 (pl_user_id p)"

fun book_step :: "(string \<Rightarrow> int) \<Rightarrow> pledge_op \<Rightarrow> book \<Rightarrow> book" where
  "book_step digest4 (Upsert p candidate now) m =
     (if acceptable digest4 p then m(pl_user_id p \<mapsto> (\<lambda>g. pledge_figure g p)) else m)"
| "book_step digest4 (Withdraw u now) m = m(u := None)"

text \<open>The routes accept only expectations that are not negative; a fresh comment id is not in use.\<close>

fun pledge_legal :: "pledge_op \<Rightarrow> group_buy \<Rightarrow> bool" where
  "pledge_legal (Upsert p candidate now) s \<longleftrightarrow> 0 \<le> pl_expected_bedrock p \<and> 0 \<le> pl_expected_all_llm p \<and>
     candidate \<noteq> [] \<and> dget (public_messages s) candidate = None"
| "pledge_legal (Withdraw u now) s \<longleftrightarrow> True"

section \<open>The invariant\<close>

definition in_shard :: "int \<Rightarrow> figure \<Rightarrow> pledge \<Rightarrow> int" where
  "in_shard i g p = (if pl_aggregate_shard p = i then pledge_figure g p else 0)"

definition pledge_ok :: "(string \<Rightarrow> int) \<Rightarrow> string \<Rightarrow> pledge \<Rightarrow> bool" where
  "pledge_ok digest4 u p \<longleftrightarrow> pl_user_id p = u \<and> pl_aggregate_shard p = bedrock_group_buy_shard digest4 u \<and>
     (\<forall>g. 0 \<le> pledge_figure g p)"

definition shard_cell :: "figure \<Rightarrow> int \<Rightarrow> group_buy \<Rightarrow> int" where
  "shard_cell g i s = dcell (shard_figure g) (dget (shards s) i)"

text \<open>The comments on the public page are those of the pledges that publish one.\<close>

definition comment_of :: "pledge \<Rightarrow> public_comment \<Rightarrow> bool" where
  "comment_of p m \<longleftrightarrow> pl_publish_message p \<and> pm_id m = pl_public_message_id p \<and> pm_message m = pl_public_message p"

definition comments_ok :: "group_buy \<Rightarrow> bool" where
  "comments_ok s \<longleftrightarrow>
     (\<forall>i m. dget (public_messages s) i = Some m \<longrightarrow>
        i \<noteq> [] \<and> (\<exists>u p. dget (pledges s) u = Some p \<and> pl_public_message_id p = i \<and> comment_of p m)) \<and>
     (\<forall>u p. dget (pledges s) u = Some p \<and> pl_public_message_id p \<noteq> [] \<longrightarrow>
        dget (public_messages s) (pl_public_message_id p) \<noteq> None) \<and>
     (\<forall>u v p q. dget (pledges s) u = Some p \<and> dget (pledges s) v = Some q \<and>
        pl_public_message_id p = pl_public_message_id q \<and> pl_public_message_id p \<noteq> [] \<longrightarrow> u = v)"

definition group_ok :: "(string \<Rightarrow> int) \<Rightarrow> group_buy \<Rightarrow> bool" where
  "group_ok digest4 s \<longleftrightarrow> distinct (map fst (pledges s)) \<and>
     (\<forall>u p. dget (pledges s) u = Some p \<longrightarrow> pledge_ok digest4 u p) \<and>
     (\<forall>g i. shard_cell g i s = dsum (in_shard i g) (pledges s)) \<and>
     (\<forall>g. dsum (shard_figure g) (shards s) = dsum (pledge_figure g) (pledges s)) \<and> comments_ok s"

lemma group_okD:
  assumes "group_ok digest4 s"
  shows "distinct (map fst (pledges s))" "dget (pledges s) u = Some p \<Longrightarrow> pledge_ok digest4 u p"
    "shard_cell g i s = dsum (in_shard i g) (pledges s)"
    "dsum (shard_figure g) (shards s) = dsum (pledge_figure g) (pledges s)" "comments_ok s"
  using assms by (simp_all add: group_ok_def)

lemma comments_okD:
  assumes "comments_ok s"
  shows "dget (public_messages s) i = Some m \<Longrightarrow>
      i \<noteq> [] \<and> (\<exists>u p. dget (pledges s) u = Some p \<and> pl_public_message_id p = i \<and> comment_of p m)"
    "dget (pledges s) u = Some p \<Longrightarrow> pl_public_message_id p \<noteq> [] \<Longrightarrow> dget (public_messages s) (pl_public_message_id p) \<noteq> None"
    "dget (pledges s) u = Some p \<Longrightarrow> dget (pledges s) v = Some q \<Longrightarrow>
      pl_public_message_id p = pl_public_message_id q \<Longrightarrow> pl_public_message_id q \<noteq> [] \<Longrightarrow> u = v"
  using assms unfolding comments_ok_def by (blast, blast, metis)

subsection \<open>Counters\<close>

lemma shard_row_figure: "shard_figure g (shard_row i now s) = shard_cell g i s"
  by (cases g) (auto simp: shard_row_def shard_cell_def dget_or_def empty_aggregate_shard_def split: option.split)

definition delta_figure :: "figure \<Rightarrow> aggregate_shard \<Rightarrow> pledge option \<Rightarrow> pledge option \<Rightarrow> int" where
  "delta_figure g sh old new = shard_figure g sh - dcell (pledge_figure g) old + dcell (pledge_figure g) new"

lemma apply_delta_ok:
  assumes "\<And>g. 0 \<le> delta_figure g sh old new"
  obtains sh' where "apply_pledge_delta sh old new now = Inr sh'"
    "\<And>g. shard_figure g sh' = delta_figure g sh old new"
proof -
  define s1 where "s1 = (case old of None \<Rightarrow> sh | Some p \<Rightarrow> subtract_pledge p sh)"
  define s2 where "s2 = (case new of None \<Rightarrow> s1 | Some p \<Rightarrow> add_pledge p s1)"
  have f: "shard_figure g s2 = delta_figure g sh old new" for g
    unfolding s2_def s1_def delta_figure_def
    by (cases g) (auto simp: subtract_pledge_def add_pledge_def split: option.split)
  have "0 \<le> as_active_pledge_count s2" "0 \<le> as_monthly_minimum s2" "0 \<le> as_expected_bedrock s2" "0 \<le> as_expected_all_llm s2"
    using assms f [of Active_count] f [of Monthly_minimum] f [of Expected_bedrock] f [of Expected_all_llm] by simp_all
  then have "apply_pledge_delta sh old new now = Inr (s2\<lparr>as_updated_at := now\<rparr>)"
    unfolding apply_pledge_delta_def Let_def s1_def [symmetric] s2_def [symmetric] by simp
  moreover have "shard_figure g (s2\<lparr>as_updated_at := now\<rparr>) = shard_figure g s2" for g by (cases g) simp_all
  ultimately show thesis using that f by simp
qed

lemma existing_within_shard:
  assumes "group_ok digest4 s" "dget (pledges s) u = Some p"
  shows "pledge_figure g p \<le> shard_cell g (pl_aggregate_shard p) s"
proof -
  have "0 \<le> in_shard i g q" if q: "q \<in> set (dvals (pledges s))" for q i
  proof -
    obtain v where "dget (pledges s) v = Some q" using q group_okD(1) [OF assms(1)] by auto
    then show ?thesis using group_okD(2) [OF assms(1)] by (simp add: pledge_ok_def in_shard_def)
  qed
  then have "in_shard (pl_aggregate_shard p) g p \<le> dsum (in_shard (pl_aggregate_shard p) g) (pledges s)"
    by (rule dsum_ge_cell [OF assms(2)])
  then show ?thesis using group_okD(3) [OF assms(1)] by (simp add: in_shard_def)
qed

lemma shard_cell_nonneg: "group_ok digest4 s \<Longrightarrow> 0 \<le> shard_cell g i s"
  unfolding group_okD(3)
proof (rule dsum_nonneg)
  fix q assume ok: "group_ok digest4 s" and q: "q \<in> set (dvals (pledges s))"
  then obtain v where "dget (pledges s) v = Some q" using group_okD(1) [OF ok] by auto
  then show "0 \<le> in_shard i g q" using group_okD(2) [OF ok] by (simp add: pledge_ok_def in_shard_def)
qed

subsection \<open>Storing a pledge\<close>

text \<open>What an accepted mutation is: the pledge with its comment ids, and the comment it publishes.\<close>

definition mutation_of :: "pledge \<Rightarrow> pledge option \<Rightarrow> pledge_mutation \<Rightarrow> bool" where
  "mutation_of p existing mut \<longleftrightarrow>
     pl_user_id (pt_pledge mut) = pl_user_id p \<and> pl_aggregate_shard (pt_pledge mut) = pl_aggregate_shard p \<and>
     (\<forall>g. pledge_figure g (pt_pledge mut) = pledge_figure g p) \<and>
     pt_old_public_message_id mut = (case existing of None \<Rightarrow> [] | Some e \<Rightarrow> pl_public_message_id e) \<and>
     (case pt_public_message mut of
        None \<Rightarrow> pl_public_message_id (pt_pledge mut) = []
      | Some m \<Rightarrow> comment_of (pt_pledge mut) m)"

lemma prepare_ok:
  assumes "acceptable digest4 p" "\<And>e. existing = Some e \<Longrightarrow> pl_aggregate_shard e = pl_aggregate_shard p"
  obtains mut where "prepare_pledge_mutation digest4 p existing candidate now = Inr mut" "mutation_of p existing mut"
    "\<And>m. pt_public_message mut = Some m \<Longrightarrow> pl_public_message_id (pt_pledge mut) =
       (if pt_old_public_message_id mut = [] then candidate else pt_old_public_message_id mut)"
proof -
  have g: "pledge_figure g (q\<lparr>pl_public_message_id := x\<rparr>) = pledge_figure g q"
    "pledge_figure g (q\<lparr>pl_public_message_index_id := x\<rparr>) = pledge_figure g q"
    "pledge_figure g (q\<lparr>pl_created_at := t\<rparr>) = pledge_figure g q"
    "pledge_figure g (q\<lparr>pl_accepted_at := t\<rparr>) = pledge_figure g q"
    "pledge_figure g (q\<lparr>pl_updated_at := t\<rparr>) = pledge_figure g q" for g q x t by (cases g; simp)+
  show thesis
  proof (cases existing)
    case None
    show thesis
      using assms None by (intro that)
        (auto simp: prepare_pledge_mutation_def acceptable_def Let_def mutation_of_def comment_of_def g split: if_splits)
  next
    case (Some e)
    show thesis
      using assms Some by (intro that)
        (auto simp: prepare_pledge_mutation_def acceptable_def Let_def mutation_of_def comment_of_def g split: if_splits)
  qed
qed

lemma prepare_refused:
  "\<not> acceptable digest4 p \<Longrightarrow> \<exists>msg. prepare_pledge_mutation digest4 p existing candidate now = Inl (ValueError msg)"
  by (auto simp: prepare_pledge_mutation_def acceptable_def)

lemma pledge_upsert_cases:
  assumes "group_ok digest4 s" "pledge_legal (Upsert p candidate now) s" "upsert digest4 p candidate now s = (res, s')"
  obtains (refused) msg where "\<not> acceptable digest4 p" "res = Inl (ValueError msg)" "s' = s"
  | (stored) mut sh messages1 messages2 where "acceptable digest4 p" "res = Inr (pt_pledge mut)"
      "mutation_of p (dget (pledges s) (pl_user_id p)) mut"
      "\<And>m. pt_public_message mut = Some m \<Longrightarrow> pl_public_message_id (pt_pledge mut) =
         (if pt_old_public_message_id mut = [] then candidate else pt_old_public_message_id mut)"
      "\<And>g. shard_figure g sh = shard_cell g (pl_aggregate_shard p) s
         - dcell (pledge_figure g) (dget (pledges s) (pl_user_id p)) + pledge_figure g p"
      "messages1 = (if pt_old_public_message_id mut \<noteq> [] then dpop (pt_old_public_message_id mut) (public_messages s)
         else public_messages s)"
      "messages2 = (case pt_public_message mut of None \<Rightarrow> messages1 | Some m \<Rightarrow> dset (pm_id m) m messages1)"
      "s' = s\<lparr>pledges := dset (pl_user_id p) (pt_pledge mut) (pledges s),
         shards := dset (pl_aggregate_shard p) sh (shards s), public_messages := messages2\<rparr>"
proof (cases "acceptable digest4 p")
  case False
  then obtain msg where "prepare_pledge_mutation digest4 p (dget (pledges s) (pl_user_id p)) candidate now = Inl (ValueError msg)"
    using prepare_refused by blast
  then show thesis using refused [OF False] assms(3) by (auto simp: upsert_def)
next
  case True
  let ?e = "dget (pledges s) (pl_user_id p)" and ?i = "pl_aggregate_shard p"
  have sh: "pl_aggregate_shard e = ?i" if "?e = Some e" for e
    using group_okD(2) [OF assms(1) that] True by (simp add: pledge_ok_def acceptable_def)
  obtain mut where mut: "prepare_pledge_mutation digest4 p ?e candidate now = Inr mut" "mutation_of p ?e mut"
    "\<And>m. pt_public_message mut = Some m \<Longrightarrow> pl_public_message_id (pt_pledge mut) =
       (if pt_old_public_message_id mut = [] then candidate else pt_old_public_message_id mut)"
    using prepare_ok [OF True, of ?e] sh by metis
  have fig: "pledge_figure g (pt_pledge mut) = pledge_figure g p" for g using mut(2) by (simp add: mutation_of_def)
  have pos: "0 \<le> pledge_figure g p" for g
    using True assms(2) by (cases g) (simp_all add: acceptable_def)
  have "dcell (pledge_figure g) ?e \<le> shard_cell g ?i s" for g
  proof (cases ?e)
    case (Some e)
    then show ?thesis using existing_within_shard [OF assms(1) Some, of g] sh [OF Some] by simp
  qed (simp add: shard_cell_nonneg [OF assms(1)])
  then have "0 \<le> delta_figure g (shard_row ?i now s) ?e (Some (pt_pledge mut))" for g
    using pos [of g] by (simp add: delta_figure_def shard_row_figure fig add_increasing)
  then obtain sh' where sh': "apply_pledge_delta (shard_row ?i now s) ?e (Some (pt_pledge mut)) now = Inr sh'"
    "\<And>g. shard_figure g sh' = delta_figure g (shard_row ?i now s) ?e (Some (pt_pledge mut))"
    using apply_delta_ok [where now = now] by metis
  show thesis
    by (rule stored [OF True _ mut(2,3) _ refl refl, where sh = sh'])
      (use assms(3) mut(1) sh' in \<open>simp_all add: upsert_def Let_def delta_figure_def shard_row_figure fig\<close>)
qed

lemma counters_dset:
  assumes "group_ok digest4 s" "shards s' = dset i sh (shards s)"
    and "\<And>g. shard_figure g sh = shard_cell g i s - dcell (pledge_figure g) old + dcell (pledge_figure g) new"
    and "\<And>p. old = Some p \<Longrightarrow> pl_aggregate_shard p = i" "\<And>p. new = Some p \<Longrightarrow> pl_aggregate_shard p = i"
    and "\<And>f. dsum f (pledges s') = dsum f (pledges s) - dcell f old + dcell f new"
  shows "shard_cell g j s' = dsum (in_shard j g) (pledges s')"
    "dsum (shard_figure g) (shards s') = dsum (pledge_figure g) (pledges s')"
proof -
  have c: "dcell (in_shard j g) x = (if j = i then dcell (pledge_figure g) x else 0)"
    if "\<And>p. x = Some p \<Longrightarrow> pl_aggregate_shard p = i" for x
    using that by (cases x) (auto simp: in_shard_def)
  show "shard_cell g j s' = dsum (in_shard j g) (pledges s')"
    using group_okD(3) [OF assms(1), of g j] assms(3) [of g] assms(6) [of "in_shard j g"] c [OF assms(4)] c [OF assms(5)]
    by (auto simp: shard_cell_def assms(2))
  show "dsum (shard_figure g) (shards s') = dsum (pledge_figure g) (pledges s')"
    using group_okD(4) [OF assms(1), of g] assms(3) [of g] assms(6) [of "pledge_figure g"]
    by (simp add: assms(2) dsum_dset shard_cell_def)
qed

text \<open>The comments after a pledge \<open>e\<close> of the user leaves (\<open>old\<close> its comment id) and a pledge with the
  comment \<open>m\<close> takes its place.\<close>

lemma comments_without:
  assumes "comments_ok s" "old = (case dget (pledges s) u of None \<Rightarrow> [] | Some e \<Rightarrow> pl_public_message_id e)"
    and "m1 = (if old \<noteq> [] then dpop old (public_messages s) else public_messages s)"
  shows "dget m1 i = Some m \<Longrightarrow> i \<noteq> [] \<and> i \<noteq> old \<and>
      (\<exists>v p. v \<noteq> u \<and> dget (pledges s) v = Some p \<and> pl_public_message_id p = i \<and> comment_of p m)"
    "v \<noteq> u \<Longrightarrow> dget (pledges s) v = Some p \<Longrightarrow> pl_public_message_id p \<noteq> [] \<Longrightarrow>
      pl_public_message_id p \<noteq> old \<and> dget m1 (pl_public_message_id p) \<noteq> None"
proof -
  have uniq: "v = u" if "dget (pledges s) v = Some p" "pl_public_message_id p = old" "old \<noteq> []" for v p
  proof -
    obtain e where e: "dget (pledges s) u = Some e" using assms(2) \<open>old \<noteq> []\<close> by (cases "dget (pledges s) u") auto
    then have "pl_public_message_id e = old" using assms(2) by simp
    then show ?thesis using comments_okD(3) [OF assms(1) that(1) e] that by simp
  qed
  show "i \<noteq> [] \<and> i \<noteq> old \<and> (\<exists>v p. v \<noteq> u \<and> dget (pledges s) v = Some p \<and> pl_public_message_id p = i \<and> comment_of p m)"
    if "dget m1 i = Some m"
  proof -
    have i: "dget (public_messages s) i = Some m" "old = [] \<or> i \<noteq> old" using that assms(3) by (auto split: if_splits)
    then obtain v p where v: "i \<noteq> []" "dget (pledges s) v = Some p" "pl_public_message_id p = i" "comment_of p m"
      using comments_okD(1) [OF assms(1)] by blast
    moreover have "v \<noteq> u" using v assms(2) i(2) by auto
    ultimately show ?thesis using i(2) by blast
  qed
  show "pl_public_message_id p \<noteq> old \<and> dget m1 (pl_public_message_id p) \<noteq> None"
    if "v \<noteq> u" "dget (pledges s) v = Some p" "pl_public_message_id p \<noteq> []"
    using that uniq comments_okD(2) [OF assms(1) that(2,3)] assms(3) by (cases "old = []") auto
qed

lemma upsert_comments:
  assumes ok: "comments_ok s" and mut: "mutation_of p (dget (pledges s) (pl_user_id p)) mut"
    and fresh: "candidate \<noteq> []" "dget (public_messages s) candidate = None"
    and new: "\<And>m. pt_public_message mut = Some m \<Longrightarrow> pl_public_message_id (pt_pledge mut) =
         (if pt_old_public_message_id mut = [] then candidate else pt_old_public_message_id mut)"
    and m1: "m1 = (if pt_old_public_message_id mut \<noteq> [] then dpop (pt_old_public_message_id mut) (public_messages s)
         else public_messages s)"
    and s': "pledges s' = dset (pl_user_id p) (pt_pledge mut) (pledges s)"
      "public_messages s' = (case pt_public_message mut of None \<Rightarrow> m1 | Some m \<Rightarrow> dset (pm_id m) m m1)"
  shows "comments_ok s'"
proof -
  let ?u = "pl_user_id p" and ?old = "pt_old_public_message_id mut" and ?q = "pt_pledge mut"
  have e: "?old = (case dget (pledges s) ?u of None \<Rightarrow> [] | Some e \<Rightarrow> pl_public_message_id e)"
    using mut by (simp add: mutation_of_def)
  note without = comments_without [OF ok e m1]
  have q: "pt_public_message mut = None \<Longrightarrow> pl_public_message_id ?q = []"
    "pt_public_message mut = Some m \<Longrightarrow> comment_of ?q m \<and> pm_id m = pl_public_message_id ?q \<and> pl_public_message_id ?q \<noteq> []" for m
    using mut new [of m] fresh(1) by (auto simp: mutation_of_def comment_of_def)
  have other: "pl_public_message_id r \<noteq> pl_public_message_id ?q"
    if r: "v \<noteq> ?u" "dget (pledges s) v = Some r" "pl_public_message_id r \<noteq> []" for v r
  proof (cases "pt_public_message mut")
    case None
    then show ?thesis using q(1) r by auto
  next
    case (Some m)
    have "dget (public_messages s) (pl_public_message_id r) \<noteq> None" using comments_okD(2) [OF ok] r by blast
    then show ?thesis using new [OF Some] without(2) [OF r] fresh(2) by (auto split: if_splits)
  qed
  show ?thesis
    unfolding comments_ok_def s'(1)
  proof (intro conjI allI impI)
    fix i m assume i: "dget (public_messages s') i = Some m"
    show "i \<noteq> []" using i without(1) [of i m] q by (auto simp: s'(2) split: option.splits if_splits)
    show "\<exists>u r. dget (dset ?u ?q (pledges s)) u = Some r \<and> pl_public_message_id r = i \<and> comment_of r m"
    proof (cases "dget m1 i = Some m")
      case True
      then show ?thesis using without(1) [OF True] by auto
    next
      case False
      then have "pt_public_message mut = Some m \<and> i = pm_id m" using i by (auto simp: s'(2) split: option.splits if_splits)
      then show ?thesis using q(2) [of m] by auto
    qed
  next
    fix v r assume r: "dget (dset ?u ?q (pledges s)) v = Some r \<and> pl_public_message_id r \<noteq> []"
    show "dget (public_messages s') (pl_public_message_id r) \<noteq> None"
    proof (cases "v = ?u")
      case True
      then show ?thesis using r q by (cases "pt_public_message mut") (auto simp: s'(2))
    next
      case False
      then show ?thesis using r without(2) [OF False] by (auto simp: s'(2) split: option.split)
    qed
  next
    fix v w r t
    assume a: "dget (dset ?u ?q (pledges s)) v = Some r \<and> dget (dset ?u ?q (pledges s)) w = Some t \<and>
      pl_public_message_id r = pl_public_message_id t \<and> pl_public_message_id r \<noteq> []"
    then show "v = w"
      using other [of v r] other [of w t] comments_okD(3) [OF ok, of v r w t] by (auto split: if_splits)
  qed
qed

lemma upsert_ok:
  assumes "group_ok digest4 s" "pledge_legal (Upsert p candidate now) s" "upsert digest4 p candidate now s = (res, s')"
  shows "group_ok digest4 s' \<and> book_of s' = book_step digest4 (Upsert p candidate now) (book_of s) \<and>
    (\<forall>msg. res \<noteq> Inl (RuntimeError msg))"
  using assms
proof (cases rule: pledge_upsert_cases)
  case (refused msg)
  then show ?thesis using assms(1) by simp
next
  case (stored mut sh m1 m2)
  let ?e = "dget (pledges s) (pl_user_id p)"
  note mut = stored(3) [unfolded mutation_of_def]
  have c: "shard_cell g i s' = dsum (in_shard i g) (pledges s')"
    "dsum (shard_figure g) (shards s') = dsum (pledge_figure g) (pledges s')" for g i
    by (rule counters_dset [OF assms(1), of s' "pl_aggregate_shard p" sh ?e "Some (pt_pledge mut)"];
        use stored(5) mut group_okD(2) [OF assms(1), of "pl_user_id p"] stored(1)
        in \<open>auto simp: stored(8) dsum_dset pledge_ok_def acceptable_def\<close>)+
  have "comments_ok s'"
    by (rule upsert_comments [OF group_okD(5) [OF assms(1)] stored(3) _ _ stored(4,6)])
      (use assms(2) in \<open>simp_all add: stored(7,8)\<close>)
  moreover have "pledge_ok digest4 u q" if "dget (pledges s') u = Some q" for u q
  proof (cases "u = pl_user_id p")
    case True
    have "0 \<le> pledge_figure g p" for g using stored(1) assms(2) by (cases g) (simp_all add: acceptable_def)
    then show ?thesis using that True mut stored(1) by (auto simp: stored(8) pledge_ok_def acceptable_def)
  next
    case False
    then show ?thesis using that group_okD(2) [OF assms(1)] by (simp add: stored(8))
  qed
  moreover have "distinct (map fst (pledges s'))" using group_okD(1) [OF assms(1)] by (simp add: stored(8) distinct_update)
  ultimately have "group_ok digest4 s'" using c by (simp add: group_ok_def)
  moreover have "book_of s' = book_step digest4 (Upsert p candidate now) (book_of s)"
    using stored(1) mut by (auto simp: book_of_def stored(8) fun_eq_iff)
  ultimately show ?thesis using stored(2) by simp
qed

subsection \<open>Withdrawing a pledge\<close>

lemma withdraw_ok:
  assumes "group_ok digest4 s" "withdraw u now s = (res, s')"
  shows "group_ok digest4 s' \<and> book_of s' = book_step digest4 (Withdraw u now) (book_of s) \<and>
    res = Inr (dget (pledges s) u \<noteq> None)"
proof (cases "dget (pledges s) u")
  case None
  then have "s' = s" "res = Inr False" using assms(2) by (simp_all add: withdraw_def)
  moreover have "(book_of s)(u := None) = book_of s" using None by (simp add: book_of_def fun_eq_iff)
  ultimately show ?thesis using assms(1) None by simp
next
  case (Some e)
  let ?i = "pl_aggregate_shard e" and ?s1 = "s\<lparr>pledges := dpop u (pledges s)\<rparr>"
  have f: "shard_figure g (shard_row ?i now ?s1) = shard_cell g ?i s" for g
    by (simp add: shard_row_figure) (simp add: shard_cell_def)
  then have "0 \<le> delta_figure g (shard_row ?i now ?s1) (Some e) None" for g
    using existing_within_shard [OF assms(1) Some, of g] by (simp add: delta_figure_def)
  then obtain sh where sh: "apply_pledge_delta (shard_row ?i now ?s1) (Some e) None now = Inr sh"
    "\<And>g. shard_figure g sh = delta_figure g (shard_row ?i now ?s1) (Some e) None"
    using apply_delta_ok [where now = now] by metis
  define m1 where "m1 = (if pl_public_message_id e \<noteq> [] then dpop (pl_public_message_id e) (public_messages s) else public_messages s)"
  have s': "s' = s\<lparr>pledges := dpop u (pledges s), shards := dset ?i sh (shards s), public_messages := m1\<rparr>" "res = Inr True"
    using assms(2) Some sh(1) by (auto simp: withdraw_def Let_def m1_def)
  have old: "pl_public_message_id e = (case dget (pledges s) u of None \<Rightarrow> [] | Some e \<Rightarrow> pl_public_message_id e)"
    using Some by simp
  note without = comments_without [OF group_okD(5) [OF assms(1)] old m1_def]
  have "comments_ok s'"
    unfolding comments_ok_def
  proof (intro conjI allI impI)
    fix i m assume i: "dget (public_messages s') i = Some m"
    then have "dget m1 i = Some m" by (simp add: s'(1))
    note w = without(1) [OF this]
    show "i \<noteq> []" using w by simp
    show "\<exists>v p. dget (pledges s') v = Some p \<and> pl_public_message_id p = i \<and> comment_of p m"
      using w by (auto simp: s'(1))
  next
    fix v p assume "dget (pledges s') v = Some p \<and> pl_public_message_id p \<noteq> []"
    then show "dget (public_messages s') (pl_public_message_id p) \<noteq> None"
      using without(2) [of v p] by (simp add: s'(1) split: if_splits)
  next
    fix v w p q
    assume "dget (pledges s') v = Some p \<and> dget (pledges s') w = Some q \<and>
      pl_public_message_id p = pl_public_message_id q \<and> pl_public_message_id p \<noteq> []"
    then show "v = w" using comments_okD(3) [OF group_okD(5) [OF assms(1)], of v p w q] by (auto simp: s'(1) split: if_splits)
  qed
  moreover have "shard_cell g i s' = dsum (in_shard i g) (pledges s')"
    "dsum (shard_figure g) (shards s') = dsum (pledge_figure g) (pledges s')" for g i
    by (rule counters_dset [OF assms(1), of s' ?i sh "Some e" None];
        use sh(2) f Some group_okD(1) [OF assms(1)] in \<open>auto simp: s'(1) dsum_dpop delta_figure_def\<close>)+
  moreover have "distinct (map fst (pledges s'))" using group_okD(1) [OF assms(1)] by (simp add: s'(1) distinct_delete)
  moreover have "pledge_ok digest4 v q" if "dget (pledges s') v = Some q" for v q
    using that group_okD(2) [OF assms(1)] by (simp add: s'(1) split: if_splits)
  ultimately have "group_ok digest4 s'" by (simp add: group_ok_def)
  then show ?thesis using Some s'(2) by (auto simp: book_of_def s'(1) fun_eq_iff)
qed

interpretation group_buy_run: refining_run "pledge_step digest4" pledge_legal "group_ok digest4" book_of "book_step digest4"
proof
  fix s e
  assume "group_ok digest4 s" "pledge_legal e s"
  then show "group_ok digest4 (pledge_step digest4 e s)" "book_of (pledge_step digest4 e s) = book_step digest4 e (book_of s)"
    using upsert_ok [OF _ _ prod.collapse [symmetric], of digest4 s] withdraw_ok [OF _ prod.collapse [symmetric], of digest4 s]
    by (cases e; simp)+
qed

lemma empty_group_ok: "group_ok digest4 empty_group_buy"
  by (simp add: group_ok_def empty_group_buy_def shard_cell_def comments_ok_def)

lemma empty_book: "book_of empty_group_buy = Map.empty"
  by (simp add: book_of_def empty_group_buy_def fun_eq_iff)

lemma group_total:
  assumes "group_ok digest4 s"
  shows "aggregate_figure g (group_aggregate s) = book_total (book_of s) g"
proof -
  have "aggregate_figure g (group_aggregate s) = dsum (shard_figure g) (shards s)"
    by (cases g) (simp_all add: group_aggregate_def sum_aggregate_shards_def dsum_def comp_def)
  also have "\<dots> = dsum (pledge_figure g) (pledges s)" by (rule group_okD(4) [OF assms])
  also have "\<dots> = (\<Sum>u \<in> dom (dget (pledges s)). pledge_figure g (the (dget (pledges s) u)))"
    by (rule dsum_dom [OF group_okD(1) [OF assms]])
  also have "\<dots> = book_total (book_of s) g"
    unfolding book_total_def by (intro sum.cong) (auto simp: book_of_def dom_def)
  finally show ?thesis .
qed

section \<open>Properties\<close>


definition demo_pledge :: "string \<Rightarrow> int \<Rightarrow> pledge" where
  "demo_pledge u n = \<lparr>pl_user_id = u, pl_workspace_id = ''w'', pl_full_name = ''N'', pl_title = [], pl_company_name = [],
     pl_company_url = [], pl_monthly_minimum = n, pl_expected_bedrock = 2 * n, pl_expected_all_llm = 3 * n,
     pl_aggregate_shard = 5, pl_last_month_llm_spend = 0, pl_last_month_spend_sources = [], pl_public_message = ''hi'',
     pl_publish_message = True, pl_public_message_id = [], pl_public_message_index_id = [], pl_created_at = 0,
     pl_updated_at = 0, pl_accepted_at = 0\<rparr>"

definition demo_pledges :: "pledge_op list" where
  "demo_pledges = [Upsert (demo_pledge ''a'' 10) ''m1'' 9999999999999991, Upsert (demo_pledge ''b'' 20) ''m2'' 9999999999999992,
     Upsert (demo_pledge ''a'' 15) ''m3'' 9999999999999993,
     Withdraw ''b'' 9999999999999994]"


end
