(* ===== verification/Tokens.thy ===== *)
theory Tokens
  imports Store
begin

text \<open>
  The secrets the console hands out: browser sessions (\<open>storage_auth_sessions.py\<close>), OAuth
  authorization codes (\<open>storage_oauth_codes.py\<close>), verification tokens
  (\<open>storage_verification_tokens.py\<close>) and SIWE wallet challenges
  (\<open>storage_wallet_challenges.py\<close>).

  Each table keeps its records by id and an index from the lookup hash of the raw secret to the id;
  the raw secret itself is not stored.  Random values and clock readings are arguments;
  \<open>hash_api_key\<close> and \<open>lookup_hash_api_key\<close> (SHA-256) are parameters, as in the theory of API keys.
  The expiry stamps these stores write always parse, so a stamp is an instant.

  The locale \<open>one_shot\<close> is the contract of the three tables whose entries are consumed: no entry
  is redeemed more often than it was issued.
\<close>

section \<open>One-shot entries\<close>

text \<open>\<open>issues e k\<close>: the call \<open>e\<close> may issue the entry \<open>k\<close>; \<open>redeems e s\<close>: the entry it redeems.\<close>

primrec redemptions :: "('e \<Rightarrow> 's \<Rightarrow> 's) \<Rightarrow> ('e \<Rightarrow> 's \<Rightarrow> 'k option) \<Rightarrow> 'k \<Rightarrow> 'e list \<Rightarrow> 's \<Rightarrow> nat" where
  "redemptions step redeems k [] s = 0"
| "redemptions step redeems k (e # es) s =
     (if redeems e s = Some k then 1 else 0) + redemptions step redeems k es (step e s)"

definition issue_count :: "('e \<Rightarrow> 'k \<Rightarrow> bool) \<Rightarrow> 'k \<Rightarrow> 'e list \<Rightarrow> nat" where
  "issue_count issues k es = length (filter (\<lambda>e. issues e k) es)"

locale one_shot = invariant_run step "\<lambda>_ _. True" inv
  for step :: "'e \<Rightarrow> 's \<Rightarrow> 's" and inv :: "'s \<Rightarrow> bool" +
  fixes issues :: "'e \<Rightarrow> 'k \<Rightarrow> bool"
    and redeems :: "'e \<Rightarrow> 's \<Rightarrow> 'k option"
    and live :: "'s \<Rightarrow> 'k \<Rightarrow> bool"
  assumes live_issued: "inv s \<Longrightarrow> live (step e s) k \<Longrightarrow> \<not> live s k \<Longrightarrow> issues e k"
    and redeems_live: "inv s \<Longrightarrow> redeems e s = Some k \<Longrightarrow> live s k"
    and redeemed_dead: "inv s \<Longrightarrow> redeems e s = Some k \<Longrightarrow> \<not> live (step e s) k"
begin

lemma redemptions_le:
  "inv s \<Longrightarrow> redemptions step redeems k es s \<le> issue_count issues k es + (if live s k then 1 else 0)"
proof (induction es arbitrary: s)
  case (Cons e es)
  have "redemptions step redeems k es (step e s) \<le> issue_count issues k es + (if live (step e s) k then 1 else 0)"
    by (rule Cons.IH) (use Cons.prems step_inv in blast)
  then show ?case
    using live_issued [OF Cons.prems, of e k] redeems_live [OF Cons.prems, of e k] redeemed_dead [OF Cons.prems, of e k]
    by (auto simp: issue_count_def split: if_splits)
qed (simp add: issue_count_def)

lemma redeemed_as_issued: "inv s \<Longrightarrow> \<not> live s k \<Longrightarrow> redemptions step redeems k es s \<le> issue_count issues k es"
  using redemptions_le [of s k es] by simp

end

section \<open>Clock and hashes\<close>

definition is_expired :: "instant \<Rightarrow> instant option \<Rightarrow> bool" where
  "is_expired now expires_at = (case expires_at of None \<Rightarrow> False | Some t \<Rightarrow> t \<le> now)"

definition expiry :: "instant \<Rightarrow> int \<Rightarrow> instant" where
  "expiry now ttl_seconds = now + max ttl_seconds 60 * 1000000"

lemma expiry_live: "now' < now + 60000000 \<Longrightarrow> \<not> is_expired now' (Some (expiry now ttl))"
  by (simp add: is_expired_def expiry_def)

definition verify_secret :: "(string \<Rightarrow> string \<Rightarrow> string) \<Rightarrow> string \<Rightarrow> string \<Rightarrow> string \<Rightarrow> bool" where
  "verify_secret hash_api_key raw salt digest \<longleftrightarrow> hash_api_key raw salt = digest"

section \<open>Browser sessions\<close>

record auth_session =
  au_hash :: string
  au_salt :: string
  au_secret_hash :: string
  au_lookup_hash :: string
  au_user_id :: string
  au_provider :: string
  au_label :: string
  au_workspace_id :: "string option"
  au_created_at :: instant
  au_expires_at :: "instant option"
  au_state :: string

record auth_sessions =
  sessions :: "(string, auth_session) dict"
  session_ids_by_lookup_hash :: "(string, string) dict"

text \<open>The keyword arguments of \<open>create\<close> and the random values it draws.\<close>

record session_spec =
  ss_raw :: string
  ss_id :: string
  ss_salt :: string
  ss_user_id :: string
  ss_provider :: string
  ss_label :: string
  ss_ttl_seconds :: int
  ss_workspace_id :: "string option"
  ss_state :: string

definition session_create :: "(string \<Rightarrow> string \<Rightarrow> string) \<Rightarrow> (string \<Rightarrow> string) \<Rightarrow> instant \<Rightarrow> session_spec \<Rightarrow>
    auth_sessions \<Rightarrow> (string \<times> auth_session) \<times> auth_sessions" where
  "session_create hash_api_key lookup_hash_api_key now spec s =
     (let raw = ss_raw spec; lookup_hash = lookup_hash_api_key raw;
          session = \<lparr>au_hash = ss_id spec, au_salt = ss_salt spec,
            au_secret_hash = hash_api_key raw (ss_salt spec), au_lookup_hash = lookup_hash,
            au_user_id = ss_user_id spec, au_provider = ss_provider spec, au_label = ss_label spec,
            au_workspace_id = ss_workspace_id spec, au_created_at = iso_now now,
            au_expires_at = Some (expiry now (ss_ttl_seconds spec)), au_state = ss_state spec\<rparr>
      in ((raw, session),
          s\<lparr>sessions := dset (ss_id spec) session (sessions s),
            session_ids_by_lookup_hash := dset lookup_hash (ss_id spec) (session_ids_by_lookup_hash s)\<rparr>))"

text \<open>The body of \<open>get_by_raw\<close>, with the id under which the session object is stored.\<close>

definition session_resolve :: "(string \<Rightarrow> string \<Rightarrow> string) \<Rightarrow> (string \<Rightarrow> string) \<Rightarrow> instant \<Rightarrow> string \<Rightarrow>
    auth_sessions \<Rightarrow> (string \<times> auth_session) option \<times> auth_sessions" where
  "session_resolve hash_api_key lookup_hash_api_key now raw_token s =
     (let lookup_hash = lookup_hash_api_key raw_token in
      case dget (session_ids_by_lookup_hash s) lookup_hash of None \<Rightarrow> (None, s)
      | Some session_id \<Rightarrow>
          (case dget (sessions s) session_id of None \<Rightarrow> (None, s)
           | Some session \<Rightarrow>
               if is_expired now (au_expires_at session)
               then (None, s\<lparr>sessions := dpop session_id (sessions s),
                      session_ids_by_lookup_hash := dpop lookup_hash (session_ids_by_lookup_hash s)\<rparr>)
               else if verify_secret hash_api_key raw_token (au_salt session) (au_secret_hash session)
               then (Some (session_id, session), s) else (None, s)))"

definition session_get_by_raw :: "(string \<Rightarrow> string \<Rightarrow> string) \<Rightarrow> (string \<Rightarrow> string) \<Rightarrow> instant \<Rightarrow> string \<Rightarrow>
    auth_sessions \<Rightarrow> auth_session option \<times> auth_sessions" where
  "session_get_by_raw hash lookup now raw_token s =
     (case session_resolve hash lookup now raw_token s of (r, s') \<Rightarrow> (map_option snd r, s'))"

definition session_upgrade :: "(string \<Rightarrow> string \<Rightarrow> string) \<Rightarrow> (string \<Rightarrow> string) \<Rightarrow> instant \<Rightarrow> string \<Rightarrow> string \<Rightarrow>
    auth_sessions \<Rightarrow> auth_session option \<times> auth_sessions" where
  "session_upgrade hash lookup now raw_token state s =
     (case session_resolve hash lookup now raw_token s of (None, s') \<Rightarrow> (None, s')
      | (Some (session_id, session), s') \<Rightarrow>
          (let updated = session\<lparr>au_state := state\<rparr>
           in (Some updated, s'\<lparr>sessions := dset session_id updated (sessions s')\<rparr>)))"

definition session_set_workspace :: "(string \<Rightarrow> string \<Rightarrow> string) \<Rightarrow> (string \<Rightarrow> string) \<Rightarrow> instant \<Rightarrow> string \<Rightarrow>
    string \<Rightarrow> auth_sessions \<Rightarrow> auth_session option \<times> auth_sessions" where
  "session_set_workspace hash lookup now raw_token workspace_id s =
     (case session_resolve hash lookup now raw_token s of (None, s') \<Rightarrow> (None, s')
      | (Some (session_id, session), s') \<Rightarrow>
          (let updated = session\<lparr>au_workspace_id := Some workspace_id\<rparr>
           in (Some updated, s'\<lparr>sessions := dset session_id updated (sessions s')\<rparr>)))"

definition session_delete_by_raw :: "(string \<Rightarrow> string) \<Rightarrow> string \<Rightarrow> auth_sessions \<Rightarrow> bool \<times> auth_sessions" where
  "session_delete_by_raw lookup_hash_api_key raw_token s =
     (let lookup_hash = lookup_hash_api_key raw_token;
          s1 = s\<lparr>session_ids_by_lookup_hash := dpop lookup_hash (session_ids_by_lookup_hash s)\<rparr>
      in case dget (session_ids_by_lookup_hash s) lookup_hash of None \<Rightarrow> (False, s1)
         | Some session_id \<Rightarrow> (True, s1\<lparr>sessions := dpop session_id (sessions s1)\<rparr>))"

section \<open>OAuth authorization codes\<close>

text \<open>The arguments of \<open>create\<close> that the code carries through unread.\<close>

record code_grant =
  cg_workspace_id :: string
  cg_user_id :: "string option"
  cg_app_id :: int
  cg_callback_url :: string
  cg_key_label :: string
  cg_limit_microdollars :: "microdollars option"
  cg_limit_reset :: "string option"
  cg_expires_at :: "instant option"
  cg_code_challenge :: "string option"
  cg_code_challenge_method :: "string option"
  cg_spawn_agent :: "string option"
  cg_spawn_cloud :: "string option"
  cg_client_app_id :: string
  cg_scopes :: "string list"

record oauth_code =
  oc_hash :: string
  oc_salt :: string
  oc_secret_hash :: string
  oc_lookup_hash :: string
  oc_grant :: code_grant
  oc_created_at :: instant
  oc_code_expires_at :: "instant option"
  oc_consumed_at :: "instant option"

record oauth_codes =
  codes :: "(string, oauth_code) dict"
  code_ids_by_lookup_hash :: "(string, string) dict"

definition code_create :: "(string \<Rightarrow> string \<Rightarrow> string) \<Rightarrow> (string \<Rightarrow> string) \<Rightarrow> instant \<Rightarrow> string \<Rightarrow> string \<Rightarrow> string \<Rightarrow>
    code_grant \<Rightarrow> int \<Rightarrow> oauth_codes \<Rightarrow> (string \<times> oauth_code) \<times> oauth_codes" where
  "code_create hash_api_key lookup_hash_api_key now raw code_id salt grant ttl_seconds s =
     (let lookup_hash = lookup_hash_api_key raw;
          code = \<lparr>oc_hash = code_id, oc_salt = salt, oc_secret_hash = hash_api_key raw salt,
            oc_lookup_hash = lookup_hash, oc_grant = grant, oc_created_at = iso_now now,
            oc_code_expires_at = Some (expiry now ttl_seconds), oc_consumed_at = None\<rparr>
      in ((raw, code),
          s\<lparr>codes := dset code_id code (codes s),
            code_ids_by_lookup_hash := dset lookup_hash code_id (code_ids_by_lookup_hash s)\<rparr>))"

definition code_consume :: "(string \<Rightarrow> string \<Rightarrow> string) \<Rightarrow> (string \<Rightarrow> string) \<Rightarrow> instant \<Rightarrow> string \<Rightarrow>
    oauth_codes \<Rightarrow> oauth_code option \<times> oauth_codes" where
  "code_consume hash_api_key lookup_hash_api_key now raw_code s =
     (let lookup_hash = lookup_hash_api_key raw_code in
      case dget (code_ids_by_lookup_hash s) lookup_hash of None \<Rightarrow> (None, s)
      | Some code_id \<Rightarrow>
          (case dget (codes s) code_id of None \<Rightarrow> (None, s)
           | Some code \<Rightarrow>
               if oc_consumed_at code \<noteq> None then (None, s)
               else if is_expired now (oc_code_expires_at code)
               then (None, s\<lparr>codes := dpop code_id (codes s),
                      code_ids_by_lookup_hash := dpop lookup_hash (code_ids_by_lookup_hash s)\<rparr>)
               else if \<not> verify_secret hash_api_key raw_code (oc_salt code) (oc_secret_hash code) then (None, s)
               else (let consumed = code\<lparr>oc_consumed_at := Some (iso_now now)\<rparr>
                     in (Some consumed, s\<lparr>codes := dset code_id consumed (codes s)\<rparr>))))"

section \<open>Verification tokens\<close>

record verification_token =
  vt_hash :: string
  vt_salt :: string
  vt_secret_hash :: string
  vt_lookup_hash :: string
  vt_user_id :: string
  vt_purpose :: string
  vt_created_at :: instant
  vt_expires_at :: "instant option"
  vt_consumed_at :: "instant option"

record verification_tokens =
  tokens :: "(string, verification_token) dict"
  token_ids_by_lookup_hash :: "(string, string) dict"

definition token_create :: "(string \<Rightarrow> string \<Rightarrow> string) \<Rightarrow> (string \<Rightarrow> string) \<Rightarrow> instant \<Rightarrow> string \<Rightarrow> string \<Rightarrow> string \<Rightarrow>
    string \<Rightarrow> string \<Rightarrow> int \<Rightarrow> verification_tokens \<Rightarrow> (string \<times> verification_token) \<times> verification_tokens" where
  "token_create hash_api_key lookup_hash_api_key now raw token_id salt user_id purpose ttl_seconds s =
     (let lookup_hash = lookup_hash_api_key raw;
          token = \<lparr>vt_hash = token_id, vt_salt = salt, vt_secret_hash = hash_api_key raw salt,
            vt_lookup_hash = lookup_hash, vt_user_id = user_id, vt_purpose = purpose,
            vt_created_at = iso_now now, vt_expires_at = Some (expiry now ttl_seconds), vt_consumed_at = None\<rparr>
      in ((raw, token),
          s\<lparr>tokens := dset token_id token (tokens s),
            token_ids_by_lookup_hash := dset lookup_hash token_id (token_ids_by_lookup_hash s)\<rparr>))"

definition token_consume :: "(string \<Rightarrow> string \<Rightarrow> string) \<Rightarrow> (string \<Rightarrow> string) \<Rightarrow> instant \<Rightarrow> string \<Rightarrow> string \<Rightarrow>
    verification_tokens \<Rightarrow> verification_token option \<times> verification_tokens" where
  "token_consume hash_api_key lookup_hash_api_key now raw_token purpose s =
     (let lookup_hash = lookup_hash_api_key raw_token in
      case dget (token_ids_by_lookup_hash s) lookup_hash of None \<Rightarrow> (None, s)
      | Some token_id \<Rightarrow>
          (case dget (tokens s) token_id of None \<Rightarrow> (None, s)
           | Some token \<Rightarrow>
               if vt_consumed_at token \<noteq> None then (None, s)
               else if vt_purpose token \<noteq> purpose then (None, s)
               else if is_expired now (vt_expires_at token)
               then (None, s\<lparr>tokens := dpop token_id (tokens s),
                      token_ids_by_lookup_hash := dpop lookup_hash (token_ids_by_lookup_hash s)\<rparr>)
               else if \<not> verify_secret hash_api_key raw_token (vt_salt token) (vt_secret_hash token) then (None, s)
               else (let consumed = token\<lparr>vt_consumed_at := Some (iso_now now)\<rparr>
                     in (Some consumed, s\<lparr>tokens := dset token_id consumed (tokens s)\<rparr>))))"

section \<open>Wallet challenges\<close>

text \<open>\<open>str.splitlines()\<close>: a carriage return and the line feed after it are one break, and no empty
  line follows the last break.\<close>

definition line_break :: "char \<Rightarrow> bool" where
  "line_break c \<longleftrightarrow> of_char c \<in> ({10, 11, 12, 13, 28, 29, 30, 133} :: nat set)"

primrec split_lines :: "bool \<Rightarrow> string \<Rightarrow> string \<Rightarrow> string list" where
  "split_lines after_cr acc [] = (if acc = [] then [] else [rev acc])"
| "split_lines after_cr acc (c # cs) =
     (if after_cr \<and> c = CHR 0x0A then split_lines False acc cs
      else if line_break c then rev acc # split_lines (c = CHR 0x0D) [] cs
      else split_lines False (c # acc) cs)"

definition py_splitlines :: "string \<Rightarrow> string list" where
  "py_splitlines s = split_lines False [] s"

definition endswith :: "string \<Rightarrow> string \<Rightarrow> bool" where
  "endswith suffix s \<longleftrightarrow> length suffix \<le> length s \<and> drop (length s - length suffix) s = suffix"

definition rstrip_dots :: "string \<Rightarrow> string" where
  "rstrip_dots s = rev (dropWhile (\<lambda>c. c = CHR ''.'') (rev s))"

definition SIWE_HEADER_SUFFIX :: string where
  "SIWE_HEADER_SUFFIX = '' wants you to sign in with your Ethereum account:''"

definition SIWE_NONCE_PREFIX :: string where
  "SIWE_NONCE_PREFIX = ''Nonce: ''"

definition normalize_wallet_address :: "string \<Rightarrow> string" where
  "normalize_wallet_address address = py_lower (py_strip address)"

definition parse_siwe_challenge_scope :: "string \<Rightarrow> (string \<times> string) option" where
  "parse_siwe_challenge_scope message =
     (case py_splitlines message of [] \<Rightarrow> None
      | header # rest \<Rightarrow>
          if \<not> endswith SIWE_HEADER_SUFFIX header then None
          else
            (let domain = rstrip_dots (py_lower (py_strip (take (length header - length SIWE_HEADER_SUFFIX) header)));
                 nonce_lines = map (drop (length SIWE_NONCE_PREFIX))
                   (filter (startswith SIWE_NONCE_PREFIX) (header # rest))
             in case nonce_lines of
                  [nonce] \<Rightarrow> if domain = [] \<or> nonce = [] then None else Some (domain, nonce)
                | _ \<Rightarrow> None))"

definition wallet_challenge_scope_id :: "(string \<Rightarrow> string) \<Rightarrow> string \<Rightarrow> string \<Rightarrow> string" where
  "wallet_challenge_scope_id lookup_hash_api_key address message =
     lookup_hash_api_key (normalize_wallet_address address @ [CHR 0x00] @
       (case parse_siwe_challenge_scope message of None \<Rightarrow> [] | Some (domain, _) \<Rightarrow> domain))"

record wallet_challenge =
  wc_hash :: string
  wc_salt :: string
  wc_secret_hash :: string
  wc_lookup_hash :: string
  wc_address :: string
  wc_message :: string
  wc_created_at :: instant
  wc_expires_at :: "instant option"
  wc_consumed_at :: "instant option"

record wallet_challenges =
  challenges :: "(string, wallet_challenge) dict"
  ids_by_lookup_hash :: "(string, string) dict"
  ids_by_scope :: "(string, string) dict"

definition wallet_challenge_nonce_is_valid :: "(string \<Rightarrow> string \<Rightarrow> string) \<Rightarrow> (string \<Rightarrow> string) \<Rightarrow> instant \<Rightarrow>
    wallet_challenge \<Rightarrow> string \<Rightarrow> string \<Rightarrow> bool" where
  "wallet_challenge_nonce_is_valid hash_api_key lookup_hash_api_key now record raw_nonce scope_id \<longleftrightarrow>
     \<not> (wc_consumed_at record \<noteq> None \<or> is_expired now (wc_expires_at record)) \<and>
     wallet_challenge_scope_id lookup_hash_api_key (wc_address record) (wc_message record) = scope_id \<and>
     lookup_hash_api_key raw_nonce = wc_lookup_hash record \<and>
     verify_secret hash_api_key raw_nonce (wc_salt record) (wc_secret_hash record)"

definition reusable_wallet_challenge_nonce :: "(string \<Rightarrow> string \<Rightarrow> string) \<Rightarrow> (string \<Rightarrow> string) \<Rightarrow> instant \<Rightarrow>
    wallet_challenge \<Rightarrow> string \<Rightarrow> string option" where
  "reusable_wallet_challenge_nonce hash lookup now record scope_id =
     (case parse_siwe_challenge_scope (wc_message record) of None \<Rightarrow> None
      | Some (_, raw_nonce) \<Rightarrow>
          if wallet_challenge_nonce_is_valid hash lookup now record raw_nonce scope_id then Some raw_nonce else None)"

text \<open>The nonce \<open>create\<close> stores: the caller's, the message's, or a random one.\<close>

definition challenge_nonce :: "string option \<Rightarrow> string \<Rightarrow> string \<Rightarrow> string result" where
  "challenge_nonce raw_nonce message token =
     (case (raw_nonce, parse_siwe_challenge_scope message) of
        (None, Some (_, nonce)) \<Rightarrow> Inr nonce
      | (None, None) \<Rightarrow> Inr token
      | (Some raw, Some (_, nonce)) \<Rightarrow>
          if nonce \<noteq> raw then Inl (ValueError ''SIWE message nonce does not match raw_nonce'') else Inr raw
      | (Some raw, None) \<Rightarrow> Inr raw)"

text \<open>The challenge that holds the scope: reused when its nonce is still valid, dropped otherwise.\<close>

definition previous_challenge :: "(string \<Rightarrow> string \<Rightarrow> string) \<Rightarrow> (string \<Rightarrow> string) \<Rightarrow> instant \<Rightarrow> string \<Rightarrow>
    wallet_challenges \<Rightarrow> (string \<times> string \<times> wallet_challenge) option \<times> wallet_challenges" where
  "previous_challenge hash lookup now scope_id s =
     (case dget (ids_by_scope s) scope_id of None \<Rightarrow> (None, s)
      | Some previous_id \<Rightarrow>
          (case dget (challenges s) previous_id of None \<Rightarrow> (None, s)
           | Some previous \<Rightarrow>
               (case reusable_wallet_challenge_nonce hash lookup now previous scope_id of
                  Some nonce \<Rightarrow> (Some (previous_id, nonce, previous), s)
                | None \<Rightarrow> (None, s\<lparr>challenges := dpop previous_id (challenges s),
                    ids_by_lookup_hash := dpop (wc_lookup_hash previous) (ids_by_lookup_hash s)\<rparr>))))"

record challenge_spec =
  cs_address :: string
  cs_message :: string
  cs_ttl_seconds :: int
  cs_raw_nonce :: "string option"
  cs_token :: string
  cs_id :: string
  cs_salt :: string

definition challenge_create :: "(string \<Rightarrow> string \<Rightarrow> string) \<Rightarrow> (string \<Rightarrow> string) \<Rightarrow> instant \<Rightarrow> challenge_spec \<Rightarrow>
    wallet_challenges \<Rightarrow> (string \<times> wallet_challenge) result \<times> wallet_challenges" where
  "challenge_create hash lookup now spec s =
     (let normalized = normalize_wallet_address (cs_address spec); message = cs_message spec in
      case challenge_nonce (cs_raw_nonce spec) message (cs_token spec) of Inl err \<Rightarrow> (Inl err, s)
      | Inr raw_nonce \<Rightarrow>
          (let scope_id = wallet_challenge_scope_id lookup normalized message in
           case previous_challenge hash lookup now scope_id s of
             (Some (_, nonce, previous), s1) \<Rightarrow> (Inr (nonce, previous), s1)
           | (None, s1) \<Rightarrow>
               (let lookup_hash = lookup raw_nonce;
                    record = \<lparr>wc_hash = cs_id spec, wc_salt = cs_salt spec,
                      wc_secret_hash = hash raw_nonce (cs_salt spec), wc_lookup_hash = lookup_hash,
                      wc_address = normalized, wc_message = message, wc_created_at = iso_now now,
                      wc_expires_at = Some (expiry now (cs_ttl_seconds spec)), wc_consumed_at = None\<rparr>
                in (Inr (raw_nonce, record),
                    s1\<lparr>challenges := dset (cs_id spec) record (challenges s1),
                      ids_by_lookup_hash := dset lookup_hash (cs_id spec) (ids_by_lookup_hash s1),
                      ids_by_scope := dset scope_id (cs_id spec) (ids_by_scope s1)\<rparr>))))"

definition challenge_consume :: "(string \<Rightarrow> string \<Rightarrow> string) \<Rightarrow> (string \<Rightarrow> string) \<Rightarrow> instant \<Rightarrow> string \<Rightarrow>
    wallet_challenges \<Rightarrow> wallet_challenge option \<times> wallet_challenges" where
  "challenge_consume hash lookup now raw_nonce s =
     (let lookup_hash = lookup raw_nonce in
      case dget (ids_by_lookup_hash s) lookup_hash of None \<Rightarrow> (None, s)
      | Some challenge_id \<Rightarrow>
          (case dget (challenges s) challenge_id of None \<Rightarrow> (None, s)
           | Some record \<Rightarrow>
               (let scope_id = wallet_challenge_scope_id lookup (wc_address record) (wc_message record) in
                if wc_lookup_hash record \<noteq> lookup_hash then (None, s)
                else if dget (ids_by_scope s) scope_id \<noteq> Some challenge_id then (None, s)
                else if wc_consumed_at record \<noteq> None then (None, s)
                else if is_expired now (wc_expires_at record)
                then (None, s\<lparr>challenges := dpop challenge_id (challenges s),
                       ids_by_lookup_hash := dpop lookup_hash (ids_by_lookup_hash s),
                       ids_by_scope := (if dget (ids_by_scope s) scope_id = Some challenge_id
                         then dpop scope_id (ids_by_scope s) else ids_by_scope s)\<rparr>)
                else if \<not> verify_secret hash raw_nonce (wc_salt record) (wc_secret_hash record) then (None, s)
                else (let consumed = record\<lparr>wc_consumed_at := Some (iso_now now)\<rparr>
                      in (Some consumed, s\<lparr>challenges := dset challenge_id consumed (challenges s)\<rparr>)))))"

section \<open>The tables are one-shot\<close>

subsection \<open>OAuth codes\<close>

datatype code_op =
    Code_create instant string string string code_grant int
  | Code_consume instant string

fun code_step :: "(string \<Rightarrow> string \<Rightarrow> string) \<Rightarrow> (string \<Rightarrow> string) \<Rightarrow> code_op \<Rightarrow> oauth_codes \<Rightarrow> oauth_codes" where
  "code_step hash lookup (Code_create now raw i salt grant ttl) s = snd (code_create hash lookup now raw i salt grant ttl s)"
| "code_step hash lookup (Code_consume now raw) s = snd (code_consume hash lookup now raw s)"

fun code_issues :: "code_op \<Rightarrow> string \<Rightarrow> bool" where
  "code_issues (Code_create now raw i salt grant ttl) k = (i = k)"
| "code_issues (Code_consume now raw) k = False"

fun code_redeems :: "(string \<Rightarrow> string \<Rightarrow> string) \<Rightarrow> (string \<Rightarrow> string) \<Rightarrow> code_op \<Rightarrow> oauth_codes \<Rightarrow> string option" where
  "code_redeems hash lookup (Code_create now raw i salt grant ttl) s = None"
| "code_redeems hash lookup (Code_consume now raw) s = map_option oc_hash (fst (code_consume hash lookup now raw s))"

definition codes_ok :: "oauth_codes \<Rightarrow> bool" where
  "codes_ok s \<longleftrightarrow> (\<forall>i c. dget (codes s) i = Some c \<longrightarrow> oc_hash c = i)"

definition code_live :: "oauth_codes \<Rightarrow> string \<Rightarrow> bool" where
  "code_live s i \<longleftrightarrow> map_option oc_consumed_at (dget (codes s) i) = Some None"

lemma code_consume_cases:
  assumes "code_consume hash lookup now raw s = (res, s')"
  obtains (unchanged) "res = None" "s' = s"
  | (expired) i where "res = None" "s' = s\<lparr>codes := dpop i (codes s), code_ids_by_lookup_hash := dpop (lookup raw) (code_ids_by_lookup_hash s)\<rparr>"
  | (redeemed) i c where "dget (code_ids_by_lookup_hash s) (lookup raw) = Some i" "dget (codes s) i = Some c"
      "oc_consumed_at c = None" "\<not> is_expired now (oc_code_expires_at c)"
      "verify_secret hash raw (oc_salt c) (oc_secret_hash c)"
      "res = Some (c\<lparr>oc_consumed_at := Some (iso_now now)\<rparr>)"
      "s' = s\<lparr>codes := dset i (c\<lparr>oc_consumed_at := Some (iso_now now)\<rparr>) (codes s)\<rparr>"
proof (cases "Option.bind (dget (code_ids_by_lookup_hash s) (lookup raw)) (dget (codes s))")
  case None
  then show thesis using assms unchanged by (auto simp: code_consume_def Let_def split: option.splits)
next
  case (Some c)
  then obtain i where i: "dget (code_ids_by_lookup_hash s) (lookup raw) = Some i" "dget (codes s) i = Some c"
    by (auto simp: bind_eq_Some_conv)
  note run = assms [unfolded code_consume_def Let_def i option.case]
  consider "oc_consumed_at c \<noteq> None" | "oc_consumed_at c = None" "is_expired now (oc_code_expires_at c)"
    | "oc_consumed_at c = None" "\<not> is_expired now (oc_code_expires_at c)" by blast
  then show thesis
  proof cases
    case 3
    then show thesis using run unchanged redeemed [OF i 3] by (simp split: if_splits)
  qed (use run unchanged expired [of i] in simp_all)
qed

lemmas code_consume_pair = code_consume_cases [OF prod.collapse [symmetric]]

lemma codes_ok_step: "codes_ok s \<Longrightarrow> codes_ok (code_step hash lookup e s)"
proof (cases e)
  case (Code_consume now raw)
  assume ok: "codes_ok s"
  show ?thesis
    unfolding Code_consume code_step.simps
    by (cases rule: code_consume_pair [of hash lookup now raw s]) (use ok in \<open>auto simp: codes_ok_def\<close>)
qed (simp add: code_create_def codes_ok_def Let_def)

interpretation code_table: one_shot "code_step hash lookup" codes_ok code_issues "code_redeems hash lookup" code_live
proof
  fix s e k
  assume ok: "codes_ok s"
  show "codes_ok (code_step hash lookup e s)" by (rule codes_ok_step [OF ok])
  show "code_issues e k" if "code_live (code_step hash lookup e s) k" "\<not> code_live s k"
  proof (cases e)
    case (Code_consume now raw)
    show ?thesis
      by (cases rule: code_consume_pair [of hash lookup now raw s])
        (use that Code_consume in \<open>auto simp: code_live_def split: if_splits\<close>)
  qed (use that in \<open>auto simp: code_create_def code_live_def Let_def split: if_splits\<close>)
  assume "code_redeems hash lookup e s = Some k"
  then obtain now raw c where c: "e = Code_consume now raw" "fst (code_consume hash lookup now raw s) = Some c" "oc_hash c = k"
    by (cases e) auto
  show "code_live s k" "\<not> code_live (code_step hash lookup e s) k"
    by (cases rule: code_consume_pair [of hash lookup now raw s]; use ok c in \<open>auto simp: code_live_def codes_ok_def\<close>)+
qed

subsection \<open>Verification tokens\<close>

datatype token_op =
    Token_create instant string string string string string int
  | Token_consume instant string string

fun token_step :: "(string \<Rightarrow> string \<Rightarrow> string) \<Rightarrow> (string \<Rightarrow> string) \<Rightarrow> token_op \<Rightarrow> verification_tokens \<Rightarrow>
    verification_tokens" where
  "token_step hash lookup (Token_create now raw i salt user purpose ttl) s =
     snd (token_create hash lookup now raw i salt user purpose ttl s)"
| "token_step hash lookup (Token_consume now raw purpose) s = snd (token_consume hash lookup now raw purpose s)"

fun token_issues :: "token_op \<Rightarrow> string \<Rightarrow> bool" where
  "token_issues (Token_create now raw i salt user purpose ttl) k = (i = k)"
| "token_issues (Token_consume now raw purpose) k = False"

fun token_redeems :: "(string \<Rightarrow> string \<Rightarrow> string) \<Rightarrow> (string \<Rightarrow> string) \<Rightarrow> token_op \<Rightarrow> verification_tokens \<Rightarrow>
    string option" where
  "token_redeems hash lookup (Token_create now raw i salt user purpose ttl) s = None"
| "token_redeems hash lookup (Token_consume now raw purpose) s =
     map_option vt_hash (fst (token_consume hash lookup now raw purpose s))"

definition tokens_ok :: "verification_tokens \<Rightarrow> bool" where
  "tokens_ok s \<longleftrightarrow> (\<forall>i c. dget (tokens s) i = Some c \<longrightarrow> vt_hash c = i)"

definition token_live :: "verification_tokens \<Rightarrow> string \<Rightarrow> bool" where
  "token_live s i \<longleftrightarrow> map_option vt_consumed_at (dget (tokens s) i) = Some None"

lemma token_consume_cases:
  assumes "token_consume hash lookup now raw purpose s = (res, s')"
  obtains (unchanged) "res = None" "s' = s"
  | (expired) i where "res = None" "s' = s\<lparr>tokens := dpop i (tokens s), token_ids_by_lookup_hash := dpop (lookup raw) (token_ids_by_lookup_hash s)\<rparr>"
  | (redeemed) i c where "dget (token_ids_by_lookup_hash s) (lookup raw) = Some i" "dget (tokens s) i = Some c"
      "vt_consumed_at c = None" "vt_purpose c = purpose" "\<not> is_expired now (vt_expires_at c)"
      "verify_secret hash raw (vt_salt c) (vt_secret_hash c)"
      "res = Some (c\<lparr>vt_consumed_at := Some (iso_now now)\<rparr>)"
      "s' = s\<lparr>tokens := dset i (c\<lparr>vt_consumed_at := Some (iso_now now)\<rparr>) (tokens s)\<rparr>"
proof (cases "Option.bind (dget (token_ids_by_lookup_hash s) (lookup raw)) (dget (tokens s))")
  case None
  then show thesis using assms unchanged by (auto simp: token_consume_def Let_def split: option.splits)
next
  case (Some c)
  then obtain i where i: "dget (token_ids_by_lookup_hash s) (lookup raw) = Some i" "dget (tokens s) i = Some c"
    by (auto simp: bind_eq_Some_conv)
  note run = assms [unfolded token_consume_def Let_def i option.case]
  consider "vt_consumed_at c \<noteq> None \<or> vt_purpose c \<noteq> purpose"
    | "vt_consumed_at c = None" "vt_purpose c = purpose" "is_expired now (vt_expires_at c)"
    | "vt_consumed_at c = None" "vt_purpose c = purpose" "\<not> is_expired now (vt_expires_at c)" by blast
  then show thesis
  proof cases
    case 3
    then show thesis using run unchanged redeemed [OF i 3] by (simp split: if_splits)
  next
    case 1
    then show thesis using run unchanged by (auto split: if_splits)
  qed (use run unchanged expired [of i] in simp_all)
qed

lemmas token_consume_pair = token_consume_cases [OF prod.collapse [symmetric]]

lemma tokens_ok_step: "tokens_ok s \<Longrightarrow> tokens_ok (token_step hash lookup e s)"
proof (cases e)
  case (Token_consume now raw purpose)
  assume ok: "tokens_ok s"
  show ?thesis
    unfolding Token_consume token_step.simps
    by (cases rule: token_consume_pair [of hash lookup now raw purpose s]) (use ok in \<open>auto simp: tokens_ok_def\<close>)
qed (simp add: token_create_def tokens_ok_def Let_def)

interpretation token_table: one_shot "token_step hash lookup" tokens_ok token_issues "token_redeems hash lookup" token_live
proof
  fix s e k
  assume ok: "tokens_ok s"
  show "tokens_ok (token_step hash lookup e s)" by (rule tokens_ok_step [OF ok])
  show "token_issues e k" if "token_live (token_step hash lookup e s) k" "\<not> token_live s k"
  proof (cases e)
    case (Token_consume now raw purpose)
    show ?thesis
      by (cases rule: token_consume_pair [of hash lookup now raw purpose s])
        (use that Token_consume in \<open>auto simp: token_live_def split: if_splits\<close>)
  qed (use that in \<open>auto simp: token_create_def token_live_def Let_def split: if_splits\<close>)
  assume "token_redeems hash lookup e s = Some k"
  then obtain now raw purpose c where c: "e = Token_consume now raw purpose"
    "fst (token_consume hash lookup now raw purpose s) = Some c" "vt_hash c = k"
    by (cases e) auto
  show "token_live s k" "\<not> token_live (token_step hash lookup e s) k"
    by (cases rule: token_consume_pair [of hash lookup now raw purpose s];
        use ok c in \<open>auto simp: token_live_def tokens_ok_def\<close>)+
qed

subsection \<open>Wallet challenges\<close>

datatype challenge_op =
    Challenge_create instant challenge_spec
  | Challenge_consume instant string

fun challenge_step :: "(string \<Rightarrow> string \<Rightarrow> string) \<Rightarrow> (string \<Rightarrow> string) \<Rightarrow> challenge_op \<Rightarrow> wallet_challenges \<Rightarrow>
    wallet_challenges" where
  "challenge_step hash lookup (Challenge_create now spec) s = snd (challenge_create hash lookup now spec s)"
| "challenge_step hash lookup (Challenge_consume now raw) s = snd (challenge_consume hash lookup now raw s)"

fun challenge_issues :: "challenge_op \<Rightarrow> string \<Rightarrow> bool" where
  "challenge_issues (Challenge_create now spec) k = (cs_id spec = k)"
| "challenge_issues (Challenge_consume now raw) k = False"

fun challenge_redeems :: "(string \<Rightarrow> string \<Rightarrow> string) \<Rightarrow> (string \<Rightarrow> string) \<Rightarrow> challenge_op \<Rightarrow> wallet_challenges \<Rightarrow>
    string option" where
  "challenge_redeems hash lookup (Challenge_create now spec) s = None"
| "challenge_redeems hash lookup (Challenge_consume now raw) s =
     map_option wc_hash (fst (challenge_consume hash lookup now raw s))"

definition challenges_ok :: "wallet_challenges \<Rightarrow> bool" where
  "challenges_ok s \<longleftrightarrow> (\<forall>i c. dget (challenges s) i = Some c \<longrightarrow> wc_hash c = i)"

definition challenge_live :: "wallet_challenges \<Rightarrow> string \<Rightarrow> bool" where
  "challenge_live s i \<longleftrightarrow> map_option wc_consumed_at (dget (challenges s) i) = Some None"

abbreviation challenge_scope :: "(string \<Rightarrow> string) \<Rightarrow> wallet_challenge \<Rightarrow> string" where
  "challenge_scope lookup c \<equiv> wallet_challenge_scope_id lookup (wc_address c) (wc_message c)"

lemma challenge_consume_cases:
  assumes "challenge_consume hash lookup now raw s = (res, s')"
  obtains (unchanged) "res = None" "s' = s"
  | (expired) i c where "dget (ids_by_lookup_hash s) (lookup raw) = Some i" "dget (challenges s) i = Some c"
      "wc_lookup_hash c = lookup raw" "dget (ids_by_scope s) (challenge_scope lookup c) = Some i"
      "is_expired now (wc_expires_at c)" "res = None"
      "s' = s\<lparr>challenges := dpop i (challenges s), ids_by_lookup_hash := dpop (lookup raw) (ids_by_lookup_hash s),
         ids_by_scope := dpop (challenge_scope lookup c) (ids_by_scope s)\<rparr>"
  | (redeemed) i c where "dget (ids_by_lookup_hash s) (lookup raw) = Some i" "dget (challenges s) i = Some c"
      "wc_lookup_hash c = lookup raw" "dget (ids_by_scope s) (challenge_scope lookup c) = Some i"
      "wc_consumed_at c = None" "\<not> is_expired now (wc_expires_at c)"
      "verify_secret hash raw (wc_salt c) (wc_secret_hash c)"
      "res = Some (c\<lparr>wc_consumed_at := Some (iso_now now)\<rparr>)"
      "s' = s\<lparr>challenges := dset i (c\<lparr>wc_consumed_at := Some (iso_now now)\<rparr>) (challenges s)\<rparr>"
proof (cases "Option.bind (dget (ids_by_lookup_hash s) (lookup raw)) (dget (challenges s))")
  case None
  then show thesis using assms unchanged by (auto simp: challenge_consume_def Let_def split: option.splits)
next
  case (Some c)
  then obtain i where i: "dget (ids_by_lookup_hash s) (lookup raw) = Some i" "dget (challenges s) i = Some c"
    by (auto simp: bind_eq_Some_conv)
  note run = assms [unfolded challenge_consume_def Let_def i option.case]
  consider "wc_lookup_hash c \<noteq> lookup raw \<or> dget (ids_by_scope s) (challenge_scope lookup c) \<noteq> Some i \<or> wc_consumed_at c \<noteq> None"
    | "wc_lookup_hash c = lookup raw" "dget (ids_by_scope s) (challenge_scope lookup c) = Some i" "wc_consumed_at c = None"
      "is_expired now (wc_expires_at c)"
    | "wc_lookup_hash c = lookup raw" "dget (ids_by_scope s) (challenge_scope lookup c) = Some i" "wc_consumed_at c = None"
      "\<not> is_expired now (wc_expires_at c)" by blast
  then show thesis
  proof cases
    case 1
    then show thesis using run unchanged by (auto split: if_splits)
  next
    case 2
    then show thesis using run expired [OF i 2(1,2,4)] by simp
  next
    case 3
    then show thesis using run unchanged redeemed [OF i 3] by (simp split: if_splits)
  qed
qed

lemmas challenge_consume_pair = challenge_consume_cases [OF prod.collapse [symmetric]]

abbreviation spec_scope :: "(string \<Rightarrow> string) \<Rightarrow> challenge_spec \<Rightarrow> string" where
  "spec_scope lookup spec \<equiv> wallet_challenge_scope_id lookup (normalize_wallet_address (cs_address spec)) (cs_message spec)"

text \<open>The store after the challenge that held the scope is dropped.\<close>

definition scope_cleared :: "string \<Rightarrow> wallet_challenges \<Rightarrow> wallet_challenges \<Rightarrow> bool" where
  "scope_cleared sc s s1 \<longleftrightarrow>
     s1 = s \<and> Option.bind (dget (ids_by_scope s) sc) (dget (challenges s)) = None \<or>
     (\<exists>i c. dget (ids_by_scope s) sc = Some i \<and> dget (challenges s) i = Some c \<and>
        s1 = s\<lparr>challenges := dpop i (challenges s), ids_by_lookup_hash := dpop (wc_lookup_hash c) (ids_by_lookup_hash s)\<rparr>)"

lemma previous_challenge_cases:
  assumes "previous_challenge hash lookup now sc s = (prev, s1)"
  obtains (cleared) "prev = None" "scope_cleared sc s s1"
  | (held) i nonce c where "prev = Some (i, nonce, c)" "s1 = s" "dget (ids_by_scope s) sc = Some i"
      "dget (challenges s) i = Some c" "wallet_challenge_nonce_is_valid hash lookup now c nonce sc"
proof (cases "Option.bind (dget (ids_by_scope s) sc) (dget (challenges s))")
  case None
  then show thesis
    using assms cleared by (auto simp: previous_challenge_def scope_cleared_def split: option.splits)
next
  case (Some c)
  then obtain i where i: "dget (ids_by_scope s) sc = Some i" "dget (challenges s) i = Some c" by (auto simp: bind_eq_Some_conv)
  show thesis
  proof (cases "reusable_wallet_challenge_nonce hash lookup now c sc")
    case None
    have "scope_cleared sc s s1" using assms i None by (auto simp: previous_challenge_def scope_cleared_def)
    then show thesis using assms i None cleared by (simp add: previous_challenge_def)
  next
    case (Some nonce)
    then have "wallet_challenge_nonce_is_valid hash lookup now c nonce sc"
      by (simp add: reusable_wallet_challenge_nonce_def split: option.splits prod.splits if_splits)
    then show thesis using assms i Some held [where i = i and c = c and nonce = nonce] by (simp add: previous_challenge_def)
  qed
qed

lemma challenge_create_cases:
  assumes "challenge_create hash lookup now spec s = (res, s')"
  obtains (refused) err where "challenge_nonce (cs_raw_nonce spec) (cs_message spec) (cs_token spec) = Inl err"
      "res = Inl err" "s' = s"
  | (reused) i nonce c where "dget (ids_by_scope s) (spec_scope lookup spec) = Some i" "dget (challenges s) i = Some c"
      "wallet_challenge_nonce_is_valid hash lookup now c nonce (spec_scope lookup spec)"
      "res = Inr (nonce, c)" "s' = s"
  | (issued) raw s1 r where "challenge_nonce (cs_raw_nonce spec) (cs_message spec) (cs_token spec) = Inr raw"
      "scope_cleared (spec_scope lookup spec) s s1"
      "r = \<lparr>wc_hash = cs_id spec, wc_salt = cs_salt spec, wc_secret_hash = hash raw (cs_salt spec),
         wc_lookup_hash = lookup raw, wc_address = normalize_wallet_address (cs_address spec), wc_message = cs_message spec,
         wc_created_at = iso_now now, wc_expires_at = Some (expiry now (cs_ttl_seconds spec)), wc_consumed_at = None\<rparr>"
      "res = Inr (raw, r)"
      "s' = s1\<lparr>challenges := dset (cs_id spec) r (challenges s1),
         ids_by_lookup_hash := dset (lookup raw) (cs_id spec) (ids_by_lookup_hash s1),
         ids_by_scope := dset (spec_scope lookup spec) (cs_id spec) (ids_by_scope s1)\<rparr>"
proof (cases "challenge_nonce (cs_raw_nonce spec) (cs_message spec) (cs_token spec)")
  case (Inl err)
  then show thesis using assms refused by (simp add: challenge_create_def Let_def)
next
  case (Inr raw)
  obtain prev s1 where p: "previous_challenge hash lookup now (spec_scope lookup spec) s = (prev, s1)" by fastforce
  then show thesis
  proof (cases rule: previous_challenge_cases)
    case cleared
    show thesis
      by (rule issued [OF Inr cleared(2) refl]) (use assms p cleared Inr in \<open>auto simp: challenge_create_def Let_def\<close>)
  next
    case (held i nonce c)
    show thesis by (rule reused [OF held(3,4,5)]) (use assms p held Inr in \<open>auto simp: challenge_create_def Let_def\<close>)
  qed
qed

lemmas challenge_create_pair = challenge_create_cases [OF prod.collapse [symmetric]]

lemma challenges_ok_step: "challenges_ok s \<Longrightarrow> challenges_ok (challenge_step hash lookup e s)"
proof (cases e)
  case (Challenge_consume now raw)
  assume ok: "challenges_ok s"
  show ?thesis
    unfolding Challenge_consume challenge_step.simps
    by (cases rule: challenge_consume_pair [of hash lookup now raw s]) (use ok in \<open>auto simp: challenges_ok_def scope_cleared_def split: if_splits\<close>)
next
  case (Challenge_create now spec)
  assume ok: "challenges_ok s"
  show ?thesis
    unfolding Challenge_create challenge_step.simps
    by (cases rule: challenge_create_pair [where hash = hash and lookup = lookup and now = now and spec = spec and s = s]) (use ok in \<open>auto simp: challenges_ok_def scope_cleared_def split: if_splits\<close>)
qed

interpretation challenge_table: one_shot "challenge_step hash lookup" challenges_ok challenge_issues
  "challenge_redeems hash lookup" challenge_live
proof
  fix s e k
  assume ok: "challenges_ok s"
  show "challenges_ok (challenge_step hash lookup e s)" by (rule challenges_ok_step [OF ok])
  show "challenge_issues e k" if "challenge_live (challenge_step hash lookup e s) k" "\<not> challenge_live s k"
  proof (cases e)
    case (Challenge_consume now raw)
    show ?thesis
      by (cases rule: challenge_consume_pair [of hash lookup now raw s])
        (use that Challenge_consume in \<open>auto simp: challenge_live_def split: if_splits\<close>)
  next
    case (Challenge_create now spec)
    show ?thesis
      by (cases rule: challenge_create_pair [where hash = hash and lookup = lookup and now = now and spec = spec and s = s])
        (use that Challenge_create in \<open>auto simp: challenge_live_def scope_cleared_def split: if_splits\<close>)
  qed
  assume "challenge_redeems hash lookup e s = Some k"
  then obtain now raw c where c: "e = Challenge_consume now raw"
    "fst (challenge_consume hash lookup now raw s) = Some c" "wc_hash c = k"
    by (cases e) auto
  show "challenge_live s k" "\<not> challenge_live (challenge_step hash lookup e s) k"
    by (cases rule: challenge_consume_pair [of hash lookup now raw s];
        use ok c in \<open>auto simp: challenge_live_def challenges_ok_def\<close>)+
qed

subsection \<open>The index of the wallet challenges\<close>

text \<open>A scope is held by a stored challenge of that scope, found through its own lookup hash.\<close>

definition challenge_index_ok :: "(string \<Rightarrow> string) \<Rightarrow> wallet_challenges \<Rightarrow> bool" where
  "challenge_index_ok lookup s \<longleftrightarrow>
     (\<forall>sc i. dget (ids_by_scope s) sc = Some i \<longrightarrow>
        (\<exists>c. dget (challenges s) i = Some c \<and> challenge_scope lookup c = sc \<and>
           dget (ids_by_lookup_hash s) (wc_lookup_hash c) = Some i))"

text \<open>Challenge ids are random and the nonce of a new challenge is not the nonce of another.\<close>

fun challenge_legal :: "(string \<Rightarrow> string) \<Rightarrow> challenge_op \<Rightarrow> wallet_challenges \<Rightarrow> bool" where
  "challenge_legal lookup (Challenge_create now spec) s =
     (dget (challenges s) (cs_id spec) = None \<and>
      (case challenge_nonce (cs_raw_nonce spec) (cs_message spec) (cs_token spec) of Inl err \<Rightarrow> True
       | Inr raw \<Rightarrow> dget (ids_by_lookup_hash s) (lookup raw) = None))"
| "challenge_legal lookup (Challenge_consume now raw) s = True"

lemma challenge_index_okD:
  assumes "challenge_index_ok lookup s" "dget (ids_by_scope s) sc = Some i"
  obtains c where "dget (challenges s) i = Some c" "challenge_scope lookup c = sc"
    "dget (ids_by_lookup_hash s) (wc_lookup_hash c) = Some i"
  using assms by (auto simp: challenge_index_ok_def)

lemma challenge_indexI:
  assumes "\<And>sc i. dget (ids_by_scope s) sc = Some i \<Longrightarrow> \<exists>c. dget (challenges s) i = Some c \<and>
      challenge_scope lookup c = sc \<and> dget (ids_by_lookup_hash s) (wc_lookup_hash c) = Some i"
  shows "challenge_index_ok lookup s"
  using assms by (simp add: challenge_index_ok_def)

lemma normalize_wallet_address_idem [simp]:
  "normalize_wallet_address (normalize_wallet_address a) = normalize_wallet_address a"
  by (simp add: normalize_wallet_address_def py_strip_lower)

lemma scope_normalized [simp]:
  "wallet_challenge_scope_id lookup (normalize_wallet_address a) m = wallet_challenge_scope_id lookup a m"
  by (simp add: wallet_challenge_scope_id_def)

text \<open>Dropping the challenge \<open>c\<close> of a scope leaves the other scopes as they were.\<close>

lemma challenge_drop_index:
  assumes "challenge_index_ok lookup s" "dget (challenges s) i = Some c"
    and "dget (ids_by_scope s) sc = Some j" "sc \<noteq> challenge_scope lookup c"
    and "dget (ids_by_scope s) (challenge_scope lookup c) = Some i"
  shows "j \<noteq> i \<and> (\<exists>d. dget (challenges s) j = Some d \<and> challenge_scope lookup d = sc \<and> wc_lookup_hash d \<noteq> wc_lookup_hash c \<and>
    dget (ids_by_lookup_hash s) (wc_lookup_hash d) = Some j)"
proof -
  obtain d where d: "dget (challenges s) j = Some d" "challenge_scope lookup d = sc"
    "dget (ids_by_lookup_hash s) (wc_lookup_hash d) = Some j"
    by (rule challenge_index_okD [OF assms(1,3)])
  obtain c' where c': "dget (challenges s) i = Some c'" "dget (ids_by_lookup_hash s) (wc_lookup_hash c') = Some i"
    by (rule challenge_index_okD [OF assms(1,5)])
  have "j \<noteq> i" using d assms(2,4) by auto
  then show ?thesis using d c' assms(2) by auto
qed

lemma challenge_consume_index:
  assumes ok: "challenge_index_ok lookup s" and run: "challenge_consume hash lookup now raw s = (res, s')"
  shows "challenge_index_ok lookup s'"
  using run
proof (cases rule: challenge_consume_cases)
  case (redeemed i c)
  show ?thesis
  proof (rule challenge_indexI)
    fix sc j assume "dget (ids_by_scope s') sc = Some j"
    then have "dget (ids_by_scope s) sc = Some j" by (simp add: redeemed)
    then show "\<exists>d. dget (challenges s') j = Some d \<and> challenge_scope lookup d = sc \<and> dget (ids_by_lookup_hash s') (wc_lookup_hash d) = Some j"
      by (rule challenge_index_okD [OF ok]) (use redeemed in auto)
  qed
next
  case (expired i c)
  show ?thesis
  proof (rule challenge_indexI)
    fix sc j assume "dget (ids_by_scope s') sc = Some j"
    then have "dget (ids_by_scope s) sc = Some j" "sc \<noteq> challenge_scope lookup c" by (auto simp: expired split: if_splits)
    from challenge_drop_index [OF ok expired(2) this expired(4)]
    show "\<exists>d. dget (challenges s') j = Some d \<and> challenge_scope lookup d = sc \<and> dget (ids_by_lookup_hash s') (wc_lookup_hash d) = Some j"
      by (auto simp: expired)
  qed
qed (use ok in simp)

lemma challenge_create_index:
  assumes ok: "challenge_index_ok lookup s" and legal: "challenge_legal lookup (Challenge_create now spec) s"
    and run: "challenge_create hash lookup now spec s = (res, s')"
  shows "challenge_index_ok lookup s'"
  using run
proof (cases rule: challenge_create_cases)
  case (issued raw s1 r)
  let ?sc = "spec_scope lookup spec"
  have fresh: "dget (challenges s) (cs_id spec) = None" "dget (ids_by_lookup_hash s) (lookup raw) = None"
    using legal issued(1) by simp_all
  have other: "\<exists>d. dget (challenges s1) j = Some d \<and> challenge_scope lookup d = sc \<and> dget (ids_by_lookup_hash s1) (wc_lookup_hash d) = Some j"
    if "dget (ids_by_scope s1) sc = Some j" "sc \<noteq> ?sc" for sc j
    using issued(2) unfolding scope_cleared_def
  proof (elim disjE conjE exE)
    assume "s1 = s"
    then show ?thesis using challenge_index_okD [OF ok, of sc j] that by blast
  next
    fix i c
    assume i: "dget (ids_by_scope s) ?sc = Some i" "dget (challenges s) i = Some c"
      and s1: "s1 = s\<lparr>challenges := dpop i (challenges s), ids_by_lookup_hash := dpop (wc_lookup_hash c) (ids_by_lookup_hash s)\<rparr>"
    have c: "challenge_scope lookup c = ?sc" by (rule challenge_index_okD [OF ok i(1)]) (use i in simp)
    have "dget (ids_by_scope s) sc = Some j" using that s1 by simp
    from challenge_drop_index [OF ok i(2) this] show ?thesis using that(2) c i(1) s1 by auto
  qed
  have gone: "dget (challenges s1) (cs_id spec) = None" "dget (ids_by_lookup_hash s1) (lookup raw) = None"
    using issued(2) fresh by (auto simp: scope_cleared_def)
  show ?thesis
  proof (rule challenge_indexI)
    fix sc j assume j: "dget (ids_by_scope s') sc = Some j"
    show "\<exists>d. dget (challenges s') j = Some d \<and> challenge_scope lookup d = sc \<and> dget (ids_by_lookup_hash s') (wc_lookup_hash d) = Some j"
    proof (cases "sc = ?sc")
      case True
      then show ?thesis using j by (auto simp: issued)
    next
      case False
      then obtain d where "dget (challenges s1) j = Some d" "challenge_scope lookup d = sc"
        "dget (ids_by_lookup_hash s1) (wc_lookup_hash d) = Some j"
        using other [OF _ False, of j] j by (auto simp: issued(5))
      then show ?thesis using gone by (auto simp: issued(5))
    qed
  qed
qed (use ok in simp_all)

interpretation challenge_index: invariant_run "challenge_step hash lookup" "challenge_legal lookup" "challenge_index_ok lookup"
proof
  fix s e
  assume "challenge_index_ok lookup s" "challenge_legal lookup e s"
  then show "challenge_index_ok lookup (challenge_step hash lookup e s)"
    using challenge_consume_index [OF _ prod.collapse [symmetric]] challenge_create_index [OF _ _ prod.collapse [symmetric]]
    by (cases e) simp_all
qed

section \<open>Properties\<close>

definition empty_codes :: oauth_codes where
  "empty_codes = \<lparr>codes = [], code_ids_by_lookup_hash = []\<rparr>"

definition empty_tokens :: verification_tokens where
  "empty_tokens = \<lparr>tokens = [], token_ids_by_lookup_hash = []\<rparr>"

definition empty_challenges :: wallet_challenges where
  "empty_challenges = \<lparr>challenges = [], ids_by_lookup_hash = [], ids_by_scope = []\<rparr>"

lemma empty_tables_ok:
  "codes_ok empty_codes" "\<not> code_live empty_codes k"
  "tokens_ok empty_tokens" "\<not> token_live empty_tokens k"
  "challenges_ok empty_challenges" "\<not> challenge_live empty_challenges k" "challenge_index_ok lookup empty_challenges"
  by (simp_all add: empty_codes_def empty_tokens_def empty_challenges_def codes_ok_def code_live_def tokens_ok_def
      token_live_def challenges_ok_def challenge_live_def challenge_index_ok_def)

text \<open>C37. OAuth codes, verification tokens and wallet nonces are one-shot.  In any sequence of create
  and consume calls on an empty table, however the callers interleave, the number of consume calls
  that hand out the record with a given id is at most the number of create calls that drew that id:
  one, since ids are random.\<close>

theorem secrets_redeemed_once:
  "redemptions (code_step hash lookup) (code_redeems hash lookup) k code_ops empty_codes \<le> issue_count code_issues k code_ops \<and>
   redemptions (token_step hash lookup) (token_redeems hash lookup) k token_ops empty_tokens \<le> issue_count token_issues k token_ops \<and>
   redemptions (challenge_step hash lookup) (challenge_redeems hash lookup) k challenge_ops empty_challenges
     \<le> issue_count challenge_issues k challenge_ops"
  by (intro conjI code_table.redeemed_as_issued token_table.redeemed_as_issued challenge_table.redeemed_as_issued empty_tables_ok)

text \<open>A wallet challenge signs in once, in time, and with its own nonce.  After any legal
  sequence of calls, whatever create returns for an address and message (a new challenge, or the
  still valid one of the same wallet and domain) can be consumed with the returned nonce before it
  expires; that consumption returns the same challenge, and a second one is refused whenever it
  comes; after the expiry the nonce is refused.\<close>

theorem wallet_challenge_roundtrip:
  assumes "legal_run (challenge_step hash lookup) (challenge_legal lookup) ops empty_challenges"
    and "s = fold (challenge_step hash lookup) ops empty_challenges"
    and "challenge_create hash lookup now spec s = (Inr (nonce, r), s')"
  shows "(\<not> is_expired later (wc_expires_at r) \<longrightarrow>
      fst (challenge_consume hash lookup later nonce s') = Some (r\<lparr>wc_consumed_at := Some (iso_now later)\<rparr>) \<and>
      fst (challenge_consume hash lookup again nonce (snd (challenge_consume hash lookup later nonce s'))) = None) \<and>
    (is_expired later (wc_expires_at r) \<longrightarrow> fst (challenge_consume hash lookup later nonce s') = None)"
proof -
  have ok: "challenge_index_ok lookup s"
    unfolding assms(2) by (rule challenge_index.run_inv [OF empty_tables_ok(7) assms(1)])
  obtain i where i: "dget (ids_by_lookup_hash s') (lookup nonce) = Some i" "dget (challenges s') i = Some r"
    "wc_lookup_hash r = lookup nonce" "dget (ids_by_scope s') (challenge_scope lookup r) = Some i"
    "wc_consumed_at r = None" "verify_secret hash nonce (wc_salt r) (wc_secret_hash r)"
    using assms(3)
  proof (cases rule: challenge_create_cases)
    case (reused i n c)
    have "dget (ids_by_lookup_hash s) (wc_lookup_hash c) = Some i"
      by (rule challenge_index_okD [OF ok reused(1)]) (use reused(2) in simp)
    then show thesis
      by (intro that [of i]) (use reused in \<open>auto simp: wallet_challenge_nonce_is_valid_def\<close>)
  next
    case (issued raw s1 c)
    show thesis by (rule that [of "cs_id spec"]) (use issued in \<open>auto simp: verify_secret_def\<close>)
  qed simp
  then show ?thesis by (simp add: challenge_consume_def Let_def)
qed

definition demo_siwe :: string where
  "demo_siwe = ''tr.io wants you to sign in with your Ethereum account:'' @ [CHR 0x0A] @ ''0xAB'' @ [CHR 0x0A] @ ''Nonce: n1''"

definition demo_challenge :: challenge_spec where
  "demo_challenge = \<lparr>cs_address = ''0xAB'', cs_message = demo_siwe, cs_ttl_seconds = 300, cs_raw_nonce = None,
     cs_token = ''t'', cs_id = ''c1'', cs_salt = ''s''\<rparr>"

definition demo_lookup :: "string \<Rightarrow> string" where
  "demo_lookup x = x"

definition demo_hash :: "string \<Rightarrow> string \<Rightarrow> string" where
  "demo_hash raw salt = salt @ raw"

definition demo_issued :: "string \<times> wallet_challenge" where
  "demo_issued = (''n1'', \<lparr>wc_hash = ''c1'', wc_salt = ''s'', wc_secret_hash = ''sn1'', wc_lookup_hash = ''n1'',
     wc_address = ''0xab'', wc_message = demo_siwe, wc_created_at = 0, wc_expires_at = Some 300000000, wc_consumed_at = None\<rparr>)"

text \<open>The second create reuses the challenge of the first.\<close>

theorem wallet_challenge_roundtrip_witness:
  "\<exists>s'. challenge_create demo_hash demo_lookup 5 (demo_challenge\<lparr>cs_id := ''c2''\<rparr>)
     (fold (challenge_step demo_hash demo_lookup) [Challenge_create 0 demo_challenge] empty_challenges) = (Inr demo_issued, s') \<and>
   fst (challenge_consume demo_hash demo_lookup 9 ''n1'' s') = Some ((snd demo_issued)\<lparr>wc_consumed_at := Some 0\<rparr>)"
proof -
  let ?s = "fold (challenge_step demo_hash demo_lookup) [Challenge_create 0 demo_challenge] empty_challenges"
  let ?c = "challenge_create demo_hash demo_lookup 5 (demo_challenge\<lparr>cs_id := ''c2''\<rparr>) ?s"
  have l: "legal_run (challenge_step demo_hash demo_lookup) (challenge_legal demo_lookup) [Challenge_create 0 demo_challenge] empty_challenges"
    by code_simp
  have "fst ?c = Inr demo_issued" by code_simp
  then have e: "?c = (Inr demo_issued, snd ?c)" by (metis prod.collapse)
  then have "?c = (Inr (fst demo_issued, snd demo_issued), snd ?c)" by (simp only: prod.collapse)
  note c = wallet_challenge_roundtrip [OF l refl this, of 9 9]
  have "\<not> is_expired 9 (wc_expires_at (snd demo_issued))" "iso_now 9 = 0" "fst demo_issued = ''n1''" by code_simp+
  then show ?thesis using c by (intro exI [of _ "snd ?c"] conjI e) simp
qed

text \<open>A browser session lives from its creation to its expiry or its deletion.  The raw token that
  create returns resolves to the session, unchanged, at every instant before the expiry (which is
  at least a minute away); from the expiry on it is refused and the session is gone; a deleted
  token never resolves again; and a token only ever resolves to a session whose salted hash it
  matches.\<close>

theorem session_lifecycle:
  assumes "session_create hash lookup now spec s = ((raw, session), s')"
  shows "(later < now + max (ss_ttl_seconds spec) 60 * 1000000 \<longrightarrow> session_get_by_raw hash lookup later raw s' = (Some session, s')) \<and>
    (now + max (ss_ttl_seconds spec) 60 * 1000000 \<le> later \<longrightarrow>
      fst (session_get_by_raw hash lookup later raw s') = None \<and>
      dget (sessions (snd (session_get_by_raw hash lookup later raw s'))) (ss_id spec) = None) \<and>
    fst (session_get_by_raw hash lookup later tok (snd (session_delete_by_raw lookup tok t))) = None \<and>
    (fst (session_get_by_raw hash lookup later tok t) = Some found \<longrightarrow> hash tok (au_salt found) = au_secret_hash found)"
proof -
  have s: "s' = snd (session_create hash lookup now spec s)" "raw = ss_raw spec" "session = snd (fst (session_create hash lookup now spec s))"
    using assms by (auto simp: session_create_def Let_def)
  have "fst (session_get_by_raw hash lookup later tok (snd (session_delete_by_raw lookup tok t))) = None"
    by (cases "dget (session_ids_by_lookup_hash t) (lookup tok)")
      (simp_all add: session_delete_by_raw_def session_get_by_raw_def session_resolve_def Let_def)
  moreover have "fst (session_get_by_raw hash lookup later tok t) = Some found \<longrightarrow> hash tok (au_salt found) = au_secret_hash found"
    by (auto simp: session_get_by_raw_def session_resolve_def verify_secret_def Let_def split: option.splits if_splits)
  ultimately show ?thesis
    by (auto simp: s session_get_by_raw_def session_resolve_def session_create_def Let_def is_expired_def expiry_def verify_secret_def)
qed

definition demo_session :: session_spec where
  "demo_session = \<lparr>ss_raw = ''r'', ss_id = ''i'', ss_salt = ''s'', ss_user_id = ''u'', ss_provider = ''github'', ss_label = ''l'',
     ss_ttl_seconds = 10, ss_workspace_id = None, ss_state = ''active''\<rparr>"

theorem session_lifecycle_witness:
  "session_get_by_raw demo_hash demo_lookup 59999999 ''r''
     (snd (session_create demo_hash demo_lookup 0 demo_session \<lparr>sessions = [], session_ids_by_lookup_hash = []\<rparr>)) =
   (Some (snd (fst (session_create demo_hash demo_lookup 0 demo_session \<lparr>sessions = [], session_ids_by_lookup_hash = []\<rparr>))),
    snd (session_create demo_hash demo_lookup 0 demo_session \<lparr>sessions = [], session_ids_by_lookup_hash = []\<rparr>))"
proof -
  let ?c = "session_create demo_hash demo_lookup 0 demo_session \<lparr>sessions = [], session_ids_by_lookup_hash = []\<rparr>"
  have "fst (fst ?c) = ''r''" by code_simp
  then have "?c = ((''r'', snd (fst ?c)), snd ?c)" by (metis prod.collapse)
  from session_lifecycle [OF this, of 59999999] show ?thesis by (simp add: demo_session_def)
qed

end
