(* ===== verification/Rate_Limits.thy ===== *)
theory Rate_Limits
  imports Prelude
begin

text \<open>
  The per-instance rate limiter of \<open>storage_rate_limits.py\<close>: tumbling windows counted in a
  dictionary of bounded size, a cleanup when the minute advances, and one shared overflow counter
  once the dictionary is full.

  The lemmas show that the dictionary never exceeds its bound, and that below the bound the limiter
  counts exactly: a call is allowed when its rank among the calls of the same namespace, subject
  and window does not exceed the limit.
\<close>

section \<open>State and operation\<close>

type_synonym bucket_key = "string \<times> string \<times> int \<times> int"

record rate_limits =
  max_buckets :: int
  buckets :: "(bucket_key, int) dict"
  last_cleanup_minute :: "int option"
  overflow_minute :: "int option"
  overflow_count :: int

definition MAX_BUCKETS :: int where
  "MAX_BUCKETS = 10000"

definition OVERFLOW_WINDOW_SECONDS :: int where
  "OVERFLOW_WINDOW_SECONDS = 60"

definition new_rate_limits :: "int \<Rightarrow> rate_limits" where
  "new_rate_limits bound = \<lparr>max_buckets = max 0 bound, buckets = [], last_cleanup_minute = None,
     overflow_minute = None, overflow_count = 0\<rparr>"

definition rate_limits_reset :: "rate_limits \<Rightarrow> rate_limits" where
  "rate_limits_reset s = s\<lparr>buckets := [], last_cleanup_minute := None, overflow_minute := None, overflow_count := 0\<rparr>"

text \<open>\<open>reset_at\<close> is the instant of \<open>reset_epoch\<close>.\<close>

record rate_limit_hit =
  rh_allowed :: bool
  rh_limit :: int
  rh_remaining :: int
  rh_reset_at :: instant
  rh_retry_after_seconds :: int

record hit_call =
  hc_namespace :: string
  hc_subject :: string
  hc_limit :: int
  hc_window_seconds :: int
  hc_now :: instant

text \<open>\<open>int(now.timestamp())\<close> truncates towards zero.\<close>

definition hit_epoch :: "hit_call \<Rightarrow> int" where
  "hit_epoch c = (if 0 \<le> hc_now c then hc_now c div 1000000 else - ((- hc_now c) div 1000000))"

definition hit_bucket :: "hit_call \<Rightarrow> int" where
  "hit_bucket c = hit_epoch c div hc_window_seconds c"

definition hit_key :: "hit_call \<Rightarrow> bucket_key" where
  "hit_key c = (hc_namespace c, hc_subject c, hc_window_seconds c, hit_bucket c)"

definition stale_bucket :: "int \<Rightarrow> bucket_key \<Rightarrow> bool" where
  "stale_bucket epoch = (\<lambda>(namespace, subject, window, bucket). (bucket + 3) * window \<le> epoch)"

definition cleanup_buckets :: "int \<Rightarrow> int \<Rightarrow> rate_limits \<Rightarrow> rate_limits" where
  "cleanup_buckets epoch minute s =
     (if last_cleanup_minute s \<noteq> Some minute
      then s\<lparr>buckets := filter (\<lambda>(k, _). \<not> stale_bucket epoch k) (buckets s), last_cleanup_minute := Some minute\<rparr>
      else s)"

definition hit_answer :: "hit_call \<Rightarrow> int \<Rightarrow> int \<Rightarrow> rate_limit_hit" where
  "hit_answer c count reset_epoch =
     \<lparr>rh_allowed = (count \<le> hc_limit c), rh_limit = hc_limit c, rh_remaining = max (hc_limit c - count) 0,
      rh_reset_at = reset_epoch * 1000000, rh_retry_after_seconds = max (reset_epoch - hit_epoch c) 1\<rparr>"

definition hit :: "hit_call \<Rightarrow> (rate_limits, rate_limit_hit) exec" where
  "hit c s =
     (if hc_window_seconds c = 0 then (Inl ZeroDivisionError, s)
      else
        (let epoch = hit_epoch c; key = hit_key c; reset_epoch = (hit_bucket c + 1) * hc_window_seconds c;
             minute = epoch div OVERFLOW_WINDOW_SECONDS; s1 = cleanup_buckets epoch minute s
         in case dget (buckets s1) key of
              Some n \<Rightarrow> (Inr (hit_answer c (n + 1) reset_epoch), s1\<lparr>buckets := dset key (n + 1) (buckets s1)\<rparr>)
            | None \<Rightarrow>
                if int (length (buckets s1)) < max_buckets s1
                then (Inr (hit_answer c 1 reset_epoch), s1\<lparr>buckets := dset key 1 (buckets s1)\<rparr>)
                else
                  (let s2 = (if overflow_minute s1 \<noteq> Some minute then s1\<lparr>overflow_minute := Some minute, overflow_count := 0\<rparr> else s1);
                       s3 = s2\<lparr>overflow_count := overflow_count s2 + 1\<rparr>
                   in (Inr (hit_answer c (overflow_count s3) ((minute + 1) * OVERFLOW_WINDOW_SECONDS)), s3))))"

definition hit_step :: "hit_call \<Rightarrow> rate_limits \<Rightarrow> rate_limits" where
  "hit_step c s = snd (hit c s)"

section \<open>The dictionary is bounded\<close>

definition buckets_bounded :: "rate_limits \<Rightarrow> bool" where
  "buckets_bounded s \<longleftrightarrow> int (length (buckets s)) \<le> max_buckets s"

lemma cleanup_fields [simp]:
  "max_buckets (cleanup_buckets epoch minute s) = max_buckets s"
  "length (buckets (cleanup_buckets epoch minute s)) \<le> length (buckets s)"
  "distinct (map fst (buckets s)) \<Longrightarrow> distinct (map fst (buckets (cleanup_buckets epoch minute s)))"
  by (simp_all add: cleanup_buckets_def distinct_map_filter)

lemma map_of_filter_key: "map_of (filter (\<lambda>(k, _). P k) d) k = (if P k then map_of d k else None)"
  by (induction d) auto

lemma cleanup_dget:
  "dget (buckets (cleanup_buckets epoch minute s)) k =
     (if last_cleanup_minute s \<noteq> Some minute \<and> stale_bucket epoch k then None else dget (buckets s) k)"
  by (simp add: cleanup_buckets_def map_of_filter_key)

lemma hit_max_buckets [simp]: "max_buckets (hit_step c s) = max_buckets s"
  by (simp add: hit_step_def hit_def Let_def split: option.split)

lemma hit_bounded: "buckets_bounded s \<Longrightarrow> buckets_bounded (hit_step c s)"
proof -
  assume "buckets_bounded s"
  then have "int (length (buckets (cleanup_buckets e m s))) \<le> max_buckets s" for e m
    using cleanup_fields(2) [of e m s] by (simp add: buckets_bounded_def del: cleanup_fields)
  then show ?thesis
    using \<open>buckets_bounded s\<close>
    by (auto simp: hit_step_def hit_def Let_def buckets_bounded_def length_dset dest: map_of_SomeD intro: rev_image_eqI split: option.split)
qed

interpretation bounded_run: invariant_run hit_step "\<lambda>_ _. True" buckets_bounded
  by unfold_locales (rule hit_bounded)

section \<open>Below the bound the counts are exact\<close>

definition hits_of :: "bucket_key \<Rightarrow> hit_call list \<Rightarrow> int" where
  "hits_of k cs = int (length (filter (\<lambda>c. hit_key c = k) cs))"

lemma hits_of_snoc: "hits_of k (cs @ [c]) = hits_of k cs + (if hit_key c = k then 1 else 0)"
  by (simp add: hits_of_def)

text \<open>Every bucket holds the number of its calls, and a bucket with calls that is not stale is there.\<close>

definition counts_ok :: "hit_call list \<Rightarrow> rate_limits \<Rightarrow> bool" where
  "counts_ok cs s \<longleftrightarrow> distinct (map fst (buckets s)) \<and> fst ` set (buckets s) \<subseteq> hit_key ` set cs \<and>
     (\<forall>k n. dget (buckets s) k = Some n \<longrightarrow> n = hits_of k cs) \<and>
     (\<forall>k. 0 < hits_of k cs \<and> \<not> stale_bucket (hit_epoch (last cs)) k \<longrightarrow> dget (buckets s) k \<noteq> None)"

lemma counts_okD: "counts_ok cs s \<Longrightarrow> dget (buckets s) k = Some n \<Longrightarrow> n = hits_of k cs"
  unfolding counts_ok_def by blast

lemma counts_okD2: "counts_ok cs s \<Longrightarrow> 0 < hits_of k cs \<Longrightarrow> \<not> stale_bucket (hit_epoch (last cs)) k \<Longrightarrow>
    dget (buckets s) k \<noteq> None"
  unfolding counts_ok_def by blast

lemma key_not_stale: "0 < hc_window_seconds c \<Longrightarrow> \<not> stale_bucket (hit_epoch c) (hit_key c)"
proof -
  assume w: "0 < hc_window_seconds c"
  have "hit_epoch c = hit_bucket c * hc_window_seconds c + hit_epoch c mod hc_window_seconds c"
    by (simp add: hit_bucket_def)
  moreover have "hit_epoch c mod hc_window_seconds c < hc_window_seconds c" using w by simp
  ultimately have "hit_epoch c < hit_bucket c * hc_window_seconds c + 3 * hc_window_seconds c" using w by linarith
  then show ?thesis by (simp add: stale_bucket_def hit_key_def distrib_right)
qed

lemma stale_mono: "stale_bucket e k \<Longrightarrow> e \<le> e' \<Longrightarrow> stale_bucket e' k"
  by (auto simp: stale_bucket_def)

text \<open>The window of a call is not counted in the overflow counter, and its rank is its count.\<close>

lemma hit_counted:
  assumes ok: "counts_ok cs s" and w: "0 < hc_window_seconds c"
    and mono: "cs = [] \<or> hit_epoch (last cs) \<le> hit_epoch c"
    and room: "int (card (hit_key ` set (cs @ [c]))) \<le> max_buckets s"
  shows "fst (hit c s) = Inr (hit_answer c (hits_of (hit_key c) (cs @ [c])) ((hit_bucket c + 1) * hc_window_seconds c)) \<and>
    counts_ok (cs @ [c]) (hit_step c s)"
proof -
  let ?e = "hit_epoch c" and ?k = "hit_key c"
  define s1 where "s1 = cleanup_buckets ?e (?e div OVERFLOW_WINDOW_SECONDS) s"
  have keep: "dget (buckets s1) k = dget (buckets s) k" if "\<not> stale_bucket ?e k" for k
    using that by (simp add: s1_def cleanup_dget)
  have count: "n = hits_of k cs" if "dget (buckets s1) k = Some n" for k n
  proof -
    have "dget (buckets s) k = Some n" using that by (simp add: s1_def cleanup_dget split: if_splits)
    then show ?thesis by (rule counts_okD [OF ok])
  qed
  have present: "dget (buckets s1) k \<noteq> None" if "0 < hits_of k cs" "\<not> stale_bucket ?e k" for k
  proof -
    have "cs \<noteq> []" using that(1) by (auto simp: hits_of_def)
    then have "\<not> stale_bucket (hit_epoch (last cs)) k" using mono that(2) stale_mono by blast
    then have "dget (buckets s) k \<noteq> None" using that(1) by (intro counts_okD2 [OF ok])
    then show ?thesis by (simp only: keep [OF that(2)] simp_thms)
  qed
  have keys: "fst ` set (buckets s1) \<subseteq> hit_key ` set cs" "distinct (map fst (buckets s1))"
    using ok by (auto simp: s1_def cleanup_buckets_def counts_ok_def distinct_map_filter)
  have len: "int (length (buckets s1)) < max_buckets s" if "dget (buckets s1) ?k = None"
  proof -
    have "?k \<notin> fst ` set (buckets s1)" using that by (simp add: map_of_eq_None_iff)
    then have "insert ?k (fst ` set (buckets s1)) \<subseteq> hit_key ` set (cs @ [c])" "card (insert ?k (fst ` set (buckets s1))) = Suc (length (buckets s1))"
      using keys distinct_card [OF keys(2)] by auto
    then have "Suc (length (buckets s1)) \<le> card (hit_key ` set (cs @ [c]))" using card_mono by (metis finite_imageI finite_set)
    then show ?thesis using room by simp
  qed
  have new: "hits_of ?k cs = 0" if "dget (buckets s1) ?k = None"
    using present [OF _ key_not_stale [OF w]] that by (fastforce simp: hits_of_def)
  have run: "fst (hit c s) = Inr (hit_answer c (hits_of ?k (cs @ [c])) ((hit_bucket c + 1) * hc_window_seconds c))"
    "hit_step c s = s1\<lparr>buckets := dset ?k (hits_of ?k (cs @ [c])) (buckets s1)\<rparr>"
    using w len new count [of ?k]
    by (auto simp: hit_step_def hit_def Let_def s1_def [symmetric] hits_of_snoc split: option.split) (auto simp: s1_def)
  have "counts_ok (cs @ [c]) (hit_step c s)"
    unfolding counts_ok_def
  proof (intro conjI allI impI)
    show "distinct (map fst (buckets (hit_step c s)))" using keys(2) by (simp add: run(2) distinct_update)
    show "fst ` set (buckets (hit_step c s)) \<subseteq> hit_key ` set (cs @ [c])"
      using keys(1) set_dset [of ?k _ "buckets s1"] by (fastforce simp: run(2))
    show "n = hits_of k (cs @ [c])" if "dget (buckets (hit_step c s)) k = Some n" for k n
      using that count [of k n] by (auto simp: run(2) hits_of_snoc split: if_splits)
    show "dget (buckets (hit_step c s)) k \<noteq> None"
      if "0 < hits_of k (cs @ [c]) \<and> \<not> stale_bucket (hit_epoch (last (cs @ [c]))) k" for k
      using that present [of k] by (auto simp: run(2) hits_of_snoc split: if_splits)
  qed
  then show ?thesis using run(1) by blast
qed

lemma last_before: "sorted (map hit_epoch (cs @ [c])) \<Longrightarrow> cs = [] \<or> hit_epoch (last cs) \<le> hit_epoch c"
  by (cases cs rule: rev_cases) (auto simp: sorted_append)

lemma run_counts:
  assumes "list_all (\<lambda>c. 0 < hc_window_seconds c) cs" "sorted (map hit_epoch cs)"
    and "int (card (hit_key ` set cs)) \<le> max_buckets s" "buckets s = []"
  shows "counts_ok cs (fold hit_step cs s) \<and> max_buckets (fold hit_step cs s) = max_buckets s"
  using assms(1,2,3)
proof (induction cs rule: rev_induct)
  case Nil
  then show ?case using assms(4) by (simp add: counts_ok_def hits_of_def)
next
  case (snoc c cs)
  have "card (hit_key ` set cs) \<le> card (hit_key ` set (cs @ [c]))" by (rule card_mono) auto
  then have ih: "counts_ok cs (fold hit_step cs s)" "max_buckets (fold hit_step cs s) = max_buckets s"
    using snoc by (auto simp: sorted_append)
  have "cs = [] \<or> hit_epoch (last cs) \<le> hit_epoch c" by (rule last_before [OF snoc.prems(2)])
  then show ?case using hit_counted [OF ih(1), of c] ih(2) snoc.prems by simp
qed

section \<open>Properties\<close>

text \<open>The limiter counts exactly and in bounded memory.  For calls with positive windows and
  a clock that does not run backwards, whose distinct (namespace, subject, window) buckets fit the
  configured bound, a call is answered from its rank among the calls of its own bucket: it is
  allowed when the rank is at most its limit, the remaining budget is the limit less the rank, and
  the reset is the end of its window.  For arbitrary calls the dictionary never holds more than the
  bound.\<close>

theorem rate_limit_exact:
  assumes "list_all (\<lambda>c. 0 < hc_window_seconds c) (cs @ [c])" "sorted (map hit_epoch (cs @ [c]))"
    and "int (card (hit_key ` set (cs @ [c]))) \<le> bound"
  shows "fst (hit c (fold hit_step cs (new_rate_limits bound))) =
      Inr (hit_answer c (hits_of (hit_key c) (cs @ [c])) ((hit_bucket c + 1) * hc_window_seconds c)) \<and>
    int (length (buckets (fold hit_step calls (new_rate_limits bound')))) \<le> max 0 bound'"
proof -
  let ?s = "new_rate_limits bound"
  have m: "max_buckets ?s = bound" "buckets ?s = []" using assms(3) by (auto simp: new_rate_limits_def)
  have "card (hit_key ` set cs) \<le> card (hit_key ` set (cs @ [c]))" by (rule card_mono) auto
  then have c: "counts_ok cs (fold hit_step cs ?s)" "max_buckets (fold hit_step cs ?s) = bound"
    using run_counts [of cs ?s] assms m by (auto simp: sorted_append)
  have mono: "cs = [] \<or> hit_epoch (last cs) \<le> hit_epoch c" by (rule last_before [OF assms(2)])
  have "buckets_bounded (fold hit_step calls (new_rate_limits bound'))"
    by (rule bounded_run.run_inv) (simp_all add: buckets_bounded_def new_rate_limits_def legal_run_True)
  moreover have "max_buckets (fold hit_step calls s) = max_buckets s" for s by (induction calls arbitrary: s) simp_all
  ultimately show ?thesis
    using hit_counted [OF c(1) _ mono] assms c(2) by (simp add: buckets_bounded_def new_rate_limits_def)
qed

definition demo_hit :: "string \<Rightarrow> instant \<Rightarrow> hit_call" where
  "demo_hit subject now = \<lparr>hc_namespace = ''n'', hc_subject = subject, hc_limit = 2, hc_window_seconds = 10, hc_now = now\<rparr>"

theorem rate_limit_exact_witness:
  "map_sum id rh_allowed (fst (hit (demo_hit ''a'' 9000000)
     (fold hit_step [demo_hit ''a'' 1000000, demo_hit ''b'' 2000000, demo_hit ''a'' 3000000] (new_rate_limits 2)))) = Inr False"
proof -
  let ?cs = "[demo_hit ''a'' 1000000, demo_hit ''b'' 2000000, demo_hit ''a'' 3000000]" and ?c = "demo_hit ''a'' 9000000"
  have 1: "list_all (\<lambda>c. 0 < hc_window_seconds c) (?cs @ [?c])" by code_simp
  have 2: "sorted (map hit_epoch (?cs @ [?c]))" by code_simp
  have k: "map hit_key (?cs @ [?c]) = [(''n'', ''a'', 10, 0), (''n'', ''b'', 10, 0), (''n'', ''a'', 10, 0), (''n'', ''a'', 10, 0)]"
    by code_simp
  have "hit_key ` set (?cs @ [?c]) = {(''n'', ''a'', 10, 0), (''n'', ''b'', 10, 0)}"
    using arg_cong [OF k, of set] by (auto simp only: set_map list.set insert_commute insert_absorb2)
  then have 3: "int (card (hit_key ` set (?cs @ [?c]))) \<le> 2" by simp
  have "hits_of (hit_key ?c) (?cs @ [?c]) = 3" by code_simp
  then show ?thesis using rate_limit_exact [OF 1 2 3] by (simp add: hit_answer_def demo_hit_def)
qed

end
