(* ===== verification/Video_Jobs.thy ===== *)
theory Video_Jobs
  imports Store
begin

text \<open>
  The durable state of asynchronous video generations (\<open>storage_video_jobs.py\<close>): one job per
  gateway authorization, leased to one poller at a time, with a status that is final once it is
  \<open>completed\<close> or \<open>failed\<close>.

  Every method reads the clock once; the text timestamps compare like the instants they denote.
\<close>

section \<open>State\<close>

record video_job =
  vj_id :: string
  vj_workspace_id :: string
  vj_key_hash :: string
  vj_authorization_id :: string
  vj_model :: string
  vj_provider :: string
  vj_endpoint_id :: string
  vj_provider_model :: string
  vj_quoted_microdollars :: microdollars
  vj_output_token_limit :: int
  vj_input_mode :: string
  vj_duration_seconds :: int
  vj_resolution :: string
  vj_aspect_ratio :: string
  vj_generate_audio :: bool
  vj_region :: string
  vj_status :: string
  vj_provider_job_id :: "string option"
  vj_provider_status :: "string option"
  vj_generation_id :: "string option"
  vj_attempts :: int
  vj_next_poll_at :: instant
  vj_lease_owner :: "string option"
  vj_leased_until :: "instant option"
  vj_last_error :: "string option"
  vj_content_expires_at :: "instant option"
  vj_cleaned_at :: "instant option"
  vj_created_at :: instant
  vj_updated_at :: "instant option"

record video_jobs =
  jobs :: "(string, video_job) dict"
  by_authorization :: "(string, string) dict"

definition VIDEO_CONTENT_RETENTION_SECONDS :: int where
  "VIDEO_CONTENT_RETENTION_SECONDS = 24 * 60 * 60"

definition VIDEO_SUBMISSION_TIMEOUT_SECONDS :: int where
  "VIDEO_SUBMISSION_TIMEOUT_SECONDS = 5 * 60"

definition iso_after_seconds :: "instant \<Rightarrow> int \<Rightarrow> instant" where
  "iso_after_seconds now seconds = iso_now now + max seconds 0 * 1000000"

definition truthy :: "string option \<Rightarrow> bool" where
  "truthy x \<longleftrightarrow> x \<noteq> None \<and> x \<noteq> Some []"

section \<open>Operations\<close>

definition video_prepare :: "instant \<Rightarrow> video_job \<Rightarrow> video_jobs \<Rightarrow> (video_job \<times> bool) \<times> video_jobs" where
  "video_prepare now job s =
     (let existing_id = dget (by_authorization s) (vj_authorization_id job);
          looked_up = (if truthy existing_id then the existing_id else vj_id job)
      in case dget (jobs s) looked_up of
           Some existing \<Rightarrow> ((existing, False), s)
         | None \<Rightarrow>
             (let job1 = job\<lparr>vj_next_poll_at := iso_after_seconds now VIDEO_SUBMISSION_TIMEOUT_SECONDS\<rparr>
              in ((job1, True), s\<lparr>jobs := dset (vj_id job) job1 (jobs s),
                   by_authorization := dset (vj_authorization_id job) (vj_id job) (by_authorization s)\<rparr>)))"

definition video_get :: "string \<Rightarrow> video_jobs \<Rightarrow> video_job option" where
  "video_get job_id s = dget (jobs s) job_id"

definition video_get_for_key :: "string \<Rightarrow> string \<Rightarrow> video_jobs \<Rightarrow> video_job option" where
  "video_get_for_key job_id key_hash s =
     (case video_get job_id s of None \<Rightarrow> None | Some job \<Rightarrow> if vj_key_hash job = key_hash then Some job else None)"

record queue_route =
  qr_provider_job_id :: string
  qr_provider :: string
  qr_endpoint_id :: string
  qr_provider_model :: string
  qr_quoted_microdollars :: microdollars

definition mark_queued :: "instant \<Rightarrow> string \<Rightarrow> queue_route \<Rightarrow> int \<Rightarrow> (video_jobs, video_job option) exec" where
  "mark_queued now job_id route poll_after_seconds s =
     (case dget (jobs s) job_id of None \<Rightarrow> (Inr None, s)
      | Some job \<Rightarrow>
          if truthy (vj_provider_job_id job) \<and> vj_provider_job_id job \<noteq> Some (qr_provider_job_id route)
          then (Inl (ValueError ''video job was already queued with a different provider id''), s)
          else if truthy (vj_provider_job_id job) \<and>
            (vj_provider job \<noteq> qr_provider route \<or> vj_endpoint_id job \<noteq> qr_endpoint_id route \<or>
             vj_provider_model job \<noteq> qr_provider_model route \<or> vj_quoted_microdollars job \<noteq> qr_quoted_microdollars route)
          then (Inl (ValueError ''video job was already queued with different route metadata''), s)
          else
            (let job1 = job\<lparr>vj_provider_job_id := Some (qr_provider_job_id route), vj_provider := qr_provider route,
                   vj_endpoint_id := qr_endpoint_id route, vj_provider_model := qr_provider_model route,
                   vj_quoted_microdollars := qr_quoted_microdollars route,
                   vj_status := (if vj_status job = ''submitting'' then ''pending'' else vj_status job),
                   vj_next_poll_at := iso_after_seconds now poll_after_seconds, vj_updated_at := Some (iso_now now)\<rparr>
             in (Inr (Some job1), s\<lparr>jobs := dset job_id job1 (jobs s)\<rparr>)))"

definition is_due :: "instant \<Rightarrow> video_job \<Rightarrow> bool" where
  "is_due now job \<longleftrightarrow>
     (let pollable = vj_status job \<in> {''submitting'', ''pending'', ''in_progress''};
          cleanup_due = (vj_status job = ''completed'' \<and> vj_cleaned_at job = None)
      in (pollable \<or> cleanup_due) \<and> \<not> vj_next_poll_at job > now \<and>
         (case vj_leased_until job of None \<Rightarrow> True | Some t \<Rightarrow> t \<le> now))"

text \<open>The claimed jobs are objects of the dict: \<open>kv\<close> pairs a job with the key it is stored under.\<close>

definition due_jobs :: "instant \<Rightarrow> int \<Rightarrow> video_jobs \<Rightarrow> (string \<times> video_job) list" where
  "due_jobs now limit s =
     slice_to limit (sort_key (\<lambda>kv. (vj_next_poll_at (snd kv), vj_created_at (snd kv), vj_id (snd kv)))
       (filter (\<lambda>kv. is_due (iso_now now) (snd kv)) (jobs s)))"

definition lease_job :: "string \<Rightarrow> instant \<Rightarrow> instant \<Rightarrow> video_job \<Rightarrow> video_job" where
  "lease_job owner until now job =
     job\<lparr>vj_lease_owner := Some owner, vj_leased_until := Some until, vj_updated_at := Some (iso_now now)\<rparr>"

definition claim_due :: "instant \<Rightarrow> string \<Rightarrow> int \<Rightarrow> int \<Rightarrow> video_jobs \<Rightarrow> video_job list \<times> video_jobs" where
  "claim_due now lease_owner limit lease_seconds s =
     (let until = iso_after_seconds now lease_seconds;
          claimed = map (\<lambda>(k, job). (k, lease_job lease_owner until now job)) (due_jobs now limit s)
      in (map snd claimed, s\<lparr>jobs := fold (\<lambda>(k, job). dset k job) claimed (jobs s)\<rparr>))"

record job_update =
  ju_status :: string
  ju_lease_owner :: "string option"
  ju_provider_status :: "string option"
  ju_generation_id :: "string option"
  ju_error :: "string option"
  ju_poll_after_seconds :: int

definition terminal_status :: "string \<Rightarrow> bool" where
  "terminal_status st \<longleftrightarrow> st \<in> {''completed'', ''failed''}"

text \<open>The non-terminal part of \<open>update\<close>.\<close>

definition advance_job :: "instant \<Rightarrow> job_update \<Rightarrow> video_job \<Rightarrow> video_job" where
  "advance_job now u job =
     (let job1 = job\<lparr>vj_status := ju_status u, vj_provider_status := ju_provider_status u,
            vj_generation_id := (if truthy (ju_generation_id u) then ju_generation_id u else vj_generation_id job),
            vj_last_error := (if truthy (ju_error u) then map_option (take 500) (ju_error u) else None),
            vj_attempts := vj_attempts job + 1, vj_lease_owner := None, vj_leased_until := None,
            vj_updated_at := Some (iso_now now)\<rparr>
      in if ju_status u \<in> {''pending'', ''in_progress''}
         then job1\<lparr>vj_next_poll_at := iso_after_seconds now (ju_poll_after_seconds u)\<rparr>
         else if ju_status u = ''completed'' \<and> vj_cleaned_at job = None
         then (let expires = (case vj_content_expires_at job of
                     None \<Rightarrow> iso_after_seconds now VIDEO_CONTENT_RETENTION_SECONDS | Some t \<Rightarrow> t)
               in job1\<lparr>vj_content_expires_at := Some expires, vj_next_poll_at := expires\<rparr>)
         else job1)"

definition video_update :: "instant \<Rightarrow> string \<Rightarrow> job_update \<Rightarrow> video_jobs \<Rightarrow> video_job option \<times> video_jobs" where
  "video_update now job_id u s =
     (case dget (jobs s) job_id of None \<Rightarrow> (None, s)
      | Some job \<Rightarrow>
          if ju_lease_owner u \<noteq> None \<and> vj_lease_owner job \<notin> {None, ju_lease_owner u} then (Some job, s)
          else if terminal_status (vj_status job)
          then (if vj_status job = ''completed'' \<and> ju_status u = ''completed'' \<and> truthy (ju_generation_id u) \<and>
                  \<not> truthy (vj_generation_id job)
                then (let job1 = job\<lparr>vj_generation_id := ju_generation_id u, vj_updated_at := Some (iso_now now)\<rparr>
                      in (Some job1, s\<lparr>jobs := dset job_id job1 (jobs s)\<rparr>))
                else (Some job, s))
          else (let job1 = advance_job now u job in (Some job1, s\<lparr>jobs := dset job_id job1 (jobs s)\<rparr>)))"

definition mark_cleaned :: "instant \<Rightarrow> string \<Rightarrow> video_jobs \<Rightarrow> video_job option \<times> video_jobs" where
  "mark_cleaned now job_id s =
     (case dget (jobs s) job_id of None \<Rightarrow> (None, s)
      | Some job \<Rightarrow>
          (let job1 = (if vj_cleaned_at job = None
                 then job\<lparr>vj_cleaned_at := Some (iso_now now), vj_updated_at := Some (iso_now now)\<rparr> else job);
               job2 = job1\<lparr>vj_lease_owner := None, vj_leased_until := None\<rparr>
           in (Some job2, s\<lparr>jobs := dset job_id job2 (jobs s)\<rparr>)))"

section \<open>Steps\<close>

datatype video_op =
    Prepare instant video_job
  | Mark_queued instant string queue_route int
  | Claim_due instant string int int
  | Update_job instant string job_update
  | Mark_cleaned instant string

fun video_step :: "video_op \<Rightarrow> video_jobs \<Rightarrow> video_jobs" where
  "video_step (Prepare now job) s = snd (video_prepare now job s)"
| "video_step (Mark_queued now i route poll) s = snd (mark_queued now i route poll s)"
| "video_step (Claim_due now owner limit lease) s = snd (claim_due now owner limit lease s)"
| "video_step (Update_job now i u) s = snd (video_update now i u s)"
| "video_step (Mark_cleaned now i) s = snd (mark_cleaned now i s)"

definition empty_video_jobs :: video_jobs where
  "empty_video_jobs = \<lparr>jobs = [], by_authorization = []\<rparr>"

text \<open>Every job is stored once, under its id, and the index of the authorizations leads to the one
  job of each authorization.\<close>

definition videos_ok :: "video_jobs \<Rightarrow> bool" where
  "videos_ok s \<longleftrightarrow> distinct (map fst (jobs s)) \<and> (\<forall>k j. dget (jobs s) k = Some j \<longrightarrow> vj_id j = k) \<and>
     (\<forall>a i. dget (by_authorization s) a = Some i \<longrightarrow> (\<exists>j. dget (jobs s) i = Some j \<and> vj_authorization_id j = a)) \<and>
     (\<forall>k j. dget (jobs s) k = Some j \<longrightarrow> k \<noteq> [] \<and> dget (by_authorization s) (vj_authorization_id j) = Some k)"

text \<open>Job ids are random and not empty.\<close>

fun video_legal :: "video_op \<Rightarrow> video_jobs \<Rightarrow> bool" where
  "video_legal (Prepare now job) s = (vj_id job \<noteq> [])"
| "video_legal e s = True"

text \<open>What one call may do to the job stored under \<open>k\<close>.\<close>

definition job_rel :: "video_job option \<Rightarrow> video_job option \<Rightarrow> bool" where
  "job_rel x y \<longleftrightarrow> (case x of None \<Rightarrow> True
     | Some j \<Rightarrow> (case y of None \<Rightarrow> False
         | Some j' \<Rightarrow> vj_id j' = vj_id j \<and> vj_authorization_id j' = vj_authorization_id j \<and>
             (terminal_status (vj_status j) \<longrightarrow> vj_status j' = vj_status j \<and> vj_attempts j' = vj_attempts j \<and>
                (truthy (vj_generation_id j) \<longrightarrow> vj_generation_id j' = vj_generation_id j))))"

subsection \<open>What claiming changes\<close>

lemma dget_fold_dset:
  "dget (fold (\<lambda>(k, v). dset k v) xs d) k = (case map_of (rev xs) k of None \<Rightarrow> dget d k | Some v \<Rightarrow> Some v)"
  by (induction xs arbitrary: d) (auto simp: map_add_def split: option.split)

lemma distinct_fold_dset: "distinct (map fst d) \<Longrightarrow> distinct (map fst (fold (\<lambda>(k, v). dset k v) xs d))"
  by (induction xs arbitrary: d) (auto simp: distinct_update)

lemma set_slice_to: "set (slice_to n xs) \<subseteq> set xs"
  by (simp add: slice_to_def set_take_subset)

lemma due_jobs_due: "kv \<in> set (due_jobs now limit s) \<Longrightarrow> kv \<in> set (jobs s) \<and> is_due (iso_now now) (snd kv)"
  using set_slice_to by (fastforce simp: due_jobs_def)

abbreviation leased :: "instant \<Rightarrow> string \<Rightarrow> int \<Rightarrow> video_job \<Rightarrow> video_job" where
  "leased now owner seconds \<equiv> lease_job owner (iso_after_seconds now seconds) now"

lemma claim_get:
  assumes "videos_ok s"
  shows "dget (jobs (snd (claim_due now owner limit seconds s))) k =
    (if k \<in> fst ` set (due_jobs now limit s) then map_option (leased now owner seconds) (dget (jobs s) k) else dget (jobs s) k)"
proof -
  let ?xs = "map (\<lambda>(k, job). (k, leased now owner seconds job)) (due_jobs now limit s)"
  have d: "distinct (map fst (jobs s))" using assms by (simp add: videos_ok_def)
  have v: "v = leased now owner seconds j" if kv: "(k, v) \<in> set ?xs" "dget (jobs s) k = Some j" for v j
  proof -
    obtain j0 where "(k, j0) \<in> set (due_jobs now limit s)" "v = leased now owner seconds j0" using kv(1) by auto
    then show ?thesis using due_jobs_due [of "(k, j0)"] map_of_is_SomeI [OF d, of k j0] kv(2) by auto
  qed
  have g: "dget (jobs (snd (claim_due now owner limit seconds s))) k = (case map_of (rev ?xs) k of None \<Rightarrow> dget (jobs s) k | Some v \<Rightarrow> Some v)"
    by (simp add: claim_due_def Let_def dget_fold_dset)
  have keys: "fst ` set ?xs = fst ` set (due_jobs now limit s)"
    by (simp add: image_image case_prod_unfold)
  show ?thesis
  proof (cases "k \<in> fst ` set (due_jobs now limit s)")
    case True
    then obtain j where "(k, j) \<in> set (due_jobs now limit s)" by auto
    then have j: "dget (jobs s) k = Some j" using due_jobs_due map_of_is_SomeI [OF d] by blast
    have "map_of (rev ?xs) k \<noteq> None" using True keys by (simp only: map_of_eq_None_iff set_rev) blast
    then obtain v where v': "map_of (rev ?xs) k = Some v" by auto
    have "(k, v) \<in> set ?xs" using map_of_SomeD [OF v'] by simp
    then show ?thesis using g v' v [OF _ j] True j by simp
  next
    case False
    then have "map_of (rev ?xs) k = None" using keys by (simp only: map_of_eq_None_iff set_rev) blast
    then show ?thesis using g False by simp
  qed
qed

lemma claim_jobs:
  assumes "videos_ok s" "j \<in> set (fst (claim_due now owner limit seconds s))"
  obtains j0 where "dget (jobs s) (vj_id j) = Some j0" "is_due (iso_now now) j0" "j = leased now owner seconds j0"
    "vj_id j \<in> fst ` set (due_jobs now limit s)"
proof -
  obtain k j0 where kj: "(k, j0) \<in> set (due_jobs now limit s)" "j = leased now owner seconds j0"
    using assms(2) by (auto simp: claim_due_def Let_def)
  then have "dget (jobs s) k = Some j0" "is_due (iso_now now) j0"
    using due_jobs_due [OF kj(1)] assms(1) by (auto simp: videos_ok_def map_of_eq_Some_iff)
  moreover have "vj_id j = k" using calculation(1) assms(1) kj(2) by (simp add: videos_ok_def lease_job_def)
  ultimately show thesis using that kj by force
qed

subsection \<open>The invariant\<close>

lemma videos_okD:
  assumes "videos_ok s"
  shows "dget (jobs s) k = Some j \<Longrightarrow> vj_id j = k"
    "dget (by_authorization s) a = Some i \<Longrightarrow> \<exists>j. dget (jobs s) i = Some j \<and> vj_authorization_id j = a"
    "dget (jobs s) k = Some j \<Longrightarrow> k \<noteq> [] \<and> dget (by_authorization s) (vj_authorization_id j) = Some k"
  using assms unfolding videos_ok_def by blast+

text \<open>A call that keeps the index and changes jobs only as \<open>job_rel\<close> allows keeps the invariant.\<close>

lemma videos_ok_rel:
  assumes "videos_ok s" "distinct (map fst (jobs s'))" "by_authorization s' = by_authorization s"
    and "\<And>k. job_rel (dget (jobs s) k) (dget (jobs s') k)" "\<And>k. dget (jobs s) k = None \<Longrightarrow> dget (jobs s') k = None"
  shows "videos_ok s'"
  unfolding videos_ok_def
proof (intro conjI allI impI)
  show "vj_id j = k" if "dget (jobs s') k = Some j" for k j
    using that assms(4) [of k] assms(5) [of k] videos_okD(1) [OF assms(1), of k] by (cases "dget (jobs s) k") (auto simp: job_rel_def)
  show "\<exists>j. dget (jobs s') i = Some j \<and> vj_authorization_id j = a" if "dget (by_authorization s') a = Some i" for a i
    using videos_okD(2) [OF assms(1), of a i] that assms(3) assms(4) [of i] by (auto simp: job_rel_def split: option.splits)
  show "k \<noteq> []" "dget (by_authorization s') (vj_authorization_id j) = Some k" if "dget (jobs s') k = Some j" for k j
    using that assms(3) assms(4) [of k] assms(5) [of k] videos_okD(3) [OF assms(1), of k]
    by (cases "dget (jobs s) k"; auto simp: job_rel_def)+
qed (rule assms(2))

lemma job_rel_None [simp]: "job_rel None x"
  by (simp add: job_rel_def)

lemma job_rel_refl [simp]: "job_rel x x"
  by (simp add: job_rel_def split: option.split)

text \<open>A call that rewrites the job under \<open>i\<close> only.\<close>

lemma write_rel:
  assumes "dget (jobs s) i = Some j" "job_rel (Some j) (Some j')"
  shows "job_rel (dget (jobs s) k) (dget (jobs (s\<lparr>jobs := dset i j' (jobs s)\<rparr>)) k)"
    "dget (jobs s) k = None \<Longrightarrow> dget (jobs (s\<lparr>jobs := dset i j' (jobs s)\<rparr>)) k = None"
  using assms by auto

lemma write_ok:
  assumes "videos_ok s" "dget (jobs s) i = Some j" "job_rel (Some j) (Some j')"
  shows "videos_ok (s\<lparr>jobs := dset i j' (jobs s)\<rparr>)"
  by (rule videos_ok_rel [OF assms(1)])
    (use assms write_rel [OF assms(2,3)] in \<open>simp_all add: videos_ok_def distinct_update\<close>)

lemma advance_rel: "\<not> terminal_status (vj_status j) \<Longrightarrow> job_rel (Some j) (Some (advance_job now u j))"
  by (simp add: job_rel_def advance_job_def Let_def)

lemma lease_rel: "job_rel x (map_option (leased now owner seconds) x)"
  by (cases x) (simp_all add: job_rel_def lease_job_def)

lemma mark_queued_cases:
  assumes "mark_queued now i route poll s = (res, s')"
  obtains (unchanged) "s' = s"
  | (queued) j j' where "dget (jobs s) i = Some j" "res = Inr (Some j')" "s' = s\<lparr>jobs := dset i j' (jobs s)\<rparr>"
      "job_rel (Some j) (Some j')" "vj_lease_owner j' = vj_lease_owner j" "vj_leased_until j' = vj_leased_until j"
proof (cases "dget (jobs s) i")
  case None
  then show thesis using assms unchanged by (simp add: mark_queued_def)
next
  case (Some j)
  then show thesis using assms unchanged queued [OF Some]
    by (auto simp: mark_queued_def Let_def job_rel_def terminal_status_def split: if_splits)
qed

lemma video_update_cases:
  assumes "video_update now i u s = (res, s')"
  obtains (unchanged) "s' = s"
  | (updated) j j' where "dget (jobs s) i = Some j" "s' = s\<lparr>jobs := dset i j' (jobs s)\<rparr>" "job_rel (Some j) (Some j')"
      "ju_lease_owner u = None \<or> vj_lease_owner j = None \<or> vj_lease_owner j = ju_lease_owner u"
proof (cases "dget (jobs s) i")
  case None
  then show thesis using assms unchanged by (simp add: video_update_def)
next
  case (Some j)
  show thesis
  proof (cases "terminal_status (vj_status j)")
    case True
    then show thesis using assms unchanged updated [OF Some] Some
      by (auto simp: video_update_def Let_def job_rel_def split: if_splits)
  next
    case False
    then show thesis using assms unchanged updated [OF Some _ advance_rel [OF False]] Some
      by (auto simp: video_update_def Let_def split: if_splits)
  qed
qed

lemma mark_cleaned_rel:
  assumes "dget (jobs s) i = Some j"
  obtains j' where "snd (mark_cleaned now i s) = s\<lparr>jobs := dset i j' (jobs s)\<rparr>" "job_rel (Some j) (Some j')"
  using assms by (auto simp: mark_cleaned_def Let_def job_rel_def)

lemma video_prepare_cases:
  assumes "videos_ok s" "video_prepare now job s = (res, s')"
  obtains (existing) j where "res = (j, False)" "s' = s"
  | (created) j where "res = (j, True)" "j = job\<lparr>vj_next_poll_at := iso_after_seconds now VIDEO_SUBMISSION_TIMEOUT_SECONDS\<rparr>"
      "dget (jobs s) (vj_id job) = None" "dget (by_authorization s) (vj_authorization_id job) = None"
      "s' = s\<lparr>jobs := dset (vj_id job) j (jobs s), by_authorization := dset (vj_authorization_id job) (vj_id job) (by_authorization s)\<rparr>"
proof -
  let ?e = "dget (by_authorization s) (vj_authorization_id job)"
  let ?l = "if truthy ?e then the ?e else vj_id job"
  show thesis
  proof (cases "dget (jobs s) ?l")
    case (Some j)
    then show thesis using assms(2) existing by (auto simp: video_prepare_def Let_def)
  next
    case None
    have e: "?e = None"
    proof (cases ?e)
      case (Some i)
      obtain j where "dget (jobs s) i = Some j" using videos_okD(2) [OF assms(1) Some] by blast
      moreover from this have "i \<noteq> []" using videos_okD(3) [OF assms(1)] by blast
      ultimately show ?thesis using None Some by (simp add: truthy_def)
    qed simp
    then show thesis using None assms(2) created [OF _ refl _ e] by (auto simp: video_prepare_def Let_def truthy_def)
  qed
qed

lemma claim_rel:
  assumes "videos_ok s"
  shows "job_rel (dget (jobs s) k) (dget (jobs (snd (claim_due now owner limit seconds s))) k)"
    "dget (jobs s) k = None \<Longrightarrow> dget (jobs (snd (claim_due now owner limit seconds s))) k = None"
  by (simp_all add: claim_get [OF assms] lease_rel)

lemma video_step_rel:
  assumes "videos_ok s"
  shows "job_rel (dget (jobs s) k) (dget (jobs (video_step e s)) k)"
proof (cases e)
  case (Prepare now job)
  show ?thesis
    unfolding Prepare video_step.simps
    by (cases rule: video_prepare_cases [OF assms prod.collapse [symmetric], of now job]) auto
next
  case (Mark_queued now i route poll)
  show ?thesis
    unfolding Mark_queued video_step.simps
    by (cases rule: mark_queued_cases [OF prod.collapse [symmetric], of now i route poll s]) (auto simp: write_rel)
next
  case (Claim_due now owner limit lease)
  show ?thesis unfolding Claim_due video_step.simps by (rule claim_rel [OF assms])
next
  case (Update_job now i u)
  show ?thesis
    unfolding Update_job video_step.simps
    by (cases rule: video_update_cases [OF prod.collapse [symmetric], of now i u s]) (auto simp: write_rel)
next
  case (Mark_cleaned now i)
  show ?thesis
  proof (cases "dget (jobs s) i")
    case None
    then show ?thesis by (simp add: Mark_cleaned mark_cleaned_def)
  next
    case (Some j)
    then show ?thesis unfolding Mark_cleaned video_step.simps
      by (rule mark_cleaned_rel [where now = now]) (simp add: write_rel [OF Some] Some)
  qed
qed

lemma video_prepare_ok:
  assumes "videos_ok s" "vj_id job \<noteq> []" "video_prepare now job s = (res, s')"
  shows "videos_ok s'"
  using assms(1,3)
proof (cases rule: video_prepare_cases)
  case (created j)
  have old: "\<exists>j'. dget (jobs s) i = Some j' \<and> vj_authorization_id j' = a \<and> i \<noteq> vj_id job \<and> a \<noteq> vj_authorization_id job"
    if "dget (by_authorization s) a = Some i" for a i
    using videos_okD(2) [OF assms(1) that] created(3,4) that by auto
  have auth: "vj_authorization_id i \<noteq> vj_authorization_id job" if "dget (jobs s) k = Some i" for k i
    using videos_okD(3) [OF assms(1) that] created(4) by auto
  show ?thesis
    unfolding videos_ok_def
  proof (intro conjI allI impI)
    show "distinct (map fst (jobs s'))" using assms(1) by (simp add: created(5) distinct_update videos_ok_def)
    show "vj_id i = k" if "dget (jobs s') k = Some i" for k i
      using that videos_okD(1) [OF assms(1), of k i] by (auto simp: created(2,5) split: if_splits)
    show "\<exists>j'. dget (jobs s') i = Some j' \<and> vj_authorization_id j' = a" if "dget (by_authorization s') a = Some i" for a i
      using that old [of a i] by (auto simp: created(2,5) split: if_splits)
    show "k \<noteq> []" "dget (by_authorization s') (vj_authorization_id i) = Some k" if "dget (jobs s') k = Some i" for k i
      using that videos_okD(3) [OF assms(1), of k i] auth [of k i] assms(2) by (auto simp: created(2,5) split: if_splits)
  qed
qed (use assms(1) in simp)

lemma video_step_ok:
  assumes "videos_ok s" "video_legal e s"
  shows "videos_ok (video_step e s)"
proof (cases e)
  case (Prepare now job)
  then show ?thesis using video_prepare_ok [OF assms(1) _ prod.collapse [symmetric], of job now] assms(2) by simp
next
  case (Mark_queued now i route poll)
  show ?thesis
    unfolding Mark_queued video_step.simps
    by (cases rule: mark_queued_cases [OF prod.collapse [symmetric], of now i route poll s]) (use assms in \<open>auto simp: write_ok\<close>)
next
  case (Claim_due now owner limit lease)
  have "distinct (map fst (jobs (snd (claim_due now owner limit lease s))))" "by_authorization (snd (claim_due now owner limit lease s)) = by_authorization s"
    using assms by (simp_all add: claim_due_def Let_def distinct_fold_dset videos_ok_def)
  then show ?thesis unfolding Claim_due video_step.simps by (rule videos_ok_rel [OF assms(1) _ _ claim_rel [OF assms(1)]])
next
  case (Update_job now i u)
  show ?thesis
    unfolding Update_job video_step.simps
    by (cases rule: video_update_cases [OF prod.collapse [symmetric], of now i u s]) (use assms in \<open>auto simp: write_ok\<close>)
next
  case (Mark_cleaned now i)
  show ?thesis
  proof (cases "dget (jobs s) i")
    case None
    then show ?thesis using assms by (simp add: Mark_cleaned mark_cleaned_def)
  next
    case (Some j)
    then show ?thesis unfolding Mark_cleaned video_step.simps
      by (rule mark_cleaned_rel [where now = now]) (simp add: write_ok [OF assms(1) Some])
  qed
qed

subsection \<open>Final states and leases\<close>

text \<open>The part of a terminal job that no call changes.\<close>

definition final_state :: "video_jobs \<Rightarrow> string \<Rightarrow> (string \<times> string \<times> int) option" where
  "final_state s k = (case dget (jobs s) k of None \<Rightarrow> None
     | Some j \<Rightarrow> if terminal_status (vj_status j) then Some (vj_authorization_id j, vj_status j, vj_attempts j) else None)"

definition final_generation :: "video_jobs \<Rightarrow> string \<Rightarrow> string option" where
  "final_generation s k = (case dget (jobs s) k of None \<Rightarrow> None
     | Some j \<Rightarrow> if terminal_status (vj_status j) \<and> truthy (vj_generation_id j) then vj_generation_id j else None)"

interpretation video_state: invariant_once video_step video_legal videos_ok final_state
proof
  fix s e k v
  assume ok: "videos_ok s" and "video_legal e s"
  then show "videos_ok (video_step e s)" by (rule video_step_ok)
  show "final_state (video_step e s) k = Some v" if "final_state s k = Some v"
    using that video_step_rel [OF ok, of k e] by (auto simp: final_state_def job_rel_def split: option.splits if_splits)
qed

interpretation video_generation: invariant_once video_step video_legal videos_ok final_generation
proof
  fix s e k v
  assume ok: "videos_ok s"
  show "final_generation (video_step e s) k = Some v" if "final_generation s k = Some v"
    using that video_step_rel [OF ok, of k e] by (auto simp: final_generation_def job_rel_def split: option.splits if_splits)
qed

text \<open>A call that leaves the lease of job \<open>k\<close> alone: an update by another owner, a claim before the
  lease runs out, a call on another job.\<close>

fun respects_lease :: "string \<Rightarrow> instant \<Rightarrow> string \<Rightarrow> video_op \<Rightarrow> video_jobs \<Rightarrow> bool" where
  "respects_lease owner until k (Prepare now job) s = (vj_id job \<noteq> [])"
| "respects_lease owner until k (Mark_queued now i route poll) s = True"
| "respects_lease owner until k (Claim_due now o' limit lease) s = (iso_now now < until)"
| "respects_lease owner until k (Update_job now i u) s = (i = k \<longrightarrow> ju_lease_owner u \<noteq> None \<and> ju_lease_owner u \<noteq> Some owner)"
| "respects_lease owner until k (Mark_cleaned now i) s = (i \<noteq> k)"

definition lease_held :: "string \<Rightarrow> instant \<Rightarrow> string \<Rightarrow> video_jobs \<Rightarrow> bool" where
  "lease_held owner until k s \<longleftrightarrow>
     map_option (\<lambda>j. (vj_lease_owner j, vj_leased_until j)) (dget (jobs s) k) = Some (Some owner, Some until)"

lemma held_not_due: "dget (jobs s) k = Some j \<Longrightarrow> lease_held owner until k s \<Longrightarrow> now < until \<Longrightarrow> \<not> is_due now j"
  by (simp add: lease_held_def is_due_def Let_def)

lemma held_not_claimed:
  assumes "videos_ok s" "lease_held owner until k s" "iso_now now < until"
  shows "k \<notin> fst ` set (due_jobs now limit s)"
proof
  assume "k \<in> fst ` set (due_jobs now limit s)"
  then obtain j where "(k, j) \<in> set (due_jobs now limit s)" by auto
  then have "(k, j) \<in> set (jobs s)" "is_due (iso_now now) j" using due_jobs_due by fastforce+
  moreover have "dget (jobs s) k = Some j" using calculation(1) assms(1) map_of_is_SomeI by (fastforce simp: videos_ok_def)
  ultimately show False using held_not_due assms(2,3) by blast
qed

lemma lease_step:
  assumes ok: "videos_ok s" and held: "lease_held owner until k s" and legal: "respects_lease owner until k e s"
  shows "lease_held owner until k (video_step e s)"
proof (cases e)
  case (Prepare now job)
  show ?thesis
    unfolding Prepare video_step.simps
    by (cases rule: video_prepare_cases [OF ok prod.collapse [symmetric], of now job]) (use held in \<open>auto simp: lease_held_def\<close>)
next
  case (Mark_queued now i route poll)
  show ?thesis
    unfolding Mark_queued video_step.simps
    by (cases rule: mark_queued_cases [OF prod.collapse [symmetric], of now i route poll s]) (use held in \<open>auto simp: lease_held_def\<close>)
next
  case (Claim_due now o' limit lease)
  then have "k \<notin> fst ` set (due_jobs now limit s)" using held_not_claimed [OF ok held] legal by simp
  then show ?thesis using held by (simp add: Claim_due lease_held_def claim_get [OF ok])
next
  case (Update_job now i u)
  show ?thesis
    unfolding Update_job video_step.simps
    by (cases rule: video_update_cases [OF prod.collapse [symmetric], of now i u s])
      (use held legal Update_job in \<open>auto simp: lease_held_def split: if_splits\<close>)
next
  case (Mark_cleaned now i)
  show ?thesis using held legal by (auto simp: Mark_cleaned mark_cleaned_def lease_held_def Let_def split: option.split)
qed

interpretation lease_run: invariant_run video_step "respects_lease owner until k" "\<lambda>s. videos_ok s \<and> lease_held owner until k s"
proof
  fix s e
  assume a: "videos_ok s \<and> lease_held owner until k s" "respects_lease owner until k e s"
  then have "video_legal e s" by (cases e) simp_all
  then show "videos_ok (video_step e s) \<and> lease_held owner until k (video_step e s)"
    using a video_step_ok lease_step by blast
qed

section \<open>Properties\<close>

lemma empty_videos_ok: "videos_ok empty_video_jobs"
  by (simp add: videos_ok_def empty_video_jobs_def)

text \<open>C38. A finished video job stays finished and is the only job of its authorization.  After any
  sequence of calls, once a job is completed or failed no later call changes its status, its
  authorization or its number of attempts, nor the generation it is billed as once that is set; and
  no other job has the same authorization.\<close>

theorem video_job_final:
  assumes "legal_run video_step video_legal (ops @ later) empty_video_jobs"
    and "dget (jobs (fold video_step ops empty_video_jobs)) k = Some j" "terminal_status (vj_status j)"
  shows "\<exists>j'. dget (jobs (fold video_step (ops @ later) empty_video_jobs)) k = Some j' \<and>
      vj_status j' = vj_status j \<and> vj_attempts j' = vj_attempts j \<and> vj_authorization_id j' = vj_authorization_id j \<and>
      (truthy (vj_generation_id j) \<longrightarrow> vj_generation_id j' = vj_generation_id j) \<and>
      (\<forall>k2 j2. dget (jobs (fold video_step (ops @ later) empty_video_jobs)) k2 = Some j2 \<longrightarrow>
         vj_authorization_id j2 = vj_authorization_id j' \<longrightarrow> k2 = k)"
proof -
  let ?s = "fold video_step ops empty_video_jobs" and ?t = "fold video_step later (fold video_step ops empty_video_jobs)"
  have l: "legal_run video_step video_legal ops empty_video_jobs" "legal_run video_step video_legal later ?s"
    using assms(1) by (simp_all add: legal_run_append)
  have ok: "videos_ok ?s" by (rule video_state.run_inv [OF empty_videos_ok l(1)])
  then have ok': "videos_ok ?t" by (rule video_state.run_inv [OF _ l(2)])
  have "final_state ?s k = Some (vj_authorization_id j, vj_status j, vj_attempts j)"
    using assms(2,3) by (simp add: final_state_def)
  then have "final_state ?t k = Some (vj_authorization_id j, vj_status j, vj_attempts j)"
    by (rule video_state.run_entry [OF ok l(2)])
  then obtain j' where j': "dget (jobs ?t) k = Some j'" "vj_status j' = vj_status j" "vj_attempts j' = vj_attempts j"
    "vj_authorization_id j' = vj_authorization_id j" by (auto simp: final_state_def split: option.splits if_splits)
  have "vj_generation_id j' = vj_generation_id j" if g: "truthy (vj_generation_id j)"
  proof -
    obtain g' where "vj_generation_id j = Some g'" using g by (auto simp: truthy_def)
    then have "final_generation ?s k = Some g'" using assms(2,3) g by (simp add: final_generation_def)
    then have "final_generation ?t k = Some g'" by (rule video_generation.run_entry [OF ok l(2)])
    then show ?thesis using j'(1) \<open>vj_generation_id j = Some g'\<close> by (simp add: final_generation_def split: if_splits)
  qed
  moreover have "k2 = k" if "dget (jobs ?t) k2 = Some j2" "vj_authorization_id j2 = vj_authorization_id j'" for k2 j2
    using videos_okD(3) [OF ok' that(1)] videos_okD(3) [OF ok' j'(1)] that(2) by simp
  ultimately show ?thesis
    unfolding fold_append comp_def using j' by (intro exI [of _ j'] conjI allI impI) blast+
qed

text \<open>A lease is exclusive.  When a poller claims a job, no claim before the lease runs out hands
  the job to anyone, as long as no call releases it: updates by other pollers, submissions, other
  claims and calls on other jobs may come in any order.\<close>

theorem video_lease_exclusive:
  assumes "legal_run video_step video_legal ops empty_video_jobs"
    and "claim_due now owner limit seconds (fold video_step ops empty_video_jobs) = (claimed, s)"
    and "j \<in> set claimed"
    and "legal_run video_step (respects_lease owner (iso_after_seconds now seconds) (vj_id j)) later s"
    and "iso_now now' < iso_after_seconds now seconds"
  shows "vj_id j \<notin> vj_id ` set (fst (claim_due now' owner' limit' seconds' (fold video_step later s)))"
proof -
  let ?s0 = "fold video_step ops empty_video_jobs" and ?t = "fold video_step later s"
  have ok0: "videos_ok ?s0" by (rule video_state.run_inv [OF empty_videos_ok assms(1)])
  have s: "s = video_step (Claim_due now owner limit seconds) ?s0" "claimed = fst (claim_due now owner limit seconds ?s0)"
    using assms(2) by simp_all
  have ok: "videos_ok s" unfolding s(1) by (rule video_step_ok [OF ok0]) simp
  obtain j0 where "dget (jobs ?s0) (vj_id j) = Some j0" "vj_id j \<in> fst ` set (due_jobs now limit ?s0)"
    using assms(3) unfolding s(2) by (rule claim_jobs [OF ok0]) blast
  then have "lease_held owner (iso_after_seconds now seconds) (vj_id j) s"
    unfolding s(1) by (simp add: lease_held_def claim_get [OF ok0] lease_job_def)
  then have t: "videos_ok ?t" "lease_held owner (iso_after_seconds now seconds) (vj_id j) ?t"
    using lease_run.run_inv [OF _ assms(4)] ok by blast+
  show ?thesis
  proof
    assume "vj_id j \<in> vj_id ` set (fst (claim_due now' owner' limit' seconds' ?t))"
    then obtain i where i: "i \<in> set (fst (claim_due now' owner' limit' seconds' ?t))" "vj_id i = vj_id j" by auto
    from t(1) i(1) have "vj_id i \<in> fst ` set (due_jobs now' limit' ?t)" by (rule claim_jobs)
    then have "vj_id j \<in> fst ` set (due_jobs now' limit' ?t)" by (simp only: i(2))
    then show False using held_not_claimed [OF t assms(5)] by blast
  qed
qed

subsection \<open>Example\<close>

definition demo_job :: video_job where
  "demo_job = \<lparr>vj_id = ''v1'', vj_workspace_id = ''w'', vj_key_hash = ''h'', vj_authorization_id = ''a1'', vj_model = ''m'',
     vj_provider = ''p'', vj_endpoint_id = ''e'', vj_provider_model = ''pm'', vj_quoted_microdollars = 10,
     vj_output_token_limit = 0, vj_input_mode = ''text'', vj_duration_seconds = 5, vj_resolution = [], vj_aspect_ratio = [],
     vj_generate_audio = False, vj_region = [], vj_status = ''submitting'', vj_provider_job_id = None,
     vj_provider_status = None, vj_generation_id = None, vj_attempts = 0, vj_next_poll_at = 0, vj_lease_owner = None,
     vj_leased_until = None, vj_last_error = None, vj_content_expires_at = None, vj_cleaned_at = None, vj_created_at = 0,
     vj_updated_at = None\<rparr>"

definition demo_route :: queue_route where
  "demo_route = \<lparr>qr_provider_job_id = ''pj'', qr_provider = ''p'', qr_endpoint_id = ''e'', qr_provider_model = ''pm'',
     qr_quoted_microdollars = 10\<rparr>"

definition demo_finish :: "string \<Rightarrow> string option \<Rightarrow> job_update" where
  "demo_finish st owner = \<lparr>ju_status = st, ju_lease_owner = owner, ju_provider_status = None, ju_generation_id = Some ''g'',
     ju_error = None, ju_poll_after_seconds = 5\<rparr>"

definition demo_queue :: "video_op list" where
  "demo_queue = [Prepare 0 demo_job, Mark_queued 1000000 ''v1'' demo_route 2]"

theorem video_job_final_witness:
  "map_option vj_status (dget (jobs (fold video_step
     ((demo_queue @ [Update_job 3000000 ''v1'' (demo_finish ''completed'' None)]) @ [Update_job 4000000 ''v1'' (demo_finish ''failed'' None)])
     empty_video_jobs)) ''v1'') = Some ''completed''"
proof -
  let ?ops = "demo_queue @ [Update_job 3000000 ''v1'' (demo_finish ''completed'' None)]"
  let ?later = "[Update_job 4000000 ''v1'' (demo_finish ''failed'' None)]"
  have l: "legal_run video_step video_legal (?ops @ ?later) empty_video_jobs" by code_simp
  have "map_option vj_status (dget (jobs (fold video_step ?ops empty_video_jobs)) ''v1'') = Some ''completed''" by code_simp
  then obtain j where j: "dget (jobs (fold video_step ?ops empty_video_jobs)) ''v1'' = Some j" "vj_status j = ''completed''" by auto
  have "terminal_status (vj_status j)" using j(2) by (simp add: terminal_status_def)
  from video_job_final [OF l j(1) this] show ?thesis using j(2) by auto
qed

theorem video_lease_exclusive_witness:
  "''v1'' \<notin> vj_id ` set (fst (claim_due 9000000 ''p2'' 5 10 (fold video_step [Update_job 5000000 ''v1'' (demo_finish ''failed'' (Some ''p2''))]
     (snd (claim_due 4000000 ''p1'' 5 10 (fold video_step demo_queue empty_video_jobs))))))"
proof -
  let ?s = "fold video_step demo_queue empty_video_jobs"
  let ?c = "claim_due 4000000 ''p1'' 5 10 ?s"
  let ?later = "[Update_job 5000000 ''v1'' (demo_finish ''failed'' (Some ''p2''))]"
  have l: "legal_run video_step video_legal demo_queue empty_video_jobs" by code_simp
  have "map vj_id (fst ?c) = [''v1'']" by code_simp
  then obtain j where j: "j \<in> set (fst ?c)" "vj_id j = ''v1''" by auto
  have "legal_run video_step (respects_lease ''p1'' (iso_after_seconds 4000000 10) ''v1'') ?later (snd ?c)" by code_simp
  then have r: "legal_run video_step (respects_lease ''p1'' (iso_after_seconds 4000000 10) (vj_id j)) ?later (snd ?c)" by (simp only: j(2))
  have t: "iso_now 9000000 < iso_after_seconds 4000000 10" by code_simp
  from video_lease_exclusive [OF l prod.collapse [symmetric] j(1) r t] show ?thesis by (simp only: j(2) not_False_eq_True simp_thms)
qed

end
