(* ===== verification/Workspaces.thy ===== *)
theory Workspaces
  imports Store
begin

text \<open>
  Workspaces, their owners and members (\<open>storage.py\<close>, lines 463 to 571, 772 to 1206 and 1246 to
  1402), the owner budget of \<open>trust_ownership.py\<close> and the closure of an account
  (\<open>storage_account_closure.py\<close>).

  The inventory \<open>owner_workspaces\<close> lists the live workspaces of every owner; it bounds how many
  workspaces an owner has and how many trust rows a demotion rewrites.  What the operations keep of it
  is shown in the theory of the inventory.

  A subscript on a missing dict key raises \<open>KeyError\<close>, after the writes that precede it.
\<close>

section \<open>The owner budget\<close>

definition TRUST_REPLICATED_COLUMN_COUNT :: int where
  "TRUST_REPLICATED_COLUMN_COUNT = 7"

definition TRUST_OWNER_MUTATION_BUDGET :: int where
  "TRUST_OWNER_MUTATION_BUDGET = 20000"

definition owner_trust_mutations :: "nat list \<Rightarrow> int result" where
  "owner_trust_mutations counts =
     (if list_ex (\<lambda>c. c < 1) counts then Inl (ValueError ''owner inventory contains an invalid shard count'')
      else Inr (int (sum_list counts) * TRUST_REPLICATED_COLUMN_COUNT))"

definition require_owner_trust_budget :: "nat list \<Rightarrow> int result" where
  "require_owner_trust_budget counts =
     (case owner_trust_mutations counts of Inl e \<Rightarrow> Inl e
      | Inr mutations \<Rightarrow>
          if mutations > TRUST_OWNER_MUTATION_BUDGET then Inl OwnerTrustMutationBudgetExceeded else Inr mutations)"

text \<open>\<open>[self.credits[w].shard_count for w in ws]\<close>.\<close>

fun shard_counts :: "(string, credit_account) dict \<Rightarrow> string list \<Rightarrow> nat list result" where
  "shard_counts d [] = Inr []"
| "shard_counts d (w # ws) =
     (case dget d w of None \<Rightarrow> Inl (KeyError w)
      | Some a \<Rightarrow> (case shard_counts d ws of Inl e \<Rightarrow> Inl e | Inr cs \<Rightarrow> Inr (ca_shard_count a # cs)))"

definition owned_by :: "string \<Rightarrow> store \<Rightarrow> string list" where
  "owned_by owner s = map snd (filter (\<lambda>(o', _). o' = owner) (owner_workspaces s))"

definition shards_of :: "string \<Rightarrow> store \<Rightarrow> nat result" where
  "shards_of w s = (case dget (credits s) w of None \<Rightarrow> Inl (KeyError w) | Some a \<Rightarrow> Inr (ca_shard_count a))"

text \<open>The guard that every operation runs before a workspace with \<open>extra\<close> shards enters the
  inventory of an owner.\<close>

definition owner_admits :: "string \<Rightarrow> nat result \<Rightarrow> store \<Rightarrow> unit result" where
  "owner_admits owner extra s =
     (let owned = owned_by owner s
      in if length owned \<ge> max_workspaces_per_owner s then Inl WorkspaceOwnerLimitExceeded
         else case shard_counts (credits s) owned of Inl e \<Rightarrow> Inl e
              | Inr counts \<Rightarrow>
                  (case extra of Inl e \<Rightarrow> Inl e
                   | Inr c \<Rightarrow> (case require_owner_trust_budget (counts @ [c]) of Inl e \<Rightarrow> Inl e | Inr _ \<Rightarrow> Inr ())))"

definition put_user :: "string \<Rightarrow> (user \<Rightarrow> user) \<Rightarrow> store \<Rightarrow> store" where
  "put_user uid f s = (case dget (users s) uid of None \<Rightarrow> s | Some u \<Rightarrow> s\<lparr>users := dset uid (f u) (users s)\<rparr>)"

definition set_owner_count :: "int \<Rightarrow> user \<Rightarrow> user" where
  "set_owner_count n u = u\<lparr>us_owner_workspace_count := n\<rparr>"

definition drop_owner_count :: "user \<Rightarrow> user" where
  "drop_owner_count u = u\<lparr>us_owner_workspace_count := max 0 (us_owner_workspace_count u - 1)\<rparr>"

definition inventory_add :: "string \<Rightarrow> string \<Rightarrow> store \<Rightarrow> store" where
  "inventory_add owner w s = s\<lparr>owner_workspaces := set_add (owner, w) (owner_workspaces s)\<rparr>"

definition inventory_discard :: "string \<Rightarrow> string \<Rightarrow> store \<Rightarrow> store" where
  "inventory_discard owner w s = s\<lparr>owner_workspaces := filter (\<lambda>x. x \<noteq> (owner, w)) (owner_workspaces s)\<rparr>"

section \<open>Workspaces\<close>

definition new_member :: "string \<Rightarrow> string \<Rightarrow> string \<Rightarrow> instant \<Rightarrow> member" where
  "new_member w uid role now = \<lparr>mb_workspace_id = w, mb_user_id = uid, mb_role = role, mb_created_at = iso_now now\<rparr>"

definition provisioning_grant :: "instant \<Rightarrow> credit_provenance" where
  "provisioning_grant now = \<lparr>cp_source = ''provisioning'', cp_provider = ''system'', cp_external_ref = None, cp_occurred_at = now\<rparr>"

definition create_workspace :: "string \<Rightarrow> instant \<Rightarrow> string \<Rightarrow> string \<Rightarrow> microdollars option \<Rightarrow> workspace store_op" where
  "create_workspace wid now owner name trial s =
     (if (case dget (users s) owner of None \<Rightarrow> False | Some u \<Rightarrow> us_disabled u)
      then (Inl (ValueError ''account_closed''), s)
      else case owner_admits owner (Inr 1) s of Inl e \<Rightarrow> (Inl e, s)
      | Inr _ \<Rightarrow>
          (let w = new_workspace wid name owner (iso_now now);
               initial_total = (case trial of None \<Rightarrow> 0 | Some t \<Rightarrow> t);
               s1 = s\<lparr>workspaces := dset wid w (workspaces s),
                      members := dset (wid, owner) (new_member wid owner ''owner'' now) (members s),
                      credits := dset wid (new_credit_account wid) (credits s),
                      credit_money := dset wid (new_credit_money initial_total) (credit_money s)\<rparr>;
               s2 = put_user owner (set_owner_count (int (length (owned_by owner s)) + 1)) (inventory_add owner wid s1);
               s3 = s2\<lparr>credit_trust_shards := dset (wid, 0) new_trust_shard (credit_trust_shards s2)\<rparr>
           in if initial_total > 0
              then (let event_id = ''provisioning:'' @ wid
                    in case payment_or_grant_event wid event_id initial_total (provisioning_grant now) now None None of
                         Inl e \<Rightarrow> (Inl e, s3)
                       | Inr t \<Rightarrow> (Inr w, s3\<lparr>trust_events := dset (wid, event_id) t (trust_events s3)\<rparr>))
              else (Inr w, s3)))"

fun workspaces_at :: "(string, workspace) dict \<Rightarrow> string list \<Rightarrow> workspace list result" where
  "workspaces_at d [] = Inr []"
| "workspaces_at d (w # ws) =
     (case dget d w of None \<Rightarrow> Inl (KeyError w)
      | Some x \<Rightarrow> (case workspaces_at d ws of Inl e \<Rightarrow> Inl e
          | Inr xs \<Rightarrow> Inr (if ws_deleted x then xs else x # xs)))"

definition list_workspaces_for_user :: "string \<Rightarrow> store \<Rightarrow> workspace list result" where
  "list_workspaces_for_user uid s =
     workspaces_at (workspaces s) [fst k. (k, m) \<leftarrow> members s, snd k = uid \<and> mb_role m \<noteq> []]"

definition get_workspace :: "string \<Rightarrow> store \<Rightarrow> workspace option" where
  "get_workspace w s = (case dget (workspaces s) w of None \<Rightarrow> None | Some x \<Rightarrow> if ws_deleted x then None else Some x)"

definition put_workspace :: "string \<Rightarrow> workspace \<Rightarrow> store \<Rightarrow> store" where
  "put_workspace w x s = s\<lparr>workspaces := dset w x (workspaces s)\<rparr>"

text \<open>A loop over all shard rows of a workspace that exist.\<close>

definition each_shard :: "string \<Rightarrow> (trust_shard \<Rightarrow> trust_shard) \<Rightarrow> store \<Rightarrow> store" where
  "each_shard w f s = s\<lparr>credit_trust_shards :=
     map (\<lambda>(k, row). (k, if fst k = w then f row else row)) (credit_trust_shards s)\<rparr>"

text \<open>A loop over \<open>range(account.shard_count)\<close> that reads every row by its key.\<close>

fun for_shards :: "string \<Rightarrow> (trust_shard \<Rightarrow> trust_shard) \<Rightarrow> nat list \<Rightarrow> unit store_op" where
  "for_shards w f [] s = (Inr (), s)"
| "for_shards w f (i # js) s =
     (case dget (credit_trust_shards s) (w, i) of None \<Rightarrow> (Inl (KeyError w), s)
      | Some row \<Rightarrow> for_shards w f js (s\<lparr>credit_trust_shards := dset (w, i) (f row) (credit_trust_shards s)\<rparr>))"

record workspace_patch =
  wp_name :: "string option"
  wp_deleted :: "bool option"
  wp_billing_paused :: "bool option"
  wp_billing_pause_reason :: "string option"

definition latch_zero :: "instant \<Rightarrow> trust_shard \<Rightarrow> trust_shard" where
  "latch_zero now row = row\<lparr>sh_trust_tier := 0,
     sh_trust_latched_at := (case sh_trust_latched_at row of None \<Rightarrow> Some now | Some t \<Rightarrow> Some t)\<rparr>"

text \<open>The \<open>deleted\<close> argument: bringing a workspace back needs the owner's budget, deleting it leaves
  the inventory and latches the trust rows.\<close>

definition patch_deleted :: "instant \<Rightarrow> string \<Rightarrow> bool \<Rightarrow> workspace \<Rightarrow> unit store_op" where
  "patch_deleted now w deleted x s =
     (let owner = ws_owner_user_id x in
      if ws_deleted x \<and> \<not> deleted
      then (case owner_admits owner (shards_of (ws_id x) s) s of Inl e \<Rightarrow> (Inl e, s)
            | Inr _ \<Rightarrow> (Inr (), put_workspace w (x\<lparr>ws_deleted := deleted\<rparr>)
                (put_user owner (set_owner_count (int (length (owned_by owner s)) + 1)) (inventory_add owner (ws_id x) s))))
      else if \<not> ws_deleted x \<and> deleted
      then (Inr (), put_workspace w (x\<lparr>ws_deleted := deleted\<rparr>)
             (each_shard (ws_id x) (latch_zero now) (put_user owner drop_owner_count (inventory_discard owner (ws_id x) s))))
      else (Inr (), put_workspace w (x\<lparr>ws_deleted := deleted\<rparr>) s))"

definition patch_paused :: "bool option \<Rightarrow> string option \<Rightarrow> workspace \<Rightarrow> workspace" where
  "patch_paused paused reason x =
     (let x1 = (case paused of None \<Rightarrow> x
                | Some True \<Rightarrow> set_pause_causes (''migration'' # ws_billing_pause_causes x) x
                | Some False \<Rightarrow> set_pause_causes (filter (\<lambda>c. c \<noteq> ''migration'') (ws_billing_pause_causes x)) x)
      in case reason of None \<Rightarrow> x1 | Some r \<Rightarrow> x1\<lparr>ws_billing_pause_reason := r\<rparr>)"

definition update_workspace :: "instant \<Rightarrow> string \<Rightarrow> workspace_patch \<Rightarrow> workspace option store_op" where
  "update_workspace now w p s =
     (case dget (workspaces s) w of None \<Rightarrow> (Inr None, s)
      | Some x0 \<Rightarrow>
          (let x = (case wp_name p of None \<Rightarrow> x0 | Some n \<Rightarrow> x0\<lparr>ws_name := n\<rparr>); s1 = put_workspace w x s;
               (res, s2) = (case wp_deleted p of None \<Rightarrow> (Inr (), s1) | Some d \<Rightarrow> patch_deleted now w d x s1)
           in case res of Inl e \<Rightarrow> (Inl e, s2)
              | Inr _ \<Rightarrow>
                  (let y = patch_paused (wp_billing_paused p) (wp_billing_pause_reason p)
                         (case wp_deleted p of None \<Rightarrow> x | Some d \<Rightarrow> x\<lparr>ws_deleted := d\<rparr>)
                   in (Inr (Some y), put_workspace w y s2))))"

definition transfer_workspace_ownership :: "instant \<Rightarrow> string \<Rightarrow> string \<Rightarrow> workspace store_op" where
  "transfer_workspace_ownership now w new_owner s =
     (case get_workspace w s of None \<Rightarrow> (Inl (ValueError ''workspace_not_found''), s)
      | Some x \<Rightarrow>
          if new_owner = ws_owner_user_id x then (Inr x, s)
          else (case owner_admits new_owner (shards_of w s) s of Inl e \<Rightarrow> (Inl e, s)
            | Inr _ \<Rightarrow>
                (let old_owner = ws_owner_user_id x; y = x\<lparr>ws_owner_user_id := new_owner\<rparr>;
                     s1 = inventory_add new_owner w (inventory_discard old_owner w s);
                     members1 = (case dget (members s) (w, old_owner) of None \<Rightarrow> dpop (w, old_owner) (members s)
                       | Some m \<Rightarrow> dset (w, old_owner)
                           \<lparr>mb_workspace_id = w, mb_user_id = old_owner, mb_role = ''admin'', mb_created_at = mb_created_at m\<rparr>
                           (dpop (w, old_owner) (members s)));
                     s2 = put_workspace w y
                       (s1\<lparr>members := dset (w, new_owner) (new_member w new_owner ''owner'' now) members1\<rparr>)
                 in (Inr y, put_user new_owner (set_owner_count (int (length (owned_by new_owner s)) + 1))
                       (put_user old_owner drop_owner_count s2)))))"

section \<open>Trust overrides and abuse reports\<close>

definition workspace_account :: "string \<Rightarrow> store \<Rightarrow> (workspace \<times> credit_account) result" where
  "workspace_account w s =
     (case (get_workspace w s, dget (credits s) w) of
        (Some x, Some account) \<Rightarrow> Inr (x, account)
      | _ \<Rightarrow> Inl (ValueError ''workspace_not_found''))"

definition set_workspace_trust_override :: "instant \<Rightarrow> string \<Rightarrow> int \<Rightarrow> bool \<Rightarrow> string \<Rightarrow> string \<Rightarrow> trust_override store_op" where
  "set_workspace_trust_override now w tier bypass operator reason s =
     (if \<not> (0 \<le> tier \<and> tier \<le> 3) then (Inl (ValueError ''trust override tier must be between 0 and 3''), s)
      else if py_strip operator = [] \<or> py_strip reason = []
      then (Inl (ValueError ''operator identity and reason are required''), s)
      else case workspace_account w s of Inl e \<Rightarrow> (Inl e, s)
      | Inr (x, account) \<Rightarrow>
          (let record = \<lparr>to_workspace_id = w, to_tier = tier, to_identity_bypass = bypass,
                 to_operator_identity = py_strip operator, to_reason = py_strip reason, to_set_at = now\<rparr>;
               status = (case dget (users s) (ws_owner_user_id x) of None \<Rightarrow> ''none'' | Some u \<Rightarrow> us_identity_status u);
               events = [e. (k, e) \<leftarrow> trust_events s, fst k = w];
               restamp = (\<lambda>row. row\<lparr>sh_trust_override_tier := Some tier,
                 sh_trust_tier := td_effective_tier (compute_trust_tier (trust_policy s) events status
                   (sh_trust_latched_at row) (Some tier) now bypass),
                 sh_trust_computed_at := Some now\<rparr>)
           in case for_shards w restamp [0..<ca_shard_count account] s of
                (Inl e, s1) \<Rightarrow> (Inl e, s1)
              | (Inr _, s1) \<Rightarrow> (Inr record, s1\<lparr>trust_overrides := dset w record (trust_overrides s1)\<rparr>)))"

definition abuse_event :: "string \<Rightarrow> string \<Rightarrow> instant \<Rightarrow> trust_event" where
  "abuse_event w abuse_ref now = \<lparr>te_workspace_id = w, te_event_id = ''abuse:'' @ abuse_ref, te_kind = ''abuse'',
     te_provider = ''operator'', te_amount = Some 0, te_original_payment_ref = None, te_adverse_ref = Some abuse_ref,
     te_occurred_at = now, te_recorded_at = now, te_payment_amount = None, te_currency = None, te_credited = None,
     te_recovered = None, te_provider_subtype = Some ''operator'', te_lifecycle_status = Some ''succeeded'',
     te_cumulative_refunded = None, te_recovery_target = Some 0, te_debit_status = Some ''debited'',
     te_unrecovered = Some 0, te_watermark = None\<rparr>"

definition abuse_pause :: "instant \<Rightarrow> trust_shard \<Rightarrow> trust_shard" where
  "abuse_pause now row = (latch_zero now row)\<lparr>sh_billing_pause_causes := sorted_set (sh_billing_pause_causes row @ [''abuse'']),
     sh_pause_epoch := sh_pause_epoch row + 1\<rparr>"

definition record_workspace_abuse_and_demote :: "instant \<Rightarrow> string \<Rightarrow> string \<Rightarrow> string \<Rightarrow> string \<Rightarrow> bool store_op" where
  "record_workspace_abuse_and_demote now w abuse_ref operator reason s =
     (if py_strip abuse_ref = [] \<or> py_strip operator = [] \<or> py_strip reason = []
      then (Inl (ValueError ''abuse_ref, operator identity and reason are required''), s)
      else case List.find (\<lambda>e. te_provider e = ''operator'' \<and> te_adverse_ref e = Some abuse_ref) (dvals (trust_events s)) of
        Some e \<Rightarrow> if te_workspace_id e \<noteq> w \<or> te_kind e \<noteq> ''abuse'' then (Inl (ValueError ''abuse_ref_conflict''), s)
                  else (Inr False, s)
      | None \<Rightarrow>
          (case workspace_account w s of Inl e \<Rightarrow> (Inl e, s)
           | Inr (x, account) \<Rightarrow>
               (let event_id = ''abuse:'' @ abuse_ref;
                    audit = \<lparr>aa_workspace_id = w, aa_abuse_ref = abuse_ref, aa_operator_identity = py_strip operator,
                      aa_reason = py_strip reason, aa_recorded_at = now\<rparr>;
                    y = (set_pause_causes (ws_billing_pause_causes x @ [''abuse'']) x)\<lparr>ws_billing_pause_reason := py_strip reason\<rparr>;
                    s1 = put_workspace w y (s\<lparr>trust_events := dset (w, event_id) (abuse_event w abuse_ref now) (trust_events s),
                      trust_abuse_audits := dset (w, abuse_ref) audit (trust_abuse_audits s)\<rparr>)
                in case for_shards w (abuse_pause now) [0..<ca_shard_count account] s1 of
                     (Inl e, s2) \<Rightarrow> (Inl e, s2) | (Inr _, s2) \<Rightarrow> (Inr True, s2))))"

definition abuse_clear :: "trust_shard \<Rightarrow> trust_shard" where
  "abuse_clear row =
     (let causes = sorted_set (filter (\<lambda>c. c \<noteq> ''abuse'') (sh_billing_pause_causes row))
      in row\<lparr>sh_pause_epoch := (if causes \<noteq> sh_billing_pause_causes row then sh_pause_epoch row + 1 else sh_pause_epoch row),
             sh_billing_pause_causes := causes\<rparr>)"

definition clear_workspace_abuse_pause :: "string \<Rightarrow> string \<Rightarrow> string \<Rightarrow> string \<Rightarrow> bool store_op" where
  "clear_workspace_abuse_pause w abuse_ref operator reason s =
     (if py_strip abuse_ref = [] \<or> py_strip operator = [] \<or> py_strip reason = []
      then (Inl (ValueError ''abuse_ref, operator identity and reason are required''), s)
      else if (w, abuse_ref) \<in> abuse_pause_clears s then (Inr False, s)
      else case workspace_account w s of Inl e \<Rightarrow> (Inl e, s)
      | Inr (x, account) \<Rightarrow>
          (let y = (set_pause_causes (filter (\<lambda>c. c \<noteq> ''abuse'') (ws_billing_pause_causes x)) x)
                 \<lparr>ws_billing_pause_reason := py_strip reason\<rparr>;
               s1 = put_workspace w y (s\<lparr>abuse_pause_clears := insert (w, abuse_ref) (abuse_pause_clears s)\<rparr>)
           in case for_shards w abuse_clear [0..<ca_shard_count account] s1 of
                (Inl e, s2) \<Rightarrow> (Inl e, s2) | (Inr _, s2) \<Rightarrow> (Inr True, s2)))"

section \<open>The inventory\<close>

definition expected_inventory :: "store \<Rightarrow> (string \<times> string) list" where
  "expected_inventory s = remdups [(ws_owner_user_id x, ws_id x). (k, x) \<leftarrow> workspaces s,
     \<not> ws_deleted x \<and> ws_federated_home x = []]"

definition owner_inventory_marker :: "string \<Rightarrow> string \<Rightarrow> instant \<Rightarrow> backfill_marker" where
  "owner_inventory_marker environment source_version now = \<lparr>bm_provider = ''owner_inventory'', bm_account_id = ''local'',
     bm_environment = environment, bm_source = ''tr_entities.workspace'', bm_source_version = source_version,
     bm_history_start = now, bm_closed_through = now, bm_consistency_delay_seconds = 0, bm_unmatched_count = 0,
     bm_semantic_mismatch_count = 0, bm_completed_at = Some now\<rparr>"

definition backfill_owner_inventory :: "instant \<Rightarrow> string \<Rightarrow> string \<Rightarrow> nat store_op" where
  "backfill_owner_inventory now source_version_arg environment_arg s =
     (let source_version = py_strip source_version_arg; environment = py_strip environment_arg in
      if source_version = [] \<or> environment = [] then (Inl (ValueError ''source_version and environment are required''), s)
      else
        (let expected = expected_inventory s;
             changed = length (filter (\<lambda>p. p \<notin> set expected) (owner_workspaces s)) +
               length (filter (\<lambda>p. p \<notin> set (owner_workspaces s)) expected);
             marker = owner_inventory_marker environment source_version now
         in (Inr changed, s\<lparr>owner_workspaces := expected,
              users := map (\<lambda>(k, u). (k, set_owner_count (int (length (filter (\<lambda>(o', _). o' = us_id u) expected))) u)) (users s),
              trust_backfills := dset (''owner_inventory'', ''local'', environment, ''tr_entities.workspace'', source_version)
                marker (trust_backfills s)\<rparr>)))"

section \<open>Users\<close>

definition normalize_email :: "string \<Rightarrow> string" where
  "normalize_email value =
     (let normalized = py_lower (py_strip value)
      in if CHR ''@'' \<in> set normalized then normalized else normalized @ ''@trustedrouter.local'')"

text \<open>The random ids a call draws: the user's and its workspace's.\<close>

definition ensure_user :: "string \<Rightarrow> string \<Rightarrow> instant \<Rightarrow> string \<Rightarrow> string option \<Rightarrow> microdollars option \<Rightarrow> bool \<Rightarrow>
    string option \<Rightarrow> user store_op" where
  "ensure_user new_id new_wid now user_id email trial verified issuer s =
     (if (case issuer of None \<Rightarrow> False | Some i \<Rightarrow> py_strip i = [] \<or> trial \<noteq> Some 150000)
      then (Inl (ValueError ''social rewards enrollment requires the 150000 signup grant''), s)
      else
        (let normalized = normalize_email (if ostr email = [] then user_id else ostr email) in
         case dget (user_ids_by_email s) normalized of
           Some existing \<Rightarrow> (case dget (users s) existing of None \<Rightarrow> (Inl (KeyError existing), s) | Some u \<Rightarrow> (Inr u, s))
         | None \<Rightarrow>
             (let s1 = s\<lparr>users := dset new_id (new_user new_id (Some normalized) verified None (iso_now now)) (users s),
                    user_ids_by_email := dset normalized new_id (user_ids_by_email s)\<rparr>
              in case create_workspace new_wid now new_id ''Personal Workspace'' trial s1 of
                   (Inl e, s2) \<Rightarrow> (Inl e, s2)
                 | (Inr w, s2) \<Rightarrow>
                     (let s3 = (case issuer of None \<Rightarrow> s2
                            | Some i \<Rightarrow> s2\<lparr>social_reward_enrollments := dset new_id
                                \<lparr>se_user_id = new_id, se_workspace_id = ws_id w, se_issuer = i, se_dismissed = False,
                                 se_first_call_complete = False\<rparr> (social_reward_enrollments s2)\<rparr>)
                      in case dget (users s3) new_id of None \<Rightarrow> (Inl (KeyError new_id), s3) | Some u \<Rightarrow> (Inr u, s3)))))"

definition create_wallet_user :: "string \<Rightarrow> string \<Rightarrow> instant \<Rightarrow> string \<Rightarrow> user store_op" where
  "create_wallet_user new_id new_wid now address s =
     (let normalized = py_lower (py_strip address) in
      case dget (user_ids_by_wallet s) normalized of
        Some existing \<Rightarrow> (case dget (users s) existing of None \<Rightarrow> (Inl (KeyError existing), s) | Some u \<Rightarrow> (Inr u, s))
      | None \<Rightarrow>
          (let s1 = s\<lparr>users := dset new_id (new_user new_id None False (Some normalized) (iso_now now)) (users s),
                 user_ids_by_wallet := dset normalized new_id (user_ids_by_wallet s)\<rparr>
           in case create_workspace new_wid now new_id ''Personal Workspace'' (Some 0) s1 of
                (Inl e, s2) \<Rightarrow> (Inl e, s2)
              | (Inr _, s2) \<Rightarrow> (case dget (users s2) new_id of None \<Rightarrow> (Inl (KeyError new_id), s2) | Some u \<Rightarrow> (Inr u, s2))))"

definition find_user_by_email :: "string \<Rightarrow> store \<Rightarrow> user option" where
  "find_user_by_email email s =
     (case dget (user_ids_by_email s) (normalize_email email) of None \<Rightarrow> None | Some uid \<Rightarrow> dget (users s) uid)"

definition find_user_by_wallet :: "string \<Rightarrow> store \<Rightarrow> user option" where
  "find_user_by_wallet address s =
     (case dget (user_ids_by_wallet s) (py_lower (py_strip address)) of None \<Rightarrow> None | Some uid \<Rightarrow> dget (users s) uid)"

definition set_user_email :: "string \<Rightarrow> string \<Rightarrow> store \<Rightarrow> user option \<times> store" where
  "set_user_email uid email s =
     (let normalized = normalize_email email in
      if (case dget (user_ids_by_email s) normalized of None \<Rightarrow> False | Some e \<Rightarrow> e \<noteq> uid) then (None, s)
      else case dget (users s) uid of None \<Rightarrow> (None, s)
      | Some u \<Rightarrow>
          (let previous = (if ostr (us_email u) = [] then None else Some (normalize_email (ostr (us_email u))));
               index = (case previous of None \<Rightarrow> user_ids_by_email s | Some p \<Rightarrow> dpop p (user_ids_by_email s));
               u1 = u\<lparr>us_email := Some normalized,
                 us_email_verified := (if previous \<noteq> Some normalized then False else us_email_verified u)\<rparr>
           in (Some u1, s\<lparr>users := dset uid u1 (users s), user_ids_by_email := dset normalized uid index\<rparr>)))"

definition mark_user_email_verified :: "string \<Rightarrow> store \<Rightarrow> user option \<times> store" where
  "mark_user_email_verified uid s =
     (case dget (users s) uid of None \<Rightarrow> (None, s)
      | Some u \<Rightarrow> (let u1 = u\<lparr>us_email_verified := True\<rparr> in (Some u1, s\<lparr>users := dset uid u1 (users s)\<rparr>)))"

definition resolve_user_identifier :: "string \<Rightarrow> store \<Rightarrow> string option" where
  "resolve_user_identifier i s =
     (if dget (users s) i \<noteq> None then Some i else dget (user_ids_by_email s) (normalize_email i))"

section \<open>Members\<close>

text \<open>\<open>ids\<close> lists the random ids drawn for each e-mail.\<close>

fun add_members :: "instant \<Rightarrow> string \<Rightarrow> string \<Rightarrow> (string \<times> string \<times> string) list \<Rightarrow> member list store_op" where
  "add_members now w role [] s = (Inr [], s)"
| "add_members now w role ((email, new_id, new_wid) # rest) s =
     (case ensure_user new_id new_wid now email None None False None s of (Inl e, s1) \<Rightarrow> (Inl e, s1)
      | (Inr u, s1) \<Rightarrow>
          (let m = new_member w (us_id u) role now
           in case add_members now w role rest (s1\<lparr>members := dset (w, us_id u) m (members s1)\<rparr>) of
                (Inl e, s2) \<Rightarrow> (Inl e, s2) | (Inr ms, s2) \<Rightarrow> (Inr (m # ms), s2)))"

definition remove_member :: "string \<Rightarrow> string \<Rightarrow> store \<Rightarrow> store" where
  "remove_member w identifier s =
     (case resolve_user_identifier identifier s of None \<Rightarrow> s | Some uid \<Rightarrow> s\<lparr>members := dpop (w, uid) (members s)\<rparr>)"

definition remove_members :: "string \<Rightarrow> string list \<Rightarrow> store \<Rightarrow> store" where
  "remove_members w identifiers s = fold (remove_member w) identifiers s"

definition list_members :: "string \<Rightarrow> store \<Rightarrow> member list" where
  "list_members w s = [m. (k, m) \<leftarrow> members s, fst k = w]"

definition user_can_manage :: "string \<Rightarrow> string \<Rightarrow> store \<Rightarrow> bool" where
  "user_can_manage uid w s =
     (case dget (members s) (w, uid) of None \<Rightarrow> False | Some m \<Rightarrow> mb_role m \<in> {''owner'', ''admin''})"

definition user_is_member :: "string \<Rightarrow> string \<Rightarrow> store \<Rightarrow> bool" where
  "user_is_member uid w s \<longleftrightarrow> dget (members s) (w, uid) \<noteq> None"

section \<open>Closing an account\<close>

definition MAX_WORKSPACES :: nat where
  "MAX_WORKSPACES = 16"

definition MAX_KEYS :: nat where
  "MAX_KEYS = 128"

type_synonym closure_plan = "(workspace \<times> credit_account \<times> api_key list) list"

text \<open>\<open>AccountClosureBlocked\<close> is a \<open>ValueError\<close> that carries \<open>assisted\<close> or \<open>shared\<close>.\<close>

fun closure_steps :: "store \<Rightarrow> user \<Rightarrow> nat \<Rightarrow> string list \<Rightarrow> closure_plan result" where
  "closure_steps s u key_count [] = Inr []"
| "closure_steps s u key_count (w # rest) =
     (case (dget (workspaces s) w, dget (credits s) w) of
        (Some x, Some credit) \<Rightarrow>
          if ws_deleted x \<or> ws_owner_user_id x \<noteq> us_id u then Inl (ValueError ''assisted'')
          else if list_ex (\<lambda>m. mb_user_id m \<noteq> us_id u) (list_members w s) then Inl (ValueError ''shared'')
          else
            (let ks = list_for_workspace w s; n = key_count + length ks
             in if n > MAX_KEYS \<or> list_ex (\<lambda>k. ak_workspace_id k \<noteq> w) ks then Inl (ValueError ''assisted'')
                else case closure_steps s u n rest of Inl e \<Rightarrow> Inl e | Inr plan \<Rightarrow> Inr ((x, credit, ks) # plan))
      | _ \<Rightarrow> Inl (ValueError ''assisted''))"

definition closure_validate :: "store \<Rightarrow> user \<Rightarrow> string list \<Rightarrow> member list \<Rightarrow> closure_plan result" where
  "closure_validate s u owned memberships =
     (if length owned > MAX_WORKSPACES \<or> length memberships > MAX_WORKSPACES then Inl (ValueError ''assisted'')
      else if list_ex (\<lambda>m. case dget (workspaces s) (mb_workspace_id m) of None \<Rightarrow> False
             | Some x \<Rightarrow> \<not> ws_deleted x \<and> ws_owner_user_id x \<noteq> us_id u) memberships
      then Inl (ValueError ''shared'')
      else if int (length owned) \<noteq> us_owner_workspace_count u then Inl (ValueError ''assisted'')
      else closure_steps s u 0 owned)"

definition delete_patch :: workspace_patch where
  "delete_patch = \<lparr>wp_name = None, wp_deleted = Some True, wp_billing_paused = None, wp_billing_pause_reason = None\<rparr>"

definition disable_key :: "instant \<Rightarrow> api_key \<Rightarrow> api_key" where
  "disable_key now k = k\<lparr>ak_disabled := True, ak_updated_at := Some (iso_now now)\<rparr>"

definition close_step :: "instant \<Rightarrow> workspace \<times> credit_account \<times> api_key list \<Rightarrow> store \<Rightarrow> store" where
  "close_step now = (\<lambda>(x, credit, ks) s.
     (let s1 = snd (update_workspace now (ws_id x) delete_patch s)
      in s1\<lparr>credits := dset (ws_id x) (credit\<lparr>ca_auto_refill_enabled := False\<rparr>) (credits s1),
            keys := fold (\<lambda>k. dset (ak_hash k) (disable_key now k)) ks (keys s1)\<rparr>))"

definition closed_user :: "instant \<Rightarrow> user \<Rightarrow> user" where
  "closed_user now u = u\<lparr>us_disabled := True, us_account_closed_at := Some (iso_now now), us_owner_workspace_count := 0\<rparr>"

definition close_user_account :: "instant \<Rightarrow> string \<Rightarrow> user option store_op" where
  "close_user_account now uid s =
     (case dget (users s) uid of None \<Rightarrow> (Inr None, s)
      | Some u \<Rightarrow>
          if us_account_closed_at u \<noteq> None then (Inr (Some u), s)
          else (case closure_validate s u (sort (owned_by uid s)) (filter (\<lambda>m. mb_user_id m = uid) (dvals (members s))) of
                  Inl e \<Rightarrow> (Inl e, s)
                | Inr plan \<Rightarrow>
                    (let u1 = closed_user now u; s1 = fold (close_step now) plan s
                     in (Inr (Some u1), s1\<lparr>users := dset (us_id u) u1 (users s1)\<rparr>))))"

end
