(* ===== verification/Workspace_Inventory.thy ===== *)
theory Workspace_Inventory
  imports Workspaces
begin

text \<open>
  What the operations on workspaces and users guarantee: the inventory of the owners is exact and
  within its bounds after any sequence of operations, an abuse report pauses and latches a
  workspace, and closing an account leaves nothing of it usable.
\<close>

declare map_of_eq_Some_iff [simp del]

lemma put_user_get: "dget (users (put_user o' f s)) uid = (if uid = o' then map_option f (dget (users s) o') else dget (users s) uid)"
  by (auto simp: put_user_def split: option.split)

section \<open>The invariant of the inventory\<close>

lemma new_workspace_fields [simp]:
  "ws_id (new_workspace wid name owner now) = wid" "ws_owner_user_id (new_workspace wid name owner now) = owner"
  "\<not> ws_deleted (new_workspace wid name owner now)" "pause_coherent (new_workspace wid name owner now)"
  "ws_federated_home (new_workspace wid name owner now) = []"
  by (simp_all add: new_workspace_def) (simp_all add: workspace_post_init_def Let_def)

definition shards_in :: "store \<Rightarrow> string \<Rightarrow> nat" where
  "shards_in s w = (case dget (credits s) w of None \<Rightarrow> 0 | Some a \<Rightarrow> ca_shard_count a)"

text \<open>The owner's trust rows as a number of column writes.\<close>

definition owner_cost :: "string \<Rightarrow> store \<Rightarrow> int" where
  "owner_cost owner s = int (sum_list (map (shards_in s) (owned_by owner s))) * TRUST_REPLICATED_COLUMN_COUNT"

definition owner_within :: "string \<Rightarrow> store \<Rightarrow> bool" where
  "owner_within owner s \<longleftrightarrow> length (owned_by owner s) \<le> max_workspaces_per_owner s \<and>
     owner_cost owner s \<le> TRUST_OWNER_MUTATION_BUDGET \<and> (\<forall>w \<in> set (owned_by owner s). 1 \<le> shards_in s w)"

text \<open>\<open>W\<close>: workspaces that an operation has taken out of the inventory and not yet put back.\<close>

definition inventory_ok :: "string set \<Rightarrow> store \<Rightarrow> bool" where
  "inventory_ok W s \<longleftrightarrow> distinct (owner_workspaces s) \<and> distinct (map fst (workspaces s)) \<and>
     (\<forall>owner w. (owner, w) \<in> set (owner_workspaces s) \<longrightarrow>
        (\<exists>x. dget (workspaces s) w = Some x \<and> \<not> ws_deleted x \<and> ws_owner_user_id x = owner \<and> ws_federated_home x = [])) \<and>
     (\<forall>w x. dget (workspaces s) w = Some x \<longrightarrow> ws_id x = w \<and> pause_coherent x \<and>
        (w \<notin> W \<and> \<not> ws_deleted x \<and> ws_federated_home x = [] \<longrightarrow> (ws_owner_user_id x, w) \<in> set (owner_workspaces s))) \<and>
     (\<forall>uid u. dget (users s) uid = Some u \<longrightarrow> us_id u = uid \<and> us_owner_workspace_count u = int (length (owned_by uid s))) \<and>
     (\<forall>owner. owner_within owner s)"

lemma set_owned_by: "set (owned_by owner s) = {w. (owner, w) \<in> set (owner_workspaces s)}"
  by (force simp: owned_by_def)

lemma distinct_owned_by: "distinct (owner_workspaces s) \<Longrightarrow> distinct (owned_by owner s)"
  by (auto simp: owned_by_def distinct_map inj_on_def)

lemma inventory_okD:
  assumes "inventory_ok W s"
  shows "distinct (owner_workspaces s)" "distinct (map fst (workspaces s))"
    "(owner, w) \<in> set (owner_workspaces s) \<Longrightarrow> \<exists>x. dget (workspaces s) w = Some x \<and> \<not> ws_deleted x \<and> ws_owner_user_id x = owner \<and> ws_federated_home x = []"
    "dget (workspaces s) w = Some x \<Longrightarrow> ws_id x = w \<and> pause_coherent x"
    "dget (workspaces s) w = Some x \<Longrightarrow> w \<notin> W \<Longrightarrow> \<not> ws_deleted x \<Longrightarrow> ws_federated_home x = [] \<Longrightarrow>
       (ws_owner_user_id x, w) \<in> set (owner_workspaces s)"
    "dget (users s) uid = Some u \<Longrightarrow> us_id u = uid \<and> us_owner_workspace_count u = int (length (owned_by uid s))"
    "owner_within owner s"
  using assms unfolding inventory_ok_def by blast+

lemma inventory_weaken: "inventory_ok W s \<Longrightarrow> W \<subseteq> W' \<Longrightarrow> inventory_ok W' s"
  unfolding inventory_ok_def by blast

text \<open>What the invariant reads.\<close>

definition inventory_view :: "store \<Rightarrow> nat \<times> (string \<times> string) list \<times> (string, workspace) dict \<times> (string, user) dict \<times> (string, credit_account) dict" where
  "inventory_view s = (max_workspaces_per_owner s, owner_workspaces s, workspaces s, users s, credits s)"

lemma owned_by_cong: "owner_workspaces s' = owner_workspaces s \<Longrightarrow> owned_by owner s' = owned_by owner s"
  by (simp add: owned_by_def)

lemma owner_within_cong:
  assumes "owned_by owner s' = owned_by owner s" "max_workspaces_per_owner s' = max_workspaces_per_owner s"
    and "\<And>w. w \<in> set (owned_by owner s) \<Longrightarrow> shards_in s' w = shards_in s w"
  shows "owner_within owner s' = owner_within owner s"
proof -
  have m: "map (shards_in s') (owned_by owner s) = map (shards_in s) (owned_by owner s)" using assms(3) by simp
  show ?thesis unfolding owner_within_def owner_cost_def assms(1,2) m using assms(3) by auto
qed

lemma inventory_view_ok:
  assumes "inventory_view s' = inventory_view s" "inventory_ok W s"
  shows "inventory_ok W s'"
proof -
  have e: "owner_workspaces s' = owner_workspaces s" "workspaces s' = workspaces s" "users s' = users s"
    "max_workspaces_per_owner s' = max_workspaces_per_owner s" "credits s' = credits s"
    using assms(1) by (simp_all add: inventory_view_def)
  have "owned_by owner s' = owned_by owner s" "owner_within owner s' = owner_within owner s" for owner
    using owned_by_cong [OF e(1)] owner_within_cong [OF owned_by_cong [OF e(1)] e(4)] by (simp_all add: shards_in_def e(5))
  then show ?thesis using assms(2) unfolding inventory_ok_def e(1-3) by simp
qed

subsection \<open>Leaving the inventory\<close>

lemma length_filter_neq: "distinct xs \<Longrightarrow> x \<in> set xs \<Longrightarrow> length (filter (\<lambda>y. y \<noteq> x) xs) = length xs - 1"
proof -
  assume x: "distinct xs" "x \<in> set xs"
  have "filter (\<lambda>y. y \<noteq> x) xs = remove1 x xs"
    unfolding distinct_remove1_removeAll [OF x(1)] removeAll_filter_not_eq by (rule filter_cong) auto
  then show ?thesis using x(2) by (simp add: length_remove1)
qed

lemma sum_list_filter_le: "sum_list (map f (filter P xs)) \<le> (sum_list (map f xs) :: nat)"
  by (induction xs) auto

lemma owned_by_discard:
  "owner_workspaces s' = filter (\<lambda>p. p \<noteq> (owner, w)) (owner_workspaces s) \<Longrightarrow>
   owned_by o' s' = (if o' = owner then filter (\<lambda>y. y \<noteq> w) (owned_by owner s) else owned_by o' s)"
proof -
  have "map snd (filter (\<lambda>(k, _). k = o') (filter (\<lambda>p. p \<noteq> (owner, w)) xs)) =
      (if o' = owner then filter (\<lambda>y. y \<noteq> w) (map snd (filter (\<lambda>(k, _). k = owner) xs)) else map snd (filter (\<lambda>(k, _). k = o') xs))"
    for xs :: "(string \<times> string) list" by (induction xs) auto
  then show "owner_workspaces s' = filter (\<lambda>p. p \<noteq> (owner, w)) (owner_workspaces s) \<Longrightarrow> ?thesis" by (simp add: owned_by_def)
qed

lemma owner_within_filter:
  assumes "owner_within owner s" "owned_by owner s' = filter P (owned_by owner s)"
    and "max_workspaces_per_owner s' = max_workspaces_per_owner s" "credits s' = credits s"
  shows "owner_within owner s'"
proof -
  have "shards_in s' = shards_in s" using assms(4) by (simp add: shards_in_def fun_eq_iff)
  then have "owner_cost owner s' \<le> owner_cost owner s"
    using sum_list_filter_le [of "shards_in s" P "owned_by owner s"] by (simp add: owner_cost_def assms(2) TRUST_REPLICATED_COLUMN_COUNT_def)
  then show ?thesis
    using assms \<open>shards_in s' = shards_in s\<close> length_filter_le [of P "owned_by owner s"]
    by (auto simp: owner_within_def simp del: length_filter_le)
qed

lemma leave_inventory:
  assumes ok: "inventory_ok {} s" and x: "dget (workspaces s) w = Some x" "\<not> ws_deleted x" "(ws_owner_user_id x, w) \<in> set (owner_workspaces s)"
    and s': "owner_workspaces s' = filter (\<lambda>p. p \<noteq> (ws_owner_user_id x, w)) (owner_workspaces s)"
      "workspaces s' = workspaces s" "credits s' = credits s" "max_workspaces_per_owner s' = max_workspaces_per_owner s"
      "users s' = users (put_user (ws_owner_user_id x) drop_owner_count s)"
  shows "inventory_ok {w} s' \<and> (\<forall>owner. (owner, w) \<notin> set (owner_workspaces s'))"
proof -
  let ?o = "ws_owner_user_id x"
  have gone: "(owner, w) \<notin> set (owner_workspaces s')" for owner
    using inventory_okD(3) [OF ok, of owner w] x by (auto simp: s'(1))
  have len: "length (owned_by ?o s') = length (owned_by ?o s) - 1" "w \<in> set (owned_by ?o s)"
    using length_filter_neq [OF distinct_owned_by [OF inventory_okD(1) [OF ok]], of w ?o] x(3)
    by (simp_all add: owned_by_discard [OF s'(1)] set_owned_by)
  show ?thesis
  proof (intro conjI allI)
    show "inventory_ok {w} s'"
      unfolding inventory_ok_def
    proof (intro conjI allI impI)
      show "distinct (owner_workspaces s')" "distinct (map fst (workspaces s'))"
        using inventory_okD(1,2) [OF ok] by (simp_all add: s')
      show "\<exists>y. dget (workspaces s') v = Some y \<and> \<not> ws_deleted y \<and> ws_owner_user_id y = owner \<and> ws_federated_home y = []"
        if "(owner, v) \<in> set (owner_workspaces s')" for owner v
        using inventory_okD(3) [OF ok, of owner v] that by (simp add: s')
      show "ws_id y = v" "pause_coherent y" if "dget (workspaces s') v = Some y" for v y
        using inventory_okD(4) [OF ok] that by (simp_all add: s')
      show "(ws_owner_user_id y, v) \<in> set (owner_workspaces s')"
        if "dget (workspaces s') v = Some y" "v \<notin> {w} \<and> \<not> ws_deleted y \<and> ws_federated_home y = []" for v y
        using inventory_okD(5) [OF ok, of v y] that by (auto simp: s')
      show "us_id u = uid" "us_owner_workspace_count u = int (length (owned_by uid s'))" if u: "dget (users s') uid = Some u" for uid u
      proof -
        obtain u0 where u0: "dget (users s) uid = Some u0" "u = (if uid = ?o then drop_owner_count u0 else u0)"
          using u by (auto simp: s'(5) put_user_get split: if_splits)
        have "0 < length (owned_by ?o s)" using len(2) by auto
        then have n: "int (length (owned_by ?o s) - Suc 0) = int (length (owned_by ?o s)) - 1" by linarith
        show "us_id u = uid" "us_owner_workspace_count u = int (length (owned_by uid s'))"
          using inventory_okD(6) [OF ok u0(1)] u0(2) len n
          by (auto simp: drop_owner_count_def owned_by_discard [OF s'(1)])
      qed
      show "owner_within owner s'" for owner
      proof (cases "owner = ?o")
        case True
        then show ?thesis
          using owner_within_filter [OF inventory_okD(7) [OF ok] _ s'(4,3)] by (simp add: owned_by_discard [OF s'(1)])
      next
        case False
        then show ?thesis
          using inventory_okD(7) [OF ok, of owner] owner_within_cong [of owner s' s]
          by (simp add: owned_by_discard [OF s'(1)] s' shards_in_def)
      qed
    qed
    show "(owner, w) \<notin> set (owner_workspaces s')" for owner by (rule gone)
  qed
qed

text \<open>A workspace that is marked deleted belongs outside.\<close>

lemma deleted_ok:
  assumes ok: "inventory_ok {w} s" and free: "\<And>owner. (owner, w) \<notin> set (owner_workspaces s)"
    and y: "ws_id y = w \<and> pause_coherent y \<and> ws_deleted y" and x: "dget (workspaces s) w = Some x" and s': "s' = put_workspace w y s"
  shows "inventory_ok {} s'"
proof -
  have o: "owned_by owner s' = owned_by owner s" "owner_within owner s' = owner_within owner s" for owner
    using owner_within_cong [of owner s' s] by (simp_all add: s' put_workspace_def owned_by_def shards_in_def)
  show ?thesis
    unfolding inventory_ok_def o
  proof (intro conjI allI impI)
    show "distinct (owner_workspaces s')" "distinct (map fst (workspaces s'))"
      using inventory_okD(1,2) [OF ok] by (simp_all add: s' put_workspace_def distinct_update)
    show "\<exists>z. dget (workspaces s') v = Some z \<and> \<not> ws_deleted z \<and> ws_owner_user_id z = owner \<and> ws_federated_home z = []"
      if "(owner, v) \<in> set (owner_workspaces s')" for owner v
      using inventory_okD(3) [OF ok, of owner v] that free [of owner] by (auto simp: s' put_workspace_def)
    show "ws_id z = v" "pause_coherent z" if "dget (workspaces s') v = Some z" for v z
      using inventory_okD(4) [OF ok, of v] that y by (auto simp: s' put_workspace_def split: if_splits)
    show "(ws_owner_user_id z, v) \<in> set (owner_workspaces s')"
      if "dget (workspaces s') v = Some z" "v \<notin> {} \<and> \<not> ws_deleted z \<and> ws_federated_home z = []" for v z
      using inventory_okD(5) [OF ok, of v] that y by (auto simp: s' put_workspace_def split: if_splits)
    show "us_id u = uid" "us_owner_workspace_count u = int (length (owned_by uid s))" if "dget (users s') uid = Some u" for uid u
      using inventory_okD(6) [OF ok, of uid u] that by (simp_all add: s' put_workspace_def)
    show "owner_within owner s" for owner by (rule inventory_okD(7) [OF ok])
  qed
qed

subsection \<open>Entering the inventory\<close>

lemma shard_counts_ok: "shard_counts (credits s) ws = Inr cs \<Longrightarrow> cs = map (shards_in s) ws"
  by (induction ws arbitrary: cs) (auto simp: shards_in_def split: option.splits sum.splits)

lemma owner_admits_ok:
  assumes "owner_admits owner extra s = Inr v"
  obtains c where "extra = Inr c" "1 \<le> c" "length (owned_by owner s) < max_workspaces_per_owner s"
    "int (sum_list (map (shards_in s) (owned_by owner s)) + c) * TRUST_REPLICATED_COLUMN_COUNT \<le> TRUST_OWNER_MUTATION_BUDGET"
proof -
  obtain cs where cs: "shard_counts (credits s) (owned_by owner s) = Inr cs" "length (owned_by owner s) < max_workspaces_per_owner s"
    using assms by (auto simp: owner_admits_def Let_def split: if_splits sum.splits)
  obtain c where c: "extra = Inr c" using assms cs by (auto simp: owner_admits_def Let_def split: if_splits sum.splits)
  obtain m where "require_owner_trust_budget (cs @ [c]) = Inr m"
    using assms cs c by (auto simp: owner_admits_def Let_def split: sum.splits)
  then have "1 \<le> c" "int (sum_list cs + c) * TRUST_REPLICATED_COLUMN_COUNT \<le> TRUST_OWNER_MUTATION_BUDGET"
    by (auto simp: require_owner_trust_budget_def owner_trust_mutations_def split: if_splits)
  then show thesis using that c cs(2) shard_counts_ok [OF cs(1)] by simp
qed

lemma enter_inventory:
  assumes ok: "inventory_ok {w} s" and admits: "owner_admits owner extra s = Inr v" and extra: "extra = Inr (shards_in s' w)"
    and free: "\<And>o'. (o', w) \<notin> set (owner_workspaces s)"
    and x: "ws_id x = w" "\<not> ws_deleted x" "ws_owner_user_id x = owner" "pause_coherent x" "ws_federated_home x = []"
    and s': "owner_workspaces s' = set_add (owner, w) (owner_workspaces s)" "workspaces s' = dset w x (workspaces s)"
      "\<And>v. v \<noteq> w \<Longrightarrow> dget (credits s') v = dget (credits s) v" "max_workspaces_per_owner s' = max_workspaces_per_owner s"
      "users s' = users (put_user owner (set_owner_count (int (length (owned_by owner s)) + 1)) s)"
  shows "inventory_ok {} s'"
proof -
  obtain c where c: "extra = Inr c" "1 \<le> c" "length (owned_by owner s) < max_workspaces_per_owner s"
    "int (sum_list (map (shards_in s) (owned_by owner s)) + c) * TRUST_REPLICATED_COLUMN_COUNT \<le> TRUST_OWNER_MUTATION_BUDGET"
    by (rule owner_admits_ok [OF admits])
  have inv: "owner_workspaces s' = owner_workspaces s @ [(owner, w)]" using free by (simp add: s'(1) set_add_def)
  have owned: "owned_by o' s' = (if o' = owner then owned_by owner s @ [w] else owned_by o' s)" for o'
    by (simp add: owned_by_def inv)
  have w: "w \<notin> set (owned_by o' s)" for o' using free by (simp add: set_owned_by)
  have shards: "shards_in s' v = shards_in s v" if "v \<noteq> w" for v using s'(3) [OF that] by (simp add: shards_in_def)
  have map_shards: "map (shards_in s') (owned_by o' s) = map (shards_in s) (owned_by o' s)" for o'
    using w [of o'] by (intro map_cong refl shards) auto
  show ?thesis
    unfolding inventory_ok_def
  proof (intro conjI allI impI)
    show "distinct (owner_workspaces s')" using inventory_okD(1) [OF ok] free by (simp add: inv)
    show "distinct (map fst (workspaces s'))" using inventory_okD(2) [OF ok] by (simp add: s'(2) distinct_update)
    show "\<exists>y. dget (workspaces s') v = Some y \<and> \<not> ws_deleted y \<and> ws_owner_user_id y = o' \<and> ws_federated_home y = []"
      if "(o', v) \<in> set (owner_workspaces s')" for o' v
      using inventory_okD(3) [OF ok, of o' v] that free [of o'] x by (auto simp: inv s'(2))
    show "ws_id y = v" "pause_coherent y" if "dget (workspaces s') v = Some y" for v y
      using inventory_okD(4) [OF ok, of v y] that x by (auto simp: s'(2) split: if_splits)
    show "(ws_owner_user_id y, v) \<in> set (owner_workspaces s')"
      if "dget (workspaces s') v = Some y" "v \<notin> {} \<and> \<not> ws_deleted y \<and> ws_federated_home y = []" for v y
      using inventory_okD(5) [OF ok, of v y] that x by (auto simp: s'(2) inv split: if_splits)
    show "us_id u = uid" "us_owner_workspace_count u = int (length (owned_by uid s'))" if u: "dget (users s') uid = Some u" for uid u
    proof -
      obtain u0 where u0: "dget (users s) uid = Some u0"
        "u = (if uid = owner then set_owner_count (int (length (owned_by owner s)) + 1) u0 else u0)"
        using u by (auto simp: s'(5) put_user_get split: if_splits)
      then show "us_id u = uid" "us_owner_workspace_count u = int (length (owned_by uid s'))"
        using inventory_okD(6) [OF ok u0(1)] by (auto simp: set_owner_count_def owned)
    qed
    show "owner_within o' s'" for o'
    proof (cases "o' = owner")
      case True
      have sw: "shards_in s' w = c" using c(1) extra by simp
      have "sum_list (map (shards_in s') (owned_by owner s')) = sum_list (map (shards_in s) (owned_by owner s)) + c"
        unfolding owned if_True simp_thms map_append map_shards by (simp add: sw)
      then have "owner_cost owner s' \<le> TRUST_OWNER_MUTATION_BUDGET" using c(4) by (simp add: owner_cost_def)
      moreover have "1 \<le> shards_in s' v" if "v \<in> set (owned_by owner s')" for v
        using that inventory_okD(7) [OF ok, of owner] c(2) sw shards [of v] by (cases "v = w") (auto simp: owner_within_def owned)
      ultimately show ?thesis using c(3) s'(4) unfolding True owner_within_def by (simp add: owned)
    next
      case False
      then have "owned_by o' s' = owned_by o' s" by (simp add: owned)
      moreover have "shards_in s' v = shards_in s v" if "v \<in> set (owned_by o' s)" for v using shards w [of o'] that by metis
      ultimately show ?thesis using owner_within_cong [OF _ s'(4), of o'] inventory_okD(7) [OF ok, of o'] by simp
    qed
  qed
qed

subsection \<open>The operations keep the inventory\<close>

lemma for_shards_frame: "for_shards w f js s = (r, s') \<Longrightarrow> \<exists>rows. s' = s\<lparr>credit_trust_shards := rows\<rparr>"
proof (induction js arbitrary: s)
  case Nil
  then show ?case by (auto intro: exI [of _ "credit_trust_shards s"])
next
  case (Cons i js)
  show ?case
  proof (cases "dget (credit_trust_shards s) (w, i)")
    case None
    then show ?thesis using Cons.prems by (auto intro: exI [of _ "credit_trust_shards s"])
  next
    case (Some row)
    then have "for_shards w f js (s\<lparr>credit_trust_shards := dset (w, i) (f row) (credit_trust_shards s)\<rparr>) = (r, s')"
      using Cons.prems by simp
    from Cons.IH [OF this] show ?thesis by auto
  qed
qed

lemma for_shards_view: "for_shards w f js s = (r, s') \<Longrightarrow> inventory_view s' = inventory_view s"
  by (drule for_shards_frame) (auto simp: inventory_view_def)

text \<open>Rewriting a workspace without touching its id, owner, deletion mark or home.\<close>

lemma put_workspace_ok:
  assumes "inventory_ok W s" "dget (workspaces s) w = Some x" "pause_coherent y"
    and "ws_id y = ws_id x" "ws_owner_user_id y = ws_owner_user_id x" "ws_deleted y = ws_deleted x" "ws_federated_home y = ws_federated_home x"
    and "inventory_view s' = inventory_view (put_workspace w y s)"
  shows "inventory_ok W s'"
proof (rule inventory_view_ok [OF assms(8)])
  let ?t = "put_workspace w y s"
  have o: "owned_by owner ?t = owned_by owner s" "owner_within owner ?t = owner_within owner s" for owner
    using owner_within_cong [of owner ?t s] by (simp_all add: put_workspace_def owned_by_def shards_in_def)
  show "inventory_ok W ?t"
    unfolding inventory_ok_def o
  proof (intro conjI allI impI)
    show "distinct (owner_workspaces ?t)" "distinct (map fst (workspaces ?t))"
      using inventory_okD(1,2) [OF assms(1)] by (simp_all add: put_workspace_def distinct_update)
    show "\<exists>z. dget (workspaces ?t) v = Some z \<and> \<not> ws_deleted z \<and> ws_owner_user_id z = owner \<and> ws_federated_home z = []"
      if "(owner, v) \<in> set (owner_workspaces ?t)" for owner v
      using inventory_okD(3) [OF assms(1), of owner v] that assms by (auto simp: put_workspace_def)
    show "ws_id z = v" "pause_coherent z" if "dget (workspaces ?t) v = Some z" for v z
      using inventory_okD(4) [OF assms(1), of v] that assms by (auto simp: put_workspace_def split: if_splits)
    show "(ws_owner_user_id z, v) \<in> set (owner_workspaces ?t)"
      if "dget (workspaces ?t) v = Some z" "v \<notin> W \<and> \<not> ws_deleted z \<and> ws_federated_home z = []" for v z
      using inventory_okD(5) [OF assms(1), of v] that assms by (auto simp: put_workspace_def split: if_splits)
    show "us_id u = uid" "us_owner_workspace_count u = int (length (owned_by uid s))" if "dget (users ?t) uid = Some u" for uid u
      using inventory_okD(6) [OF assms(1), of uid u] that by (simp_all add: put_workspace_def)
    show "owner_within owner s" for owner by (rule inventory_okD(7) [OF assms(1)])
  qed
qed

lemma create_workspace_cases:
  assumes "create_workspace wid now owner name trial s = (res, s')"
  obtains (refused) e where "res = Inl e" "s' = s"
  | (created) v where "owner_admits owner (Inr 1) s = Inr v"
      "inventory_view s' = inventory_view (put_user owner (set_owner_count (int (length (owned_by owner s)) + 1))
         (inventory_add owner wid (s\<lparr>workspaces := dset wid (new_workspace wid name owner (iso_now now)) (workspaces s),
            credits := dset wid (new_credit_account wid) (credits s)\<rparr>)))"
proof (cases "owner_admits owner (Inr 1) s")
  case (Inl e)
  then show thesis using assms refused by (auto simp: create_workspace_def split: if_splits)
next
  case (Inr v)
  have pu: "inventory_view (put_user owner f t) = inventory_view (put_user owner f t')"
    if "inventory_view t = inventory_view t'" for f t t'
    using that by (simp add: put_user_def inventory_view_def split: option.split)
  show thesis
  proof (cases "case dget (users s) owner of None \<Rightarrow> False | Some u \<Rightarrow> us_disabled u")
    case True
    then show thesis using assms refused by (auto simp: create_workspace_def)
  next
    case False
    define s1 where "s1 = inventory_add owner wid (s\<lparr>workspaces := dset wid (new_workspace wid name owner (iso_now now)) (workspaces s),
      members := dset (wid, owner) (new_member wid owner ''owner'' now) (members s),
      credits := dset wid (new_credit_account wid) (credits s),
      credit_money := dset wid (new_credit_money (case trial of None \<Rightarrow> 0 | Some t \<Rightarrow> t)) (credit_money s)\<rparr>)"
    have "inventory_view s' = inventory_view (put_user owner (set_owner_count (int (length (owned_by owner s)) + 1)) s1)"
      using assms False Inr by (auto simp: create_workspace_def Let_def s1_def [symmetric] inventory_view_def split: if_splits sum.splits)
    also have "\<dots> = inventory_view (put_user owner (set_owner_count (int (length (owned_by owner s)) + 1))
         (inventory_add owner wid (s\<lparr>workspaces := dset wid (new_workspace wid name owner (iso_now now)) (workspaces s),
            credits := dset wid (new_credit_account wid) (credits s)\<rparr>)))"
      by (rule pu) (simp add: s1_def inventory_add_def inventory_view_def)
    finally show thesis by (rule created [OF Inr])
  qed
qed

lemma create_workspace_ok:
  assumes ok: "inventory_ok {} s" and fresh: "dget (workspaces s) wid = None"
    and run: "create_workspace wid now owner name trial s = (res, s')"
  shows "inventory_ok {} s'"
  using run
proof (cases rule: create_workspace_cases)
  case (created v)
  let ?t = "put_user owner (set_owner_count (int (length (owned_by owner s)) + 1)) (inventory_add owner wid
    (s\<lparr>workspaces := dset wid (new_workspace wid name owner (iso_now now)) (workspaces s), credits := dset wid (new_credit_account wid) (credits s)\<rparr>))"
  have t: "owner_workspaces ?t = set_add (owner, wid) (owner_workspaces s)"
    "workspaces ?t = dset wid (new_workspace wid name owner (iso_now now)) (workspaces s)"
    "credits ?t = dset wid (new_credit_account wid) (credits s)" "max_workspaces_per_owner ?t = max_workspaces_per_owner s"
    "users ?t = users (put_user owner (set_owner_count (int (length (owned_by owner s)) + 1)) s)"
    by (simp_all add: put_user_def inventory_add_def split: option.split)
  have "inventory_ok {} ?t"
  proof (rule enter_inventory [OF inventory_weaken [OF ok] created(1)])
    show "(o', wid) \<notin> set (owner_workspaces s)" for o' using inventory_okD(3) [OF ok, of o' wid] fresh by auto
    show "Inr 1 = Inr (shards_in ?t wid)" unfolding shards_in_def t(3) by (simp add: new_credit_account_def)
  qed (simp_all add: t)
  then show ?thesis by (rule inventory_view_ok [OF created(2)])
qed (use ok in simp)

lemma patch_deleted_ok:
  assumes ok: "inventory_ok {} s" and x: "dget (workspaces s) w = Some x"
    and home: "ws_federated_home x = []" and run: "patch_deleted now w d x s = (res, s')"
  shows "inventory_ok {} s' \<and> (\<forall>v. res = Inr v \<longrightarrow> dget (workspaces s') w = Some (x\<lparr>ws_deleted := d\<rparr>)) \<and>
    (\<forall>e. res = Inl e \<longrightarrow> s' = s)"
proof -
  have xid: "ws_id x = w" "pause_coherent x" using inventory_okD(4) [OF ok x] by simp_all
  have pc: "pause_coherent (x\<lparr>ws_deleted := d\<rparr>)" using xid(2) by (simp add: pause_coherent_def)
  let ?o = "ws_owner_user_id x"
  consider (restore) "ws_deleted x" "\<not> d" | (delete) "\<not> ws_deleted x" "d" | (same) "ws_deleted x = d" by blast
  then show ?thesis
  proof cases
    case same
    then have "inventory_ok {} (put_workspace w (x\<lparr>ws_deleted := d\<rparr>) s)"
      by (intro put_workspace_ok [OF ok x pc]) simp_all
    then show ?thesis using run same by (auto simp: patch_deleted_def Let_def put_workspace_def)
  next
    case restore
    show ?thesis
    proof (cases "owner_admits ?o (shards_of w s) s")
      case (Inl e)
      then show ?thesis using run restore ok by (auto simp: patch_deleted_def Let_def xid)
    next
      case (Inr v)
      then have s': "s' = put_workspace w (x\<lparr>ws_deleted := d\<rparr>)
          (put_user ?o (set_owner_count (int (length (owned_by ?o s)) + 1)) (inventory_add ?o w s))"
        using run restore by (simp add: patch_deleted_def Let_def xid)
      obtain c where c: "shards_of w s = Inr c" by (rule owner_admits_ok [OF Inr])
      have f: "owner_workspaces s' = set_add (?o, w) (owner_workspaces s)" "workspaces s' = dset w (x\<lparr>ws_deleted := d\<rparr>) (workspaces s)"
        "credits s' = credits s" "max_workspaces_per_owner s' = max_workspaces_per_owner s"
        "users s' = users (put_user ?o (set_owner_count (int (length (owned_by ?o s)) + 1)) s)"
        by (simp_all add: s' put_workspace_def put_user_def inventory_add_def split: option.split)
      have "inventory_ok {} s'"
      proof (rule enter_inventory [OF inventory_weaken [OF ok] Inr, where x = "x\<lparr>ws_deleted := d\<rparr>"])
        show "(o', w) \<notin> set (owner_workspaces s)" for o' using inventory_okD(3) [OF ok, of o' w] x restore by auto
        show "shards_of w s = Inr (shards_in s' w)" using c by (auto simp: shards_of_def shards_in_def f split: option.splits)
      qed (use restore xid pc home in \<open>simp_all add: f\<close>)
      then show ?thesis using run restore Inr by (auto simp: patch_deleted_def Let_def xid put_workspace_def)
    qed
  next
    case delete
    define s1 where "s1 = each_shard w (latch_zero now) (put_user ?o drop_owner_count (inventory_discard ?o w s))"
    have s': "s' = put_workspace w (x\<lparr>ws_deleted := d\<rparr>) s1" "res = Inr ()"
      using run delete by (auto simp: patch_deleted_def Let_def xid s1_def)
    have f: "owner_workspaces s1 = filter (\<lambda>p. p \<noteq> (?o, w)) (owner_workspaces s)" "workspaces s1 = workspaces s" "credits s1 = credits s"
      "max_workspaces_per_owner s1 = max_workspaces_per_owner s" "users s1 = users (put_user ?o drop_owner_count s)"
      by (simp_all add: s1_def each_shard_def put_user_def inventory_discard_def split: option.split)
    have left: "inventory_ok {w} s1" "\<And>owner. (owner, w) \<notin> set (owner_workspaces s1)"
      using leave_inventory [OF ok x delete(1) inventory_okD(5) [OF ok x _ delete(1) home] f] by simp_all
    have "inventory_ok {} s'"
      by (rule deleted_ok [OF left _ _ s'(1)]) (use x delete pc xid in \<open>simp_all add: f\<close>)
    then show ?thesis using s' by (simp add: put_workspace_def)
  qed
qed

lemma patch_paused_fields [simp]:
  "ws_id (patch_paused p r x) = ws_id x" "ws_owner_user_id (patch_paused p r x) = ws_owner_user_id x"
  "ws_deleted (patch_paused p r x) = ws_deleted x" "ws_federated_home (patch_paused p r x) = ws_federated_home x"
  by (simp_all add: patch_paused_def set_pause_causes_def Let_def split: option.split bool.split)

lemma patch_paused_coherent: "pause_coherent x \<Longrightarrow> pause_coherent (patch_paused p r x)"
proof -
  assume x: "pause_coherent x"
  have r: "pause_coherent (y\<lparr>ws_billing_pause_reason := z\<rparr>) = pause_coherent y" for y z by (simp add: pause_coherent_def)
  show ?thesis using x by (auto simp: patch_paused_def Let_def r split: option.split bool.split)
qed

lemma update_workspace_ok:
  assumes ok: "inventory_ok {} s" and home: "\<And>x. dget (workspaces s) w = Some x \<Longrightarrow> ws_federated_home x = []"
    and run: "update_workspace now w p s = (res, s')"
  shows "inventory_ok {} s'"
proof (cases "dget (workspaces s) w")
  case None
  then show ?thesis using run ok by (auto simp: update_workspace_def)
next
  case (Some x0)
  define x where "x = (case wp_name p of None \<Rightarrow> x0 | Some n \<Rightarrow> x0\<lparr>ws_name := n\<rparr>)"
  define s1 where "s1 = put_workspace w x s"
  have x: "ws_id x = w" "pause_coherent x" "ws_federated_home x = []" "dget (workspaces s1) w = Some x"
    "ws_owner_user_id x = ws_owner_user_id x0" "ws_deleted x = ws_deleted x0"
    using inventory_okD(4) [OF ok Some] home [OF Some]
    by (simp_all add: x_def s1_def put_workspace_def pause_coherent_def split: option.splits)
  have ok1: "inventory_ok {} s1"
    by (rule put_workspace_ok [OF ok Some x(2)]) (use x inventory_okD(4) [OF ok Some] home [OF Some] in \<open>simp_all add: s1_def\<close>)
  obtain r s2 where r: "(case wp_deleted p of None \<Rightarrow> (Inr (), s1) | Some d \<Rightarrow> patch_deleted now w d x s1) = (r, s2)" by fastforce
  define y where "y = (case wp_deleted p of None \<Rightarrow> x | Some d \<Rightarrow> x\<lparr>ws_deleted := d\<rparr>)"
  have "inventory_ok {} s2 \<and> (\<forall>v. r = Inr v \<longrightarrow> dget (workspaces s2) w = Some y)"
    using r ok1 x(4) patch_deleted_ok [OF ok1 x(4,3), of now _ r s2] by (auto simp: y_def split: option.splits)
  then have s2: "inventory_ok {} s2" "\<And>v. r = Inr v \<Longrightarrow> dget (workspaces s2) w = Some y" by simp_all
  have run': "(res, s') = (case r of Inl e \<Rightarrow> (Inl e, s2)
      | Inr _ \<Rightarrow> (Inr (Some (patch_paused (wp_billing_paused p) (wp_billing_pause_reason p) y)),
          put_workspace w (patch_paused (wp_billing_paused p) (wp_billing_pause_reason p) y) s2))"
    using run Some r [unfolded s1_def] by (cases r) (simp_all add: update_workspace_def x_def [symmetric] y_def Let_def)
  show ?thesis
  proof (cases r)
    case (Inl e)
    then show ?thesis using run' s2(1) by simp
  next
    case (Inr v)
    have y: "pause_coherent y" using x(2) by (simp add: y_def pause_coherent_def split: option.split)
    have "inventory_ok {} (put_workspace w (patch_paused (wp_billing_paused p) (wp_billing_pause_reason p) y) s2)"
      by (rule put_workspace_ok [OF s2(1) s2(2) [OF Inr] patch_paused_coherent [OF y]]) simp_all
    then show ?thesis using run' Inr by simp
  qed
qed

lemma transfer_ownership_ok:
  assumes ok: "inventory_ok {} s" and home: "\<And>x. dget (workspaces s) w = Some x \<Longrightarrow> ws_federated_home x = []"
    and run: "transfer_workspace_ownership now w new s = (res, s')"
  shows "inventory_ok {} s'"
proof (cases "get_workspace w s")
  case None
  then show ?thesis using run ok by (auto simp: transfer_workspace_ownership_def)
next
  case (Some x)
  then have x: "dget (workspaces s) w = Some x" "\<not> ws_deleted x"
    by (auto simp: get_workspace_def split: option.splits if_splits)
  let ?old = "ws_owner_user_id x" and ?y = "x\<lparr>ws_owner_user_id := new\<rparr>"
  show ?thesis
  proof (cases "new = ?old \<or> (\<exists>e. owner_admits new (shards_of w s) s = Inl e)")
    case True
    then show ?thesis using run ok Some by (auto simp: transfer_workspace_ownership_def split: if_splits)
  next
    case False
    then obtain v where adm: "owner_admits new (shards_of w s) s = Inr v" and ne: "new \<noteq> ?old"
      by (cases "owner_admits new (shards_of w s) s") auto
    define s1 where "s1 = put_user ?old drop_owner_count (inventory_discard ?old w s)"
    have f1: "owner_workspaces s1 = filter (\<lambda>p. p \<noteq> (?old, w)) (owner_workspaces s)" "workspaces s1 = workspaces s"
      "credits s1 = credits s" "max_workspaces_per_owner s1 = max_workspaces_per_owner s" "users s1 = users (put_user ?old drop_owner_count s)"
      by (simp_all add: s1_def put_user_def inventory_discard_def split: option.split)
    have left: "inventory_ok {w} s1" "\<And>owner. (owner, w) \<notin> set (owner_workspaces s1)"
      using leave_inventory [OF ok x inventory_okD(5) [OF ok x(1) _ x(2) home [OF x(1)]] f1] by simp_all
    have same: "owned_by new s1 = owned_by new s" using ne by (simp add: owned_by_discard [OF f1(1)])
    have "owner_admits new (shards_of w s) s1 = owner_admits new (shards_of w s) s"
      unfolding owner_admits_def Let_def same f1(3,4) ..
    then have adm1: "owner_admits new (shards_of w s) s1 = Inr v" using adm by simp
    have f: "owner_workspaces s' = set_add (new, w) (owner_workspaces s1)" "workspaces s' = dset w ?y (workspaces s1)" "credits s' = credits s"
      "max_workspaces_per_owner s' = max_workspaces_per_owner s1"
      "users s' = users (put_user new (set_owner_count (int (length (owned_by new s1)) + 1)) s1)"
      using run Some ne adm unfolding same
      by (auto simp: transfer_workspace_ownership_def Let_def s1_def put_workspace_def put_user_def inventory_add_def inventory_discard_def
          split: option.splits)
    obtain c where c: "shards_of w s = Inr c" by (rule owner_admits_ok [OF adm])
    show ?thesis
    proof (rule enter_inventory [OF left(1) adm1 _ left(2), where x = ?y])
      show "shards_of w s = Inr (shards_in s' w)" using c by (auto simp: shards_of_def shards_in_def f split: option.splits)
      show "ws_id ?y = w" "pause_coherent ?y" using inventory_okD(4) [OF ok x(1)] by (simp_all add: pause_coherent_def)
    qed (use x f f1 home [OF x(1)] in simp_all)
  qed
qed

lemma workspace_account_ok: "workspace_account w s = Inr (x, a) \<Longrightarrow> dget (workspaces s) w = Some x \<and> \<not> ws_deleted x \<and> dget (credits s) w = Some a"
  by (auto simp: workspace_account_def get_workspace_def split: option.splits if_splits)

lemma set_override_ok:
  assumes "inventory_ok {} s" "set_workspace_trust_override now w tier bypass operator reason s = (res, s')"
  shows "inventory_ok {} s'"
proof -
  have "inventory_view s' = inventory_view s"
    using assms(2)
    by (auto simp: set_workspace_trust_override_def Let_def inventory_view_def dest!: for_shards_frame split: if_splits sum.splits prod.splits)
  then show ?thesis by (rule inventory_view_ok [OF _ assms(1)])
qed

lemma record_abuse_ok:
  assumes "inventory_ok {} s" "record_workspace_abuse_and_demote now w abuse_ref operator reason s = (res, s')"
  shows "inventory_ok {} s'"
proof (cases "s' = s")
  case False
  obtain x a where x: "workspace_account w s = Inr (x, a)"
    using assms(2) False by (auto simp: record_workspace_abuse_and_demote_def split: if_splits option.splits sum.splits)
  let ?y = "(set_pause_causes (ws_billing_pause_causes x @ [''abuse'']) x)\<lparr>ws_billing_pause_reason := py_strip reason\<rparr>"
  have "inventory_view s' = inventory_view (put_workspace w ?y s)"
    using assms(2) x False
    by (auto simp: record_workspace_abuse_and_demote_def Let_def inventory_view_def put_workspace_def
        dest!: for_shards_frame split: if_splits option.splits sum.splits prod.splits)
  moreover have "pause_coherent ?y" by (simp add: pause_coherent_def set_pause_causes_def)
  ultimately show ?thesis
    using workspace_account_ok [OF x] by (intro put_workspace_ok [OF assms(1)]) (auto simp: set_pause_causes_def)
qed (use assms(1) in simp)

lemma clear_abuse_ok:
  assumes "inventory_ok {} s" "clear_workspace_abuse_pause w abuse_ref operator reason s = (res, s')"
  shows "inventory_ok {} s'"
proof (cases "s' = s")
  case False
  obtain x a where x: "workspace_account w s = Inr (x, a)"
    using assms(2) False by (auto simp: clear_workspace_abuse_pause_def split: if_splits sum.splits)
  let ?y = "(set_pause_causes (filter (\<lambda>c. c \<noteq> ''abuse'') (ws_billing_pause_causes x)) x)\<lparr>ws_billing_pause_reason := py_strip reason\<rparr>"
  have "inventory_view s' = inventory_view (put_workspace w ?y s)"
    using assms(2) x False
    by (auto simp: clear_workspace_abuse_pause_def Let_def inventory_view_def put_workspace_def
        dest!: for_shards_frame split: if_splits sum.splits prod.splits)
  moreover have "pause_coherent ?y" by (simp add: pause_coherent_def set_pause_causes_def)
  ultimately show ?thesis
    using workspace_account_ok [OF x] by (intro put_workspace_ok [OF assms(1)]) (auto simp: set_pause_causes_def)
qed (use assms(1) in simp)

lemma users_ok:
  assumes ok: "inventory_ok {} s" and s': "owner_workspaces s' = owner_workspaces s" "workspaces s' = workspaces s"
      "credits s' = credits s" "max_workspaces_per_owner s' = max_workspaces_per_owner s"
    and u: "\<And>uid u. dget (users s') uid = Some u \<Longrightarrow> us_id u = uid \<and> us_owner_workspace_count u = int (length (owned_by uid s))"
  shows "inventory_ok {} s'"
proof -
  have o: "owned_by owner s' = owned_by owner s" "owner_within owner s' = owner_within owner s" for owner
    using owned_by_cong [OF s'(1)] owner_within_cong [OF owned_by_cong [OF s'(1)] s'(4)] by (simp_all add: shards_in_def s'(3))
  show ?thesis using ok u unfolding inventory_ok_def s'(1,2) o by blast
qed

lemma put_users_ok:
  assumes ok: "inventory_ok {} s" and "dget (users s) uid = Some u" "us_id u' = us_id u" "us_owner_workspace_count u' = us_owner_workspace_count u"
    and "inventory_view s' = inventory_view (s\<lparr>users := dset uid u' (users s)\<rparr>)"
  shows "inventory_ok {} s'"
proof (rule inventory_view_ok [OF assms(5)], rule users_ok [OF ok])
  fix v x assume "dget (users (s\<lparr>users := dset uid u' (users s)\<rparr>)) v = Some x"
  then show "us_id x = v \<and> us_owner_workspace_count x = int (length (owned_by v s))"
    using inventory_okD(6) [OF ok, of v] assms(2-4) inventory_okD(6) [OF ok assms(2)] by (auto split: if_splits)
qed simp_all

text \<open>A new user owns nothing yet.\<close>

lemma new_user_ok:
  assumes ok: "inventory_ok {} s" and "owned_by uid s = []" "us_id u = uid" "us_owner_workspace_count u = 0"
    and "inventory_view s' = inventory_view (s\<lparr>users := dset uid u (users s)\<rparr>)"
  shows "inventory_ok {} s'"
proof (rule inventory_view_ok [OF assms(5)], rule users_ok [OF ok])
  fix v x assume "dget (users (s\<lparr>users := dset uid u (users s)\<rparr>)) v = Some x"
  then show "us_id x = v \<and> us_owner_workspace_count x = int (length (owned_by v s))"
    using inventory_okD(6) [OF ok, of v x] assms(2-4) by (auto split: if_splits)
qed simp_all

definition fresh_account :: "string \<Rightarrow> string \<Rightarrow> store \<Rightarrow> bool" where
  "fresh_account uid wid s \<longleftrightarrow> dget (workspaces s) wid = None \<and> owned_by uid s = []"

lemma new_user_fields [simp]: "us_id (new_user uid e v w now) = uid" "us_owner_workspace_count (new_user uid e v w now) = 0"
  by (simp_all add: new_user_def)

lemma ensure_user_ok:
  assumes ok: "inventory_ok {} s" and fresh: "fresh_account new_id new_wid s"
    and run: "ensure_user new_id new_wid now user_id email trial verified issuer s = (res, s')"
  shows "inventory_ok {} s'"
proof (cases "s' = s")
  case False
  define e where "e = normalize_email (if ostr email = [] then user_id else ostr email)"
  define s1 where "s1 = s\<lparr>users := dset new_id (new_user new_id (Some e) verified None (iso_now now)) (users s),
    user_ids_by_email := dset e new_id (user_ids_by_email s)\<rparr>"
  obtain r s2 where c: "create_workspace new_wid now new_id ''Personal Workspace'' trial s1 = (r, s2)" by fastforce
  have ok1: "inventory_ok {} s1"
    by (rule new_user_ok [OF ok, of new_id "new_user new_id (Some e) verified None (iso_now now)"])
      (use fresh in \<open>simp_all add: fresh_account_def s1_def inventory_view_def\<close>)
  have "inventory_ok {} s2" by (rule create_workspace_ok [OF ok1 _ c]) (use fresh in \<open>simp add: fresh_account_def s1_def\<close>)
  moreover have "inventory_view s' = inventory_view s2"
    using run False c
    by (auto simp: ensure_user_def Let_def e_def [symmetric] s1_def [symmetric] inventory_view_def split: if_splits option.splits sum.splits)
  ultimately show ?thesis by (blast intro: inventory_view_ok)
qed (use ok in simp)

lemma create_wallet_user_ok:
  assumes ok: "inventory_ok {} s" and fresh: "fresh_account new_id new_wid s"
    and run: "create_wallet_user new_id new_wid now address s = (res, s')"
  shows "inventory_ok {} s'"
proof (cases "s' = s")
  case False
  define s1 where "s1 = s\<lparr>users := dset new_id (new_user new_id None False (Some (py_lower (py_strip address))) (iso_now now)) (users s),
    user_ids_by_wallet := dset (py_lower (py_strip address)) new_id (user_ids_by_wallet s)\<rparr>"
  obtain r s2 where c: "create_workspace new_wid now new_id ''Personal Workspace'' (Some 0) s1 = (r, s2)" by fastforce
  have ok1: "inventory_ok {} s1"
    by (rule new_user_ok [OF ok, of new_id "new_user new_id None False (Some (py_lower (py_strip address))) (iso_now now)"])
      (use fresh in \<open>simp_all add: fresh_account_def s1_def inventory_view_def\<close>)
  have "inventory_ok {} s2" by (rule create_workspace_ok [OF ok1 _ c]) (use fresh in \<open>simp add: fresh_account_def s1_def\<close>)
  moreover have "s' = s2"
    using run False c by (auto simp: create_wallet_user_def Let_def s1_def [symmetric] split: option.splits sum.splits)
  ultimately show ?thesis by simp
qed (use ok in simp)

fun members_fresh :: "instant \<Rightarrow> string \<Rightarrow> string \<Rightarrow> (string \<times> string \<times> string) list \<Rightarrow> store \<Rightarrow> bool" where
  "members_fresh now w role [] s = True"
| "members_fresh now w role ((email, new_id, new_wid) # rest) s =
     (fresh_account new_id new_wid s \<and>
      (case ensure_user new_id new_wid now email None None False None s of (Inl e, s1) \<Rightarrow> True
       | (Inr u, s1) \<Rightarrow> members_fresh now w role rest
           (s1\<lparr>members := dset (w, us_id u) (new_member w (us_id u) role now) (members s1)\<rparr>)))"

lemma add_members_ok:
  "inventory_ok {} s \<Longrightarrow> members_fresh now w role xs s \<Longrightarrow> add_members now w role xs s = (res, s') \<Longrightarrow> inventory_ok {} s'"
proof (induction xs arbitrary: s res s')
  case (Cons x xs)
  obtain email new_id new_wid where x: "x = (email, new_id, new_wid)" by (cases x)
  obtain r s1 where e: "ensure_user new_id new_wid now email None None False None s = (r, s1)" by fastforce
  have ok1: "inventory_ok {} s1" by (rule ensure_user_ok [OF Cons.prems(1) _ e]) (use Cons.prems(2) x in simp)
  show ?case
  proof (cases r)
    case (Inl err)
    then show ?thesis using Cons.prems(3) ok1 e by (simp add: x)
  next
    case (Inr u)
    let ?t = "s1\<lparr>members := dset (w, us_id u) (new_member w (us_id u) role now) (members s1)\<rparr>"
    obtain r2 s2 where a: "add_members now w role xs ?t = (r2, s2)" by fastforce
    have "inventory_ok {} ?t" by (rule inventory_view_ok [OF _ ok1]) (simp add: inventory_view_def)
    then have "inventory_ok {} s2" by (rule Cons.IH [OF _ _ a]) (use Cons.prems(2) e Inr x in simp)
    moreover have "s' = s2" using Cons.prems(3) e Inr a by (auto simp: x Let_def split: sum.splits)
    ultimately show ?thesis by simp
  qed
qed simp

lemma remove_members_ok: "inventory_ok {} s \<Longrightarrow> inventory_ok {} (remove_members w ids s)"
proof (induction ids arbitrary: s)
  case (Cons i ids)
  have "inventory_view (remove_member w i s) = inventory_view s"
    by (simp add: remove_member_def inventory_view_def split: option.split)
  then have "inventory_ok {} (remove_member w i s)" by (rule inventory_view_ok [OF _ Cons.prems])
  from Cons.IH [OF this] show ?case by (simp add: remove_members_def)
qed (simp add: remove_members_def)

lemma set_user_email_ok:
  assumes ok: "inventory_ok {} s" and run: "set_user_email uid email s = (res, s')"
  shows "inventory_ok {} s'"
proof (cases "s' = s")
  case False
  then obtain u where u: "dget (users s) uid = Some u" using run by (auto simp: set_user_email_def Let_def split: if_splits option.splits)
  show ?thesis
    by (rule put_users_ok [OF ok u, of "the res"])
      (use run False u in \<open>auto simp: set_user_email_def Let_def inventory_view_def split: if_splits\<close>)
qed (use ok in simp)

lemma mark_email_ok:
  assumes ok: "inventory_ok {} s" and run: "mark_user_email_verified uid s = (res, s')"
  shows "inventory_ok {} s'"
proof (cases "dget (users s) uid")
  case (Some u)
  show ?thesis
    by (rule put_users_ok [OF ok Some, of "u\<lparr>us_email_verified := True\<rparr>"])
      (use run Some in \<open>auto simp: mark_user_email_verified_def Let_def inventory_view_def\<close>)
qed (use ok run in \<open>simp add: mark_user_email_verified_def\<close>)

subsection \<open>Rebuilding the inventory\<close>

lemma set_expected:
  "set (expected_inventory s) = {(ws_owner_user_id x, ws_id x) | k x. (k, x) \<in> set (workspaces s) \<and> \<not> ws_deleted x \<and> ws_federated_home x = []}"
  by (force simp: expected_inventory_def)

lemma expected_within:
  assumes "inventory_ok {} s"
  shows "set (expected_inventory s) \<subseteq> set (owner_workspaces s)"
proof -
  have "(ws_owner_user_id x, ws_id x) \<in> set (owner_workspaces s)"
    if "(k, x) \<in> set (workspaces s)" "\<not> ws_deleted x" "ws_federated_home x = []" for k x
  proof -
    have "dget (workspaces s) k = Some x" by (rule map_of_is_SomeI [OF inventory_okD(2) [OF assms] that(1)])
    then show ?thesis using inventory_okD(4) [OF assms, of k x] inventory_okD(5) [OF assms, of k x] that by simp
  qed
  then show ?thesis unfolding set_expected by blast
qed

lemma sum_list_subset:
  assumes "distinct xs" "distinct ys" "set xs \<subseteq> set ys"
  shows "sum_list (map f xs) \<le> (sum_list (map f ys) :: nat)"
  using sum_mono2 [of "set ys" "set xs" f] assms by (simp add: sum_list_distinct_conv_sum_set)

lemma inventory_subset:
  assumes ok: "inventory_ok {} s" and d: "distinct (owner_workspaces s')" and sub: "set (owner_workspaces s') \<subseteq> set (owner_workspaces s)"
    and keep: "\<And>w x. dget (workspaces s) w = Some x \<Longrightarrow> \<not> ws_deleted x \<Longrightarrow> ws_federated_home x = [] \<Longrightarrow> (ws_owner_user_id x, w) \<in> set (owner_workspaces s')"
    and s': "workspaces s' = workspaces s" "credits s' = credits s" "max_workspaces_per_owner s' = max_workspaces_per_owner s"
    and u: "\<And>uid u. dget (users s') uid = Some u \<Longrightarrow> us_id u = uid \<and> us_owner_workspace_count u = int (length (owned_by uid s'))"
  shows "inventory_ok {} s'"
proof -
  have sh: "shards_in s' = shards_in s" by (simp add: shards_in_def fun_eq_iff s')
  have "owner_within owner s'" for owner
  proof -
    have o: "set (owned_by owner s') \<subseteq> set (owned_by owner s)" using sub by (auto simp: set_owned_by)
    have c: "sum_list (map (shards_in s) (owned_by owner s')) \<le> sum_list (map (shards_in s) (owned_by owner s))"
      by (rule sum_list_subset [OF distinct_owned_by [OF d] distinct_owned_by [OF inventory_okD(1) [OF ok]] o])
    have "length (owned_by owner s') \<le> length (owned_by owner s)"
      using card_mono [OF finite_set o] distinct_card [OF distinct_owned_by [OF d]]
        distinct_card [OF distinct_owned_by [OF inventory_okD(1) [OF ok]]] by simp
    moreover have "owner_cost owner s' \<le> owner_cost owner s" using c by (simp add: owner_cost_def sh TRUST_REPLICATED_COLUMN_COUNT_def)
    ultimately show ?thesis using inventory_okD(7) [OF ok, of owner] o unfolding owner_within_def s'(3) sh by auto
  qed
  then show ?thesis using ok d sub keep u unfolding inventory_ok_def s'(1) by blast
qed

lemma backfill_ok:
  assumes ok: "inventory_ok {} s" and run: "backfill_owner_inventory now version environment s = (res, s')"
  shows "inventory_ok {} s'"
proof (cases "s' = s")
  case False
  have f: "owner_workspaces s' = expected_inventory s" "workspaces s' = workspaces s" "credits s' = credits s"
    "max_workspaces_per_owner s' = max_workspaces_per_owner s"
    "users s' = map (\<lambda>(k, u). (k, set_owner_count (int (length (filter (\<lambda>(o', _). o' = us_id u) (expected_inventory s)))) u)) (users s)"
    using run False by (auto simp: backfill_owner_inventory_def Let_def split: if_splits)
  show ?thesis
  proof (rule inventory_subset [OF ok _ _ _ f(2-4)])
    show "distinct (owner_workspaces s')" by (simp add: f expected_inventory_def)
    show "set (owner_workspaces s') \<subseteq> set (owner_workspaces s)" unfolding f(1) by (rule expected_within [OF ok])
    show "(ws_owner_user_id x, w) \<in> set (owner_workspaces s')"
      if "dget (workspaces s) w = Some x" "\<not> ws_deleted x" "ws_federated_home x = []" for w x
    proof -
      have "ws_id x = w" using inventory_okD(4) [OF ok that(1)] by simp
      then show ?thesis unfolding f(1) set_expected using map_of_SomeD [OF that(1)] that(2,3) by auto
    qed
    show "us_id u = uid \<and> us_owner_workspace_count u = int (length (owned_by uid s'))" if u: "dget (users s') uid = Some u" for uid u
    proof -
      obtain u0 where "dget (users s) uid = Some u0" "u = set_owner_count (int (length (filter (\<lambda>(o', _). o' = us_id u0) (expected_inventory s)))) u0"
        using u unfolding f(5) map_of_map by auto
      then show ?thesis using inventory_okD(6) [OF ok, of uid u0] by (simp add: set_owner_count_def owned_by_def f(1))
    qed
  qed
qed (use ok in simp)

subsection \<open>Closing an account\<close>

text \<open>What deleting a live workspace through \<open>update_workspace\<close> writes.\<close>

lemma delete_run:
  assumes ok: "inventory_ok {} s" and y: "dget (workspaces s) w = Some y" "\<not> ws_deleted y" "ws_federated_home y = []"
    and s': "s' = snd (update_workspace now w delete_patch s)"
  shows "inventory_ok {} s'" "workspaces s' = dset w (y\<lparr>ws_deleted := True\<rparr>) (dset w (y\<lparr>ws_deleted := True\<rparr>) (dset w y (workspaces s)))"
    "owner_workspaces s' = filter (\<lambda>p. p \<noteq> (ws_owner_user_id y, w)) (owner_workspaces s)"
    "users s' = users (put_user (ws_owner_user_id y) drop_owner_count s)" "keys s' = keys s" "credits s' = credits s" "members s' = members s"
proof -
  show "inventory_ok {} s'"
    by (rule update_workspace_ok [OF ok _ prod.collapse [symmetric], where w = w and now = now and p = delete_patch, folded s']) (use y in simp)
  have "ws_id y = w" using inventory_okD(4) [OF ok y(1)] by simp
  then show "workspaces s' = dset w (y\<lparr>ws_deleted := True\<rparr>) (dset w (y\<lparr>ws_deleted := True\<rparr>) (dset w y (workspaces s)))"
    "owner_workspaces s' = filter (\<lambda>p. p \<noteq> (ws_owner_user_id y, w)) (owner_workspaces s)"
    "users s' = users (put_user (ws_owner_user_id y) drop_owner_count s)" "keys s' = keys s" "credits s' = credits s" "members s' = members s"
    using y unfolding s'
    by (simp_all add: update_workspace_def delete_patch_def patch_deleted_def patch_paused_def Let_def put_workspace_def
        each_shard_def put_user_def inventory_discard_def split: option.split)
qed

lemma close_step_run:
  assumes ok: "inventory_ok {} s" and y: "dget (workspaces s) (ws_id x) = Some y" "\<not> ws_deleted y" "ws_federated_home y = []"
    and s': "s' = close_step now (x, credit, ks) s"
  shows "inventory_ok {} s'" "dget (workspaces s') v = (if v = ws_id x then Some (y\<lparr>ws_deleted := True\<rparr>) else dget (workspaces s) v)"
    "owned_by o' s' = (if o' = ws_owner_user_id y then filter (\<lambda>v. v \<noteq> ws_id x) (owned_by o' s) else owned_by o' s)"
    "uid \<noteq> ws_owner_user_id y \<Longrightarrow> dget (users s') uid = dget (users s) uid"
    "keys s' = fold (\<lambda>k. dset (ak_hash k) (disable_key now k)) ks (keys s)"
proof -
  let ?w = "ws_id x"
  define s1 where "s1 = snd (update_workspace now ?w delete_patch s)"
  note d = delete_run [OF ok y s1_def]
  have e: "s' = s1\<lparr>credits := dset ?w (credit\<lparr>ca_auto_refill_enabled := False\<rparr>) (credits s1),
      keys := fold (\<lambda>k. dset (ak_hash k) (disable_key now k)) ks (keys s1)\<rparr>"
    by (simp add: s' close_step_def Let_def s1_def)
  show w: "dget (workspaces s') v = (if v = ?w then Some (y\<lparr>ws_deleted := True\<rparr>) else dget (workspaces s) v)" for v
    by (simp add: e d(2))
  have inv: "owner_workspaces s' = owner_workspaces s1" "workspaces s' = workspaces s1" "users s' = users s1"
    "max_workspaces_per_owner s' = max_workspaces_per_owner s1" by (simp_all add: e)
  have free: "(o', ?w) \<notin> set (owner_workspaces s1)" for o'
    using inventory_okD(3) [OF d(1), of o' ?w] by (auto simp: d(2))
  have same: "owned_by o' s' = owned_by o' s1" for o' by (rule owned_by_cong [OF inv(1)])
  have within: "owner_within o' s' = owner_within o' s1" for o'
  proof (rule owner_within_cong [OF same inv(4)])
    fix v assume "v \<in> set (owned_by o' s1)"
    then have "v \<noteq> ?w" using free [of o'] by (auto simp: set_owned_by)
    then show "shards_in s' v = shards_in s1 v" by (simp add: shards_in_def e)
  qed
  show "inventory_ok {} s'" using d(1) unfolding inventory_ok_def inv same within .
  show "owned_by o' s' = (if o' = ws_owner_user_id y then filter (\<lambda>v. v \<noteq> ?w) (owned_by o' s) else owned_by o' s)" for o'
    by (simp add: same owned_by_discard [OF d(3)])
  show "uid \<noteq> ws_owner_user_id y \<Longrightarrow> dget (users s') uid = dget (users s) uid" by (simp add: inv(3) d(4) put_user_get)
  show "keys s' = fold (\<lambda>k. dset (ak_hash k) (disable_key now k)) ks (keys s)" by (simp add: e d(5))
qed

abbreviation plan_ids :: "closure_plan \<Rightarrow> string list" where
  "plan_ids plan \<equiv> map (\<lambda>(x, _). ws_id x) plan"

abbreviation plan_keys :: "closure_plan \<Rightarrow> api_key list" where
  "plan_keys plan \<equiv> concat (map (\<lambda>(_, _, ks). ks) plan)"

lemma close_plan_run:
  assumes "inventory_ok {} s" "distinct (plan_ids plan)"
    and "\<And>w. w \<in> set (plan_ids plan) \<Longrightarrow> \<exists>y. dget (workspaces s) w = Some y \<and> \<not> ws_deleted y \<and> ws_federated_home y = [] \<and> ws_owner_user_id y = uid"
  shows "inventory_ok {} (fold (close_step now) plan s) \<and>
    (\<forall>v. v \<notin> set (plan_ids plan) \<longrightarrow> dget (workspaces (fold (close_step now) plan s)) v = dget (workspaces s) v) \<and>
    (\<forall>v \<in> set (plan_ids plan). get_workspace v (fold (close_step now) plan s) = None) \<and>
    owned_by uid (fold (close_step now) plan s) = filter (\<lambda>v. v \<notin> set (plan_ids plan)) (owned_by uid s) \<and>
    (\<forall>v. v \<noteq> uid \<longrightarrow> dget (users (fold (close_step now) plan s)) v = dget (users s) v) \<and>
    keys (fold (close_step now) plan s) = fold (\<lambda>k. dset (ak_hash k) (disable_key now k)) (plan_keys plan) (keys s)"
  using assms
proof (induction plan arbitrary: s)
  case (Cons p plan)
  obtain x credit ks where p: "p = (x, credit, ks)" by (cases p)
  obtain y where y: "dget (workspaces s) (ws_id x) = Some y" "\<not> ws_deleted y" "ws_federated_home y = []" "ws_owner_user_id y = uid"
    using Cons.prems(3) [of "ws_id x"] p by auto
  define t where "t = close_step now p s"
  note c = close_step_run [OF Cons.prems(1) y(1-3) t_def [unfolded p]]
  have new: "ws_id x \<notin> set (plan_ids plan)" using Cons.prems(2) p by simp
  have ih: "inventory_ok {} (fold (close_step now) plan t) \<and>
    (\<forall>v. v \<notin> set (plan_ids plan) \<longrightarrow> dget (workspaces (fold (close_step now) plan t)) v = dget (workspaces t) v) \<and>
    (\<forall>v \<in> set (plan_ids plan). get_workspace v (fold (close_step now) plan t) = None) \<and>
    owned_by uid (fold (close_step now) plan t) = filter (\<lambda>v. v \<notin> set (plan_ids plan)) (owned_by uid t) \<and>
    (\<forall>v. v \<noteq> uid \<longrightarrow> dget (users (fold (close_step now) plan t)) v = dget (users t) v) \<and>
    keys (fold (close_step now) plan t) = fold (\<lambda>k. dset (ak_hash k) (disable_key now k)) (plan_keys plan) (keys t)"
  proof (rule Cons.IH [OF c(1)])
    show "distinct (plan_ids plan)" using Cons.prems(2) by simp
    show "\<exists>y. dget (workspaces t) w = Some y \<and> \<not> ws_deleted y \<and> ws_federated_home y = [] \<and> ws_owner_user_id y = uid"
      if "w \<in> set (plan_ids plan)" for w
    proof -
      have "w \<noteq> ws_id x" using new that by metis
      then show ?thesis using Cons.prems(3) [of w] that by (auto simp: c(2))
    qed
  qed
  have "get_workspace (ws_id x) (fold (close_step now) plan t) = None" using ih new by (simp add: get_workspace_def c(2))
  moreover have "owned_by uid t = filter (\<lambda>v. v \<noteq> ws_id x) (owned_by uid s)" using c(3) [of uid] y(4) by simp
  moreover have "v \<noteq> uid \<Longrightarrow> dget (users t) v = dget (users s) v" for v using c(4) [of v] y(4) by simp
  ultimately show ?case
    using ih p c(2) c(5) unfolding fold_Cons comp_def t_def [symmetric] by (simp add: conj_commute)
qed simp

lemma closure_steps_plan:
  "closure_steps s u n ws = Inr plan \<Longrightarrow> (\<And>w x. dget (workspaces s) w = Some x \<Longrightarrow> ws_id x = w) \<Longrightarrow>
   plan_ids plan = ws \<and> plan_keys plan = concat (map (\<lambda>w. list_for_workspace w s) ws) \<and>
   (\<forall>w \<in> set ws. \<exists>y. dget (workspaces s) w = Some y \<and> \<not> ws_deleted y \<and> ws_owner_user_id y = us_id u)"
proof (induction ws arbitrary: n plan)
  case (Cons w ws)
  obtain x credit where x: "dget (workspaces s) w = Some x" "dget (credits s) w = Some credit" "\<not> ws_deleted x" "ws_owner_user_id x = us_id u"
    using Cons.prems(1) by (auto split: option.splits if_splits)
  obtain rest where r: "closure_steps s u (n + length (list_for_workspace w s)) ws = Inr rest"
    "plan = (x, credit, list_for_workspace w s) # rest"
    using Cons.prems(1) x by (auto simp: Let_def split: if_splits sum.splits)
  from Cons.IH [OF r(1) Cons.prems(2)] show ?case using x Cons.prems(2) [OF x(1)] by (auto simp: r(2))
qed simp

text \<open>Every key is stored under its own hash, once.\<close>

definition keys_coherent :: "store \<Rightarrow> bool" where
  "keys_coherent s \<longleftrightarrow> distinct (map fst (keys s)) \<and> (\<forall>h k. dget (keys s) h = Some k \<longrightarrow> ak_hash k = h)"

lemma dget_disable:
  "dget (fold (\<lambda>k. dset (ak_hash k) (disable_key now k)) ks d) h = Some k' \<Longrightarrow>
   (\<exists>k \<in> set ks. ak_hash k = h \<and> k' = disable_key now k) \<or> dget d h = Some k' \<and> (\<forall>k \<in> set ks. ak_hash k \<noteq> h)"
  by (induction ks rule: rev_induct) (auto split: if_splits)

lemma distinct_disable: "distinct (map fst d) \<Longrightarrow> distinct (map fst (fold (\<lambda>k. dset (ak_hash k) (disable_key now k)) ks d))"
  by (induction ks arbitrary: d) (auto simp: distinct_update)

lemma close_user_account_run:
  assumes ok: "inventory_ok {} s" and u: "dget (users s) uid = Some u" "us_account_closed_at u = None"
    and run: "close_user_account now uid s = (Inr r, s')"
  obtains t where "r = Some (closed_user now u)" "s' = t\<lparr>users := dset uid (closed_user now u) (users t)\<rparr>" "inventory_ok {} t"
    "owned_by uid t = []" "\<forall>w. w \<notin> set (owned_by uid s) \<longrightarrow> dget (workspaces t) w = dget (workspaces s) w"
    "\<forall>w. w \<in> set (owned_by uid s) \<longrightarrow> get_workspace w t = None"
    "\<forall>v. v \<noteq> uid \<longrightarrow> dget (users t) v = dget (users s) v"
    "keys t = fold (\<lambda>k. dset (ak_hash k) (disable_key now k)) (concat (map (\<lambda>w. list_for_workspace w s) (sort (owned_by uid s)))) (keys s)"
proof -
  have id: "us_id u = uid" using inventory_okD(6) [OF ok u(1)] by simp
  let ?ws = "sort (owned_by uid s)"
  obtain plan where v: "closure_validate s u ?ws (filter (\<lambda>m. mb_user_id m = uid) (dvals (members s))) = Inr plan"
    using run u by (cases "closure_validate s u ?ws (filter (\<lambda>m. mb_user_id m = uid) (dvals (members s)))") (auto simp: close_user_account_def)
  then have steps: "closure_steps s u 0 ?ws = Inr plan" by (auto simp: closure_validate_def split: if_splits)
  define t where "t = fold (close_step now) plan s"
  have plan: "plan_ids plan = ?ws" "plan_keys plan = concat (map (\<lambda>w. list_for_workspace w s) ?ws)"
    using closure_steps_plan [OF steps] inventory_okD(4) [OF ok] by blast+
  have owned: "\<exists>y. dget (workspaces s) w = Some y \<and> \<not> ws_deleted y \<and> ws_federated_home y = [] \<and> ws_owner_user_id y = uid"
    if "w \<in> set (plan_ids plan)" for w
    using that inventory_okD(3) [OF ok, of uid w] unfolding plan(1) by (auto simp: set_owned_by)
  have "distinct (plan_ids plan)" unfolding plan(1) using distinct_owned_by [OF inventory_okD(1) [OF ok]] by simp
  note c = close_plan_run [OF ok this owned, where now = now, folded t_def]
  show thesis
  proof (rule that [of t])
    show "r = Some (closed_user now u)" "s' = t\<lparr>users := dset uid (closed_user now u) (users t)\<rparr>"
      using run u v id by (auto simp: close_user_account_def Let_def t_def)
    show "inventory_ok {} t" using c by blast
    show "owned_by uid t = []" using c unfolding plan(1) by (simp add: filter_empty_conv)
    show "\<forall>w. w \<notin> set (owned_by uid s) \<longrightarrow> dget (workspaces t) w = dget (workspaces s) w" using c unfolding plan(1) by simp
    show "\<forall>w. w \<in> set (owned_by uid s) \<longrightarrow> get_workspace w t = None" using c unfolding plan(1) by simp
    show "\<forall>v. v \<noteq> uid \<longrightarrow> dget (users t) v = dget (users s) v" using c by blast
    show "keys t = fold (\<lambda>k. dset (ak_hash k) (disable_key now k)) (concat (map (\<lambda>w. list_for_workspace w s) ?ws)) (keys s)"
      using c unfolding plan(2) by blast
  qed
qed

lemma closed_user_fields [simp]:
  "us_id (closed_user now u) = us_id u" "us_owner_workspace_count (closed_user now u) = 0" "us_disabled (closed_user now u)"
  by (simp_all add: closed_user_def)

lemma close_user_account_ok:
  assumes ok: "inventory_ok {} s" and run: "close_user_account now uid s = (res, s')"
  shows "inventory_ok {} s'"
proof (cases "\<exists>u. dget (users s) uid = Some u \<and> us_account_closed_at u = None \<and> is_ok res")
  case True
  then obtain u r where u: "dget (users s) uid = Some u" "us_account_closed_at u = None" "res = Inr r"
    by (cases res) auto
  obtain t where t: "s' = t\<lparr>users := dset uid (closed_user now u) (users t)\<rparr>" "inventory_ok {} t" "owned_by uid t = []"
    using run unfolding u(3) by (rule close_user_account_run [OF ok u(1,2)])
  have "us_id u = uid" using inventory_okD(6) [OF ok u(1)] by simp
  then show ?thesis by (intro new_user_ok [OF t(2,3), of "closed_user now u"]) (simp_all add: t(1))
next
  case False
  then have "s' = s" using run by (auto simp: close_user_account_def Let_def is_ok_def split: option.splits sum.splits if_splits)
  then show ?thesis using ok by simp
qed

section \<open>Runs\<close>

datatype account_op =
    Create_workspace string instant string string "microdollars option"
  | Update_workspace instant string workspace_patch
  | Transfer_ownership instant string string
  | Set_override instant string int bool string string
  | Record_abuse instant string string string string
  | Clear_abuse string string string string
  | Backfill instant string string
  | Ensure_user string string instant string "string option" "microdollars option" bool "string option"
  | Create_wallet_user string string instant string
  | Set_email string string
  | Mark_email string
  | Add_members instant string string "(string \<times> string \<times> string) list"
  | Remove_members string "string list"
  | Close_account instant string

fun account_step :: "account_op \<Rightarrow> store \<Rightarrow> store" where
  "account_step (Create_workspace wid now owner name trial) s = snd (create_workspace wid now owner name trial s)"
| "account_step (Update_workspace now w p) s = snd (update_workspace now w p s)"
| "account_step (Transfer_ownership now w new) s = snd (transfer_workspace_ownership now w new s)"
| "account_step (Set_override now w tier bypass operator reason) s = snd (set_workspace_trust_override now w tier bypass operator reason s)"
| "account_step (Record_abuse now w ref operator reason) s = snd (record_workspace_abuse_and_demote now w ref operator reason s)"
| "account_step (Clear_abuse w ref operator reason) s = snd (clear_workspace_abuse_pause w ref operator reason s)"
| "account_step (Backfill now version environment) s = snd (backfill_owner_inventory now version environment s)"
| "account_step (Ensure_user uid wid now user_id email trial verified issuer) s = snd (ensure_user uid wid now user_id email trial verified issuer s)"
| "account_step (Create_wallet_user uid wid now address) s = snd (create_wallet_user uid wid now address s)"
| "account_step (Set_email uid email) s = snd (set_user_email uid email s)"
| "account_step (Mark_email uid) s = snd (mark_user_email_verified uid s)"
| "account_step (Add_members now w role xs) s = snd (add_members now w role xs s)"
| "account_step (Remove_members w ids) s = remove_members w ids s"
| "account_step (Close_account now uid) s = snd (close_user_account now uid s)"

definition home_workspace :: "string \<Rightarrow> store \<Rightarrow> bool" where
  "home_workspace w s = (case dget (workspaces s) w of None \<Rightarrow> True | Some x \<Rightarrow> ws_federated_home x = [])"

lemma home_workspaceD: "home_workspace w s \<Longrightarrow> dget (workspaces s) w = Some x \<Longrightarrow> ws_federated_home x = []"
  by (simp add: home_workspace_def)

text \<open>Random ids are fresh, and the shadows of workspaces of another plane are not edited here.\<close>

fun account_legal :: "account_op \<Rightarrow> store \<Rightarrow> bool" where
  "account_legal (Create_workspace wid now owner name trial) s = (dget (workspaces s) wid = None)"
| "account_legal (Update_workspace now w p) s = home_workspace w s"
| "account_legal (Transfer_ownership now w new) s = home_workspace w s"
| "account_legal (Ensure_user uid wid now user_id email trial verified issuer) s = fresh_account uid wid s"
| "account_legal (Create_wallet_user uid wid now address) s = fresh_account uid wid s"
| "account_legal (Add_members now w role xs) s = members_fresh now w role xs s"
| "account_legal _ s = True"

lemmas account_ops_ok =
  create_workspace_ok [OF _ _ prod.collapse [symmetric]] update_workspace_ok [OF _ _ prod.collapse [symmetric]]
  transfer_ownership_ok [OF _ _ prod.collapse [symmetric]] set_override_ok [OF _ prod.collapse [symmetric]]
  record_abuse_ok [OF _ prod.collapse [symmetric]] clear_abuse_ok [OF _ prod.collapse [symmetric]]
  backfill_ok [OF _ prod.collapse [symmetric]] ensure_user_ok [OF _ _ prod.collapse [symmetric]]
  create_wallet_user_ok [OF _ _ prod.collapse [symmetric]] set_user_email_ok [OF _ prod.collapse [symmetric]]
  mark_email_ok [OF _ prod.collapse [symmetric]] add_members_ok [OF _ _ prod.collapse [symmetric]]
  remove_members_ok close_user_account_ok [OF _ prod.collapse [symmetric]]

interpretation account_run: invariant_run account_step account_legal "inventory_ok {}"
proof
  fix s e
  assume "inventory_ok {} s" "account_legal e s"
  then show "inventory_ok {} (account_step e s)"
    by (cases e) (simp_all add: account_ops_ok home_workspaceD)
qed

lemma init_inventory_ok: "inventory_ok {} (init_store armed)"
  by (simp add: inventory_ok_def init_store_def owner_within_def owned_by_def owner_cost_def TRUST_OWNER_MUTATION_BUDGET_def)

section \<open>Abuse reports\<close>

lemma for_shards_rows:
  assumes "for_shards w f js s = (Inr v, s')" "distinct js"
  shows "dget (credit_trust_shards s') (v', i) =
    (if v' = w \<and> i \<in> set js then map_option f (dget (credit_trust_shards s) (v', i)) else dget (credit_trust_shards s) (v', i)) \<and>
    (v' = w \<and> i \<in> set js \<longrightarrow> dget (credit_trust_shards s) (v', i) \<noteq> None)"
  using assms
proof (induction js arbitrary: s)
  case (Cons j js)
  obtain row where row: "dget (credit_trust_shards s) (w, j) = Some row" using Cons.prems(1) by (auto split: option.splits)
  let ?t = "s\<lparr>credit_trust_shards := dset (w, j) (f row) (credit_trust_shards s)\<rparr>"
  have "for_shards w f js ?t = (Inr v, s')" using Cons.prems(1) row by simp
  from Cons.IH [OF this] show ?case using Cons.prems(2) row by (auto split: if_splits)
qed simp

lemma find_after_dset:
  assumes "List.find P (dvals d) = None" "P v"
  shows "List.find P (dvals (dset k v d)) = Some v"
  using assms by (induction d) auto

lemma record_abuse_run:
  assumes run: "record_workspace_abuse_and_demote now w ref operator reason s = (Inr True, s')"
  obtains x a rows where "workspace_account w s = Inr (x, a)"
    "List.find (\<lambda>e. te_provider e = ''operator'' \<and> te_adverse_ref e = Some ref) (dvals (trust_events s)) = None"
    "py_strip ref \<noteq> []" "py_strip operator \<noteq> []" "py_strip reason \<noteq> []"
    "\<And>v' i. dget rows (v', i) = (if v' = w \<and> i < ca_shard_count a then map_option (abuse_pause now) (dget (credit_trust_shards s) (v', i))
       else dget (credit_trust_shards s) (v', i))"
    "\<And>i. i < ca_shard_count a \<Longrightarrow> dget (credit_trust_shards s) (w, i) \<noteq> None"
    "trust_events s' = dset (w, ''abuse:'' @ ref) (abuse_event w ref now) (trust_events s)" "credit_trust_shards s' = rows"
    "workspaces s' = dset w ((set_pause_causes (ws_billing_pause_causes x @ [''abuse'']) x)\<lparr>ws_billing_pause_reason := py_strip reason\<rparr>) (workspaces s)"
proof -
  obtain x a where x: "workspace_account w s = Inr (x, a)"
    and n: "List.find (\<lambda>e. te_provider e = ''operator'' \<and> te_adverse_ref e = Some ref) (dvals (trust_events s)) = None"
    "py_strip ref \<noteq> []" "py_strip operator \<noteq> []" "py_strip reason \<noteq> []"
    using run by (auto simp: record_workspace_abuse_and_demote_def split: if_splits option.splits sum.splits)
  define s1 where "s1 = put_workspace w ((set_pause_causes (ws_billing_pause_causes x @ [''abuse'']) x)\<lparr>ws_billing_pause_reason := py_strip reason\<rparr>)
    (s\<lparr>trust_events := dset (w, ''abuse:'' @ ref) (abuse_event w ref now) (trust_events s),
      trust_abuse_audits := dset (w, ref) \<lparr>aa_workspace_id = w, aa_abuse_ref = ref, aa_operator_identity = py_strip operator,
        aa_reason = py_strip reason, aa_recorded_at = now\<rparr> (trust_abuse_audits s)\<rparr>)"
  have f: "for_shards w (abuse_pause now) [0..<ca_shard_count a] s1 = (Inr (), s')"
    using run x n by (auto simp: record_workspace_abuse_and_demote_def Let_def s1_def split: if_splits sum.splits prod.splits)
  obtain rows where r: "s' = s1\<lparr>credit_trust_shards := rows\<rparr>" using for_shards_frame [OF f] by blast
  have rows: "dget rows (v', i) = (if v' = w \<and> i < ca_shard_count a then map_option (abuse_pause now) (dget (credit_trust_shards s) (v', i))
       else dget (credit_trust_shards s) (v', i)) \<and> (v' = w \<and> i < ca_shard_count a \<longrightarrow> dget (credit_trust_shards s) (v', i) \<noteq> None)" for v' i
    using for_shards_rows [OF f, of v' i] by (simp add: r s1_def put_workspace_def)
  show thesis by (rule that [OF x n, of rows]) (use rows in \<open>simp_all add: r s1_def put_workspace_def\<close>)
qed

section \<open>Properties\<close>



text \<open>An abuse report stops a workspace once.  Recording abuse pauses the workspace for the cause
  abuse, and on every shard sets tier 0, keeps or sets the latch, adds the cause and advances the
  pause epoch by one; reporting the same reference again changes nothing.\<close>

theorem abuse_report_once:
  assumes "record_workspace_abuse_and_demote now w ref operator reason s = (Inr True, s')" "dget (credits s) w = Some a"
  shows "workspace_billing_paused (dget (workspaces s') w) \<and>
    (i < ca_shard_count a \<longrightarrow> (\<exists>row row'. dget (credit_trust_shards s) (w, i) = Some row \<and> dget (credit_trust_shards s') (w, i) = Some row' \<and>
       sh_trust_tier row' = 0 \<and> sh_trust_latched_at row' \<noteq> None \<and> ''abuse'' \<in> set (sh_billing_pause_causes row') \<and>
       sh_pause_epoch row' = sh_pause_epoch row + 1)) \<and>
    record_workspace_abuse_and_demote later w ref operator' reason' s' =
      (if py_strip operator' = [] \<or> py_strip reason' = []
       then Inl (ValueError ''abuse_ref, operator identity and reason are required'') else Inr False, s')"
  using assms(1)
proof (rule record_abuse_run)
  fix x a' rows
  assume x: "workspace_account w s = Inr (x, a')"
    and n: "List.find (\<lambda>e. te_provider e = ''operator'' \<and> te_adverse_ref e = Some ref) (dvals (trust_events s)) = None"
    and ref: "py_strip ref \<noteq> []"
    and rows: "\<And>v' i. dget rows (v', i) = (if v' = w \<and> i < ca_shard_count a' then map_option (abuse_pause now) (dget (credit_trust_shards s) (v', i))
       else dget (credit_trust_shards s) (v', i))"
    and row: "\<And>i. i < ca_shard_count a' \<Longrightarrow> dget (credit_trust_shards s) (w, i) \<noteq> None"
    and ev: "trust_events s' = dset (w, ''abuse:'' @ ref) (abuse_event w ref now) (trust_events s)" and sh: "credit_trust_shards s' = rows"
    and ws: "workspaces s' = dset w ((set_pause_causes (ws_billing_pause_causes x @ [''abuse'']) x)\<lparr>ws_billing_pause_reason := py_strip reason\<rparr>) (workspaces s)"
  have a: "a' = a" using workspace_account_ok [OF x] assms(2) by simp
  have "\<exists>row row'. dget (credit_trust_shards s) (w, i) = Some row \<and> dget (credit_trust_shards s') (w, i) = Some row' \<and>
       sh_trust_tier row' = 0 \<and> sh_trust_latched_at row' \<noteq> None \<and> ''abuse'' \<in> set (sh_billing_pause_causes row') \<and>
       sh_pause_epoch row' = sh_pause_epoch row + 1" if i: "i < ca_shard_count a"
  proof -
    obtain r where "dget (credit_trust_shards s) (w, i) = Some r" using row [of i] i a by auto
    then show ?thesis using rows [of w i] i a sh by (auto simp: abuse_pause_def latch_zero_def split: option.split)
  qed
  moreover have "List.find (\<lambda>e. te_provider e = ''operator'' \<and> te_adverse_ref e = Some ref) (dvals (trust_events s')) = Some (abuse_event w ref now)"
    unfolding ev by (rule find_after_dset [OF n]) (simp add: abuse_event_def)
  ultimately show ?thesis
    using ref by (simp add: workspace_billing_paused_def ws set_pause_causes_def record_workspace_abuse_and_demote_def abuse_event_def)
qed

subsection \<open>Examples\<close>

definition demo_accounts :: "account_op list" where
  "demo_accounts = [Ensure_user ''u1'' ''w1'' 0 ''a@x.io'' None (Some 5) False None, Create_workspace ''w2'' 1 ''u1'' ''second'' None,
     Ensure_user ''u2'' ''w3'' 2 ''b@x.io'' None None False None, Transfer_ownership 3 ''w3'' ''u1'',
     Update_workspace 4 ''w2'' delete_patch]"

lemma demo_accounts_legal: "legal_run account_step account_legal demo_accounts (init_store False)"
  by code_simp



theorem abuse_report_once_witness:
  "workspace_billing_paused (dget (workspaces (snd (record_workspace_abuse_and_demote 7 ''w1'' ''r1'' ''op'' ''spam''
     (fold account_step demo_accounts (init_store False))))) ''w1'')"
proof -
  let ?s = "fold account_step demo_accounts (init_store False)"
  let ?c = "record_workspace_abuse_and_demote 7 ''w1'' ''r1'' ''op'' ''spam'' ?s"
  have "fst ?c = Inr True" by code_simp
  then have c: "?c = (Inr True, snd ?c)" by (metis prod.collapse)
  have "map_option ca_shard_count (dget (credits ?s) ''w1'') = Some 1" by code_simp
  then obtain a where "dget (credits ?s) ''w1'' = Some a" by auto
  from abuse_report_once [OF c this] show ?thesis by blast
qed

end
