(* ===== verification/Billing.thy ===== *)
theory Billing
  imports Settlement
begin

text \<open>
  The whole billing surface of the in-memory store in one run: credits, refunds and disputes, guarded
  debits, transfers, usage reported by another plane, holds, their settlement and release, gateway
  authorizations and their finalization, called in any order by any number of callers.

  Each call posts to a journal what it is meant to do to the money of the workspaces, from its result
  and the reservation it closes.  The lemmas show that the store's three counters per workspace
  (credits, usage, reserved) are at any time what the journal and the open reservations say.
\<close>

section \<open>Calls and what they post\<close>

datatype billing_op =
    Credit credit_request instant
  | Adverse "string \<times> string \<times> string \<times> string \<times> string \<times> int \<Rightarrow> string" adverse_trust_event instant
  | Debit string microdollars string string "string option" "string option" instant
  | Transfer string string microdollars string microdollars instant
  | Federated_usage string string string microdollars microdollars instant
  | Hold string string microdollars "string option" "int option" string instant
  | Settle_hold string microdollars
  | Release_hold string
  | Authorize authorization_request string instant
  | Finalize_authorization "string \<Rightarrow> string" string bool microdollars string "generation option" instant

fun billing_step :: "billing_op \<Rightarrow> store \<Rightarrow> store" where
  "billing_step (Credit q now) s = snd (credit_workspace_typed_direct q now s)"
| "billing_step (Adverse dg e now) s = snd (record_adverse_trust_event dg e now s)"
| "billing_step (Debit w n i kind cm au now) s = snd (debit_workspace_guarded w n i kind cm au now s)"
| "billing_step (Transfer x y n i cap now) s = snd (transfer_workspace_credits x y n i cap now s)"
| "billing_step (Federated_usage p i w cost cap now) s = snd (apply_federated_usage p i w cost cap now s)"
| "billing_step (Hold w k n ik kr fresh now) s = snd (store_reserve w k n ik kr fresh now s)"
| "billing_step (Settle_hold rid n) s = snd (store_settle rid n s)"
| "billing_step (Release_hold rid) s = snd (store_refund rid s)"
| "billing_step (Authorize q fresh now) s = snd (create_gateway_authorization q fresh now s)"
| "billing_step (Finalize_authorization u i sc n ut g now) s = snd (finalize_gateway_authorization u i sc n ut g now s)"

text \<open>What the environment guarantees: amounts of credits are not negative, the identifiers of adverse
  events are not those of credits, the random id of a new reservation is fresh, and a workspace that
  another plane reports usage for has a credit account.\<close>

fun billing_legal :: "(string \<Rightarrow> bool) \<Rightarrow> billing_op \<Rightarrow> store \<Rightarrow> bool" where
  "billing_legal a (Credit q now) s \<longleftrightarrow> \<not> a (cq_event_id q) \<and> 0 \<le> cq_amount q"
| "billing_legal a (Adverse dg e now) s \<longleftrightarrow> a (av_event_id e)"
| "billing_legal a (Federated_usage p i w cost cap now) s \<longleftrightarrow> dget (credit_money s) w \<noteq> None"
| "billing_legal a (Hold w k n ik kr fresh now) s \<longleftrightarrow> dget (reservations s) fresh = None"
| "billing_legal a _ s \<longleftrightarrow> True"

definition posted_at :: "string \<Rightarrow> int \<Rightarrow> string \<Rightarrow> int" where
  "posted_at w n w' = (if w' = w then n else 0)"

text \<open>The change of a workspace's principal that a call announces by its result.\<close>

fun credit_posting :: "billing_op \<Rightarrow> store \<Rightarrow> string \<Rightarrow> int" where
  "credit_posting (Credit q now) s w =
     (if fst (credit_workspace_typed_direct q now s) = Inr True then posted_at (cq_workspace_id q) (cq_amount q) w else 0)"
| "credit_posting (Debit x n i kind cm au now) s w =
     (if fst (debit_workspace_guarded x n i kind cm au now s) = Inr ''accepted'' then posted_at x (- n) w else 0)"
| "credit_posting (Transfer x y n i cap now) s w =
     (case fst (transfer_workspace_credits x y n i cap now s) of
        Inr (status, _) \<Rightarrow> if status = ''accepted'' then posted_at x (- n) w + posted_at y n w else 0
      | Inl _ \<Rightarrow> 0)"
| "credit_posting _ s w = 0"

text \<open>The usage a call books: what another plane reported, or the actual cost when an open reservation
  is settled.\<close>

definition settles :: "string \<Rightarrow> int \<Rightarrow> store \<Rightarrow> string \<Rightarrow> int" where
  "settles rid n s w =
     (case dget (reservations s) rid of None \<Rightarrow> 0
      | Some r \<Rightarrow> if rv_settled r \<or> dget (credit_money s) (rv_workspace_id r) = None then 0
                  else posted_at (rv_workspace_id r) n w)"

fun usage_posting :: "billing_op \<Rightarrow> store \<Rightarrow> string \<Rightarrow> int" where
  "usage_posting (Federated_usage p i x cost cap now) s w =
     (if fst (apply_federated_usage p i x cost cap now s) = Inr ''applied'' then posted_at x cost w else 0)"
| "usage_posting (Settle_hold rid n) s w = settles rid n s w"
| "usage_posting (Finalize_authorization u i sc n ut g now) s w =
     (case dget (gateway_authorizations s) i of None \<Rightarrow> 0
      | Some a \<Rightarrow> (case tm_credit_reservation_id (ga_terms a) of None \<Rightarrow> 0
          | Some rid \<Rightarrow> if \<not> ga_settled a \<and> sc \<and> coerce_usage ut = CREDITS then settles rid n s w else 0))"
| "usage_posting _ s w = 0"

text \<open>The journal of a run: principal and usage of every workspace, posted call by call.\<close>

fun journal :: "billing_op list \<Rightarrow> store \<Rightarrow> string \<Rightarrow> int \<times> int" where
  "journal [] s w = (0, 0)"
| "journal (e # es) s w =
     (let (c, u) = journal es (billing_step e s) w in (credit_posting e s w + c, usage_posting e s w + u))"

section \<open>Calls that leave usage and holds alone\<close>

definition usage_of :: "string \<Rightarrow> store \<Rightarrow> int" where
  "usage_of w s = dcell cm_usage (dget (credit_money s) w)"

text \<open>Only the credits of a book may change.\<close>

definition blank_credits :: "credit_money \<Rightarrow> credit_money" where
  "blank_credits m = m\<lparr>cm_credits := 0\<rparr>"

definition credits_only :: "store \<Rightarrow> store \<Rightarrow> bool" where
  "credits_only s s' \<longleftrightarrow> reservations s' = reservations s \<and>
     (\<forall>w. map_option blank_credits (dget (credit_money s') w) = map_option blank_credits (dget (credit_money s) w))"

lemma blank_credits_eq:
  "blank_credits m = blank_credits m' \<longleftrightarrow> cm_usage m = cm_usage m' \<and> cm_reserved m = cm_reserved m'"
  by (cases m; cases m') (auto simp: blank_credits_def)

lemma blank_credits_update [simp]: "blank_credits (m\<lparr>cm_credits := n\<rparr>) = blank_credits m"
  by (simp add: blank_credits_def)

lemma credits_only_refl [simp]: "credits_only s s"
  by (simp add: credits_only_def)

lemma credits_only_trans: "credits_only s s1 \<Longrightarrow> credits_only s1 s2 \<Longrightarrow> credits_only s s2"
  by (simp add: credits_only_def)

lemma credits_only_frame:
  "reservations s' = reservations s \<Longrightarrow> credit_money s' = credit_money s \<Longrightarrow> credits_only s s'"
  by (simp add: credits_only_def)

lemma credits_only_write:
  assumes "reservations s' = reservations s" "dget (credit_money s) w = Some m"
    and "credit_money s' = dset w m' (credit_money s)" "blank_credits m' = blank_credits m"
  shows "credits_only s s'"
  using assms by (simp add: credits_only_def)

lemma credits_only_exact:
  assumes "credits_only s s'" "reserved_exact s"
  shows "reserved_exact s'"
  unfolding reserved_exact_def
proof (intro allI impI)
  fix w m'
  assume m': "dget (credit_money s') w = Some m'"
  have "map_option blank_credits (dget (credit_money s') w) = map_option blank_credits (dget (credit_money s) w)"
    and r: "reservations s' = reservations s" using assms(1) by (simp_all add: credits_only_def)
  then obtain m where "dget (credit_money s) w = Some m" "blank_credits m' = blank_credits m"
    using m' by (cases "dget (credit_money s) w") auto
  then show "cm_reserved m' = open_holds w s'"
    using reserved_exactD [OF assms(2), of w m] r by (simp add: blank_credits_eq open_holds_def)
qed

lemma credits_only_usage:
  assumes "credits_only s s'"
  shows "usage_of w s' = usage_of w s"
proof -
  have "map_option blank_credits (dget (credit_money s') w) = map_option blank_credits (dget (credit_money s) w)"
    using assms by (simp add: credits_only_def)
  then show ?thesis by (auto simp: usage_of_def dcell_def blank_credits_eq split: option.splits)
qed

subsection \<open>Adverse events and credits\<close>

lemma move_recovery_blank: "move_recovery d m r u = (m', r', u') \<Longrightarrow> blank_credits m' = blank_credits m"
  by (auto simp: move_recovery_def Let_def split: if_splits)

lemma apply_recovery_credits: "credits_only s (snd (apply_recovery e pk payment fk arow s))"
proof -
  let ?w = "te_workspace_id payment"
  have "credits_only s (sync_principal_recovery_pause ?w
      (s\<lparr>credit_money := dset ?w m' (credit_money s), trust_events := evs\<rparr>))"
    if "dget (credit_money s) ?w = Some m" "move_recovery d m r u = (m', r', u')" for d m r u m' r' u' evs
    by (rule credits_only_write [OF _ that(1) _ move_recovery_blank [OF that(2)]]) simp_all
  then show ?thesis
    by (auto simp: apply_recovery_def Let_def split: sum.split option.split prod.split)
qed

lemma apply_adverse_credits: "credits_only s (snd (apply_adverse_trust_event e now s))"
proof -
  have "credits_only s (snd (apply_recovery e pk p fk f (s\<lparr>trust_events := evs\<rparr>)))" for pk p fk f evs
    by (rule credits_only_trans [OF credits_only_frame apply_recovery_credits]) simp_all
  moreover have "credits_only s (s\<lparr>trust_events := evs\<rparr>)" for evs by (rule credits_only_frame) simp_all
  ultimately show ?thesis
    by (auto simp: apply_adverse_trust_event_def Let_def split: option.split)
qed

lemma record_adverse_credits: "credits_only s (snd (record_adverse_trust_event dg e now s))"
proof -
  have inbox: "credits_only s (t\<lparr>trust_inbox := x\<rparr>)" if "credits_only s t" for t x
    by (rule credits_only_trans [OF that credits_only_frame]) simp_all
  obtain r s1 where a: "apply_adverse_trust_event e now s = (r, s1)" by (cases "apply_adverse_trust_event e now s")
  let ?e = "e\<lparr>av_provider := ''x402''\<rparr>"
  obtain r2 s2 where b: "apply_adverse_trust_event ?e now s1 = (r2, s2)" by (cases "apply_adverse_trust_event ?e now s1")
  have s1: "credits_only s s1" using apply_adverse_credits [of s e now] a by simp
  have s2: "credits_only s s2" using credits_only_trans [OF s1 apply_adverse_credits [of s1 ?e now]] b by simp
  show ?thesis
    using s1 s2 inbox [OF s1] inbox [OF s2] a b
    by (simp add: record_adverse_trust_event_def Let_def split: sum.split option.split)
qed

lemma drain_inbox_credits: "credits_only s (snd (drain_inbox p now rows s))"
proof (induction rows arbitrary: s)
  case (Cons kr rows)
  obtain k row where kr: "kr = (k, row)" by (cases kr)
  obtain r s1 where a: "apply_adverse_trust_event (ti_payload row) now s = (r, s1)"
    by (cases "apply_adverse_trust_event (ti_payload row) now s")
  have s1: "credits_only s s1" using apply_adverse_credits [of s "ti_payload row" now] a by simp
  have "credits_only s (s1\<lparr>trust_inbox := x\<rparr>)" for x
    by (rule credits_only_trans [OF s1 credits_only_frame]) simp_all
  then have "credits_only s (snd (drain_inbox p now rows (s1\<lparr>trust_inbox := x\<rparr>)))" for x
    using credits_only_trans Cons.IH by blast
  then show ?case
    using a s1 Cons.IH by (auto simp: kr adverse_event_from_payload_def split: sum.split)
qed simp

lemma book_credit_credits:
  "dget (credit_money s) w = Some m \<Longrightarrow> credits_only s (book_credit w n m s)"
  by (auto simp: credits_only_def book_credit_def Let_def split: prod.split)

lemma accept_credit_credits:
  assumes "dget (credit_money s) (cq_workspace_id q) = Some m"
  shows "credits_only s (snd (accept_credit q now m t s))"
proof -
  let ?w = "cq_workspace_id q"
  define s1 where "s1 = s\<lparr>stripe_events := insert (cq_event_id q) (stripe_events s),
    trust_events := dset (?w, cq_event_id q) t (trust_events s)\<rparr>"
  define s2 where "s2 = sync_principal_recovery_pause ?w (book_credit ?w (cq_amount q) m s1)"
  have "credits_only s s1" by (rule credits_only_frame) (simp_all add: s1_def)
  moreover have "credits_only s1 (book_credit ?w (cq_amount q) m s1)"
    by (rule book_credit_credits) (simp add: s1_def assms)
  moreover have "credits_only (book_credit ?w (cq_amount q) m s1) s2" by (rule credits_only_frame) (simp_all add: s2_def)
  ultimately have "credits_only s s2" using credits_only_trans by blast
  then have d: "credits_only s (snd (drain_inbox (cq_provenance q) now (inbox_order s2) s2))"
    using credits_only_trans drain_inbox_credits by blast
  have "credits_only s (add_topup u n s3)" if "credits_only s s3" for u n s3
    by (rule credits_only_trans [OF that credits_only_frame]) (simp_all add: add_topup_def split: option.split)
  then show ?thesis
    using d unfolding accept_credit_def Let_def s1_def [symmetric] s2_def [symmetric]
    by (auto split: prod.split sum.split)
qed

lemma credit_credits:
  assumes "credit_workspace_typed_direct q now s = (res, s')"
  shows "credits_only s s'"
  using assms
proof (cases rule: credit_cases)
  case dup
  then show ?thesis by (intro credits_only_frame) simp_all
next
  case (new m t)
  then show ?thesis using accept_credit_credits [OF new(2), of now t] by simp
qed simp

subsection \<open>Debits, transfers and releases\<close>

lemma debit_books:
  assumes "debit_workspace_guarded w n i kind cm au now s = (res, s')" "ledger_ok a s"
  shows "credits_only s s'" "ledger_ok a s'"
    "principal w' s' = principal w' s + (if res = Inr ''accepted'' then posted_at w (- n) w' else 0)"
proof -
  show "credits_only s s'" using assms(1)
    by (cases rule: debit_cases) (simp_all add: credits_only_def)
  show "ledger_ok a s'" using assms(1)
  proof (cases rule: debit_cases)
    case (accepted m)
    then show ?thesis by (intro ledger_ok_step [OF assms(2)]) (use assms(2) in \<open>auto simp: ledger_ok_def\<close>)
  qed (simp add: assms(2))
  show "principal w' s' = principal w' s + (if res = Inr ''accepted'' then posted_at w (- n) w' else 0)"
    using assms(1) by (cases rule: debit_cases) (simp_all add: principal_def posted_at_def)
qed

lemma accept_transfer_books:
  assumes "accept_transfer x y n i c now sm s = (res, s')" "ledger_ok a s"
    and "dget (credit_money s) x = Some sm" "dget (credit_money s) y = Some rm"
  shows "credits_only s s'" "ledger_ok a s'" "principal w s' = principal w s + posted_at x (- n) w + posted_at y n w"
proof -
  note f = accept_transfer_frame [OF assms(1)]
  have m: "credit_money s' = dset y (let m = the (dget (dset x (sm\<lparr>cm_credits := cm_credits sm - n\<rparr>) (credit_money s)) y)
      in m\<lparr>cm_credits := cm_credits m + n\<rparr>) (dset x (sm\<lparr>cm_credits := cm_credits sm - n\<rparr>) (credit_money s))"
    using assms(1) by (auto simp: accept_transfer_def Let_def)
  show "credits_only s s'" using assms(3,4) f(5) by (simp add: credits_only_def m Let_def)
  show "ledger_ok a s'"
    by (rule ledger_ok_step [OF assms(2)]) (use assms(2) f m in \<open>auto simp: ledger_ok_def\<close>)
  show "principal w s' = principal w s + posted_at x (- n) w + posted_at y n w"
    using assms(3,4) f(1) by (auto simp: principal_def posted_at_def m Let_def)
qed

lemma transfer_books:
  assumes "transfer_workspace_credits x y n i cap now s = (res, s')" "ledger_ok a s"
  shows "credits_only s s'" "ledger_ok a s'"
    "principal w s' = principal w s + credit_posting (Transfer x y n i cap now) s w"
proof -
  have "credits_only s s' \<and> ledger_ok a s' \<and>
      principal w s' = principal w s + credit_posting (Transfer x y n i cap now) s w"
    using assms(1)
  proof (cases rule: transfer_cases)
    case same
    then show ?thesis using assms by (auto split: sum.split)
  next
    case (accepted sm sw)
    then obtain rm where "dget (credit_money s) y = Some rm" by auto
    note b = accept_transfer_books [OF accepted(8) assms(2) accepted(2) this]
    show ?thesis using b accept_transfer_frame(6) [OF accepted(8)] assms(1) by auto
  qed
  then show "credits_only s s'" "ledger_ok a s'"
    "principal w s' = principal w s + credit_posting (Transfer x y n i cap now) s w" by blast+
qed

subsection \<open>Holds\<close>

lemma recover_released_credits: "credits_only s (snd (recover_released_credit w s))"
  by (auto simp: credits_only_def recover_released_credit_def Let_def split: option.split prod.split)

lemma keys_ops_usage:
  "usage_of w (snd (keys_refund rid s)) = usage_of w s"
  "usage_of w (snd (keys_reserve x k n ik fresh now s)) = usage_of w s"
  "usage_of w (snd (keys_settle rid n s)) = usage_of w s + settles rid n s w"
  by (simp_all add: usage_of_def keys_refund_def keys_reserve_def keys_settle_def settles_def posted_at_def Let_def
      split: option.split)

lemma usage_of_frame: "credit_money s' = credit_money s \<Longrightarrow> usage_of w s' = usage_of w s"
  by (simp add: usage_of_def)

lemma store_refund_usage: "usage_of w (snd (store_refund rid s)) = usage_of w s"
proof -
  obtain r s1 where k: "keys_refund rid s = (r, s1)" by (cases "keys_refund rid s")
  then have "usage_of w s1 = usage_of w s" using keys_ops_usage(1) [of w rid s] by simp
  then show ?thesis
    unfolding store_refund_def k using credits_only_usage [OF recover_released_credits, of w _ s1]
    by (cases r) (simp_all split: option.split)
qed

lemma reject_paused_usage: "usage_of w (snd (reject_paused x k ik hold s)) = usage_of w s"
proof -
  define refunded where "refunded = (case ik of None \<Rightarrow> (Inr (), s)
    | Some i \<Rightarrow> (case find_reservation x k i s of None \<Rightarrow> (Inr (), s) | Some existing \<Rightarrow> store_refund (rv_id existing) s))"
  have o: "usage_of w (snd refunded) = usage_of w s"
    by (simp add: refunded_def store_refund_usage split: option.split)
  obtain rr s1 where r: "refunded = (rr, s1)" by (cases refunded)
  have "usage_of w (refund_limit k hold (case ik of None \<Rightarrow> s1
        | Some i \<Rightarrow> s1\<lparr>paused_authorizations := insert (x, k, i) (paused_authorizations s1)\<rparr>)) = usage_of w s1"
    by (rule usage_of_frame) (simp split: option.split)
  then show ?thesis
    unfolding reject_paused_def Let_def refunded_def [symmetric] r using o r by (cases rr) simp_all
qed

lemma store_reserve_usage: "usage_of w (snd (store_reserve x k n ik kr fresh now s)) = usage_of w s"
proof -
  obtain r s1 where k: "keys_reserve x k n ik fresh now s = (r, s1)" by (cases "keys_reserve x k n ik fresh now s")
  then have "usage_of w s1 = usage_of w s" using keys_ops_usage(2) [of w x k n ik fresh now s] by simp
  moreover have "usage_of w (s1\<lparr>reservation_pause_epochs := p\<rparr>) = usage_of w s1" for p by (simp add: usage_of_def)
  ultimately show ?thesis
    unfolding store_reserve_def Let_def k using reject_paused_usage by (cases r) auto
qed

lemma create_authorization_usage: "usage_of w (snd (create_gateway_authorization q fresh now s)) = usage_of w s"
proof -
  have ins: "usage_of w (snd (insert_authorization q fresh now s)) = usage_of w s"
    by (simp add: usage_of_def insert_authorization_def keys_create_gateway_authorization_def Let_def split: option.split)
  let ?x = "case aq_reservation q of None \<Rightarrow> (Inr (), s) | Some rid \<Rightarrow> store_refund rid s"
  have x: "usage_of w (snd ?x) = usage_of w s" by (simp add: store_refund_usage split: option.split)
  obtain rr s1 where e: "?x = (rr, s1)" by (cases ?x)
  have "usage_of w (snd (release_rejected q s)) = usage_of w s"
    using x unfolding release_rejected_def e Let_def by (cases rr) (simp_all add: usage_of_def)
  then have rej: "usage_of w (snd (reject_paused_authorization q s)) = usage_of w s"
    by (auto simp: reject_paused_authorization_def split: prod.split sum.split)
  show ?thesis using ins rej by (simp add: create_gateway_authorization_def split: option.split)
qed

lemma finalize_usage:
  "usage_of w (snd (finalize_gateway_authorization u i sc n ut g now s)) =
     usage_of w s + usage_posting (Finalize_authorization u i sc n ut g now) s w"
proof -
  obtain res s' where r: "finalize_gateway_authorization u i sc n ut g now s = (res, s')"
    by (cases "finalize_gateway_authorization u i sc n ut g now s")
  have rsv: "usage_of w (snd (finalize_reservation a sc n (coerce_usage ut) s)) = usage_of w s +
      (case tm_credit_reservation_id (ga_terms a) of None \<Rightarrow> 0
       | Some rid \<Rightarrow> if sc \<and> coerce_usage ut = CREDITS then settles rid n s w else 0)" for a
    by (auto simp: finalize_reservation_def keys_ops_usage split: option.split)
  have hold: "usage_of w (finalize_hold u a sc n g now t) = usage_of w t" for a t by (simp add: usage_of_def)
  have set: "usage_of w (t\<lparr>gateway_authorizations := x\<rparr>) = usage_of w t" for t x by (simp add: usage_of_def)
  from r show ?thesis
  proof (cases rule: finalize_cases)
    case none
    then show ?thesis using r
      by (auto simp: finalize_gateway_authorization_def Let_def split: option.splits if_splits prod.splits sum.splits)
  next
    case (failed a err)
    then show ?thesis using r rsv [of a] finalize_reservation_failed [OF failed(3)] by (auto split: option.splits if_splits)
  next
    case (finalized a s1)
    then show ?thesis using r rsv [of a] hold set by (simp split: option.splits)
  qed
qed

lemma federated_books:
  assumes "apply_federated_usage p i w cost cap now s = (res, s')" "ledger_ok a s" "reserved_exact s"
    and "dget (credit_money s) w \<noteq> None"
  shows "account_kept a s s'" "usage_of w' s' = usage_of w' s + (if res = Inr ''applied'' then posted_at w cost w' else 0)"
proof -
  from assms(4) obtain m where m: "dget (credit_money s) w = Some m" by auto
  have "account_kept a s s' \<and>
      usage_of w' s' = usage_of w' s + (if res = Inr ''applied'' then posted_at w cost w' else 0)"
    using assms(1)
  proof (cases rule: federated_cases)
    case same
    then show ?thesis using account_kept_refl [OF assms(2,3)] by simp
  next
    case applied
    have r: "reservations s' = reservations s"
      using assms(1) by (auto simp: apply_federated_usage_def Let_def split: if_splits option.splits)
    have c: "credit_money s' = dset w (m\<lparr>cm_usage := cm_usage m + cost\<rparr>) (credit_money s)"
      using applied(8) m by (simp add: dget_or_def)
    have "books_kept a s s'" by (rule books_kept_money [OF assms(2) applied(9,11,10)]) (simp add: c m)
    moreover have "reserved_exact s'"
      using assms(3) m by (auto simp: reserved_exact_def open_holds_def c r)
    ultimately show ?thesis using applied(1) c m by (simp add: account_kept_def usage_of_def posted_at_def)
  qed
  then show "account_kept a s s'" "usage_of w' s' = usage_of w' s + (if res = Inr ''applied'' then posted_at w cost w' else 0)"
    by blast+
qed

section \<open>One call\<close>

text \<open>The books of the store agree: recovery rows, inbox and payments are coherent, and every
  \<open>reserved\<close> counter is the sum of the open reservations.\<close>

definition books_agree :: "(string \<Rightarrow> bool) \<Rightarrow> store \<Rightarrow> bool" where
  "books_agree a s \<longleftrightarrow> ledger_ok a s \<and> reserved_exact s"

text \<open>A call does what it posts.\<close>

definition does_what_it_posts :: "(string \<Rightarrow> bool) \<Rightarrow> billing_op \<Rightarrow> store \<Rightarrow> bool" where
  "does_what_it_posts a e s \<longleftrightarrow> books_agree a (billing_step e s) \<and>
     (\<forall>w. principal w (billing_step e s) = principal w s + credit_posting e s w \<and>
          usage_of w (billing_step e s) = usage_of w s + usage_posting e s w)"

lemma posts_kept:
  assumes "account_kept a s (billing_step e s)" "\<And>w. usage_of w (billing_step e s) = usage_of w s + usage_posting e s w"
    and "\<And>w. credit_posting e s w = 0"
  shows "does_what_it_posts a e s"
  using assms by (simp add: does_what_it_posts_def books_agree_def account_kept_def books_kept_def)

lemma posts_credits:
  assumes "credits_only s (billing_step e s)" "reserved_exact s" "ledger_ok a (billing_step e s)"
    and "\<And>w. principal w (billing_step e s) = principal w s + credit_posting e s w"
    and "\<And>w. usage_posting e s w = 0"
  shows "does_what_it_posts a e s"
  using assms credits_only_exact [OF assms(1,2)] credits_only_usage [OF assms(1)]
  by (simp add: does_what_it_posts_def books_agree_def)

lemma credit_posts:
  assumes "books_agree a s" "billing_legal a (Credit q now) s"
  shows "does_what_it_posts a (Credit q now) s"
proof -
  obtain res s' where r: "credit_workspace_typed_direct q now s = (res, s')" by (cases "credit_workspace_typed_direct q now s")
  have l: "ledger_ok a s" "reserved_exact s" using assms(1) by (simp_all add: books_agree_def)
  have q: "\<not> a (cq_event_id q)" "0 \<le> cq_amount q" using assms(2) by simp_all
  note b = credit_books [OF l(1) q r]
  show ?thesis
    by (rule posts_credits) (use b l credit_credits [OF r] r in \<open>simp_all add: posted_at_def\<close>)
qed

lemma adverse_posts:
  assumes "books_agree a s" "billing_legal a (Adverse dg e now) s"
  shows "does_what_it_posts a (Adverse dg e now) s"
proof -
  have l: "ledger_ok a s" "reserved_exact s" and e: "a (av_event_id e)" using assms by (simp_all add: books_agree_def)
  have "books_kept a s (snd (record_adverse_trust_event dg e now s))"
  proof (cases "validate_adverse_event e")
    case (Inl err)
    then show ?thesis using l by (simp add: record_adverse_trust_event_def Let_def books_kept_def)
  next
    case (Inr x)
    then show ?thesis using record_adverse_books [OF l(1) _ e, of dg now] by auto
  qed
  then show ?thesis
    by (intro posts_credits) (use l record_adverse_credits in \<open>simp_all add: books_kept_def\<close>)
qed

lemma debit_posts:
  assumes "books_agree a s"
  shows "does_what_it_posts a (Debit w n i kind cm au now) s"
proof -
  obtain res s' where r: "debit_workspace_guarded w n i kind cm au now s = (res, s')"
    by (cases "debit_workspace_guarded w n i kind cm au now s")
  have l: "ledger_ok a s" "reserved_exact s" using assms by (simp_all add: books_agree_def)
  show ?thesis by (rule posts_credits) (use debit_books [OF r l(1)] l r in simp_all)
qed

lemma transfer_posts:
  assumes "books_agree a s"
  shows "does_what_it_posts a (Transfer x y n i cap now) s"
proof -
  obtain res s' where r: "transfer_workspace_credits x y n i cap now s = (res, s')"
    by (cases "transfer_workspace_credits x y n i cap now s")
  have l: "ledger_ok a s" "reserved_exact s" using assms by (simp_all add: books_agree_def)
  show ?thesis
    by (rule posts_credits) (use transfer_books [OF r l(1)] l r in \<open>simp_all del: credit_posting.simps\<close>)
qed

lemma federated_posts:
  assumes "books_agree a s" "billing_legal a (Federated_usage p i w cost cap now) s"
  shows "does_what_it_posts a (Federated_usage p i w cost cap now) s"
proof -
  obtain res s' where r: "apply_federated_usage p i w cost cap now s = (res, s')"
    by (cases "apply_federated_usage p i w cost cap now s")
  have l: "ledger_ok a s" "reserved_exact s" and w: "dget (credit_money s) w \<noteq> None"
    using assms by (simp_all add: books_agree_def)
  show ?thesis by (rule posts_kept) (use federated_books [OF r l w] r in simp_all)
qed

lemma settle_posts:
  assumes "books_agree a s"
  shows "does_what_it_posts a (Settle_hold rid n) s"
  using assms keys_ops_books(2) [of a s rid n] keys_settle_exact [of s rid n] keys_ops_usage(3)
  by (intro posts_kept) (simp_all add: books_agree_def account_kept_def store_settle_def)

lemma billing_call:
  assumes "books_agree a s" "billing_legal a e s"
  shows "does_what_it_posts a e s"
proof -
  have l: "ledger_ok a s" "reserved_exact s" using assms(1) by (simp_all add: books_agree_def)
  show ?thesis
  proof (cases e)
    case (Hold w k n ik kr fresh now)
    then show ?thesis using store_reserve_kept [OF l] assms(2) by (intro posts_kept) (simp_all add: store_reserve_usage)
  next
    case (Release_hold rid)
    then show ?thesis using store_refund_kept [OF l] by (intro posts_kept) (simp_all add: store_refund_usage)
  next
    case (Authorize q fresh now)
    then show ?thesis
      using create_authorization_kept [OF l] by (intro posts_kept) (simp_all add: create_authorization_usage)
  next
    case (Finalize_authorization u i sc n ut g now)
    then show ?thesis
      using finalize_kept [OF l] finalize_usage by (intro posts_kept) (simp_all del: usage_posting.simps add: usage_posting.simps(4-))
  qed (use assms in \<open>auto intro: credit_posts adverse_posts debit_posts transfer_posts federated_posts settle_posts\<close>)
qed

interpretation billing_run: invariant_run billing_step "billing_legal a" "books_agree a" for a
  by unfold_locales (use billing_call in \<open>simp add: does_what_it_posts_def\<close>)

lemma journal_exact:
  assumes "books_agree a s" "legal_run billing_step (billing_legal a) es s"
  shows "(principal w (fold billing_step es s), usage_of w (fold billing_step es s)) =
    (principal w s + fst (journal es s w), usage_of w s + snd (journal es s w))"
  using assms
proof (induction es arbitrary: s)
  case (Cons e es)
  then have "does_what_it_posts a e s" by (simp add: billing_call)
  then show ?case using Cons by (simp add: does_what_it_posts_def split: prod.split)
qed simp

section \<open>Properties\<close>

definition demo_billing :: "billing_op list" where
  "demo_billing =
     [Credit demo_credit 0, Hold ''w'' ''k'' 30 (Some ''ik'') (Some 30) ''r1'' 0, Authorize demo_request ''x'' 0,
      Adverse (\<lambda>_. ''d'') demo_refund_event 7, Transfer ''w'' ''v'' 40 ''t1'' 1000 0,
      Finalize_authorization (\<lambda>x. x) ''gwa-1'' True 25 ''Credits'' None 9,
      Federated_usage ''eu'' ''a1'' ''w'' 30 100 0, Debit ''v'' 6 ''d1'' ''purchase'' None None 0]"

text \<open>C2. The books always reconcile.  After any run of credits, refunds and disputes, debits,
  transfers, reports of other planes, holds, settlements, releases, authorizations and finalizations,
  in any order, the recovery books are coherent, every workspace's principal and usage are exactly
  what they were plus what the calls posted according to their results, and the reserved counter of
  every account is the sum of its open reservations: its available balance is therefore its credits
  less its booked usage and its open holds.\<close>

theorem billing_journal_reconciles:
  assumes "ledger_ok adverse_id s" "reserved_exact s"
    and "legal_run billing_step (billing_legal adverse_id) ops s"
  shows "ledger_ok adverse_id (fold billing_step ops s) \<and>
    (\<forall>w. principal w (fold billing_step ops s) = principal w s + fst (journal ops s w) \<and>
       usage_of w (fold billing_step ops s) = usage_of w s + snd (journal ops s w)) \<and>
    (\<forall>w m. dget (credit_money (fold billing_step ops s)) w = Some m \<longrightarrow>
       available m = cm_credits m - usage_of w (fold billing_step ops s) - open_holds w (fold billing_step ops s))"
proof -
  have b: "books_agree adverse_id s" using assms(1,2) by (simp add: books_agree_def)
  have f: "books_agree adverse_id (fold billing_step ops s)" by (rule billing_run.run_inv [OF b assms(3)])
  have "available m = cm_credits m - usage_of w (fold billing_step ops s) - open_holds w (fold billing_step ops s)"
    if "dget (credit_money (fold billing_step ops s)) w = Some m" for w m
    using f that reserved_exactD [of "fold billing_step ops s" w m]
    by (simp add: books_agree_def available_def usage_of_def)
  then show ?thesis using f journal_exact [OF b assms(3)] by (simp add: books_agree_def)
qed

theorem billing_journal_reconciles_witness:
  "principal ''w'' (fold billing_step demo_billing (demo_store True)) = 960 \<and>
   usage_of ''w'' (fold billing_step demo_billing (demo_store True)) = 55"
proof -
  have e: "reserved_exact (demo_store True)"
    by (simp add: reserved_exact_def open_holds_def demo_store_def init_store_def new_credit_money_def)
  have l: "legal_run billing_step (billing_legal demo_adverse_id) demo_billing (demo_store True)" by code_simp
  have j: "journal demo_billing (demo_store True) ''w'' = (860, 55)" by code_simp
  have p: "principal ''w'' (demo_store True) = 100" "usage_of ''w'' (demo_store True) = 0" by code_simp+
  show ?thesis using billing_journal_reconciles [OF demo_ledger_ok e l] j p by simp
qed

end
