(* ===== verification/Money.thy ===== *)
theory Money
  imports Prelude
begin

text \<open>
  Money primitives, \<open>money.py\<close>: integer microdollars, their decimal text, the parsing of dollar
  amounts, and the price of tokens.

  The standard library's \<open>Decimal\<close> is modelled on the operations the code uses.  A finite value is a
  coefficient and an exponent; a product is rounded to the 28 digits of the default context, half to
  even; \<open>to_integral_value\<close> rounds with the mode that is passed.  The sign of zero is not kept, and
  texts whose exponent exceeds the library's range (about \<open>10\<^sup>1\<^sup>8\<close>) are outside the
  model.

  \<open>format_money_display\<close> and \<open>microdollars_to_float\<close> divide floating-point numbers for display and are
  not modelled.
\<close>

section \<open>Constants\<close>

definition MICRODOLLARS_PER_DOLLAR :: int where
  "MICRODOLLARS_PER_DOLLAR = 1000000"

definition MICRODOLLARS_PER_CENT :: int where
  "MICRODOLLARS_PER_CENT = 10000"

definition TOKENS_PER_MILLION :: int where
  "TOKENS_PER_MILLION = 1000000"

definition MIN_MICRODOLLARS :: int where
  "MIN_MICRODOLLARS = - (2 ^ 63)"

definition MAX_MICRODOLLARS :: int where
  "MAX_MICRODOLLARS = 2 ^ 63 - 1"

definition MAX_CHECKOUT_DOLLARS :: int where
  "MAX_CHECKOUT_DOLLARS = 10000"

section \<open>Decimal arithmetic\<close>

text \<open>\<open>Fin c e\<close> is \<open>c * 10\<^sup>e\<close>; \<open>NonFinite\<close> is an infinity or a NaN.\<close>

datatype decimal = Fin int int | NonFinite

text \<open>Rounding \<open>n / d\<close> for a positive \<open>d\<close>: half to even, half away from zero, and up.\<close>

definition round_half_even :: "int \<Rightarrow> int \<Rightarrow> int" where
  "round_half_even n d =
     (let q = n div d; r = n mod d
      in if 2 * r < d then q else if d < 2 * r then q + 1 else if even q then q else q + 1)"

definition round_half_up :: "int \<Rightarrow> int \<Rightarrow> int" where
  "round_half_up n d = (if 0 \<le> n then (2 * n + d) div (2 * d) else - ((2 * (- n) + d) div (2 * d)))"

definition round_ceiling :: "int \<Rightarrow> int \<Rightarrow> int" where
  "round_ceiling n d = - ((- n) div d)"

definition to_integral :: "(int \<Rightarrow> int \<Rightarrow> int) \<Rightarrow> int \<Rightarrow> int \<Rightarrow> int" where
  "to_integral rounding c e = (if 0 \<le> e then c * 10 ^ nat e else rounding c (10 ^ nat (- e)))"

function dec_digits :: "int \<Rightarrow> nat" where
  "dec_digits n = (if n < 10 then 1 else Suc (dec_digits (n div 10)))"
  by pat_completeness auto
termination
  by (relation "measure nat") auto

declare dec_digits.simps [simp del]

definition PREC :: nat where
  "PREC = 28"

definition dec_fix :: "int \<Rightarrow> int \<Rightarrow> decimal" where
  "dec_fix c e =
     (let k = dec_digits \<bar>c\<bar> - PREC
      in if k = 0 then Fin c e else Fin (round_half_even c (10 ^ k)) (e + int k))"

fun dec_mult :: "decimal \<Rightarrow> decimal \<Rightarrow> decimal" where
  "dec_mult (Fin c e) (Fin c' e') = dec_fix (c * c') (e + e')"
| "dec_mult _ _ = NonFinite"

text \<open>Comparison of two finite values, on a common exponent.\<close>

definition dec_le :: "int \<times> int \<Rightarrow> int \<times> int \<Rightarrow> bool" where
  "dec_le x y =
     (let m = min (snd x) (snd y)
      in fst x * 10 ^ nat (snd x - m) \<le> fst y * 10 ^ nat (snd y - m))"

section \<open>Decimal text\<close>

definition is_digit :: "char \<Rightarrow> bool" where
  "is_digit c \<longleftrightarrow> 48 \<le> (of_char c :: nat) \<and> (of_char c :: nat) \<le> 57"

definition split_sign :: "string \<Rightarrow> int \<times> string" where
  "split_sign s = (case s of [] \<Rightarrow> (1, s)
     | c # cs \<Rightarrow> if c = CHR ''-'' then (-1, cs) else if c = CHR ''+'' then (1, cs) else (1, s))"

definition parse_exponent :: "string \<Rightarrow> int option" where
  "parse_exponent s = (case s of [] \<Rightarrow> Some 0
     | c # cs \<Rightarrow>
         if c = CHR ''e'' \<or> c = CHR ''E''
         then (case split_sign cs of (g, ds) \<Rightarrow> if ds \<noteq> [] \<and> list_all is_digit ds then Some (g * digits_value ds) else None)
         else None)"

definition parse_number :: "int \<Rightarrow> string \<Rightarrow> decimal option" where
  "parse_number sign s =
     (let whole = takeWhile is_digit s; rest = dropWhile is_digit s;
          point = (rest \<noteq> [] \<and> hd rest = CHR ''.'');
          frac = (if point then takeWhile is_digit (tl rest) else []);
          suffix = (if point then dropWhile is_digit (tl rest) else rest)
      in if whole = [] \<and> frac = [] then None
         else case parse_exponent suffix of None \<Rightarrow> None
           | Some e \<Rightarrow> Some (Fin (sign * digits_value (whole @ frac)) (e - int (length frac))))"

definition special_number :: "string \<Rightarrow> bool" where
  "special_number s \<longleftrightarrow>
     (let t = py_lower s
      in t = ''inf'' \<or> t = ''infinity'' \<or>
         startswith ''nan'' t \<and> list_all is_digit (drop 3 t) \<or>
         startswith ''snan'' t \<and> list_all is_digit (drop 4 t))"

text \<open>\<open>Decimal(text)\<close>; \<open>None\<close> is \<open>InvalidOperation\<close>.\<close>

definition parse_decimal :: "string \<Rightarrow> decimal option" where
  "parse_decimal text =
     (case split_sign (filter (\<lambda>c. c \<noteq> CHR ''_'') (py_strip text)) of
        (sign, s) \<Rightarrow> if special_number s then Some NonFinite else parse_number sign s)"

section \<open>Operations\<close>

text \<open>The fraction of a decimal text: zero padded to its width, trailing zeros removed.\<close>

definition rstrip_zeros :: "string \<Rightarrow> string" where
  "rstrip_zeros s = rev (dropWhile (\<lambda>c. c = CHR ''0'') (rev s))"

definition decimal_text :: "nat \<Rightarrow> int \<Rightarrow> string" where
  "decimal_text w n =
     (let sign = (if n < 0 then ''-'' else []); v = \<bar>n\<bar>;
          whole = v div 10 ^ w; fraction = v mod 10 ^ w
      in if fraction = 0 then sign @ py_str_int whole
         else rstrip_zeros (sign @ py_str_int whole @ ''.'' @ zpad w (py_str_int fraction)))"

definition microdollars_to_decimal :: "int \<Rightarrow> string" where
  "microdollars_to_decimal n = decimal_text 6 n"

definition microdollars_per_million_tokens_to_token_decimal :: "int \<Rightarrow> string" where
  "microdollars_per_million_tokens_to_token_decimal n = decimal_text 12 n"

definition token_cost_microdollars :: "int \<Rightarrow> int \<Rightarrow> int" where
  "token_cost_microdollars tokens rate =
     (let raw = tokens * rate in if raw \<le> 0 then 0 else (raw + TOKENS_PER_MILLION div 2) div TOKENS_PER_MILLION)"

text \<open>The argument is \<open>str(value)\<close>.\<close>

definition dollars_to_microdollars :: "string \<Rightarrow> int result" where
  "dollars_to_microdollars text =
     (case parse_decimal text of None \<Rightarrow> Inl (ValueError ''invalid dollar amount'')
      | Some NonFinite \<Rightarrow> Inl (ValueError ''dollar amount must be finite'')
      | Some (Fin c e) \<Rightarrow>
          (if dec_le (1, 13) (\<bar>c\<bar>, e) then Inl (ValueError ''dollar amount must fit in signed int64 microdollars'')
           else case dec_mult (Fin c e) (Fin MICRODOLLARS_PER_DOLLAR 0) of
               NonFinite \<Rightarrow> Inl (ValueError ''invalid dollar amount'')
             | Fin p x \<Rightarrow>
                 (let rounded = to_integral round_half_up p x
                  in if MIN_MICRODOLLARS \<le> rounded \<and> rounded \<le> MAX_MICRODOLLARS then Inr rounded
                     else Inl (ValueError ''dollar amount must fit in signed int64 microdollars''))))"

definition key_limit_dollars :: "string \<Rightarrow> decimal result" where
  "key_limit_dollars text =
     (case parse_decimal text of None \<Rightarrow> Inl (ValueError ''must be a dollar amount'')
      | Some NonFinite \<Rightarrow> Inl (ValueError ''must be a finite dollar amount'')
      | Some (Fin c e) \<Rightarrow>
          (if c < 0 then Inl (ValueError ''must be non-negative'')
           else if \<not> dec_le (c, e) (9223372036854775807, -6)
           then Inl (ValueError ''must be at most 9223372036854.775807 dollars'')
           else Inr (Fin c e)))"

definition dollars_to_cents :: "string \<Rightarrow> int result" where
  "dollars_to_cents text =
     (case parse_decimal text of
        Some (Fin c e) \<Rightarrow>
          (case dec_mult (Fin c e) (Fin 100 0) of
             Fin p x \<Rightarrow> Inr (to_integral round_half_up p x) | NonFinite \<Rightarrow> Inl (ValueError ''invalid dollar amount''))
      | _ \<Rightarrow> Inl (ValueError ''invalid dollar amount''))"

definition format_money_precise :: "int \<Rightarrow> string" where
  "format_money_precise n =
     (let d = microdollars_to_decimal n
      in if startswith ''-'' d
         then (let body = drop 1 d in ''-$'' @ body @ (if CHR ''.'' \<notin> set body then ''.00'' else []))
         else ''$'' @ d @ (if CHR ''.'' \<notin> set d then ''.00'' else []))"

section \<open>Lemmas\<close>

subsection \<open>Digits\<close>

lemma digits_value_foldl:
  "foldl (\<lambda>n c. n * 10 + int (of_char c - 48)) a ds = a * 10 ^ length ds + digits_value ds"
proof (induction ds arbitrary: a)
  case (Cons c ds)
  have d: "digits_value (c # ds) = int (of_char c - 48) * 10 ^ length ds + digits_value ds"
    unfolding digits_value_def using Cons [of "int (of_char c - 48)"] by (simp add: digits_value_def)
  show ?case using Cons [of "a * 10 + int (of_char c - 48)"] by (simp add: d algebra_simps)
qed (simp add: digits_value_def)

lemma digits_value_append: "digits_value (xs @ ys) = digits_value xs * 10 ^ length ys + digits_value ys"
  unfolding digits_value_def [of "xs @ ys"] foldl_append
  using digits_value_foldl [of "digits_value xs" ys] by (simp add: digits_value_def)

lemma digits_value_zeros [simp]: "digits_value (replicate k (CHR ''0'')) = 0"
proof (induction k)
  case (Suc k)
  have "replicate (Suc k) (CHR ''0'') = replicate k (CHR ''0'') @ [CHR ''0'']" by (simp add: replicate_append_same)
  then show ?case using Suc by (simp add: digits_value_append del: replicate_Suc) (simp add: digits_value_def)
qed (simp add: digits_value_def)

lemma nat_str_length: "n < 10 ^ w \<Longrightarrow> 0 < w \<Longrightarrow> length (nat_str n) \<le> w"
proof (induction n arbitrary: w rule: nat_str.induct)
  case (1 n)
  show ?case
  proof (cases "n < 10")
    case False
    then obtain v where v: "w = Suc v" "0 < v" using 1(2,3) by (cases w; cases "w - 1") auto
    then have "n div 10 < 10 ^ v" using 1(2) by (simp add: less_mult_imp_div_less mult.commute)
    then show ?thesis using 1(1) [OF False _ v(2)] False v(1) by (simp add: nat_str.simps [of n])
  qed (use 1(3) in \<open>simp add: nat_str.simps [of n]\<close>)
qed

lemma nat_str_not_Nil [simp]: "nat_str n \<noteq> []"
  by (simp add: nat_str.simps [of n])

lemma nat_str_all_digits: "c \<in> set (nat_str n) \<Longrightarrow> is_digit c"
  using nat_str_digits [of c n] by (simp add: is_digit_def)

lemma is_digit_zero [simp]: "is_digit (CHR ''0'')" "\<not> is_digit (CHR ''.'')" "\<not> is_digit (CHR ''-'')" "\<not> is_digit (CHR ''+'')"
    "\<not> is_digit (CHR ''_'')"
  by (simp_all add: is_digit_def)

lemma zpad_digits:
  assumes "n < 10 ^ w" "0 < w"
  shows "length (zpad w (nat_str n)) = w" "digits_value (zpad w (nat_str n)) = int n"
    "c \<in> set (zpad w (nat_str n)) \<Longrightarrow> is_digit c"
  using nat_str_length [OF assms]
  by (auto simp: zpad_def digits_value_append digits_value_nat_str nat_str_all_digits)

lemma rstrip_zeros_split: "\<exists>k. s = rstrip_zeros s @ replicate k (CHR ''0'')"
proof -
  have "rev s = takeWhile (\<lambda>c. c = CHR ''0'') (rev s) @ dropWhile (\<lambda>c. c = CHR ''0'') (rev s)" by simp
  then have "s = rstrip_zeros s @ rev (takeWhile (\<lambda>c. c = CHR ''0'') (rev s))"
    unfolding rstrip_zeros_def by (metis rev_append rev_rev_ident)
  moreover have "takeWhile (\<lambda>c. c = CHR ''0'') (rev s) = replicate (length (takeWhile (\<lambda>c. c = CHR ''0'') (rev s))) (CHR ''0'')"
    by (rule replicate_eqI) (auto dest: set_takeWhileD)
  ultimately show ?thesis by (metis rev_replicate)
qed

lemma rstrip_zeros_append:
  assumes "c \<in> set ys" "c \<noteq> CHR ''0''"
  shows "rstrip_zeros (xs @ ys) = xs @ rstrip_zeros ys"
proof -
  have "\<exists>c \<in> set (rev ys). \<not> c = CHR ''0''" using assms by auto
  then show ?thesis by (auto simp: rstrip_zeros_def dropWhile_append)
qed

subsection \<open>Parsing a printed amount\<close>

lemma digit_not_space: "is_digit c \<Longrightarrow> \<not> py_space c"
  by (auto simp: is_digit_def py_space_def)

lemma punctuation_not_space: "\<not> py_space (CHR ''.'')" "\<not> py_space (CHR ''-'')"
  by (simp_all add: py_space_def)

lemma py_strip_plain: "(\<And>c. c \<in> set s \<Longrightarrow> \<not> py_space c) \<Longrightarrow> py_strip s = s"
proof -
  assume h: "\<And>c. c \<in> set s \<Longrightarrow> \<not> py_space c"
  then have "dropWhile py_space s = s" "dropWhile py_space (rev s) = rev s"
    by (auto simp: dropWhile_eq_self_iff hd_rev)
  then show ?thesis by (simp add: py_strip_def)
qed

lemma digit_not_special:
  assumes "is_digit c"
  shows "\<not> special_number (c # s)"
proof -
  have "py_lower_char c = c" using assms by (auto simp: py_lower_char_def is_digit_def Let_def)
  moreover have "c \<noteq> CHR ''i''" "c \<noteq> CHR ''n''" "c \<noteq> CHR ''s''" using assms by (auto simp: is_digit_def)
  ultimately show ?thesis by (auto simp: special_number_def py_lower_def startswith_def Let_def)
qed

lemma parse_number_digits:
  assumes "ds \<noteq> []" "\<forall>c \<in> set (ds @ fs). is_digit c"
  shows "parse_number g (ds @ ''.'' @ fs) = Some (Fin (g * digits_value (ds @ fs)) (- int (length fs)))"
    "parse_number g ds = Some (Fin (g * digits_value ds) 0)"
proof -
  have d: "takeWhile is_digit ds = ds" "dropWhile is_digit ds = []" "takeWhile is_digit fs = fs" "dropWhile is_digit fs = []"
    "takeWhile is_digit (ds @ CHR ''.'' # fs) = ds" "dropWhile is_digit (ds @ CHR ''.'' # fs) = CHR ''.'' # fs"
    using assms(2) by (simp_all add: takeWhile_eq_all_conv takeWhile_append dropWhile_append)
  show "parse_number g (ds @ ''.'' @ fs) = Some (Fin (g * digits_value (ds @ fs)) (- int (length fs)))"
    "parse_number g ds = Some (Fin (g * digits_value ds) 0)"
    using assms(1) by (simp_all add: parse_number_def parse_exponent_def Let_def d)
qed

lemma parse_decimal_plain:
  assumes "s \<noteq> []" "is_digit (hd s)" "\<forall>c \<in> set s. is_digit c \<or> c = CHR ''.''"
  shows "parse_decimal s = parse_number 1 s" "parse_decimal (''-'' @ s) = parse_number (-1) s"
proof -
  obtain c cs where s: "s = c # cs" using assms(1) by (cases s) auto
  have c: "is_digit c" using assms(2) s by simp
  have ne: "c \<noteq> CHR ''-''" "c \<noteq> CHR ''+''" using c by auto
  have "\<not> py_space x" if "x \<in> set s" for x
    using that assms(3) digit_not_space punctuation_not_space(1) by metis
  then have plain: "py_strip s = s" "py_strip (''-'' @ s) = ''-'' @ s"
    using punctuation_not_space(2) by (auto intro!: py_strip_plain)
  have "filter (\<lambda>c. c \<noteq> CHR ''_'') s = s" using assms(3) by (intro filter_True) auto
  then show "parse_decimal s = parse_number 1 s" "parse_decimal (''-'' @ s) = parse_number (-1) s"
    unfolding parse_decimal_def plain using digit_not_special [OF c] ne s by (simp_all add: split_sign_def)
qed

text \<open>The decimal text of \<open>n\<close> in units of \<open>10\<^sup>-\<^sup>w\<close> denotes \<open>n\<close>.\<close>

lemma decimal_text_parses:
  assumes "0 < w"
  obtains c k where "parse_decimal (decimal_text w n) = Some (Fin c (- int k))" "k \<le> w" "c * 10 ^ (w - k) = n"
proof -
  let ?p = "(10::int) ^ w" and ?g = "if n < 0 then -1 else (1::int)"
  define whole where "whole = nat (\<bar>n\<bar> div ?p)"
  define fraction where "fraction = nat (\<bar>n\<bar> mod ?p)"
  have wf: "int whole = \<bar>n\<bar> div ?p" "int fraction = \<bar>n\<bar> mod ?p"
    by (simp_all add: whole_def fraction_def pos_imp_zdiv_nonneg_iff)
  have sum: "int whole * ?p + int fraction = \<bar>n\<bar>" unfolding wf by (rule div_mult_mod_eq)
  have signed: "?g * (int whole * ?p + int fraction) = n" using sum by auto
  have str: "py_str_int (\<bar>n\<bar> div ?p) = nat_str whole" "py_str_int (\<bar>n\<bar> mod ?p) = nat_str fraction"
    by (simp_all add: py_str_int_def whole_def fraction_def not_less pos_imp_zdiv_nonneg_iff)
  have dw: "\<forall>c \<in> set (nat_str whole). is_digit c" using nat_str_all_digits by blast
  have hd: "is_digit (hd (nat_str whole @ xs))" for xs using nat_str_all_digits [of "hd (nat_str whole)" whole] by simp
  have parse: "parse_decimal ((if n < 0 then ''-'' else []) @ s) = parse_number ?g s"
    if "s \<noteq> []" "is_digit (hd s)" "\<forall>c \<in> set s. is_digit c \<or> c = CHR ''.''" for s
    using parse_decimal_plain [OF that] by simp
  show thesis
  proof (cases "fraction = 0")
    case True
    have "decimal_text w n = (if n < 0 then ''-'' else []) @ nat_str whole"
      using True wf(2) by (simp add: decimal_text_def Let_def str)
    then have "parse_decimal (decimal_text w n) = Some (Fin (?g * int whole) (- int 0))"
      using parse [of "nat_str whole"] hd [of "[]"] dw parse_number_digits(2) [of "nat_str whole" "[]" ?g]
      by (simp add: digits_value_nat_str)
    then show thesis using that [of _ 0] True signed by (simp add: mult.assoc)
  next
    case False
    let ?pad = "zpad w (nat_str fraction)" and ?f = "rstrip_zeros (zpad w (nat_str fraction))"
    have "fraction < 10 ^ w" using wf(2) by (metis of_nat_less_iff of_nat_numeral of_nat_power pos_mod_bound zero_less_numeral zero_less_power)
    note z = zpad_digits [OF this assms]
    obtain k where k: "?pad = ?f @ replicate k (CHR ''0'')" using rstrip_zeros_split by blast
    have "digits_value ?pad \<noteq> 0" using z(2) False by simp
    then have "\<exists>c \<in> set ?pad. c \<noteq> CHR ''0''"
      by (metis digits_value_zeros replicate_eqI)
    then have shape: "decimal_text w n = (if n < 0 then ''-'' else []) @ nat_str whole @ ''.'' @ ?f"
      using False wf(2) rstrip_zeros_append [of _ ?pad "(if n < 0 then ''-'' else []) @ nat_str whole @ ''.''"]
      by (auto simp: decimal_text_def Let_def str)
    have df: "\<forall>c \<in> set ?f. is_digit c" using z(3) k by (metis Un_iff set_append)
    have v: "digits_value (nat_str whole @ ?f) * 10 ^ k = int whole * ?p + int fraction"
    proof -
      have l: "length ?f + k = w" using z(1) k by (metis length_append length_replicate)
      have "int fraction = digits_value ?f * 10 ^ k" using z(2) k digits_value_append [of ?f "replicate k (CHR ''0'')"] by simp
      then show ?thesis using l by (simp add: digits_value_append digits_value_nat_str distrib_right power_add [symmetric] mult.assoc)
    qed
    have l: "w - length ?f = k" "length ?f \<le> w" using z(1) k by (metis length_append length_replicate add_diff_cancel_left' le_add1)+
    have all: "\<forall>c \<in> set (nat_str whole @ ?f). is_digit c" using dw df by auto
    have "parse_decimal (decimal_text w n) = parse_number ?g (nat_str whole @ ''.'' @ ?f)"
      unfolding shape by (rule parse) (use all hd in auto)
    also have "\<dots> = Some (Fin (?g * digits_value (nat_str whole @ ?f)) (- int (length ?f)))"
      by (rule parse_number_digits(1) [OF nat_str_not_Nil all])
    finally have "parse_decimal (decimal_text w n) = Some (Fin (?g * digits_value (nat_str whole @ ?f)) (- int (length ?f)))" .
    then show thesis using that [of _ "length ?f"] l v signed by (simp add: mult.assoc)
  qed
qed

subsection \<open>Rounding\<close>

lemma dec_digits_le: "0 \<le> n \<Longrightarrow> n < 10 ^ k \<Longrightarrow> 0 < k \<Longrightarrow> dec_digits n \<le> k"
proof (induction n arbitrary: k rule: dec_digits.induct)
  case (1 n)
  show ?case
  proof (cases "n < 10")
    case False
    then obtain v where v: "k = Suc v" "0 < v" using 1(3,4) by (cases k; cases "k - 1") auto
    then have "n div 10 < 10 ^ v" using 1(3) by simp
    then show ?thesis using 1(1) [OF False _ _ v(2)] False v(1) by (simp add: dec_digits.simps [of n])
  qed (use 1(4) in \<open>simp add: dec_digits.simps [of n]\<close>)
qed

lemma dec_fix_exact: "\<bar>c\<bar> < 10 ^ PREC \<Longrightarrow> dec_fix c e = Fin c e"
  using dec_digits_le [of "\<bar>c\<bar>" PREC] by (simp add: dec_fix_def PREC_def)

lemma round_half_up_exact: "0 < d \<Longrightarrow> round_half_up (n * d) d = n"
proof -
  have half: "(2 * (m * d) + d) div (2 * d) = m" if "0 < d" for m :: int
  proof -
    have "2 * (m * d) + d = d + m * (2 * d)" by simp
    then show ?thesis using that by (simp only: div_mult_self1) simp
  qed
  assume d: "0 < d"
  have "0 \<le> n * d \<longleftrightarrow> 0 \<le> n" using d by (simp add: zero_le_mult_iff)
  then show ?thesis using half [OF d, of n] half [OF d, of "- n"] by (simp add: round_half_up_def)
qed

lemma token_cost_near:
  assumes "0 \<le> tokens" "0 \<le> rate"
  shows "\<bar>2 * (token_cost_microdollars tokens rate * TOKENS_PER_MILLION - tokens * rate)\<bar> \<le> TOKENS_PER_MILLION"
proof -
  have "0 \<le> tokens * rate" using assms by simp
  moreover have "(tokens * rate + 500000) div 1000000 * 1000000 + (tokens * rate + 500000) mod 1000000 = tokens * rate + 500000"
    by (rule div_mult_mod_eq)
  moreover have "0 \<le> (tokens * rate + 500000) mod 1000000" "(tokens * rate + 500000) mod 1000000 < 1000000" by simp_all
  ultimately show ?thesis by (simp add: token_cost_microdollars_def TOKENS_PER_MILLION_def Let_def) linarith
qed

lemma token_cost_nonneg [simp]: "0 \<le> token_cost_microdollars tokens rate"
  by (auto simp add: token_cost_microdollars_def TOKENS_PER_MILLION_def Let_def)

lemma token_cost_mono:
  assumes "0 \<le> t" "t \<le> t'" "0 \<le> r" "r \<le> r'"
  shows "token_cost_microdollars t r \<le> token_cost_microdollars t' r'"
proof -
  have "t * r \<le> t' * r'" using assms by (intro mult_mono) simp_all
  then show ?thesis
    by (auto simp: token_cost_microdollars_def TOKENS_PER_MILLION_def Let_def intro: zdiv_mono1)
qed

section \<open>Properties\<close>

text \<open>C27. An amount survives its text: for every signed 64-bit number of microdollars, parsing the
  decimal text that \<open>microdollars_to_decimal\<close> prints gives back exactly that number, through the
  decimal parsing, the 28-digit product and the half-up rounding; and an amount that is parsed at all
  is within the signed 64-bit range.\<close>

theorem money_text_roundtrip:
  "(MIN_MICRODOLLARS \<le> n \<and> n \<le> MAX_MICRODOLLARS \<longrightarrow> dollars_to_microdollars (microdollars_to_decimal n) = Inr n) \<and>
   (dollars_to_microdollars s = Inr m \<longrightarrow> MIN_MICRODOLLARS \<le> m \<and> m \<le> MAX_MICRODOLLARS)"
proof (intro conjI impI)
  assume n: "MIN_MICRODOLLARS \<le> n \<and> n \<le> MAX_MICRODOLLARS"
  obtain c k where p: "parse_decimal (microdollars_to_decimal n) = Some (Fin c (- int k))" "k \<le> 6" "c * 10 ^ (6 - k) = n"
    using decimal_text_parses [of 6 n] by (auto simp: microdollars_to_decimal_def)
  have small: "\<bar>n\<bar> < 10 ^ 19" using n by (auto simp: MIN_MICRODOLLARS_def MAX_MICRODOLLARS_def)
  have split: "(10::int) ^ (6 - k) * 10 ^ k = 10 ^ 6" using p(2) by (simp add: power_add [symmetric])
  have nk: "c * 1000000 = n * 10 ^ k" 
  proof -
    have "c * 10 ^ 6 = c * (10 ^ (6 - k) * 10 ^ k)" by (simp only: split)
    then show ?thesis by (simp add: p(3) [symmetric])
  qed
  have "\<bar>c\<bar> \<le> \<bar>c\<bar> * 10 ^ (6 - k)" by (simp add: mult_le_cancel_left1)
  then have "\<bar>c\<bar> < 10 ^ 19" using p(3) small by (simp add: abs_mult)
  then have "dec_mult (Fin c (- int k)) (Fin MICRODOLLARS_PER_DOLLAR 0) = Fin (c * 1000000) (- int k)"
    by (simp add: MICRODOLLARS_PER_DOLLAR_def dec_fix_exact PREC_def abs_mult)
  moreover have "\<not> dec_le (1, 13) (\<bar>c\<bar>, - int k)"
  proof
    assume "dec_le (1, 13) (\<bar>c\<bar>, - int k)"
    then have "10 ^ (13 + k) \<le> \<bar>c\<bar>" by (simp add: dec_le_def Let_def min_def nat_add_distrib)
    then have "10 ^ (13 + k) * 10 ^ (6 - k) \<le> \<bar>c\<bar> * 10 ^ (6 - k)" by (intro mult_right_mono) simp_all
    moreover have "(10::int) ^ (13 + k) * 10 ^ (6 - k) = 10 ^ 19" using p(2) by (simp add: power_add [symmetric])
    ultimately show False using small p(3) by (auto simp: abs_mult)
  qed
  moreover have "to_integral round_half_up (c * 1000000) (- int k) = n"
    unfolding nk using round_half_up_exact [of "10 ^ k" n] by (cases "k = 0") (simp_all add: to_integral_def)
  ultimately show "dollars_to_microdollars (microdollars_to_decimal n) = Inr n"
    using n p(1) by (simp add: dollars_to_microdollars_def Let_def)
next
  assume "dollars_to_microdollars s = Inr m"
  then show "MIN_MICRODOLLARS \<le> m" and "m \<le> MAX_MICRODOLLARS"
    by (auto simp: dollars_to_microdollars_def Let_def split: option.splits decimal.splits if_splits)
qed

theorem money_text_roundtrip_witness:
  "dollars_to_microdollars (microdollars_to_decimal (- 9223372036854775808)) = Inr (- 9223372036854775808)"
  using money_text_roundtrip [of "- 9223372036854775808" "[]" 0] by (simp add: MIN_MICRODOLLARS_def MAX_MICRODOLLARS_def)

end
