(* ===== verification/Fees.thy ===== *)
theory Fees
  imports Money
begin

text \<open>
  Checkout fees: \<open>services/stripe_fees.py\<close> (the gross-up of a principal, the customer surcharge, the
  line items and the metadata of a checkout), \<open>services/checkout_fees.py\<close> (the rates of each rail and
  the search for the largest principal that fits the total cap) and the checks of the fee settings in
  \<open>config.py\<close>.

  The lemmas show that the principal survives the processor's fee, that charges are strictly
  monotone in the principal, and that the binary search ends at the largest principal that fits.
\<close>

section \<open>Processing fees\<close>

record processing_fee =
  pf_credit :: int
  pf_fee :: int
  pf_charge :: int
  pf_variable_basis_points :: int
  pf_fixed_fee :: int
  pf_minimum_fee :: int
  pf_max_fee :: "int option"
  pf_multiplier_basis_points :: int

definition ceil_div :: "int \<Rightarrow> int \<Rightarrow> int" where
  "ceil_div numerator denominator = (numerator + denominator - 1) div denominator"

definition estimated_processor_cost_cents :: "processing_fee \<Rightarrow> int" where
  "estimated_processor_cost_cents f =
     (let variable = ceil_div (pf_charge f * pf_variable_basis_points f) 10000;
          cost = variable + pf_fixed_fee f
      in case pf_max_fee f of Some m \<Rightarrow> min cost m | None \<Rightarrow> cost)"

definition credit_amount_microdollars :: "processing_fee \<Rightarrow> int" where
  "credit_amount_microdollars f = pf_credit f * MICRODOLLARS_PER_CENT"

definition processing_fee_microdollars :: "processing_fee \<Rightarrow> int" where
  "processing_fee_microdollars f = pf_fee f * MICRODOLLARS_PER_CENT"

definition charge_amount_microdollars :: "processing_fee \<Rightarrow> int" where
  "charge_amount_microdollars f = pf_charge f * MICRODOLLARS_PER_CENT"

text \<open>A line item is its product name and unit amount; the quantity is 1.\<close>

definition CREDITS_LINE_ITEM_NAME :: string where
  "CREDITS_LINE_ITEM_NAME = ''TrustedRouter credits''"

definition PROCESSING_FEE_LINE_ITEM_NAME :: string where
  "PROCESSING_FEE_LINE_ITEM_NAME = ''Payment processing fee''"

definition checkout_line_items :: "processing_fee \<Rightarrow> (string \<times> int) list" where
  "checkout_line_items f = (CREDITS_LINE_ITEM_NAME, pf_credit f) #
     (if pf_fee f \<noteq> 0 then [(PROCESSING_FEE_LINE_ITEM_NAME, pf_fee f)] else [])"

definition payment_intent_line_items :: "processing_fee \<Rightarrow> (string \<times> int) list" where
  "payment_intent_line_items f = (CREDITS_LINE_ITEM_NAME, pf_credit f) #
     (if pf_fee f \<noteq> 0 then [(PROCESSING_FEE_LINE_ITEM_NAME, pf_fee f)] else [])"

definition fee_metadata :: "string \<Rightarrow> string \<Rightarrow> string option \<Rightarrow> processing_fee \<Rightarrow> (string, string) dict" where
  "fee_metadata workspace_id payment_method initiating_user_id f =
     [(''workspace_id'', workspace_id), (''payment_method'', payment_method),
      (''credit_amount_microdollars'', py_str_int (credit_amount_microdollars f)),
      (''processing_fee_cents'', py_str_int (pf_fee f)),
      (''charge_amount_cents'', py_str_int (pf_charge f)),
      (''fee_variable_basis_points'', py_str_int (pf_variable_basis_points f)),
      (''fee_fixed_cents'', py_str_int (pf_fixed_fee f)),
      (''fee_minimum_cents'', py_str_int (pf_minimum_fee f)),
      (''fee_multiplier_basis_points'', py_str_int (pf_multiplier_basis_points f))] @
     (case pf_max_fee f of None \<Rightarrow> [] | Some m \<Rightarrow> [(''fee_max_cents'', py_str_int m)]) @
     (case initiating_user_id of None \<Rightarrow> [] | Some u \<Rightarrow> [(''initiating_user_id'', u)])"

definition scale_processing_fee_cents :: "int \<Rightarrow> int \<Rightarrow> int result" where
  "scale_processing_fee_cents cents multiplier =
     (if cents < 0 then Inl (ValueError ''fee cents cannot be negative'')
      else if multiplier < 10000 then Inl (ValueError ''fee_multiplier_basis_points must be at least 10000'')
      else Inr (ceil_div (cents * multiplier) 10000))"

text \<open>The base fee, before the surcharge.\<close>

definition base_fee_cents :: "int \<Rightarrow> int \<Rightarrow> int \<Rightarrow> int \<Rightarrow> int option \<Rightarrow> int" where
  "base_fee_cents credit bp fixed_cents minimum_cents max_cents =
     (let uncapped = ceil_div ((credit + fixed_cents) * 10000) (10000 - bp);
          charge = (case max_cents of None \<Rightarrow> uncapped
                    | Some m \<Rightarrow> if uncapped - credit > m then credit + m else uncapped)
      in max (charge - credit) minimum_cents)"

definition make_processing_fee :: "int \<Rightarrow> int \<Rightarrow> int \<Rightarrow> int \<Rightarrow> int option \<Rightarrow> int \<Rightarrow> processing_fee result" where
  "make_processing_fee credit bp fixed_cents minimum_cents max_cents multiplier =
     (if credit \<le> 0 then Inl (ValueError ''credit_amount_cents must be positive'')
      else if \<not> (0 \<le> bp \<and> bp < 10000) then Inl (ValueError ''variable_basis_points must be between 0 and 9999'')
      else if fixed_cents < 0 then Inl (ValueError ''fixed_fee_cents cannot be negative'')
      else if minimum_cents < 0 then Inl (ValueError ''minimum_fee_cents cannot be negative'')
      else if (case max_cents of None \<Rightarrow> False | Some m \<Rightarrow> m < 0) then Inl (ValueError ''max_fee_cents cannot be negative'')
      else if (case max_cents of None \<Rightarrow> False | Some m \<Rightarrow> minimum_cents > m)
      then Inl (ValueError ''minimum_fee_cents cannot exceed max_fee_cents'')
      else case scale_processing_fee_cents (base_fee_cents credit bp fixed_cents minimum_cents max_cents) multiplier of
          Inl err \<Rightarrow> Inl err
        | Inr fee \<Rightarrow> Inr \<lparr>pf_credit = credit, pf_fee = fee, pf_charge = credit + fee, pf_variable_basis_points = bp,
            pf_fixed_fee = fixed_cents, pf_minimum_fee = minimum_cents, pf_max_fee = max_cents,
            pf_multiplier_basis_points = multiplier\<rparr>)"

section \<open>Rails\<close>

datatype fee_rail = Card | Ach | Stablecoin | Adyen

definition FEE_RAILS :: "fee_rail list" where
  "FEE_RAILS = [Card, Ach, Stablecoin, Adyen]"

record fee_rates =
  fr_basis_points :: int
  fr_fixed_cents :: int
  fr_minimum_cents :: int
  fr_max_cents :: "int option"
  fr_multiplier_basis_points :: int

definition rates_processing_fee :: "fee_rates \<Rightarrow> int \<Rightarrow> processing_fee result" where
  "rates_processing_fee r credit = make_processing_fee credit (fr_basis_points r) (fr_fixed_cents r)
     (fr_minimum_cents r) (fr_max_cents r) (fr_multiplier_basis_points r)"

text \<open>The fields of \<open>Settings\<close> that price a checkout, with their defaults.\<close>

record fee_settings =
  stripe_card_fee_basis_points :: int
  stripe_card_fee_fixed_cents :: int
  checkout_card_fee_minimum_cents :: int
  stripe_stablecoin_fee_basis_points :: int
  stripe_stablecoin_fee_fixed_cents :: int
  stripe_ach_fee_basis_points :: int
  stripe_ach_fee_fixed_cents :: int
  stripe_ach_fee_max_cents :: int
  stripe_paypal_fee_multiplier_basis_points :: int
  adyen_card_fee_basis_points :: int
  adyen_card_fee_fixed_cents :: int

definition default_fee_settings :: fee_settings where
  "default_fee_settings = \<lparr>stripe_card_fee_basis_points = 290, stripe_card_fee_fixed_cents = 30,
     checkout_card_fee_minimum_cents = 80, stripe_stablecoin_fee_basis_points = 150,
     stripe_stablecoin_fee_fixed_cents = 0, stripe_ach_fee_basis_points = 80, stripe_ach_fee_fixed_cents = 0,
     stripe_ach_fee_max_cents = 500, stripe_paypal_fee_multiplier_basis_points = 15000,
     adyen_card_fee_basis_points = 0, adyen_card_fee_fixed_cents = 0\<rparr>"

text \<open>The checks of the fee fields when settings are loaded, in their order.\<close>

definition in_basis_points :: "int \<Rightarrow> bool" where
  "in_basis_points v \<longleftrightarrow> 0 \<le> v \<and> v < 10000"

definition validate_fee_settings :: "fee_settings \<Rightarrow> unit result" where
  "validate_fee_settings c =
     (if stripe_paypal_fee_multiplier_basis_points c < 10000
      then Inl (ValueError ''TR_STRIPE_PAYPAL_FEE_MULTIPLIER_BASIS_POINTS must be at least 10000'')
      else if \<not> in_basis_points (stripe_card_fee_basis_points c)
      then Inl (ValueError ''TR_STRIPE_CARD_FEE_BASIS_POINTS must be between 0 and 9999'')
      else if \<not> in_basis_points (stripe_stablecoin_fee_basis_points c)
      then Inl (ValueError ''TR_STRIPE_STABLECOIN_FEE_BASIS_POINTS must be between 0 and 9999'')
      else if \<not> in_basis_points (stripe_ach_fee_basis_points c)
      then Inl (ValueError ''TR_STRIPE_ACH_FEE_BASIS_POINTS must be between 0 and 9999'')
      else if stripe_card_fee_fixed_cents c < 0
      then Inl (ValueError ''TR_STRIPE_CARD_FEE_FIXED_CENTS cannot be negative'')
      else if checkout_card_fee_minimum_cents c < 0
      then Inl (ValueError ''TR_CHECKOUT_CARD_FEE_MINIMUM_CENTS cannot be negative'')
      else if stripe_stablecoin_fee_fixed_cents c < 0
      then Inl (ValueError ''TR_STRIPE_STABLECOIN_FEE_FIXED_CENTS cannot be negative'')
      else if stripe_ach_fee_fixed_cents c < 0
      then Inl (ValueError ''TR_STRIPE_ACH_FEE_FIXED_CENTS cannot be negative'')
      else if stripe_ach_fee_max_cents c < 0
      then Inl (ValueError ''TR_STRIPE_ACH_FEE_MAX_CENTS cannot be negative'')
      else if \<not> in_basis_points (adyen_card_fee_basis_points c)
      then Inl (ValueError ''TR_ADYEN_CARD_FEE_BASIS_POINTS must be between 0 and 9999'')
      else if adyen_card_fee_fixed_cents c < 0
      then Inl (ValueError ''TR_ADYEN_CARD_FEE_FIXED_CENTS cannot be negative'')
      else Inr ())"

fun rail_fee_rates :: "fee_settings \<Rightarrow> fee_rail \<Rightarrow> fee_rates" where
  "rail_fee_rates c Ach = \<lparr>fr_basis_points = stripe_ach_fee_basis_points c,
     fr_fixed_cents = stripe_ach_fee_fixed_cents c, fr_minimum_cents = 0,
     fr_max_cents = Some (stripe_ach_fee_max_cents c),
     fr_multiplier_basis_points = stripe_paypal_fee_multiplier_basis_points c\<rparr>"
| "rail_fee_rates c Stablecoin = \<lparr>fr_basis_points = stripe_stablecoin_fee_basis_points c,
     fr_fixed_cents = stripe_stablecoin_fee_fixed_cents c, fr_minimum_cents = 0, fr_max_cents = None,
     fr_multiplier_basis_points = stripe_paypal_fee_multiplier_basis_points c\<rparr>"
| "rail_fee_rates c Adyen = \<lparr>fr_basis_points = adyen_card_fee_basis_points c,
     fr_fixed_cents = adyen_card_fee_fixed_cents c, fr_minimum_cents = checkout_card_fee_minimum_cents c,
     fr_max_cents = None, fr_multiplier_basis_points = 10000\<rparr>"
| "rail_fee_rates c Card = \<lparr>fr_basis_points = stripe_card_fee_basis_points c,
     fr_fixed_cents = stripe_card_fee_fixed_cents c, fr_minimum_cents = checkout_card_fee_minimum_cents c,
     fr_max_cents = None, fr_multiplier_basis_points = stripe_paypal_fee_multiplier_basis_points c\<rparr>"

definition rail_processing_fee :: "fee_settings \<Rightarrow> fee_rail \<Rightarrow> int \<Rightarrow> processing_fee result" where
  "rail_processing_fee c rail credit = rates_processing_fee (rail_fee_rates c rail) credit"

text \<open>The loop of \<open>stripe_max_credit_cents\<close>.\<close>

function search_credit :: "fee_rates \<Rightarrow> int \<Rightarrow> int \<Rightarrow> int result" where
  "search_credit r low high =
     (if low < high
      then let middle = (low + high + 1) div 2
           in case rates_processing_fee r middle of
                Inl err \<Rightarrow> Inl err
              | Inr f \<Rightarrow> if pf_charge f \<le> MAX_CHECKOUT_DOLLARS * 100 then search_credit r middle high
                         else search_credit r low (middle - 1)
      else Inr low)"
  by pat_completeness auto
termination
  by (relation "measure (\<lambda>(r, low, high). nat (high - low))") auto

declare search_credit.simps [simp del]

definition stripe_max_credit_cents :: "fee_settings \<Rightarrow> fee_rail \<Rightarrow> int result" where
  "stripe_max_credit_cents c rail = search_credit (rail_fee_rates c rail) 0 (MAX_CHECKOUT_DOLLARS * 100)"

section \<open>Lemmas\<close>

subsection \<open>Ceiling division\<close>

lemma int_div_less_iff:
  fixes d n q :: int
  assumes "0 < d"
  shows "n div d < q \<longleftrightarrow> n < q * d"
proof
  assume "n div d < q"
  then have "(n div d + 1) * d \<le> q * d" using assms by (intro mult_right_mono) auto
  moreover have "n < (n div d + 1) * d"
    using div_mult_mod_eq [of n d] pos_mod_bound [OF assms, of n] by (simp only: distrib_right)
  ultimately show "n < q * d" by linarith
next
  assume n: "n < q * d"
  show "n div d < q"
  proof (rule ccontr)
    assume "\<not> n div d < q"
    then have "q * d \<le> n div d * d" using assms by (intro mult_right_mono) auto
    then show False using n div_mult_mod_eq [of n d] pos_mod_sign [OF assms, of n] by linarith
  qed
qed

lemma ceil_div_le_iff:
  assumes "0 < d"
  shows "ceil_div n d \<le> q \<longleftrightarrow> n \<le> q * d"
proof -
  have "ceil_div n d \<le> q \<longleftrightarrow> (n + d - 1) div d < q + 1" by (auto simp: ceil_div_def)
  also have "\<dots> \<longleftrightarrow> n + d - 1 < (q + 1) * d" by (rule int_div_less_iff [OF assms])
  also have "\<dots> \<longleftrightarrow> n \<le> q * d" by (auto simp: algebra_simps)
  finally show ?thesis .
qed

lemma ceil_div_mono: "0 < d \<Longrightarrow> n \<le> n' \<Longrightarrow> ceil_div n d \<le> ceil_div n' d"
  by (simp add: ceil_div_def zdiv_mono1)

lemma ceil_div_upper: "0 < d \<Longrightarrow> n \<le> ceil_div n d * d"
  using ceil_div_le_iff [of d n "ceil_div n d"] by simp

lemma ceil_div_ge: "0 < d \<Longrightarrow> q * d \<le> n \<Longrightarrow> q \<le> ceil_div n d"
  using ceil_div_upper [of d n] by (meson mult_le_cancel_right_pos order_trans)

subsection \<open>The fee of a valid schedule\<close>

definition rates_ok :: "fee_rates \<Rightarrow> bool" where
  "rates_ok r \<longleftrightarrow> in_basis_points (fr_basis_points r) \<and> 0 \<le> fr_fixed_cents r \<and> 0 \<le> fr_minimum_cents r \<and>
     10000 \<le> fr_multiplier_basis_points r \<and>
     (case fr_max_cents r of None \<Rightarrow> True | Some m \<Rightarrow> fr_minimum_cents r \<le> m)"

definition rates_base :: "fee_rates \<Rightarrow> int \<Rightarrow> int" where
  "rates_base r c = base_fee_cents c (fr_basis_points r) (fr_fixed_cents r) (fr_minimum_cents r) (fr_max_cents r)"

definition rates_charge :: "fee_rates \<Rightarrow> int \<Rightarrow> int" where
  "rates_charge r c = c + ceil_div (rates_base r c * fr_multiplier_basis_points r) 10000"

lemma validated_rates: "validate_fee_settings c = Inr () \<Longrightarrow> rates_ok (rail_fee_rates c rail)"
  by (cases rail) (auto simp: validate_fee_settings_def rates_ok_def in_basis_points_def split: if_splits)

lemma rates_base_nonneg: "rates_ok r \<Longrightarrow> 0 \<le> rates_base r c"
  by (auto simp: rates_ok_def rates_base_def base_fee_cents_def Let_def max_def)

lemma rates_processing_fee_cases:
  assumes "rates_processing_fee r c = Inr f"
  shows "rates_ok r" "0 < c" "pf_credit f = c" "pf_charge f = rates_charge r c" "pf_fee f = rates_charge r c - c"
    "pf_variable_basis_points f = fr_basis_points r" "pf_fixed_fee f = fr_fixed_cents r" "pf_max_fee f = fr_max_cents r"
  using assms
  by (auto simp: rates_processing_fee_def make_processing_fee_def scale_processing_fee_cents_def rates_ok_def
      in_basis_points_def rates_charge_def rates_base_def split: if_splits sum.splits option.splits)

lemma rates_processing_fee_total:
  assumes "rates_ok r" "0 < c"
  shows "\<exists>f. rates_processing_fee r c = Inr f"
  using assms rates_base_nonneg [OF assms(1), of c]
  by (auto simp: rates_processing_fee_def make_processing_fee_def scale_processing_fee_cents_def rates_ok_def
      in_basis_points_def rates_base_def split: option.splits)

lemma surcharge_covers_base:
  assumes "rates_ok r"
  shows "rates_base r c \<le> rates_charge r c - c"
proof -
  have "rates_base r c * 10000 \<le> rates_base r c * fr_multiplier_basis_points r"
    using assms rates_base_nonneg [OF assms] by (intro mult_left_mono) (simp_all add: rates_ok_def)
  from ceil_div_ge [OF _ this] show ?thesis by (simp add: rates_charge_def)
qed

definition uncapped_charge :: "fee_rates \<Rightarrow> int \<Rightarrow> int" where
  "uncapped_charge r c = ceil_div ((c + fr_fixed_cents r) * 10000) (10000 - fr_basis_points r)"

lemma rates_base_eq:
  "rates_base r c = max (case fr_max_cents r of None \<Rightarrow> uncapped_charge r c - c
     | Some m \<Rightarrow> min (uncapped_charge r c - c) m) (fr_minimum_cents r)"
  by (simp add: rates_base_def base_fee_cents_def uncapped_charge_def Let_def min_def split: option.split)

lemma uncapped_fee_mono:
  assumes "rates_ok r" "c \<le> c'"
  shows "uncapped_charge r c - c \<le> uncapped_charge r c' - c'"
proof -
  let ?d = "10000 - fr_basis_points r" and ?u = "uncapped_charge r c'"
  have d: "0 < ?d" "?d \<le> 10000" using assms(1) by (simp_all add: rates_ok_def in_basis_points_def)
  have "(c' + fr_fixed_cents r) * 10000 \<le> ?u * ?d" unfolding uncapped_charge_def by (rule ceil_div_upper [OF d(1)])
  moreover have "(c' - c) * ?d \<le> (c' - c) * 10000" using assms(2) d(2) by (intro mult_left_mono) simp_all
  ultimately have "(c + fr_fixed_cents r) * 10000 \<le> (?u - (c' - c)) * ?d" by (simp add: algebra_simps)
  then have "uncapped_charge r c \<le> ?u - (c' - c)"
    unfolding uncapped_charge_def [of r c] by (simp only: ceil_div_le_iff [OF d(1)])
  then show ?thesis by simp
qed

lemma rates_charge_mono:
  assumes "rates_ok r" "c < c'"
  shows "rates_charge r c < rates_charge r c'"
proof -
  have "rates_base r c \<le> rates_base r c'"
    using uncapped_fee_mono [OF assms(1), of c c'] assms(2) by (auto simp: rates_base_eq split: option.split)
  then have "rates_base r c * fr_multiplier_basis_points r \<le> rates_base r c' * fr_multiplier_basis_points r"
    using assms(1) by (intro mult_right_mono) (simp_all add: rates_ok_def)
  from ceil_div_mono [OF _ this, of 10000] show ?thesis using assms(2) by (simp add: rates_charge_def)
qed

lemma principal_survives:
  assumes "rates_processing_fee r c = Inr f"
  shows "c \<le> pf_charge f - estimated_processor_cost_cents f"
proof -
  note f = rates_processing_fee_cases [OF assms]
  let ?d = "10000 - fr_basis_points r" and ?charge = "rates_charge r c"
  have d: "0 < ?d" using f(1) by (simp add: rates_ok_def in_basis_points_def)
  have base: "rates_base r c \<le> ?charge - c" by (rule surcharge_covers_base [OF f(1)])
  have full: "ceil_div (?charge * fr_basis_points r) 10000 + fr_fixed_cents r \<le> ?charge - c"
    if "uncapped_charge r c \<le> ?charge"
  proof -
    have "(c + fr_fixed_cents r) * 10000 \<le> uncapped_charge r c * ?d"
      unfolding uncapped_charge_def by (rule ceil_div_upper [OF d])
    also have "\<dots> \<le> ?charge * ?d" using that d by (intro mult_right_mono) simp_all
    finally have "?charge * fr_basis_points r \<le> (?charge - c - fr_fixed_cents r) * 10000" by (simp add: algebra_simps)
    then have "ceil_div (?charge * fr_basis_points r) 10000 \<le> ?charge - c - fr_fixed_cents r"
      by (subst ceil_div_le_iff) simp_all
    then show ?thesis by simp
  qed
  show ?thesis
  proof (cases "fr_max_cents r")
    case None
    then have "uncapped_charge r c \<le> ?charge" using base by (simp add: rates_base_eq)
    from full [OF this] show ?thesis using None f by (simp add: estimated_processor_cost_cents_def Let_def)
  next
    case (Some m)
    consider "uncapped_charge r c \<le> ?charge" | "m \<le> ?charge - c"
      using base Some by (auto simp: rates_base_eq min_def split: if_splits)
    then show ?thesis
    proof cases
      case 1
      from full [OF this] show ?thesis using Some f by (simp add: estimated_processor_cost_cents_def Let_def)
    next
      case 2
      then show ?thesis using Some f by (simp add: estimated_processor_cost_cents_def Let_def)
    qed
  qed
qed

subsection \<open>The search\<close>

abbreviation total_cap :: int where
  "total_cap \<equiv> MAX_CHECKOUT_DOLLARS * 100"

lemma search_credit_largest:
  assumes "rates_ok r" "0 \<le> low" "low \<le> high" "low = 0 \<or> rates_charge r low \<le> total_cap"
    and "\<forall>c > high. total_cap < rates_charge r c"
  shows "\<exists>m. search_credit r low high = Inr m \<and> low \<le> m \<and> (m = 0 \<or> rates_charge r m \<le> total_cap) \<and>
    (\<forall>c > m. total_cap < rates_charge r c)"
  using assms
proof (induction r low high rule: search_credit.induct)
  case (1 r low high)
  show ?case
  proof (cases "low < high")
    case False
    then show ?thesis using 1(4-) by (subst search_credit.simps) auto
  next
    case True
    let ?m = "(low + high + 1) div 2"
    have m: "low < ?m" "?m \<le> high" "0 < ?m" using True 1(4) by auto
    obtain f where f: "rates_processing_fee r ?m = Inr f" using rates_processing_fee_total [OF 1(3) m(3)] by blast
    have run: "search_credit r low high =
        (if rates_charge r ?m \<le> total_cap then search_credit r ?m high else search_credit r low (?m - 1))"
      using True f rates_processing_fee_cases(4) [OF f] by (subst search_credit.simps) (simp add: Let_def)
    show ?thesis
    proof (cases "rates_charge r ?m \<le> total_cap")
      case fits: True
      then have "\<exists>n. search_credit r ?m high = Inr n \<and> ?m \<le> n \<and> (n = 0 \<or> rates_charge r n \<le> total_cap) \<and>
          (\<forall>c > n. total_cap < rates_charge r c)"
        using m 1(3,7) rates_processing_fee_cases(4) [OF f] by (intro 1(1) [OF True refl f]) auto
      then show ?thesis using run fits m(1) by force
    next
      case over: False
      have "\<forall>c > ?m - 1. total_cap < rates_charge r c"
      proof (intro allI impI)
        fix c
        assume "?m - 1 < c"
        then have "?m = c \<or> ?m < c" by arith
        then show "total_cap < rates_charge r c" using over rates_charge_mono [OF 1(3), of ?m c] by auto
      qed
      then have "\<exists>n. search_credit r low (?m - 1) = Inr n \<and> low \<le> n \<and> (n = 0 \<or> rates_charge r n \<le> total_cap) \<and>
          (\<forall>c > n. total_cap < rates_charge r c)"
        using m over 1(3,4,6) rates_processing_fee_cases(4) [OF f] by (intro 1(2) [OF True refl f]) auto
      then show ?thesis using run over by simp
    qed
  qed
qed

lemma stripe_max_credit_largest:
  assumes "validate_fee_settings c = Inr ()"
  shows "\<exists>m. stripe_max_credit_cents c rail = Inr m \<and> 0 \<le> m \<and>
    (\<forall>credit f. rail_processing_fee c rail credit = Inr f \<longrightarrow> (pf_charge f \<le> total_cap \<longleftrightarrow> credit \<le> m))"
proof -
  let ?r = "rail_fee_rates c rail"
  have ok: "rates_ok ?r" by (rule validated_rates [OF assms])
  have big: "\<forall>x > total_cap. total_cap < rates_charge ?r x"
  proof (intro allI impI)
    fix x
    assume "total_cap < x"
    moreover have "x \<le> rates_charge ?r x" using surcharge_covers_base [OF ok, of x] rates_base_nonneg [OF ok, of x] by simp
    ultimately show "total_cap < rates_charge ?r x" by simp
  qed
  obtain m where m: "search_credit ?r 0 total_cap = Inr m" "0 \<le> m" "m = 0 \<or> rates_charge ?r m \<le> total_cap"
    "\<forall>x > m. total_cap < rates_charge ?r x"
    using search_credit_largest [OF ok _ _ _ big, of 0] by (auto simp: MAX_CHECKOUT_DOLLARS_def)
  have "pf_charge f \<le> total_cap \<longleftrightarrow> credit \<le> m" if "rail_processing_fee c rail credit = Inr f" for credit f
  proof -
    note p = rates_processing_fee_cases [OF that [unfolded rail_processing_fee_def]]
    have "rates_charge ?r credit \<le> rates_charge ?r m" if "credit \<le> m"
      using rates_charge_mono [OF ok, of credit m] that by (cases "credit = m") auto
    then show ?thesis using m(3,4) p(2,4) by (metis leD leI order.trans)
  qed
  then show ?thesis using m(1,2) by (auto simp: stripe_max_credit_cents_def)
qed

section \<open>Properties\<close>

text \<open>C26. The credited principal survives the processor's fee: whenever a rail prices a purchase, the
  customer's charge less the processor's own estimated cost is at least the principal that is
  credited, whatever floor, cap and surcharge apply; the fee is not negative; and the line items of
  the checkout add up to the charge.\<close>

theorem principal_survives_fee:
  assumes "rail_processing_fee c rail credit = Inr f"
  shows "pf_credit f = credit \<and> credit \<le> pf_charge f - estimated_processor_cost_cents f \<and> 0 \<le> pf_fee f \<and>
    sum_list (map snd (checkout_line_items f)) = pf_charge f \<and>
    charge_amount_microdollars f = credit_amount_microdollars f + processing_fee_microdollars f"
proof -
  note r = assms [unfolded rail_processing_fee_def]
  note p = rates_processing_fee_cases [OF r]
  show ?thesis
    using principal_survives [OF r] p surcharge_covers_base [OF p(1), of credit] rates_base_nonneg [OF p(1), of credit]
    by (auto simp: checkout_line_items_def charge_amount_microdollars_def credit_amount_microdollars_def
        processing_fee_microdollars_def MICRODOLLARS_PER_CENT_def)
qed

theorem principal_survives_fee_witness:
  "\<exists>f. rail_processing_fee default_fee_settings Card 10000 = Inr f \<and> pf_charge f = 10495 \<and>
     10000 \<le> pf_charge f - estimated_processor_cost_cents f"
proof -
  have "(case rail_processing_fee default_fee_settings Card 10000 of Inr f \<Rightarrow> pf_charge f | Inl _ \<Rightarrow> 0) = 10495" by code_simp
  then obtain f where f: "rail_processing_fee default_fee_settings Card 10000 = Inr f" "pf_charge f = 10495"
    by (cases "rail_processing_fee default_fee_settings Card 10000") simp_all
  show ?thesis using principal_survives_fee [OF f(1)] f by blast
qed

text \<open>C25. The search for the largest purchase ends, without raising, at the largest principal that
  fits: with settings that passed their checks, \<open>stripe_max_credit_cents\<close> returns a number, and a
  purchase on the rail stays within the total cap exactly when its principal is at most that
  number.\<close>

theorem max_credit_search_exact:
  assumes "validate_fee_settings c = Inr ()"
  shows "\<exists>m. stripe_max_credit_cents c rail = Inr m \<and> 0 \<le> m \<and>
    (\<forall>credit f. rail_processing_fee c rail credit = Inr f \<longrightarrow>
       (pf_charge f \<le> MAX_CHECKOUT_DOLLARS * 100 \<longleftrightarrow> credit \<le> m))"
  by (rule stripe_max_credit_largest [OF assms])

theorem max_credit_search_exact_witness:
  "\<exists>m. stripe_max_credit_cents default_fee_settings Card = Inr m \<and> 10000 \<le> m"
proof -
  have v: "validate_fee_settings default_fee_settings = Inr ()" by code_simp
  have "(case rail_processing_fee default_fee_settings Card 10000 of Inr f \<Rightarrow> pf_charge f \<le> MAX_CHECKOUT_DOLLARS * 100 | Inl _ \<Rightarrow> False)"
    by code_simp
  then obtain f where "rail_processing_fee default_fee_settings Card 10000 = Inr f" "pf_charge f \<le> MAX_CHECKOUT_DOLLARS * 100"
    by (cases "rail_processing_fee default_fee_settings Card 10000") simp_all
  then show ?thesis using max_credit_search_exact [OF v, of Card] by blast
qed

end
