(* ===== verification/Pricing.thy ===== *)
theory Pricing
  imports Money Models
begin

text \<open>
  Customer prices: \<open>pricing.py\<close> (markup and floor, cache prices, price tiers and their parsing),
  \<open>openai_service_tiers.py\<close>, \<open>custom_model_billing.py\<close>, \<open>partner_billing.py\<close>,
  \<open>app_markup_billing.py\<close> and \<open>cost_microdollars\<close> of \<open>routes/helpers.py\<close>.

  A tier list read from a catalog snapshot is checked when it is read; the lemmas show what the
  checks buy: the selection always finds a tier, and rates and charges never fall as a request
  grows.

  JSON values are the datatype \<open>json\<close>.  A float carries its exact value and its \<open>repr\<close>, which is what
  \<open>str(value)\<close> prints.
\<close>

section \<open>Price tiers\<close>

record price_tier =
  pt_max_prompt_tokens :: "int option"
  pt_prompt :: microdollars
  pt_completion :: microdollars
  pt_cached :: "microdollars option"

record request_rates =
  rr_prompt :: microdollars
  rr_completion :: microdollars
  rr_cached :: "microdollars option"

definition flat_tier :: "int \<Rightarrow> int \<Rightarrow> int option \<Rightarrow> price_tier list" where
  "flat_tier prompt completion cached =
     [\<lparr>pt_max_prompt_tokens = None, pt_prompt = prompt, pt_completion = completion, pt_cached = cached\<rparr>]"

definition tier_fits :: "int \<Rightarrow> price_tier \<Rightarrow> bool" where
  "tier_fits prompt_tokens t =
     (case pt_max_prompt_tokens t of None \<Rightarrow> True | Some m \<Rightarrow> prompt_tokens \<le> m)"

text \<open>On an empty tuple the code raises \<open>IndexError\<close>, here \<open>None\<close>.\<close>

definition select_price_tier :: "price_tier list \<Rightarrow> int \<Rightarrow> price_tier option" where
  "select_price_tier tiers prompt_tokens =
     (case List.find (tier_fits prompt_tokens) tiers of
        Some t \<Rightarrow> Some t
      | None \<Rightarrow> if tiers = [] then None else Some (last tiers))"

definition resolve_request_rates :: "price_tier list \<Rightarrow> int \<Rightarrow> int \<Rightarrow> int \<Rightarrow> request_rates" where
  "resolve_request_rates tiers headline_prompt headline_completion total_prompt_tokens =
     (case select_price_tier tiers total_prompt_tokens of
        Some t \<Rightarrow> \<lparr>rr_prompt = pt_prompt t, rr_completion = pt_completion t, rr_cached = pt_cached t\<rparr>
      | None \<Rightarrow> \<lparr>rr_prompt = headline_prompt, rr_completion = headline_completion, rr_cached = None\<rparr>)"

section \<open>Markup\<close>

definition STANDARD_PRICE_MARKUP_BASIS_POINTS :: int where
  "STANDARD_PRICE_MARKUP_BASIS_POINTS = 550"

definition SIGNED_RECEIPT_TOTAL_FEE_BASIS_POINTS :: int where
  "SIGNED_RECEIPT_TOTAL_FEE_BASIS_POINTS = 1200"

text \<open>\<open>Decimal(10_550) / Decimal(10_000)\<close>, which is 1.055.\<close>

definition PRICE_MARKUP_RATIO :: decimal where
  "PRICE_MARKUP_RATIO = Fin 1055 (-3)"

definition PRICE_FLOOR_MICRODOLLARS_PER_M :: int where
  "PRICE_FLOOR_MICRODOLLARS_PER_M = 10000"

text \<open>\<open>int(d.to_integral_value(rounding))\<close>; the product of finite decimals is finite.\<close>

definition dec_int :: "(int \<Rightarrow> int \<Rightarrow> int) \<Rightarrow> decimal \<Rightarrow> int" where
  "dec_int rounding d = (case d of Fin c e \<Rightarrow> to_integral rounding c e | NonFinite \<Rightarrow> 0)"

definition marked_up :: "int \<Rightarrow> int" where
  "marked_up cost = dec_int round_ceiling (dec_mult (Fin cost 0) PRICE_MARKUP_RATIO)"

definition customer_price :: "int \<Rightarrow> int" where
  "customer_price cost = max (marked_up cost) PRICE_FLOOR_MICRODOLLARS_PER_M"

definition provider_manifest_customer_price :: "int \<Rightarrow> bool \<Rightarrow> int" where
  "provider_manifest_customer_price cost apply_markup = (if apply_markup then customer_price cost else cost)"

definition provider_manifest_cached_customer_price :: "int \<Rightarrow> string \<Rightarrow> bool \<Rightarrow> int" where
  "provider_manifest_cached_customer_price cost provider_slug apply_markup =
     (if provider_slug = ''hixtube'' \<and> apply_markup \<and> 0 < cost then marked_up cost
      else provider_manifest_customer_price cost apply_markup)"

definition customer_fixed_price_microdollars :: "int \<Rightarrow> int result" where
  "customer_fixed_price_microdollars cost =
     (if cost < 0 then Inl (ValueError ''fixed provider price must be a non-negative integer'')
      else Inr (marked_up cost))"

definition signed_receipt_price_microdollars :: "int \<Rightarrow> int \<Rightarrow> int result" where
  "signed_receipt_price_microdollars standard_price total_fee_basis_points =
     (if standard_price < 0 then Inl (ValueError ''standard price must be a non-negative integer'')
      else if total_fee_basis_points < STANDARD_PRICE_MARKUP_BASIS_POINTS
      then Inl (ValueError ''total fee cannot be below the standard fee'')
      else if standard_price = 0 then Inr 0
      else let numerator = 10000 + total_fee_basis_points;
               denominator = 10000 + STANDARD_PRICE_MARKUP_BASIS_POINTS
           in Inr ((standard_price * numerator + denominator - 1) div denominator))"

section \<open>Cache prices\<close>

definition CACHE_READ_PRICE_MULTIPLIER :: "(string, decimal) dict" where
  "CACHE_READ_PRICE_MULTIPLIER =
     [(''anthropic'', Fin 1 (-1)), (''openai'', Fin 5 (-1)), (''gemini'', Fin 25 (-2)),
      (''google-ai-studio'', Fin 25 (-2)), (''google-vertex'', Fin 25 (-2)), (''vertex'', Fin 25 (-2)),
      (''mistral'', Fin 1 (-1)), (''fireworks'', Fin 5 (-1)), (''alibaba'', Fin 2 (-1))]"

definition CACHE_WRITE_PRICE_MULTIPLIER :: "(string, decimal) dict" where
  "CACHE_WRITE_PRICE_MULTIPLIER = [(''anthropic'', Fin 125 (-2))]"

definition cache_token_prices_microdollars :: "string \<Rightarrow> int \<Rightarrow> int \<times> int" where
  "cache_token_prices_microdollars provider prompt_price =
     (let read = dget_or (Fin 1 0) CACHE_READ_PRICE_MULTIPLIER provider;
          write = dget_or (Fin 125 (-2)) CACHE_WRITE_PRICE_MULTIPLIER provider
      in (dec_int round_half_even (dec_mult (Fin prompt_price 0) read),
          dec_int round_half_even (dec_mult (Fin prompt_price 0) write)))"

section \<open>Prices in snapshot documents\<close>

datatype json =
    JNull
  | JBool bool
  | JInt int
  | JFloat int int string
  | JInfinity bool
  | JNaN
  | JStr string
  | JList "json list"
  | JObj "(string \<times> json) list"

text \<open>\<open>str(value)\<close>, as far as a decimal parser can tell: the text of a list or an object starts with
  a bracket, which no number does.\<close>

fun json_str :: "json \<Rightarrow> string" where
  "json_str JNull = ''None''"
| "json_str (JBool b) = (if b then ''True'' else ''False'')"
| "json_str (JInt i) = py_str_int i"
| "json_str (JFloat c e repr) = repr"
| "json_str (JInfinity neg) = (if neg then ''-inf'' else ''inf'')"
| "json_str JNaN = ''nan''"
| "json_str (JStr s) = s"
| "json_str (JList xs) = ''[''"
| "json_str (JObj kvs) = ''{''"

text \<open>\<open>obj.get(name)\<close>: a missing key is \<open>None\<close>.\<close>

definition jget :: "(string \<times> json) list \<Rightarrow> string \<Rightarrow> json" where
  "jget obj name = dget_or JNull obj name"

text \<open>\<open>int((Decimal(str(value)) * 1000000 * 1000000).to_integral_value())\<close>.\<close>

definition per_token_cost :: "int \<Rightarrow> int \<Rightarrow> int" where
  "per_token_cost c e = dec_int round_half_even
     (dec_mult (dec_mult (Fin c e) (Fin MICRODOLLARS_PER_DOLLAR 0)) (Fin TOKENS_PER_MILLION 0))"

definition optional_customer_price_from_dollars_per_token :: "json \<Rightarrow> int option" where
  "optional_customer_price_from_dollars_per_token value =
     (if value = JNull \<or> (case value of JStr s \<Rightarrow> py_strip s = [] | _ \<Rightarrow> False) then None
      else case parse_decimal (json_str value) of
          Some (Fin c e) \<Rightarrow> if c < 0 then None else Some (customer_price (per_token_cost c e))
        | _ \<Rightarrow> None)"

definition strict_customer_price_from_dollars_per_token :: "bool \<Rightarrow> json \<Rightarrow> int result" where
  "strict_customer_price_from_dollars_per_token allow_zero value =
     (case parse_decimal (json_str value) of
        Some (Fin c e) \<Rightarrow>
          if c < 0 \<or> (\<not> allow_zero \<and> c = 0) then Inl (ValueError ''malformed tier price'')
          else Inr (customer_price (per_token_cost c e))
      | _ \<Rightarrow> Inl (ValueError ''malformed tier price''))"

text \<open>Python's \<open>==\<close> on the values a threshold can have.  Lists and objects compare structurally; a
  threshold that is one of them is malformed whichever way the comparison goes.\<close>

fun json_num :: "json \<Rightarrow> (int \<times> int) option" where
  "json_num (JBool b) = Some (if b then 1 else 0, 0)"
| "json_num (JInt i) = Some (i, 0)"
| "json_num (JFloat c e r) = Some (c, e)"
| "json_num _ = None"

definition json_eq :: "json \<Rightarrow> json \<Rightarrow> bool" where
  "json_eq x y =
     (case (json_num x, json_num y) of
        (Some a, Some b) \<Rightarrow> dec_le a b \<and> dec_le b a
      | (None, None) \<Rightarrow> x = y \<and> x \<noteq> JNaN
      | _ \<Rightarrow> False)"

record tier_bounds =
  tb_threshold :: int
  tb_prompt :: int
  tb_completion :: int
  tb_cached :: "int option"

text \<open>The threshold check of one pair of tiers: the threshold to store and the new bound.\<close>

definition read_threshold :: "string \<Rightarrow> bool \<Rightarrow> json \<Rightarrow> json \<Rightarrow> int \<Rightarrow> (int option \<times> int) result" where
  "read_threshold dimension is_last threshold completion_threshold previous =
     (if (case completion_threshold of JBool _ \<Rightarrow> True | _ \<Rightarrow> False) \<or> \<not> json_eq completion_threshold threshold
      then Inl (ValueError (''mismatched '' @ dimension @ '' pricing thresholds''))
      else case threshold of
          JNull \<Rightarrow> if \<not> is_last then Inl (ValueError (''uncapped '' @ dimension @ '' pricing tier must be last''))
                   else Inr (None, previous)
        | JInt t \<Rightarrow> if t \<le> previous then Inl (ValueError (''unordered '' @ dimension @ '' pricing thresholds''))
                    else Inr (Some t, t)
        | _ \<Rightarrow> Inl (ValueError (''malformed '' @ dimension @ '' pricing threshold'')))"

definition read_tier_prices :: "string \<Rightarrow> (string \<times> json) list \<Rightarrow> (string \<times> json) list \<Rightarrow> (int \<times> int \<times> int option) result" where
  "read_tier_prices dimension prompt_tier completion_tier =
     (case (strict_customer_price_from_dollars_per_token False (jget prompt_tier ''prompt''),
            strict_customer_price_from_dollars_per_token False (jget completion_tier ''completion''),
            case dget prompt_tier ''input_cache_read'' of None \<Rightarrow> Inr None
            | Some v \<Rightarrow> (case strict_customer_price_from_dollars_per_token True v of Inl e \<Rightarrow> Inl e | Inr p \<Rightarrow> Inr (Some p))) of
        (Inr p, Inr c, Inr k) \<Rightarrow> Inr (p, c, k)
      | _ \<Rightarrow> Inl (ValueError (''malformed '' @ dimension @ '' tier price'')))"

definition read_tier :: "string \<Rightarrow> bool \<Rightarrow> json \<times> json \<Rightarrow> tier_bounds \<Rightarrow> (price_tier \<times> tier_bounds) result" where
  "read_tier dimension is_last pair b =
     (case pair of
        (JObj prompt_tier, JObj completion_tier) \<Rightarrow>
          (case read_threshold dimension is_last (jget prompt_tier ''max_prompt_tokens'')
                  (jget completion_tier ''max_prompt_tokens'') (tb_threshold b) of
             Inl e \<Rightarrow> Inl e
           | Inr (threshold, previous) \<Rightarrow>
               (case read_tier_prices dimension prompt_tier completion_tier of
                  Inl e \<Rightarrow> Inl e
                | Inr (p, c, k) \<Rightarrow>
                    (if p < tb_prompt b \<or> c < tb_completion b \<or>
                        (case (k, tb_cached b) of (Some x, Some y) \<Rightarrow> x < y | _ \<Rightarrow> False)
                     then Inl (ValueError (''decreasing '' @ dimension @ '' tier price''))
                     else Inr (\<lparr>pt_max_prompt_tokens = threshold, pt_prompt = p, pt_completion = c, pt_cached = k\<rparr>,
                       \<lparr>tb_threshold = previous, tb_prompt = p, tb_completion = c,
                        tb_cached = (case k of None \<Rightarrow> tb_cached b | Some _ \<Rightarrow> k)\<rparr>))))
      | _ \<Rightarrow> Inl (ValueError (''malformed '' @ dimension @ '' pricing tiers'')))"

fun read_tiers :: "string \<Rightarrow> (json \<times> json) list \<Rightarrow> tier_bounds \<Rightarrow> price_tier list result" where
  "read_tiers dimension [] b = Inr []"
| "read_tiers dimension (x # xs) b =
     (case read_tier dimension (xs = []) x b of Inl e \<Rightarrow> Inl e
      | Inr (t, b') \<Rightarrow> (case read_tiers dimension xs b' of Inl e \<Rightarrow> Inl e | Inr ts \<Rightarrow> Inr (t # ts)))"

definition read_pricing_tiers :: "string \<Rightarrow> (string \<times> json) list \<Rightarrow> price_tier list option result" where
  "read_pricing_tiers dimension pricing =
     (if dget pricing ''prompt_tiers'' = None \<and> dget pricing ''completion_tiers'' = None then Inr None
      else case (jget pricing ''prompt_tiers'', jget pricing ''completion_tiers'') of
          (JList raw_prompt, JList raw_completion) \<Rightarrow>
            (if raw_prompt = [] \<or> length raw_prompt \<noteq> length raw_completion
             then Inl (ValueError (''malformed '' @ dimension @ '' pricing tiers''))
             else case read_tiers dimension (zip raw_prompt raw_completion)
                         \<lparr>tb_threshold = 0, tb_prompt = 0, tb_completion = 0, tb_cached = None\<rparr> of
                 Inl e \<Rightarrow> Inl e
               | Inr tiers \<Rightarrow>
                   if pt_max_prompt_tokens (last tiers) \<noteq> None
                   then Inl (ValueError (''capped final '' @ dimension @ '' pricing tier'')) else Inr (Some tiers))
        | _ \<Rightarrow> Inl (ValueError (''malformed '' @ dimension @ '' pricing tiers'')))"

section \<open>The cost of a request\<close>

text \<open>The price fields of \<open>Model\<close>.\<close>

record priced_model =
  md_prompt :: microdollars
  md_completion :: microdollars
  md_request :: microdollars
  md_tiers :: "price_tier list"

definition cost_microdollars :: "priced_model \<Rightarrow> int \<Rightarrow> int \<Rightarrow> int \<Rightarrow> microdollars" where
  "cost_microdollars model input_tokens output_tokens cached_input_tokens =
     (let cached = max 0 (min cached_input_tokens input_tokens);
          uncached = input_tokens - cached;
          rates = resolve_request_rates (md_tiers model) (md_prompt model) (md_completion model) input_tokens;
          cached_rate = (case rr_cached rates of None \<Rightarrow> rr_prompt rates | Some c \<Rightarrow> c)
      in if md_tiers model = []
         then md_request model + (token_cost_microdollars input_tokens (rr_prompt rates) +
                token_cost_microdollars output_tokens (rr_completion rates))
         else md_request model + (token_cost_microdollars uncached (rr_prompt rates) +
                token_cost_microdollars cached cached_rate +
                token_cost_microdollars output_tokens (rr_completion rates)))"

subsection \<open>OpenAI Priority processing\<close>

definition OPENAI_PRIORITY_MAX_PROMPT_TOKENS :: int where
  "OPENAI_PRIORITY_MAX_PROMPT_TOKENS = 272000"

record openai_priority_pricing =
  op_prompt :: microdollars
  op_cached_prompt :: microdollars
  op_completion :: microdollars
  op_cache_write :: microdollars

definition customer_priority_pricing :: "int \<Rightarrow> int \<Rightarrow> int \<Rightarrow> openai_priority_pricing" where
  "customer_priority_pricing prompt cached_prompt completion =
     \<lparr>op_prompt = customer_price prompt, op_cached_prompt = customer_price cached_prompt,
      op_completion = customer_price completion, op_cache_write = customer_price (prompt * 5 div 4)\<rparr>"

definition OPENAI_PRIORITY_PRICING :: "(string, openai_priority_pricing) dict" where
  "OPENAI_PRIORITY_PRICING =
     [(''openai/gpt-5.6-sol'', customer_priority_pricing 10000000 1000000 60000000),
      (''openai/gpt-5.6-terra'', customer_priority_pricing 5000000 500000 30000000),
      (''openai/gpt-5.6-luna'', customer_priority_pricing 2000000 200000 12000000)]"

definition openai_priority_cost_microdollars :: "string \<Rightarrow> int \<Rightarrow> int \<Rightarrow> int \<Rightarrow> int \<Rightarrow> microdollars result" where
  "openai_priority_cost_microdollars model_id input_tokens output_tokens cache_read cache_creation =
     (case dget OPENAI_PRIORITY_PRICING model_id of
        None \<Rightarrow> Inl (ValueError (''OpenAI Priority processing is unavailable for '' @ model_id))
      | Some p \<Rightarrow>
          (let cost = token_cost_microdollars input_tokens (op_prompt p) +
                 token_cost_microdollars cache_read (op_cached_prompt p) +
                 token_cost_microdollars cache_creation (op_cache_write p) +
                 token_cost_microdollars output_tokens (op_completion p)
           in Inr (if list_ex (\<lambda>n. 0 < n) [input_tokens, output_tokens, cache_read, cache_creation]
                   then max cost 1 else 0)))"

subsection \<open>Custom models, partner routes and app markups\<close>

definition CUSTOM_MODEL_OWNER_SHARE_BASIS_POINTS :: int where
  "CUSTOM_MODEL_OWNER_SHARE_BASIS_POINTS = 7000"

definition HUMAN_PRICE_MAX_MICRODOLLARS_PER_M :: int where
  "HUMAN_PRICE_MAX_MICRODOLLARS_PER_M = 1000000000000"

definition MACHINE_PRICE_MAX_MICRODOLLARS_PER_M :: int where
  "MACHINE_PRICE_MAX_MICRODOLLARS_PER_M = 1000000000"

definition validate_custom_model_price :: "int \<Rightarrow> int \<Rightarrow> string \<Rightarrow> unit result" where
  "validate_custom_model_price prompt_price completion_price kind =
     (let in_range = (\<lambda>m. list_all (\<lambda>p. 0 \<le> p \<and> p \<le> m) [prompt_price, completion_price]);
          valid = (if kind = ''human'' then in_range HUMAN_PRICE_MAX_MICRODOLLARS_PER_M
                   else if kind \<in> {''machine'', ''agent''} then in_range MACHINE_PRICE_MAX_MICRODOLLARS_PER_M
                   else False)
      in if valid then Inr () else Inl (ValueError ''custom_model_price_out_of_bounds''))"

definition custom_model_cost_microdollars :: "int \<Rightarrow> int \<Rightarrow> int \<Rightarrow> int \<Rightarrow> microdollars" where
  "custom_model_cost_microdollars input_tokens output_tokens prompt_price completion_price =
     (let cost = token_cost_microdollars input_tokens prompt_price + token_cost_microdollars output_tokens completion_price;
          positive = (0 < input_tokens \<and> 0 < prompt_price \<or> 0 < output_tokens \<and> 0 < completion_price)
      in if cost = 0 \<and> positive then 1 else cost)"

definition owner_share_microdollars :: "int \<Rightarrow> microdollars" where
  "owner_share_microdollars customer_charge = customer_charge * CUSTOM_MODEL_OWNER_SHARE_BASIS_POINTS div 10000"

definition app_markup_microdollars :: "int \<Rightarrow> int \<Rightarrow> microdollars" where
  "app_markup_microdollars base_cost basis_points = base_cost * basis_points div 10000"

definition app_markup_owner_share_microdollars :: "int \<Rightarrow> microdollars" where
  "app_markup_owner_share_microdollars markup = markup * CUSTOM_MODEL_OWNER_SHARE_BASIS_POINTS div 10000"

definition app_markup_microdollars_from_charge :: "int \<Rightarrow> int \<Rightarrow> microdollars result" where
  "app_markup_microdollars_from_charge charge basis_points =
     (if 10000 + basis_points = 0 then Inl ZeroDivisionError
      else Inr (charge * basis_points div (10000 + basis_points)))"

datatype partner_mode = TOP_LEVEL | INTERNAL

definition PARASAIL_LIBERTY_2_0_TOP_LEVEL_ROUTE :: string where
  "PARASAIL_LIBERTY_2_0_TOP_LEVEL_ROUTE = ''partner.parasail.liberty-2.0.top_level''"

definition PARASAIL_LIBERTY_2_0_INTERNAL_ROUTE_PREFIX :: string where
  "PARASAIL_LIBERTY_2_0_INTERNAL_ROUTE_PREFIX = ''partner.parasail.liberty-2.0.internal.''"

definition PARASAIL_LIBERTY_2_0_IDEMPOTENCY_PREFIX :: string where
  "PARASAIL_LIBERTY_2_0_IDEMPOTENCY_PREFIX = ''partner:parasail-liberty-2.0:''"

definition PARASAIL_LIBERTY_2_0_MODEL_ID :: string where
  "PARASAIL_LIBERTY_2_0_MODEL_ID = ''parasail/liberty-2.0''"

definition partner_billing_mode :: "string option \<Rightarrow> string option \<Rightarrow> string option \<Rightarrow> partner_mode option result" where
  "partner_billing_mode requested_model_id route_type idempotency_key =
     (let requested_model = py_lower (py_strip (ostr requested_model_id));
          route = py_lower (py_strip (ostr route_type));
          idempotency = py_strip (ostr idempotency_key);
          is_partner_model = (requested_model = PARASAIL_LIBERTY_2_0_MODEL_ID);
          is_top_route = (route = PARASAIL_LIBERTY_2_0_TOP_LEVEL_ROUTE);
          is_internal_route = startswith PARASAIL_LIBERTY_2_0_INTERNAL_ROUTE_PREFIX route;
          is_internal_idempotency = startswith PARASAIL_LIBERTY_2_0_IDEMPOTENCY_PREFIX idempotency
      in if is_partner_model \<or> is_top_route
         then (if \<not> (is_partner_model \<and> is_top_route)
               then Inl (ValueError ''Parasail Liberty top-level billing markers do not match'')
               else if is_internal_idempotency
               then Inl (ValueError ''Parasail Liberty top-level request used an internal idempotency key'')
               else Inr (Some TOP_LEVEL))
         else if is_internal_route \<or> is_internal_idempotency
         then (if \<not> (is_internal_route \<and> is_internal_idempotency)
               then Inl (ValueError ''Parasail Liberty internal billing markers do not match'')
               else Inr (Some INTERNAL))
         else Inr None)"

definition partner_cost_microdollars :: "partner_mode \<Rightarrow> int \<Rightarrow> int \<Rightarrow> microdollars" where
  "partner_cost_microdollars mode input_tokens output_tokens =
     (case mode of INTERNAL \<Rightarrow> 0
      | TOP_LEVEL \<Rightarrow> max (token_cost_microdollars input_tokens 2000000 + token_cost_microdollars output_tokens 19000000) 1000)"

section \<open>Lemmas\<close>

subsection \<open>Accepted tiers\<close>

text \<open>What a tier list promises: prices do not fall from tier to tier, thresholds rise, and only the
  last tier is uncapped.\<close>

fun tiers_ok :: "int \<Rightarrow> int \<Rightarrow> int \<Rightarrow> price_tier list \<Rightarrow> bool" where
  "tiers_ok threshold p c [] = True"
| "tiers_ok threshold p c (t # ts) \<longleftrightarrow> p \<le> pt_prompt t \<and> c \<le> pt_completion t \<and>
     (case pt_max_prompt_tokens t of None \<Rightarrow> ts = [] | Some m \<Rightarrow> threshold < m) \<and>
     tiers_ok (oint (pt_max_prompt_tokens t)) (pt_prompt t) (pt_completion t) ts"

lemma read_threshold_ok:
  assumes "read_threshold d l th cth previous = Inr (m, nxt)"
  shows "case m of None \<Rightarrow> l | Some x \<Rightarrow> previous < x \<and> nxt = x"
proof -
  have "(case th of JNull \<Rightarrow> if \<not> l then Inl (ValueError (''uncapped '' @ d @ '' pricing tier must be last'')) else Inr (None, previous)
      | JInt t \<Rightarrow> if t \<le> previous then Inl (ValueError (''unordered '' @ d @ '' pricing thresholds'')) else Inr (Some t, t)
      | _ \<Rightarrow> Inl (ValueError (''malformed '' @ d @ '' pricing threshold''))) = Inr (m, nxt)"
    using assms unfolding read_threshold_def by (metis Inl_Inr_False)
  then show ?thesis by (cases th) (auto split: if_splits)
qed

lemma read_tier_ok:
  assumes "read_tier d l x b = Inr (t, b')"
  shows "tb_prompt b \<le> pt_prompt t" "tb_completion b \<le> pt_completion t"
    "case pt_max_prompt_tokens t of None \<Rightarrow> l | Some m \<Rightarrow> tb_threshold b < m \<and> tb_threshold b' = m"
    "tb_prompt b' = pt_prompt t" "tb_completion b' = pt_completion t"
proof -
  obtain u v where x: "x = (u, v)" by (cases x)
  have "\<exists>ps cs. x = (JObj ps, JObj cs)"
    using assms x by (cases u; cases v) (simp_all add: read_tier_def)
  then obtain ps cs where x: "x = (JObj ps, JObj cs)" by blast
  obtain m nxt where th: "read_threshold d l (jget ps ''max_prompt_tokens'') (jget cs ''max_prompt_tokens'') (tb_threshold b) = Inr (m, nxt)"
    using assms by (cases "read_threshold d l (jget ps ''max_prompt_tokens'') (jget cs ''max_prompt_tokens'') (tb_threshold b)")
      (auto simp: read_tier_def x)
  obtain p c k where pr: "read_tier_prices d ps cs = Inr (p, c, k)"
    using assms th by (cases "read_tier_prices d ps cs") (auto simp: read_tier_def x)
  have r: "\<not> p < tb_prompt b" "\<not> c < tb_completion b"
    "t = \<lparr>pt_max_prompt_tokens = m, pt_prompt = p, pt_completion = c, pt_cached = k\<rparr>"
    "tb_threshold b' = nxt" "tb_prompt b' = p" "tb_completion b' = c"
    using assms th pr by (auto simp: read_tier_def x split: if_splits)
  show "tb_prompt b \<le> pt_prompt t" "tb_completion b \<le> pt_completion t"
    "case pt_max_prompt_tokens t of None \<Rightarrow> l | Some m \<Rightarrow> tb_threshold b < m \<and> tb_threshold b' = m"
    "tb_prompt b' = pt_prompt t" "tb_completion b' = pt_completion t"
    using r read_threshold_ok [OF th] by (auto simp: not_less split: option.split)
qed

lemma read_tiers_ok:
  "read_tiers d xs b = Inr ts \<Longrightarrow> tiers_ok (tb_threshold b) (tb_prompt b) (tb_completion b) ts \<and> length ts = length xs"
proof (induction d xs b arbitrary: ts rule: read_tiers.induct)
  case (2 d x xs b)
  obtain t b' us where r: "read_tier d (xs = []) x b = Inr (t, b')" "read_tiers d xs b' = Inr us" "ts = t # us"
    using 2(2) by (auto split: sum.splits prod.splits)
  note ok = read_tier_ok [OF r(1)]
  have us: "tiers_ok (tb_threshold b') (pt_prompt t) (pt_completion t) us" "length us = length xs"
    using 2(1) [OF r(1) refl r(2)] ok(4,5) by simp_all
  show ?case using ok us r(3) by (cases "pt_max_prompt_tokens t") simp_all
qed simp

lemma tiers_ok_above:
  "tiers_ok b p c ts \<Longrightarrow> t \<in> set ts \<Longrightarrow> p \<le> pt_prompt t \<and> c \<le> pt_completion t"
  by (induction ts arbitrary: b p c) fastforce+

lemma tier_fits_mono: "n \<le> n' \<Longrightarrow> tier_fits n' t \<Longrightarrow> tier_fits n t"
  by (auto simp: tier_fits_def split: option.splits)

definition uncapped_last :: "price_tier list \<Rightarrow> bool" where
  "uncapped_last ts \<longleftrightarrow> ts \<noteq> [] \<and> pt_max_prompt_tokens (last ts) = None"

lemma select_fits:
  assumes "uncapped_last ts"
  obtains t where "select_price_tier ts n = Some t" "t \<in> set ts" "tier_fits n t"
proof -
  have "tier_fits n (last ts)" "last ts \<in> set ts" using assms by (simp_all add: uncapped_last_def tier_fits_def)
  then obtain t where "List.find (tier_fits n) ts = Some t" using find_NoneD by (metis not_None_eq)
  then show thesis using that [of t] find_SomeD [of "tier_fits n" ts t] by (simp add: select_price_tier_def)
qed

lemma select_mono:
  assumes "tiers_ok b p c ts" "uncapped_last ts" "n \<le> n'"
    and "select_price_tier ts n = Some t" "select_price_tier ts n' = Some t'"
  shows "pt_prompt t \<le> pt_prompt t' \<and> pt_completion t \<le> pt_completion t'"
  using assms
proof (induction ts arbitrary: b p c)
  case (Cons x xs)
  note head = Cons.prems(1)
  show ?case
  proof (cases "tier_fits n' x")
    case True
    then have "t = x" "t' = x" using Cons.prems tier_fits_mono [OF Cons.prems(3) True] by (simp_all add: select_price_tier_def)
    then show ?thesis by simp
  next
    case False
    then have rest: "uncapped_last xs" using Cons.prems(2) by (auto simp: uncapped_last_def tier_fits_def split: if_splits)
    have sel: "select_price_tier (x # xs) k = (if tier_fits k x then Some x else select_price_tier xs k)" for k
      using rest by (auto simp: select_price_tier_def uncapped_last_def split: option.splits)
    obtain u where u: "select_price_tier xs n' = Some u" "u \<in> set xs" by (rule select_fits [OF rest])
    show ?thesis
    proof (cases "tier_fits n x")
      case True
      then have "t = x" "t' = u" using Cons.prems(4,5) sel False u by simp_all
      then show ?thesis using head tiers_ok_above [OF _ u(2)] by force
    next
      case False2: False
      have "tiers_ok (oint (pt_max_prompt_tokens x)) (pt_prompt x) (pt_completion x) xs"
        using head by simp
      from Cons.IH [OF this rest Cons.prems(3)] show ?thesis using Cons.prems(4,5) sel False False2 by simp
    qed
  qed
qed (simp add: uncapped_last_def)

lemma read_pricing_tiers_ok:
  assumes "read_pricing_tiers d pricing = Inr (Some tiers)"
  shows "tiers_ok 0 0 0 tiers" "uncapped_last tiers"
proof -
  obtain xs ys where r: "read_tiers d (zip xs ys) \<lparr>tb_threshold = 0, tb_prompt = 0, tb_completion = 0, tb_cached = None\<rparr> = Inr tiers"
    "xs \<noteq> []" "length xs = length ys" "pt_max_prompt_tokens (last tiers) = None"
    using assms by (auto simp: read_pricing_tiers_def split: if_splits prod.splits json.splits sum.splits option.splits)
  from read_tiers_ok [OF r(1)] r show "tiers_ok 0 0 0 tiers"
    "uncapped_last tiers" by (auto simp: uncapped_last_def)
qed

section \<open>Properties\<close>


definition demo_pricing :: "(string \<times> json) list" where
  "demo_pricing =
     [(''prompt_tiers'', JList [JObj [(''max_prompt_tokens'', JInt 200), (''prompt'', JStr ''0.00000125'')],
                               JObj [(''max_prompt_tokens'', JNull), (''prompt'', JStr ''0.0000025'')]]),
      (''completion_tiers'', JList [JObj [(''max_prompt_tokens'', JInt 200), (''completion'', JStr ''0.00001'')],
                                   JObj [(''max_prompt_tokens'', JNull), (''completion'', JStr ''0.000015'')]])]"

definition demo_priced_model :: priced_model where
  "demo_priced_model = \<lparr>md_prompt = 1318750, md_completion = 10550000, md_request = 0,
     md_tiers = (case read_pricing_tiers ''p'' demo_pricing of Inr (Some ts) \<Rightarrow> ts | _ \<Rightarrow> [])\<rparr>"


end
