(* ===== verification/Stage_D.thy ===== *)
theory Stage_D
  imports Pricing
begin

text \<open>
  Frozen endpoint prices and usage heartbeats: \<open>stage_d.py\<close>, the cost functions of
  \<open>authorize_candidates.py\<close>, and the heartbeat transaction of \<open>storage_gcp_stage_d.py\<close>.

  A pricing snapshot is canonical JSON text; it is represented by the document it serialises, and
  the delivered usage of an authorization by its six counters.  \<open>endpoint_for_id\<close>, the lookup in the
  loaded catalog, is a parameter.  The transaction of a heartbeat runs on the two rows it reads and
  writes, \<open>heartbeat_row\<close>; it is atomic, so a rejected heartbeat leaves both as they were.
\<close>

section \<open>Pricing documents\<close>

record pricing_rates =
  pr_input :: microdollars
  pr_output :: microdollars
  pr_cached :: microdollars
  pr_creation :: microdollars

record pricing_candidate =
  pc_endpoint_id :: string
  pc_version :: int
  pc_rates :: pricing_rates
  pc_tiers :: "(int option \<times> pricing_rates) list"
  pc_request_fee :: microdollars
  pc_rounding :: string

record pricing_document =
  pd_version :: int
  pd_kind :: string
  pd_candidates :: "pricing_candidate list"

text \<open>The fields of \<open>ModelEndpoint\<close> that pricing reads.\<close>

record model_endpoint =
  me_id :: string
  me_model_id :: string
  me_provider :: string
  me_usage_type :: string
  me_prompt :: microdollars
  me_completion :: microdollars
  me_request :: microdollars
  me_tiers :: "price_tier list"

definition PRICING_DOCUMENT_VERSION :: int where
  "PRICING_DOCUMENT_VERSION = 1"

definition PRICE_HISTORY_VERSION :: int where
  "PRICE_HISTORY_VERSION = 1"

definition PRICING_ROUNDING :: string where
  "PRICING_ROUNDING = ''half_up_per_million''"

definition endpoint_rates :: "string \<Rightarrow> int \<Rightarrow> int \<Rightarrow> int option \<Rightarrow> pricing_rates" where
  "endpoint_rates provider prompt_micro output_micro cached_micro =
     (case cache_token_prices_microdollars provider prompt_micro of (default_cached, cache_creation) \<Rightarrow>
        \<lparr>pr_input = prompt_micro, pr_output = output_micro,
         pr_cached = (case cached_micro of None \<Rightarrow> default_cached | Some c \<Rightarrow> c), pr_creation = cache_creation\<rparr>)"

definition endpoint_pricing_candidate :: "model_endpoint \<Rightarrow> pricing_candidate" where
  "endpoint_pricing_candidate endpoint =
     \<lparr>pc_endpoint_id = me_id endpoint, pc_version = PRICE_HISTORY_VERSION,
      pc_rates = endpoint_rates (me_provider endpoint) (me_prompt endpoint) (me_completion endpoint) None,
      pc_tiers = map (\<lambda>t. (pt_max_prompt_tokens t,
        endpoint_rates (me_provider endpoint) (pt_prompt t) (pt_completion t) (pt_cached t))) (me_tiers endpoint),
      pc_request_fee = me_request endpoint, pc_rounding = PRICING_ROUNDING\<rparr>"

definition endpoint_pricing_document :: "model_endpoint list \<Rightarrow> pricing_document" where
  "endpoint_pricing_document endpoints =
     \<lparr>pd_version = PRICING_DOCUMENT_VERSION, pd_kind = ''endpoint'',
      pd_candidates = map endpoint_pricing_candidate endpoints\<rparr>"

definition parse_pricing_snapshot :: "pricing_document \<Rightarrow> pricing_document result" where
  "parse_pricing_snapshot document =
     (if pd_version document \<noteq> PRICING_DOCUMENT_VERSION \<or> pd_kind document \<noteq> ''endpoint''
      then Inl (ValueError ''unsupported Stage D pricing document'')
      else if pd_candidates document = [] then Inl (ValueError ''Stage D pricing document has no candidates'')
      else Inr document)"

definition pricing_candidate_for_endpoint :: "pricing_document \<Rightarrow> string \<Rightarrow> pricing_candidate result" where
  "pricing_candidate_for_endpoint document endpoint_id =
     (case List.find (\<lambda>c. pc_endpoint_id c = endpoint_id) (pd_candidates document) of
        Some c \<Rightarrow> Inr c
      | None \<Rightarrow> Inl (ValueError ''selected endpoint is absent from the Stage D pricing document''))"

section \<open>The cost of usage under frozen prices\<close>

definition tier_accommodates :: "int \<Rightarrow> int option \<times> pricing_rates \<Rightarrow> bool" where
  "tier_accommodates n t = (case fst t of None \<Rightarrow> True | Some m \<Rightarrow> n \<le> m)"

definition select_rates :: "int \<Rightarrow> pricing_candidate \<Rightarrow> pricing_rates" where
  "select_rates tier_prompt candidate =
     (if pc_tiers candidate = [] then pc_rates candidate
      else case List.find (tier_accommodates tier_prompt) (pc_tiers candidate) of
          Some t \<Rightarrow> snd t | None \<Rightarrow> snd (last (pc_tiers candidate)))"

definition tier_basis :: "int \<Rightarrow> int option \<Rightarrow> int" where
  "tier_basis total_prompt price_tier_input_tokens =
     (case price_tier_input_tokens of None \<Rightarrow> total_prompt
      | Some p \<Rightarrow> if 0 < p \<and> p \<le> total_prompt then p else total_prompt)"

definition endpoint_cost_microdollars_from_candidate ::
    "pricing_candidate \<Rightarrow> int \<Rightarrow> int \<Rightarrow> int \<Rightarrow> int \<Rightarrow> int option \<Rightarrow> microdollars result" where
  "endpoint_cost_microdollars_from_candidate candidate input_tokens output_tokens cache_read cache_creation tier_input =
     (if pc_rounding candidate \<noteq> PRICING_ROUNDING then Inl (ValueError ''unsupported Stage D pricing rounding'')
      else
        let total_prompt = input_tokens + cache_read + cache_creation;
            rates = select_rates (tier_basis total_prompt tier_input) candidate;
            fee = pc_request_fee candidate;
            cost = fee + token_cost_microdollars input_tokens (pr_input rates) +
              token_cost_microdollars output_tokens (pr_output rates) +
              token_cost_microdollars cache_read (pr_cached rates) +
              token_cost_microdollars cache_creation (pr_creation rates);
            positive = (0 < fee \<or> 0 < input_tokens \<and> 0 < pr_input rates \<or>
              0 < output_tokens \<and> 0 < pr_output rates \<or> 0 < cache_read \<and> 0 < pr_cached rates \<or>
              0 < cache_creation \<and> 0 < pr_creation rates)
        in Inr (if positive then max cost 1 else 0))"

definition endpoint_cost_microdollars_from_document ::
    "pricing_document \<Rightarrow> string \<Rightarrow> int \<Rightarrow> int \<Rightarrow> int \<Rightarrow> int \<Rightarrow> int option \<Rightarrow> microdollars result" where
  "endpoint_cost_microdollars_from_document document endpoint_id i out r w tier_input =
     (case pricing_candidate_for_endpoint document endpoint_id of Inl e \<Rightarrow> Inl e
      | Inr c \<Rightarrow> endpoint_cost_microdollars_from_candidate c i out r w tier_input)"

text \<open>\<open>endpoint_cost_microdollars\<close> on an endpoint whose effective-dated price is already applied.\<close>

definition endpoint_cost_microdollars ::
    "model_endpoint \<Rightarrow> int \<Rightarrow> int \<Rightarrow> int \<Rightarrow> int \<Rightarrow> int option \<Rightarrow> string option \<Rightarrow> bool \<Rightarrow> microdollars result" where
  "endpoint_cost_microdollars endpoint i out r w tier_input service_tier reserve_auto =
     (if me_provider endpoint = ''openai'' \<and>
         (service_tier = Some ''priority'' \<or> service_tier = Some ''auto'' \<and> reserve_auto)
      then openai_priority_cost_microdollars (me_model_id endpoint) i out r w
      else endpoint_cost_microdollars_from_document (endpoint_pricing_document [endpoint]) (me_id endpoint) i out r w tier_input)"

section \<open>Snapshot billing\<close>

definition ESTIMATED_USAGE_SNAPSHOT_REASON :: string where
  "ESTIMATED_USAGE_SNAPSHOT_REASON = ''abliterate_estimated_usage''"

definition SPEECH_SNAPSHOT_REASON :: string where
  "SPEECH_SNAPSHOT_REASON = ''speech_token_usage''"

definition TRANSCRIPTION_SNAPSHOT_REASON :: string where
  "TRANSCRIPTION_SNAPSHOT_REASON = ''transcription_token_usage''"

definition FETCH_SNAPSHOT_REASON :: string where
  "FETCH_SNAPSHOT_REASON = ''fetch_request_fee''"

definition TRANSCRIPTION_SNAPSHOT_MODELS :: "string list" where
  "TRANSCRIPTION_SNAPSHOT_MODELS = [''mistralai/voxtral-small-24b'']"

definition SPEECH_SNAPSHOT_MODELS :: "string list" where
  "SPEECH_SNAPSHOT_MODELS = [''google/gemini-3.8-flash-tts'', ''google/gemini-3.8-flash-lite-tts'']"

definition ESTIMATED_USAGE_SNAPSHOT_MODELS :: "string list" where
  "ESTIMATED_USAGE_SNAPSHOT_MODELS = [''abliterate/abliterate-0.3-fast'', ''abliterate/abliterate-0.3-balanced'',
     ''abliterate/abliterate-0.3-clever'']"

text \<open>A reviewed reason admits one provider and a fixed set of models.\<close>

definition reviewed_route :: "auth_terms \<Rightarrow> string \<Rightarrow> string list \<Rightarrow> bool" where
  "reviewed_route m provider models \<longleftrightarrow> tm_provider m = provider \<and> tm_model_id m \<in> set models \<and>
     list_all (\<lambda>x. x \<in> set models) (tm_candidate_model_ids m)"

definition rates_in_range :: "pricing_rates \<Rightarrow> bool" where
  "rates_in_range r \<longleftrightarrow> list_all (\<lambda>v. 0 \<le> v \<and> v \<le> 2 ^ 63 - 1) [pr_input r, pr_output r, pr_cached r, pr_creation r]"

definition candidate_supported :: "pricing_candidate \<Rightarrow> bool" where
  "candidate_supported c \<longleftrightarrow> pc_version c = PRICE_HISTORY_VERSION \<and> pc_rounding c = PRICING_ROUNDING \<and>
     0 \<le> pc_request_fee c \<and> pc_request_fee c \<le> 2 ^ 63 - 1 \<and> rates_in_range (pc_rates c) \<and>
     list_all (\<lambda>t. rates_in_range (snd t) \<and>
       (case fst t of None \<Rightarrow> True | Some m \<Rightarrow> 0 \<le> m \<and> m \<le> 2 ^ 63 - 1)) (pc_tiers c)"

text \<open>\<open>document\<close> is what the authorization's \<open>pricing_snapshot\<close> text serialises.\<close>

definition billing_pricing_snapshot :: "gateway_authorization \<Rightarrow> pricing_document option \<Rightarrow> pricing_document option" where
  "billing_pricing_snapshot a document =
     (let m = ga_terms a; reason = tm_stage_d_reason m
      in case document of None \<Rightarrow> None
       | Some d \<Rightarrow>
          (if reason \<notin> Some ` {''ok'', ESTIMATED_USAGE_SNAPSHOT_REASON, SPEECH_SNAPSHOT_REASON,
                TRANSCRIPTION_SNAPSHOT_REASON, FETCH_SNAPSHOT_REASON} \<or>
              tm_usage_type m \<noteq> CREDITS \<or> tm_custom_model_id m \<noteq> None \<or> tm_user_provided_model_id m \<noteq> None \<or>
              tm_native_batch_eligible m \<or> tm_video_pricing_snapshot m \<noteq> None \<or>
              tm_additional_cost_reservation m \<noteq> 0 \<or> tm_receipt_fee_basis_points m \<noteq> 0 \<or>
              tm_app_markup_basis_points m \<noteq> 0 \<and> reason \<noteq> Some FETCH_SNAPSHOT_REASON \<or>
              tm_custom_model_markup_basis_points m \<noteq> 0
           then None
           else if reason = Some FETCH_SNAPSHOT_REASON \<and> \<not> reviewed_route m ''deepseek'' [''deepseek/fetch''] then None
           else if reason = Some TRANSCRIPTION_SNAPSHOT_REASON \<and> \<not> reviewed_route m ''tinfoil'' TRANSCRIPTION_SNAPSHOT_MODELS then None
           else if reason = Some SPEECH_SNAPSHOT_REASON \<and> \<not> reviewed_route m ''google-ai-studio'' SPEECH_SNAPSHOT_MODELS then None
           else if reason = Some ESTIMATED_USAGE_SNAPSHOT_REASON \<and> \<not> reviewed_route m ''abliterate'' ESTIMATED_USAGE_SNAPSHOT_MODELS then None
           else case parse_pricing_snapshot d of Inl _ \<Rightarrow> None
             | Inr _ \<Rightarrow>
                (let endpoints = set (tm_candidate_endpoint_ids m) \<union>
                       (case tm_endpoint_id m of None \<Rightarrow> {} | Some e \<Rightarrow> if e = [] then {} else {e});
                     ids = map pc_endpoint_id (pd_candidates d)
                 in if endpoints = {} \<or> set ids \<noteq> endpoints \<or> length ids \<noteq> card endpoints then None
                    else if list_all candidate_supported (pd_candidates d) then Some d else None)))"

section \<open>Delivered usage\<close>

record delivered_usage =
  du_input :: int
  du_output :: int
  du_cache_read :: int
  du_cache_creation :: int
  du_price_tier_input :: int
  du_reasoning :: int

definition delivered_usage_counts :: "delivered_usage option \<Rightarrow> delivered_usage" where
  "delivered_usage_counts u = (case u of None \<Rightarrow>
     \<lparr>du_input = 0, du_output = 0, du_cache_read = 0, du_cache_creation = 0, du_price_tier_input = 0, du_reasoning = 0\<rparr>
     | Some x \<Rightarrow> x)"

definition normalized_delivered_prompt :: "string \<Rightarrow> delivered_usage \<Rightarrow> int \<times> int" where
  "normalized_delivered_prompt provider u =
     (let reported = du_input u; cached = du_cache_read u; created = du_cache_creation u
      in if cached \<noteq> 0 \<or> created \<noteq> 0
         then if provider = ''anthropic'' then (reported, reported + cached + created)
              else (max (reported - cached - created) 0, reported)
         else (reported, reported))"

definition delivered_usage_cost_microdollars ::
    "pricing_document \<Rightarrow> string \<Rightarrow> string \<Rightarrow> delivered_usage \<Rightarrow> microdollars result" where
  "delivered_usage_cost_microdollars document provider endpoint_id u =
     endpoint_cost_microdollars_from_document document endpoint_id (fst (normalized_delivered_prompt provider u))
       (du_output u) (du_cache_read u) (du_cache_creation u)
       (if du_price_tier_input u = 0 then None else Some (du_price_tier_input u))"

definition delivered_usage_charge_microdollars ::
    "(string \<Rightarrow> model_endpoint option) \<Rightarrow> gateway_authorization \<Rightarrow> pricing_document \<Rightarrow> string \<Rightarrow> string \<Rightarrow>
     delivered_usage \<Rightarrow> microdollars result" where
  "delivered_usage_charge_microdollars endpoint_for_id a document provider endpoint_id u =
     (let model_id = (case endpoint_for_id endpoint_id of None \<Rightarrow> tm_model_id (ga_terms a) | Some e \<Rightarrow> me_model_id e);
          snapshot = billing_pricing_snapshot a (Some document);
          u' = (if snapshot \<noteq> None \<and> (provider \<noteq> ''sakana'' \<or> model_id \<noteq> ''sakana-ai/fugu-ultra-v1.1'')
                then u\<lparr>du_price_tier_input := 0\<rparr> else u);
          document' = (case snapshot of None \<Rightarrow> document | Some d \<Rightarrow> d);
          receipt = tm_receipt_fee_basis_points (ga_terms a);
          markup = tm_app_markup_basis_points (ga_terms a)
      in case delivered_usage_cost_microdollars document' provider endpoint_id u' of Inl e \<Rightarrow> Inl e
       | Inr charge \<Rightarrow>
          (case (if 0 < receipt then signed_receipt_price_microdollars charge receipt else Inr charge) of Inl e \<Rightarrow> Inl e
           | Inr charge \<Rightarrow> Inr (if 0 < markup then charge + app_markup_microdollars charge markup else charge)))"

section \<open>Heartbeats\<close>

text \<open>The rows a heartbeat reads: the authorization with its delivered usage and the document of its
  snapshot, and the reservation row of its credit hold.\<close>

record heartbeat_row =
  hr_auth :: gateway_authorization
  hr_usage :: "delivered_usage option"
  hr_document :: "pricing_document option"
  hr_reservation :: "(bool \<times> instant) option"

record heartbeat_result =
  hb_accepted :: bool
  hb_reason :: "string option"
  hb_seq :: "int option"
  hb_expires_at :: "instant option"
  hb_cap :: "int option"
  hb_running :: "int option"
  hb_replay :: bool

record heartbeat =
  hq_seq :: int
  hq_started_at :: instant
  hq_endpoint :: string
  hq_usage :: delivered_usage
  hq_hash :: string
  hq_stream :: bool
  hq_grace :: int
  hq_now :: instant

definition hb_reject :: "string \<Rightarrow> heartbeat_result" where
  "hb_reject reason = \<lparr>hb_accepted = False, hb_reason = Some reason, hb_seq = None, hb_expires_at = None,
     hb_cap = None, hb_running = None, hb_replay = False\<rparr>"

definition usage_exceeds_authorized_tokens :: "gateway_authorization \<Rightarrow> delivered_usage \<Rightarrow> bool" where
  "usage_exceeds_authorized_tokens a u =
     (case (pg_stage_d_prompt_tokens (ga_progress a), pg_stage_d_max_output_tokens (ga_progress a)) of
        (Some p, Some m) \<Rightarrow> snd (normalized_delivered_prompt (tm_provider (ga_terms a)) u) + du_output u > p + m
      | _ \<Rightarrow> True)"

definition cap_micro :: "gateway_authorization \<Rightarrow> int" where
  "cap_micro a = tm_estimated (ga_terms a)"

definition selected_provider :: "(string \<Rightarrow> model_endpoint option) \<Rightarrow> gateway_authorization \<Rightarrow> string \<Rightarrow> string" where
  "selected_provider endpoint_for_id a endpoint_id =
     (case endpoint_for_id endpoint_id of None \<Rightarrow> tm_provider (ga_terms a) | Some e \<Rightarrow> me_provider e)"

definition usage_le :: "delivered_usage \<Rightarrow> delivered_usage \<Rightarrow> bool" where
  "usage_le u v \<longleftrightarrow> du_input u \<le> du_input v \<and> du_output u \<le> du_output v \<and> du_cache_read u \<le> du_cache_read v \<and>
     du_cache_creation u \<le> du_cache_creation v \<and> du_price_tier_input u \<le> du_price_tier_input v \<and>
     du_reasoning u \<le> du_reasoning v"

text \<open>The two updates of an accepted heartbeat.\<close>

definition record_heartbeat :: "heartbeat \<Rightarrow> instant \<Rightarrow> heartbeat_row \<Rightarrow> heartbeat_row" where
  "record_heartbeat q expires_at row =
     (let p = ga_progress (hr_auth row);
          p' = p\<lparr>pg_heartbeat_seq := Some (hq_seq q), pg_heartbeat_at := Some (hq_now q),
            pg_heartbeat_hash := Some (hq_hash q),
            pg_started_at := (if hq_seq q = 1 \<and> pg_started_at p = None then Some (hq_started_at q) else pg_started_at p),
            pg_selected_endpoint_id := (if hq_seq q = 1 \<and> pg_selected_endpoint_id p = None then Some (hq_endpoint q)
              else pg_selected_endpoint_id p)\<rparr>
      in row\<lparr>hr_auth := (hr_auth row)\<lparr>ga_progress := p'\<rparr>, hr_usage := Some (hq_usage q),
             hr_reservation := Some (False, max expires_at (hq_now q + hq_grace q * 1000000))\<rparr>)"

definition heartbeat_replay ::
    "(string \<Rightarrow> model_endpoint option) \<Rightarrow> heartbeat \<Rightarrow> pricing_document \<Rightarrow> instant \<Rightarrow> heartbeat_row \<Rightarrow> heartbeat_result result" where
  "heartbeat_replay endpoint_for_id q d expires_at row =
     (let a = hr_auth row; p = ga_progress a;
          endpoint = (case pg_selected_endpoint_id p of None \<Rightarrow> ''None'' | Some e \<Rightarrow> e)
      in case parse_pricing_snapshot d of Inl e \<Rightarrow> Inl e
       | Inr document \<Rightarrow>
          (case delivered_usage_charge_microdollars endpoint_for_id a document (selected_provider endpoint_for_id a endpoint)
                  endpoint (delivered_usage_counts (hr_usage row)) of Inl e \<Rightarrow> Inl e
           | Inr running \<Rightarrow> Inr \<lparr>hb_accepted = True, hb_reason = None, hb_seq = Some (hq_seq q),
               hb_expires_at = Some expires_at, hb_cap = Some (cap_micro a), hb_running = Some running, hb_replay = True\<rparr>))"

definition heartbeat_gateway_atomic ::
    "(string \<Rightarrow> model_endpoint option) \<Rightarrow> heartbeat \<Rightarrow> heartbeat_row option \<Rightarrow> heartbeat_result result \<times> heartbeat_row option" where
  "heartbeat_gateway_atomic endpoint_for_id q r =
     (case r of None \<Rightarrow> (Inr (hb_reject ''unknown_authorization''), r)
      | Some row \<Rightarrow>
         (let a = hr_auth row; p = ga_progress a; stored_seq = oint (pg_heartbeat_seq p)
          in if tm_credit_reservation_id (ga_terms a) = None then (Inr (hb_reject ''unknown_authorization''), r)
             else case hr_reservation row of None \<Rightarrow> (Inr (hb_reject ''unknown_authorization''), r)
             | Some (reservation_settled, expires_at) \<Rightarrow>
                (if ga_settled a \<or> reservation_settled then (Inr (hb_reject ''already_terminal''), r)
                 else case hr_document row of None \<Rightarrow> (Inr (hb_reject ''out_of_cohort''), r)
                 | Some d \<Rightarrow>
                    (if \<not> hq_stream q then (Inr (hb_reject ''out_of_cohort''), r)
                     else if hq_seq q < stored_seq then (Inr (hb_reject ''stale_seq''), r)
                     else if hq_seq q = stored_seq
                     then (if pg_heartbeat_hash p \<noteq> Some (hq_hash q) \<or> stored_seq = 0 then (Inr (hb_reject ''stale_seq''), r)
                           else (heartbeat_replay endpoint_for_id q d expires_at row, r))
                     else if hq_seq q > 1 \<and> pg_selected_endpoint_id p \<noteq> Some (hq_endpoint q)
                     then (Inr (hb_reject ''endpoint_mismatch''), r)
                     else if \<not> usage_le (delivered_usage_counts (hr_usage row)) (hq_usage q)
                     then (Inr (hb_reject ''usage_regression''), r)
                     else if usage_exceeds_authorized_tokens a (hq_usage q) then (Inr (hb_reject ''usage_exceeds_cap''), r)
                     else case parse_pricing_snapshot d of Inl e \<Rightarrow> (Inl e, r)
                     | Inr document \<Rightarrow>
                        (case delivered_usage_charge_microdollars endpoint_for_id a document
                                (selected_provider endpoint_for_id a (hq_endpoint q)) (hq_endpoint q) (hq_usage q) of
                           Inl _ \<Rightarrow> (Inr (hb_reject ''endpoint_mismatch''), r)
                         | Inr running \<Rightarrow>
                             (if running > cap_micro a then (Inr (hb_reject ''usage_exceeds_cap''), r)
                              else let row' = record_heartbeat q expires_at row
                                in (Inr \<lparr>hb_accepted = True, hb_reason = None, hb_seq = Some (hq_seq q),
                                      hb_expires_at = map_option snd (hr_reservation row'), hb_cap = Some (cap_micro a),
                                      hb_running = Some running, hb_replay = False\<rparr>, Some row')))))))"

section \<open>Lemmas\<close>

subsection \<open>What a heartbeat changes\<close>

abbreviation hr_seq :: "heartbeat_row \<Rightarrow> int" where
  "hr_seq row \<equiv> oint (pg_heartbeat_seq (ga_progress (hr_auth row)))"

abbreviation hr_selected :: "heartbeat_row \<Rightarrow> string option" where
  "hr_selected row \<equiv> pg_selected_endpoint_id (ga_progress (hr_auth row))"

abbreviation hr_counts :: "heartbeat_row \<Rightarrow> delivered_usage" where
  "hr_counts row \<equiv> delivered_usage_counts (hr_usage row)"

definition hr_expiry :: "heartbeat_row \<Rightarrow> instant" where
  "hr_expiry row = (case hr_reservation row of None \<Rightarrow> 0 | Some x \<Rightarrow> snd x)"

definition hr_charge :: "(string \<Rightarrow> model_endpoint option) \<Rightarrow> heartbeat_row \<Rightarrow> pricing_document \<Rightarrow> string \<Rightarrow> delivered_usage \<Rightarrow> int result" where
  "hr_charge ef row d e u = delivered_usage_charge_microdollars ef (hr_auth row) d (selected_provider ef (hr_auth row) e) e u"

text \<open>The stored progress: before the first heartbeat no endpoint is selected; afterwards the stored
  usage is priced within the cap.\<close>

definition heartbeat_ok :: "(string \<Rightarrow> model_endpoint option) \<Rightarrow> heartbeat_row \<Rightarrow> bool" where
  "heartbeat_ok ef row \<longleftrightarrow> 0 \<le> hr_seq row \<and> (hr_seq row = 0 \<longrightarrow> hr_selected row = None) \<and>
     (0 < hr_seq row \<longrightarrow> (\<exists>e d n. hr_selected row = Some e \<and> hr_document row = Some d \<and> parse_pricing_snapshot d = Inr d \<and>
        hr_charge ef row d e (hr_counts row) = Inr n \<and> n \<le> cap_micro (hr_auth row)))"

lemma usage_le_refl [simp]: "usage_le u u"
  by (simp add: usage_le_def)

lemma usage_le_trans: "usage_le u v \<Longrightarrow> usage_le v w \<Longrightarrow> usage_le u w"
  by (simp add: usage_le_def)

lemma parse_pricing_snapshot_id: "parse_pricing_snapshot d = Inr d' \<Longrightarrow> d' = d"
  by (auto simp: parse_pricing_snapshot_def split: if_splits)

lemma record_heartbeat_simps:
  "ga_terms (hr_auth (record_heartbeat q x row)) = ga_terms (hr_auth row)"
  "ga_settled (hr_auth (record_heartbeat q x row)) = ga_settled (hr_auth row)"
  "pg_stage_d_prompt_tokens (ga_progress (hr_auth (record_heartbeat q x row))) = pg_stage_d_prompt_tokens (ga_progress (hr_auth row))"
  "hr_seq (record_heartbeat q x row) = hq_seq q" "hr_usage (record_heartbeat q x row) = Some (hq_usage q)"
  "pg_heartbeat_hash (ga_progress (hr_auth (record_heartbeat q x row))) = Some (hq_hash q)"
  "hr_document (record_heartbeat q x row) = hr_document row"
  "hr_reservation (record_heartbeat q x row) = Some (False, max x (hq_now q + hq_grace q * 1000000))"
  "hr_selected (record_heartbeat q x row) = (if hq_seq q = 1 \<and> hr_selected row = None then Some (hq_endpoint q) else hr_selected row)"
  by (simp_all add: record_heartbeat_def Let_def)

lemma billing_pricing_snapshot_terms: "ga_terms a = ga_terms b \<Longrightarrow> billing_pricing_snapshot a d = billing_pricing_snapshot b d"
  by (simp only: billing_pricing_snapshot_def)

lemma delivered_usage_charge_terms:
  "ga_terms a = ga_terms b \<Longrightarrow>
   delivered_usage_charge_microdollars ef a d p e u = delivered_usage_charge_microdollars ef b d p e u"
  by (simp only: delivered_usage_charge_microdollars_def billing_pricing_snapshot_terms [of a b])

lemma selected_provider_terms: "ga_terms a = ga_terms b \<Longrightarrow> selected_provider ef a e = selected_provider ef b e"
  by (simp only: selected_provider_def)

lemma hr_charge_record [simp]: "hr_charge ef (record_heartbeat q x row) d e u = hr_charge ef row d e u"
proof -
  have same: "ga_terms (hr_auth (record_heartbeat q x row)) = ga_terms (hr_auth row)"
    by (rule record_heartbeat_simps)
  show ?thesis
    unfolding hr_charge_def selected_provider_terms [OF same] by (rule delivered_usage_charge_terms [OF same])
qed

lemma cap_record [simp]: "cap_micro (hr_auth (record_heartbeat q x row)) = cap_micro (hr_auth row)"
  by (simp add: cap_micro_def record_heartbeat_simps)

lemma heartbeat_cases:
  assumes "heartbeat_gateway_atomic ef q (Some row) = (res, r)"
  obtains (refused) "r = Some row" "\<And>x. res = Inr x \<Longrightarrow> \<not> hb_accepted x"
  | (replayed) x d where "r = Some row" "hr_reservation row = Some (False, x)" "\<not> ga_settled (hr_auth row)"
      "tm_credit_reservation_id (ga_terms (hr_auth row)) \<noteq> None"
      "hr_document row = Some d" "hq_stream q" "hq_seq q = hr_seq row" "hr_seq row \<noteq> 0"
      "pg_heartbeat_hash (ga_progress (hr_auth row)) = Some (hq_hash q)" "res = heartbeat_replay ef q d x row"
  | (recorded) x d n where "r = Some (record_heartbeat q x row)" "hr_reservation row = Some (False, x)"
      "\<not> ga_settled (hr_auth row)" "tm_credit_reservation_id (ga_terms (hr_auth row)) \<noteq> None"
      "hr_document row = Some d" "hq_stream q" "hr_seq row < hq_seq q"
      "\<not> (hq_seq q > 1 \<and> hr_selected row \<noteq> Some (hq_endpoint q))" "usage_le (hr_counts row) (hq_usage q)"
      "parse_pricing_snapshot d = Inr d" "hr_charge ef row d (hq_endpoint q) (hq_usage q) = Inr n" "n \<le> cap_micro (hr_auth row)"
      "res = Inr \<lparr>hb_accepted = True, hb_reason = None, hb_seq = Some (hq_seq q),
         hb_expires_at = Some (max x (hq_now q + hq_grace q * 1000000)), hb_cap = Some (cap_micro (hr_auth row)),
         hb_running = Some n, hb_replay = False\<rparr>"
proof -
  let ?a = "hr_auth row"
  consider (early) "tm_credit_reservation_id (ga_terms ?a) = None \<or> hr_reservation row = None"
    | (late) settled x where "tm_credit_reservation_id (ga_terms ?a) \<noteq> None" "hr_reservation row = Some (settled, x)"
    by (cases "hr_reservation row") auto
  then show thesis
  proof cases
    case early
    then show thesis using refused assms
      by (auto simp: heartbeat_gateway_atomic_def Let_def hb_reject_def split: option.splits)
  next
    case (late settled x)
    show thesis
    proof (cases "ga_settled ?a \<or> settled \<or> hr_document row = None \<or> \<not> hq_stream q")
      case True
      then show thesis using refused assms late
        by (auto simp: heartbeat_gateway_atomic_def Let_def hb_reject_def split: option.splits if_splits)
    next
      case False
      then obtain d where d: "hr_document row = Some d" by auto
      have run: "heartbeat_gateway_atomic ef q (Some row) =
          (if hq_seq q < hr_seq row then (Inr (hb_reject ''stale_seq''), Some row)
           else if hq_seq q = hr_seq row
           then (if pg_heartbeat_hash (ga_progress ?a) \<noteq> Some (hq_hash q) \<or> hr_seq row = 0 then (Inr (hb_reject ''stale_seq''), Some row)
                 else (heartbeat_replay ef q d x row, Some row))
           else if hq_seq q > 1 \<and> hr_selected row \<noteq> Some (hq_endpoint q) then (Inr (hb_reject ''endpoint_mismatch''), Some row)
           else if \<not> usage_le (hr_counts row) (hq_usage q) then (Inr (hb_reject ''usage_regression''), Some row)
           else if usage_exceeds_authorized_tokens ?a (hq_usage q) then (Inr (hb_reject ''usage_exceeds_cap''), Some row)
           else case parse_pricing_snapshot d of Inl e \<Rightarrow> (Inl e, Some row)
             | Inr document \<Rightarrow> (case hr_charge ef row document (hq_endpoint q) (hq_usage q) of
                 Inl _ \<Rightarrow> (Inr (hb_reject ''endpoint_mismatch''), Some row)
               | Inr running \<Rightarrow> if running > cap_micro ?a then (Inr (hb_reject ''usage_exceeds_cap''), Some row)
                   else (Inr \<lparr>hb_accepted = True, hb_reason = None, hb_seq = Some (hq_seq q),
                          hb_expires_at = Some (max x (hq_now q + hq_grace q * 1000000)), hb_cap = Some (cap_micro ?a),
                          hb_running = Some running, hb_replay = False\<rparr>, Some (record_heartbeat q x row))))"
        using False late d
        by (auto simp: heartbeat_gateway_atomic_def Let_def hr_charge_def record_heartbeat_simps split: sum.split)
      have rej: "\<not> hb_accepted (hb_reject m)" for m by (simp add: hb_reject_def)
      show thesis
        using assms refused replayed [of x d] recorded [of x d] False late d rej
        unfolding run by (auto split: if_splits sum.splits dest: parse_pricing_snapshot_id)
    qed
  qed
qed

lemma heartbeat_none [simp]: "heartbeat_gateway_atomic ef q None = (Inr (hb_reject ''unknown_authorization''), None)"
  by (simp add: heartbeat_gateway_atomic_def)

text \<open>What one heartbeat may do to the rows.\<close>

definition heartbeat_grows :: "heartbeat_row \<Rightarrow> heartbeat_row \<Rightarrow> bool" where
  "heartbeat_grows row row' \<longleftrightarrow> hr_seq row \<le> hr_seq row' \<and> usage_le (hr_counts row) (hr_counts row') \<and>
     hr_expiry row \<le> hr_expiry row' \<and> ga_terms (hr_auth row') = ga_terms (hr_auth row) \<and>
     hr_document row' = hr_document row \<and> (hr_selected row \<noteq> None \<longrightarrow> hr_selected row' = hr_selected row)"

lemma heartbeat_grows_refl: "heartbeat_grows row row"
  by (simp add: heartbeat_grows_def)

lemma heartbeat_grows_trans: "heartbeat_grows a b \<Longrightarrow> heartbeat_grows b c \<Longrightarrow> heartbeat_grows a c"
  using usage_le_trans by (auto simp: heartbeat_grows_def)

lemma record_heartbeat_grows:
  assumes "heartbeat_ok ef row" "hr_reservation row = Some (False, x)" "hr_document row = Some d"
    "hr_seq row < hq_seq q" "\<not> (hq_seq q > 1 \<and> hr_selected row \<noteq> Some (hq_endpoint q))" "usage_le (hr_counts row) (hq_usage q)"
    "parse_pricing_snapshot d = Inr d" "hr_charge ef row d (hq_endpoint q) (hq_usage q) = Inr n" "n \<le> cap_micro (hr_auth row)"
  shows "heartbeat_ok ef (record_heartbeat q x row)" "heartbeat_grows row (record_heartbeat q x row)"
    "hr_selected (record_heartbeat q x row) = Some (hq_endpoint q)"
proof -
  have old: "0 \<le> hr_seq row" "hr_seq row = 0 \<Longrightarrow> hr_selected row = None"
    using assms(1) by (simp_all add: heartbeat_ok_def)
  show sel: "hr_selected (record_heartbeat q x row) = Some (hq_endpoint q)"
    using old assms(4,5) by (cases "hq_seq q = 1") (auto simp: record_heartbeat_simps)
  show "heartbeat_ok ef (record_heartbeat q x row)"
    using old assms(3,4,7,8,9) sel by (simp add: heartbeat_ok_def record_heartbeat_simps delivered_usage_counts_def)
  show "heartbeat_grows row (record_heartbeat q x row)"
    using assms(2,4,6) by (simp add: heartbeat_grows_def record_heartbeat_simps delivered_usage_counts_def hr_expiry_def)
qed

lemma heartbeat_step:
  assumes "heartbeat_ok ef row" "heartbeat_gateway_atomic ef q (Some row) = (res, r)"
  obtains row' where "r = Some row'" "heartbeat_ok ef row'" "heartbeat_grows row row'"
  using assms(2)
proof (cases rule: heartbeat_cases)
  case (recorded x d n)
  show thesis
    by (rule that [OF recorded(1)]; rule record_heartbeat_grows; fact assms(1) recorded)
qed (use assms(1) heartbeat_grows_refl that in auto)

lemma heartbeats_grow:
  assumes "heartbeat_ok ef row"
  obtains row' where "fold (\<lambda>q r. snd (heartbeat_gateway_atomic ef q r)) qs (Some row) = Some row'"
    "heartbeat_ok ef row'" "heartbeat_grows row row'"
  using assms
proof (induction qs arbitrary: row thesis)
  case Nil
  then show thesis using heartbeat_grows_refl by auto
next
  case (Cons q qs)
  obtain res r where step: "heartbeat_gateway_atomic ef q (Some row) = (res, r)" by fastforce
  obtain row1 where 1: "r = Some row1" "heartbeat_ok ef row1" "heartbeat_grows row row1"
    using heartbeat_step [OF Cons.prems(2) step] by blast
  obtain row2 where "fold (\<lambda>q r. snd (heartbeat_gateway_atomic ef q r)) qs (Some row1) = Some row2"
      "heartbeat_ok ef row2" "heartbeat_grows row1 row2"
    using Cons.IH [OF _ 1(2)] by blast
  then show thesis using Cons.prems(1) step 1 heartbeat_grows_trans by auto
qed

lemma heartbeat_replay_ok:
  assumes "heartbeat_ok ef row" "hr_seq row \<noteq> 0" "hr_document row = Some d" "hr_selected row = Some e"
  obtains n where "hr_charge ef row d e (hr_counts row) = Inr n" "n \<le> cap_micro (hr_auth row)"
    "heartbeat_replay ef q d x row = Inr \<lparr>hb_accepted = True, hb_reason = None, hb_seq = Some (hq_seq q),
       hb_expires_at = Some x, hb_cap = Some (cap_micro (hr_auth row)), hb_running = Some n, hb_replay = True\<rparr>"
  using assms by (auto simp: heartbeat_ok_def heartbeat_replay_def Let_def hr_charge_def)

lemma heartbeat_ok_selected: "heartbeat_ok ef row \<Longrightarrow> hr_seq row \<noteq> 0 \<Longrightarrow> \<exists>e. hr_selected row = Some e"
  by (auto simp: heartbeat_ok_def)

text \<open>An accepted heartbeat is within the cap, and sending it again changes nothing.\<close>

lemma heartbeat_accepted:
  assumes "heartbeat_ok ef row" "heartbeat_gateway_atomic ef q (Some row) = (Inr x, Some row')" "hb_accepted x"
  shows "\<exists>n. hb_running x = Some n \<and> n \<le> cap_micro (hr_auth row)"
    "hb_expires_at x = Some (hr_expiry row')"
    "heartbeat_gateway_atomic ef q (Some row') = (Inr (x\<lparr>hb_replay := True\<rparr>), Some row')"
proof -
  have "(\<exists>n. hb_running x = Some n \<and> n \<le> cap_micro (hr_auth row)) \<and> hb_expires_at x = Some (hr_expiry row') \<and>
    heartbeat_gateway_atomic ef q (Some row') = (Inr (x\<lparr>hb_replay := True\<rparr>), Some row')"
    using assms(2)
  proof (cases rule: heartbeat_cases)
    case refused
    then show ?thesis using assms(3) by blast
  next
    case (replayed t d)
    obtain e where e: "hr_selected row = Some e"
      using heartbeat_ok_selected [OF assms(1) replayed(8)] by blast
    obtain n where "n \<le> cap_micro (hr_auth row)" and answer: "x = \<lparr>hb_accepted = True, hb_reason = None, hb_seq = Some (hq_seq q),
       hb_expires_at = Some t, hb_cap = Some (cap_micro (hr_auth row)), hb_running = Some n, hb_replay = True\<rparr>"
      using heartbeat_replay_ok [OF assms(1) replayed(8,5) e] replayed(10) by (metis Inr_inject)
    moreover have "row' = row" using replayed(1) by simp
    ultimately show ?thesis using assms(2) replayed(2) by (simp add: hr_expiry_def)
  next
    case (recorded t d n)
    have row': "row' = record_heartbeat q t row" using recorded(1) by simp
    note next_row = record_heartbeat_grows [OF assms(1) recorded(2,5,7-12)]
    have pos: "0 < hq_seq q" using assms(1) recorded(7) by (simp add: heartbeat_ok_def)
    have "heartbeat_gateway_atomic ef q (Some row') =
        (heartbeat_replay ef q d (max t (hq_now q + hq_grace q * 1000000)) row', Some row')"
      unfolding row' using recorded pos by (auto simp: heartbeat_gateway_atomic_def Let_def record_heartbeat_simps)
    moreover have "heartbeat_replay ef q d (max t (hq_now q + hq_grace q * 1000000)) row' = Inr (x\<lparr>hb_replay := True\<rparr>)"
      unfolding row'
      using next_row(3) recorded(10,11,13) hr_charge_record [of ef q t row d "hq_endpoint q" "hq_usage q"]
      by (simp add: heartbeat_replay_def Let_def hr_charge_def record_heartbeat_simps delivered_usage_counts_def)
    ultimately show ?thesis using recorded(12,13) row' by (simp add: hr_expiry_def record_heartbeat_simps)
  qed
  then show "\<exists>n. hb_running x = Some n \<and> n \<le> cap_micro (hr_auth row)" "hb_expires_at x = Some (hr_expiry row')"
    "heartbeat_gateway_atomic ef q (Some row') = (Inr (x\<lparr>hb_replay := True\<rparr>), Some row')" by blast+
qed

section \<open>Properties\<close>

text \<open>C30. Streaming heartbeats, in any order and with any contents, never move a request backwards or past its
  hold.  From a row whose stored usage is within the cap (a fresh authorization is one): the stored
  sequence number, the delivered token counts and the expiry of the credit hold only grow, the terms and
  the frozen prices stay, the endpoint selected by the first heartbeat is never replaced, and the stored
  usage is still priced within the authorized amount.  A heartbeat that is then accepted reports a running charge of at most the
  hold and the expiry that was stored, and the same heartbeat sent again is answered the same way, marked
  as a replay, without a change.\<close>

theorem heartbeats_monotone_within_cap:
  assumes "heartbeat_ok ef row"
  shows "\<exists>row'. fold (\<lambda>q r. snd (heartbeat_gateway_atomic ef q r)) qs (Some row) = Some row' \<and>
     heartbeat_ok ef row' \<and> heartbeat_grows row row' \<and>
     (\<forall>q x row''. heartbeat_gateway_atomic ef q (Some row') = (Inr x, Some row'') \<and> hb_accepted x \<longrightarrow>
        (\<exists>n. hb_running x = Some n \<and> n \<le> tm_estimated (ga_terms (hr_auth row))) \<and> hb_expires_at x = Some (hr_expiry row'') \<and>
        heartbeat_gateway_atomic ef q (Some row'') = (Inr (x\<lparr>hb_replay := True\<rparr>), Some row''))"
proof -
  obtain row' where row': "fold (\<lambda>q r. snd (heartbeat_gateway_atomic ef q r)) qs (Some row) = Some row'"
      "heartbeat_ok ef row'" "heartbeat_grows row row'"
    using heartbeats_grow [OF assms] by blast
  moreover have "cap_micro (hr_auth row') = tm_estimated (ga_terms (hr_auth row))"
    using row'(3) by (simp add: cap_micro_def heartbeat_grows_def)
  ultimately show ?thesis using heartbeat_accepted [OF row'(2)] by metis
qed

definition demo_heartbeat_terms :: auth_terms where
  "demo_heartbeat_terms = \<lparr>tm_model_id = ''m'', tm_provider = ''openai'', tm_usage_type = CREDITS, tm_estimated = 30,
     tm_credit_reservation_id = Some ''r1'', tm_key_reserved = Some 30, tm_requested_model_id = None,
     tm_candidate_model_ids = [''m''], tm_region = None, tm_endpoint_id = Some ''e'', tm_candidate_endpoint_ids = [''e''],
     tm_idempotency_key = None, tm_tags = [], tm_idempotency_fingerprint = None, tm_app_id = [],
     tm_app_markup_basis_points = 0, tm_app_owner_user_id = [], tm_receipt_fee_basis_points = 0,
     tm_custom_model_id = None, tm_custom_model_revision = None, tm_custom_model_markup_basis_points = 0,
     tm_custom_model_owner_user_id = [], tm_user_provided_model_id = None,
     tm_user_provided_model_revision = None, tm_user_model_prompt_price = None,
     tm_user_model_completion_price = None, tm_user_model_owner_user_id = None,
     tm_additional_cost_reservation = 0, tm_native_batch_eligible = False, tm_video_pricing_snapshot = None,
     tm_settlement = ''local'', tm_expires_at = None, tm_pricing_snapshot = Some ''doc'', tm_invocation_nonce = None,
     tm_stage_d_reason = Some ''ok''\<rparr>"

definition demo_heartbeat_row :: heartbeat_row where
  "demo_heartbeat_row =
     \<lparr>hr_auth = \<lparr>ga_id = ''gwa-1'', ga_workspace_id = ''w'', ga_key_hash = ''k'', ga_settled = False, ga_created_at = 0,
        ga_terms = demo_heartbeat_terms, ga_progress = no_progress\<lparr>pg_stage_d_prompt_tokens := Some 10,
          pg_stage_d_max_output_tokens := Some 20\<rparr>, ga_final = no_final\<rparr>,
      hr_usage = None,
      hr_document = Some (endpoint_pricing_document [\<lparr>me_id = ''e'', me_model_id = ''m'', me_provider = ''openai'',
        me_usage_type = ''Credits'', me_prompt = 1000000, me_completion = 2000000, me_request = 0, me_tiers = []\<rparr>]),
      hr_reservation = Some (False, 100)\<rparr>"

definition demo_heartbeat :: "int \<Rightarrow> int \<Rightarrow> heartbeat" where
  "demo_heartbeat n out = \<lparr>hq_seq = n, hq_started_at = 0, hq_endpoint = ''e'',
     hq_usage = \<lparr>du_input = 10, du_output = out, du_cache_read = 0, du_cache_creation = 0, du_price_tier_input = 0, du_reasoning = 0\<rparr>,
     hq_hash = ''h'', hq_stream = True, hq_grace = 1, hq_now = n\<rparr>"

definition demo_heartbeat_answer :: heartbeat_result where
  "demo_heartbeat_answer = \<lparr>hb_accepted = True, hb_reason = None, hb_seq = Some 3, hb_expires_at = Some 1000003,
     hb_cap = Some 30, hb_running = Some 30, hb_replay = False\<rparr>"

theorem heartbeats_monotone_within_cap_witness:
  "\<exists>row'. fold (\<lambda>q r. snd (heartbeat_gateway_atomic (\<lambda>_. None) q r)) [demo_heartbeat 1 5, demo_heartbeat 2 11, demo_heartbeat 2 9]
      (Some demo_heartbeat_row) = Some row' \<and> hr_seq row' = 2 \<and>
     (\<exists>row''. heartbeat_gateway_atomic (\<lambda>_. None) (demo_heartbeat 3 10) (Some row') = (Inr demo_heartbeat_answer, Some row'') \<and>
       heartbeat_gateway_atomic (\<lambda>_. None) (demo_heartbeat 3 10) (Some row'') =
         (Inr (demo_heartbeat_answer\<lparr>hb_replay := True\<rparr>), Some row''))"
proof -
  let ?run = "fold (\<lambda>q r. snd (heartbeat_gateway_atomic (\<lambda>_. None) q r))
    [demo_heartbeat 1 5, demo_heartbeat 2 11, demo_heartbeat 2 9] (Some demo_heartbeat_row)"
  have "heartbeat_ok (\<lambda>_. None) demo_heartbeat_row"
    by (simp add: heartbeat_ok_def demo_heartbeat_row_def no_progress_def)
  then obtain row' where row': "?run = Some row'"
      and later: "\<And>x row''. heartbeat_gateway_atomic (\<lambda>_. None) (demo_heartbeat 3 10) (Some row') = (Inr x, Some row'') \<Longrightarrow> hb_accepted x \<Longrightarrow>
        heartbeat_gateway_atomic (\<lambda>_. None) (demo_heartbeat 3 10) (Some row'') = (Inr (x\<lparr>hb_replay := True\<rparr>), Some row'')"
    using heartbeats_monotone_within_cap [of "\<lambda>_. None" demo_heartbeat_row
      "[demo_heartbeat 1 5, demo_heartbeat 2 11, demo_heartbeat 2 9]"] by blast
  have "map_option hr_seq ?run = Some 2" by code_simp
  then have seq: "hr_seq row' = 2" unfolding row' by simp
  have "(case heartbeat_gateway_atomic (\<lambda>_. None) (demo_heartbeat 3 10) ?run of (x, r) \<Rightarrow> x = Inr demo_heartbeat_answer \<and> r \<noteq> None)"
    by code_simp
  then obtain row'' where "heartbeat_gateway_atomic (\<lambda>_. None) (demo_heartbeat 3 10) (Some row') = (Inr demo_heartbeat_answer, Some row'')"
    unfolding row' by (auto split: prod.splits)
  moreover from this have "heartbeat_gateway_atomic (\<lambda>_. None) (demo_heartbeat 3 10) (Some row'') =
      (Inr (demo_heartbeat_answer\<lparr>hb_replay := True\<rparr>), Some row'')"
    by (rule later) (simp add: demo_heartbeat_answer_def)
  ultimately show ?thesis using row' seq by blast
qed

end
