(* ===== verification/Billing_Snapshot.thy ===== *)
theory Billing_Snapshot
  imports Stage_D "HOL-Library.Multiset"
begin

text \<open>
  The asynchronous settlement contract of \<open>billing_snapshot.py\<close>: which requests it admits, the frozen
  price snapshot of a request's endpoints, the evaluation of a final usage report against it in
  checked 64-bit arithmetic, and the validation of a terminal envelope.

  A DTO is a record; what its Pydantic field types and \<open>after\<close> validators refuse is the \<open>Inl\<close> branch of
  the function that constructs it, \<open>''ValidationError''\<close> standing for a refusal by a field type.  The wire
  decoder is not modelled, nor is the serialisation below \<open>canonical_hash\<close>, which is a parameter.
\<close>

section \<open>Eligibility\<close>

definition MAX_INT :: int where
  "MAX_INT = 2 ^ 63 - 1"

definition uint_ok :: "int \<Rightarrow> bool" where
  "uint_ok n \<longleftrightarrow> 0 \<le> n \<and> n \<le> MAX_INT"

record eligibility =
  el_typed :: bool
  el_usage_type :: string
  el_authority :: string
  el_route_type :: string
  el_streamed :: bool
  el_service_tier :: "string option"
  el_app_markup :: int
  el_custom_markup :: int
  el_receipt_fee :: int
  el_request_fee :: int
  el_custom_model :: bool
  el_user_model :: bool
  el_tool_cost :: bool
  el_search_cost :: bool
  el_image_cost :: bool
  el_video_cost :: bool
  el_partner :: bool
  el_liberty :: bool
  el_native_batch :: bool
  el_fusion :: bool
  el_polyphemus :: bool
  el_private_tier_basis :: bool

text \<open>The defaults of the class with the two fields its callers pass.\<close>

definition new_eligibility :: "string \<Rightarrow> bool \<Rightarrow> eligibility" where
  "new_eligibility route_type streamed =
     \<lparr>el_typed = True, el_usage_type = ''Credits'', el_authority = ''local'', el_route_type = route_type,
      el_streamed = streamed, el_service_tier = None, el_app_markup = 0, el_custom_markup = 0,
      el_receipt_fee = 0, el_request_fee = 0, el_custom_model = False, el_user_model = False,
      el_tool_cost = False, el_search_cost = False, el_image_cost = False, el_video_cost = False,
      el_partner = False, el_liberty = False, el_native_batch = False, el_fusion = False,
      el_polyphemus = False, el_private_tier_basis = False\<rparr>"

definition excluding_facts :: "eligibility \<Rightarrow> (string \<times> bool) list" where
  "excluding_facts x =
     [(''app_markup'', el_app_markup x \<noteq> 0), (''custom_markup'', el_custom_markup x \<noteq> 0),
      (''receipt_fee'', el_receipt_fee x \<noteq> 0), (''request_fee'', el_request_fee x \<noteq> 0),
      (''custom_model'', el_custom_model x), (''user_model'', el_user_model x), (''tool_cost'', el_tool_cost x),
      (''search_cost'', el_search_cost x), (''image_cost'', el_image_cost x), (''video_cost'', el_video_cost x),
      (''partner'', el_partner x), (''liberty'', el_liberty x), (''native_batch'', el_native_batch x),
      (''fusion'', el_fusion x), (''polyphemus'', el_polyphemus x), (''private_tier_basis'', el_private_tier_basis x)]"

definition exclusion :: "eligibility \<Rightarrow> string option" where
  "exclusion x =
     (if \<not> el_typed x then Some ''untyped''
      else if el_usage_type x \<noteq> ''Credits'' then Some ''non_credits''
      else if el_authority x \<noteq> ''local'' then Some ''settlement_authority''
      else if el_route_type x \<notin> {''chat.completions'', ''responses''} then Some ''unsupported_route''
      else if el_service_tier x \<notin> {None, Some ''default''} then Some ''service_tier''
      else map_option fst (List.find snd (excluding_facts x)))"

definition require_eligible :: "eligibility \<Rightarrow> unit result" where
  "require_eligible x = (case exclusion x of None \<Rightarrow> Inr () | Some reason \<Rightarrow> Inl (ValueError reason))"

section \<open>Candidates and snapshots\<close>

definition identity_char :: "char \<Rightarrow> bool" where
  "identity_char c \<longleftrightarrow> (CHR ''A'' \<le> c \<and> c \<le> CHR ''Z'') \<or> (CHR ''a'' \<le> c \<and> c \<le> CHR ''z'') \<or>
     (CHR ''0'' \<le> c \<and> c \<le> CHR ''9'') \<or> c \<in> set ''_./:@+-''"

definition identity_ok :: "string \<Rightarrow> bool" where
  "identity_ok s \<longleftrightarrow> s \<noteq> [] \<and> length s \<le> 512 \<and> list_all identity_char s"

definition digest_ok :: "string \<Rightarrow> bool" where
  "digest_ok s \<longleftrightarrow> length s = 64 \<and> list_all (\<lambda>c. (CHR ''0'' \<le> c \<and> c \<le> CHR ''9'') \<or> (CHR ''a'' \<le> c \<and> c \<le> CHR ''f'')) s"

text \<open>\<open>Candidate\<close>: the frozen price of \<open>endpoint_pricing_candidate\<close> and the route it belongs to.\<close>

record billing_candidate =
  bc_price :: pricing_candidate
  bc_provider :: string
  bc_model_id :: string
  bc_usage_type :: string
  bc_prompt_convention :: string
  bc_output_convention :: string

abbreviation bc_id :: "billing_candidate \<Rightarrow> string" where
  "bc_id c \<equiv> pc_endpoint_id (bc_price c)"

definition rates_uint :: "pricing_rates \<Rightarrow> bool" where
  "rates_uint r \<longleftrightarrow> uint_ok (pr_input r) \<and> uint_ok (pr_cached r) \<and> uint_ok (pr_creation r) \<and> uint_ok (pr_output r)"

definition candidate_fields_ok :: "billing_candidate \<Rightarrow> bool" where
  "candidate_fields_ok c \<longleftrightarrow> identity_ok (bc_id c) \<and> bc_provider c \<in> {''openai'', ''anthropic''} \<and>
     identity_ok (bc_model_id c) \<and> bc_usage_type c = ''Credits'' \<and> pc_version (bc_price c) = 1 \<and>
     rates_uint (pc_rates (bc_price c)) \<and> length (pc_tiers (bc_price c)) \<le> 64 \<and>
     list_all (\<lambda>t. (case fst t of None \<Rightarrow> True | Some m \<Rightarrow> uint_ok m) \<and> rates_uint (snd t)) (pc_tiers (bc_price c)) \<and>
     uint_ok (pc_request_fee (bc_price c)) \<and> pc_rounding (bc_price c) = ''half_up_per_million'' \<and>
     bc_prompt_convention c \<in> {''includes_cache'', ''excludes_cache''} \<and> bc_output_convention c = ''includes_reasoning''"

text \<open>The loop over the tiers: an unbounded tier is the last one, and the bounds increase.\<close>

fun tiers_supported :: "int \<Rightarrow> (int option \<times> pricing_rates) list \<Rightarrow> unit result" where
  "tiers_supported previous [] = Inr ()"
| "tiers_supported previous ((None, r) # ts) =
     (if ts \<noteq> [] then Inl (ValueError ''unbounded tier must be last'') else Inr ())"
| "tiers_supported previous ((Some m, r) # ts) =
     (if m \<le> previous then Inl (ValueError ''tier boundaries must increase'') else tiers_supported m ts)"

definition prompt_convention :: "string \<Rightarrow> string" where
  "prompt_convention provider = (if provider = ''anthropic'' then ''excludes_cache'' else ''includes_cache'')"

definition candidate_validate :: "billing_candidate \<Rightarrow> billing_candidate result" where
  "candidate_validate c =
     (if \<not> candidate_fields_ok c then Inl (ValueError ''ValidationError'')
      else if pc_request_fee (bc_price c) \<noteq> 0 then Inl (ValueError ''request_fee'')
      else if bc_prompt_convention c \<noteq> prompt_convention (bc_provider c)
      then Inl (ValueError ''unsupported prompt convention for adapter'')
      else if take (length (bc_provider c) + 1) (bc_model_id c) \<noteq> bc_provider c @ ''/''
      then Inl (ValueError ''custom or unsupported model'')
      else case tiers_supported (-1) (pc_tiers (bc_price c)) of Inl e \<Rightarrow> Inl e | Inr _ \<Rightarrow> Inr c)"

text \<open>The remaining fields of \<open>BillingSnapshot\<close> are literals.\<close>

record billing_snapshot =
  bs_candidates :: "billing_candidate list"

definition snapshot_validate :: "billing_snapshot \<Rightarrow> billing_snapshot result" where
  "snapshot_validate s =
     (let ids = map bc_id (bs_candidates s)
      in if bs_candidates s = [] \<or> length (bs_candidates s) > 64 then Inl (ValueError ''ValidationError'')
         else if ids \<noteq> sorted_list_of_set (set ids)
         then Inl (ValueError ''candidates must be unique and sorted by endpoint_id'')
         else Inr s)"

definition raw_prices_valid :: "model_endpoint \<Rightarrow> bool" where
  "raw_prices_valid e \<longleftrightarrow> uint_ok (me_prompt e) \<and> uint_ok (me_completion e) \<and> uint_ok (me_request e) \<and>
     list_all (\<lambda>t. (case pt_max_prompt_tokens t of None \<Rightarrow> True | Some m \<Rightarrow> uint_ok m) \<and> uint_ok (pt_prompt t) \<and>
       uint_ok (pt_completion t) \<and> (case pt_cached t of None \<Rightarrow> True | Some c \<Rightarrow> uint_ok c)) (me_tiers e)"

definition freeze_candidate :: "model_endpoint \<Rightarrow> billing_candidate" where
  "freeze_candidate e = \<lparr>bc_price = endpoint_pricing_candidate e, bc_provider = me_provider e, bc_model_id = me_model_id e,
     bc_usage_type = me_usage_type e, bc_prompt_convention = prompt_convention (me_provider e),
     bc_output_convention = ''includes_reasoning''\<rparr>"

fun build_candidates :: "model_endpoint list \<Rightarrow> billing_candidate list result" where
  "build_candidates [] = Inr []"
| "build_candidates (e # es) =
     (if \<not> raw_prices_valid e then Inl (ValueError ''ValidationError'')
      else case candidate_validate (freeze_candidate e) of Inl x \<Rightarrow> Inl x
       | Inr c \<Rightarrow> (case build_candidates es of Inl x \<Rightarrow> Inl x | Inr cs \<Rightarrow> Inr (c # cs)))"

definition build_snapshot :: "model_endpoint list \<Rightarrow> eligibility \<Rightarrow> billing_snapshot result" where
  "build_snapshot endpoints requested =
     (case require_eligible requested of Inl e \<Rightarrow> Inl e
      | Inr _ \<Rightarrow> (case build_candidates endpoints of Inl e \<Rightarrow> Inl e
         | Inr cs \<Rightarrow> snapshot_validate \<lparr>bs_candidates = sort_key bc_id cs\<rparr>))"

section \<open>Evaluation\<close>

record raw_usage =
  ru_input :: int
  ru_output :: int
  ru_cache_read :: int
  ru_cache_creation :: int
  ru_reasoning :: int

definition raw_usage_ok :: "raw_usage \<Rightarrow> bool" where
  "raw_usage_ok r \<longleftrightarrow> uint_ok (ru_input r) \<and> uint_ok (ru_output r) \<and> uint_ok (ru_cache_read r) \<and>
     uint_ok (ru_cache_creation r) \<and> uint_ok (ru_reasoning r)"

record normalized_usage =
  nu_uncached :: int
  nu_total_prompt :: int
  nu_output :: int
  nu_cache_read :: int
  nu_cache_creation :: int
  nu_reasoning :: int

record evaluation =
  ev_usage :: normalized_usage
  ev_charge :: int

definition checked :: "int \<Rightarrow> int result" where
  "checked v = (if v < 0 \<or> v > MAX_INT then Inl (ValueError ''arithmetic_overflow'') else Inr v)"

definition normalized_usage_validate :: "normalized_usage \<Rightarrow> normalized_usage result" where
  "normalized_usage_validate u =
     (if \<not> (uint_ok (nu_uncached u) \<and> uint_ok (nu_total_prompt u) \<and> uint_ok (nu_output u) \<and> uint_ok (nu_cache_read u) \<and>
             uint_ok (nu_cache_creation u) \<and> uint_ok (nu_reasoning u)) then Inl (ValueError ''ValidationError'')
      else case checked (nu_uncached u + nu_cache_read u + nu_cache_creation u) of Inl e \<Rightarrow> Inl e
       | Inr tot \<Rightarrow> if nu_total_prompt u \<noteq> tot \<or> nu_reasoning u > nu_output u
           then Inl (ValueError ''malformed_usage'') else Inr u)"

text \<open>The loop over the four components, with the running cost and whether any of them is positive.\<close>

fun charge_components :: "(int \<times> int) list \<Rightarrow> int \<Rightarrow> bool \<Rightarrow> (int \<times> bool) result" where
  "charge_components [] cost positive = Inr (cost, positive)"
| "charge_components ((tokens, rate) # cs) cost positive =
     (case checked (tokens * rate) of Inl e \<Rightarrow> Inl e
      | Inr product \<Rightarrow> (case checked (product + 500000) of Inl e \<Rightarrow> Inl e
         | Inr rounded \<Rightarrow> (case checked (cost + rounded div 1000000) of Inl e \<Rightarrow> Inl e
            | Inr cost' \<Rightarrow> charge_components cs cost' (positive \<or> 0 < tokens \<and> 0 < rate))))"

definition find_candidate :: "billing_snapshot \<Rightarrow> string \<Rightarrow> billing_candidate option" where
  "find_candidate s endpoint = List.find (\<lambda>c. bc_id c = endpoint) (bs_candidates s)"

definition normalize_usage :: "billing_candidate \<Rightarrow> raw_usage \<Rightarrow> normalized_usage result" where
  "normalize_usage c raw =
     (case checked (ru_cache_read raw + ru_cache_creation raw) of Inl e \<Rightarrow> Inl e
      | Inr cached \<Rightarrow>
         (let usage = (\<lambda>uncached whole. normalized_usage_validate
                \<lparr>nu_uncached = uncached, nu_total_prompt = whole, nu_output = ru_output raw, nu_cache_read = ru_cache_read raw,
                 nu_cache_creation = ru_cache_creation raw, nu_reasoning = ru_reasoning raw\<rparr>)
          in if bc_prompt_convention c = ''includes_cache''
             then if cached > ru_input raw then Inl (ValueError ''malformed_usage'')
                  else usage (ru_input raw - cached) (ru_input raw)
             else case checked (ru_input raw + cached) of Inl e \<Rightarrow> Inl e | Inr tot \<Rightarrow> usage (ru_input raw) tot))"

definition evaluate :: "billing_snapshot \<Rightarrow> string \<Rightarrow> raw_usage \<Rightarrow> eligibility \<Rightarrow> evaluation result" where
  "evaluate s endpoint raw observed =
     (case require_eligible observed of Inl e \<Rightarrow> Inl e
      | Inr _ \<Rightarrow> (case find_candidate s endpoint of None \<Rightarrow> Inl (ValueError ''unsupported_endpoint'')
         | Some c \<Rightarrow> (case normalize_usage c raw of Inl e \<Rightarrow> Inl e
            | Inr usage \<Rightarrow>
               (let rates = select_rates (nu_total_prompt usage) (bc_price c); fee = pc_request_fee (bc_price c)
                in case charge_components [(nu_uncached usage, pr_input rates), (ru_cache_read raw, pr_cached rates),
                     (ru_cache_creation raw, pr_creation rates), (ru_output raw, pr_output rates)] fee (0 < fee) of
                     Inl e \<Rightarrow> Inl e
                   | Inr (cost, positive) \<Rightarrow>
                       (let charge = (if positive then max cost 1 else 0)
                        in if uint_ok charge then Inr \<lparr>ev_usage = usage, ev_charge = charge\<rparr>
                           else Inl (ValueError ''ValidationError''))))))"

section \<open>Terminal envelopes\<close>

datatype terminal_kind = Settle | Refund

record terminal_envelope =
  en_authorization_id :: string
  en_generation_id :: string
  en_workspace_id :: string
  en_key_id :: string
  en_invocation_nonce :: string
  en_journal_region :: string
  en_epoch :: int
  en_selected_endpoint :: string
  en_snapshot_hash :: string
  en_usage :: normalized_usage
  en_charge :: int
  en_kind :: terminal_kind
  en_route_type :: string
  en_streamed :: bool

definition nonce_ok :: "string \<Rightarrow> bool" where
  "nonce_ok s \<longleftrightarrow> s \<noteq> [] \<and> length s \<le> 64 \<and> list_all (\<lambda>c. identity_char c \<and> c \<notin> set ''./:@+'') s"

definition envelope_validate :: "terminal_envelope \<Rightarrow> terminal_envelope result" where
  "envelope_validate x =
     (if \<not> (list_all identity_ok [en_authorization_id x, en_generation_id x, en_workspace_id x, en_key_id x,
               en_journal_region x, en_selected_endpoint x] \<and> nonce_ok (en_invocation_nonce x) \<and> uint_ok (en_epoch x) \<and>
             digest_ok (en_snapshot_hash x) \<and> is_ok (normalized_usage_validate (en_usage x)) \<and> uint_ok (en_charge x) \<and>
             en_route_type x \<in> {''chat.completions'', ''responses''}) then Inl (ValueError ''ValidationError'')
      else if en_kind x = Refund \<and> en_charge x \<noteq> 0 then Inl (ValueError ''refund must be zero'')
      else Inr x)"

text \<open>The usage report an envelope stands for.\<close>

definition envelope_raw_usage :: "billing_candidate \<Rightarrow> normalized_usage \<Rightarrow> raw_usage" where
  "envelope_raw_usage c u =
     \<lparr>ru_input = (if bc_prompt_convention c = ''includes_cache'' then nu_total_prompt u else nu_uncached u),
      ru_output = nu_output u, ru_cache_read = nu_cache_read u, ru_cache_creation = nu_cache_creation u,
      ru_reasoning = nu_reasoning u\<rparr>"

definition validate_envelope :: "(billing_snapshot \<Rightarrow> string) \<Rightarrow> billing_snapshot \<Rightarrow> terminal_envelope \<Rightarrow> unit result" where
  "validate_envelope canonical_hash s x =
     (if en_snapshot_hash x \<noteq> canonical_hash s then Inl (ValueError ''snapshot_hash_mismatch'')
      else case find_candidate s (en_selected_endpoint x) of None \<Rightarrow> Inl (ValueError ''unsupported_endpoint'')
       | Some c \<Rightarrow>
          (let raw = envelope_raw_usage c (en_usage x)
           in if \<not> raw_usage_ok raw then Inl (ValueError ''ValidationError'')
              else case evaluate s (en_selected_endpoint x) raw (new_eligibility (en_route_type x) (en_streamed x)) of
                 Inl e \<Rightarrow> Inl e
               | Inr evaluated \<Rightarrow>
                   (if en_charge x \<noteq> (if en_kind x = Settle then ev_charge evaluated else 0) \<or> en_usage x \<noteq> ev_usage evaluated
                    then Inl (ValueError ''charge_mismatch'') else Inr ())))"

datatype acceptance_status = ACCEPTED | DUPLICATE | SYNC_REQUIRED | CONFLICT | INVALID

record acceptance_outcome =
  ao_status :: acceptance_status
  ao_payload_hash :: "string option"
  ao_pending :: bool

definition acceptance_validate :: "acceptance_outcome \<Rightarrow> acceptance_outcome result" where
  "acceptance_validate x =
     (let durable = (ao_status x = ACCEPTED \<or> ao_status x = DUPLICATE)
      in if \<not> (case ao_payload_hash x of None \<Rightarrow> True | Some h \<Rightarrow> digest_ok h) then Inl (ValueError ''ValidationError'')
         else if durable \<noteq> (ao_payload_hash x \<noteq> None \<and> ao_pending x)
         then Inl (ValueError ''durable outcome requires hash and pending status'')
         else if \<not> durable \<and> (ao_payload_hash x \<noteq> None \<or> ao_pending x)
         then Inl (ValueError ''rejection cannot acknowledge durability'')
         else Inr x)"

section \<open>Lemmas\<close>

subsection \<open>Building a snapshot\<close>

lemma candidate_validate_Inr: "candidate_validate c = Inr c' \<Longrightarrow> c' = c \<and> candidate_fields_ok c \<and> pc_request_fee (bc_price c) = 0"
  by (auto simp: candidate_validate_def split: if_splits sum.splits)

lemma build_candidates_Inr:
  "build_candidates es = Inr cs \<longleftrightarrow>
     list_all (\<lambda>e. raw_prices_valid e \<and> is_ok (candidate_validate (freeze_candidate e))) es \<and> cs = map freeze_candidate es"
proof (induction es arbitrary: cs)
  case (Cons e es)
  show ?case
  proof (cases "candidate_validate (freeze_candidate e)")
    case (Inr c)
    moreover from this have "c = freeze_candidate e" using candidate_validate_Inr by blast
    ultimately show ?thesis
      using Cons.IH [of "map freeze_candidate es"] Cons.IH [of "tl cs"]
      by (cases "build_candidates es") (auto simp del: map_eq_Cons_conv)
  qed simp
qed auto

lemma snapshot_validate_Inr:
  "snapshot_validate s = Inr s' \<longleftrightarrow> s' = s \<and> bs_candidates s \<noteq> [] \<and> length (bs_candidates s) \<le> 64 \<and>
     map bc_id (bs_candidates s) = sorted_list_of_set (set (map bc_id (bs_candidates s)))"
  by (auto simp: snapshot_validate_def Let_def)

lemma build_snapshot_Inr:
  assumes "build_snapshot es requested = Inr s"
  shows "require_eligible requested = Inr ()" "bs_candidates s = sort_key bc_id (map freeze_candidate es)"
    "distinct (map me_id es)" "es \<noteq> []" "build_candidates es = Inr (map freeze_candidate es)"
    "\<And>c. c \<in> set (bs_candidates s) \<Longrightarrow> candidate_fields_ok c \<and> pc_request_fee (bc_price c) = 0"
proof -
  obtain cs where cs: "require_eligible requested = Inr ()" "build_candidates es = Inr cs"
      "snapshot_validate \<lparr>bs_candidates = sort_key bc_id cs\<rparr> = Inr s"
    using assms by (auto simp: build_snapshot_def split: sum.splits)
  then have es: "cs = map freeze_candidate es" "list_all (\<lambda>e. is_ok (candidate_validate (freeze_candidate e))) es"
    by (auto simp: build_candidates_Inr list_all_iff)
  have s: "s = \<lparr>bs_candidates = sort_key bc_id cs\<rparr>" "cs \<noteq> []"
    "map bc_id (sort_key bc_id cs) = sorted_list_of_set (set (map bc_id (sort_key bc_id cs)))"
    using cs(3) by (auto simp: snapshot_validate_Inr dest: arg_cong [of _ _ length])
  show "require_eligible requested = Inr ()" "bs_candidates s = sort_key bc_id (map freeze_candidate es)"
    "es \<noteq> []" "build_candidates es = Inr (map freeze_candidate es)"
    using cs s es by auto
  have "distinct (map bc_id (sort_key bc_id cs))"
    by (subst s(3)) (rule distinct_sorted_list_of_set)
  then have "distinct (map bc_id cs)"
    by (metis distinct_map distinct_sort set_sort)
  then show "distinct (map me_id es)"
    by (simp add: es freeze_candidate_def endpoint_pricing_candidate_def comp_def)
  fix c assume "c \<in> set (bs_candidates s)"
  then obtain e where "e \<in> set es" "c = freeze_candidate e" by (auto simp: s es)
  then show "candidate_fields_ok c \<and> pc_request_fee (bc_price c) = 0"
    using es(2) candidate_validate_Inr [of c] by (cases "candidate_validate c") (auto simp: list_all_iff)
qed

lemma find_distinct_key:
  assumes "distinct (map f xs)"
  shows "List.find (\<lambda>x. f x = k) xs = Some x \<longleftrightarrow> x \<in> set xs \<and> f x = k"
  using assms by (induction xs) (auto simp: rev_image_eqI)

lemma freeze_candidate_simps [simp]:
  "bc_price (freeze_candidate e) = endpoint_pricing_candidate e" "bc_provider (freeze_candidate e) = me_provider e"
  "bc_prompt_convention (freeze_candidate e) = prompt_convention (me_provider e)"
  "pc_endpoint_id (endpoint_pricing_candidate e) = me_id e" "pc_rounding (endpoint_pricing_candidate e) = PRICING_ROUNDING"
  by (simp_all add: freeze_candidate_def endpoint_pricing_candidate_def)

lemma find_candidate_endpoint:
  assumes "build_snapshot es requested = Inr s"
  shows "find_candidate s k = Some c \<longleftrightarrow> (\<exists>e \<in> set es. me_id e = k \<and> c = freeze_candidate e)"
proof -
  note b = build_snapshot_Inr [OF assms]
  have "distinct (map bc_id (bs_candidates s))"
    using b(3) by (simp add: b(2) distinct_map inj_on_def freeze_candidate_def) (metis freeze_candidate_simps(4))
  from find_distinct_key [OF this] show ?thesis by (auto simp: find_candidate_def b(2))
qed

lemma document_candidate:
  assumes "distinct (map me_id es)" "e \<in> set es"
  shows "pricing_candidate_for_endpoint (endpoint_pricing_document es) (me_id e) = Inr (endpoint_pricing_candidate e)"
proof -
  have "distinct (map pc_endpoint_id (map endpoint_pricing_candidate es))" using assms(1) by (simp add: comp_def)
  from find_distinct_key [OF this, of "me_id e" "endpoint_pricing_candidate e"] assms(2)
  show ?thesis by (simp add: pricing_candidate_for_endpoint_def endpoint_pricing_document_def)
qed

text \<open>The order in which the endpoints are listed does not matter.\<close>

lemma build_snapshot_permute:
  assumes "build_snapshot es requested = Inr s" "mset es' = mset es"
  shows "build_snapshot es' requested = Inr s"
proof -
  note b = build_snapshot_Inr [OF assms(1)]
  have same: "set es' = set es" "mset (map freeze_candidate es') = mset (map freeze_candidate es)"
    using assms(2) by (metis set_mset_mset, simp add: assms(2))
  have "build_candidates es' = Inr (map freeze_candidate es')"
    using b(5) same(1) by (simp add: build_candidates_Inr list_all_iff)
  moreover have "inj_on bc_id (set (map freeze_candidate es'))"
    using b(3) same(1) by (auto simp: distinct_map inj_on_def)
  then have "sort_key bc_id (map freeze_candidate es') = sort_key bc_id (map freeze_candidate es)"
    by (intro sort_key_inj_key_eq) (simp_all add: same(1) assms(2))
  ultimately show ?thesis using assms(1) b(1,5) by (simp add: build_snapshot_def)
qed

subsection \<open>Evaluating a usage report\<close>

lemma checked_Inr: "checked v = Inr w \<longleftrightarrow> w = v \<and> uint_ok v"
  by (auto simp: checked_def uint_ok_def)

lemma checked_round:
  assumes "uint_ok (t * r)"
  shows "(t * r + 500000) div 1000000 = token_cost_microdollars t r"
  using assms by (auto simp: token_cost_microdollars_def TOKENS_PER_MILLION_def uint_ok_def Let_def)

lemma charge_components_Inr:
  assumes "charge_components cs cost positive = Inr (cost', positive')"
  shows "cost' = cost + sum_list (map (\<lambda>(t, r). token_cost_microdollars t r) cs)"
    "positive' \<longleftrightarrow> positive \<or> (\<exists>(t, r) \<in> set cs. 0 < t \<and> 0 < r)"
proof -
  have "cost' = cost + sum_list (map (\<lambda>(t, r). token_cost_microdollars t r) cs) \<and>
      (positive' \<longleftrightarrow> positive \<or> (\<exists>(t, r) \<in> set cs. 0 < t \<and> 0 < r))"
    using assms
  proof (induction cs arbitrary: cost positive)
    case (Cons x cs)
    obtain t r where x: "x = (t, r)" by fastforce
    have c: "charge_components cs (cost + token_cost_microdollars t r) (positive \<or> 0 < t \<and> 0 < r) = Inr (cost', positive')"
      using Cons.prems by (auto simp: x checked_Inr checked_round split: sum.splits)
    show ?case using Cons.IH [OF c] by (auto simp: x)
  qed simp
  then show "cost' = cost + sum_list (map (\<lambda>(t, r). token_cost_microdollars t r) cs)"
    "positive' \<longleftrightarrow> positive \<or> (\<exists>(t, r) \<in> set cs. 0 < t \<and> 0 < r)" by blast+
qed

lemma normalized_usage_validate_Inr:
  "normalized_usage_validate u = Inr v \<Longrightarrow> v = u \<and> nu_total_prompt u = nu_uncached u + nu_cache_read u + nu_cache_creation u"
  by (auto simp: normalized_usage_validate_def checked_Inr split: if_splits sum.splits)

definition raw_delivered :: "raw_usage \<Rightarrow> delivered_usage" where
  "raw_delivered raw = \<lparr>du_input = ru_input raw, du_output = ru_output raw, du_cache_read = ru_cache_read raw,
     du_cache_creation = ru_cache_creation raw, du_price_tier_input = 0, du_reasoning = ru_reasoning raw\<rparr>"

lemma normalize_usage_Inr:
  assumes "normalize_usage c raw = Inr u"
  shows "nu_total_prompt u = nu_uncached u + ru_cache_read raw + ru_cache_creation raw"
    "nu_cache_read u = ru_cache_read raw" "nu_cache_creation u = ru_cache_creation raw" "nu_output u = ru_output raw"
    "nu_reasoning u = ru_reasoning raw" "envelope_raw_usage c u = raw"
    "bc_prompt_convention c = prompt_convention p \<Longrightarrow> fst (normalized_delivered_prompt p (raw_delivered raw)) = nu_uncached u"
proof -
  obtain un tot where u: "u = \<lparr>nu_uncached = un, nu_total_prompt = tot, nu_output = ru_output raw, nu_cache_read = ru_cache_read raw,
       nu_cache_creation = ru_cache_creation raw, nu_reasoning = ru_reasoning raw\<rparr>"
    and conv: "if bc_prompt_convention c = ''includes_cache''
      then ru_cache_read raw + ru_cache_creation raw \<le> ru_input raw \<and> un = ru_input raw - (ru_cache_read raw + ru_cache_creation raw) \<and>
           tot = ru_input raw
      else un = ru_input raw \<and> tot = ru_input raw + (ru_cache_read raw + ru_cache_creation raw)"
    using assms by (auto simp: normalize_usage_def checked_Inr Let_def split: sum.splits if_splits
        dest!: normalized_usage_validate_Inr)
  show "nu_total_prompt u = nu_uncached u + ru_cache_read raw + ru_cache_creation raw"
    "nu_cache_read u = ru_cache_read raw" "nu_cache_creation u = ru_cache_creation raw" "nu_output u = ru_output raw"
    "nu_reasoning u = ru_reasoning raw"
    using conv by (auto simp: u split: if_splits)
  show "envelope_raw_usage c u = raw"
    using conv by (auto simp: u envelope_raw_usage_def split: if_splits)
  assume "bc_prompt_convention c = prompt_convention p"
  then show "fst (normalized_delivered_prompt p (raw_delivered raw)) = nu_uncached u"
    using conv by (auto simp: u normalized_delivered_prompt_def raw_delivered_def prompt_convention_def Let_def split: if_splits)
qed

lemma evaluate_Inr:
  assumes "evaluate s k raw observed = Inr v"
  obtains c u cost positive where "require_eligible observed = Inr ()" "find_candidate s k = Some c" "normalize_usage c raw = Inr u"
    "let r = select_rates (nu_total_prompt u) (bc_price c); fee = pc_request_fee (bc_price c)
     in charge_components [(nu_uncached u, pr_input r), (ru_cache_read raw, pr_cached r), (ru_cache_creation raw, pr_creation r),
          (ru_output raw, pr_output r)] fee (0 < fee) = Inr (cost, positive)"
    "v = \<lparr>ev_usage = u, ev_charge = (if positive then max cost 1 else 0)\<rparr>" "uint_ok (ev_charge v)"
  using assms by (auto simp: evaluate_def Let_def split: sum.splits option.splits if_splits)

lemma evaluate_eligible:
  assumes "require_eligible x = Inr ()" "require_eligible y = Inr ()"
  shows "evaluate s k raw x = evaluate s k raw y"
  using assms by (simp add: evaluate_def)

lemma evaluate_frozen_cost:
  assumes "build_snapshot es requested = Inr s" "evaluate s k raw observed = Inr v"
  obtains e where "e \<in> set es" "me_id e = k" "uint_ok (ev_charge v)"
    "delivered_usage_cost_microdollars (endpoint_pricing_document es) (me_provider e) k (raw_delivered raw) = Inr (ev_charge v)"
proof -
  obtain c u cost positive where v: "find_candidate s k = Some c" "normalize_usage c raw = Inr u" "uint_ok (ev_charge v)"
      "v = \<lparr>ev_usage = u, ev_charge = (if positive then max cost 1 else 0)\<rparr>"
    and cc: "let r = select_rates (nu_total_prompt u) (bc_price c); fee = pc_request_fee (bc_price c)
     in charge_components [(nu_uncached u, pr_input r), (ru_cache_read raw, pr_cached r), (ru_cache_creation raw, pr_creation r),
          (ru_output raw, pr_output r)] fee (0 < fee) = Inr (cost, positive)"
    by (rule evaluate_Inr [OF assms(2)])
  obtain e where e: "e \<in> set es" "me_id e = k" "c = freeze_candidate e"
    using v(1) find_candidate_endpoint [OF assms(1)] by blast
  note n = normalize_usage_Inr [OF v(2)]
  have prompt: "fst (normalized_delivered_prompt (me_provider e) (raw_delivered raw)) = nu_uncached u"
    using n(7) e(3) by simp
  have tot: "nu_uncached u + ru_cache_read raw + ru_cache_creation raw = nu_total_prompt u" using n(1) by simp
  note cost = charge_components_Inr [OF cc [unfolded Let_def]]
  have "delivered_usage_cost_microdollars (endpoint_pricing_document es) (me_provider e) k (raw_delivered raw) = Inr (ev_charge v)"
  proof -
    have doc: "pricing_candidate_for_endpoint (endpoint_pricing_document es) k = Inr (bc_price c)"
      using document_candidate [OF build_snapshot_Inr(3) [OF assms(1)] e(1)] e by simp
    have rounding: "pc_rounding (bc_price c) = PRICING_ROUNDING" using e(3) by simp
    let ?r = "select_rates (nu_total_prompt u) (bc_price c)" and ?fee = "pc_request_fee (bc_price c)"
    have "delivered_usage_cost_microdollars (endpoint_pricing_document es) (me_provider e) k (raw_delivered raw) =
        Inr (if 0 < ?fee \<or> 0 < nu_uncached u \<and> 0 < pr_input ?r \<or> 0 < ru_output raw \<and> 0 < pr_output ?r \<or>
                0 < ru_cache_read raw \<and> 0 < pr_cached ?r \<or> 0 < ru_cache_creation raw \<and> 0 < pr_creation ?r
             then max (?fee + token_cost_microdollars (nu_uncached u) (pr_input ?r) + token_cost_microdollars (ru_output raw) (pr_output ?r) +
               token_cost_microdollars (ru_cache_read raw) (pr_cached ?r) + token_cost_microdollars (ru_cache_creation raw) (pr_creation ?r)) 1
             else 0)"
      unfolding delivered_usage_cost_microdollars_def prompt
      by (simp add: raw_delivered_def endpoint_cost_microdollars_from_document_def doc
          endpoint_cost_microdollars_from_candidate_def rounding tier_basis_def tot Let_def)
    also have "\<dots> = Inr (ev_charge v)"
      using cost by (auto simp: v(4))
    finally show ?thesis .
  qed
  with e(1,2) v(3) show thesis by (rule that)
qed

subsection \<open>When the arithmetic stays in range\<close>

lemma charge_components_bounded:
  assumes "\<forall>(t, r) \<in> set cs. 0 \<le> t \<and> t \<le> 10 ^ 9 \<and> 0 \<le> r \<and> r \<le> 9 * 10 ^ 9" "0 \<le> cost"
    "cost + int (length cs) * 10 ^ 13 \<le> MAX_INT"
  shows "\<exists>cost' positive'. charge_components cs cost positive = Inr (cost', positive') \<and> 0 \<le> cost' \<and>
    cost' \<le> cost + int (length cs) * 10 ^ 13"
  using assms
proof (induction cs arbitrary: cost positive)
  case (Cons x cs)
  obtain t r where x: "x = (t, r)" by fastforce
  have b: "0 \<le> t" "t \<le> 10 ^ 9" "0 \<le> r" "r \<le> 9 * 10 ^ 9" using Cons.prems(1) by (auto simp: x)
  then have "t * r \<le> 10 ^ 9 * (9 * 10 ^ 9)" by (intro mult_mono) simp_all
  then have p: "0 \<le> t * r" "t * r \<le> 9000000000000000000" using b by simp_all
  then have q: "0 \<le> (t * r + 500000) div 1000000" "(t * r + 500000) div 1000000 \<le> 10 ^ 13" by simp_all
  let ?cost = "cost + (t * r + 500000) div 1000000"
  have rest: "0 \<le> ?cost" "?cost + int (length cs) * 10 ^ 13 \<le> MAX_INT" using Cons.prems(2,3) q by (simp_all add: algebra_simps)
  have step: "charge_components (x # cs) cost positive = charge_components cs ?cost (positive \<or> 0 < t \<and> 0 < r)"
    using p rest Cons.prems(2,3) by (auto simp: x checked_def MAX_INT_def)
  obtain cost' positive' where "charge_components cs ?cost (positive \<or> 0 < t \<and> 0 < r) = Inr (cost', positive')" "0 \<le> cost'"
      "cost' \<le> ?cost + int (length cs) * 10 ^ 13"
    using Cons.IH [OF _ rest, of "positive \<or> 0 < t \<and> 0 < r"] Cons.prems(1) by auto
  then show ?case unfolding step using q by (auto simp: algebra_simps)
qed simp

definition rates_at_most :: "int \<Rightarrow> pricing_rates \<Rightarrow> bool" where
  "rates_at_most m r \<longleftrightarrow> pr_input r \<le> m \<and> pr_output r \<le> m \<and> pr_cached r \<le> m \<and> pr_creation r \<le> m"

lemma select_rates_mem: "select_rates n c \<in> insert (pc_rates c) (snd ` set (pc_tiers c))"
  by (cases "List.find (tier_accommodates n) (pc_tiers c)")
     (auto simp: select_rates_def dest: find_SomeD intro: rev_image_eqI)

lemma select_rates_uint:
  assumes "candidate_fields_ok c"
  shows "rates_uint (select_rates n (bc_price c))"
  using select_rates_mem [of n "bc_price c"] assms by (auto simp: candidate_fields_ok_def list_all_iff)

text \<open>A usage report of the given convention, with counts a request can have.\<close>

definition usage_in_range :: "string \<Rightarrow> raw_usage \<Rightarrow> bool" where
  "usage_in_range provider raw \<longleftrightarrow> list_all (\<lambda>n. 0 \<le> n \<and> n \<le> 10 ^ 9) [ru_input raw, ru_output raw, ru_cache_read raw,
     ru_cache_creation raw] \<and> 0 \<le> ru_reasoning raw \<and> ru_reasoning raw \<le> ru_output raw \<and>
     (provider \<noteq> ''anthropic'' \<longrightarrow> ru_cache_read raw + ru_cache_creation raw \<le> ru_input raw)"

lemma normalize_usage_bounded:
  assumes "usage_in_range p raw" "bc_prompt_convention c = prompt_convention p"
  obtains u where "normalize_usage c raw = Inr u" "0 \<le> nu_uncached u" "nu_uncached u \<le> 10 ^ 9"
  using assms
  by (auto simp: normalize_usage_def usage_in_range_def prompt_convention_def checked_def MAX_INT_def uint_ok_def
      normalized_usage_validate_def Let_def split: if_splits)

lemma evaluate_total:
  assumes "build_snapshot es requested = Inr s" "e \<in> set es" "require_eligible observed = Inr ()"
    "usage_in_range (me_provider e) raw"
    "\<forall>r \<in> insert (pc_rates (endpoint_pricing_candidate e)) (snd ` set (pc_tiers (endpoint_pricing_candidate e))).
       rates_at_most (9 * 10 ^ 9) r"
  shows "\<exists>v. evaluate s (me_id e) raw observed = Inr v"
proof -
  let ?c = "freeze_candidate e"
  have c: "find_candidate s (me_id e) = Some ?c" using find_candidate_endpoint [OF assms(1)] assms(2) by blast
  have mem: "?c \<in> set (bs_candidates s)" using assms(2) by (simp add: build_snapshot_Inr(2) [OF assms(1)])
  have ok: "candidate_fields_ok ?c" "pc_request_fee (endpoint_pricing_candidate e) = 0"
    using build_snapshot_Inr(6) [OF assms(1) mem] by simp_all
  obtain u where u: "normalize_usage ?c raw = Inr u" "0 \<le> nu_uncached u" "nu_uncached u \<le> 10 ^ 9"
    using normalize_usage_bounded [OF assms(4), of ?c] by auto
  let ?r = "select_rates (nu_total_prompt u) (endpoint_pricing_candidate e)"
  have rates: "rates_uint ?r" "rates_at_most (9 * 10 ^ 9) ?r"
    using select_rates_uint [OF ok(1)] select_rates_mem assms(5) by (simp, blast)
  define cs where "cs = [(nu_uncached u, pr_input ?r), (ru_cache_read raw, pr_cached ?r), (ru_cache_creation raw, pr_creation ?r),
    (ru_output raw, pr_output ?r)]"
  have "\<forall>(t, r) \<in> set cs. 0 \<le> t \<and> t \<le> 10 ^ 9 \<and> 0 \<le> r \<and> r \<le> 9 * 10 ^ 9"
    using rates u(2,3) assms(4) by (simp add: cs_def usage_in_range_def rates_uint_def rates_at_most_def uint_ok_def)
  then obtain cost positive where run: "charge_components cs 0 False = Inr (cost, positive)" "0 \<le> cost" "cost \<le> 4 * 10 ^ 13"
    using charge_components_bounded [of cs 0 False] by (auto simp: cs_def MAX_INT_def)
  then show ?thesis
    using c u(1) ok(2) assms(3)
    by (simp add: evaluate_def Let_def cs_def [symmetric] del: charge_components.simps) (auto simp: uint_ok_def MAX_INT_def)
qed

subsection \<open>Envelopes\<close>

lemma new_eligibility_ok: "route \<in> {''chat.completions'', ''responses''} \<Longrightarrow> require_eligible (new_eligibility route b) = Inr ()"
  by (simp add: require_eligible_def exclusion_def new_eligibility_def excluding_facts_def)

lemma validate_envelope_Inr:
  assumes "validate_envelope h s x = Inr ()"
  obtains c v where "en_snapshot_hash x = h s" "find_candidate s (en_selected_endpoint x) = Some c"
    "evaluate s (en_selected_endpoint x) (envelope_raw_usage c (en_usage x))
       (new_eligibility (en_route_type x) (en_streamed x)) = Inr v"
    "en_usage x = ev_usage v" "en_charge x = (if en_kind x = Settle then ev_charge v else 0)"
  using assms by (auto simp: validate_envelope_def Let_def split: option.splits sum.splits if_splits)

lemma validate_envelope_evaluated:
  assumes "evaluate s k raw observed = Inr v" "raw_usage_ok raw" "en_route_type x \<in> {''chat.completions'', ''responses''}"
    "en_selected_endpoint x = k" "en_snapshot_hash x = h s" "en_usage x = ev_usage v"
  shows "validate_envelope h s x =
    (if en_charge x = (if en_kind x = Settle then ev_charge v else 0) then Inr () else Inl (ValueError ''charge_mismatch''))"
proof -
  obtain c u cost positive where c: "require_eligible observed = Inr ()" "find_candidate s k = Some c" "normalize_usage c raw = Inr u"
      "v = \<lparr>ev_usage = u, ev_charge = (if positive then max cost 1 else 0)\<rparr>"
    by (rule evaluate_Inr [OF assms(1)])
  have raw: "envelope_raw_usage c (ev_usage v) = raw"
    using normalize_usage_Inr(6) [OF c(3)] c(4) by simp
  have "evaluate s k raw (new_eligibility (en_route_type x) (en_streamed x)) = Inr v"
    using evaluate_eligible [OF new_eligibility_ok [OF assms(3)] c(1)] assms(1) by simp
  then show ?thesis using assms(2,4-6) c(2) by (simp add: validate_envelope_def raw Let_def)
qed

section \<open>Properties\<close>

text \<open>C28. The frozen snapshot charges what the pricing document charges.  Whenever the checked 64-bit
  evaluation of a usage report against a snapshot returns, its charge is exactly the unbounded-integer
  charge of \<open>delivered_usage_cost_microdollars\<close> on the document of the same endpoints, and it fits in 64
  bits; it does return for every eligible report whose counts are at most a billion and whose rates
  are at most nine billion; and the snapshot does not depend on the order in which the endpoints were
  listed.\<close>

theorem snapshot_charges_the_document:
  assumes "build_snapshot es requested = Inr s" "raw_usage_ok raw"
  shows "(evaluate s k raw observed = Inr v \<longrightarrow> (\<exists>e \<in> set es. me_id e = k \<and> 0 \<le> ev_charge v \<and> ev_charge v < 2 ^ 63 \<and>
      delivered_usage_cost_microdollars (endpoint_pricing_document es) (me_provider e) k (raw_delivered raw) = Inr (ev_charge v))) \<and>
    (\<forall>e \<in> set es. require_eligible observed = Inr () \<and> usage_in_range (me_provider e) raw \<and>
       (\<forall>r \<in> insert (pc_rates (endpoint_pricing_candidate e)) (snd ` set (pc_tiers (endpoint_pricing_candidate e))).
          rates_at_most (9 * 10 ^ 9) r) \<longrightarrow> (\<exists>v. evaluate s (me_id e) raw observed = Inr v)) \<and>
    (\<forall>es'. mset es' = mset es \<longrightarrow> build_snapshot es' requested = Inr s)"
proof (intro conjI impI)
  assume v: "evaluate s k raw observed = Inr v"
  obtain e where "e \<in> set es" "me_id e = k" "uint_ok (ev_charge v)"
    "delivered_usage_cost_microdollars (endpoint_pricing_document es) (me_provider e) k (raw_delivered raw) = Inr (ev_charge v)"
    by (rule evaluate_frozen_cost [OF assms(1) v])
  then show "\<exists>e \<in> set es. me_id e = k \<and> 0 \<le> ev_charge v \<and> ev_charge v < 2 ^ 63 \<and>
      delivered_usage_cost_microdollars (endpoint_pricing_document es) (me_provider e) k (raw_delivered raw) = Inr (ev_charge v)"
    by (auto simp: uint_ok_def MAX_INT_def)
qed (use evaluate_total [OF assms(1)] build_snapshot_permute [OF assms(1)] in blast)+

definition demo_endpoint :: "string \<Rightarrow> int \<Rightarrow> model_endpoint" where
  "demo_endpoint i price = \<lparr>me_id = i, me_model_id = ''anthropic/m'', me_provider = ''anthropic'', me_usage_type = ''Credits'',
     me_prompt = price, me_completion = 5 * price, me_request = 0, me_tiers = []\<rparr>"

definition demo_raw :: raw_usage where
  "demo_raw = \<lparr>ru_input = 100, ru_output = 20, ru_cache_read = 1000, ru_cache_creation = 0, ru_reasoning = 5\<rparr>"

definition demo_snapshot :: billing_snapshot where
  "demo_snapshot = \<lparr>bs_candidates = map freeze_candidate [demo_endpoint ''a'' 3000000, demo_endpoint ''b'' 4000000]\<rparr>"

definition demo_evaluation :: evaluation where
  "demo_evaluation = \<lparr>ev_usage = \<lparr>nu_uncached = 100, nu_total_prompt = 1100, nu_output = 20, nu_cache_read = 1000,
     nu_cache_creation = 0, nu_reasoning = 5\<rparr>, ev_charge = 900\<rparr>"

theorem snapshot_charges_the_document_witness:
  "build_snapshot [demo_endpoint ''b'' 4000000, demo_endpoint ''a'' 3000000] (new_eligibility ''responses'' True) = Inr demo_snapshot \<and>
   build_snapshot [demo_endpoint ''a'' 3000000, demo_endpoint ''b'' 4000000] (new_eligibility ''responses'' True) = Inr demo_snapshot \<and>
   evaluate demo_snapshot ''a'' demo_raw (new_eligibility ''responses'' True) = Inr demo_evaluation \<and>
   delivered_usage_cost_microdollars (endpoint_pricing_document [demo_endpoint ''b'' 4000000, demo_endpoint ''a'' 3000000])
     ''anthropic'' ''a'' (raw_delivered demo_raw) = Inr 900"
proof -
  let ?es = "[demo_endpoint ''b'' 4000000, demo_endpoint ''a'' 3000000]" and ?x = "new_eligibility ''responses'' True"
  have b: "build_snapshot ?es ?x = Inr demo_snapshot" by code_simp
  have r: "raw_usage_ok demo_raw" by code_simp
  have v: "evaluate demo_snapshot ''a'' demo_raw ?x = Inr demo_evaluation" by code_simp
  note main = snapshot_charges_the_document [OF b r, of "''a''" ?x demo_evaluation]
  have "mset (rev ?es) = mset ?es" by (rule mset_rev)
  then have "build_snapshot (rev ?es) ?x = Inr demo_snapshot" using main by blast
  moreover have "\<exists>e \<in> set ?es. me_id e = ''a'' \<and>
      delivered_usage_cost_microdollars (endpoint_pricing_document ?es) (me_provider e) ''a'' (raw_delivered demo_raw) = Inr (ev_charge demo_evaluation)"
    using main v by blast
  ultimately show ?thesis using b v by (auto simp: demo_endpoint_def demo_evaluation_def)
qed

text \<open>C29. A terminal envelope is accepted exactly when it carries the evaluated charge.  For a usage report
  that was evaluated, an envelope with the evaluation's normalized usage, the snapshot's hash and its
  endpoint recovers the report, and is accepted if and only if its charge is the evaluated one (zero for
  a refund), refused as a charge mismatch otherwise.  Conversely every accepted settlement carries
  the charge and the usage that its own recovered report evaluates to.\<close>

theorem envelope_carries_evaluated_charge:
  assumes "evaluate s k raw observed = Inr v" "raw_usage_ok raw"
  shows "(en_route_type x \<in> {''chat.completions'', ''responses''} \<and> en_selected_endpoint x = k \<and> en_snapshot_hash x = h s \<and>
      en_usage x = ev_usage v \<longrightarrow>
      (\<exists>c. find_candidate s k = Some c \<and> envelope_raw_usage c (en_usage x) = raw) \<and>
      validate_envelope h s x = (if en_charge x = (if en_kind x = Settle then ev_charge v else 0) then Inr ()
        else Inl (ValueError ''charge_mismatch''))) \<and>
    (validate_envelope h s x = Inr () \<longrightarrow> en_snapshot_hash x = h s \<and>
      (\<exists>c w. find_candidate s (en_selected_endpoint x) = Some c \<and>
        evaluate s (en_selected_endpoint x) (envelope_raw_usage c (en_usage x)) (new_eligibility (en_route_type x) (en_streamed x)) = Inr w \<and>
        en_usage x = ev_usage w \<and> en_charge x = (if en_kind x = Settle then ev_charge w else 0)))"
proof (intro conjI impI)
  obtain c u cost positive where c: "find_candidate s k = Some c" "normalize_usage c raw = Inr u"
      "v = \<lparr>ev_usage = u, ev_charge = (if positive then max cost 1 else 0)\<rparr>"
    by (rule evaluate_Inr [OF assms(1)])
  assume x: "en_route_type x \<in> {''chat.completions'', ''responses''} \<and> en_selected_endpoint x = k \<and> en_snapshot_hash x = h s \<and>
      en_usage x = ev_usage v"
  show "\<exists>c. find_candidate s k = Some c \<and> envelope_raw_usage c (en_usage x) = raw"
    using c normalize_usage_Inr(6) [OF c(2)] x by auto
  show "validate_envelope h s x = (if en_charge x = (if en_kind x = Settle then ev_charge v else 0) then Inr ()
        else Inl (ValueError ''charge_mismatch''))"
    using x by (intro validate_envelope_evaluated [OF assms]) blast+
qed (erule validate_envelope_Inr, blast)+

definition demo_envelope :: "int \<Rightarrow> terminal_envelope" where
  "demo_envelope charge = \<lparr>en_authorization_id = ''gwa'', en_generation_id = ''gen'', en_workspace_id = ''w'', en_key_id = ''k'',
     en_invocation_nonce = ''n'', en_journal_region = ''r'', en_epoch = 1, en_selected_endpoint = ''a'', en_snapshot_hash = ''h'',
     en_usage = ev_usage demo_evaluation, en_charge = charge, en_kind = Settle, en_route_type = ''responses'', en_streamed = True\<rparr>"

theorem envelope_carries_evaluated_charge_witness:
  "evaluate demo_snapshot ''a'' demo_raw (new_eligibility ''responses'' True) = Inr demo_evaluation \<and>
   validate_envelope (\<lambda>_. ''h'') demo_snapshot (demo_envelope 900) = Inr () \<and>
   validate_envelope (\<lambda>_. ''h'') demo_snapshot (demo_envelope 901) = Inl (ValueError ''charge_mismatch'')"
proof -
  have r: "raw_usage_ok demo_raw" by code_simp
  have v: "evaluate demo_snapshot ''a'' demo_raw (new_eligibility ''responses'' True) = Inr demo_evaluation" by code_simp
  have "validate_envelope (\<lambda>_. ''h'') demo_snapshot (demo_envelope n) =
      (if n = 900 then Inr () else Inl (ValueError ''charge_mismatch''))" for n
    using envelope_carries_evaluated_charge [OF v r, of "demo_envelope n" "\<lambda>_. ''h''"]
    by (simp add: demo_envelope_def demo_evaluation_def)
  then show ?thesis using v by simp
qed

end
