(* ===== verification/Phone.thy ===== *)
theory Phone
  imports Workspaces
begin

text \<open>
  Proof of phone ownership: \<open>phone_verification.py\<close> and the methods of the in-memory store that call it
  (\<open>storage.py\<close>, lines 1404 to 1456).

  The functions of the module change a user record in place; here they return the changed record.  The
  six random digits and the salt are arguments, \<open>hash_api_key\<close> is a parameter.  Times that the module
  keeps as ISO text are instants; the branches for text that does not parse are left out.
\<close>

section \<open>Numbers\<close>

definition CODE_TTL_SECONDS :: int where
  "CODE_TTL_SECONDS = 600"

definition MAX_ATTEMPTS :: int where
  "MAX_ATTEMPTS = 5"

definition RESEND_FLOOR_SECONDS :: int where
  "RESEND_FLOOR_SECONDS = 60"

definition DIRECT_PHONE_VERIFICATION_CALLING_CODES :: "string list" where
  "DIRECT_PHONE_VERIFICATION_CALLING_CODES = [
     ''1'', ''298'', ''299'', ''30'', ''31'', ''32'', ''33'', ''34'', ''350'', ''351'', ''352'', ''353'',
     ''354'', ''355'', ''356'', ''357'', ''358'', ''359'', ''36'', ''370'', ''371'', ''372'', ''373'',
     ''376'', ''377'', ''378'', ''380'', ''381'', ''382'', ''383'', ''385'', ''386'', ''387'', ''389'',
     ''39'', ''40'', ''41'', ''420'', ''421'', ''423'', ''43'', ''44'', ''45'', ''46'', ''47'', ''48'', ''49'']"

text \<open>The three-digit area codes, as numbers.\<close>

definition DIRECT_PHONE_VERIFICATION_NANP_AREA_CODES :: "int list" where
  "DIRECT_PHONE_VERIFICATION_NANP_AREA_CODES = [
     201, 202, 203, 204, 205, 206, 207, 208, 209, 210, 212, 213, 214, 215, 216, 217, 218, 219, 220, 223, 224,
     225, 226, 227, 228, 229, 231, 234, 235, 236, 239, 240, 248, 249, 250, 251, 252, 253, 254, 256, 257, 260,
     262, 263, 267, 269, 270, 272, 273, 274, 276, 279, 281, 283, 289, 301, 302, 303, 304, 305, 306, 307, 308,
     309, 310, 312, 313, 314, 315, 316, 317, 318, 319, 320, 321, 323, 324, 325, 326, 327, 329, 330, 331, 332,
     334, 336, 337, 339, 340, 341, 343, 346, 347, 350, 351, 352, 353, 354, 357, 360, 361, 363, 364, 365, 367,
     368, 369, 380, 382, 385, 386, 401, 402, 403, 404, 405, 406, 407, 408, 409, 410, 412, 413, 414, 415, 416,
     417, 418, 419, 423, 424, 425, 428, 430, 431, 432, 434, 435, 436, 437, 438, 440, 442, 443, 445, 447, 448,
     450, 457, 458, 463, 464, 465, 468, 469, 470, 471, 472, 474, 475, 478, 479, 480, 483, 484, 501, 502, 503,
     504, 505, 506, 507, 508, 509, 510, 512, 513, 514, 515, 516, 517, 518, 519, 520, 530, 531, 534, 539, 540,
     541, 548, 551, 557, 559, 561, 562, 563, 564, 567, 570, 571, 572, 573, 574, 575, 579, 580, 581, 582, 584,
     585, 586, 587, 601, 602, 603, 604, 605, 606, 607, 608, 609, 610, 612, 613, 614, 615, 616, 617, 618, 619,
     620, 621, 623, 624, 626, 628, 629, 630, 631, 636, 639, 640, 641, 645, 646, 647, 650, 651, 656, 657, 659,
     660, 661, 662, 667, 669, 670, 671, 672, 678, 679, 680, 681, 682, 683, 684, 686, 689, 701, 702, 703, 704,
     705, 706, 707, 708, 709, 712, 713, 714, 715, 716, 717, 718, 719, 720, 724, 725, 726, 727, 728, 729, 730,
     731, 732, 734, 737, 738, 740, 742, 743, 747, 748, 753, 754, 757, 760, 762, 763, 765, 769, 770, 771, 772,
     773, 774, 775, 778, 779, 780, 781, 782, 785, 786, 787, 801, 802, 803, 804, 805, 806, 807, 808, 810, 812,
     813, 814, 815, 816, 817, 818, 819, 820, 821, 825, 826, 828, 830, 831, 832, 835, 837, 838, 839, 840, 843,
     845, 847, 848, 850, 854, 856, 857, 858, 859, 860, 861, 862, 863, 864, 865, 867, 870, 872, 873, 878, 879,
     901, 902, 903, 904, 905, 906, 907, 908, 909, 910, 912, 913, 914, 915, 916, 917, 918, 919, 920, 924, 925,
     928, 929, 930, 931, 934, 936, 937, 938, 939, 940, 941, 942, 943, 945, 947, 948, 949, 951, 952, 954, 956,
     959, 970, 971, 972, 973, 975, 978, 979, 980, 983, 984, 985, 986, 989]"

definition ascii_digit :: "char \<Rightarrow> bool" where
  "ascii_digit c \<longleftrightarrow> CHR ''0'' \<le> c \<and> c \<le> CHR ''9''"

definition normalize_phone :: "string \<Rightarrow> string result" where
  "normalize_phone raw =
     (if py_strip raw = [] then Inl (ValueError ''phone number is required'')
      else let cleaned = filter (\<lambda>c. \<not> py_space c \<and> c \<notin> set ''().-'') (py_strip raw)
        in if \<not> startswith ''+'' cleaned then Inl (ValueError ''phone number must be E.164 and start with +'')
           else let digits = tl cleaned
             in if \<not> (8 \<le> length digits \<and> length digits \<le> 15 \<and> list_all ascii_digit digits)
                then Inl (ValueError ''phone number must contain 8 to 15 ASCII digits after +'')
                else Inr (CHR ''+'' # digits))"

definition phone_verification_requires_identity_first :: "string \<Rightarrow> bool" where
  "phone_verification_requires_identity_first phone =
     (if startswith ''+1'' phone
      then length phone \<noteq> 12 \<or> \<not> list_ex (\<lambda>n. py_str_int n = take 3 (drop 2 phone)) DIRECT_PHONE_VERIFICATION_NANP_AREA_CODES
      else \<not> list_ex (\<lambda>c. c \<noteq> ''1'' \<and> startswith (''+'' @ c) phone) DIRECT_PHONE_VERIFICATION_CALLING_CODES)"

definition console_phone_requires_identity :: "user \<Rightarrow> bool" where
  "console_phone_requires_identity u =
     (if identity_verified u \<or> us_phone_verified u then False
      else let number = (if ostr (us_pending_phone u) \<noteq> [] then us_pending_phone u
             else if ostr (us_phone u) \<noteq> [] then us_phone u else us_phone_last_refused u)
        in ostr number \<noteq> [] \<and> phone_verification_requires_identity_first (ostr number))"

section \<open>Codes\<close>

text \<open>\<open>n\<close> is the random number below a million.\<close>

definition new_code :: "nat \<Rightarrow> string" where
  "new_code n = zpad 6 (nat_str n)"

definition can_resend :: "user \<Rightarrow> instant \<Rightarrow> bool \<times> int" where
  "can_resend u now =
     (case us_phone_code_sent_at u of None \<Rightarrow> (True, 0)
      | Some previous \<Rightarrow>
          (let elapsed = now - previous
           in if elapsed \<ge> RESEND_FLOOR_SECONDS * 1000000 then (True, 0)
              else (False, (RESEND_FLOOR_SECONDS * 1000000 - elapsed) div 1000000)))"

definition clear_pending :: "user \<Rightarrow> user" where
  "clear_pending u = u\<lparr>us_pending_phone := None, us_phone_code_hash := None, us_phone_code_salt := None,
     us_phone_code_expires_at := None, us_phone_code_attempts := 0, us_phone_code_channel := None\<rparr>"

definition phone_begin ::
    "(string \<Rightarrow> string \<Rightarrow> string) \<Rightarrow> nat \<Rightarrow> string \<Rightarrow> instant \<Rightarrow> string \<Rightarrow> string option \<Rightarrow> user \<Rightarrow> (string \<times> user) result" where
  "phone_begin hash_api_key n salt now phone channel u =
     (case normalize_phone phone of Inl e \<Rightarrow> Inl e
      | Inr normalized \<Rightarrow>
          (if phone_verification_requires_identity_first normalized \<and> \<not> identity_verified u
           then Inl (PermissionError ''Complete identity verification before verifying a phone number from this region'')
           else let code = new_code n
             in Inr (code, u\<lparr>us_phone_last_refused := None, us_pending_phone := Some normalized,
                  us_phone_code_salt := Some salt, us_phone_code_hash := Some (hash_api_key code salt),
                  us_phone_code_expires_at := Some (now + CODE_TTL_SECONDS * 1000000),
                  us_phone_code_attempts := 0, us_phone_code_sent_at := Some now,
                  us_phone_code_channel := (if channel \<in> {Some ''sms'', Some ''voice''} then channel else None)\<rparr>)))"

datatype confirm_status = Confirm_ok | No_pending | Expired | Too_many_attempts | Mismatch | Identity_required

record confirm_result =
  cf_status :: confirm_status
  cf_attempts_remaining :: int

definition confirmed :: "confirm_status \<Rightarrow> confirm_result" where
  "confirmed st = \<lparr>cf_status = st, cf_attempts_remaining = 0\<rparr>"

definition promote_pending :: "instant \<Rightarrow> user \<Rightarrow> user" where
  "promote_pending now u = clear_pending (u\<lparr>us_phone_last_refused := None, us_phone := us_pending_phone u,
     us_phone_verified := True, us_phone_verified_at := Some now\<rparr>)"

definition phone_confirm ::
    "(string \<Rightarrow> string \<Rightarrow> string) \<Rightarrow> instant \<Rightarrow> string \<Rightarrow> user \<Rightarrow> (confirm_result \<times> user) result" where
  "phone_confirm hash_api_key now code u =
     (case (us_pending_phone u, us_phone_code_hash u, us_phone_code_salt u) of
        (Some pending, Some h, Some salt) \<Rightarrow>
          (if pending = [] \<or> h = [] \<or> salt = [] then Inr (confirmed No_pending, u)
           else case normalize_phone pending of Inl e \<Rightarrow> Inl e
           | Inr _ \<Rightarrow>
              (if phone_verification_requires_identity_first pending \<and> \<not> identity_verified u
               then Inr (confirmed Identity_required, u)
               else if (case us_phone_code_expires_at u of None \<Rightarrow> False | Some deadline \<Rightarrow> now \<ge> deadline)
               then Inr (confirmed Expired, clear_pending u)
               else if us_phone_code_attempts u \<ge> MAX_ATTEMPTS then Inr (confirmed Too_many_attempts, clear_pending u)
               else if hash_api_key (py_strip code) salt \<noteq> h
               then (let u1 = u\<lparr>us_phone_code_attempts := us_phone_code_attempts u + 1\<rparr>;
                         remaining = MAX_ATTEMPTS - us_phone_code_attempts u1
                     in if remaining \<le> 0 then Inr (confirmed Too_many_attempts, clear_pending u1)
                        else Inr (\<lparr>cf_status = Mismatch, cf_attempts_remaining = remaining\<rparr>, u1))
               else Inr (confirmed Confirm_ok, promote_pending now u)))
      | _ \<Rightarrow> Inr (confirmed No_pending, u))"

definition phone_clear :: "user \<Rightarrow> user" where
  "phone_clear u = clear_pending (u\<lparr>us_phone_last_refused := None, us_phone := None, us_phone_verified := False,
     us_phone_verified_at := None\<rparr>)"

definition cancel_pending :: "user \<Rightarrow> user" where
  "cancel_pending u = clear_pending (u\<lparr>us_phone_last_refused := None\<rparr>)"

section \<open>The store\<close>

definition begin_phone_verification ::
    "(string \<Rightarrow> string \<Rightarrow> string) \<Rightarrow> nat \<Rightarrow> string \<Rightarrow> instant \<Rightarrow> string \<Rightarrow> string \<Rightarrow> string option \<Rightarrow> (string \<times> user) option store_op" where
  "begin_phone_verification h n salt now uid phone channel s =
     (case dget (users s) uid of None \<Rightarrow> (Inr None, s)
      | Some u \<Rightarrow> (case phone_begin h n salt now phone channel u of Inl e \<Rightarrow> (Inl e, s)
          | Inr (code, u') \<Rightarrow> (Inr (Some (code, u')), s\<lparr>users := dset uid u' (users s)\<rparr>)))"

definition confirm_phone_verification ::
    "(string \<Rightarrow> string \<Rightarrow> string) \<Rightarrow> instant \<Rightarrow> string \<Rightarrow> string \<Rightarrow> (confirm_status \<times> user option) store_op" where
  "confirm_phone_verification h now uid code s =
     (case dget (users s) uid of None \<Rightarrow> (Inr (No_pending, None), s)
      | Some u \<Rightarrow> (case phone_confirm h now code u of Inl e \<Rightarrow> (Inl e, s)
          | Inr (r, u') \<Rightarrow> (Inr (cf_status r, Some u'), s\<lparr>users := dset uid u' (users s)\<rparr>)))"

text \<open>The methods that read a user, change the record and return it.\<close>

definition change_user :: "string \<Rightarrow> (user \<Rightarrow> user) \<Rightarrow> store \<Rightarrow> user option \<times> store" where
  "change_user uid f s =
     (case dget (users s) uid of None \<Rightarrow> (None, s) | Some u \<Rightarrow> (Some (f u), s\<lparr>users := dset uid (f u) (users s)\<rparr>))"

definition cancel_phone_verification :: "string \<Rightarrow> store \<Rightarrow> user option \<times> store" where
  "cancel_phone_verification uid = change_user uid cancel_pending"

definition set_user_phone_last_refused :: "string \<Rightarrow> string \<Rightarrow> store \<Rightarrow> user option \<times> store" where
  "set_user_phone_last_refused uid phone = change_user uid (\<lambda>u. u\<lparr>us_phone_last_refused := Some phone\<rparr>)"

definition clear_user_phone :: "string \<Rightarrow> store \<Rightarrow> user option \<times> store" where
  "clear_user_phone uid = change_user uid phone_clear"

section \<open>Lemmas\<close>

text \<open>The calls a store receives about phones, and the state they leave.\<close>

datatype phone_call =
    PhoneBegin string nat string instant string "string option"
  | PhoneConfirm string instant string
  | PhoneCancel string
  | PhoneRefuse string string
  | PhoneClear string

fun phone_step :: "(string \<Rightarrow> string \<Rightarrow> string) \<Rightarrow> phone_call \<Rightarrow> store \<Rightarrow> store" where
  "phone_step h (PhoneBegin uid n salt now phone channel) s = snd (begin_phone_verification h n salt now uid phone channel s)"
| "phone_step h (PhoneConfirm uid now code) s = snd (confirm_phone_verification h now uid code s)"
| "phone_step h (PhoneCancel uid) s = snd (cancel_phone_verification uid s)"
| "phone_step h (PhoneRefuse uid phone) s = snd (set_user_phone_last_refused uid phone s)"
| "phone_step h (PhoneClear uid) s = snd (clear_user_phone uid s)"

fun call_user :: "phone_call \<Rightarrow> string" where
  "call_user (PhoneBegin uid n salt now phone channel) = uid"
| "call_user (PhoneConfirm uid now code) = uid"
| "call_user (PhoneCancel uid) = uid"
| "call_user (PhoneRefuse uid phone) = uid"
| "call_user (PhoneClear uid) = uid"

fun is_begin :: "phone_call \<Rightarrow> bool" where
  "is_begin (PhoneBegin uid n salt now phone channel) = True"
| "is_begin _ = False"

text \<open>Whether a confirmation compares its code with the stored hash.\<close>

definition code_compared :: "user \<Rightarrow> instant \<Rightarrow> bool" where
  "code_compared u now =
     (case (us_pending_phone u, us_phone_code_hash u, us_phone_code_salt u) of
        (Some pending, Some h, Some salt) \<Rightarrow> pending \<noteq> [] \<and> h \<noteq> [] \<and> salt \<noteq> [] \<and> is_ok (normalize_phone pending) \<and>
          \<not> (phone_verification_requires_identity_first pending \<and> \<not> identity_verified u) \<and>
          (case us_phone_code_expires_at u of None \<Rightarrow> True | Some deadline \<Rightarrow> now < deadline) \<and>
          us_phone_code_attempts u < MAX_ATTEMPTS
      | _ \<Rightarrow> False)"

fun guesses :: "(string \<Rightarrow> string \<Rightarrow> string) \<Rightarrow> string \<Rightarrow> phone_call list \<Rightarrow> store \<Rightarrow> nat" where
  "guesses h uid [] s = 0"
| "guesses h uid (c # cs) s =
     (case c of PhoneConfirm v now code \<Rightarrow>
        (if v = uid \<and> (case dget (users s) uid of None \<Rightarrow> False | Some u \<Rightarrow> code_compared u now) then 1 else 0)
      | _ \<Rightarrow> 0) + guesses h uid cs (phone_step h c s)"

subsection \<open>One user\<close>

fun user_call :: "(string \<Rightarrow> string \<Rightarrow> string) \<Rightarrow> phone_call \<Rightarrow> user \<Rightarrow> user" where
  "user_call h (PhoneBegin uid n salt now phone channel) u =
     (case phone_begin h n salt now phone channel u of Inl _ \<Rightarrow> u | Inr (_, u') \<Rightarrow> u')"
| "user_call h (PhoneConfirm uid now code) u = (case phone_confirm h now code u of Inl _ \<Rightarrow> u | Inr (_, u') \<Rightarrow> u')"
| "user_call h (PhoneCancel uid) u = cancel_pending u"
| "user_call h (PhoneRefuse uid phone) u = u\<lparr>us_phone_last_refused := Some phone\<rparr>"
| "user_call h (PhoneClear uid) u = phone_clear u"

lemma phone_step_user:
  "dget (users (phone_step h c s)) uid =
     (if call_user c = uid then map_option (user_call h c) (dget (users s) uid) else dget (users s) uid)"
  by (cases c) (auto simp: begin_phone_verification_def confirm_phone_verification_def cancel_phone_verification_def
      set_user_phone_last_refused_def clear_user_phone_def change_user_def split: option.splits sum.splits)

text \<open>The comparisons left on the pending code.\<close>

definition guesses_left :: "user \<Rightarrow> nat" where
  "guesses_left u = (if us_pending_phone u = None then 0 else nat (MAX_ATTEMPTS - us_phone_code_attempts u))"

lemma clear_pending_simps [simp]:
  "us_pending_phone (clear_pending u) = None" "us_phone (clear_pending u) = us_phone u"
  "us_phone_verified (clear_pending u) = us_phone_verified u" "us_phone_code_sent_at (clear_pending u) = us_phone_code_sent_at u"
  "guesses_left (clear_pending u) = 0"
  by (simp_all add: clear_pending_def guesses_left_def)

text \<open>The five ways a confirmation can end.\<close>

lemma phone_confirm_cases:
  assumes "phone_confirm h now code u = r"
  obtains (unchanged) "\<not> code_compared u now" "\<And>x u'. r = Inr (x, u') \<Longrightarrow> u' = u"
  | (burnt) st where "\<not> code_compared u now" "r = Inr (confirmed st, clear_pending u)"
  | (wrong) n where "code_compared u now" "n > 0"
      "r = Inr (\<lparr>cf_status = Mismatch, cf_attempts_remaining = n\<rparr>, u\<lparr>us_phone_code_attempts := us_phone_code_attempts u + 1\<rparr>)"
  | (exhausted) "code_compared u now"
      "r = Inr (confirmed Too_many_attempts, clear_pending (u\<lparr>us_phone_code_attempts := us_phone_code_attempts u + 1\<rparr>))"
  | (right) salt where "code_compared u now" "us_phone_code_salt u = Some salt"
      "us_phone_code_hash u = Some (h (py_strip code) salt)" "r = Inr (confirmed Confirm_ok, promote_pending now u)"
proof (cases "us_pending_phone u = None \<or> us_phone_code_hash u = None \<or> us_phone_code_salt u = None")
  case True
  then show thesis using unchanged assms by (auto simp: phone_confirm_def code_compared_def split: option.splits)
next
  case False
  then obtain p hh salt where f: "us_pending_phone u = Some p" "us_phone_code_hash u = Some hh" "us_phone_code_salt u = Some salt"
    by auto
  have cmp: "code_compared u now \<longleftrightarrow> p \<noteq> [] \<and> hh \<noteq> [] \<and> salt \<noteq> [] \<and> is_ok (normalize_phone p) \<and>
      \<not> (phone_verification_requires_identity_first p \<and> \<not> identity_verified u) \<and>
      \<not> (case us_phone_code_expires_at u of None \<Rightarrow> False | Some deadline \<Rightarrow> now \<ge> deadline) \<and>
      us_phone_code_attempts u < MAX_ATTEMPTS"
    by (auto simp: code_compared_def f split: option.splits)
  consider "p = [] \<or> hh = [] \<or> salt = [] \<or> \<not> is_ok (normalize_phone p)"
    | "p \<noteq> []" "hh \<noteq> []" "salt \<noteq> []" "is_ok (normalize_phone p)" by blast
  then show thesis
  proof cases
    case 1
    show thesis
      by (rule unchanged) (use 1 cmp assms in \<open>auto simp: phone_confirm_def f split: sum.splits if_splits\<close>)
  next
    case 2
    then obtain v where v: "normalize_phone p = Inr v" by (cases "normalize_phone p") auto
    show thesis
      using assms 2 cmp v unchanged burnt wrong exhausted right [of salt]
      by (auto simp: phone_confirm_def f Let_def split: if_splits)
  qed
qed

lemma guess_step:
  assumes "\<not> is_begin c"
  shows "(case c of PhoneConfirm v now code \<Rightarrow> if code_compared u now then 1 else 0 | _ \<Rightarrow> 0) + guesses_left (user_call h c u) \<le> guesses_left u"
proof (cases c)
  case (PhoneConfirm v now code)
  have pos: "0 < guesses_left u" if "code_compared u now"
    using that by (auto simp: code_compared_def guesses_left_def split: option.splits)
  show ?thesis
    using refl [of "phone_confirm h now code u"]
  proof (cases rule: phone_confirm_cases)
    case unchanged
    then show ?thesis by (cases "phone_confirm h now code u") (auto simp: PhoneConfirm)
  next
    case (wrong n)
    then have "Suc (guesses_left (u\<lparr>us_phone_code_attempts := us_phone_code_attempts u + 1\<rparr>)) = guesses_left u"
      using pos by (auto simp: guesses_left_def code_compared_def split: option.splits)
    then show ?thesis using wrong by (simp add: PhoneConfirm)
  qed (use pos in \<open>auto simp: PhoneConfirm promote_pending_def\<close>)
qed (use assms in \<open>auto simp: cancel_pending_def phone_clear_def guesses_left_def\<close>)

lemma guesses_bound:
  assumes "dget (users s) uid = Some u" "\<forall>c \<in> set cs. is_begin c \<longrightarrow> call_user c \<noteq> uid"
  shows "guesses h uid cs s \<le> guesses_left u"
  using assms
proof (induction cs arbitrary: s u)
  case (Cons c cs)
  show ?case
  proof (cases "call_user c = uid")
    case True
    then have "guesses h uid cs (phone_step h c s) \<le> guesses_left (user_call h c u)"
      using Cons by (simp add: phone_step_user)
    moreover have "\<not> is_begin c" using Cons.prems(2) True by auto
    ultimately show ?thesis using guess_step [of c u h] Cons.prems(1) True by (auto split: phone_call.splits)
  next
    case False
    then have "guesses h uid cs (phone_step h c s) \<le> guesses_left u" using Cons by (simp add: phone_step_user)
    then show ?thesis using False by (auto split: phone_call.splits)
  qed
qed simp

subsection \<open>Where a verified number comes from\<close>

text \<open>The pending proof is the issued one, or gone.\<close>

definition issued_pending :: "string \<Rightarrow> string \<Rightarrow> string \<Rightarrow> instant \<Rightarrow> user \<Rightarrow> bool" where
  "issued_pending p hh salt deadline u \<longleftrightarrow> us_pending_phone u = None \<or>
     us_pending_phone u = Some p \<and> us_phone_code_hash u = Some hh \<and> us_phone_code_salt u = Some salt \<and>
     us_phone_code_expires_at u = Some deadline"

lemma user_call_issued:
  assumes "\<not> is_begin c" "issued_pending p hh salt deadline u"
  shows "issued_pending p hh salt deadline (user_call h c u)"
    "us_phone_code_sent_at (user_call h c u) = us_phone_code_sent_at u"
    "us_phone_verified (user_call h c u) \<Longrightarrow> us_phone (user_call h c u) = us_phone u \<and> us_phone_verified u \<or>
       us_phone (user_call h c u) = Some p \<and> (\<exists>v now code. c = PhoneConfirm v now code \<and> now < deadline \<and> h (py_strip code) salt = hh)"
proof -
  have "issued_pending p hh salt deadline (user_call h c u) \<and> us_phone_code_sent_at (user_call h c u) = us_phone_code_sent_at u \<and>
    (us_phone_verified (user_call h c u) \<longrightarrow> us_phone (user_call h c u) = us_phone u \<and> us_phone_verified u \<or>
       us_phone (user_call h c u) = Some p \<and> (\<exists>v now code. c = PhoneConfirm v now code \<and> now < deadline \<and> h (py_strip code) salt = hh))"
  proof (cases c)
    case (PhoneConfirm v now code)
    show ?thesis
      using refl [of "phone_confirm h now code u"]
    proof (cases rule: phone_confirm_cases)
      case unchanged
      then show ?thesis using assms(2) by (cases "phone_confirm h now code u") (auto simp: PhoneConfirm)
    next
      case (right salt')
      moreover have "us_pending_phone u = Some p" "salt' = salt" "h (py_strip code) salt = hh" "now < deadline"
        using right(1-3) assms(2) by (auto simp: code_compared_def issued_pending_def split: option.splits)
      ultimately show ?thesis by (auto simp: PhoneConfirm promote_pending_def issued_pending_def)
    qed (use assms(2) in \<open>auto simp: PhoneConfirm issued_pending_def clear_pending_def\<close>)
  qed (use assms in \<open>auto simp: cancel_pending_def phone_clear_def issued_pending_def clear_pending_def\<close>)
  then show "issued_pending p hh salt deadline (user_call h c u)"
    "us_phone_code_sent_at (user_call h c u) = us_phone_code_sent_at u"
    "us_phone_verified (user_call h c u) \<Longrightarrow> us_phone (user_call h c u) = us_phone u \<and> us_phone_verified u \<or>
       us_phone (user_call h c u) = Some p \<and> (\<exists>v now code. c = PhoneConfirm v now code \<and> now < deadline \<and> h (py_strip code) salt = hh)"
    by blast+
qed

lemma issued_run:
  assumes "dget (users s) uid = Some u" "\<forall>c \<in> set cs. is_begin c \<longrightarrow> call_user c \<noteq> uid" "issued_pending p hh salt deadline u"
  obtains u' where "dget (users (fold (phone_step h) cs s)) uid = Some u'" "us_phone_code_sent_at u' = us_phone_code_sent_at u"
    "us_phone_verified u' \<Longrightarrow> us_phone u' = us_phone u \<and> us_phone_verified u \<or>
       us_phone u' = Some p \<and> (\<exists>now code. PhoneConfirm uid now code \<in> set cs \<and> now < deadline \<and> h (py_strip code) salt = hh)"
  using assms
proof (induction cs arbitrary: s u thesis)
  case (Cons c cs)
  show ?case
  proof (cases "call_user c = uid")
    case True
    then have nb: "\<not> is_begin c" using Cons.prems(3) by auto
    have step: "dget (users (phone_step h c s)) uid = Some (user_call h c u)" using Cons.prems(2) True by (simp add: phone_step_user)
    note call = user_call_issued [OF nb Cons.prems(4), of h]
    obtain u' where u': "dget (users (fold (phone_step h) cs (phone_step h c s))) uid = Some u'"
        "us_phone_code_sent_at u' = us_phone_code_sent_at (user_call h c u)"
        "us_phone_verified u' \<Longrightarrow> us_phone u' = us_phone (user_call h c u) \<and> us_phone_verified (user_call h c u) \<or>
           us_phone u' = Some p \<and> (\<exists>now code. PhoneConfirm uid now code \<in> set cs \<and> now < deadline \<and> h (py_strip code) salt = hh)"
      using Cons.IH [OF _ step _ call(1)] Cons.prems(3) by auto
    show ?thesis
    proof (rule Cons.prems(1))
      show "dget (users (fold (phone_step h) (c # cs) s)) uid = Some u'" using u'(1) by simp
      show "us_phone_code_sent_at u' = us_phone_code_sent_at u" using u'(2) call(2) by simp
      assume "us_phone_verified u'"
      then show "us_phone u' = us_phone u \<and> us_phone_verified u \<or>
         us_phone u' = Some p \<and> (\<exists>now code. PhoneConfirm uid now code \<in> set (c # cs) \<and> now < deadline \<and> h (py_strip code) salt = hh)"
        using u'(3) call(3) True by (metis call_user.simps(2) list.set_intros)
    qed
  next
    case False
    then have "dget (users (phone_step h c s)) uid = Some u" using Cons.prems(2) by (simp add: phone_step_user)
    from Cons.IH [OF _ this _ Cons.prems(4)] show ?thesis using Cons.prems(1,3) by (auto simp del: fold_simps simp: fold_simps(2))
  qed
qed auto

section \<open>Properties\<close>


definition demo_phone_store :: store where
  "demo_phone_store = (init_store True)\<lparr>users := [(''u'', new_user ''u'' (Some ''a@b.c'') True None 0)]\<rparr>"

definition demo_hash :: "string \<Rightarrow> string \<Rightarrow> string" where
  "demo_hash code salt = salt @ code"

definition demo_calls :: "phone_call list" where
  "demo_calls = [PhoneConfirm ''u'' 1 ''1'', PhoneRefuse ''u'' ''+7'', PhoneConfirm ''v'' 1 ''x'', PhoneConfirm ''u'' 2 ''000042'']"

definition demo_begin :: "(string \<times> user) option result \<times> store" where
  "demo_begin = begin_phone_verification demo_hash 42 ''s'' 0 ''u'' ''+30-55500000'' None demo_phone_store"


end
