(* ===== verification/Identity.thy ===== *)
theory Identity
  imports Phone Workspace_Inventory
begin

text \<open>
  Who a user is: creator usernames (\<open>creator_identity.py\<close> and \<open>claim_user_username\<close>), identity
  verification and what losing it costs (\<open>storage.py\<close>, lines 1292 to 1402), the gates of
  \<open>verification_gates.py\<close>, provider access, social rewards and signup (\<open>storage.py\<close>, lines 437 to 571).

  Losing an approved identity caps the trust tier of the owner's workspaces at 1, at once while the
  owner's rows fit the mutation budget and through a queue otherwise.
\<close>

section \<open>Creator usernames\<close>

definition lower_alnum :: "char \<Rightarrow> bool" where
  "lower_alnum c \<longleftrightarrow> (CHR ''a'' \<le> c \<and> c \<le> CHR ''z'') \<or> (CHR ''0'' \<le> c \<and> c \<le> CHR ''9'')"

definition creator_username_pattern :: "string \<Rightarrow> bool" where
  "creator_username_pattern s \<longleftrightarrow> 3 \<le> length s \<and> length s \<le> 32 \<and> lower_alnum (hd s) \<and> lower_alnum (last s) \<and>
     list_all (\<lambda>c. lower_alnum c \<or> c = CHR ''-'') s"

definition CREATOR_USERNAME_RESERVED :: "string list" where
  "CREATOR_USERNAME_RESERVED = [''admin'', ''api'', ''billing'', ''console'', ''docs'', ''lorehex'', ''official'',
     ''security'', ''support'', ''tr'', ''trustedrouter'', ''trusted-router'']"

definition normalize_creator_username :: "string \<Rightarrow> string" where
  "normalize_creator_username value = py_lower (py_strip value)"

definition validate_creator_username :: "string \<Rightarrow> string result" where
  "validate_creator_username value =
     (let username = normalize_creator_username value
      in if \<not> creator_username_pattern username then Inl (ValueError ''invalid_creator_username'')
         else if username \<in> set CREATOR_USERNAME_RESERVED then Inl (ValueError ''creator_username_reserved'')
         else Inr username)"

text \<open>\<open>re.sub(r"[^...]+", "-", s)\<close>: every maximal run of other characters becomes one dash.\<close>

fun dash_runs :: "(char \<Rightarrow> bool) \<Rightarrow> bool \<Rightarrow> string \<Rightarrow> string" where
  "dash_runs kept inside [] = []"
| "dash_runs kept inside (c # cs) =
     (if kept c then c # dash_runs kept False cs
      else if inside then dash_runs kept True cs else CHR ''-'' # dash_runs kept True cs)"

definition strip_dashes :: "string \<Rightarrow> string" where
  "strip_dashes s = rev (dropWhile (\<lambda>c. c = CHR ''-'') (rev (dropWhile (\<lambda>c. c = CHR ''-'') s)))"

definition local_creator_username :: "user \<Rightarrow> string result" where
  "local_creator_username u =
     (if ostr (us_username u) \<noteq> [] then validate_creator_username (ostr (us_username u))
      else let local_part = py_lower (takeWhile (\<lambda>c. c \<noteq> CHR ''@'') (ostr (us_email u)));
               cleaned = take 32 (strip_dashes (dash_runs (\<lambda>c. lower_alnum c \<or> c = CHR ''-'') False local_part))
        in if \<not> creator_username_pattern cleaned \<or> cleaned \<in> set CREATOR_USERNAME_RESERVED
           then let compact_id = take 12 (filter lower_alnum (py_lower (us_id u)))
             in Inr (''dev-'' @ (if compact_id = [] then ''creator'' else compact_id))
           else Inr cleaned)"

definition creator_username_for_models :: "user \<Rightarrow> bool \<Rightarrow> string result" where
  "creator_username_for_models u enforce_verification =
     (if ostr (us_username u) \<noteq> [] then validate_creator_username (ostr (us_username u))
      else if enforce_verification then Inl (ValueError ''creator_username_required'')
      else local_creator_username u)"

definition find_user_by_username :: "string \<Rightarrow> string \<Rightarrow> store \<Rightarrow> user option" where
  "find_user_by_username username fallback_user_id s =
     (case validate_creator_username username of Inl _ \<Rightarrow> None
      | Inr normalized \<Rightarrow> (case dget (user_ids_by_username s) normalized of None \<Rightarrow> None | Some uid \<Rightarrow> dget (users s) uid))"

definition claim_user_username :: "string \<Rightarrow> string \<Rightarrow> user store_op" where
  "claim_user_username uid username s =
     (case validate_creator_username username of Inl e \<Rightarrow> (Inl e, s)
      | Inr normalized \<Rightarrow>
          (case dget (users s) uid of None \<Rightarrow> (Inl (ValueError ''user_not_found''), s)
           | Some u \<Rightarrow>
              (if ostr (us_username u) \<noteq> []
               then (if us_username u = Some normalized then (Inr u, s) else (Inl (ValueError ''creator_username_immutable''), s))
               else if (case dget (user_ids_by_username s) normalized of None \<Rightarrow> False | Some owner \<Rightarrow> owner \<noteq> uid)
               then (Inl (ValueError ''creator_username_taken''), s)
               else let u' = u\<lparr>us_username := Some normalized\<rparr>
                 in (Inr u', s\<lparr>users := dset uid u' (users s), user_ids_by_username := dset normalized uid (user_ids_by_username s)\<rparr>))))"

section \<open>Identity verification\<close>

datatype identity_verification_status = NONE | PENDING | APPROVED | DECLINED | RESUBMISSION_REQUESTED | EXPIRED

definition identity_status_value :: "identity_verification_status \<Rightarrow> string" where
  "identity_status_value st = (case st of NONE \<Rightarrow> ''none'' | PENDING \<Rightarrow> ''pending'' | APPROVED \<Rightarrow> ''approved''
     | DECLINED \<Rightarrow> ''declined'' | RESUBMISSION_REQUESTED \<Rightarrow> ''resubmission_requested'' | EXPIRED \<Rightarrow> ''expired'')"

definition coerce_identity_status :: "string \<Rightarrow> identity_verification_status" where
  "coerce_identity_status value =
     (case List.find (\<lambda>st. identity_status_value st = py_lower (py_strip value))
        [NONE, PENDING, APPROVED, DECLINED, RESUBMISSION_REQUESTED, EXPIRED] of None \<Rightarrow> NONE | Some st \<Rightarrow> st)"

definition demote_shard :: "instant \<Rightarrow> string \<Rightarrow> store \<Rightarrow> trust_shard \<Rightarrow> trust_shard" where
  "demote_shard now w s row =
     (let bypass = (case dget (trust_overrides s) w of None \<Rightarrow> False | Some x \<Rightarrow> to_identity_bypass x)
      in row\<lparr>sh_trust_tier := (if bypass then sh_trust_tier row else min (sh_trust_tier row) 1), sh_trust_computed_at := Some now\<rparr>)"

definition demote_workspace :: "instant \<Rightarrow> string \<Rightarrow> nat \<Rightarrow> unit store_op" where
  "demote_workspace now w shards s = for_shards w (demote_shard now w s) [0..<shards] s"

fun demote_loop :: "instant \<Rightarrow> string \<Rightarrow> bool \<Rightarrow> (string \<times> nat) list \<Rightarrow> int \<Rightarrow> unit store_op" where
  "demote_loop now owner over_budget [] remaining s = (Inr (), s)"
| "demote_loop now owner over_budget ((w, shards) # ws) remaining s =
     (let cost = int shards * TRUST_REPLICATED_COLUMN_COUNT
      in if over_budget \<and> cost > remaining
         then demote_loop now owner over_budget ws remaining
                (s\<lparr>trust_demotion_remainders := set_add (owner, w) (trust_demotion_remainders s)\<rparr>)
         else case demote_workspace now w shards s of (Inl e, s') \<Rightarrow> (Inl e, s')
          | (Inr _, s') \<Rightarrow> demote_loop now owner over_budget ws (remaining - cost) s')"

definition demote_owner :: "instant \<Rightarrow> string \<Rightarrow> unit store_op" where
  "demote_owner now owner s =
     (let ids = sorted_set (owned_by owner s)
      in case shard_counts (credits s) ids of Inl e \<Rightarrow> (Inl e, s)
       | Inr counts \<Rightarrow> demote_loop now owner (int (sum_list counts) * TRUST_REPLICATED_COLUMN_COUNT > TRUST_OWNER_MUTATION_BUDGET)
           (zip ids counts) TRUST_OWNER_MUTATION_BUDGET s)"

text \<open>The keyword arguments of a status change.\<close>

record identity_decision =
  dn_status :: string
  dn_session_id :: "string option"
  dn_session_url :: "string option"
  dn_code :: "int option"
  dn_reason :: "string option"
  dn_reason_code :: "int option"
  dn_verified_name :: "string option"
  dn_increment_attempts :: bool

definition override_with :: "'a option \<Rightarrow> 'a option \<Rightarrow> 'a option" where
  "override_with new old = (case new of None \<Rightarrow> old | Some x \<Rightarrow> Some x)"

definition decide_identity :: "instant \<Rightarrow> identity_decision \<Rightarrow> user \<Rightarrow> user" where
  "decide_identity now d u =
     (let normalized = coerce_identity_status (dn_status d); approved = (normalized = APPROVED)
      in u\<lparr>us_identity_verified_at := (if approved \<and> us_identity_verified_at u = None then Some now else us_identity_verified_at u),
           us_phone_last_refused := (if approved then None else us_phone_last_refused u),
           us_identity_status := identity_status_value normalized,
           us_veriff_session_created_at := (case dn_session_id d of None \<Rightarrow> us_veriff_session_created_at u
             | Some i \<Rightarrow> if us_veriff_session_id u \<noteq> Some i \<or> us_veriff_session_created_at u = None then Some now
                        else us_veriff_session_created_at u),
           us_veriff_session_id := override_with (dn_session_id d) (us_veriff_session_id u),
           us_veriff_session_url := override_with (dn_session_url d) (us_veriff_session_url u),
           us_veriff_decision_code := override_with (dn_code d) (us_veriff_decision_code u),
           us_veriff_decision_reason := override_with (dn_reason d) (us_veriff_decision_reason u),
           us_veriff_decision_reason_code := override_with (dn_reason_code d) (us_veriff_decision_reason_code u),
           us_identity_verified_name := override_with (dn_verified_name d) (us_identity_verified_name u),
           us_veriff_attempt_count := us_veriff_attempt_count u + (if dn_increment_attempts d then 1 else 0)\<rparr>)"

definition set_user_identity_status :: "instant \<Rightarrow> string \<Rightarrow> identity_decision \<Rightarrow> user option store_op" where
  "set_user_identity_status now uid d s =
     (case dget (users s) uid of None \<Rightarrow> (Inr None, s)
      | Some u \<Rightarrow>
          (let u' = decide_identity now d u; s1 = s\<lparr>users := dset uid u' (users s)\<rparr>
           in if us_identity_status u = ''approved'' \<and> coerce_identity_status (dn_status d) \<noteq> APPROVED
              then (case demote_owner now uid s1 of (Inl e, s2) \<Rightarrow> (Inl e, s2) | (Inr _, s2) \<Rightarrow> (Inr (Some u'), s2))
              else (Inr (Some u'), s1)))"

definition apply_veriff_identity_decision :: "instant \<Rightarrow> string \<Rightarrow> string \<Rightarrow> string \<Rightarrow> identity_decision \<Rightarrow> string store_op" where
  "apply_veriff_identity_decision now uid event_id session_id d s =
     (let marker = (''veriff'', event_id)
      in if marker \<in> webhook_events s then (Inr ''replayed'', s)
         else let s1 = s\<lparr>webhook_events := insert marker (webhook_events s)\<rparr>
           in case dget (users s1) uid of None \<Rightarrow> (Inr ''ignored'', s1)
            | Some u \<Rightarrow>
               (if us_veriff_session_id u \<noteq> Some session_id then (Inr ''ignored'', s1)
                else case set_user_identity_status now uid (d\<lparr>dn_session_id := None, dn_session_url := None,
                       dn_increment_attempts := False\<rparr>) s1 of
                    (Inl e, s2) \<Rightarrow> (Inl e, s2) | (Inr _, s2) \<Rightarrow> (Inr ''applied'', s2)))"

fun process_remainders :: "instant \<Rightarrow> (string \<times> string) list \<Rightarrow> nat \<Rightarrow> nat store_op" where
  "process_remainders now [] completed s = (Inr completed, s)"
| "process_remainders now ((owner, w) # rest) completed s =
     (let drop = (\<lambda>t. t\<lparr>trust_demotion_remainders := filter (\<lambda>x. x \<noteq> (owner, w)) (trust_demotion_remainders t)\<rparr>)
      in case dget (credits s) w of None \<Rightarrow> process_remainders now rest (completed + 1) (drop s)
       | Some a \<Rightarrow> (case demote_workspace now w (ca_shard_count a) s of (Inl e, s') \<Rightarrow> (Inl e, s')
           | (Inr _, s') \<Rightarrow> process_remainders now rest (completed + 1) (drop s')))"

definition process_trust_demotion_remainders :: "instant \<Rightarrow> int \<Rightarrow> nat store_op" where
  "process_trust_demotion_remainders now limit s =
     process_remainders now (slice_to limit (sort (trust_demotion_remainders s))) 0 s"

definition set_user_github_identity :: "string \<Rightarrow> string \<Rightarrow> string option \<Rightarrow> store \<Rightarrow> user option \<times> store" where
  "set_user_github_identity uid login account_created_at =
     change_user uid (\<lambda>u. u\<lparr>us_github_login := Some login, us_github_account_created_at := account_created_at\<rparr>)"

section \<open>Verification gates\<close>

definition VERIFICATION_MIN_LIFETIME_TOPUP_MICRODOLLARS :: int where
  "VERIFICATION_MIN_LIFETIME_TOPUP_MICRODOLLARS = 25000000"

definition missing_phone_verification_requirements :: "bool \<Rightarrow> user \<Rightarrow> store \<Rightarrow> string list" where
  "missing_phone_verification_requirements funding_enforced u s =
     (if ostr (us_email u) = [] then [''email''] else []) @
     (if funding_enforced \<and> dget_or 0 (lifetime_topups s) (us_id u) \<le> 0 then [''funding''] else [])"

definition missing_identity_verification_requirements :: "user \<Rightarrow> int option \<Rightarrow> store \<Rightarrow> string list" where
  "missing_identity_verification_requirements u lifetime_topup s =
     (if ostr (us_email u) = [] then [''email''] else []) @
     (if (case lifetime_topup of None \<Rightarrow> dget_or 0 (lifetime_topups s) (us_id u) | Some n \<Rightarrow> n) <
         VERIFICATION_MIN_LIFETIME_TOPUP_MICRODOLLARS then [''funding''] else [])"

section \<open>Provider access and social rewards\<close>

definition normalize_provider_access_slug :: "string \<Rightarrow> string result" where
  "normalize_provider_access_slug value =
     (let normalized = py_lower (py_strip value)
      in if normalized = [] \<or> \<not> list_all (\<lambda>c. c \<in> set ''abcdefghijklmnopqrstuvwxyz0123456789-_.'') normalized
         then Inl (ValueError ''provider must be a lowercase provider slug'') else Inr normalized)"

definition normalize_provider_access_role :: "string \<Rightarrow> string result" where
  "normalize_provider_access_role value =
     (let normalized = py_lower (py_strip value)
      in if normalized \<notin> {''viewer'', ''admin''} then Inl (ValueError ''provider access role must be viewer or admin'')
         else Inr normalized)"

definition grant_provider_access :: "instant \<Rightarrow> string \<Rightarrow> string \<Rightarrow> string \<Rightarrow> provider_access_grant store_op" where
  "grant_provider_access now uid provider role s =
     (case normalize_provider_access_slug provider of Inl e \<Rightarrow> (Inl e, s)
      | Inr p \<Rightarrow> (case normalize_provider_access_role role of Inl e \<Rightarrow> (Inl e, s)
         | Inr r \<Rightarrow> (if dget (users s) uid = None then (Inl (ValueError ''user does not exist''), s)
             else let g = \<lparr>pa_user_id = uid, pa_provider = p, pa_role = r, pa_created_at = now\<rparr>
               in (Inr g, s\<lparr>provider_access_grants := dset (uid, p) g (provider_access_grants s)\<rparr>))))"

definition list_provider_access_for_user :: "string \<Rightarrow> store \<Rightarrow> provider_access_grant list" where
  "list_provider_access_for_user uid s =
     sort_key pa_provider (map snd (filter (\<lambda>(k, g). fst k = uid) (provider_access_grants s)))"

definition revoke_provider_access :: "string \<Rightarrow> string \<Rightarrow> bool store_op" where
  "revoke_provider_access uid provider s =
     (case normalize_provider_access_slug provider of Inl e \<Rightarrow> (Inl e, s)
      | Inr p \<Rightarrow> (Inr (dget (provider_access_grants s) (uid, p) \<noteq> None),
          s\<lparr>provider_access_grants := dpop (uid, p) (provider_access_grants s)\<rparr>))"

definition dismiss_social_rewards :: "string \<Rightarrow> store \<Rightarrow> bool \<times> store" where
  "dismiss_social_rewards uid s =
     (case dget (social_reward_enrollments s) uid of None \<Rightarrow> (False, s)
      | Some r \<Rightarrow> if se_dismissed r then (False, s)
          else (True, s\<lparr>social_reward_enrollments := dset uid (r\<lparr>se_dismissed := True\<rparr>) (social_reward_enrollments s)\<rparr>))"

definition mark_social_reward_first_call :: "string \<Rightarrow> store \<Rightarrow> bool \<times> store" where
  "mark_social_reward_first_call uid s =
     (case dget (social_reward_enrollments s) uid of None \<Rightarrow> (False, s)
      | Some r \<Rightarrow> if se_first_call_complete r then (False, s)
          else (True, s\<lparr>social_reward_enrollments := dset uid (r\<lparr>se_first_call_complete := True\<rparr>) (social_reward_enrollments s)\<rparr>))"

definition has_credit_grant :: "string \<Rightarrow> string \<Rightarrow> store \<Rightarrow> bool" where
  "has_credit_grant w event_id s = (case dget (trust_events s) (w, event_id) of None \<Rightarrow> False | Some e \<Rightarrow> te_kind e = ''grant'')"

section \<open>Signup\<close>

record signup_result =
  sr_user :: user
  sr_workspace :: workspace
  sr_raw_key :: string
  sr_api_key :: api_key
  sr_trial :: microdollars

definition signup_key :: "string \<Rightarrow> string \<Rightarrow> key_spec" where
  "signup_key w uid = \<lparr>ks_workspace_id = w, ks_name = ''Signup key'', ks_creator_user_id = Some uid, ks_management = True,
     ks_raw_key = None, ks_limit = None, ks_limit_reset = None, ks_include_byok_in_limit = True, ks_expires_at = None,
     ks_limit_daily = None, ks_limit_weekly = None, ks_limit_monthly = None, ks_budget_alert_only = False,
     ks_budget_strict = False, ks_tags = None, ks_scopes = None, ks_app_id = []\<rparr>"

text \<open>The random values a call draws: the ids of the user and of the workspace, the key, its id and its salt.\<close>

definition signup ::
    "(string \<Rightarrow> string \<Rightarrow> string) \<Rightarrow> (string \<Rightarrow> string) \<Rightarrow> string \<times> string \<times> string \<times> string \<times> string \<Rightarrow> instant \<Rightarrow> string \<Rightarrow>
     string option \<Rightarrow> microdollars \<Rightarrow> bool \<Rightarrow> string option \<Rightarrow> signup_result option store_op" where
  "signup hash_api_key lookup_hash draws now email workspace_name trial verified issuer s =
     (case draws of (new_id, new_wid, new_key, new_key_id, new_salt) \<Rightarrow>
      if dget (user_ids_by_email s) (normalize_email email) \<noteq> None then (Inr None, s)
      else case ensure_user new_id new_wid now email (Some email) (Some trial) verified issuer s of
          (Inl e, s1) \<Rightarrow> (Inl e, s1)
        | (Inr u, s1) \<Rightarrow>
           (case list_workspaces_for_user (us_id u) s1 of Inl e \<Rightarrow> (Inl e, s1)
            | Inr [] \<Rightarrow> (Inl (RuntimeError ''list index out of range''), s1)
            | Inr (w0 # _) \<Rightarrow>
               (let w = (if ostr workspace_name = [] then w0 else w0\<lparr>ws_name := ostr workspace_name\<rparr>);
                    s2 = s1\<lparr>workspaces := dset (ws_id w0) w (workspaces s1)\<rparr>
                in case keys_create hash_api_key lookup_hash new_key new_key_id new_salt now (signup_key (ws_id w) (us_id u)) s2 of
                     (Inl e, s3) \<Rightarrow> (Inl e, s3)
                   | (Inr (raw, k), s3) \<Rightarrow>
                      (case dget (credit_money s3) (ws_id w) of None \<Rightarrow> (Inl (KeyError (ws_id w)), s3)
                       | Some m \<Rightarrow> (Inr (Some \<lparr>sr_user = u, sr_workspace = w, sr_raw_key = raw, sr_api_key = k,
                            sr_trial = cm_credits m\<rparr>), s3)))))"

section \<open>Lemmas\<close>

subsection \<open>Demotion\<close>

lemma for_shards_Inr:
  assumes "\<forall>i \<in> set js. dget (credit_trust_shards s) (w, i) \<noteq> None"
  obtains s' where "for_shards w f js s = (Inr (), s')"
  using assms
proof (induction js arbitrary: s thesis)
  case (Cons j js)
  then obtain row where row: "dget (credit_trust_shards s) (w, j) = Some row" by fastforce
  let ?t = "s\<lparr>credit_trust_shards := dset (w, j) (f row) (credit_trust_shards s)\<rparr>"
  have "\<forall>i \<in> set js. dget (credit_trust_shards ?t) (w, i) \<noteq> None" using Cons.prems(2) by simp
  from Cons.IH [OF _ this] show ?case using Cons.prems(1) row by auto
qed auto

text \<open>What a demotion may do: it rewrites trust rows in place, never raising a tier, and queues workspaces.\<close>

definition demotes :: "store \<Rightarrow> store \<Rightarrow> bool" where
  "demotes s s' \<longleftrightarrow> (\<exists>rows queue. s' = s\<lparr>credit_trust_shards := rows, trust_demotion_remainders := queue\<rparr>) \<and>
     (\<forall>k. case (dget (credit_trust_shards s) k, dget (credit_trust_shards s') k) of
        (Some row, Some row') \<Rightarrow> sh_trust_tier row' \<le> sh_trust_tier row | (None, None) \<Rightarrow> True | _ \<Rightarrow> False)"

definition rows_ready :: "store \<Rightarrow> string \<Rightarrow> bool" where
  "rows_ready s w \<longleftrightarrow> (case dget (credits s) w of None \<Rightarrow> False
     | Some a \<Rightarrow> (\<forall>i < ca_shard_count a. dget (credit_trust_shards s) (w, i) \<noteq> None))"

definition identity_bypassed :: "store \<Rightarrow> string \<Rightarrow> bool" where
  "identity_bypassed s w = (case dget (trust_overrides s) w of None \<Rightarrow> False | Some x \<Rightarrow> to_identity_bypass x)"

definition capped :: "store \<Rightarrow> string \<Rightarrow> bool" where
  "capped s w \<longleftrightarrow> identity_bypassed s w \<or> (case dget (credits s) w of None \<Rightarrow> True
     | Some a \<Rightarrow> (\<forall>i < ca_shard_count a. case dget (credit_trust_shards s) (w, i) of None \<Rightarrow> True | Some row \<Rightarrow> sh_trust_tier row \<le> 1))"

lemma demotesI:
  assumes "s' = s\<lparr>credit_trust_shards := rows, trust_demotion_remainders := queue\<rparr>"
    "\<And>k row. dget (credit_trust_shards s) k = Some row \<Longrightarrow> \<exists>row'. dget rows k = Some row' \<and> sh_trust_tier row' \<le> sh_trust_tier row"
    "\<And>k. dget (credit_trust_shards s) k = None \<Longrightarrow> dget rows k = None"
  shows "demotes s s'"
proof -
  have "case (dget (credit_trust_shards s) k, dget (credit_trust_shards s') k) of
        (Some row, Some row') \<Rightarrow> sh_trust_tier row' \<le> sh_trust_tier row | (None, None) \<Rightarrow> True | _ \<Rightarrow> False" for k
    using assms(2,3) [of k] by (cases "dget (credit_trust_shards s) k") (auto simp: assms(1))
  then show ?thesis using assms(1) unfolding demotes_def by blast
qed

lemma queue_demotes: "demotes s (s\<lparr>trust_demotion_remainders := queue\<rparr>)"
  by (rule demotesI [where rows = "credit_trust_shards s" and queue = queue]) simp_all

lemma demotes_refl: "demotes s s"
  using queue_demotes [of s "trust_demotion_remainders s"] by simp

lemma demotes_fields:
  assumes "demotes s s'"
  shows "users s' = users s" "credits s' = credits s" "owner_workspaces s' = owner_workspaces s" "trust_overrides s' = trust_overrides s"
    "user_ids_by_username s' = user_ids_by_username s" "webhook_events s' = webhook_events s"
  using assms by (auto simp: demotes_def)

lemma demotes_row:
  assumes "demotes s s'"
  shows "dget (credit_trust_shards s) k = None \<Longrightarrow> dget (credit_trust_shards s') k = None"
    "dget (credit_trust_shards s) k = Some row \<Longrightarrow> \<exists>row'. dget (credit_trust_shards s') k = Some row' \<and> sh_trust_tier row' \<le> sh_trust_tier row"
proof -
  have k: "case (dget (credit_trust_shards s) k, dget (credit_trust_shards s') k) of
        (Some row, Some row') \<Rightarrow> sh_trust_tier row' \<le> sh_trust_tier row | (None, None) \<Rightarrow> True | _ \<Rightarrow> False"
    using assms unfolding demotes_def by blast
  then show "dget (credit_trust_shards s) k = None \<Longrightarrow> dget (credit_trust_shards s') k = None"
    "dget (credit_trust_shards s) k = Some row \<Longrightarrow> \<exists>row'. dget (credit_trust_shards s') k = Some row' \<and> sh_trust_tier row' \<le> sh_trust_tier row"
    by (auto split: option.splits)
qed

lemma demotes_trans:
  assumes "demotes s t" "demotes t u"
  shows "demotes s u"
proof -
  have "\<exists>rows queue. u = s\<lparr>credit_trust_shards := rows, trust_demotion_remainders := queue\<rparr>"
  proof -
    obtain r1 q1 r2 q2 where "t = s\<lparr>credit_trust_shards := r1, trust_demotion_remainders := q1\<rparr>"
        "u = t\<lparr>credit_trust_shards := r2, trust_demotion_remainders := q2\<rparr>"
      using assms unfolding demotes_def by blast
    then have "u = s\<lparr>credit_trust_shards := r2, trust_demotion_remainders := q2\<rparr>" by simp
    then show ?thesis by blast
  qed
  moreover have "case (dget (credit_trust_shards s) k, dget (credit_trust_shards u) k) of
        (Some row, Some row') \<Rightarrow> sh_trust_tier row' \<le> sh_trust_tier row | (None, None) \<Rightarrow> True | _ \<Rightarrow> False" for k
    using demotes_row [OF assms(1), of k] demotes_row [OF assms(2), of k]
    by (cases "dget (credit_trust_shards s) k") fastforce+
  ultimately show ?thesis by (simp add: demotes_def)
qed

lemma demotes_ready: "demotes s s' \<Longrightarrow> rows_ready s w \<Longrightarrow> rows_ready s' w"
  using demotes_row(2) by (fastforce simp: rows_ready_def demotes_fields split: option.splits)

lemma demotes_capped:
  assumes "demotes s s'" "capped s w"
  shows "capped s' w"
proof (cases "dget (credits s) w")
  case (Some a)
  have "case dget (credit_trust_shards s') (w, i) of None \<Rightarrow> True | Some row \<Rightarrow> sh_trust_tier row \<le> 1"
    if "case dget (credit_trust_shards s) (w, i) of None \<Rightarrow> True | Some row \<Rightarrow> sh_trust_tier row \<le> 1" for i
    using that demotes_row [OF assms(1), of "(w, i)"] by (auto split: option.splits)
  then show ?thesis
    using assms(2) Some by (auto simp: capped_def identity_bypassed_def demotes_fields [OF assms(1)])
qed (use assms in \<open>simp add: capped_def demotes_fields [OF assms(1)]\<close>)

lemma demote_workspace_ok:
  assumes "rows_ready s w" "dget (credits s) w = Some a"
  obtains s' where "demote_workspace now w (ca_shard_count a) s = (Inr (), s')" "demotes s s'" "capped s' w"
    "trust_demotion_remainders s' = trust_demotion_remainders s"
proof -
  obtain s' where run: "for_shards w (demote_shard now w s) [0..<ca_shard_count a] s = (Inr (), s')"
    by (rule for_shards_Inr) (use assms in \<open>auto simp: rows_ready_def\<close>)
  obtain rows where s': "s' = s\<lparr>credit_trust_shards := rows\<rparr>" using for_shards_frame [OF run] by blast
  note rows = for_shards_rows [OF run, simplified]
  have "demotes s s'"
  proof (rule demotesI)
    show "s' = s\<lparr>credit_trust_shards := rows, trust_demotion_remainders := trust_demotion_remainders s\<rparr>" by (simp add: s')
    fix k :: "string \<times> nat"
    obtain v i where k: "k = (v, i)" by fastforce
    have r: "dget rows k = (if v = w \<and> i < ca_shard_count a then map_option (demote_shard now w s) (dget (credit_trust_shards s) k)
        else dget (credit_trust_shards s) k)" using rows [of v i] by (simp add: k s')
    show "dget (credit_trust_shards s) k = None \<Longrightarrow> dget rows k = None" using r by simp
    show "dget (credit_trust_shards s) k = Some row \<Longrightarrow> \<exists>row'. dget rows k = Some row' \<and> sh_trust_tier row' \<le> sh_trust_tier row" for row
      using r by (simp add: demote_shard_def Let_def)
  qed
  moreover have "capped s' w"
    using rows assms(2) by (auto simp: capped_def s' identity_bypassed_def demote_shard_def Let_def split: option.splits)
  ultimately show thesis using that run by (auto simp: demote_workspace_def s')
qed

definition demotion_costs :: "string \<Rightarrow> (string \<times> nat) list \<Rightarrow> store \<Rightarrow> int" where
  "demotion_costs owner ws s = sum_list (map (\<lambda>(w, n). if (owner, w) \<in> set (trust_demotion_remainders s) then 0
     else int n * TRUST_REPLICATED_COLUMN_COUNT) ws)"

lemma demote_loop_ok:
  assumes "\<forall>(w, n) \<in> set ws. rows_ready s w \<and> map_option ca_shard_count (dget (credits s) w) = Some n"
  obtains s' where "demote_loop now owner over ws remaining s = (Inr (), s')" "demotes s s'"
    "set (trust_demotion_remainders s) \<subseteq> set (trust_demotion_remainders s')"
    "set (trust_demotion_remainders s') \<subseteq> set (trust_demotion_remainders s) \<union> {owner} \<times> fst ` set ws"
    "\<forall>w \<in> fst ` set ws. capped s' w \<or> (owner, w) \<in> set (trust_demotion_remainders s')"
    "over \<longrightarrow> 0 \<le> remaining \<longrightarrow> demotion_costs owner ws s' \<le> remaining"
  using assms
proof (induction ws arbitrary: s remaining thesis)
  case Nil
  then show thesis using demotes_refl by (auto simp: demotion_costs_def)
next
  case (Cons x ws)
  obtain w n where x: "x = (w, n)" by fastforce
  let ?cost = "int n * TRUST_REPLICATED_COLUMN_COUNT"
  obtain a where a: "dget (credits s) w = Some a" "ca_shard_count a = n" "rows_ready s w" using Cons.prems(2) by (auto simp: x)
  consider (queued) "over" "?cost > remaining" | (now) "\<not> (over \<and> ?cost > remaining)" by blast
  then show ?case
  proof cases
    case queued
    let ?t = "s\<lparr>trust_demotion_remainders := set_add (owner, w) (trust_demotion_remainders s)\<rparr>"
    have t: "demotes s ?t" by (rule queue_demotes)
    have "\<forall>(w, n) \<in> set ws. rows_ready ?t w \<and> map_option ca_shard_count (dget (credits ?t) w) = Some n"
      using Cons.prems(2) demotes_ready [OF t] by auto
    from Cons.IH [OF _ this, of remaining] obtain s' where s': "demote_loop now owner over ws remaining ?t = (Inr (), s')" "demotes ?t s'"
        "set (trust_demotion_remainders ?t) \<subseteq> set (trust_demotion_remainders s')"
        "set (trust_demotion_remainders s') \<subseteq> set (trust_demotion_remainders ?t) \<union> {owner} \<times> fst ` set ws"
        "\<forall>w \<in> fst ` set ws. capped s' w \<or> (owner, w) \<in> set (trust_demotion_remainders s')"
        "over \<longrightarrow> 0 \<le> remaining \<longrightarrow> demotion_costs owner ws s' \<le> remaining" by metis
    have q: "set (trust_demotion_remainders ?t) = insert (owner, w) (set (trust_demotion_remainders s))" by simp
    have in': "(owner, w) \<in> set (trust_demotion_remainders s')" using s'(3) q by blast
    show thesis
    proof (rule Cons.prems(1) [of s'])
      show "demote_loop now owner over (x # ws) remaining s = (Inr (), s')" using s'(1) queued by (simp add: x Let_def)
      show "demotes s s'" by (rule demotes_trans [OF t s'(2)])
      show "set (trust_demotion_remainders s) \<subseteq> set (trust_demotion_remainders s')" using s'(3) q by blast
      show "set (trust_demotion_remainders s') \<subseteq> set (trust_demotion_remainders s) \<union> {owner} \<times> fst ` set (x # ws)"
        using s'(4) q by (auto simp: x)
      show "\<forall>w \<in> fst ` set (x # ws). capped s' w \<or> (owner, w) \<in> set (trust_demotion_remainders s')" using s'(5) in' by (auto simp: x)
      show "over \<longrightarrow> 0 \<le> remaining \<longrightarrow> demotion_costs owner (x # ws) s' \<le> remaining"
        using s'(6) in' by (simp add: x demotion_costs_def)
    qed
  next
    case now
    obtain t where t: "demote_workspace now w n s = (Inr (), t)" "demotes s t" "capped t w"
        "trust_demotion_remainders t = trust_demotion_remainders s"
      by (rule demote_workspace_ok [OF a(3,1), where now = now]) (simp add: a(2))
    have "\<forall>(w, n) \<in> set ws. rows_ready t w \<and> map_option ca_shard_count (dget (credits t) w) = Some n"
      using Cons.prems(2) demotes_ready [OF t(2)] demotes_fields [OF t(2)] by auto
    from Cons.IH [OF _ this, of "remaining - ?cost"] obtain s' where s': "demote_loop now owner over ws (remaining - ?cost) t = (Inr (), s')"
        "demotes t s'" "set (trust_demotion_remainders t) \<subseteq> set (trust_demotion_remainders s')"
        "set (trust_demotion_remainders s') \<subseteq> set (trust_demotion_remainders t) \<union> {owner} \<times> fst ` set ws"
        "\<forall>w \<in> fst ` set ws. capped s' w \<or> (owner, w) \<in> set (trust_demotion_remainders s')"
        "over \<longrightarrow> 0 \<le> remaining - ?cost \<longrightarrow> demotion_costs owner ws s' \<le> remaining - ?cost" by metis
    have step: "demote_loop now owner over (x # ws) remaining s = (Inr (), s')" using now t(1) s'(1) by (auto simp: x Let_def)
    have cost: "demotion_costs owner (x # ws) s' \<le> remaining" if "over" "0 \<le> remaining"
      using s'(6) now that by (auto simp: x demotion_costs_def TRUST_REPLICATED_COLUMN_COUNT_def)
    show thesis
      by (rule Cons.prems(1) [OF step])
        (use s' t(3,4) demotes_trans [OF t(2) s'(2)] demotes_capped [OF s'(2)] cost in \<open>auto simp: x\<close>)
  qed
qed

lemma shard_counts_ready:
  assumes "\<forall>w \<in> set ws. rows_ready s w"
  obtains cs where "shard_counts (credits s) ws = Inr cs" "length cs = length ws"
    "\<forall>(w, n) \<in> set (zip ws cs). rows_ready s w \<and> map_option ca_shard_count (dget (credits s) w) = Some n"
  using assms
proof (induction ws arbitrary: thesis)
  case (Cons w ws)
  obtain cs where cs: "shard_counts (credits s) ws = Inr cs" "length cs = length ws"
      "\<forall>(w, n) \<in> set (zip ws cs). rows_ready s w \<and> map_option ca_shard_count (dget (credits s) w) = Some n"
    using Cons.IH Cons.prems(2) by auto
  obtain a where "dget (credits s) w = Some a" using Cons.prems(2) by (auto simp: rows_ready_def split: option.splits)
  then show ?case using cs Cons.prems by (intro Cons.prems(1) [of "ca_shard_count a # cs"]) auto
qed simp

lemma demotion_costs_le: "demotion_costs owner ws s \<le> int (sum_list (map snd ws)) * TRUST_REPLICATED_COLUMN_COUNT"
  by (induction ws) (auto simp: demotion_costs_def TRUST_REPLICATED_COLUMN_COUNT_def)

lemma demote_owner_ok:
  assumes "\<forall>w \<in> set (owned_by owner s). rows_ready s w"
  obtains s' ws where "demote_owner now owner s = (Inr (), s')" "demotes s s'" "fst ` set ws = set (owned_by owner s)"
    "\<forall>(w, n) \<in> set ws. map_option ca_shard_count (dget (credits s) w) = Some n" "distinct (map fst ws)"
    "set (trust_demotion_remainders s') \<subseteq> set (trust_demotion_remainders s) \<union> {owner} \<times> set (owned_by owner s)"
    "\<forall>w \<in> set (owned_by owner s). capped s' w \<or> (owner, w) \<in> set (trust_demotion_remainders s')"
    "demotion_costs owner ws s' \<le> TRUST_OWNER_MUTATION_BUDGET"
proof -
  let ?ids = "sorted_set (owned_by owner s)"
  obtain cs where cs: "shard_counts (credits s) ?ids = Inr cs" "length cs = length ?ids"
      "\<forall>(w, n) \<in> set (zip ?ids cs). rows_ready s w \<and> map_option ca_shard_count (dget (credits s) w) = Some n"
    by (rule shard_counts_ready [of ?ids s]) (use assms in auto)
  let ?over = "int (sum_list cs) * TRUST_REPLICATED_COLUMN_COUNT > TRUST_OWNER_MUTATION_BUDGET"
  have fst_zip: "map fst (zip ?ids cs) = ?ids" "map snd (zip ?ids cs) = cs" using cs(2) by simp_all
  then have names: "fst ` set (zip ?ids cs) = set (owned_by owner s)" by (metis set_map set_sorted_set)
  obtain s' where s': "demote_loop now owner ?over (zip ?ids cs) TRUST_OWNER_MUTATION_BUDGET s = (Inr (), s')" "demotes s s'"
    "set (trust_demotion_remainders s) \<subseteq> set (trust_demotion_remainders s')"
    "set (trust_demotion_remainders s') \<subseteq> set (trust_demotion_remainders s) \<union> {owner} \<times> fst ` set (zip ?ids cs)"
    "\<forall>w \<in> fst ` set (zip ?ids cs). capped s' w \<or> (owner, w) \<in> set (trust_demotion_remainders s')"
    "?over \<longrightarrow> 0 \<le> TRUST_OWNER_MUTATION_BUDGET \<longrightarrow> demotion_costs owner (zip ?ids cs) s' \<le> TRUST_OWNER_MUTATION_BUDGET"
    by (rule demote_loop_ok [OF cs(3), where now = now and owner = owner and over = ?over and remaining = TRUST_OWNER_MUTATION_BUDGET])
  have "demotion_costs owner (zip ?ids cs) s' \<le> TRUST_OWNER_MUTATION_BUDGET"
    using s'(6) demotion_costs_le [of owner "zip ?ids cs" s'] unfolding fst_zip(2)
    by (cases ?over) (auto simp: TRUST_OWNER_MUTATION_BUDGET_def)
  moreover have "distinct (map fst (zip ?ids cs))" unfolding fst_zip by (simp add: sorted_set_def)
  moreover have "\<forall>(w, n) \<in> set (zip ?ids cs). map_option ca_shard_count (dget (credits s) w) = Some n" using cs(3) by auto
  ultimately show thesis
    using that [of s' "zip ?ids cs"] s'(1,2,4,5) names cs(1) by (simp add: demote_owner_def)
qed

lemma process_remainders_ok:
  assumes "\<forall>(o', w) \<in> set xs. dget (credits s) w \<noteq> None \<longrightarrow> rows_ready s w"
  obtains n s' where "process_remainders now xs c s = (Inr n, s')" "demotes s s'" "\<forall>(o', w) \<in> set xs. capped s' w"
    "trust_demotion_remainders s' = filter (\<lambda>x. x \<notin> set xs) (trust_demotion_remainders s)"
  using assms
proof (induction xs arbitrary: s c thesis)
  case Nil
  then show thesis using demotes_refl by (auto simp: filter_True)
next
  case (Cons x xs)
  obtain owner w where x: "x = (owner, w)" by fastforce
  define tail where "tail t = t\<lparr>trust_demotion_remainders := filter (\<lambda>y. y \<noteq> (owner, w)) (trust_demotion_remainders t)\<rparr>" for t :: store
  obtain t where t: "process_remainders now (x # xs) c s = process_remainders now xs (c + 1) (tail t)" "demotes s t" "capped t w"
      "trust_demotion_remainders t = trust_demotion_remainders s"
  proof (cases "dget (credits s) w")
    case None
    then show thesis using that [of s] demotes_refl by (simp add: x tail_def Let_def capped_def)
  next
    case (Some a)
    have "rows_ready s w" using Cons.prems(2) Some by (auto simp: x)
    then obtain t where "demote_workspace now w (ca_shard_count a) s = (Inr (), t)" "demotes s t" "capped t w"
        "trust_demotion_remainders t = trust_demotion_remainders s"
      by (rule demote_workspace_ok [OF _ Some])
    moreover from this(1) have "process_remainders now (x # xs) c s = process_remainders now xs (c + 1) (tail t)"
      using Some by (simp add: x tail_def Let_def)
    ultimately show thesis using that by blast
  qed
  have d: "demotes s (tail t)" unfolding tail_def by (rule demotes_trans [OF t(2) queue_demotes])
  have ready: "\<forall>(o', w) \<in> set xs. dget (credits (tail t)) w \<noteq> None \<longrightarrow> rows_ready (tail t) w"
    using Cons.prems(2) demotes_ready [OF d] demotes_fields(2) [OF d] by auto
  obtain n s' where s': "process_remainders now xs (c + 1) (tail t) = (Inr n, s')" "demotes (tail t) s'"
      "\<forall>(o', w) \<in> set xs. capped s' w"
      "trust_demotion_remainders s' = filter (\<lambda>x. x \<notin> set xs) (trust_demotion_remainders (tail t))"
    by (rule Cons.IH [OF _ ready, where c = "c + 1"])
  have "capped (tail t) w" unfolding tail_def by (rule demotes_capped [OF queue_demotes t(3)])
  then have "capped s' w" by (rule demotes_capped [OF s'(2)])
  moreover have "trust_demotion_remainders s' = filter (\<lambda>y. y \<notin> set (x # xs)) (trust_demotion_remainders s)"
    using s'(4) t(4) by (simp add: tail_def x conj_commute)
  ultimately show ?case using Cons.prems(1) t(1) s' demotes_trans [OF d s'(2)] by (auto simp: x)
qed

subsection \<open>Usernames\<close>

lemma validate_username_Inr:
  "validate_creator_username v = Inr n \<Longrightarrow> n = normalize_creator_username v \<and> n \<noteq> []"
  by (auto simp: validate_creator_username_def creator_username_pattern_def Let_def split: if_splits)

text \<open>The index of usernames is the inverse of the users' usernames.\<close>

definition name_of :: "store \<Rightarrow> string \<Rightarrow> string option" where
  "name_of s uid = (case dget (users s) uid of None \<Rightarrow> None | Some u \<Rightarrow> us_username u)"

definition usernames_ok :: "store \<Rightarrow> bool" where
  "usernames_ok s \<longleftrightarrow> (\<forall>n uid. dget (user_ids_by_username s) n = Some uid \<longleftrightarrow> name_of s uid = Some n) \<and>
     (\<forall>uid. name_of s uid \<noteq> Some [])"

datatype identity_call =
    ClaimUsername string string
  | IdentityStatus instant string identity_decision
  | VeriffDecision instant string string string identity_decision
  | GithubIdentity string string "string option"
  | PhoneCall "string \<Rightarrow> string \<Rightarrow> string" phone_call

fun identity_step :: "identity_call \<Rightarrow> store \<Rightarrow> store" where
  "identity_step (ClaimUsername uid name) s = snd (claim_user_username uid name s)"
| "identity_step (IdentityStatus now uid d) s = snd (set_user_identity_status now uid d s)"
| "identity_step (VeriffDecision now uid event session d) s = snd (apply_veriff_identity_decision now uid event session d s)"
| "identity_step (GithubIdentity uid login created) s = snd (set_user_github_identity uid login created s)"
| "identity_step (PhoneCall h c) s = phone_step h c s"

lemma for_shards_users: "for_shards w f js s = (r, s') \<Longrightarrow> users s' = users s \<and> user_ids_by_username s' = user_ids_by_username s"
  using for_shards_frame by fastforce

lemma demote_loop_users:
  "demote_loop now owner over ws remaining s = (r, s') \<Longrightarrow> users s' = users s \<and> user_ids_by_username s' = user_ids_by_username s"
proof (induction now owner over ws remaining s rule: demote_loop.induct)
  case (2 now owner over w n ws remaining s)
  show ?case
  proof (cases "over \<and> int n * TRUST_REPLICATED_COLUMN_COUNT > remaining")
    case True
    then show ?thesis using 2 by (simp add: Let_def)
  next
    case False
    obtain r1 s1 where s1: "demote_workspace now w n s = (r1, s1)" by fastforce
    have f: "users s1 = users s \<and> user_ids_by_username s1 = user_ids_by_username s"
      using s1 unfolding demote_workspace_def by (rule for_shards_users)
    show ?thesis using "2.prems" "2.IH"(2) [OF refl False s1 [symmetric]] False s1 f by (cases r1) (auto simp: Let_def)
  qed
qed simp

lemma demote_owner_users: "demote_owner now owner s = (r, s') \<Longrightarrow> users s' = users s \<and> user_ids_by_username s' = user_ids_by_username s"
  by (auto simp: demote_owner_def Let_def split: sum.splits dest: demote_loop_users)

lemma decide_identity_username [simp]: "us_username (decide_identity now d u) = us_username u"
  by (simp add: decide_identity_def Let_def)

lemma name_of_users [simp]:
  "name_of (s\<lparr>users := dset uid u (users s)\<rparr>) v = (if v = uid then us_username u else name_of s v)"
  "name_of (s\<lparr>webhook_events := x\<rparr>) v = name_of s v"
  by (simp_all add: name_of_def)

lemma set_identity_names:
  "set_user_identity_status now uid d s = (r, s') \<Longrightarrow> name_of s' = name_of s \<and> user_ids_by_username s' = user_ids_by_username s"
proof -
  assume run: "set_user_identity_status now uid d s = (r, s')"
  show ?thesis
  proof (cases "dget (users s) uid")
    case (Some u)
    let ?t = "s\<lparr>users := dset uid (decide_identity now d u) (users s)\<rparr>"
    have t: "name_of ?t = name_of s" using Some by (auto simp: fun_eq_iff name_of_def)
    have "users s' = users ?t \<and> user_ids_by_username s' = user_ids_by_username ?t"
      using run Some by (auto simp: set_user_identity_status_def Let_def split: if_splits prod.splits sum.splits dest!: demote_owner_users)
    then show ?thesis using t by (simp add: name_of_def fun_eq_iff)
  qed (use run in \<open>simp add: set_user_identity_status_def\<close>)
qed

lemma user_call_username: "us_username (user_call h c u) = us_username u"
  by (cases c) (auto simp: phone_begin_def Let_def cancel_pending_def phone_clear_def clear_pending_def phone_confirm_def promote_pending_def
      split: sum.splits option.splits if_splits)

lemma phone_step_names: "name_of (phone_step h c s) = name_of s" "user_ids_by_username (phone_step h c s) = user_ids_by_username s"
proof -
  show "name_of (phone_step h c s) = name_of s"
    by (auto simp: fun_eq_iff name_of_def phone_step_user user_call_username split: option.splits)
  show "user_ids_by_username (phone_step h c s) = user_ids_by_username s"
    by (cases c) (auto simp: begin_phone_verification_def confirm_phone_verification_def cancel_phone_verification_def
      set_user_phone_last_refused_def clear_user_phone_def change_user_def split: option.splits sum.splits)
qed

lemma identity_step_names:
  assumes "\<And>uid name. c \<noteq> ClaimUsername uid name"
  shows "name_of (identity_step c s) = name_of s \<and> user_ids_by_username (identity_step c s) = user_ids_by_username s"
proof (cases c)
  case (IdentityStatus now uid d)
  then show ?thesis using set_identity_names [of now uid d s] by (metis identity_step.simps(2) prod.collapse)
next
  case (VeriffDecision now uid event session d)
  let ?t = "s\<lparr>webhook_events := insert (''veriff'', event) (webhook_events s)\<rparr>"
  have "name_of ?t = name_of s" by (simp add: fun_eq_iff)
  then show ?thesis
    using VeriffDecision
    by (auto simp: apply_veriff_identity_decision_def Let_def split: option.splits prod.splits sum.splits dest!: set_identity_names)
next
  case (GithubIdentity uid login created)
  then show ?thesis
    by (auto simp: set_user_github_identity_def change_user_def name_of_def fun_eq_iff split: option.splits)
next
  case (PhoneCall h call)
  then show ?thesis by (simp add: phone_step_names)
qed (use assms in auto)

lemma claim_names:
  assumes "usernames_ok s"
  shows "usernames_ok (snd (claim_user_username uid name s))"
    "name_of s v = Some n \<Longrightarrow> name_of (snd (claim_user_username uid name s)) v = Some n"
proof -
  have "usernames_ok (snd (claim_user_username uid name s)) \<and> (name_of s v = Some n \<longrightarrow> name_of (snd (claim_user_username uid name s)) v = Some n)"
  proof (cases "snd (claim_user_username uid name s) = s")
    case False
    then obtain m u where m: "validate_creator_username name = Inr m" "dget (users s) uid = Some u" "ostr (us_username u) = []"
        "dget (user_ids_by_username s) m = None \<or> dget (user_ids_by_username s) m = Some uid"
      and s': "snd (claim_user_username uid name s) = s\<lparr>users := dset uid (u\<lparr>us_username := Some m\<rparr>) (users s),
          user_ids_by_username := dset m uid (user_ids_by_username s)\<rparr>"
      by (auto simp: claim_user_username_def Let_def split: sum.splits option.splits if_splits)
    let ?s' = "snd (claim_user_username uid name s)"
    have none: "name_of s uid = None"
      using assms m(2,3) by (auto simp: usernames_ok_def name_of_def ostr_def split: option.splits)
    have free: "dget (user_ids_by_username s) m = None" using m(4) none assms by (auto simp: usernames_ok_def)
    then have unused: "name_of s v \<noteq> Some m" for v using assms unfolding usernames_ok_def by (metis option.distinct(1))
    have names: "name_of ?s' v = (if v = uid then Some m else name_of s v)" for v by (simp add: s' name_of_def)
    have "usernames_ok ?s'"
      unfolding usernames_ok_def names using assms none free unused validate_username_Inr [OF m(1)]
      by (auto simp: usernames_ok_def s')
    then show ?thesis using names none by auto
  qed (use assms in simp)
  then show "usernames_ok (snd (claim_user_username uid name s))"
    "name_of s v = Some n \<Longrightarrow> name_of (snd (claim_user_username uid name s)) v = Some n" by blast+
qed

lemma identity_step_ok:
  assumes "usernames_ok s"
  shows "usernames_ok (identity_step c s)" "name_of s v = Some n \<Longrightarrow> name_of (identity_step c s) v = Some n"
proof -
  have "usernames_ok (identity_step c s) \<and> (name_of s v = Some n \<longrightarrow> name_of (identity_step c s) v = Some n)"
  proof (cases "\<exists>uid name. c = ClaimUsername uid name")
    case True
    then show ?thesis using claim_names [OF assms] by auto
  next
    case False
    then show ?thesis using identity_step_names [of c s] assms by (auto simp: usernames_ok_def)
  qed
  then show "usernames_ok (identity_step c s)" "name_of s v = Some n \<Longrightarrow> name_of (identity_step c s) v = Some n" by blast+
qed

lemma identity_run_ok:
  assumes "usernames_ok s"
  shows "usernames_ok (fold identity_step cs s) \<and> (name_of s v = Some n \<longrightarrow> name_of (fold identity_step cs s) v = Some n)"
  using assms by (induction cs arbitrary: s) (auto simp: identity_step_ok)

section \<open>Properties\<close>

text \<open>C32. Losing an approved identity takes the owner's trust away.  When a status change ends an approved identity, on
  a store whose workspaces have their trust rows: the change is stored, no trust tier rises and nothing
  but trust rows and the queue changes besides; every workspace of the owner is capped at tier 1 (unless
  an operator's override lets it bypass identity) or queued; the rows rewritten at once stay within the
  mutation budget; and one later pass of the queue, with a limit of at least its length, empties it and
  leaves every workspace of the owner capped.\<close>

theorem identity_loss_demotes_owner:
  assumes "dget (users s) uid = Some u" "us_identity_status u = ''approved''" "coerce_identity_status (dn_status d) \<noteq> APPROVED"
    and "\<forall>w \<in> set (owned_by uid s). rows_ready s w"
    and "\<forall>(o', w) \<in> set (trust_demotion_remainders s). dget (credits s) w \<noteq> None \<longrightarrow> rows_ready s w"
  shows "\<exists>s1 ws. set_user_identity_status now uid d s = (Inr (Some (decide_identity now d u)), s1) \<and>
    demotes (s\<lparr>users := dset uid (decide_identity now d u) (users s)\<rparr>) s1 \<and>
    (\<forall>w \<in> set (owned_by uid s). capped s1 w \<or> (uid, w) \<in> set (trust_demotion_remainders s1)) \<and>
    set (map fst ws) = set (owned_by uid s) \<and> (\<forall>(w, n) \<in> set ws. map_option ca_shard_count (dget (credits s) w) = Some n) \<and>
    demotion_costs uid ws s1 \<le> TRUST_OWNER_MUTATION_BUDGET \<and>
    (\<forall>later limit. int (length (trust_demotion_remainders s1)) \<le> limit \<longrightarrow>
      (\<exists>n s2. process_trust_demotion_remainders later limit s1 = (Inr n, s2) \<and> trust_demotion_remainders s2 = [] \<and>
         (\<forall>w \<in> set (owned_by uid s). capped s2 w)))"
proof -
  let ?t = "s\<lparr>users := dset uid (decide_identity now d u) (users s)\<rparr>"
  have same: "owned_by uid ?t = owned_by uid s" "rows_ready ?t = rows_ready s" by (auto simp: owned_by_def rows_ready_def fun_eq_iff split: option.split)
  obtain s1 ws where s1: "demote_owner now uid ?t = (Inr (), s1)" "demotes ?t s1" "fst ` set ws = set (owned_by uid s)"
    "\<forall>(w, n) \<in> set ws. map_option ca_shard_count (dget (credits ?t) w) = Some n" "distinct (map fst ws)"
    "set (trust_demotion_remainders s1) \<subseteq> set (trust_demotion_remainders ?t) \<union> {uid} \<times> set (owned_by uid s)"
    "\<forall>w \<in> set (owned_by uid s). capped s1 w \<or> (uid, w) \<in> set (trust_demotion_remainders s1)"
    "demotion_costs uid ws s1 \<le> TRUST_OWNER_MUTATION_BUDGET"
    by (rule demote_owner_ok [of uid ?t now, unfolded same, OF assms(4)])
  have "\<exists>n s2. process_trust_demotion_remainders later limit s1 = (Inr n, s2) \<and> trust_demotion_remainders s2 = [] \<and>
         (\<forall>w \<in> set (owned_by uid s). capped s2 w)" if "int (length (trust_demotion_remainders s1)) \<le> limit" for later limit
  proof -
    let ?q = "slice_to limit (sort (trust_demotion_remainders s1))"
    have q: "set ?q = set (trust_demotion_remainders s1)" using that by (simp add: slice_to_def)
    have "rows_ready s1 w" if "(o', w) \<in> set ?q" "dget (credits s1) w \<noteq> None" for o' w
    proof -
      have "(o', w) \<in> set (trust_demotion_remainders s) \<or> w \<in> set (owned_by uid s)" using that(1) s1(6) unfolding q by auto
      then have "rows_ready s w" using assms(4,5) that(2) demotes_fields(2) [OF s1(2)] by auto
      then show ?thesis using demotes_ready [OF s1(2)] by (simp add: same(2))
    qed
    then have "\<forall>(o', w) \<in> set ?q. dget (credits s1) w \<noteq> None \<longrightarrow> rows_ready s1 w" by blast
    then obtain n s2 where s2: "process_remainders later ?q 0 s1 = (Inr n, s2)" "demotes s1 s2" "\<forall>(o', w) \<in> set ?q. capped s2 w"
        "trust_demotion_remainders s2 = filter (\<lambda>x. x \<notin> set ?q) (trust_demotion_remainders s1)"
      by (rule process_remainders_ok)
    have "\<forall>w \<in> set (owned_by uid s). capped s2 w"
      using s1(7) s2(3) demotes_capped [OF s2(2)] unfolding q by auto
    moreover have "trust_demotion_remainders s2 = []" unfolding s2(4) q by simp
    ultimately show ?thesis using s2(1) by (auto simp: process_trust_demotion_remainders_def)
  qed
  moreover have "set_user_identity_status now uid d s = (Inr (Some (decide_identity now d u)), s1)"
    using assms(1-3) s1(1) by (simp add: set_user_identity_status_def Let_def)
  ultimately show ?thesis using s1 by (intro exI [of _ s1] exI [of _ ws] conjI) simp_all
qed

definition demo_declined :: identity_decision where
  "demo_declined = \<lparr>dn_status = '' Declined'', dn_session_id = None, dn_session_url = None, dn_code = Some 9102, dn_reason = None,
     dn_reason_code = None, dn_verified_name = None, dn_increment_attempts = False\<rparr>"

definition demo_owner :: user where
  "demo_owner = (new_user ''u'' (Some ''a@b.c'') True None 0)\<lparr>us_identity_status := ''approved''\<rparr>"

definition demo_owner_store :: store where
  "demo_owner_store = (init_store True)\<lparr>users := [(''u'', demo_owner)], owner_workspaces := [(''u'', ''w'')],
     credits := [(''w'', new_credit_account ''w'')], credit_trust_shards := [((''w'', 0), new_trust_shard\<lparr>sh_trust_tier := 3\<rparr>)]\<rparr>"

theorem identity_loss_demotes_owner_witness:
  "\<exists>s1 s2 n. set_user_identity_status 5 ''u'' demo_declined demo_owner_store = (Inr (Some (decide_identity 5 demo_declined demo_owner)), s1) \<and>
     process_trust_demotion_remainders 9 25 s1 = (Inr n, s2) \<and> trust_demotion_remainders s2 = [] \<and> capped s2 ''w''"
proof -
  have u: "dget (users demo_owner_store) ''u'' = Some demo_owner" "us_identity_status demo_owner = ''approved''"
    "coerce_identity_status (dn_status demo_declined) \<noteq> APPROVED" by code_simp+
  have owned: "owned_by ''u'' demo_owner_store = [''w'']" by (simp add: owned_by_def demo_owner_store_def)
  have ready: "\<forall>w \<in> set (owned_by ''u'' demo_owner_store). rows_ready demo_owner_store w"
    "\<forall>(o', w) \<in> set (trust_demotion_remainders demo_owner_store). dget (credits demo_owner_store) w \<noteq> None \<longrightarrow> rows_ready demo_owner_store w"
    by (simp_all add: owned rows_ready_def) (simp_all add: demo_owner_store_def new_credit_account_def init_store_def)
  obtain s1 where s1: "set_user_identity_status 5 ''u'' demo_declined demo_owner_store = (Inr (Some (decide_identity 5 demo_declined demo_owner)), s1)"
    and later: "\<And>later limit. int (length (trust_demotion_remainders s1)) \<le> limit \<Longrightarrow>
      (\<exists>n s2. process_trust_demotion_remainders later limit s1 = (Inr n, s2) \<and> trust_demotion_remainders s2 = [] \<and>
         (\<forall>w \<in> set (owned_by ''u'' demo_owner_store). capped s2 w))"
    using identity_loss_demotes_owner [OF u ready, of 5] by blast
  have "length (trust_demotion_remainders (snd (set_user_identity_status 5 ''u'' demo_declined demo_owner_store))) = 0"
    by code_simp
  then have "int (length (trust_demotion_remainders s1)) \<le> 25" unfolding s1 by simp
  from later [OF this, of 9] show ?thesis using s1 unfolding owned by auto
qed

text \<open>A creator username belongs to one user for good.  Over any sequence of username claims, identity decisions,
  profile changes and phone calls: the index stays the inverse of the users' names, a name once claimed
  is never changed or released, no two users have the same one, and looking up any spelling that
  normalizes to it finds its user.\<close>

theorem usernames_unique_immutable:
  fixes s :: store and cs :: "identity_call list"
  assumes "usernames_ok s"
  defines "s' \<equiv> fold identity_step cs s"
  shows "usernames_ok s' \<and> (\<forall>uid n. name_of s uid = Some n \<longrightarrow> name_of s' uid = Some n) \<and>
    (\<forall>a b n. name_of s' a = Some n \<and> name_of s' b = Some n \<longrightarrow> a = b) \<and>
    (\<forall>uid n spelling. name_of s' uid = Some n \<and> validate_creator_username spelling = Inr n \<longrightarrow>
      find_user_by_username spelling fallback s' = dget (users s') uid \<and> dget (users s') uid \<noteq> None)"
proof -
  have run: "usernames_ok s'" "\<And>uid n. name_of s uid = Some n \<Longrightarrow> name_of s' uid = Some n"
    using identity_run_ok [OF assms(1)] unfolding s'_def by blast+
  moreover from run(1) have idx: "dget (user_ids_by_username s') n = Some a" if "name_of s' a = Some n" for a n
    using that by (simp add: usernames_ok_def)
  moreover have "a = b" if "name_of s' a = Some n" "name_of s' b = Some n" for a b n
    using idx [OF that(1)] idx [OF that(2)] by simp
  moreover have "dget (users s') uid \<noteq> None" if "name_of s' uid = Some n" for uid n
    using that by (auto simp: name_of_def split: option.splits)
  ultimately show ?thesis by (auto simp: find_user_by_username_def)
qed

theorem usernames_unique_immutable_witness:
  "\<exists>s'. s' = fold identity_step [ClaimUsername ''u'' '' Ada-L '', ClaimUsername ''v'' ''ada-l'', ClaimUsername ''u'' ''other'']
      ((init_store True)\<lparr>users := [(''u'', new_user ''u'' None False None 0), (''v'', new_user ''v'' None False None 0)]\<rparr>) \<and>
     map (name_of s') [''u'', ''v''] = [Some ''ada-l'', None] \<and>
     find_user_by_username ''ADA-L'' [] s' = dget (users s') ''u''"
proof -
  define s where "s = (init_store True)\<lparr>users := [(''u'', new_user ''u'' None False None 0), (''v'', new_user ''v'' None False None 0)]\<rparr>"
  define s' where "s' = fold identity_step [ClaimUsername ''u'' '' Ada-L '', ClaimUsername ''v'' ''ada-l'', ClaimUsername ''u'' ''other''] s"
  have "usernames_ok s" by (auto simp: usernames_ok_def s_def name_of_def init_store_def new_user_def)
  from usernames_unique_immutable [OF this, where cs = "[ClaimUsername ''u'' '' Ada-L '', ClaimUsername ''v'' ''ada-l'', ClaimUsername ''u'' ''other'']"
      and fallback = "[]"]
  have find: "find_user_by_username ''ADA-L'' [] s' = dget (users s') ''u''"
    if "name_of s' ''u'' = Some ''ada-l''" "validate_creator_username ''ADA-L'' = Inr ''ada-l''"
    using that unfolding s'_def by blast
  have names: "map (name_of s') [''u'', ''v''] = [Some ''ada-l'', None]" unfolding s'_def s_def by code_simp
  moreover have "validate_creator_username ''ADA-L'' = Inr ''ada-l''" by code_simp
  ultimately show ?thesis using find s'_def s_def by auto
qed

end
