(* ===== verification/Creator_Models.thy ===== *)
theory Creator_Models
  imports Identity Pricing
begin

text \<open>
  Models that users publish: prompt wrappers over a catalog model (\<open>storage_custom_models.py\<close>), models
  served from a user's own endpoint (\<open>storage_user_models.py\<close>) with their concurrency slots, the methods
  of the store that combine the two tables (\<open>storage.py\<close>, lines 1704 to 1915), and the markup
  arithmetic of \<open>custom_model_markup_billing.py\<close>.

  The random suffixes of a generated id are an argument, the list of draws; \<open>time.monotonic\<close> and
  \<open>iso_now\<close> are the argument \<open>now\<close>.  Encrypted secrets are opaque text.  A patch is a record with one
  optional value per key.
\<close>

section \<open>Markup on wrapped models\<close>

definition MAX_CUSTOM_MODEL_MARKUP_BASIS_POINTS :: int where
  "MAX_CUSTOM_MODEL_MARKUP_BASIS_POINTS = 30000"

definition validate_custom_model_markup_basis_points :: "int \<Rightarrow> int result" where
  "validate_custom_model_markup_basis_points v =
     (if \<not> (0 \<le> v \<and> v \<le> MAX_CUSTOM_MODEL_MARKUP_BASIS_POINTS) then Inl (ValueError ''custom_model_markup_out_of_bounds'') else Inr v)"

definition custom_model_markup_microdollars :: "int \<Rightarrow> int \<Rightarrow> microdollars" where
  "custom_model_markup_microdollars token_cost basis_points = app_markup_microdollars token_cost basis_points"

definition custom_model_markup_microdollars_from_charge :: "int \<Rightarrow> int \<Rightarrow> microdollars result" where
  "custom_model_markup_microdollars_from_charge charge basis_points = app_markup_microdollars_from_charge charge basis_points"

definition collected_custom_model_markup_microdollars :: "int \<Rightarrow> int \<Rightarrow> int \<Rightarrow> int \<Rightarrow> microdollars result" where
  "collected_custom_model_markup_microdollars final_charge custom_basis_points app_basis_points additional_cost =
     (if custom_basis_points \<le> 0 then Inr 0
      else case (if app_basis_points > 0 then app_markup_microdollars_from_charge final_charge app_basis_points else Inr 0) of
          Inl e \<Rightarrow> Inl e
        | Inr app_markup \<Rightarrow>
            custom_model_markup_microdollars_from_charge (max 0 (final_charge - app_markup - max 0 additional_cost)) custom_basis_points)"

definition custom_model_markup_owner_share_microdollars :: "int \<Rightarrow> microdollars" where
  "custom_model_markup_owner_share_microdollars markup = markup * CUSTOM_MODEL_OWNER_SHARE_BASIS_POINTS div 10000"

section \<open>Model ids\<close>

definition CUSTOM_MODEL_PREFIX :: string where
  "CUSTOM_MODEL_PREFIX = ''tr-custom-model/''"

definition USER_PROVIDED_MODEL_PREFIX :: string where
  "USER_PROVIDED_MODEL_PREFIX = ''tr-user-model/''"

definition CUSTOM_MODEL_LIMIT_PER_USER :: nat where
  "CUSTOM_MODEL_LIMIT_PER_USER = 10"

definition USER_PROVIDED_MODEL_LIMIT_PER_USER :: nat where
  "USER_PROVIDED_MODEL_LIMIT_PER_USER = 3"

text \<open>\<open>^[a-z0-9](?:[a-z0-9-]{1,62}[a-z0-9])?$\<close>: one character, or three to sixty-four.\<close>

definition model_slug_pattern :: "string \<Rightarrow> bool" where
  "model_slug_pattern s \<longleftrightarrow> (length s = 1 \<or> 3 \<le> length s \<and> length s \<le> 64) \<and> lower_alnum (hd s) \<and> lower_alnum (last s) \<and>
     list_all (\<lambda>c. lower_alnum c \<or> c = CHR ''-'') s"

definition normalize_model_id :: "string \<Rightarrow> string" where
  "normalize_model_id i = py_lower (py_strip i)"

definition validate_model_slug :: "string \<Rightarrow> string result" where
  "validate_model_slug slug =
     (let value = py_lower (py_strip slug)
      in if \<not> model_slug_pattern value then Inl (ValueError ''invalid_custom_model_slug'') else Inr value)"

definition model_id_from_slug :: "string \<Rightarrow> string \<Rightarrow> string \<Rightarrow> string result" where
  "model_id_from_slug prefix slug username =
     (case validate_model_slug slug of Inl e \<Rightarrow> Inl e | Inr value \<Rightarrow> Inr (prefix @ username @ ''-'' @ value))"

definition model_slug :: "string \<Rightarrow> string \<Rightarrow> string \<Rightarrow> string \<Rightarrow> string result" where
  "model_slug error prefix i username =
     (let value = normalize_model_id i; p = prefix @ username @ ''-''
      in if \<not> startswith p value then Inl (ValueError error) else Inr (drop (length p) value))"

definition custom_model_id_from_slug :: "string \<Rightarrow> string \<Rightarrow> string result" where
  "custom_model_id_from_slug = model_id_from_slug CUSTOM_MODEL_PREFIX"

definition custom_model_slug :: "string \<Rightarrow> string \<Rightarrow> string result" where
  "custom_model_slug = model_slug ''invalid_custom_model_id'' CUSTOM_MODEL_PREFIX"

definition user_provided_model_id_from_slug :: "string \<Rightarrow> string \<Rightarrow> string result" where
  "user_provided_model_id_from_slug = model_id_from_slug USER_PROVIDED_MODEL_PREFIX"

definition user_provided_model_slug :: "string \<Rightarrow> string \<Rightarrow> string result" where
  "user_provided_model_slug = model_slug ''invalid_user_model_id'' USER_PROVIDED_MODEL_PREFIX"

definition is_custom_model_id :: "string option \<Rightarrow> bool" where
  "is_custom_model_id i \<longleftrightarrow> ostr i \<noteq> [] \<and> startswith CUSTOM_MODEL_PREFIX (normalize_model_id (ostr i))"

definition is_user_provided_model_id :: "string option \<Rightarrow> bool" where
  "is_user_provided_model_id i \<longleftrightarrow> ostr i \<noteq> [] \<and> startswith USER_PROVIDED_MODEL_PREFIX (normalize_model_id (ostr i))"

definition is_creator_model_id :: "string option \<Rightarrow> bool" where
  "is_creator_model_id i \<longleftrightarrow> is_custom_model_id i \<or> is_user_provided_model_id i"

text \<open>\<open>_new_id_locked\<close>: the first of at most a hundred draws whose id is free.\<close>

fun new_model_id :: "(string \<Rightarrow> string result) \<Rightarrow> (string \<Rightarrow> bool) \<Rightarrow> string list \<Rightarrow> string result" where
  "new_model_id mk taken [] = Inl (RuntimeError ''could not allocate custom model id'')"
| "new_model_id mk taken (suffix # draws) =
     (case mk suffix of Inl e \<Rightarrow> Inl e | Inr i \<Rightarrow> if \<not> taken i then Inr i else new_model_id mk taken draws)"

text \<open>The id of a model to create: the requested slug's, or a new one.\<close>

definition pick_model_id :: "(string \<Rightarrow> string result) \<Rightarrow> (string \<Rightarrow> bool) \<Rightarrow> string option \<Rightarrow> string list \<Rightarrow> string result" where
  "pick_model_id mk taken slug draws = (case slug of None \<Rightarrow> new_model_id mk taken (take 100 draws) | Some x \<Rightarrow> mk x)"

text \<open>The id that an update asks for, and whether another model has it.\<close>

definition patched_model_id :: "(string \<Rightarrow> string result) \<Rightarrow> string option \<Rightarrow> string option result" where
  "patched_model_id mk slug = (case slug of None \<Rightarrow> Inr None | Some x \<Rightarrow> map_sum id Some (mk x))"

definition slug_conflict :: "(string \<Rightarrow> bool) \<Rightarrow> string \<Rightarrow> string option \<Rightarrow> bool" where
  "slug_conflict taken current new_id = (case new_id of None \<Rightarrow> False | Some i \<Rightarrow> i \<noteq> current \<and> taken i)"

definition patched :: "'a option \<Rightarrow> 'a \<Rightarrow> 'a" where
  "patched new old = (case new of None \<Rightarrow> old | Some v \<Rightarrow> v)"

section \<open>Records\<close>

record custom_model =
  cu_id :: string
  cu_owner_user_id :: string
  cu_owner_workspace_id :: string
  cu_name :: string
  cu_base_model_id :: string
  cu_hidden_prompt :: string
  cu_owner_username :: string
  cu_slug :: string
  cu_markup :: int
  cu_revision :: int
  cu_enabled :: bool
  cu_created_at :: instant
  cu_updated_at :: "instant option"

record user_model =
  um_id :: string
  um_owner_user_id :: string
  um_owner_workspace_id :: string
  um_name :: string
  um_kind :: string
  um_owner_username :: string
  um_slug :: string
  um_description :: string
  um_display_identity :: string
  um_display_name :: string
  um_endpoint_url :: string
  um_upstream_model_id :: "string option"
  um_endpoint_api_key :: "string option"
  um_endpoint_key_hint :: "string option"
  um_signing_secret :: "string option"
  um_supports_streaming :: bool
  um_online :: bool
  um_online_changed_at :: "instant option"
  um_heartbeat_interval :: "int option"
  um_heartbeat_expires_at :: "instant option"
  um_dispatch_failures :: int
  um_max_concurrency :: int
  um_prompt_price :: microdollars
  um_completion_price :: microdollars
  um_human_verified :: bool
  um_enabled :: bool
  um_status :: string
  um_revision :: int
  um_probe_status :: string
  um_probe_checked_at :: "instant option"
  um_created_at :: instant
  um_updated_at :: "instant option"

record creator_store =
  custom_models :: "(string, custom_model) dict"
  user_models :: "(string, user_model) dict"
  slots :: "(string, (string, instant) dict) dict"

type_synonym 'a creator_op = "creator_store \<Rightarrow> 'a result \<times> creator_store"

definition empty_creators :: creator_store where
  "empty_creators = \<lparr>custom_models = [], user_models = [], slots = []\<rparr>"

definition get_custom_model :: "string \<Rightarrow> creator_store \<Rightarrow> custom_model option" where
  "get_custom_model i s = dget (custom_models s) (normalize_model_id i)"

definition get_user_model :: "string \<Rightarrow> creator_store \<Rightarrow> user_model option" where
  "get_user_model i s = dget (user_models s) (normalize_model_id i)"

section \<open>Wrapped models\<close>

text \<open>\<open>owner_username or (local_creator_username(user) if user is not None else "dev-creator")\<close>.\<close>

definition resolve_username :: "user option \<Rightarrow> string option \<Rightarrow> string result" where
  "resolve_username u owner_username =
     (if ostr owner_username \<noteq> [] then Inr (ostr owner_username)
      else case u of None \<Rightarrow> Inr ''dev-creator'' | Some x \<Rightarrow> local_creator_username x)"

text \<open>The keyword arguments of \<open>create\<close>; the id, the slug, the revision and the times are set there.\<close>

definition custom_taken :: "(string \<Rightarrow> bool) \<Rightarrow> creator_store \<Rightarrow> string \<Rightarrow> bool" where
  "custom_taken other s i \<longleftrightarrow> dget (custom_models s) i \<noteq> None \<or> other i"

definition custom_create ::
    "instant \<Rightarrow> string list \<Rightarrow> string option \<Rightarrow> (string \<Rightarrow> bool) \<Rightarrow> custom_model \<Rightarrow> custom_model creator_op" where
  "custom_create now draws slug other m s =
     (if length (filter (\<lambda>x. cu_owner_user_id x = cu_owner_user_id m) (dvals (custom_models s))) \<ge> CUSTOM_MODEL_LIMIT_PER_USER
      then (Inl (ValueError ''custom_model_limit_exceeded''), s)
      else case pick_model_id (\<lambda>x. custom_model_id_from_slug x (cu_owner_username m)) (custom_taken other s) slug draws of Inl e \<Rightarrow> (Inl e, s)
       | Inr i \<Rightarrow>
          (if custom_taken other s i then (Inl (ValueError ''custom_model_slug_taken''), s)
           else case custom_model_slug i (cu_owner_username m) of Inl e \<Rightarrow> (Inl e, s)
            | Inr sl \<Rightarrow> (case validate_custom_model_markup_basis_points (cu_markup m) of Inl e \<Rightarrow> (Inl e, s)
               | Inr _ \<Rightarrow> (let m' = m\<lparr>cu_id := i, cu_slug := sl, cu_revision := 1, cu_created_at := now, cu_updated_at := None\<rparr>
                   in (Inr m', s\<lparr>custom_models := dset i m' (custom_models s)\<rparr>)))))"

record custom_patch =
  cq_slug :: "string option"
  cq_name :: "string option"
  cq_base_model_id :: "string option"
  cq_hidden_prompt :: "string option"
  cq_markup :: "int option"
  cq_enabled :: "bool option"

text \<open>The rename at the end of an update: the entry moves to the new id.  \<open>custom_model_slug\<close> runs after the
  old entry is gone and the id is changed.\<close>

definition rename_custom :: "string option \<Rightarrow> custom_model \<Rightarrow> custom_model creator_op" where
  "rename_custom new_id m s =
     (case new_id of None \<Rightarrow> (Inr m, s)
      | Some i \<Rightarrow> if i = cu_id m then (Inr m, s)
          else let s1 = s\<lparr>custom_models := dpop (cu_id m) (custom_models s)\<rparr>
            in case custom_model_slug i (cu_owner_username m) of Inl e \<Rightarrow> (Inl e, s1)
             | Inr sl \<Rightarrow> (let m' = m\<lparr>cu_id := i, cu_slug := sl\<rparr> in (Inr m', s1\<lparr>custom_models := dset i m' (custom_models s1)\<rparr>)))"

text \<open>The loop over the editable fields assigns the first three before it checks the markup.\<close>

definition patch_custom_text :: "custom_patch \<Rightarrow> custom_model \<Rightarrow> custom_model" where
  "patch_custom_text p m = m\<lparr>cu_name := patched (cq_name p) (cu_name m),
     cu_base_model_id := patched (cq_base_model_id p) (cu_base_model_id m),
     cu_hidden_prompt := patched (cq_hidden_prompt p) (cu_hidden_prompt m)\<rparr>"

definition patched_markup :: "custom_patch \<Rightarrow> custom_model \<Rightarrow> int result" where
  "patched_markup p m = (case cq_markup p of None \<Rightarrow> Inr (cu_markup m) | Some v \<Rightarrow> validate_custom_model_markup_basis_points v)"

definition put_custom :: "custom_model \<Rightarrow> creator_store \<Rightarrow> creator_store" where
  "put_custom m s = s\<lparr>custom_models := dset (cu_id m) m (custom_models s)\<rparr>"

definition custom_update ::
    "instant \<Rightarrow> string \<Rightarrow> string \<Rightarrow> custom_patch \<Rightarrow> (string \<Rightarrow> bool) \<Rightarrow> custom_model option creator_op" where
  "custom_update now model_id owner p other s =
     (case get_custom_model model_id s of None \<Rightarrow> (Inr None, s)
      | Some m \<Rightarrow>
         (if cu_owner_user_id m \<noteq> owner then (Inr None, s)
          else case patched_model_id (\<lambda>x. custom_model_id_from_slug x (cu_owner_username m)) (cq_slug p) of Inl e \<Rightarrow> (Inl e, s)
           | Inr new_id \<Rightarrow>
              (if slug_conflict (custom_taken other s) (cu_id m) new_id then (Inl (ValueError ''custom_model_slug_taken''), s)
               else case patched_markup p m of Inl e \<Rightarrow> (Inl e, put_custom (patch_custom_text p m) s)
                | Inr v \<Rightarrow>
                   (let m2 = (patch_custom_text p m)\<lparr>cu_markup := v, cu_enabled := patched (cq_enabled p) (cu_enabled m)\<rparr>
                    in case rename_custom new_id m2 (put_custom m2 s) of (Inl e, s2) \<Rightarrow> (Inl e, s2)
                     | (Inr m3, s2) \<Rightarrow>
                        (let m4 = m3\<lparr>cu_revision := cu_revision m3 + 1, cu_updated_at := Some now\<rparr> in (Inr (Some m4), put_custom m4 s2))))))"

definition custom_delete :: "string \<Rightarrow> string \<Rightarrow> creator_store \<Rightarrow> bool \<times> creator_store" where
  "custom_delete model_id owner s =
     (case get_custom_model model_id s of None \<Rightarrow> (False, s)
      | Some m \<Rightarrow> if cu_owner_user_id m \<noteq> owner then (False, s)
          else (True, s\<lparr>custom_models := dpop (normalize_model_id model_id) (custom_models s)\<rparr>))"

definition list_custom_models_for_user :: "string \<Rightarrow> creator_store \<Rightarrow> custom_model list" where
  "list_custom_models_for_user owner s = sort_key cu_created_at (filter (\<lambda>m. cu_owner_user_id m = owner) (dvals (custom_models s)))"

section \<open>Served models\<close>

definition served_taken :: "(string \<Rightarrow> bool) \<Rightarrow> creator_store \<Rightarrow> string \<Rightarrow> bool" where
  "served_taken other s i \<longleftrightarrow> dget (user_models s) i \<noteq> None \<or> other i"

definition new_user_model :: "instant \<Rightarrow> string \<Rightarrow> string \<Rightarrow> user_model \<Rightarrow> user_model" where
  "new_user_model now i sl m = m\<lparr>um_id := i, um_slug := sl,
     um_upstream_model_id := (if ostr (um_upstream_model_id m) \<noteq> [] then um_upstream_model_id m else Some sl),
     um_online := False, um_online_changed_at := None, um_heartbeat_expires_at := None, um_dispatch_failures := 0,
     um_revision := 1, um_probe_status := ''unprobed'', um_probe_checked_at := None, um_created_at := now, um_updated_at := None\<rparr>"

definition put_served :: "user_model \<Rightarrow> creator_store \<Rightarrow> creator_store" where
  "put_served m s = s\<lparr>user_models := dset (um_id m) m (user_models s)\<rparr>"

definition user_create ::
    "instant \<Rightarrow> string list \<Rightarrow> string option \<Rightarrow> (string \<Rightarrow> bool) \<Rightarrow> user_model \<Rightarrow> user_model creator_op" where
  "user_create now draws slug other m s =
     (if length (filter (\<lambda>x. um_owner_user_id x = um_owner_user_id m) (dvals (user_models s))) \<ge> USER_PROVIDED_MODEL_LIMIT_PER_USER
      then (Inl (ValueError ''custom_model_limit_exceeded''), s)
      else case pick_model_id (\<lambda>x. user_provided_model_id_from_slug x (um_owner_username m)) (served_taken other s) slug draws of
          Inl e \<Rightarrow> (Inl e, s)
        | Inr i \<Rightarrow>
           (if served_taken other s i then (Inl (ValueError ''custom_model_slug_taken''), s)
            else case user_provided_model_slug i (um_owner_username m) of Inl e \<Rightarrow> (Inl e, s)
             | Inr sl \<Rightarrow> (let m' = new_user_model now i sl m in (Inr m', put_served m' s))))"

record user_patch =
  uq_slug :: "string option"
  uq_name :: "string option"
  uq_kind :: "string option"
  uq_description :: "string option"
  uq_display_identity :: "string option"
  uq_display_name :: "string option"
  uq_endpoint_url :: "string option"
  uq_upstream_model_id :: "string option option"
  uq_endpoint_api_key :: "string option option"
  uq_endpoint_key_hint :: "string option option"
  uq_signing_secret :: "string option option"
  uq_supports_streaming :: "bool option"
  uq_heartbeat_interval :: "int option option"
  uq_max_concurrency :: "int option"
  uq_prompt_price :: "int option"
  uq_completion_price :: "int option"
  uq_human_verified :: "bool option"
  uq_enabled :: "bool option"
  uq_status :: "string option"

definition apply_user_patch :: "user_patch \<Rightarrow> user_model \<Rightarrow> user_model" where
  "apply_user_patch p m = m\<lparr>um_name := patched (uq_name p) (um_name m), um_kind := patched (uq_kind p) (um_kind m),
     um_description := patched (uq_description p) (um_description m),
     um_display_identity := patched (uq_display_identity p) (um_display_identity m),
     um_display_name := patched (uq_display_name p) (um_display_name m),
     um_endpoint_url := patched (uq_endpoint_url p) (um_endpoint_url m),
     um_upstream_model_id := patched (uq_upstream_model_id p) (um_upstream_model_id m),
     um_endpoint_api_key := patched (uq_endpoint_api_key p) (um_endpoint_api_key m),
     um_endpoint_key_hint := patched (uq_endpoint_key_hint p) (um_endpoint_key_hint m),
     um_signing_secret := patched (uq_signing_secret p) (um_signing_secret m),
     um_supports_streaming := patched (uq_supports_streaming p) (um_supports_streaming m),
     um_heartbeat_interval := patched (uq_heartbeat_interval p) (um_heartbeat_interval m),
     um_max_concurrency := patched (uq_max_concurrency p) (um_max_concurrency m),
     um_prompt_price := patched (uq_prompt_price p) (um_prompt_price m),
     um_completion_price := patched (uq_completion_price p) (um_completion_price m),
     um_human_verified := patched (uq_human_verified p) (um_human_verified m),
     um_enabled := patched (uq_enabled p) (um_enabled m), um_status := patched (uq_status p) (um_status m)\<rparr>"

definition rename_user :: "string option \<Rightarrow> user_model \<Rightarrow> user_model creator_op" where
  "rename_user new_id m s =
     (case new_id of None \<Rightarrow> (Inr m, s)
      | Some i \<Rightarrow> if i = um_id m then (Inr m, s)
          else let s1 = s\<lparr>user_models := dpop (um_id m) (user_models s)\<rparr>
            in case user_provided_model_slug i (um_owner_username m) of Inl e \<Rightarrow> (Inl e, s1)
             | Inr sl \<Rightarrow> (let m' = m\<lparr>um_id := i, um_slug := sl\<rparr> in (Inr m', s1\<lparr>user_models := dset i m' (user_models s1)\<rparr>)))"

definition owned_model :: "string \<Rightarrow> string \<Rightarrow> creator_store \<Rightarrow> user_model result" where
  "owned_model model_id owner s =
     (case get_user_model model_id s of None \<Rightarrow> Inl (ValueError ''custom_model_not_found'')
      | Some m \<Rightarrow> if um_owner_user_id m \<noteq> owner then Inl (ValueError ''custom_model_not_found'') else Inr m)"

definition required_model :: "string \<Rightarrow> creator_store \<Rightarrow> user_model result" where
  "required_model model_id s =
     (case get_user_model model_id s of None \<Rightarrow> Inl (ValueError ''custom_model_not_found'') | Some m \<Rightarrow> Inr m)"

definition user_update ::
    "instant \<Rightarrow> string \<Rightarrow> string \<Rightarrow> user_patch \<Rightarrow> (string \<Rightarrow> bool) \<Rightarrow> user_model creator_op" where
  "user_update now model_id owner p other s =
     (case owned_model model_id owner s of Inl e \<Rightarrow> (Inl e, s)
      | Inr m \<Rightarrow>
         (case patched_model_id (\<lambda>x. user_provided_model_id_from_slug x (um_owner_username m)) (uq_slug p) of Inl e \<Rightarrow> (Inl e, s)
          | Inr new_id \<Rightarrow>
             (if slug_conflict (served_taken other s) (um_id m) new_id then (Inl (ValueError ''custom_model_slug_taken''), s)
              else let m2 = apply_user_patch p m
                in case rename_user new_id m2 (put_served m2 s) of (Inl e, s2) \<Rightarrow> (Inl e, s2)
                 | (Inr m3, s2) \<Rightarrow>
                    (let m4 = m3\<lparr>um_revision := um_revision m3 + 1, um_updated_at := Some now\<rparr> in (Inr m4, put_served m4 s2)))))"

definition user_delete :: "string \<Rightarrow> string \<Rightarrow> creator_store \<Rightarrow> bool \<times> creator_store" where
  "user_delete model_id owner s =
     (case get_user_model model_id s of None \<Rightarrow> (False, s)
      | Some m \<Rightarrow> if um_owner_user_id m \<noteq> owner then (False, s)
          else (True, s\<lparr>user_models := dpop (normalize_model_id model_id) (user_models s)\<rparr>))"

text \<open>An update in place of a model that was looked up.\<close>

definition change_model :: "user_model result \<Rightarrow> (user_model \<Rightarrow> user_model) \<Rightarrow> user_model creator_op" where
  "change_model r f s =
     (case r of Inl e \<Rightarrow> (Inl e, s) | Inr m \<Rightarrow> (Inr (f m), put_served (f m) s))"

definition set_online :: "instant \<Rightarrow> string \<Rightarrow> string \<Rightarrow> bool \<Rightarrow> user_model creator_op" where
  "set_online now model_id owner online s = change_model (owned_model model_id owner s)
     (\<lambda>m. m\<lparr>um_online := online, um_online_changed_at := (if um_online m \<noteq> online then Some now else um_online_changed_at m),
            um_dispatch_failures := (if online then 0 else um_dispatch_failures m)\<rparr>) s"

definition user_record_heartbeat :: "string \<Rightarrow> instant \<Rightarrow> user_model creator_op" where
  "user_record_heartbeat model_id expires_at s =
     change_model (required_model model_id s) (\<lambda>m. m\<lparr>um_heartbeat_expires_at := Some expires_at\<rparr>) s"

definition record_probe :: "string \<Rightarrow> string \<Rightarrow> instant \<Rightarrow> user_model creator_op" where
  "record_probe model_id status checked_at s = change_model (required_model model_id s)
     (\<lambda>m. m\<lparr>um_probe_status := status, um_probe_checked_at := Some checked_at,
            um_dispatch_failures := (if status = ''ok'' then 0 else um_dispatch_failures m)\<rparr>) s"

definition record_dispatch_result :: "instant \<Rightarrow> string \<Rightarrow> bool \<Rightarrow> user_model creator_op" where
  "record_dispatch_result now model_id success s = change_model (required_model model_id s)
     (\<lambda>m. if success then m\<lparr>um_dispatch_failures := 0\<rparr>
          else let n = um_dispatch_failures m + 1
            in if n \<ge> 3 \<and> um_online m then m\<lparr>um_dispatch_failures := n, um_online := False, um_online_changed_at := Some now\<rparr>
               else m\<lparr>um_dispatch_failures := n\<rparr>) s"

definition live_slots :: "instant \<Rightarrow> (string, instant) dict \<Rightarrow> (string, instant) dict" where
  "live_slots now d = filter (\<lambda>(aid, exp). \<not> exp \<le> now) d"

definition acquire_slot :: "instant \<Rightarrow> string \<Rightarrow> string \<Rightarrow> int \<Rightarrow> int \<Rightarrow> creator_store \<Rightarrow> bool \<times> creator_store" where
  "acquire_slot now model_id authorization_id limit ttl_seconds s =
     (let key = normalize_model_id model_id; d = live_slots now (dget_or [] (slots s) key);
          put = (\<lambda>x. s\<lparr>slots := dset key x (slots s)\<rparr>)
      in if dget d authorization_id \<noteq> None then (True, put d)
         else if limit \<le> 0 \<or> int (length d) \<ge> limit then (False, put d)
         else (True, put (dset authorization_id (now + max 1 ttl_seconds * 1000000) d)))"

definition release_slot :: "string \<Rightarrow> string \<Rightarrow> creator_store \<Rightarrow> creator_store" where
  "release_slot model_id authorization_id s =
     (let key = normalize_model_id model_id
      in case dget (slots s) key of None \<Rightarrow> s
       | Some d \<Rightarrow> (let d' = dpop authorization_id d
           in if d' = [] then s\<lparr>slots := dpop key (slots s)\<rparr> else s\<lparr>slots := dset key d' (slots s)\<rparr>))"

definition list_public_user_models :: "string option \<Rightarrow> creator_store \<Rightarrow> user_model list" where
  "list_public_user_models kind s = sort_key um_created_at
     (filter (\<lambda>m. um_enabled m \<and> um_status m = ''active'' \<and> (case kind of None \<Rightarrow> True | Some k \<Rightarrow> um_kind m = k)) (dvals (user_models s)))"

section \<open>The two tables together\<close>

definition create_custom_model ::
    "instant \<Rightarrow> string list \<Rightarrow> user option \<Rightarrow> string option \<Rightarrow> string option \<Rightarrow> custom_model \<Rightarrow> custom_model creator_op" where
  "create_custom_model now draws u owner_username slug m s =
     (case resolve_username u owner_username of Inl e \<Rightarrow> (Inl e, s)
      | Inr name \<Rightarrow> custom_create now draws slug (\<lambda>i. get_user_model i s \<noteq> None) (m\<lparr>cu_owner_username := name\<rparr>) s)"

definition update_custom_model :: "instant \<Rightarrow> string \<Rightarrow> string \<Rightarrow> custom_patch \<Rightarrow> custom_model option creator_op" where
  "update_custom_model now model_id owner p s = custom_update now model_id owner p (\<lambda>i. get_user_model i s \<noteq> None) s"

definition create_user_model ::
    "instant \<Rightarrow> string list \<Rightarrow> user option \<Rightarrow> string option \<Rightarrow> string option \<Rightarrow> user_model \<Rightarrow> user_model creator_op" where
  "create_user_model now draws u owner_username slug m s =
     (case resolve_username u owner_username of Inl e \<Rightarrow> (Inl e, s)
      | Inr name \<Rightarrow> user_create now draws slug (\<lambda>i. get_custom_model i s \<noteq> None) (m\<lparr>um_owner_username := name\<rparr>) s)"

definition update_user_model :: "instant \<Rightarrow> string \<Rightarrow> string \<Rightarrow> user_patch \<Rightarrow> user_model creator_op" where
  "update_user_model now model_id owner p s = user_update now model_id owner p (\<lambda>i. get_custom_model i s \<noteq> None) s"

section \<open>Lemmas\<close>

subsection \<open>Recovering a markup\<close>

lemma app_markup_split:
  assumes "0 \<le> base" "0 \<le> bp"
  shows "app_markup_microdollars_from_charge (base + app_markup_microdollars base bp) bp = Inr (app_markup_microdollars base bp)"
proof -
  define k where "k = base * bp div 10000"
  have "10000 * k \<le> base * bp" "base * bp < 10000 * k + 10000"
    unfolding k_def using mult_div_mod_eq [of 10000 "base * bp"] pos_mod_bound [of 10000 "base * bp"] pos_mod_sign [of 10000 "base * bp"]
    by linarith+
  then have "k * (10000 + bp) \<le> (base + k) * bp" "(base + k) * bp < (k + 1) * (10000 + bp)"
    using assms by (simp_all add: algebra_simps)
  then have "(base + k) * bp div (10000 + bp) = k"
    using assms by (intro int_div_pos_eq [of _ _ _ "(base + k) * bp - k * (10000 + bp)"]) (simp_all add: algebra_simps)
  then show ?thesis using assms by (simp add: app_markup_microdollars_from_charge_def app_markup_microdollars_def k_def)
qed

lemma from_charge_mono:
  fixes bp c c' :: int
  assumes "0 \<le> bp" "0 \<le> c" "c \<le> c'"
  shows "c * bp div (10000 + bp) \<le> c' * bp div (10000 + bp)" "0 \<le> c * bp div (10000 + bp)"
    "c - c * bp div (10000 + bp) \<le> c' - c' * bp div (10000 + bp)"
proof -
  have pos: "0 < 10000 + bp" using assms(1) by simp
  show "c * bp div (10000 + bp) \<le> c' * bp div (10000 + bp)" using assms pos by (intro zdiv_mono1 mult_right_mono) simp_all
  show "0 \<le> c * bp div (10000 + bp)" using assms pos by (simp add: pos_imp_zdiv_nonneg_iff)
  have "c' * bp \<le> c * bp + (c' - c) * (10000 + bp)" using assms by (simp add: algebra_simps)
  then have "c' * bp div (10000 + bp) \<le> (c * bp + (c' - c) * (10000 + bp)) div (10000 + bp)" using pos by (rule zdiv_mono1)
  also have "\<dots> = c * bp div (10000 + bp) + (c' - c)" using pos by simp
  finally show "c - c * bp div (10000 + bp) \<le> c' - c' * bp div (10000 + bp)" by simp
qed

subsection \<open>Tables of models\<close>

definition key_ok :: "string \<Rightarrow> string \<Rightarrow> string \<Rightarrow> string \<Rightarrow> bool" where
  "key_ok prefix k username slug \<longleftrightarrow> k = prefix @ username @ ''-'' @ slug \<and> model_slug_pattern slug \<and> normalize_model_id k = k"

definition owned_count :: "('m \<Rightarrow> string) \<Rightarrow> string \<Rightarrow> (string, 'm) dict \<Rightarrow> nat" where
  "owned_count owner w d = length (filter (\<lambda>m. owner m = w) (dvals d))"

definition table_ok :: "('m \<Rightarrow> string) \<Rightarrow> ('m \<Rightarrow> string) \<Rightarrow> ('m \<Rightarrow> string) \<Rightarrow> ('m \<Rightarrow> string) \<Rightarrow> string \<Rightarrow> nat \<Rightarrow> (string, 'm) dict \<Rightarrow> bool" where
  "table_ok mid owner username slug prefix limit d \<longleftrightarrow> distinct (map fst d) \<and>
     (\<forall>k m. dget d k = Some m \<longrightarrow> mid m = k \<and> key_ok prefix k (username m) (slug m)) \<and>
     (\<forall>w. owned_count owner w d \<le> limit)"

lemma owned_count_dsum: "int (owned_count owner w d) = dsum (\<lambda>m. if owner m = w then 1 else 0) d"
  by (induction d) (auto simp: owned_count_def)

lemma lower_alnum_char: "lower_alnum c \<Longrightarrow> \<not> py_space c \<and> py_lower_char c = c"
  by (auto simp: lower_alnum_def py_space_def py_lower_char_def Let_def less_eq_char_def char_of_def)

lemma slug_pattern_chars:
  assumes "model_slug_pattern v"
  shows "v \<noteq> []" "\<not> py_space (last v)" "py_lower v = v"
proof -
  show "v \<noteq> []" using assms by (auto simp: model_slug_pattern_def)
  show "\<not> py_space (last v)" using assms lower_alnum_char by (auto simp: model_slug_pattern_def)
  have "py_lower_char c = c" if "c \<in> set v" for c
  proof -
    have "lower_alnum c \<or> c = CHR ''-''" using assms that by (auto simp: model_slug_pattern_def list_all_iff)
    moreover have "py_lower_char (CHR ''-'') = CHR ''-''" by code_simp
    ultimately show ?thesis using lower_alnum_char by auto
  qed
  then show "py_lower v = v" by (simp add: py_lower_def map_idI)
qed

lemma py_strip_ends: "s \<noteq> [] \<Longrightarrow> \<not> py_space (hd s) \<Longrightarrow> \<not> py_space (last s) \<Longrightarrow> py_strip s = s"
  by (simp add: py_strip_def dropWhile_id hd_rev)

lemma py_lower_append: "py_lower (xs @ ys) = py_lower xs @ py_lower ys"
  by (simp add: py_lower_def)

text \<open>What both tables rely on: the shape of the prefix of their ids.\<close>

locale model_table =
  fixes mid owner username slug :: "'m \<Rightarrow> string" and prefix :: string and limit :: nat
  assumes prefix_plain: "prefix \<noteq> []" "\<not> py_space (hd prefix)" "py_lower prefix = prefix"
begin

lemma normalize_key:
  assumes "model_slug_pattern v"
  shows "normalize_model_id (prefix @ name @ ''-'' @ v) = prefix @ py_lower name @ ''-'' @ v"
proof -
  have "py_strip (prefix @ name @ ''-'' @ v) = prefix @ name @ ''-'' @ v"
    using prefix_plain slug_pattern_chars [OF assms] by (intro py_strip_ends) simp_all
  moreover have "py_lower ''-'' = ''-''" by code_simp
  ultimately show ?thesis
    using prefix_plain slug_pattern_chars [OF assms] unfolding normalize_model_id_def by (simp add: py_lower_append py_lower_def)
qed

lemma id_from_slug_Inr:
  assumes "model_id_from_slug prefix x name = Inr i"
  obtains v where "i = prefix @ name @ ''-'' @ v" "model_slug_pattern v"
  using assms by (auto simp: model_id_from_slug_def validate_model_slug_def Let_def split: sum.splits if_splits)

lemma slug_of_key:
  assumes "i = prefix @ name @ ''-'' @ v" "model_slug_pattern v"
  shows "model_slug e prefix i name = (if py_lower name = name then Inr v else Inl (ValueError e))"
  unfolding model_slug_def Let_def assms(1) normalize_key [OF assms(2)] startswith_def by (auto simp: py_lower_def)

lemma new_key:
  assumes "model_id_from_slug prefix x name = Inr i" "model_slug e prefix i name = Inr sl"
  shows "key_ok prefix i name sl"
proof -
  obtain v where v: "i = prefix @ name @ ''-'' @ v" "model_slug_pattern v" by (rule id_from_slug_Inr [OF assms(1)])
  then show ?thesis using slug_of_key [OF v] assms(2) normalize_key [OF v(2)] by (auto simp: key_ok_def split: if_splits)
qed

lemma rename_key:
  assumes "key_ok prefix k name sl0" "model_id_from_slug prefix x name = Inr i"
  obtains sl where "model_slug e prefix i name = Inr sl" "key_ok prefix i name sl"
proof -
  obtain v where v: "i = prefix @ name @ ''-'' @ v" "model_slug_pattern v" by (rule id_from_slug_Inr [OF assms(2)])
  have "py_lower name = name" using assms(1) normalize_key [of sl0 name] by (auto simp: key_ok_def)
  then have "model_slug e prefix i name = Inr v" using slug_of_key [OF v] by simp
  then show thesis using that new_key [OF assms(2)] by blast
qed

abbreviation ok where "ok \<equiv> table_ok mid owner username slug prefix limit"

lemma ok_insert:
  assumes "ok d" "dget d i = None" "mid m = i" "key_ok prefix i (username m) (slug m)" "owned_count owner (owner m) d < limit"
  shows "ok (dset i m d)"
proof -
  have "int (owned_count owner w (dset i m d)) = int (owned_count owner w d) + (if owner m = w then 1 else 0)" for w
    unfolding owned_count_dsum using assms(2) by simp
  then have "owned_count owner w (dset i m d) \<le> limit" for w
    using assms(1,5) unfolding table_ok_def by (smt (verit) of_nat_le_iff of_nat_less_iff)
  then show ?thesis using assms by (simp add: table_ok_def distinct_update)
qed

lemma ok_replace:
  assumes "ok d" "dget d k = Some m" "mid m' = mid m" "username m' = username m" "slug m' = slug m" "owner m' = owner m"
  shows "ok (dset k m' d)"
proof -
  have "int (owned_count owner w (dset k m' d)) = int (owned_count owner w d)" for w
    unfolding owned_count_dsum using assms(2,6) by simp
  then show ?thesis using assms by (auto simp: table_ok_def distinct_update)
qed

lemma ok_remove:
  assumes "ok d"
  shows "ok (dpop k d)" "dget d k = Some m \<Longrightarrow> owned_count owner (owner m) (dpop k d) < limit"
proof -
  have d: "distinct (map fst d)" using assms by (simp add: table_ok_def)
  have c: "int (owned_count owner w (dpop k d)) = int (owned_count owner w d) - dcell (\<lambda>m. if owner m = w then 1 else 0) (dget d k)" for w
    unfolding owned_count_dsum by (rule dsum_dpop [OF d])
  have nn: "0 \<le> dcell (\<lambda>m. if owner m = w then 1 else 0) (dget d k)" for w by (cases "dget d k") simp_all
  have "owned_count owner w (dpop k d) \<le> owned_count owner w d" for w using c [of w] nn [of w] by linarith
  then show "ok (dpop k d)" using assms by (auto simp: table_ok_def distinct_delete) (meson order_trans)
  show "owned_count owner (owner m) (dpop k d) < limit" if "dget d k = Some m"
  proof -
    have "int (owned_count owner (owner m) (dpop k d)) = int (owned_count owner (owner m) d) - 1" using c [of "owner m"] that by simp
    moreover have "owned_count owner (owner m) d \<le> limit" using assms by (simp add: table_ok_def)
    ultimately show ?thesis by linarith
  qed
qed

lemma ok_lookup: "ok d \<Longrightarrow> dget d (normalize_model_id i) = Some m \<Longrightarrow> mid m = normalize_model_id i \<and> dget d (mid m) = Some m"
  by (auto simp: table_ok_def)

lemma ok_key: "ok d \<Longrightarrow> dget d k = Some m \<Longrightarrow> key_ok prefix k (username m) (slug m)"
  by (auto simp: table_ok_def)

end

interpretation customs: model_table cu_id cu_owner_user_id cu_owner_username cu_slug CUSTOM_MODEL_PREFIX CUSTOM_MODEL_LIMIT_PER_USER
  by unfold_locales (code_simp+)

interpretation served: model_table um_id um_owner_user_id um_owner_username um_slug USER_PROVIDED_MODEL_PREFIX USER_PROVIDED_MODEL_LIMIT_PER_USER
  by unfold_locales (code_simp+)

text \<open>The state of both tables.\<close>

definition customs_ok :: "creator_store \<Rightarrow> bool" where
  "customs_ok s \<longleftrightarrow> table_ok cu_id cu_owner_user_id cu_owner_username cu_slug CUSTOM_MODEL_PREFIX CUSTOM_MODEL_LIMIT_PER_USER (custom_models s) \<and>
     (\<forall>k m. dget (custom_models s) k = Some m \<longrightarrow> 0 \<le> cu_markup m \<and> cu_markup m \<le> MAX_CUSTOM_MODEL_MARKUP_BASIS_POINTS)"

definition served_ok :: "creator_store \<Rightarrow> bool" where
  "served_ok s \<longleftrightarrow> table_ok um_id um_owner_user_id um_owner_username um_slug USER_PROVIDED_MODEL_PREFIX USER_PROVIDED_MODEL_LIMIT_PER_USER (user_models s)"

lemma new_model_id_Inr: "new_model_id mk taken draws = Inr i \<Longrightarrow> \<exists>x. mk x = Inr i"
  by (induction mk taken draws rule: new_model_id.induct) (auto split: sum.splits if_splits)

lemma pick_model_id_Inr: "pick_model_id mk taken slug draws = Inr i \<Longrightarrow> \<exists>x. mk x = Inr i"
  using new_model_id_Inr by (auto simp: pick_model_id_def split: option.splits)

lemma patched_model_id_Inr: "patched_model_id mk slug = Inr (Some i) \<Longrightarrow> \<exists>x. mk x = Inr i"
  by (auto simp: patched_model_id_def map_sum_def split: option.splits sum.splits)

lemma custom_create_ok:
  assumes "customs_ok s" "custom_create now draws slug other m s = (r, s')"
  shows "customs_ok s' \<and> user_models s' = user_models s \<and> slots s' = slots s"
proof (cases "s' = s")
  case False
  let ?n = "cu_owner_username m"
  obtain i sl m' where run: "pick_model_id (\<lambda>x. custom_model_id_from_slug x ?n) (custom_taken other s) slug draws = Inr i"
      "owned_count cu_owner_user_id (cu_owner_user_id m) (custom_models s) < CUSTOM_MODEL_LIMIT_PER_USER"
      "\<not> custom_taken other s i" "custom_model_slug i ?n = Inr sl" "0 \<le> cu_markup m" "cu_markup m \<le> MAX_CUSTOM_MODEL_MARKUP_BASIS_POINTS"
      "m' = m\<lparr>cu_id := i, cu_slug := sl, cu_revision := 1, cu_created_at := now, cu_updated_at := None\<rparr>"
      "s' = s\<lparr>custom_models := dset i m' (custom_models s)\<rparr>"
    using assms(2) False
    by (auto simp: custom_create_def Let_def owned_count_def validate_custom_model_markup_basis_points_def split: if_splits sum.splits)
  obtain x where x: "custom_model_id_from_slug x ?n = Inr i" using pick_model_id_Inr [OF run(1)] by blast
  have "key_ok CUSTOM_MODEL_PREFIX i ?n sl"
    using customs.new_key [of x ?n i] x run(4) by (simp add: custom_model_id_from_slug_def custom_model_slug_def)
  then show ?thesis
    using assms(1) run(2,3,5,6,7) customs.ok_insert [of "custom_models s" i m'] by (auto simp: customs_ok_def custom_taken_def run(8))
qed (use assms in simp)

text \<open>An update keeps the owner and the namespace of a model: it rewrites one entry or moves it to a new id.\<close>

lemma customs_replace:
  assumes "customs_ok s" "dget (custom_models s) (cu_id m) = Some m" "cu_id m' = cu_id m" "cu_owner_username m' = cu_owner_username m"
    "cu_slug m' = cu_slug m" "cu_owner_user_id m' = cu_owner_user_id m" "0 \<le> cu_markup m'" "cu_markup m' \<le> MAX_CUSTOM_MODEL_MARKUP_BASIS_POINTS"
  shows "customs_ok (put_custom m' s)"
  using assms customs.ok_replace [of "custom_models s" "cu_id m" m m'] by (auto simp: customs_ok_def put_custom_def)

lemma put_custom_simps [simp]:
  "dget (custom_models (put_custom m s)) k = (if k = cu_id m then Some m else dget (custom_models s) k)"
  "user_models (put_custom m s) = user_models s" "slots (put_custom m s) = slots s"
  by (simp_all add: put_custom_def)

lemma rename_custom_ok:
  assumes "customs_ok s" "dget (custom_models s) (cu_id m) = Some m"
    "\<And>i. new_id = Some i \<Longrightarrow> \<exists>x. custom_model_id_from_slug x (cu_owner_username m) = Inr i"
    "\<And>i. new_id = Some i \<Longrightarrow> i \<noteq> cu_id m \<Longrightarrow> dget (custom_models s) i = None"
  obtains m' s' where "rename_custom new_id m s = (Inr m', s')" "customs_ok s'" "dget (custom_models s') (cu_id m') = Some m'"
    "user_models s' = user_models s" "slots s' = slots s"
proof (cases "new_id = None \<or> new_id = Some (cu_id m)")
  case True
  then show thesis using that [of m s] assms(1,2) by (auto simp: rename_custom_def)
next
  case False
  then obtain i where n: "new_id = Some i" "i \<noteq> cu_id m" by (cases new_id) auto
  obtain x where x: "custom_model_id_from_slug x (cu_owner_username m) = Inr i" using assms(3) [OF n(1)] by blast
  let ?k = "cu_id m"
  have tab: "table_ok cu_id cu_owner_user_id cu_owner_username cu_slug CUSTOM_MODEL_PREFIX CUSTOM_MODEL_LIMIT_PER_USER (custom_models s)"
    using assms(1) by (simp add: customs_ok_def)
  have "key_ok CUSTOM_MODEL_PREFIX ?k (cu_owner_username m) (cu_slug m)" by (rule customs.ok_key [OF tab assms(2)])
  then obtain sl where sl: "custom_model_slug i (cu_owner_username m) = Inr sl" "key_ok CUSTOM_MODEL_PREFIX i (cu_owner_username m) sl"
    using x unfolding custom_model_id_from_slug_def custom_model_slug_def by (rule customs.rename_key)
  let ?m' = "m\<lparr>cu_id := i, cu_slug := sl\<rparr>"
  have "table_ok cu_id cu_owner_user_id cu_owner_username cu_slug CUSTOM_MODEL_PREFIX CUSTOM_MODEL_LIMIT_PER_USER
      (dset i ?m' (dpop ?k (custom_models s)))"
    using customs.ok_remove(1) [OF tab, of ?k] customs.ok_remove(2) [OF tab assms(2)] n(2) assms(4) [OF n] sl(2)
    by (intro customs.ok_insert) simp_all
  then have "customs_ok (s\<lparr>custom_models := dset i ?m' (dpop ?k (custom_models s))\<rparr>)"
    using assms(1,2) by (auto simp: customs_ok_def)
  then show thesis using that [of ?m' "s\<lparr>custom_models := dset i ?m' (dpop ?k (custom_models s))\<rparr>"] n sl(1)
    by (simp add: rename_custom_def Let_def)
qed

lemma custom_update_ok:
  assumes "customs_ok s" "custom_update now model_id owner p other s = (r, s')"
  shows "customs_ok s' \<and> user_models s' = user_models s \<and> slots s' = slots s"
proof (cases "s' = s")
  case False
  then obtain m new_id where m: "get_custom_model model_id s = Some m" "cu_owner_user_id m = owner"
      and new_id: "patched_model_id (\<lambda>x. custom_model_id_from_slug x (cu_owner_username m)) (cq_slug p) = Inr new_id"
        "\<not> slug_conflict (custom_taken other s) (cu_id m) new_id"
    using assms(2) by (auto simp: custom_update_def split: option.splits sum.splits if_splits)
  have k: "dget (custom_models s) (cu_id m) = Some m"
    using m(1) assms(1) customs.ok_lookup [of "custom_models s" model_id m] by (auto simp: get_custom_model_def customs_ok_def)
  have mk: "0 \<le> cu_markup m" "cu_markup m \<le> MAX_CUSTOM_MODEL_MARKUP_BASIS_POINTS" using assms(1) k by (auto simp: customs_ok_def)
  show ?thesis
  proof (cases "patched_markup p m")
    case (Inl e)
    have "customs_ok (put_custom (patch_custom_text p m) s)"
      by (rule customs_replace [OF assms(1) k]) (simp_all add: patch_custom_text_def mk)
    then show ?thesis using assms(2) m new_id Inl by (auto simp: custom_update_def)
  next
    case (Inr v)
    then have v: "0 \<le> v" "v \<le> MAX_CUSTOM_MODEL_MARKUP_BASIS_POINTS"
      using mk by (auto simp: patched_markup_def validate_custom_model_markup_basis_points_def split: option.splits if_splits)
    define m2 where "m2 = (patch_custom_text p m)\<lparr>cu_markup := v, cu_enabled := patched (cq_enabled p) (cu_enabled m)\<rparr>"
    have m2: "cu_id m2 = cu_id m" "cu_owner_username m2 = cu_owner_username m" "cu_slug m2 = cu_slug m"
        "cu_owner_user_id m2 = cu_owner_user_id m" "cu_markup m2 = v" by (simp_all add: m2_def patch_custom_text_def)
    have ok2: "customs_ok (put_custom m2 s)" by (rule customs_replace [OF assms(1) k]) (simp_all add: m2 v)
    obtain m3 s2 where r: "rename_custom new_id m2 (put_custom m2 s) = (Inr m3, s2)" "customs_ok s2" "dget (custom_models s2) (cu_id m3) = Some m3"
        "user_models s2 = user_models (put_custom m2 s)" "slots s2 = slots (put_custom m2 s)"
    proof (rule rename_custom_ok [OF ok2])
      show "dget (custom_models (put_custom m2 s)) (cu_id m2) = Some m2" by simp
      show "\<exists>x. custom_model_id_from_slug x (cu_owner_username m2) = Inr i" if "new_id = Some i" for i
        using patched_model_id_Inr new_id(1) that by (simp add: m2)
      show "dget (custom_models (put_custom m2 s)) i = None" if "new_id = Some i" "i \<noteq> cu_id m2" for i
        using new_id(2) that by (auto simp: slug_conflict_def custom_taken_def m2)
    qed
    have "customs_ok (put_custom (m3\<lparr>cu_revision := cu_revision m3 + 1, cu_updated_at := Some now\<rparr>) s2)"
      by (rule customs_replace [OF r(2,3)]) (use r(2,3) in \<open>auto simp: customs_ok_def\<close>)
    then show ?thesis using assms(2) m new_id Inr r by (auto simp: custom_update_def Let_def m2_def [symmetric])
  qed
qed (use assms in simp)

lemma custom_delete_ok:
  assumes "customs_ok s"
  shows "customs_ok (snd (custom_delete i owner s)) \<and> user_models (snd (custom_delete i owner s)) = user_models s \<and>
    slots (snd (custom_delete i owner s)) = slots s"
proof -
  have "customs_ok (s\<lparr>custom_models := dpop k (custom_models s)\<rparr>)" for k
    using assms customs.ok_remove(1) [of "custom_models s" k] by (auto simp: customs_ok_def)
  then show ?thesis using assms by (auto simp: custom_delete_def split: option.splits)
qed

subsection \<open>Served models\<close>

lemma put_served_simps [simp]:
  "dget (user_models (put_served m s)) k = (if k = um_id m then Some m else dget (user_models s) k)"
  "custom_models (put_served m s) = custom_models s" "slots (put_served m s) = slots s"
  by (simp_all add: put_served_def)

lemma served_replace:
  assumes "served_ok s" "dget (user_models s) (um_id m) = Some m" "um_id m' = um_id m" "um_owner_username m' = um_owner_username m"
    "um_slug m' = um_slug m" "um_owner_user_id m' = um_owner_user_id m"
  shows "served_ok (put_served m' s)"
  using assms served.ok_replace [of "user_models s" "um_id m" m m'] by (simp add: served_ok_def put_served_def)

lemma user_create_ok:
  assumes "served_ok s" "user_create now draws slug other m s = (r, s')"
  shows "served_ok s' \<and> custom_models s' = custom_models s \<and> slots s' = slots s"
proof (cases "s' = s")
  case False
  let ?n = "um_owner_username m"
  obtain i sl where run: "pick_model_id (\<lambda>x. user_provided_model_id_from_slug x ?n) (served_taken other s) slug draws = Inr i"
      "owned_count um_owner_user_id (um_owner_user_id m) (user_models s) < USER_PROVIDED_MODEL_LIMIT_PER_USER"
      "\<not> served_taken other s i" "user_provided_model_slug i ?n = Inr sl" "s' = put_served (new_user_model now i sl m) s"
    using assms(2) False by (auto simp: user_create_def Let_def owned_count_def split: if_splits sum.splits)
  obtain x where x: "user_provided_model_id_from_slug x ?n = Inr i" using pick_model_id_Inr [OF run(1)] by blast
  have key: "key_ok USER_PROVIDED_MODEL_PREFIX i ?n sl"
    using served.new_key [of x ?n i] x run(4) by (simp add: user_provided_model_id_from_slug_def user_provided_model_slug_def)
  have "served_ok (put_served (new_user_model now i sl m) s)"
    using assms(1) run(2,3) key served.ok_insert [of "user_models s" i "new_user_model now i sl m"]
    by (simp add: served_ok_def served_taken_def put_served_def new_user_model_def)
  then show ?thesis using run(5) by simp
qed (use assms in simp)

lemma rename_user_ok:
  assumes "served_ok s" "dget (user_models s) (um_id m) = Some m"
    "\<And>i. new_id = Some i \<Longrightarrow> \<exists>x. user_provided_model_id_from_slug x (um_owner_username m) = Inr i"
    "\<And>i. new_id = Some i \<Longrightarrow> i \<noteq> um_id m \<Longrightarrow> dget (user_models s) i = None"
  obtains m' s' where "rename_user new_id m s = (Inr m', s')" "served_ok s'" "dget (user_models s') (um_id m') = Some m'"
    "custom_models s' = custom_models s" "slots s' = slots s"
proof (cases "new_id = None \<or> new_id = Some (um_id m)")
  case True
  then show thesis using that [of m s] assms(1,2) by (auto simp: rename_user_def)
next
  case False
  then obtain i where n: "new_id = Some i" "i \<noteq> um_id m" by (cases new_id) auto
  obtain x where x: "user_provided_model_id_from_slug x (um_owner_username m) = Inr i" using assms(3) [OF n(1)] by blast
  let ?k = "um_id m"
  note tab = assms(1) [unfolded served_ok_def]
  have "key_ok USER_PROVIDED_MODEL_PREFIX ?k (um_owner_username m) (um_slug m)" by (rule served.ok_key [OF tab assms(2)])
  then obtain sl where sl: "user_provided_model_slug i (um_owner_username m) = Inr sl" "key_ok USER_PROVIDED_MODEL_PREFIX i (um_owner_username m) sl"
    using x unfolding user_provided_model_id_from_slug_def user_provided_model_slug_def by (rule served.rename_key)
  let ?m' = "m\<lparr>um_id := i, um_slug := sl\<rparr>"
  have "table_ok um_id um_owner_user_id um_owner_username um_slug USER_PROVIDED_MODEL_PREFIX USER_PROVIDED_MODEL_LIMIT_PER_USER
      (dset i ?m' (dpop ?k (user_models s)))"
    using served.ok_remove(1) [OF tab, of ?k] served.ok_remove(2) [OF tab assms(2)] n(2) assms(4) [OF n] sl(2)
    by (intro served.ok_insert) simp_all
  then have "served_ok (s\<lparr>user_models := dset i ?m' (dpop ?k (user_models s))\<rparr>)" by (simp add: served_ok_def)
  then show thesis using that [of ?m' "s\<lparr>user_models := dset i ?m' (dpop ?k (user_models s))\<rparr>"] n sl(1)
    by (simp add: rename_user_def Let_def)
qed

lemma get_served:
  assumes "served_ok s" "get_user_model model_id s = Some m"
  shows "dget (user_models s) (um_id m) = Some m"
  using assms served.ok_lookup [of "user_models s" model_id m] by (auto simp: get_user_model_def served_ok_def)

lemma user_update_ok:
  assumes "served_ok s" "user_update now model_id owner p other s = (r, s')"
  shows "served_ok s' \<and> custom_models s' = custom_models s \<and> slots s' = slots s"
proof (cases "s' = s")
  case False
  then obtain m new_id where m: "owned_model model_id owner s = Inr m"
      and new_id: "patched_model_id (\<lambda>x. user_provided_model_id_from_slug x (um_owner_username m)) (uq_slug p) = Inr new_id"
        "\<not> slug_conflict (served_taken other s) (um_id m) new_id"
    using assms(2) by (auto simp: user_update_def split: sum.splits if_splits)
  have k: "dget (user_models s) (um_id m) = Some m"
    using m get_served [OF assms(1)] by (auto simp: owned_model_def split: option.splits if_splits)
  let ?m2 = "apply_user_patch p m"
  have m2: "um_id ?m2 = um_id m" "um_owner_username ?m2 = um_owner_username m" "um_slug ?m2 = um_slug m"
      "um_owner_user_id ?m2 = um_owner_user_id m" by (simp_all add: apply_user_patch_def)
  have ok2: "served_ok (put_served ?m2 s)" by (rule served_replace [OF assms(1) k]) (simp_all add: m2)
  obtain m3 s2 where r: "rename_user new_id ?m2 (put_served ?m2 s) = (Inr m3, s2)" "served_ok s2" "dget (user_models s2) (um_id m3) = Some m3"
      "custom_models s2 = custom_models (put_served ?m2 s)" "slots s2 = slots (put_served ?m2 s)"
  proof (rule rename_user_ok [OF ok2])
    show "dget (user_models (put_served ?m2 s)) (um_id ?m2) = Some ?m2" by simp
    show "\<exists>x. user_provided_model_id_from_slug x (um_owner_username ?m2) = Inr i" if "new_id = Some i" for i
      using patched_model_id_Inr new_id(1) that by (simp add: m2)
    show "dget (user_models (put_served ?m2 s)) i = None" if "new_id = Some i" "i \<noteq> um_id ?m2" for i
      using new_id(2) that by (auto simp: slug_conflict_def served_taken_def m2)
  qed
  have "served_ok (put_served (m3\<lparr>um_revision := um_revision m3 + 1, um_updated_at := Some now\<rparr>) s2)"
    by (rule served_replace [OF r(2,3)]) simp_all
  then show ?thesis using assms(2) m new_id r by (auto simp: user_update_def Let_def)
qed (use assms in simp)

lemma user_delete_ok:
  assumes "served_ok s"
  shows "served_ok (snd (user_delete i owner s)) \<and> custom_models (snd (user_delete i owner s)) = custom_models s"
  using assms served.ok_remove(1) [of "user_models s" "normalize_model_id i"]
  by (auto simp: user_delete_def served_ok_def split: option.splits)

lemma change_model_ok:
  assumes "served_ok s" "r = owned_model model_id owner s \<or> r = required_model model_id s"
    "\<And>m. um_id (f m) = um_id m \<and> um_owner_username (f m) = um_owner_username m \<and> um_slug (f m) = um_slug m \<and> um_owner_user_id (f m) = um_owner_user_id m"
  shows "served_ok (snd (change_model r f s)) \<and> custom_models (snd (change_model r f s)) = custom_models s"
proof (cases r)
  case (Inr m)
  then have "dget (user_models s) (um_id m) = Some m"
    using assms(2) get_served [OF assms(1)] by (auto simp: owned_model_def required_model_def split: option.splits if_splits)
  from served_replace [OF assms(1) this] show ?thesis using assms(3) by (simp add: change_model_def Inr)
qed (use assms in \<open>simp add: change_model_def\<close>)

subsection \<open>Any sequence of calls\<close>

datatype creator_call =
    CreateCustom instant "string list" "user option" "string option" "string option" custom_model
  | UpdateCustom instant string string custom_patch
  | DeleteCustom string string
  | CreateServed instant "string list" "user option" "string option" "string option" user_model
  | UpdateServed instant string string user_patch
  | DeleteServed string string
  | SetOnline instant string string bool
  | ServedHeartbeat string instant
  | ServedProbe string string instant
  | DispatchResult instant string bool
  | AcquireSlot instant string string int int
  | ReleaseSlot string string

fun creator_step :: "creator_call \<Rightarrow> creator_store \<Rightarrow> creator_store" where
  "creator_step (CreateCustom now draws u name slug m) s = snd (create_custom_model now draws u name slug m s)"
| "creator_step (UpdateCustom now i owner p) s = snd (update_custom_model now i owner p s)"
| "creator_step (DeleteCustom i owner) s = snd (custom_delete i owner s)"
| "creator_step (CreateServed now draws u name slug m) s = snd (create_user_model now draws u name slug m s)"
| "creator_step (UpdateServed now i owner p) s = snd (update_user_model now i owner p s)"
| "creator_step (DeleteServed i owner) s = snd (user_delete i owner s)"
| "creator_step (SetOnline now i owner b) s = snd (set_online now i owner b s)"
| "creator_step (ServedHeartbeat i t) s = snd (user_record_heartbeat i t s)"
| "creator_step (ServedProbe i st t) s = snd (record_probe i st t s)"
| "creator_step (DispatchResult now i b) s = snd (record_dispatch_result now i b s)"
| "creator_step (AcquireSlot now i a limit ttl) s = snd (acquire_slot now i a limit ttl s)"
| "creator_step (ReleaseSlot i a) s = release_slot i a s"

definition creators_ok :: "creator_store \<Rightarrow> bool" where
  "creators_ok s \<longleftrightarrow> customs_ok s \<and> served_ok s"

lemma customs_ok_cong: "custom_models s' = custom_models s \<Longrightarrow> customs_ok s' = customs_ok s"
  by (simp add: customs_ok_def)

lemma served_ok_cong: "user_models s' = user_models s \<Longrightarrow> served_ok s' = served_ok s"
  by (simp add: served_ok_def)

lemma slot_calls_models:
  "custom_models (snd (acquire_slot now i a limit ttl s)) = custom_models s" "user_models (snd (acquire_slot now i a limit ttl s)) = user_models s"
  "custom_models (release_slot i a s) = custom_models s" "user_models (release_slot i a s) = user_models s"
  by (simp_all add: acquire_slot_def release_slot_def Let_def split: option.split)

lemma creator_step_ok:
  assumes "creators_ok s"
  shows "creators_ok (creator_step c s)"
proof -
  have c: "customs_ok s" and v: "served_ok s" using assms by (simp_all add: creators_ok_def)
  have custom: "creators_ok s'" if "customs_ok s' \<and> user_models s' = user_models s \<and> slots s' = slots s" for s'
    using that v served_ok_cong [of s' s] by (simp add: creators_ok_def)
  have user: "creators_ok s'" if "served_ok s' \<and> custom_models s' = custom_models s" for s'
    using that c customs_ok_cong [of s' s] by (simp add: creators_ok_def)
  show ?thesis
  proof (cases c)
    case (CreateCustom now draws u name slug m)
    show ?thesis
    proof (cases "resolve_username u name")
      case (Inr n)
      show ?thesis
        using custom [OF custom_create_ok [OF c prod.collapse [symmetric]]] by (simp add: CreateCustom create_custom_model_def Inr)
    qed (use assms CreateCustom in \<open>simp add: create_custom_model_def\<close>)
  next
    case (UpdateCustom now i owner p)
    show ?thesis
      using custom [OF custom_update_ok [OF c prod.collapse [symmetric]]] by (simp add: UpdateCustom update_custom_model_def)
  next
    case (DeleteCustom i owner)
    then show ?thesis using custom custom_delete_ok [OF c] by simp
  next
    case (CreateServed now draws u name slug m)
    show ?thesis
    proof (cases "resolve_username u name")
      case (Inr n)
      show ?thesis
        using user [OF conjI] user_create_ok [OF v prod.collapse [symmetric]] by (simp add: CreateServed create_user_model_def Inr)
    qed (use assms CreateServed in \<open>simp add: create_user_model_def\<close>)
  next
    case (UpdateServed now i owner p)
    show ?thesis
      using user [OF conjI] user_update_ok [OF v prod.collapse [symmetric]] by (simp add: UpdateServed update_user_model_def)
  next
    case (DeleteServed i owner)
    then show ?thesis using user user_delete_ok [OF v] by simp
  next
    case (SetOnline now i owner b)
    show ?thesis unfolding SetOnline creator_step.simps set_online_def
      by (rule user, rule change_model_ok [OF v]) auto
  next
    case (ServedHeartbeat i t)
    show ?thesis unfolding ServedHeartbeat creator_step.simps user_record_heartbeat_def
      by (rule user, rule change_model_ok [OF v]) auto
  next
    case (ServedProbe i st t)
    show ?thesis unfolding ServedProbe creator_step.simps record_probe_def
      by (rule user, rule change_model_ok [OF v]) auto
  next
    case (DispatchResult now i b)
    show ?thesis unfolding DispatchResult creator_step.simps record_dispatch_result_def
      by (rule user, rule change_model_ok [OF v]) (auto simp: Let_def)
  next
    case (AcquireSlot now i a limit ttl)
    then show ?thesis using assms by (simp add: creators_ok_def customs_ok_def served_ok_def slot_calls_models)
  next
    case (ReleaseSlot i a)
    then show ?thesis using assms by (simp add: creators_ok_def customs_ok_def served_ok_def slot_calls_models)
  qed
qed

lemma creators_run_ok: "creators_ok (fold creator_step cs empty_creators)"
proof -
  have "creators_ok s \<Longrightarrow> creators_ok (fold creator_step cs s)" for s
    by (induction cs arbitrary: s) (auto simp: creator_step_ok)
  moreover have "creators_ok empty_creators"
    by (simp add: creators_ok_def customs_ok_def served_ok_def empty_creators_def table_ok_def owned_count_def)
  ultimately show ?thesis by blast
qed

subsection \<open>Concurrency slots\<close>

abbreviation slots_of :: "creator_store \<Rightarrow> string \<Rightarrow> (string, instant) dict" where
  "slots_of s k \<equiv> dget_or [] (slots s) k"

definition slots_within :: "int \<Rightarrow> string \<Rightarrow> creator_store \<Rightarrow> bool" where
  "slots_within L k s \<longleftrightarrow> distinct (map fst (slots_of s k)) \<and> int (length (slots_of s k)) \<le> L"

definition limits_within :: "int \<Rightarrow> string \<Rightarrow> creator_call \<Rightarrow> bool" where
  "limits_within L k c = (case c of AcquireSlot now i a limit ttl \<Rightarrow> normalize_model_id i = k \<longrightarrow> limit \<le> L | _ \<Rightarrow> True)"

lemma distinct_live: "distinct (map fst d) \<Longrightarrow> distinct (map fst (live_slots now d))"
  unfolding live_slots_def by (rule distinct_map_filter)

lemma acquire_slot_within:
  assumes "slots_within L k s" "normalize_model_id i = k \<longrightarrow> limit \<le> L"
  shows "slots_within L k (snd (acquire_slot now i a limit ttl s))"
proof (cases "normalize_model_id i = k")
  case True
  let ?d = "live_slots now (slots_of s k)"
  have "length ?d \<le> length (slots_of s k)" unfolding live_slots_def by (rule length_filter_le)
  then have d: "distinct (map fst ?d)" "int (length ?d) \<le> L"
    using assms(1) distinct_live [of "slots_of s k" now] by (simp_all add: slots_within_def)
  have "limit \<le> L" using assms(2) True by simp
  then show ?thesis
    using d True length_dset [of a "now + max 1 ttl * 1000000" ?d]
    by (auto simp: slots_within_def acquire_slot_def Let_def distinct_update)
next
  case False
  then show ?thesis using assms(1) by (auto simp: slots_within_def acquire_slot_def Let_def)
qed

lemma release_slot_within: "slots_within L k s \<Longrightarrow> slots_within L k (release_slot i a s)"
proof -
  assume w: "slots_within L k s"
  have "dget (slots (release_slot i a s)) k = None \<or> (\<exists>d. dget (slots s) k = Some d \<and>
      (dget (slots (release_slot i a s)) k = Some d \<or> dget (slots (release_slot i a s)) k = Some (dpop a d)))"
    by (auto simp: release_slot_def Let_def split: option.split)
  moreover have "0 \<le> L" using w by (auto simp: slots_within_def)
  ultimately show ?thesis
    using w by (auto simp: slots_within_def dget_or_def distinct_delete intro: order_trans [OF _ w [unfolded slots_within_def, THEN conjunct2]])
      (meson length_dpop of_nat_mono order_trans)
qed

lemma creator_step_slots:
  assumes "creators_ok s" "\<And>now i a limit ttl. c \<noteq> AcquireSlot now i a limit ttl" "\<And>i a. c \<noteq> ReleaseSlot i a"
  shows "slots (creator_step c s) = slots s"
proof -
  have ok: "customs_ok s" "served_ok s" using assms(1) by (simp_all add: creators_ok_def)
  have change: "slots (snd (change_model r f s)) = slots s" for r f by (simp add: change_model_def split: sum.split)
  show ?thesis
  proof (cases c)
    case (CreateCustom now draws u name slug m)
    then show ?thesis using custom_create_ok [OF ok(1) prod.collapse [symmetric]]
      by (simp add: create_custom_model_def split: sum.split)
  next
    case (UpdateCustom now i owner p)
    then show ?thesis using custom_update_ok [OF ok(1) prod.collapse [symmetric]] by (simp add: update_custom_model_def)
  next
    case (CreateServed now draws u name slug m)
    then show ?thesis using user_create_ok [OF ok(2) prod.collapse [symmetric]]
      by (simp add: create_user_model_def split: sum.split)
  next
    case (UpdateServed now i owner p)
    then show ?thesis using user_update_ok [OF ok(2) prod.collapse [symmetric]] by (simp add: update_user_model_def)
  qed (use assms(2,3) change in \<open>auto simp: custom_delete_def user_delete_def set_online_def user_record_heartbeat_def
        record_probe_def record_dispatch_result_def split: option.split\<close>)
qed

lemma slots_run_within:
  assumes "\<forall>c \<in> set cs. limits_within L k c" "0 \<le> L"
  shows "slots_within L k (fold creator_step cs empty_creators)"
proof -
  have "creators_ok s \<Longrightarrow> slots_within L k s \<Longrightarrow> slots_within L k (fold creator_step cs s)" for s
    using assms(1)
  proof (induction cs arbitrary: s)
    case (Cons c cs)
    have "slots_within L k (creator_step c s)"
    proof (cases "(\<exists>now i a limit ttl. c = AcquireSlot now i a limit ttl) \<or> (\<exists>i a. c = ReleaseSlot i a)")
      case True
      then show ?thesis
        using Cons.prems acquire_slot_within [of L k s] release_slot_within [of L k s] by (auto simp: limits_within_def)
    next
      case False
      then have "slots (creator_step c s) = slots s" using creator_step_slots [OF Cons.prems(1)] by blast
      then show ?thesis using Cons.prems(2) by (simp add: slots_within_def)
    qed
    then show ?case using Cons.IH creator_step_ok [OF Cons.prems(1)] Cons.prems(3) by simp
  qed simp
  moreover have "slots_within L k empty_creators" using assms(2) by (simp add: slots_within_def empty_creators_def)
  moreover have "creators_ok empty_creators" using creators_run_ok [of "[]"] by simp
  ultimately show ?thesis by blast
qed

section \<open>Properties\<close>

text \<open>C34. The tables of published models stay well formed.  After any sequence of creations, updates, renames,
  deletions, status reports and slot calls: every model is filed under its own id, which is its
  namespace prefix, its owner's username and its slug, and any spelling that normalizes to that id
  finds it; the markup of a wrapped model is within its bounds; and no user has more than ten wrapped or
  three served models.\<close>

theorem creator_models_wellformed:
  fixes cs :: "creator_call list"
  defines "s \<equiv> fold creator_step cs empty_creators"
  shows "(\<forall>k m. dget (custom_models s) k = Some m \<longrightarrow> cu_id m = k \<and> k = ''tr-custom-model/'' @ cu_owner_username m @ ''-'' @ cu_slug m \<and>
      0 \<le> cu_markup m \<and> cu_markup m \<le> 30000 \<and> (\<forall>i. normalize_model_id i = k \<longrightarrow> get_custom_model i s = Some m) \<and> normalize_model_id k = k) \<and>
    (\<forall>k m. dget (user_models s) k = Some m \<longrightarrow> um_id m = k \<and> k = ''tr-user-model/'' @ um_owner_username m @ ''-'' @ um_slug m \<and>
      (\<forall>i. normalize_model_id i = k \<longrightarrow> get_user_model i s = Some m) \<and> normalize_model_id k = k) \<and>
    (\<forall>owner. length (filter (\<lambda>m. cu_owner_user_id m = owner) (dvals (custom_models s))) \<le> 10 \<and>
      length (filter (\<lambda>m. um_owner_user_id m = owner) (dvals (user_models s))) \<le> 3)"
proof -
  have ok: "customs_ok s" "served_ok s" using creators_run_ok [of cs] by (simp_all add: creators_ok_def s_def)
  have c: "table_ok cu_id cu_owner_user_id cu_owner_username cu_slug CUSTOM_MODEL_PREFIX CUSTOM_MODEL_LIMIT_PER_USER (custom_models s)"
    using ok(1) by (simp add: customs_ok_def)
  have "cu_id m = k \<and> k = ''tr-custom-model/'' @ cu_owner_username m @ ''-'' @ cu_slug m \<and> 0 \<le> cu_markup m \<and> cu_markup m \<le> 30000 \<and>
      normalize_model_id k = k" if "dget (custom_models s) k = Some m" for k m
    using that c ok(1) by (auto simp: table_ok_def key_ok_def customs_ok_def CUSTOM_MODEL_PREFIX_def MAX_CUSTOM_MODEL_MARKUP_BASIS_POINTS_def)
  moreover have "um_id m = k \<and> k = ''tr-user-model/'' @ um_owner_username m @ ''-'' @ um_slug m \<and> normalize_model_id k = k"
    if "dget (user_models s) k = Some m" for k m
    using that ok(2) by (auto simp: served_ok_def table_ok_def key_ok_def USER_PROVIDED_MODEL_PREFIX_def)
  moreover have "owned_count cu_owner_user_id w (custom_models s) \<le> 10" "owned_count um_owner_user_id w (user_models s) \<le> 3" for w
    using c ok(2) by (simp_all add: served_ok_def table_ok_def CUSTOM_MODEL_LIMIT_PER_USER_def USER_PROVIDED_MODEL_LIMIT_PER_USER_def)
  ultimately show ?thesis unfolding owned_count_def get_custom_model_def get_user_model_def by blast
qed

definition demo_custom :: "string \<Rightarrow> custom_model" where
  "demo_custom name = \<lparr>cu_id = [], cu_owner_user_id = ''u'', cu_owner_workspace_id = ''w'', cu_name = name, cu_base_model_id = ''b'',
     cu_hidden_prompt = ''p'', cu_owner_username = [], cu_slug = [], cu_markup = 500, cu_revision = 1, cu_enabled = True,
     cu_created_at = 0, cu_updated_at = None\<rparr>"

definition demo_custom_calls :: "creator_call list" where
  "demo_custom_calls = [CreateCustom 1 [] None (Some ''ada'') (Some '' Helper '') (demo_custom ''n''),
     UpdateCustom 2 ''tr-custom-model/ada-helper'' ''u'' \<lparr>cq_slug = Some ''aid'', cq_name = None, cq_base_model_id = None,
       cq_hidden_prompt = None, cq_markup = Some 700, cq_enabled = None\<rparr>]"

theorem creator_models_wellformed_witness:
  "map (\<lambda>m. (cu_slug m, cu_markup m, cu_revision m)) (dvals (custom_models (fold creator_step demo_custom_calls empty_creators))) =
     [(''aid'', 700, 2)] \<and>
   map_option cu_name (get_custom_model '' TR-Custom-Model/ada-AID'' (fold creator_step demo_custom_calls empty_creators)) = Some ''n''"
proof -
  let ?s = "fold creator_step demo_custom_calls empty_creators"
  have e: "map (\<lambda>(k, m). (k, cu_slug m, cu_markup m, cu_revision m, cu_name m)) (custom_models ?s) = [(''tr-custom-model/ada-aid'', ''aid'', 700, 2, ''n'')]"
    by code_simp
  then obtain m where m: "custom_models ?s = [(''tr-custom-model/ada-aid'', m)]" "cu_name m = ''n''" "cu_slug m = ''aid''" "cu_markup m = 700"
      "cu_revision m = 2" by auto
  have "normalize_model_id '' TR-Custom-Model/ada-AID'' = ''tr-custom-model/ada-aid''" by code_simp
  then have "get_custom_model '' TR-Custom-Model/ada-AID'' ?s = Some m"
    using creator_models_wellformed [of demo_custom_calls] m(1) by simp
  then show ?thesis using m by simp
qed


definition demo_slot_calls :: "creator_call list" where
  "demo_slot_calls = [AcquireSlot 0 ''M'' ''a'' 2 10, AcquireSlot 1 ''m'' ''b'' 2 10, AcquireSlot 2 ''m'' ''c'' 2 10, ReleaseSlot ''m'' ''a'']"


text \<open>A markup is recovered exactly from the charge that contains it.  The charge of a request on a wrapped
  model is the token cost with the wrapper's markup, plus protected tool costs, with the app's markup on
  top; from that final charge the settlement recovers exactly the wrapper's markup, and from any charge
  that was cut below it a markup between zero and that one, so that no owner is paid more than was
  collected for them.\<close>

theorem collected_markup_exact:
  assumes "0 \<le> token_cost" "0 \<le> tools" "0 < custom_bp" "0 \<le> app_bp"
  defines "markup \<equiv> custom_model_markup_microdollars token_cost custom_bp"
  defines "final \<equiv> token_cost + markup + tools + app_markup_microdollars (token_cost + markup + tools) app_bp"
  shows "collected_custom_model_markup_microdollars final custom_bp app_bp tools = Inr markup \<and>
    (\<forall>charge. 0 \<le> charge \<and> charge \<le> final \<longrightarrow>
      (\<exists>m. collected_custom_model_markup_microdollars charge custom_bp app_bp tools = Inr m \<and> 0 \<le> m \<and> m \<le> markup))"
proof -
  define base where "base = token_cost + markup + tools"
  have m0: "0 \<le> markup" unfolding markup_def custom_model_markup_microdollars_def app_markup_microdollars_def
    using assms(1,3) by (simp add: pos_imp_zdiv_nonneg_iff)
  have base0: "0 \<le> base" using m0 assms(1,2) by (simp add: base_def)
  have app: "final * app_bp div (10000 + app_bp) = final - base"
    using app_markup_split [OF base0 assms(4)] assms(4) by (simp add: app_markup_microdollars_from_charge_def final_def base_def)
  have own: "(token_cost + markup) * custom_bp div (10000 + custom_bp) = markup"
    using app_markup_split [of token_cost custom_bp] assms(1,3)
    by (simp add: app_markup_microdollars_from_charge_def markup_def custom_model_markup_microdollars_def)
  have net: "collected_custom_model_markup_microdollars charge custom_bp app_bp tools =
      Inr (max 0 (charge - charge * app_bp div (10000 + app_bp) - tools) * custom_bp div (10000 + custom_bp))" for charge
    using assms(2-4) by (auto simp: collected_custom_model_markup_microdollars_def custom_model_markup_microdollars_from_charge_def
        app_markup_microdollars_from_charge_def)
  have fin: "max 0 (final - final * app_bp div (10000 + app_bp) - tools) = token_cost + markup"
    using app assms(1) m0 by (simp add: base_def)
  have "\<exists>m. collected_custom_model_markup_microdollars charge custom_bp app_bp tools = Inr m \<and> 0 \<le> m \<and> m \<le> markup"
    if "0 \<le> charge" "charge \<le> final" for charge
  proof -
    have "max 0 (charge - charge * app_bp div (10000 + app_bp) - tools) \<le> token_cost + markup"
      using from_charge_mono(3) [OF assms(4) that] fin by linarith
    then show ?thesis
      unfolding net using from_charge_mono(1,2) [of custom_bp _ "token_cost + markup"] assms(3) own by (auto intro!: exI)
  qed
  moreover have "collected_custom_model_markup_microdollars final custom_bp app_bp tools = Inr markup" unfolding net fin own ..
  ultimately show ?thesis by blast
qed

theorem collected_markup_exact_witness:
  "custom_model_markup_microdollars 333 1500 = 49 \<and> app_markup_microdollars (333 + 49 + 7) 1000 = 38 \<and>
   collected_custom_model_markup_microdollars (333 + 49 + 7 + 38) 1500 1000 7 = Inr 49"
proof -
  have m: "custom_model_markup_microdollars 333 1500 = 49" "app_markup_microdollars (333 + 49 + 7) 1000 = 38"
    by (simp_all add: custom_model_markup_microdollars_def app_markup_microdollars_def)
  show ?thesis using collected_markup_exact [of 333 7 1500 1000] m by simp
qed

subsection \<open>Two behaviours of updates\<close>

text \<open>A patch with a markup out of bounds is refused after the text fields were assigned: the name changes although the
  update raises, and the revision does not.\<close>

theorem refused_update_changes_name:
  "(case custom_update 2 ''tr-custom-model/ada-helper'' ''u'' \<lparr>cq_slug = None, cq_name = Some ''new'', cq_base_model_id = None,
       cq_hidden_prompt = None, cq_markup = Some 30001, cq_enabled = None\<rparr> (\<lambda>_. False)
       (fold creator_step (take 1 demo_custom_calls) empty_creators) of (r, s) \<Rightarrow>
     r = Inl (ValueError ''custom_model_markup_out_of_bounds'') \<and>
     map (\<lambda>m. (cu_name m, cu_revision m)) (dvals (custom_models s)) = [(''new'', 1)])"
  by code_simp

end
