(* ===== verification/Credit_Debt.thy ===== *)
theory Credit_Debt
  imports Prelude
begin

text \<open>
  The pure rules for credit that is spread over shard rows: \<open>credit_debt.py\<close> and the partition
  functions of \<open>storage_gcp_counters.py\<close>.  A workspace has one credit row per shard; the headroom of a
  row is its credit less its usage and reservations.  \<open>cover\<close> is the only unbounded loop of the module:
  each round empties a negative or a positive row, which is its termination measure, and its inner
  \<open>next\<close> raises \<open>StopIteration\<close> when there is no positive row.  The properties at the end say that a
  write always ends with rows that are all covered or all marked, that money coming in is neither lost
  nor duplicated, and that the escrow sub-budgets of a capped key add up to the cap.
\<close>

section \<open>The debt rules\<close>

record squared =
  sq_headroom :: "int list"
  sq_marked :: bool

record inflow =
  in_headroom :: "int list"
  in_marked :: bool
  in_left :: int

definition headroom_rows :: "int list \<Rightarrow> int list result" where
  "headroom_rows headroom =
     (if headroom = [] then Inl (ValueError ''a workspace has at least one credit row'') else Inr headroom)"

text \<open>\<open>next((i for i, value in enumerate(rows) if P(value)), None)\<close>.\<close>

fun first_shard :: "(int \<Rightarrow> bool) \<Rightarrow> int list \<Rightarrow> nat option" where
  "first_shard P [] = None"
| "first_shard P (v # rows) = (if P v then Some 0 else map_option Suc (first_shard P rows))"

lemma first_shard_SomeD: "first_shard P rows = Some i \<Longrightarrow> i < length rows \<and> P (rows ! i)"
  by (induction rows arbitrary: i) (auto split: if_splits)

lemma first_shard_None: "first_shard P rows = None \<longleftrightarrow> (\<forall>v \<in> set rows. \<not> P v)"
  by (induction rows) auto

definition cover_step :: "nat \<Rightarrow> nat \<Rightarrow> int list \<Rightarrow> int list" where
  "cover_step negative positive rows =
     (let moved = min (- (rows ! negative)) (rows ! positive)
      in rows[negative := rows ! negative + moved, positive := rows ! positive - moved])"

definition unsettled :: "int list \<Rightarrow> nat" where
  "unsettled rows = length (filter (\<lambda>v. v \<noteq> 0) rows)"

lemma unsettled_update:
  assumes "i < length rows"
  shows "unsettled (rows[i := v]) + (if rows ! i = 0 then 0 else 1) = unsettled rows + (if v = 0 then 0 else 1)"
  using assms
proof (induction rows arbitrary: i)
  case (Cons a rows)
  show ?case
  proof (cases i)
    case (Suc j)
    then show ?thesis using Cons.IH [of j] Cons.prems by (auto simp: unsettled_def split: if_splits)
  qed (simp add: unsettled_def)
qed simp

lemma sum_list_update_int: "i < length xs \<Longrightarrow> sum_list (xs[i := v]) = sum_list xs - xs ! i + (v :: int)"
proof (induction xs arbitrary: i)
  case (Cons a xs)
  show ?case
  proof (cases i)
    case (Suc j)
    then show ?thesis using Cons.IH [of j] Cons.prems by simp
  qed simp
qed simp

lemma cover_step_measure:
  assumes "n < length rows" "p < length rows" "rows ! n < 0" "0 < rows ! p"
  shows "unsettled (cover_step n p rows) < unsettled rows"
proof -
  let ?m = "min (- (rows ! n)) (rows ! p)" let ?a = "rows[n := rows ! n + ?m]"
  have "n \<noteq> p" using assms by auto
  then show ?thesis
    using unsettled_update [OF assms(1), of "rows ! n + ?m"]
      unsettled_update [of p ?a "rows ! p - ?m"] assms
    by (auto simp: cover_step_def Let_def min_def split: if_splits)
qed

function cover_loop :: "int list \<Rightarrow> int list result" where
  "cover_loop rows =
     (case first_shard (\<lambda>v. v < 0) rows of None \<Rightarrow> Inr rows
      | Some negative \<Rightarrow>
          (case first_shard (\<lambda>v. v > 0) rows of None \<Rightarrow> Inl StopIteration
           | Some positive \<Rightarrow> cover_loop (cover_step negative positive rows)))"
  by pat_completeness auto
termination
  by (relation "measure unsettled") (auto intro!: cover_step_measure dest: first_shard_SomeD)

declare cover_loop.simps [simp del]

definition cover :: "int list \<Rightarrow> int list result" where
  "cover headroom =
     (case headroom_rows headroom of Inl e \<Rightarrow> Inl e
      | Inr rows \<Rightarrow>
          (if sum_list rows < 0 then Inl (ValueError ''rows whose signed sum is negative are marked, not covered'')
           else cover_loop rows))"

definition square :: "int list \<Rightarrow> squared result" where
  "square headroom =
     (case headroom_rows headroom of Inl e \<Rightarrow> Inl e
      | Inr rows \<Rightarrow>
          (if sum_list rows < 0 then Inr \<lparr>sq_headroom = rows, sq_marked = True\<rparr>
           else case cover rows of Inl e \<Rightarrow> Inl e | Inr r \<Rightarrow> Inr \<lparr>sq_headroom = r, sq_marked = False\<rparr>))"

text \<open>The loop of \<open>repay\<close>, which stops at the first row after the money has run out.\<close>

fun repay_rows :: "int list \<Rightarrow> int \<Rightarrow> int list \<times> int" where
  "repay_rows [] left = ([], left)"
| "repay_rows (v # rows) left =
     (if left = 0 then (v # rows, left)
      else let paid = (if v < 0 then min left (- v) else 0) in
           case repay_rows rows (left - paid) of (rows', left') \<Rightarrow> ((v + paid) # rows', left'))"

definition repay :: "int list \<Rightarrow> int \<Rightarrow> (int list \<times> int) result" where
  "repay headroom amount =
     (case headroom_rows headroom of Inl e \<Rightarrow> Inl e
      | Inr rows \<Rightarrow>
          (if amount < 0 then Inl (ValueError ''money coming in is not negative'')
           else Inr (repay_rows rows amount)))"

definition take_inflow :: "int list \<Rightarrow> int \<Rightarrow> inflow result" where
  "take_inflow headroom amount =
     (case repay headroom amount of Inl e \<Rightarrow> Inl e
      | Inr (repaid, left) \<Rightarrow>
          (if sum_list repaid < 0 then Inr \<lparr>in_headroom = repaid, in_marked = True, in_left = 0\<rparr>
           else case cover repaid of Inl e \<Rightarrow> Inl e
            | Inr r \<Rightarrow> Inr \<lparr>in_headroom = r, in_marked = False, in_left = left\<rparr>))"

definition credit_deltas :: "int list \<Rightarrow> int list \<Rightarrow> int list result" where
  "credit_deltas before after =
     (if length before \<noteq> length after then Inl (ValueError ''zip() arguments have different lengths'')
      else Inr (map (\<lambda>(old, new). new - old) (zip before after)))"

section \<open>Partitions of a grant and of a key cap\<close>

definition UNSHARDED :: nat where
  "UNSHARDED = 0"

definition MAX_CREDIT_SHARDS :: int where
  "MAX_CREDIT_SHARDS = 64"

definition MAX_KEY_USAGE_SHARDS :: int where
  "MAX_KEY_USAGE_SHARDS = 64"

definition credit_shard_count :: "int \<Rightarrow> int result" where
  "credit_shard_count count =
     (if count < 1 then Inl (ValueError ''credit shard_count must be a positive integer'')
      else if count > MAX_CREDIT_SHARDS then Inl (ValueError ''credit shard_count must not exceed 64'')
      else Inr count)"

definition key_usage_shard_count :: "bool \<Rightarrow> int \<Rightarrow> int result" where
  "key_usage_shard_count budget_strict count =
     (if budget_strict \<and> count \<noteq> 1 then Inl (ValueError ''strict window budgets require one key counter shard'')
      else if count < 1 then Inl (ValueError ''key usage_shard_count must be a positive integer'')
      else if count > MAX_KEY_USAGE_SHARDS then Inl (ValueError ''key usage_shard_count must not exceed 64'')
      else Inr count)"

definition distribute_credit_amount :: "int \<Rightarrow> int \<Rightarrow> int list result" where
  "distribute_credit_amount amount shard_count =
     (if shard_count < 1 then Inl (ValueError ''credit shard_count must be a positive integer'')
      else let sign = (if amount < 0 then -1 else 1);
               per_shard = \<bar>amount\<bar> div shard_count; remainder = \<bar>amount\<bar> mod shard_count;
               values = replicate (nat shard_count) (sign * per_shard)
           in Inr (values[UNSHARDED := values ! UNSHARDED + sign * remainder]))"

text \<open>The consumption of each shard; the first shard with a negative counter stops the loop.\<close>

fun consumed_parts :: "bool \<Rightarrow> (int \<times> int \<times> int) list \<Rightarrow> int list result" where
  "consumed_parts include_byok [] = Inr []"
| "consumed_parts include_byok ((usage, byok_usage, reserved) # parts) =
     (if usage < 0 \<or> byok_usage < 0 \<or> reserved < 0
      then Inl (ValueError ''key limit partition counters must not be negative'')
      else case consumed_parts include_byok parts of Inl e \<Rightarrow> Inl e
       | Inr cs \<Rightarrow> Inr ((usage + (if include_byok then byok_usage else 0) + reserved) # cs))"

text \<open>\<open>sorted(range(n), key=lambda i: (allocations[i], -i), reverse=True)\<close>: largest allocation first,
  lower shard first among equals.  All keys differ, so reversing the ascending order is the same.\<close>

definition reduction_order :: "int list \<Rightarrow> nat list" where
  "reduction_order allocations = rev (sort_key (\<lambda>i. allocations ! i) (rev [0..<length allocations]))"

fun reduce_allocations :: "nat list \<Rightarrow> int list \<Rightarrow> int \<Rightarrow> int list \<times> int" where
  "reduce_allocations [] allocations deficit = (allocations, deficit)"
| "reduce_allocations (shard # shards) allocations deficit =
     (let reduction = min (allocations ! shard) deficit;
          allocations' = allocations[shard := allocations ! shard - reduction];
          deficit' = deficit - reduction
      in if deficit' = 0 then (allocations', deficit') else reduce_allocations shards allocations' deficit')"

definition partition_key_limit ::
    "int option \<Rightarrow> int list \<Rightarrow> int list \<Rightarrow> int list \<Rightarrow> bool \<Rightarrow> int option list result" where
  "partition_key_limit limit_micro usage_parts byok_usage_parts reserved_parts include_byok =
     (let shard_count = length usage_parts
      in if shard_count < 1 then Inl (ValueError ''key limit partition requires at least one shard'')
         else if length byok_usage_parts \<noteq> shard_count \<or> length reserved_parts \<noteq> shard_count
         then Inl (ValueError ''key limit partition inputs must have equal lengths'')
         else case limit_micro of None \<Rightarrow> Inr (replicate shard_count None)
         | Some limit \<Rightarrow>
            (if limit < 0 then Inl (ValueError ''key lifetime limit must not be negative'')
             else case consumed_parts include_byok (zip usage_parts (zip byok_usage_parts reserved_parts)) of
                 Inl e \<Rightarrow> Inl e
               | Inr consumed \<Rightarrow>
                  (let remaining = limit - sum_list consumed
                   in if remaining \<ge> 0
                      then (case distribute_credit_amount remaining (int shard_count) of Inl e \<Rightarrow> Inl e
                            | Inr headroom \<Rightarrow> Inr (map (\<lambda>(current, extra). Some (current + extra)) (zip consumed headroom)))
                      else (case reduce_allocations (reduction_order consumed) consumed (- remaining) of
                              (allocations, deficit) \<Rightarrow>
                                if deficit \<noteq> 0 then Inl AssertionError
                                else Inr (map Some allocations)))))"

section \<open>Covering and repaying\<close>

lemma cover_step_facts:
  assumes "first_shard (\<lambda>v. v < 0) rows = Some n" "first_shard (\<lambda>v. v > 0) rows = Some p"
  shows "length (cover_step n p rows) = length rows" "sum_list (cover_step n p rows) = sum_list rows"
    "i < length rows \<Longrightarrow> min 0 (rows ! i) \<le> cover_step n p rows ! i \<and> cover_step n p rows ! i \<le> max 0 (rows ! i)"
proof -
  have n: "n < length rows" "rows ! n < 0" and p: "p < length rows" "0 < rows ! p"
    using assms by (auto dest: first_shard_SomeD)
  then have "n \<noteq> p" by auto
  then show "length (cover_step n p rows) = length rows" "sum_list (cover_step n p rows) = sum_list rows"
    using n p by (simp_all add: cover_step_def Let_def sum_list_update_int)
  show "min 0 (rows ! i) \<le> cover_step n p rows ! i \<and> cover_step n p rows ! i \<le> max 0 (rows ! i)" if "i < length rows"
    using n p \<open>n \<noteq> p\<close> that by (auto simp: cover_step_def Let_def nth_list_update min_def)
qed

lemma sum_list_negative:
  assumes "v \<in> set rows" "v < 0" "0 \<le> sum_list (rows :: int list)"
  shows "\<exists>u \<in> set rows. 0 < u"
proof (rule ccontr)
  assume "\<not> ?thesis"
  then have "\<forall>u \<in> set rows. u \<le> 0" by auto
  then have "sum_list rows < 0" using assms(1,2)
  proof (induction rows)
    case (Cons u rows)
    have "sum_list rows \<le> 0" using Cons.prems(1) by (auto intro: sum_list_nonpos)
    then show ?case using Cons by (cases "v = u") auto
  qed simp
  then show False using assms(3) by simp
qed

text \<open>The loop always returns: with a signed sum that is not negative, a negative row has a donor.\<close>

lemma cover_loop_covers:
  "0 \<le> sum_list rows \<Longrightarrow> \<exists>r. cover_loop rows = Inr r \<and> length r = length rows \<and> sum_list r = sum_list rows \<and>
     (\<forall>i < length rows. 0 \<le> r ! i \<and> r ! i \<le> max 0 (rows ! i))"
proof (induction rows rule: cover_loop.induct)
  case (1 rows)
  show ?case
  proof (cases "first_shard (\<lambda>v. v < 0) rows")
    case None
    then have "cover_loop rows = Inr rows" by (simp add: cover_loop.simps [of rows])
    moreover have "\<forall>v \<in> set rows. 0 \<le> v" using None by (auto simp: first_shard_None not_less)
    ultimately show ?thesis by (simp add: all_set_conv_all_nth)
  next
    case n: (Some n)
    then have "\<exists>v \<in> set rows. v < 0" using first_shard_SomeD nth_mem by blast
    then have "\<exists>u \<in> set rows. 0 < u" using sum_list_negative 1 by blast
    then obtain p where p: "first_shard (\<lambda>v. v > 0) rows = Some p"
      using first_shard_None [of "\<lambda>v. v > 0" rows] by fastforce
    note facts = cover_step_facts [OF n p]
    obtain r where r: "cover_loop (cover_step n p rows) = Inr r" "length r = length rows" "sum_list r = sum_list rows"
        "\<forall>i < length rows. 0 \<le> r ! i \<and> r ! i \<le> max 0 (cover_step n p rows ! i)"
      using 1(1) [OF n p] 1(2) facts(1,2) by auto
    have "\<forall>i < length rows. r ! i \<le> max 0 (rows ! i)" using r(4) facts(3) by fastforce
    then show ?thesis using r n p by (auto simp: cover_loop.simps [of rows])
  qed
qed

lemma cover_covers:
  assumes "rows \<noteq> []" "0 \<le> sum_list rows"
  obtains r where "cover rows = Inr r" "length r = length rows" "sum_list r = sum_list rows"
    "\<forall>i < length rows. 0 \<le> r ! i \<and> r ! i \<le> max 0 (rows ! i)"
  using cover_loop_covers [OF assms(2)] assms by (auto simp: cover_def headroom_rows_def)

lemma repay_rows_facts:
  "repay_rows rows amount = (r, left) \<Longrightarrow> 0 \<le> amount \<Longrightarrow>
     length r = length rows \<and> sum_list r + left = sum_list rows + amount \<and> 0 \<le> left \<and>
     (\<forall>i < length rows. rows ! i \<le> r ! i \<and> r ! i \<le> max 0 (rows ! i)) \<and> (0 < left \<longrightarrow> (\<forall>v \<in> set r. 0 \<le> v))"
proof (induction rows arbitrary: amount r left)
  case (Cons v rows)
  show ?case
  proof (cases "amount = 0")
    case False
    define paid where "paid = (if v < 0 then min amount (- v) else 0)"
    obtain r' where r': "repay_rows rows (amount - paid) = (r', left)" "r = (v + paid) # r'"
      using Cons.prems(1) False by (auto simp: paid_def Let_def split: prod.splits)
    have "0 \<le> amount - paid" using Cons.prems(2) by (auto simp: paid_def)
    note IH = Cons.IH [OF r'(1) this]
    have "0 < left \<longrightarrow> 0 \<le> v + paid"
    proof
      assume "0 < left"
      show "0 \<le> v + paid"
      proof (rule ccontr)
        assume "\<not> 0 \<le> v + paid"
        then have "amount - paid = 0" by (auto simp: paid_def min_def split: if_splits)
        then have "left = 0" using r'(1) by (cases rows) auto
        then show False using \<open>0 < left\<close> by simp
      qed
    qed
    moreover have "v \<le> v + paid \<and> v + paid \<le> max 0 v" using Cons.prems(2) by (auto simp: paid_def)
    ultimately show ?thesis using IH r'(2) by (auto simp: nth_Cons' less_Suc_eq_0_disj)
  qed (use Cons.prems in auto)
qed simp

lemma sum_list_nth_nonneg: "\<forall>i < length xs. 0 \<le> xs ! i \<Longrightarrow> 0 \<le> sum_list (xs :: int list)"
  by (intro sum_list_nonneg) (auto simp: in_set_conv_nth)

lemma square_facts:
  assumes "rows \<noteq> []"
  obtains q where "square rows = Inr q" "length (sq_headroom q) = length rows"
    "sum_list (sq_headroom q) = sum_list rows" "sq_marked q \<longleftrightarrow> sum_list rows < 0"
    "sq_marked q \<longrightarrow> sq_headroom q = rows"
    "\<not> sq_marked q \<longrightarrow> (\<forall>i < length rows. 0 \<le> sq_headroom q ! i \<and> sq_headroom q ! i \<le> max 0 (rows ! i))"
proof (cases "sum_list rows < 0")
  case True
  then show ?thesis using assms by (intro that) (auto simp: square_def headroom_rows_def)
next
  case False
  then obtain r where "cover rows = Inr r" "length r = length rows" "sum_list r = sum_list rows"
    "\<forall>i < length rows. 0 \<le> r ! i \<and> r ! i \<le> max 0 (rows ! i)" using cover_covers [OF assms] by (metis not_less)
  then show ?thesis using assms False by (intro that) (auto simp: square_def headroom_rows_def)
qed

lemma take_inflow_facts:
  assumes "rows \<noteq> []" "0 \<le> amount"
  obtains f where "take_inflow rows amount = Inr f" "length (in_headroom f) = length rows"
    "sum_list (in_headroom f) + in_left f = sum_list rows + amount" "0 \<le> in_left f"
    "in_marked f \<longleftrightarrow> sum_list rows + amount < 0" "in_marked f \<longrightarrow> in_left f = 0"
    "in_marked f \<longrightarrow> (\<forall>i < length rows. rows ! i \<le> in_headroom f ! i)"
    "\<not> in_marked f \<longrightarrow> (\<forall>v \<in> set (in_headroom f). 0 \<le> v)"
proof -
  obtain r left where r: "repay_rows rows amount = (r, left)" by fastforce
  note f = repay_rows_facts [OF r assms(2)]
  have repay: "repay rows amount = Inr (r, left)" using assms r by (simp add: repay_def headroom_rows_def)
  have pos: "0 < left \<Longrightarrow> 0 \<le> sum_list r" using f by (auto intro: sum_list_nonneg)
  show ?thesis
  proof (cases "sum_list r < 0")
    case True
    then have "left = 0" using pos f by fastforce
    then show ?thesis using True f repay by (intro that) (auto simp: take_inflow_def)
  next
    case False
    have "r \<noteq> []" using f assms(1) by auto
    then obtain c where "cover r = Inr c" "length c = length r" "sum_list c = sum_list r"
      "\<forall>i < length r. 0 \<le> c ! i \<and> c ! i \<le> max 0 (r ! i)" using cover_covers False by (metis not_less)
    then show ?thesis
      using False f repay by (intro that) (auto simp: take_inflow_def all_set_conv_all_nth)
  qed
qed

section \<open>Partitions\<close>

lemma distribute_facts:
  assumes "1 \<le> n" "0 \<le> amount"
  obtains parts where "distribute_credit_amount amount n = Inr parts" "length parts = nat n"
    "sum_list parts = amount" "\<forall>i < length parts. 0 \<le> parts ! i"
proof -
  let ?v = "replicate (nat n) (amount div n)" let ?p = "?v[0 := ?v ! 0 + amount mod n]"
  have 0: "0 < nat n" using assms(1) by simp
  have "sum_list ?p = amount"
    using 0 assms(1) by (simp add: sum_list_update_int sum_list_replicate)
  moreover have "distribute_credit_amount amount n = Inr ?p"
    using assms 0 by (simp add: distribute_credit_amount_def UNSHARDED_def Let_def)
  moreover have "\<forall>i < length ?p. 0 \<le> ?p ! i"
    using assms by (auto simp: nth_list_update pos_imp_zdiv_nonneg_iff)
  ultimately show ?thesis by (intro that) auto
qed

lemma distribute_total:
  assumes "1 \<le> n"
  obtains parts where "distribute_credit_amount amount n = Inr parts" "length parts = nat n" "sum_list parts = amount"
proof -
  define s where "s = (if amount < 0 then -1 else 1 :: int)"
  define q m where "q = \<bar>amount\<bar> div n" and "m = \<bar>amount\<bar> mod n"
  let ?v = "replicate (nat n) (s * q)" let ?p = "?v[0 := ?v ! 0 + s * m]"
  have 0: "0 < nat n" using assms by simp
  have "sum_list ?p = s * (n * q + m)"
    using 0 assms by (simp add: sum_list_update_int sum_list_replicate algebra_simps)
  also have "n * q + m = \<bar>amount\<bar>" by (simp add: q_def m_def)
  also have "s * \<bar>amount\<bar> = amount" by (simp add: s_def)
  finally have "sum_list ?p = amount" .
  moreover have "distribute_credit_amount amount n = Inr ?p"
    using assms by (simp add: distribute_credit_amount_def UNSHARDED_def Let_def s_def q_def m_def)
  ultimately show ?thesis using that [of ?p] by simp
qed

definition part_consumed :: "bool \<Rightarrow> int \<times> int \<times> int \<Rightarrow> int" where
  "part_consumed include_byok x = (case x of (usage, byok_usage, reserved) \<Rightarrow>
     usage + (if include_byok then byok_usage else 0) + reserved)"

lemma consumed_parts_nonneg:
  "\<forall>(u, b, r) \<in> set parts. 0 \<le> u \<and> 0 \<le> b \<and> 0 \<le> r \<Longrightarrow> consumed_parts inc parts = Inr (map (part_consumed inc) parts)"
  by (induction inc parts rule: consumed_parts.induct) (auto simp: part_consumed_def)

lemma reduce_allocations_facts:
  "distinct shards \<Longrightarrow> set shards \<subseteq> {..<length a} \<Longrightarrow> \<forall>i < length a. 0 \<le> a ! i \<Longrightarrow> 0 \<le> d \<Longrightarrow>
     d \<le> (\<Sum>i \<in> set shards. a ! i) \<Longrightarrow>
     \<exists>a'. reduce_allocations shards a d = (a', 0) \<and> length a' = length a \<and> sum_list a' = sum_list a - d \<and>
       (\<forall>i < length a. 0 \<le> a' ! i \<and> a' ! i \<le> a ! i)"
proof (induction shards arbitrary: a d)
  case (Cons j shards)
  define m where "m = min (a ! j) d"
  let ?a = "a[j := a ! j - m]"
  have j: "j < length a" "0 \<le> a ! j" "0 \<le> m" "m \<le> d" "m \<le> a ! j" using Cons.prems by (auto simp: m_def)
  have other: "(\<Sum>i \<in> set shards. ?a ! i) = (\<Sum>i \<in> set shards. a ! i)"
    using Cons.prems(1) by (intro sum.cong nth_list_update_neq) auto
  have frame: "length ?a = length a" "sum_list ?a = sum_list a - m" "\<forall>i < length a. 0 \<le> ?a ! i \<and> ?a ! i \<le> a ! i"
    using j Cons.prems(3) by (auto simp: sum_list_update_int nth_list_update)
  have step: "reduce_allocations (j # shards) a d = (if d - m = 0 then (?a, d - m) else reduce_allocations shards ?a (d - m))"
    by (simp add: m_def Let_def)
  show ?case
  proof (cases "d - m = 0")
    case True
    then show ?thesis using frame unfolding step by auto
  next
    case False
    then have "m = a ! j" using j by (auto simp: m_def min_def split: if_splits)
    then have "d - m \<le> (\<Sum>i \<in> set shards. ?a ! i)" using Cons.prems(1,5) unfolding other by simp
    then obtain a' where a': "reduce_allocations shards ?a (d - m) = (a', 0)" "length a' = length a"
        "sum_list a' = sum_list a - m - (d - m)" "\<forall>i < length a. 0 \<le> a' ! i \<and> a' ! i \<le> ?a ! i"
      using Cons.IH [of ?a "d - m"] Cons.prems(1,2) frame j by auto
    have "\<forall>i < length a. a' ! i \<le> a ! i" using a'(4) frame(3) by (meson order_trans)
    then show ?thesis using a' False unfolding step by auto
  qed
qed simp

lemma reduction_order_facts: "distinct (reduction_order a)" "set (reduction_order a) = {..<length a}"
  by (auto simp: reduction_order_def distinct_rev)

lemma reduce_order_total:
  assumes "\<forall>i < length a. 0 \<le> a ! i" "0 \<le> d" "d \<le> sum_list a"
  obtains a' where "reduce_allocations (reduction_order a) a d = (a', 0)" "length a' = length a"
    "sum_list a' = sum_list a - d" "\<forall>i < length a. 0 \<le> a' ! i \<and> a' ! i \<le> a ! i"
proof -
  have "sum_list a = (\<Sum>i \<in> set (reduction_order a). a ! i)"
    by (simp add: reduction_order_facts sum_list_sum_nth atLeast0LessThan)
  then show ?thesis
    using that reduce_allocations_facts [of "reduction_order a" a d] assms by (auto simp: reduction_order_facts)
qed

section \<open>Properties\<close>

text \<open>C11. Every write to the credit rows of a workspace ends squared: the rows are marked exactly when
  their signed sum is negative, and then nothing moves; otherwise the cover loop ends with every row
  between zero and what it had.  Money coming in is on the rows or left over to the last microdollar,
  nothing is left over while a row is still negative, and it unmarks the rows exactly when it makes the
  signed sum non-negative.\<close>

theorem debt_rules_square_rows:
  assumes "rows \<noteq> []" "0 \<le> amount"
  shows "(\<exists>q. square rows = Inr q \<and> length (sq_headroom q) = length rows \<and> sum_list (sq_headroom q) = sum_list rows \<and>
            (sq_marked q \<longleftrightarrow> sum_list rows < 0) \<and> (sq_marked q \<longrightarrow> sq_headroom q = rows) \<and>
            (\<not> sq_marked q \<longrightarrow> (\<forall>i < length rows. 0 \<le> sq_headroom q ! i \<and> sq_headroom q ! i \<le> max 0 (rows ! i)))) \<and>
         (\<exists>f. take_inflow rows amount = Inr f \<and> length (in_headroom f) = length rows \<and>
            sum_list (in_headroom f) + in_left f = sum_list rows + amount \<and> 0 \<le> in_left f \<and>
            (in_marked f \<longleftrightarrow> sum_list rows + amount < 0) \<and> (in_marked f \<longrightarrow> in_left f = 0) \<and>
            (\<not> in_marked f \<longrightarrow> (\<forall>v \<in> set (in_headroom f). 0 \<le> v)))"
proof (intro conjI)
  show "\<exists>q. square rows = Inr q \<and> length (sq_headroom q) = length rows \<and> sum_list (sq_headroom q) = sum_list rows \<and>
            (sq_marked q \<longleftrightarrow> sum_list rows < 0) \<and> (sq_marked q \<longrightarrow> sq_headroom q = rows) \<and>
            (\<not> sq_marked q \<longrightarrow> (\<forall>i < length rows. 0 \<le> sq_headroom q ! i \<and> sq_headroom q ! i \<le> max 0 (rows ! i)))"
    by (rule square_facts [OF assms(1)]) blast
next
  show "\<exists>f. take_inflow rows amount = Inr f \<and> length (in_headroom f) = length rows \<and>
            sum_list (in_headroom f) + in_left f = sum_list rows + amount \<and> 0 \<le> in_left f \<and>
            (in_marked f \<longleftrightarrow> sum_list rows + amount < 0) \<and> (in_marked f \<longrightarrow> in_left f = 0) \<and>
            (\<not> in_marked f \<longrightarrow> (\<forall>v \<in> set (in_headroom f). 0 \<le> v))"
    by (rule take_inflow_facts [OF assms]) blast
qed

theorem debt_rules_square_rows_witness:
  "square [5, -3, 0, -1, 4] = Inr \<lparr>sq_headroom = [1, 0, 0, 0, 4], sq_marked = False\<rparr> \<and>
   take_inflow [5, -9, 1] 2 = Inr \<lparr>in_headroom = [5, -7, 1], in_marked = True, in_left = 0\<rparr> \<and>
   (\<exists>f. take_inflow [5, -9, 1] 2 = Inr f \<and> (in_marked f \<longleftrightarrow> sum_list [5, -9, 1] + (2::int) < 0))"
proof (intro conjI)
  show "square [5, -3, 0, -1, 4] = Inr \<lparr>sq_headroom = [1, 0, 0, 0, 4], sq_marked = False\<rparr>" by code_simp
  show "take_inflow [5, -9, 1] 2 = Inr \<lparr>in_headroom = [5, -7, 1], in_marked = True, in_left = 0\<rparr>" by code_simp
  show "\<exists>f. take_inflow [5, -9, 1] 2 = Inr f \<and> (in_marked f \<longleftrightarrow> sum_list [5, -9, 1] + (2::int) < 0)"
    using debt_rules_square_rows [of "[5, -9, 1]" 2] by auto
qed

lemma sum_list_zip_add:
  "length xs = length ys \<Longrightarrow> sum_list (map (\<lambda>(a, b). a + b) (zip xs ys)) = sum_list xs + sum_list (ys :: int list)"
  by (induction xs ys rule: list_induct2) auto

text \<open>C13. The sub-budgets of a capped key add up to the cap exactly.  While the cap covers what is
  consumed, every shard keeps room for its own consumption; when the cap was lowered below it, no shard
  has headroom left and none is negative.  The assertion that the deficit was exhausted never fails.\<close>

theorem key_limit_partition_exact:
  assumes "parts \<noteq> []" "\<forall>(u, b, r) \<in> set parts. 0 \<le> u \<and> 0 \<le> b \<and> 0 \<le> r" "0 \<le> limit"
  shows "\<exists>rows. partition_key_limit (Some limit) (map fst parts) (map (fst \<circ> snd) parts) (map (snd \<circ> snd) parts) inc =
            Inr (map Some rows) \<and> length rows = length parts \<and> sum_list rows = limit \<and>
          (if sum_list (map (part_consumed inc) parts) \<le> limit
           then \<forall>i < length parts. part_consumed inc (parts ! i) \<le> rows ! i
           else \<forall>i < length parts. 0 \<le> rows ! i \<and> rows ! i \<le> part_consumed inc (parts ! i))"
proof -
  let ?c = "map (part_consumed inc) parts"
  have zip: "zip (map fst parts) (zip (map (fst \<circ> snd) parts) (map (snd \<circ> snd) parts)) = parts"
    by (induction parts) auto
  have c: "consumed_parts inc parts = Inr ?c" by (rule consumed_parts_nonneg [OF assms(2)])
  have nonneg: "\<forall>i < length ?c. 0 \<le> ?c ! i"
    using assms(2) by (fastforce simp: part_consumed_def split: prod.splits dest: nth_mem)
  show ?thesis
  proof (cases "sum_list ?c \<le> limit")
    case True
    obtain h where h: "distribute_credit_amount (limit - sum_list ?c) (int (length parts)) = Inr h"
        "length h = length parts" "sum_list h = limit - sum_list ?c" "\<forall>i < length h. 0 \<le> h ! i"
      using distribute_facts [of "int (length parts)" "limit - sum_list ?c"] assms(1) True
      by (auto simp: Suc_le_eq)
    let ?r = "map (\<lambda>(a, b). a + b) (zip ?c h)"
    have "sum_list ?r = limit" using h(2,3) sum_list_zip_add [of ?c h] by simp
    then show ?thesis
      using assms h True c zip by (intro exI [of _ ?r]) (auto simp: partition_key_limit_def Let_def comp_def case_prod_unfold)
  next
    case False
    then have d: "0 \<le> sum_list ?c - limit" "sum_list ?c - limit \<le> sum_list ?c" using assms(3) by auto
    obtain a where "reduce_allocations (reduction_order ?c) ?c (sum_list ?c - limit) = (a, 0)" "length a = length ?c"
        "sum_list a = sum_list ?c - (sum_list ?c - limit)" "\<forall>i < length ?c. 0 \<le> a ! i \<and> a ! i \<le> ?c ! i"
      by (rule reduce_order_total [OF nonneg d])
    then show ?thesis
      using assms False c zip by (intro exI [of _ a]) (auto simp: partition_key_limit_def Let_def)
  qed
qed

theorem key_limit_partition_exact_witness:
  "partition_key_limit (Some 10) [6, 1] [0, 4] [2, 1] False = Inr [Some 8, Some 2] \<and>
   partition_key_limit (Some 5) [6, 1] [0, 4] [2, 1] True = Inr [Some 0, Some 5] \<and>
   (\<exists>rows. partition_key_limit (Some 5) [6, 1] [0, 4] [2, 1] True = Inr (map Some rows) \<and> sum_list rows = 5)"
proof (intro conjI)
  show "partition_key_limit (Some 10) [6, 1] [0, 4] [2, 1] False = Inr [Some 8, Some 2]" by code_simp
  show "partition_key_limit (Some 5) [6, 1] [0, 4] [2, 1] True = Inr [Some 0, Some 5]" by code_simp
  show "\<exists>rows. partition_key_limit (Some 5) [6, 1] [0, 4] [2, 1] True = Inr (map Some rows) \<and> sum_list rows = 5"
    using key_limit_partition_exact [of "[(6, 0, 2), (1, 4, 1)]" 5 True] by auto
qed

end
