(* ===== verification/Credit_Rows.thy ===== *)
theory Credit_Rows
  imports Credit_Debt Store
begin

text \<open>
  The credit rows of the production store: the table \<open>tr_credit_balance\<close> and the statements and
  transactions that move money on it (\<open>storage_gcp_counter_dml.py\<close>, \<open>storage_gcp_credit_debt.py\<close>,
  \<open>storage_gcp_credit_rebalance.py\<close>, the escrow debit of \<open>storage_gcp_credit_transfer.py\<close>, the recovery
  of payment claims in \<open>storage_gcp_trust.py\<close> and the balance credit of \<open>storage_gcp.py\<close>).

  A table is a list of rows.  \<open>UPDATE t SET f WHERE P\<close> is \<open>sql_update P f\<close>, which returns the number of
  rows that matched as \<open>execute_update\<close> does, and \<open>SELECT ... WHERE P ORDER BY k\<close> is \<open>sql_select\<close>.  A
  comparison with \<open>NULL\<close> is not true.  The database runs transactions one after another (serialisable
  isolation), so a transaction is a function on the tables, and \<open>run_in_transaction\<close> undoes one that
  raises.  The locks, retries and column types of the statements are the database's, and the column
  \<open>source_updated_at\<close> and the trust columns, which no modelled statement reads, are left out.
\<close>

section \<open>Tables and statements\<close>

record credit_row =
  cb_workspace_id :: string
  cb_shard :: int
  cb_total_credits :: microdollars
  cb_total_usage :: microdollars
  cb_reserved :: microdollars
  cb_in_debt :: "bool option"
  cb_pause_causes :: "string list option"
  cb_pause_epoch :: "int option"
  cb_updated_at :: instant

record credit_db =
  tr_credit_balance :: "credit_row list"
  tr_trust_event :: "trust_event list"
  workspace_documents :: "(string \<times> workspace) list"

type_synonym ('d, 'a) tx = "('d, 'a) exec"

definition sql_update :: "('r \<Rightarrow> bool) \<Rightarrow> ('r \<Rightarrow> 'r) \<Rightarrow> 'r list \<Rightarrow> int \<times> 'r list" where
  "sql_update P f t = (int (length (filter P t)), map (\<lambda>r. if P r then f r else r) t)"

definition sql_select :: "('r \<Rightarrow> bool) \<Rightarrow> ('r \<Rightarrow> 'k::linorder) \<Rightarrow> 'r list \<Rightarrow> 'r list" where
  "sql_select P k t = sort_key k (filter P t)"

definition run_in_transaction :: "('d, 'a) tx \<Rightarrow> ('d, 'a) tx" where
  "run_in_transaction txn db = (case txn db of (Inl e, db') \<Rightarrow> (Inl e, db) | (Inr x, db') \<Rightarrow> (Inr x, db'))"

definition cb_headroom :: "credit_row \<Rightarrow> int" where
  "cb_headroom r = cb_total_credits r - cb_total_usage r - cb_reserved r"

definition cb_marked :: "credit_row \<Rightarrow> bool" where
  "cb_marked r \<longleftrightarrow> cb_in_debt r = Some True"

text \<open>\<open>WHERE workspace_id=@ws AND shard=@shard\<close>, and the update of the credit table by a statement.\<close>

definition row_at :: "string \<Rightarrow> int \<Rightarrow> credit_row \<Rightarrow> bool" where
  "row_at w shard r \<longleftrightarrow> cb_workspace_id r = w \<and> cb_shard r = shard"

definition update_credits ::
    "(credit_row \<Rightarrow> bool) \<Rightarrow> (credit_row \<Rightarrow> credit_row) \<Rightarrow> ('a credit_db_scheme) \<Rightarrow> int \<times> ('a credit_db_scheme)" where
  "update_credits P f db =
     (case sql_update P f (tr_credit_balance db) of (n, t) \<Rightarrow> (n, db\<lparr>tr_credit_balance := t\<rparr>))"

section \<open>Single-row statements\<close>

definition reserve_credit :: "string \<Rightarrow> int \<Rightarrow> int \<Rightarrow> 'a credit_db_scheme \<Rightarrow> bool \<times> 'a credit_db_scheme" where
  "reserve_credit w amount shard db =
     (case update_credits (\<lambda>r. row_at w shard r \<and> cb_headroom r \<ge> amount \<and> \<not> cb_marked r)
             (\<lambda>r. r\<lparr>cb_reserved := cb_reserved r + amount\<rparr>) db of (n, db') \<Rightarrow> (n = 1, db'))"

definition billing_paused_row :: "credit_row \<Rightarrow> bool" where
  "billing_paused_row r \<longleftrightarrow> (case cb_pause_causes r of None \<Rightarrow> False | Some causes \<Rightarrow> causes \<noteq> [])"

text \<open>\<open>THEN RETURN\<close> returns the columns of the rows the statement updated; the pause columns are
  not among the assigned ones.\<close>

definition reserve_credit_with_pause ::
    "string \<Rightarrow> int \<Rightarrow> int \<Rightarrow> 'a credit_db_scheme \<Rightarrow> (bool \<times> bool) \<times> 'a credit_db_scheme" where
  "reserve_credit_with_pause w amount shard db =
     (let P = (\<lambda>r. row_at w shard r \<and> cb_headroom r \<ge> amount \<and> \<not> cb_marked r);
          rows = filter P (tr_credit_balance db);
          db' = snd (update_credits P (\<lambda>r. r\<lparr>cb_reserved := cb_reserved r + amount\<rparr>) db)
      in (case rows of [] \<Rightarrow> (False, False) | r # _ \<Rightarrow> (True, billing_paused_row r), db'))"

definition billing_paused_tx :: "string \<Rightarrow> int option \<Rightarrow> 'a credit_db_scheme \<Rightarrow> bool" where
  "billing_paused_tx w shard db =
     list_ex (\<lambda>r. cb_workspace_id r = w \<and> (case shard of None \<Rightarrow> True | Some i \<Rightarrow> cb_shard r = i) \<and> billing_paused_row r)
       (tr_credit_balance db)"

definition debit_workspace_credit :: "string \<Rightarrow> int \<Rightarrow> instant \<Rightarrow> ('a credit_db_scheme, bool) tx" where
  "debit_workspace_credit w amount now db =
     (if amount \<le> 0 then (Inl (ValueError ''amount_must_be_positive''), db)
      else case update_credits (\<lambda>r. row_at w 0 r \<and> cb_headroom r \<ge> amount)
             (\<lambda>r. r\<lparr>cb_total_credits := cb_total_credits r - amount, cb_updated_at := now\<rparr>) db of
         (n, db') \<Rightarrow> (Inr (n = 1), db'))"

definition debit_credit_shard :: "string \<Rightarrow> int \<Rightarrow> int \<Rightarrow> ('a credit_db_scheme, bool) tx" where
  "debit_credit_shard w amount shard db =
     (if amount \<le> 0 then (Inl (ValueError ''credit shard debit amount must be positive''), db)
      else case update_credits (\<lambda>r. row_at w shard r \<and> cb_headroom r \<ge> amount)
             (\<lambda>r. r\<lparr>cb_total_credits := cb_total_credits r - amount\<rparr>) db of (n, db') \<Rightarrow> (Inr (n = 1), db'))"

definition credit_credit_shard :: "string \<Rightarrow> int \<Rightarrow> int \<Rightarrow> instant \<Rightarrow> 'a credit_db_scheme \<Rightarrow> int \<times> 'a credit_db_scheme" where
  "credit_credit_shard w amount shard now =
     update_credits (row_at w shard) (\<lambda>r. r\<lparr>cb_total_credits := cb_total_credits r + amount, cb_updated_at := now\<rparr>)"

definition transfer_credit_budget :: "string \<Rightarrow> int \<Rightarrow> int \<Rightarrow> int \<Rightarrow> ('a credit_db_scheme, bool) tx" where
  "transfer_credit_budget w amount donor target db =
     (if amount \<le> 0 then (Inl (ValueError ''credit budget transfer amount must be positive''), db)
      else if donor = target then (Inl (ValueError ''credit budget donor and target must differ''), db)
      else case debit_credit_shard w amount donor db of
          (Inl e, db1) \<Rightarrow> (Inl e, db1)
        | (Inr False, db1) \<Rightarrow> (Inr False, db1)
        | (Inr True, db1) \<Rightarrow>
            (case update_credits (row_at w target) (\<lambda>r. r\<lparr>cb_total_credits := cb_total_credits r + amount\<rparr>) db1 of
               (n, db2) \<Rightarrow> (Inr (n = 1), db2)))"

section \<open>The debt rules on the rows\<close>

record credit_rows =
  rw_headroom :: "int list"
  rw_marks :: "bool list"

definition balance_rows :: "string \<Rightarrow> 'a credit_db_scheme \<Rightarrow> credit_row list" where
  "balance_rows w db = sql_select (\<lambda>r. cb_workspace_id r = w) cb_shard (tr_credit_balance db)"

definition read_credit_rows :: "string \<Rightarrow> int option \<Rightarrow> 'a credit_db_scheme \<Rightarrow> credit_rows result" where
  "read_credit_rows w shard_count db =
     (let rows = balance_rows w db; shards = map cb_shard rows; n = length shards
      in if shards = [] \<or> shards \<noteq> map int [0..<n] \<or> (case shard_count of None \<Rightarrow> False | Some c \<Rightarrow> int n \<noteq> c)
         then Inl (CreditRowsIncomplete
                (List.find (\<lambda>i. i \<notin> set shards)
                  (map int [0..<nat (case shard_count of None \<Rightarrow> int n + 1 | Some c \<Rightarrow> c)])))
         else Inr \<lparr>rw_headroom = map cb_headroom rows, rw_marks = map cb_marked rows\<rparr>)"

fun write_deltas :: "string \<Rightarrow> instant \<Rightarrow> int \<Rightarrow> (int \<times> int) list \<Rightarrow> ('a credit_db_scheme, unit) tx" where
  "write_deltas w now shard [] db = (Inr (), db)"
| "write_deltas w now shard ((delta, before) # ds) db =
     (if delta = 0 then write_deltas w now (shard + 1) ds db
      else case update_credits (\<lambda>r. row_at w shard r \<and> cb_headroom r = before)
             (\<lambda>r. r\<lparr>cb_total_credits := cb_total_credits r + delta, cb_updated_at := now\<rparr>) db of
         (n, db') \<Rightarrow> if n \<noteq> 1 then (Inl CreditRowsChanged, db') else write_deltas w now (shard + 1) ds db')"

definition write_mark :: "string \<Rightarrow> instant \<Rightarrow> bool \<Rightarrow> credit_rows \<Rightarrow> ('a credit_db_scheme, unit) tx" where
  "write_mark w now marked before db =
     (if \<exists>mark \<in> set (rw_marks before). mark \<noteq> marked
      then let shard_count = int (length (rw_headroom before)) in
           case update_credits (\<lambda>r. cb_workspace_id r = w \<and> cb_shard r \<ge> 0 \<and> cb_shard r < shard_count)
                  (\<lambda>r. r\<lparr>cb_in_debt := Some marked, cb_updated_at := now\<rparr>) db of
             (n, db') \<Rightarrow> if n \<noteq> shard_count then (Inl CreditRowsChanged, db') else (Inr (), db')
      else (Inr (), db))"

definition write_credit_rows ::
    "string \<Rightarrow> credit_rows \<Rightarrow> int list \<Rightarrow> bool \<Rightarrow> instant \<Rightarrow> ('a credit_db_scheme, unit) tx" where
  "write_credit_rows w before headroom marked now db =
     (case credit_deltas (rw_headroom before) headroom of Inl e \<Rightarrow> (Inl e, db)
      | Inr deltas \<Rightarrow>
          (case write_deltas w now 0 (zip deltas (rw_headroom before)) db of (Inl e, db') \<Rightarrow> (Inl e, db')
           | (Inr _, db') \<Rightarrow> write_mark w now marked before db'))"

definition settle_credit_rows :: "string \<Rightarrow> instant \<Rightarrow> int option \<Rightarrow> ('a credit_db_scheme, credit_rows \<times> squared) tx" where
  "settle_credit_rows w now shard_count db =
     (case read_credit_rows w shard_count db of Inl e \<Rightarrow> (Inl e, db)
      | Inr rows \<Rightarrow>
          (case square (rw_headroom rows) of Inl e \<Rightarrow> (Inl e, db)
           | Inr q \<Rightarrow>
               (case write_credit_rows w rows (sq_headroom q) (sq_marked q) now db of (Inl e, db') \<Rightarrow> (Inl e, db')
                | (Inr _, db') \<Rightarrow> (Inr (rows, q), db'))))"

definition cover_or_mark :: "string \<Rightarrow> instant \<Rightarrow> ('a credit_db_scheme, squared) tx" where
  "cover_or_mark w now db =
     (case settle_credit_rows w now None db of (Inl e, db') \<Rightarrow> (Inl e, db') | (Inr (_, q), db') \<Rightarrow> (Inr q, db'))"

record inflow_result =
  ir_marked :: bool
  ir_absorbed :: int

text \<open>\<open>xs[i] += v\<close>: a negative index counts from the end.\<close>

definition add_at :: "int list \<Rightarrow> int \<Rightarrow> int \<Rightarrow> int list result" where
  "add_at xs i v =
     (let n = int (length xs); j = (if i < 0 then i + n else i)
      in if 0 \<le> j \<and> j < n then Inr (xs[nat j := xs ! nat j + v]) else Inl IndexError)"

text \<open>The claims take what the inflow has left, when it ends unmarked.\<close>

definition absorb_left :: "(int \<Rightarrow> ('a credit_db_scheme, int) tx) option \<Rightarrow> inflow \<Rightarrow> ('a credit_db_scheme, int) tx" where
  "absorb_left absorb f db =
     (case absorb of None \<Rightarrow> (Inr 0, db)
      | Some g \<Rightarrow>
          (if in_marked f \<or> in_left f \<le> 0 then (Inr 0, db)
           else case g (in_left f) db of (Inl e, db') \<Rightarrow> (Inl e, db')
            | (Inr a, db') \<Rightarrow>
                if a < 0 \<or> a > in_left f then (Inl (RuntimeError ''payment claims absorbed more than they were offered''), db')
                else (Inr a, db')))"

definition land_left :: "int option \<Rightarrow> int \<Rightarrow> int list \<Rightarrow> int list result" where
  "land_left landing left headroom =
     (case landing of Some i \<Rightarrow> add_at headroom i left
      | None \<Rightarrow> (case distribute_credit_amount left (int (length headroom)) of Inl e \<Rightarrow> Inl e
          | Inr spread \<Rightarrow> Inr (map (\<lambda>(a, b). a + b) (zip headroom spread))))"

definition take_back :: "int option \<Rightarrow> int \<Rightarrow> int list \<Rightarrow> int list result" where
  "take_back landing amount headroom =
     (case landing of None \<Rightarrow> Inr headroom | Some i \<Rightarrow> add_at headroom i (- amount))"

definition take_credit_inflow ::
    "string \<Rightarrow> int \<Rightarrow> int option \<Rightarrow> (int \<Rightarrow> ('a credit_db_scheme, int) tx) option \<Rightarrow> instant \<Rightarrow> int option \<Rightarrow>
     ('a credit_db_scheme, inflow_result) tx" where
  "take_credit_inflow w amount landing absorb now shard_count db =
     (if amount < 0 then (Inl (ValueError ''money coming in is not negative''), db)
      else case read_credit_rows w shard_count db of Inl e \<Rightarrow> (Inl e, db)
      | Inr rows \<Rightarrow>
         (case take_back landing amount (rw_headroom rows) of
            Inl e \<Rightarrow> (Inl e, db)
          | Inr without \<Rightarrow>
             (case take_inflow without amount of Inl e \<Rightarrow> (Inl e, db)
              | Inr f \<Rightarrow>
                 (case absorb_left absorb f db of (Inl e, db1) \<Rightarrow> (Inl e, db1)
                  | (Inr absorbed, db1) \<Rightarrow>
                     (case land_left landing (in_left f - absorbed) (in_headroom f) of Inl e \<Rightarrow> (Inl e, db1)
                      | Inr after \<Rightarrow>
                         (case write_credit_rows w rows after (in_marked f) now db1 of (Inl e, db2) \<Rightarrow> (Inl e, db2)
                          | (Inr _, db2) \<Rightarrow> (Inr \<lparr>ir_marked = in_marked f, ir_absorbed = absorbed\<rparr>, db2)))))))"

section \<open>Recovery of payment claims\<close>

definition TRUST_PAUSE_CAUSES :: "string list" where
  "TRUST_PAUSE_CAUSES = [''abuse'', ''principal_recovery'', ''resharding'', ''federation'', ''migration'']"

definition configured_rows :: "string \<Rightarrow> int \<Rightarrow> 'a credit_db_scheme \<Rightarrow> credit_row list" where
  "configured_rows w shard_count db =
     sql_select (\<lambda>r. cb_workspace_id r = w \<and> cb_shard r \<ge> 0 \<and> cb_shard r < shard_count) cb_shard (tr_credit_balance db)"

text \<open>The workspace document after a change of causes: through the entity reader, which decodes it
  first, or by the JSON statement of the settle path.\<close>

definition sync_document :: "bool \<Rightarrow> bool \<Rightarrow> string list \<Rightarrow> workspace \<Rightarrow> workspace" where
  "sync_document entity paused normalized body =
     (if entity
      then let ws = workspace_post_init body;
               causes = document_pause_causes normalized (ws_billing_pause_causes ws)
           in ws\<lparr>ws_billing_pause_causes := causes, ws_billing_paused := (causes \<noteq> []),
                 ws_billing_pause_reason := (if paused then ''principal_recovery''
                   else if causes = [] \<and> ws_billing_pause_reason ws = ''principal_recovery'' then []
                   else ws_billing_pause_reason ws)\<rparr>
      else let held = (if ws_billing_pause_causes body \<noteq> [] then ws_billing_pause_causes body
                       else if ws_billing_paused body then [''migration''] else []);
               causes = document_pause_causes normalized held
           in body\<lparr>ws_billing_pause_causes := causes, ws_billing_paused := (causes \<noteq> []),
                   ws_billing_pause_reason := (if paused then ''principal_recovery'' else [])\<rparr>)"

definition sync_principal_recovery_pause_tx ::
    "string \<Rightarrow> int \<Rightarrow> bool \<Rightarrow> instant \<Rightarrow> bool \<Rightarrow> ('a credit_db_scheme, unit) tx" where
  "sync_principal_recovery_pause_tx w shard_count paused now entity db =
     (let rows = configured_rows w shard_count db;
          observed = remdups (map (\<lambda>r. sort (case cb_pause_causes r of None \<Rightarrow> [] | Some cs \<Rightarrow> cs)) rows)
      in if map cb_shard rows \<noteq> map int [0..<nat shard_count]
         then (Inl (RuntimeError ''configured tr_credit_balance shard set is incomplete''), db)
         else if length observed \<noteq> 1 then (Inl (RuntimeError ''replicated billing pause causes diverged''), db)
         else let before = hd observed
         in if \<not> set before \<subseteq> set TRUST_PAUSE_CAUSES
            then (Inl (RuntimeError ''unsupported billing pause cause persisted''), db)
            else let causes = (if paused then before @ [''principal_recovery'']
                               else filter (\<lambda>c. c \<noteq> ''principal_recovery'') before)
            in if set causes = set before then (Inr (), db)
               else let normalized = shard_pause_causes causes in
               case update_credits (\<lambda>r. cb_workspace_id r = w \<and> cb_shard r \<ge> 0 \<and> cb_shard r < shard_count)
                      (\<lambda>r. r\<lparr>cb_pause_causes := Some normalized, cb_pause_epoch := Some (oint (cb_pause_epoch r) + 1),
                             cb_updated_at := now\<rparr>) db of
                 (n, db1) \<Rightarrow>
                   if n \<noteq> shard_count then (Inl (RuntimeError ''billing pause update did not cover every active shard''), db1)
                   else (Inr (), case dget (workspace_documents db1) w of None \<Rightarrow> db1
                      | Some body \<Rightarrow> db1\<lparr>workspace_documents :=
                          dset w (sync_document entity paused normalized body) (workspace_documents db1)\<rparr>))"

definition owing :: "string \<Rightarrow> trust_event \<Rightarrow> bool" where
  "owing w e \<longleftrightarrow> te_workspace_id e = w \<and> te_kind e = ''payment'' \<and> oint (te_unrecovered e) > 0"

definition take_claim :: "int \<Rightarrow> trust_event \<Rightarrow> trust_event" where
  "take_claim amount e =
     e\<lparr>te_recovered := map_option (\<lambda>r. r + amount) (te_recovered e),
       te_unrecovered := map_option (\<lambda>u. u - amount) (te_unrecovered e),
       te_debit_status := Some (if te_unrecovered e = Some amount then ''debited'' else ''partial'')\<rparr>"

fun absorb_claims :: "string \<Rightarrow> trust_event list \<Rightarrow> int \<Rightarrow> int \<Rightarrow> ('a credit_db_scheme, int) tx" where
  "absorb_claims w [] remaining absorbed db = (Inr absorbed, db)"
| "absorb_claims w (payment # rows) remaining absorbed db =
     (if remaining = 0 then (Inr absorbed, db)
      else let take = min remaining (oint (te_unrecovered payment)) in
           if take = 0 then absorb_claims w rows remaining absorbed db
           else case sql_update (\<lambda>e. te_workspace_id e = w \<and> te_event_id e = te_event_id payment \<and> te_kind e = ''payment'' \<and>
                       (case te_unrecovered e of None \<Rightarrow> False | Some u \<Rightarrow> u \<ge> take))
                  (take_claim take) (tr_trust_event db) of
             (n, t) \<Rightarrow>
               let db' = db\<lparr>tr_trust_event := t\<rparr> in
               if n \<noteq> 1 then (Inl (RuntimeError ''recovery absorption lost its payment claim guard''), db')
               else absorb_claims w rows (remaining - take) (absorbed + take) db')"

definition unrecovered_sum :: "string \<Rightarrow> 'a credit_db_scheme \<Rightarrow> int" where
  "unrecovered_sum w db =
     sum_list (map (\<lambda>e. oint (te_unrecovered e))
       (filter (\<lambda>e. te_workspace_id e = w \<and> te_kind e = ''payment'') (tr_trust_event db)))"

definition absorb_unrecovered_recovery_tx ::
    "string \<Rightarrow> ('a credit_db_scheme \<Rightarrow> int result) \<Rightarrow> instant \<Rightarrow> bool \<Rightarrow> int \<Rightarrow> ('a credit_db_scheme, int) tx" where
  "absorb_unrecovered_recovery_tx w shard_count now entity amount_micro db =
     (let remaining = max 0 amount_micro;
          rows = sql_select (owing w) (\<lambda>e. (te_occurred_at e, te_event_id e)) (tr_trust_event db)
      in if rows = [] then (Inr 0, db)
         else case shard_count db of Inl e \<Rightarrow> (Inl e, db)
         | Inr resolved_shard_count \<Rightarrow>
            (case absorb_claims w rows remaining 0 db of (Inl e, db1) \<Rightarrow> (Inl e, db1)
             | (Inr absorbed, db1) \<Rightarrow>
                (case sync_principal_recovery_pause_tx w resolved_shard_count (unrecovered_sum w db1 > 0) now entity db1 of
                   (Inl e, db2) \<Rightarrow> (Inl e, db2) | (Inr _, db2) \<Rightarrow> (Inr absorbed, db2))))"

section \<open>Releases, grants and debits\<close>

definition credit_shard_count_from_rows :: "string \<Rightarrow> 'a credit_db_scheme \<Rightarrow> int result" where
  "credit_shard_count_from_rows w db =
     (let observed = map cb_shard (balance_rows w db)
      in if observed \<noteq> map int [0..<length observed] \<or> observed = []
         then Inl (RuntimeError ''configured tr_credit_balance shard set is incomplete'')
         else Inr (int (length observed)))"

text \<open>What happens once the hold has been released on the row: an overrun is covered, money that was
  freed on an indebted row repays first, and otherwise the claims are offered it.\<close>

definition after_release :: "string \<Rightarrow> int \<Rightarrow> int \<Rightarrow> int \<Rightarrow> bool \<Rightarrow> instant \<Rightarrow> ('a credit_db_scheme, unit) tx" where
  "after_release w shard free headroom marked now db =
     (let absorb = absorb_unrecovered_recovery_tx w (credit_shard_count_from_rows w) now False
      in if free < 0
         then (if headroom < 0 \<and> \<not> marked
               then (case cover_or_mark w now db of (Inl e, db') \<Rightarrow> (Inl e, db') | (Inr _, db') \<Rightarrow> (Inr (), db'))
               else (Inr (), db))
         else if free = 0 then (Inr (), db)
         else if marked \<or> headroom - free < 0
         then (case take_credit_inflow w free (Some shard) (Some absorb) now None db of
                 (Inl e, db') \<Rightarrow> (Inl e, db') | (Inr _, db') \<Rightarrow> (Inr (), db'))
         else case absorb free db of (Inl e, db1) \<Rightarrow> (Inl e, db1)
          | (Inr absorbed, db1) \<Rightarrow>
              (if absorbed = 0 then (Inr (), db1)
               else case update_credits (\<lambda>r. row_at w shard r \<and> cb_headroom r \<ge> absorbed)
                      (\<lambda>r. r\<lparr>cb_total_credits := cb_total_credits r - absorbed\<rparr>) db1 of
                  (n, db2) \<Rightarrow> if n \<noteq> 1 then (Inl (RuntimeError ''released credit could not satisfy recovery debt''), db2)
                             else (Inr (), db2)))"

definition release_credit :: "string \<Rightarrow> int \<Rightarrow> int \<Rightarrow> int \<Rightarrow> instant \<Rightarrow> ('a credit_db_scheme, int) tx" where
  "release_credit w hold actual shard now db =
     (let P = (\<lambda>r. row_at w shard r \<and> cb_reserved r \<ge> hold);
          book = (\<lambda>r. r\<lparr>cb_reserved := cb_reserved r - hold, cb_total_usage := cb_total_usage r + actual\<rparr>);
          rows = map book (filter P (tr_credit_balance db))
      in case update_credits P book db of
         (count, db1) \<Rightarrow>
           (if count \<noteq> 1 then (Inr count, db1)
            else case after_release w shard (hold - actual) (cb_headroom (hd rows)) (cb_marked (hd rows)) now db1 of
                (Inl e, db2) \<Rightarrow> (Inl e, db2) | (Inr _, db2) \<Rightarrow> (Inr count, db2)))"

fun spread_negative :: "string \<Rightarrow> instant \<Rightarrow> int \<Rightarrow> int list \<Rightarrow> ('a credit_db_scheme, unit) tx" where
  "spread_negative w now shard [] db = (Inr (), db)"
| "spread_negative w now shard (delta # ds) db =
     (case credit_credit_shard w delta shard now db of
        (n, db') \<Rightarrow> if n \<noteq> 1 then (Inl (RuntimeError ''missing authoritative tr_credit_balance shard''), db')
                   else spread_negative w now (shard + 1) ds db')"

text \<open>\<open>_credit_workspace_balance_tx\<close>; \<open>account\<close> is the shard count of the stored credit account.\<close>

definition credit_workspace_balance_tx :: "string \<Rightarrow> int \<Rightarrow> int option \<Rightarrow> instant \<Rightarrow> ('a credit_db_scheme, unit) tx" where
  "credit_workspace_balance_tx w amount account now db =
     (case account of None \<Rightarrow> (Inl (ValueError ''credit_account_not_found''), db)
      | Some raw \<Rightarrow>
         (case credit_shard_count raw of Inl e \<Rightarrow> (Inl e, db)
          | Inr n \<Rightarrow>
             (if amount \<ge> 0
              then (case take_credit_inflow w amount None (Some (absorb_unrecovered_recovery_tx w (\<lambda>_. Inr n) now True))
                           now (Some n) db of
                      (Inl (CreditRowsIncomplete m), db') \<Rightarrow> (Inl (RuntimeError ''missing authoritative tr_credit_balance shard''), db')
                    | (Inl e, db') \<Rightarrow> (Inl e, db')
                    | (Inr _, db') \<Rightarrow> (Inr (), db'))
              else (case distribute_credit_amount amount n of Inl e \<Rightarrow> (Inl e, db)
                    | Inr parts \<Rightarrow>
                       (case spread_negative w now 0 parts db of (Inl e, db') \<Rightarrow> (Inl e, db')
                        | (Inr _, db') \<Rightarrow>
                           (case cover_or_mark w now db' of (Inl e, db2) \<Rightarrow> (Inl e, db2) | (Inr _, db2) \<Rightarrow> (Inr (), db2)))))))"

fun debit_plan :: "string \<Rightarrow> (int \<times> int) list \<Rightarrow> int \<Rightarrow> ('a credit_db_scheme, int) tx" where
  "debit_plan w [] remaining db = (Inr remaining, db)"
| "debit_plan w ((avail, shard) # donors) remaining db =
     (let take = min avail remaining in
      case debit_credit_shard w take shard db of (Inl e, db') \<Rightarrow> (Inl e, db')
      | (Inr False, db') \<Rightarrow> (Inl EscrowPlanError, db')
      | (Inr True, db') \<Rightarrow> (if remaining - take = 0 then (Inr 0, db') else debit_plan w donors (remaining - take) db'))"

definition debit_escrow :: "string \<Rightarrow> int \<Rightarrow> int \<Rightarrow> ('a credit_db_scheme, bool) tx" where
  "debit_escrow w amount shard_count db =
     (let rows = configured_rows w shard_count db
      in if map cb_shard rows \<noteq> map int [0..<nat shard_count] \<or> sum_list (map cb_headroom rows) < amount
         then (Inr False, db)
         else case debit_plan w (filter (\<lambda>(a, _). a > 0) (map (\<lambda>r. (cb_headroom r, cb_shard r)) rows)) amount db of
            (Inl e, db') \<Rightarrow> (Inl e, db')
          | (Inr remaining, db') \<Rightarrow> if remaining \<noteq> 0 then (Inl EscrowPlanError, db') else (Inr True, db'))"

section \<open>Rebalancing\<close>

datatype rebalance_outcome = MOVED | NOT_NEEDED | INSUFFICIENT | INCOMPLETE

text \<open>The donors are sorted by \<open>(available, shard)\<close> in reverse.\<close>

definition rebalance_donors :: "int \<Rightarrow> credit_row list \<Rightarrow> (int \<times> int) list" where
  "rebalance_donors target rows =
     rev (sort (filter (\<lambda>(a, i). i \<noteq> target \<and> a > 0) (map (\<lambda>r. (cb_headroom r, cb_shard r)) rows)))"

fun rebalance_moves :: "string \<Rightarrow> int \<Rightarrow> (int \<times> int) list \<Rightarrow> int \<Rightarrow> int \<Rightarrow> ('a credit_db_scheme, int \<times> int) tx" where
  "rebalance_moves w target [] needed moved db = (Inr (needed, moved), db)"
| "rebalance_moves w target ((avail, donor) # donors) needed moved db =
     (let amount = min avail needed in
      case transfer_credit_budget w amount donor target db of (Inl e, db') \<Rightarrow> (Inl e, db')
      | (Inr False, db') \<Rightarrow> (Inl RebalanceInvariantError, db')
      | (Inr True, db') \<Rightarrow>
          (if needed - amount = 0 then (Inr (0, moved + amount), db')
           else rebalance_moves w target donors (needed - amount) (moved + amount) db'))"

definition rebalance_txn :: "string \<Rightarrow> int \<Rightarrow> int \<Rightarrow> int \<Rightarrow> ('a credit_db_scheme, rebalance_outcome \<times> int) tx" where
  "rebalance_txn w count target estimate db =
     (let rows = configured_rows w count db
      in if map cb_shard rows \<noteq> map int [0..<nat count] then (Inr (INCOMPLETE, 0), db)
         else if sum_list (map cb_headroom rows) < estimate then (Inr (INSUFFICIENT, 0), db)
         else let target_available = cb_headroom (rows ! nat target)
         in if target_available \<ge> estimate then (Inr (NOT_NEEDED, 0), db)
            else case rebalance_moves w target (rebalance_donors target rows) (estimate - target_available) 0 db of
               (Inl e, db') \<Rightarrow> (Inl e, db')
             | (Inr (needed, moved), db') \<Rightarrow>
                 if needed \<noteq> 0 then (Inl RebalanceInvariantError, db') else (Inr (MOVED, moved), db'))"

definition rebalance_credit_for_estimate ::
    "string \<Rightarrow> int \<Rightarrow> int \<Rightarrow> int \<Rightarrow> ('a credit_db_scheme, rebalance_outcome \<times> int) tx" where
  "rebalance_credit_for_estimate w shard_count target estimate db =
     (case credit_shard_count shard_count of Inl e \<Rightarrow> (Inl e, db)
      | Inr count \<Rightarrow>
         (if target < 0 \<or> target \<ge> count then (Inl (ValueError ''rebalance target shard is outside configured range''), db)
          else if estimate \<le> 0 then (Inr (NOT_NEEDED, 0), db)
          else run_in_transaction (rebalance_txn w count target estimate) db))"

record headroom_precheck =
  hp_outcome :: rebalance_outcome
  hp_candidate_shard :: "int option"
  hp_funded_shards :: "int list"

definition credit_headroom_precheck ::
    "string \<Rightarrow> int \<Rightarrow> int list \<Rightarrow> int \<Rightarrow> 'a credit_db_scheme \<Rightarrow> headroom_precheck result" where
  "credit_headroom_precheck w shard_count candidates estimate db =
     (case credit_shard_count shard_count of Inl e \<Rightarrow> Inl e
      | Inr count \<Rightarrow>
         (if int (length candidates) \<noteq> count \<or> set candidates \<noteq> {0..<count}
          then Inl (ValueError ''credit precheck requires every configured shard exactly once'')
          else let rows = configured_rows w count db
               in if map cb_shard rows \<noteq> map int [0..<nat count] then Inr \<lparr>hp_outcome = INCOMPLETE, hp_candidate_shard = None, hp_funded_shards = []\<rparr>
                  else if sum_list (map cb_headroom rows) < estimate
                  then Inr \<lparr>hp_outcome = INSUFFICIENT, hp_candidate_shard = None, hp_funded_shards = []\<rparr>
                  else let funded = filter (\<lambda>i. cb_headroom (rows ! nat i) \<ge> estimate) candidates
                       in if funded \<noteq> []
                          then Inr \<lparr>hp_outcome = NOT_NEEDED, hp_candidate_shard = Some (hd funded), hp_funded_shards = funded\<rparr>
                          else Inr \<lparr>hp_outcome = MOVED, hp_candidate_shard = None, hp_funded_shards = []\<rparr>))"

definition rebalance_precheck :: "string \<Rightarrow> int \<Rightarrow> int \<Rightarrow> int \<Rightarrow> 'a credit_db_scheme \<Rightarrow> rebalance_outcome result" where
  "rebalance_precheck w shard_count target estimate db =
     (case credit_shard_count shard_count of Inl e \<Rightarrow> Inl e
      | Inr count \<Rightarrow>
         (if target < 0 \<or> target \<ge> count then Inl (ValueError ''rebalance target shard is outside configured range'')
          else let candidates = target # filter (\<lambda>i. i \<noteq> target) (map int [0..<nat count])
               in case credit_headroom_precheck w count candidates estimate db of Inl e \<Rightarrow> Inl e
                | Inr p \<Rightarrow> Inr (hp_outcome p)))"

section \<open>Reading and updating the rows of a workspace\<close>

lemma insort_key_map:
  assumes "k (f x) = k x" "\<forall>y \<in> set ys. k (f y) = k y"
  shows "insort_key k (f x) (map f ys) = map f (insort_key k x ys)"
  using assms by (induction ys) auto

lemma sort_key_map: "\<forall>x \<in> set xs. k (f x) = k x \<Longrightarrow> sort_key k (map f xs) = map f (sort_key k xs)"
  by (induction xs) (simp_all add: insort_key_map)

text \<open>\<open>keeps_place\<close>: the assignments of a statement leave the primary key alone.\<close>

definition keeps_place :: "(credit_row \<Rightarrow> credit_row) \<Rightarrow> bool" where
  "keeps_place f \<longleftrightarrow> (\<forall>r. cb_workspace_id (f r) = cb_workspace_id r \<and> cb_shard (f r) = cb_shard r)"

lemma update_credits_rows:
  assumes "keeps_place f"
  shows "balance_rows v (snd (update_credits P f db)) = map (\<lambda>r. if P r then f r else r) (balance_rows v db)"
proof -
  let ?g = "\<lambda>r. if P r then f r else r"
  have "filter (\<lambda>r. cb_workspace_id r = v) (map ?g (tr_credit_balance db)) =
      map ?g (filter (\<lambda>r. cb_workspace_id r = v) (tr_credit_balance db))"
    using assms by (auto simp: filter_map keeps_place_def comp_def intro!: arg_cong [of _ _ "map ?g"] filter_cong)
  then show ?thesis
    using assms by (simp add: balance_rows_def sql_select_def update_credits_def sql_update_def sort_key_map keeps_place_def)
qed

lemma update_credits_count:
  assumes "\<And>r. P r \<Longrightarrow> cb_workspace_id r = w"
  shows "fst (update_credits P f db) = int (length (filter P (balance_rows w db)))"
proof -
  have "filter P (balance_rows w db) = sort_key cb_shard (filter P (tr_credit_balance db))"
    using assms by (auto simp: balance_rows_def sql_select_def filter_sort intro!: arg_cong [of _ _ "sort_key cb_shard"] filter_cong)
  then show ?thesis by (simp add: update_credits_def sql_update_def)
qed

lemma update_credits_frame:
  "tr_trust_event (snd (update_credits P f db)) = tr_trust_event db"
  "workspace_documents (snd (update_credits P f db)) = workspace_documents db"
  by (simp_all add: update_credits_def sql_update_def)

definition complete_rows :: "credit_row list \<Rightarrow> bool" where
  "complete_rows rows \<longleftrightarrow> rows \<noteq> [] \<and> map cb_shard rows = map int [0..<length rows]"

lemma complete_rows_shard: "complete_rows rows \<Longrightarrow> i < length rows \<Longrightarrow> cb_shard (rows ! i) = int i"
  unfolding complete_rows_def by (metis add_0 length_map nth_map nth_upt length_upt diff_zero)

lemma balance_rows_workspace: "r \<in> set (balance_rows w db) \<Longrightarrow> cb_workspace_id r = w"
  by (simp add: balance_rows_def sql_select_def)

lemma configured_rows_complete:
  assumes "complete_rows (balance_rows w db)"
  shows "configured_rows w n db = filter (\<lambda>r. cb_shard r < n) (balance_rows w db)"
    and "configured_rows w (int (length (balance_rows w db))) db = balance_rows w db"
proof -
  have ge: "0 \<le> cb_shard r \<and> cb_shard r < int (length (balance_rows w db))" if "r \<in> set (balance_rows w db)" for r
    using that assms complete_rows_shard [OF assms] by (auto simp: in_set_conv_nth)
  show all: "configured_rows w n db = filter (\<lambda>r. cb_shard r < n) (balance_rows w db)" for n
    using ge by (auto simp: configured_rows_def balance_rows_def sql_select_def filter_sort conj_commute
        intro!: arg_cong [of _ _ "sort_key cb_shard"] filter_cong)
  show "configured_rows w (int (length (balance_rows w db))) db = balance_rows w db"
    unfolding all using ge by (simp add: filter_id_conv)
qed

lemma filter_unique:
  assumes "i < length xs" "P (xs ! i)" "\<And>j. j < length xs \<Longrightarrow> P (xs ! j) \<Longrightarrow> j = i"
  shows "filter P xs = [xs ! i]"
  using assms
proof (induction xs arbitrary: i)
  case (Cons x xs)
  show ?case
  proof (cases i)
    case 0
    have "\<not> P y" if "y \<in> set xs" for y
      using that Cons.prems(3) [of "Suc j" for j] 0 by (auto simp: in_set_conv_nth)
    then have "filter P xs = []" by (simp add: filter_empty_conv)
    then show ?thesis using Cons.prems(2) 0 by simp
  next
    case (Suc k)
    then have "\<not> P x" using Cons.prems(3) [of 0] by auto
    moreover have "filter P xs = [xs ! k]"
    proof (rule Cons.IH)
      show "k < length xs" "P (xs ! k)" using Cons.prems(1,2) Suc by simp_all
      show "j = k" if "j < length xs" "P (xs ! j)" for j using Cons.prems(3) [of "Suc j"] that Suc by simp
    qed
    ultimately show ?thesis using Suc by simp
  qed
qed simp

text \<open>A statement on one row, when the rows of the workspace are complete: it matches the row of that
  shard if its guard holds there, and otherwise nothing.\<close>

definition set_row :: "string \<Rightarrow> int \<Rightarrow> (credit_row \<Rightarrow> credit_row) \<Rightarrow> 'a credit_db_scheme \<Rightarrow> 'a credit_db_scheme" where
  "set_row w i f db = db\<lparr>tr_credit_balance := map (\<lambda>r. if row_at w i r then f r else r) (tr_credit_balance db)\<rparr>"

lemma row_at_nth:
  assumes "complete_rows (balance_rows w db)" "j < length (balance_rows w db)"
  shows "row_at w i (balance_rows w db ! j) \<longleftrightarrow> i = int j"
  using complete_rows_shard [OF assms] balance_rows_workspace [OF nth_mem [OF assms(2)]] by (auto simp: row_at_def)

lemma table_row: "r \<in> set (tr_credit_balance db) \<Longrightarrow> row_at w i r \<Longrightarrow> r \<in> set (balance_rows w db)"
  by (simp add: row_at_def balance_rows_def sql_select_def)

lemma point_update:
  assumes c: "complete_rows (balance_rows w db)" and i: "i < length (balance_rows w db)"
  shows "update_credits (\<lambda>r. row_at w (int i) r \<and> Q r) f db =
     (if Q (balance_rows w db ! i) then (1, set_row w (int i) f db) else (0, db))"
proof -
  let ?rows = "balance_rows w db" and ?P = "\<lambda>r. row_at w (int i) r \<and> Q r"
  have only: "r = ?rows ! i" if "r \<in> set (tr_credit_balance db)" "row_at w (int i) r" for r
    using table_row [OF that] row_at_nth [OF c] that(2) by (metis in_set_conv_nth of_nat_eq_iff)
  have count: "fst (update_credits ?P f db) = (if Q (?rows ! i) then 1 else 0)"
  proof -
    have "filter ?P ?rows = (if Q (?rows ! i) then [?rows ! i] else [])"
      using filter_unique [of i ?rows ?P] i row_at_nth [OF c] by (auto simp: filter_empty_conv in_set_conv_nth)
    then show ?thesis by (subst update_credits_count [where w = w]) (auto simp: row_at_def)
  qed
  have "map (\<lambda>r. if ?P r then f r else r) (tr_credit_balance db) =
      (if Q (?rows ! i) then map (\<lambda>r. if row_at w (int i) r then f r else r) (tr_credit_balance db) else tr_credit_balance db)"
    using only by (auto intro!: map_idI)
  then have "snd (update_credits ?P f db) = (if Q (?rows ! i) then set_row w (int i) f db else db)"
    by (auto simp: update_credits_def sql_update_def set_row_def)
  then show ?thesis using count by (metis prod.collapse)
qed

lemma point_update_plain:
  "complete_rows (balance_rows w db) \<Longrightarrow> i < length (balance_rows w db) \<Longrightarrow>
   update_credits (row_at w (int i)) f db = (1, set_row w (int i) f db)"
  using point_update [of w db i "\<lambda>_. True" f] by simp

lemma point_update_outside:
  assumes c: "complete_rows (balance_rows w db)" and "\<nexists>j. i = int j \<and> j < length (balance_rows w db)"
  shows "update_credits (\<lambda>r. row_at w i r \<and> Q r) f db = (0, db)"
proof -
  have none: "\<not> row_at w i r" if "r \<in> set (tr_credit_balance db)" for r
    using table_row [OF that] row_at_nth [OF c] assms(2) by (metis in_set_conv_nth)
  then have "map (\<lambda>r. if row_at w i r \<and> Q r then f r else r) (tr_credit_balance db) = tr_credit_balance db"
    by (auto intro: map_idI)
  then show ?thesis using none by (simp add: update_credits_def sql_update_def filter_empty_conv)
qed

lemma set_row_rows:
  assumes "keeps_place f"
  shows "complete_rows (balance_rows w db) \<Longrightarrow> i < length (balance_rows w db) \<Longrightarrow>
      balance_rows w (set_row w (int i) f db) = (balance_rows w db)[i := f (balance_rows w db ! i)]"
    and "v \<noteq> w \<Longrightarrow> balance_rows v (set_row w j f db) = balance_rows v db"
    and "tr_trust_event (set_row w j f db) = tr_trust_event db"
    and "workspace_documents (set_row w j f db) = workspace_documents db"
proof -
  have eq: "set_row w j f db = snd (update_credits (row_at w j) f db)" for j
    by (simp add: set_row_def update_credits_def sql_update_def)
  show "balance_rows w (set_row w (int i) f db) = (balance_rows w db)[i := f (balance_rows w db ! i)]"
    if "complete_rows (balance_rows w db)" "i < length (balance_rows w db)"
    unfolding eq update_credits_rows [OF assms]
    using that row_at_nth [OF that(1)] by (intro nth_equalityI) (auto simp: nth_list_update)
  show "balance_rows v (set_row w j f db) = balance_rows v db" if "v \<noteq> w"
    unfolding eq update_credits_rows [OF assms]
    using that by (intro map_idI) (auto simp: row_at_def dest: balance_rows_workspace)
qed (simp_all add: set_row_def)

lemma complete_rows_update:
  "complete_rows rows \<Longrightarrow> keeps_place f \<Longrightarrow> complete_rows (rows[i := f (rows ! i)])"
  using complete_rows_shard [of rows i]
  by (cases "i < length rows")
    (simp_all add: complete_rows_def keeps_place_def map_update list_update_same_conv list_update_beyond)

section \<open>Writing the rows\<close>

text \<open>\<open>only_credit\<close>: of the rows of the workspace only the credit, the mark and the time of the last write may differ, and
  nothing else in the database.\<close>

definition row_rest :: "credit_row \<Rightarrow> int \<times> int \<times> int \<times> string list option" where
  "row_rest r = (cb_shard r, cb_total_usage r, cb_reserved r, cb_pause_causes r)"

definition only_credit :: "string \<Rightarrow> 'a credit_db_scheme \<Rightarrow> 'a credit_db_scheme \<Rightarrow> bool" where
  "only_credit w db db' \<longleftrightarrow> map row_rest (balance_rows w db') = map row_rest (balance_rows w db) \<and>
     (\<forall>v. v \<noteq> w \<longrightarrow> balance_rows v db' = balance_rows v db) \<and>
     tr_trust_event db' = tr_trust_event db \<and> workspace_documents db' = workspace_documents db"

lemma only_credit_refl: "only_credit w db db"
  by (simp add: only_credit_def)

lemma only_credit_trans: "only_credit w a b \<Longrightarrow> only_credit w b c \<Longrightarrow> only_credit w a c"
  by (simp add: only_credit_def)

lemma only_credit_length: "only_credit w db db' \<Longrightarrow> length (balance_rows w db') = length (balance_rows w db)"
  unfolding only_credit_def by (metis length_map)

lemma only_credit_complete:
  assumes "only_credit w db db'" "complete_rows (balance_rows w db)"
  shows "complete_rows (balance_rows w db')"
proof -
  have "map (fst \<circ> row_rest) (balance_rows w db') = map (fst \<circ> row_rest) (balance_rows w db)"
    using assms(1) unfolding only_credit_def map_map [symmetric] by simp
  moreover have "fst \<circ> row_rest = cb_shard" by (simp add: row_rest_def fun_eq_iff)
  ultimately show ?thesis
    using assms only_credit_length [OF assms(1)] by (auto simp: complete_rows_def)
qed

lemma only_credit_set_row:
  assumes "complete_rows (balance_rows w db)" "i < length (balance_rows w db)" "keeps_place f" "\<And>r. row_rest (f r) = row_rest r"
  shows "only_credit w db (set_row w (int i) f db)"
  using assms by (simp add: only_credit_def set_row_rows map_update list_update_same_conv)

definition bump :: "instant \<Rightarrow> int \<Rightarrow> credit_row \<Rightarrow> credit_row" where
  "bump now delta r = (if delta = 0 then r else r\<lparr>cb_total_credits := cb_total_credits r + delta, cb_updated_at := now\<rparr>)"

lemma bump_simps [simp]:
  "cb_headroom (bump now d r) = cb_headroom r + d" "cb_marked (bump now d r) = cb_marked r"
  "row_rest (bump now d r) = row_rest r" "keeps_place (bump now d)"
  by (simp_all add: bump_def cb_headroom_def cb_marked_def row_rest_def keeps_place_def)

lemma write_deltas_ok:
  "complete_rows (balance_rows w db) \<Longrightarrow> i + length ds = length (balance_rows w db) \<Longrightarrow>
   map cb_headroom (drop i (balance_rows w db)) = map snd ds \<Longrightarrow>
   \<exists>db'. write_deltas w now (int i) ds db = (Inr (), db') \<and> only_credit w db db' \<and>
     balance_rows w db' = take i (balance_rows w db) @ map (\<lambda>(d, r). bump now (fst d) r) (zip ds (drop i (balance_rows w db)))"
proof (induction ds arbitrary: i db)
  case Nil
  then show ?case by (simp add: only_credit_refl)
next
  case (Cons d ds)
  obtain delta before where d: "d = (delta, before)" by fastforce
  let ?rows = "balance_rows w db"
  have i: "i < length ?rows" using Cons.prems(2) by simp
  have drop: "drop i ?rows = ?rows ! i # drop (Suc i) ?rows" using i by (rule Cons_nth_drop_Suc [symmetric])
  have before: "cb_headroom (?rows ! i) = before" and rest: "map cb_headroom (drop (Suc i) ?rows) = map snd ds"
    using Cons.prems(3) unfolding drop d by simp_all
  define db1 where "db1 = set_row w (int i) (bump now delta) db"
  have rows1: "balance_rows w db1 = ?rows[i := bump now delta (?rows ! i)]"
    unfolding db1_def using Cons.prems(1) i by (simp add: set_row_rows)
  have oc: "only_credit w db db1" unfolding db1_def using Cons.prems(1) i by (intro only_credit_set_row) auto
  have step: "write_deltas w now (int i) (d # ds) db = write_deltas w now (int (Suc i)) ds db1"
  proof (cases "delta = 0")
    case True
    then have "db1 = db" by (simp add: db1_def set_row_def bump_def map_idI)
    then show ?thesis using True by (simp add: d add.commute)
  next
    case False
    then have "bump now delta = (\<lambda>r. r\<lparr>cb_total_credits := cb_total_credits r + delta, cb_updated_at := now\<rparr>)"
      by (simp add: bump_def fun_eq_iff)
    then show ?thesis
      using False before point_update [OF Cons.prems(1) i, of "\<lambda>r. cb_headroom r = before"]
      by (simp add: d db1_def add.commute)
  qed
  have "\<exists>db'. write_deltas w now (int (Suc i)) ds db1 = (Inr (), db') \<and> only_credit w db1 db' \<and>
     balance_rows w db' = take (Suc i) (balance_rows w db1) @ map (\<lambda>(d, r). bump now (fst d) r) (zip ds (drop (Suc i) (balance_rows w db1)))"
    using Cons.prems(2) rest only_credit_complete [OF oc Cons.prems(1)] by (intro Cons.IH) (simp_all add: rows1)
  then obtain db' where db': "write_deltas w now (int (Suc i)) ds db1 = (Inr (), db')" "only_credit w db1 db'"
     "balance_rows w db' = take (Suc i) (balance_rows w db1) @ map (\<lambda>(d, r). bump now (fst d) r) (zip ds (drop (Suc i) (balance_rows w db1)))"
    by blast
  have "take (Suc i) (?rows[i := bump now delta (?rows ! i)]) = take i ?rows @ [bump now delta (?rows ! i)]"
    using i by (simp add: take_Suc_conv_app_nth)
  then show ?case
    using db' step only_credit_trans [OF oc] unfolding rows1 drop d by (auto simp: add.commute)
qed

lemma write_mark_ok:
  assumes c: "complete_rows (balance_rows w db)"
    and "length (rw_headroom before) = length (balance_rows w db)" "rw_marks before = map cb_marked (balance_rows w db)"
  shows "\<exists>db'. write_mark w now marked before db = (Inr (), db') \<and> only_credit w db db' \<and>
     map cb_headroom (balance_rows w db') = map cb_headroom (balance_rows w db) \<and> (\<forall>r \<in> set (balance_rows w db'). cb_marked r = marked)"
proof (cases "\<exists>mark \<in> set (rw_marks before). mark \<noteq> marked")
  case False
  then show ?thesis using assms by (auto simp: write_mark_def only_credit_refl)
next
  case True
  let ?rows = "balance_rows w db" and ?n = "int (length (balance_rows w db))"
  let ?P = "\<lambda>r. cb_workspace_id r = w \<and> cb_shard r \<ge> 0 \<and> cb_shard r < ?n"
  let ?f = "\<lambda>r. r\<lparr>cb_in_debt := Some marked, cb_updated_at := now\<rparr>"
  have place: "keeps_place ?f" by (simp add: keeps_place_def)
  have all: "?P r" if "r \<in> set ?rows" for r
    using that complete_rows_shard [OF c] by (auto simp: in_set_conv_nth dest: balance_rows_workspace nth_mem)
  have "filter ?P ?rows = ?rows" using all by (simp add: filter_id_conv)
  then have count: "fst (update_credits ?P ?f db) = ?n" using update_credits_count [of ?P w ?f db] by simp
  define db' where "db' = snd (update_credits ?P ?f db)"
  have rows: "balance_rows w db' = map ?f ?rows"
    unfolding db'_def update_credits_rows [OF place] using all by (intro map_cong) auto
  have "balance_rows v db' = balance_rows v db" if "v \<noteq> w" for v
    unfolding db'_def update_credits_rows [OF place] using that by (intro map_idI) (auto dest: balance_rows_workspace)
  then have "only_credit w db db'"
    using rows by (simp add: only_credit_def update_credits_frame row_rest_def db'_def)
  moreover have "update_credits ?P ?f db = (?n, db')" using count by (simp add: db'_def prod_eq_iff)
  ultimately show ?thesis
    using True assms(2) rows by (auto simp: write_mark_def Let_def cb_headroom_def cb_marked_def)
qed

lemma write_credit_rows_ok:
  assumes c: "complete_rows (balance_rows w db)"
    and b: "rw_headroom before = map cb_headroom (balance_rows w db)" "rw_marks before = map cb_marked (balance_rows w db)"
    and h: "length headroom = length (balance_rows w db)"
  obtains db' where "write_credit_rows w before headroom marked now db = (Inr (), db')" "only_credit w db db'"
    "map cb_headroom (balance_rows w db') = headroom" "\<forall>r \<in> set (balance_rows w db'). cb_marked r = marked"
proof -
  let ?rows = "balance_rows w db"
  define ds where "ds = zip (map (\<lambda>(old, new). new - old) (zip (map cb_headroom ?rows) headroom)) (map cb_headroom ?rows)"
  have ds: "length ds = length ?rows" "map snd ds = map cb_headroom ?rows" using h by (simp_all add: ds_def)
  obtain db1 where db1: "write_deltas w now 0 ds db = (Inr (), db1)" "only_credit w db db1"
      "balance_rows w db1 = map (\<lambda>(d, r). bump now (fst d) r) (zip ds ?rows)"
    using write_deltas_ok [OF c, of 0 ds now] ds by auto
  have head: "map cb_headroom (balance_rows w db1) = headroom"
    using h ds(1) unfolding db1(3) by (intro nth_equalityI) (auto simp: ds_def)
  have marks: "map cb_marked (balance_rows w db1) = map cb_marked ?rows"
    using ds(1) unfolding db1(3) by (intro nth_equalityI) auto
  obtain db' where db': "write_mark w now marked before db1 = (Inr (), db')" "only_credit w db1 db'"
     "map cb_headroom (balance_rows w db') = map cb_headroom (balance_rows w db1)" "\<forall>r \<in> set (balance_rows w db'). cb_marked r = marked"
    using write_mark_ok [OF only_credit_complete [OF db1(2) c], of before now marked] b marks only_credit_length [OF db1(2)] by auto
  show ?thesis
    using that [of db'] db' db1(1) head only_credit_trans [OF db1(2) db'(2)] h b(1)
    by (simp add: write_credit_rows_def credit_deltas_def ds_def)
qed

section \<open>The claims of a workspace\<close>

definition held_causes :: "credit_row \<Rightarrow> string list" where
  "held_causes r = sort (case cb_pause_causes r of None \<Rightarrow> [] | Some cs \<Rightarrow> cs)"

text \<open>A workspace with \<open>n\<close> shards: its rows are complete, the replicated pause columns agree, and the
  primary key of the trust events holds.\<close>

definition sound :: "string \<Rightarrow> nat \<Rightarrow> 'a credit_db_scheme \<Rightarrow> bool" where
  "sound w n db \<longleftrightarrow> complete_rows (balance_rows w db) \<and> length (balance_rows w db) = n \<and>
     (\<exists>cs. set cs \<subseteq> set TRUST_PAUSE_CAUSES \<and> (\<forall>r \<in> set (balance_rows w db). held_causes r = cs)) \<and>
     distinct (map (\<lambda>e. (te_workspace_id e, te_event_id e)) (tr_trust_event db))"

lemma only_credit_sound:
  assumes "only_credit w db db'" "sound w n db"
  shows "sound w n db'"
proof -
  have "map (snd \<circ> snd \<circ> snd \<circ> row_rest) (balance_rows w db') = map (snd \<circ> snd \<circ> snd \<circ> row_rest) (balance_rows w db)"
    using assms(1) unfolding only_credit_def map_map [symmetric] by simp
  moreover have "snd \<circ> snd \<circ> snd \<circ> row_rest = cb_pause_causes" by (simp add: row_rest_def fun_eq_iff)
  ultimately have "set (map cb_pause_causes (balance_rows w db')) = set (map cb_pause_causes (balance_rows w db))" by metis
  then have "cb_pause_causes ` set (balance_rows w db') = cb_pause_causes ` set (balance_rows w db)" by simp
  then have "(\<lambda>c. sort (case c of None \<Rightarrow> [] | Some cs \<Rightarrow> cs)) ` cb_pause_causes ` set (balance_rows w db') =
      (\<lambda>c. sort (case c of None \<Rightarrow> [] | Some cs \<Rightarrow> cs)) ` cb_pause_causes ` set (balance_rows w db)" by simp
  then have held: "held_causes ` set (balance_rows w db') = held_causes ` set (balance_rows w db)"
    by (simp add: image_image held_causes_def)
  obtain cs where cs: "set cs \<subseteq> set TRUST_PAUSE_CAUSES" "held_causes ` set (balance_rows w db) \<subseteq> {cs}"
    using assms(2) by (auto simp: sound_def)
  then have "\<forall>r \<in> set (balance_rows w db'). held_causes r = cs" unfolding held [symmetric] by auto
  then show ?thesis
    using assms cs(1) only_credit_complete [OF assms(1)] only_credit_length [OF assms(1)]
    by (auto simp: sound_def only_credit_def)
qed

definition row_money :: "credit_row \<Rightarrow> int \<times> int \<times> int \<times> int \<times> bool option" where
  "row_money r = (cb_shard r, cb_total_credits r, cb_total_usage r, cb_reserved r, cb_in_debt r)"

definition absorbed :: "string \<Rightarrow> nat \<Rightarrow> int \<Rightarrow> 'a credit_db_scheme \<Rightarrow> 'a credit_db_scheme \<Rightarrow> bool" where
  "absorbed w n a db db' \<longleftrightarrow> sound w n db' \<and> map row_money (balance_rows w db') = map row_money (balance_rows w db) \<and>
     unrecovered_sum w db' = unrecovered_sum w db - a \<and>
     (\<forall>v. v \<noteq> w \<longrightarrow> balance_rows v db' = balance_rows v db \<and> unrecovered_sum v db' = unrecovered_sum v db)"

lemma row_money_eq:
  assumes "map row_money xs = map row_money ys"
  shows "map cb_headroom xs = map cb_headroom ys" "map cb_marked xs = map cb_marked ys"
    "map cb_reserved xs = map cb_reserved ys" "map cb_total_usage xs = map cb_total_usage ys" "length xs = length ys"
proof -
  have eq: "map (g \<circ> row_money) xs = map (g \<circ> row_money) ys" for g :: "_ \<Rightarrow> 'b"
    using assms unfolding map_map [symmetric] by simp
  show "map cb_headroom xs = map cb_headroom ys"
    using eq [of "\<lambda>(i, c, u, v, d). c - u - v"] by (simp add: row_money_def cb_headroom_def [abs_def] comp_def)
  show "map cb_marked xs = map cb_marked ys"
    using eq [of "\<lambda>(i, c, u, v, d). d = Some True"] by (simp add: row_money_def cb_marked_def [abs_def] comp_def)
  show "map cb_reserved xs = map cb_reserved ys"
    using eq [of "\<lambda>(i, c, u, v, d). v"] by (simp add: row_money_def comp_def)
  show "map cb_total_usage xs = map cb_total_usage ys"
    using eq [of "\<lambda>(i, c, u, v, d). u"] by (simp add: row_money_def comp_def)
  show "length xs = length ys" using assms by (rule map_eq_imp_length_eq)
qed

lemma remdups_replicate: "0 < n \<Longrightarrow> remdups (replicate n x) = [x]"
proof (induction n)
  case (Suc n)
  then show ?case by (cases n) auto
qed simp

lemma sync_pause_ok:
  assumes s: "sound w n db"
  shows "\<exists>db'. sync_principal_recovery_pause_tx w (int n) paused now entity db = (Inr (), db') \<and> absorbed w n 0 db db'"
proof -
  let ?rows = "balance_rows w db"
  have c: "complete_rows ?rows" "length ?rows = n" using s by (simp_all add: sound_def)
  obtain cs where cs: "set cs \<subseteq> set TRUST_PAUSE_CAUSES" "\<forall>r \<in> set ?rows. held_causes r = cs"
    using s by (auto simp: sound_def)
  have conf: "configured_rows w (int n) db = ?rows" using configured_rows_complete(2) [OF c(1)] c(2) by simp
  have shards: "map cb_shard ?rows = map int [0..<n]" using c by (simp add: complete_rows_def)
  have "map held_causes ?rows = map (\<lambda>_. cs) ?rows" using cs(2) by simp
  then have "map held_causes ?rows = replicate n cs" using c(2) by (simp only: map_replicate_const)
  moreover have "0 < n" using c by (auto simp: complete_rows_def)
  ultimately have "remdups (map held_causes ?rows) = [cs]" by (simp add: remdups_replicate)
  then have obs: "remdups (map (\<lambda>r. sort (case cb_pause_causes r of None \<Rightarrow> [] | Some cs \<Rightarrow> cs)) ?rows) = [cs]"
    by (simp add: held_causes_def [abs_def])
  define causes where "causes = (if paused then cs @ [''principal_recovery''] else filter (\<lambda>c. c \<noteq> ''principal_recovery'') cs)"
  show ?thesis
  proof (cases "set causes = set cs")
    case True
    then have "sync_principal_recovery_pause_tx w (int n) paused now entity db = (Inr (), db)"
      using cs(1) by (simp add: sync_principal_recovery_pause_tx_def Let_def conf shards obs causes_def [symmetric])
    then show ?thesis using s by (simp add: absorbed_def)
  next
    case False
    define norm where "norm = shard_pause_causes causes"
    let ?P = "\<lambda>r. cb_workspace_id r = w \<and> cb_shard r \<ge> 0 \<and> cb_shard r < int n"
    let ?f = "\<lambda>r. r\<lparr>cb_pause_causes := Some norm, cb_pause_epoch := Some (oint (cb_pause_epoch r) + 1), cb_updated_at := now\<rparr>"
    define db1 where "db1 = snd (update_credits ?P ?f db)"
    define db2 where "db2 = (case dget (workspace_documents db1) w of None \<Rightarrow> db1
        | Some body \<Rightarrow> db1\<lparr>workspace_documents := dset w (sync_document entity paused norm body) (workspace_documents db1)\<rparr>)"
    have place: "keeps_place ?f" by (simp add: keeps_place_def)
    have all: "?P r" if "r \<in> set ?rows" for r
      using that complete_rows_shard [OF c(1)] c(2) by (auto simp: in_set_conv_nth dest: balance_rows_workspace nth_mem)
    have "filter ?P ?rows = ?rows" using all by (simp add: filter_id_conv)
    then have "fst (update_credits ?P ?f db) = int n" using update_credits_count [of ?P w ?f db] c(2) by simp
    then have "update_credits ?P ?f db = (int n, db1)" by (simp add: db1_def prod_eq_iff)
    then have run: "sync_principal_recovery_pause_tx w (int n) paused now entity db = (Inr (), db2)"
      using cs(1) False unfolding sync_principal_recovery_pause_tx_def conf
      by (simp add: Let_def shards obs causes_def [symmetric] norm_def [symmetric] db2_def)
    have tables: "tr_credit_balance db2 = tr_credit_balance db1" "tr_trust_event db2 = tr_trust_event db"
      by (simp_all add: db2_def db1_def update_credits_frame split: option.split)
    have brows: "balance_rows v db2 = balance_rows v db1" for v by (simp add: balance_rows_def tables)
    have rows: "balance_rows w db2 = map ?f ?rows"
      unfolding brows db1_def update_credits_rows [OF place] using all by (intro map_cong) auto
    have others: "balance_rows v db2 = balance_rows v db" if "v \<noteq> w" for v
      unfolding brows db1_def update_credits_rows [OF place] using that by (intro map_idI) (auto dest: balance_rows_workspace)
    have "''principal_recovery'' \<in> set TRUST_PAUSE_CAUSES" by (simp add: TRUST_PAUSE_CAUSES_def)
    moreover have "set norm \<subseteq> set causes" by (auto simp: norm_def shard_pause_causes_def)
    moreover have "set causes \<subseteq> insert ''principal_recovery'' (set cs)" by (auto simp: causes_def)
    ultimately have "set norm \<subseteq> set TRUST_PAUSE_CAUSES" using cs(1) by blast
    then have "\<exists>cs. set cs \<subseteq> set TRUST_PAUSE_CAUSES \<and> (\<forall>r \<in> set (balance_rows w db2). held_causes r = cs)"
      unfolding rows by (intro exI [of _ "sort norm"]) (auto simp: held_causes_def)
    moreover have "complete_rows (balance_rows w db2)" using c(1) by (simp add: rows complete_rows_def comp_def)
    ultimately have "sound w n db2" using s by (simp add: sound_def tables rows)
    moreover have "map row_money (balance_rows w db2) = map row_money ?rows" by (simp add: rows row_money_def)
    ultimately have "absorbed w n 0 db db2" using others by (simp add: absorbed_def unrecovered_sum_def tables)
    then show ?thesis using run by blast
  qed
qed

definition event_key :: "trust_event \<Rightarrow> string \<times> string" where
  "event_key e = (te_workspace_id e, te_event_id e)"

definition owed_value :: "string \<Rightarrow> trust_event \<Rightarrow> int" where
  "owed_value w e = (if te_workspace_id e = w \<and> te_kind e = ''payment'' then oint (te_unrecovered e) else 0)"

lemma unrecovered_sum_eq: "unrecovered_sum w db = sum_list (map (owed_value w) (tr_trust_event db))"
  unfolding unrecovered_sum_def by (induction "tr_trust_event db" arbitrary: db rule: rev_induct)
    (simp_all add: sum_list_map_filter' owed_value_def [abs_def])

lemma keyed_update:
  assumes "distinct (map event_key t)" "p \<in> set t" "P p" "\<And>e. P e \<Longrightarrow> event_key e = event_key p" "\<And>e. event_key (f e) = event_key e"
  shows "\<exists>xs ys. t = xs @ p # ys \<and> sql_update P f t = (1, xs @ f p # ys)"
proof -
  obtain xs ys where t: "t = xs @ p # ys" using assms(2) by (meson split_list)
  have no: "\<not> P e" if "e \<in> set xs \<union> set ys" for e
    using that assms(1) assms(4) [of e] by (auto simp: t) (metis image_eqI)+
  then have "filter P xs = []" "filter P ys = []" by (auto simp: filter_empty_conv)
  moreover have "map (\<lambda>r. if P r then f r else r) xs = xs" "map (\<lambda>r. if P r then f r else r) ys = ys"
    using no by (auto intro: map_idI)
  ultimately show ?thesis using assms(3) t by (auto simp: sql_update_def)
qed

lemma absorb_claims_ok:
  "distinct (map event_key (tr_trust_event db)) \<Longrightarrow> distinct (map event_key ps) \<Longrightarrow>
   \<forall>p \<in> set ps. p \<in> set (tr_trust_event db) \<and> owing w p \<Longrightarrow> 0 \<le> remaining \<Longrightarrow>
   \<exists>a t. absorb_claims w ps remaining acc db = (Inr (acc + a), db\<lparr>tr_trust_event := t\<rparr>) \<and> 0 \<le> a \<and> a \<le> remaining \<and>
     map event_key t = map event_key (tr_trust_event db) \<and>
     sum_list (map (owed_value w) t) = sum_list (map (owed_value w) (tr_trust_event db)) - a \<and>
     (\<forall>v. v \<noteq> w \<longrightarrow> sum_list (map (owed_value v) t) = sum_list (map (owed_value v) (tr_trust_event db)))"
proof (induction ps arbitrary: remaining acc db)
  case Nil
  show ?case by (rule exI [of _ 0], rule exI [of _ "tr_trust_event db"]) (use Nil in simp)
next
  case (Cons p ps)
  show ?case
  proof (cases "remaining = 0")
    case True
    show ?thesis by (rule exI [of _ 0], rule exI [of _ "tr_trust_event db"]) (use True in simp)
  next
    case False
    define amount where "amount = min remaining (oint (te_unrecovered p))"
    have p: "p \<in> set (tr_trust_event db)" "owing w p" using Cons.prems(3) by auto
    then obtain u where u: "te_unrecovered p = Some u" "0 < u" "te_workspace_id p = w" "te_kind p = ''payment''"
      by (cases "te_unrecovered p") (auto simp: owing_def)
    have pos: "0 < amount" "amount \<le> u" "amount \<le> remaining" using False Cons.prems(4) u by (auto simp: amount_def)
    let ?P = "\<lambda>e. te_workspace_id e = w \<and> te_event_id e = te_event_id p \<and> te_kind e = ''payment'' \<and>
        (case te_unrecovered e of None \<Rightarrow> False | Some u \<Rightarrow> u \<ge> amount)"
    obtain xs ys where t: "tr_trust_event db = xs @ p # ys"
        "sql_update ?P (take_claim amount) (tr_trust_event db) = (1, xs @ take_claim amount p # ys)"
      using keyed_update [OF Cons.prems(1) p(1), of ?P "take_claim amount"] u pos
      by (auto simp: event_key_def take_claim_def)
    define db1 where "db1 = db\<lparr>tr_trust_event := xs @ take_claim amount p # ys\<rparr>"
    have step: "absorb_claims w (p # ps) remaining acc db = absorb_claims w ps (remaining - amount) (acc + amount) db1"
      using False pos t(2) by (simp add: amount_def [symmetric] Let_def db1_def)
    have keys: "map event_key (tr_trust_event db1) = map event_key (tr_trust_event db)"
      by (simp add: db1_def t(1) event_key_def take_claim_def)
    have sums: "sum_list (map (owed_value v) (tr_trust_event db1)) =
        sum_list (map (owed_value v) (tr_trust_event db)) - (if v = w then amount else 0)" for v
      using u by (simp add: db1_def t(1) owed_value_def take_claim_def)
    have rest: "\<forall>q \<in> set ps. q \<in> set (tr_trust_event db1) \<and> owing w q"
      using Cons.prems(2,3) by (auto simp: db1_def t(1))
    obtain a t' where "absorb_claims w ps (remaining - amount) (acc + amount) db1 = (Inr (acc + amount + a), db1\<lparr>tr_trust_event := t'\<rparr>)"
        "0 \<le> a" "a \<le> remaining - amount" "map event_key t' = map event_key (tr_trust_event db1)"
        "sum_list (map (owed_value w) t') = sum_list (map (owed_value w) (tr_trust_event db1)) - a"
        "\<forall>v. v \<noteq> w \<longrightarrow> sum_list (map (owed_value v) t') = sum_list (map (owed_value v) (tr_trust_event db1))"
      using Cons.IH [of db1 "remaining - amount" "acc + amount"] Cons.prems(1,2) rest pos keys by auto
    then show ?thesis
      unfolding step keys sums using pos by (intro exI [of _ "amount + a"] exI [of _ t']) (auto simp: db1_def)
  qed
qed

text \<open>The contract of a function that pays claims out of money that came in: it takes at most what
  it is offered, the claims shrink by what it took, and the money on the rows is as before.\<close>

locale claim_absorber =
  fixes w :: string and n :: nat and absorb :: "int \<Rightarrow> ('a credit_db_scheme, int) tx"
  assumes absorbs: "sound w n db \<Longrightarrow> 0 \<le> offered \<Longrightarrow>
    \<exists>a db'. absorb offered db = (Inr a, db') \<and> 0 \<le> a \<and> a \<le> offered \<and> absorbed w n a db db'"

lemma absorbed_trans: "absorbed w n a db1 db2 \<Longrightarrow> absorbed w n b db2 db3 \<Longrightarrow> absorbed w n (a + b) db1 db3"
  by (auto simp: absorbed_def)

lemma absorb_unrecovered_ok:
  assumes s: "sound w n db" and "0 \<le> offered" and count: "\<And>db'. sound w n db' \<Longrightarrow> shard_count db' = Inr (int n)"
  shows "\<exists>a db'. absorb_unrecovered_recovery_tx w shard_count now entity offered db = (Inr a, db') \<and> 0 \<le> a \<and> a \<le> offered \<and>
    absorbed w n a db db'"
proof -
  define ps where "ps = sql_select (owing w) (\<lambda>e. (te_occurred_at e, te_event_id e)) (tr_trust_event db)"
  have key: "map event_key xs = map (\<lambda>e. (te_workspace_id e, te_event_id e)) xs" for xs by (simp add: event_key_def)
  show ?thesis
  proof (cases "ps = []")
    case True
    then have "absorb_unrecovered_recovery_tx w shard_count now entity offered db = (Inr 0, db)"
      by (simp add: absorb_unrecovered_recovery_tx_def ps_def [symmetric] Let_def)
    then show ?thesis using s assms(2) by (simp add: absorbed_def)
  next
    case False
    have d: "distinct (map event_key (tr_trust_event db))" using s by (simp add: sound_def key)
    have "distinct (map event_key ps)"
      using d by (simp add: ps_def sql_select_def distinct_map distinct_filter inj_on_def)
    moreover have "\<forall>p \<in> set ps. p \<in> set (tr_trust_event db) \<and> owing w p" by (auto simp: ps_def sql_select_def)
    ultimately obtain a t where a: "absorb_claims w ps offered 0 db = (Inr a, db\<lparr>tr_trust_event := t\<rparr>)" "0 \<le> a" "a \<le> offered"
        "map event_key t = map event_key (tr_trust_event db)"
        "sum_list (map (owed_value w) t) = sum_list (map (owed_value w) (tr_trust_event db)) - a"
        "\<forall>v. v \<noteq> w \<longrightarrow> sum_list (map (owed_value v) t) = sum_list (map (owed_value v) (tr_trust_event db))"
      using absorb_claims_ok [OF d, of ps w offered 0] assms(2) by auto
    define db1 where "db1 = db\<lparr>tr_trust_event := t\<rparr>"
    have rows: "balance_rows v db1 = balance_rows v db" for v by (simp add: balance_rows_def db1_def)
    have "distinct (map event_key t)" using d a(4) by metis
    then have "sound w n db1" using s by (simp add: sound_def rows) (simp add: db1_def key)
    then have one: "absorbed w n a db db1" using a(5,6) by (simp add: absorbed_def rows unrecovered_sum_eq) (simp add: db1_def)
    obtain db2 where db2: "sync_principal_recovery_pause_tx w (int n) (unrecovered_sum w db1 > 0) now entity db1 = (Inr (), db2)"
        "absorbed w n 0 db1 db2" using sync_pause_ok [OF \<open>sound w n db1\<close>] by blast
    have "absorb_unrecovered_recovery_tx w shard_count now entity offered db = (Inr a, db2)"
      using False a(1) db2(1) count [OF s] assms(2)
      by (simp add: absorb_unrecovered_recovery_tx_def ps_def [symmetric] Let_def db1_def [symmetric])
    then show ?thesis using a(2,3) absorbed_trans [OF one db2(2)] by simp
  qed
qed

lemma shard_count_from_rows_sound: "sound w n db \<Longrightarrow> credit_shard_count_from_rows w db = Inr (int n)"
  by (auto simp: credit_shard_count_from_rows_def Let_def sound_def complete_rows_def)

interpretation settle_claims: claim_absorber w n "absorb_unrecovered_recovery_tx w (credit_shard_count_from_rows w) now entity"
  for w n now entity
  by unfold_locales (rule absorb_unrecovered_ok [OF _ _ shard_count_from_rows_sound])

interpretation grant_claims: claim_absorber w n "absorb_unrecovered_recovery_tx w (\<lambda>_. Inr (int n)) now entity"
  for w n now entity
  by unfold_locales (rule absorb_unrecovered_ok [OF _ _ refl])

section \<open>Money in and out under the debt rules\<close>

definition signed_headroom :: "string \<Rightarrow> 'a credit_db_scheme \<Rightarrow> int" where
  "signed_headroom w db = sum_list (map cb_headroom (balance_rows w db))"

text \<open>What the workspace could spend once its payment claims are paid.\<close>

definition net_credit :: "string \<Rightarrow> 'a credit_db_scheme \<Rightarrow> int" where
  "net_credit w db = signed_headroom w db - unrecovered_sum w db"

text \<open>The rule of the module documentation: no row is negative unless every row is marked, and the
  rows are marked only while the signed sum is negative.\<close>

definition debt_ok :: "string \<Rightarrow> 'a credit_db_scheme \<Rightarrow> bool" where
  "debt_ok w db \<longleftrightarrow>
     (\<forall>r \<in> set (balance_rows w db). cb_marked r) \<and> signed_headroom w db < 0 \<or>
     (\<forall>r \<in> set (balance_rows w db). \<not> cb_marked r \<and> 0 \<le> cb_headroom r)"

definition holds_kept :: "string \<Rightarrow> nat \<Rightarrow> 'a credit_db_scheme \<Rightarrow> 'a credit_db_scheme \<Rightarrow> bool" where
  "holds_kept w n db db' \<longleftrightarrow> sound w n db' \<and> map cb_reserved (balance_rows w db') = map cb_reserved (balance_rows w db) \<and>
     map cb_total_usage (balance_rows w db') = map cb_total_usage (balance_rows w db) \<and>
     (\<forall>v. v \<noteq> w \<longrightarrow> balance_rows v db' = balance_rows v db \<and> unrecovered_sum v db' = unrecovered_sum v db)"

lemma holds_kept_trans: "holds_kept w n a b \<Longrightarrow> holds_kept w n b c \<Longrightarrow> holds_kept w n a c"
  by (simp add: holds_kept_def)

lemma absorbed_kept: "absorbed w n a db db' \<Longrightarrow> holds_kept w n db db'"
  by (auto simp: absorbed_def holds_kept_def dest: row_money_eq)

lemma absorbed_net: "absorbed w n a db db' \<Longrightarrow> signed_headroom w db' = signed_headroom w db \<and> net_credit w db' = net_credit w db + a"
  by (auto simp: absorbed_def net_credit_def signed_headroom_def dest: row_money_eq(1))

lemma only_credit_kept:
  assumes "only_credit w db db'" "sound w n db"
  shows "holds_kept w n db db'" "unrecovered_sum w db' = unrecovered_sum w db"
proof -
  have eq: "map (g \<circ> row_rest) (balance_rows w db') = map (g \<circ> row_rest) (balance_rows w db)" for g :: "_ \<Rightarrow> int"
    using assms(1) unfolding only_credit_def map_map [symmetric] by simp
  show "unrecovered_sum w db' = unrecovered_sum w db" using assms(1) by (simp add: only_credit_def unrecovered_sum_def)
  show "holds_kept w n db db'"
    using only_credit_sound [OF assms] eq [of "\<lambda>(i, u, v, p). u"] eq [of "\<lambda>(i, u, v, p). v"] assms(1)
    by (simp add: holds_kept_def only_credit_def unrecovered_sum_def row_rest_def comp_def)
qed

lemma read_credit_rows_sound:
  "sound w n db \<Longrightarrow> shard_count = None \<or> shard_count = Some (int n) \<Longrightarrow> read_credit_rows w shard_count db =
     Inr \<lparr>rw_headroom = map cb_headroom (balance_rows w db), rw_marks = map cb_marked (balance_rows w db)\<rparr>"
  by (auto simp: read_credit_rows_def Let_def sound_def complete_rows_def)

lemma settle_rows_ok:
  assumes s: "sound w n db"
  shows "\<exists>q db'. cover_or_mark w now db = (Inr q, db') \<and> holds_kept w n db db' \<and> debt_ok w db' \<and>
    net_credit w db' = net_credit w db"
proof -
  let ?rows = "balance_rows w db"
  have c: "complete_rows ?rows" "map cb_headroom ?rows \<noteq> []" using s by (auto simp: sound_def complete_rows_def)
  obtain q where q: "square (map cb_headroom ?rows) = Inr q" "length (sq_headroom q) = length (map cb_headroom ?rows)"
      "sum_list (sq_headroom q) = sum_list (map cb_headroom ?rows)" "sq_marked q \<longleftrightarrow> sum_list (map cb_headroom ?rows) < 0"
      "\<not> sq_marked q \<longrightarrow> (\<forall>i < length (map cb_headroom ?rows). 0 \<le> sq_headroom q ! i \<and> sq_headroom q ! i \<le> max 0 (map cb_headroom ?rows ! i))"
    using square_facts [OF c(2)] by metis
  let ?before = "\<lparr>rw_headroom = map cb_headroom ?rows, rw_marks = map cb_marked ?rows\<rparr>"
  obtain db' where db': "write_credit_rows w ?before (sq_headroom q) (sq_marked q) now db = (Inr (), db')" "only_credit w db db'"
      "map cb_headroom (balance_rows w db') = sq_headroom q" "\<forall>r \<in> set (balance_rows w db'). cb_marked r = sq_marked q"
    using write_credit_rows_ok [OF c(1), of ?before "sq_headroom q" "sq_marked q" now] q(2) by auto
  have "cover_or_mark w now db = (Inr q, db')"
    using db'(1) q(1) read_credit_rows_sound [OF s, of None] by (simp add: cover_or_mark_def settle_credit_rows_def)
  moreover have "signed_headroom w db' = signed_headroom w db" using db'(3) q(3) by (simp add: signed_headroom_def)
  moreover have "debt_ok w db'"
  proof (cases "sq_marked q")
    case True
    then show ?thesis using db' q by (auto simp: debt_ok_def signed_headroom_def)
  next
    case False
    then have "\<forall>v \<in> set (map cb_headroom (balance_rows w db')). 0 \<le> v" using q(2,5) unfolding db'(3) by (auto simp: in_set_conv_nth)
    then show ?thesis using False db'(4) by (auto simp: debt_ok_def)
  qed
  ultimately show ?thesis using only_credit_kept [OF db'(2) s] by (auto simp: net_credit_def)
qed

lemma add_at_nth: "i < length xs \<Longrightarrow> add_at xs (int i) v = Inr (xs[i := xs ! i + v])"
  by (simp add: add_at_def Let_def)

definition landing_ok :: "nat \<Rightarrow> int option \<Rightarrow> bool" where
  "landing_ok n landing \<longleftrightarrow> landing = None \<or> (\<exists>i < n. landing = Some (int i))"

lemma land_left_ok:
  assumes "landing_ok (length xs) landing" "xs \<noteq> []" "0 \<le> left"
  obtains ys where "land_left landing left xs = Inr ys" "length ys = length xs" "sum_list ys = sum_list xs + left"
    "(\<forall>v \<in> set xs. 0 \<le> v) \<longrightarrow> (\<forall>v \<in> set ys. 0 \<le> v)"
proof (cases landing)
  case None
  obtain p where p: "distribute_credit_amount left (int (length xs)) = Inr p" "length p = length xs" "sum_list p = left"
      "\<forall>i < length p. 0 \<le> p ! i"
    using distribute_facts [of "int (length xs)" left] assms(2,3) by (auto simp: Suc_le_eq)
  let ?ys = "map (\<lambda>(a, b). a + b) (zip xs p)"
  have "0 \<le> v" if "\<forall>v \<in> set xs. 0 \<le> v" "v \<in> set ?ys" for v
    using that p(2,4) by (auto simp: in_set_zip)
  then show ?thesis
    using that [of ?ys] None p sum_list_zip_add [of xs p] by (auto simp: land_left_def)
next
  case (Some j)
  then obtain i where i: "i < length xs" "landing = Some (int i)" using assms(1) by (auto simp: landing_ok_def)
  have "0 \<le> v" if "\<forall>v \<in> set xs. 0 \<le> v" "v \<in> set (xs[i := xs ! i + left])" for v
    using that assms(3) i(1) set_update_subset_insert [of xs i "xs ! i + left"] nth_mem [OF i(1)] by (auto dest!: subsetD)
  then show ?thesis
    using that [of "xs[i := xs ! i + left]"] i add_at_nth [OF i(1)] by (auto simp: land_left_def sum_list_update_int)
qed

context claim_absorber
begin

lemma absorb_left_ok:
  assumes "sound w n db" "0 \<le> in_left f" "in_marked f \<longrightarrow> in_left f = 0"
  shows "\<exists>a db'. absorb_left (Some absorb) f db = (Inr a, db') \<and> 0 \<le> a \<and> a \<le> in_left f \<and> absorbed w n a db db'"
proof (cases "in_marked f \<or> in_left f \<le> 0")
  case True
  then show ?thesis using assms by (auto simp: absorb_left_def absorbed_def)
next
  case False
  then show ?thesis using absorbs [OF assms(1,2)] by (auto simp: absorb_left_def)
qed

lemma inflow_ok:
  assumes s: "sound w n db" and amount: "0 \<le> amount" and l: "landing_ok n landing"
    and sc: "shard_count = None \<or> shard_count = Some (int n)"
  shows "\<exists>r db'. take_credit_inflow w amount landing (Some absorb) now shard_count db = (Inr r, db') \<and>
    holds_kept w n db db' \<and> debt_ok w db' \<and> net_credit w db' = net_credit w db + (if landing = None then amount else 0)"
proof -
  let ?rows = "balance_rows w db" let ?h = "map cb_headroom ?rows"
  have len: "length ?h = n" and ne: "?h \<noteq> []" using s by (auto simp: sound_def complete_rows_def)
  define without where "without = (case landing of None \<Rightarrow> ?h | Some j \<Rightarrow> ?h[nat j := ?h ! nat j - amount])"
  have W: "take_back landing amount ?h = Inr without"
    using l len add_at_nth [of _ ?h "- amount"] by (auto simp: landing_ok_def without_def take_back_def)
  have wl: "length without = n" "without \<noteq> []" using len ne by (auto simp: without_def split: option.split)
  have ws: "sum_list without + amount = sum_list ?h + (if landing = None then amount else 0)"
    using l len by (auto simp: landing_ok_def without_def sum_list_update_int)
  obtain f where f: "take_inflow without amount = Inr f" "length (in_headroom f) = length without"
      "sum_list (in_headroom f) + in_left f = sum_list without + amount" "0 \<le> in_left f"
      "in_marked f \<longleftrightarrow> sum_list without + amount < 0" "in_marked f \<longrightarrow> in_left f = 0"
      "\<not> in_marked f \<longrightarrow> (\<forall>v \<in> set (in_headroom f). 0 \<le> v)"
    using take_inflow_facts [OF wl(2) amount] by metis
  obtain a db1 where a: "absorb_left (Some absorb) f db = (Inr a, db1)" "0 \<le> a" "a \<le> in_left f" "absorbed w n a db db1"
    using absorb_left_ok [OF s f(4,6)] by blast
  have money: "map cb_headroom (balance_rows w db1) = ?h" "map cb_marked (balance_rows w db1) = map cb_marked ?rows"
    using a(4) by (auto simp: absorbed_def dest: row_money_eq)
  have s1: "sound w n db1" using a(4) by (simp add: absorbed_def)
  obtain after where after: "land_left landing (in_left f - a) (in_headroom f) = Inr after" "length after = length (in_headroom f)"
      "sum_list after = sum_list (in_headroom f) + (in_left f - a)"
      "(\<forall>v \<in> set (in_headroom f). 0 \<le> v) \<longrightarrow> (\<forall>v \<in> set after. 0 \<le> v)"
  proof (rule land_left_ok [of "in_headroom f" landing "in_left f - a"])
    show "landing_ok (length (in_headroom f)) landing" using l f(2) wl(1) by simp
    show "in_headroom f \<noteq> []" using f(2) wl(2) by auto
    show "0 \<le> in_left f - a" using a(3) by simp
  qed
  let ?before = "\<lparr>rw_headroom = ?h, rw_marks = map cb_marked ?rows\<rparr>"
  obtain db2 where db2: "write_credit_rows w ?before after (in_marked f) now db1 = (Inr (), db2)" "only_credit w db1 db2"
      "map cb_headroom (balance_rows w db2) = after" "\<forall>r \<in> set (balance_rows w db2). cb_marked r = in_marked f"
  proof (rule write_credit_rows_ok [of w db1 ?before after "in_marked f" now])
    show "complete_rows (balance_rows w db1)" using s1 by (simp add: sound_def)
    show "length after = length (balance_rows w db1)" using s1 after(2) f(2) wl(1) by (simp add: sound_def)
  qed (simp_all add: money)
  have run: "take_credit_inflow w amount landing (Some absorb) now shard_count db =
      (Inr \<lparr>ir_marked = in_marked f, ir_absorbed = a\<rparr>, db2)"
    using amount read_credit_rows_sound [OF s sc] W f(1) a(1) after(1) db2(1) by (simp add: take_credit_inflow_def)
  have signed: "signed_headroom w db2 = sum_list ?h + (if landing = None then amount else 0) - a"
    using db2(3) after(3) f(3) ws by (simp add: signed_headroom_def)
  have "debt_ok w db2"
  proof (cases "in_marked f")
    case True
    then have "a = 0" using f(6) a(2,3) by simp
    then show ?thesis using True signed ws f(5) db2(4) by (auto simp: debt_ok_def)
  next
    case False
    then have "\<forall>v \<in> set (map cb_headroom (balance_rows w db2)). 0 \<le> v" using f(7) after(4) unfolding db2(3) by blast
    then show ?thesis using False db2(4) by (auto simp: debt_ok_def)
  qed
  moreover have "net_credit w db2 = net_credit w db + (if landing = None then amount else 0)"
    using signed only_credit_kept(2) [OF db2(2) s1] a(4) by (simp add: net_credit_def absorbed_def) (simp add: signed_headroom_def)
  ultimately show ?thesis
    using run holds_kept_trans [OF absorbed_kept [OF a(4)] only_credit_kept(1) [OF db2(2) s1]] by blast
qed

end

lemma nth_headroom: "i < length rows \<Longrightarrow> debt_ok w db \<Longrightarrow> rows = balance_rows w db \<Longrightarrow>
    \<not> cb_marked (rows ! i) \<Longrightarrow> (\<forall>r \<in> set rows. \<not> cb_marked r \<and> 0 \<le> cb_headroom r)"
  by (auto simp: debt_ok_def dest: nth_mem)

text \<open>A statement on one row of the workspace: what it does to the sums.\<close>

lemma set_row_signed:
  assumes "sound w n db" "i < n" "keeps_place f"
  shows "signed_headroom w (set_row w (int i) f db) =
      signed_headroom w db - cb_headroom (balance_rows w db ! i) + cb_headroom (f (balance_rows w db ! i))"
    and "unrecovered_sum v (set_row w (int i) f db) = unrecovered_sum v db"
    and "v \<noteq> w \<Longrightarrow> balance_rows v (set_row w (int i) f db) = balance_rows v db"
    and "balance_rows w (set_row w (int i) f db) = (balance_rows w db)[i := f (balance_rows w db ! i)]"
  using assms by (simp_all add: sound_def signed_headroom_def set_row_rows map_update sum_list_update_int unrecovered_sum_def)

lemma set_row_sound:
  assumes s: "sound w n db" and i: "i < n" and f: "keeps_place f" "\<And>r. cb_pause_causes (f r) = cb_pause_causes r"
  shows "sound w n (set_row w (int i) f db)"
proof -
  let ?rows = "balance_rows w db"
  obtain cs where cs: "set cs \<subseteq> set TRUST_PAUSE_CAUSES" "\<forall>r \<in> set ?rows. held_causes r = cs" using s by (auto simp: sound_def)
  have "held_causes (f (?rows ! i)) = cs" using cs(2) f(2) i s by (simp add: held_causes_def sound_def)
  then have "\<forall>r \<in> set (?rows[i := f (?rows ! i)]). held_causes r = cs"
    using cs(2) set_update_subset_insert [of ?rows i] by blast
  then show ?thesis
    using s i cs(1) complete_rows_update [OF _ f(1)] set_row_signed(4) [OF s i f(1)]
    by (auto simp: sound_def set_row_rows [OF f(1)])
qed

lemma debt_ok_set_row:
  assumes s: "sound w n db" and i: "i < n" and f: "keeps_place f" "\<And>r. cb_marked (f r) = cb_marked r"
    and d: "debt_ok w db" and le: "cb_marked (balance_rows w db ! i) \<Longrightarrow> cb_headroom (f (balance_rows w db ! i)) \<le> cb_headroom (balance_rows w db ! i)"
      "\<not> cb_marked (balance_rows w db ! i) \<Longrightarrow> 0 \<le> cb_headroom (f (balance_rows w db ! i))"
  shows "debt_ok w (set_row w (int i) f db)"
proof -
  let ?rows = "balance_rows w db" and ?r = "f (balance_rows w db ! i)"
  have len: "i < length ?rows" using s i by (simp add: sound_def)
  have in_rows: "r = ?r \<or> r \<in> set ?rows" if "r \<in> set (?rows[i := ?r])" for r
    using that set_update_subset_insert [of ?rows i ?r] by auto
  show ?thesis
  proof (cases "cb_marked (?rows ! i)")
    case True
    then have "(\<forall>r \<in> set ?rows. cb_marked r) \<and> signed_headroom w db < 0" using d nth_mem [OF len] by (auto simp: debt_ok_def)
    then show ?thesis
      using True f(2) le(1) [OF True] in_rows set_row_signed(1,4) [OF s i f(1)] by (fastforce simp: debt_ok_def)
  next
    case False
    then show ?thesis
      using nth_headroom [OF len d refl False] f(2) le(2) [OF False] in_rows set_row_signed(4) [OF s i f(1)]
      by (fastforce simp: debt_ok_def)
  qed
qed

text \<open>\<open>credit_ok\<close> is the state between transactions, and \<open>booked\<close> says what one of them did: by how much
  the net credit of the workspace changed, and that no other workspace was touched.\<close>

definition credit_ok :: "string \<Rightarrow> nat \<Rightarrow> 'a credit_db_scheme \<Rightarrow> bool" where
  "credit_ok w n db \<longleftrightarrow> sound w n db \<and> debt_ok w db \<and> (\<forall>r \<in> set (balance_rows w db). 0 \<le> cb_reserved r)"

definition booked :: "string \<Rightarrow> nat \<Rightarrow> int \<Rightarrow> 'a credit_db_scheme \<Rightarrow> 'a credit_db_scheme \<Rightarrow> bool" where
  "booked w n delta db db' \<longleftrightarrow> credit_ok w n db' \<and> net_credit w db' = net_credit w db + delta \<and>
     (\<forall>v. v \<noteq> w \<longrightarrow> balance_rows v db' = balance_rows v db \<and> unrecovered_sum v db' = unrecovered_sum v db)"

lemma booked_refl: "credit_ok w n db \<Longrightarrow> booked w n 0 db db"
  by (simp add: booked_def)

lemma booked_trans: "booked w n a db1 db2 \<Longrightarrow> booked w n b db2 db3 \<Longrightarrow> booked w n (a + b) db1 db3"
  by (simp add: booked_def)

lemma kept_booked:
  assumes "holds_kept w n db db'" "debt_ok w db'" "net_credit w db' = net_credit w db + delta"
    "\<forall>r \<in> set (balance_rows w db). 0 \<le> cb_reserved r"
  shows "booked w n delta db db'"
proof -
  have "map cb_reserved (balance_rows w db') = map cb_reserved (balance_rows w db)" using assms(1) by (simp add: holds_kept_def)
  then have eq: "set (map cb_reserved (balance_rows w db')) = set (map cb_reserved (balance_rows w db))" by (rule arg_cong)
  have "\<forall>x \<in> set (map cb_reserved (balance_rows w db)). 0 \<le> x" using assms(4) by simp
  then have "\<forall>r \<in> set (balance_rows w db'). 0 \<le> cb_reserved r" unfolding eq [symmetric] by simp
  then show ?thesis using assms by (simp add: booked_def credit_ok_def holds_kept_def)
qed

lemma set_row_booked:
  assumes ok: "credit_ok w n db" and i: "i < n"
    and f: "keeps_place f" "\<And>r. cb_pause_causes (f r) = cb_pause_causes r" "\<And>r. cb_marked (f r) = cb_marked r"
    and le: "cb_marked (balance_rows w db ! i) \<Longrightarrow> cb_headroom (f (balance_rows w db ! i)) \<le> cb_headroom (balance_rows w db ! i)"
      "\<not> cb_marked (balance_rows w db ! i) \<Longrightarrow> 0 \<le> cb_headroom (f (balance_rows w db ! i))" "0 \<le> cb_reserved (f (balance_rows w db ! i))"
  shows "booked w n (cb_headroom (f (balance_rows w db ! i)) - cb_headroom (balance_rows w db ! i)) db (set_row w (int i) f db)"
proof -
  have s: "sound w n db" and d: "debt_ok w db" and res: "\<forall>r \<in> set (balance_rows w db). 0 \<le> cb_reserved r"
    using ok by (simp_all add: credit_ok_def)
  note facts = set_row_signed [OF s i f(1)]
  have "\<forall>r \<in> set (balance_rows w (set_row w (int i) f db)). 0 \<le> cb_reserved r"
    using res le(3) set_update_subset_insert [of "balance_rows w db" i] unfolding facts(4) by blast
  then show ?thesis
    using set_row_sound [OF s i f(1,2)] debt_ok_set_row [OF s i f(1,3) d le(1,2)] facts
    by (simp add: booked_def credit_ok_def net_credit_def)
qed

lemma reserve_credit_booked:
  assumes "credit_ok w n db" "0 \<le> amount"
  obtains "reserve_credit w amount shard db = (False, db)"
  | i where "shard = int i" "i < n" "amount \<le> cb_headroom (balance_rows w db ! i)" "\<not> cb_marked (balance_rows w db ! i)"
      "reserve_credit w amount shard db = (True, set_row w shard (\<lambda>r. r\<lparr>cb_reserved := cb_reserved r + amount\<rparr>) db)"
      "booked w n (- amount) db (set_row w shard (\<lambda>r. r\<lparr>cb_reserved := cb_reserved r + amount\<rparr>) db)"
proof -
  let ?rows = "balance_rows w db"
  have c: "complete_rows ?rows" "length ?rows = n" using assms(1) by (auto simp: credit_ok_def sound_def)
  show ?thesis
  proof (cases "\<exists>i. shard = int i \<and> i < n \<and> amount \<le> cb_headroom (?rows ! i) \<and> \<not> cb_marked (?rows ! i)")
    case True
    then obtain i where i: "shard = int i" "i < n" "amount \<le> cb_headroom (?rows ! i)" "\<not> cb_marked (?rows ! i)" by blast
    let ?f = "\<lambda>r. r\<lparr>cb_reserved := cb_reserved r + amount\<rparr>"
    have "cb_headroom (?f r) = cb_headroom r - amount" for r by (simp add: cb_headroom_def)
    moreover have "0 \<le> cb_reserved (?rows ! i)" using assms(1) i(2) c(2) by (auto simp: credit_ok_def)
    ultimately have "booked w n (- amount) db (set_row w shard ?f db)"
      using set_row_booked [OF assms(1) i(2), of ?f] i assms(2) by (simp add: keeps_place_def cb_marked_def)
    then show ?thesis
      using that(2) [OF i] i c point_update [of w db i "\<lambda>r. cb_headroom r \<ge> amount \<and> \<not> cb_marked r" ?f]
      by (simp add: reserve_credit_def)
  next
    case False
    then have "update_credits (\<lambda>r. row_at w shard r \<and> cb_headroom r \<ge> amount \<and> \<not> cb_marked r) f db = (0, db)" for f
      using point_update [OF c(1), of _ "\<lambda>r. cb_headroom r \<ge> amount \<and> \<not> cb_marked r" f]
        point_update_outside [OF c(1), of shard "\<lambda>r. cb_headroom r \<ge> amount \<and> \<not> cb_marked r" f] c(2) by fastforce
    then show ?thesis using that(1) by (simp add: reserve_credit_def)
  qed
qed

lemma absorbed_debt:
  assumes "absorbed w n a db db'" "debt_ok w db"
  shows "debt_ok w db'"
proof -
  have m: "map cb_headroom (balance_rows w db') = map cb_headroom (balance_rows w db)"
      "map cb_marked (balance_rows w db') = map cb_marked (balance_rows w db)" "length (balance_rows w db') = length (balance_rows w db)"
    using assms(1) by (auto simp: absorbed_def dest: row_money_eq)
  have "cb_headroom (balance_rows w db' ! i) = cb_headroom (balance_rows w db ! i)"
      "cb_marked (balance_rows w db' ! i) = cb_marked (balance_rows w db ! i)" if "i < length (balance_rows w db)" for i
    using m(1,2) that m(3) by (metis nth_map)+
  then show ?thesis
    using assms(2) m(1,3) by (simp add: debt_ok_def signed_headroom_def all_set_conv_all_nth)
qed

lemma after_release_ok:
  assumes ok: "credit_ok w n db" and i: "i < n" and f: "keeps_place f" "\<And>r. cb_pause_causes (f r) = cb_pause_causes r"
      "\<And>r. cb_marked (f r) = cb_marked r"
    and h: "cb_headroom (f (balance_rows w db ! i)) = cb_headroom (balance_rows w db ! i) + free"
      "0 \<le> cb_reserved (f (balance_rows w db ! i))"
  shows "\<exists>db'. after_release w (int i) free (cb_headroom (f (balance_rows w db ! i))) (cb_marked (f (balance_rows w db ! i))) now
        (set_row w (int i) f db) = (Inr (), db') \<and>
      booked w n free db db' \<and> holds_kept w n (set_row w (int i) f db) db'"
proof -
  let ?r = "balance_rows w db ! i" and ?db1 = "set_row w (int i) f db"
  let ?absorb = "absorb_unrecovered_recovery_tx w (credit_shard_count_from_rows w) now False"
  have s: "sound w n db" and d: "debt_ok w db" and res: "\<forall>r \<in> set (balance_rows w db). 0 \<le> cb_reserved r"
    using ok by (simp_all add: credit_ok_def)
  have len: "i < length (balance_rows w db)" using s i by (simp add: sound_def)
  note facts = set_row_signed [OF s i f(1)]
  have s1: "sound w n ?db1" by (rule set_row_sound [OF s i f(1,2)])
  have res1: "\<forall>r \<in> set (balance_rows w ?db1). 0 \<le> cb_reserved r"
    using res h(2) set_update_subset_insert [of "balance_rows w db" i] unfolding facts(4) by blast
  have net1: "net_credit w ?db1 = net_credit w db + free" using facts h(1) by (simp add: net_credit_def)
  have others: "\<forall>v. v \<noteq> w \<longrightarrow> balance_rows v ?db1 = balance_rows v db \<and> unrecovered_sum v ?db1 = unrecovered_sum v db"
    using facts by simp
  have done1: "booked w n free db db'" if "holds_kept w n ?db1 db'" "debt_ok w db'" "net_credit w db' = net_credit w ?db1" for db'
    using kept_booked [OF that(1,2), of 0] that(3) res1 net1 others by (simp add: booked_def)
  have kept1: "holds_kept w n ?db1 ?db1" using s1 by (simp add: holds_kept_def)
  consider "free < 0" "cb_headroom (f ?r) < 0" "\<not> cb_marked ?r" | "free \<le> 0" "cb_headroom (f ?r) \<ge> 0 \<or> cb_marked ?r"
    | "free > 0" "cb_marked ?r \<or> cb_headroom ?r < 0" | "free > 0" "\<not> cb_marked ?r" "cb_headroom ?r \<ge> 0"
    using nth_headroom [OF len d refl] nth_mem [OF len] h(1) by fastforce
  then show ?thesis
  proof cases
    case 1
    obtain q db' where db': "cover_or_mark w now ?db1 = (Inr q, db')" "holds_kept w n ?db1 db'" "debt_ok w db'"
        "net_credit w db' = net_credit w ?db1" using settle_rows_ok [OF s1] by blast
    have run: "after_release w (int i) free (cb_headroom (f ?r)) (cb_marked (f ?r)) now ?db1 = (Inr (), db')"
      using 1 f(3) db'(1) by (simp add: after_release_def Let_def)
    show ?thesis by (rule exI [of _ db']) (use run done1 [OF db'(2-4)] db'(2) in simp)
  next
    case 2
    have "debt_ok w ?db1"
    proof (rule debt_ok_set_row [OF s i f(1,3) d])
      show "cb_headroom (f ?r) \<le> cb_headroom ?r" using 2(1) h(1) by simp
      show "0 \<le> cb_headroom (f ?r)" if "\<not> cb_marked ?r" using that 2(2) by simp
    qed
    moreover have no: "\<not> (cb_headroom (f ?r) < 0 \<and> \<not> cb_marked (f ?r))" using 2(2) f(3) [of ?r] by auto
    have "after_release w (int i) free (cb_headroom (f ?r)) (cb_marked (f ?r)) now ?db1 = (Inr (), ?db1)"
      unfolding after_release_def Let_def if_not_P [OF no] using 2(1) by simp
    ultimately show ?thesis using done1 [OF kept1] kept1 by simp
  next
    case 3
    have "landing_ok n (Some (int i))" using i by (simp add: landing_ok_def)
    then obtain r db' where db': "take_credit_inflow w free (Some (int i)) (Some ?absorb) now None ?db1 = (Inr r, db')"
        "holds_kept w n ?db1 db'" "debt_ok w db'" "net_credit w db' = net_credit w ?db1"
      using settle_claims.inflow_ok [OF s1, of free "Some (int i)" None now False now] 3(1) by auto
    have run: "after_release w (int i) free (cb_headroom (f ?r)) (cb_marked (f ?r)) now ?db1 = (Inr (), db')"
      using 3 h(1) db'(1) f(3) [of ?r] by (simp add: after_release_def Let_def)
    show ?thesis by (rule exI [of _ db']) (use run done1 [OF db'(2-4)] db'(2) in simp)
  next
    case 4
    obtain a db2 where a: "?absorb free ?db1 = (Inr a, db2)" "0 \<le> a" "a \<le> free" "absorbed w n a ?db1 db2"
      using settle_claims.absorbs [OF s1, of free now False] 4(1) by auto
    have d1: "debt_ok w ?db1"
      using 4 h(1) by (intro debt_ok_set_row [OF s i f(1,3) d]) auto
    have d2: "debt_ok w db2" by (rule absorbed_debt [OF a(4) d1])
    have s2: "sound w n db2" using a(4) by (simp add: absorbed_def)
    have kept2: "holds_kept w n ?db1 db2" by (rule absorbed_kept [OF a(4)])
    show ?thesis
    proof (cases "a = 0")
      case True
      have run: "after_release w (int i) free (cb_headroom (f ?r)) (cb_marked (f ?r)) now ?db1 = (Inr (), db2)"
        using 4 f(3) h(1) a(1) True by (simp add: after_release_def Let_def)
      show ?thesis
        by (rule exI [of _ db2]) (use run done1 [OF kept2 d2] kept2 absorbed_net [OF a(4)] True in simp)
    next
      case False
      let ?g = "\<lambda>r. r\<lparr>cb_total_credits := cb_total_credits r - a\<rparr>" let ?r2 = "balance_rows w db2 ! i"
      have len1: "i < length (balance_rows w ?db1)" "i < length (balance_rows w db2)" using s1 s2 i by (auto simp: sound_def)
      have money: "map row_money (balance_rows w db2) = map row_money (balance_rows w ?db1)" using a(4) by (simp add: absorbed_def)
      have r2: "cb_headroom ?r2 = cb_headroom ?r + free" "\<not> cb_marked ?r2"
      proof -
        have "cb_headroom ?r2 = cb_headroom (balance_rows w ?db1 ! i)" "cb_marked ?r2 = cb_marked (balance_rows w ?db1 ! i)"
          using row_money_eq(1,2) [OF money] len1 by (metis nth_map)+
        then show "cb_headroom ?r2 = cb_headroom ?r + free" "\<not> cb_marked ?r2" using facts(4) len h(1) f(3) 4(2) by simp_all
      qed
      have place: "keeps_place ?g" by (simp add: keeps_place_def)
      have g: "cb_headroom (?g r) = cb_headroom r - a" "cb_marked (?g r) = cb_marked r" "row_rest (?g r) = row_rest r"
        "cb_pause_causes (?g r) = cb_pause_causes r" for r
        by (simp_all add: cb_headroom_def cb_marked_def row_rest_def)
      let ?db3 = "set_row w (int i) ?g db2"
      have upd: "update_credits (\<lambda>r. row_at w (int i) r \<and> cb_headroom r \<ge> a) ?g db2 = (1, ?db3)"
        using point_update [of w db2 i "\<lambda>r. cb_headroom r \<ge> a" ?g] s2 len1(2) r2(1) a(3) 4(3) by (simp add: sound_def)
      have run: "after_release w (int i) free (cb_headroom (f ?r)) (cb_marked (f ?r)) now ?db1 = (Inr (), ?db3)"
        using 4 f(3) h(1) a(1) False upd by (simp add: after_release_def Let_def)
      have "only_credit w db2 ?db3" using s2 len1(2) g place by (intro only_credit_set_row) (auto simp: sound_def)
      then have kept3: "holds_kept w n ?db1 ?db3" using holds_kept_trans [OF kept2] only_credit_kept(1) [OF _ s2] by blast
      have d3: "debt_ok w ?db3" using r2 a(3) 4(3) by (intro debt_ok_set_row [OF s2 i place _ d2]) (auto simp: g)
      have net3: "net_credit w ?db3 = net_credit w ?db1"
        using set_row_signed(1,2) [OF s2 i place] absorbed_net [OF a(4)] g(1) by (simp add: net_credit_def)
      show ?thesis
        by (rule exI [of _ ?db3]) (use run done1 [OF kept3 d3 net3] kept3 in simp)
    qed
  qed
qed

lemma release_credit_ok:
  assumes ok: "credit_ok w n db" and "0 \<le> hold" "0 \<le> actual" and i: "i < n" and held: "hold \<le> cb_reserved (balance_rows w db ! i)"
  shows "\<exists>db'. release_credit w hold actual (int i) now db = (Inr 1, db') \<and> booked w n (hold - actual) db db' \<and>
      map cb_reserved (balance_rows w db') = (map cb_reserved (balance_rows w db))[i := cb_reserved (balance_rows w db ! i) - hold]"
proof -
  let ?f = "\<lambda>r. r\<lparr>cb_reserved := cb_reserved r - hold, cb_total_usage := cb_total_usage r + actual\<rparr>"
  let ?rows = "balance_rows w db"
  have s: "sound w n db" using ok by (simp add: credit_ok_def)
  then have c: "complete_rows ?rows" "i < length ?rows" using i by (auto simp: sound_def)
  have place: "keeps_place ?f" by (simp add: keeps_place_def)
  have fs: "cb_pause_causes (?f r) = cb_pause_causes r" "cb_marked (?f r) = cb_marked r"
      "cb_headroom (?f r) = cb_headroom r + (hold - actual)" for r
    by (simp_all add: cb_marked_def cb_headroom_def)
  have P: "filter (\<lambda>r. row_at w (int i) r \<and> cb_reserved r \<ge> hold) (tr_credit_balance db) = [?rows ! i]"
  proof -
    let ?P = "\<lambda>r. row_at w (int i) r \<and> cb_reserved r \<ge> hold"
    have "filter ?P ?rows = [?rows ! i]" using filter_unique [of i ?rows ?P] c held row_at_nth [OF c(1)] by auto
    moreover have "filter ?P ?rows = sort_key cb_shard (filter ?P (tr_credit_balance db))"
      by (auto simp: balance_rows_def sql_select_def filter_sort row_at_def intro!: arg_cong [of _ _ "sort_key cb_shard"] filter_cong)
    ultimately have eq: "sort_key cb_shard (filter ?P (tr_credit_balance db)) = [?rows ! i]" by simp
    obtain x where x: "filter ?P (tr_credit_balance db) = [x]"
      using arg_cong [OF eq, of length] by (auto simp: length_Suc_conv simp del: length_filter_conv_card)
    then show ?thesis using eq by simp
  qed
  have upd: "update_credits (\<lambda>r. row_at w (int i) r \<and> cb_reserved r \<ge> hold) ?f db = (1, set_row w (int i) ?f db)"
    using point_update [OF c, of "\<lambda>r. cb_reserved r \<ge> hold" ?f] held by simp
  obtain db' where db': "after_release w (int i) (hold - actual) (cb_headroom (?f (?rows ! i))) (cb_marked (?f (?rows ! i))) now
        (set_row w (int i) ?f db) = (Inr (), db')" "booked w n (hold - actual) db db'" "holds_kept w n (set_row w (int i) ?f db) db'"
    using after_release_ok [OF ok i place fs(1,2) fs(3), of now] held by auto
  have "release_credit w hold actual (int i) now db = (Inr 1, db')"
    using db'(1) by (simp add: release_credit_def Let_def P upd)
  moreover have "map cb_reserved (balance_rows w db') = (map cb_reserved ?rows)[i := cb_reserved (?rows ! i) - hold]"
    using db'(3) set_row_signed(4) [OF s i place] by (simp add: holds_kept_def map_update)
  ultimately show ?thesis using db'(2) by blast
qed

lemma release_credit_none:
  assumes ok: "credit_ok w n db" and "\<nexists>i. shard = int i \<and> i < n \<and> hold \<le> cb_reserved (balance_rows w db ! i)"
  shows "release_credit w hold actual shard now db = (Inr 0, db)"
proof -
  have c: "complete_rows (balance_rows w db)" "length (balance_rows w db) = n" using ok by (auto simp: credit_ok_def sound_def)
  have "update_credits (\<lambda>r. row_at w shard r \<and> cb_reserved r \<ge> hold) f db = (0, db)" for f
    using point_update [OF c(1), of _ "\<lambda>r. cb_reserved r \<ge> hold" f]
      point_update_outside [OF c(1), of shard "\<lambda>r. cb_reserved r \<ge> hold" f] assms(2) c(2) by fastforce
  then show ?thesis by (simp add: release_credit_def Let_def)
qed

lemma spread_negative_ok:
  "sound w n db \<Longrightarrow> i + length ds = n \<Longrightarrow>
   \<exists>db'. spread_negative w now (int i) ds db = (Inr (), db') \<and> only_credit w db db' \<and>
     signed_headroom w db' = signed_headroom w db + sum_list ds"
proof (induction ds arbitrary: i db)
  case Nil
  then show ?case by (simp add: only_credit_refl)
next
  case (Cons d ds)
  let ?f = "\<lambda>r. r\<lparr>cb_total_credits := cb_total_credits r + d, cb_updated_at := now\<rparr>"
  let ?db1 = "set_row w (int i) ?f db"
  have i: "i < n" "complete_rows (balance_rows w db)" "i < length (balance_rows w db)"
    using Cons.prems by (auto simp: sound_def)
  have place: "keeps_place ?f" by (simp add: keeps_place_def)
  have oc: "only_credit w db ?db1" by (rule only_credit_set_row [OF i(2,3) place]) (simp add: row_rest_def)
  have signed: "signed_headroom w ?db1 = signed_headroom w db + d"
    using set_row_signed(1) [OF Cons.prems(1) i(1) place] by (simp add: cb_headroom_def)
  obtain db' where "spread_negative w now (int (Suc i)) ds ?db1 = (Inr (), db')" "only_credit w ?db1 db'"
      "signed_headroom w db' = signed_headroom w ?db1 + sum_list ds"
    using Cons.IH [OF only_credit_sound [OF oc Cons.prems(1)], of "Suc i"] Cons.prems(2) by auto
  then show ?case
    using point_update_plain [OF i(2,3), of ?f] only_credit_trans [OF oc] signed
    by (auto simp: credit_credit_shard_def add.commute)
qed

lemma grant_booked:
  assumes ok: "credit_ok w n db" and n: "int n \<le> MAX_CREDIT_SHARDS"
  shows "\<exists>db'. credit_workspace_balance_tx w amount (Some (int n)) now db = (Inr (), db') \<and> booked w n amount db db'"
proof -
  have s: "sound w n db" and res: "\<forall>r \<in> set (balance_rows w db). 0 \<le> cb_reserved r" using ok by (simp_all add: credit_ok_def)
  have "0 < n" using s by (auto simp: sound_def complete_rows_def)
  then have count: "credit_shard_count (int n) = Inr (int n)" using n by (simp add: credit_shard_count_def)
  show ?thesis
  proof (cases "amount \<ge> 0")
    case True
    let ?absorb = "absorb_unrecovered_recovery_tx w (\<lambda>_. Inr (int n)) now True"
    obtain r db' where db': "take_credit_inflow w amount None (Some ?absorb) now (Some (int n)) db = (Inr r, db')"
        "holds_kept w n db db'" "debt_ok w db'" "net_credit w db' = net_credit w db + amount"
      using grant_claims.inflow_ok [OF s True, of None "Some (int n)" now True now] by (auto simp: landing_ok_def)
    then show ?thesis
      using True count kept_booked [OF db'(2-4) res] by (simp add: credit_workspace_balance_tx_def)
  next
    case False
    obtain parts where parts: "distribute_credit_amount amount (int n) = Inr parts" "length parts = n" "sum_list parts = amount"
      using distribute_total [of "int n" amount] \<open>0 < n\<close> by auto
    obtain db1 where db1: "spread_negative w now 0 parts db = (Inr (), db1)" "only_credit w db db1"
        "signed_headroom w db1 = signed_headroom w db + amount"
      using spread_negative_ok [OF s, of 0 parts now] parts(2,3) by auto
    note kept1 = only_credit_kept [OF db1(2) s]
    have s1: "sound w n db1" using kept1(1) by (simp add: holds_kept_def)
    obtain q db2 where db2: "cover_or_mark w now db1 = (Inr q, db2)" "holds_kept w n db1 db2" "debt_ok w db2"
        "net_credit w db2 = net_credit w db1" using settle_rows_ok [OF s1] by blast
    have "net_credit w db2 = net_credit w db + amount" using db2(4) db1(3) kept1(2) by (simp add: net_credit_def)
    then have "booked w n amount db db2" using kept_booked [OF holds_kept_trans [OF kept1(1) db2(2)] db2(3)] res by simp
    then show ?thesis using False count parts(1) db1(1) db2(1) by (simp add: credit_workspace_balance_tx_def)
  qed
qed

section \<open>Plans over the rows\<close>

text \<open>A plan lists donors with the headroom they have now.\<close>

definition plan_ok :: "string \<Rightarrow> nat \<Rightarrow> (int \<times> int) list \<Rightarrow> 'a credit_db_scheme \<Rightarrow> bool" where
  "plan_ok w n donors db \<longleftrightarrow> distinct (map snd donors) \<and>
     (\<forall>(a, j) \<in> set donors. \<exists>i < n. j = int i \<and> a = cb_headroom (balance_rows w db ! i) \<and> 0 < a)"

lemma plan_ok_Cons:
  assumes "plan_ok w n ((a, j) # donors) db"
  obtains i where "i < n" "j = int i" "a = cb_headroom (balance_rows w db ! i)" "0 < a"
  using assms by (auto simp: plan_ok_def)

lemma plan_ok_set_row:
  assumes p: "plan_ok w n ((a, int i) # donors) db" and s: "sound w n db" and i: "i < n" and f: "keeps_place f"
  shows "plan_ok w n donors (set_row w (int i) f db)"
  unfolding plan_ok_def
proof (intro conjI ballI)
  show "distinct (map snd donors)" using p by (simp add: plan_ok_def)
  fix d assume d: "d \<in> set donors"
  then obtain x k where x: "d = (x, int k)" "k < n" "x = cb_headroom (balance_rows w db ! k)" "0 < x"
    using p by (fastforce simp: plan_ok_def)
  have "k \<noteq> i" using p d x(1) by (force simp: plan_ok_def)
  then show "case d of (a, j) \<Rightarrow> \<exists>i' < n. j = int i' \<and> a = cb_headroom (balance_rows w (set_row w (int i) f db) ! i') \<and> 0 < a"
    using x set_row_signed(4) [OF s i f] by auto
qed

lemma plan_of_rows:
  assumes "sound w n db"
  shows "plan_ok w n (filter (\<lambda>(a, j). Q j \<and> a > 0) (map (\<lambda>r. (cb_headroom r, cb_shard r)) (balance_rows w db))) db"
proof -
  let ?rows = "balance_rows w db" let ?xs = "map (\<lambda>r. (cb_headroom r, cb_shard r)) ?rows"
  have c: "complete_rows ?rows" "length ?rows = n" using assms by (auto simp: sound_def)
  have "map snd ?xs = map int [0..<n]" using c by (simp add: complete_rows_def comp_def)
  then have "distinct (map snd ?xs)" by (simp add: distinct_map)
  then have "distinct (map snd (filter (\<lambda>(a, j). Q j \<and> a > 0) ?xs))" by (rule distinct_map_filter)
  moreover have "\<exists>i < n. j = int i \<and> a = cb_headroom (?rows ! i) \<and> 0 < a"
    if "(a, j) \<in> set (filter (\<lambda>(a, j). Q j \<and> a > 0) ?xs)" for a j
    using that c complete_rows_shard [OF c(1)] by (auto simp: in_set_conv_nth)
  ultimately show ?thesis by (auto simp: plan_ok_def)
qed

lemma debit_shard_ok:
  assumes ok: "credit_ok w n db" and i: "i < n" and amount: "0 < amount" "amount \<le> cb_headroom (balance_rows w db ! i)"
  defines "f \<equiv> \<lambda>r. r\<lparr>cb_total_credits := cb_total_credits r - amount\<rparr>"
  shows "debit_credit_shard w amount (int i) db = (Inr True, set_row w (int i) f db)" "keeps_place f"
    "booked w n (- amount) db (set_row w (int i) f db)"
proof -
  have c: "complete_rows (balance_rows w db)" "i < length (balance_rows w db)" using ok i by (auto simp: credit_ok_def sound_def)
  show place: "keeps_place f" by (simp add: keeps_place_def f_def)
  show "debit_credit_shard w amount (int i) db = (Inr True, set_row w (int i) f db)"
    using point_update [OF c, of "\<lambda>r. cb_headroom r \<ge> amount" f] amount by (simp add: debit_credit_shard_def f_def)
  have h: "cb_headroom (f r) = cb_headroom r - amount" for r by (simp add: cb_headroom_def f_def)
  have res: "0 \<le> cb_reserved (balance_rows w db ! i)" using ok c(2) by (simp add: credit_ok_def)
  show "booked w n (- amount) db (set_row w (int i) f db)"
    using set_row_booked [OF ok i place] amount res unfolding h by (simp add: f_def cb_marked_def)
qed

lemma debit_plan_ok:
  "credit_ok w n db \<Longrightarrow> plan_ok w n donors db \<Longrightarrow> 0 < amount \<Longrightarrow> amount \<le> sum_list (map fst donors) \<Longrightarrow>
   \<exists>db'. debit_plan w donors amount db = (Inr 0, db') \<and> booked w n (- amount) db db'"
proof (induction donors arbitrary: amount db)
  case (Cons d donors)
  obtain a i where d: "d = (a, int i)" "i < n" "a = cb_headroom (balance_rows w db ! i)" "0 < a"
    using plan_ok_Cons Cons.prems(2) by (metis prod.collapse)
  define m where "m = min a amount"
  have m: "0 < m" "m \<le> cb_headroom (balance_rows w db ! i)" using d Cons.prems(3) by (auto simp: m_def)
  note step = debit_shard_ok [OF Cons.prems(1) d(2) m]
  let ?db1 = "set_row w (int i) (\<lambda>r. r\<lparr>cb_total_credits := cb_total_credits r - m\<rparr>) db"
  have run: "debit_plan w (d # donors) amount db =
      (if amount - m = 0 then (Inr 0, ?db1) else debit_plan w donors (amount - m) ?db1)"
    using step(1) by (simp add: d(1) Let_def m_def)
  show ?case
  proof (cases "amount - m = 0")
    case True
    then show ?thesis using step(3) run by auto
  next
    case False
    have "m = a" using False by (auto simp: m_def min_def split: if_splits)
    moreover have "sound w n db" using Cons.prems(1) by (simp add: credit_ok_def)
    moreover have "credit_ok w n ?db1" using step(3) by (simp add: booked_def)
    ultimately obtain db' where "debit_plan w donors (amount - m) ?db1 = (Inr 0, db')" "booked w n (- (amount - m)) ?db1 db'"
      using Cons.IH [of ?db1 "amount - m"] plan_ok_set_row [OF _ _ d(2) step(2)] Cons.prems(2,4) False d(1) m_def by fastforce
    then show ?thesis using booked_trans [OF step(3)] run False by fastforce
  qed
qed simp

lemma sum_list_split: "sum_list (map f xs) = sum_list (map f (filter P xs)) + sum_list (map f (filter (\<lambda>x. \<not> P x) xs))"
  for f :: "'b \<Rightarrow> int"
  by (induction xs) auto

lemma positive_donors: "sum_list xs \<le> sum_list (filter (\<lambda>a. a > 0) (xs :: int list))"
  by (induction xs) auto

lemma donors_fst: "map fst (filter (\<lambda>(a, _). a > 0) (map (\<lambda>r. (h r, j r)) xs)) = filter (\<lambda>a. a > (0::int)) (map h xs)"
  by (induction xs) auto

lemma debit_escrow_ok:
  assumes ok: "credit_ok w n db" and amount: "0 < amount"
  shows "\<exists>db'. debit_escrow w amount (int n) db = (Inr (amount \<le> signed_headroom w db), db') \<and>
    booked w n (if amount \<le> signed_headroom w db then - amount else 0) db db'"
proof (cases "amount \<le> signed_headroom w db")
  case True
  let ?rows = "balance_rows w db"
  let ?donors = "filter (\<lambda>(a, _). a > 0) (map (\<lambda>r. (cb_headroom r, cb_shard r)) ?rows)"
  have s: "sound w n db" using ok by (simp add: credit_ok_def)
  have c: "complete_rows ?rows" "length ?rows = n" using s by (auto simp: sound_def)
  have conf: "configured_rows w (int n) db = ?rows" using configured_rows_complete(2) [OF c(1)] c(2) by simp
  have shards: "map cb_shard ?rows = map int [0..<n]" using c by (simp add: complete_rows_def)
  have "amount \<le> sum_list (map fst ?donors)"
    using True positive_donors [of "map cb_headroom ?rows"] by (simp add: signed_headroom_def donors_fst)
  then obtain db' where "debit_plan w ?donors amount db = (Inr 0, db')" "booked w n (- amount) db db'"
    using debit_plan_ok [OF ok _ amount] plan_of_rows [OF s, of "\<lambda>_. True"] by auto
  then show ?thesis using True by (simp add: debit_escrow_def Let_def conf shards signed_headroom_def)
next
  case False
  have "configured_rows w (int n) db = balance_rows w db"
    using configured_rows_complete(2) [of w db] ok by (auto simp: credit_ok_def sound_def)
  then show ?thesis using False booked_refl [OF ok] by (auto simp: debit_escrow_def Let_def signed_headroom_def)
qed

lemma transfer_budget_ok:
  assumes ok: "credit_ok w n db" and i: "i < n" and j: "j < n" "i \<noteq> j" and amount: "0 < amount" "amount \<le> cb_headroom (balance_rows w db ! i)"
    and unmarked: "\<not> cb_marked (balance_rows w db ! j)"
  obtains db' where "transfer_credit_budget w amount (int i) (int j) db = (Inr True, db')" "booked w n 0 db db'"
    "map cb_headroom (balance_rows w db') = (map cb_headroom (balance_rows w db))
       [i := cb_headroom (balance_rows w db ! i) - amount, j := cb_headroom (balance_rows w db ! j) + amount]"
    "map cb_marked (balance_rows w db') = map cb_marked (balance_rows w db)"
proof -
  let ?rows = "balance_rows w db" let ?f = "\<lambda>r. r\<lparr>cb_total_credits := cb_total_credits r - amount\<rparr>"
  let ?g = "\<lambda>r. r\<lparr>cb_total_credits := cb_total_credits r + amount\<rparr>" let ?db1 = "set_row w (int i) ?f db"
  let ?db2 = "set_row w (int j) ?g ?db1"
  note step = debit_shard_ok [OF ok i amount]
  have s: "sound w n db" using ok by (simp add: credit_ok_def)
  have ok1: "credit_ok w n ?db1" using step(3) by (simp add: booked_def)
  then have s1: "sound w n ?db1" by (simp add: credit_ok_def)
  have place: "keeps_place ?g" by (simp add: keeps_place_def)
  have h: "cb_headroom (?f r) = cb_headroom r - amount" "cb_headroom (?g r) = cb_headroom r + amount"
    "cb_marked (?f r) = cb_marked r" "cb_marked (?g r) = cb_marked r" for r
    by (simp_all add: cb_headroom_def cb_marked_def)
  have len: "length ?rows = n" "length (balance_rows w ?db1) = n" using s s1 by (auto simp: sound_def)
  have rows1: "balance_rows w ?db1 = ?rows[i := ?f (?rows ! i)]" by (rule set_row_signed(4) [OF s i step(2)])
  have rows2: "balance_rows w ?db2 = ?rows[i := ?f (?rows ! i), j := ?g (?rows ! j)]"
    using set_row_signed(4) [OF s1 j(1) place] j(2) unfolding rows1 by simp
  have rj: "balance_rows w ?db1 ! j = ?rows ! j" using rows1 j(2) by simp
  have "0 \<le> cb_headroom (?rows ! j)" "0 \<le> cb_reserved (?rows ! j)"
    using ok j(1) len(1) unmarked nth_headroom [of j ?rows w db] by (auto simp: credit_ok_def)
  then have "booked w n amount ?db1 ?db2"
    using set_row_booked [OF ok1 j(1) place] unmarked amount unfolding rj h by (simp add: cb_marked_def)
  then have booked: "booked w n 0 db ?db2" using booked_trans [OF step(3)] by fastforce
  have "complete_rows (balance_rows w ?db1)" "j < length (balance_rows w ?db1)" using s1 j(1) by (auto simp: sound_def)
  then have "transfer_credit_budget w amount (int i) (int j) db = (Inr True, ?db2)"
    using step(1) point_update_plain [of w ?db1 j ?g] amount j(2) by (simp add: transfer_credit_budget_def)
  moreover have "map cb_marked (balance_rows w ?db2) = map cb_marked ?rows"
    unfolding rows2 map_update h using i j(1) len(1) by (intro nth_equalityI) (auto simp: nth_list_update)
  ultimately show ?thesis
    using that [of ?db2] booked i j len(1) unfolding rows2 map_update h by simp
qed

lemma rebalance_moves_ok:
  "credit_ok w n db \<Longrightarrow> plan_ok w n donors db \<Longrightarrow> j < n \<Longrightarrow> int j \<notin> snd ` set donors \<Longrightarrow> \<not> cb_marked (balance_rows w db ! j) \<Longrightarrow>
   0 < needed \<Longrightarrow> needed \<le> sum_list (map fst donors) \<Longrightarrow>
   \<exists>db'. rebalance_moves w (int j) donors needed moved db = (Inr (0, moved + needed), db') \<and> booked w n 0 db db' \<and>
     cb_headroom (balance_rows w db' ! j) = cb_headroom (balance_rows w db ! j) + needed \<and>
     cb_marked (balance_rows w db' ! j) = cb_marked (balance_rows w db ! j)"
proof (induction donors arbitrary: needed moved db)
  case (Cons d donors)
  obtain a i where d: "d = (a, int i)" "i < n" "a = cb_headroom (balance_rows w db ! i)" "0 < a"
    using plan_ok_Cons Cons.prems(2) by (metis prod.collapse)
  define m where "m = min a needed"
  have m: "0 < m" "m \<le> cb_headroom (balance_rows w db ! i)" using d Cons.prems(6) by (auto simp: m_def)
  have ij: "i \<noteq> j" using Cons.prems(4) d(1) by auto
  let ?h = "map cb_headroom (balance_rows w db)"
  obtain db1 where db1: "transfer_credit_budget w m (int i) (int j) db = (Inr True, db1)" "booked w n 0 db db1"
      "map cb_headroom (balance_rows w db1) = ?h[i := cb_headroom (balance_rows w db ! i) - m, j := cb_headroom (balance_rows w db ! j) + m]"
      "map cb_marked (balance_rows w db1) = map cb_marked (balance_rows w db)"
    by (rule transfer_budget_ok [OF Cons.prems(1) d(2) Cons.prems(3) ij m Cons.prems(5)])
  have len: "length (balance_rows w db) = n" "length (balance_rows w db1) = n"
    using Cons.prems(1) db1(2) by (auto simp: credit_ok_def sound_def booked_def)
  have head: "cb_headroom (balance_rows w db1 ! k) =
      (if k = j then cb_headroom (balance_rows w db ! j) + m else if k = i then cb_headroom (balance_rows w db ! i) - m
       else cb_headroom (balance_rows w db ! k))" if "k < n" for k
    using arg_cong [OF db1(3), of "\<lambda>xs. xs ! k"] that len ij by (auto simp: nth_list_update)
  have mark: "cb_marked (balance_rows w db1 ! j) = cb_marked (balance_rows w db ! j)"
    using arg_cong [OF db1(4), of "\<lambda>xs. xs ! j"] Cons.prems(3) len by simp
  have run: "rebalance_moves w (int j) (d # donors) needed moved db =
      (if needed - m = 0 then (Inr (0, moved + m), db1) else rebalance_moves w (int j) donors (needed - m) (moved + m) db1)"
    using db1(1) by (simp add: d(1) Let_def m_def)
  show ?case
  proof (cases "needed - m = 0")
    case True
    then show ?thesis using run db1(2) head [OF Cons.prems(3)] mark by auto
  next
    case False
    then have "m = a" "m < needed" by (auto simp: m_def min_def split: if_splits)
    have "plan_ok w n donors db1"
      unfolding plan_ok_def
    proof (intro conjI ballI)
      show "distinct (map snd donors)" using Cons.prems(2) by (simp add: plan_ok_def)
      fix e assume e: "e \<in> set donors"
      then obtain x k where x: "e = (x, int k)" "k < n" "x = cb_headroom (balance_rows w db ! k)" "0 < x"
        using Cons.prems(2) by (fastforce simp: plan_ok_def)
      have "k \<noteq> i" "k \<noteq> j" using Cons.prems(2,4) e x(1) d(1) by (force simp: plan_ok_def)+
      then show "case e of (a, j) \<Rightarrow> \<exists>i < n. j = int i \<and> a = cb_headroom (balance_rows w db1 ! i) \<and> 0 < a"
        using x head [OF x(2)] by auto
    qed
    moreover have "credit_ok w n db1" using db1(2) by (simp add: booked_def)
    ultimately obtain db' where "rebalance_moves w (int j) donors (needed - m) (moved + m) db1 = (Inr (0, moved + needed), db')"
        "booked w n 0 db1 db'" "cb_headroom (balance_rows w db' ! j) = cb_headroom (balance_rows w db1 ! j) + (needed - m)"
        "cb_marked (balance_rows w db' ! j) = cb_marked (balance_rows w db1 ! j)"
      using Cons.IH [of db1 "needed - m" "moved + m"] Cons.prems(3-7) mark d(1) \<open>m = a\<close> \<open>m < needed\<close> by auto
    then show ?thesis using run False booked_trans [OF db1(2)] head [OF Cons.prems(3)] mark by fastforce
  qed
qed simp

lemma sum_list_fst_rev_sort: "sum_list (map fst (rev (sort xs))) = sum_list (map fst (xs :: (int \<times> int) list))"
proof -
  have "sum_list (map fst (insort x ys)) = fst x + sum_list (map fst ys)" for x and ys :: "(int \<times> int) list" by (induction ys) auto
  then have "sum_list (map fst (sort xs)) = sum_list (map fst xs)" by (induction xs) auto
  then show ?thesis by (simp add: rev_map [symmetric] sum_list.rev)
qed

text \<open>The positive headroom of the other rows covers what the target lacks, because the signed sum does.\<close>

lemma rebalance_donors_cover:
  assumes c: "complete_rows rows" and j: "j < length rows"
  shows "sum_list (map cb_headroom rows) - cb_headroom (rows ! j) \<le> sum_list (map fst (rebalance_donors (int j) rows))"
proof -
  let ?P = "\<lambda>r. cb_shard r = int j"
  have "filter ?P rows = [rows ! j]" using filter_unique [of j rows ?P] complete_rows_shard [OF c] j by auto
  then have "sum_list (map cb_headroom rows) = cb_headroom (rows ! j) + sum_list (map cb_headroom (filter (\<lambda>r. \<not> ?P r) rows))"
    using sum_list_split [of cb_headroom rows ?P] by simp
  moreover have "map fst (filter (\<lambda>(a, i). i \<noteq> int j \<and> a > 0) (map (\<lambda>r. (cb_headroom r, cb_shard r)) xs)) =
      filter (\<lambda>a. a > 0) (map cb_headroom (filter (\<lambda>r. \<not> ?P r) xs))" for xs
    by (induction xs) auto
  ultimately show ?thesis
    using positive_donors [of "map cb_headroom (filter (\<lambda>r. \<not> ?P r) rows)"]
    by (simp add: rebalance_donors_def sum_list_fst_rev_sort)
qed

lemma rebalance_ok:
  assumes ok: "credit_ok w n db" and n: "int n \<le> MAX_CREDIT_SHARDS" and j: "j < n"
  shows "\<exists>out m db'. rebalance_credit_for_estimate w (int n) (int j) estimate db = (Inr (out, m), db') \<and> booked w n 0 db db' \<and>
    out = (if estimate \<le> 0 then NOT_NEEDED else if signed_headroom w db < estimate then INSUFFICIENT
         else if estimate \<le> cb_headroom (balance_rows w db ! j) then NOT_NEEDED else MOVED) \<and>
    (out = MOVED \<longrightarrow> cb_headroom (balance_rows w db' ! j) = estimate \<and> \<not> cb_marked (balance_rows w db' ! j)) \<and>
    (out \<noteq> MOVED \<longrightarrow> db' = db) \<and> m = (if out = MOVED then estimate - cb_headroom (balance_rows w db ! j) else 0)"
proof -
  let ?rows = "balance_rows w db" let ?r = "?rows ! j"
  have s: "sound w n db" using ok by (simp add: credit_ok_def)
  have c: "complete_rows ?rows" "length ?rows = n" using s by (auto simp: sound_def)
  have conf: "configured_rows w (int n) db = ?rows" using configured_rows_complete(2) [OF c(1)] c(2) by simp
  have shards: "map cb_shard ?rows = map int [0..<n]" using c by (simp add: complete_rows_def)
  have count: "credit_shard_count (int n) = Inr (int n)" using n j by (simp add: credit_shard_count_def)
  note defs = rebalance_credit_for_estimate_def count rebalance_txn_def conf shards run_in_transaction_def Let_def signed_headroom_def
  consider "estimate \<le> 0" | "0 < estimate" "signed_headroom w db < estimate"
    | "0 < estimate" "estimate \<le> signed_headroom w db" "estimate \<le> cb_headroom ?r"
    | "0 < estimate" "estimate \<le> signed_headroom w db" "cb_headroom ?r < estimate" by linarith
  then show ?thesis
  proof cases
    case 4
    let ?donors = "rebalance_donors (int j) ?rows"
    have unmarked: "\<not> cb_marked ?r" using 4 ok j c(2) by (auto simp: credit_ok_def debt_ok_def)
    have "plan_ok w n ?donors db"
      using plan_of_rows [OF s, of "\<lambda>i. i \<noteq> int j"] by (auto simp: rebalance_donors_def plan_ok_def rev_map distinct_map)
    moreover have "int j \<notin> snd ` set ?donors" by (auto simp: rebalance_donors_def)
    moreover have "estimate - cb_headroom ?r \<le> sum_list (map fst ?donors)"
      using rebalance_donors_cover [OF c(1), of j] j c(2) 4(2) by (simp add: signed_headroom_def)
    ultimately obtain db' where db': "rebalance_moves w (int j) ?donors (estimate - cb_headroom ?r) 0 db =
          (Inr (0, estimate - cb_headroom ?r), db')" "booked w n 0 db db'" "cb_headroom (balance_rows w db' ! j) = estimate"
        "cb_marked (balance_rows w db' ! j) = cb_marked ?r"
      using rebalance_moves_ok [OF ok, of ?donors j "estimate - cb_headroom ?r" 0] j unmarked 4(3) by auto
    then show ?thesis using 4 j unmarked by (auto simp: defs)
  qed (use j booked_refl [OF ok] in \<open>auto simp: defs\<close>)
qed

section \<open>Runs of transactions\<close>

datatype credit_call =
    Reserve_Credit int int
  | Release_Credit int int int instant
  | Grant_Credit int instant
  | Debit_Escrow int
  | Rebalance nat int

text \<open>The transaction of a call on the workspace, whether it returned, and what it says it posted.\<close>

definition credit_txn :: "string \<Rightarrow> nat \<Rightarrow> credit_call \<Rightarrow> ('a credit_db_scheme, int) tx" where
  "credit_txn w n c db = (case c of
     Reserve_Credit amount shard \<Rightarrow>
       (case reserve_credit w amount shard db of (won, db') \<Rightarrow> (Inr (if won then - amount else 0), db'))
   | Release_Credit hold actual shard now \<Rightarrow>
       (case run_in_transaction (release_credit w hold actual shard now) db of
          (Inl e, db') \<Rightarrow> (Inl e, db') | (Inr count, db') \<Rightarrow> (Inr (if count = 1 then hold - actual else 0), db'))
   | Grant_Credit amount now \<Rightarrow>
       (case run_in_transaction (credit_workspace_balance_tx w amount (Some (int n)) now) db of
          (Inl e, db') \<Rightarrow> (Inl e, db') | (Inr _, db') \<Rightarrow> (Inr amount, db'))
   | Debit_Escrow amount \<Rightarrow>
       (case run_in_transaction (debit_escrow w amount (int n)) db of
          (Inl e, db') \<Rightarrow> (Inl e, db') | (Inr won, db') \<Rightarrow> (Inr (if won then - amount else 0), db'))
   | Rebalance target estimate \<Rightarrow>
       (case rebalance_credit_for_estimate w (int n) (int target) estimate db of
          (Inl e, db') \<Rightarrow> (Inl e, db') | (Inr _, db') \<Rightarrow> (Inr 0, db')))"

definition credit_legal :: "nat \<Rightarrow> credit_call \<Rightarrow> bool" where
  "credit_legal n c = (case c of Reserve_Credit amount _ \<Rightarrow> 0 \<le> amount
     | Release_Credit hold actual _ _ \<Rightarrow> 0 \<le> hold \<and> 0 \<le> actual
     | Debit_Escrow amount \<Rightarrow> 0 < amount | Rebalance target _ \<Rightarrow> target < n | _ \<Rightarrow> True)"

lemma credit_txn_booked:
  assumes ok: "credit_ok w n db" and n: "int n \<le> MAX_CREDIT_SHARDS" and legal: "credit_legal n c"
  obtains posted db' where "credit_txn w n c db = (Inr posted, db')" "booked w n posted db db'"
proof (cases c)
  case (Reserve_Credit amount shard)
  have amount: "0 \<le> amount" using legal Reserve_Credit by (simp add: credit_legal_def)
  show ?thesis
  proof (cases rule: reserve_credit_booked [OF ok amount, of shard])
    case 1
    then show ?thesis using that booked_refl [OF ok] by (simp add: credit_txn_def Reserve_Credit)
  next
    case (2 i)
    then show ?thesis using that by (simp add: credit_txn_def Reserve_Credit)
  qed
next
  case (Release_Credit hold actual shard now)
  show ?thesis
  proof (cases "\<exists>i. shard = int i \<and> i < n \<and> hold \<le> cb_reserved (balance_rows w db ! i)")
    case True
    then obtain i db' where "shard = int i" "release_credit w hold actual shard now db = (Inr 1, db')" "booked w n (hold - actual) db db'"
      using release_credit_ok [OF ok] legal Release_Credit by (fastforce simp: credit_legal_def)
    then show ?thesis using that by (simp add: credit_txn_def Release_Credit run_in_transaction_def)
  next
    case False
    then show ?thesis
      using that booked_refl [OF ok] release_credit_none [OF ok False]
      by (simp add: credit_txn_def Release_Credit run_in_transaction_def)
  qed
next
  case (Grant_Credit amount now)
  then show ?thesis using that grant_booked [OF ok n, of amount now] by (auto simp: credit_txn_def run_in_transaction_def)
next
  case (Debit_Escrow amount)
  then show ?thesis
    using that debit_escrow_ok [OF ok, of amount] legal by (auto simp: credit_txn_def run_in_transaction_def credit_legal_def)
next
  case (Rebalance target estimate)
  then show ?thesis
    using that rebalance_ok [OF ok n, of target estimate] legal by (fastforce simp: credit_txn_def credit_legal_def)
qed

text \<open>The run accumulates what the transactions posted; a failed one leaves the state and posts nothing.\<close>

definition credit_run_step :: "string \<Rightarrow> nat \<Rightarrow> credit_call \<Rightarrow> 'a credit_db_scheme \<times> int \<Rightarrow> 'a credit_db_scheme \<times> int" where
  "credit_run_step w n c s = (case credit_txn w n c (fst s) of (Inl _, db') \<Rightarrow> (db', snd s) | (Inr p, db') \<Rightarrow> (db', snd s + p))"

lemma legal_run_const: "\<forall>e \<in> set es. P e \<Longrightarrow> legal_run step (\<lambda>e _. P e) es s"
  by (induction es arbitrary: s) simp_all

interpretation credit_runs: conserving_run "credit_run_step w n" "\<lambda>c _. credit_legal n c"
    "\<lambda>s. credit_ok w n (fst s) \<and> int n \<le> MAX_CREDIT_SHARDS" "\<lambda>s. net_credit w (fst s) - snd s"
  for w n
proof unfold_locales
  fix s :: "'a credit_db_scheme \<times> int" and c
  assume "credit_ok w n (fst s) \<and> int n \<le> MAX_CREDIT_SHARDS" "credit_legal n c"
  then obtain p db' where "credit_txn w n c (fst s) = (Inr p, db')" "booked w n p (fst s) db'"
    using credit_txn_booked by metis
  then show "credit_ok w n (fst (credit_run_step w n c s)) \<and> int n \<le> MAX_CREDIT_SHARDS"
    "net_credit w (fst (credit_run_step w n c s)) - snd (credit_run_step w n c s) = net_credit w (fst s) - snd s"
    using \<open>credit_ok w n (fst s) \<and> int n \<le> MAX_CREDIT_SHARDS\<close> by (simp_all add: credit_run_step_def booked_def)
qed

section \<open>Properties\<close>

definition demo_credit_row :: "int \<Rightarrow> int \<Rightarrow> credit_row" where
  "demo_credit_row shard funds = \<lparr>cb_workspace_id = ''w'', cb_shard = shard, cb_total_credits = funds, cb_total_usage = 0,
     cb_reserved = 0, cb_in_debt = None, cb_pause_causes = None, cb_pause_epoch = None, cb_updated_at = 0\<rparr>"

definition demo_credit_db :: credit_db where
  "demo_credit_db = \<lparr>tr_credit_balance = [demo_credit_row 1 4, demo_credit_row 0 6], tr_trust_event = [], workspace_documents = []\<rparr>"

lemma demo_credit_ok: "credit_ok ''w'' 2 demo_credit_db"
proof -
  have "balance_rows ''w'' demo_credit_db = [demo_credit_row 0 6, demo_credit_row 1 4]" by code_simp
  then show ?thesis
    by (simp add: credit_ok_def sound_def complete_rows_def debt_ok_def signed_headroom_def held_causes_def demo_credit_db_def)
      (simp add: demo_credit_row_def cb_marked_def cb_headroom_def upt_rec)
qed

text \<open>C3. The credit rows of a workspace obey the debt rules after any sequence of transactions:
  reservations, releases with any overrun, grants of either sign, escrow debits and rebalances.  No row
  is negative unless every row is marked and the signed sum is negative, no hold is negative, every
  further transaction returns, and the net credit (signed headroom less unrecovered claims) is exactly
  what the transactions posted.\<close>

theorem credit_rows_debt_rule:
  fixes db :: credit_db
  assumes "credit_ok w n db" "int n \<le> MAX_CREDIT_SHARDS" "\<forall>c \<in> set cs. credit_legal n c" "credit_legal n d"
  defines "s \<equiv> fold (credit_run_step w n) cs (db, 0)"
  shows "credit_ok w n (fst s) \<and> net_credit w (fst s) = net_credit w db + snd s \<and>
     is_ok (fst (credit_txn w n d (fst s)))"
proof -
  have legal: "legal_run (credit_run_step w n) (\<lambda>c _. credit_legal n c) cs (db, 0)"
    by (rule legal_run_const [OF assms(3)])
  have "credit_ok w n (fst s) \<and> int n \<le> MAX_CREDIT_SHARDS" "net_credit w (fst s) - snd s = net_credit w db - 0"
    unfolding s_def
    using credit_runs.run_inv [OF _ legal] credit_runs.run_total [OF _ legal] assms(1,2) by auto
  then show ?thesis using credit_txn_booked [of w n "fst s" d] assms(4) by fastforce
qed

text \<open>C12. A rebalance gives the target shard exactly the estimate when the workspace can afford it and
  the shard lacks it; its outcome is decided by the signed headroom and the target alone, the net credit
  does not change, and its internal checks never fail.  A reservation of the estimate then succeeds.\<close>

theorem rebalance_funds_target:
  fixes db :: credit_db
  assumes "credit_ok w n db" "int n \<le> MAX_CREDIT_SHARDS" "j < n" "0 < estimate"
  shows "\<exists>out moved db'. rebalance_credit_for_estimate w (int n) (int j) estimate db = (Inr (out, moved), db') \<and>
     credit_ok w n db' \<and> net_credit w db' = net_credit w db \<and>
     (out = INSUFFICIENT \<longleftrightarrow> signed_headroom w db < estimate) \<and>
     (out \<noteq> INSUFFICIENT \<longrightarrow> fst (reserve_credit w estimate (int j) db'))"
proof -
  let ?r = "balance_rows w db ! j"
  obtain out m db' where r: "rebalance_credit_for_estimate w (int n) (int j) estimate db = (Inr (out, m), db')" "booked w n 0 db db'"
      "out = (if signed_headroom w db < estimate then INSUFFICIENT else if estimate \<le> cb_headroom ?r then NOT_NEEDED else MOVED)"
      "out = MOVED \<longrightarrow> cb_headroom (balance_rows w db' ! j) = estimate \<and> \<not> cb_marked (balance_rows w db' ! j)"
      "out \<noteq> MOVED \<longrightarrow> db' = db"
    using rebalance_ok [OF assms(1-3), of estimate] assms(4) by auto
  have "estimate \<le> cb_headroom (balance_rows w db' ! j) \<and> \<not> cb_marked (balance_rows w db' ! j)" if "out \<noteq> INSUFFICIENT"
  proof (cases "out = MOVED")
    case False
    then have "db' = db" "estimate \<le> cb_headroom ?r" "estimate \<le> signed_headroom w db" using r(3,5) that by (auto split: if_splits)
    then show ?thesis using assms by (auto simp: credit_ok_def debt_ok_def sound_def)
  qed (use r(4) in simp)
  then have "out \<noteq> INSUFFICIENT \<longrightarrow> fst (reserve_credit w estimate (int j) db')"
    using point_update [of w db' j "\<lambda>r. cb_headroom r \<ge> estimate \<and> \<not> cb_marked r"] r(2) assms(3)
    by (simp add: reserve_credit_def booked_def credit_ok_def sound_def)
  then show ?thesis using r(1-3) by (auto simp: booked_def)
qed

theorem credit_rows_debt_rule_witness:
  "(let cs = [Reserve_Credit 5 0, Release_Credit 5 12 0 7, Grant_Credit 1 8, Debit_Escrow 2, Rebalance 1 2];
        s = fold (credit_run_step ''w'' 2) cs (demo_credit_db, 0)
    in credit_ok ''w'' 2 (fst s) \<and> net_credit ''w'' (fst s) = net_credit ''w'' demo_credit_db + snd s \<and> snd s = - 11)"
proof -
  let ?cs = "[Reserve_Credit 5 0, Release_Credit 5 12 0 7, Grant_Credit 1 8, Debit_Escrow 2, Rebalance 1 2]"
  have "snd (fold (credit_run_step ''w'' 2) ?cs (demo_credit_db, 0)) = - 11" by code_simp
  then show ?thesis
    using credit_rows_debt_rule [OF demo_credit_ok, of ?cs "Debit_Escrow 1"]
    by (simp add: Let_def MAX_CREDIT_SHARDS_def credit_legal_def)
qed

theorem rebalance_funds_target_witness:
  "\<exists>out moved db'. rebalance_credit_for_estimate ''w'' 2 1 9 demo_credit_db = (Inr (out, moved), db') \<and>
     fst (reserve_credit ''w'' 9 1 db')"
proof -
  have "signed_headroom ''w'' demo_credit_db = 10" by code_simp
  then show ?thesis
    using rebalance_funds_target [OF demo_credit_ok, of 1 9] by (fastforce simp: MAX_CREDIT_SHARDS_def)
qed

end
