(* ===== verification/Key_Rows.thy ===== *)
theory Key_Rows
  imports Credit_Rows Spend_Windows
begin

text \<open>
  The key counters of the production store: the table \<open>tr_key_limit\<close>, the statements of
  \<open>storage_gcp_counter_dml.py\<close> that hold and release spend against a key's lifetime cap and its spend
  windows, and the strict window admission of \<open>storage_gcp_strict_budget.py\<close>.  The records of the other
  tables of the typed store stand here too.  The clock reading of a statement is an argument.

  The lemmas show that a release is one update of one row whichever of its two statements matched, and
  that an admitted hold stays within the caps it was checked against.
\<close>

section \<open>Rows\<close>

record key_window =
  kw_limit :: "int option"
  kw_usage :: "int option"
  kw_start :: "instant option"

record key_row =
  kl_key_hash :: string
  kl_shard :: int
  kl_limit :: "int option"
  kl_usage :: int
  kl_byok_usage :: int
  kl_reserved :: int
  kl_include_byok :: bool
  kl_windows :: "window \<Rightarrow> key_window"

record reservation_row =
  rs_reservation_id :: string
  rs_workspace_id :: string
  rs_key_hash :: "string option"
  rs_ws_shard :: "int option"
  rs_credit_shard :: "int option"
  rs_key_shard :: "int option"
  rs_credit_reserved :: int
  rs_key_reserved :: int
  rs_hold_usage_type :: string
  rs_authorization_id :: "string option"
  rs_idempotency_scope :: "string option"
  rs_fingerprint :: "string option"
  rs_expires_at :: instant
  rs_settled :: bool
  rs_actual :: "int option"
  rs_settled_usage_type :: "string option"
  rs_terminal_at :: "instant option"

text \<open>An intent of the settlement outbox, with the refill job that rides on it.\<close>

record refill_job =
  rj_workspace_id :: "string option"
  rj_status :: "string option"
  rj_attempts :: int
  rj_last_error :: "string option"
  rj_next_attempt_at :: "instant option"
  rj_lease_owner :: "string option"
  rj_leased_until :: "instant option"
  rj_enqueued_at :: "instant option"
  rj_updated_at :: "instant option"
  rj_terminal_at :: "instant option"

record frozen_intent =
  fi_settle_origin :: string
  fi_reservation_id :: "string option"
  fi_actual_cost :: int
  fi_selected_endpoint_id :: "string option"
  fi_model_id :: "string option"
  fi_selected_usage_type :: "string option"
  fi_settle_body :: "string option"

record outbox_row =
  ob_authorization_id :: string
  ob_intent_kind :: string
  ob_frozen :: frozen_intent
  ob_status :: string
  ob_attempts :: int
  ob_last_error :: "string option"
  ob_next_attempt_at :: "instant option"
  ob_lease_owner :: "string option"
  ob_leased_until :: "instant option"
  ob_created_at :: instant
  ob_updated_at :: "instant option"
  ob_terminal_at :: "instant option"
  ob_async_version :: "int option"
  ob_workspace_id :: "string option"
  ob_snapshot_hash :: "string option"
  ob_payload_hash :: "string option"
  ob_refill :: refill_job

text \<open>The authorization of a request is a typed row with its retention deadline, or the entity of kind
  \<open>gateway_authorization\<close> with its JSON text.\<close>

record authorization_row =
  gr_authorization :: gateway_authorization
  gr_terminal_at :: "instant option"

record typed_db = credit_db +
  tr_key_limit :: "key_row list"
  tr_reservation :: "reservation_row list"
  tr_settle_outbox :: "outbox_row list"
  tr_gateway_authorization :: "authorization_row list"
  authorization_entities :: "(string \<times> string) list"

definition key_at :: "string \<Rightarrow> int \<Rightarrow> key_row \<Rightarrow> bool" where
  "key_at kh shard r \<longleftrightarrow> kl_key_hash r = kh \<and> kl_shard r = shard"

definition update_keys ::
    "(key_row \<Rightarrow> bool) \<Rightarrow> (key_row \<Rightarrow> key_row) \<Rightarrow> 'a typed_db_scheme \<Rightarrow> int \<times> 'a typed_db_scheme" where
  "update_keys P f db = (case sql_update P f (tr_key_limit db) of (n, t) \<Rightarrow> (n, db\<lparr>tr_key_limit := t\<rparr>))"

text \<open>\<open>limit_micro - usage - IF(include_byok, byok_usage, 0) - reserved\<close>.\<close>

definition key_spent :: "key_row \<Rightarrow> int" where
  "key_spent r = kl_usage r + (if kl_include_byok r then kl_byok_usage r else 0) + kl_reserved r"

section \<open>Holds\<close>

datatype key_reserve = KEY_ACCEPTED | KEY_NO_HOLD | KEY_INSUFFICIENT | KEY_MISSING

definition reserve_key_statement :: "string \<Rightarrow> int \<Rightarrow> bool \<Rightarrow> int \<Rightarrow> 'a typed_db_scheme \<Rightarrow> int \<times> 'a typed_db_scheme" where
  "reserve_key_statement kh amount byok shard =
     update_keys (\<lambda>r. key_at kh shard r \<and>
         (case kl_limit r of None \<Rightarrow> False
          | Some limit \<Rightarrow> (\<not> byok \<or> kl_include_byok r) \<and> limit - key_spent r \<ge> amount))
       (\<lambda>r. r\<lparr>kl_reserved := kl_reserved r + amount\<rparr>)"

definition reserve_key :: "string \<Rightarrow> int \<Rightarrow> bool \<Rightarrow> int \<Rightarrow> 'a typed_db_scheme \<Rightarrow> key_reserve \<times> 'a typed_db_scheme" where
  "reserve_key kh amount byok shard db =
     (case reserve_key_statement kh amount byok shard db of
        (count, db') \<Rightarrow>
          (if count = 1 then (KEY_ACCEPTED, db')
           else (case filter (key_at kh shard) (tr_key_limit db') of [] \<Rightarrow> KEY_MISSING
                 | r # _ \<Rightarrow>
                     (case kl_limit r of None \<Rightarrow> KEY_NO_HOLD
                      | Some _ \<Rightarrow> if byok \<and> \<not> kl_include_byok r then KEY_NO_HOLD else KEY_INSUFFICIENT), db')))"

section \<open>Releases\<close>

datatype window_mode = Current_Windows | Stale_Windows | Any_Windows

definition windows_current :: "(window \<Rightarrow> instant) \<Rightarrow> key_row \<Rightarrow> bool" where
  "windows_current floors r \<longleftrightarrow>
     list_all (\<lambda>w. case kw_start (kl_windows r w) of None \<Rightarrow> False | Some t \<Rightarrow> t \<ge> floors w) WINDOWS"

definition bump_key_window :: "int \<Rightarrow> key_window \<Rightarrow> key_window" where
  "bump_key_window amount k = k\<lparr>kw_usage := Some (oint (kw_usage k) + amount)\<rparr>"

definition roll_window :: "instant \<Rightarrow> int \<Rightarrow> key_window \<Rightarrow> key_window" where
  "roll_window floor_at amount k =
     (if (case kw_start k of None \<Rightarrow> True | Some t \<Rightarrow> t < floor_at)
      then k\<lparr>kw_usage := Some amount, kw_start := Some floor_at\<rparr>
      else bump_key_window amount k)"

text \<open>A BYOK settle counts toward the caps when the key's own \<open>include_byok\<close> says so.\<close>

definition counted_actual :: "bool \<Rightarrow> int \<Rightarrow> key_row \<Rightarrow> int" where
  "counted_actual book_to_byok actual r = (if book_to_byok then (if kl_include_byok r then actual else 0) else actual)"

definition book_key :: "int \<Rightarrow> int \<Rightarrow> bool \<Rightarrow> (window \<Rightarrow> key_window) \<Rightarrow> key_row \<Rightarrow> key_row" where
  "book_key hold actual book_to_byok windows r =
     r\<lparr>kl_reserved := kl_reserved r - hold,
       kl_usage := kl_usage r + (if book_to_byok then 0 else actual),
       kl_byok_usage := kl_byok_usage r + (if book_to_byok then actual else 0),
       kl_windows := windows\<rparr>"

definition release_key_statement ::
    "string \<Rightarrow> int \<Rightarrow> int \<Rightarrow> bool \<Rightarrow> (window \<Rightarrow> instant) \<Rightarrow> int \<Rightarrow> window_mode \<Rightarrow> 'a typed_db_scheme \<Rightarrow> int \<times> 'a typed_db_scheme" where
  "release_key_statement kh hold actual book_to_byok floors shard mode =
     (let covered = (\<lambda>r. key_at kh shard r \<and> kl_reserved r \<ge> hold);
          bumped = (\<lambda>r. book_key hold actual book_to_byok
                      (\<lambda>w. bump_key_window (counted_actual book_to_byok actual r) (kl_windows r w)) r);
          rolled = (\<lambda>r. book_key hold actual book_to_byok
                      (\<lambda>w. roll_window (floors w) (counted_actual book_to_byok actual r) (kl_windows r w)) r)
      in case mode of
           Current_Windows \<Rightarrow> update_keys (\<lambda>r. covered r \<and> windows_current floors r) bumped
         | Stale_Windows \<Rightarrow> update_keys (\<lambda>r. covered r \<and> \<not> windows_current floors r) rolled
         | Any_Windows \<Rightarrow> update_keys covered rolled)"

definition release_key ::
    "string \<Rightarrow> int \<Rightarrow> int \<Rightarrow> bool \<Rightarrow> (window \<Rightarrow> instant) \<Rightarrow> int \<Rightarrow> 'a typed_db_scheme \<Rightarrow> int \<times> 'a typed_db_scheme" where
  "release_key kh hold actual book_to_byok floors shard db =
     (case release_key_statement kh hold actual book_to_byok floors shard Current_Windows db of
        (count, db1) \<Rightarrow>
          if count = 1 then (1, db1)
          else release_key_statement kh hold actual book_to_byok floors shard Any_Windows db1)"

definition key_limit_exists :: "string \<Rightarrow> int \<Rightarrow> 'a typed_db_scheme \<Rightarrow> bool" where
  "key_limit_exists kh shard db \<longleftrightarrow> filter (key_at kh shard) (tr_key_limit db) \<noteq> []"

section \<open>Strict window admission\<close>

text \<open>A comparison with \<open>NULL\<close> usage is not true; the usage of a stale window is zero.\<close>

definition strict_window_room :: "instant \<Rightarrow> int \<Rightarrow> key_row \<Rightarrow> key_window \<Rightarrow> bool" where
  "strict_window_room floor_at amount r k =
     (case kw_limit k of None \<Rightarrow> True
      | Some limit \<Rightarrow>
          (if (case kw_start k of None \<Rightarrow> True | Some t \<Rightarrow> t < floor_at) then limit - kl_reserved r \<ge> amount
           else case kw_usage k of None \<Rightarrow> False | Some u \<Rightarrow> limit - u - kl_reserved r \<ge> amount))"

definition strict_statement ::
    "instant \<Rightarrow> string \<Rightarrow> int \<Rightarrow> bool \<Rightarrow> bool \<Rightarrow> 'a typed_db_scheme \<Rightarrow> int \<times> 'a typed_db_scheme" where
  "strict_statement now kh amount byok enforce_windows =
     update_keys (\<lambda>r. key_at kh 0 r \<and> (\<not> byok \<or> kl_include_byok r) \<and>
         (case kl_limit r of None \<Rightarrow> True | Some limit \<Rightarrow> limit - key_spent r \<ge> amount) \<and>
         (enforce_windows \<longrightarrow> list_all (\<lambda>w. strict_window_room (window_floors now w) amount r (kl_windows r w)) WINDOWS))
       (\<lambda>r. r\<lparr>kl_reserved := kl_reserved r + amount\<rparr>)"

definition current_usage :: "instant \<Rightarrow> key_window \<Rightarrow> int" where
  "current_usage floor_at k =
     (case kw_start k of None \<Rightarrow> 0 | Some t \<Rightarrow> if t \<ge> floor_at then oint (kw_usage k) else 0)"

definition strict_limits :: "bool \<Rightarrow> key_row \<Rightarrow> (window, int) dict" where
  "strict_limits enforce_windows r =
     (if enforce_windows
      then List.map_filter (\<lambda>w. map_option (\<lambda>limit. (w, limit)) (kw_limit (kl_windows r w))) WINDOWS else [])"

definition strict_used :: "instant \<Rightarrow> bool \<Rightarrow> int \<Rightarrow> key_row \<Rightarrow> (window, int) dict" where
  "strict_used now enforce_windows held r =
     (if enforce_windows
      then List.map_filter (\<lambda>w. map_option (\<lambda>_. (w, held + current_usage (window_floors now w) (kl_windows r w)))
             (kw_limit (kl_windows r w))) WINDOWS else [])"

definition reserve_strict_key ::
    "instant \<Rightarrow> string \<Rightarrow> int \<Rightarrow> bool \<Rightarrow> bool \<Rightarrow> 'a typed_db_scheme \<Rightarrow>
     (key_window_limit_decision + key_reserve \<times> key_window_limit_decision option) \<times> 'a typed_db_scheme" where
  "reserve_strict_key now kh amount byok enforce_windows db =
     (case strict_statement now kh amount byok enforce_windows db of
        (count, db') \<Rightarrow>
          ((case filter (key_at kh 0) (tr_key_limit db') of [] \<Rightarrow> Inr (KEY_MISSING, None)
            | r # _ \<Rightarrow>
               (if byok \<and> \<not> kl_include_byok r then Inr (KEY_NO_HOLD, None)
                else let held = kl_reserved r - (if count = 1 then amount else 0);
                         decision = decide_key_window_limits (strict_limits enforce_windows r)
                                      (strict_used now enforce_windows held r) amount now
                     in if count = 1 then Inr (KEY_ACCEPTED, decision)
                        else case decision of
                            Some d \<Rightarrow> if \<not> kd_allowed d then Inl d else Inr (KEY_INSUFFICIENT, decision)
                          | None \<Rightarrow> Inr (KEY_INSUFFICIENT, decision))), db'))"

section \<open>Keyed tables\<close>

text \<open>A statement whose condition fixes the primary key changes at most one row.\<close>

lemma sql_update_none: "(\<And>r. r \<in> set t \<Longrightarrow> \<not> P r) \<Longrightarrow> sql_update P f t = (0, t)"
  by (auto simp: sql_update_def filter_empty_conv intro: map_idI)

lemma sql_update_keyed:
  assumes "distinct (map k t)" "\<And>r. P r \<Longrightarrow> k r = x"
  shows "sql_update P f t =
    (case List.find (\<lambda>r. k r = x) t of None \<Rightarrow> (0, t)
     | Some r \<Rightarrow> if P r then (1, map (\<lambda>r. if k r = x then f r else r) t) else (0, t))"
  using assms(1)
proof (induction t)
  case (Cons r t)
  show ?case
  proof (cases "k r = x")
    case True
    then have others: "y \<in> set t \<Longrightarrow> k y \<noteq> x" for y using Cons.prems by (force simp: image_iff)
    then have "y \<in> set t \<Longrightarrow> \<not> P y" for y using assms(2) by blast
    then have "filter P t = []" "map (\<lambda>r. if P r then f r else r) t = t" by (auto simp: filter_empty_conv intro: map_idI)
    moreover have "map (\<lambda>r. if k r = x then f r else r) t = t" using others by (auto intro: map_idI)
    ultimately show ?thesis using True by (simp add: sql_update_def)
  next
    case False
    then have "\<not> P r" using assms(2) by blast
    then have "sql_update P f (r # t) = (case sql_update P f t of (n, t') \<Rightarrow> (n, r # t'))" by (simp add: sql_update_def)
    then show ?thesis using Cons False by (auto split: option.splits)
  qed
qed (simp add: sql_update_def)

lemma find_keyed_map:
  assumes "\<And>r. k (f r) = k r"
  shows "List.find (\<lambda>r. k r = y) (map (\<lambda>r. if k r = x then f r else r) t) =
     map_option (\<lambda>r. if k r = x then f r else r) (List.find (\<lambda>r. k r = y) t)"
  by (induction t) (auto simp: assms)

lemma keys_keyed_map:
  assumes "\<And>r. k (f r) = k r"
  shows "map k (map (\<lambda>r. if k r = x then f r else r) t) = map k t"
  by (induction t) (auto simp: assms)

lemma find_filter: "(case filter P t of [] \<Rightarrow> a | r # _ \<Rightarrow> g r) = (case List.find P t of None \<Rightarrow> a | Some r \<Rightarrow> g r)"
  by (induction t) auto

lemma find_Some_keyed: "distinct (map k t) \<Longrightarrow> List.find (\<lambda>r. k r = x) t = Some r \<longleftrightarrow> r \<in> set t \<and> k r = x"
  by (induction t) (auto simp: image_iff)

definition key_place :: "key_row \<Rightarrow> string \<times> int" where
  "key_place r = (kl_key_hash r, kl_shard r)"

definition key_find :: "string \<Rightarrow> int \<Rightarrow> 'a typed_db_scheme \<Rightarrow> key_row option" where
  "key_find kh shard db = List.find (\<lambda>r. key_place r = (kh, shard)) (tr_key_limit db)"

definition key_put :: "string \<Rightarrow> int \<Rightarrow> (key_row \<Rightarrow> key_row) \<Rightarrow> 'a typed_db_scheme \<Rightarrow> 'a typed_db_scheme" where
  "key_put kh shard f db =
     db\<lparr>tr_key_limit := map (\<lambda>r. if key_place r = (kh, shard) then f r else r) (tr_key_limit db)\<rparr>"

definition keys_distinct :: "'a typed_db_scheme \<Rightarrow> bool" where
  "keys_distinct db \<longleftrightarrow> distinct (map key_place (tr_key_limit db))"

lemma key_at_place: "key_at kh shard r \<longleftrightarrow> key_place r = (kh, shard)"
  by (auto simp: key_at_def key_place_def)

lemma update_keys_find:
  assumes "keys_distinct db"
  shows "update_keys (\<lambda>r. key_place r = (kh, shard) \<and> Q r) f db =
    (case key_find kh shard db of None \<Rightarrow> (0, db)
     | Some r \<Rightarrow> if Q r then (1, key_put kh shard f db) else (0, db))"
  using sql_update_keyed [OF assms [unfolded keys_distinct_def], of "\<lambda>r. key_place r = (kh, shard) \<and> Q r" "(kh, shard)" f]
  by (auto simp: update_keys_def key_find_def key_put_def dest: find_SomeD split: option.splits)

lemma key_findD: "key_find kh shard db = Some r \<Longrightarrow> r \<in> set (tr_key_limit db) \<and> key_place r = (kh, shard)"
  unfolding key_find_def by (auto dest: find_SomeD)

lemma key_find_put:
  assumes "\<And>r. key_place (f r) = key_place r"
  shows "key_find kh' shard' (key_put kh shard f db) =
     map_option (\<lambda>r. if (kh', shard') = (kh, shard) then f r else r) (key_find kh' shard' db)"
proof -
  have "key_find kh' shard' (key_put kh shard f db) =
      map_option (\<lambda>r. if key_place r = (kh, shard) then f r else r) (key_find kh' shard' db)"
    using find_keyed_map [of key_place f "(kh', shard')" "(kh, shard)" "tr_key_limit db"] assms
    by (simp add: key_find_def key_put_def)
  then show ?thesis by (cases "key_find kh' shard' db") (auto dest: key_findD)
qed

lemma keys_distinct_put:
  assumes "\<And>r. key_place (f r) = key_place r"
  shows "keys_distinct (key_put kh shard f db) = keys_distinct db"
  using keys_keyed_map [of key_place f "(kh, shard)" "tr_key_limit db"] assms
  by (simp add: keys_distinct_def key_put_def del: map_map)

section \<open>The statements on one row\<close>

definition key_room :: "int \<Rightarrow> bool \<Rightarrow> key_row \<Rightarrow> bool" where
  "key_room amount byok r \<longleftrightarrow>
     (case kl_limit r of None \<Rightarrow> False
      | Some limit \<Rightarrow> (\<not> byok \<or> kl_include_byok r) \<and> limit - key_spent r \<ge> amount)"

definition hold_key :: "int \<Rightarrow> key_row \<Rightarrow> key_row" where
  "hold_key amount r = r\<lparr>kl_reserved := kl_reserved r + amount\<rparr>"

lemma hold_key_simps [simp]:
  "key_place (hold_key amount r) = key_place r" "kl_reserved (hold_key amount r) = kl_reserved r + amount"
  "kl_include_byok (hold_key amount r) = kl_include_byok r"
  by (simp_all add: hold_key_def key_place_def)

lemma reserve_key_statement_find:
  assumes "keys_distinct db"
  shows "reserve_key_statement kh amount byok shard db =
    (case key_find kh shard db of None \<Rightarrow> (0, db)
     | Some r \<Rightarrow> if key_room amount byok r then (1, key_put kh shard (hold_key amount) db) else (0, db))"
proof -
  have "reserve_key_statement kh amount byok shard db =
      update_keys (\<lambda>r. key_place r = (kh, shard) \<and> key_room amount byok r) (hold_key amount) db"
    unfolding reserve_key_statement_def key_at_place key_room_def hold_key_def by (rule refl)
  then show ?thesis
    by (simp add: update_keys_find [OF assms])
qed

lemma key_find_filter: "(case filter (key_at kh shard) (tr_key_limit db) of [] \<Rightarrow> a | r # _ \<Rightarrow> g r) =
    (case key_find kh shard db of None \<Rightarrow> a | Some r \<Rightarrow> g r)"
  unfolding find_filter key_find_def key_at_place by (rule refl)

lemma reserve_key_find:
  assumes "keys_distinct db"
  shows "reserve_key kh amount byok shard db =
    (case key_find kh shard db of None \<Rightarrow> (KEY_MISSING, db)
     | Some r \<Rightarrow>
         if key_room amount byok r then (KEY_ACCEPTED, key_put kh shard (hold_key amount) db)
         else (if kl_limit r = None \<or> byok \<and> \<not> kl_include_byok r then KEY_NO_HOLD else KEY_INSUFFICIENT, db))"
  unfolding reserve_key_def reserve_key_statement_find [OF assms] key_find_filter
  by (auto split: option.splits)

text \<open>The two statements of a release are one update of the row, and the second one alone would do.\<close>

definition released_key :: "int \<Rightarrow> int \<Rightarrow> bool \<Rightarrow> (window \<Rightarrow> instant) \<Rightarrow> key_row \<Rightarrow> key_row" where
  "released_key hold actual book_to_byok floors r =
     book_key hold actual book_to_byok
       (\<lambda>w. roll_window (floors w) (counted_actual book_to_byok actual r) (kl_windows r w)) r"

lemma released_key_simps [simp]:
  "key_place (released_key hold actual book_to_byok floors r) = key_place r"
  "kl_reserved (released_key hold actual book_to_byok floors r) = kl_reserved r - hold"
  by (simp_all add: released_key_def book_key_def key_place_def)

lemma current_is_rolled:
  assumes "windows_current floors r"
  shows "book_key hold actual book_to_byok (\<lambda>w. bump_key_window (counted_actual book_to_byok actual r) (kl_windows r w)) r =
     released_key hold actual book_to_byok floors r"
proof -
  have "bump_key_window a (kl_windows r w) = roll_window (floors w) a (kl_windows r w)" for a w
    using assms by (cases w) (auto simp: windows_current_def WINDOWS_def roll_window_def split: option.splits)
  then show ?thesis by (simp add: released_key_def)
qed

lemma release_key_find:
  assumes "keys_distinct db"
  shows "release_key kh hold actual book_to_byok floors shard db =
    (case key_find kh shard db of None \<Rightarrow> (0, db)
     | Some r \<Rightarrow> if kl_reserved r \<ge> hold then (1, key_put kh shard (released_key hold actual book_to_byok floors) db) else (0, db))"
proof -
  let ?b = "\<lambda>r. book_key hold actual book_to_byok (\<lambda>w. bump_key_window (counted_actual book_to_byok actual r) (kl_windows r w)) r"
  have current: "release_key_statement kh hold actual book_to_byok floors shard Current_Windows db =
      (case key_find kh shard db of None \<Rightarrow> (0, db)
       | Some r \<Rightarrow> if kl_reserved r \<ge> hold \<and> windows_current floors r then (1, key_put kh shard ?b db) else (0, db))"
    by (simp add: release_key_statement_def key_at_place Let_def conj_assoc update_keys_find [OF assms])
  have any: "release_key_statement kh hold actual book_to_byok floors shard Any_Windows db =
      (case key_find kh shard db of None \<Rightarrow> (0, db)
       | Some r \<Rightarrow> if kl_reserved r \<ge> hold then (1, key_put kh shard (released_key hold actual book_to_byok floors) db) else (0, db))"
    by (simp add: release_key_statement_def key_at_place Let_def update_keys_find [OF assms] released_key_def [abs_def] split: option.splits)
  have same: "key_put kh shard ?b db = key_put kh shard (released_key hold actual book_to_byok floors) db"
    if "key_find kh shard db = Some r" "windows_current floors r" for r
  proof -
    have "x = r" if "x \<in> set (tr_key_limit db)" "key_place x = (kh, shard)" for x
      using find_Some_keyed [OF assms [unfolded keys_distinct_def], of "(kh, shard)"] that
        \<open>key_find kh shard db = Some r\<close> by (metis key_find_def option.inject)
    then show ?thesis
      using current_is_rolled [OF that(2), of hold actual book_to_byok]
      by (auto simp: key_put_def intro!: arg_cong [of _ _ "\<lambda>t. db\<lparr>tr_key_limit := t\<rparr>"])
  qed
  show ?thesis
    unfolding release_key_def current using any same by (auto split: option.splits)
qed

section \<open>Strict admission\<close>

text \<open>A request fits a window when the window's current usage, every outstanding hold and the request
  are within its limit, and a key when the same holds of its lifetime cap.\<close>

definition window_fits :: "instant \<Rightarrow> int \<Rightarrow> key_row \<Rightarrow> window \<Rightarrow> bool" where
  "window_fits now amount r w \<longleftrightarrow>
     (case kw_limit (kl_windows r w) of None \<Rightarrow> True
      | Some l \<Rightarrow> current_usage (window_floors now w) (kl_windows r w) + kl_reserved r + amount \<le> l)"

definition cap_fits :: "int \<Rightarrow> key_row \<Rightarrow> bool" where
  "cap_fits amount r \<longleftrightarrow> (case kl_limit r of None \<Rightarrow> True | Some l \<Rightarrow> key_spent r + amount \<le> l)"

definition usage_recorded :: "key_row \<Rightarrow> bool" where
  "usage_recorded r \<longleftrightarrow> (\<forall>w. kw_start (kl_windows r w) \<noteq> None \<longrightarrow> kw_usage (kl_windows r w) \<noteq> None)"

lemma strict_room_fits:
  "usage_recorded r \<Longrightarrow> strict_window_room (window_floors now w) amount r (kl_windows r w) \<longleftrightarrow> window_fits now amount r w"
  by (auto simp: usage_recorded_def strict_window_room_def window_fits_def current_usage_def split: option.splits)

lemma dget_strict:
  "dget (strict_limits True r) w = kw_limit (kl_windows r w)"
  "kw_limit (kl_windows r w) = Some l \<Longrightarrow>
     dget_or 0 (strict_used now True held r) w = held + current_usage (window_floors now w) (kl_windows r w)"
  by (cases w; auto simp: strict_limits_def strict_used_def WINDOWS_def List.map_filter_simps dget_or_def split: option.splits)+

lemma hold_key_fits:
  "window_fits now 0 (hold_key amount r) w = window_fits now amount r w" "cap_fits 0 (hold_key amount r) = cap_fits amount r"
  by (auto simp: window_fits_def cap_fits_def hold_key_def key_spent_def split: option.splits)

lemma strict_decision:
  assumes "0 < amount" "decide_key_window_limits (strict_limits True r) (strict_used now True (kl_reserved r) r) amount now = d"
  shows "(\<exists>x. d = Some x \<and> \<not> kd_allowed x) \<longleftrightarrow> \<not> (\<forall>w. window_fits now amount r w)"
proof (cases d)
  case None
  then have "\<forall>w. kw_limit (kl_windows r w) = None" using assms(2) decide_none dget_strict(1) by metis
  then show ?thesis using None by (simp add: window_fits_def)
next
  case (Some x)
  have "kd_allowed x \<longleftrightarrow> (\<forall>w l. kw_limit (kl_windows r w) = Some l \<longrightarrow>
      amount \<le> max 0 (l - (kl_reserved r + current_usage (window_floors now w) (kl_windows r w))))"
    using decide_allowed_iff [of "strict_limits True r" "strict_used now True (kl_reserved r) r" amount now x] assms(2) Some
    by (simp add: dget_strict cong: imp_cong)
  also have "\<dots> \<longleftrightarrow> (\<forall>w. window_fits now amount r w)"
    using assms(1) by (fastforce simp: window_fits_def split: option.splits)
  finally show ?thesis using Some by simp
qed


definition demo_key_row :: key_row where
  "demo_key_row = \<lparr>kl_key_hash = ''k'', kl_shard = 0, kl_limit = Some 100, kl_usage = 20, kl_byok_usage = 0, kl_reserved = 5,
     kl_include_byok = True,
     kl_windows = (\<lambda>w. \<lparr>kw_limit = (if w = Daily then Some 30 else None), kw_usage = Some 20, kw_start = Some 0\<rparr>)\<rparr>"

definition demo_typed_db :: typed_db where
  "demo_typed_db = \<lparr>tr_credit_balance = [demo_credit_row 1 4, demo_credit_row 0 6], tr_trust_event = [], workspace_documents = [],
     tr_key_limit = [demo_key_row], tr_reservation = [], tr_settle_outbox = [], tr_gateway_authorization = [],
     authorization_entities = []\<rparr>"


end
