(* ===== verification/Typed_Authorize.thy ===== *)
theory Typed_Authorize
  imports Key_Rows
begin

text \<open>
  The atomic authorize and settle transactions of the production store
  (\<open>storage_gcp_authorize.py\<close>, with the statements of \<open>storage_gcp_counter_dml.py\<close> and the batch of
  \<open>storage_gcp_batch_dml.py\<close>).  An authorization holds credit on one shard and spend on one key row and
  inserts the reservation that records both holds; a settlement claims the reservation and releases
  exactly what it records.  Identifiers, clock readings, the builders of the authorization and the
  availability of the outbox table are arguments; an aborted transaction is retried by the database and
  has no effect, so it is not part of the model.
\<close>

section \<open>Reservation statements\<close>

record existing_reservation =
  er_reservation_id :: string
  er_authorization_id :: "string option"
  er_fingerprint :: "string option"
  er_credit_shard :: int
  er_key_shard :: int

definition stored_credit_shard :: "reservation_row \<Rightarrow> int" where
  "stored_credit_shard r = (case rs_credit_shard r of Some i \<Rightarrow> i | None \<Rightarrow> oint (rs_ws_shard r))"

definition read_reservation_by_idempotency :: "string \<Rightarrow> 'a typed_db_scheme \<Rightarrow> existing_reservation option" where
  "read_reservation_by_idempotency scope db =
     (case filter (\<lambda>r. rs_idempotency_scope r = Some scope) (tr_reservation db) of [] \<Rightarrow> None
      | r # _ \<Rightarrow> Some \<lparr>er_reservation_id = rs_reservation_id r, er_authorization_id = rs_authorization_id r,
          er_fingerprint = rs_fingerprint r, er_credit_shard = stored_credit_shard r, er_key_shard = oint (rs_key_shard r)\<rparr>)"

definition read_reservation :: "string \<Rightarrow> 'a typed_db_scheme \<Rightarrow> reservation_row option" where
  "read_reservation rid db =
     (case filter (\<lambda>r. rs_reservation_id r = rid) (tr_reservation db) of [] \<Rightarrow> None
      | r # _ \<Rightarrow> Some (r\<lparr>rs_credit_shard := Some (stored_credit_shard r)\<rparr>))"

text \<open>The primary key is the reservation id; the scopes that are not \<open>NULL\<close> have a unique index.\<close>

definition reservation_insert_statement :: "reservation_row \<Rightarrow> ('a typed_db_scheme, int) tx" where
  "reservation_insert_statement r db =
     (if list_ex (\<lambda>x. rs_reservation_id x = rs_reservation_id r \<or>
            rs_idempotency_scope r \<noteq> None \<and> rs_idempotency_scope x = rs_idempotency_scope r) (tr_reservation db)
      then (Inl AlreadyExists, db) else (Inr 1, db\<lparr>tr_reservation := tr_reservation db @ [r]\<rparr>))"

definition entity_insert_statement :: "string \<Rightarrow> string \<Rightarrow> ('a typed_db_scheme, int) tx" where
  "entity_insert_statement entity_id body db =
     (if dget (authorization_entities db) entity_id \<noteq> None then (Inl AlreadyExists, db)
      else (Inr 1, db\<lparr>authorization_entities := authorization_entities db @ [(entity_id, body)]\<rparr>))"

definition gateway_authorization_insert_statement :: "gateway_authorization \<Rightarrow> ('a typed_db_scheme, int) tx" where
  "gateway_authorization_insert_statement a db =
     (if list_ex (\<lambda>x. ga_id (gr_authorization x) = ga_id a) (tr_gateway_authorization db) then (Inl AlreadyExists, db)
      else (Inr 1, db\<lparr>tr_gateway_authorization := tr_gateway_authorization db @ [\<lparr>gr_authorization = a\<lparr>ga_settled := False\<rparr>, gr_terminal_at = None\<rparr>]\<rparr>))"

text \<open>The columns beside the payload are checked before the statement is sent.\<close>

definition authorization_typed_columns :: "gateway_authorization \<Rightarrow> unit result" where
  "authorization_typed_columns a =
     (case pg_heartbeat_seq (ga_progress a) of None \<Rightarrow> Inr ()
      | Some n \<Rightarrow> if n < 0 then Inl (ValueError ''heartbeat_seq must be NULL or non-negative'') else Inr ())"

definition GUARD_STATUSES :: "string list" where
  "GUARD_STATUSES = [''pending'', ''dead'']"

definition outbox_guards :: "string option \<Rightarrow> 'a typed_db_scheme \<Rightarrow> outbox_row list" where
  "outbox_guards aid db =
     filter (\<lambda>b. aid = Some (ob_authorization_id b) \<and> ob_status b \<in> set GUARD_STATUSES) (tr_settle_outbox db)"

text \<open>With the async fence a claim is refused while an accepted async intent guards the authorization,
  unless the claim applies the frozen payload \<open>binding\<close> of that intent.\<close>

definition fenced :: "(string \<times> string) option \<Rightarrow> int \<Rightarrow> string option \<Rightarrow> 'a typed_db_scheme \<Rightarrow> bool" where
  "fenced binding actual aid db \<longleftrightarrow>
     list_ex (\<lambda>b. ob_async_version b = Some 1 \<and>
       (case binding of None \<Rightarrow> True
        | Some (h, kind) \<Rightarrow> ob_intent_kind b = kind \<and>
            ((case ob_payload_hash b of None \<Rightarrow> False | Some p \<Rightarrow> p \<noteq> h) \<or>
             fi_actual_cost (ob_frozen b) \<noteq> actual))) (outbox_guards aid db)"

record claim_options =
  co_terminal_at :: "instant option"
  co_outbox_available :: bool
  co_expires_before :: "instant option"
  co_async_fence :: bool
  co_binding :: "(string \<times> string) option"

definition claim_reservation ::
    "claim_options \<Rightarrow> string \<Rightarrow> int \<Rightarrow> string \<Rightarrow> 'a typed_db_scheme \<Rightarrow> bool \<times> 'a typed_db_scheme" where
  "claim_reservation c rid actual settled_usage_type db =
     (let guarded = co_outbox_available c \<and> co_terminal_at c \<noteq> None;
          P = (\<lambda>r. rs_reservation_id r = rid \<and> \<not> rs_settled r \<and>
                 (co_outbox_available c \<and> co_async_fence c \<longrightarrow> \<not> fenced (co_binding c) actual (rs_authorization_id r) db) \<and>
                 (case co_expires_before c of None \<Rightarrow> True | Some t \<Rightarrow> rs_expires_at r < t));
          f = (\<lambda>r. r\<lparr>rs_settled := True, rs_actual := Some actual, rs_settled_usage_type := Some settled_usage_type,
                 rs_terminal_at := (if guarded \<and> outbox_guards (rs_authorization_id r) db \<noteq> [] then None else co_terminal_at c)\<rparr>)
      in case sql_update P f (tr_reservation db) of (n, t) \<Rightarrow> (n = 1, db\<lparr>tr_reservation := t\<rparr>))"

definition complete_reservation_retention ::
    "string \<Rightarrow> instant \<Rightarrow> bool \<Rightarrow> 'a typed_db_scheme \<Rightarrow> int \<times> 'a typed_db_scheme" where
  "complete_reservation_retention rid terminal_at outbox_available db =
     (case sql_update (\<lambda>r. rs_reservation_id r = rid \<and> rs_settled r \<and> rs_terminal_at r = None \<and>
             (outbox_available \<longrightarrow> outbox_guards (rs_authorization_id r) db = []))
           (\<lambda>r. r\<lparr>rs_terminal_at := Some terminal_at\<rparr>) (tr_reservation db) of
        (n, t) \<Rightarrow> (n, db\<lparr>tr_reservation := t\<rparr>))"

definition clear_reservation_retention :: "string \<Rightarrow> 'a typed_db_scheme \<Rightarrow> int \<times> 'a typed_db_scheme" where
  "clear_reservation_retention rid db =
     (case sql_update (\<lambda>r. rs_reservation_id r = rid \<and> rs_terminal_at r \<noteq> None)
           (\<lambda>r. r\<lparr>rs_terminal_at := None\<rparr>) (tr_reservation db) of (n, t) \<Rightarrow> (n, db\<lparr>tr_reservation := t\<rparr>))"

section \<open>Batches\<close>

datatype authorize_error =
    Raised py_error
  | Reject string "key_window_limit_decision option"
  | WindowLimitExceeded key_window_limit_decision
  | RetrySequentialCreditReserve
  | RetrySequentialKeyReserve

text \<open>\<open>batch_update\<close> runs the statements in order up to the first that fails: the counts of those that
  ran, and the status.\<close>

fun batch_update :: "('d, int) tx list \<Rightarrow> 'd \<Rightarrow> (int list \<times> py_error option) \<times> 'd" where
  "batch_update [] db = (([], None), db)"
| "batch_update (st # sts) db =
     (case st db of (Inl e, db') \<Rightarrow> (([], Some e), db')
      | (Inr n, db') \<Rightarrow> (case batch_update sts db' of ((ns, e), db'') \<Rightarrow> ((n # ns, e), db'')))"

definition execute_batch_dml ::
    "(int list \<Rightarrow> authorize_error option) \<Rightarrow> ('d, int) tx list \<Rightarrow> int list list \<Rightarrow> 'd \<Rightarrow> (authorize_error + unit) \<times> 'd" where
  "execute_batch_dml check_prefix statements expected_counts db =
     (if length statements \<noteq> length expected_counts
      then (Inl (Raised (ValueError ''Each batch statement requires a row-count contract'')), db)
      else case batch_update statements db of
        ((row_counts, status), db') \<Rightarrow>
          ((case check_prefix row_counts of Some e \<Rightarrow> Inl e
            | None \<Rightarrow>
               (case status of Some e \<Rightarrow> Inl (Raised e)
                | None \<Rightarrow>
                   (if length row_counts \<noteq> length statements \<or> \<not> list_all2 (\<lambda>n allowed. n \<in> set allowed) row_counts expected_counts
                    then Inl (Raised FailedPrecondition) else Inr ()))), db'))"

text \<open>The credit hold of a batch, which also checks the pause when the gate is armed.\<close>

definition reserve_credit_statement :: "string \<Rightarrow> int \<Rightarrow> int \<Rightarrow> bool \<Rightarrow> ('a credit_db_scheme, int) tx" where
  "reserve_credit_statement w amount shard check_pause db =
     (case update_credits (\<lambda>r. row_at w shard r \<and> cb_headroom r \<ge> amount \<and> \<not> cb_marked r \<and>
             (check_pause \<longrightarrow> \<not> billing_paused_row r))
             (\<lambda>r. r\<lparr>cb_reserved := cb_reserved r + amount\<rparr>) db of (n, db') \<Rightarrow> (Inr n, db'))"

section \<open>The authorize transaction\<close>

definition MAX_CREDIT_SHARD_ATTEMPTS_PER_TRANSACTION :: nat where
  "MAX_CREDIT_SHARD_ATTEMPTS_PER_TRANSACTION = 4"

definition bounded_credit_shard_candidates :: "int list \<Rightarrow> int list result" where
  "bounded_credit_shard_candidates candidates =
     (if candidates = [] then Inl (ValueError ''credit_shard_candidates must not be empty'')
      else Inr (take MAX_CREDIT_SHARD_ATTEMPTS_PER_TRANSACTION candidates))"

record authorize_request =
  aq_workspace_id :: string
  aq_key_hash :: string
  aq_estimate :: int
  aq_reservation :: "int option"
  aq_has_credit_candidate :: bool
  aq_usage_type :: string
  aq_idempotency_scope :: "string option"
  aq_fingerprint :: "string option"
  aq_expires_at :: instant
  aq_build_authorization :: "(string \<Rightarrow> string \<Rightarrow> gateway_authorization) option"
  aq_build_auth_body :: "(string \<Rightarrow> string \<Rightarrow> string) option"
  aq_write_mode :: string
  aq_credit_shard :: int
  aq_credit_shard_candidates :: "int list option"
  aq_key_shard_candidates :: "int list"
  aq_skip_key_limit :: bool
  aq_speculate_key_limit :: bool
  aq_strict_budget :: bool
  aq_enforce_strict_windows :: bool
  aq_reservation_id :: string
  aq_authorization_id :: string
  aq_armed :: bool
  aq_created_at :: instant
  aq_now :: instant

record authorize_result =
  au_outcome :: string
  au_rate_limit :: "key_window_limit_decision option"
  au_ids :: "(string \<times> string option) option"
  au_shards :: "(int \<times> int) option"

definition rejected :: "string \<Rightarrow> key_window_limit_decision option \<Rightarrow> authorize_result" where
  "rejected outcome d = \<lparr>au_outcome = outcome, au_rate_limit = d, au_ids = None, au_shards = None\<rparr>"

definition shard_candidates :: "authorize_request \<Rightarrow> int list" where
  "shard_candidates q = (case aq_credit_shard_candidates q of None \<Rightarrow> [aq_credit_shard q] | Some cs \<Rightarrow> cs)"

definition credit_hold_amount :: "authorize_request \<Rightarrow> int" where
  "credit_hold_amount q = (case aq_reservation q of None \<Rightarrow> aq_estimate q | Some r \<Rightarrow> r)"

definition validate_authorize :: "authorize_request \<Rightarrow> string option" where
  "validate_authorize q =
     (let cs = shard_candidates q; ks = aq_key_shard_candidates q
      in if aq_write_mode q \<noteq> ''legacy'' \<and> aq_write_mode q \<noteq> ''typed''
         then Some (''request_record_write_mode must be 'legacy' or 'typed'' @ [CHR 0x27])
         else if aq_write_mode q = ''typed'' \<and> aq_build_authorization q = None
         then Some ''typed request records require build_authorization''
         else if aq_write_mode q = ''legacy'' \<and> aq_build_auth_body q = None
         then Some ''legacy request records require build_auth_body''
         else if aq_credit_shard_candidates q \<noteq> None \<and> aq_credit_shard q \<noteq> 0
         then Some ''pass credit_shard or credit_shard_candidates, not both''
         else if cs = [] then Some ''credit_shard_candidates must not be empty''
         else if \<exists>i \<in> set cs. i < 0 then Some ''credit shards must be non-negative''
         else if \<not> distinct cs then Some ''credit_shard_candidates must be unique''
         else if aq_has_credit_candidate q \<and> length cs > MAX_CREDIT_SHARD_ATTEMPTS_PER_TRANSACTION
         then Some ''credit_shard_candidates exceeds the hot-path transaction limit''
         else if \<not> aq_has_credit_candidate q \<and> cs \<noteq> [0] then Some ''BYOK-only authorization must use credit shard zero''
         else if ks = [] then Some ''key_shard_candidates must not be empty''
         else if \<exists>i \<in> set ks. i < 0 then Some ''key shards must be non-negative''
         else if \<not> distinct ks then Some ''key_shard_candidates must be unique''
         else if aq_strict_budget q \<and> ks \<noteq> [0] then Some ''strict budgets require exactly one key shard''
         else None)"

definition replay_reservation :: "authorize_request \<Rightarrow> existing_reservation \<Rightarrow> authorize_error + authorize_result" where
  "replay_reservation q x =
     (if er_fingerprint x \<noteq> aq_fingerprint q then Inl (Reject ''idempotency_mismatch'' None)
      else Inr \<lparr>au_outcome = ''replay'', au_rate_limit = None, au_ids = Some (er_reservation_id x, er_authorization_id x),
             au_shards = Some (er_credit_shard x, er_key_shard x)\<rparr>)"

text \<open>The sequential holds: the first funded credit shard with its pause, and the first key row that
  takes the hold or needs none.\<close>

fun credit_scan :: "bool \<Rightarrow> string \<Rightarrow> int \<Rightarrow> int list \<Rightarrow> 'a credit_db_scheme \<Rightarrow> (int \<times> bool) option \<times> 'a credit_db_scheme" where
  "credit_scan armed w hold [] db = (None, db)"
| "credit_scan armed w hold (c # cs) db =
     (case (if armed then reserve_credit_with_pause w hold c db
            else case reserve_credit w hold c db of (b, db') \<Rightarrow> ((b, False), db')) of
        ((reserved, paused), db') \<Rightarrow> if reserved then (Some (c, paused), db') else credit_scan armed w hold cs db')"

fun key_scan :: "string \<Rightarrow> int \<Rightarrow> bool \<Rightarrow> bool \<Rightarrow> int list \<Rightarrow> 'a typed_db_scheme \<Rightarrow> (string + key_reserve \<times> int) \<times> 'a typed_db_scheme" where
  "key_scan kh estimate byok saw [] db = (Inl (if saw then ''key_limit_exceeded'' else ''key_missing''), db)"
| "key_scan kh estimate byok saw (c # cs) db =
     (case reserve_key kh estimate byok c db of
        (KEY_MISSING, db') \<Rightarrow> key_scan kh estimate byok saw cs db'
      | (KEY_INSUFFICIENT, db') \<Rightarrow> key_scan kh estimate byok True cs db'
      | (k, db') \<Rightarrow> (Inr (k, c), db'))"

definition take_credit :: "authorize_request \<Rightarrow> bool \<Rightarrow> 'a typed_db_scheme \<Rightarrow> (authorize_error + int \<times> int) \<times> 'a typed_db_scheme" where
  "take_credit q batch_credit db =
     (if batch_credit then (Inr (hd (shard_candidates q), credit_hold_amount q), db)
      else if aq_has_credit_candidate q
      then (case credit_scan (aq_armed q) (aq_workspace_id q) (credit_hold_amount q) (shard_candidates q) db of
              (None, db') \<Rightarrow> (Inl (Reject ''insufficient_credits'' None), db')
            | (Some (c, paused), db') \<Rightarrow>
                if aq_armed q \<and> paused then (Inl (Reject ''billing_paused'' None), db') else (Inr (c, credit_hold_amount q), db'))
      else if aq_armed q \<and> billing_paused_tx (aq_workspace_id q) (Some 0) db then (Inl (Reject ''billing_paused'' None), db)
      else (Inr (0, 0), db))"

definition take_key ::
    "authorize_request \<Rightarrow> bool \<Rightarrow> 'a typed_db_scheme \<Rightarrow>
     (authorize_error + (key_reserve \<times> int) \<times> key_window_limit_decision option) \<times> 'a typed_db_scheme" where
  "take_key q speculative db =
     (let byok = (\<not> aq_has_credit_candidate q)
      in if aq_strict_budget q
         then (case reserve_strict_key (aq_now q) (aq_key_hash q) (aq_estimate q) byok (aq_enforce_strict_windows q) db of
                 (Inl d, db') \<Rightarrow> (Inl (WindowLimitExceeded d), db')
               | (Inr (KEY_MISSING, d), db') \<Rightarrow> (Inl (Reject ''key_missing'' d), db')
               | (Inr (KEY_INSUFFICIENT, d), db') \<Rightarrow> (Inl (Reject ''key_limit_exceeded'' d), db')
               | (Inr (k, d), db') \<Rightarrow> (Inr ((k, 0), d), db'))
         else if speculative then (Inr ((KEY_ACCEPTED, hd (aq_key_shard_candidates q)), None), db)
         else if aq_skip_key_limit q then (Inr ((KEY_NO_HOLD, hd (aq_key_shard_candidates q)), None), db)
         else case key_scan (aq_key_hash q) (aq_estimate q) byok False (aq_key_shard_candidates q) db of
             (Inl outcome, db') \<Rightarrow> (Inl (Reject outcome None), db')
           | (Inr k, db') \<Rightarrow> (Inr (k, None), db'))"

definition new_reservation :: "authorize_request \<Rightarrow> int \<Rightarrow> int \<Rightarrow> int \<Rightarrow> int \<Rightarrow> reservation_row" where
  "new_reservation q credit_shard credit_hold key_shard key_hold =
     \<lparr>rs_reservation_id = aq_reservation_id q, rs_workspace_id = aq_workspace_id q, rs_key_hash = Some (aq_key_hash q),
      rs_ws_shard = Some credit_shard, rs_credit_shard = Some credit_shard, rs_key_shard = Some key_shard,
      rs_credit_reserved = credit_hold, rs_key_reserved = key_hold, rs_hold_usage_type = aq_usage_type q,
      rs_authorization_id = Some (aq_authorization_id q), rs_idempotency_scope = aq_idempotency_scope q,
      rs_fingerprint = aq_fingerprint q, rs_expires_at = aq_expires_at q, rs_settled = False, rs_actual = None,
      rs_settled_usage_type = None, rs_terminal_at = None\<rparr>"

definition authorization_statement :: "authorize_request \<Rightarrow> ('a typed_db_scheme, int) tx result" where
  "authorization_statement q =
     (if aq_write_mode q = ''typed''
      then (case aq_build_authorization q of None \<Rightarrow> Inl AssertionError
            | Some build \<Rightarrow>
               (let a = (build (aq_authorization_id q) (aq_reservation_id q))\<lparr>ga_created_at := aq_created_at q\<rparr>
                in case authorization_typed_columns a of Inl e \<Rightarrow> Inl e
                 | Inr _ \<Rightarrow> Inr (gateway_authorization_insert_statement a)))
      else (case aq_build_auth_body q of None \<Rightarrow> Inl AssertionError
            | Some build \<Rightarrow> Inr (entity_insert_statement (aq_authorization_id q) (build (aq_authorization_id q) (aq_reservation_id q)))))"

definition key_statement :: "authorize_request \<Rightarrow> int \<Rightarrow> ('a typed_db_scheme, int) tx" where
  "key_statement q shard db =
     (case reserve_key_statement (aq_key_hash q) (aq_estimate q) (\<not> aq_has_credit_candidate q) shard db of (n, db') \<Rightarrow> (Inr n, db'))"

definition authorize_check_prefix :: "bool \<Rightarrow> bool \<Rightarrow> int list \<Rightarrow> authorize_error option" where
  "authorize_check_prefix speculative batch_credit counts =
     (if batch_credit \<and> counts \<noteq> [] \<and> counts ! 0 = 0 then Some RetrySequentialCreditReserve
      else let key_index = (if batch_credit then 1 else 0)
           in if speculative \<and> length counts > key_index \<and> counts ! key_index = 0 then Some RetrySequentialKeyReserve
              else None)"

definition authorize_statements ::
    "authorize_request \<Rightarrow> bool \<Rightarrow> bool \<Rightarrow> int \<Rightarrow> int \<Rightarrow> reservation_row \<Rightarrow> ('a typed_db_scheme, int) tx \<Rightarrow> ('a typed_db_scheme, int) tx list" where
  "authorize_statements q speculative batch_credit credit_shard key_shard r auth_statement =
     (if batch_credit then [reserve_credit_statement (aq_workspace_id q) (credit_hold_amount q) credit_shard (aq_armed q)] else []) @
     (if speculative then [key_statement q key_shard] else []) @
     [reservation_insert_statement r, auth_statement]"

definition authorize_txn ::
    "authorize_request \<Rightarrow> bool \<Rightarrow> bool \<Rightarrow> 'a typed_db_scheme \<Rightarrow> (authorize_error + authorize_result) \<times> 'a typed_db_scheme" where
  "authorize_txn q speculative batch_credit db =
     (case Option.bind (aq_idempotency_scope q) (\<lambda>scope. read_reservation_by_idempotency scope db) of
        Some x \<Rightarrow> (replay_reservation q x, db)
      | None \<Rightarrow>
         (case take_credit q batch_credit db of (Inl e, db1) \<Rightarrow> (Inl e, db1)
          | (Inr (credit_shard, credit_hold), db1) \<Rightarrow>
             (case take_key q speculative db1 of (Inl e, db2) \<Rightarrow> (Inl e, db2)
              | (Inr ((key_result, key_shard), strict_decision), db2) \<Rightarrow>
                 (case authorization_statement q of Inl e \<Rightarrow> (Inl (Raised e), db2)
                  | Inr auth_statement \<Rightarrow>
                     (let key_hold = (if key_result = KEY_ACCEPTED then aq_estimate q else 0);
                          r = new_reservation q credit_shard credit_hold key_shard key_hold;
                          statements = authorize_statements q speculative batch_credit credit_shard key_shard r auth_statement
                      in case execute_batch_dml (authorize_check_prefix speculative batch_credit) statements
                                (replicate (length statements) [1]) db2 of
                           (Inl e, db3) \<Rightarrow> (Inl e, db3)
                         | (Inr _, db3) \<Rightarrow>
                             (Inr \<lparr>au_outcome = ''accepted'', au_rate_limit = strict_decision,
                                au_ids = Some (aq_reservation_id q, Some (aq_authorization_id q)),
                                au_shards = Some (credit_shard, key_shard)\<rparr>, db3))))))"

definition run_transaction :: "('d \<Rightarrow> ('e + 'a) \<times> 'd) \<Rightarrow> 'd \<Rightarrow> ('e + 'a) \<times> 'd" where
  "run_transaction txn db = (case txn db of (Inl e, _) \<Rightarrow> (Inl e, db) | (Inr x, db') \<Rightarrow> (Inr x, db'))"

definition speculative_of :: "authorize_request \<Rightarrow> bool" where
  "speculative_of q \<longleftrightarrow> \<not> aq_strict_budget q \<and> \<not> aq_skip_key_limit q \<and> aq_speculate_key_limit q"

definition batch_credit_of :: "authorize_request \<Rightarrow> bool" where
  "batch_credit_of q \<longleftrightarrow> aq_has_credit_candidate q \<and> \<not> aq_strict_budget q \<and> (speculative_of q \<or> aq_skip_key_limit q)"

text \<open>The window of a refusal rides as a suffix of the outcome.\<close>

definition window_name :: "window \<Rightarrow> string" where
  "window_name w = (case w of Daily \<Rightarrow> ''daily'' | Weekly \<Rightarrow> ''weekly'' | Monthly \<Rightarrow> ''monthly'')"

definition handle_authorize ::
    "authorize_request \<Rightarrow> (authorize_error + authorize_result) \<times> 'a typed_db_scheme \<Rightarrow> ('a typed_db_scheme \<Rightarrow> authorize_result result \<times> 'a typed_db_scheme) \<Rightarrow>
     authorize_result result \<times> 'a typed_db_scheme" where
  "handle_authorize q x conflict =
     (case x of (Inr r, db) \<Rightarrow> (Inr r, db)
      | (Inl (WindowLimitExceeded d), db) \<Rightarrow> (Inr (rejected (''key_window_limit_exceeded:'' @ window_name (kd_window d)) (Some d)), db)
      | (Inl (Reject outcome d), db) \<Rightarrow> (Inr (rejected outcome d), db)
      | (Inl (Raised e), db) \<Rightarrow> (if e = AlreadyExists then conflict db else (Inl e, db))
      | (Inl _, db) \<Rightarrow> (Inl FailedPrecondition, db))"

definition replay_txn :: "authorize_request \<Rightarrow> string \<Rightarrow> 'a typed_db_scheme \<Rightarrow> (authorize_error + authorize_result) \<times> 'a typed_db_scheme" where
  "replay_txn q scope db =
     (case read_reservation_by_idempotency scope db of None \<Rightarrow> (Inl (Reject ''idempotency_mismatch'' None), db)
      | Some x \<Rightarrow> (replay_reservation q x, db))"

text \<open>The loser of a race on the idempotency scope reads the winner's reservation and replays it.\<close>

definition replay_conflict :: "authorize_request \<Rightarrow> ('a typed_db_scheme, authorize_result) tx" where
  "replay_conflict q db =
     (case aq_idempotency_scope q of None \<Rightarrow> (Inl AssertionError, db)
      | Some scope \<Rightarrow> handle_authorize q (run_transaction (replay_txn q scope) db) (\<lambda>db'. (Inl AlreadyExists, db')))"

definition authorize_atomic :: "authorize_request \<Rightarrow> ('a typed_db_scheme, authorize_result) tx" where
  "authorize_atomic q db =
     (case validate_authorize q of Some msg \<Rightarrow> (Inl (ValueError msg), db)
      | None \<Rightarrow>
         (let first = run_transaction (authorize_txn q (speculative_of q) (batch_credit_of q)) db;
              final = (case first of
                   (Inl RetrySequentialCreditReserve, db1) \<Rightarrow> run_transaction (authorize_txn q False False) db1
                 | (Inl RetrySequentialKeyReserve, db1) \<Rightarrow> run_transaction (authorize_txn q False False) db1
                 | _ \<Rightarrow> first)
          in handle_authorize q final (replay_conflict q)))"

section \<open>The settle transaction\<close>

datatype settle_outcome = SETTLED | ALREADY_SETTLED | NOT_FOUND | SETTLE_FAILED | OUTBOX_GUARDED

record missing_key_release =
  mk_key_hash :: string
  mk_hold :: int
  mk_missing_shard :: "int option"
  mk_actual :: "int option"

definition release_key_or_skip_deleted ::
    "instant \<Rightarrow> reservation_row \<Rightarrow> int \<Rightarrow> bool \<Rightarrow> ('a typed_db_scheme, int \<times> missing_key_release option) tx" where
  "release_key_or_skip_deleted now res actual book_to_byok db =
     (let kh = (case rs_key_hash res of None \<Rightarrow> ''None'' | Some k \<Rightarrow> k); hold = rs_key_reserved res;
          shard = oint (rs_key_shard res); floors = window_floors now
      in case release_key kh hold actual book_to_byok floors shard db of
        (count, db1) \<Rightarrow>
          (if count = 1 then (Inr (1, None), db1)
           else if rs_key_hash res \<noteq> None \<and> hold = 0 \<and> actual > 0
           then (if shard = 0 then (Inl (RuntimeError ''key usage booking failed''), db1)
                 else case release_key kh 0 actual book_to_byok floors 0 db1 of
                    (recovered, db2) \<Rightarrow>
                      (if recovered = 1
                       then (Inr (1, Some \<lparr>mk_key_hash = kh, mk_hold = 0, mk_missing_shard = Some shard, mk_actual = Some actual\<rparr>), db2)
                       else (Inl (RuntimeError ''key usage booking failed''), db2)))
           else if key_limit_exists kh shard db1 then (Inr (count, None), db1)
           else (Inr (1, Some \<lparr>mk_key_hash = kh, mk_hold = hold, mk_missing_shard = None, mk_actual = None\<rparr>), db1)))"

text \<open>The context variable \<open>APPLY_PAYLOAD\<close> of the frozen apply is \<open>sr_binding\<close>.\<close>

record settle_request =
  sr_reservation_id :: string
  sr_actual :: int
  sr_usage_type :: string
  sr_success :: bool
  sr_guard_outbox :: bool
  sr_outbox_available :: bool
  sr_expires_before :: "instant option"
  sr_async_fence :: bool
  sr_binding :: "(string \<times> string) option"
  sr_now :: instant

definition book_actual :: "settle_request \<Rightarrow> int" where
  "book_actual q = (if sr_success q then sr_actual q else 0)"

definition settle_claim_options :: "settle_request \<Rightarrow> claim_options" where
  "settle_claim_options q =
     \<lparr>co_terminal_at = Some (sr_now q), co_outbox_available = sr_outbox_available q, co_expires_before = sr_expires_before q,
      co_async_fence = sr_async_fence q, co_binding = sr_binding q\<rparr>"

text \<open>The credit part: the recorded hold is released and the actual cost booked when it is charged to
  credits.\<close>

definition settle_credit :: "settle_request \<Rightarrow> reservation_row \<Rightarrow> ('a typed_db_scheme, unit) tx" where
  "settle_credit q res db =
     (if rs_credit_reserved res > 0
      then (case release_credit (rs_workspace_id res) (rs_credit_reserved res)
                   (if sr_usage_type q = ''Credits'' then book_actual q else 0) (oint (rs_credit_shard res)) (sr_now q) db of
              (Inl e, db1) \<Rightarrow> (Inl e, db1)
            | (Inr n, db1) \<Rightarrow> if n \<noteq> 1 then (Inl SettleError, db1) else (Inr (), db1))
      else (Inr (), db))"

definition settle_key :: "settle_request \<Rightarrow> reservation_row \<Rightarrow> ('a typed_db_scheme, settle_outcome \<times> missing_key_release list) tx" where
  "settle_key q res db =
     (case release_key_or_skip_deleted (sr_now q) res (book_actual q) (sr_usage_type q = ''BYOK'') db of
        (Inl e, db1) \<Rightarrow> (Inl e, db1)
      | (Inr (key_count, warning), db1) \<Rightarrow>
          (if rs_key_reserved res > 0 \<and> key_count \<noteq> 1 then (Inl SettleError, db1)
           else (Inr (SETTLED, case warning of None \<Rightarrow> [] | Some x \<Rightarrow> [x]), db1)))"

definition settle_txn :: "settle_request \<Rightarrow> ('a typed_db_scheme, settle_outcome \<times> missing_key_release list) tx" where
  "settle_txn q db =
     (case read_reservation (sr_reservation_id q) db of None \<Rightarrow> (Inr (NOT_FOUND, []), db)
      | Some res \<Rightarrow>
         (if sr_guard_outbox q \<and> sr_outbox_available q \<and> rs_authorization_id res \<noteq> Some [] \<and>
             outbox_guards (rs_authorization_id res) db \<noteq> []
          then (Inr (OUTBOX_GUARDED, []), db)
          else case claim_reservation (settle_claim_options q) (sr_reservation_id q) (book_actual q) (sr_usage_type q) db of
            (False, db1) \<Rightarrow> (Inr (ALREADY_SETTLED, []), db1)
          | (True, db1) \<Rightarrow>
              (if rs_hold_usage_type res = ''RegionalCredits'' then (Inr (SETTLED, []), db1)
               else case settle_credit q res db1 of (Inl e, db2) \<Rightarrow> (Inl e, db2)
                | (Inr _, db2) \<Rightarrow> settle_key q res db2)))"

definition settle_atomic :: "settle_request \<Rightarrow> ('a typed_db_scheme, settle_outcome \<times> missing_key_release list) tx" where
  "settle_atomic q db =
     (case run_in_transaction (settle_txn q) db of
        (Inl SettleError, db') \<Rightarrow> (Inr (SETTLE_FAILED, []), db')
      | x \<Rightarrow> x)"

section \<open>Snapshot checks\<close>

datatype precheck = EXHAUSTED | HEADROOM | DEFER

text \<open>A snapshot that cannot be read is answered with \<open>DEFER\<close>; the checks below are the ones that read.\<close>

definition pending_replay :: "string option \<Rightarrow> 'a typed_db_scheme \<Rightarrow> precheck" where
  "pending_replay scope db =
     (case Option.bind scope (\<lambda>s. read_reservation_by_idempotency s db) of None \<Rightarrow> EXHAUSTED | Some _ \<Rightarrow> DEFER)"

definition key_shard_rows :: "string \<Rightarrow> int \<Rightarrow> 'a typed_db_scheme \<Rightarrow> key_row list" where
  "key_shard_rows kh shard_count db =
     sql_select (\<lambda>r. kl_key_hash r = kh \<and> kl_shard r \<ge> 0 \<and> kl_shard r < shard_count) kl_shard (tr_key_limit db)"

definition key_lifetime_cap_precheck :: "string \<Rightarrow> int \<Rightarrow> bool \<Rightarrow> int \<Rightarrow> string option \<Rightarrow> 'a typed_db_scheme \<Rightarrow> precheck" where
  "key_lifetime_cap_precheck kh estimate has_credit_candidate shard_count scope db =
     (let rows = key_shard_rows kh shard_count db;
          headroom = map (\<lambda>r. oint (kl_limit r) - key_spent r) rows
      in if rows = [] \<or> map kl_shard rows \<noteq> map int [0..<nat shard_count] then HEADROOM
         else if list_ex (\<lambda>r. kl_limit r = None \<or> \<not> has_credit_candidate \<and> \<not> kl_include_byok r) rows then HEADROOM
         else if Max (set headroom) \<ge> estimate \<or> sum_list headroom \<ge> estimate then HEADROOM
         else pending_replay scope db)"

definition credit_exhaustion_precheck :: "string \<Rightarrow> int \<Rightarrow> string option \<Rightarrow> 'a typed_db_scheme \<Rightarrow> precheck" where
  "credit_exhaustion_precheck w estimate scope db =
     (let rows = balance_rows w db; avail = map cb_headroom rows
      in if rows = [] \<or> map cb_shard rows \<noteq> map int [0..<length rows] then HEADROOM
         else if (if list_ex cb_marked rows then sum_list avail \<ge> 0
                  else Max (set avail) \<ge> estimate \<or> sum_list avail \<ge> estimate) then HEADROOM
         else pending_replay scope db)"

definition typed_window_limit_decision ::
    "instant \<Rightarrow> string \<Rightarrow> int \<Rightarrow> (window, int) dict \<Rightarrow> int \<Rightarrow> string option \<Rightarrow> string option \<Rightarrow> 'a typed_db_scheme \<Rightarrow>
     key_window_limit_decision option result" where
  "typed_window_limit_decision now kh estimate window_limits shard_count scope fingerprint db =
     (if shard_count < 1 then Inl (ValueError ''shard_count must be positive'')
      else if (case Option.bind scope (\<lambda>s. read_reservation_by_idempotency s db) of None \<Rightarrow> False
               | Some x \<Rightarrow> er_fingerprint x = fingerprint) then Inr None
      else let rows = key_shard_rows kh shard_count db
      in if rows = [] then Inr None
         else if map kl_shard rows \<noteq> map int [0..<nat shard_count]
         then Inl (RuntimeError ''configured tr_key_limit usage shard set is incomplete'')
         else Inr (decide_key_window_limits window_limits
                (map (\<lambda>w. (w, sum_list (map (\<lambda>r. current_usage (window_floors now w) (kl_windows r w)) rows))) WINDOWS)
                estimate now))"

definition check_key_window_limits ::
    "instant \<Rightarrow> string \<Rightarrow> int \<Rightarrow> (window, int) dict \<Rightarrow> int \<Rightarrow> string option \<Rightarrow> string option \<Rightarrow> 'a typed_db_scheme \<Rightarrow>
     window option result" where
  "check_key_window_limits now kh estimate window_limits shard_count scope fingerprint db =
     (case typed_window_limit_decision now kh estimate window_limits shard_count scope fingerprint db of Inl e \<Rightarrow> Inl e
      | Inr None \<Rightarrow> Inr None
      | Inr (Some d) \<Rightarrow> Inr (if kd_allowed d then None else Some (kd_window d)))"

section \<open>The cache of exhausted keys\<close>

text \<open>An \<open>OrderedDict\<close> of at most \<open>max_entries\<close> keys, least recently used first.\<close>

record exhausted_cache =
  ec_max_entries :: int
  ec_entries :: "string list"

definition new_exhausted_cache :: "int \<Rightarrow> exhausted_cache result" where
  "new_exhausted_cache max_entries =
     (if max_entries < 1 then Inl (ValueError ''exhausted key cache max_entries must be positive'')
      else Inr \<lparr>ec_max_entries = max_entries, ec_entries = []\<rparr>)"

definition move_to_end :: "string \<Rightarrow> string list \<Rightarrow> string list" where
  "move_to_end k ks = filter (\<lambda>x. x \<noteq> k) ks @ [k]"

definition cache_contains :: "string \<Rightarrow> exhausted_cache \<Rightarrow> bool \<times> exhausted_cache" where
  "cache_contains k c =
     (if k \<in> set (ec_entries c) then (True, c\<lparr>ec_entries := move_to_end k (ec_entries c)\<rparr>) else (False, c))"

fun pop_oldest :: "int \<Rightarrow> string list \<Rightarrow> string list" where
  "pop_oldest m [] = []"
| "pop_oldest m (k # ks) = (if int (length (k # ks)) > m then pop_oldest m ks else k # ks)"

definition cache_add :: "string \<Rightarrow> exhausted_cache \<Rightarrow> exhausted_cache" where
  "cache_add k c = c\<lparr>ec_entries := pop_oldest (ec_max_entries c) (move_to_end k (ec_entries c))\<rparr>"

definition cache_discard :: "string \<Rightarrow> exhausted_cache \<Rightarrow> exhausted_cache" where
  "cache_discard k c = c\<lparr>ec_entries := filter (\<lambda>x. x \<noteq> k) (ec_entries c)\<rparr>"

text \<open>The cache never outgrows its bound, holds each key once, and an added key is in it until it is
  discarded or ages out.\<close>

definition cache_ok :: "exhausted_cache \<Rightarrow> bool" where
  "cache_ok c \<longleftrightarrow> 1 \<le> ec_max_entries c \<and> distinct (ec_entries c) \<and> int (length (ec_entries c)) \<le> ec_max_entries c"

lemma pop_oldest_props:
  "distinct ks \<Longrightarrow> distinct (pop_oldest m ks)" "0 \<le> m \<Longrightarrow> int (length (pop_oldest m ks)) \<le> m"
  "1 \<le> m \<Longrightarrow> k \<in> set (pop_oldest m (ks @ [k]))"
  by (induction ks) auto

lemma move_to_end_length: "k \<in> set ks \<Longrightarrow> distinct ks \<Longrightarrow> length (move_to_end k ks) = length ks"
proof (induction ks)
  case (Cons x ks)
  then have "x = k \<Longrightarrow> filter (\<lambda>x. x \<noteq> k) ks = ks" by (auto simp: filter_id_conv)
  then show ?case using Cons by (auto simp: move_to_end_def)
qed simp

lemma cache_ops_ok:
  "new_exhausted_cache m = Inr c \<Longrightarrow> cache_ok c"
  "cache_ok c \<Longrightarrow> cache_ok (snd (cache_contains k c))"
  "cache_ok c \<Longrightarrow> cache_ok (cache_add k c) \<and> fst (cache_contains k (cache_add k c))"
  "cache_ok c \<Longrightarrow> cache_ok (cache_discard k c) \<and> \<not> fst (cache_contains k (cache_discard k c))"
proof -
  show "new_exhausted_cache m = Inr c \<Longrightarrow> cache_ok c" by (auto simp: new_exhausted_cache_def cache_ok_def split: if_splits)
  show "cache_ok c \<Longrightarrow> cache_ok (snd (cache_contains k c))"
    using move_to_end_length [of k "ec_entries c"] by (auto simp: cache_contains_def cache_ok_def move_to_end_def)
  show "cache_ok c \<Longrightarrow> cache_ok (cache_add k c) \<and> fst (cache_contains k (cache_add k c))"
    by (auto simp: cache_contains_def cache_ok_def cache_add_def move_to_end_def pop_oldest_props)
  show "cache_ok c \<Longrightarrow> cache_ok (cache_discard k c) \<and> \<not> fst (cache_contains k (cache_discard k c))"
    by (auto simp: cache_contains_def cache_ok_def cache_discard_def intro: order_trans [OF of_nat_mono [OF length_filter_le]])
qed

section \<open>Credit rows by their primary key\<close>

definition credit_place :: "credit_row \<Rightarrow> string \<times> int" where
  "credit_place r = (cb_workspace_id r, cb_shard r)"

definition credits_distinct :: "'a credit_db_scheme \<Rightarrow> bool" where
  "credits_distinct db \<longleftrightarrow> distinct (map credit_place (tr_credit_balance db))"

definition credit_find :: "string \<Rightarrow> int \<Rightarrow> 'a credit_db_scheme \<Rightarrow> credit_row option" where
  "credit_find w shard db = List.find (\<lambda>r. credit_place r = (w, shard)) (tr_credit_balance db)"

definition credit_room :: "int \<Rightarrow> credit_row \<Rightarrow> bool" where
  "credit_room amount r \<longleftrightarrow> cb_headroom r \<ge> amount \<and> \<not> cb_marked r"

definition hold_credit :: "int \<Rightarrow> credit_row \<Rightarrow> credit_row" where
  "hold_credit amount r = r\<lparr>cb_reserved := cb_reserved r + amount\<rparr>"

lemma row_at_place: "row_at w shard r \<longleftrightarrow> credit_place r = (w, shard)"
  by (auto simp: row_at_def credit_place_def)

lemma update_credits_find:
  assumes "credits_distinct db"
  shows "update_credits (\<lambda>r. row_at w shard r \<and> Q r) f db =
    (case credit_find w shard db of None \<Rightarrow> (0, db)
     | Some r \<Rightarrow> if Q r then (1, set_row w shard f db) else (0, db))"
  using sql_update_keyed [OF assms [unfolded credits_distinct_def], of "\<lambda>r. credit_place r = (w, shard) \<and> Q r" "(w, shard)" f]
  by (auto simp: update_credits_def credit_find_def set_row_def row_at_place dest: find_SomeD split: option.splits)

lemma reserve_credit_find:
  assumes "credits_distinct db"
  shows "reserve_credit w amount shard db =
    (case credit_find w shard db of None \<Rightarrow> (False, db)
     | Some r \<Rightarrow> if credit_room amount r then (True, set_row w shard (hold_credit amount) db) else (False, db))"
proof -
  have "reserve_credit w amount shard db =
      (case update_credits (\<lambda>r. row_at w shard r \<and> credit_room amount r) (hold_credit amount) db of (n, db') \<Rightarrow> (n = 1, db'))"
    unfolding reserve_credit_def credit_room_def hold_credit_def by (rule refl)
  then show ?thesis by (simp add: update_credits_find [OF assms] split: option.splits)
qed

lemma reserve_credit_with_pause_find:
  assumes "credits_distinct db"
  shows "reserve_credit_with_pause w amount shard db =
    (case credit_find w shard db of None \<Rightarrow> ((False, False), db)
     | Some r \<Rightarrow> if credit_room amount r then ((True, billing_paused_row r), set_row w shard (hold_credit amount) db)
                else ((False, False), db))"
proof -
  let ?P = "\<lambda>r. row_at w shard r \<and> credit_room amount r"
  have first: "(case filter ?P t of [] \<Rightarrow> (False, False) | r # _ \<Rightarrow> (True, billing_paused_row r)) =
      (case List.find (\<lambda>r. credit_place r = (w, shard)) t of None \<Rightarrow> (False, False)
       | Some r \<Rightarrow> if credit_room amount r then (True, billing_paused_row r) else (False, False))"
    if "distinct (map credit_place t)" for t
    using that
  proof (induction t)
    case (Cons r t)
    show ?case
    proof (cases "credit_place r = (w, shard)")
      case True
      then have "filter ?P t = []" using Cons.prems by (force simp: row_at_place filter_empty_conv image_iff)
      then show ?thesis using True by (simp add: row_at_place)
    qed (use Cons in \<open>simp add: row_at_place\<close>)
  qed simp
  have "reserve_credit_with_pause w amount shard db =
      (case filter ?P (tr_credit_balance db) of [] \<Rightarrow> (False, False) | r # _ \<Rightarrow> (True, billing_paused_row r),
       snd (update_credits ?P (hold_credit amount) db))"
    unfolding reserve_credit_with_pause_def credit_room_def hold_credit_def Let_def by (rule refl)
  then show ?thesis
    unfolding first [OF assms [unfolded credits_distinct_def]] update_credits_find [OF assms]
    by (simp add: credit_find_def split: option.splits)
qed

lemma reserve_credit_statement_find:
  assumes "credits_distinct db"
  shows "reserve_credit_statement w amount shard check_pause db =
    (case credit_find w shard db of None \<Rightarrow> (Inr 0, db)
     | Some r \<Rightarrow> if credit_room amount r \<and> (check_pause \<longrightarrow> \<not> billing_paused_row r)
                then (Inr 1, set_row w shard (hold_credit amount) db) else (Inr 0, db))"
proof -
  have "reserve_credit_statement w amount shard check_pause db =
      (case update_credits (\<lambda>r. row_at w shard r \<and> credit_room amount r \<and> (check_pause \<longrightarrow> \<not> billing_paused_row r))
         (hold_credit amount) db of (n, db') \<Rightarrow> (Inr n, db'))"
    unfolding reserve_credit_statement_def credit_room_def hold_credit_def conj_assoc by (rule refl)
  then show ?thesis by (auto simp: update_credits_find [OF assms] split: option.splits)
qed

lemma credit_scan_Cons:
  assumes "credits_distinct db"
  shows "credit_scan armed w hold (c # cs) db =
    (case credit_find w c db of None \<Rightarrow> credit_scan armed w hold cs db
     | Some r \<Rightarrow> if credit_room hold r then (Some (c, armed \<and> billing_paused_row r), set_row w c (hold_credit hold) db)
                else credit_scan armed w hold cs db)"
  by (simp add: reserve_credit_find [OF assms] reserve_credit_with_pause_find [OF assms] split: option.splits)

section \<open>Speculation\<close>

text \<open>A statement that changed its one row can be run before the batch.\<close>

lemma execute_batch_Cons:
  assumes "st db = (Inr 1, db')" "\<And>ns. check (1 # ns) = check' ns" "length counts = length sts"
  shows "execute_batch_dml check (st # sts) ([1] # counts) db = execute_batch_dml check' sts counts db'"
  using assms by (auto simp: execute_batch_dml_def split: prod.splits option.splits)

lemma check_prefix_Cons [simp]:
  "authorize_check_prefix s True (1 # ns) = authorize_check_prefix s False ns"
  "authorize_check_prefix True False (1 # ns) = authorize_check_prefix False False ns"
  by (auto simp: authorize_check_prefix_def Let_def)

lemma execute_batch_missed:
  assumes "st db = (Inr 0, db')" "length counts = length sts"
  shows "\<exists>d. execute_batch_dml (authorize_check_prefix s True) (st # sts) (c # counts) db = (Inl RetrySequentialCreditReserve, d)"
    and "\<exists>d. execute_batch_dml (authorize_check_prefix True False) (st # sts) (c # counts) db = (Inl RetrySequentialKeyReserve, d)"
  using assms by (auto simp: execute_batch_dml_def authorize_check_prefix_def Let_def split: prod.splits option.splits)

definition insert_records ::
    "authorize_request \<Rightarrow> bool \<Rightarrow> bool \<Rightarrow> int \<times> int \<Rightarrow> (key_reserve \<times> int) \<times> key_window_limit_decision option \<Rightarrow>
     ('a typed_db_scheme, int) tx \<Rightarrow> 'a typed_db_scheme \<Rightarrow> (authorize_error + authorize_result) \<times> 'a typed_db_scheme" where
  "insert_records q speculative batch_credit c k st db =
     (case (c, k) of ((credit_shard, credit_hold), (key_result, key_shard), strict_decision) \<Rightarrow>
       (let r = new_reservation q credit_shard credit_hold key_shard (if key_result = KEY_ACCEPTED then aq_estimate q else 0);
            statements = authorize_statements q speculative batch_credit credit_shard key_shard r st
        in case execute_batch_dml (authorize_check_prefix speculative batch_credit) statements (replicate (length statements) [1]) db of
             (Inl e, db3) \<Rightarrow> (Inl e, db3)
           | (Inr _, db3) \<Rightarrow>
               (Inr \<lparr>au_outcome = ''accepted'', au_rate_limit = strict_decision,
                  au_ids = Some (aq_reservation_id q, Some (aq_authorization_id q)),
                  au_shards = Some (credit_shard, key_shard)\<rparr>, db3)))"

lemma authorize_txn_fresh:
  assumes "Option.bind (aq_idempotency_scope q) (\<lambda>scope. read_reservation_by_idempotency scope db) = None"
    "authorization_statement q = Inr st"
  shows "authorize_txn q s b db =
    (case take_credit q b db of (Inl e, db1) \<Rightarrow> (Inl e, db1)
     | (Inr c, db1) \<Rightarrow> (case take_key q s db1 of (Inl e, db2) \<Rightarrow> (Inl e, db2) | (Inr k, db2) \<Rightarrow> insert_records q s b c k st db2))"
  unfolding authorize_txn_def insert_records_def assms option.case sum.case Let_def
  by (auto split: prod.splits sum.splits)

lemma set_row_tables [simp]:
  "tr_key_limit (set_row w i f db) = tr_key_limit db" "tr_reservation (set_row w i f db) = tr_reservation db"
  "tr_settle_outbox (set_row w i f db) = tr_settle_outbox db"
  by (simp_all add: set_row_def)

lemma keys_set_row [simp]: "keys_distinct (set_row w i f db) = keys_distinct db" "key_find kh j (set_row w i f db) = key_find kh j db"
  by (simp_all add: keys_distinct_def key_find_def)

lemma authorize_statements_Cons:
  "authorize_statements q s True c k r st =
     reserve_credit_statement (aq_workspace_id q) (credit_hold_amount q) c (aq_armed q) # authorize_statements q s False c k r st"
  "authorize_statements q True False c k r st = key_statement q k # authorize_statements q False False c k r st"
  by (simp_all add: authorize_statements_def)

lemma credit_scan_tables:
  "tr_key_limit (snd (credit_scan armed w hold cs db)) = tr_key_limit db"
  "tr_reservation (snd (credit_scan armed w hold cs db)) = tr_reservation db"
  by (induction cs arbitrary: db)
    (auto simp: reserve_credit_def reserve_credit_with_pause_def Let_def update_credits_def sql_update_def split: prod.splits)

lemma take_credit_tables:
  "take_credit q b db = (x, db1) \<Longrightarrow> tr_key_limit db1 = tr_key_limit db \<and> tr_reservation db1 = tr_reservation db"
  using credit_scan_tables [of "aq_armed q" "aq_workspace_id q" "credit_hold_amount q" "shard_candidates q" db]
  by (auto simp: take_credit_def split: if_splits prod.splits option.splits)

lemma batch_credit_step:
  assumes "credits_distinct db" "shard_candidates q = c # cs" "aq_has_credit_candidate q"
  obtains (missed) d where "insert_records q s True (c, credit_hold_amount q) k st db = (Inl RetrySequentialCreditReserve, d)"
  | (held) db' where "insert_records q s True (c, credit_hold_amount q) k st db = insert_records q s False (c, credit_hold_amount q) k st db'"
      "take_credit q False db = (Inr (c, credit_hold_amount q), db')" "tr_key_limit db' = tr_key_limit db"
proof -
  let ?h = "credit_hold_amount q" and ?w = "aq_workspace_id q"
  let ?ok = "\<exists>r. credit_find ?w c db = Some r \<and> credit_room ?h r \<and> (aq_armed q \<longrightarrow> \<not> billing_paused_row r)"
  obtain kr ks d where k: "k = ((kr, ks), d)" by (metis prod.collapse)
  note stmt = reserve_credit_statement_find [OF assms(1), of ?w ?h c "aq_armed q"]
  show ?thesis
  proof (cases ?ok)
    case True
    let ?db = "set_row ?w c (hold_credit ?h) db"
    have "reserve_credit_statement ?w ?h c (aq_armed q) db = (Inr 1, ?db)" using True stmt by auto
    then have "insert_records q s True (c, ?h) k st db = insert_records q s False (c, ?h) k st ?db"
      by (simp add: insert_records_def k authorize_statements_Cons Let_def execute_batch_Cons [where db' = ?db])
    moreover have "take_credit q False db = (Inr (c, ?h), ?db)"
      using True assms(2,3) credit_scan_Cons [OF assms(1), of "aq_armed q" ?w ?h c cs] by (auto simp: take_credit_def simp del: credit_scan.simps)
    ultimately show ?thesis using held by simp
  next
    case False
    then have "reserve_credit_statement ?w ?h c (aq_armed q) db = (Inr 0, db)" using stmt by (auto split: option.splits)
    note missed_batch = execute_batch_missed(1) [where st = "reserve_credit_statement ?w ?h c (aq_armed q)", OF this]
    let ?r = "new_reservation q c ?h ks (if kr = KEY_ACCEPTED then aq_estimate q else 0)"
    let ?sts = "authorize_statements q s False c ks ?r st"
    obtain d where "execute_batch_dml (authorize_check_prefix s True) (reserve_credit_statement ?w ?h c (aq_armed q) # ?sts)
        ([1] # replicate (length ?sts) [1]) db = (Inl RetrySequentialCreditReserve, d)"
      using missed_batch [of "replicate (length ?sts) [1]" ?sts s "[1]"] by auto
    then have "\<exists>d. insert_records q s True (c, ?h) k st db = (Inl RetrySequentialCreditReserve, d)"
      by (simp add: insert_records_def k authorize_statements_Cons Let_def)
    then show ?thesis using missed by blast
  qed
qed

lemma speculative_key_step:
  assumes "keys_distinct db" "aq_key_shard_candidates q = k # ks" "\<not> aq_strict_budget q" "\<not> aq_skip_key_limit q"
  obtains (missed) d where "insert_records q True False c ((KEY_ACCEPTED, k), None) st db = (Inl RetrySequentialKeyReserve, d)"
  | (held) db' where "insert_records q True False c ((KEY_ACCEPTED, k), None) st db = insert_records q False False c ((KEY_ACCEPTED, k), None) st db'"
      "take_key q False db = (Inr ((KEY_ACCEPTED, k), None), db')"
proof -
  let ?kh = "aq_key_hash q" and ?e = "aq_estimate q" and ?byok = "\<not> aq_has_credit_candidate q"
  let ?ok = "\<exists>r. key_find ?kh k db = Some r \<and> key_room ?e ?byok r"
  obtain cs h where c: "c = (cs, h)" by (metis prod.collapse)
  note stmt = reserve_key_statement_find [OF assms(1), of ?kh ?e ?byok k]
  show ?thesis
  proof (cases ?ok)
    case True
    let ?db = "key_put ?kh k (hold_key ?e) db"
    have "key_statement q k db = (Inr 1, ?db)" using True stmt by (auto simp: key_statement_def)
    then have "insert_records q True False c ((KEY_ACCEPTED, k), None) st db = insert_records q False False c ((KEY_ACCEPTED, k), None) st ?db"
      by (simp add: insert_records_def c authorize_statements_Cons Let_def execute_batch_Cons [where db' = ?db])
    moreover have "take_key q False db = (Inr ((KEY_ACCEPTED, k), None), ?db)"
      using True assms(2-4) reserve_key_find [OF assms(1), of ?kh ?e ?byok k] by (auto simp: take_key_def)
    ultimately show ?thesis using held by simp
  next
    case False
    then have "key_statement q k db = (Inr 0, db)" using stmt by (auto simp: key_statement_def split: option.splits)
    note missed_batch = execute_batch_missed(2) [where st = "key_statement q k", OF this]
    let ?sts = "authorize_statements q False False cs k (new_reservation q cs h k ?e) st"
    obtain d where "execute_batch_dml (authorize_check_prefix True False) (key_statement q k # ?sts)
        ([1] # replicate (length ?sts) [1]) db = (Inl RetrySequentialKeyReserve, d)"
      using missed_batch [of "replicate (length ?sts) [1]" ?sts "[1]"] by auto
    then have "\<exists>d. insert_records q True False c ((KEY_ACCEPTED, k), None) st db = (Inl RetrySequentialKeyReserve, d)"
      by (simp add: insert_records_def c authorize_statements_Cons Let_def)
    then show ?thesis using missed by blast
  qed
qed

lemma validate_authorizeD:
  assumes "validate_authorize q = None"
  shows "shard_candidates q \<noteq> []" "aq_key_shard_candidates q \<noteq> []" "aq_strict_budget q \<Longrightarrow> aq_key_shard_candidates q = [0]"
    "distinct (shard_candidates q)" "distinct (aq_key_shard_candidates q)" "\<forall>i \<in> set (shard_candidates q). 0 \<le> i"
    "\<not> aq_has_credit_candidate q \<Longrightarrow> shard_candidates q = [0]"
    "aq_has_credit_candidate q \<Longrightarrow> length (shard_candidates q) \<le> MAX_CREDIT_SHARD_ATTEMPTS_PER_TRANSACTION"
  using assms by (auto simp: validate_authorize_def Let_def split: if_splits)

definition retry_signal :: "authorize_error \<Rightarrow> bool" where
  "retry_signal e \<longleftrightarrow> e = RetrySequentialCreditReserve \<or> e = RetrySequentialKeyReserve"

lemma speculation_agrees:
  fixes db :: "'a typed_db_scheme" and st :: "('a typed_db_scheme, int) tx"
  assumes tables: "credits_distinct db" "keys_distinct db" and st: "authorization_statement q = Inr st"
    and valid: "validate_authorize q = None"
  obtains (retry) e where "retry_signal e" "run_transaction (authorize_txn q (speculative_of q) (batch_credit_of q)) db = (Inl e, db)"
  | (same) "run_transaction (authorize_txn q (speculative_of q) (batch_credit_of q)) db = run_transaction (authorize_txn q False False) db"
proof -
  let ?s = "speculative_of q" and ?b = "batch_credit_of q"
  obtain c cs k ks where cand: "shard_candidates q = c # cs" "aq_key_shard_candidates q = k # ks"
    using validate_authorizeD(1,2) [OF valid] by (meson neq_Nil_conv)
  have agree: "(\<exists>e d. retry_signal e \<and> authorize_txn q ?s ?b db = (Inl e, d)) \<or> authorize_txn q ?s ?b db = authorize_txn q False False db"
  proof (cases "Option.bind (aq_idempotency_scope q) (\<lambda>scope. read_reservation_by_idempotency scope db)")
    case None
    note txn = authorize_txn_fresh [OF None st]
    have key: "(\<exists>e d. retry_signal e \<and> (case take_key q ?s db1 of (Inl e, db2) \<Rightarrow> (Inl e, db2) | (Inr k, db2) \<Rightarrow> insert_records q ?s False x k st db2) = (Inl e, d)) \<or>
        (case take_key q ?s db1 of (Inl e, db2) \<Rightarrow> (Inl e, db2) | (Inr k, db2) \<Rightarrow> insert_records q ?s False x k st db2) =
        (case take_key q False db1 of (Inl e, db2) \<Rightarrow> (Inl e, db2) | (Inr k, db2) \<Rightarrow> insert_records q False False x k st db2)"
      if "keys_distinct db1" for db1 x
    proof (cases ?s)
      case True
      then have q: "\<not> aq_strict_budget q" "\<not> aq_skip_key_limit q" by (auto simp: speculative_of_def)
      then have "take_key q True db1 = (Inr ((KEY_ACCEPTED, k), None), db1)" using cand by (simp add: take_key_def)
      with True show ?thesis
        using speculative_key_step [OF that cand(2) q, of x st] by (fastforce simp: retry_signal_def)
    next
      case False
      then have s: "?s = False" by simp
      show ?thesis unfolding s by simp
    qed
    show ?thesis
    proof (cases ?b)
      case True
      then have b: "aq_has_credit_candidate q" "take_credit q True db = (Inr (c, credit_hold_amount q), db)"
          "\<not> aq_strict_budget q" "?s \<or> aq_skip_key_limit q"
        using cand by (auto simp: batch_credit_of_def take_credit_def)
      obtain y where y: "\<And>db1 :: 'a typed_db_scheme. take_key q ?s db1 = (Inr y, db1)"
        using b(3,4) by (cases ?s) (auto simp: take_key_def Let_def)
      show ?thesis
      proof (rule batch_credit_step [OF tables(1) cand(1) b(1), of ?s y st])
        fix d assume "insert_records q ?s True (c, credit_hold_amount q) y st db = (Inl RetrySequentialCreditReserve, d)"
        then show ?thesis using True b(2) y by (auto simp: txn retry_signal_def)
      next
        fix db' assume held: "insert_records q ?s True (c, credit_hold_amount q) y st db = insert_records q ?s False (c, credit_hold_amount q) y st db'"
          "take_credit q False db = (Inr (c, credit_hold_amount q), db')" "tr_key_limit db' = tr_key_limit db"
        then have "authorize_txn q ?s ?b db =
            (case take_key q ?s db' of (Inl e, db2) \<Rightarrow> (Inl e, db2)
             | (Inr k, db2) \<Rightarrow> insert_records q ?s False (c, credit_hold_amount q) k st db2)"
          using True b(2) y by (simp add: txn)
        moreover have "keys_distinct db'" using held(3) tables(2) by (simp add: keys_distinct_def)
        ultimately show ?thesis using key [of db' "(c, credit_hold_amount q)"] held(2) by (simp add: txn)
      qed
    next
      case False
      have tk: "keys_distinct db1" if "take_credit q False db = (Inr x, db1)" for x db1
        using take_credit_tables [OF that] tables(2) by (simp add: keys_distinct_def)
      show ?thesis
      proof (cases "take_credit q False db")
        case (Pair r db1)
        then show ?thesis using False key [of db1] tk [of _ db1] by (cases r) (auto simp: txn)
      qed
    qed
  qed (simp add: authorize_txn_def)
  show ?thesis
  proof (cases "\<exists>e d. retry_signal e \<and> authorize_txn q ?s ?b db = (Inl e, d)")
    case True
    then show ?thesis using retry by (auto simp: run_transaction_def)
  next
    case False
    then have "authorize_txn q ?s ?b db = authorize_txn q False False db" using agree by blast
    then show ?thesis using same by (simp add: run_transaction_def)
  qed
qed

lemma execute_no_retry:
  "execute_batch_dml (authorize_check_prefix False False) sts counts db = (Inl e, d) \<Longrightarrow> \<not> retry_signal e"
  by (auto simp: execute_batch_dml_def authorize_check_prefix_def retry_signal_def split: if_splits prod.splits option.splits)

lemma sequential_no_retry: "authorize_txn q False False db = (Inl e, d) \<Longrightarrow> \<not> retry_signal e"
proof -
  have credit: "take_credit q False db = (Inl e, d) \<Longrightarrow> \<not> retry_signal e" for d
    by (auto simp: take_credit_def retry_signal_def split: if_splits prod.splits option.splits)
  have key: "take_key q False db1 = (Inl e, d) \<Longrightarrow> \<not> retry_signal e" for db1 :: "'a typed_db_scheme" and d
    by (auto simp: take_key_def retry_signal_def Let_def split: if_splits prod.splits sum.splits key_reserve.splits)
  assume "authorize_txn q False False db = (Inl e, d)"
  then show ?thesis
    unfolding authorize_txn_def
    by (auto simp: replay_reservation_def Let_def dest: execute_no_retry credit key
        split: option.splits prod.splits sum.splits if_splits) (auto simp: retry_signal_def)
qed

text \<open>The reference: one sequential transaction.\<close>

definition sequential_authorize :: "authorize_request \<Rightarrow> ('a typed_db_scheme, authorize_result) tx" where
  "sequential_authorize q db =
     (case validate_authorize q of Some msg \<Rightarrow> (Inl (ValueError msg), db)
      | None \<Rightarrow> handle_authorize q (run_transaction (authorize_txn q False False) db) (replay_conflict q))"

lemma authorize_sequential:
  fixes db :: "'a typed_db_scheme"
  assumes "credits_distinct db" "keys_distinct db" "authorization_statement q = Inr (st :: ('a typed_db_scheme, int) tx)"
  shows "authorize_atomic q db = sequential_authorize q db"
proof (cases "validate_authorize q")
  case None
  let ?seq = "run_transaction (authorize_txn q False False) db"
  have seq: "fst ?seq = Inl e \<Longrightarrow> \<not> retry_signal e" for e
    using sequential_no_retry [of q db] by (auto simp: run_transaction_def split: prod.splits sum.splits)
  show ?thesis
  proof (rule speculation_agrees [OF assms None])
    fix e assume "retry_signal e" "run_transaction (authorize_txn q (speculative_of q) (batch_credit_of q)) db = (Inl e, db)"
    then show ?thesis by (auto simp: authorize_atomic_def sequential_authorize_def None retry_signal_def Let_def)
  next
    assume "run_transaction (authorize_txn q (speculative_of q) (batch_credit_of q)) db = ?seq"
    moreover obtain x d where x: "?seq = (x, d)" by fastforce
    ultimately show ?thesis
      using seq by (cases x) (auto simp: authorize_atomic_def sequential_authorize_def None retry_signal_def Let_def split: authorize_error.splits)
  qed
qed (simp add: authorize_atomic_def sequential_authorize_def)

text \<open>C5. Speculation is invisible: with the primary keys of the tables in place and an authorization
  row that can be written, the batched authorize transaction with its rollback and retry gives the
  same answer and the same tables as the sequential transaction, on every branch.\<close>

theorem authorize_equals_sequential:
  fixes db :: "'a typed_db_scheme"
  assumes "credits_distinct db" "keys_distinct db" "authorization_statement q = Inr (st :: ('a typed_db_scheme, int) tx)"
  shows "authorize_atomic q db = sequential_authorize q db"
  by (rule authorize_sequential [OF assms])

definition demo_authorize :: authorize_request where
  "demo_authorize = \<lparr>aq_workspace_id = ''w'', aq_key_hash = ''k'', aq_estimate = 5, aq_reservation = None,
     aq_has_credit_candidate = True, aq_usage_type = ''Credits'', aq_idempotency_scope = Some ''i'', aq_fingerprint = Some ''f'',
     aq_expires_at = 100, aq_build_authorization = None, aq_build_auth_body = Some (\<lambda>aid rid. aid @ rid),
     aq_write_mode = ''legacy'', aq_credit_shard = 0, aq_credit_shard_candidates = Some [1, 0], aq_key_shard_candidates = [0],
     aq_skip_key_limit = False, aq_speculate_key_limit = True, aq_strict_budget = False, aq_enforce_strict_windows = True,
     aq_reservation_id = ''r'', aq_authorization_id = ''a'', aq_armed = True, aq_created_at = 5, aq_now = 5\<rparr>"

theorem authorize_equals_sequential_witness:
  "authorize_atomic demo_authorize demo_typed_db = sequential_authorize demo_authorize demo_typed_db \<and>
   fst (run_transaction (authorize_txn demo_authorize True True) demo_typed_db) = Inl RetrySequentialCreditReserve \<and>
   map_sum id au_shards (fst (sequential_authorize demo_authorize demo_typed_db)) = Inr (Some (0, 0))"
proof (intro conjI)
  show "authorize_atomic demo_authorize demo_typed_db = sequential_authorize demo_authorize demo_typed_db"
  proof (rule authorize_equals_sequential)
    show "credits_distinct demo_typed_db" "keys_distinct demo_typed_db" by code_simp+
    show "authorization_statement demo_authorize = Inr (entity_insert_statement ''a'' ''ar'')"
      by (simp add: authorization_statement_def demo_authorize_def)
  qed
  show "fst (run_transaction (authorize_txn demo_authorize True True) demo_typed_db) = Inl RetrySequentialCreditReserve"
    by code_simp
  show "map_sum id au_shards (fst (sequential_authorize demo_authorize demo_typed_db)) = Inr (Some (0, 0))" by code_simp
qed

section \<open>What a release leaves alone\<close>

text \<open>The transactions on the credit rows keep the places of the rows and every other table of the
  store, whatever they return.\<close>

definition credit_frame :: "'a credit_db_scheme \<Rightarrow> 'a credit_db_scheme \<Rightarrow> bool" where
  "credit_frame db db' \<longleftrightarrow> credit_db.more db' = credit_db.more db \<and>
     map credit_place (tr_credit_balance db') = map credit_place (tr_credit_balance db)"

lemma credit_frame_refl [simp]: "credit_frame db db"
  by (simp add: credit_frame_def)

lemma credit_frame_trans [trans]: "credit_frame a b \<Longrightarrow> credit_frame b c \<Longrightarrow> credit_frame a c"
  by (simp add: credit_frame_def)

lemma credit_frame_update [simp]:
  "credit_frame db (db'\<lparr>tr_trust_event := t\<rparr>) = credit_frame db db'"
  "credit_frame db (db'\<lparr>workspace_documents := d\<rparr>) = credit_frame db db'"
  by (simp_all add: credit_frame_def)

lemma update_credits_framed: "update_credits P f db = (n, db') \<Longrightarrow> keeps_place f \<Longrightarrow> credit_frame db db'"
  by (auto simp: update_credits_def sql_update_def credit_frame_def keeps_place_def credit_place_def)

lemma write_deltas_framed: "write_deltas w now shard ds db = (x, db') \<Longrightarrow> credit_frame db db'"
proof (induction w now shard ds db rule: write_deltas.induct)
  case (2 w now shard delta before ds db)
  have k: "keeps_place (\<lambda>r. r\<lparr>cb_total_credits := cb_total_credits r + delta, cb_updated_at := now\<rparr>)" by (simp add: keeps_place_def)
  show ?case using 2 update_credits_framed [OF _ k]
    by (auto split: if_splits prod.splits) (meson credit_frame_trans)+
qed simp

lemma write_mark_framed: "write_mark w now marked before db = (x, db') \<Longrightarrow> credit_frame db db'"
  by (auto simp: write_mark_def Let_def keeps_place_def split: if_splits prod.splits dest: update_credits_framed)

lemma write_credit_rows_framed: "write_credit_rows w before h marked now db = (x, db') \<Longrightarrow> credit_frame db db'"
  by (auto simp: write_credit_rows_def split: sum.splits prod.splits
      dest!: write_deltas_framed write_mark_framed intro: credit_frame_trans)

lemma cover_or_mark_framed: "cover_or_mark w now db = (x, db') \<Longrightarrow> credit_frame db db'"
  by (auto simp: cover_or_mark_def settle_credit_rows_def split: sum.splits prod.splits dest: write_credit_rows_framed)

lemma absorb_claims_framed: "absorb_claims w rows remaining taken db = (x, db') \<Longrightarrow> credit_frame db db'"
proof (induction w rows remaining taken db rule: absorb_claims.induct)
  case (2 w payment rows remaining taken db)
  then show ?case
    by (auto simp: Let_def split: if_splits prod.splits) (metis credit_frame_update(1) credit_frame_refl credit_frame_trans)+
qed simp

lemma sync_pause_framed: "sync_principal_recovery_pause_tx w n paused now entity db = (x, db') \<Longrightarrow> credit_frame db db'"
  by (auto simp: sync_principal_recovery_pause_tx_def Let_def keeps_place_def split: if_splits prod.splits option.splits
      dest: update_credits_framed)

lemma absorb_recovery_framed: "absorb_unrecovered_recovery_tx w count now entity amount db = (x, db') \<Longrightarrow> credit_frame db db'"
  by (auto simp: absorb_unrecovered_recovery_tx_def Let_def split: if_splits sum.splits prod.splits
      dest!: absorb_claims_framed sync_pause_framed intro: credit_frame_trans)

lemma absorb_left_framed:
  "absorb_left (Some (absorb_unrecovered_recovery_tx w count now entity)) f db = (x, db') \<Longrightarrow> credit_frame db db'"
  by (auto simp: absorb_left_def split: if_splits sum.splits prod.splits dest: absorb_recovery_framed)

lemma inflow_framed:
  "take_credit_inflow w amount landing (Some (absorb_unrecovered_recovery_tx w count now entity)) now n db = (x, db') \<Longrightarrow>
   credit_frame db db'"
  by (auto simp: take_credit_inflow_def split: if_splits sum.splits prod.splits
      dest!: absorb_left_framed write_credit_rows_framed intro: credit_frame_trans)

lemma after_release_framed:
  assumes "after_release w shard free h marked now db = (x, db')"
  shows "credit_frame db db'"
proof -
  have k: "keeps_place (\<lambda>r. r\<lparr>cb_total_credits := cb_total_credits r - a\<rparr>)" for a by (simp add: keeps_place_def)
  show ?thesis
    using assms unfolding after_release_def Let_def
    by (auto split: if_splits sum.splits prod.splits intro: credit_frame_trans
        dest!: cover_or_mark_framed inflow_framed absorb_recovery_framed update_credits_framed [OF _ k])
qed

lemma release_credit_framed:
  assumes "release_credit w hold actual shard now db = (x, db')"
  shows "credit_frame db db'"
proof -
  have k: "keeps_place (\<lambda>r. r\<lparr>cb_reserved := cb_reserved r - hold, cb_total_usage := cb_total_usage r + actual\<rparr>)"
    by (simp add: keeps_place_def)
  show ?thesis
    using assms unfolding release_credit_def Let_def
    by (auto split: if_splits sum.splits prod.splits intro: credit_frame_trans
        dest!: after_release_framed update_credits_framed [OF _ k])
qed

lemma credit_frame_typed:
  fixes db :: "'a typed_db_scheme"
  assumes "credit_frame db db'"
  shows "tr_key_limit db' = tr_key_limit db" "tr_reservation db' = tr_reservation db" "tr_settle_outbox db' = tr_settle_outbox db"
    "credits_distinct db' = credits_distinct db"
  using assms by (cases db; cases db'; simp add: credit_frame_def credits_distinct_def)+

section \<open>Reservations by their id\<close>

definition res_find :: "string \<Rightarrow> 'a typed_db_scheme \<Rightarrow> reservation_row option" where
  "res_find rid db = List.find (\<lambda>r. rs_reservation_id r = rid) (tr_reservation db)"

definition res_put :: "string \<Rightarrow> (reservation_row \<Rightarrow> reservation_row) \<Rightarrow> 'a typed_db_scheme \<Rightarrow> 'a typed_db_scheme" where
  "res_put rid f db =
     db\<lparr>tr_reservation := map (\<lambda>r. if rs_reservation_id r = rid then f r else r) (tr_reservation db)\<rparr>"

definition claim_admits :: "claim_options \<Rightarrow> int \<Rightarrow> 'a typed_db_scheme \<Rightarrow> reservation_row \<Rightarrow> bool" where
  "claim_admits c actual db r \<longleftrightarrow> \<not> rs_settled r \<and>
     (co_outbox_available c \<and> co_async_fence c \<longrightarrow> \<not> fenced (co_binding c) actual (rs_authorization_id r) db) \<and>
     (case co_expires_before c of None \<Rightarrow> True | Some t \<Rightarrow> rs_expires_at r < t)"

definition claimed :: "claim_options \<Rightarrow> int \<Rightarrow> string \<Rightarrow> 'a typed_db_scheme \<Rightarrow> reservation_row \<Rightarrow> reservation_row" where
  "claimed c actual settled_usage_type db r =
     r\<lparr>rs_settled := True, rs_actual := Some actual, rs_settled_usage_type := Some settled_usage_type,
       rs_terminal_at := (if (co_outbox_available c \<and> co_terminal_at c \<noteq> None) \<and> outbox_guards (rs_authorization_id r) db \<noteq> []
         then None else co_terminal_at c)\<rparr>"

lemma claimed_simps [simp]:
  "rs_reservation_id (claimed c actual u db r) = rs_reservation_id r" "rs_settled (claimed c actual u db r)"
  "rs_credit_reserved (claimed c actual u db r) = rs_credit_reserved r" "rs_key_reserved (claimed c actual u db r) = rs_key_reserved r"
  "rs_actual (claimed c actual u db r) = Some actual"
  by (simp_all add: claimed_def)

definition ids_distinct :: "'a typed_db_scheme \<Rightarrow> bool" where
  "ids_distinct db \<longleftrightarrow> distinct (map rs_reservation_id (tr_reservation db))"

lemma claim_find:
  assumes "ids_distinct db"
  shows "claim_reservation c rid actual u db =
    (case res_find rid db of None \<Rightarrow> (False, db)
     | Some r \<Rightarrow> if claim_admits c actual db r then (True, res_put rid (claimed c actual u db) db) else (False, db))"
proof -
  have "claim_reservation c rid actual u db =
      (case sql_update (\<lambda>r. rs_reservation_id r = rid \<and> claim_admits c actual db r) (claimed c actual u db) (tr_reservation db) of
         (n, t) \<Rightarrow> (n = 1, db\<lparr>tr_reservation := t\<rparr>))"
    unfolding claim_reservation_def claim_admits_def claimed_def Let_def by (rule refl)
  then show ?thesis
    using sql_update_keyed [OF assms [unfolded ids_distinct_def], of "\<lambda>r. rs_reservation_id r = rid \<and> claim_admits c actual db r" rid]
    by (auto simp: res_find_def res_put_def dest: find_SomeD split: option.splits)
qed

lemma read_reservation_find:
  "read_reservation rid db = map_option (\<lambda>r. r\<lparr>rs_credit_shard := Some (stored_credit_shard r)\<rparr>) (res_find rid db)"
  unfolding read_reservation_def res_find_def find_filter by (auto split: option.splits)

lemma res_put_tables [simp]:
  "tr_key_limit (res_put rid f db) = tr_key_limit db" "tr_settle_outbox (res_put rid f db) = tr_settle_outbox db"
  "tr_credit_balance (res_put rid f db) = tr_credit_balance db" "tr_trust_event (res_put rid f db) = tr_trust_event db"
  by (simp_all add: res_put_def)

lemma sum_keyed_map:
  assumes "distinct (map k t)" "List.find (\<lambda>r. k r = x) t = Some r"
  shows "sum_list (map g (map (\<lambda>r. if k r = x then f r else r) t)) = sum_list (map g t) - g r + (g (f r) :: int)"
  using assms
proof (induction t)
  case (Cons y t)
  show ?case
  proof (cases "k y = x")
    case True
    then have "map (\<lambda>r. if k r = x then f r else r) t = t" using Cons.prems(1) by (force intro: map_idI simp: image_iff)
    moreover have "r = y" using True Cons.prems(2) by simp
    ultimately show ?thesis using True by simp
  qed (use Cons in auto)
qed simp

section \<open>Counters and open holds\<close>

definition credit_open :: "string \<Rightarrow> int \<Rightarrow> reservation_row \<Rightarrow> int" where
  "credit_open w i r =
     (if \<not> rs_settled r \<and> rs_workspace_id r = w \<and> stored_credit_shard r = i then rs_credit_reserved r else 0)"

definition key_open :: "string \<Rightarrow> int \<Rightarrow> reservation_row \<Rightarrow> int" where
  "key_open kh i r =
     (if \<not> rs_settled r \<and> rs_key_hash r = Some kh \<and> oint (rs_key_shard r) = i then rs_key_reserved r else 0)"

definition credit_holds :: "string \<Rightarrow> int \<Rightarrow> 'a typed_db_scheme \<Rightarrow> int" where
  "credit_holds w i db = sum_list (map (credit_open w i) (tr_reservation db))"

definition key_holds :: "string \<Rightarrow> int \<Rightarrow> 'a typed_db_scheme \<Rightarrow> int" where
  "key_holds kh i db = sum_list (map (key_open kh i) (tr_reservation db))"

text \<open>A recorded reservation: its holds are not negative, and while it is open they are on rows that
  exist.\<close>

definition reservation_ok :: "'a typed_db_scheme \<Rightarrow> reservation_row \<Rightarrow> bool" where
  "reservation_ok db r \<longleftrightarrow> 0 \<le> rs_credit_reserved r \<and> 0 \<le> rs_key_reserved r \<and>
     (\<not> rs_settled r \<longrightarrow> rs_hold_usage_type r \<noteq> ''RegionalCredits'' \<and> rs_key_hash r \<noteq> None \<and>
        (0 < rs_credit_reserved r \<longrightarrow> 0 \<le> stored_credit_shard r \<and>
           stored_credit_shard r < int (length (balance_rows (rs_workspace_id r) db))) \<and>
        (0 < rs_key_reserved r \<longrightarrow> (\<forall>kh. rs_key_hash r = Some kh \<longrightarrow> key_find kh (oint (rs_key_shard r)) db \<noteq> None)))"

text \<open>The store is in order: primary keys, the debt rules on every workspace, and every reserved
  counter the sum of the open holds it carries.\<close>

definition credit_exact :: "'a typed_db_scheme \<Rightarrow> bool" where
  "credit_exact db \<longleftrightarrow>
     (\<forall>w. \<forall>i < length (balance_rows w db). cb_reserved (balance_rows w db ! i) = credit_holds w (int i) db)"

definition key_exact :: "'a typed_db_scheme \<Rightarrow> bool" where
  "key_exact db \<longleftrightarrow> (\<forall>kh i r. key_find kh i db = Some r \<longrightarrow> kl_reserved r = key_holds kh i db)"

definition typed_ok :: "'a typed_db_scheme \<Rightarrow> bool" where
  "typed_ok db \<longleftrightarrow> credits_distinct db \<and> keys_distinct db \<and> ids_distinct db \<and>
     (\<forall>w. balance_rows w db \<noteq> [] \<longrightarrow> credit_ok w (length (balance_rows w db)) db) \<and>
     credit_exact db \<and> key_exact db \<and> (\<forall>r \<in> set (tr_reservation db). reservation_ok db r)"

lemma credit_ok_cong:
  assumes "tr_credit_balance db' = tr_credit_balance db" "tr_trust_event db' = tr_trust_event db"
  shows "credit_ok w n db' = credit_ok w n db" "balance_rows w db' = balance_rows w db"
proof -
  show b: "balance_rows w db' = balance_rows w db" for w using assms by (simp add: balance_rows_def)
  show "credit_ok w n db' = credit_ok w n db"
    by (simp add: credit_ok_def sound_def debt_ok_def signed_headroom_def b assms)
qed

lemma credit_find_nth:
  assumes "credit_find w c db = Some r" "complete_rows (balance_rows w db)"
  obtains i where "i < length (balance_rows w db)" "c = int i" "balance_rows w db ! i = r"
proof -
  have r: "r \<in> set (tr_credit_balance db)" "row_at w c r" using find_SomeD [OF assms(1) [unfolded credit_find_def]] by (auto simp: row_at_place)
  then obtain i where i: "i < length (balance_rows w db)" "balance_rows w db ! i = r"
    using table_row [OF r] by (auto simp: in_set_conv_nth)
  then have "c = int i" using r(2) row_at_nth [OF assms(2) i(1)] by blast
  then show ?thesis using i that by blast
qed

lemma credit_scan_hit:
  assumes "credits_distinct db"
  shows "credit_scan armed w hold cs db = (Some (c, p), db') \<Longrightarrow>
      \<exists>r. credit_find w c db = Some r \<and> credit_room hold r \<and> db' = set_row w c (hold_credit hold) db"
    and "credit_scan armed w hold cs db = (None, db') \<Longrightarrow> db' = db"
  using assms
  by (induction cs) (auto simp: credit_scan_Cons simp del: credit_scan.simps(2) split: option.splits if_splits)

lemma key_scan_hit:
  assumes "keys_distinct db"
  shows "key_scan kh e byok saw cs db = (Inr (k, c), db') \<Longrightarrow>
     k = KEY_ACCEPTED \<and> (\<exists>r. key_find kh c db = Some r \<and> key_room e byok r) \<and> db' = key_put kh c (hold_key e) db \<or>
     k = KEY_NO_HOLD \<and> db' = db"
  using assms
  by (induction cs arbitrary: saw) (auto simp: reserve_key_find split: option.splits if_splits)

lemma strict_hit:
  assumes "keys_distinct db" "reserve_strict_key now kh e byok enforce db = (Inr (k, d), db')"
  shows "k = KEY_ACCEPTED \<and> key_find kh 0 db \<noteq> None \<and> db' = key_put kh 0 (hold_key e) db \<or> k \<noteq> KEY_ACCEPTED \<and> db' = db"
proof -
  let ?Q = "\<lambda>r. (\<not> byok \<or> kl_include_byok r) \<and>
         (case kl_limit r of None \<Rightarrow> True | Some limit \<Rightarrow> limit - key_spent r \<ge> e) \<and>
         (enforce \<longrightarrow> list_all (\<lambda>w. strict_window_room (window_floors now w) e r (kl_windows r w)) WINDOWS)"
  have "strict_statement now kh e byok enforce db = update_keys (\<lambda>r. key_place r = (kh, 0) \<and> ?Q r) (hold_key e) db"
    unfolding strict_statement_def key_at_place hold_key_def by (rule refl)
  then have st: "strict_statement now kh e byok enforce db =
      (case key_find kh 0 db of None \<Rightarrow> (0, db) | Some r \<Rightarrow> if ?Q r then (1, key_put kh 0 (hold_key e) db) else (0, db))"
    by (simp only: update_keys_find [OF assms(1)])
  show ?thesis
  proof (cases "key_find kh 0 db")
    case None
    then show ?thesis using assms(2) st by (simp add: reserve_strict_key_def key_find_filter)
  next
    case (Some r)
    show ?thesis
    proof (cases "?Q r")
      case True
      then have "strict_statement now kh e byok enforce db = (1, key_put kh 0 (hold_key e) db)" using st Some by simp
      moreover have "key_find kh 0 (key_put kh 0 (hold_key e) db) = Some (hold_key e r)" by (simp add: key_find_put Some)
      moreover have "\<not> (byok \<and> \<not> kl_include_byok (hold_key e r))" using True by (auto simp: hold_key_def)
      ultimately show ?thesis
        using Some assms(2) by (auto simp: reserve_strict_key_def key_find_filter Let_def)
    next
      case False
      then have "strict_statement now kh e byok enforce db = (0, db)" unfolding st Some by (simp only: option.case if_False)
      then show ?thesis
        using Some assms(2) by (auto simp: reserve_strict_key_def key_find_filter Let_def split: if_splits option.splits)
    qed
  qed
qed

lemma take_key_held:
  assumes "keys_distinct db" "take_key q False db = (Inr ((k, j), d), db')"
  shows "k = KEY_ACCEPTED \<and> key_find (aq_key_hash q) j db \<noteq> None \<and> db' = key_put (aq_key_hash q) j (hold_key (aq_estimate q)) db \<or>
     k \<noteq> KEY_ACCEPTED \<and> db' = db"
proof (cases "aq_strict_budget q")
  case True
  then show ?thesis
    using assms(2) strict_hit [OF assms(1), of "aq_now q" "aq_key_hash q" "aq_estimate q"]
    by (fastforce simp: take_key_def Let_def split: prod.splits sum.splits key_reserve.splits)
next
  case False
  then show ?thesis
    using assms(2) key_scan_hit [OF assms(1), of "aq_key_hash q" "aq_estimate q"]
    by (fastforce simp: take_key_def Let_def split: if_splits prod.splits sum.splits)
qed

section \<open>Authorizing keeps the store in order\<close>

definition all_credit_ok :: "'a credit_db_scheme \<Rightarrow> bool" where
  "all_credit_ok db \<longleftrightarrow> (\<forall>w. balance_rows w db \<noteq> [] \<longrightarrow> credit_ok w (length (balance_rows w db)) db)"

lemma booked_all_credit_ok:
  assumes "booked w (length (balance_rows w db)) delta db db'" "all_credit_ok db"
  shows "all_credit_ok db'" "length (balance_rows v db') = length (balance_rows v db)"
proof -
  have w: "credit_ok w (length (balance_rows w db)) db'" using assms(1) by (simp add: booked_def)
  then have len: "length (balance_rows w db') = length (balance_rows w db)"
    and events: "distinct (map (\<lambda>e. (te_workspace_id e, te_event_id e)) (tr_trust_event db'))"
    by (auto simp: credit_ok_def sound_def)
  have other: "balance_rows v db' = balance_rows v db" if "v \<noteq> w" for v using assms(1) that by (simp add: booked_def)
  show "length (balance_rows v db') = length (balance_rows v db)" using len other by (cases "v = w") auto
  show "all_credit_ok db'"
    unfolding all_credit_ok_def
  proof (intro allI impI)
    fix v assume ne: "balance_rows v db' \<noteq> []"
    show "credit_ok v (length (balance_rows v db')) db'"
    proof (cases "v = w")
      case False
      then have "credit_ok v (length (balance_rows v db)) db" using assms(2) ne other by (simp add: all_credit_ok_def)
      then show ?thesis
        using events by (simp add: credit_ok_def sound_def debt_ok_def signed_headroom_def other [OF False])
    qed (use w len in simp)
  qed
qed

lemma hold_credit_simps [simp]:
  "keeps_place (hold_credit h)" "credit_place (hold_credit h r) = credit_place r" "cb_reserved (hold_credit h r) = cb_reserved r + h"
  by (simp_all add: keeps_place_def hold_credit_def credit_place_def)

lemma set_row_hold:
  assumes ok: "credit_ok w (length (balance_rows w db)) db" and r: "credit_find w c db = Some r" "credit_room h r" "0 \<le> h"
  obtains i where "i < length (balance_rows w db)" "c = int i" "booked w (length (balance_rows w db)) (- h) db (set_row w c (hold_credit h) db)"
    "balance_rows w (set_row w c (hold_credit h) db) = (balance_rows w db)[i := hold_credit h (balance_rows w db ! i)]"
proof -
  have c: "complete_rows (balance_rows w db)" using ok by (simp add: credit_ok_def sound_def)
  obtain i where i: "i < length (balance_rows w db)" "c = int i" "balance_rows w db ! i = r" by (rule credit_find_nth [OF r(1) c])
  have res: "0 \<le> cb_reserved r" using ok i by (auto simp: credit_ok_def)
  have f: "cb_pause_causes (hold_credit h x) = cb_pause_causes x" "cb_marked (hold_credit h x) = cb_marked x"
      "cb_headroom (hold_credit h x) = cb_headroom x - h" "cb_reserved (hold_credit h x) = cb_reserved x + h" for x
    by (simp_all add: hold_credit_def cb_marked_def cb_headroom_def)
  have "booked w (length (balance_rows w db)) (cb_headroom (hold_credit h (balance_rows w db ! i)) - cb_headroom (balance_rows w db ! i))
      db (set_row w (int i) (hold_credit h) db)"
    by (rule set_row_booked [OF ok i(1)]) (use r i res in \<open>auto simp: f credit_room_def\<close>)
  then have "booked w (length (balance_rows w db)) (- h) db (set_row w c (hold_credit h) db)" by (simp add: f i(2))
  then show ?thesis using that i set_row_rows(1) [OF hold_credit_simps(1) c i(1)] by blast
qed

lemma typed_okD:
  assumes "typed_ok db"
  shows "credits_distinct db" "keys_distinct db" "ids_distinct db" "all_credit_ok db" "credit_exact db" "key_exact db"
    "r \<in> set (tr_reservation db) \<Longrightarrow> reservation_ok db r"
  using assms by (simp_all add: typed_ok_def all_credit_ok_def)

lemma typed_okI:
  assumes "credits_distinct db" "keys_distinct db" "ids_distinct db" "all_credit_ok db" "credit_exact db" "key_exact db"
    "\<And>r. r \<in> set (tr_reservation db) \<Longrightarrow> reservation_ok db r"
  shows "typed_ok db"
  using assms by (simp add: typed_ok_def all_credit_ok_def)

lemma reservation_ok_mono:
  assumes "\<And>w. length (balance_rows w db') = length (balance_rows w db)" "\<And>kh i. key_find kh i db' = None \<longleftrightarrow> key_find kh i db = None"
  shows "reservation_ok db' r = reservation_ok db r"
  unfolding reservation_ok_def assms by (rule refl)

lemma take_credit_held:
  assumes ok: "typed_ok db" and q: "0 \<le> credit_hold_amount q" and "take_credit q False db = (Inr (c, h), db1)"
  obtains (none) "h = 0" "db1 = db"
  | (held) i where "i < length (balance_rows (aq_workspace_id q) db)" "c = int i" "0 \<le> h"
      "db1 = set_row (aq_workspace_id q) c (hold_credit h) db"
      "booked (aq_workspace_id q) (length (balance_rows (aq_workspace_id q) db)) (- h) db db1"
      "balance_rows (aq_workspace_id q) db1 = (balance_rows (aq_workspace_id q) db)[i := hold_credit h (balance_rows (aq_workspace_id q) db ! i)]"
proof (cases "aq_has_credit_candidate q")
  case True
  let ?w = "aq_workspace_id q"
  obtain p r where r: "h = credit_hold_amount q" "credit_find ?w c db = Some r" "credit_room h r" "db1 = set_row ?w c (hold_credit h) db"
    using assms(3) True credit_scan_hit(1) [OF typed_okD(1) [OF ok], of "aq_armed q" ?w "credit_hold_amount q" "shard_candidates q"]
    by (fastforce simp: take_credit_def split: prod.splits option.splits if_splits)
  have "balance_rows ?w db \<noteq> []"
    using find_SomeD [OF r(2) [unfolded credit_find_def]] table_row [of r db ?w c] by (auto simp: row_at_place)
  then have "credit_ok ?w (length (balance_rows ?w db)) db" using typed_okD(4) [OF ok] by (simp add: all_credit_ok_def)
  then show ?thesis using set_row_hold [of ?w db c r h] r q held by metis
next
  case False
  then have "h = 0 \<and> db1 = db" using assms(3) by (simp add: take_credit_def split: if_splits)
  then show ?thesis using none by blast
qed

lemma authorization_statement_tables:
  fixes db :: "'a typed_db_scheme"
  assumes "authorization_statement q = Inr st" "st db = (x, db')"
  shows "tr_credit_balance db' = tr_credit_balance db \<and> tr_trust_event db' = tr_trust_event db \<and>
     tr_key_limit db' = tr_key_limit db \<and> tr_reservation db' = tr_reservation db"
  using assms
  by (auto simp: authorization_statement_def gateway_authorization_insert_statement_def entity_insert_statement_def Let_def
      split: if_splits option.splits sum.splits)

lemma insert_records_tables:
  fixes db :: "'a typed_db_scheme"
  assumes "authorization_statement q = Inr st" "insert_records q False False (c, h) ((k, j), d) st db = (Inr res, db')"
  shows "tr_credit_balance db' = tr_credit_balance db \<and> tr_trust_event db' = tr_trust_event db \<and> tr_key_limit db' = tr_key_limit db \<and>
     tr_reservation db' = tr_reservation db @ [new_reservation q c h j (if k = KEY_ACCEPTED then aq_estimate q else 0)] \<and>
     aq_reservation_id q \<notin> rs_reservation_id ` set (tr_reservation db)"
proof -
  let ?r = "new_reservation q c h j (if k = KEY_ACCEPTED then aq_estimate q else 0)"
  have "execute_batch_dml (authorize_check_prefix False False) [reservation_insert_statement ?r, st] [[1], [1]] db = (Inr (), db')"
    using assms(2) by (auto simp: insert_records_def authorize_statements_def Let_def split: prod.splits sum.splits)
  then obtain db1 n where ins: "reservation_insert_statement ?r db = (Inr 1, db1)" "st db1 = (Inr n, db')"
    by (auto simp: execute_batch_dml_def split: if_splits prod.splits option.splits sum.splits)
  then show ?thesis
    using authorization_statement_tables [OF assms(1) ins(2)]
    by (auto simp: reservation_insert_statement_def list_ex_iff new_reservation_def split: if_splits)
qed

definition authorize_legal :: "authorize_request \<Rightarrow> bool" where
  "authorize_legal q \<longleftrightarrow> 0 \<le> aq_estimate q \<and> 0 \<le> credit_hold_amount q \<and> aq_usage_type q \<noteq> ''RegionalCredits''"

lemma key_put_tables [simp]:
  "tr_credit_balance (key_put kh i f db) = tr_credit_balance db" "tr_trust_event (key_put kh i f db) = tr_trust_event db"
  "tr_reservation (key_put kh i f db) = tr_reservation db" "tr_settle_outbox (key_put kh i f db) = tr_settle_outbox db"
  by (simp_all add: key_put_def)

lemma rows_cong: "tr_credit_balance db' = tr_credit_balance db \<Longrightarrow> balance_rows w db' = balance_rows w db"
  by (simp add: balance_rows_def)

lemma all_credit_ok_cong:
  "tr_credit_balance db' = tr_credit_balance db \<Longrightarrow> tr_trust_event db' = tr_trust_event db \<Longrightarrow> all_credit_ok db' = all_credit_ok db"
  using credit_ok_cong [of db' db] by (simp add: all_credit_ok_def)

lemma new_reservation_open [simp]:
  "credit_open w i (new_reservation q c h j kh) = (if aq_workspace_id q = w \<and> c = i then h else 0)"
  "key_open k i (new_reservation q c h j kh) = (if aq_key_hash q = k \<and> j = i then kh else 0)"
  by (simp_all add: credit_open_def key_open_def new_reservation_def stored_credit_shard_def)

text \<open>The credit part of an authorization: the counter of one row grows by the hold.\<close>

lemma take_credit_effect:
  assumes ok: "typed_ok db" and q: "0 \<le> credit_hold_amount q" and t: "take_credit q False db = (Inr (c, h), db1)"
  shows "credits_distinct db1" "all_credit_ok db1" "0 \<le> h" "\<And>w. length (balance_rows w db1) = length (balance_rows w db)"
    "0 < h \<Longrightarrow> 0 \<le> c \<and> c < int (length (balance_rows (aq_workspace_id q) db))"
    "\<And>w i. i < length (balance_rows w db) \<Longrightarrow> cb_reserved (balance_rows w db1 ! i) =
        cb_reserved (balance_rows w db ! i) + (if aq_workspace_id q = w \<and> c = int i then h else 0)"
proof -
  let ?w = "aq_workspace_id q"
  note d = typed_okD [OF ok]
  have "credits_distinct db1 \<and> all_credit_ok db1 \<and> 0 \<le> h \<and> (\<forall>w. length (balance_rows w db1) = length (balance_rows w db)) \<and>
    (0 < h \<longrightarrow> 0 \<le> c \<and> c < int (length (balance_rows ?w db))) \<and>
    (\<forall>w i. i < length (balance_rows w db) \<longrightarrow> cb_reserved (balance_rows w db1 ! i) =
        cb_reserved (balance_rows w db ! i) + (if ?w = w \<and> c = int i then h else 0))"
  proof (rule take_credit_held [OF ok q t])
    assume "h = 0" "db1 = db"
    then show ?thesis using d by simp
  next
    fix i assume i: "i < length (balance_rows ?w db)" "c = int i" "0 \<le> h" "db1 = set_row ?w c (hold_credit h) db"
      "booked ?w (length (balance_rows ?w db)) (- h) db db1"
      "balance_rows ?w db1 = (balance_rows ?w db)[i := hold_credit h (balance_rows ?w db ! i)]"
    have "credits_distinct db1"
      using d(1) keys_keyed_map [of credit_place "hold_credit h" "(?w, c)" "tr_credit_balance db"]
      by (simp add: i(4) credits_distinct_def set_row_def row_at_place del: map_map)
    moreover have "cb_reserved (balance_rows w db1 ! j) = cb_reserved (balance_rows w db ! j) + (if ?w = w \<and> c = int j then h else 0)"
      if "j < length (balance_rows w db)" for w j
    proof (cases "w = ?w")
      case True
      then show ?thesis using i that by (auto simp: nth_list_update)
    next
      case False
      then show ?thesis using i(5) by (auto simp: booked_def)
    qed
    ultimately show ?thesis using i booked_all_credit_ok [OF i(5) d(4)] by auto
  qed
  then show "credits_distinct db1" "all_credit_ok db1" "0 \<le> h" "\<And>w. length (balance_rows w db1) = length (balance_rows w db)"
    "0 < h \<Longrightarrow> 0 \<le> c \<and> c < int (length (balance_rows ?w db))"
    "\<And>w i. i < length (balance_rows w db) \<Longrightarrow> cb_reserved (balance_rows w db1 ! i) =
        cb_reserved (balance_rows w db ! i) + (if ?w = w \<and> c = int i then h else 0)"
    by blast+
qed

lemma take_key_effect:
  assumes kd: "keys_distinct db" and t: "take_key q False db = (Inr ((k, j), d), db')"
  shows "keys_distinct db'" "tr_credit_balance db' = tr_credit_balance db" "tr_trust_event db' = tr_trust_event db"
    "tr_reservation db' = tr_reservation db" "key_find kh i db' = None \<longleftrightarrow> key_find kh i db = None"
    "k = KEY_ACCEPTED \<Longrightarrow> key_find (aq_key_hash q) j db \<noteq> None"
    "key_find kh i db' = Some r' \<Longrightarrow> \<exists>r. key_find kh i db = Some r \<and>
       kl_reserved r' = kl_reserved r + (if aq_key_hash q = kh \<and> j = i \<and> k = KEY_ACCEPTED then aq_estimate q else 0)"
  using take_key_held [OF kd t] kd
  by (auto simp: keys_distinct_put key_find_put split: if_splits)

lemma authorize_txn_ok:
  fixes db :: "'a typed_db_scheme"
  assumes ok: "typed_ok db" and q: "authorize_legal q" and txn: "authorize_txn q False False db = (Inr res, db')"
  shows "typed_ok db'"
proof (cases "Option.bind (aq_idempotency_scope q) (\<lambda>scope. read_reservation_by_idempotency scope db)")
  case None
  note d = typed_okD [OF ok]
  obtain st where st: "authorization_statement q = Inr (st :: ('a typed_db_scheme, int) tx)"
    using txn None by (cases "authorization_statement q :: ('a typed_db_scheme, int) tx result")
      (auto simp: authorize_txn_def split: prod.splits sum.splits)
  obtain c h db1 k j dec db2 where steps: "take_credit q False db = (Inr (c, h), db1)" "take_key q False db1 = (Inr ((k, j), dec), db2)"
      "insert_records q False False (c, h) ((k, j), dec) st db2 = (Inr res, db')"
    using txn by (auto simp: authorize_txn_fresh [OF None st] split: prod.splits sum.splits)
  let ?kh = "if k = KEY_ACCEPTED then aq_estimate q else 0"
  let ?r = "new_reservation q c h j ?kh"
  have q': "0 \<le> aq_estimate q" "0 \<le> credit_hold_amount q" "aq_usage_type q \<noteq> ''RegionalCredits''" using q by (auto simp: authorize_legal_def)
  note credit = take_credit_effect [OF ok q'(2) steps(1)]
  have t1: "tr_key_limit db1 = tr_key_limit db" "tr_reservation db1 = tr_reservation db" using take_credit_tables [OF steps(1)] by auto
  then have k1: "keys_distinct db1" "\<And>kh i. key_find kh i db1 = key_find kh i db" using d(2) by (auto simp: keys_distinct_def key_find_def)
  note key = take_key_effect [OF k1(1) steps(2)]
  note ins = insert_records_tables [OF st steps(3)]
  have rows: "balance_rows w db' = balance_rows w db1" for w using rows_cong [of db' db1] ins key(2) by simp
  have finds: "key_find kh i db' = key_find kh i db2" for kh i using ins by (simp add: key_find_def)
  have res: "tr_reservation db' = tr_reservation db @ [?r]" using ins key(4) t1 by simp
  have holds: "credit_holds w i db' = credit_holds w i db + credit_open w i ?r" "key_holds kh i db' = key_holds kh i db + key_open kh i ?r" for w kh i
    by (simp_all add: credit_holds_def key_holds_def res)
  show ?thesis
  proof (rule typed_okI)
    show "credits_distinct db'" using credit(1) ins key(2) by (simp add: credits_distinct_def)
    show "keys_distinct db'" using key(1) ins by (simp add: keys_distinct_def)
    show "ids_distinct db'" using d(3) ins key(4) t1 res by (simp add: ids_distinct_def) (simp add: new_reservation_def)
    show "all_credit_ok db'" using all_credit_ok_cong [of db' db1] credit(2) ins key(2,3) by simp
    show "credit_exact db'"
      using d(5) credit(4,6) unfolding credit_exact_def rows holds(1) new_reservation_open by auto
    show "key_exact db'"
      unfolding key_exact_def finds holds(2) new_reservation_open
    proof (intro allI impI)
      fix kh i r' assume "key_find kh i db2 = Some r'"
      from key(7) [OF this] obtain r where "key_find kh i db = Some r"
          "kl_reserved r' = kl_reserved r + (if aq_key_hash q = kh \<and> j = i \<and> k = KEY_ACCEPTED then aq_estimate q else 0)"
        unfolding k1(2) by blast
      then show "kl_reserved r' = key_holds kh i db + (if aq_key_hash q = kh \<and> j = i then ?kh else 0)"
        using d(6) by (simp add: key_exact_def)
    qed
    fix r assume "r \<in> set (tr_reservation db')"
    then consider "r \<in> set (tr_reservation db)" | "r = ?r" using res by auto
    then show "reservation_ok db' r"
    proof cases
      case 1
      have "reservation_ok db' r = reservation_ok db r"
        by (rule reservation_ok_mono) (simp_all add: rows credit(4) finds key(5) k1(2))
      then show ?thesis using d(7) 1 by simp
    next
      case 2
      have "key_find (aq_key_hash q) j db' \<noteq> None" if "k = KEY_ACCEPTED" using key(5,6) that finds by metis
      then show ?thesis
        using credit(3,4,5) q' rows by (auto simp: 2 reservation_ok_def new_reservation_def stored_credit_shard_def)
    qed
  qed
qed (use txn ok in \<open>auto simp: authorize_txn_def replay_reservation_def split: if_splits\<close>)

lemma replay_same [simp]: "snd (replay_conflict q db) = db"
  by (auto simp: replay_conflict_def handle_authorize_def run_transaction_def replay_txn_def replay_reservation_def
      split: option.splits sum.splits prod.splits authorize_error.splits)

lemma handle_same: "snd (handle_authorize q x (replay_conflict q)) = snd x"
  by (cases x) (auto simp: handle_authorize_def split: sum.splits authorize_error.splits)

lemma authorize_atomic_ok:
  fixes db :: "'a typed_db_scheme"
  assumes ok: "typed_ok db" and q: "authorize_legal q"
  shows "typed_ok (snd (authorize_atomic q db))"
proof (cases "authorization_statement q :: ('a typed_db_scheme, int) tx result")
  case (Inr st)
  have "snd (sequential_authorize q db) = db \<or> (\<exists>res. authorize_txn q False False db = (Inr res, snd (sequential_authorize q db)))"
    by (auto simp: sequential_authorize_def handle_same run_transaction_def split: option.splits prod.splits sum.splits)
  then have "typed_ok (snd (sequential_authorize q db))" using authorize_txn_ok [OF ok q] ok by metis
  then show ?thesis using authorize_equals_sequential [OF typed_okD(1,2) [OF ok] Inr] by simp
next
  case (Inl e)
  have same: "snd (run_transaction (authorize_txn q s b) db) = db" for s b
    using Inl by (auto simp: run_transaction_def authorize_txn_def replay_reservation_def split: option.splits prod.splits sum.splits if_splits)
  have "snd (case run_transaction (authorize_txn q s b) db of
        (Inl RetrySequentialCreditReserve, db1) \<Rightarrow> run_transaction (authorize_txn q False False) db1
      | (Inl RetrySequentialKeyReserve, db1) \<Rightarrow> run_transaction (authorize_txn q False False) db1
      | _ \<Rightarrow> run_transaction (authorize_txn q s b) db) = db" for s b
    using same [of s b] same [of False False] by (auto split: prod.splits sum.splits authorize_error.splits)
  then show ?thesis using ok by (auto simp: authorize_atomic_def handle_same Let_def split: option.splits)
qed

section \<open>Settling keeps the store in order\<close>

lemma hold_le_total:
  assumes "r \<in> set t" "\<And>x. x \<in> set t \<Longrightarrow> 0 \<le> g x"
  shows "g r \<le> sum_list (map g (t :: reservation_row list) :: int list)"
  using assms by (induction t) (force intro: add_increasing add_increasing2 sum_list_nonneg)+

lemma open_nonneg: "reservation_ok db r \<Longrightarrow> 0 \<le> credit_open w i r \<and> 0 \<le> key_open kh i r"
  by (simp add: reservation_ok_def credit_open_def key_open_def)

text \<open>Releasing the recorded credit hold never fails, and lowers the counter of its row by the hold.\<close>

lemma settle_credit_effect:
  fixes db :: "'a typed_db_scheme"
  assumes ok: "typed_ok db" and r: "r \<in> set (tr_reservation db)" "\<not> rs_settled r" and a: "0 \<le> book_actual q"
    and db1: "tr_credit_balance db1 = tr_credit_balance db" "tr_trust_event db1 = tr_trust_event db"
    and res: "rs_workspace_id res = rs_workspace_id r" "rs_credit_reserved res = rs_credit_reserved r"
      "rs_credit_shard res = Some (stored_credit_shard r)"
  obtains db2 where "settle_credit q res db1 = (Inr (), db2)" "credit_frame db1 db2" "all_credit_ok db2"
    "\<And>w. length (balance_rows w db2) = length (balance_rows w db)"
    "\<And>w i. i < length (balance_rows w db) \<Longrightarrow>
       cb_reserved (balance_rows w db2 ! i) = cb_reserved (balance_rows w db ! i) - credit_open w (int i) r"
proof -
  let ?w = "rs_workspace_id r" and ?h = "rs_credit_reserved r" and ?c = "stored_credit_shard r"
  note d = typed_okD [OF ok]
  have rok: "reservation_ok db r" by (rule d(7) [OF r(1)])
  have rows: "balance_rows w db1 = balance_rows w db" for w using rows_cong [of db1 db] db1(1) by simp
  have all1: "all_credit_ok db1" using all_credit_ok_cong [OF db1] d(4) by simp
  show ?thesis
  proof (cases "?h > 0")
    case True
    then have c: "0 \<le> ?c" "?c < int (length (balance_rows ?w db))" using rok r(2) by (auto simp: reservation_ok_def)
    then obtain i where i: "?c = int i" "i < length (balance_rows ?w db)" by (metis nonneg_int_cases of_nat_less_iff)
    then have "balance_rows ?w db1 \<noteq> []" using rows by auto
    then have cok: "credit_ok ?w (length (balance_rows ?w db1)) db1" using all1 by (simp add: all_credit_ok_def)
    have "credit_open ?w (int i) r \<le> credit_holds ?w (int i) db"
      unfolding credit_holds_def using hold_le_total [OF r(1), of "credit_open ?w (int i)"] d(7) open_nonneg by metis
    then have "?h \<le> cb_reserved (balance_rows ?w db1 ! i)"
      using d(5) i r(2) by (simp add: credit_exact_def rows credit_open_def)
    moreover let ?a = "if sr_usage_type q = ''Credits'' then book_actual q else 0"
    have "0 \<le> ?a" using a by simp
    ultimately obtain db2 where rel: "release_credit ?w ?h ?a (int i) (sr_now q) db1 = (Inr 1, db2)"
        "booked ?w (length (balance_rows ?w db1)) (?h - ?a) db1 db2"
        "map cb_reserved (balance_rows ?w db2) = (map cb_reserved (balance_rows ?w db1))[i := cb_reserved (balance_rows ?w db1 ! i) - ?h]"
      using release_credit_ok [OF cok, of ?h ?a i "sr_now q"] True i(2) rows by auto
    have len: "length (balance_rows w db2) = length (balance_rows w db)" for w
      using booked_all_credit_ok(2) [OF rel(2) all1] rows by simp
    have "cb_reserved (balance_rows w db2 ! j) = cb_reserved (balance_rows w db ! j) - credit_open w (int j) r"
      if "j < length (balance_rows w db)" for w j
    proof (cases "w = ?w")
      case True
      then have "cb_reserved (balance_rows w db2 ! j) = (map cb_reserved (balance_rows w db2)) ! j" using that len by simp
      then show ?thesis using True that i r(2) unfolding rel(3) [folded True] rows by (auto simp: nth_list_update credit_open_def)
    next
      case False
      then show ?thesis using rel(2) rows by (simp add: booked_def credit_open_def)
    qed
    moreover have "settle_credit q res db1 = (Inr (), db2)" using rel(1) True res i(1) by (simp add: settle_credit_def)
    ultimately show ?thesis using that release_credit_framed [OF rel(1)] booked_all_credit_ok(1) [OF rel(2) all1] len by blast
  next
    case False
    then have z: "?h = 0" using rok by (simp add: reservation_ok_def)
    then have "settle_credit q res db1 = (Inr (), db1)" using res by (simp add: settle_credit_def)
    then show ?thesis using that [of db1] all1 rows z by (simp add: credit_open_def)
  qed
qed

text \<open>The key hold is released on its row; usage that was booked without a hold may be booked on shard
  zero, or raise, and a key that is gone is skipped.\<close>

lemma settle_key_effect:
  assumes kd: "keys_distinct db" and kh: "rs_key_hash res = Some kh" and nonneg: "0 \<le> rs_key_reserved res"
    and held: "\<forall>x. key_find kh (oint (rs_key_shard res)) db = Some x \<longrightarrow> rs_key_reserved res \<le> kl_reserved x"
    and there: "0 < rs_key_reserved res \<longrightarrow> key_find kh (oint (rs_key_shard res)) db \<noteq> None"
    and zero: "\<forall>x. key_find kh 0 db = Some x \<longrightarrow> 0 \<le> kl_reserved x"
    and s: "settle_key q res db = (Inr y, db')"
  shows "keys_distinct db'" "tr_credit_balance db' = tr_credit_balance db" "tr_trust_event db' = tr_trust_event db"
    "tr_reservation db' = tr_reservation db" "tr_settle_outbox db' = tr_settle_outbox db"
    "key_find k i db' = None \<longleftrightarrow> key_find k i db = None"
    "key_find k i db' = Some x' \<Longrightarrow> \<exists>x. key_find k i db = Some x \<and>
       kl_reserved x' = kl_reserved x - (if kh = k \<and> oint (rs_key_shard res) = i then rs_key_reserved res else 0)"
proof -
  let ?i = "oint (rs_key_shard res)" and ?h = "rs_key_reserved res" and ?a = "book_actual q" and ?b = "sr_usage_type q = ''BYOK''"
  let ?f = "window_floors (sr_now q)"
  have effect: "db' = key_put kh ?i (released_key ?h ?a ?b ?f) db \<and> key_find kh ?i db \<noteq> None \<or>
      ?h = 0 \<and> (db' = db \<or> db' = key_put kh 0 (released_key 0 ?a ?b ?f) db)"
  proof (cases "key_find kh ?i db")
    case (Some x)
    then have "release_key kh ?h ?a ?b ?f ?i db = (1, key_put kh ?i (released_key ?h ?a ?b ?f) db)"
      using held by (simp add: release_key_find [OF kd])
    then show ?thesis using s kh Some by (simp add: settle_key_def release_key_or_skip_deleted_def)
  next
    case None
    then have z: "?h = 0" using there nonneg by fastforce
    have first: "release_key kh 0 ?a ?b ?f ?i db = (0, db)" using None by (simp add: release_key_find [OF kd])
    have second: "release_key kh 0 ?a ?b ?f 0 db \<in> {(0, db), (1, key_put kh 0 (released_key 0 ?a ?b ?f) db)}"
      using zero by (auto simp: release_key_find [OF kd] split: option.splits)
    then show ?thesis
      using s kh z first by (auto simp: settle_key_def release_key_or_skip_deleted_def Let_def split: if_splits prod.splits)
  qed
  then show "keys_distinct db'" "tr_credit_balance db' = tr_credit_balance db" "tr_trust_event db' = tr_trust_event db"
    "tr_reservation db' = tr_reservation db" "tr_settle_outbox db' = tr_settle_outbox db"
    "key_find k i db' = None \<longleftrightarrow> key_find k i db = None"
    using kd by (auto simp: keys_distinct_put key_find_put)
  show "\<exists>x. key_find k i db = Some x \<and> kl_reserved x' = kl_reserved x - (if kh = k \<and> ?i = i then ?h else 0)"
    if "key_find k i db' = Some x'"
    using effect that by (auto simp: key_find_put split: if_splits)
qed

definition settled_reservation :: "settle_request \<Rightarrow> 'a typed_db_scheme \<Rightarrow> reservation_row \<Rightarrow> reservation_row" where
  "settled_reservation q db = claimed (settle_claim_options q) (book_actual q) (sr_usage_type q) db"

lemma claimed_open [simp]: "credit_open w i (claimed c a u db r) = 0" "key_open k i (claimed c a u db r) = 0"
  by (simp_all add: credit_open_def key_open_def)

lemma claim_holds:
  assumes "ids_distinct db" "res_find rid db = Some r"
  shows "credit_holds w i (res_put rid (claimed c a u db0) db) = credit_holds w i db - credit_open w i r"
    "key_holds k i (res_put rid (claimed c a u db0) db) = key_holds k i db - key_open k i r"
proof -
  have s: "sum_list (map g (tr_reservation (res_put rid (claimed c a u db0) db))) =
      sum_list (map g (tr_reservation db)) - g r + g (claimed c a u db0 r)" for g :: "reservation_row \<Rightarrow> int"
    using sum_keyed_map [OF assms(1) [unfolded ids_distinct_def] assms(2) [unfolded res_find_def], of g "claimed c a u db0"]
    by (simp add: res_put_def)
  show "credit_holds w i (res_put rid (claimed c a u db0) db) = credit_holds w i db - credit_open w i r"
    "key_holds k i (res_put rid (claimed c a u db0) db) = key_holds k i db - key_open k i r"
    using s [of "credit_open w i"] s [of "key_open k i"] by (simp_all add: credit_holds_def key_holds_def)
qed

lemma res_find_put: "(\<And>r. rs_reservation_id (f r) = rs_reservation_id r) \<Longrightarrow>
    res_find x (res_put rid f db) = map_option (\<lambda>r. if x = rid then f r else r) (res_find x db)"
proof -
  assume f: "\<And>r. rs_reservation_id (f r) = rs_reservation_id r"
  have "res_find x (res_put rid f db) = map_option (\<lambda>r. if rs_reservation_id r = rid then f r else r) (res_find x db)"
    using find_keyed_map [of rs_reservation_id f x rid "tr_reservation db"] f by (simp add: res_find_def res_put_def)
  then show ?thesis by (cases "res_find x db") (auto simp: res_find_def dest: find_SomeD)
qed

lemma settle_claimed:
  fixes db :: "'a typed_db_scheme"
  assumes ok: "typed_ok db" and a: "0 \<le> book_actual q" and r: "res_find (sr_reservation_id q) db = Some r" "\<not> rs_settled r"
  defines "res \<equiv> r\<lparr>rs_credit_shard := Some (stored_credit_shard r)\<rparr>"
    and "db1 \<equiv> res_put (sr_reservation_id q) (settled_reservation q db) db"
  obtains db2 where "settle_credit q res db1 = (Inr (), db2)"
    "\<And>y db'. settle_key q res db2 = (Inr y, db') \<Longrightarrow>
       typed_ok db' \<and> fst y = SETTLED \<and> res_find (sr_reservation_id q) db' = Some (settled_reservation q db r)"
    "\<And>kh. rs_key_hash r = Some kh \<Longrightarrow> key_find kh (oint (rs_key_shard r)) db \<noteq> None \<Longrightarrow>
       \<exists>db'. settle_key q res db2 = (Inr (SETTLED, []), db')"
proof -
  note d = typed_okD [OF ok]
  have mem: "r \<in> set (tr_reservation db)" using find_SomeD [OF r(1) [unfolded res_find_def]] by simp
  have rok: "reservation_ok db r" by (rule d(7) [OF mem])
  then obtain kh where kh: "rs_key_hash r = Some kh" using r(2) by (auto simp: reservation_ok_def)
  have t1: "tr_credit_balance db1 = tr_credit_balance db" "tr_trust_event db1 = tr_trust_event db" "tr_key_limit db1 = tr_key_limit db"
    by (simp_all add: db1_def)
  have res: "rs_workspace_id res = rs_workspace_id r" "rs_credit_reserved res = rs_credit_reserved r"
    "rs_credit_shard res = Some (stored_credit_shard r)" "rs_key_hash res = Some kh" "rs_key_reserved res = rs_key_reserved r"
    "rs_key_shard res = rs_key_shard r"
    by (simp_all add: res_def kh)
  obtain db2 where credit: "settle_credit q res db1 = (Inr (), db2)" "credit_frame db1 db2" "all_credit_ok db2"
    "\<And>w. length (balance_rows w db2) = length (balance_rows w db)"
    "\<And>w i. i < length (balance_rows w db) \<Longrightarrow>
       cb_reserved (balance_rows w db2 ! i) = cb_reserved (balance_rows w db ! i) - credit_open w (int i) r"
    using settle_credit_effect [OF ok mem r(2) a t1(1,2) res(1-3)] by blast
  note frame = credit_frame_typed [OF credit(2)]
  have find2: "key_find k i db2 = key_find k i db" for k i using frame(1) t1(3) by (simp add: key_find_def)
  have kd2: "keys_distinct db2" using d(2) frame(1) t1(3) by (simp add: keys_distinct_def)
  have kopen: "key_open kh (oint (rs_key_shard r)) r = rs_key_reserved r" using kh r(2) by (simp add: key_open_def)
  have le: "key_open k i r \<le> kl_reserved x" if "key_find k i db = Some x" for k i x
  proof -
    have "key_open k i r \<le> key_holds k i db"
      unfolding key_holds_def using hold_le_total [OF mem, of "key_open k i"] d(7) open_nonneg by metis
    then show ?thesis using d(6) that by (simp add: key_exact_def)
  qed
  have nonneg: "0 \<le> kl_reserved x" if "key_find k i db = Some x" for k i x
    using le [OF that] open_nonneg [OF rok] by (meson order_trans)
  show ?thesis
  proof (rule that [OF credit(1)])
    fix y db' assume s: "settle_key q res db2 = (Inr y, db')"
    have held: "\<forall>x. key_find kh (oint (rs_key_shard res)) db2 = Some x \<longrightarrow> rs_key_reserved res \<le> kl_reserved x"
      using le [of kh "oint (rs_key_shard r)"] kopen find2 res by simp
    have there: "0 < rs_key_reserved res \<longrightarrow> key_find kh (oint (rs_key_shard res)) db2 \<noteq> None"
      using rok r(2) res kh unfolding find2 reservation_ok_def by metis
    have zero: "\<forall>x. key_find kh 0 db2 = Some x \<longrightarrow> 0 \<le> kl_reserved x" using nonneg find2 by simp
    have "0 \<le> rs_key_reserved res" using rok res by (simp add: reservation_ok_def)
    note key = settle_key_effect [OF kd2 res(4) this held there zero s]
    have tr: "tr_reservation db' = tr_reservation db1" using key(4) frame(2) by simp
    have rows: "balance_rows w db' = balance_rows w db2" for w using rows_cong [of db' db2] key(2) by simp
    have holds: "credit_holds w i db' = credit_holds w i db - credit_open w i r" "key_holds k i db' = key_holds k i db - key_open k i r" for w k i
      using claim_holds [OF d(3) r(1)] tr by (simp_all add: db1_def settled_reservation_def credit_holds_def key_holds_def)
    have "typed_ok db'"
    proof (rule typed_okI)
      show "credits_distinct db'"
        using d(1) frame(4) t1(1) key(2) by (simp add: credits_distinct_def)
      show "keys_distinct db'" by (rule key(1))
      have "map rs_reservation_id (tr_reservation db1) = map rs_reservation_id (tr_reservation db)"
        unfolding db1_def res_put_def settled_reservation_def
        using keys_keyed_map [of rs_reservation_id "claimed (settle_claim_options q) (book_actual q) (sr_usage_type q) db"] by simp
      then show "ids_distinct db'" using d(3) tr unfolding ids_distinct_def by metis
      show "all_credit_ok db'" using all_credit_ok_cong [of db' db2] credit(3) key(2,3) by simp
      show "credit_exact db'" using d(5) credit(4,5) unfolding credit_exact_def rows holds by simp
      show "key_exact db'"
        unfolding key_exact_def holds
      proof (intro allI impI)
        fix k i x' assume "key_find k i db' = Some x'"
        from key(7) [OF this] obtain x where "key_find k i db = Some x"
            "kl_reserved x' = kl_reserved x - (if kh = k \<and> oint (rs_key_shard r) = i then rs_key_reserved r else 0)"
          using find2 res by auto
        then show "kl_reserved x' = key_holds k i db - key_open k i r"
          using d(6) kh r(2) by (simp add: key_exact_def key_open_def)
      qed
      fix x assume "x \<in> set (tr_reservation db')"
      then obtain z where z: "z \<in> set (tr_reservation db)"
          "x = (if rs_reservation_id z = sr_reservation_id q then settled_reservation q db z else z)"
        unfolding tr db1_def res_put_def by auto
      have "reservation_ok db' z = reservation_ok db z"
        by (rule reservation_ok_mono) (simp_all add: rows credit(4) key(6) find2)
      then have zok: "reservation_ok db' z" using d(7) z(1) by simp
      then show "reservation_ok db' x" using z(2) by (auto simp: settled_reservation_def reservation_ok_def)
    qed
    moreover have "fst y = SETTLED" using s by (auto simp: settle_key_def split: prod.splits sum.splits if_splits)
    moreover have "res_find (sr_reservation_id q) db' = Some (settled_reservation q db r)"
    proof -
      have "res_find (sr_reservation_id q) db' = res_find (sr_reservation_id q) db1" using tr by (simp add: res_find_def)
      then show ?thesis using r(1) by (simp add: db1_def res_find_put settled_reservation_def)
    qed
    ultimately show "typed_ok db' \<and> fst y = SETTLED \<and> res_find (sr_reservation_id q) db' = Some (settled_reservation q db r)" by blast
  next
    fix k assume k: "rs_key_hash r = Some k" "key_find k (oint (rs_key_shard r)) db \<noteq> None"
    then obtain x where x: "key_find kh (oint (rs_key_shard r)) db2 = Some x" using find2 kh by auto
    then have "rs_key_reserved r \<le> kl_reserved x" using le [of kh "oint (rs_key_shard r)" x] find2 kopen by simp
    then show "\<exists>db'. settle_key q res db2 = (Inr (SETTLED, []), db')"
      using x kh by (simp add: settle_key_def release_key_or_skip_deleted_def release_key_find [OF kd2] res Let_def)
  qed
qed

definition outbox_guarded :: "settle_request \<Rightarrow> 'a typed_db_scheme \<Rightarrow> reservation_row \<Rightarrow> bool" where
  "outbox_guarded q db r \<longleftrightarrow> sr_guard_outbox q \<and> sr_outbox_available q \<and> rs_authorization_id r \<noteq> Some [] \<and>
     outbox_guards (rs_authorization_id r) db \<noteq> []"

definition settle_claims :: "settle_request \<Rightarrow> 'a typed_db_scheme \<Rightarrow> reservation_row \<Rightarrow> bool" where
  "settle_claims q db r \<longleftrightarrow> \<not> outbox_guarded q db r \<and> claim_admits (settle_claim_options q) (book_actual q) db r"

lemma settle_txn_find:
  assumes "typed_ok db"
  shows "res_find (sr_reservation_id q) db = None \<Longrightarrow> settle_txn q db = (Inr (NOT_FOUND, []), db)"
    "res_find (sr_reservation_id q) db = Some r \<Longrightarrow> outbox_guarded q db r \<Longrightarrow> settle_txn q db = (Inr (OUTBOX_GUARDED, []), db)"
    "res_find (sr_reservation_id q) db = Some r \<Longrightarrow> \<not> outbox_guarded q db r \<Longrightarrow> \<not> settle_claims q db r \<Longrightarrow>
       settle_txn q db = (Inr (ALREADY_SETTLED, []), db)"
    "res_find (sr_reservation_id q) db = Some r \<Longrightarrow> settle_claims q db r \<Longrightarrow>
       settle_txn q db =
         (let res = r\<lparr>rs_credit_shard := Some (stored_credit_shard r)\<rparr>
          in case settle_credit q res (res_put (sr_reservation_id q) (settled_reservation q db) db) of (Inl e, db2) \<Rightarrow> (Inl e, db2)
           | (Inr _, db2) \<Rightarrow> settle_key q res db2)"
proof -
  note d = typed_okD [OF assms]
  have regional: "rs_hold_usage_type r \<noteq> ''RegionalCredits''" if "res_find (sr_reservation_id q) db = Some r" "\<not> rs_settled r"
    using d(7) [of r] that find_SomeD [OF that(1) [unfolded res_find_def]] by (simp add: reservation_ok_def)
  show "res_find (sr_reservation_id q) db = None \<Longrightarrow> settle_txn q db = (Inr (NOT_FOUND, []), db)"
    "res_find (sr_reservation_id q) db = Some r \<Longrightarrow> outbox_guarded q db r \<Longrightarrow> settle_txn q db = (Inr (OUTBOX_GUARDED, []), db)"
    "res_find (sr_reservation_id q) db = Some r \<Longrightarrow> \<not> outbox_guarded q db r \<Longrightarrow> \<not> settle_claims q db r \<Longrightarrow>
       settle_txn q db = (Inr (ALREADY_SETTLED, []), db)"
    by (auto simp: settle_txn_def read_reservation_find outbox_guarded_def settle_claims_def claim_find [OF d(3)])
  show "settle_txn q db =
         (let res = r\<lparr>rs_credit_shard := Some (stored_credit_shard r)\<rparr>
          in case settle_credit q res (res_put (sr_reservation_id q) (settled_reservation q db) db) of (Inl e, db2) \<Rightarrow> (Inl e, db2)
           | (Inr _, db2) \<Rightarrow> settle_key q res db2)"
    if "res_find (sr_reservation_id q) db = Some r" "settle_claims q db r"
    using that regional
    by (auto simp: settle_txn_def read_reservation_find outbox_guarded_def settle_claims_def claim_find [OF d(3)]
        claim_admits_def settled_reservation_def Let_def)
qed

lemma settle_txn_claimed:
  fixes db :: "'a typed_db_scheme"
  assumes ok: "typed_ok db" and a: "0 \<le> book_actual q"
    and r: "res_find (sr_reservation_id q) db = Some r" "settle_claims q db r"
  shows "settle_txn q db = (Inr y, db') \<Longrightarrow>
      typed_ok db' \<and> fst y = SETTLED \<and> res_find (sr_reservation_id q) db' = Some (settled_reservation q db r)"
    "rs_key_hash r = Some kh \<Longrightarrow> key_find kh (oint (rs_key_shard r)) db \<noteq> None \<Longrightarrow>
      \<exists>db'. settle_txn q db = (Inr (SETTLED, []), db')"
proof -
  let ?res = "r\<lparr>rs_credit_shard := Some (stored_credit_shard r)\<rparr>"
  have open_res: "\<not> rs_settled r" using r(2) by (simp add: settle_claims_def claim_admits_def)
  have "\<exists>db2. settle_credit q ?res (res_put (sr_reservation_id q) (settled_reservation q db) db) = (Inr (), db2) \<and>
      (\<forall>y db'. settle_key q ?res db2 = (Inr y, db') \<longrightarrow>
         typed_ok db' \<and> fst y = SETTLED \<and> res_find (sr_reservation_id q) db' = Some (settled_reservation q db r)) \<and>
      (\<forall>k. rs_key_hash r = Some k \<longrightarrow> key_find k (oint (rs_key_shard r)) db \<noteq> None \<longrightarrow>
         (\<exists>db'. settle_key q ?res db2 = (Inr (SETTLED, []), db')))"
  proof (rule settle_claimed [OF ok a r(1) open_res], intro exI conjI)
    fix db2
    assume c: "settle_credit q ?res (res_put (sr_reservation_id q) (settled_reservation q db) db) = (Inr (), db2)"
      and k: "\<And>y db'. settle_key q ?res db2 = (Inr y, db') \<Longrightarrow>
        typed_ok db' \<and> fst y = SETTLED \<and> res_find (sr_reservation_id q) db' = Some (settled_reservation q db r)"
      and l: "\<And>k. rs_key_hash r = Some k \<Longrightarrow> key_find k (oint (rs_key_shard r)) db \<noteq> None \<Longrightarrow>
        \<exists>db'. settle_key q ?res db2 = (Inr (SETTLED, []), db')"
    show "settle_credit q ?res (res_put (sr_reservation_id q) (settled_reservation q db) db) = (Inr (), db2)" by (rule c)
    show "\<forall>y db'. settle_key q ?res db2 = (Inr y, db') \<longrightarrow>
        typed_ok db' \<and> fst y = SETTLED \<and> res_find (sr_reservation_id q) db' = Some (settled_reservation q db r)"
      by (intro allI impI, erule k)
    show "\<forall>k. rs_key_hash r = Some k \<longrightarrow> key_find k (oint (rs_key_shard r)) db \<noteq> None \<longrightarrow>
        (\<exists>db'. settle_key q ?res db2 = (Inr (SETTLED, []), db'))"
      by (intro allI impI, erule (1) l)
  qed
  then obtain db2 where
    c: "settle_credit q ?res (res_put (sr_reservation_id q) (settled_reservation q db) db) = (Inr (), db2)"
    and k: "\<And>y db'. settle_key q ?res db2 = (Inr y, db') \<Longrightarrow>
      typed_ok db' \<and> fst y = SETTLED \<and> res_find (sr_reservation_id q) db' = Some (settled_reservation q db r)"
    and l: "\<And>k. rs_key_hash r = Some k \<Longrightarrow> key_find k (oint (rs_key_shard r)) db \<noteq> None \<Longrightarrow>
      \<exists>db'. settle_key q ?res db2 = (Inr (SETTLED, []), db')"
    by (elim exE conjE) simp
  have t: "settle_txn q db = settle_key q (r\<lparr>rs_credit_shard := Some (stored_credit_shard r)\<rparr>) db2"
    unfolding settle_txn_find(4) [OF ok r] Let_def c by simp
  show "settle_txn q db = (Inr y, db') \<Longrightarrow>
      typed_ok db' \<and> fst y = SETTLED \<and> res_find (sr_reservation_id q) db' = Some (settled_reservation q db r)"
    unfolding t by (rule k)
  show "rs_key_hash r = Some kh \<Longrightarrow> key_find kh (oint (rs_key_shard r)) db \<noteq> None \<Longrightarrow>
      \<exists>db'. settle_txn q db = (Inr (SETTLED, []), db')"
    unfolding t by (rule l)
qed

lemma settle_txn_ok:
  assumes ok: "typed_ok db" and a: "0 \<le> book_actual q" and s: "settle_txn q db = (Inr y, db')"
  shows "typed_ok db'"
proof (cases "res_find (sr_reservation_id q) db")
  case None
  then show ?thesis using settle_txn_find(1) [OF ok None] s ok by simp
next
  case (Some r)
  consider "outbox_guarded q db r" | "\<not> outbox_guarded q db r" "\<not> settle_claims q db r" | "settle_claims q db r" by blast
  then show ?thesis
  proof cases
    case 1
    then show ?thesis using settle_txn_find(2) [OF ok Some] s ok by simp
  next
    case 2
    then show ?thesis using settle_txn_find(3) [OF ok Some] s ok by simp
  next
    case 3
    then show ?thesis using settle_txn_claimed(1) [OF ok a Some 3 s] by simp
  qed
qed

lemma settle_atomic_ok:
  assumes ok: "typed_ok db" and a: "0 \<le> book_actual q"
  shows "typed_ok (snd (settle_atomic q db))"
  using ok settle_txn_ok [OF ok a]
  by (auto simp: settle_atomic_def run_in_transaction_def split: prod.splits sum.splits py_error.splits)

section \<open>The snapshot checks agree with the transaction\<close>

lemma no_pending_replay: "pending_replay scope db = EXHAUSTED \<Longrightarrow> Option.bind scope (\<lambda>s. read_reservation_by_idempotency s db) = None"
  by (simp add: pending_replay_def split: option.splits)

lemma below_max:
  fixes h :: int
  assumes "\<not> h \<le> Max (set (map f xs))" "x \<in> set xs"
  shows "f x < h"
  using assms(1) Max_ge [of "set (map f xs)" "f x"] assms(2) by (simp del: Max_ge)

lemma credit_exhausted_room:
  assumes ok: "all_credit_ok db" and e: "credit_exhaustion_precheck w h scope db = EXHAUSTED"
  shows "\<forall>r \<in> set (balance_rows w db). \<not> credit_room h r" "Option.bind scope (\<lambda>s. read_reservation_by_idempotency s db) = None"
proof -
  let ?rows = "balance_rows w db"
  have rows: "?rows \<noteq> []" and over: "\<not> list_ex cb_marked ?rows \<longrightarrow> \<not> h \<le> Max (set (map cb_headroom ?rows))" and replay: "pending_replay scope db = EXHAUSTED"
    using e by (auto simp: credit_exhaustion_precheck_def Let_def simp del: set_map split: if_splits)
  have "debt_ok w db" using ok rows by (simp add: all_credit_ok_def credit_ok_def)
  then have "(\<forall>r \<in> set ?rows. cb_marked r) \<or> \<not> list_ex cb_marked ?rows" by (auto simp: debt_ok_def list_ex_iff)
  then show "\<forall>r \<in> set ?rows. \<not> credit_room h r" using over below_max [of h cb_headroom ?rows] by (auto simp: credit_room_def not_le simp del: set_map)
  show "Option.bind scope (\<lambda>s. read_reservation_by_idempotency s db) = None" by (rule no_pending_replay [OF replay])
qed

lemma credit_scan_missed:
  assumes "credits_distinct db" "\<forall>r \<in> set (balance_rows w db). \<not> credit_room h r"
  shows "credit_scan armed w h cs db = (None, db)"
proof (induction cs)
  case (Cons c cs)
  have "\<not> credit_room h r" if "credit_find w c db = Some r" for r
    using that find_SomeD [OF that [unfolded credit_find_def]] assms(2) table_row [of r db w c] by (auto simp: row_at_place)
  then show ?case using Cons by (auto simp: credit_scan_Cons [OF assms(1)] simp del: credit_scan.simps(2) split: option.splits)
qed simp

lemma key_exhausted_rows:
  assumes "key_lifetime_cap_precheck kh e cand n scope db = EXHAUSTED" "0 \<le> i" "i < n"
  shows "\<exists>r. key_find kh i db = Some r \<and> \<not> key_room e (\<not> cand) r \<and> kl_limit r \<noteq> None \<and> (cand \<or> kl_include_byok r)"
    "Option.bind scope (\<lambda>s. read_reservation_by_idempotency s db) = None"
proof -
  let ?rows = "key_shard_rows kh n db"
  have shards: "map kl_shard ?rows = map int [0..<nat n]"
    and capped: "\<forall>r \<in> set ?rows. kl_limit r \<noteq> None \<and> (cand \<or> kl_include_byok r)"
    and over: "\<not> e \<le> Max (set (map (\<lambda>r. oint (kl_limit r) - key_spent r) ?rows))" and replay: "pending_replay scope db = EXHAUSTED"
    using assms(1) by (auto simp: key_lifetime_cap_precheck_def Let_def list_ex_iff simp del: set_map split: if_splits)
  have mem: "r \<in> set ?rows \<longleftrightarrow> r \<in> set (tr_key_limit db) \<and> kl_key_hash r = kh \<and> 0 \<le> kl_shard r \<and> kl_shard r < n" for r
    by (auto simp: key_shard_rows_def sql_select_def)
  have "i \<in> set (map int [0..<nat n])" using assms(2,3) by (auto intro!: image_eqI [of _ _ "nat i"])
  then obtain x where "x \<in> set ?rows" "kl_shard x = i" unfolding shards [symmetric] by auto
  then have "key_find kh i db \<noteq> None" using mem by (auto simp: key_find_def find_None_iff key_place_def)
  then obtain r where r: "key_find kh i db = Some r" by auto
  then have "r \<in> set ?rows" using key_findD [OF r] mem assms(2,3) by (simp add: key_place_def)
  then have "oint (kl_limit r) - key_spent r < e" "kl_limit r \<noteq> None \<and> (cand \<or> kl_include_byok r)"
    using below_max [OF over] capped by auto
  then show "\<exists>r. key_find kh i db = Some r \<and> \<not> key_room e (\<not> cand) r \<and> kl_limit r \<noteq> None \<and> (cand \<or> kl_include_byok r)"
    using r by (auto simp: key_room_def)
  show "Option.bind scope (\<lambda>s. read_reservation_by_idempotency s db) = None" by (rule no_pending_replay [OF replay])
qed

lemma key_scan_missed:
  assumes "keys_distinct db"
    "\<forall>i \<in> set cs. \<exists>r. key_find kh i db = Some r \<and> \<not> key_room e byok r \<and> kl_limit r \<noteq> None \<and> (\<not> byok \<or> kl_include_byok r)"
  shows "key_scan kh e byok saw cs db = (Inl (if saw \<or> cs \<noteq> [] then ''key_limit_exceeded'' else ''key_missing''), db)"
  using assms(2)
proof (induction cs arbitrary: saw)
  case (Cons c cs)
  from Cons.prems obtain r where "key_find kh c db = Some r" "\<not> key_room e byok r" "kl_limit r \<noteq> None" "\<not> byok \<or> kl_include_byok r"
    by auto
  then have "reserve_key kh e byok c db = (KEY_INSUFFICIENT, db)" by (auto simp: reserve_key_find [OF assms(1)])
  then show ?case using Cons by simp
qed simp


section \<open>Runs\<close>

datatype typed_call = Authorize authorize_request | Settle settle_request

fun typed_step :: "typed_call \<Rightarrow> 'a typed_db_scheme \<Rightarrow> 'a typed_db_scheme" where
  "typed_step (Authorize q) db = snd (authorize_atomic q db)"
| "typed_step (Settle q) db = snd (settle_atomic q db)"

fun typed_legal :: "typed_call \<Rightarrow> bool" where
  "typed_legal (Authorize q) = authorize_legal q"
| "typed_legal (Settle q) = (0 \<le> book_actual q)"

interpretation typed_runs: invariant_run typed_step "\<lambda>c _. typed_legal c" typed_ok
proof
  fix s :: "'a typed_db_scheme" and c
  assume "typed_ok s" "typed_legal c"
  then show "typed_ok (typed_step c s)" by (cases c) (simp_all add: authorize_atomic_ok settle_atomic_ok)
qed

text \<open>C4. After any sequence of authorizations (batched, sequential or strict, accepted, replayed or
  refused) and settlements, every credit row and key row reserves exactly the sum of the open holds
  recorded on it and the debt rules hold.  An open reservation whose claim is admitted and whose key
  row exists settles: its holds are released, its actual cost is recorded, and every further
  settlement of it is refused without a change.\<close>

theorem typed_settlement_exactly_once:
  fixes db :: typed_db
  assumes "typed_ok db" "\<forall>c \<in> set cs. typed_legal c"
  defines "s \<equiv> fold typed_step cs db"
  assumes r: "res_find (sr_reservation_id q) s = Some r" "settle_claims q s r" and a: "0 \<le> book_actual q"
    and kh: "rs_key_hash r = Some kh" "key_find kh (oint (rs_key_shard r)) s \<noteq> None"
  shows "typed_ok s \<and> (\<exists>s'. settle_atomic q s = (Inr (SETTLED, []), s') \<and> typed_ok s' \<and>
     (\<exists>r'. res_find (sr_reservation_id q) s' = Some r' \<and> rs_settled r' \<and> rs_actual r' = Some (book_actual q)) \<and>
     (\<forall>p. sr_reservation_id p = sr_reservation_id q \<longrightarrow>
        settle_atomic p s' = (Inr (ALREADY_SETTLED, []), s') \<or> settle_atomic p s' = (Inr (OUTBOX_GUARDED, []), s')))"
proof -
  have ok: "typed_ok s" unfolding s_def by (rule typed_runs.run_inv [OF assms(1) legal_run_const [OF assms(2)]])
  obtain s' where t: "settle_txn q s = (Inr (SETTLED, []), s')" using settle_txn_claimed(2) [OF ok a r kh] by blast
  note s' = t settle_txn_claimed(1) [OF ok a r t]
  have "settle_atomic q s = (Inr (SETTLED, []), s')" using s'(1) by (simp add: settle_atomic_def run_in_transaction_def)
  moreover have "settle_atomic p s' = (Inr (ALREADY_SETTLED, []), s') \<or> settle_atomic p s' = (Inr (OUTBOX_GUARDED, []), s')"
    if "sr_reservation_id p = sr_reservation_id q" for p
  proof -
    let ?r = "settled_reservation q s r"
    have closed: "rs_settled ?r" by (simp add: settled_reservation_def)
    have "settle_txn p s' = (Inr (ALREADY_SETTLED, []), s') \<or> settle_txn p s' = (Inr (OUTBOX_GUARDED, []), s')"
      using settle_txn_find(2,3) [OF conjunct1 [OF s'(2)], of p ?r] s'(2) closed that by (auto simp: settle_claims_def claim_admits_def)
    then show ?thesis by (auto simp: settle_atomic_def run_in_transaction_def)
  qed
  moreover have "rs_settled (settled_reservation q s r) \<and> rs_actual (settled_reservation q s r) = Some (book_actual q)"
    by (simp add: settled_reservation_def)
  ultimately show ?thesis using ok s' by blast
qed

definition demo_open_db :: typed_db where
  "demo_open_db = demo_typed_db\<lparr>tr_key_limit := [demo_key_row\<lparr>kl_reserved := 0\<rparr>]\<rparr>"

definition demo_settle :: settle_request where
  "demo_settle = \<lparr>sr_reservation_id = ''r'', sr_actual = 7, sr_usage_type = ''Credits'', sr_success = True, sr_guard_outbox = True,
     sr_outbox_available = True, sr_expires_before = None, sr_async_fence = True, sr_binding = None, sr_now = 9\<rparr>"

lemma demo_open_ok: "typed_ok demo_open_db"
proof (rule typed_okI)
  have other: "balance_rows w demo_open_db = []" if "w \<noteq> ''w''" for w
    using that by (simp add: balance_rows_def sql_select_def demo_open_db_def demo_typed_db_def demo_credit_row_def)
  have rows: "balance_rows ''w'' demo_open_db = [demo_credit_row 0 6, demo_credit_row 1 4]" by code_simp
  show "credits_distinct demo_open_db" "keys_distinct demo_open_db" "ids_distinct demo_open_db" by code_simp+
  have "credit_ok ''w'' 2 demo_open_db" 
    using demo_credit_ok credit_ok_cong [of demo_credit_db demo_open_db]
    by (simp add: demo_open_db_def demo_typed_db_def demo_credit_db_def)
  then show "all_credit_ok demo_open_db"
    unfolding all_credit_ok_def using other rows by (metis length_Cons list.size(3) One_nat_def Suc_1)
  have none: "tr_reservation demo_open_db = []" by (simp add: demo_open_db_def demo_typed_db_def)
  show "credit_exact demo_open_db"
    unfolding credit_exact_def
  proof (intro allI impI)
    fix w i assume "i < length (balance_rows w demo_open_db)"
    then show "cb_reserved (balance_rows w demo_open_db ! i) = credit_holds w (int i) demo_open_db"
      using other rows none by (cases "w = ''w''") (auto simp: credit_holds_def demo_credit_row_def less_Suc_eq)
  qed
  show "key_exact demo_open_db"
    unfolding key_exact_def key_holds_def none by (simp add: key_find_def demo_open_db_def)
  show "\<And>r. r \<in> set (tr_reservation demo_open_db) \<Longrightarrow> reservation_ok demo_open_db r" using none by simp
qed

theorem typed_settlement_exactly_once_witness:
  "let s = fold typed_step [Authorize demo_authorize] demo_open_db
   in typed_ok s \<and> (\<exists>s'. settle_atomic demo_settle s = (Inr (SETTLED, []), s') \<and> typed_ok s' \<and>
        settle_atomic (demo_settle\<lparr>sr_actual := 9\<rparr>) s' \<noteq> (Inr (SETTLED, []), s'))"
proof -
  let ?s = "fold typed_step [Authorize demo_authorize] demo_open_db"
  have legal: "\<forall>c \<in> set [Authorize demo_authorize]. typed_legal c" by code_simp
  have find: "res_find (sr_reservation_id demo_settle) ?s = Some (new_reservation demo_authorize 0 5 0 5)" by code_simp
  have claims: "settle_claims demo_settle ?s (new_reservation demo_authorize 0 5 0 5)" by code_simp
  have cost: "0 \<le> book_actual demo_settle" by code_simp
  have key: "rs_key_hash (new_reservation demo_authorize 0 5 0 5) = Some ''k''" by code_simp
  have "map_option kl_reserved (key_find ''k'' (oint (rs_key_shard (new_reservation demo_authorize 0 5 0 5))) ?s) = Some 5" by code_simp
  then have row: "key_find ''k'' (oint (rs_key_shard (new_reservation demo_authorize 0 5 0 5))) ?s \<noteq> None" by auto
  have same: "sr_reservation_id (demo_settle\<lparr>sr_actual := 9\<rparr>) = sr_reservation_id demo_settle" by simp
  show ?thesis
    using typed_settlement_exactly_once [OF demo_open_ok legal find claims cost key row] same unfolding Let_def by fastforce
qed


end
