(* ===== verification/Settle_Outbox.thy ===== *)
theory Settle_Outbox
  imports Typed_Authorize
begin

text \<open>
  The durable settlement outbox (\<open>storage_gcp_settle_outbox.py\<close>): intents that are recorded before a
  charge is applied and drained until it is.  An intent is inserted as a claim on its primary key
  \<open>(authorization_id, intent_kind)\<close>, leased by one worker at a time, and ends \<open>done\<close> or \<open>dead\<close>; refill work
  for the same settlement rides on the row with a lease of its own.  The retention deadlines of the
  authorization (\<open>storage_gcp_request_records.py\<close>) and of the reservation are cleared while an intent is
  outstanding.  Clock readings and the random owner tokens are arguments; the queue shard, a generated
  column of the database, is a parameter.

  The lemmas show that an outstanding intent keeps the records it needs, that a lease fences the intent
  against every other worker and every refreshed delivery, and that the one-commit settlement writes
  what enqueueing and resolving in two commits would.
\<close>

section \<open>Statements\<close>

definition stmt :: "('d \<Rightarrow> int \<times> 'd) \<Rightarrow> ('d, int) tx" where
  "stmt f db = (case f db of (n, db') \<Rightarrow> (Inr n, db'))"

definition outbox_at :: "string \<Rightarrow> string \<Rightarrow> outbox_row \<Rightarrow> bool" where
  "outbox_at aid kind r \<longleftrightarrow> ob_authorization_id r = aid \<and> ob_intent_kind r = kind"

definition update_outbox ::
    "(outbox_row \<Rightarrow> bool) \<Rightarrow> (outbox_row \<Rightarrow> outbox_row) \<Rightarrow> 'a typed_db_scheme \<Rightarrow> int \<times> 'a typed_db_scheme" where
  "update_outbox P f db = (case sql_update P f (tr_settle_outbox db) of (n, t) \<Rightarrow> (n, db\<lparr>tr_settle_outbox := t\<rparr>))"

definition update_authorizations ::
    "(authorization_row \<Rightarrow> bool) \<Rightarrow> (authorization_row \<Rightarrow> authorization_row) \<Rightarrow> 'a typed_db_scheme \<Rightarrow> int \<times> 'a typed_db_scheme" where
  "update_authorizations P f db =
     (case sql_update P f (tr_gateway_authorization db) of (n, t) \<Rightarrow> (n, db\<lparr>tr_gateway_authorization := t\<rparr>))"

definition authorization_at :: "string \<Rightarrow> authorization_row \<Rightarrow> bool" where
  "authorization_at aid a \<longleftrightarrow> ga_id (gr_authorization a) = aid"

definition clear_gateway_authorization_retention :: "string \<Rightarrow> 'a typed_db_scheme \<Rightarrow> int \<times> 'a typed_db_scheme" where
  "clear_gateway_authorization_retention aid =
     update_authorizations (\<lambda>a. authorization_at aid a \<and> gr_terminal_at a \<noteq> None) (\<lambda>a. a\<lparr>gr_terminal_at := None\<rparr>)"

definition complete_gateway_authorization_retention ::
    "string \<Rightarrow> instant \<Rightarrow> bool \<Rightarrow> 'a typed_db_scheme \<Rightarrow> int \<times> 'a typed_db_scheme" where
  "complete_gateway_authorization_retention aid terminal_at outbox_available db =
     update_authorizations (\<lambda>a. authorization_at aid a \<and> ga_settled (gr_authorization a) \<and> gr_terminal_at a = None \<and>
         (outbox_available \<longrightarrow> outbox_guards (Some aid) db = []))
       (\<lambda>a. a\<lparr>gr_terminal_at := Some terminal_at\<rparr>) db"

text \<open>\<open>if reservation_id:\<close> holds for a text that is not empty.\<close>

definition given :: "string option \<Rightarrow> bool" where
  "given x \<longleftrightarrow> x \<noteq> None \<and> x \<noteq> Some []"

definition defer_retention_tx :: "string \<Rightarrow> string option \<Rightarrow> 'a typed_db_scheme \<Rightarrow> 'a typed_db_scheme" where
  "defer_retention_tx aid rid db =
     (let db1 = snd (clear_gateway_authorization_retention aid db)
      in if given rid then snd (clear_reservation_retention (the rid) db1) else db1)"

text \<open>The retention of both records once an intent is done: cleared while the sibling intent is
  outstanding, armed when no intent of their authorization is.\<close>

definition sibling_outstanding :: "string \<Rightarrow> string \<Rightarrow> 'a typed_db_scheme \<Rightarrow> bool" where
  "sibling_outstanding aid kind db \<longleftrightarrow> list_ex (\<lambda>s. ob_intent_kind s \<noteq> kind) (outbox_guards (Some aid) db)"

definition done_authorization_statement :: "string \<Rightarrow> string \<Rightarrow> instant \<Rightarrow> 'a typed_db_scheme \<Rightarrow> int \<times> 'a typed_db_scheme" where
  "done_authorization_statement aid kind now db =
     (let sibling = sibling_outstanding aid kind db
      in update_authorizations (\<lambda>a. authorization_at aid a \<and>
             (if sibling then gr_terminal_at a \<noteq> None
              else ga_settled (gr_authorization a) \<and> gr_terminal_at a = None \<and>
                outbox_guards (Some (ga_id (gr_authorization a))) db = []))
           (\<lambda>a. a\<lparr>gr_terminal_at := if sibling then None else Some now\<rparr>) db)"

definition done_reservation_statement :: "string \<Rightarrow> string \<Rightarrow> string \<Rightarrow> instant \<Rightarrow> 'a typed_db_scheme \<Rightarrow> int \<times> 'a typed_db_scheme" where
  "done_reservation_statement aid kind rid now db =
     (let sibling = sibling_outstanding aid kind db
      in case sql_update (\<lambda>r. rs_reservation_id r = rid \<and>
             (if sibling then rs_terminal_at r \<noteq> None
              else rs_settled r \<and> rs_terminal_at r = None \<and> outbox_guards (rs_authorization_id r) db = []))
           (\<lambda>r. r\<lparr>rs_terminal_at := if sibling then None else Some now\<rparr>) (tr_reservation db) of
         (n, t) \<Rightarrow> (n, db\<lparr>tr_reservation := t\<rparr>))"

definition done_retention_statements ::
    "string \<Rightarrow> string \<Rightarrow> string option \<Rightarrow> instant \<Rightarrow> ('a typed_db_scheme, int) tx list" where
  "done_retention_statements aid kind rid now =
     stmt (done_authorization_statement aid kind now) #
       (if given rid then [stmt (done_reservation_statement aid kind (the rid) now)] else [])"

text \<open>A batch without a prefix check raises only what its statements raise.\<close>

definition run_batch :: "('d, int) tx list \<Rightarrow> int list list \<Rightarrow> ('d, unit) tx" where
  "run_batch statements counts db =
     (case execute_batch_dml (\<lambda>_. None) statements counts db of
        (Inl (Raised e), db') \<Rightarrow> (Inl e, db') | (Inl _, db') \<Rightarrow> (Inl FailedPrecondition, db') | (Inr x, db') \<Rightarrow> (Inr x, db'))"

definition resolve_done_retention_tx :: "string \<Rightarrow> string \<Rightarrow> string option \<Rightarrow> instant \<Rightarrow> ('a typed_db_scheme, unit) tx" where
  "resolve_done_retention_tx aid kind rid now =
     (let statements = done_retention_statements aid kind rid now
      in run_batch statements (replicate (length statements) [0, 1]))"

section \<open>Recording an intent\<close>

definition intent_refill :: "string option \<Rightarrow> instant \<Rightarrow> instant \<Rightarrow> refill_job" where
  "intent_refill ws now next_at =
     \<lparr>rj_workspace_id = ws, rj_status = (if ws \<noteq> None then Some ''pending'' else None), rj_attempts = 0, rj_last_error = None,
      rj_next_attempt_at = (if ws \<noteq> None then Some next_at else None), rj_lease_owner = None, rj_leased_until = None,
      rj_enqueued_at = (if ws \<noteq> None then Some now else None), rj_updated_at = (if ws \<noteq> None then Some now else None),
      rj_terminal_at = None\<rparr>"

definition intent_row :: "outbox_row \<Rightarrow> instant \<Rightarrow> instant \<Rightarrow> bool \<Rightarrow> bool \<Rightarrow> instant option \<Rightarrow> outbox_row" where
  "intent_row row now next_attempt_at resolved async_metadata refill_next =
     \<lparr>ob_authorization_id = ob_authorization_id row, ob_intent_kind = ob_intent_kind row,
      ob_frozen = (if resolved then (ob_frozen row)\<lparr>fi_settle_body := None\<rparr> else ob_frozen row),
      ob_status = (if resolved then ''done'' else ''pending''), ob_attempts = (if resolved then 1 else 0), ob_last_error = None,
      ob_next_attempt_at = (if resolved then None else Some next_attempt_at), ob_lease_owner = None, ob_leased_until = None,
      ob_created_at = now, ob_updated_at = Some now, ob_terminal_at = (if resolved then Some now else None),
      ob_async_version = (if async_metadata then Some 1 else None),
      ob_workspace_id = (if async_metadata then ob_workspace_id row else None),
      ob_snapshot_hash = (if async_metadata then ob_snapshot_hash row else None),
      ob_payload_hash = (if async_metadata then ob_payload_hash row else None),
      ob_refill = intent_refill (rj_workspace_id (ob_refill row)) now (case refill_next of None \<Rightarrow> next_attempt_at | Some t \<Rightarrow> t)\<rparr>"

definition intent_insert :: "outbox_row \<Rightarrow> ('a typed_db_scheme, int) tx" where
  "intent_insert r db =
     (if list_ex (outbox_at (ob_authorization_id r) (ob_intent_kind r)) (tr_settle_outbox db) then (Inl AlreadyExists, db)
      else (Inr 1, db\<lparr>tr_settle_outbox := tr_settle_outbox db @ [r]\<rparr>))"

definition intent_insert_statements ::
    "outbox_row \<Rightarrow> instant \<Rightarrow> instant \<Rightarrow> bool \<Rightarrow> bool \<Rightarrow> instant option \<Rightarrow> ('a typed_db_scheme, int) tx list" where
  "intent_insert_statements row now next_attempt_at resolved async_metadata refill_next =
     (let rid = fi_reservation_id (ob_frozen row)
      in [intent_insert (intent_row row now next_attempt_at resolved async_metadata refill_next),
          stmt (clear_gateway_authorization_retention (ob_authorization_id row))] @
         (if given rid then [stmt (clear_reservation_retention (the rid))] else []))"

definition intent_insert_counts :: "'s list \<Rightarrow> int list list" where
  "intent_insert_counts statements = [1] # replicate (length statements - 1) [0, 1]"

definition iso_after_seconds :: "instant \<Rightarrow> int \<Rightarrow> instant" where
  "iso_after_seconds now seconds = now + seconds * 1000000"

definition delayed :: "instant \<Rightarrow> int \<Rightarrow> instant" where
  "delayed now seconds = (if seconds > 0 then iso_after_seconds now seconds else now)"

definition resolved_intent_statements :: "outbox_row \<Rightarrow> int \<Rightarrow> instant \<Rightarrow> ('a typed_db_scheme, int) tx list result" where
  "resolved_intent_statements row initial_delay now =
     (if \<not> given (fi_reservation_id (ob_frozen row)) then Inl (ValueError ''a one-commit settle intent names its reservation'')
      else Inr (intent_insert_statements row now (delayed now initial_delay) True False None @
             done_retention_statements (ob_authorization_id row) (ob_intent_kind row) (fi_reservation_id (ob_frozen row)) now))"

definition insert_txn :: "outbox_row \<Rightarrow> instant \<Rightarrow> instant \<Rightarrow> instant option \<Rightarrow> ('a typed_db_scheme, unit) tx" where
  "insert_txn row now next_attempt_at refill_next =
     (let statements = intent_insert_statements row now next_attempt_at False False refill_next
      in run_batch statements (intent_insert_counts statements))"

text \<open>A refresh is fenced by an active lease, and by accepted async intents when the fence is on.\<close>

definition leasable :: "instant \<Rightarrow> instant option \<Rightarrow> bool" where
  "leasable now until = (case until of None \<Rightarrow> True | Some t \<Rightarrow> t < now)"

definition refreshed_refill :: "string option \<Rightarrow> instant \<Rightarrow> refill_job \<Rightarrow> refill_job" where
  "refreshed_refill ws now j =
     (let attach = (rj_status j = None \<and> ws \<noteq> None)
      in j\<lparr>rj_workspace_id := (case rj_workspace_id j of None \<Rightarrow> ws | x \<Rightarrow> x),
           rj_status := (if attach then Some ''pending'' else rj_status j),
           rj_next_attempt_at := (if attach then Some now else rj_next_attempt_at j),
           rj_enqueued_at := (if attach then Some now else rj_enqueued_at j),
           rj_updated_at := (if attach then Some now else rj_updated_at j)\<rparr>)"

definition refresh_txn :: "bool \<Rightarrow> outbox_row \<Rightarrow> instant \<Rightarrow> ('a typed_db_scheme, int) tx" where
  "refresh_txn async_fence row now db =
     (case update_outbox (\<lambda>r. outbox_at (ob_authorization_id row) (ob_intent_kind row) r \<and> ob_status r = ''pending'' \<and>
             (async_fence \<longrightarrow> ob_async_version r = None) \<and> leasable now (ob_leased_until r))
           (\<lambda>r. r\<lparr>ob_frozen := ob_frozen row, ob_refill := refreshed_refill (rj_workspace_id (ob_refill row)) now (ob_refill r),
              ob_updated_at := Some now\<rparr>) db of
        (n, db') \<Rightarrow> (Inr n, if n = 1 then defer_retention_tx (ob_authorization_id row) (fi_reservation_id (ob_frozen row)) db' else db'))"

definition get_intent :: "string \<Rightarrow> string \<Rightarrow> 'a typed_db_scheme \<Rightarrow> outbox_row option" where
  "get_intent aid kind db = List.find (outbox_at aid kind) (tr_settle_outbox db)"

definition has_intent :: "string \<Rightarrow> 'a typed_db_scheme \<Rightarrow> bool" where
  "has_intent aid db \<longleftrightarrow> outbox_guards (Some aid) db \<noteq> []"

definition enqueue :: "bool \<Rightarrow> outbox_row \<Rightarrow> int \<Rightarrow> bool \<Rightarrow> int option \<Rightarrow> instant \<Rightarrow> ('a typed_db_scheme, string) tx" where
  "enqueue async_fence row initial_delay preserve_existing refill_delay now db =
     (case run_in_transaction (insert_txn row now (delayed now initial_delay) (map_option (delayed now) refill_delay)) db of
        (Inr _, db1) \<Rightarrow> (Inr ''inserted'', db1)
      | (Inl e, db1) \<Rightarrow>
          (if e \<noteq> AlreadyExists then (Inl e, db1)
           else if preserve_existing then (Inr ''frozen'', db1)
           else case run_in_transaction (refresh_txn async_fence row now) db1 of
               (Inl e, db2) \<Rightarrow> (Inl e, db2)
             | (Inr n, db2) \<Rightarrow>
                 (if n = 1 then (Inr ''refreshed'', db2)
                  else (Inr (case get_intent (ob_authorization_id row) (ob_intent_kind row) db2 of None \<Rightarrow> ''terminal''
                        | Some r \<Rightarrow> if ob_status r = ''pending'' then ''leased'' else ''terminal''), db2))))"

section \<open>Leases\<close>

definition due :: "nat \<Rightarrow> bool \<Rightarrow> instant \<Rightarrow> 'a typed_db_scheme \<Rightarrow> outbox_row list" where
  "due limit legacy_only now db =
     take limit (sql_select (\<lambda>r. (case ob_next_attempt_at r of None \<Rightarrow> False | Some t \<Rightarrow> t \<le> now) \<and> ob_status r = ''pending'' \<and>
         (legacy_only \<longrightarrow> ob_async_version r = None)) (\<lambda>r. oint (ob_next_attempt_at r)) (tr_settle_outbox db))"

definition claim_one :: "outbox_row \<Rightarrow> string \<Rightarrow> instant \<Rightarrow> instant \<Rightarrow> 'a typed_db_scheme \<Rightarrow> bool \<times> 'a typed_db_scheme" where
  "claim_one row owner lease_until now db =
     (case update_outbox (\<lambda>r. outbox_at (ob_authorization_id row) (ob_intent_kind row) r \<and> ob_status r = ''pending'' \<and>
             leasable now (ob_leased_until r))
           (\<lambda>r. r\<lparr>ob_lease_owner := Some owner, ob_leased_until := Some lease_until, ob_updated_at := Some now\<rparr>) db of
        (n, db') \<Rightarrow> (n = 1, db'))"

definition leased :: "string \<Rightarrow> instant \<Rightarrow> outbox_row \<Rightarrow> outbox_row" where
  "leased owner lease_until r = r\<lparr>ob_lease_owner := Some owner, ob_leased_until := Some lease_until\<rparr>"

fun claim_loop ::
    "nat \<Rightarrow> string \<Rightarrow> instant \<Rightarrow> instant \<Rightarrow> outbox_row list \<Rightarrow> outbox_row list \<Rightarrow> 'a typed_db_scheme \<Rightarrow> outbox_row list \<times> 'a typed_db_scheme" where
  "claim_loop limit owner lease_until now won [] db = (won, db)"
| "claim_loop limit owner lease_until now won (c # cs) db =
     (if length won \<ge> limit then (won, db)
      else case claim_one c owner lease_until now db of
          (True, db') \<Rightarrow> claim_loop limit owner lease_until now (won @ [leased owner lease_until c]) cs db'
        | (False, db') \<Rightarrow> claim_loop limit owner lease_until now won cs db')"

definition claim_intents :: "nat \<Rightarrow> int \<Rightarrow> string \<Rightarrow> instant \<Rightarrow> 'a typed_db_scheme \<Rightarrow> outbox_row list \<times> 'a typed_db_scheme" where
  "claim_intents limit lease_seconds owner now db =
     claim_loop limit owner (iso_after_seconds now lease_seconds) now [] (due (limit * 2) True now db) db"

definition due_shard :: "(outbox_row \<Rightarrow> int) \<Rightarrow> int \<Rightarrow> bool \<Rightarrow> instant \<Rightarrow> 'a typed_db_scheme \<Rightarrow> outbox_row list" where
  "due_shard queue_shard shard async_only now db =
     take 2 (sql_select (\<lambda>r. queue_shard r = shard \<and> (case ob_next_attempt_at r of None \<Rightarrow> False | Some t \<Rightarrow> t \<le> now) \<and>
         ob_status r = ''pending'' \<and> leasable now (ob_leased_until r) \<and> (async_only \<longrightarrow> ob_async_version r \<noteq> None))
       (\<lambda>r. oint (ob_next_attempt_at r)) (tr_settle_outbox db))"

text \<open>Each candidate comes with the owner token drawn for it.\<close>

fun claim_candidates :: "(outbox_row \<times> string) list \<Rightarrow> int \<Rightarrow> instant \<Rightarrow> 'a typed_db_scheme \<Rightarrow> outbox_row list \<times> 'a typed_db_scheme" where
  "claim_candidates [] lease_seconds now db = ([], db)"
| "claim_candidates ((r, owner) # cs) lease_seconds now db =
     (case claim_one r owner (iso_after_seconds now lease_seconds) now db of
        (True, db') \<Rightarrow> ([leased owner (iso_after_seconds now lease_seconds) r], db')
      | (False, db') \<Rightarrow> claim_candidates cs lease_seconds now db')"

definition claim_shard ::
    "(outbox_row \<Rightarrow> int) \<Rightarrow> int \<Rightarrow> int \<Rightarrow> string list \<Rightarrow> instant \<Rightarrow> 'a typed_db_scheme \<Rightarrow> outbox_row list \<times> 'a typed_db_scheme" where
  "claim_shard queue_shard shard lease_seconds owners now db =
     claim_candidates (zip (due_shard queue_shard shard False now db) owners) lease_seconds now db"

definition release_claim :: "outbox_row \<Rightarrow> instant \<Rightarrow> 'a typed_db_scheme \<Rightarrow> bool \<times> 'a typed_db_scheme" where
  "release_claim row now db =
     (if \<not> given (ob_lease_owner row) then (False, db)
      else case update_outbox (\<lambda>r. outbox_at (ob_authorization_id row) (ob_intent_kind row) r \<and> ob_status r = ''pending'' \<and>
               ob_lease_owner r = ob_lease_owner row)
             (\<lambda>r. r\<lparr>ob_lease_owner := None, ob_leased_until := None, ob_updated_at := Some now\<rparr>) db of
           (n, db') \<Rightarrow> (n = 1, db'))"

section \<open>Resolution\<close>

definition backoff_seconds :: "int \<Rightarrow> int" where
  "backoff_seconds attempts = min 3600 (2 ^ nat (max (attempts - 1) 0))"

text \<open>The rows \<open>THEN RETURN\<close> lists are the rows that matched.\<close>

definition done_row :: "instant \<Rightarrow> outbox_row \<Rightarrow> outbox_row" where
  "done_row now r = r\<lparr>ob_status := ''done'', ob_attempts := ob_attempts r + 1, ob_last_error := None, ob_next_attempt_at := None,
     ob_lease_owner := None, ob_leased_until := None, ob_updated_at := Some now, ob_terminal_at := Some now,
     ob_frozen := (ob_frozen r)\<lparr>fi_settle_body := None\<rparr>\<rparr>"

definition done_matches :: "string \<Rightarrow> string \<Rightarrow> string option \<Rightarrow> outbox_row \<Rightarrow> bool" where
  "done_matches aid kind owner r \<longleftrightarrow> outbox_at aid kind r \<and> ob_status r = ''pending'' \<and> ob_lease_owner r = owner"

text \<open>The reservation of the row that became done, if one did.\<close>

definition mark_done_row :: "string \<Rightarrow> string \<Rightarrow> string option \<Rightarrow> instant \<Rightarrow> ('a typed_db_scheme, string option option) tx" where
  "mark_done_row aid kind owner now db =
     (let db' = snd (update_outbox (done_matches aid kind owner) (done_row now) db)
      in case filter (done_matches aid kind owner) (tr_settle_outbox db) of
           [] \<Rightarrow>
             (case get_intent aid kind db' of None \<Rightarrow> (Inr None, db')
              | Some r \<Rightarrow>
                 (if ob_status r \<noteq> ''pending'' then (Inr None, db')
                  else if ob_lease_owner r \<noteq> owner then (Inr None, db') else (Inl FailedPrecondition, db')))
         | [r] \<Rightarrow> (Inr (Some (fi_reservation_id (ob_frozen r))), db')
         | _ \<Rightarrow> (Inl FailedPrecondition, db'))"

definition mark_done_tx :: "string \<Rightarrow> string \<Rightarrow> string option \<Rightarrow> instant \<Rightarrow> ('a typed_db_scheme, bool) tx" where
  "mark_done_tx aid kind owner now db =
     (case mark_done_row aid kind owner now db of
        (Inl e, db1) \<Rightarrow> (Inl e, db1)
      | (Inr None, db1) \<Rightarrow> (Inr False, db1)
      | (Inr (Some rid), db1) \<Rightarrow>
          (case resolve_done_retention_tx aid kind rid now db1 of (Inl e, db2) \<Rightarrow> (Inl e, db2) | (Inr _, db2) \<Rightarrow> (Inr True, db2)))"

text \<open>The finalize commit collects the retention statements and batches them with its own.\<close>

definition mark_done_unleased_tx ::
    "string \<Rightarrow> string \<Rightarrow> instant \<Rightarrow> ('a typed_db_scheme, bool \<times> ('a typed_db_scheme, int) tx list) tx" where
  "mark_done_unleased_tx aid kind now db =
     (case mark_done_row aid kind None now db of
        (Inl e, db1) \<Rightarrow> (Inl e, db1)
      | (Inr None, db1) \<Rightarrow> (Inr (False, []), db1)
      | (Inr (Some rid), db1) \<Rightarrow> (Inr (True, done_retention_statements aid kind rid now), db1))"

definition speculative_done_statements :: "string \<Rightarrow> string \<Rightarrow> string \<Rightarrow> instant \<Rightarrow> ('a typed_db_scheme, int) tx list" where
  "speculative_done_statements aid kind rid now =
     stmt (update_outbox (\<lambda>r. done_matches aid kind None r \<and> fi_reservation_id (ob_frozen r) = Some rid) (done_row now)) #
       done_retention_statements aid kind (Some rid) now"

definition failure_text :: "string option \<Rightarrow> string \<Rightarrow> string option" where
  "failure_text error fallback = Some (take 1000 (if given error then the error else fallback))"

definition mark_txn ::
    "string \<Rightarrow> string \<Rightarrow> bool \<Rightarrow> string option \<Rightarrow> string option \<Rightarrow> int \<Rightarrow> bool \<Rightarrow> instant \<Rightarrow> ('a typed_db_scheme, string option) tx" where
  "mark_txn aid kind is_done error owner max_attempts force_dead now db =
     (if is_done
      then (case mark_done_tx aid kind owner now db of (Inl e, db1) \<Rightarrow> (Inl e, db1)
            | (Inr b, db1) \<Rightarrow> (Inr (if b then Some ''done'' else None), db1))
      else case filter (\<lambda>r. outbox_at aid kind r \<and> ob_status r = ''pending'') (tr_settle_outbox db) of
          [] \<Rightarrow> (Inr None, db)
        | r # _ \<Rightarrow>
            (if ob_lease_owner r \<noteq> owner then (Inr None, db)
             else let next_attempts = ob_attempts r + 1;
                      dead = (force_dead \<or> next_attempts \<ge> max_attempts);
                      status = (if dead then ''dead'' else ''pending'');
                      next_at = (if dead then None else Some (iso_after_seconds now (backoff_seconds next_attempts)))
                  in case update_outbox (done_matches aid kind owner)
                         (\<lambda>x. x\<lparr>ob_status := status, ob_attempts := next_attempts, ob_last_error := failure_text error ''drain failed'',
                            ob_next_attempt_at := next_at, ob_lease_owner := None, ob_leased_until := None,
                            ob_updated_at := Some now, ob_terminal_at := None\<rparr>) db of
                     (n, db1) \<Rightarrow>
                       (if n \<noteq> 1 then (Inr None, db1)
                        else (Inr (Some status), defer_retention_tx aid (fi_reservation_id (ob_frozen r)) db1))))"

definition mark ::
    "string \<Rightarrow> string \<Rightarrow> bool \<Rightarrow> string option \<Rightarrow> string option \<Rightarrow> int \<Rightarrow> bool \<Rightarrow> instant \<Rightarrow> ('a typed_db_scheme, string option) tx" where
  "mark aid kind is_done error owner max_attempts force_dead now =
     run_in_transaction (mark_txn aid kind is_done error owner max_attempts force_dead now)"

definition park :: "string \<Rightarrow> string \<Rightarrow> string option \<Rightarrow> int \<Rightarrow> string \<Rightarrow> instant \<Rightarrow> 'a typed_db_scheme \<Rightarrow> bool \<times> 'a typed_db_scheme" where
  "park aid kind owner retry_after note_text now db =
     (case filter (\<lambda>r. outbox_at aid kind r \<and> ob_status r = ''pending'') (tr_settle_outbox db) of
        [] \<Rightarrow> (False, db)
      | r # _ \<Rightarrow>
          (if ob_lease_owner r \<noteq> owner then (False, db)
           else case update_outbox (\<lambda>x. done_matches aid kind owner x \<and> ob_attempts x = ob_attempts r)
                  (\<lambda>x. x\<lparr>ob_status := ''pending'', ob_last_error := Some (take 1000 note_text),
                     ob_next_attempt_at := Some (iso_after_seconds now retry_after), ob_lease_owner := None, ob_leased_until := None,
                     ob_updated_at := Some now\<rparr>) db of
              (n, db1) \<Rightarrow>
                (if n \<noteq> 1 then (False, db1) else (True, defer_retention_tx aid (fi_reservation_id (ob_frozen r)) db1))))"

section \<open>Refill work\<close>

definition update_refill :: "string \<Rightarrow> (refill_job \<Rightarrow> bool) \<Rightarrow> (refill_job \<Rightarrow> refill_job) \<Rightarrow> 'a typed_db_scheme \<Rightarrow> int \<times> 'a typed_db_scheme" where
  "update_refill aid P f =
     update_outbox (\<lambda>r. outbox_at aid ''settle'' r \<and> P (ob_refill r)) (\<lambda>r. r\<lparr>ob_refill := f (ob_refill r)\<rparr>)"

definition get_auto_refill :: "string \<Rightarrow> 'a typed_db_scheme \<Rightarrow> refill_job option" where
  "get_auto_refill aid db =
     map_option ob_refill (List.find (\<lambda>r. outbox_at aid ''settle'' r \<and> rj_status (ob_refill r) \<noteq> None) (tr_settle_outbox db))"

definition attach_auto_refill :: "string \<Rightarrow> string \<Rightarrow> int \<Rightarrow> instant \<Rightarrow> 'a typed_db_scheme \<Rightarrow> bool \<times> 'a typed_db_scheme" where
  "attach_auto_refill aid ws initial_delay now db =
     (case update_refill aid (\<lambda>j. rj_status j = None)
           (\<lambda>_. intent_refill (Some ws) now (delayed now initial_delay)) db of
        (n, db') \<Rightarrow>
          (n = 1 \<or> (case get_auto_refill aid db' of None \<Rightarrow> False | Some j \<Rightarrow> rj_workspace_id j = Some ws), db'))"

definition due_auto_refills :: "nat \<Rightarrow> instant \<Rightarrow> 'a typed_db_scheme \<Rightarrow> outbox_row list" where
  "due_auto_refills limit now db =
     take limit (sql_select (\<lambda>r. (case rj_next_attempt_at (ob_refill r) of None \<Rightarrow> False | Some t \<Rightarrow> t \<le> now) \<and>
         rj_status (ob_refill r) = Some ''pending'') (\<lambda>r. oint (rj_next_attempt_at (ob_refill r))) (tr_settle_outbox db))"

definition claim_auto_refill_one :: "string \<Rightarrow> string \<Rightarrow> instant \<Rightarrow> instant \<Rightarrow> 'a typed_db_scheme \<Rightarrow> bool \<times> 'a typed_db_scheme" where
  "claim_auto_refill_one aid owner lease_until now db =
     (case update_refill aid (\<lambda>j. rj_status j = Some ''pending'' \<and> leasable now (rj_leased_until j))
           (\<lambda>j. j\<lparr>rj_lease_owner := Some owner, rj_leased_until := Some lease_until, rj_updated_at := Some now\<rparr>) db of
        (n, db') \<Rightarrow> (n = 1, db'))"

fun claim_refill_loop ::
    "nat \<Rightarrow> string \<Rightarrow> instant \<Rightarrow> instant \<Rightarrow> string list \<Rightarrow> outbox_row list \<Rightarrow> 'a typed_db_scheme \<Rightarrow> string list \<times> 'a typed_db_scheme" where
  "claim_refill_loop limit owner lease_until now won [] db = (won, db)"
| "claim_refill_loop limit owner lease_until now won (c # cs) db =
     (if length won \<ge> limit then (won, db)
      else case claim_auto_refill_one (ob_authorization_id c) owner lease_until now db of
          (True, db') \<Rightarrow> claim_refill_loop limit owner lease_until now (won @ [ob_authorization_id c]) cs db'
        | (False, db') \<Rightarrow> claim_refill_loop limit owner lease_until now won cs db')"

definition claim_auto_refills :: "nat \<Rightarrow> int \<Rightarrow> string \<Rightarrow> instant \<Rightarrow> 'a typed_db_scheme \<Rightarrow> string list \<times> 'a typed_db_scheme" where
  "claim_auto_refills limit lease_seconds owner now db =
     claim_refill_loop limit owner (iso_after_seconds now lease_seconds) now [] (due_auto_refills (limit * 2) now db) db"

definition resolve_auto_refill ::
    "string \<Rightarrow> string \<Rightarrow> bool \<Rightarrow> string option \<Rightarrow> int \<Rightarrow> bool \<Rightarrow> int \<Rightarrow> instant \<Rightarrow> 'a typed_db_scheme \<Rightarrow> string option \<times> 'a typed_db_scheme" where
  "resolve_auto_refill aid owner is_done error retry_after count_attempt max_attempts now db =
     (case filter (\<lambda>r. outbox_at aid ''settle'' r \<and> rj_status (ob_refill r) = Some ''pending'') (tr_settle_outbox db) of
        [] \<Rightarrow> (None, db)
      | r # _ \<Rightarrow>
          (if rj_lease_owner (ob_refill r) \<noteq> Some owner then (None, db)
           else let next_attempts = rj_attempts (ob_refill r) + (if count_attempt then 1 else 0);
                    dead = (\<not> is_done \<and> next_attempts \<ge> max_attempts);
                    status = (if is_done then ''done'' else if dead then ''dead'' else ''pending'');
                    next_at = (if is_done \<or> dead then None else Some (iso_after_seconds now (max 1 retry_after)));
                    err = (if is_done then None
                           else failure_text error (if dead then ''auto-refill drain failed'' else ''auto-refill retry''))
                in case update_refill aid (\<lambda>j. rj_status j = Some ''pending'' \<and> rj_lease_owner j = Some owner)
                       (\<lambda>j. j\<lparr>rj_status := Some status, rj_attempts := next_attempts, rj_last_error := err, rj_next_attempt_at := next_at,
                          rj_lease_owner := None, rj_leased_until := None, rj_updated_at := Some now,
                          rj_terminal_at := (if is_done then Some now else None)\<rparr>) db of
                   (n, db') \<Rightarrow> (if n = 1 then Some status else None, db')))"

definition auto_refill_pending_freshness :: "'a typed_db_scheme \<Rightarrow> instant option \<times> int" where
  "auto_refill_pending_freshness db =
     (let rows = filter (\<lambda>r. rj_next_attempt_at (ob_refill r) \<noteq> None \<and> rj_status (ob_refill r) = Some ''pending'') (tr_settle_outbox db);
          times = List.map_filter (\<lambda>r. rj_enqueued_at (ob_refill r)) rows
      in (if times = [] then None else Some (Min (set times)), int (length rows)))"

section \<open>What the statements leave alone\<close>

text \<open>A step is calm when it makes no intent outstanding and arms a deadline only where no intent is.\<close>

definition calm :: "'a typed_db_scheme \<Rightarrow> 'a typed_db_scheme \<Rightarrow> bool" where
  "calm db db' \<longleftrightarrow>
     (\<forall>aid. has_intent aid db' \<longrightarrow> has_intent aid db) \<and>
     (\<forall>a \<in> set (tr_gateway_authorization db'). gr_terminal_at a \<noteq> None \<longrightarrow>
        (\<exists>b \<in> set (tr_gateway_authorization db). ga_id (gr_authorization b) = ga_id (gr_authorization a) \<and> gr_terminal_at b \<noteq> None) \<or>
        \<not> has_intent (ga_id (gr_authorization a)) db') \<and>
     (\<forall>r \<in> set (tr_reservation db'). rs_terminal_at r \<noteq> None \<longrightarrow>
        (\<exists>b \<in> set (tr_reservation db). rs_authorization_id b = rs_authorization_id r \<and> rs_terminal_at b \<noteq> None) \<or>
        outbox_guards (rs_authorization_id r) db' = [])"

definition rests :: "string \<Rightarrow> 'a typed_db_scheme \<Rightarrow> bool" where
  "rests aid db \<longleftrightarrow>
     (\<forall>a \<in> set (tr_gateway_authorization db). authorization_at aid a \<longrightarrow> gr_terminal_at a = None) \<and>
     (\<forall>r \<in> set (tr_reservation db). rs_authorization_id r = Some aid \<longrightarrow> rs_terminal_at r = None)"

definition retained :: "'a typed_db_scheme \<Rightarrow> bool" where
  "retained db \<longleftrightarrow> (\<forall>aid. has_intent aid db \<longrightarrow> rests aid db)"

lemma guards_none [simp]: "outbox_guards None db = []"
  by (simp add: outbox_guards_def)

lemma calm_refl [simp]: "calm db db"
  by (auto simp: calm_def)

lemma calm_trans [trans]: "calm a b \<Longrightarrow> calm b c \<Longrightarrow> calm a c"
  unfolding calm_def has_intent_def by (metis guards_none option.exhaust)

lemma calm_rests: "calm db db' \<Longrightarrow> has_intent aid db' \<Longrightarrow> rests aid db \<Longrightarrow> rests aid db'"
  unfolding calm_def rests_def authorization_at_def has_intent_def by metis

lemma calm_retained: "calm db db' \<Longrightarrow> retained db \<Longrightarrow> retained db'"
  unfolding retained_def using calm_rests by (metis calm_def)

text \<open>A step is quiet when it is calm and does not touch the outbox.\<close>

definition quiet :: "'a typed_db_scheme \<Rightarrow> 'a typed_db_scheme \<Rightarrow> bool" where
  "quiet db db' \<longleftrightarrow> calm db db' \<and> tr_settle_outbox db' = tr_settle_outbox db"

lemma quiet_refl [simp]: "quiet db db"
  by (simp add: quiet_def)

lemma quiet_trans [trans]: "quiet a b \<Longrightarrow> quiet b c \<Longrightarrow> quiet a c"
  unfolding quiet_def using calm_trans by metis

lemma quiet_calm: "quiet db db' \<Longrightarrow> calm db db'"
  by (simp add: quiet_def)

lemma quiet_frame:
  assumes "tr_settle_outbox db' = tr_settle_outbox db" "tr_gateway_authorization db' = tr_gateway_authorization db"
    "tr_reservation db' = tr_reservation db"
  shows "quiet db db'"
  using assms by (auto simp: quiet_def calm_def has_intent_def outbox_guards_def)

lemma update_outbox_tables [simp]:
  "tr_settle_outbox (snd (update_outbox P f db)) = map (\<lambda>r. if P r then f r else r) (tr_settle_outbox db)"
  "tr_gateway_authorization (snd (update_outbox P f db)) = tr_gateway_authorization db"
  "tr_reservation (snd (update_outbox P f db)) = tr_reservation db"
  "fst (update_outbox P f db) = int (length (filter P (tr_settle_outbox db)))"
  by (simp_all add: update_outbox_def sql_update_def)

lemma update_authorizations_tables [simp]:
  "tr_settle_outbox (snd (update_authorizations P f db)) = tr_settle_outbox db"
  "tr_gateway_authorization (snd (update_authorizations P f db)) = map (\<lambda>r. if P r then f r else r) (tr_gateway_authorization db)"
  "tr_reservation (snd (update_authorizations P f db)) = tr_reservation db"
  "fst (update_authorizations P f db) = int (length (filter P (tr_gateway_authorization db)))"
  by (simp_all add: update_authorizations_def sql_update_def)

definition keeps_intent :: "(outbox_row \<Rightarrow> outbox_row) \<Rightarrow> bool" where
  "keeps_intent f \<longleftrightarrow> (\<forall>r. ob_authorization_id (f r) = ob_authorization_id r \<and> ob_intent_kind (f r) = ob_intent_kind r)"

lemma calm_update_outbox:
  assumes "keeps_intent f" "\<And>r. P r \<Longrightarrow> ob_status (f r) \<in> set GUARD_STATUSES \<Longrightarrow> ob_status r \<in> set GUARD_STATUSES"
  shows "calm db (snd (update_outbox P f db))"
proof -
  have "has_intent aid (snd (update_outbox P f db)) \<Longrightarrow> has_intent aid db" for aid
    using assms by (auto simp: has_intent_def outbox_guards_def keeps_intent_def filter_empty_conv split: if_splits)
  then show ?thesis by (auto simp: calm_def)
qed

lemma quiet_update_authorizations:
  assumes "\<And>a. ga_id (gr_authorization (f a)) = ga_id (gr_authorization a)"
    "\<And>a. P a \<Longrightarrow> gr_terminal_at (f a) \<noteq> None \<Longrightarrow> \<not> has_intent (ga_id (gr_authorization a)) db"
  shows "quiet db (snd (update_authorizations P f db))"
proof -
  have "has_intent aid (snd (update_authorizations P f db)) = has_intent aid db" for aid
    by (simp add: has_intent_def outbox_guards_def)
  then show ?thesis using assms by (auto simp: quiet_def calm_def split: if_splits)
qed

definition update_reservations ::
    "(reservation_row \<Rightarrow> bool) \<Rightarrow> (reservation_row \<Rightarrow> reservation_row) \<Rightarrow> 'a typed_db_scheme \<Rightarrow> int \<times> 'a typed_db_scheme" where
  "update_reservations P f db = (case sql_update P f (tr_reservation db) of (n, t) \<Rightarrow> (n, db\<lparr>tr_reservation := t\<rparr>))"

lemma update_reservations_tables [simp]:
  "tr_settle_outbox (snd (update_reservations P f db)) = tr_settle_outbox db"
  "tr_gateway_authorization (snd (update_reservations P f db)) = tr_gateway_authorization db"
  "tr_reservation (snd (update_reservations P f db)) = map (\<lambda>r. if P r then f r else r) (tr_reservation db)"
  "fst (update_reservations P f db) = int (length (filter P (tr_reservation db)))"
  by (simp_all add: update_reservations_def sql_update_def)

lemma quiet_update_reservations:
  assumes "\<And>r. rs_authorization_id (f r) = rs_authorization_id r"
    "\<And>r. P r \<Longrightarrow> rs_terminal_at (f r) \<noteq> None \<Longrightarrow> outbox_guards (rs_authorization_id r) db = []"
  shows "quiet db (snd (update_reservations P f db))"
proof -
  have "outbox_guards aid (snd (update_reservations P f db)) = outbox_guards aid db" for aid
    by (simp add: outbox_guards_def)
  then show ?thesis using assms by (auto simp: quiet_def calm_def has_intent_def split: if_splits)
qed

lemma reservation_updates:
  "clear_reservation_retention rid = update_reservations (\<lambda>r. rs_reservation_id r = rid \<and> rs_terminal_at r \<noteq> None) (\<lambda>r. r\<lparr>rs_terminal_at := None\<rparr>)"
  "complete_reservation_retention rid t guarded db =
     update_reservations (\<lambda>r. rs_reservation_id r = rid \<and> rs_settled r \<and> rs_terminal_at r = None \<and>
             (guarded \<longrightarrow> outbox_guards (rs_authorization_id r) db = [])) (\<lambda>r. r\<lparr>rs_terminal_at := Some t\<rparr>) db"
  "done_reservation_statement aid kind rid now db =
     update_reservations (\<lambda>r. rs_reservation_id r = rid \<and>
             (if sibling_outstanding aid kind db then rs_terminal_at r \<noteq> None
              else rs_settled r \<and> rs_terminal_at r = None \<and> outbox_guards (rs_authorization_id r) db = []))
           (\<lambda>r. r\<lparr>rs_terminal_at := if sibling_outstanding aid kind db then None else Some now\<rparr>) db"
  by (auto simp: fun_eq_iff clear_reservation_retention_def complete_reservation_retention_def done_reservation_statement_def
      update_reservations_def Let_def)

lemma quiet_clear [simp]:
  "quiet db (snd (clear_gateway_authorization_retention aid db))" "quiet db (snd (clear_reservation_retention rid db))"
  unfolding clear_gateway_authorization_retention_def reservation_updates
  by (rule quiet_update_authorizations quiet_update_reservations; simp)+

lemma quiet_defer [simp]: "quiet db (defer_retention_tx aid rid db)"
  unfolding defer_retention_tx_def Let_def using quiet_trans [OF quiet_clear(1) quiet_clear(2)] by auto

lemma quiet_complete:
  "quiet db (snd (complete_gateway_authorization_retention aid t True db))" "quiet db (snd (complete_reservation_retention rid t True db))"
  unfolding complete_gateway_authorization_retention_def reservation_updates
  by (rule quiet_update_authorizations quiet_update_reservations; simp add: has_intent_def authorization_at_def)+

lemma quiet_done:
  "quiet db (snd (done_authorization_statement aid kind now db))" "quiet db (snd (done_reservation_statement aid kind rid now db))"
  unfolding done_authorization_statement_def reservation_updates Let_def
  by (rule quiet_update_authorizations quiet_update_reservations; simp add: has_intent_def split: if_splits)+

section \<open>Batches and transactions\<close>

lemma stmt_simps [simp]: "snd (stmt f db) = snd (f db)" "stmt f db = (Inr (fst (f db)), snd (f db))"
  by (simp_all add: stmt_def split: prod.splits)

text \<open>A relation between stores that every statement respects is respected by batches and
  transactions of them.\<close>

locale step_order =
  fixes rel :: "'d \<Rightarrow> 'd \<Rightarrow> bool"
  assumes refl_step: "rel db db"
    and trans_step: "rel a b \<Longrightarrow> rel b c \<Longrightarrow> rel a c"
begin

lemma batch_rel: "\<forall>st \<in> set sts. \<forall>db. rel db (snd (st db)) \<Longrightarrow> rel db (snd (batch_update sts db))"
proof (induction sts arbitrary: db)
  case (Cons st sts)
  obtain x db1 where st: "st db = (x, db1)" by fastforce
  have c: "rel db db1" using Cons.prems st by (metis list.set_intros(1) snd_conv)
  show ?case
  proof (cases x)
    case (Inr n)
    have "rel db1 (snd (batch_update sts db1))" using Cons by simp
    then show ?thesis using st Inr trans_step [OF c] by (auto split: prod.splits)
  qed (use st c in auto)
qed (simp add: refl_step)

lemma execute_batch_rel: "\<forall>st \<in> set sts. \<forall>db. rel db (snd (st db)) \<Longrightarrow> rel db (snd (execute_batch_dml check sts counts db))"
  using batch_rel [of sts db] refl_step by (auto simp: execute_batch_dml_def split: prod.splits)

lemma run_batch_rel: "\<forall>st \<in> set sts. \<forall>db. rel db (snd (st db)) \<Longrightarrow> rel db (snd (run_batch sts counts db))"
  using execute_batch_rel [of sts db "\<lambda>_. None" counts]
  by (auto simp: run_batch_def split: prod.splits sum.splits authorize_error.splits)

lemma run_in_transaction_rel: "rel db (snd (txn db)) \<Longrightarrow> rel db (snd (run_in_transaction txn db))"
  using refl_step by (auto simp: run_in_transaction_def split: prod.splits sum.splits)

lemma run_transaction_rel: "rel db (snd (txn db)) \<Longrightarrow> rel db (snd (run_transaction txn db))"
  using refl_step by (auto simp: run_transaction_def split: prod.splits sum.splits)

end

interpretation calm_order: step_order calm
  by unfold_locales (simp, rule calm_trans)

interpretation quiet_order: step_order quiet
  by unfold_locales (simp, rule quiet_trans)

lemma quiet_resolve_done: "quiet db (snd (resolve_done_retention_tx aid kind rid now db))"
  unfolding resolve_done_retention_tx_def Let_def
  by (rule quiet_order.run_batch_rel) (auto simp: done_retention_statements_def quiet_done)

section \<open>Every call keeps the records of outstanding intents\<close>

lemma pending_guarded [simp]: "''pending'' \<in> set GUARD_STATUSES" "''dead'' \<in> set GUARD_STATUSES" "''done'' \<notin> set GUARD_STATUSES"
  by (simp_all add: GUARD_STATUSES_def)

lemma calm_pending_update:
  assumes "keeps_intent f" "\<And>r. P r \<Longrightarrow> ob_status r = ''pending''"
  shows "calm db (snd (update_outbox P f db))"
  using assms by (intro calm_update_outbox) auto

lemma calm_leases:
  "calm db (snd (claim_one row owner until now db))" "calm db (snd (release_claim row now db))"
  using calm_pending_update [of "\<lambda>r. r\<lparr>ob_lease_owner := Some owner, ob_leased_until := Some until, ob_updated_at := Some now\<rparr>"
      "\<lambda>r. outbox_at (ob_authorization_id row) (ob_intent_kind row) r \<and> ob_status r = ''pending'' \<and> leasable now (ob_leased_until r)" db]
    calm_pending_update [of "\<lambda>r. r\<lparr>ob_lease_owner := None, ob_leased_until := None, ob_updated_at := Some now\<rparr>"
      "\<lambda>r. outbox_at (ob_authorization_id row) (ob_intent_kind row) r \<and> ob_status r = ''pending'' \<and> ob_lease_owner r = ob_lease_owner row" db]
  by (auto simp: claim_one_def release_claim_def keeps_intent_def split: prod.splits)

lemma calm_refill:
  assumes "update_refill aid P f db = (n, db')"
  shows "calm db db'"
proof -
  have "calm db (snd (update_refill aid P f db))"
    unfolding update_refill_def by (rule calm_update_outbox) (simp_all add: keeps_intent_def)
  then show ?thesis using assms by simp
qed

lemma calm_refills:
  "calm db (snd (attach_auto_refill aid ws delay now db))" "calm db (snd (claim_auto_refill_one aid owner until now db))"
  "calm db (snd (resolve_auto_refill aid owner is_done error retry count m now db))"
  by (auto simp: attach_auto_refill_def claim_auto_refill_one_def resolve_auto_refill_def Let_def intro: calm_refill
      split: prod.splits list.splits)

lemma done_row_keeps [simp]: "keeps_intent (done_row now)"
  by (simp add: keeps_intent_def done_row_def)

lemma calm_mark_done_row: "calm db (snd (mark_done_row aid kind owner now db))"
proof -
  have "calm db (snd (update_outbox (done_matches aid kind owner) (done_row now) db))"
    by (rule calm_pending_update) (simp_all add: done_matches_def)
  then show ?thesis by (auto simp: mark_done_row_def Let_def split: list.splits option.splits)
qed

lemma calm_mark_done_tx: "calm db (snd (mark_done_tx aid kind owner now db))"
proof -
  obtain x db1 where row: "mark_done_row aid kind owner now db = (x, db1)" by fastforce
  then have c: "calm db db1" using calm_mark_done_row by (metis snd_conv)
  show ?thesis
  proof (cases "\<exists>rid. x = Inr (Some rid)")
    case True
    then obtain rid where "x = Inr (Some rid)" by blast
    then show ?thesis
      using row calm_trans [OF c quiet_calm [OF quiet_resolve_done]] by (auto simp: mark_done_tx_def split: prod.splits sum.splits) (metis snd_conv)+
  qed (use row c in \<open>auto simp: mark_done_tx_def split: sum.splits option.splits\<close>)
qed

lemma calm_update_then_defer:
  assumes "update_outbox P f db = (n, db1)" "keeps_intent f" "\<And>r. P r \<Longrightarrow> ob_status r = ''pending''"
  shows "calm db db1" "calm db (defer_retention_tx aid rid db1)"
proof -
  have "calm db (snd (update_outbox P f db))" by (rule calm_pending_update [OF assms(2)]) (rule assms(3))
  then show c: "calm db db1" using assms(1) by simp
  show "calm db (defer_retention_tx aid rid db1)" by (rule calm_trans [OF c quiet_calm [OF quiet_defer]])
qed

lemma calm_mark: "calm db (snd (mark aid kind is_done error owner m force now db))"
  unfolding mark_def
proof (rule calm_order.run_in_transaction_rel, cases is_done)
  case True
  then show "calm db (snd (mark_txn aid kind is_done error owner m force now db))"
    using calm_mark_done_tx [of db aid kind owner now] by (auto simp: mark_txn_def split: prod.splits sum.splits)
next
  case False
  then show "calm db (snd (mark_txn aid kind is_done error owner m force now db))"
    by (auto simp: mark_txn_def Let_def keeps_intent_def done_matches_def intro: calm_update_then_defer split: list.splits prod.splits)
qed

lemma calm_park: "calm db (snd (park aid kind owner retry note_text now db))"
  by (auto simp: park_def keeps_intent_def done_matches_def intro: calm_update_then_defer split: list.splits prod.splits)

lemma calm_refresh: "calm db (snd (refresh_txn fence row now db))"
  by (auto simp: refresh_txn_def keeps_intent_def intro: calm_update_then_defer split: prod.splits)

lemma insert_retained:
  assumes ok: "retained db" and "insert_txn row now t refill db = (Inr x, db')"
    and named: "\<forall>r \<in> set (tr_reservation db). rs_authorization_id r = Some (ob_authorization_id row) \<longrightarrow>
      given (fi_reservation_id (ob_frozen row)) \<and> fi_reservation_id (ob_frozen row) = Some (rs_reservation_id r)"
  shows "retained db'"
proof -
  let ?aid = "ob_authorization_id row" and ?rid = "fi_reservation_id (ob_frozen row)"
  let ?db1 = "db\<lparr>tr_settle_outbox := tr_settle_outbox db @ [intent_row row now t False False refill]\<rparr>"
  let ?db2 = "snd (clear_gateway_authorization_retention ?aid ?db1)"
  have db': "db' = (if given ?rid then snd (clear_reservation_retention (the ?rid) ?db2) else ?db2)"
    using assms(2)
    by (auto simp: insert_txn_def intent_insert_statements_def intent_insert_def run_batch_def execute_batch_dml_def Let_def
        split: if_splits sum.splits authorize_error.splits option.splits)
  have calm: "calm ?db1 db'"
    unfolding db' using quiet_trans [OF quiet_clear(1) quiet_clear(2)] by (auto intro: quiet_calm)
  have auths: "gr_terminal_at a = None" if "a \<in> set (tr_gateway_authorization db')" "authorization_at ?aid a" for a
    using that unfolding db' clear_gateway_authorization_retention_def reservation_updates
    by (auto simp: authorization_at_def split: if_splits)
  have ress: "rs_terminal_at r = None" if r: "r \<in> set (tr_reservation db')" "rs_authorization_id r = Some ?aid" for r
  proof (cases "given ?rid")
    case True
    then have "tr_reservation db' = map (\<lambda>r. if rs_reservation_id r = the ?rid \<and> rs_terminal_at r \<noteq> None then r\<lparr>rs_terminal_at := None\<rparr> else r)
        (tr_reservation db)"
      by (simp add: db' clear_gateway_authorization_retention_def reservation_updates)
    then obtain x where x: "x \<in> set (tr_reservation db)"
        "r = (if rs_reservation_id x = the ?rid \<and> rs_terminal_at x \<noteq> None then x\<lparr>rs_terminal_at := None\<rparr> else x)" using r(1) by auto
    then have "?rid = Some (rs_reservation_id x)" using named r(2) by (auto split: if_splits)
    then show ?thesis using x(2) by auto
  next
    case False
    then have "tr_reservation db' = tr_reservation db" by (simp add: db' clear_gateway_authorization_retention_def)
    then show ?thesis using named r False by auto
  qed
  have other: "has_intent aid db' \<Longrightarrow> aid \<noteq> ?aid \<Longrightarrow> has_intent aid db" for aid
    using calm by (auto simp: calm_def has_intent_def outbox_guards_def intent_row_def)
  show ?thesis
    unfolding retained_def
  proof (intro allI impI)
    fix aid assume intent: "has_intent aid db'"
    show "rests aid db'"
    proof (cases "aid = ?aid")
      case True
      then show ?thesis using auths ress by (simp add: rests_def)
    next
      case False
      then have "rests aid db" using ok other [OF intent] by (simp add: retained_def)
      then have "rests aid ?db1" by (simp add: rests_def)
      then show ?thesis by (rule calm_rests [OF calm intent])
    qed
  qed
qed

lemma enqueue_retained:
  assumes ok: "retained db"
    and "\<forall>r \<in> set (tr_reservation db). rs_authorization_id r = Some (ob_authorization_id row) \<longrightarrow>
      given (fi_reservation_id (ob_frozen row)) \<and> fi_reservation_id (ob_frozen row) = Some (rs_reservation_id r)"
  shows "retained (snd (enqueue fence row delay keep refill now db))"
proof -
  have "retained (snd (run_in_transaction (refresh_txn fence row now) db))"
    by (rule calm_retained [OF calm_order.run_in_transaction_rel ok]) (rule calm_refresh)
  then show ?thesis
    using ok insert_retained [OF ok _ assms(2), of now]
    by (auto simp: enqueue_def run_in_transaction_def split: prod.splits sum.splits if_splits)
qed

section \<open>The transactions of the request path\<close>

lemma framed_quiet: "credit_frame db db' \<Longrightarrow> quiet (db :: 'a typed_db_scheme) db'"
  by (rule quiet_frame) (cases db; cases db'; simp add: credit_frame_def)+

lemma update_keys_quiet: "update_keys P f db = (n, db') \<Longrightarrow> quiet db db'"
  by (rule quiet_frame) (auto simp: update_keys_def sql_update_def)

lemma release_key_quiet: "release_key kh hold actual byok floors shard db = (n, db') \<Longrightarrow> quiet db db'"
  by (auto simp: release_key_def release_key_statement_def Let_def split: prod.splits if_splits
      dest!: update_keys_quiet intro: quiet_trans)

lemma claim_quiet:
  assumes "co_outbox_available c" "co_terminal_at c \<noteq> None" "claim_reservation c rid actual ut db = (won, db')"
  shows "quiet db db'"
proof -
  let ?P = "\<lambda>r. rs_reservation_id r = rid \<and> \<not> rs_settled r \<and>
      (co_async_fence c \<longrightarrow> \<not> fenced (co_binding c) actual (rs_authorization_id r) db) \<and>
      (case co_expires_before c of None \<Rightarrow> True | Some t \<Rightarrow> rs_expires_at r < t)"
  let ?f = "\<lambda>r. r\<lparr>rs_settled := True, rs_actual := Some actual, rs_settled_usage_type := Some ut,
      rs_terminal_at := (if outbox_guards (rs_authorization_id r) db \<noteq> [] then None else co_terminal_at c)\<rparr>"
  have "quiet db (snd (update_reservations ?P ?f db))"
    by (rule quiet_update_reservations) (simp_all split: if_splits)
  moreover have "snd (update_reservations ?P ?f db) = db'"
    using assms by (auto simp: claim_reservation_def update_reservations_def Let_def split: prod.splits)
  ultimately show ?thesis by simp
qed

lemma settle_credit_quiet: "settle_credit q res db = (x, db') \<Longrightarrow> quiet (db :: 'a typed_db_scheme) db'"
  by (auto simp: settle_credit_def split: if_splits prod.splits sum.splits dest!: release_credit_framed intro: framed_quiet)

lemma settle_key_quiet: "settle_key q res db = (x, db') \<Longrightarrow> quiet db db'"
  by (auto simp: settle_key_def release_key_or_skip_deleted_def Let_def split: if_splits prod.splits sum.splits
      dest!: release_key_quiet intro: quiet_trans)

lemma settle_quiet:
  fixes db :: "'a typed_db_scheme"
  assumes "sr_outbox_available q"
  shows "quiet db (snd (settle_atomic q db))"
proof -
  have txn: "quiet db db'" if "settle_txn q db = (x, db')" for x db'
  proof -
    have claim: "quiet db d" if "claim_reservation (settle_claim_options q) (sr_reservation_id q) (book_actual q) (sr_usage_type q) db = (b, d)" for b d
      by (rule claim_quiet [OF _ _ that]) (simp_all add: settle_claim_options_def assms)
    show ?thesis
      using that unfolding settle_txn_def
      by (auto split: option.splits if_splits prod.splits bool.splits sum.splits
          dest!: claim settle_credit_quiet settle_key_quiet intro: quiet_trans)
  qed
  then show ?thesis
    by (auto simp: settle_atomic_def run_in_transaction_def split: prod.splits sum.splits py_error.splits)
qed

lemma credit_scan_quiet: "quiet (db :: 'a typed_db_scheme) (snd (credit_scan armed w h cs db))"
proof (induction cs arbitrary: db)
  case (Cons c cs)
  have "quiet db db'" if "reserve_credit w h c db = (b, db')" for b db'
    using that by (intro quiet_frame) (auto simp: reserve_credit_def update_credits_def sql_update_def)
  moreover have "quiet db db'" if "reserve_credit_with_pause w h c db = (b, db')" for b db'
    using that by (intro quiet_frame) (auto simp: reserve_credit_with_pause_def Let_def update_credits_def sql_update_def)
  ultimately show ?case using Cons quiet_trans by (auto split: prod.splits) blast+
qed simp

lemma take_credit_quiet: "take_credit q b db = (x, db') \<Longrightarrow> quiet (db :: 'a typed_db_scheme) db'"
  using credit_scan_quiet [of db "aq_armed q" "aq_workspace_id q" "credit_hold_amount q" "shard_candidates q"]
  by (auto simp: take_credit_def split: if_splits prod.splits option.splits)

lemma key_scan_quiet: "quiet db (snd (key_scan kh e byok saw cs db))"
proof (induction cs arbitrary: saw db)
  case (Cons c cs)
  have "quiet db db'" if "reserve_key kh e byok c db = (k, db')" for k db'
    using that by (auto simp: reserve_key_def reserve_key_statement_def split: prod.splits if_splits dest!: update_keys_quiet)
  then show ?case using Cons quiet_trans by (auto split: prod.splits key_reserve.splits) blast+
qed simp

lemma take_key_quiet: "take_key q s db = (x, db') \<Longrightarrow> quiet db db'"
  using key_scan_quiet [of db "aq_key_hash q" "aq_estimate q" "\<not> aq_has_credit_candidate q" False "aq_key_shard_candidates q"]
  by (auto simp: take_key_def Let_def reserve_strict_key_def strict_statement_def
      split: if_splits prod.splits sum.splits key_reserve.splits list.splits option.splits dest!: update_keys_quiet)

lemma authorization_statement_quiet:
  fixes db :: "'a typed_db_scheme"
  assumes "authorization_statement q = Inr st"
  shows "quiet db (snd (st db))"
proof -
  have "quiet db (snd (gateway_authorization_insert_statement a db))" for a
    by (auto simp: gateway_authorization_insert_statement_def quiet_def calm_def has_intent_def outbox_guards_def)
  moreover have "quiet db (snd (entity_insert_statement i body db))" for i body
    by (rule quiet_frame) (simp_all add: entity_insert_statement_def)
  ultimately show ?thesis
    using assms by (auto simp: authorization_statement_def Let_def split: if_splits option.splits sum.splits)
qed

lemma authorize_statement_quiet:
  assumes "authorization_statement q = Inr st" "x \<in> set (authorize_statements q s b c k (new_reservation q c h k e) st)"
  shows "quiet (db :: 'a typed_db_scheme) (snd (x db))"
proof -
  have "quiet db (snd (reserve_credit_statement w h c p db))" for w h c p
    by (rule quiet_frame) (auto simp: reserve_credit_statement_def update_credits_def sql_update_def)
  moreover have "quiet db (snd (key_statement q k db))"
    by (auto simp: key_statement_def reserve_key_statement_def split: prod.splits dest!: update_keys_quiet)
  moreover have "quiet db (snd (reservation_insert_statement (new_reservation q c h k e) db))"
    by (auto simp: reservation_insert_statement_def new_reservation_def quiet_def calm_def has_intent_def outbox_guards_def)
  moreover have "quiet db (snd (st db))" by (rule authorization_statement_quiet [OF assms(1)])
  ultimately show ?thesis using assms(2) by (auto simp: authorize_statements_def split: if_splits)
qed

lemma insert_records_quiet:
  fixes db :: "'a typed_db_scheme"
  assumes "authorization_statement q = Inr st" "insert_records q s b c k st db = (x, db')"
  shows "quiet db db'"
proof -
  obtain c0 h k0 j d where k: "c = (c0, h)" "k = ((k0, j), d)" by (metis prod.collapse)
  let ?r = "new_reservation q c0 h j (if k0 = KEY_ACCEPTED then aq_estimate q else 0)"
  let ?sts = "authorize_statements q s b c0 j ?r st"
  have "quiet db (snd (execute_batch_dml (authorize_check_prefix s b) ?sts (replicate (length ?sts) [1]) db))"
    by (rule quiet_order.execute_batch_rel) (use authorize_statement_quiet [OF assms(1)] in blast)
  then show ?thesis using assms(2) by (auto simp: insert_records_def k Let_def split: prod.splits sum.splits)
qed

lemma authorize_txn_quiet:
  fixes db :: "'a typed_db_scheme"
  assumes "authorization_statement q = Inr (st :: ('a typed_db_scheme, int) tx)"
  shows "quiet db (snd (authorize_txn q s b db))"
proof (cases "Option.bind (aq_idempotency_scope q) (\<lambda>scope. read_reservation_by_idempotency scope db)")
  case None
  show ?thesis
    unfolding authorize_txn_fresh [OF None assms]
    by (auto split: prod.splits sum.splits dest!: take_credit_quiet take_key_quiet
        intro: quiet_trans insert_records_quiet [OF assms, OF surjective_pairing])
qed (simp add: authorize_txn_def)

lemma authorize_quiet:
  fixes db :: "'a typed_db_scheme"
  assumes "authorization_statement q = Inr (st :: ('a typed_db_scheme, int) tx)"
  shows "quiet db (snd (authorize_atomic q db))"
proof (cases "validate_authorize q")
  case None
  have run: "quiet d (snd (run_transaction (authorize_txn q s b) d))" for s b and d :: "'a typed_db_scheme"
    by (rule quiet_order.run_transaction_rel [OF authorize_txn_quiet [OF assms]])
  obtain x db1 where first: "run_transaction (authorize_txn q (speculative_of q) (batch_credit_of q)) db = (x, db1)" by fastforce
  have c1: "quiet db db1" using run [of db "speculative_of q" "batch_credit_of q"] first by simp
  have c2: "quiet db (snd (run_transaction (authorize_txn q False False) db1))" by (rule quiet_trans [OF c1 run])
  show ?thesis
    using c1 c2 unfolding authorize_atomic_def None option.case Let_def first handle_same
    by (auto split: sum.splits authorize_error.splits)
qed (simp add: authorize_atomic_def)

section \<open>Runs of the outbox\<close>

text \<open>The calls that touch intents or the records they need, in any order: the outbox, the completion of
  retention, and the transactions of the request path.\<close>

datatype outbox_call =
    Enqueue bool outbox_row int bool "int option" instant
  | Claim_One outbox_row string instant instant
  | Release_Claim outbox_row instant
  | Mark string string bool "string option" "string option" int bool instant
  | Park string string "string option" int string instant
  | Attach_Refill string string int instant
  | Claim_Refill string string instant instant
  | Resolve_Refill string string bool "string option" int bool int instant
  | Complete_Authorization string instant
  | Complete_Reservation string instant
  | Request typed_call

fun outbox_step :: "outbox_call \<Rightarrow> typed_db \<Rightarrow> typed_db" where
  "outbox_step (Enqueue fence row delay keep refill now) db = snd (enqueue fence row delay keep refill now db)"
| "outbox_step (Claim_One row owner until now) db = snd (claim_one row owner until now db)"
| "outbox_step (Release_Claim row now) db = snd (release_claim row now db)"
| "outbox_step (Mark aid kind ok err owner m force now) db = snd (mark aid kind ok err owner m force now db)"
| "outbox_step (Park aid kind owner retry txt now) db = snd (park aid kind owner retry txt now db)"
| "outbox_step (Attach_Refill aid ws delay now) db = snd (attach_auto_refill aid ws delay now db)"
| "outbox_step (Claim_Refill aid owner until now) db = snd (claim_auto_refill_one aid owner until now db)"
| "outbox_step (Resolve_Refill aid owner ok err retry count m now) db = snd (resolve_auto_refill aid owner ok err retry count m now db)"
| "outbox_step (Complete_Authorization aid t) db = snd (complete_gateway_authorization_retention aid t True db)"
| "outbox_step (Complete_Reservation rid t) db = snd (complete_reservation_retention rid t True db)"
| "outbox_step (Request c) db = typed_step c db"

text \<open>An intent names the reservation of its authorization; the outbox table is there.\<close>

fun outbox_legal :: "outbox_call \<Rightarrow> typed_db \<Rightarrow> bool" where
  "outbox_legal (Enqueue fence row delay keep refill now) db \<longleftrightarrow>
     (\<forall>r \<in> set (tr_reservation db). rs_authorization_id r = Some (ob_authorization_id row) \<longrightarrow>
        given (fi_reservation_id (ob_frozen row)) \<and> fi_reservation_id (ob_frozen row) = Some (rs_reservation_id r))"
| "outbox_legal (Request (Authorize q)) db \<longleftrightarrow> is_ok (authorization_statement q :: (typed_db, int) tx result)"
| "outbox_legal (Request (Settle q)) db \<longleftrightarrow> sr_outbox_available q"
| "outbox_legal _ db \<longleftrightarrow> True"

interpretation outbox_run: invariant_run outbox_step outbox_legal retained
proof
  fix s :: typed_db and c
  assume ok: "retained s" and l: "outbox_legal c s"
  show "retained (outbox_step c s)"
  proof (cases "\<exists>fence row delay keep refill now. c = Enqueue fence row delay keep refill now")
    case True
    then show ?thesis using enqueue_retained [OF ok] l by auto
  next
    case False
    have "calm s (outbox_step c s)"
      using False l
    proof (cases c)
      case (Request t)
      then show ?thesis
        using l quiet_calm [OF settle_quiet] quiet_calm [OF authorize_quiet] by (cases t) (auto simp: is_ok_def split: sum.splits)
    qed (auto simp: calm_leases calm_mark calm_park calm_refills quiet_calm [OF quiet_complete(1)] quiet_calm [OF quiet_complete(2)])
    then show ?thesis using calm_retained ok by blast
  qed
qed

text \<open>C8. An outstanding intent keeps the records it needs: after any sequence of outbox calls,
  authorizations, settlements and completions of retention, while an intent of an authorization is
  pending or dead, neither the authorization nor its reservation has a retention deadline.\<close>

theorem outstanding_intent_keeps_records:
  assumes "retained db" "legal_run outbox_step outbox_legal cs db" "b \<in> set (tr_settle_outbox (fold outbox_step cs db))"
    "ob_status b = ''pending'' \<or> ob_status b = ''dead''"
  shows "(\<forall>a \<in> set (tr_gateway_authorization (fold outbox_step cs db)).
       ga_id (gr_authorization a) = ob_authorization_id b \<longrightarrow> gr_terminal_at a = None) \<and>
    (\<forall>r \<in> set (tr_reservation (fold outbox_step cs db)).
       rs_authorization_id r = Some (ob_authorization_id b) \<longrightarrow> rs_terminal_at r = None)"
proof -
  have "retained (fold outbox_step cs db)" by (rule outbox_run.run_inv [OF assms(1,2)])
  moreover have "has_intent (ob_authorization_id b) (fold outbox_step cs db)"
    using assms(3,4) by (auto simp: has_intent_def outbox_guards_def filter_empty_conv GUARD_STATUSES_def)
  ultimately show ?thesis by (simp add: retained_def rests_def authorization_at_def)
qed

section \<open>Leases fence the intent\<close>

text \<open>The intent of a primary key is pending, leased by \<open>w\<close> until \<open>l\<close>, with these frozen inputs and
  attempts.\<close>

definition held_by :: "string \<Rightarrow> string \<Rightarrow> string \<Rightarrow> instant \<Rightarrow> frozen_intent \<Rightarrow> int \<Rightarrow> outbox_row \<Rightarrow> bool" where
  "held_by aid kind w l fz n r \<longleftrightarrow> outbox_at aid kind r \<and> ob_status r = ''pending'' \<and> ob_lease_owner r = Some w \<and>
     ob_leased_until r = Some l \<and> ob_frozen r = fz \<and> ob_attempts r = n"

definition lease_held :: "string \<Rightarrow> string \<Rightarrow> string \<Rightarrow> instant \<Rightarrow> frozen_intent \<Rightarrow> int \<Rightarrow> 'a typed_db_scheme \<Rightarrow> bool" where
  "lease_held aid kind w l fz n db \<longleftrightarrow> (\<exists>r. filter (outbox_at aid kind) (tr_settle_outbox db) = [r] \<and> held_by aid kind w l fz n r)"

lemma held_update:
  assumes "lease_held aid kind w l fz n db" "keeps_intent f"
    "\<And>r. P r \<Longrightarrow> held_by aid kind w l fz n r \<Longrightarrow> held_by aid kind w l fz n (f r)"
  shows "lease_held aid kind w l fz n (snd (update_outbox P f db))"
proof -
  let ?g = "\<lambda>r. if P r then f r else r"
  have at: "outbox_at aid kind (?g r) = outbox_at aid kind r" for r using assms(2) by (simp add: outbox_at_def keeps_intent_def)
  obtain r where r: "filter (outbox_at aid kind) (tr_settle_outbox db) = [r]" "held_by aid kind w l fz n r"
    using assms(1) by (auto simp: lease_held_def)
  have "filter (outbox_at aid kind) (tr_settle_outbox (snd (update_outbox P f db))) = map ?g (filter (outbox_at aid kind) (tr_settle_outbox db))"
    unfolding update_outbox_tables filter_map comp_def at by (rule refl)
  then show ?thesis using r assms(3) by (auto simp: lease_held_def)
qed

lemma held_update_pair:
  assumes "update_outbox P f db = (m, db')" "lease_held aid kind w l fz n db" "keeps_intent f"
    "\<And>r. P r \<Longrightarrow> held_by aid kind w l fz n r \<Longrightarrow> held_by aid kind w l fz n (f r)"
  shows "lease_held aid kind w l fz n db'"
proof -
  have "lease_held aid kind w l fz n (snd (update_outbox P f db))" by (rule held_update [OF assms(2,3)]) (rule assms(4))
  then show ?thesis using assms(1) by simp
qed

lemma quiet_held: "quiet db db' \<Longrightarrow> lease_held aid kind w l fz n db \<Longrightarrow> lease_held aid kind w l fz n db'"
  by (simp add: quiet_def lease_held_def)

text \<open>Calls of others before the lease ends: no clock is past it, and nobody else resolves the intent
  with the owner token.\<close>

fun stands_off :: "string \<Rightarrow> string \<Rightarrow> string \<Rightarrow> instant \<Rightarrow> outbox_call \<Rightarrow> bool" where
  "stands_off aid kind w l (Enqueue fence row delay keep refill now) \<longleftrightarrow> now \<le> l"
| "stands_off aid kind w l (Claim_One row owner until now) \<longleftrightarrow> now \<le> l"
| "stands_off aid kind w l (Release_Claim row now) \<longleftrightarrow> \<not> outbox_at aid kind row \<or> ob_lease_owner row \<noteq> Some w"
| "stands_off aid kind w l (Mark a k ok err owner m force now) \<longleftrightarrow> (a, k) \<noteq> (aid, kind) \<or> owner \<noteq> Some w"
| "stands_off aid kind w l (Park a k owner retry txt now) \<longleftrightarrow> (a, k) \<noteq> (aid, kind) \<or> owner \<noteq> Some w"
| "stands_off aid kind w l (Request (Authorize q)) \<longleftrightarrow> is_ok (authorization_statement q :: (typed_db, int) tx result)"
| "stands_off aid kind w l (Request (Settle q)) \<longleftrightarrow> sr_outbox_available q"
| "stands_off aid kind w l _ \<longleftrightarrow> True"

lemma held_leases:
  assumes "lease_held aid kind w l fz n db"
  shows "now \<le> l \<Longrightarrow> lease_held aid kind w l fz n (snd (claim_one row owner until now db))"
    "\<not> outbox_at aid kind row \<or> ob_lease_owner row \<noteq> Some w \<Longrightarrow> lease_held aid kind w l fz n (snd (release_claim row now db))"
  using assms
  by (auto simp: claim_one_def release_claim_def keeps_intent_def held_by_def leasable_def outbox_at_def
      elim!: held_update_pair split: prod.splits)

lemma held_refill:
  assumes "update_refill a P f db = (m, db')" "lease_held aid kind w l fz n db"
  shows "lease_held aid kind w l fz n db'"
  using held_update_pair [OF assms(1) [unfolded update_refill_def] assms(2)] by (simp add: keeps_intent_def held_by_def outbox_at_def)

lemma held_refills:
  assumes "lease_held aid kind w l fz n db"
  shows "lease_held aid kind w l fz n (snd (attach_auto_refill a ws delay now db))"
    "lease_held aid kind w l fz n (snd (claim_auto_refill_one a owner until now db))"
    "lease_held aid kind w l fz n (snd (resolve_auto_refill a owner is_done error retry count m now db))"
  using assms
  by (auto simp: attach_auto_refill_def claim_auto_refill_one_def resolve_auto_refill_def Let_def intro: held_refill
      split: prod.splits list.splits)

text \<open>What another owner resolves is not the leased intent.\<close>

lemma held_other:
  assumes "update_outbox P f db = (c, db')" "lease_held aid kind w l fz n db" "(a, k) \<noteq> (aid, kind) \<or> owner \<noteq> Some w"
    "\<And>r. P r \<Longrightarrow> done_matches a k owner r" "keeps_intent f"
  shows "lease_held aid kind w l fz n db'" "lease_held aid kind w l fz n (defer_retention_tx x y db')"
proof -
  show held: "lease_held aid kind w l fz n db'"
    by (rule held_update_pair [OF assms(1,2,5)])
      (use assms(3,4) in \<open>fastforce simp: done_matches_def held_by_def outbox_at_def\<close>)
  show "lease_held aid kind w l fz n (defer_retention_tx x y db')" by (rule quiet_held [OF quiet_defer held])
qed

lemma held_mark_done:
  assumes h: "lease_held aid kind w l fz n db" and o: "(a, k) \<noteq> (aid, kind) \<or> owner \<noteq> Some w"
    and tx: "mark_done_tx a k owner now db = (x, db')"
  shows "lease_held aid kind w l fz n db'"
proof -
  obtain y d1 where y: "mark_done_row a k owner now db = (y, d1)" by fastforce
  have "lease_held aid kind w l fz n (snd (update_outbox (done_matches a k owner) (done_row now) db))"
    by (rule held_other(1) [OF surjective_pairing h o]) simp_all
  then have row: "lease_held aid kind w l fz n d1"
    using y by (auto simp: mark_done_row_def Let_def split: list.splits option.splits if_splits)
  have "lease_held aid kind w l fz n (snd (resolve_done_retention_tx a k rid now d1))" for rid
    by (rule quiet_held [OF quiet_resolve_done row])
  then show ?thesis
    using tx row by (auto simp: mark_done_tx_def y split: prod.splits sum.splits option.splits) (metis snd_conv)+
qed

lemma held_mark:
  assumes h: "lease_held aid kind w l fz n db" and o: "(a, k) \<noteq> (aid, kind) \<or> owner \<noteq> Some w"
  shows "lease_held aid kind w l fz n (snd (mark a k is_done error owner m force now db))"
proof -
  have "lease_held aid kind w l fz n d" if "mark_txn a k is_done error owner m force now db = (x, d)" for x d
  proof (cases is_done)
    case True
    then show ?thesis using that held_mark_done [OF h o] by (auto simp: mark_txn_def split: prod.splits sum.splits)
  next
    case False
    show ?thesis
      using that False h
      by (auto simp: mark_txn_def Let_def keeps_intent_def split: if_splits prod.splits list.splits
          intro: held_other(1) [OF _ h o] held_other(2) [OF _ h o])
  qed
  then show ?thesis using h by (auto simp: mark_def run_in_transaction_def split: prod.splits sum.splits)
qed

lemma held_park:
  assumes h: "lease_held aid kind w l fz n db" and o: "(a, k) \<noteq> (aid, kind) \<or> owner \<noteq> Some w"
  shows "lease_held aid kind w l fz n (snd (park a k owner retry txt now db))"
  using h
  by (auto simp: park_def keeps_intent_def split: list.splits prod.splits
      intro: held_other(1) [OF _ h o] held_other(2) [OF _ h o])

lemma held_insert:
  assumes h: "lease_held aid kind w l fz n db" and "insert_txn row now t refill db = (Inr x, db')"
  shows "lease_held aid kind w l fz n db'"
proof -
  let ?i = "intent_row row now t False False refill"
  let ?db1 = "db\<lparr>tr_settle_outbox := tr_settle_outbox db @ [?i]\<rparr>"
  have new: "\<not> list_ex (outbox_at (ob_authorization_id row) (ob_intent_kind row)) (tr_settle_outbox db)"
    and out: "tr_settle_outbox db' = tr_settle_outbox db @ [?i]"
    using assms(2) quiet_clear(1) [of ?db1 "ob_authorization_id row"]
      quiet_clear(2) [of "snd (clear_gateway_authorization_retention (ob_authorization_id row) ?db1)"]
    by (auto simp: insert_txn_def intent_insert_statements_def intent_insert_def intent_row_def run_batch_def execute_batch_dml_def Let_def quiet_def
        split: if_splits sum.splits authorize_error.splits option.splits)
  have "\<not> outbox_at aid kind ?i"
    using h new by (auto simp: lease_held_def list_ex_iff filter_eq_Cons_iff outbox_at_def intent_row_def)
  then show ?thesis using h out by (simp add: lease_held_def)
qed

lemma held_enqueue:
  assumes h: "lease_held aid kind w l fz n db" and now: "now \<le> l"
  shows "lease_held aid kind w l fz n (snd (enqueue fence row delay keep refill now db))"
proof -
  have "lease_held aid kind w l fz n d" if "refresh_txn fence row now db = (x, d)" for x d
  proof -
    obtain c d1 where u: "update_outbox (\<lambda>r. outbox_at (ob_authorization_id row) (ob_intent_kind row) r \<and> ob_status r = ''pending'' \<and>
        (fence \<longrightarrow> ob_async_version r = None) \<and> leasable now (ob_leased_until r))
      (\<lambda>r. r\<lparr>ob_frozen := ob_frozen row, ob_refill := refreshed_refill (rj_workspace_id (ob_refill row)) now (ob_refill r),
          ob_updated_at := Some now\<rparr>) db = (c, d1)" by fastforce
    have "lease_held aid kind w l fz n d1"
      by (rule held_update_pair [OF u h]) (use now in \<open>auto simp: keeps_intent_def held_by_def leasable_def\<close>)
    then show ?thesis using that u quiet_held [OF quiet_defer] by (auto simp: refresh_txn_def split: if_splits)
  qed
  then show ?thesis
    using h held_insert [OF h, of row now]
    by (auto simp: enqueue_def run_in_transaction_def split: prod.splits sum.splits if_splits)
qed

interpretation fence_run: invariant_run outbox_step "\<lambda>c _. stands_off aid kind w l c" "lease_held aid kind w l fz n"
  for aid kind w l fz n
proof
  fix s :: typed_db and c
  assume h: "lease_held aid kind w l fz n s" and l: "stands_off aid kind w l c"
  show "lease_held aid kind w l fz n (outbox_step c s)"
  proof (cases c)
    case (Request t)
    then have "quiet s (typed_step t s)"
      using l settle_quiet authorize_quiet by (cases t) (auto simp: is_ok_def split: sum.splits)
    then show ?thesis using Request quiet_held h by simp
  qed (use h l in \<open>auto simp: held_enqueue held_leases held_mark held_park held_refills intro: quiet_held [OF quiet_complete(1)] quiet_held [OF quiet_complete(2)]\<close>)
qed

section \<open>Resolving an intent\<close>

definition authorizations_distinct :: "'a typed_db_scheme \<Rightarrow> bool" where
  "authorizations_distinct db \<longleftrightarrow> distinct (map (\<lambda>a. ga_id (gr_authorization a)) (tr_gateway_authorization db))"

definition outbox_distinct :: "'a typed_db_scheme \<Rightarrow> bool" where
  "outbox_distinct db \<longleftrightarrow> distinct (map (\<lambda>r. (ob_authorization_id r, ob_intent_kind r)) (tr_settle_outbox db))"

lemma keyed_count:
  assumes "distinct (map k t)" "\<And>r. P r \<Longrightarrow> k r = x"
  shows "int (length (filter P t)) \<in> set [0, 1]"
  using sql_update_keyed [OF assms, of P id] by (auto simp: sql_update_def split: option.splits if_splits)

lemma run_batch_Nil [simp]: "run_batch [] [] db = (Inr (), db)"
  by (simp add: run_batch_def execute_batch_dml_def)

lemma run_batch_Cons:
  assumes "st db = (Inr n, db1)" "n \<in> set c" "length sts = length cs"
  shows "run_batch (st # sts) (c # cs) db = run_batch sts cs db1"
  using assms by (auto simp: run_batch_def execute_batch_dml_def split: prod.splits option.splits)

lemma run_batch_stmt:
  "fst (f db) \<in> set c \<Longrightarrow> length sts = length cs \<Longrightarrow> run_batch (stmt f # sts) (c # cs) db = run_batch sts cs (snd (f db))"
  by (rule run_batch_Cons [where n = "fst (f db)"]) simp_all

lemma retention_counts:
  "authorizations_distinct db \<Longrightarrow> fst (clear_gateway_authorization_retention aid db) \<in> set [0, 1]"
  "authorizations_distinct db \<Longrightarrow> fst (done_authorization_statement aid kind now db) \<in> set [0, 1]"
  "ids_distinct db \<Longrightarrow> fst (clear_reservation_retention rid db) \<in> set [0, 1]"
  "ids_distinct db \<Longrightarrow> fst (done_reservation_statement aid kind rid now db) \<in> set [0, 1]"
  unfolding clear_gateway_authorization_retention_def done_authorization_statement_def reservation_updates Let_def
    update_authorizations_tables update_reservations_tables authorizations_distinct_def ids_distinct_def
  by (erule keyed_count; simp add: authorization_at_def)+

text \<open>The statements on the outbox, the authorizations and the reservations keep the primary keys.\<close>

lemma retention_ids [simp]:
  "ids_distinct (snd (clear_gateway_authorization_retention aid db)) = ids_distinct db"
  "ids_distinct (snd (done_authorization_statement aid kind now db)) = ids_distinct db"
  "ids_distinct (snd (update_outbox P f db)) = ids_distinct db"
  "authorizations_distinct (snd (update_outbox P f db)) = authorizations_distinct db"
  by (simp_all add: ids_distinct_def authorizations_distinct_def clear_gateway_authorization_retention_def done_authorization_statement_def Let_def)

lemma map_key_update: "(\<And>r. k (f r) = k r) \<Longrightarrow> map k (map (\<lambda>r. if P r then f r else r) t) = map k t"
  by (induction t) auto

lemma clear_ids [simp]:
  "authorizations_distinct (snd (clear_gateway_authorization_retention aid db)) = authorizations_distinct db"
  "authorizations_distinct (snd (clear_reservation_retention rid db)) = authorizations_distinct db"
  "ids_distinct (snd (clear_reservation_retention rid db)) = ids_distinct db"
  unfolding ids_distinct_def authorizations_distinct_def clear_gateway_authorization_retention_def reservation_updates
    update_authorizations_tables update_reservations_tables
  by (subst map_key_update; simp) (simp, (subst map_key_update; simp))

lemma resolve_done_returns:
  assumes "authorizations_distinct db" "ids_distinct db"
  shows "\<exists>db'. resolve_done_retention_tx aid kind rid now db = (Inr (), db') \<and> tr_settle_outbox db' = tr_settle_outbox db"
proof -
  let ?d = "snd (done_authorization_statement aid kind now db)"
  have "fst (done_authorization_statement aid kind now db) \<in> set [0, 1]" by (rule retention_counts(2) [OF assms(1)])
  moreover have "fst (done_reservation_statement aid kind x now ?d) \<in> set [0, 1]" for x
    by (rule retention_counts(4)) (simp add: assms(2))
  ultimately have "\<exists>db'. resolve_done_retention_tx aid kind rid now db = (Inr (), db')"
    by (auto simp: resolve_done_retention_tx_def done_retention_statements_def Let_def run_batch_stmt)
  then show ?thesis using quiet_resolve_done [of db aid kind rid now] by (auto simp: quiet_def)
qed

lemma done_row_key [simp]:
  "ob_authorization_id (done_row now r) = ob_authorization_id r" "ob_intent_kind (done_row now r) = ob_intent_kind r"
  "outbox_at aid kind (done_row now r) = outbox_at aid kind r"
  by (simp_all add: outbox_at_def done_row_def)

lemma single_at:
  assumes "filter P xs = [r]" "x \<in> set xs" "P x"
  shows "x = r"
proof -
  have "x \<in> set (filter P xs)" using assms(2,3) by simp
  then show ?thesis unfolding assms(1) by simp
qed

lemma mark_done_single:
  fixes now :: instant
  assumes one: "filter (outbox_at aid kind) (tr_settle_outbox db) = [r]" and r: "ob_status r = ''pending''" "ob_lease_owner r = owner"
    and keys: "authorizations_distinct db" "ids_distinct db"
  defines "db1 \<equiv> snd (update_outbox (done_matches aid kind owner) (done_row now) db)"
  shows "mark aid kind True err owner m force now db =
      (Inr (Some ''done''), snd (resolve_done_retention_tx aid kind (fi_reservation_id (ob_frozen r)) now db1))"
    "tr_settle_outbox (snd (mark aid kind True err owner m force now db)) = map (\<lambda>x. if outbox_at aid kind x then done_row now x else x) (tr_settle_outbox db)"
proof -
  have at: "x \<in> set (tr_settle_outbox db) \<Longrightarrow> outbox_at aid kind x \<Longrightarrow> x = r" for x
    using single_at [OF one] by simp
  have same: "done_matches aid kind owner x = outbox_at aid kind x" if "x \<in> set (tr_settle_outbox db)" for x
    using at [OF that] r by (auto simp: done_matches_def)
  have "filter (done_matches aid kind owner) (tr_settle_outbox db) = [r]"
    using one filter_cong [OF refl same, of "tr_settle_outbox db"] by simp
  then have row: "mark_done_row aid kind owner now db = (Inr (Some (fi_reservation_id (ob_frozen r))), db1)"
    by (simp add: mark_done_row_def Let_def db1_def)
  obtain db2 where res: "resolve_done_retention_tx aid kind (fi_reservation_id (ob_frozen r)) now db1 = (Inr (), db2)"
      "tr_settle_outbox db2 = tr_settle_outbox db1"
    using resolve_done_returns [of db1 aid kind "fi_reservation_id (ob_frozen r)" now] keys unfolding db1_def by auto
  show m: "mark aid kind True err owner m force now db =
      (Inr (Some ''done''), snd (resolve_done_retention_tx aid kind (fi_reservation_id (ob_frozen r)) now db1))"
    by (simp add: mark_def run_in_transaction_def mark_txn_def mark_done_tx_def row res(1))
  show "tr_settle_outbox (snd (mark aid kind True err owner m force now db)) = map (\<lambda>x. if outbox_at aid kind x then done_row now x else x) (tr_settle_outbox db)"
    unfolding m snd_conv res(1) res(2) by (simp add: db1_def same cong: map_cong)
qed

lemma get_intent_filter: "get_intent aid kind db = (case filter (outbox_at aid kind) (tr_settle_outbox db) of [] \<Rightarrow> None | r # _ \<Rightarrow> Some r)"
  unfolding get_intent_def find_filter by (simp split: option.splits)

lemma update_outbox_none: "(\<And>r. r \<in> set (tr_settle_outbox db) \<Longrightarrow> \<not> P r) \<Longrightarrow> update_outbox P f db = (0, db)"
  by (simp add: update_outbox_def sql_update_def map_idI)

lemma claim_holds_lease:
  assumes keys: "outbox_distinct db" and claim: "claim_one row w l now db = (True, db0)" "get_intent aid kind db = Some r" "outbox_at aid kind row"
  shows "lease_held aid kind w l (ob_frozen r) (ob_attempts r) db0"
proof -
  let ?P = "\<lambda>r. outbox_at aid kind r \<and> ob_status r = ''pending'' \<and> leasable now (ob_leased_until r)"
  let ?f = "\<lambda>r. r\<lparr>ob_lease_owner := Some w, ob_leased_until := Some l, ob_updated_at := Some now\<rparr>"
  have row: "ob_authorization_id row = aid" "ob_intent_kind row = kind" using claim(3) by (simp_all add: outbox_at_def)
  have u: "update_outbox ?P ?f db = (1, db0)" using claim(1) by (auto simp: claim_one_def row split: prod.splits)
  then have count: "length (filter ?P (tr_settle_outbox db)) = 1" using update_outbox_tables(4) [of ?P ?f db] by simp
  have len: "length (filter (outbox_at aid kind) (tr_settle_outbox db)) \<le> 1"
    using keyed_count [OF keys [unfolded outbox_distinct_def], of "outbox_at aid kind" "(aid, kind)"] by (auto simp: outbox_at_def)
  have one: "filter (outbox_at aid kind) (tr_settle_outbox db) = [r]"
    using len claim(2) by (cases "filter (outbox_at aid kind) (tr_settle_outbox db)") (auto simp: get_intent_filter)
  have "?P r"
  proof -
    have "filter ?P (tr_settle_outbox db) = filter (\<lambda>r. ob_status r = ''pending'' \<and> leasable now (ob_leased_until r)) [r]"
      unfolding one [symmetric] by (simp add: conj_commute)
    then show ?thesis using count one by (auto simp: filter_eq_Cons_iff split: if_splits)
  qed
  have "tr_settle_outbox db0 = map (\<lambda>r. if ?P r then ?f r else r) (tr_settle_outbox db)" using u update_outbox_tables(1) [of ?P ?f db] by simp
  moreover have at: "outbox_at aid kind (if ?P x then ?f x else x) = outbox_at aid kind x" for x by (simp add: outbox_at_def)
  ultimately have "filter (outbox_at aid kind) (tr_settle_outbox db0) = map (\<lambda>r. if ?P r then ?f r else r) [r]"
    unfolding one [symmetric] by (simp only: filter_map comp_def at)
  then show ?thesis using \<open>?P r\<close> by (auto simp: lease_held_def held_by_def outbox_at_def)
qed

lemma claim_refused:
  assumes "filter (outbox_at aid kind) (tr_settle_outbox s) = [r']" "held_by aid kind w l fz n r'" "outbox_at aid kind x" "t \<le> l"
  shows "claim_one x w' l' t s = (False, s)"
proof -
  have "\<not> (outbox_at aid kind r \<and> ob_status r = ''pending'' \<and> leasable t (ob_leased_until r))" if "r \<in> set (tr_settle_outbox s)" for r
    using single_at [OF assms(1) that] assms(2,4) by (auto simp: held_by_def leasable_def)
  moreover have "ob_authorization_id x = aid" "ob_intent_kind x = kind" using assms(3) by (simp_all add: outbox_at_def)
  ultimately show ?thesis by (simp add: claim_one_def update_outbox_none)
qed

lemma mark_done_again:
  assumes "filter (outbox_at aid kind) (tr_settle_outbox db) = [done_row t r]"
  shows "mark aid kind True err owner m force now db = (Inr None, db)"
proof -
  have none: "\<not> done_matches aid kind owner x" if "x \<in> set (tr_settle_outbox db)" for x
    using single_at [OF assms that] by (auto simp: done_matches_def done_row_def)
  then have "update_outbox (done_matches aid kind owner) (done_row now) db = (0, db)" by (rule update_outbox_none)
  moreover have "filter (done_matches aid kind owner) (tr_settle_outbox db) = []" using none by (simp add: filter_empty_conv)
  ultimately have "mark_done_row aid kind owner now db = (Inr None, db)"
    by (simp add: mark_done_row_def get_intent_filter assms done_row_def)
  then show ?thesis by (simp add: mark_def run_in_transaction_def mark_txn_def mark_done_tx_def)
qed

text \<open>C7. A lease fences its intent.  When a worker's claim of an intent won, then whatever other
  workers, retried deliveries, refunds, settlements and authorizations do before the lease ends, the
  intent is still pending and leased by the worker with the inputs and attempts it was claimed with, no
  other claim of it wins, and the worker's resolution takes effect exactly once: it reports done, the
  row is done, and the same resolution again changes nothing.\<close>

theorem lease_fences_intent:
  fixes db :: typed_db
  assumes keys: "outbox_distinct db"
    and claim: "claim_one row w l now db = (True, db0)" "get_intent aid kind db = Some r" "outbox_at aid kind row"
    and others: "\<forall>c \<in> set cs. stands_off aid kind w l c"
  defines "s \<equiv> fold outbox_step cs db0"
  assumes records: "authorizations_distinct s" "ids_distinct s"
  shows "\<exists>r' s'. get_intent aid kind s = Some r' \<and> ob_lease_owner r' = Some w \<and> ob_frozen r' = ob_frozen r \<and> ob_attempts r' = ob_attempts r \<and>
    (\<forall>x w' l' t. outbox_at aid kind x \<and> t \<le> l \<longrightarrow> claim_one x w' l' t s = (False, s)) \<and>
    mark aid kind True err (Some w) m force t' s = (Inr (Some ''done''), s') \<and> get_intent aid kind s' = Some (done_row t' r') \<and>
    mark aid kind True err (Some w) m force t' s' = (Inr None, s')"
proof -
  have "lease_held aid kind w l (ob_frozen r) (ob_attempts r) db0" by (rule claim_holds_lease [OF keys claim])
  then have "lease_held aid kind w l (ob_frozen r) (ob_attempts r) s"
    unfolding s_def by (rule fence_run.run_inv [OF _ legal_run_const [OF others]])
  then obtain r' where r': "filter (outbox_at aid kind) (tr_settle_outbox s) = [r']" "held_by aid kind w l (ob_frozen r) (ob_attempts r) r'"
    by (auto simp: lease_held_def)
  have pending: "ob_status r' = ''pending''" "ob_lease_owner r' = Some w" using r'(2) by (simp_all add: held_by_def)
  define s' where "s' = snd (mark aid kind True err (Some w) m force t' s)"
  have s': "mark aid kind True err (Some w) m force t' s = (Inr (Some ''done''), s')"
      "tr_settle_outbox s' = map (\<lambda>x. if outbox_at aid kind x then done_row t' x else x) (tr_settle_outbox s)"
    using mark_done_single [OF r'(1) pending records, of err m force t'] by (simp_all add: s'_def)
  have after: "filter (outbox_at aid kind) (tr_settle_outbox s') = [done_row t' r']"
    using r' unfolding s'(2) by (simp add: filter_map comp_def if_distrib held_by_def cong: if_cong)
  have "claim_one x w' l' t s = (False, s)" if "outbox_at aid kind x" "t \<le> l" for x w' l' t
    using claim_refused [OF r'] that by blast
  then show ?thesis
    using s' r' after mark_done_again [OF after] by (auto simp: get_intent_filter held_by_def done_row_def)
qed

section \<open>One commit or two\<close>

lemma resolved_is_done: "intent_row row now t True False refill = done_row now (intent_row row now t False False refill)"
  by (simp add: intent_row_def done_row_def)

text \<open>Updates of different tables commute.\<close>

lemma outbox_commutes:
  "snd (clear_gateway_authorization_retention aid (snd (update_outbox P f db))) = snd (update_outbox P f (snd (clear_gateway_authorization_retention aid db)))"
  "snd (clear_reservation_retention rid (snd (update_outbox P f db))) = snd (update_outbox P f (snd (clear_reservation_retention rid db)))"
  by (simp_all add: clear_gateway_authorization_retention_def reservation_updates update_authorizations_def update_reservations_def
      update_outbox_def sql_update_def)

text \<open>C9. The one-commit settlement of a new intent writes exactly what the two commits write: enqueueing
  it and then resolving it as done.  All three return, with the same tables afterwards: the outbox row,
  its refill work, and the retention of the authorization and of the reservation, also when the other
  intent of the authorization is still outstanding.\<close>

theorem one_commit_equals_two:
  fixes db :: "'a typed_db_scheme"
  assumes new: "get_intent (ob_authorization_id row) (ob_intent_kind row) db = None"
    and keys: "authorizations_distinct db" "ids_distinct db" and rid: "given (fi_reservation_id (ob_frozen row))"
  shows "\<exists>sts db1 db2. resolved_intent_statements row delay now = Inr sts \<and>
    enqueue fence row delay keep None now db = (Inr ''inserted'', db1) \<and>
    mark (ob_authorization_id row) (ob_intent_kind row) True err None m force now db1 = (Inr (Some ''done''), db2) \<and>
    run_batch sts (intent_insert_counts sts) db = (Inr (), db2)"
proof -
  let ?aid = "ob_authorization_id row" and ?kind = "ob_intent_kind row" and ?rid = "the (fi_reservation_id (ob_frozen row))"
  let ?i = "intent_row row now (delayed now delay) False False None"
  let ?ins = "\<lambda>i. db\<lparr>tr_settle_outbox := tr_settle_outbox db @ [i]\<rparr>"
  let ?clear = "\<lambda>d. snd (clear_reservation_retention ?rid (snd (clear_gateway_authorization_retention ?aid d)))"
  let ?sts = "intent_insert_statements row now (delayed now delay) True False None @
      done_retention_statements ?aid ?kind (fi_reservation_id (ob_frozen row)) now :: ('a typed_db_scheme, int) tx list"
  have fresh: "\<forall>r \<in> set (tr_settle_outbox db). \<not> outbox_at ?aid ?kind r"
    using new by (auto simp: get_intent_def find_None_iff)
  have insert: "intent_insert i db = (Inr 1, ?ins i)" if "ob_authorization_id i = ?aid" "ob_intent_kind i = ?kind" for i
    using fresh that by (simp add: intent_insert_def list_ex_iff)
  have pk: "ob_authorization_id (intent_row row now t b False x) = ?aid" "ob_intent_kind (intent_row row now t b False x) = ?kind" for t b x
    by (simp_all add: intent_row_def)
  have d: "authorizations_distinct (?ins i)" "ids_distinct (?ins i)" for i
    using keys by (simp_all add: authorizations_distinct_def ids_distinct_def)
  have counts: "fst (clear_gateway_authorization_retention ?aid (?ins i)) \<in> set [0, 1]"
      "fst (clear_reservation_retention ?rid (snd (clear_gateway_authorization_retention ?aid (?ins i)))) \<in> set [0, 1]" for i
    using retention_counts(1) [OF d(1)] retention_counts(3) [of "snd (clear_gateway_authorization_retention ?aid (?ins i))"] d(2) by auto
  have cleared: "authorizations_distinct (?clear (?ins i))" "ids_distinct (?clear (?ins i))" for i
    using clear_ids d by (simp_all)
  have batch: "run_batch (intent_insert i # stmt (clear_gateway_authorization_retention ?aid) # stmt (clear_reservation_retention ?rid) # sts)
        ([1] # [0, 1] # [0, 1] # cs) db = run_batch sts cs (?clear (?ins i))"
    if "ob_authorization_id i = ?aid" "ob_intent_kind i = ?kind" "length sts = length cs" for i sts cs
  proof -
    let ?A = "stmt (clear_gateway_authorization_retention ?aid)" and ?R = "stmt (clear_reservation_retention ?rid)"
    have "run_batch (intent_insert i # ?A # ?R # sts) ([1] # [0, 1] # [0, 1] # cs) db = run_batch (?A # ?R # sts) ([0, 1] # [0, 1] # cs) (?ins i)"
      by (rule run_batch_Cons [where n = 1]) (simp_all add: insert that)
    also have "\<dots> = run_batch (?R # sts) ([0, 1] # cs) (snd (clear_gateway_authorization_retention ?aid (?ins i)))"
      by (rule run_batch_stmt [where f = "clear_gateway_authorization_retention ?aid"]) (simp_all only: counts that length_Cons)
    also have "\<dots> = run_batch sts cs (?clear (?ins i))"
      by (rule run_batch_stmt [where f = "clear_reservation_retention ?rid"]) (simp_all only: counts that)
    finally show ?thesis .
  qed
  have one: "run_batch ?sts (intent_insert_counts ?sts) db =
      resolve_done_retention_tx ?aid ?kind (fi_reservation_id (ob_frozen row)) now (?clear (?ins (done_row now ?i)))"
    using rid
    by (simp add: intent_insert_statements_def intent_insert_counts_def resolved_is_done resolve_done_retention_tx_def Let_def batch pk)
  have two: "enqueue fence row delay keep None now db = (Inr ''inserted'', ?clear (?ins ?i))"
    using rid
    by (simp add: enqueue_def run_in_transaction_def insert_txn_def intent_insert_statements_def intent_insert_counts_def Let_def
        batch [of _ "[]" "[]", simplified] pk)
  let ?c = "?clear (?ins ?i)"
  have "tr_settle_outbox ?c = tr_settle_outbox db @ [?i]"
    using quiet_trans [OF quiet_clear(1) quiet_clear(2), of "?ins ?i" ?rid ?aid] by (simp add: quiet_def)
  then have single: "filter (outbox_at ?aid ?kind) (tr_settle_outbox ?c) = [?i]"
    using fresh by (simp add: filter_empty_conv outbox_at_def pk)
  have "snd (update_outbox (done_matches ?aid ?kind None) (done_row now) (?ins ?i)) = ?ins (done_row now ?i)"
  proof -
    have "map (\<lambda>r. if done_matches ?aid ?kind None r then done_row now r else r) (tr_settle_outbox db) = tr_settle_outbox db"
      by (rule map_idI) (use fresh in \<open>simp add: done_matches_def\<close>)
    moreover have "done_matches ?aid ?kind None ?i" by (simp add: done_matches_def outbox_at_def intent_row_def)
    ultimately show ?thesis by (simp add: update_outbox_def sql_update_def)
  qed
  then have same: "snd (update_outbox (done_matches ?aid ?kind None) (done_row now) ?c) = ?clear (?ins (done_row now ?i))"
    by (simp add: outbox_commutes [symmetric])
  have open_row: "ob_status ?i = ''pending''" "ob_lease_owner ?i = None" "fi_reservation_id (ob_frozen ?i) = fi_reservation_id (ob_frozen row)"
    by (simp_all add: intent_row_def)
  obtain db2 where fin: "resolve_done_retention_tx ?aid ?kind (fi_reservation_id (ob_frozen row)) now (?clear (?ins (done_row now ?i))) = (Inr (), db2)"
    using resolve_done_returns [OF cleared] by blast
  then have "mark ?aid ?kind True err None m force now ?c = (Inr (Some ''done''), db2)"
    using mark_done_single(1) [OF single open_row(1,2) cleared, of err m force now] by (simp add: same open_row)
  then show ?thesis using one two fin rid by (auto simp: resolved_intent_statements_def)
qed

section \<open>Examples\<close>

definition demo_intent :: outbox_row where
  "demo_intent = \<lparr>ob_authorization_id = ''a'', ob_intent_kind = ''settle'',
     ob_frozen = \<lparr>fi_settle_origin = ''typed'', fi_reservation_id = Some ''r'', fi_actual_cost = 7, fi_selected_endpoint_id = None,
       fi_model_id = Some ''m'', fi_selected_usage_type = Some ''Credits'', fi_settle_body = Some ''{}''\<rparr>,
     ob_status = ''pending'', ob_attempts = 0, ob_last_error = None, ob_next_attempt_at = Some 10, ob_lease_owner = None,
     ob_leased_until = None, ob_created_at = 10, ob_updated_at = None, ob_terminal_at = None, ob_async_version = None,
     ob_workspace_id = None, ob_snapshot_hash = None, ob_payload_hash = None, ob_refill = intent_refill (Some ''w'') 10 10\<rparr>"

definition demo_settled :: typed_db where
  "demo_settled = demo_open_db\<lparr>tr_reservation := [(new_reservation demo_authorize 0 5 0 5)\<lparr>rs_settled := True, rs_terminal_at := Some 9\<rparr>]\<rparr>"

definition demo_calls :: "outbox_call list" where
  "demo_calls = [Enqueue True demo_intent 0 False None 10, Claim_One demo_intent ''x'' 60000010 20,
     Mark ''a'' ''settle'' False (Some ''late'') (Some ''x'') 8 False 30, Complete_Reservation ''r'' 40, Request (Settle demo_settle)]"

theorem outstanding_intent_keeps_records_witness:
  "map rs_terminal_at (tr_reservation demo_settled) = [Some 9] \<and>
   map (\<lambda>b. (ob_status b, ob_attempts b)) (tr_settle_outbox (fold outbox_step demo_calls demo_settled)) = [(''pending'', 1)] \<and>
   map (\<lambda>r. (rs_authorization_id r, rs_terminal_at r)) (tr_reservation (fold outbox_step demo_calls demo_settled)) = [(Some ''a'', None)]"
proof (intro conjI)
  let ?s = "fold outbox_step demo_calls demo_settled"
  show "map rs_terminal_at (tr_reservation demo_settled) = [Some 9]" by code_simp
  show "map (\<lambda>b. (ob_status b, ob_attempts b)) (tr_settle_outbox ?s) = [(''pending'', 1)]" by code_simp
  have "map (\<lambda>b. (ob_authorization_id b, ob_status b)) (tr_settle_outbox ?s) = [(''a'', ''pending'')]" by code_simp
  then obtain b where b: "b \<in> set (tr_settle_outbox ?s)" "ob_authorization_id b = ''a''" "ob_status b = ''pending''" by auto
  have start: "retained demo_settled"
    by (simp add: retained_def has_intent_def outbox_guards_def demo_settled_def demo_open_db_def demo_typed_db_def)
  have legal: "legal_run outbox_step outbox_legal demo_calls demo_settled" by code_simp
  have "\<forall>r \<in> set (tr_reservation ?s). rs_authorization_id r = Some ''a'' \<longrightarrow> rs_terminal_at r = None"
    using outstanding_intent_keeps_records [OF start legal b(1)] b(2,3) by simp
  moreover have "map rs_authorization_id (tr_reservation ?s) = [Some ''a'']" by code_simp
  ultimately show "map (\<lambda>r. (rs_authorization_id r, rs_terminal_at r)) (tr_reservation ?s) = [(Some ''a'', None)]"
    by (auto simp: map_eq_Cons_conv)
qed

definition demo_waiting :: typed_db where
  "demo_waiting = demo_settled\<lparr>tr_settle_outbox := [demo_intent]\<rparr>"

definition demo_others :: "outbox_call list" where
  "demo_others = [Enqueue True (demo_intent\<lparr>ob_frozen := (ob_frozen demo_intent)\<lparr>fi_actual_cost := 9\<rparr>\<rparr>) 0 False None 30,
     Claim_One demo_intent ''y'' 90000000 40, Mark ''a'' ''settle'' True None None 8 False 50, Complete_Reservation ''r'' 60]"

theorem lease_fences_intent_witness:
  "\<exists>r s'. get_intent ''a'' ''settle'' (fold outbox_step demo_others (snd (claim_one demo_intent ''x'' 60000010 20 demo_waiting))) = Some r \<and>
     fi_actual_cost (ob_frozen r) = 7 \<and>
     mark ''a'' ''settle'' True None (Some ''x'') 8 False 70 (fold outbox_step demo_others (snd (claim_one demo_intent ''x'' 60000010 20 demo_waiting))) =
       (Inr (Some ''done''), s') \<and> get_intent ''a'' ''settle'' s' = Some (done_row 70 r)"
proof -
  let ?db0 = "snd (claim_one demo_intent ''x'' 60000010 20 demo_waiting)"
  have keys: "outbox_distinct demo_waiting" by code_simp
  have "fst (claim_one demo_intent ''x'' 60000010 20 demo_waiting)" by code_simp
  then have claim: "claim_one demo_intent ''x'' 60000010 20 demo_waiting = (True, ?db0)" by (metis prod.collapse)
  have get: "get_intent ''a'' ''settle'' demo_waiting = Some demo_intent"
    by (simp add: get_intent_def demo_waiting_def outbox_at_def demo_intent_def)
  have at: "outbox_at ''a'' ''settle'' demo_intent" by (simp add: outbox_at_def demo_intent_def)
  have others: "\<forall>c \<in> set demo_others. stands_off ''a'' ''settle'' ''x'' 60000010 c" by (simp add: demo_others_def)
  have records: "authorizations_distinct (fold outbox_step demo_others ?db0)" "ids_distinct (fold outbox_step demo_others ?db0)"
    by code_simp+
  have cost: "fi_actual_cost (ob_frozen demo_intent) = 7" by (simp add: demo_intent_def)
  show ?thesis
    using lease_fences_intent [OF keys claim get at others records, of None 8 False 70] cost by metis
qed

theorem one_commit_equals_two_witness:
  "\<exists>sts db1 db2. resolved_intent_statements demo_intent 0 10 = Inr sts \<and>
    enqueue True demo_intent 0 False None 10 demo_settled = (Inr ''inserted'', db1) \<and>
    mark ''a'' ''settle'' True None None 8 False 10 db1 = (Inr (Some ''done''), db2) \<and>
    run_batch sts (intent_insert_counts sts) demo_settled = (Inr (), db2)"
proof -
  have "get_intent (ob_authorization_id demo_intent) (ob_intent_kind demo_intent) demo_settled = None"
    by (simp add: get_intent_def demo_settled_def demo_open_db_def demo_typed_db_def)
  moreover have "authorizations_distinct demo_settled" "ids_distinct demo_settled" "given (fi_reservation_id (ob_frozen demo_intent))"
    by code_simp+
  moreover have "ob_authorization_id demo_intent = ''a''" "ob_intent_kind demo_intent = ''settle''" by (simp_all add: demo_intent_def)
  ultimately show ?thesis
    using one_commit_equals_two [of demo_intent demo_settled 0 10 True False None 8 False] by simp
qed

end
