(* ===== verification/Spec2Isabelle.thy ===== *)
theory Spec2Isabelle
  imports Credit_Transfer Settlement Earnings Group_Buy Tokens Rate_Limits Video_Jobs
    Workspace_Inventory Billing Fees Billing_Snapshot Creator_Models Settle_Outbox
begin

text \<open>
  A verification library for TrustedRouter (\<open>src/src/trusted_router\<close>), a router that sells access to
  language models: callers hold API keys in workspaces, workspaces hold prepaid credit, every request
  reserves credit, is routed to a provider, and is settled against the reservation.  Several regional
  \<^emph>\<open>planes\<close> run the same program and move credit and usage between each other.

  \<^bold>\<open>The modelled parts and how they interact.\<close>  The money of the program lives in one store.
  \<open>InMemoryStore\<close> (\<open>storage.py\<close>) is the reference implementation of the storage protocol: one lock guards
  it, so each of its methods is one atomic step, and the methods are functions on the record
  \<open>Store.store\<close>.  A method that may raise returns its result as \<open>Inl error\<close> or \<open>Inr value\<close> together
  with the store it leaves behind, also on the error path.  Concurrency is any interleaving of such
  steps: the theorems about runs quantify over arbitrary lists of calls, and what the environment
  guarantees of a call (a random id is fresh) is an explicit predicate (\<open>legal_run\<close>).

  \<^item> \<open>Prelude\<close>: exceptions as values, Python dicts as association lists in insertion order, text, and
    the interfaces as locales: \<open>invariant_run\<close>, \<open>conserving_run\<close>, \<open>refining_run\<close> (runs of calls),
    \<open>insert_once\<close> and \<open>invariant_once\<close> (tables whose entries are final).
  \<^item> \<open>Models\<close>: the dataclasses of \<open>storage_models.py\<close> that the stores keep.
  \<^item> \<open>Spend_Windows\<close>, \<open>Api_Keys\<close>: \<open>spend_windows.py\<close>, \<open>storage_keys.py\<close>, \<open>scopes.py\<close>, \<open>security.py\<close>.
    Keys, lifetime and window caps, credit reservations, authorizations.  A workspace's reserved counter
    is the sum of its open reservations; a reservation never overdraws; a cap is never exceeded.
  \<^item> \<open>Trust_Tiers\<close>: \<open>trust_tiers.py\<close> and \<open>trust_reconciliation.py\<close>.  The lifecycle of refunds and
    disputes, the recovery target of a payment, trust tiers, and the reconciler's independent derivation
    of the same target.
  \<^item> \<open>Store\<close>, \<open>Credit_Ledger\<close>: the tables of \<open>storage.py\<close> and its credit ledger.  Payments enter once,
    adverse events move money without creating or losing any, debits are guarded, transfers conserve.
  \<^item> \<open>Settlement\<close>: gateway authorizations and their finalization, the pause of a workspace, the
    generation log and benchmark samples (\<open>storage_generations.py\<close>, \<open>storage_legacy_trust.py\<close>).
  \<^item> \<open>Billing\<close>: all billing calls in one run.  A journal of what the calls posted, by their results, is
    an abstract ledger; the store's counters refine it.
  \<^item> \<open>Credit_Transfer\<close>: \<open>credit_transfer.py\<close>, \<open>services/credit_transfer.py\<close> and the claim endpoint of
    \<open>routes/internal/federation.py\<close>: two planes and a network that loses, duplicates and reorders.  The
    value of both planes plus the escrow is constant, a verdict is final, an answered escrow resolves.
  \<^item> \<open>Earnings\<close>: user earnings, cash-outs and payout profiles; double entry over any run.
  \<^item> \<open>Workspaces\<close>, \<open>Workspace_Inventory\<close>: users, members, workspaces, the owner budget, abuse reports
    and the closure of an account (\<open>storage.py\<close>, \<open>trust_ownership.py\<close>, \<open>storage_account_closure.py\<close>).
  \<^item> \<open>Group_Buy\<close> (\<open>storage_group_buy.py\<close>), \<open>Tokens\<close> (sessions, OAuth codes, verification tokens, wallet
    challenges), \<open>Rate_Limits\<close> (\<open>storage_rate_limits.py\<close>), \<open>Video_Jobs\<close> (\<open>storage_video_jobs.py\<close>): the
    stores that \<open>InMemoryStore\<close> composes.
  \<^item> \<open>Money\<close>, \<open>Fees\<close>: \<open>money.py\<close>, \<open>services/stripe_fees.py\<close>, \<open>services/checkout_fees.py\<close>.  Decimal text and
    microdollars, the gross-up of a purchase, and the search for the largest one.
  \<^item> \<open>Pricing\<close>, \<open>Stage_D\<close>, \<open>Billing_Snapshot\<close>: \<open>pricing.py\<close>, \<open>stage_d.py\<close>, \<open>storage_gcp_stage_d.py\<close>,
    \<open>billing_snapshot.py\<close> and their helpers.  Customer prices and price tiers, the pricing document frozen
    with an authorization, heartbeats of a running stream, and the checked 64-bit evaluation of the
    asynchronous settlement, which charges exactly what the frozen document charges.
  \<^item> \<open>Phone\<close>, \<open>Identity\<close>, \<open>Creator_Models\<close>: \<open>phone_verification.py\<close>, \<open>creator_identity.py\<close>, the identity part
    of \<open>storage.py\<close>, \<open>storage_custom_models.py\<close> and \<open>storage_user_models.py\<close>.  A phone number is verified
    only by its code, the loss of an identity demotes every workspace of its owner, published models are
    found under their names and hold at most their concurrency slots.
  \<^item> \<open>Credit_Debt\<close>, \<open>Credit_Rows\<close>: the production ledger.  \<open>credit_debt.py\<close> and \<open>storage_gcp_counters.py\<close> are
    pure rules; \<open>storage_gcp_counter_dml.py\<close>, \<open>storage_gcp_credit_debt.py\<close>, \<open>storage_gcp_credit_rebalance.py\<close>
    and parts of \<open>storage_gcp_trust.py\<close>, \<open>storage_gcp_credit_transfer.py\<close> and \<open>storage_gcp.py\<close> apply them to
    the rows of \<open>tr_credit_balance\<close>.  A table is a list of rows, a statement an update of the rows that
    match, a transaction a function on the tables.  The rows obey the debt rules after any run of
    transactions and their net credit is what the transactions posted.
  \<^item> \<open>Key_Rows\<close>, \<open>Typed_Authorize\<close>: the production request path.  The key counters of \<open>tr_key_limit\<close> and the
    strict admission (\<open>storage_gcp_counter_dml.py\<close>, \<open>storage_gcp_strict_budget.py\<close>); the authorize and settle
    transactions, the snapshot checks before them and the cache of exhausted keys
    (\<open>storage_gcp_authorize.py\<close>, \<open>storage_gcp_batch_dml.py\<close>, parts of \<open>storage_gcp_request_records.py\<close>).  The speculative batch with its rollback equals the sequential
    transaction; a snapshot check never refuses what the transaction admits; strict windows admit exactly
    what fits; over any run every reserved counter is the sum of the open holds and a reservation
    settles once.
  \<^item> \<open>Settle_Outbox\<close>: \<open>storage_gcp_settle_outbox.py\<close>, the durable settlement intents with their leases,
    retries, retention and refill work, over the same tables.  A lease fences its intent, outstanding
    intents keep the records they need, and one commit writes what two would.

  \<^bold>\<open>Conventions.\<close>  Definitions keep the source's names where they do not clash; the prefix of a
  record field names its class.  Clock readings, random identifiers and hash functions are arguments.
  Amounts are unbounded integers, as in Python; where the code bounds them to 64 bits the check is part
  of the definition.  Loops are structural recursion or have a termination proof; no definition uses
  fuel.  Theorems that a call returns are stated as such, since errors are values.

  \<^bold>\<open>Not modelled, and why.\<close>  The rest of the Spanner, Bigtable, Postgres and ClickHouse stores
  (\<open>storage_gcp*.py\<close>, \<open>storage_postgres*.py\<close>, \<open>clickhouse\<close>) implements the protocol of the in-memory store,
  which is the specification they are tested against; locks, retries and isolation are the database's.
  That includes the reaper of expired reservations, the one-commit finalization with its payouts and the
  worker that drains the settlement outbox.  HTTP routes, middleware, authentication glue, dashboards, marketing pages, catalog data and provider adapters are
  input and output around the modelled operations.  Synthetic probes, evaluations, analytics and the
  deployment scripts observe the system and do not decide about money.  The Go fast path is a separate
  implementation in another language.
\<close>

end
